(* ===== verification/Type_Names.thy ===== *)
theory Type_Names
  imports Prelude
begin

text \<open>
  The canonical spelling of handle types (\<^verbatim>\<open>Absolute-Parser/include/type_names.h\<close>): which
  lifetime relation a type name says a handle has, what it points at, and how a qualifier
  is put on a finished type. \<open>std::string\<close> is a \<open>string\<close>; \<open>substr\<close>, \<open>pop_back\<close>,
  \<open>resize\<close> and \<open>erase\<close> are \<open>drop\<close>, \<open>butlast\<close> and \<open>take\<close>.
\<close>

section \<open>Ownership kinds and canonical names\<close>

datatype OwnershipKind = OK_None | OK_Unique | OK_Sub | OK_Weak | OK_Raw

fun CanonicalOwnershipPrefix :: "OwnershipKind \<Rightarrow> string" where
  "CanonicalOwnershipPrefix OK_Raw = ''raw ''"
| "CanonicalOwnershipPrefix OK_Weak = ''weak ''"
| "CanonicalOwnershipPrefix OK_Sub = ''sub ''"
| "CanonicalOwnershipPrefix OK_Unique = ''''"
| "CanonicalOwnershipPrefix OK_None = ''''"

definition CanonicalOwnership :: "string \<Rightarrow> OwnershipKind" where
  "CanonicalOwnership type =
     (if type = [] \<or> \<not> ends_with type ''*'' then OK_None
      else if starts_with type ''raw '' then OK_Raw
      else if starts_with type ''weak '' then OK_Weak
      else if starts_with type ''sub '' then OK_Sub
      else OK_Unique)"

definition CanonicalPointeeName :: "string \<Rightarrow> string" where
  "CanonicalPointeeName type =
     (let kind = CanonicalOwnership type in
      if kind = OK_None then type
      else butlast (drop (length (CanonicalOwnershipPrefix kind)) type))"

definition CanonicalPointerName :: "string \<Rightarrow> OwnershipKind \<Rightarrow> string" where
  "CanonicalPointerName pointee kind = CanonicalOwnershipPrefix kind @ pointee @ ''*''"

definition CanonicalOpenOwnership :: "string \<Rightarrow> OwnershipKind" where
  "CanonicalOpenOwnership type =
     (if type = [] \<or> ends_with type ''*'' then OK_None
      else if starts_with type ''raw '' then OK_Raw
      else if starts_with type ''weak '' then OK_Weak
      else if starts_with type ''sub '' then OK_Sub
      else OK_None)"

definition CanonicalOpenBaseName :: "string \<Rightarrow> string" where
  "CanonicalOpenBaseName type =
     (let kind = CanonicalOpenOwnership type in
      if kind = OK_None then type
      else drop (length (CanonicalOwnershipPrefix kind)) type)"

function CanonicalWithOwnership :: "string \<Rightarrow> OwnershipKind \<Rightarrow> string" where
  "CanonicalWithOwnership type kind =
     (if ends_with type ''[]'' then
        CanonicalWithOwnership (take (length type - 2) type) kind @ ''[]''
      else if CanonicalOwnership type = OK_None then type
      else CanonicalPointerName (CanonicalPointeeName type) kind)"
  by pat_completeness auto
termination
  by (relation "measure (\<lambda>(t, _). length t)") (auto simp: ends_with_def)

declare CanonicalWithOwnership.simps [simp del]

section \<open>Copying, moving and dropping\<close>

record HandleSemantics =
  copyable :: bool
  movable :: bool
  needsDrop :: bool

datatype DropKind = Drop_None | Drop_Closure | Drop_ManagedOwner | Drop_ArrayStorage
  | Drop_StringStorage | Drop_TupleValue | Drop_ClassObject | Drop_StructObject
  | Drop_PluginResource

fun CanonicalHandleSemantics :: "OwnershipKind \<Rightarrow> HandleSemantics" where
  "CanonicalHandleSemantics OK_Unique = \<lparr>copyable = False, movable = True, needsDrop = True\<rparr>"
| "CanonicalHandleSemantics _ = \<lparr>copyable = True, movable = True, needsDrop = False\<rparr>"

section \<open>Value references\<close>

definition IsCanonicalValueReferenceType :: "string \<Rightarrow> bool" where
  "IsCanonicalValueReferenceType type \<longleftrightarrow> type \<noteq> [] \<and> ends_with type ''&''"

definition IsCanonicalConstValueReferenceType :: "string \<Rightarrow> bool" where
  "IsCanonicalConstValueReferenceType type \<longleftrightarrow>
     IsCanonicalValueReferenceType type \<and> starts_with type ''const ''"

definition CanonicalValueReferenceBaseType :: "string \<Rightarrow> string" where
  "CanonicalValueReferenceBaseType type =
     (if \<not> IsCanonicalValueReferenceType type then type
      else let base = take (length type - 1) type in
        if starts_with base ''const '' then drop 6 base else base)"

definition CanonicalValueReferenceType :: "string \<Rightarrow> bool \<Rightarrow> bool \<Rightarrow> string" where
  "CanonicalValueReferenceType type isConst isReference =
     (if \<not> isReference then type
      else (if isConst then ''const '' else '''') @ type @ ''&'')"

section \<open>Lemmas\<close>

definition has_qualifier :: "string \<Rightarrow> bool" where
  "has_qualifier s \<longleftrightarrow> starts_with s ''raw '' \<or> starts_with s ''weak '' \<or> starts_with s ''sub ''"

lemma starts_with_Nil [str_simps]: "starts_with s []"
  by (simp add: starts_with_def)

lemma starts_with_Cons [str_simps]:
  "starts_with (c # s) (d # p) \<longleftrightarrow> c = d \<and> starts_with s p"
  "\<not> starts_with [] (d # p)"
  by (auto simp: starts_with_def)

lemma CanonicalOwnership_pointer:
  "CanonicalOwnership (CanonicalOwnershipPrefix k @ p @ ''*'') =
     (case k of OK_None \<Rightarrow> CanonicalOwnership (p @ ''*'')
      | OK_Unique \<Rightarrow> CanonicalOwnership (p @ ''*'') | _ \<Rightarrow> k)"
  by (cases k) (simp_all add: CanonicalOwnership_def ends_with_single str_simps)

lemma starts_with_snoc_star:
  assumes "CHR ''*'' \<notin> set q"
  shows "starts_with (p @ ''*'') q \<longleftrightarrow> starts_with p q"
proof (cases "length q \<le> length p")
  case True
  then show ?thesis by (simp add: starts_with_def)
next
  case False
  then have "\<not> starts_with p q" by (auto simp: starts_with_def dest: arg_cong [where f = length])
  moreover have "\<not> starts_with (p @ ''*'') q"
    using False assms by (auto simp: starts_with_def)
  ultimately show ?thesis by simp
qed

lemma CanonicalOwnership_plain:
  "CanonicalOwnership (p @ ''*'') = OK_Unique \<longleftrightarrow> \<not> has_qualifier p"
  by (simp add: CanonicalOwnership_def has_qualifier_def ends_with_single starts_with_snoc_star)

lemma CanonicalOwnership_not_None [simp]: "CanonicalOwnership (p @ ''*'') \<noteq> OK_None"
  by (simp add: CanonicalOwnership_def ends_with_single)

lemma ownership_of_pointer_name:
  assumes "k \<noteq> OK_None" and "k = OK_Unique \<Longrightarrow> \<not> has_qualifier p"
  shows "CanonicalOwnership (CanonicalPointerName p k) = k"
  using assms by (cases k)
    (simp_all add: CanonicalPointerName_def CanonicalOwnership_pointer CanonicalOwnership_plain
      del: CanonicalOwnershipPrefix.simps)

lemma CanonicalPointerName_shape: "ends_with (CanonicalPointerName p k) ''*''"
  unfolding CanonicalPointerName_def by (subst append_assoc [symmetric]) (rule ends_with_append)

lemma not_array_if_pointer: "ends_with s ''*'' \<Longrightarrow> \<not> ends_with s ''[]''"
  by (auto simp: ends_with_iff)

lemma pointee_of_pointer_name:
  assumes "k \<noteq> OK_None" and "k = OK_Unique \<Longrightarrow> \<not> has_qualifier p"
  shows "CanonicalPointeeName (CanonicalPointerName p k) = p"
proof -
  have "CanonicalOwnership (CanonicalPointerName p k) = k"
    using assms by (rule ownership_of_pointer_name)
  moreover have "butlast (drop (length (CanonicalOwnershipPrefix k)) (CanonicalPointerName p k)) = p"
    by (simp add: CanonicalPointerName_def)
  ultimately show ?thesis
    using assms(1) by (simp add: CanonicalPointeeName_def Let_def)
qed

lemma marked_pointer_name:
  assumes "k \<noteq> OK_None" and "k \<noteq> OK_Unique"
  shows "CanonicalOwnership (CanonicalPointerName p k) = k"
    and "CanonicalPointeeName (CanonicalPointerName p k) = p"
  using ownership_of_pointer_name [of k p] pointee_of_pointer_name [of k p] assms by auto

lemma CanonicalWithOwnership_scalar:
  "\<not> ends_with t ''[]'' \<Longrightarrow> CanonicalWithOwnership t k =
     (if CanonicalOwnership t = OK_None then t else CanonicalPointerName (CanonicalPointeeName t) k)"
  by (simp add: CanonicalWithOwnership.simps [of t k])

lemma pointer_name_not_array [simp]: "\<not> ends_with (CanonicalPointerName p k) ''[]''"
  by (rule not_array_if_pointer) (rule CanonicalPointerName_shape)

section \<open>Properties\<close>

text \<open>
  A handle name can be taken apart again: the canonical name of a handle of kind \<open>k\<close>
  to \<open>p\<close> says kind \<open>k\<close> and pointee \<open>p\<close>, for every real kind, provided that for the
  unmarked (unique) kind the pointee's own name does not begin with a qualifier.
\<close>

theorem pointer_name_roundtrip:
  assumes "k \<noteq> OK_None" and "k = OK_Unique \<Longrightarrow> \<not> has_qualifier p"
  shows "CanonicalOwnership (CanonicalPointerName p k) = k
    \<and> CanonicalPointeeName (CanonicalPointerName p k) = p"
  using assms by (simp add: ownership_of_pointer_name pointee_of_pointer_name)

lemma pointer_name_roundtrip_witness:
  "OK_Unique \<noteq> OK_None \<and> \<not> has_qualifier ''Node''
   \<and> CanonicalOwnership (CanonicalPointerName ''Node'' OK_Unique) = OK_Unique
   \<and> CanonicalPointeeName (CanonicalPointerName ''Node'' OK_Unique) = ''Node''"
proof -
  have q: "\<not> has_qualifier ''Node''" by (simp add: has_qualifier_def starts_with_def)
  show ?thesis using q pointer_name_roundtrip [of OK_Unique "''Node''"] by simp
qed

text \<open>
  The proviso of the round trip is needed: a unique pointer to a raw pointer and a raw
  pointer to a unique pointer have the same canonical name, and reading that name back
  answers raw, so the ownership of the outer handle is lost.
\<close>

theorem unique_to_raw_name_collides:
  "CanonicalPointerName (CanonicalPointerName p OK_Raw) OK_Unique =
     CanonicalPointerName (CanonicalPointerName p OK_Unique) OK_Raw
   \<and> CanonicalOwnership (CanonicalPointerName (CanonicalPointerName p OK_Raw) OK_Unique) = OK_Raw"
  by (simp add: CanonicalPointerName_def CanonicalOwnership_def ends_with_single starts_with_Cons
      starts_with_Nil)

text \<open>
  Qualifying a finished type twice is qualifying it once with the last qualifier: an
  earlier qualifier leaves no trace, through any number of array suffixes.
\<close>

theorem with_ownership_overwrites:
  assumes "k \<noteq> OK_None" and "k \<noteq> OK_Unique"
  shows "CanonicalWithOwnership (CanonicalWithOwnership t k) k' = CanonicalWithOwnership t k'"
  using assms
proof (induction t k rule: CanonicalWithOwnership.induct)
  case (1 t k)
  show ?case
  proof (cases "ends_with t ''[]''")
    case True
    let ?u = "take (length t - 2) t"
    have "CanonicalWithOwnership (CanonicalWithOwnership t k) k'
        = CanonicalWithOwnership (CanonicalWithOwnership ?u k @ ''[]'') k'"
      using True by (simp add: CanonicalWithOwnership.simps [of t k])
    also have "\<dots> = CanonicalWithOwnership (CanonicalWithOwnership ?u k) k' @ ''[]''"
      by (subst CanonicalWithOwnership.simps) (simp add: ends_with_append)
    also have "\<dots> = CanonicalWithOwnership ?u k' @ ''[]''"
      using "1.IH" [OF True "1.prems"] by simp
    also have "\<dots> = CanonicalWithOwnership t k'"
      using True by (simp add: CanonicalWithOwnership.simps [of t k'])
    finally show ?thesis .
  next
    case False
    then show ?thesis
      using "1.prems" by (cases "CanonicalOwnership t = OK_None")
        (simp_all add: CanonicalWithOwnership_scalar CanonicalPointerName_shape
          marked_pointer_name)
  qed
qed

lemma with_ownership_overwrites_witness:
  "OK_Sub \<noteq> OK_None \<and> OK_Sub \<noteq> OK_Unique
   \<and> CanonicalWithOwnership (CanonicalWithOwnership ''Node*[]'' OK_Sub) OK_Weak =
       CanonicalWithOwnership ''Node*[]'' OK_Weak"
  using with_ownership_overwrites [of OK_Sub "''Node*[]''" OK_Weak] by simp

end
