(* ===== verification/Tokens.thy ===== *)
theory Tokens
  imports Prelude
begin

text \<open>
  Tokens and the lexical tables (\<^verbatim>\<open>Absolute-Parser/include/lexer.h\<close> and the tables of
  \<^verbatim>\<open>Absolute-Parser/src/lexer.cpp\<close>). An \<open>unordered_map\<close> with fixed contents is an
  association list read by \<open>map_of\<close>, an \<open>unordered_set\<close> a list read by \<open>List.member\<close>;
  \<open>int\<close> lines and columns are \<open>int\<close>.
\<close>

section \<open>Token types\<close>

datatype TokenType = T_NUMBER | T_KEYWORD | T_IDENTIFIER | T_OPERATOR | T_DELIMITER
  | T_STRING | T_CHAR | T_COMMENT | T_BRACKET | T_WHITESPACE

text \<open>\<open>static_cast<int>(tokenType)\<close>: the enumerators are numbered in order.\<close>

fun token_code :: "TokenType \<Rightarrow> nat" where
  "token_code T_NUMBER = 0"
| "token_code T_KEYWORD = 1"
| "token_code T_IDENTIFIER = 2"
| "token_code T_OPERATOR = 3"
| "token_code T_DELIMITER = 4"
| "token_code T_STRING = 5"
| "token_code T_CHAR = 6"
| "token_code T_COMMENT = 7"
| "token_code T_BRACKET = 8"
| "token_code T_WHITESPACE = 9"

lemma token_code_inj: "token_code a = token_code b \<longleftrightarrow> a = b"
  by (cases a; cases b) simp_all

text \<open>The order of the enumeration, so that token types are a linear order of the library.\<close>

instantiation TokenType :: linorder
begin

definition less_eq_TokenType :: "TokenType \<Rightarrow> TokenType \<Rightarrow> bool" where
  "less_eq_TokenType a b \<longleftrightarrow> token_code a \<le> token_code b"

definition less_TokenType :: "TokenType \<Rightarrow> TokenType \<Rightarrow> bool" where
  "less_TokenType a b \<longleftrightarrow> token_code a < token_code b"

instance
  by standard (auto simp: less_eq_TokenType_def less_TokenType_def token_code_inj)

end

datatype OperatorCategory = Cat_Arithmetic | Cat_Comparison | Cat_Logical | Cat_Bitwise
  | Cat_Assignment | Cat_Unknown

record token =
  tok_type :: TokenType
  tok_value :: string
  tok_line :: int
  tok_column :: int

fun TokenTypeToString :: "TokenType \<Rightarrow> string" where
  "TokenTypeToString T_NUMBER = ''NUMBER''"
| "TokenTypeToString T_KEYWORD = ''KEYWORD''"
| "TokenTypeToString T_IDENTIFIER = ''IDENTIFIER''"
| "TokenTypeToString T_OPERATOR = ''OPERATOR''"
| "TokenTypeToString T_DELIMITER = ''DELIMITER''"
| "TokenTypeToString T_STRING = ''STRING''"
| "TokenTypeToString T_CHAR = ''CHAR''"
| "TokenTypeToString T_COMMENT = ''COMMENT''"
| "TokenTypeToString T_BRACKET = ''BRACKET''"
| "TokenTypeToString T_WHITESPACE = ''WHITESPACE''"

section \<open>Tables\<close>

definition modifier_words :: "string list" where
  "modifier_words =
     [''public'', ''private'', ''protected'', ''sealed'', ''internal'',
      ''virtual'', ''override'', ''const'', ''static'', ''extension'',
      ''async'', ''nothrow'']"

definition precedence :: "(string \<times> int) list" where
  "precedence =
     [(''='', 1), (''+='', 1), (''-='', 1), (''*='', 1), (''/='', 1), (''%='', 1), (''&='', 1),
      (''|='', 1), (''^='', 1), (''<<='', 1), (''>>='', 1),
      (''?'', 2), (''||'', 3), (''&&'', 4), (''|'', 5), (''^'', 6), (''&'', 7),
      (''=='', 8), (''!='', 8),
      (''<'', 9), (''<='', 9), (''>'', 9), (''>='', 9),
      (''<<'', 10), (''>>'', 10),
      (''+'', 11), (''-'', 11),
      (''*'', 12), (''/'', 12), (''%'', 12),
      (''!'', 13), (''~'', 13), (''++'', 14), (''--'', 14)]"

definition prefixUnaryOps :: "string list" where
  "prefixUnaryOps = [''*'', ''&'', ''+'', ''-'', ''++'', ''--'', ''!'', ''~'']"

definition postfixUnaryOps :: "string list" where
  "postfixUnaryOps = [''++'', ''--'']"

definition primitiveTypes :: "string list" where
  "primitiveTypes =
     [''int8'', ''int16'', ''int32'', ''int64'', ''uint8'', ''uint16'', ''uint32'', ''uint64'',
      ''float'', ''double'', ''bool'', ''string'', ''char'', ''dynamic'', ''void'', ''auto'']"

definition categories :: "(string \<times> OperatorCategory) list" where
  "categories =
     [(''+'', Cat_Arithmetic), (''-'', Cat_Arithmetic), (''*'', Cat_Arithmetic),
      (''/'', Cat_Arithmetic), (''%'', Cat_Arithmetic), (''++'', Cat_Arithmetic),
      (''--'', Cat_Arithmetic),
      (''=='', Cat_Comparison), (''!='', Cat_Comparison), (''<'', Cat_Comparison),
      (''>'', Cat_Comparison), (''<='', Cat_Comparison), (''>='', Cat_Comparison),
      (''&&'', Cat_Logical), (''||'', Cat_Logical), (''!'', Cat_Logical),
      (''&'', Cat_Bitwise), (''|'', Cat_Bitwise), (''^'', Cat_Bitwise), (''~'', Cat_Bitwise),
      (''<<'', Cat_Bitwise), (''>>'', Cat_Bitwise),
      (''='', Cat_Assignment), (''+='', Cat_Assignment), (''-='', Cat_Assignment),
      (''*='', Cat_Assignment), (''/='', Cat_Assignment), (''%='', Cat_Assignment),
      (''&='', Cat_Assignment), (''|='', Cat_Assignment), (''^='', Cat_Assignment),
      (''<<='', Cat_Assignment), (''>>='', Cat_Assignment)]"

section \<open>Queries\<close>

definition GetOperatorPrecedence :: "string \<Rightarrow> int" where
  "GetOperatorPrecedence op = (case map_of precedence op of Some p \<Rightarrow> p | None \<Rightarrow> -1)"

definition IsModifier :: "string \<Rightarrow> bool" where
  "IsModifier value = List.member modifier_words value"

definition IsPrimitiveType :: "string \<Rightarrow> bool" where
  "IsPrimitiveType value = List.member primitiveTypes value"

definition IsPrefixUnary :: "token \<Rightarrow> bool" where
  "IsPrefixUnary token \<longleftrightarrow>
     (tok_type token = T_OPERATOR \<and> List.member prefixUnaryOps (tok_value token)) \<or>
     (tok_type token = T_KEYWORD \<and>
        (tok_value token = ''await'' \<or> tok_value token = ''spawn''))"

definition IsPostfixUnary :: "token \<Rightarrow> bool" where
  "IsPostfixUnary token \<longleftrightarrow>
     tok_type token = T_OPERATOR \<and> List.member postfixUnaryOps (tok_value token)"

definition IsLiteral :: "TokenType \<Rightarrow> bool" where
  "IsLiteral type \<longleftrightarrow> type = T_NUMBER \<or> type = T_STRING \<or> type = T_CHAR"

definition IsEndOfStatement :: "token \<Rightarrow> bool" where
  "IsEndOfStatement token \<longleftrightarrow> tok_type token = T_DELIMITER \<and> tok_value token = '';''"

definition GetOperatorCategory :: "string \<Rightarrow> OperatorCategory" where
  "GetOperatorCategory op = (case map_of categories op of Some c \<Rightarrow> c | None \<Rightarrow> Cat_Unknown)"

definition IsFloatingLiteral :: "string \<Rightarrow> bool" where
  "IsFloatingLiteral literal =
     (if length literal > 1 \<and> literal ! 0 = CHR ''0'' \<and>
         (literal ! 1 = CHR ''x'' \<or> literal ! 1 = CHR ''X'' \<or>
          literal ! 1 = CHR ''b'' \<or> literal ! 1 = CHR ''B'' \<or>
          literal ! 1 = CHR ''o'' \<or> literal ! 1 = CHR ''O'')
      then False
      else CHR ''.'' \<in> set literal \<or> CHR ''e'' \<in> set literal \<or> CHR ''E'' \<in> set literal)"

section \<open>Lemmas\<close>

text \<open>Every assignment operator sits at the lowest precedence level, and nothing else does.\<close>

lemma assignment_precedence:
  "GetOperatorCategory op = Cat_Assignment \<longleftrightarrow> GetOperatorPrecedence op = 1"
  by (simp add: GetOperatorCategory_def GetOperatorPrecedence_def categories_def precedence_def)

lemma precedence_range: "-1 \<le> GetOperatorPrecedence op \<and> GetOperatorPrecedence op \<le> 14"
  by (simp add: GetOperatorPrecedence_def precedence_def)

end
