(* ===== verification/Regex.thy ===== *)
theory Regex
  imports Prelude
begin

text \<open>
  The part of \<open>std::regex\<close> (ECMAScript grammar, depth-first executor) that the lexer uses:
  character classes, sequence, ordered alternation, greedy and lazy repetition and the word
  boundary. A subject is a pair of the character before the current position (if any) and the
  characters from it on. \<open>rx_matches r st\<close> lists the positions where a match of \<open>r\<close> that
  starts at \<open>st\<close> can end, in the order in which the backtracking executor tries them, so
  its head is the match that \<open>std::regex\<close> reports. An iteration of a repetition that consumes
  nothing is abandoned, as the standard requires.
\<close>

section \<open>Patterns and the matcher\<close>

datatype rx =
    Eps
  | Cls "char \<Rightarrow> bool"
  | Sq rx rx
  | Alt rx rx
  | Star rx
  | LazyStar rx
  | WordBoundary

type_synonym subject = "char option \<times> string"

definition word_char :: "char \<Rightarrow> bool" where
  "word_char c \<longleftrightarrow> isalnum c \<or> c = CHR ''_''"

definition at_word_boundary :: "subject \<Rightarrow> bool" where
  "at_word_boundary st \<longleftrightarrow>
     ((case fst st of None \<Rightarrow> False | Some c \<Rightarrow> word_char c) \<noteq>
      (case snd st of [] \<Rightarrow> False | c # _ \<Rightarrow> word_char c))"

function rx_matches :: "rx \<Rightarrow> subject \<Rightarrow> subject list" where
  "rx_matches Eps st = [st]"
| "rx_matches (Cls p) st =
     (case snd st of [] \<Rightarrow> [] | c # cs \<Rightarrow> if p c then [(Some c, cs)] else [])"
| "rx_matches (Sq r s) st = concat (map (rx_matches s) (rx_matches r st))"
| "rx_matches (Alt r s) st = rx_matches r st @ rx_matches s st"
| "rx_matches (Star r) st =
     concat (map (\<lambda>t. if length (snd t) < length (snd st) then rx_matches (Star r) t else [])
       (rx_matches r st)) @ [st]"
| "rx_matches (LazyStar r) st =
     st # concat (map (\<lambda>t. if length (snd t) < length (snd st) then rx_matches (LazyStar r) t else [])
       (rx_matches r st))"
| "rx_matches WordBoundary st = (if at_word_boundary st then [st] else [])"
  by pat_completeness auto
termination
  by (relation "measures [\<lambda>(r, _). size r, \<lambda>(_, st). length (snd st)]") auto

text \<open>The equations of the repetitions unfold for ever on a symbolic subject.\<close>

declare rx_matches.simps(5,6) [simp del]

text \<open>\<open>std::regex_match\<close>: some match of the whole subject.\<close>

definition regex_match :: "string \<Rightarrow> rx \<Rightarrow> bool" where
  "regex_match s r \<longleftrightarrow> list_ex (\<lambda>st. snd st = []) (rx_matches r (None, s))"

text \<open>
  \<open>std::regex_search\<close> from a position: the leftmost start that matches, and the first match
  there; the result is the skipped text, the matched text and the subject after the match.
\<close>

fun regex_search :: "rx \<Rightarrow> char option \<Rightarrow> string \<Rightarrow> (string \<times> string \<times> subject) option" where
  "regex_search r p s =
     (case rx_matches r (p, s) of
        st # _ \<Rightarrow> Some ([], take (length s - length (snd st)) s, st)
      | [] \<Rightarrow>
          (case s of [] \<Rightarrow> None
           | c # cs \<Rightarrow> map_option (\<lambda>(skipped, m). (c # skipped, m)) (regex_search r (Some c) cs)))"

declare regex_search.simps [simp del]

section \<open>Pattern abbreviations\<close>

definition lit :: "char \<Rightarrow> rx" where
  "lit c = Cls (\<lambda>d. d = c)"

fun word :: "string \<Rightarrow> rx" where
  "word [] = Eps"
| "word [c] = lit c"
| "word (c # cs) = Sq (lit c) (word cs)"

fun alts :: "rx list \<Rightarrow> rx" where
  "alts [] = Cls (\<lambda>_. False)"
| "alts [r] = r"
| "alts (r # rs) = Alt r (alts rs)"

fun sqs :: "rx list \<Rightarrow> rx" where
  "sqs [] = Eps"
| "sqs [r] = r"
| "sqs (r # rs) = Sq r (sqs rs)"

definition opt :: "rx \<Rightarrow> rx" where
  "opt r = Alt r Eps"

definition plus :: "rx \<Rightarrow> rx" where
  "plus r = Sq r (Star r)"

definition one_of :: "string \<Rightarrow> rx" where
  "one_of cs = Cls (\<lambda>c. c \<in> set cs)"

section \<open>Lemmas\<close>

text \<open>\<open>after st w t\<close>: consuming \<open>w\<close> from \<open>st\<close> leads to \<open>t\<close>.\<close>

definition after :: "subject \<Rightarrow> string \<Rightarrow> subject \<Rightarrow> bool" where
  "after st w t \<longleftrightarrow> snd st = w @ snd t \<and> fst t = (if w = [] then fst st else Some (last w))"

lemma after_refl: "after st [] st"
  by (simp add: after_def)

lemma after_trans: "after a v b \<Longrightarrow> after b w c \<Longrightarrow> after a (v @ w) c"
  by (auto simp: after_def)

lemma after_length: "after a v b \<Longrightarrow> length (snd a) = length v + length (snd b)"
  by (simp add: after_def)

text \<open>One round of a repetition: either nothing, or one iteration and the rest.\<close>

lemma repeat_after:
  assumes "\<And>u. u \<in> set (rx_matches r st) \<Longrightarrow> \<exists>w. after st w u"
    and "\<And>u t. u \<in> set (rx_matches r st) \<Longrightarrow> length (snd u) < length (snd st) \<Longrightarrow>
       t \<in> set (rx_matches r' u) \<Longrightarrow> \<exists>w. after u w t"
    and "t = st \<or> (\<exists>u \<in> set (rx_matches r st). length (snd u) < length (snd st) \<and>
       t \<in> set (rx_matches r' u))"
  shows "\<exists>w. after st w t"
  using assms(3)
proof (elim disjE bexE conjE)
  assume "t = st"
  then show ?thesis using after_refl by blast
next
  fix u
  assume u: "u \<in> set (rx_matches r st)" "length (snd u) < length (snd st)"
    "t \<in> set (rx_matches r' u)"
  obtain v w where "after st v u" "after u w t" using assms(1) [OF u(1)] assms(2) [OF u] by blast
  then show ?thesis by (blast intro: after_trans)
qed

text \<open>Every match consumes a prefix of the subject.\<close>

lemma rx_matches_after: "t \<in> set (rx_matches r st) \<Longrightarrow> \<exists>w. after st w t"
proof (induction r st arbitrary: t rule: rx_matches.induct)
  case (2 p st)
  then obtain c cs where "snd st = c # cs" "t = (Some c, cs)"
    by (cases "snd st") (auto split: if_splits)
  then have "after st [c] t" by (simp add: after_def)
  then show ?case ..
next
  case (3 r s st)
  from "3.prems" obtain u where u: "u \<in> set (rx_matches r st)" "t \<in> set (rx_matches s u)"
    by (simp del: split_paired_Ex) blast
  obtain v w where "after st v u" "after u w t"
    using "3.IH"(1) [OF u(1)] "3.IH"(2) [OF u] by blast
  then show ?case by (blast intro: after_trans)
next
  case (5 r st)
  from "5.prems" have "t = st \<or> (\<exists>u \<in> set (rx_matches r st). length (snd u) < length (snd st) \<and>
      t \<in> set (rx_matches (Star r) u))"
    by (subst (asm) rx_matches.simps) (auto split: if_splits)
  with "5.IH" show ?case by (rule repeat_after)
next
  case (6 r st)
  from "6.prems" have "t = st \<or> (\<exists>u \<in> set (rx_matches r st). length (snd u) < length (snd st) \<and>
      t \<in> set (rx_matches (LazyStar r) u))"
    by (subst (asm) rx_matches.simps) (auto split: if_splits)
  with "6.IH" show ?case by (rule repeat_after)
qed (auto intro: after_refl split: if_splits)

text \<open>A pattern is productive when it cannot match the empty text; a syntactic check.\<close>

fun productive :: "rx \<Rightarrow> bool" where
  "productive Eps = False"
| "productive (Cls p) = True"
| "productive (Sq r s) = (productive r \<or> productive s)"
| "productive (Alt r s) = (productive r \<and> productive s)"
| "productive (Star r) = False"
| "productive (LazyStar r) = False"
| "productive WordBoundary = False"

lemma rx_matches_length: "t \<in> set (rx_matches r st) \<Longrightarrow> length (snd t) \<le> length (snd st)"
  using rx_matches_after after_length by fastforce

lemma productive_shorter:
  "productive r \<Longrightarrow> t \<in> set (rx_matches r st) \<Longrightarrow> length (snd t) < length (snd st)"
proof (induction r arbitrary: st t)
  case (Cls p)
  then show ?case by (cases "snd st") (simp_all split: if_splits)
next
  case (Sq r s)
  from Sq.prems(2) obtain u where u: "u \<in> set (rx_matches r st)" "t \<in> set (rx_matches s u)"
    by (simp del: split_paired_Ex) blast
  have le: "length (snd u) \<le> length (snd st)" "length (snd t) \<le> length (snd u)"
    using u by (simp_all only: rx_matches_length)
  show ?case
  proof (cases "productive r")
    case True
    from Sq.IH(1) [OF True u(1)] le(2) show ?thesis by (rule le_less_trans [rotated])
  next
    case False
    with Sq.prems(1) have "productive s" by simp
    from Sq.IH(2) [OF this u(2)] le(1) show ?thesis by (rule less_le_trans)
  qed
next
  case (Alt r s)
  from Alt.prems(2) consider "t \<in> set (rx_matches r st)" | "t \<in> set (rx_matches s st)"
    by (simp only: rx_matches.simps set_append Un_iff) blast
  then show ?case
  proof cases
    case 1
    with Alt.IH(1) [of t st] Alt.prems(1) show ?thesis by (simp only: productive.simps simp_thms)
  next
    case 2
    with Alt.IH(2) [of t st] Alt.prems(1) show ?thesis by (simp only: productive.simps simp_thms)
  qed
qed (simp_all only: productive.simps simp_thms)

lemma after_take: "after st w t \<Longrightarrow> take (length (snd st) - length (snd t)) (snd st) = w"
  by (simp add: after_def)

lemma rx_hit:
  assumes "rx_matches r (p, s) = t # ts"
  shows "s = take (length s - length (snd t)) s @ snd t"
    and "after (p, s) (take (length s - length (snd t)) s) t"
    and "productive r \<Longrightarrow> take (length s - length (snd t)) s \<noteq> []"
proof -
  have t: "t \<in> set (rx_matches r (p, s))" using assms by simp
  then obtain w where w: "after (p, s) w t" using rx_matches_after by blast
  then have eq: "take (length s - length (snd t)) s = w" using after_take by fastforce
  show "after (p, s) (take (length s - length (snd t)) s) t" using w eq by simp
  then show "s = take (length s - length (snd t)) s @ snd t" by (simp add: after_def)
  show "productive r \<Longrightarrow> take (length s - length (snd t)) s \<noteq> []"
    using productive_shorter [OF _ t] by auto
qed

lemma regex_search_split:
  "regex_search r p s = Some (skipped, m, st) \<Longrightarrow>
     s = skipped @ m @ snd st \<and> after (p, s) (skipped @ m) st \<and>
     (productive r \<longrightarrow> m \<noteq> [])"
proof (induction s arbitrary: p skipped)
  case Nil
  then show ?case
    using rx_hit [of r p "[]"]
    by (auto simp: regex_search.simps [of r p] split: list.splits)
next
  case (Cons c cs)
  show ?case
  proof (cases "rx_matches r (p, c # cs)")
    case (Cons t ts)
    with Cons.prems have "skipped = []" "st = t"
      "m = take (length (c # cs) - length (snd t)) (c # cs)"
      by (auto simp: regex_search.simps [of r p])
    then show ?thesis using rx_hit [OF Cons] by simp
  next
    case Nil
    with Cons.prems obtain sk where sk: "regex_search r (Some c) cs = Some (sk, m, st)"
      and "skipped = c # sk"
      by (auto simp: regex_search.simps [of r p])
    with Cons.IH [OF sk] show ?thesis by (auto simp: after_def split: if_splits)
  qed
qed

lemma regex_search_hit:
  "regex_search r p s = Some (skipped, m, st) \<Longrightarrow>
     \<exists>q. st \<in> set (rx_matches r (q, m @ snd st))"
proof (induction s arbitrary: p skipped)
  case Nil
  then show ?case
    using rx_hit [of r p "[]"]
    by (auto simp: regex_search.simps [of r p] split: list.splits) (metis list.set_intros(1))
next
  case (Cons c cs)
  show ?case
  proof (cases "rx_matches r (p, c # cs)")
    case (Cons t ts)
    with Cons.prems have "st = t" "m = take (length (c # cs) - length (snd t)) (c # cs)"
      by (auto simp: regex_search.simps [of r p])
    then have "m @ snd st = c # cs" using rx_hit(1) [OF Cons] by simp
    then show ?thesis using Cons \<open>st = t\<close> by (auto intro!: exI [of _ p])
  next
    case Nil
    with Cons.prems obtain sk where "regex_search r (Some c) cs = Some (sk, m, st)"
      by (auto simp: regex_search.simps [of r p])
    then show ?thesis by (rule Cons.IH)
  qed
qed

subsection \<open>Matches without word boundaries do not depend on their surroundings\<close>

fun boundary_free :: "rx \<Rightarrow> bool" where
  "boundary_free (Sq r s) = (boundary_free r \<and> boundary_free s)"
| "boundary_free (Alt r s) = (boundary_free r \<and> boundary_free s)"
| "boundary_free (Star r) = boundary_free r"
| "boundary_free (LazyStar r) = boundary_free r"
| "boundary_free WordBoundary = False"
| "boundary_free _ = True"

definition consumes :: "rx \<Rightarrow> string \<Rightarrow> bool" where
  "consumes r w \<longleftrightarrow> (\<forall>p s. \<exists>t \<in> set (rx_matches r (p, w @ s)). snd t = s)"

lemma consumes_Sq: "consumes r v \<Longrightarrow> consumes s w \<Longrightarrow> consumes (Sq r s) (v @ w)"
  unfolding consumes_def by (simp add: image_def Bex_def) (metis prod.collapse)

lemma consumes_Alt: "consumes r w \<or> consumes s w \<Longrightarrow> consumes (Alt r s) w"
  by (auto simp: consumes_def)

lemma consumes_Star_Nil: "consumes (Star r) []"
  unfolding consumes_def by (subst rx_matches.simps) simp

lemma consumes_LazyStar_Nil: "consumes (LazyStar r) []"
  unfolding consumes_def by (subst rx_matches.simps) simp

lemma consumes_round:
  assumes "consumes r v" "consumes r' w" "v \<noteq> []"
  shows "\<exists>u \<in> set (rx_matches r (p, v @ w @ s)). length (snd u) < length (v @ w @ s) \<and>
    (\<exists>t \<in> set (rx_matches r' u). snd t = s)"
proof -
  obtain u where u: "u \<in> set (rx_matches r (p, v @ w @ s))" "snd u = w @ s"
    using assms(1) unfolding consumes_def by blast
  obtain t where "t \<in> set (rx_matches r' (fst u, w @ s))" "snd t = s"
    using assms(2) unfolding consumes_def by blast
  moreover have "(fst u, w @ s) = u" using u(2) by (simp add: prod_eq_iff)
  moreover have "length (snd u) < length (v @ w @ s)" using u(2) assms(3) by simp
  ultimately show ?thesis using u(1) by metis
qed

lemma consumes_Star_Cons:
  assumes "consumes r v" "consumes (Star r) w" "v \<noteq> []"
  shows "consumes (Star r) (v @ w)"
  unfolding consumes_def
proof (intro allI)
  fix p s
  from consumes_round [OF assms, of p s]
  show "\<exists>t\<in>set (rx_matches (Star r) (p, (v @ w) @ s)). snd t = s"
    by (subst rx_matches.simps) (auto split: if_splits)
qed

lemma consumes_LazyStar_Cons:
  assumes "consumes r v" "consumes (LazyStar r) w" "v \<noteq> []"
  shows "consumes (LazyStar r) (v @ w)"
  unfolding consumes_def
proof (intro allI)
  fix p s
  from consumes_round [OF assms, of p s]
  show "\<exists>t\<in>set (rx_matches (LazyStar r) (p, (v @ w) @ s)). snd t = s"
    by (subst rx_matches.simps) (auto split: if_splits)
qed

text \<open>Whatever a boundary-free pattern matched, it matches wherever that text stands.\<close>

lemma matched_consumes:
  "boundary_free r \<Longrightarrow> t \<in> set (rx_matches r st) \<Longrightarrow> \<exists>w. after st w t \<and> consumes r w"
proof (induction r st arbitrary: t rule: rx_matches.induct)
  case (1 st)
  then show ?case by (auto simp: consumes_def intro: after_refl)
next
  case (2 p st)
  then obtain c cs where c: "snd st = c # cs" "t = (Some c, cs)" "p c"
    by (cases "snd st") (auto split: if_splits)
  then have "after st [c] t" "consumes (Cls p) [c]" by (auto simp: after_def consumes_def)
  then show ?case by blast
next
  case (3 r s st)
  from "3.prems" obtain u where u: "u \<in> set (rx_matches r st)" "t \<in> set (rx_matches s u)"
    and bf: "boundary_free r" "boundary_free s"
    by (simp del: split_paired_Ex) blast
  from "3.IH"(1) [OF bf(1) u(1)] "3.IH"(2) [OF u(1) bf(2) u(2)] show ?case
    by (blast intro: after_trans consumes_Sq)
next
  case (4 r s st)
  from "4.prems" consider "t \<in> set (rx_matches r st)" | "t \<in> set (rx_matches s st)" by auto
  then show ?case
  proof cases
    case 1
    with "4.IH"(1) "4.prems"(1) obtain w where "after st w t" "consumes r w" by fastforce
    then show ?thesis using consumes_Alt by blast
  next
    case 2
    with "4.IH"(2) "4.prems"(1) obtain w where "after st w t" "consumes s w" by fastforce
    then show ?thesis using consumes_Alt by blast
  qed
next
  case (5 r st)
  from "5.prems" have bf: "boundary_free r" by simp
  from "5.prems" have "t = st \<or> (\<exists>u \<in> set (rx_matches r st). length (snd u) < length (snd st) \<and>
      t \<in> set (rx_matches (Star r) u))"
    by (subst (asm) rx_matches.simps) (auto split: if_splits)
  then show ?case
  proof (elim disjE bexE conjE)
    assume "t = st"
    then show ?thesis using after_refl consumes_Star_Nil by blast
  next
    fix u
    assume u: "u \<in> set (rx_matches r st)" "length (snd u) < length (snd st)"
      "t \<in> set (rx_matches (Star r) u)"
    obtain v w where vw: "after st v u" "consumes r v" "after u w t" "consumes (Star r) w"
      using "5.IH"(1) [OF bf u(1)] "5.IH"(2) [OF u(1,2) "5.prems"(1) u(3)] by blast
    moreover have "v \<noteq> []" using vw(1) u(2) by (auto simp: after_def)
    ultimately show ?thesis by (blast intro: after_trans consumes_Star_Cons)
  qed
next
  case (6 r st)
  from "6.prems" have bf: "boundary_free r" by simp
  from "6.prems" have "t = st \<or> (\<exists>u \<in> set (rx_matches r st). length (snd u) < length (snd st) \<and>
      t \<in> set (rx_matches (LazyStar r) u))"
    by (subst (asm) rx_matches.simps) (auto split: if_splits)
  then show ?case
  proof (elim disjE bexE conjE)
    assume "t = st"
    then show ?thesis using after_refl consumes_LazyStar_Nil by blast
  next
    fix u
    assume u: "u \<in> set (rx_matches r st)" "length (snd u) < length (snd st)"
      "t \<in> set (rx_matches (LazyStar r) u)"
    obtain v w where vw: "after st v u" "consumes r v" "after u w t" "consumes (LazyStar r) w"
      using "6.IH"(1) [OF bf u(1)] "6.IH"(2) [OF u(1,2) "6.prems"(1) u(3)] by blast
    moreover have "v \<noteq> []" using vw(1) u(2) by (auto simp: after_def)
    ultimately show ?thesis by (blast intro: after_trans consumes_LazyStar_Cons)
  qed
qed simp

lemma consumes_regex_match: "consumes r w \<Longrightarrow> regex_match w r"
  unfolding consumes_def regex_match_def list_ex_iff by (metis append_Nil2)

lemma boundary_free_match:
  assumes "boundary_free r" and "st \<in> set (rx_matches r (q, m @ snd st))"
  shows "regex_match m r"
proof -
  obtain w where "after (q, m @ snd st) w st" "consumes r w"
    using matched_consumes [OF assms] by blast
  then show ?thesis using consumes_regex_match by (auto simp: after_def)
qed

subsection \<open>Alternations and words\<close>

lemma set_rx_matches_alts:
  "set (rx_matches (alts rs) st) = (\<Union>r \<in> set rs. set (rx_matches r st))"
  by (induction rs rule: alts.induct) (auto split: list.splits)

lemma word_matches: "t \<in> set (rx_matches (word w) st) \<Longrightarrow> after st w t"
proof (induction w arbitrary: st rule: word.induct)
  case 1
  then show ?case by (simp add: after_refl)
next
  case (2 c)
  then show ?case by (cases "snd st") (auto simp: lit_def after_def split: if_splits)
next
  case (3 c d cs)
  from "3.prems" obtain u where u: "u \<in> set (rx_matches (lit c) st)"
    "t \<in> set (rx_matches (word (d # cs)) u)"
    by (simp del: split_paired_Ex) blast
  then have "after st [c] u"
    by (cases "snd st") (auto simp: lit_def after_def split: if_splits)
  from after_trans [OF this "3.IH" [OF u(2)]] show ?case by simp
qed

end
