(* ===== verification/Lexer.thy ===== *)
theory Lexer
  imports Tokens Regex
begin

text \<open>
  The lexer (\<^verbatim>\<open>Absolute-Parser/src/lexer.cpp\<close>): the token patterns as values of \<open>rx\<close>, the
  normalisation of numeric literals and the scanning loop. An exception that the code throws
  is \<open>Inl\<close> of its message. The registry of plugin keywords, which the lexer asks for every
  identifier, is the argument \<open>kw\<close>.
\<close>

section \<open>Token patterns\<close>

definition digit :: rx where
  "digit = Cls isdigit"

text \<open>\<open>d(_?d)*\<close>: digits with separators between them and never at an edge.\<close>

definition separated :: "rx \<Rightarrow> rx" where
  "separated d = Sq d (Star (Sq (opt (lit CHR ''_'')) d))"

definition number_rx :: rx where
  "number_rx = alts [
     sqs [lit CHR ''0'', one_of ''xX'', separated (one_of ''0123456789abcdefABCDEF'')],
     sqs [lit CHR ''0'', one_of ''bB'', separated (one_of ''01'')],
     sqs [lit CHR ''0'', one_of ''oO'', separated (one_of ''01234567'')],
     sqs [separated digit,
          opt (Sq (lit CHR ''.'') (separated digit)),
          opt (sqs [one_of ''eE'', opt (one_of ''+-''), separated digit])]]"

definition keyword_words :: "string list" where
  "keyword_words =
     [''int8'', ''int16'', ''int32'', ''int64'', ''uint8'', ''uint16'', ''uint32'', ''uint64'',
      ''float'', ''double'', ''char'', ''bool'', ''string'', ''void'', ''dynamic'', ''auto'',
      ''if'', ''else'', ''switch'', ''match'', ''case'', ''default'', ''for'', ''while'',
      ''foreach'', ''in'', ''do'', ''break'', ''continue'', ''new'', ''delete'', ''raw'', ''weak'',
      ''ref'', ''params'', ''using'', ''import'', ''namespace'', ''extern'', ''export'',
      ''return'', ''true'', ''false'', ''null'', ''class'', ''struct'', ''interface'', ''enum'',
      ''group'', ''this'', ''public'', ''private'', ''protected'', ''sealed'', ''internal'',
      ''virtual'', ''override'', ''const'', ''static'', ''extension'', ''async'', ''nothrow'',
      ''await'', ''spawn'', ''catch'', ''finally'', ''try'', ''throw'', ''defer'', ''yield'',
      ''get'', ''set'', ''operator'', ''is'', ''as'', ''fn'']"

definition keyword_rx :: rx where
  "keyword_rx = sqs [WordBoundary, alts (map word keyword_words), WordBoundary]"

definition identifier_rx :: rx where
  "identifier_rx = Sq (Cls (\<lambda>c. isalpha c \<or> c = CHR ''_'')) (Star (Cls word_char))"

text \<open>\<open>.\<close> stands for every character but a line terminator.\<close>

definition dot :: rx where
  "dot = Cls (\<lambda>c. c \<noteq> CHR 0x0A \<and> c \<noteq> CHR 0x0D)"

definition comment_rx :: rx where
  "comment_rx = alts [
     sqs [word ''/*'', LazyStar (Cls (\<lambda>_. True)), word ''*/''],
     Sq (word ''//'') (Star dot)]"

definition operator_rx :: rx where
  "operator_rx = alts (map word
     [''=>'', ''->'', ''=='', ''!='', ''<<='', ''>>='', ''<='', ''>='', ''&&'', ''||'', ''!'', ''~'',
      ''<<'', ''>>'', ''+='', ''-='', ''*='', ''/='', ''%='', ''&='', ''|='', ''^='', ''++'', ''--'',
      ''?''] @ [one_of ''+-*/=<>&%|^:@''])"

definition delimiter_rx :: rx where
  "delimiter_rx = one_of '';,.''"

definition backslash :: char where
  "backslash = CHR 0x5C"

definition single_quote :: char where
  "single_quote = CHR 0x27"

definition double_quote :: char where
  "double_quote = CHR 0x22"

definition escaped :: rx where
  "escaped = Sq (lit backslash) dot"

definition string_rx :: rx where
  "string_rx = sqs [lit double_quote,
     Star (Alt escaped (Cls (\<lambda>c. c \<noteq> double_quote \<and> c \<noteq> backslash))), lit double_quote]"

definition char_rx :: rx where
  "char_rx = sqs [lit single_quote,
     Alt escaped (Cls (\<lambda>c. c \<noteq> single_quote \<and> c \<noteq> backslash)), lit single_quote]"

definition bracket_rx :: rx where
  "bracket_rx = one_of ''{}[]()''"

definition whitespace_rx :: rx where
  "whitespace_rx = plus (Cls isspace)"

fun token_spec :: "TokenType \<Rightarrow> rx" where
  "token_spec T_NUMBER = number_rx"
| "token_spec T_KEYWORD = keyword_rx"
| "token_spec T_IDENTIFIER = identifier_rx"
| "token_spec T_COMMENT = comment_rx"
| "token_spec T_OPERATOR = operator_rx"
| "token_spec T_DELIMITER = delimiter_rx"
| "token_spec T_STRING = string_rx"
| "token_spec T_CHAR = char_rx"
| "token_spec T_BRACKET = bracket_rx"
| "token_spec T_WHITESPACE = whitespace_rx"

definition tokenOrder :: "TokenType list" where
  "tokenOrder = [T_COMMENT, T_STRING, T_CHAR, T_NUMBER, T_KEYWORD, T_OPERATOR, T_DELIMITER,
     T_BRACKET, T_IDENTIFIER, T_WHITESPACE]"

definition token_regex :: rx where
  "token_regex = alts (map token_spec tokenOrder)"

definition IsValidTokenValue :: "TokenType \<Rightarrow> string \<Rightarrow> bool" where
  "IsValidTokenValue tokenType value = regex_match value (token_spec tokenType)"

section \<open>Numeric literals\<close>

text \<open>The value of a digit in a base up to 16, as \<open>std::stoull\<close> reads it.\<close>

definition base_digit :: "char \<Rightarrow> nat option" where
  "base_digit c =
     (if isdigit c then Some (byte_of c - 48)
      else if 97 \<le> byte_of c \<and> byte_of c \<le> 122 then Some (byte_of c - 87)
      else if 65 \<le> byte_of c \<and> byte_of c \<le> 90 then Some (byte_of c - 55)
      else None)"

definition digit_ok :: "nat \<Rightarrow> char \<Rightarrow> bool" where
  "digit_ok base c = (case base_digit c of Some d \<Rightarrow> d < base | None \<Rightarrow> False)"

definition base_value :: "nat \<Rightarrow> string \<Rightarrow> nat" where
  "base_value base s = foldl (\<lambda>acc c. acc * base + the (base_digit c)) 0 s"

datatype stoull_error = Invalid_Argument | Out_Of_Range

text \<open>
  \<open>std::stoull\<close> on text that starts with a digit or holds none (the callers pass no sign,
  white space or prefix): the longest prefix of digits of the base, or the exception.
\<close>

definition stoull :: "nat \<Rightarrow> string \<Rightarrow> stoull_error + nat \<times> nat" where
  "stoull base s =
     (let ds = takeWhile (digit_ok base) s in
      if ds = [] then Inl Invalid_Argument
      else if base_value base ds \<ge> 2 ^ 64 then Inl Out_Of_Range
      else Inr (base_value base ds, length ds))"

definition lexical_error :: "int \<Rightarrow> int \<Rightarrow> string \<Rightarrow> string" where
  "lexical_error line column what =
     ''Lexical error at line '' @ int_to_string line @ '', column '' @ int_to_string column @ what"

definition literal_base :: "string \<Rightarrow> nat" where
  "literal_base digits =
     (if length digits > 1 \<and> digits ! 0 = CHR ''0'' then
        (if digits ! 1 = CHR ''x'' \<or> digits ! 1 = CHR ''X'' then 16
         else if digits ! 1 = CHR ''b'' \<or> digits ! 1 = CHR ''B'' then 2
         else if digits ! 1 = CHR ''o'' \<or> digits ! 1 = CHR ''O'' then 8
         else 10)
      else 10)"

definition NormalizeNumericLiteral :: "string \<Rightarrow> int \<Rightarrow> int \<Rightarrow> string + string" where
  "NormalizeNumericLiteral text line column =
     (let digits = filter (\<lambda>c. c \<noteq> CHR ''_'') text;
          base = literal_base digits;
          offset = (if base = 10 then 0 else 2);
          failure = lexical_error line column
            ('': integer literal '' @ [single_quote] @ text @ [single_quote] @
             '' does not fit in 64 bits'')
      in if base = 10 then Inr digits
         else case stoull base (drop offset digits) of
             Inl _ \<Rightarrow> Inl failure
           | Inr (value, consumed) \<Rightarrow>
               if consumed \<noteq> length digits - offset then Inl failure
               else Inr (to_string value))"

section \<open>Scanning\<close>

text \<open>\<open>line\<close> and \<open>column\<close> after a character, and after a text.\<close>

fun advance :: "int \<times> int \<Rightarrow> char \<Rightarrow> int \<times> int" where
  "advance (line, column) c = (if c = CHR 0x0A then (line + 1, 1) else (line, column + 1))"

definition advance_all :: "int \<times> int \<Rightarrow> string \<Rightarrow> int \<times> int" where
  "advance_all at s = foldl advance at s"

text \<open>Text between two matches: anything but white space is an unexpected character.\<close>

fun skip_gap :: "string \<Rightarrow> int \<times> int \<Rightarrow> string + int \<times> int" where
  "skip_gap [] at = Inr at"
| "skip_gap (c # cs) at =
     (if \<not> isspace c then
        Inl (lexical_error (fst at) (snd at)
          ('': unexpected character '' @ [single_quote, c, single_quote]))
      else skip_gap cs (advance at c))"

text \<open>The first pattern of the order that matches the whole of a lexeme.\<close>

definition classify :: "string \<Rightarrow> TokenType option" where
  "classify value = find (\<lambda>name. regex_match value (token_spec name)) tokenOrder"

definition emit :: "(string \<Rightarrow> bool) \<Rightarrow> TokenType \<Rightarrow> string \<Rightarrow> string \<Rightarrow> int \<times> int \<Rightarrow>
    string + token list" where
  "emit kw name value rest at =
     (if name = T_COMMENT \<or> name = T_WHITESPACE then Inr []
      else
        let tail = takeWhile (\<lambda>c. isalnum c \<or> c = CHR ''_'') rest;
            text =
              (if name = T_NUMBER then
                 (if tail \<noteq> [] then
                    Inl (lexical_error (fst at) (snd at)
                      ('': invalid numeric literal '' @ [single_quote] @ value @ tail @ [single_quote]))
                  else NormalizeNumericLiteral value (fst at) (snd at))
               else Inr value);
            actualType = (if name = T_IDENTIFIER \<and> kw value then T_KEYWORD else name)
        in case text of
             Inl e \<Rightarrow> Inl e
           | Inr t \<Rightarrow> Inr [\<lparr>tok_type = actualType, tok_value = t, tok_line = fst at,
                            tok_column = snd at\<rparr>])"

lemma token_regex_productive: "productive token_regex"
  by (simp add: token_regex_def tokenOrder_def number_rx_def keyword_rx_def keyword_words_def
      identifier_rx_def comment_rx_def operator_rx_def delimiter_rx_def string_rx_def char_rx_def
      bracket_rx_def whitespace_rx_def separated_def one_of_def digit_def lit_def plus_def)

text \<open>
  The loop over the matches. \<open>pend\<close> is the text between \<open>lastPos\<close> and the current position
  (empty unless a match was not classified), \<open>rest\<close> the text from the current position on.
\<close>

function lex_loop :: "(string \<Rightarrow> bool) \<Rightarrow> char option \<Rightarrow> string \<Rightarrow> string \<Rightarrow> int \<times> int \<Rightarrow>
    token list \<Rightarrow> string + token list" where
  "lex_loop kw prev pend rest at tokens =
     (case regex_search token_regex prev rest of
        None \<Rightarrow>
          (case skip_gap (pend @ rest) at of Inl e \<Rightarrow> Inl e | Inr _ \<Rightarrow> Inr tokens)
      | Some (skipped, value, st) \<Rightarrow>
          (case skip_gap (pend @ skipped) at of
             Inl e \<Rightarrow> Inl e
           | Inr at' \<Rightarrow>
               (case classify value of
                  None \<Rightarrow> lex_loop kw (fst st) (pend @ skipped @ value) (snd st) at' tokens
                | Some name \<Rightarrow>
                    (case emit kw name value (snd st) at' of
                       Inl e \<Rightarrow> Inl e
                     | Inr new \<Rightarrow>
                         lex_loop kw (fst st) [] (snd st) (advance_all at' value) (tokens @ new)))))"
  by pat_completeness auto
termination
  by (relation "measure (\<lambda>(_, _, _, rest, _, _). length rest)")
    (auto dest!: regex_search_split simp: token_regex_productive)

declare lex_loop.simps [simp del]

definition lexer :: "(string \<Rightarrow> bool) \<Rightarrow> string \<Rightarrow> string + token list" where
  "lexer kw code = lex_loop kw None [] code (1, 1) []"

section \<open>Every match is classified\<close>

lemma keyword_words_ok:
  "w \<in> set keyword_words \<Longrightarrow> w \<noteq> [] \<and> word_char (hd w) \<and> word_char (last w)"
proof -
  have "list_all (\<lambda>w. w \<noteq> [] \<and> word_char (hd w) \<and> word_char (last w)) keyword_words"
    by code_simp
  then show "w \<in> set keyword_words \<Longrightarrow> w \<noteq> [] \<and> word_char (hd w) \<and> word_char (last w)"
    by (simp add: list_all_iff)
qed

lemma keyword_match:
  assumes "st \<in> set (rx_matches keyword_rx (q, m @ snd st))"
  shows "m \<in> set keyword_words"
proof -
  from assms obtain w where "w \<in> set keyword_words"
    and "st \<in> set (rx_matches (word w) (q, m @ snd st))"
    by (auto simp: keyword_rx_def set_rx_matches_alts split: if_splits)
  then show ?thesis using word_matches [of st w "(q, m @ snd st)"] by (simp add: after_def)
qed

lemma word_consumes: "consumes (word w) w"
proof (induction w rule: word.induct)
  case 1
  then show ?case by (simp add: consumes_def)
next
  case (2 c)
  then show ?case by (simp add: consumes_def lit_def)
next
  case (3 c d cs)
  have "consumes (lit c) [c]" by (simp add: consumes_def lit_def)
  from consumes_Sq [OF this "3.IH"] show ?case by simp
qed

lemma keyword_regex_match: "regex_match w keyword_rx \<longleftrightarrow> w \<in> set keyword_words"
proof
  assume "regex_match w keyword_rx"
  then obtain st where "st \<in> set (rx_matches keyword_rx (None, w @ snd st))" "snd st = []"
    by (auto simp: regex_match_def list_ex_iff)
  then show "w \<in> set keyword_words" by (rule_tac keyword_match)
next
  assume w: "w \<in> set keyword_words"
  obtain t where t: "t \<in> set (rx_matches (word w) (None, w @ []))" "snd t = []"
    using word_consumes [of w] unfolding consumes_def by blast
  have f: "fst t = Some (last w)"
    using word_matches [OF t(1)] keyword_words_ok [OF w] by (simp add: after_def)
  have "at_word_boundary (None, w)" "at_word_boundary t"
    using keyword_words_ok [OF w] f t(2)
    by (auto simp: at_word_boundary_def split: list.splits)
  then have "t \<in> set (rx_matches keyword_rx (None, w))"
    using t(1) w by (auto simp: keyword_rx_def set_rx_matches_alts intro!: bexI [of _ w])
  then show "regex_match w keyword_rx"
    using t(2) by (auto simp: regex_match_def list_ex_iff)
qed

lemma boundary_free_specs: "n \<noteq> T_KEYWORD \<Longrightarrow> boundary_free (token_spec n)"
  by (cases n) (simp_all add: number_rx_def identifier_rx_def comment_rx_def operator_rx_def
    delimiter_rx_def string_rx_def char_rx_def bracket_rx_def whitespace_rx_def separated_def
    one_of_def digit_def lit_def plus_def opt_def dot_def escaped_def)

lemma tokenOrder_all: "n \<in> set tokenOrder"
  by (cases n) (simp_all add: tokenOrder_def)

lemma classify_total:
  assumes "regex_search token_regex p s = Some (skipped, m, st)"
  shows "\<exists>name. classify m = Some name"
proof -
  obtain q where "st \<in> set (rx_matches token_regex (q, m @ snd st))"
    using regex_search_hit [OF assms] by blast
  then obtain n where n: "st \<in> set (rx_matches (token_spec n) (q, m @ snd st))"
    by (auto simp: token_regex_def set_rx_matches_alts)
  have "regex_match m (token_spec n)"
  proof (cases "n = T_KEYWORD")
    case True
    with n show ?thesis using keyword_match keyword_regex_match by simp
  next
    case False
    from boundary_free_match [OF boundary_free_specs [OF False] n] show ?thesis .
  qed
  then show ?thesis
    using tokenOrder_all [of n] by (cases "classify m") (auto simp: classify_def find_None_iff)
qed

lemma classify_match: "classify m = Some name \<Longrightarrow> regex_match m (token_spec name)"
  by (auto simp: classify_def find_Some_iff)

lemma classify_identifier: "classify m = Some T_IDENTIFIER \<Longrightarrow> m \<notin> set keyword_words"
  by (auto simp: classify_def tokenOrder_def keyword_regex_match split: if_splits)

section \<open>What the lexer does with a source text\<close>

text \<open>
  The contract of the lexer, without regular-expression search: the source is white space and
  classified lexemes, one after the other, and each lexeme gives the tokens of \<open>emit\<close> at the
  place where it starts.
\<close>

inductive lexes :: "(string \<Rightarrow> bool) \<Rightarrow> int \<times> int \<Rightarrow> string \<Rightarrow> token list \<Rightarrow> bool"
  for kw :: "string \<Rightarrow> bool" where
  lexes_end: "\<forall>c \<in> set ws. isspace c \<Longrightarrow> lexes kw at ws []"
| lexes_lexeme: "\<forall>c \<in> set gap. isspace c \<Longrightarrow> m \<noteq> [] \<Longrightarrow> classify m = Some name \<Longrightarrow>
     emit kw name m rest (advance_all at gap) = Inr new \<Longrightarrow>
     lexes kw (advance_all at (gap @ m)) rest toks \<Longrightarrow>
     lexes kw at (gap @ m @ rest) (new @ toks)"

lemma skip_gap_Inr:
  "skip_gap s at = Inr at' \<Longrightarrow> (\<forall>c \<in> set s. isspace c) \<and> at' = advance_all at s"
  by (induction s arbitrary: at) (auto simp: advance_all_def split: if_splits)

lemma lex_loop_lexes:
  "lex_loop kw prev [] rest at tokens = Inr toks \<Longrightarrow>
     \<exists>new. toks = tokens @ new \<and> lexes kw at rest new"
proof (induction "length rest" arbitrary: prev rest at tokens rule: less_induct)
  case less
  show ?case
  proof (cases "regex_search token_regex prev rest")
    case None
    with less.prems show ?thesis
      by (auto simp: lex_loop.simps [of kw prev] split: sum.splits dest!: skip_gap_Inr
        intro: lexes_end)
  next
    case (Some r)
    then obtain gap m st where r: "regex_search token_regex prev rest = Some (gap, m, st)"
      by (cases r) auto
    obtain name where name: "classify m = Some name" using classify_total [OF r] by blast
    have split: "rest = gap @ m @ snd st" "m \<noteq> []"
      using regex_search_split [OF r] token_regex_productive by auto
    from less.prems r name obtain at' new where
      gap: "skip_gap gap at = Inr at'" and new: "emit kw name m (snd st) at' = Inr new"
      and rec: "lex_loop kw (fst st) [] (snd st) (advance_all at' m) (tokens @ new) = Inr toks"
      by (auto simp: lex_loop.simps [of kw prev] split: sum.splits)
    have at': "at' = advance_all at gap" "\<forall>c \<in> set gap. isspace c"
      using skip_gap_Inr [OF gap] by auto
    have "length (snd st) < length rest" using split by simp
    from less.hyps [OF this rec] obtain new' where
      "toks = (tokens @ new) @ new'" "lexes kw (advance_all at' m) (snd st) new'" by blast
    moreover have "advance_all at' m = advance_all at (gap @ m)"
      using at' by (simp add: advance_all_def)
    ultimately show ?thesis
      using lexes_lexeme [OF at'(2) split(2) name new [unfolded at'(1)]] split(1) by auto
  qed
qed

lemma emit_tokens:
  assumes "emit kw name m rest at = Inr new" and "t \<in> set new"
  shows "name \<noteq> T_COMMENT" "name \<noteq> T_WHITESPACE"
    "tok_line t = fst at" "tok_column t = snd at"
    "tok_type t = (if name = T_IDENTIFIER \<and> kw m then T_KEYWORD else name)"
    "if name = T_NUMBER then NormalizeNumericLiteral m (fst at) (snd at) = Inr (tok_value t)
     else tok_value t = m"
  using assms by (auto simp: emit_def Let_def split: if_splits sum.splits)

lemma lexes_token:
  "lexes kw at code toks \<Longrightarrow> t \<in> set toks \<Longrightarrow>
     \<exists>pre m rest name new. code = pre @ m @ rest \<and> m \<noteq> [] \<and> classify m = Some name
       \<and> emit kw name m rest (advance_all at pre) = Inr new \<and> t \<in> set new"
proof (induction rule: lexes.induct)
  case (lexes_lexeme gap m name rest at new toks)
  show ?case
  proof (cases "t \<in> set new")
    case True
    with lexes_lexeme show ?thesis by blast
  next
    case False
    with lexes_lexeme obtain pre m' rest' name' new' where
      "rest = pre @ m' @ rest'" "m' \<noteq> []" "classify m' = Some name'"
      "emit kw name' m' rest' (advance_all (advance_all at (gap @ m)) pre) = Inr new'"
      "t \<in> set new'" by auto
    then show ?thesis
      by (intro exI [of _ "gap @ m @ pre"] exI [of _ m'] exI [of _ rest'] exI [of _ name']
        exI [of _ new']) (simp add: advance_all_def)
  qed
qed simp

section \<open>Properties\<close>

text \<open>
  C4. The lexer implements its contract: when it accepts a source text, the text is white space
  and classified lexemes with nothing left out, and the tokens are exactly those the lexemes
  emit, in order, each at the line and column where its lexeme starts.
\<close>

theorem lexer_refines_contract:
  assumes "lexer kw code = Inr toks"
  shows "lexes kw (1, 1) code toks"
  using lex_loop_lexes [OF assms [unfolded lexer_def]] by simp

lemma lexer_refines_contract_witness:
  "\<exists>toks. lexer (\<lambda>_. False) ''a /**/ 7'' = Inr toks \<and> length toks = 2
     \<and> lexes (\<lambda>_. False) (1, 1) ''a /**/ 7'' toks"
proof -
  have run: "lexer (\<lambda>_. False) ''a /**/ 7'' = Inr
    [\<lparr>tok_type = T_IDENTIFIER, tok_value = ''a'', tok_line = 1, tok_column = 1\<rparr>,
     \<lparr>tok_type = T_NUMBER, tok_value = ''7'', tok_line = 1, tok_column = 8\<rparr>]"
    by code_simp
  from lexer_refines_contract [OF this] run show ?thesis by auto
qed

text \<open>
  Every token says where it came from: its line and column are those of the place in the
  source where its lexeme starts, and its text is the lexeme, or the normalised lexeme for a
  number.
\<close>

theorem lexer_token_positions:
  assumes "lexer kw code = Inr toks" and "t \<in> set toks"
  shows "\<exists>pre m rest. code = pre @ m @ rest \<and> m \<noteq> [] \<and>
    (tok_line t, tok_column t) = advance_all (1, 1) pre \<and>
    (if tok_type t = T_NUMBER
     then NormalizeNumericLiteral m (tok_line t) (tok_column t) = Inr (tok_value t)
     else tok_value t = m)"
proof -
  have "lexes kw (1, 1) code toks"
    using lex_loop_lexes [OF assms(1) [unfolded lexer_def]] by simp
  from lexes_token [OF this assms(2)] obtain pre m rest name new where
    *: "code = pre @ m @ rest" "m \<noteq> []" "classify m = Some name"
      "emit kw name m rest (advance_all (1, 1) pre) = Inr new" "t \<in> set new" by blast
  from emit_tokens [OF *(4,5)] *(1,2) show ?thesis
    by (intro exI [of _ pre] exI [of _ m] exI [of _ rest]) (auto split: if_splits)
qed

lemma lexer_token_positions_witness:
  "\<exists>toks t pre m rest. lexer (\<lambda>_. False) ''a\<newline> 0x1F'' = Inr toks \<and> t \<in> set toks \<and> tok_line t = 2
     \<and> ''a\<newline> 0x1F'' = pre @ m @ rest \<and> (tok_line t, tok_column t) = advance_all (1, 1) pre"
proof -
  let ?t = "\<lparr>tok_type = T_NUMBER, tok_value = ''31'', tok_line = 2, tok_column = 2\<rparr>"
  have run: "lexer (\<lambda>_. False) ''a\<newline> 0x1F'' = Inr
    [\<lparr>tok_type = T_IDENTIFIER, tok_value = ''a'', tok_line = 1, tok_column = 1\<rparr>, ?t]"
    by code_simp
  from lexer_token_positions [OF run, of ?t] obtain pre m rest where
    "''a\<newline> 0x1F'' = pre @ m @ rest"
    "(tok_line ?t, tok_column ?t) = advance_all (1, 1) pre" by auto
  with run show ?thesis
    by (intro exI [of _ "[_, ?t]"] exI [of _ ?t] exI [of _ pre] exI [of _ m] exI [of _ rest]) simp
qed

text \<open>
  C40. The tokens the parser receives are never comments or white space, and a token of type
  identifier is never a keyword of the language or of a registered plugin.
\<close>

theorem lexer_token_kinds:
  assumes "lexer kw code = Inr toks" and "t \<in> set toks"
  shows "tok_type t \<noteq> T_COMMENT \<and> tok_type t \<noteq> T_WHITESPACE \<and>
    (tok_type t = T_IDENTIFIER \<longrightarrow>
       \<not> IsValidTokenValue T_KEYWORD (tok_value t) \<and> \<not> kw (tok_value t))"
proof -
  have "lexes kw (1, 1) code toks"
    using lex_loop_lexes [OF assms(1) [unfolded lexer_def]] by simp
  from lexes_token [OF this assms(2)] obtain pre m rest name new where
    *: "classify m = Some name"
      "emit kw name m rest (advance_all (1, 1) pre) = Inr new" "t \<in> set new" by blast
  from emit_tokens [OF *(2,3)] *(1) show ?thesis
    by (auto simp: IsValidTokenValue_def keyword_regex_match dest: classify_identifier
      split: if_splits)
qed

lemma lexer_token_kinds_witness:
  "\<exists>toks t. lexer (\<lambda>s. s = ''unless'') ''unless iff'' = Inr toks \<and> t \<in> set toks
     \<and> tok_type t = T_IDENTIFIER \<and> \<not> IsValidTokenValue T_KEYWORD (tok_value t)"
proof -
  let ?t = "\<lparr>tok_type = T_IDENTIFIER, tok_value = ''iff'', tok_line = 1, tok_column = 8\<rparr>"
  have run: "lexer (\<lambda>s. s = ''unless'') ''unless iff'' = Inr
    [\<lparr>tok_type = T_KEYWORD, tok_value = ''unless'', tok_line = 1, tok_column = 1\<rparr>, ?t]"
    by code_simp
  from lexer_token_kinds [OF run, of ?t] have "\<not> IsValidTokenValue T_KEYWORD (tok_value ?t)"
    by simp
  with run show ?thesis by (intro exI [of _ "[_, ?t]"] exI [of _ ?t]) simp
qed

text \<open>
  A literal with a base prefix keeps its value: normalising \<open>0\<close>, a base letter and digits
  of that base (separators removed) gives the decimal spelling of the number the digits denote
  in that base when it fits in 64 bits, and the lexical error otherwise.
\<close>

theorem normalize_keeps_value:
  assumes "filter (\<lambda>c. c \<noteq> CHR ''_'') text = CHR ''0'' # b # ds" and "ds \<noteq> []"
    and "base = literal_base (CHR ''0'' # b # ds)" and "base \<noteq> 10"
    and "list_all (digit_ok base) ds"
  shows "if base_value base ds < 2 ^ 64
    then \<exists>r. NormalizeNumericLiteral text line column = Inr r \<and> decimal_value r = base_value base ds
    else \<exists>e. NormalizeNumericLiteral text line column = Inl e"
proof -
  have tw: "takeWhile (digit_ok base) ds = ds"
    using assms(5) by (simp add: takeWhile_eq_all_conv list_all_iff)
  have "stoull base ds = (if base_value base ds \<ge> 2 ^ 64 then Inl Out_Of_Range
      else Inr (base_value base ds, length ds))"
    unfolding stoull_def Let_def tw using assms(2) by simp
  then show ?thesis
    unfolding NormalizeNumericLiteral_def assms(1) Let_def assms(3) [symmetric]
    using assms(4) by (simp add: decimal_value_to_string)
qed

lemma normalize_keeps_value_witness:
  "\<exists>r. NormalizeNumericLiteral ''0xFF_e1'' 1 1 = Inr r \<and> decimal_value r = base_value 16 ''FFe1''
     \<and> base_value 16 ''FFe1'' < 2 ^ 64"
proof -
  have h: "filter (\<lambda>c. c \<noteq> CHR ''_'') ''0xFF_e1'' = CHR ''0'' # CHR ''x'' # ''FFe1''"
    "16 = literal_base (CHR ''0'' # CHR ''x'' # ''FFe1'')"
    "list_all (digit_ok 16) ''FFe1''"
    by (simp_all add: literal_base_def digit_ok_def base_digit_def isdigit_def byte_of_def)
  have v: "base_value 16 ''FFe1'' < 2 ^ 64" by code_simp
  from normalize_keeps_value [OF h(1) _ h(2) _ h(3), of 1 1] v show ?thesis by simp
qed

end
