(* ===== verification/Ast.thy ===== *)
theory Ast
  imports Type_Names Tokens
begin

text \<open>
  The syntax tree of the front end: the node classes of \<open>Absolute-Parser/include/nodes.h\<close> and
  \<open>Absolute-Parser/include/ast/\<close>, their constructors, the textual form that \<open>ToString\<close> gives an
  expression, and the search for the identifier at the base of an expression
  (\<open>GetIdentifierBase\<close> of \<open>nodes.cpp\<close> with \<open>BaseIdentifierVisitor\<close>).

  A \<open>std::unique_ptr\<close> that the parser can leave empty is an \<open>option\<close>; a pointer that is always
  made by \<open>make_unique\<close> is the node itself.  The kinds of nodes are parametrised over what their
  children are, so that a function over the tree is one step per kind (\<open>map_expr_kind\<close> and
  \<open>map_stmt_kind\<close> visit the children).  The static types \<open>TypeExpr\<close>, \<open>VarDeclExpr\<close> and
  \<open>CompoundStmt\<close> of the fields are those of the class hierarchy: in the model the field holds an
  expression or a statement whose kind is one of that class.  The source position and the
  argument flags that every node inherits are in \<open>node_info\<close>.
\<close>

section \<open>Nodes\<close>

datatype AttributeValueKind = AV_Identifier | AV_String | AV_Number | AV_Character | AV_Boolean

record attribute_argument =
  aa_name :: string
  aa_kind :: AttributeValueKind
  aa_text :: string

record attribute =
  at_name :: string
  at_arguments :: "attribute_argument list"
  at_line :: int
  at_column :: int

record node_info =
  n_file :: string
  n_line :: int
  n_column :: int
  n_out :: bool
  n_ref :: bool

definition no_info :: node_info where
  "no_info = \<lparr>n_file = [], n_line = 0, n_column = 0, n_out = False, n_ref = False\<rparr>"

record stmt_info =
  s_file :: string
  s_line :: int
  s_column :: int
  s_modifiers :: "token list"
  s_attributes :: "attribute list"

definition no_stmt_info :: stmt_info where
  "no_stmt_info = \<lparr>s_file = [], s_line = 0, s_column = 0, s_modifiers = [], s_attributes = []\<rparr>"

record var_flags =
  v_const :: bool
  v_static :: bool
  v_reference :: bool
  v_out :: bool
  v_params :: bool

definition no_flags :: var_flags where
  "no_flags = \<lparr>v_const = False, v_static = False, v_reference = False, v_out = False, v_params = False\<rparr>"

datatype PropertyAccessorKind = PA_None | PA_Getter | PA_Setter

text \<open>The fields of a function declaration that are not nodes.\<close>

record function_info =
  f_name :: token
  f_templateParams :: "token list"
  f_externalAbi :: string
  f_exportAbi :: string
  f_accessor :: PropertyAccessorKind
  f_propertyName :: string
  f_auto :: bool

record enum_member =
  em_name :: string
  em_hasValue :: bool
  em_value :: int
  em_file :: string
  em_line :: int
  em_column :: int

text \<open>
  What a plugin left behind an opaque statement: its payload (0 for the null pointer), which is
  only ever passed back to the plugin, and what the plugin's \<open>debug_string\<close> says of it
  (\<open>None\<close> without that function or when it returns the null pointer).
\<close>

record opaque_node =
  on_payload :: nat
  on_debug :: "string option"

datatype (plugins only: code size) ('e, 's) expr_kind =
  NullExpr
| BooleanLiteralExpr bool
| NumberLiteralExpr string
| StringLiteralExpr string
| CharLiteralExpr char
| IdentifierExpr string
| ArrayExpr "'e option list" "'e option list"
| ArrayAccessExpr "'e option" "'e option list"
| SliceExpr "'e option" "('e option \<times> 'e option \<times> bool) list"
| BinaryExpr string "'e option" "'e option"
| AssignmentExpr "'e option" string "'e option"
| PrimitiveTypeExpr string
| UserTypeExpr "'e option"
| PointerTypeExpr "'e option" OwnershipKind bool
| ArrayTypeExpr "'e option"
| VarDeclExpr "'e option" "'e option" "'e option" var_flags
| FunctionCallExpr "'e option" "'e option list"
| LambdaExpr "'e list" "'e option" "'e option" "'s option"
| CastExpr string "'e option" "'e option"
| ConstructorCallExpr "'e option" "'e option list" bool
| DestructorCallExpr "'e option"
| InstanceDeclExpr 'e "'e option" "'e option" bool bool
| MemberAccessExpr "'e option" string
| TemplateExpr "'e option" "'e option list"
| TernaryExpr "'e option" "'e option" "'e option"
| PrefixUnaryExpr string "'e option"
| PostfixUnaryExpr string "'e option"

datatype (plugins only: code size) ('e, 's) stmt_kind =
  SingleStatement "'e option"
| CompoundStmt "'s list"
| VarDeclStmt 'e
| FunctionDeclStmt function_info "'e option" "'e list" "'s option"
| ReturnStmt "'e option"
| IfStmt "('e option \<times> 's) list" "'s option"
| SwitchStmt "'e option" "('e option \<times> 's) list" "'s option" bool
| ThrowStmt "'e option"
| TryStmt 's "('e \<times> 's) list" "'s option"
| DeferStmt 's
| ForStmt "'e option list" "'e option" "'e option list" 's
| WhileStmt "'e option" 's
| DoWhileStmt "'s option" "'e option"
| ForEachStmt 'e "'e option" "'s option"
| ContinueStmt
| BreakStmt
| ClassDeclStmt string "string list" "token list" "string list" 's
| StructDeclStmt string "token list" "string list" "'s list"
| InterfaceDeclStmt string "token list" "string list" "'s list" "'s list" "'s list" "'s list"
| EnumDeclStmt string "enum_member list"
| GroupDeclStmt string "'s list" "'s list"
| ConstructorDeclStmt token "'e list" "'e option list" bool "'s option"
| PropertyDeclStmt "'e option" string "'s option" "'s option"
| IndexerDeclStmt "'e option" "'e list" "'s option" "'s option"
| TypeAliasStmt string "'e option"
| ImportStmt string bool
| NamespaceDeclStmt string 's
| OpaquePluginStmt string string opaque_node

datatype (plugins only: code size) expr = Expr (einfo: node_info) (ekind: "(expr, stmt) expr_kind")
and stmt = Stmt (sinfo: stmt_info) (skind: "(expr, stmt) stmt_kind")

section \<open>Constructors\<close>

text \<open>The node that each constructor makes: no source position and no flag is set yet.\<close>

definition node :: "(expr, stmt) expr_kind \<Rightarrow> expr" where
  "node k = Expr no_info k"

definition stmt_node :: "(expr, stmt) stmt_kind \<Rightarrow> stmt" where
  "stmt_node k = Stmt no_stmt_info k"

text \<open>The assignments to the position, the argument flags, the modifiers and the attributes.\<close>

definition set_source :: "string \<Rightarrow> int \<Rightarrow> int \<Rightarrow> expr \<Rightarrow> expr" where
  "set_source file line column e =
     Expr ((einfo e)\<lparr>n_file := file, n_line := line, n_column := column\<rparr>) (ekind e)"

definition set_argument_flags :: "bool \<Rightarrow> bool \<Rightarrow> expr \<Rightarrow> expr" where
  "set_argument_flags isOut isRef e = Expr ((einfo e)\<lparr>n_out := isOut, n_ref := isRef\<rparr>) (ekind e)"

definition set_stmt_source :: "string \<Rightarrow> int \<Rightarrow> int \<Rightarrow> stmt \<Rightarrow> stmt" where
  "set_stmt_source file line column st =
     Stmt ((sinfo st)\<lparr>s_file := file, s_line := line, s_column := column\<rparr>) (skind st)"

definition decorate :: "token list \<Rightarrow> attribute list \<Rightarrow> stmt \<Rightarrow> stmt" where
  "decorate ms ats st = Stmt ((sinfo st)\<lparr>s_modifiers := ms, s_attributes := ats\<rparr>) (skind st)"

definition FindAttribute :: "attribute list \<Rightarrow> string \<Rightarrow> attribute option" where
  "FindAttribute ats name = find (\<lambda>a. at_name a = name) ats"

text \<open>The names of the methods and fields behind properties and indexers.\<close>

definition PropertyGetterName :: "string \<Rightarrow> string" where
  "PropertyGetterName propertyName = ''__absolute_property_get_'' @ propertyName"

definition PropertySetterName :: "string \<Rightarrow> string" where
  "PropertySetterName propertyName = ''__absolute_property_set_'' @ propertyName"

definition PropertyBackingFieldName :: "string \<Rightarrow> string" where
  "PropertyBackingFieldName propertyName = ''__absolute_property_storage_'' @ propertyName"

definition IndexerMemberName :: string where
  "IndexerMemberName = ''__absolute_indexer''"

definition IndexerGetterName :: string where
  "IndexerGetterName = ''__absolute_indexer_get''"

definition IndexerSetterName :: string where
  "IndexerSetterName = ''__absolute_indexer_set''"

text \<open>A function declaration as its constructor makes it.\<close>

definition plain_function :: "token \<Rightarrow> function_info" where
  "plain_function name =
     \<lparr>f_name = name, f_templateParams = [], f_externalAbi = [], f_exportAbi = [],
      f_accessor = PA_None, f_propertyName = [], f_auto = False\<rparr>"

definition IsExternal :: "function_info \<Rightarrow> bool" where
  "IsExternal f \<longleftrightarrow> f_externalAbi f \<noteq> []"

definition IsExported :: "function_info \<Rightarrow> bool" where
  "IsExported f \<longleftrightarrow> f_exportAbi f \<noteq> []"

definition UsesCAbi :: "function_info \<Rightarrow> bool" where
  "UsesCAbi f \<longleftrightarrow> f_externalAbi f = ''C'' \<or> f_exportAbi f = ''C''"

definition IsGeneric :: "function_info \<Rightarrow> bool" where
  "IsGeneric f \<longleftrightarrow> f_templateParams f \<noteq> []"

definition IsPropertyAccessor :: "function_info \<Rightarrow> bool" where
  "IsPropertyAccessor f \<longleftrightarrow> f_accessor f \<noteq> PA_None"

definition accessor_auto :: "stmt option \<Rightarrow> bool" where
  "accessor_auto p = (case p of Some (Stmt _ (FunctionDeclStmt f _ _ _)) \<Rightarrow> f_auto f | _ \<Rightarrow> False)"

definition HasAutoAccessor :: "stmt option \<Rightarrow> stmt option \<Rightarrow> bool" where
  "HasAutoAccessor getter setter \<longleftrightarrow> accessor_auto getter \<or> accessor_auto setter"

section \<open>The identifier at the base of an expression\<close>

text \<open>
  \<open>BaseIdentifierVisitor\<close>: visiting an expression updates the identifier found so far; \<open>None\<close> as
  the outcome is the dereference of a null child.
\<close>

type_synonym visitor = "expr option \<Rightarrow> expr option option"

definition accept :: "visitor option \<Rightarrow> visitor" where
  "accept child found = (case child of None \<Rightarrow> None | Some v \<Rightarrow> v found)"

definition accept_if :: "visitor option \<Rightarrow> visitor" where
  "accept_if child found = (case child of None \<Rightarrow> Some found | Some v \<Rightarrow> v found)"

fun accept_all :: "visitor option list \<Rightarrow> visitor" where
  "accept_all [] found = Some found"
| "accept_all (c # cs) found = Option.bind (accept_if c found) (accept_all cs)"

fun Visit :: "node_info \<Rightarrow> (visitor, unit) expr_kind \<Rightarrow> visitor" where
  "Visit i (PrimitiveTypeExpr type) found = Some found"
| "Visit i (UserTypeExpr typeExpr) found = accept_if typeExpr found"
| "Visit i (PointerTypeExpr pointee ownership qualifies) found = accept_if pointee found"
| "Visit i (ArrayTypeExpr element) found = accept_if element found"
| "Visit i (IdentifierExpr name) found = Some (Some (Expr i (IdentifierExpr name)))"
| "Visit i (FunctionCallExpr base arguments) found = accept base found"
| "Visit i (ArrayAccessExpr base indexes) found = accept base found"
| "Visit i (SliceExpr base ranges) found = accept_if base found"
| "Visit i (BinaryExpr op left right) found = Option.bind (accept left found) (accept right)"
| "Visit i (TernaryExpr condition t f) found =
     Option.bind (Option.bind (accept condition found) (accept t)) (accept f)"
| "Visit i NullExpr found = Some found"
| "Visit i (BooleanLiteralExpr b) found = Some found"
| "Visit i (NumberLiteralExpr n) found = Some found"
| "Visit i (StringLiteralExpr s) found = Some found"
| "Visit i (CharLiteralExpr c) found = Some found"
| "Visit i (ArrayExpr sizes values) found = accept_all values found"
| "Visit i (AssignmentExpr target op v) found = accept_if target found"
| "Visit i (VarDeclExpr type name v flags) found = accept_if name found"
| "Visit i (MemberAccessExpr base member) found = accept_if base found"
| "Visit i (CastExpr operation typeName base) found = accept_if base found"
| "Visit i (ConstructorCallExpr constructName arguments raw) found = accept_if constructName found"
| "Visit i (DestructorCallExpr target) found = accept_if target found"
| "Visit i (InstanceDeclExpr constructType identifierName v isConst isStatic) found =
     accept_if identifierName found"
| "Visit i (PrefixUnaryExpr op operand) found = accept operand found"
| "Visit i (PostfixUnaryExpr op operand) found = accept operand found"
| "Visit i (TemplateExpr base types) found = accept base found"
| "Visit i (LambdaExpr parameters returnType expressionBody statementBody) found = Some found"

primrec Accept :: "expr \<Rightarrow> visitor" and Accept_stmt :: "stmt \<Rightarrow> unit" where
  "Accept (Expr i k) = Visit i (map_expr_kind Accept Accept_stmt k)"
| "Accept_stmt (Stmt i k) = ()"

definition GetIdentifierBase :: "expr option \<Rightarrow> expr option option" where
  "GetIdentifierBase base = (case base of None \<Rightarrow> Some None | Some e \<Rightarrow> Accept e None)"

section \<open>Which identifier is found\<close>

text \<open>
  The same search without a visitor: the children that are followed, in order, and the
  identifiers reached through them.
\<close>

fun followed :: "('e, 's) expr_kind \<Rightarrow> 'e option list" where
  "followed (UserTypeExpr a) = [a]"
| "followed (PointerTypeExpr a k q) = [a]"
| "followed (ArrayTypeExpr a) = [a]"
| "followed (FunctionCallExpr a b) = [a]"
| "followed (ArrayAccessExpr a b) = [a]"
| "followed (SliceExpr a b) = [a]"
| "followed (BinaryExpr op a b) = [a, b]"
| "followed (TernaryExpr a b c) = [a, b, c]"
| "followed (ArrayExpr a b) = b"
| "followed (AssignmentExpr a op b) = [a]"
| "followed (VarDeclExpr a b c flags) = [b]"
| "followed (MemberAccessExpr a m) = [a]"
| "followed (CastExpr op a b) = [b]"
| "followed (ConstructorCallExpr a b raw) = [a]"
| "followed (DestructorCallExpr a) = [a]"
| "followed (InstanceDeclExpr a b c isConst isStatic) = [b]"
| "followed (PrefixUnaryExpr op a) = [a]"
| "followed (PostfixUnaryExpr op a) = [a]"
| "followed (TemplateExpr a b) = [a]"
| "followed k = []"

definition own_identifier :: "node_info \<Rightarrow> ('e, 's) expr_kind \<Rightarrow> expr list" where
  "own_identifier i k = (case k of IdentifierExpr name \<Rightarrow> [Expr i (IdentifierExpr name)] | _ \<Rightarrow> [])"

primrec base_identifiers :: "expr \<Rightarrow> expr list" and base_identifiers_stmt :: "stmt \<Rightarrow> unit" where
  "base_identifiers (Expr i k) =
     own_identifier i k @
     concat (map (\<lambda>p. case p of None \<Rightarrow> [] | Some ids \<Rightarrow> ids)
       (followed (map_expr_kind base_identifiers base_identifiers_stmt k)))"
| "base_identifiers_stmt (Stmt i k) = ()"

definition last_of :: "expr list \<Rightarrow> expr option \<Rightarrow> expr option" where
  "last_of ids found = (if ids = [] then found else Some (last ids))"

lemma last_of_append: "last_of (xs @ ys) found = last_of ys (last_of xs found)"
  by (simp add: last_of_def)

definition opt_ids :: "expr option \<Rightarrow> expr list" where
  "opt_ids p = (case p of None \<Rightarrow> [] | Some e \<Rightarrow> base_identifiers e)"

definition visits :: "expr set \<Rightarrow> bool" where
  "visits A \<longleftrightarrow> (\<forall>e \<in> A. \<forall>found r. Accept e found = Some r \<longrightarrow> r = last_of (base_identifiers e) found)"

lemma accept_last:
  "visits A \<Longrightarrow> set_option p \<subseteq> A \<Longrightarrow> accept (map_option Accept p) found = Some r \<Longrightarrow>
     r = last_of (opt_ids p) found"
  by (cases p) (auto simp: accept_def visits_def opt_ids_def)

lemma accept_if_last:
  "visits A \<Longrightarrow> set_option p \<subseteq> A \<Longrightarrow> accept_if (map_option Accept p) found = Some r \<Longrightarrow>
     r = last_of (opt_ids p) found"
  by (cases p) (auto simp: accept_if_def visits_def opt_ids_def last_of_def)

lemma accept_accept_if: "accept p found = Some r \<Longrightarrow> accept_if p found = Some r"
  by (cases p) (simp_all add: accept_def accept_if_def)

lemma accept_all_last:
  "visits A \<Longrightarrow> (\<Union>p \<in> set ps. set_option p) \<subseteq> A \<Longrightarrow>
     accept_all (map (map_option Accept) ps) found = Some r \<Longrightarrow>
     r = last_of (concat (map opt_ids ps)) found"
proof (induction ps arbitrary: found)
  case Nil
  then show ?case by (simp add: last_of_def)
next
  case (Cons p ps)
  then obtain m where m: "accept_if (map_option Accept p) found = Some m"
    "accept_all (map (map_option Accept) ps) m = Some r" by (auto simp: Option.bind_eq_Some_conv)
  have "m = last_of (opt_ids p) found" using Cons.prems by (intro accept_if_last [OF _ _ m(1)]) auto
  with Cons.IH [OF _ _ m(2)] Cons.prems show ?case by (simp add: last_of_append)
qed

lemma map_followed: "followed (map_expr_kind f g k) = map (map_option f) (followed k)"
  by (cases k) simp_all

lemma bind_Some: "Option.bind x Some = x"
  by (cases x) simp_all

lemma Visit_accept_all:
  "Visit i k found = Some r \<Longrightarrow> own_identifier i k = [] \<Longrightarrow> accept_all (followed k) found = Some r"
proof (induction i k found rule: Visit.induct)
  case (9 i op left right found)
  then obtain m where "accept left found = Some m" "accept right m = Some r"
    by (auto simp only: Visit.simps Option.bind_eq_Some_conv)
  then show ?case by (simp add: accept_accept_if bind_Some)
next
  case (10 i condition t f found)
  then obtain m m' where "accept condition found = Some m" "accept t m = Some m'" "accept f m' = Some r"
    by (auto simp only: Visit.simps Option.bind_eq_Some_conv)
  then show ?case by (simp add: accept_accept_if bind_Some)
qed (simp_all add: bind_Some accept_accept_if own_identifier_def)

lemma followed_children: "p \<in> set (followed k) \<Longrightarrow> set_option p \<subseteq> set1_expr_kind k"
  by (cases k) auto

lemma own_None:
  "own_identifier i k = [] \<longleftrightarrow> (\<nexists>name. k = IdentifierExpr name)"
  by (cases k) (simp_all add: own_identifier_def)

lemma own_map: "own_identifier i (map_expr_kind f g k) = own_identifier i k"
  by (cases k) (simp_all add: own_identifier_def)

lemma Visit_last:
  assumes "visits (set1_expr_kind k)" and "Visit i (map_expr_kind Accept Accept_stmt k) found = Some r"
  shows "r = last_of (own_identifier i k @ concat (map opt_ids (followed k))) found"
proof (cases "\<exists>name. k = IdentifierExpr name")
  case True
  with assms(2) show ?thesis by (auto simp: own_identifier_def last_of_def)
next
  case False
  then have own: "own_identifier i (map_expr_kind Accept Accept_stmt k) = []" "own_identifier i k = []"
    by (simp_all add: own_map own_None)
  have "(\<Union>p \<in> set (followed k). set_option p) \<subseteq> set1_expr_kind k"
    using followed_children by blast
  with Visit_accept_all [OF assms(2) own(1)] show ?thesis
    by (simp add: map_followed own accept_all_last [OF assms(1)])
qed

lemma Accept_last:
  "Accept e found = Some r \<Longrightarrow> r = last_of (base_identifiers e) found" and
  "Accept_stmt st = ()"
proof (induction e and st arbitrary: found r and rule: expr.induct stmt.induct)
  case (Expr i k)
  have "map (\<lambda>p. case p of None \<Rightarrow> [] | Some ids \<Rightarrow> ids)
     (followed (map_expr_kind base_identifiers base_identifiers_stmt k)) = map opt_ids (followed k)"
    by (auto simp: map_followed opt_ids_def split: option.splits)
  moreover have "visits (set1_expr_kind k)" using Expr.IH(1) by (auto simp: visits_def)
  ultimately show ?case using Visit_last [of k i found r] Expr.prems by simp
qed simp

text \<open>
  The identifier at the base of an expression is the last one that the search reaches: of
  \<open>a + b\<close> it is \<open>b\<close>, of a call or a member access the identifier it starts from. When the search
  meets no null child, \<open>GetIdentifierBase\<close> returns the last of \<open>base_identifiers\<close>, and the null
  pointer when there is none.
\<close>

theorem base_identifier_is_last:
  assumes "GetIdentifierBase (Some e) = Some found"
  shows "found = (if base_identifiers e = [] then None else Some (last (base_identifiers e)))"
  using Accept_last(1) [of e None found] assms by (simp add: GetIdentifierBase_def last_of_def)

lemma base_identifier_is_last_witness:
  "let id = (\<lambda>s. node (IdentifierExpr s));
       e = node (BinaryExpr ''+'' (Some (id ''a'')) (Some (node (MemberAccessExpr (Some (id ''b'')) ''m''))))
   in GetIdentifierBase (Some e) = Some (Some (id ''b''))"
proof -
  let ?id = "\<lambda>s. node (IdentifierExpr s)"
  let ?e = "node (BinaryExpr ''+'' (Some (?id ''a'')) (Some (node (MemberAccessExpr (Some (?id ''b'')) ''m''))))"
  obtain found where f: "GetIdentifierBase (Some ?e) = Some found"
    by (simp add: GetIdentifierBase_def node_def accept_def accept_if_def)
  from base_identifier_is_last [OF f] have "found = Some (?id ''b'')"
    by (simp add: node_def own_identifier_def)
  with f show ?thesis by (simp add: Let_def)
qed

end
