(* ===== verification/Plugins.thy ===== *)
theory Plugins
  imports Lexer Ast
begin

text \<open>
  The registry of syntax plugins (\<^verbatim>\<open>Absolute-Parser/src/syntax_plugins.cpp\<close> and
  \<^verbatim>\<open>include/syntax_plugins.h\<close>): registering and unregistering rules, operators, preludes,
  resources and virtual modules, the cursor that a plugin's parser drives, the hand-over of an
  opaque syntax node, and the expansion of plugin keywords in a token stream.

  The global tables are the fields of the record \<open>registry\<close>; an \<open>unordered_map\<close> is a partial
  function, and \<open>emplace\<close> keeps an entry that is already there. The callbacks of a plugin are
  code outside the repository: a rule holds a function from what the callback is shown to what
  it answers (with its \<open>user_data\<close> already applied). A \<open>const char*\<close> is an optional string.
\<close>

section \<open>Descriptors and the registry\<close>

definition plugin_abi_version :: nat where
  "plugin_abi_version = 1"

record token_view =
  tv_kind :: nat
  tv_text :: string
  tv_line :: u32
  tv_column :: u32

text \<open>How a call of \<open>expand\<close> ends.\<close>

datatype expand_outcome =
  Expand_threw string
| Expand_threw_unknown
| Expand_returned bool "string option" nat "string option"

record opaque_vtable =
  vt_abi :: nat
  vt_destroy :: bool
  vt_emit :: bool
  vt_debug :: "string option"

text \<open>The node that a plugin's parser hands over: a payload (0 is the null pointer) and its table.\<close>

record opaque_result =
  or_payload :: nat
  or_vtable :: "opaque_vtable option"
  or_error :: "string option"

text \<open>How a call of \<open>parse\<close> ends, with the index at which it left the cursor.\<close>

datatype parse_outcome =
  Parse_threw string opaque_result
| Parse_threw_unknown opaque_result
| Parse_returned bool nat opaque_result

type_synonym expand_fn = "token_view list \<Rightarrow> expand_outcome"
type_synonym parse_fn = "token_view list \<Rightarrow> parse_outcome"

record registered_rule =
  rr_plugin :: string
  rr_keyword :: string
  rr_expand :: expand_fn

record registered_opaque_rule =
  ro_plugin :: string
  ro_keyword :: string
  ro_parse :: parse_fn

record prelude =
  pl_plugin :: string
  pl_source :: string

record binary_operator =
  bo_plugin :: string
  bo_left :: string
  bo_text :: string
  bo_right :: string
  bo_function :: string
  bo_result :: string

record resource_descriptor =
  rd_plugin :: string
  rd_type :: string
  rd_is_resource :: bool
  rd_destroy :: string
  rd_move_into :: string
  rd_copy_message :: string
  rd_make_immutable :: string
  rd_rehome :: string

definition canCrossIsolateBoundary :: "resource_descriptor \<Rightarrow> bool" where
  "canCrossIsolateBoundary d \<longleftrightarrow>
     rd_copy_message d \<noteq> [] \<or> rd_make_immutable d \<noteq> [] \<or> rd_rehome d \<noteq> []"

record registry =
  rules :: "registered_rule list"
  rulesByKeyword :: "string \<rightharpoonup> nat"
  opaqueRules :: "registered_opaque_rule list"
  opaqueRulesByKeyword :: "string \<rightharpoonup> nat"
  preludes :: "prelude list"
  binaryOperators :: "binary_operator list"
  binaryOperatorsBySignature :: "string \<rightharpoonup> nat"
  resourcesByTypeName :: "string \<rightharpoonup> resource_descriptor"
  virtualModulesByName :: "string \<rightharpoonup> string \<times> string"

definition empty_registry :: registry where
  "empty_registry =
     \<lparr>rules = [], rulesByKeyword = Map.empty, opaqueRules = [], opaqueRulesByKeyword = Map.empty,
      preludes = [], binaryOperators = [], binaryOperatorsBySignature = Map.empty,
      resourcesByTypeName = Map.empty, virtualModulesByName = Map.empty\<rparr>"

definition emplace :: "'k \<Rightarrow> 'v \<Rightarrow> ('k \<rightharpoonup> 'v) \<Rightarrow> ('k \<rightharpoonup> 'v)" where
  "emplace k v m = (if m k = None then m(k \<mapsto> v) else m)"

text \<open>\<open>text ? text : ""\<close>.\<close>

definition text_or_empty :: "string option \<Rightarrow> string" where
  "text_or_empty p = (case p of None \<Rightarrow> [] | Some s \<Rightarrow> s)"

definition IsIdentifier :: "string \<Rightarrow> bool" where
  "IsIdentifier value =
     (case value of
        [] \<Rightarrow> False
      | c # cs \<Rightarrow> (c = CHR ''_'' \<or> isalpha c) \<and> list_all (\<lambda>d. d = CHR ''_'' \<or> isalnum d) cs)"

definition OperatorKey :: "string \<Rightarrow> string \<Rightarrow> string \<Rightarrow> string" where
  "OperatorKey leftType operatorText rightType =
     leftType @ ''\<newline>'' @ operatorText @ ''\<newline>'' @ rightType"

definition Location :: "token \<Rightarrow> string" where
  "Location t = ''line '' @ int_to_string (tok_line t) @ '', column '' @ int_to_string (tok_column t)"

definition quoted :: "string \<Rightarrow> string" where
  "quoted s = [single_quote] @ s @ [single_quote]"

section \<open>Registering\<close>

text \<open>A table as a plugin describes it: the number of entries and a pointer to them.\<close>

record 'a table =
  tb_count :: nat
  tb_rules :: "'a list option"

definition entries :: "'a table \<Rightarrow> 'a list" where
  "entries t = take (tb_count t) (case tb_rules t of None \<Rightarrow> [] | Some xs \<Rightarrow> xs)"

record syntax_rule =
  sr_keyword :: "string option"
  sr_expand :: "expand_fn option"

record syntax_plugin =
  sp_abi :: nat
  sp_name :: "string option"
  sp_rules :: "syntax_rule table"

text \<open>The loop that validates the rules; \<open>newKeywords\<close> are the keywords seen so far.\<close>

fun check_rules :: "registry \<Rightarrow> string \<Rightarrow> string list \<Rightarrow> syntax_rule list \<Rightarrow> string + unit" where
  "check_rules reg name newKeywords [] = Inr ()"
| "check_rules reg name newKeywords (rule # rs) =
     (let keyword = text_or_empty (sr_keyword rule) in
      if \<not> IsIdentifier keyword then
        Inl (''Syntax plugin '' @ quoted name @ '' registered invalid keyword '' @ quoted keyword)
      else if sr_expand rule = None then
        Inl (''Syntax plugin rule '' @ quoted keyword @ '' has no adapter'')
      else if IsValidTokenValue T_KEYWORD keyword then
        Inl (''Syntax plugin cannot replace core keyword '' @ quoted keyword)
      else if rulesByKeyword reg keyword \<noteq> None \<or> opaqueRulesByKeyword reg keyword \<noteq> None \<or>
              keyword \<in> set newKeywords then
        Inl (''Syntax keyword '' @ quoted keyword @ '' is already registered'')
      else check_rules reg name (keyword # newKeywords) rs)"

definition add_rule :: "string \<Rightarrow> syntax_rule \<Rightarrow> registry \<Rightarrow> registry" where
  "add_rule name rule reg =
     (let keyword = text_or_empty (sr_keyword rule); ruleIndex = length (rules reg)
      in reg\<lparr>rules := rules reg @
               [\<lparr>rr_plugin = name, rr_keyword = keyword, rr_expand = the (sr_expand rule)\<rparr>],
             rulesByKeyword := emplace keyword ruleIndex (rulesByKeyword reg)\<rparr>)"

definition RegisterSyntaxPlugin :: "syntax_plugin option \<Rightarrow> registry \<Rightarrow> string + registry" where
  "RegisterSyntaxPlugin plugin reg =
     (case plugin of
        None \<Rightarrow> Inl ''Syntax plugin returned a null descriptor''
      | Some p \<Rightarrow>
          if sp_abi p \<noteq> plugin_abi_version then
            Inl (''Unsupported syntax plugin ABI '' @ to_string (sp_abi p) @
                 ''; compiler expects '' @ to_string plugin_abi_version)
          else if text_or_empty (sp_name p) = [] then
            Inl ''Syntax plugin requires a non-empty name''
          else
            let name = text_or_empty (sp_name p) in
            if tb_count (sp_rules p) \<noteq> 0 \<and> tb_rules (sp_rules p) = None then
              Inl (''Syntax plugin '' @ quoted name @ '' has no rule table'')
            else
              (case check_rules reg name [] (entries (sp_rules p)) of
                 Inl e \<Rightarrow> Inl e
               | Inr _ \<Rightarrow> Inr (fold (add_rule name) (entries (sp_rules p)) reg)))"

definition ResetSyntaxPlugins :: "registry \<Rightarrow> registry" where
  "ResetSyntaxPlugins reg =
     reg\<lparr>rulesByKeyword := Map.empty, rules := [], opaqueRulesByKeyword := Map.empty,
         opaqueRules := [], preludes := [], binaryOperatorsBySignature := Map.empty,
         binaryOperators := [], resourcesByTypeName := Map.empty,
         virtualModulesByName := Map.empty\<rparr>"

text \<open>Rebuilding an index from a list: \<open>emplace\<close> for each position in turn.\<close>

fun reindex :: "('a \<Rightarrow> string) \<Rightarrow> nat \<Rightarrow> 'a list \<Rightarrow> (string \<rightharpoonup> nat) \<Rightarrow> (string \<rightharpoonup> nat)" where
  "reindex key i [] m = m"
| "reindex key i (x # xs) m = reindex key (Suc i) xs (emplace (key x) i m)"

definition operator_key :: "binary_operator \<Rightarrow> string" where
  "operator_key op = OperatorKey (bo_left op) (bo_text op) (bo_right op)"

definition drop_owned :: "('v \<Rightarrow> string) \<Rightarrow> string \<Rightarrow> ('k \<rightharpoonup> 'v) \<Rightarrow> ('k \<rightharpoonup> 'v)" where
  "drop_owned owner pluginName m =
     (\<lambda>k. case m k of None \<Rightarrow> None | Some v \<Rightarrow> if owner v = pluginName then None else Some v)"

definition UnregisterSyntaxPlugin :: "string \<Rightarrow> registry \<Rightarrow> registry" where
  "UnregisterSyntaxPlugin pluginName reg =
     (let keptRules = filter (\<lambda>r. rr_plugin r \<noteq> pluginName) (rules reg);
          keptOpaque = filter (\<lambda>r. ro_plugin r \<noteq> pluginName) (opaqueRules reg);
          keptOperators = filter (\<lambda>op. bo_plugin op \<noteq> pluginName) (binaryOperators reg)
      in reg\<lparr>rules := keptRules,
             rulesByKeyword := reindex rr_keyword 0 keptRules Map.empty,
             opaqueRules := keptOpaque,
             opaqueRulesByKeyword := reindex ro_keyword 0 keptOpaque Map.empty,
             binaryOperators := keptOperators,
             binaryOperatorsBySignature := reindex operator_key 0 keptOperators Map.empty,
             preludes := filter (\<lambda>p. pl_plugin p \<noteq> pluginName) (preludes reg),
             resourcesByTypeName := drop_owned rd_plugin pluginName (resourcesByTypeName reg),
             virtualModulesByName := drop_owned fst pluginName (virtualModulesByName reg)\<rparr>)"

definition RegisterSyntaxPluginPrelude :: "string \<Rightarrow> string option \<Rightarrow> registry \<Rightarrow> string + registry" where
  "RegisterSyntaxPluginPrelude pluginName source reg =
     (case source of
        None \<Rightarrow> Inl (''Syntax plugin '' @ quoted pluginName @ '' returned a null prelude'')
      | Some s \<Rightarrow>
          Inr (if s \<noteq> []
               then reg\<lparr>preludes := preludes reg @ [\<lparr>pl_plugin = pluginName, pl_source = s\<rparr>]\<rparr>
               else reg))"

record operator_rule =
  op_left :: "string option"
  op_text :: "string option"
  op_right :: "string option"
  op_function :: "string option"
  op_result :: "string option"

definition rule_key :: "operator_rule \<Rightarrow> string" where
  "rule_key r = OperatorKey (the (op_left r)) (the (op_text r)) (the (op_right r))"

fun check_operators :: "registry \<Rightarrow> string \<Rightarrow> string list \<Rightarrow> operator_rule list \<Rightarrow> string + unit" where
  "check_operators reg pluginName newSignatures [] = Inr ()"
| "check_operators reg pluginName newSignatures (r # rs) =
     (if op_left r = None \<or> op_text r = None \<or> op_right r = None \<or> op_function r = None \<or>
         op_result r = None then
        Inl (''Syntax plugin '' @ quoted pluginName @ '' returned an incomplete operator rule'')
      else if binaryOperatorsBySignature reg (rule_key r) \<noteq> None \<or>
              rule_key r \<in> set newSignatures then
        Inl (''Binary operator for '' @ quoted (the (op_left r) @ '' '' @ the (op_text r) @ '' '' @
               the (op_right r)) @ '' is already registered'')
      else check_operators reg pluginName (rule_key r # newSignatures) rs)"

definition add_operator :: "string \<Rightarrow> operator_rule \<Rightarrow> registry \<Rightarrow> registry" where
  "add_operator pluginName r reg =
     reg\<lparr>binaryOperators := binaryOperators reg @
           [\<lparr>bo_plugin = pluginName, bo_left = the (op_left r), bo_text = the (op_text r),
             bo_right = the (op_right r), bo_function = the (op_function r),
             bo_result = the (op_result r)\<rparr>],
         binaryOperatorsBySignature :=
           emplace (rule_key r) (length (binaryOperators reg)) (binaryOperatorsBySignature reg)\<rparr>"

definition RegisterPluginBinaryOperators ::
  "string \<Rightarrow> operator_rule table option \<Rightarrow> registry \<Rightarrow> string + registry" where
  "RegisterPluginBinaryOperators pluginName operators reg =
     (case operators of
        None \<Rightarrow> Inr reg
      | Some t \<Rightarrow>
          if tb_count t \<noteq> 0 \<and> tb_rules t = None then
            Inl (''Syntax plugin '' @ quoted pluginName @ '' returned no operator table'')
          else
            (case check_operators reg pluginName [] (entries t) of
               Inl e \<Rightarrow> Inl e
             | Inr _ \<Rightarrow> Inr (fold (add_operator pluginName) (entries t) reg)))"

record opaque_rule =
  oq_keyword :: "string option"
  oq_namespace :: "string option"
  oq_parse :: "parse_fn option"

definition opaque_keyword :: "opaque_rule \<Rightarrow> string" where
  "opaque_keyword rule =
     (let keyword = text_or_empty (oq_keyword rule); ns = text_or_empty (oq_namespace rule)
      in if ns \<noteq> [] then ns @ ''.'' @ keyword else keyword)"

fun check_opaque :: "registry \<Rightarrow> string \<Rightarrow> string list \<Rightarrow> opaque_rule list \<Rightarrow> string + unit" where
  "check_opaque reg pluginName newKeywords [] = Inr ()"
| "check_opaque reg pluginName newKeywords (rule # rs) =
     (let keyword = opaque_keyword rule in
      if \<not> IsIdentifier (text_or_empty (oq_keyword rule)) then
        Inl (''Syntax plugin '' @ quoted pluginName @ '' registered invalid opaque keyword '' @ quoted keyword)
      else if oq_parse rule = None then
        Inl (''Opaque syntax rule '' @ quoted keyword @ '' has no parser callback'')
      else if IsValidTokenValue T_KEYWORD keyword then
        Inl (''Syntax plugin cannot replace core keyword '' @ quoted keyword)
      else if rulesByKeyword reg keyword \<noteq> None \<or> opaqueRulesByKeyword reg keyword \<noteq> None \<or>
              keyword \<in> set newKeywords then
        Inl (''Syntax keyword '' @ quoted keyword @ '' is already registered by plugin'')
      else check_opaque reg pluginName (keyword # newKeywords) rs)"

definition add_opaque :: "string \<Rightarrow> opaque_rule \<Rightarrow> registry \<Rightarrow> registry" where
  "add_opaque pluginName rule reg =
     (let keyword = opaque_keyword rule; ruleIndex = length (opaqueRules reg)
      in reg\<lparr>opaqueRules := opaqueRules reg @
               [\<lparr>ro_plugin = pluginName, ro_keyword = keyword, ro_parse = the (oq_parse rule)\<rparr>],
             opaqueRulesByKeyword := emplace keyword ruleIndex (opaqueRulesByKeyword reg)\<rparr>)"

definition RegisterOpaqueSyntaxRules ::
  "string \<Rightarrow> opaque_rule table option \<Rightarrow> registry \<Rightarrow> string + registry" where
  "RegisterOpaqueSyntaxRules pluginName tab reg =
     (case tab of
        None \<Rightarrow> Inr reg
      | Some t \<Rightarrow>
          if tb_count t \<noteq> 0 \<and> tb_rules t = None then
            Inl (''Syntax plugin '' @ quoted pluginName @ '' returned no opaque rule table'')
          else
            (case check_opaque reg pluginName [] (entries t) of
               Inl e \<Rightarrow> Inl e
             | Inr _ \<Rightarrow> Inr (fold (add_opaque pluginName) (entries t) reg)))"

text \<open>
  A resource descriptor, with the size the plugin compiled it with: a field beyond that size is
  not read. The offsets are those of the structure on a 64-bit target.
\<close>

record resource_rule =
  rs_struct_size :: nat
  rs_type_name :: "string option"
  rs_is_resource :: bool
  rs_destroy :: "string option"
  rs_move_into :: "string option"
  rs_copy_message :: "string option"
  rs_make_immutable :: "string option"
  rs_rehome :: "string option"

definition optional_field :: "nat \<Rightarrow> nat \<Rightarrow> string option \<Rightarrow> string" where
  "optional_field structSize fieldEnd p = (if structSize \<ge> fieldEnd then text_or_empty p else [])"

definition make_resource :: "string \<Rightarrow> resource_rule \<Rightarrow> resource_descriptor" where
  "make_resource pluginName d =
     \<lparr>rd_plugin = pluginName, rd_type = text_or_empty (rs_type_name d),
      rd_is_resource = rs_is_resource d,
      rd_destroy = text_or_empty (rs_destroy d),
      rd_move_into = text_or_empty (rs_move_into d),
      rd_copy_message = optional_field (rs_struct_size d) 48 (rs_copy_message d),
      rd_make_immutable = optional_field (rs_struct_size d) 56 (rs_make_immutable d),
      rd_rehome = optional_field (rs_struct_size d) 64 (rs_rehome d)\<rparr>"

text \<open>The entries are stored one by one: an error leaves those before it in the registry.\<close>

fun register_resources :: "string \<Rightarrow> resource_rule list \<Rightarrow> registry \<Rightarrow> (string + unit) \<times> registry" where
  "register_resources pluginName [] reg = (Inr (), reg)"
| "register_resources pluginName (d # ds) reg =
     (let typeName = text_or_empty (rs_type_name d) in
      if rs_struct_size d < 40 then
        (Inl (''Plugin '' @ quoted pluginName @ '' uses incompatible AbsoluteResourceDescriptorV1''), reg)
      else if \<not> IsIdentifier typeName then
        (Inl (''Plugin '' @ quoted pluginName @ '' registered invalid resource type '' @ quoted typeName), reg)
      else if resourcesByTypeName reg typeName \<noteq> None then
        (Inl (''Plugin resource type '' @ quoted typeName @ '' is already registered''), reg)
      else
        register_resources pluginName ds
          (reg\<lparr>resourcesByTypeName :=
             (resourcesByTypeName reg)(typeName \<mapsto> make_resource pluginName d)\<rparr>))"

definition RegisterPluginResources ::
  "string \<Rightarrow> resource_rule table option \<Rightarrow> registry \<Rightarrow> (string + unit) \<times> registry" where
  "RegisterPluginResources pluginName resources reg =
     (case resources of
        None \<Rightarrow> (Inr (), reg)
      | Some t \<Rightarrow>
          if tb_count t \<noteq> 0 \<and> tb_rules t = None then
            (Inl (''Plugin '' @ quoted pluginName @ '' has invalid resources table''), reg)
          else register_resources pluginName (entries t) reg)"

definition add_module :: "string \<Rightarrow> string option \<times> string option \<Rightarrow> registry \<Rightarrow> registry" where
  "add_module pluginName m reg =
     (case m of
        (Some name, Some source) \<Rightarrow>
          reg\<lparr>virtualModulesByName := (virtualModulesByName reg)(name \<mapsto> (pluginName, source))\<rparr>
      | _ \<Rightarrow> reg)"

definition RegisterPluginVirtualModules ::
  "string \<Rightarrow> (string option \<times> string option) list option \<Rightarrow> registry \<Rightarrow> registry" where
  "RegisterPluginVirtualModules pluginName modules reg =
     (case modules of None \<Rightarrow> reg | Some ms \<Rightarrow> fold (add_module pluginName) ms reg)"

section \<open>Looking up\<close>

definition FindPluginVirtualModule :: "registry \<Rightarrow> string \<Rightarrow> string option" where
  "FindPluginVirtualModule reg moduleName = map_option snd (virtualModulesByName reg moduleName)"

definition IsSyntaxPluginKeyword :: "registry \<Rightarrow> string \<Rightarrow> bool" where
  "IsSyntaxPluginKeyword reg value \<longleftrightarrow>
     rulesByKeyword reg value \<noteq> None \<or> opaqueRulesByKeyword reg value \<noteq> None"

definition SyntaxPluginPreludes :: "registry \<Rightarrow> string list" where
  "SyntaxPluginPreludes reg = map pl_source (preludes reg)"

definition FindPluginBinaryOperator ::
  "registry \<Rightarrow> string \<Rightarrow> string \<Rightarrow> string \<Rightarrow> binary_operator option" where
  "FindPluginBinaryOperator reg leftType operatorText rightType =
     (case binaryOperatorsBySignature reg (OperatorKey leftType operatorText rightType) of
        None \<Rightarrow> None
      | Some i \<Rightarrow> Some (binaryOperators reg ! i))"

definition GetPluginResourceDescriptor :: "registry \<Rightarrow> string \<Rightarrow> resource_descriptor option" where
  "GetPluginResourceDescriptor reg typeName = resourcesByTypeName reg typeName"

section \<open>The cursor of an opaque parser\<close>

definition view_of :: "token \<Rightarrow> token_view" where
  "view_of t = \<lparr>tv_kind = token_code (tok_type t), tv_text = tok_value t,
                tv_line = word_of_int (tok_line t), tv_column = word_of_int (tok_column t)\<rparr>"

definition MakeTokenViews :: "token list \<Rightarrow> nat \<Rightarrow> token_view list" where
  "MakeTokenViews tokens start = map view_of (drop start tokens)"

record cursor =
  cu_views :: "token_view list"
  cu_index :: nat
  cu_slice :: string

definition CursorRemaining :: "cursor \<Rightarrow> nat" where
  "CursorRemaining c =
     (if cu_index c < length (cu_views c) then length (cu_views c) - cu_index c else 0)"

definition CursorPeek :: "cursor \<Rightarrow> nat \<Rightarrow> token_view option" where
  "CursorPeek c offset =
     (let index = cu_index c + offset
      in if index < length (cu_views c) then Some (cu_views c ! index) else None)"

text \<open>\<open>None\<close> as the kind is \<open>UINT32_MAX\<close>, which accepts every kind.\<close>

definition CursorConsume :: "nat option \<Rightarrow> string option \<Rightarrow> cursor \<Rightarrow> bool \<times> cursor" where
  "CursorConsume expectedKind expectedText c =
     (if cu_index c \<ge> length (cu_views c) then (False, c)
      else
        let t = cu_views c ! cu_index c in
        if (case expectedKind of None \<Rightarrow> False | Some k \<Rightarrow> tv_kind t \<noteq> k) then (False, c)
        else if (case expectedText of None \<Rightarrow> False | Some s \<Rightarrow> tv_text t \<noteq> s) then (False, c)
        else (True, c\<lparr>cu_index := cu_index c + 1\<rparr>))"

definition CursorCheckpoint :: "cursor \<Rightarrow> nat" where
  "CursorCheckpoint c = cu_index c"

definition CursorRestore :: "nat \<Rightarrow> cursor \<Rightarrow> bool \<times> cursor" where
  "CursorRestore checkpointId c =
     (if checkpointId > length (cu_views c) then (False, c)
      else (True, c\<lparr>cu_index := checkpointId\<rparr>))"

definition CursorCommit :: "nat \<Rightarrow> cursor \<Rightarrow> bool \<times> cursor" where
  "CursorCommit checkpointId c = (True, c)"

fun spaced :: "string list \<Rightarrow> string" where
  "spaced [] = []"
| "spaced [x] = x"
| "spaced (x # xs) = x @ '' '' @ spaced xs"

definition CursorSourceSlice :: "nat \<Rightarrow> nat \<Rightarrow> cursor \<Rightarrow> string \<times> cursor" where
  "CursorSourceSlice startToken endToken c =
     (if startToken \<ge> length (cu_views c) \<or> endToken > length (cu_views c) \<or> startToken > endToken
      then ([], c)
      else
        let text = spaced (map tv_text (take (endToken - startToken) (drop startToken (cu_views c))))
        in (text, c\<lparr>cu_slice := text\<rparr>))"

definition CursorCaptureUntil :: "string option \<Rightarrow> cursor \<Rightarrow> (string \<times> nat) \<times> cursor" where
  "CursorCaptureUntil endDelimiter c =
     (case endDelimiter of
        None \<Rightarrow> (([], 0), c)
      | Some delimiter \<Rightarrow>
          if cu_index c \<ge> length (cu_views c) then (([], 0), c)
          else
            let captured = takeWhile (\<lambda>t. tv_text t \<noteq> delimiter) (drop (cu_index c) (cu_views c));
                text = concat (map (\<lambda>t. tv_text t @ '' '') captured);
                count = length captured
            in ((text, count), c\<lparr>cu_slice := text, cu_index := cu_index c + count\<rparr>))"

section \<open>Handing over an opaque node\<close>

text \<open>The payloads on which \<open>vtable->destroy\<close> is called.\<close>

definition DestroyOpaqueNode :: "opaque_result \<Rightarrow> nat list" where
  "DestroyOpaqueNode r =
     (case or_vtable r of
        Some vt \<Rightarrow> if or_payload r \<noteq> 0 \<and> vt_destroy vt then [or_payload r] else []
      | None \<Rightarrow> [])"

definition valid_node :: "opaque_result \<Rightarrow> bool" where
  "valid_node r \<longleftrightarrow>
     or_payload r \<noteq> 0 \<and>
     (case or_vtable r of
        None \<Rightarrow> False
      | Some vt \<Rightarrow> vt_abi vt = plugin_abi_version \<and> vt_destroy vt \<and> vt_emit vt)"

definition node_of :: "opaque_result \<Rightarrow> opaque_node" where
  "node_of r = \<lparr>on_payload = or_payload r,
     on_debug = (case or_vtable r of None \<Rightarrow> None | Some vt \<Rightarrow> vt_debug vt)\<rparr>"

text \<open>
  The outcome (an error, no rule for the token, or the statement and the new position) and the
  payloads destroyed on the way.
\<close>

definition TryParseOpaquePluginStatement ::
  "registry \<Rightarrow> token list \<Rightarrow> nat \<Rightarrow> (string + (stmt \<times> nat) option) \<times> nat list" where
  "TryParseOpaquePluginStatement reg tokens position =
     (if position \<ge> length tokens then (Inr None, [])
      else
        case opaqueRulesByKeyword reg (tok_value (tokens ! position)) of
          None \<Rightarrow> (Inr None, [])
        | Some i \<Rightarrow>
            let rule = opaqueRules reg ! i;
                trigger = tokens ! position;
                views = MakeTokenViews tokens position;
                plugin = ''Opaque syntax plugin '' @ quoted (ro_plugin rule)
            in case ro_parse rule views of
                 Parse_threw what r \<Rightarrow>
                   (Inl (plugin @ '' threw at '' @ Location trigger @ '': '' @ what), DestroyOpaqueNode r)
               | Parse_threw_unknown r \<Rightarrow>
                   (Inl (plugin @ '' threw an unknown exception at '' @ Location trigger), DestroyOpaqueNode r)
               | Parse_returned succeeded index r \<Rightarrow>
                   if \<not> succeeded then
                     (Inl (plugin @ '' failed at '' @ Location trigger @ '': '' @
                        (case or_error r of None \<Rightarrow> ''parser rejected input'' | Some s \<Rightarrow> s)),
                      DestroyOpaqueNode r)
                   else if index = 0 \<or> index > length views then
                     (Inl (plugin @ '' consumed an invalid token count at '' @ Location trigger),
                      DestroyOpaqueNode r)
                   else if \<not> valid_node r then
                     (Inl (plugin @ '' returned an invalid AST node at '' @ Location trigger),
                      DestroyOpaqueNode r)
                   else
                     (Inr (Some (stmt_node (OpaquePluginStmt (ro_plugin rule) (ro_keyword rule)
                                   (node_of r)), position + index)), []))"

section \<open>Expanding plugin keywords\<close>

definition maximumExpansions :: nat where
  "maximumExpansions = 10000"

definition RebaseLocations :: "token list \<Rightarrow> token \<Rightarrow> token list" where
  "RebaseLocations replacement trigger =
     map (\<lambda>t. t\<lparr>tok_column := (if tok_line t = 1 then tok_column t + (tok_column trigger - 1)
                                else tok_column t),
                tok_line := tok_line t + (tok_line trigger - 1)\<rparr>) replacement"

text \<open>One call of an adapter at \<open>index\<close>: the number of tokens consumed and their replacement.\<close>

definition expand_at :: "registry \<Rightarrow> token list \<Rightarrow> nat \<Rightarrow> registered_rule \<Rightarrow> string + nat \<times> token list" where
  "expand_at reg tokens index rule =
     (let trigger = tokens ! index;
          views = MakeTokenViews tokens index;
          plugin = ''Syntax plugin '' @ quoted (rr_plugin rule)
      in case rr_expand rule views of
           Expand_threw what \<Rightarrow> Inl (plugin @ '' threw at '' @ Location trigger @ '': '' @ what)
         | Expand_threw_unknown \<Rightarrow> Inl (plugin @ '' threw an unknown exception at '' @ Location trigger)
         | Expand_returned succeeded error consumed source \<Rightarrow>
             if \<not> succeeded then
               Inl (plugin @ '' failed at '' @ Location trigger @ '': '' @
                 (case error of None \<Rightarrow> ''adapter rejected input'' | Some s \<Rightarrow> s))
             else if consumed = 0 \<or> consumed > length views then
               Inl (plugin @ '' returned an invalid consumed token count at '' @ Location trigger)
             else
               (case source of
                  None \<Rightarrow> Inr (consumed, [])
                | Some s \<Rightarrow>
                    if s = [] then Inr (consumed, [])
                    else
                      (case lexer (IsSyntaxPluginKeyword reg) s of
                         Inl e \<Rightarrow> Inl e
                       | Inr replacement \<Rightarrow> Inr (consumed, RebaseLocations replacement trigger))))"

function expand_loop :: "registry \<Rightarrow> nat \<Rightarrow> nat \<Rightarrow> token list \<Rightarrow> string + token list" where
  "expand_loop reg expansionCount index tokens =
     (if index \<ge> length tokens then Inr tokens
      else
        case rulesByKeyword reg (tok_value (tokens ! index)) of
          None \<Rightarrow> expand_loop reg expansionCount (index + 1) tokens
        | Some i \<Rightarrow>
            if expansionCount + 1 > maximumExpansions then
              Inl ''Syntax plugin expansion limit exceeded; possible recursive adapter''
            else
              (case expand_at reg tokens index (rules reg ! i) of
                 Inl e \<Rightarrow> Inl e
               | Inr (consumed, replacement) \<Rightarrow>
                   expand_loop reg (expansionCount + 1) index
                     (take index tokens @ replacement @ drop (index + consumed) tokens)))"
  by pat_completeness auto
termination
  by (relation "measures [\<lambda>(_, count, _, _). maximumExpansions - count,
                          \<lambda>(_, _, index, tokens). length tokens - index]") auto

declare expand_loop.simps [simp del]

definition ExpandSyntaxPlugins :: "registry \<Rightarrow> token list \<Rightarrow> string + token list" where
  "ExpandSyntaxPlugins reg tokens = expand_loop reg 0 0 tokens"

end
