(* ===== verification/Parser_State.thy ===== *)
theory Parser_State
  imports Plugins
begin

text \<open>
  The state of the recursive-descent parser and the operations every parse function is made of
  (\<^verbatim>\<open>Absolute-Parser/include/parser.h\<close>, \<^verbatim>\<open>src/scope.cpp\<close> and \<^verbatim>\<open>src/parser/parser_utils.cpp\<close>).

  A parse function takes the state to a value or an error, and to the state it leaves behind:
  the state is kept when an exception is thrown, since the scope stack is global and the
  diagnostics have been written. \<open>Null_dereference\<close> and \<open>Out_of_bounds\<close> are the undefined
  behaviours of following a null token pointer and of reading beyond the vector of tokens;
  \<open>Out_of_fuel\<close> is shown never to be the answer in theory
  \<^verbatim>\<open>Parser_Termination\<close>. A \<open>Token*\<close> is a copy of the token: the vector of tokens is never
  resized while parsing, and the places where the code changes a token in place are modelled.
\<close>

section \<open>State and errors\<close>

datatype ScopeType = S_Global | S_Class | S_Struct | S_Interface | S_Enum | S_Group | S_Function
  | S_Namespace

datatype parse_error =
  Runtime string
| Invalid_argument string
| Out_of_range
| Null_dereference
| Out_of_bounds
| Out_of_fuel

text \<open>A C++ exception: what \<open>catch (...)\<close> can catch.\<close>

fun is_exception :: "parse_error \<Rightarrow> bool" where
  "is_exception (Runtime m) = True"
| "is_exception (Invalid_argument m) = True"
| "is_exception Out_of_range = True"
| "is_exception Null_dereference = False"
| "is_exception Out_of_bounds = False"
| "is_exception Out_of_fuel = False"

record pstate =
  p_tokens :: "token list"
  p_modifiers :: "token list"
  p_attributes :: "attribute list"
  p_file :: string
  p_pos :: nat
  p_depth :: nat
  p_scopes :: "(ScopeType \<times> string) list"
  p_log :: "string list"

definition new_parser :: "token list \<Rightarrow> string \<Rightarrow> (ScopeType \<times> string) list \<Rightarrow> string list \<Rightarrow> pstate" where
  "new_parser tokens sourceFile scopes log =
     \<lparr>p_tokens = tokens, p_modifiers = [], p_attributes = [], p_file = sourceFile, p_pos = 0,
      p_depth = 0, p_scopes = scopes, p_log = log\<rparr>"

type_synonym 'a parse = "pstate \<Rightarrow> (parse_error + 'a) \<times> pstate"

definition ret :: "'a \<Rightarrow> 'a parse" where
  "ret x s = (Inr x, s)"

definition throw :: "parse_error \<Rightarrow> 'a parse" where
  "throw e s = (Inl e, s)"

definition bind :: "'a parse \<Rightarrow> ('a \<Rightarrow> 'b parse) \<Rightarrow> 'b parse" where
  "bind m f s = (case m s of (Inl e, s') \<Rightarrow> (Inl e, s') | (Inr x, s') \<Rightarrow> f x s')"

definition seq :: "'a parse \<Rightarrow> 'b parse \<Rightarrow> 'b parse" where
  "seq m k = bind m (\<lambda>_. k)"

definition get :: "(pstate \<Rightarrow> 'a) \<Rightarrow> 'a parse" where
  "get f s = (Inr (f s), s)"

definition modify :: "(pstate \<Rightarrow> pstate) \<Rightarrow> unit parse" where
  "modify f s = (Inr (), f s)"

definition cond :: "(pstate \<Rightarrow> bool) \<Rightarrow> 'a parse \<Rightarrow> 'a parse \<Rightarrow> 'a parse" where
  "cond b m k s = (if b s then m s else k s)"

text \<open>
  A loop: the body continues with a new accumulator or leaves with a result. Every loop of the
  parser consumes a token per iteration, so the number of tokens left bounds the iterations.
\<close>

fun loop :: "nat \<Rightarrow> ('a \<Rightarrow> ('a + 'b) parse) \<Rightarrow> 'a \<Rightarrow> 'b parse" where
  "loop 0 body acc = throw Out_of_fuel"
| "loop (Suc n) body acc =
     bind (body acc) (\<lambda>r. case r of Inl acc' \<Rightarrow> loop n body acc' | Inr x \<Rightarrow> ret x)"

definition repeat :: "('a \<Rightarrow> ('a + 'b) parse) \<Rightarrow> 'a \<Rightarrow> 'b parse" where
  "repeat body acc = bind (get (\<lambda>s. length (p_tokens s) - p_pos s)) (\<lambda>n. loop (Suc n) body acc)"

definition continue :: "'a \<Rightarrow> ('a + 'b) parse" where
  "continue acc = ret (Inl acc)"

definition break :: "'b \<Rightarrow> ('a + 'b) parse" where
  "break x = ret (Inr x)"

text \<open>\<open>try { m } catch (...) { handler; throw; }\<close>.\<close>

definition on_exception :: "'a parse \<Rightarrow> (pstate \<Rightarrow> pstate) \<Rightarrow> 'a parse" where
  "on_exception m handler s =
     (case m s of
        (Inl e, s') \<Rightarrow> (Inl e, if is_exception e then handler s' else s')
      | (Inr x, s') \<Rightarrow> (Inr x, s'))"

section \<open>Looking at tokens\<close>

definition current :: "pstate \<Rightarrow> token option" where
  "current s = (if p_pos s < length (p_tokens s) then Some (p_tokens s ! p_pos s) else None)"

definition peek :: "nat \<Rightarrow> pstate \<Rightarrow> token option" where
  "peek offset s =
     (if p_pos s + offset < length (p_tokens s) then Some (p_tokens s ! (p_pos s + offset)) else None)"

definition CurrentToken :: "token option parse" where
  "CurrentToken = get current"

definition PeekToken :: "nat \<Rightarrow> token option parse" where
  "PeekToken offset = get (peek offset)"

text \<open>\<open>token->...\<close>: following a null pointer is undefined.\<close>

definition deref :: "token option \<Rightarrow> token parse" where
  "deref t = (case t of None \<Rightarrow> throw Null_dereference | Some t \<Rightarrow> ret t)"

definition CurrentDeref :: "token parse" where
  "CurrentDeref = bind CurrentToken deref"

text \<open>\<open>token && token->type == type && token->value == value\<close>, and its parts.\<close>

definition is_tok :: "TokenType \<Rightarrow> string \<Rightarrow> token option \<Rightarrow> bool" where
  "is_tok type v t = (case t of None \<Rightarrow> False | Some t \<Rightarrow> tok_type t = type \<and> tok_value t = v)"

definition is_val :: "string \<Rightarrow> token option \<Rightarrow> bool" where
  "is_val v t = (case t of None \<Rightarrow> False | Some t \<Rightarrow> tok_value t = v)"

definition is_type :: "TokenType \<Rightarrow> token option \<Rightarrow> bool" where
  "is_type type t = (case t of None \<Rightarrow> False | Some t \<Rightarrow> tok_type t = type)"

definition at :: "TokenType \<Rightarrow> string \<Rightarrow> pstate \<Rightarrow> bool" where
  "at type v s = is_tok type v (current s)"

definition at_val :: "string \<Rightarrow> pstate \<Rightarrow> bool" where
  "at_val v s = is_val v (current s)"

definition at_end :: "pstate \<Rightarrow> bool" where
  "at_end s \<longleftrightarrow> current s = None"

text \<open>The position after \<open>a.b.c\<close>.\<close>

function after_identifiers :: "token list \<Rightarrow> nat \<Rightarrow> nat" where
  "after_identifiers tokens i =
     (if i + 1 < length tokens \<and> tok_type (tokens ! i) = T_IDENTIFIER \<and>
         tok_type (tokens ! (i + 1)) = T_DELIMITER \<and> tok_value (tokens ! (i + 1)) = ''.''
      then after_identifiers tokens (i + 2) else i)"
  by pat_completeness auto
termination
  by (relation "measure (\<lambda>(tokens, i). length tokens - i)") auto

declare after_identifiers.simps [simp del]

definition PeekTokenAfterIdentifiers :: "pstate \<Rightarrow> nat option" where
  "PeekTokenAfterIdentifiers s =
     (let tokens = p_tokens s;
          i = after_identifiers tokens (p_pos s);
          j = (if i < length tokens \<and> tok_type (tokens ! i) = T_IDENTIFIER then i + 1 else i)
      in if j < length tokens then Some j else None)"

definition SkipOwnershipQualifier :: "token list \<Rightarrow> nat \<Rightarrow> nat" where
  "SkipOwnershipQualifier tokens index =
     (if index \<ge> length tokens then index
      else
        let t = tokens ! index in
        if tok_type t = T_KEYWORD \<and> (tok_value t = ''raw'' \<or> tok_value t = ''weak'') then index + 1
        else if tok_type t = T_IDENTIFIER \<and> tok_value t = ''sub'' \<and> index + 1 < length tokens \<and>
                (tok_type (tokens ! (index + 1)) = T_IDENTIFIER \<or>
                 (tok_type (tokens ! (index + 1)) = T_KEYWORD \<and>
                  IsPrimitiveType (tok_value (tokens ! (index + 1)))))
        then index + 1
        else index)"

text \<open>
  \<open>IsTemplateArgumentList\<close>: the index of the token that closes the argument list that opens at
  \<open>start\<close>, when there is one. The loop goes on at \<open>index\<close> with the open lists counted by \<open>depth\<close>.
\<close>

function template_scan :: "token list \<Rightarrow> nat \<Rightarrow> bool \<Rightarrow> nat \<Rightarrow> nat option" where
  "template_scan tokens depth expectType index =
     (if index \<ge> length tokens then None
      else
        let t = tokens ! index; v = tok_value t in
        if v = ''<'' then
          (if expectType then None else template_scan tokens (depth + 1) True (index + 1))
        else if v = ''>'' \<or> v = ''>>'' \<or> v = ''>>='' then
          (if expectType then None
           else
             let closes = (if v = ''>'' then 1 else 2) in
             if closes \<ge> depth then Some index
             else template_scan tokens (depth - closes) expectType (index + 1))
        else if v = '','' then
          (if expectType then None else template_scan tokens depth True (index + 1))
        else if v = ''.'' then
          (if expectType then None else template_scan tokens depth True (index + 1))
        else if v = ''*'' \<or> v = ''['' \<or> v = '']'' then
          template_scan tokens depth expectType (index + 1)
        else if expectType \<and> SkipOwnershipQualifier tokens index \<noteq> index then
          template_scan tokens depth expectType (index + 1)
        else
          let isTypeName = (tok_type t = T_IDENTIFIER \<or> (tok_type t = T_KEYWORD \<and> IsPrimitiveType v))
          in if \<not> isTypeName \<or> \<not> expectType then None
             else template_scan tokens depth False (index + 1))"
  by pat_completeness auto
termination
  by (relation "measure (\<lambda>(tokens, _, _, index). length tokens - index)") auto

declare template_scan.simps [simp del]

definition IsTemplateArgumentList :: "token list \<Rightarrow> nat \<Rightarrow> nat option" where
  "IsTemplateArgumentList tokens start =
     (if start \<ge> length tokens \<or> tok_value (tokens ! start) \<noteq> ''<'' then None
      else template_scan tokens 1 True (start + 1))"

lemma template_scan_bounds:
  "template_scan tokens depth expectType index = Some close \<Longrightarrow> index \<le> close \<and> close < length tokens"
proof (induction "length tokens - index" arbitrary: depth expectType index rule: less_induct)
  case less
  have IH: "Suc index \<le> close \<and> close < length tokens"
    if "template_scan tokens d e (Suc index) = Some close" "index < length tokens" for d e
    using less.hyps [OF _ that(1)] that(2) by simp
  from less.prems show ?case
    by (subst (asm) template_scan.simps)
      (auto simp: Let_def not_le split: if_splits dest: IH Suc_leD)
qed

lemma IsTemplateArgumentList_bounds:
  "IsTemplateArgumentList tokens start = Some close \<Longrightarrow> start < close \<and> close < length tokens"
  by (auto simp: IsTemplateArgumentList_def split: if_splits dest: template_scan_bounds)

section \<open>Diagnostics\<close>

definition error_line :: "token option \<Rightarrow> string \<Rightarrow> string" where
  "error_line token message =
     ''Syntax Error: '' @ message @
     (case token of
        None \<Rightarrow> []
      | Some t \<Rightarrow> '' at line '' @ int_to_string (tok_line t) @ '', column '' @
          int_to_string (tok_column t) @ '' (token: '' @ quoted (tok_value t) @ '')'')"

definition ReportSyntaxError :: "token option \<Rightarrow> string \<Rightarrow> unit parse" where
  "ReportSyntaxError token message =
     modify (\<lambda>s. s\<lparr>p_log := p_log s @ [error_line token message]\<rparr>)"

definition report_throw :: "token option \<Rightarrow> string \<Rightarrow> string \<Rightarrow> 'a parse" where
  "report_throw token message what = seq (ReportSyntaxError token message) (throw (Runtime what))"

text \<open>The same with \<open>CurrentToken()\<close> as the place of the error.\<close>

definition fail_here :: "string \<Rightarrow> string \<Rightarrow> 'a parse" where
  "fail_here message what = bind CurrentToken (\<lambda>t. report_throw t message what)"

definition RequireCurrent :: "string \<Rightarrow> token parse" where
  "RequireCurrent expectation =
     bind CurrentToken (\<lambda>token.
       case token of
         None \<Rightarrow> report_throw None (''Unexpected end of file; expected '' @ expectation)
                   ''Unexpected end of file''
       | Some t \<Rightarrow> ret t)"

section \<open>Consuming tokens\<close>

definition step :: "unit parse" where
  "step = modify (\<lambda>s. s\<lparr>p_pos := p_pos s + 1\<rparr>)"

definition found_text :: "token option \<Rightarrow> string" where
  "found_text token = (case token of None \<Rightarrow> ''EOF'' | Some t \<Rightarrow> tok_value t)"

definition Consume :: "TokenType \<Rightarrow> token parse" where
  "Consume tokenType =
     bind CurrentToken (\<lambda>token.
       if is_type tokenType token then seq step (deref token)
       else
         let errorMsg = ''Unexpected token: '' @ found_text token @ '', expected: '' @
                        quoted (TokenTypeToString tokenType)
         in report_throw token errorMsg errorMsg)"

definition ConsumeVal :: "TokenType \<Rightarrow> string \<Rightarrow> token parse" where
  "ConsumeVal tokenType expectedValue =
     bind CurrentToken (\<lambda>token.
       if \<not> IsValidTokenValue tokenType expectedValue then
         throw (Invalid_argument (''Invalid expected value '' @ quoted expectedValue @
                  '' for token type '' @ to_string (token_code tokenType)))
       else if is_tok tokenType expectedValue token then seq step (deref token)
       else
         let errorMsg = ''Unexpected token: '' @ found_text token @ '', expected: '' @
                        quoted expectedValue
         in report_throw token errorMsg errorMsg)"

definition set_token :: "nat \<Rightarrow> (token \<Rightarrow> token) \<Rightarrow> pstate \<Rightarrow> pstate" where
  "set_token i f s = s\<lparr>p_tokens := (p_tokens s)[i := f (p_tokens s ! i)]\<rparr>"

definition ConsumeTemplateClose :: "unit parse" where
  "ConsumeTemplateClose =
     bind (RequireCurrent [single_quote, CHR ''>'', single_quote]) (\<lambda>token.
       if length (tok_value token) > 1 \<and> hd (tok_value token) = CHR ''>'' then
         modify (\<lambda>s. set_token (p_pos s)
           (\<lambda>t. t\<lparr>tok_value := tl (tok_value t), tok_column := tok_column t + 1\<rparr>) s)
       else seq (ConsumeVal T_OPERATOR ''>'') (ret ()))"

section \<open>Scopes and the recursion guard\<close>

definition EnterScope :: "ScopeType \<Rightarrow> string \<Rightarrow> unit parse" where
  "EnterScope type name = modify (\<lambda>s. s\<lparr>p_scopes := p_scopes s @ [(type, name)]\<rparr>)"

definition pop_scope :: "pstate \<Rightarrow> pstate" where
  "pop_scope s = s\<lparr>p_scopes := butlast (p_scopes s)\<rparr>"

definition ExitScope :: "unit parse" where
  "ExitScope = modify pop_scope"

definition GetCurrentScopeName :: "pstate \<Rightarrow> string" where
  "GetCurrentScopeName s = (if p_scopes s = [] then [] else snd (last (p_scopes s)))"

definition GetCurrentScopeType :: "pstate \<Rightarrow> ScopeType" where
  "GetCurrentScopeType s = (if p_scopes s = [] then S_Global else fst (last (p_scopes s)))"

definition MaximumRecursionDepth :: nat where
  "MaximumRecursionDepth = 1000"

definition guarded :: "'a parse \<Rightarrow> 'a parse" where
  "guarded m s =
     (if p_depth s + 1 > MaximumRecursionDepth then
        report_throw (current s) ''Expression or statement nesting is too deep''
          ''Expression or statement nesting is too deep'' s
      else
        case m (s\<lparr>p_depth := p_depth s + 1\<rparr>) of (r, s') \<Rightarrow> (r, s'\<lparr>p_depth := p_depth s' - 1\<rparr>))"

section \<open>Source positions\<close>

text \<open>\<open>if (node && start) { node->sourceFile = sourceFile; node->line = start->line; ... }\<close>.\<close>

definition locate :: "token option \<Rightarrow> expr option \<Rightarrow> expr option parse" where
  "locate start nd =
     get (\<lambda>s. case (start, nd) of
                (Some t, Some e) \<Rightarrow> Some (set_source (p_file s) (tok_line t) (tok_column t) e)
              | _ \<Rightarrow> nd)"

definition locate_stmt :: "token option \<Rightarrow> stmt option \<Rightarrow> stmt option parse" where
  "locate_stmt start nd =
     get (\<lambda>s. case (start, nd) of
                (Some t, Some st) \<Rightarrow> Some (set_stmt_source (p_file s) (tok_line t) (tok_column t) st)
              | _ \<Rightarrow> nd)"

end
