(* ===== verification/Parser_Head.thy ===== *)
theory Parser_Head
  imports Parser_State
begin

text \<open>
  What stands in front of a declaration, and the look-ahead that tells declarations apart:
  attributes and modifiers (\<^verbatim>\<open>parser_modifiers.cpp\<close>), generic parameters
  (\<^verbatim>\<open>parser_template.cpp\<close>), qualified names (\<^verbatim>\<open>parser_module.cpp\<close>) and the \<open>LooksLike...\<close>
  predicates of \<^verbatim>\<open>parser_function.cpp\<close>, \<^verbatim>\<open>parser_property.cpp\<close> and \<^verbatim>\<open>parser_indexer.cpp\<close>.
\<close>

section \<open>Attributes and modifiers\<close>

definition consumeName :: "token option parse" where
  "consumeName =
     bind CurrentToken (\<lambda>token.
       if is_type T_IDENTIFIER token \<or> is_type T_KEYWORD token
       then bind (deref token) (\<lambda>t. bind (Consume (tok_type t)) (\<lambda>c. ret (Some c)))
       else ret None)"

definition attribute_name_loop :: "string \<Rightarrow> string parse" where
  "attribute_name_loop =
     repeat (\<lambda>name.
       cond (at T_DELIMITER ''.'')
         (seq (ConsumeVal T_DELIMITER ''.'')
           (bind consumeName (\<lambda>part.
             case part of
               None \<Rightarrow> throw (Runtime ''Expected qualified attribute name'')
             | Some p \<Rightarrow> continue (name @ ''.'' @ tok_value p))))
         (break name))"

text \<open>The value of an attribute argument.\<close>

definition attribute_value :: "(AttributeValueKind \<times> string) parse" where
  "attribute_value =
     bind (RequireCurrent ''a constant attribute argument'') (\<lambda>v.
     bind (PeekToken 1) (\<lambda>next.
       if tok_type v = T_IDENTIFIER then
         bind (Consume T_IDENTIFIER) (\<lambda>t. ret (AV_Identifier, tok_value t))
       else if tok_type v = T_STRING then
         bind (Consume T_STRING) (\<lambda>t. ret (AV_String, tok_value t))
       else if tok_type v = T_NUMBER then
         bind (Consume T_NUMBER) (\<lambda>t. ret (AV_Number, tok_value t))
       else if tok_type v = T_OPERATOR \<and> tok_value v = ''-'' \<and> is_type T_NUMBER next then
         seq (ConsumeVal T_OPERATOR ''-'')
           (bind (Consume T_NUMBER) (\<lambda>t. ret (AV_Number, ''-'' @ tok_value t)))
       else if tok_type v = T_CHAR then
         bind (Consume T_CHAR) (\<lambda>t. ret (AV_Character, tok_value t))
       else if tok_type v = T_KEYWORD \<and> (tok_value v = ''true'' \<or> tok_value v = ''false'') then
         bind (Consume T_KEYWORD) (\<lambda>t. ret (AV_Boolean, tok_value t))
       else
         report_throw (Some v) ''Attribute arguments must be identifiers or literal constants''
           ''Invalid attribute argument''))"

definition attribute_argument_name :: "string parse" where
  "attribute_argument_name =
     bind CurrentDeref (\<lambda>t.
     bind (PeekToken 1) (\<lambda>next.
       if tok_type t = T_IDENTIFIER \<and> is_tok T_OPERATOR ''='' next then
         bind (Consume T_IDENTIFIER) (\<lambda>n. seq (ConsumeVal T_OPERATOR ''='') (ret (tok_value n)))
       else ret []))"

definition attribute_arguments :: "attribute_argument list parse" where
  "attribute_arguments =
     seq (ConsumeVal T_BRACKET ''('')
     (bind
       (repeat (\<lambda>arguments.
          bind (RequireCurrent (''an attribute argument or '' @ quoted '')'')) (\<lambda>t.
            if tok_value t = '')'' then break arguments
            else
              bind attribute_argument_name (\<lambda>name.
              bind attribute_value (\<lambda>v.
                let arguments' = arguments @
                      [\<lparr>aa_name = name, aa_kind = fst v, aa_text = snd v\<rparr>] in
                cond (at T_DELIMITER '','')
                  (seq (ConsumeVal T_DELIMITER '','') (continue arguments'))
                  (cond (at_val '')'')
                    (continue arguments')
                    (fail_here (''Expected '' @ quoted '','' @ '' or '' @ quoted '')'' @
                       '' after attribute argument'')
                       ''Unterminated attribute argument list''))))))
          [])
       (\<lambda>arguments. seq (ConsumeVal T_BRACKET '')'') (ret arguments)))"

definition ParseAttributes :: "unit parse" where
  "ParseAttributes =
     seq (modify (\<lambda>s. s\<lparr>p_attributes := []\<rparr>))
     (repeat (\<lambda>_.
       cond (at T_OPERATOR ''@'')
         (bind (ConsumeVal T_OPERATOR ''@'') (\<lambda>marker.
          bind consumeName (\<lambda>first.
            case first of
              None \<Rightarrow> throw (Runtime ''Expected attribute name'')
            | Some f \<Rightarrow>
                bind (attribute_name_loop (tok_value f)) (\<lambda>name.
                bind (cond (at T_BRACKET ''('') attribute_arguments (ret [])) (\<lambda>arguments.
                seq (modify (\<lambda>s. s\<lparr>p_attributes := p_attributes s @
                       [\<lparr>at_name = name, at_arguments = arguments,
                         at_line = tok_line marker, at_column = tok_column marker\<rparr>]\<rparr>))
                  (continue ()))))))
         (break ())) ())"

definition ParseModifiers :: "unit parse" where
  "ParseModifiers =
     seq (modify (\<lambda>s. s\<lparr>p_modifiers := []\<rparr>))
     (repeat (\<lambda>_.
       cond (\<lambda>s. case current s of None \<Rightarrow> False
                 | Some t \<Rightarrow> tok_type t = T_KEYWORD \<and> IsModifier (tok_value t))
         (bind (Consume T_KEYWORD) (\<lambda>t.
            seq (modify (\<lambda>s. s\<lparr>p_modifiers := p_modifiers s @ [t]\<rparr>)) (continue ())))
         (break ())) ())"

definition has_modifier :: "string \<Rightarrow> token list \<Rightarrow> bool" where
  "has_modifier name ms \<longleftrightarrow> list_ex (\<lambda>m. tok_value m = name) ms"

section \<open>Generic parameters\<close>

text \<open>
  \<open>accept_constraints\<close> says whether the caller passed a vector for the constraints. The result
  is the parameters and, in step with them, their constraints.
\<close>

definition template_constraint :: "bool \<Rightarrow> string parse" where
  "template_constraint accept_constraints =
     bind (PeekToken 1) (\<lambda>following.
       cond (\<lambda>s. at T_IDENTIFIER ''copyable'' s \<and> is_type T_IDENTIFIER following)
         (bind (Consume T_IDENTIFIER) (\<lambda>written.
            if \<not> accept_constraints then
              report_throw (Some written) ''Generic constraints are supported on classes and structs''
                ''Unsupported generic constraint''
            else ret (tok_value written)))
         (ret []))"

definition template_parameter ::
  "bool \<Rightarrow> (token list \<times> string list) \<Rightarrow> ((token list \<times> string list) + (token list \<times> string list)) parse" where
  "template_parameter accept_constraints acc =
     bind (template_constraint accept_constraints) (\<lambda>constraint.
     bind (Consume T_IDENTIFIER) (\<lambda>parameter.
       if tok_value parameter \<in> set (map tok_value (fst acc)) then
         report_throw (Some parameter) (''Duplicate generic parameter '' @ quoted (tok_value parameter))
           ''Duplicate generic parameter''
       else
         let acc' = (fst acc @ [parameter],
                     if accept_constraints then snd acc @ [constraint] else snd acc) in
         bind (RequireCurrent (quoted '','' @ '' or '' @ quoted ''>'')) (\<lambda>t.
           if tok_value t = '','' then seq (ConsumeVal T_DELIMITER '','') (continue acc')
           else if tok_value t \<noteq> ''>'' then
             report_throw (Some t)
               (''Expected '' @ quoted '','' @ '' or '' @ quoted ''>'' @ '' after generic parameter'')
               ''Invalid generic parameter list''
           else continue acc')))"

definition ParseTemplateParameters :: "bool \<Rightarrow> (token list \<times> string list) parse" where
  "ParseTemplateParameters accept_constraints =
     cond (at T_OPERATOR ''<'')
       (seq (ConsumeVal T_OPERATOR ''<'')
       (bind
         (repeat (\<lambda>acc.
            bind (RequireCurrent (''a generic parameter or '' @ quoted ''>'')) (\<lambda>t.
              if tok_value t = ''>'' then break acc
              else template_parameter accept_constraints acc)) ([], []))
         (\<lambda>acc.
           seq ConsumeTemplateClose
             (if fst acc = [] then
                fail_here ''Generic parameter list cannot be empty'' ''Empty generic parameter list''
              else ret acc))))
       (ret ([], []))"

section \<open>Qualified names\<close>

definition ParseQualifiedName :: "string parse" where
  "ParseQualifiedName =
     bind CurrentToken (\<lambda>first.
       if \<not> is_type T_IDENTIFIER first then
         report_throw first ''Expected a namespace identifier'' ''Invalid qualified name''
       else
         bind (Consume T_IDENTIFIER) (\<lambda>f.
           repeat (\<lambda>result.
             cond (at T_DELIMITER ''.'')
               (seq (ConsumeVal T_DELIMITER ''.'')
               (bind CurrentToken (\<lambda>part.
                  if \<not> is_type T_IDENTIFIER part then
                    report_throw part (''Expected an identifier after '' @ quoted ''.'')
                      ''Invalid qualified name''
                  else bind (Consume T_IDENTIFIER) (\<lambda>t. continue (result @ ''.'' @ tok_value t)))))
               (break result)) (tok_value f)))"

section \<open>Looking ahead\<close>

text \<open>The token at an index has a type or a value; false beyond the end.\<close>

definition tok_at :: "token list \<Rightarrow> nat \<Rightarrow> token option" where
  "tok_at tokens i = (if i < length tokens then Some (tokens ! i) else None)"

definition is_primitive_at :: "token list \<Rightarrow> nat \<Rightarrow> bool" where
  "is_primitive_at tokens i =
     (case tok_at tokens i of None \<Rightarrow> False
      | Some t \<Rightarrow> tok_type t = T_KEYWORD \<and> IsPrimitiveType (tok_value t))"

text \<open>The rest of a named type: \<open>.name\<close> and \<open><...>\<close>, repeatedly. \<open>None\<close> when a \<open><\<close> opens no list.\<close>

function skip_named_type :: "token list \<Rightarrow> nat \<Rightarrow> nat option" where
  "skip_named_type tokens index =
     (if index \<ge> length tokens then Some index
      else if index + 1 < length tokens \<and> tok_value (tokens ! index) = ''.'' \<and>
              tok_type (tokens ! (index + 1)) = T_IDENTIFIER
      then skip_named_type tokens (index + 2)
      else if tok_value (tokens ! index) = ''<'' then
        (case IsTemplateArgumentList tokens index of
           None \<Rightarrow> None
         | Some close \<Rightarrow> skip_named_type tokens (close + 1))
      else Some index)"
  by pat_completeness auto
termination
  by (relation "measure (\<lambda>(tokens, index). length tokens - index)")
    (auto dest: IsTemplateArgumentList_bounds)

declare skip_named_type.simps [simp del]

function skip_stars :: "token list \<Rightarrow> nat \<Rightarrow> nat" where
  "skip_stars tokens index =
     (if index < length tokens \<and> tok_type (tokens ! index) = T_OPERATOR \<and> tok_value (tokens ! index) = ''*''
      then skip_stars tokens (index + 1) else index)"
  by pat_completeness auto
termination
  by (relation "measure (\<lambda>(tokens, index). length tokens - index)") auto

declare skip_stars.simps [simp del]

text \<open>\<open>[]\<close> suffixes; \<open>typed\<close> when the token types are tested too.\<close>

function skip_array_suffixes :: "bool \<Rightarrow> token list \<Rightarrow> nat \<Rightarrow> nat" where
  "skip_array_suffixes typed tokens index =
     (if index + 1 < length tokens \<and> tok_value (tokens ! index) = ''['' \<and>
         tok_value (tokens ! (index + 1)) = '']'' \<and>
         (typed \<longrightarrow> tok_type (tokens ! index) = T_BRACKET \<and> tok_type (tokens ! (index + 1)) = T_BRACKET)
      then skip_array_suffixes typed tokens (index + 2) else index)"
  by pat_completeness auto
termination
  by (relation "measure (\<lambda>(_, tokens, index). length tokens - index)") auto

declare skip_array_suffixes.simps [simp del]

text \<open>The start of a type, up to its \<open>*\<close> and \<open>[]\<close> suffixes.\<close>

definition skip_type_name :: "token list \<Rightarrow> nat \<Rightarrow> nat option" where
  "skip_type_name tokens index =
     (if is_primitive_at tokens index then Some (index + 1)
      else if is_type T_IDENTIFIER (tok_at tokens index) then skip_named_type tokens (index + 1)
      else None)"

definition LooksLikeFunctionDeclaration :: "pstate \<Rightarrow> bool" where
  "LooksLikeFunctionDeclaration s =
     (let tokens = p_tokens s in
      case skip_type_name tokens (SkipOwnershipQualifier tokens (p_pos s)) of
        None \<Rightarrow> False
      | Some i \<Rightarrow>
          let j = skip_array_suffixes True tokens (skip_stars tokens i) in
          if \<not> is_type T_IDENTIFIER (tok_at tokens j) then False
          else if is_val ''<'' (tok_at tokens (j + 1)) then
            (case IsTemplateArgumentList tokens (j + 1) of
               None \<Rightarrow> False
             | Some close \<Rightarrow> is_tok T_BRACKET ''('' (tok_at tokens (close + 1)))
          else is_tok T_BRACKET ''('' (tok_at tokens (j + 1)))"

definition LooksLikePropertyDeclaration :: "pstate \<Rightarrow> bool" where
  "LooksLikePropertyDeclaration s =
     (let tokens = p_tokens s in
      case skip_type_name tokens (SkipOwnershipQualifier tokens (p_pos s)) of
        None \<Rightarrow> False
      | Some i \<Rightarrow>
          let j = skip_array_suffixes False tokens (skip_stars tokens i) in
          is_type T_IDENTIFIER (tok_at tokens j) \<and> is_tok T_BRACKET ''{'' (tok_at tokens (j + 1)))"

text \<open>\<open>SkipIndexerType\<close>: inside \<open><...>\<close> it only counts the brackets.\<close>

function skip_indexer_name :: "token list \<Rightarrow> nat \<Rightarrow> nat \<Rightarrow> nat" where
  "skip_indexer_name tokens templateDepth index =
     (if index \<ge> length tokens then index
      else if index + 1 < length tokens \<and> templateDepth = 0 \<and> tok_value (tokens ! index) = ''.'' \<and>
              tok_type (tokens ! (index + 1)) = T_IDENTIFIER
      then skip_indexer_name tokens templateDepth (index + 2)
      else if tok_value (tokens ! index) = ''<'' then
        skip_indexer_name tokens (templateDepth + 1) (index + 1)
      else if tok_value (tokens ! index) = ''>'' \<and> templateDepth > 0 then
        skip_indexer_name tokens (templateDepth - 1) (index + 1)
      else if templateDepth > 0 then skip_indexer_name tokens templateDepth (index + 1)
      else index)"
  by pat_completeness auto
termination
  by (relation "measure (\<lambda>(tokens, _, index). length tokens - index)") auto

declare skip_indexer_name.simps [simp del]

definition SkipIndexerType :: "token list \<Rightarrow> nat \<Rightarrow> nat" where
  "SkipIndexerType tokens start =
     (let index =
        (if is_tok T_KEYWORD ''raw'' (tok_at tokens start) \<or> is_tok T_KEYWORD ''weak'' (tok_at tokens start)
         then start + 1
         else if is_tok T_IDENTIFIER ''sub'' (tok_at tokens start) \<and>
                 (is_type T_IDENTIFIER (tok_at tokens (start + 1)) \<or> is_primitive_at tokens (start + 1))
         then start + 1 else start)
      in if index \<ge> length tokens then length tokens
         else if is_primitive_at tokens index then
           skip_array_suffixes False tokens (skip_stars tokens (index + 1))
         else if is_type T_IDENTIFIER (tok_at tokens index) then
           skip_array_suffixes False tokens (skip_stars tokens (skip_indexer_name tokens 0 (index + 1)))
         else length tokens)"

definition LooksLikeIndexerDeclaration :: "pstate \<Rightarrow> bool" where
  "LooksLikeIndexerDeclaration s =
     (let tokens = p_tokens s; index = SkipIndexerType tokens (p_pos s)
      in is_tok T_KEYWORD ''this'' (tok_at tokens index) \<and> is_tok T_BRACKET ''['' (tok_at tokens (index + 1)))"

end
