(* ===== verification/Parser_Expr.thy ===== *)
theory Parser_Expr
  imports Parser_Head
begin

text \<open>
  Parsing types and expressions: \<^verbatim>\<open>parser_type.cpp\<close>, \<^verbatim>\<open>parser_template.cpp\<close>,
  \<^verbatim>\<open>parser_identifier.cpp\<close>, \<^verbatim>\<open>parser_literals.cpp\<close>, \<^verbatim>\<open>parser_array.cpp\<close>,
  \<^verbatim>\<open>parser_arguments.cpp\<close>, \<^verbatim>\<open>parser_parameters.cpp\<close>, \<^verbatim>\<open>parser_function.cpp\<close>,
  \<^verbatim>\<open>parser_constructor.cpp\<close>, \<^verbatim>\<open>parser_unary.cpp\<close>, \<^verbatim>\<open>parser_binary.cpp\<close>,
  \<^verbatim>\<open>parser_ternary.cpp\<close>, \<^verbatim>\<open>parser_assignment.cpp\<close> and the expression half of \<^verbatim>\<open>parser.cpp\<close>.

  A parse function takes the parsers it calls recursively as a record, so that it is one
  definition without recursion; the theory \<^verbatim>\<open>Parser\<close> ties the knot. A result \<open>None\<close> is the null
  pointer.
\<close>

section \<open>The recursive calls\<close>

record parsers =
  r_expr :: "expr option parse"
  r_primary :: "expr option parse"
  r_prefix :: "expr option parse"
  r_binary :: "int \<Rightarrow> expr option \<Rightarrow> expr option parse"
  r_type :: "expr option parse"
  r_values :: "expr parse"
  r_stmt :: "stmt option parse"
  r_group :: "stmt parse"
  r_registry :: registry

section \<open>Types\<close>

definition ParseMemberAccess :: "expr option \<Rightarrow> expr parse" where
  "ParseMemberAccess base =
     seq (ConsumeVal T_DELIMITER ''.'')
     (bind CurrentToken (\<lambda>memberToken.
        if \<not> is_type T_IDENTIFIER memberToken then
          report_throw memberToken (''Expected identifier after '' @ quoted ''.'')
            (''Expected identifier after '' @ quoted ''.'')
        else
          bind (deref memberToken) (\<lambda>t.
          seq (Consume T_IDENTIFIER) (ret (node (MemberAccessExpr base (tok_value t)))))))"

definition ParseTemplateExpr :: "parsers \<Rightarrow> expr option \<Rightarrow> expr parse" where
  "ParseTemplateExpr r base =
     seq (ConsumeVal T_OPERATOR ''<'')
     (bind
       (repeat (\<lambda>types.
          bind (RequireCurrent (''a template argument or '' @ quoted ''>'')) (\<lambda>t.
            if tok_value t = ''>'' then break types
            else
              bind (r_type r) (\<lambda>type.
                if type = None then
                  fail_here ''Expected a template type argument'' ''Invalid template argument''
                else
                  bind (RequireCurrent (quoted '','' @ '' or '' @ quoted ''>'')) (\<lambda>t'.
                    if tok_value t' = '','' then
                      seq (ConsumeVal T_DELIMITER '','') (continue (types @ [type]))
                    else seq ConsumeTemplateClose (break (types @ [type])))))) [])
       (\<lambda>types. ret (node (TemplateExpr base types))))"

definition ParsePrimitiveType :: "expr parse" where
  "ParsePrimitiveType =
     bind CurrentDeref (\<lambda>type.
       if IsPrimitiveType (tok_value type) then
         seq (Consume T_KEYWORD) (ret (node (PrimitiveTypeExpr (tok_value type))))
       else report_throw (Some type) ''Expected primitive type'' ''Expected primitive type'')"

definition is_user_type :: "expr \<Rightarrow> bool" where
  "is_user_type e = (case ekind e of UserTypeExpr _ \<Rightarrow> True | _ \<Rightarrow> False)"

definition pointer_stars ::
  "expr \<times> OwnershipKind \<times> bool \<Rightarrow> (expr \<times> OwnershipKind \<times> bool) parse" where
  "pointer_stars =
     repeat (\<lambda>(base, ownership, foundPointer).
       cond (at T_OPERATOR ''*'')
         (seq (ConsumeVal T_OPERATOR ''*'')
           (continue (node (PointerTypeExpr (Some base) ownership False), OK_Unique, True)))
         (break (base, ownership, foundPointer)))"

definition ParsePointerSuffix :: "expr \<Rightarrow> OwnershipKind \<Rightarrow> expr parse" where
  "ParsePointerSuffix start ownership0 =
     bind (pointer_stars (start, ownership0, False)) (\<lambda>(base, ownership, foundPointer).
       if ownership \<noteq> OK_Unique \<and> \<not> foundPointer then
         if is_user_type base then ret (node (PointerTypeExpr (Some base) ownership True))
         else
           let written = butlast (CanonicalOwnershipPrefix ownership) in
           fail_here (quoted written @ '' must qualify a pointer type'') ''Invalid pointer qualifier''
       else ret base)"

text \<open>The qualifier in front of a type; \<open>sub\<close> only counts when a type can follow it.\<close>

definition starts_type :: "token option \<Rightarrow> bool" where
  "starts_type next \<longleftrightarrow> is_type T_IDENTIFIER next \<or>
     (case next of None \<Rightarrow> False | Some t \<Rightarrow> tok_type t = T_KEYWORD \<and> IsPrimitiveType (tok_value t))"

definition ParseOwnership :: "OwnershipKind parse" where
  "ParseOwnership =
     cond (\<lambda>s. at T_KEYWORD ''raw'' s \<or> at T_KEYWORD ''weak'' s)
       (bind CurrentDeref (\<lambda>t.
          seq (ConsumeVal T_KEYWORD (tok_value t))
            (ret (if tok_value t = ''raw'' then OK_Raw else OK_Weak))))
       (cond (\<lambda>s. at T_IDENTIFIER ''sub'' s \<and> starts_type (peek 1 s))
         (seq (Consume T_IDENTIFIER) (ret OK_Sub))
         (ret OK_Unique))"

definition named_type :: "parsers \<Rightarrow> string \<Rightarrow> expr parse" where
  "named_type r name0 =
     repeat (\<lambda>name.
       cond (at T_DELIMITER ''.'') (bind (ParseMemberAccess (Some name)) continue)
         (cond (at T_OPERATOR ''<'') (bind (ParseTemplateExpr r (Some name)) continue)
           (break name)))
       (node (IdentifierExpr name0))"

definition array_suffixes :: "expr \<Rightarrow> expr parse" where
  "array_suffixes =
     repeat (\<lambda>base.
       cond (\<lambda>s. at T_BRACKET ''['' s \<and> is_tok T_BRACKET '']'' (peek 1 s))
         (seq (ConsumeVal T_BRACKET ''['')
           (seq (ConsumeVal T_BRACKET '']'') (continue (node (ArrayTypeExpr (Some base))))))
         (break base))"

definition ParseType :: "parsers \<Rightarrow> expr option parse" where
  "ParseType r =
     bind ParseOwnership (\<lambda>ownership.
     bind (RequireCurrent ''a type'') (\<lambda>current.
     bind
       (if tok_type current = T_IDENTIFIER then
          bind (Consume T_IDENTIFIER) (\<lambda>t.
          bind (named_type r (tok_value t)) (\<lambda>name. ret (Some (node (UserTypeExpr (Some name))))))
        else if tok_type current = T_KEYWORD then
          bind ParsePrimitiveType (\<lambda>e. ret (Some e))
        else ret None)
       (\<lambda>base.
         case base of
           None \<Rightarrow> ret None
         | Some b \<Rightarrow>
             bind (ParsePointerSuffix b ownership) (\<lambda>b'.
             bind (array_suffixes b') (\<lambda>e. ret (Some e))))))"

section \<open>Literals\<close>

text \<open>\<open>UnescapeString\<close>.\<close>

definition escape_char :: "char \<Rightarrow> char option" where
  "escape_char c =
     map_of [(CHR ''0'', CHR 0x00), (CHR ''a'', CHR 0x07), (CHR ''b'', CHR 0x08),
       (CHR ''f'', CHR 0x0C), (CHR ''n'', CHR 0x0A), (CHR ''r'', CHR 0x0D), (CHR ''t'', CHR 0x09),
       (CHR ''v'', CHR 0x0B), (backslash, backslash), (double_quote, double_quote),
       (single_quote, single_quote), (CHR ''$'', CHR ''$'')] c"

fun UnescapeString :: "string \<Rightarrow> string + string" where
  "UnescapeString [] = Inr []"
| "UnescapeString [c] =
     (if c \<noteq> backslash then Inr [c] else Inl ''Incomplete escape sequence in literal'')"
| "UnescapeString (c # d # cs) =
     (if c \<noteq> backslash then map_sum id (\<lambda>s. c # s) (UnescapeString (d # cs))
      else case escape_char d of
             None \<Rightarrow> Inl (''Unsupported escape sequence: '' @ [backslash, d])
           | Some e \<Rightarrow> map_sum id (\<lambda>s. e # s) (UnescapeString cs))"

definition unescaped :: "string \<Rightarrow> string parse" where
  "unescaped s = (case UnescapeString s of Inl e \<Rightarrow> throw (Runtime e) | Inr t \<Rightarrow> ret t)"

text \<open>\<open>value.substr(1, value.size() - 2)\<close>, which throws on the empty string.\<close>

definition unquote :: "string \<Rightarrow> string parse" where
  "unquote v = (if v = [] then throw Out_of_range else ret (take (length v - 2) (tl v)))"

fun has_interpolation :: "string \<Rightarrow> bool" where
  "has_interpolation [] = False"
| "has_interpolation [c] = False"
| "has_interpolation (c # d # cs) =
     (if c = backslash then has_interpolation cs
      else if c = CHR ''$'' \<and> d = CHR ''{'' then True
      else has_interpolation (d # cs))"

text \<open>The expression up to the brace that closes it, and the text after that brace.\<close>

fun brace_body :: "nat \<Rightarrow> string \<Rightarrow> (string \<times> string) option" where
  "brace_body depth [] = None"
| "brace_body depth (c # cs) =
     (if c = CHR ''{'' then map_option (apfst ((#) c)) (brace_body (depth + 1) cs)
      else if c = CHR ''}'' then
        (if depth = 1 then Some ([], cs) else map_option (apfst ((#) c)) (brace_body (depth - 1) cs))
      else map_option (apfst ((#) c)) (brace_body depth cs))"

lemma brace_body_length: "brace_body depth s = Some (code, rest) \<Longrightarrow> length code + length rest < length s"
  by (induction depth s arbitrary: code rest rule: brace_body.induct) (fastforce split: if_splits)+

datatype interpolation_error = Bad_escape string | Unmatched_brace

text \<open>The loop that splits a literal into the format string and the embedded expressions.\<close>

function interpolate :: "string \<Rightarrow> string \<Rightarrow> string \<Rightarrow> string list \<Rightarrow>
    interpolation_error + string \<times> string list" where
  "interpolate raw currentSegment formatTemplate exprStrings =
     (case raw of
        [] \<Rightarrow>
          if currentSegment = [] then Inr (formatTemplate, exprStrings)
          else (case UnescapeString currentSegment of
                  Inl e \<Rightarrow> Inl (Bad_escape e)
                | Inr u \<Rightarrow> Inr (formatTemplate @ u, exprStrings))
      | c # rest \<Rightarrow>
          if c = backslash \<and> rest \<noteq> [] then
            interpolate (tl rest)
              (currentSegment @ (if hd rest = CHR ''$'' then ''$'' else [backslash, hd rest]))
              formatTemplate exprStrings
          else if c = CHR ''$'' \<and> rest \<noteq> [] \<and> hd rest = CHR ''{'' then
            (case UnescapeString currentSegment of
               Inl e \<Rightarrow> Inl (Bad_escape e)
             | Inr u \<Rightarrow>
                 (case brace_body 1 (tl rest) of
                    None \<Rightarrow> Inl Unmatched_brace
                  | Some (exprCode, rest') \<Rightarrow>
                      interpolate rest' [] (formatTemplate @ u @ ''{}'') (exprStrings @ [exprCode])))
          else interpolate rest (currentSegment @ [c]) formatTemplate exprStrings)"
  by pat_completeness auto
termination
  by (relation "measure (\<lambda>(raw, _, _, _). length raw)") (auto dest: brace_body_length)

declare interpolate.simps [simp del]

text \<open>
  An embedded expression is lexed and parsed by a parser of its own: tokens, position, depth and
  modifiers are new, the scope stack and the diagnostics are the global ones.
\<close>

definition embedded_expression :: "parsers \<Rightarrow> token \<Rightarrow> string \<Rightarrow> expr parse" where
  "embedded_expression r token exprCode s =
     (case lexer (IsSyntaxPluginKeyword (r_registry r)) exprCode of
        Inl e \<Rightarrow> throw (Runtime e) s
      | Inr exprTokens \<Rightarrow>
          if exprTokens = [] then
            report_throw (Some token) ''Empty expression in string interpolation''
              ''Empty expression in string interpolation'' s
          else
            (case r_expr r (new_parser exprTokens [] (p_scopes s) (p_log s)) of
               (result, s') \<Rightarrow>
                 let s'' = s\<lparr>p_scopes := p_scopes s', p_log := p_log s'\<rparr> in
                 (case result of
                    Inl e \<Rightarrow> (Inl e, s'')
                  | Inr None \<Rightarrow>
                      report_throw (Some token) ''Failed to parse expression in string interpolation''
                        ''Failed to parse expression in string interpolation'' s''
                  | Inr (Some e) \<Rightarrow> (Inr e, s''))))"

fun embedded_expressions :: "parsers \<Rightarrow> token \<Rightarrow> string list \<Rightarrow> expr option list parse" where
  "embedded_expressions r token [] = ret []"
| "embedded_expressions r token (code # codes) =
     bind (embedded_expression r token code) (\<lambda>e.
     bind (embedded_expressions r token codes) (\<lambda>es. ret (Some e # es)))"

definition format_call :: "string \<Rightarrow> expr option list \<Rightarrow> expr" where
  "format_call formatTemplate args =
     node (FunctionCallExpr (Some (node (IdentifierExpr ''format'')))
       (Some (node (StringLiteralExpr formatTemplate)) # args))"

definition ParseStringLiteralExpr :: "parsers \<Rightarrow> expr parse" where
  "ParseStringLiteralExpr r =
     bind CurrentToken (\<lambda>token.
       if \<not> is_type T_STRING token then
         report_throw token ''Expected string literal'' ''Expected string literal''
       else
         bind (deref token) (\<lambda>t.
         bind (unquote (tok_value t)) (\<lambda>rawContent.
           if \<not> has_interpolation rawContent then
             bind (unescaped rawContent) (\<lambda>v.
             seq (Consume T_STRING) (ret (node (StringLiteralExpr v))))
           else
             (case interpolate rawContent [] [] [] of
                Inl (Bad_escape e) \<Rightarrow> throw (Runtime e)
              | Inl Unmatched_brace \<Rightarrow>
                  report_throw token (''Unmatched '' @ quoted ''{'' @ '' in string interpolation'')
                    (''Unmatched '' @ quoted ''{'' @ '' in string interpolation'')
              | Inr (formatTemplate, exprStrings) \<Rightarrow>
                  seq (Consume T_STRING)
                  (bind (embedded_expressions r t exprStrings) (\<lambda>args.
                     ret (format_call formatTemplate args)))))))"

definition ParseCharLiteralExpr :: "expr parse" where
  "ParseCharLiteralExpr =
     bind CurrentToken (\<lambda>token.
       if \<not> is_type T_CHAR token then
         report_throw token ''Expected char literal'' ''Expected char literal''
       else
         bind (deref token) (\<lambda>t.
         bind (unquote (tok_value t)) (\<lambda>raw.
         bind (unescaped raw) (\<lambda>v.
           if length v \<noteq> 1 then
             report_throw token ''A char literal must contain exactly one character''
               ''Invalid char literal''
           else seq (Consume T_CHAR) (ret (node (CharLiteralExpr (hd v))))))))"

definition ParseNumberLiteralExpr :: "expr parse" where
  "ParseNumberLiteralExpr =
     bind CurrentToken (\<lambda>numberToken.
       if \<not> is_type T_NUMBER numberToken then
         report_throw numberToken ''Expected number literal'' ''Expected number literal''
       else
         bind (Consume T_NUMBER) (\<lambda>t. ret (node (NumberLiteralExpr (tok_value t)))))"

definition ParseBooleanLiteralExpr :: "expr parse" where
  "ParseBooleanLiteralExpr =
     bind CurrentDeref (\<lambda>t.
       if tok_value t = ''true'' \<or> tok_value t = ''false'' then
         seq (Consume T_KEYWORD) (ret (node (BooleanLiteralExpr (tok_value t = ''true''))))
       else report_throw (Some t) ''Expected number literal'' ''Expected number literal'')"

definition ParseLiteralExpr :: "parsers \<Rightarrow> expr parse" where
  "ParseLiteralExpr r =
     bind CurrentDeref (\<lambda>t.
       if tok_type t = T_NUMBER then ParseNumberLiteralExpr
       else if tok_type t = T_STRING then ParseStringLiteralExpr r
       else if tok_type t = T_CHAR then ParseCharLiteralExpr
       else report_throw (Some t) ''Expected literal'' ''Expected literal'')"

section \<open>Arguments and parameters\<close>

text \<open>The \<open>out\<close> or \<open>ref\<close> in front of an argument.\<close>

definition argument_mode :: "(bool \<times> bool) parse" where
  "argument_mode =
     bind CurrentToken (\<lambda>token.
       if is_type T_KEYWORD token \<or> is_type T_IDENTIFIER token then
         bind (deref token) (\<lambda>t.
           if tok_value t = ''out'' then seq (Consume (tok_type t)) (ret (True, False))
           else if tok_value t = ''ref'' then seq (Consume (tok_type t)) (ret (False, True))
           else ret (False, False))
       else ret (False, False))"

definition ParseArguments :: "parsers \<Rightarrow> expr option list parse" where
  "ParseArguments r =
     seq (ConsumeVal T_BRACKET ''('')
     (bind
       (repeat (\<lambda>arguments.
          bind (RequireCurrent (''an argument or '' @ quoted '')'')) (\<lambda>t.
            if tok_type t = T_BRACKET \<and> tok_value t = '')'' then break arguments
            else
              bind argument_mode (\<lambda>(isOutArg, isRefArg).
              bind (r_expr r) (\<lambda>argument.
                let arguments' = arguments @ [map_option (set_argument_flags isOutArg isRefArg) argument] in
                bind (RequireCurrent (quoted '','' @ '' or '' @ quoted '')'')) (\<lambda>current.
                  if tok_type current = T_DELIMITER \<and> tok_value current = '','' then
                    seq (ConsumeVal T_DELIMITER '','') (continue arguments')
                  else if tok_type current = T_BRACKET \<and> tok_value current = '')'' then
                    break arguments'
                  else
                    report_throw (Some current)
                      (''Expected '' @ quoted '','' @ '' or '' @ quoted '')'' @ '' after argument'')
                      ''Invalid argument list''))))) [])
       (\<lambda>arguments. seq (ConsumeVal T_BRACKET '')'') (ret arguments)))"

text \<open>\<open>const bool x = <current token is the keyword>; if (x) Consume(...)\<close>.\<close>

definition optional_keyword :: "string \<Rightarrow> bool parse" where
  "optional_keyword kw =
     cond (at T_KEYWORD kw) (seq (ConsumeVal T_KEYWORD kw) (ret True)) (ret False)"

text \<open>The same without a test for a null token.\<close>

definition required_keyword :: "string \<Rightarrow> bool parse" where
  "required_keyword kw = seq CurrentDeref (optional_keyword kw)"

definition out_alias :: "bool parse" where
  "out_alias =
     bind CurrentToken (\<lambda>token.
       if (is_type T_KEYWORD token \<or> is_type T_IDENTIFIER token) \<and> is_val ''out'' token
       then bind (deref token) (\<lambda>t. seq (Consume (tok_type t)) (ret True))
       else ret False)"

definition ampersand :: "bool parse" where
  "ampersand =
     cond (at T_OPERATOR ''&'') (seq (ConsumeVal T_OPERATOR ''&'') (ret True)) (ret False)"

definition make_parameter ::
  "expr option \<Rightarrow> expr option \<Rightarrow> expr option \<Rightarrow> var_flags \<Rightarrow> token option \<Rightarrow> expr parse" where
  "make_parameter type name v flags parameterStart =
     bind (locate parameterStart (Some (node (VarDeclExpr type name v flags)))) (\<lambda>e.
       ret (case e of Some p \<Rightarrow> p | None \<Rightarrow> node (VarDeclExpr type name v flags)))"

definition ParseParameter :: "parsers \<Rightarrow> expr parse" where
  "ParseParameter r =
     bind CurrentToken (\<lambda>parameterStart.
     bind (required_keyword ''params'') (\<lambda>isParams.
     bind (required_keyword ''const'') (\<lambda>isConst.
     bind (optional_keyword ''ref'') (\<lambda>refAlias.
     bind out_alias (\<lambda>outAlias.
     bind (ParseType r) (\<lambda>type.
     bind ampersand (\<lambda>ampersandReference.
       if refAlias \<and> ampersandReference then
         fail_here (''A parameter reference must use either '' @ quoted ''&'' @ '' or the '' @
           quoted ''ref'' @ '' alias, not both'') ''Duplicate parameter reference marker''
       else
         bind CurrentToken (\<lambda>nameStart.
         bind (r_primary r) (\<lambda>name0.
         bind (locate nameStart name0) (\<lambda>nameExpr.
         bind (RequireCurrent (quoted ''='' @ '', '' @ quoted '','' @ '' or '' @ quoted '')'')) (\<lambda>current.
           let flags = \<lparr>v_const = isConst, v_static = False,
                        v_reference = (refAlias \<or> ampersandReference \<or> outAlias),
                        v_out = outAlias, v_params = isParams\<rparr>
           in if tok_type current = T_OPERATOR \<and> tok_value current = ''='' then
                seq (ConsumeVal T_OPERATOR ''='')
                (bind (r_expr r) (\<lambda>v. make_parameter type nameExpr v flags parameterStart))
              else make_parameter type nameExpr None flags parameterStart)))))))))))"

definition ParseParameters :: "parsers \<Rightarrow> expr list parse" where
  "ParseParameters r =
     cond (\<lambda>s. \<not> at_val ''('' s)
       (fail_here (''Expected '' @ quoted ''('' @ '' in parameters'')
          (''Expected '' @ quoted ''('' @ '' in parameters''))
       (seq (ConsumeVal T_BRACKET ''('')
       (bind
         (repeat (\<lambda>parameters.
            bind (RequireCurrent (''a parameter or '' @ quoted '')'')) (\<lambda>t.
              if tok_type t = T_BRACKET \<and> tok_value t = '')'' then break parameters
              else
                bind (ParseParameter r) (\<lambda>parameter.
                bind (RequireCurrent (quoted '','' @ '' or '' @ quoted '')'')) (\<lambda>current.
                  if tok_type current = T_DELIMITER \<and> tok_value current = '','' then
                    seq (ConsumeVal T_DELIMITER '','') (continue (parameters @ [parameter]))
                  else if tok_type current = T_BRACKET \<and> tok_value current = '')'' then
                    break (parameters @ [parameter])
                  else
                    report_throw (Some current)
                      (''Expected '' @ quoted '','' @ '' or '' @ quoted '')'' @ '' after parameter'')
                      ''Invalid parameter list'')))) [])
         (\<lambda>parameters. seq (ConsumeVal T_BRACKET '')'') (ret parameters))))"

section \<open>Suffixes\<close>

definition ParseFunctionCallExpr :: "parsers \<Rightarrow> expr option \<Rightarrow> expr parse" where
  "ParseFunctionCallExpr r base =
     bind CurrentToken (\<lambda>bracket.
       if is_type T_BRACKET bracket then
         bind (ParseArguments r) (\<lambda>arguments. ret (node (FunctionCallExpr base arguments)))
       else
         report_throw bracket (''Expected bracket '' @ quoted ''('') (''Expected bracket '' @ quoted ''(''))"

type_synonym slice_range = "expr option \<times> expr option \<times> bool"

text \<open>One index or slice between the brackets.\<close>

definition slice_range :: "parsers \<Rightarrow> slice_range parse" where
  "slice_range r =
     bind (RequireCurrent (''an array index, '' @ quoted '':'' @ '' or '' @ quoted '']'')) (\<lambda>t.
     bind (if tok_value t \<noteq> '']'' \<and> tok_value t \<noteq> '','' \<and> tok_value t \<noteq> '':''
           then r_expr r else ret None) (\<lambda>firstExpr.
       cond (at T_OPERATOR '':'')
         (seq (ConsumeVal T_OPERATOR '':'')
         (bind (RequireCurrent (''a slice end, '' @ quoted '','' @ '' or '' @ quoted '']'')) (\<lambda>t'.
          bind (if tok_value t' \<noteq> '']'' \<and> tok_value t' \<noteq> '','' then r_expr r else ret None) (\<lambda>endExpr.
            ret (firstExpr, endExpr, True)))))
         (ret (firstExpr, None, False))))"

definition slice_ranges :: "parsers \<Rightarrow> slice_range list parse" where
  "slice_ranges r =
     repeat (\<lambda>sliceRanges.
       bind (slice_range r) (\<lambda>range.
         cond (at_val '','')
           (seq (ConsumeVal T_DELIMITER '','') (continue (sliceRanges @ [range])))
           (break (sliceRanges @ [range])))) []"

definition ParseArrayAccess :: "parsers \<Rightarrow> expr option \<Rightarrow> expr option parse" where
  "ParseArrayAccess r =
     repeat (\<lambda>base.
       cond (at_val ''['')
         (seq (ConsumeVal T_BRACKET ''['')
         (bind (slice_ranges r) (\<lambda>ranges.
          seq (ConsumeVal T_BRACKET '']'')
            (continue (Some (node
              (if list_ex (\<lambda>(_, _, hasColon). hasColon) ranges then SliceExpr base ranges
               else ArrayAccessExpr base (map fst ranges))))))))
         (break base))"

definition ParsePostfixUnaryExpr :: "expr option \<Rightarrow> expr option parse" where
  "ParsePostfixUnaryExpr base =
     bind CurrentToken (\<lambda>current.
       case current of
         None \<Rightarrow> ret base
       | Some t \<Rightarrow>
           if tok_type t = T_OPERATOR \<and> IsPostfixUnary t then
             seq (ConsumeVal T_OPERATOR (tok_value t))
               (ret (Some (node (PostfixUnaryExpr (tok_value t) base))))
           else ret base)"

definition ParseCastExpr :: "parsers \<Rightarrow> expr option \<Rightarrow> expr parse" where
  "ParseCastExpr r base =
     bind CurrentToken (\<lambda>token.
       let operation = (case token of None \<Rightarrow> [] | Some t \<Rightarrow> tok_value t) in
       seq (ConsumeVal T_KEYWORD operation)
       (bind (ParseType r) (\<lambda>type. ret (node (CastExpr operation type base)))))"

definition ParseSuffixExpr :: "parsers \<Rightarrow> expr option \<Rightarrow> expr option parse" where
  "ParseSuffixExpr r =
     repeat (\<lambda>base.
       bind CurrentToken (\<lambda>token.
         case token of
           None \<Rightarrow> break base
         | Some t \<Rightarrow>
             if tok_value t = ''('' then bind (ParseFunctionCallExpr r base) (\<lambda>e. continue (Some e))
             else if tok_value t = ''['' then bind (ParseArrayAccess r base) continue
             else if tok_value t = ''.'' then bind (ParseMemberAccess base) (\<lambda>e. continue (Some e))
             else if IsPostfixUnary t then bind (ParsePostfixUnaryExpr base) continue
             else if tok_value t = ''as'' \<or> tok_value t = ''is'' then
               bind (ParseCastExpr r base) (\<lambda>e. continue (Some e))
             else break base))"

definition followed_by_postfix :: "token option \<Rightarrow> bool" where
  "followed_by_postfix t \<longleftrightarrow> is_val ''('' t \<or> is_val ''.'' t \<or> is_val ''['' t"

definition ParseIdentifierExpr :: "parsers \<Rightarrow> bool \<Rightarrow> expr option parse" where
  "ParseIdentifierExpr r allowTemplate =
     bind CurrentToken (\<lambda>identifier.
       if \<not> is_type T_IDENTIFIER identifier then
         report_throw identifier ''Expected identifier'' ''Expected identifier''
       else
         bind (Consume T_IDENTIFIER) (\<lambda>t.
         repeat (\<lambda>expr.
           bind CurrentToken (\<lambda>next.
             if is_val ''('' next then bind (ParseFunctionCallExpr r expr) (\<lambda>e. continue (Some e))
             else if is_val ''['' next then bind (ParseArrayAccess r expr) continue
             else if is_val ''.'' next then bind (ParseMemberAccess expr) (\<lambda>e. continue (Some e))
             else if is_val ''<'' next then
               bind (get (\<lambda>s. map_option (tok_at (p_tokens s) \<circ> Suc)
                           (IsTemplateArgumentList (p_tokens s) (p_pos s)))) (\<lambda>close.
                 case close of
                   None \<Rightarrow> break expr
                 | Some afterTemplate \<Rightarrow>
                     if \<not> allowTemplate \<and> \<not> followed_by_postfix afterTemplate then break expr
                     else
                       bind (ParseTemplateExpr r (Some (node (UserTypeExpr expr)))) (\<lambda>e.
                         continue (Some e)))
             else break expr))
           (Some (node (IdentifierExpr (tok_value t))))))"

section \<open>Primary expressions\<close>

definition ParseArrayValues :: "parsers \<Rightarrow> expr parse" where
  "ParseArrayValues r =
     seq (ConsumeVal T_BRACKET ''{'')
     (bind
       (repeat (\<lambda>vals.
          bind (RequireCurrent (''an array value or '' @ quoted ''}'')) (\<lambda>t.
            if tok_value t = ''}'' then break vals
            else
              bind (if tok_value t = ''{'' then bind (r_values r) (\<lambda>e. ret (Some e)) else r_expr r) (\<lambda>v.
              bind (RequireCurrent (quoted '','' @ '' or '' @ quoted ''}'')) (\<lambda>t'.
                if tok_value t' = '','' then seq (Consume T_DELIMITER) (continue (vals @ [v]))
                else if tok_value t' = ''}'' then break (vals @ [v])
                else
                  report_throw (Some t') (''Expected '' @ quoted ''.'' @ '' or '' @ quoted ''}'' @ ''.'')
                    (''Expected '' @ quoted ''.'' @ '' or '' @ quoted ''}'' @ ''.''))))) [])
       (\<lambda>vals. seq (ConsumeVal T_BRACKET ''}'') (ret (node (ArrayExpr [] vals)))))"

text \<open>The type after \<open>new\<close>, its element stars and its arguments.\<close>

definition constructed_type :: "parsers \<Rightarrow> expr option parse" where
  "constructed_type r =
     cond (\<lambda>s. case current s of None \<Rightarrow> False
               | Some t \<Rightarrow> tok_type t = T_KEYWORD \<and> IsPrimitiveType (tok_value t))
       (bind ParsePrimitiveType (\<lambda>e. ret (Some e)))
       (bind (Consume T_IDENTIFIER) (\<lambda>identifier.
        repeat (\<lambda>type.
          cond (at_val ''<'')
            (cond (\<lambda>s. IsTemplateArgumentList (p_tokens s) (p_pos s) = None)
               (break type)
               (bind (ParseTemplateExpr r (Some (node (UserTypeExpr type)))) (\<lambda>e. continue (Some e))))
            (cond (at T_DELIMITER ''.'')
               (bind (ParseMemberAccess type) (\<lambda>e. continue (Some e)))
               (break type)))
          (Some (node (IdentifierExpr (tok_value identifier))))))"

definition count_stars :: "pstate \<Rightarrow> nat" where
  "count_stars s =
     length (takeWhile (\<lambda>t. tok_type t = T_OPERATOR \<and> tok_value t = ''*'') (drop (p_pos s) (p_tokens s)))"

text \<open>
  The \<open>static_cast\<close> of the element type to \<open>TypeExpr*\<close> does not change the node, whatever its class.
\<close>

fun element_stars :: "nat \<Rightarrow> expr option \<Rightarrow> bool \<Rightarrow> (expr option \<times> bool) parse" where
  "element_stars 0 type raw = ret (type, raw)"
| "element_stars (Suc n) type raw =
     seq (ConsumeVal T_OPERATOR ''*'')
       (element_stars n
         (Some (node (PointerTypeExpr type (if raw then OK_Raw else OK_Unique) False))) False)"

definition constructor_arguments :: "parsers \<Rightarrow> expr option \<Rightarrow> bool \<Rightarrow> expr parse" where
  "constructor_arguments r type raw =
     cond (at T_BRACKET ''['')
       (seq (ConsumeVal T_BRACKET ''['')
       (bind (cond (\<lambda>s. current s \<noteq> None \<and> \<not> at_val '']'' s)
                (bind (r_expr r) (\<lambda>e. ret [e])) (ret [])) (\<lambda>arguments.
        seq (ConsumeVal T_BRACKET '']'')
          (ret (node (ConstructorCallExpr (Some (node (ArrayTypeExpr type))) arguments raw))))))
       (cond (at T_BRACKET ''('')
         (bind (ParseArguments r) (\<lambda>arguments. ret (node (ConstructorCallExpr type arguments raw))))
         (ret (node (ConstructorCallExpr type [] raw))))"

definition ParseConstructorCall :: "parsers \<Rightarrow> expr parse" where
  "ParseConstructorCall r =
     seq (ConsumeVal T_KEYWORD ''new'')
     (bind (optional_keyword ''raw'') (\<lambda>raw.
      bind (constructed_type r) (\<lambda>type.
      bind (get (\<lambda>s. if is_tok T_BRACKET ''['' (peek (count_stars s) s) then count_stars s else 0)) (\<lambda>stars.
      bind (element_stars stars type raw) (\<lambda>(type', raw').
        constructor_arguments r type' raw')))))"

definition ParseDestructorCall :: "parsers \<Rightarrow> expr parse" where
  "ParseDestructorCall r =
     seq (ConsumeVal T_KEYWORD ''delete'')
       (bind (r_primary r) (\<lambda>target. ret (node (DestructorCallExpr target))))"

definition ParseLambdaExpr :: "parsers \<Rightarrow> expr parse" where
  "ParseLambdaExpr r =
     seq (ConsumeVal T_KEYWORD ''fn'')
     (bind (ParseParameters r) (\<lambda>parameters.
       cond (at T_OPERATOR ''=>'')
         (seq (ConsumeVal T_OPERATOR ''=>'')
         (bind (r_expr r) (\<lambda>body.
            if body = None then
              fail_here ''A lambda requires an expression body'' ''Invalid lambda body''
            else ret (node (LambdaExpr parameters None body None)))))
         (bind (cond (at T_OPERATOR ''->'')
                  (seq (ConsumeVal T_OPERATOR ''->'') (ParseType r)) (ret None)) (\<lambda>returnType.
          cond (\<lambda>s. \<not> at T_BRACKET ''{'' s)
            (fail_here (''Expected '' @ quoted ''=>'' @ '' expression or a lambda statement body'')
               ''Invalid lambda body'')
            (bind (r_stmt r) (\<lambda>body.
               ret (node (LambdaExpr parameters returnType None body))))))))"

definition ParsePrefixUnaryExpr :: "parsers \<Rightarrow> expr option parse" where
  "ParsePrefixUnaryExpr r =
     bind (RequireCurrent ''an expression after unary operator'') (\<lambda>current.
       if IsPrefixUnary current then
         seq (ConsumeVal (tok_type current) (tok_value current))
         (bind (r_prefix r) (\<lambda>operand. ret (Some (node (PrefixUnaryExpr (tok_value current) operand)))))
       else r_primary r)"

text \<open>An expression in parentheses, or a tuple.\<close>

definition parenthesised :: "parsers \<Rightarrow> expr option parse" where
  "parenthesised r =
     seq (ConsumeVal T_BRACKET ''('')
     (bind (r_expr r) (\<lambda>expr.
       if expr = None then ret None
       else
         cond (at T_DELIMITER '','')
           (bind
             (repeat (\<lambda>vals.
                cond (at T_DELIMITER '','')
                  (seq (ConsumeVal T_DELIMITER '','') (bind (r_expr r) (\<lambda>e. continue (vals @ [e]))))
                  (break vals)) [expr])
             (\<lambda>vals. seq (ConsumeVal T_BRACKET '')'')
                (ret (Some (node (FunctionCallExpr (Some (node (IdentifierExpr ''tuple''))) vals))))))
           (seq (ConsumeVal T_BRACKET '')'') (ret expr))))"

definition ParseBaseExpr :: "parsers \<Rightarrow> expr option parse" where
  "ParseBaseExpr r =
     guarded
     (bind CurrentToken (\<lambda>token.
       case token of
         None \<Rightarrow> report_throw None ''Null token'' ''Null token''
       | Some t \<Rightarrow>
           if IsPrefixUnary t then ParsePrefixUnaryExpr r
           else if tok_type t = T_KEYWORD \<and> tok_value t = ''fn'' then
             bind (ParseLambdaExpr r) (\<lambda>e. ret (Some e))
           else if tok_type t = T_KEYWORD \<and> (tok_value t = ''true'' \<or> tok_value t = ''false'') then
             bind ParseBooleanLiteralExpr (\<lambda>e. ret (Some e))
           else if tok_type t = T_KEYWORD \<and> tok_value t = ''null'' then
             seq (Consume T_KEYWORD) (ret (Some (node NullExpr)))
           else if tok_type t = T_KEYWORD \<and> IsPrimitiveType (tok_value t) then
             bind ParsePrimitiveType (\<lambda>e. ret (Some e))
           else if IsLiteral (tok_type t) then bind (ParseLiteralExpr r) (\<lambda>e. ret (Some e))
           else if tok_type t = T_IDENTIFIER then ParseIdentifierExpr r False
           else if tok_value t = ''this'' then
             seq (ConsumeVal T_KEYWORD ''this'') (ret (Some (node (IdentifierExpr ''this''))))
           else if tok_value t = ''new'' then bind (ParseConstructorCall r) (\<lambda>e. ret (Some e))
           else if tok_value t = ''delete'' then bind (ParseDestructorCall r) (\<lambda>e. ret (Some e))
           else if tok_type t = T_BRACKET \<and> tok_value t = ''('' then parenthesised r
           else if tok_type t = T_BRACKET \<and> tok_value t = ''{'' then
             bind (ParseArrayValues r) (\<lambda>e. ret (Some e))
           else report_throw token ''Expected primary expression'' ''Expected primary expression''))"

definition ParsePrimaryExpr :: "parsers \<Rightarrow> expr option parse" where
  "ParsePrimaryExpr r = bind (ParseBaseExpr r) (ParseSuffixExpr r)"

section \<open>Operators\<close>

definition ParseTernaryExpr :: "parsers \<Rightarrow> expr option \<Rightarrow> expr option parse" where
  "ParseTernaryExpr r condition =
     seq (ConsumeVal T_OPERATOR ''?'')
     (bind (r_expr r) (\<lambda>trueExpr.
       if trueExpr = None then ret None
       else
         seq (ConsumeVal T_OPERATOR '':'')
         (bind (r_expr r) (\<lambda>falseExpr.
           if falseExpr = None then ret None
           else ret (Some (node (TernaryExpr condition trueExpr falseExpr)))))))"

text \<open>The precedence of the operator token at the current position, if there is one.\<close>

definition operator_here :: "pstate \<Rightarrow> (token \<times> int) option" where
  "operator_here s =
     (case current s of
        None \<Rightarrow> None
      | Some t \<Rightarrow>
          if tok_type t = T_OPERATOR then Some (t, GetOperatorPrecedence (tok_value t)) else None)"

definition binary_right :: "parsers \<Rightarrow> int \<Rightarrow> expr option \<Rightarrow> expr option parse" where
  "binary_right r prec =
     repeat (\<lambda>right.
       bind (get operator_here) (\<lambda>nextOp.
         case nextOp of
           None \<Rightarrow> break right
         | Some (t, nextPrecedence) \<Rightarrow>
             if nextPrecedence \<le> prec then break right
             else bind (r_binary r (prec + 1) right) continue))"

definition ParseBinaryExpr :: "parsers \<Rightarrow> int \<Rightarrow> expr option \<Rightarrow> expr option parse" where
  "ParseBinaryExpr r minPrecedence =
     repeat (\<lambda>left.
       bind (get operator_here) (\<lambda>opToken.
         case opToken of
           None \<Rightarrow> break left
         | Some (t, prec) \<Rightarrow>
             if prec < minPrecedence then break left
             else if tok_value t = ''?'' then bind (ParseTernaryExpr r left) break
             else
               seq (Consume T_OPERATOR)
               (bind (ParsePrimaryExpr r) (\<lambda>right.
                 if right = None then break None
                 else
                   bind (binary_right r prec right) (\<lambda>right'.
                     continue (Some (node (BinaryExpr (tok_value t) left right'))))))))"

text \<open>The value of the operator token is moved into the node, which leaves the token empty.\<close>

definition ParseAssignmentExpr :: "parsers \<Rightarrow> expr option \<Rightarrow> expr option parse" where
  "ParseAssignmentExpr r leftValue =
     (if leftValue = None then ret None
      else
        bind CurrentToken (\<lambda>op.
          case op of
            None \<Rightarrow> report_throw op ''Expected assignment operator'' ''Expected assignment operator''
          | Some t \<Rightarrow>
              if GetOperatorCategory (tok_value t) \<noteq> Cat_Assignment then
                report_throw op ''Expected assignment operator'' ''Expected assignment operator''
              else
                bind (get p_pos) (\<lambda>place.
                seq (Consume T_OPERATOR)
                (bind (r_expr r) (\<lambda>rightValue.
                 seq (modify (set_token place (\<lambda>u. u\<lparr>tok_value := []\<rparr>)))
                   (locate op (Some (node (AssignmentExpr leftValue (tok_value t) rightValue)))))))))"

definition at_assignment :: "pstate \<Rightarrow> bool" where
  "at_assignment s =
     (case current s of None \<Rightarrow> False | Some t \<Rightarrow> GetOperatorCategory (tok_value t) = Cat_Assignment)"

definition ParseExpressionImpl :: "parsers \<Rightarrow> expr option parse" where
  "ParseExpressionImpl r =
     guarded
     (bind CurrentToken (\<lambda>token.
       if token = None then report_throw None ''Token is null'' ''Token is null''
       else
         bind (ParsePrimaryExpr r) (\<lambda>left.
           if left = None then ret None
           else
             bind (cond at_assignment (ParseAssignmentExpr r left) (ret left)) (\<lambda>left'.
               cond (\<lambda>s. is_type T_OPERATOR (current s))
                 (ParseBinaryExpr r 0 left')
                 (ret left')))))"

definition ParseExpression :: "parsers \<Rightarrow> expr option parse" where
  "ParseExpression r =
     bind CurrentToken (\<lambda>start. bind (ParseExpressionImpl r) (\<lambda>expression. locate start expression))"

end
