(* ===== verification/Parser_Stmt.thy ===== *)
theory Parser_Stmt
  imports Parser_Expr
begin

text \<open>
  Parsing statements and declarations: the statement half of \<^verbatim>\<open>parser.cpp\<close>, and
  \<^verbatim>\<open>parser_var_declaration.cpp\<close>, \<^verbatim>\<open>parser_instance.cpp\<close>, \<^verbatim>\<open>parser_if_else.cpp\<close>,
  \<^verbatim>\<open>parser_loops.cpp\<close>, \<^verbatim>\<open>parser_switch.cpp\<close>, \<^verbatim>\<open>parser_exceptions.cpp\<close>,
  \<^verbatim>\<open>parser_cleanup.cpp\<close>, \<^verbatim>\<open>parser_function.cpp\<close>, \<^verbatim>\<open>parser_constructor.cpp\<close>,
  \<^verbatim>\<open>parser_property.cpp\<close>, \<^verbatim>\<open>parser_indexer.cpp\<close>, \<^verbatim>\<open>parser_class.cpp\<close>,
  \<^verbatim>\<open>parser_struct.cpp\<close>, \<^verbatim>\<open>parser_interface.cpp\<close>, \<^verbatim>\<open>parser_enum.cpp\<close>,
  \<^verbatim>\<open>parser_alias.cpp\<close> and \<^verbatim>\<open>parser_module.cpp\<close>. As in theory \<^verbatim>\<open>Parser_Expr\<close>, the recursive
  calls are taken from a record.
\<close>

section \<open>Blocks\<close>

text \<open>
  A sequence of statements up to a token that ends it; a statement that is not there has to
  have consumed something.
\<close>

definition statement_list ::
  "parsers \<Rightarrow> (pstate \<Rightarrow> bool) \<Rightarrow> string \<Rightarrow> string \<Rightarrow> stmt list parse" where
  "statement_list r stop message what =
     repeat (\<lambda>statements.
       cond stop (break statements)
         (bind (get p_pos) (\<lambda>statementStart.
          bind (r_stmt r) (\<lambda>statement.
            case statement of
              Some st \<Rightarrow> continue (statements @ [st])
            | None \<Rightarrow>
                cond (\<lambda>s. p_pos s = statementStart) (fail_here message what)
                  (continue statements))))) []"

definition ParseCompoundStatement :: "parsers \<Rightarrow> stmt parse" where
  "ParseCompoundStatement r =
     seq (ConsumeVal T_BRACKET ''{'')
     (bind (statement_list r (\<lambda>s. at_end s \<or> at T_BRACKET ''}'' s)
              ''Unexpected token in compound statement'' ''Parser made no progress'') (\<lambda>statements.
       cond at_end
         (report_throw None (''Unexpected end of file; expected '' @ quoted ''}'')
            ''Unterminated compound statement'')
         (seq (ConsumeVal T_BRACKET ''}'') (ret (stmt_node (CompoundStmt statements))))))"

definition compound_statements :: "stmt \<Rightarrow> stmt list" where
  "compound_statements st = (case skind st of CompoundStmt sts \<Rightarrow> sts | _ \<Rightarrow> [])"

text \<open>\<open>stmt->modifiers = modifiers; stmt->attributes = attributes\<close> with those of the parser.\<close>

definition with_current :: "stmt \<Rightarrow> stmt parse" where
  "with_current st = get (\<lambda>s. decorate (p_modifiers s) (p_attributes s) st)"

section \<open>Variables\<close>

definition located_var :: "token option \<Rightarrow> (expr, stmt) expr_kind \<Rightarrow> expr parse" where
  "located_var start k =
     bind (locate start (Some (node k))) (\<lambda>e. ret (case e of Some d \<Rightarrow> d | None \<Rightarrow> node k))"

definition ParseVarDeclExpr :: "parsers \<Rightarrow> expr parse" where
  "ParseVarDeclExpr r =
     bind CurrentToken (\<lambda>start.
     bind (ParseType r) (\<lambda>type.
       cond (at T_OPERATOR ''&'')
         (fail_here (quoted ''&'' @ '' references are only supported for parameters'')
            ''Value reference outside parameter list'')
         (bind (ParsePrimaryExpr r) (\<lambda>nameExpr.
          bind CurrentToken (\<lambda>token.
            if (case token of None \<Rightarrow> False | Some t \<Rightarrow> IsEndOfStatement t \<or> tok_type t = T_KEYWORD) then
              located_var start (VarDeclExpr type nameExpr None no_flags)
            else
              bind (deref token) (\<lambda>t.
                if tok_type t = T_OPERATOR then
                  seq (Consume T_OPERATOR)
                  (bind (ParseExpression r) (\<lambda>v.
                     located_var start (VarDeclExpr type nameExpr v no_flags)))
                else throw (Runtime ''parse failed'')))))))"

definition map_flags :: "(var_flags \<Rightarrow> var_flags) \<Rightarrow> expr \<Rightarrow> expr" where
  "map_flags f e =
     (case ekind e of
        VarDeclExpr type name v flags \<Rightarrow> Expr (einfo e) (VarDeclExpr type name v (f flags))
      | _ \<Rightarrow> e)"

definition ParseVarDeclaration :: "parsers \<Rightarrow> stmt parse" where
  "ParseVarDeclaration r =
     bind (ParseVarDeclExpr r) (\<lambda>declaration.
     bind (get p_modifiers) (\<lambda>modifiers.
       let declaration' = map_flags (\<lambda>f. f\<lparr>v_const := has_modifier ''const'' modifiers,
                                           v_static := has_modifier ''static'' modifiers\<rparr>) declaration
       in seq (ConsumeVal T_DELIMITER '';'') (with_current (stmt_node (VarDeclStmt declaration')))))"

definition ParseInstanceDeclExpr :: "parsers \<Rightarrow> bool \<Rightarrow> bool \<Rightarrow> expr parse" where
  "ParseInstanceDeclExpr r isConst isStatic =
     bind CurrentToken (\<lambda>start.
     bind (ParseIdentifierExpr r True) (\<lambda>constructType.
     bind (ParsePrimaryExpr r) (\<lambda>identifierName.
     bind (cond (at_val ''='') (seq (ConsumeVal T_OPERATOR ''='') (ParseExpression r)) (ret None))
       (\<lambda>initializer.
         located_var start (InstanceDeclExpr (node (UserTypeExpr constructType)) identifierName
           initializer isConst isStatic)))))"

definition ParseInstanceDeclStmt :: "parsers \<Rightarrow> stmt parse" where
  "ParseInstanceDeclStmt r =
     bind (get p_modifiers) (\<lambda>modifiers.
     bind (get p_attributes) (\<lambda>attributes.
     bind (ParseInstanceDeclExpr r (has_modifier ''const'' modifiers) (has_modifier ''static'' modifiers))
       (\<lambda>instanceDecl.
         ret (decorate modifiers attributes (stmt_node (SingleStatement (Some instanceDecl)))))))"

section \<open>Control flow\<close>

definition condition_in_parentheses :: "parsers \<Rightarrow> expr option parse" where
  "condition_in_parentheses r =
     seq (ConsumeVal T_BRACKET ''('')
     (bind (ParseExpression r) (\<lambda>condition. seq (ConsumeVal T_BRACKET '')'') (ret condition)))"

definition else_branches ::
  "parsers \<Rightarrow> (expr option \<times> stmt) list \<Rightarrow> ((expr option \<times> stmt) list \<times> stmt option) parse" where
  "else_branches r =
     repeat (\<lambda>branches.
       cond (at T_KEYWORD ''else'')
         (seq (ConsumeVal T_KEYWORD ''else'')
         (seq CurrentDeref
           (cond (at T_KEYWORD ''if'')
             (seq (ConsumeVal T_KEYWORD ''if'')
             (bind (condition_in_parentheses r) (\<lambda>elseCondition.
              bind (ParseCompoundStatement r) (\<lambda>body.
                continue (branches @ [(elseCondition, body)])))))
             (bind (ParseCompoundStatement r) (\<lambda>body. break (branches, Some body))))))
         (break (branches, None)))"

definition ParseIfStmt :: "parsers \<Rightarrow> stmt option parse" where
  "ParseIfStmt r =
     cond (at T_KEYWORD ''if'')
       (seq (ConsumeVal T_KEYWORD ''if'')
       (bind (condition_in_parentheses r) (\<lambda>condition.
        bind (ParseCompoundStatement r) (\<lambda>body.
        bind (else_branches r [(condition, body)]) (\<lambda>(branches, elseBranch).
          ret (Some (stmt_node (IfStmt branches elseBranch))))))))
       (ret None)"

definition ParseWhileStmt :: "parsers \<Rightarrow> stmt parse" where
  "ParseWhileStmt r =
     seq (ConsumeVal T_KEYWORD ''while'')
     (bind (condition_in_parentheses r) (\<lambda>condition.
       cond (\<lambda>s. \<not> at T_BRACKET ''{'' s)
         (fail_here (''Expected '' @ quoted ''{'' @ '' after while condition'')
            (''Expected '' @ quoted ''{'' @ '' after while condition''))
         (bind (ParseCompoundStatement r) (\<lambda>body. ret (stmt_node (WhileStmt condition body))))))"

definition ParseDoWhileStmt :: "parsers \<Rightarrow> stmt parse" where
  "ParseDoWhileStmt r =
     seq (ConsumeVal T_KEYWORD ''do'')
       (cond (\<lambda>s. \<not> at T_BRACKET ''{'' s)
         (fail_here (''Error: Expected '' @ quoted ''{'' @ '' after '' @ quoted ''do'')
            (''Error: Expected '' @ quoted ''{'' @ '' after '' @ quoted ''do''))
         (bind (r_stmt r) (\<lambda>body.
          cond (\<lambda>s. \<not> at T_KEYWORD ''while'' s)
            (fail_here (''Error: Expected '' @ quoted ''while'' @ '' after do-while body.'')
               (''Error: Expected '' @ quoted ''while'' @ '' after do-while body.''))
            (seq (ConsumeVal T_KEYWORD ''while'')
            (bind (condition_in_parentheses r) (\<lambda>condition.
             seq (ConsumeVal T_DELIMITER '';'')
               (ret (stmt_node (DoWhileStmt body condition)))))))))"

definition ParseForEachStmt :: "parsers \<Rightarrow> stmt parse" where
  "ParseForEachStmt r =
     seq (ConsumeVal T_KEYWORD ''foreach'')
     (seq (ConsumeVal T_BRACKET ''('')
     (bind (optional_keyword ''const'') (\<lambda>isConst.
      bind (ParseVarDeclExpr r) (\<lambda>variable.
      seq (ConsumeVal T_KEYWORD ''in'')
      (bind (ParseExpression r) (\<lambda>iterable.
      seq (ConsumeVal T_BRACKET '')'')
      (bind (r_stmt r) (\<lambda>body.
        ret (stmt_node (ForEachStmt (map_flags (\<lambda>f. f\<lparr>v_const := isConst\<rparr>) variable)
               iterable body))))))))))"

text \<open>
  The \<open>do ... while (CurrentToken()->type == DELIMITER && value == "," && Consume(DELIMITER))\<close> around
  the parts of a \<open>for\<close> header.
\<close>

definition comma_separated :: "expr option parse \<Rightarrow> expr option list parse" where
  "comma_separated part =
     repeat (\<lambda>parts.
       bind part (\<lambda>p.
       seq CurrentDeref
         (cond (at T_DELIMITER '','')
           (seq (Consume T_DELIMITER) (continue (parts @ [p])))
           (break (parts @ [p]))))) []"

definition for_initialiser :: "parsers \<Rightarrow> expr option parse" where
  "for_initialiser r =
     bind CurrentDeref (\<lambda>t.
       if tok_type t = T_KEYWORD then
         bind (if tok_value t = ''const'' then seq (ConsumeVal T_KEYWORD ''const'') (ret True) else ret False)
           (\<lambda>isConst.
             bind (ParseVarDeclExpr r) (\<lambda>declaration.
               ret (Some (map_flags (\<lambda>f. f\<lparr>v_const := isConst\<rparr>) declaration))))
       else ParseExpression r)"

text \<open>A part of the header that is absent when the token \<open>type value\<close> is there.\<close>

definition unless_at :: "TokenType \<Rightarrow> string \<Rightarrow> 'a parse \<Rightarrow> 'a \<Rightarrow> 'a parse" where
  "unless_at type v m absent = seq CurrentDeref (cond (at type v) (ret absent) m)"

definition ParseForStmt :: "parsers \<Rightarrow> stmt option parse" where
  "ParseForStmt r =
     cond (\<lambda>s. \<not> at T_KEYWORD ''for'' s) (ret None)
     (seq (ConsumeVal T_KEYWORD ''for'')
     (seq (ConsumeVal T_BRACKET ''('')
     (bind (unless_at T_DELIMITER '';'' (comma_separated (for_initialiser r)) []) (\<lambda>init.
      seq (ConsumeVal T_DELIMITER '';'')
      (bind (unless_at T_DELIMITER '';'' (ParseExpression r) None) (\<lambda>condition.
      seq (ConsumeVal T_DELIMITER '';'')
      (bind (unless_at T_BRACKET '')'' (comma_separated (ParseExpression r)) []) (\<lambda>update.
      seq (ConsumeVal T_BRACKET '')'')
      (bind (ParseCompoundStatement r) (\<lambda>body.
        ret (Some (stmt_node (ForStmt init condition update body)))))))))))))"

definition at_case :: "pstate \<Rightarrow> bool" where
  "at_case s \<longleftrightarrow> at T_KEYWORD ''case'' s \<or> at T_KEYWORD ''default'' s"

definition parseCaseBody :: "parsers \<Rightarrow> stmt parse" where
  "parseCaseBody r =
     bind (statement_list r (\<lambda>s. at_end s \<or> at_val ''}'' s \<or> at_case s)
             ''Unexpected token in switch case'' ''Parser made no progress in switch case'')
       (\<lambda>statements. ret (stmt_node (CompoundStmt statements)))"

type_synonym switch_acc = "(expr option \<times> stmt) list \<times> stmt option \<times> bool"

definition switch_branch :: "parsers \<Rightarrow> switch_acc \<Rightarrow> (switch_acc + switch_acc) parse" where
  "switch_branch r = (\<lambda>(cases, defaultCase, sawDefault).
     bind CurrentDeref (\<lambda>t.
       if tok_type t \<noteq> T_KEYWORD then
         report_throw (Some t) (''Expected '' @ quoted ''case'' @ '' or '' @ quoted ''default'') ''Invalid switch branch''
       else if tok_value t = ''case'' then
         if sawDefault then
           report_throw (Some t) ''A case cannot appear after default'' ''Invalid switch branch order''
         else
           seq (ConsumeVal T_KEYWORD ''case'')
           (bind (ParseExpression r) (\<lambda>label.
            seq (ConsumeVal T_OPERATOR '':'')
            (bind (parseCaseBody r) (\<lambda>body. continue (cases @ [(label, body)], defaultCase, sawDefault)))))
       else if tok_value t = ''default'' then
         if sawDefault then
           report_throw (Some t) ''A switch can only have one default branch'' ''Duplicate default branch''
         else
           seq (ConsumeVal T_KEYWORD ''default'')
           (seq (ConsumeVal T_OPERATOR '':'')
           (bind (parseCaseBody r) (\<lambda>body. continue (cases, Some body, True))))
       else
         report_throw (Some t) (''Expected '' @ quoted ''case'' @ '' or '' @ quoted ''default'') ''Invalid switch branch''))"

definition ParseSwitchStmt :: "parsers \<Rightarrow> bool \<Rightarrow> stmt parse" where
  "ParseSwitchStmt r exhaustive =
     seq (ConsumeVal T_KEYWORD (if exhaustive then ''match'' else ''switch''))
     (bind (condition_in_parentheses r) (\<lambda>v.
     seq (ConsumeVal T_BRACKET ''{'')
     (bind (repeat (\<lambda>acc.
              cond (\<lambda>s. at_end s \<or> at_val ''}'' s) (break acc) (switch_branch r acc)) ([], None, False))
       (\<lambda>(cases, defaultCase, sawDefault).
         cond at_end
           (report_throw None (''Unexpected end of file; expected '' @ quoted ''}'' @ '' after switch'')
              ''Unterminated switch statement'')
           (seq (ConsumeVal T_BRACKET ''}'')
             (ret (stmt_node (SwitchStmt v cases defaultCase exhaustive))))))))"

definition ParseThrowStmt :: "parsers \<Rightarrow> stmt parse" where
  "ParseThrowStmt r =
     seq (ConsumeVal T_KEYWORD ''throw'')
     (bind (cond (\<lambda>s. case current s of None \<Rightarrow> True | Some t \<Rightarrow> \<not> IsEndOfStatement t)
              (ParseExpression r) (ret None)) (\<lambda>v.
      seq (ConsumeVal T_DELIMITER '';'') (ret (stmt_node (ThrowStmt v)))))"

text \<open>A body after a keyword: the next token has to be an opening brace.\<close>

definition braced :: "parsers \<Rightarrow> string \<Rightarrow> string \<Rightarrow> stmt parse" where
  "braced r message what =
     cond (\<lambda>s. \<not> at_val ''{'' s) (fail_here message what) (ParseCompoundStatement r)"

definition catch_clauses :: "parsers \<Rightarrow> (expr \<times> stmt) list parse" where
  "catch_clauses r =
     repeat (\<lambda>catches.
       cond (at T_KEYWORD ''catch'')
         (seq (ConsumeVal T_KEYWORD ''catch'')
         (seq (ConsumeVal T_BRACKET ''('')
         (bind (ParseType r) (\<lambda>type.
          bind (Consume T_IDENTIFIER) (\<lambda>name.
          seq (ConsumeVal T_BRACKET '')'')
          (bind (braced r (''Expected a compound body after '' @ quoted ''catch'') ''Invalid catch clause'')
            (\<lambda>body.
              continue (catches @
                [(node (VarDeclExpr type (Some (node (IdentifierExpr (tok_value name)))) None no_flags),
                  body)]))))))))
         (break catches)) []"

definition ParseTryStmt :: "parsers \<Rightarrow> stmt parse" where
  "ParseTryStmt r =
     seq (ConsumeVal T_KEYWORD ''try'')
     (bind (braced r (''Expected a compound body after '' @ quoted ''try'') ''Invalid try statement'') (\<lambda>body.
      bind (catch_clauses r) (\<lambda>catches.
      bind (cond (at T_KEYWORD ''finally'')
              (seq (ConsumeVal T_KEYWORD ''finally'')
              (bind (braced r (''Expected a compound body after '' @ quoted ''finally'') ''Invalid finally clause'')
                (\<lambda>b. ret (Some b))))
              (ret None)) (\<lambda>finallyBody.
        if catches = [] \<and> finallyBody = None then
          fail_here ''A try statement requires catch or finally'' ''Incomplete try statement''
        else ret (stmt_node (TryStmt body catches finallyBody))))))"

definition ParseDeferStmt :: "parsers \<Rightarrow> stmt parse" where
  "ParseDeferStmt r =
     seq (ConsumeVal T_KEYWORD ''defer'')
       (cond (at T_BRACKET ''{'')
         (bind (ParseCompoundStatement r) (\<lambda>body. ret (stmt_node (DeferStmt body))))
         (bind (r_stmt r) (\<lambda>statement.
            case statement of
              None \<Rightarrow>
                fail_here (''Expected a block or statement after '' @ quoted ''defer'') ''Invalid defer statement''
            | Some st \<Rightarrow> ret (stmt_node (DeferStmt (stmt_node (CompoundStmt [st])))))))"

definition ParseReturnStmt :: "parsers \<Rightarrow> stmt option parse" where
  "ParseReturnStmt r =
     cond (at T_KEYWORD ''return'')
       (seq (ConsumeVal T_KEYWORD ''return'')
       (bind (cond (\<lambda>s. case current s of None \<Rightarrow> False | Some t \<Rightarrow> \<not> IsEndOfStatement t)
                (ParseExpression r) (ret None)) (\<lambda>expr.
        seq (ConsumeVal T_DELIMITER '';'') (ret (Some (stmt_node (ReturnStmt expr)))))))
       (ret None)"

end
