(* ===== verification/Parser_Decl.thy ===== *)
theory Parser_Decl
  imports Parser_Stmt
begin

text \<open>
  Parsing declarations, and the choice of what a statement is: \<^verbatim>\<open>parser_function.cpp\<close>,
  \<^verbatim>\<open>parser_constructor.cpp\<close>, \<^verbatim>\<open>parser_property.cpp\<close>, \<^verbatim>\<open>parser_indexer.cpp\<close>,
  \<^verbatim>\<open>parser_class.cpp\<close>, \<^verbatim>\<open>parser_struct.cpp\<close>, \<^verbatim>\<open>parser_interface.cpp\<close>,
  \<^verbatim>\<open>parser_enum.cpp\<close>, \<^verbatim>\<open>parser_alias.cpp\<close>, \<^verbatim>\<open>parser_module.cpp\<close>,
  \<^verbatim>\<open>parser_identifier.cpp\<close> and \<open>ParseStatement\<close> of \<^verbatim>\<open>parser.cpp\<close>.
\<close>

section \<open>Functions\<close>

text \<open>A \<open>const\<close> behind the parameters is one of the modifiers.\<close>

definition trailing_const :: "token list \<Rightarrow> token list parse" where
  "trailing_const modifiers =
     cond (at T_KEYWORD ''const'')
       (bind (ConsumeVal T_KEYWORD ''const'') (\<lambda>t. ret (modifiers @ [t])))
       (ret modifiers)"

definition at_end_of_statement :: "pstate \<Rightarrow> bool" where
  "at_end_of_statement s = (case current s of None \<Rightarrow> False | Some t \<Rightarrow> IsEndOfStatement t)"

definition ParseFunctionDeclaration :: "parsers \<Rightarrow> stmt parse" where
  "ParseFunctionDeclaration r =
     bind (get p_modifiers) (\<lambda>modifiers0.
     bind (get p_attributes) (\<lambda>attributes.
     bind (ParseType r) (\<lambda>returnType.
     bind (Consume T_IDENTIFIER) (\<lambda>identifier.
     bind (ParseTemplateParameters False) (\<lambda>(templateParams, _).
     bind (ParseParameters r) (\<lambda>parameters.
     bind (trailing_const modifiers0) (\<lambda>modifiers.
       cond at_end_of_statement
         (fail_here (''A function body is required; use extern '' @ [double_quote] @ ''C'' @
            [double_quote] @ '' for a native declaration'')
            ''Function declaration without a body'')
         (bind (r_stmt r) (\<lambda>body.
            ret (decorate modifiers attributes
              (stmt_node (FunctionDeclStmt
                 ((plain_function identifier)\<lparr>f_templateParams := templateParams\<rparr>)
                 returnType parameters body))))))))))))"

definition has_default :: "expr \<Rightarrow> bool" where
  "has_default e = (case ekind e of VarDeclExpr _ _ v _ \<Rightarrow> v \<noteq> None | _ \<Rightarrow> False)"

definition c_abi :: string where
  "c_abi = [double_quote] @ ''C'' @ [double_quote]"

text \<open>The head shared by \<open>extern "C"\<close> and \<open>export "C"\<close>.\<close>

definition abi_signature ::
  "parsers \<Rightarrow> string \<Rightarrow> string \<Rightarrow> string \<Rightarrow> (expr option \<times> token \<times> expr list) parse" where
  "abi_signature r kw Name name =
     seq (ConsumeVal T_KEYWORD kw)
     (bind (Consume T_STRING) (\<lambda>abiToken.
       if tok_value abiToken \<noteq> c_abi then
         report_throw (Some abiToken) (''Only '' @ kw @ '' '' @ c_abi @ '' is supported'')
           (''Unsupported '' @ name @ '' ABI'')
       else
         bind (ParseType r) (\<lambda>returnType.
         bind (Consume T_IDENTIFIER) (\<lambda>identifier.
         cond (at_val ''<'')
           (fail_here (Name @ '' functions cannot declare generic parameters'')
              (''Generic '' @ kw @ '' function''))
           (bind (ParseParameters r) (\<lambda>parameters.
              if list_ex has_default parameters then
                report_throw (Some identifier)
                  (Name @ '' function parameters cannot have default values'')
                  (''Invalid '' @ kw @ '' parameter'')
              else ret (returnType, identifier, parameters)))))))"

definition ParseExternalFunctionDeclaration :: "parsers \<Rightarrow> stmt parse" where
  "ParseExternalFunctionDeclaration r =
     bind (get p_modifiers) (\<lambda>modifiers.
     bind (get p_attributes) (\<lambda>attributes.
     bind (abi_signature r ''extern'' ''Extern'' ''external'') (\<lambda>(returnType, identifier, parameters).
     seq (ConsumeVal T_DELIMITER '';'')
       (ret (decorate modifiers attributes
         (stmt_node (FunctionDeclStmt ((plain_function identifier)\<lparr>f_externalAbi := ''C''\<rparr>)
            returnType parameters None)))))))"

definition ParseExportFunctionDeclaration :: "parsers \<Rightarrow> stmt parse" where
  "ParseExportFunctionDeclaration r =
     bind (get p_modifiers) (\<lambda>modifiers.
     bind (get p_attributes) (\<lambda>attributes.
     bind (abi_signature r ''export'' ''Export'' ''export'') (\<lambda>(returnType, identifier, parameters).
       cond at_end_of_statement
         (fail_here ''An export function requires an Absolute body'' ''Export function without a body'')
         (bind (r_stmt r) (\<lambda>body.
            ret (decorate modifiers attributes
              (stmt_node (FunctionDeclStmt ((plain_function identifier)\<lparr>f_exportAbi := ''C''\<rparr>)
                 returnType parameters body))))))))"

section \<open>Constructors\<close>

text \<open>An explicit \<open>base(...)\<close> call as the first statement is taken out of the body.\<close>

definition base_call :: "stmt \<Rightarrow> expr option list option" where
  "base_call st =
     (case skind st of
        SingleStatement (Some (Expr _ (FunctionCallExpr (Some (Expr _ (IdentifierExpr name))) arguments))) \<Rightarrow>
          (if name = ''base'' then Some arguments else None)
      | _ \<Rightarrow> None)"

definition split_base_call :: "stmt option \<Rightarrow> stmt option \<times> expr option list \<times> bool" where
  "split_base_call body =
     (case body of
        Some (Stmt i (CompoundStmt (first # rest))) \<Rightarrow>
          (case base_call first of
             Some arguments \<Rightarrow> (Some (Stmt i (CompoundStmt rest)), arguments, True)
           | None \<Rightarrow> (body, [], False))
      | _ \<Rightarrow> (body, [], False))"

definition ParseConstructor :: "parsers \<Rightarrow> stmt parse" where
  "ParseConstructor r =
     bind (get p_modifiers) (\<lambda>modifiers0.
     bind (get p_attributes) (\<lambda>attributes.
     bind (Consume T_IDENTIFIER) (\<lambda>name.
     bind (ParseParameters r) (\<lambda>parameters.
     bind (trailing_const modifiers0) (\<lambda>modifiers.
     bind (r_stmt r) (\<lambda>body0.
       case split_base_call body0 of
         (body, baseArguments, hasExplicitBaseCall) \<Rightarrow>
           ret (decorate modifiers attributes
             (stmt_node (ConstructorDeclStmt name parameters baseArguments hasExplicitBaseCall body)))))))))"

section \<open>Copies of types\<close>

text \<open>
  \<open>CloneType\<close> and \<open>CloneTypeExpression\<close>, for a node whose children are given by both functions;
  \<open>what\<close> is the word the messages use (\<open>property\<close> or \<open>indexer\<close>).
\<close>

type_synonym clones = "(parse_error + expr) \<times> (parse_error + expr)"

definition clone_child :: "(clones \<Rightarrow> parse_error + expr) \<Rightarrow> clones option \<Rightarrow> parse_error + expr" where
  "clone_child f c = (case c of None \<Rightarrow> Inl Null_dereference | Some x \<Rightarrow> f x)"

fun clone_children :: "clones option list \<Rightarrow> parse_error + expr option list" where
  "clone_children [] = Inr []"
| "clone_children (c # cs) =
     (case clone_child snd c of
        Inl e \<Rightarrow> Inl e
      | Inr x \<Rightarrow> map_sum id (\<lambda>xs. Some x # xs) (clone_children cs))"

fun clone_type :: "string \<Rightarrow> (clones, unit) expr_kind \<Rightarrow> parse_error + expr" where
  "clone_type what (PrimitiveTypeExpr type) = Inr (node (PrimitiveTypeExpr type))"
| "clone_type what (UserTypeExpr c) =
     map_sum id (\<lambda>e. node (UserTypeExpr (Some e))) (clone_child snd c)"
| "clone_type what (PointerTypeExpr c ownership qualifiesBase) =
     map_sum id (\<lambda>e. node (PointerTypeExpr (Some e) ownership qualifiesBase)) (clone_child fst c)"
| "clone_type what (ArrayTypeExpr c) =
     map_sum id (\<lambda>e. node (ArrayTypeExpr (Some e))) (clone_child fst c)"
| "clone_type what k = Inl (Runtime (''Unsupported '' @ what @ '' type expression''))"

fun clone_type_expression :: "string \<Rightarrow> (clones, unit) expr_kind \<Rightarrow> parse_error + expr" where
  "clone_type_expression what (PrimitiveTypeExpr type) = clone_type what (PrimitiveTypeExpr type)"
| "clone_type_expression what (UserTypeExpr c) = clone_type what (UserTypeExpr c)"
| "clone_type_expression what (PointerTypeExpr c k q) = clone_type what (PointerTypeExpr c k q)"
| "clone_type_expression what (ArrayTypeExpr c) = clone_type what (ArrayTypeExpr c)"
| "clone_type_expression what (IdentifierExpr name) = Inr (node (IdentifierExpr name))"
| "clone_type_expression what (MemberAccessExpr c member) =
     map_sum id (\<lambda>e. node (MemberAccessExpr (Some e) member)) (clone_child snd c)"
| "clone_type_expression what (TemplateExpr c cs) =
     (case clone_children cs of
        Inl e \<Rightarrow> Inl e
      | Inr args \<Rightarrow> map_sum id (\<lambda>e. node (TemplateExpr (Some e) args)) (clone_child snd c))"
| "clone_type_expression what k = Inl (Runtime (''Unsupported '' @ what @ '' type name''))"

primrec clone_expr :: "string \<Rightarrow> expr \<Rightarrow> clones" and clone_stmt :: "string \<Rightarrow> stmt \<Rightarrow> unit" where
  "clone_expr what (Expr i k) =
     (clone_type what (map_expr_kind (clone_expr what) (clone_stmt what) k),
      clone_type_expression what (map_expr_kind (clone_expr what) (clone_stmt what) k))"
| "clone_stmt what (Stmt i k) = ()"

definition CloneType :: "expr option \<Rightarrow> expr parse" where
  "CloneType type s =
     (case type of
        None \<Rightarrow> throw Null_dereference s
      | Some e \<Rightarrow> (fst (clone_expr ''property'' e), s))"

definition CloneIndexerType :: "expr option \<Rightarrow> expr parse" where
  "CloneIndexerType type s =
     (case type of
        None \<Rightarrow> throw Null_dereference s
      | Some e \<Rightarrow> (fst (clone_expr ''indexer'' e), s))"

definition CloneIndexerTypeExpression :: "expr option \<Rightarrow> expr parse" where
  "CloneIndexerTypeExpression type s =
     (case type of
        None \<Rightarrow> throw Null_dereference s
      | Some e \<Rightarrow> (snd (clone_expr ''indexer'' e), s))"

section \<open>Properties\<close>

definition is_access :: "token \<Rightarrow> bool" where
  "is_access m \<longleftrightarrow>
     tok_value m \<in> {''public'', ''protected'', ''private'', ''internal''}"

definition HasAccessModifier :: "token list \<Rightarrow> bool" where
  "HasAccessModifier modifiers = list_ex is_access modifiers"

definition AccessorModifiers :: "token list \<Rightarrow> token list \<Rightarrow> token list" where
  "AccessorModifiers propertyModifiers declaredModifiers =
     (if HasAccessModifier declaredModifiers
      then filter (\<lambda>m. \<not> is_access m) propertyModifiers else propertyModifiers) @ declaredModifiers"

definition variable :: "expr \<Rightarrow> string \<Rightarrow> expr" where
  "variable type name =
     node (VarDeclExpr (Some type) (Some (node (IdentifierExpr name))) None no_flags)"

definition void_type :: expr where
  "void_type = node (PrimitiveTypeExpr ''void'')"

text \<open>The keyword of an accessor: \<open>get\<close> (true) or \<open>set\<close>.\<close>

definition accessor_keyword :: "string \<Rightarrow> string \<Rightarrow> (bool \<times> token) parse" where
  "accessor_keyword article what =
     bind CurrentToken (\<lambda>accessor.
       if \<not> (is_tok T_KEYWORD ''get'' accessor \<or> is_tok T_KEYWORD ''set'' accessor) then
         report_throw accessor
           (''Expected '' @ article @ '' '' @ what @ '' '' @ quoted ''get'' @ '' or '' @ quoted ''set'' @ '' accessor'')
           (''Invalid '' @ what @ '' accessor'')
       else
         bind (deref accessor) (\<lambda>t.
         bind (ConsumeVal T_KEYWORD (tok_value t)) (\<lambda>accessorToken.
           ret (tok_value t = ''get'', accessorToken))))"

definition method_token :: "token \<Rightarrow> string \<Rightarrow> token" where
  "method_token accessorToken name = accessorToken\<lparr>tok_type := T_IDENTIFIER, tok_value := name\<rparr>"

type_synonym accessors = "stmt option \<times> stmt option"

definition property_body :: "parsers \<Rightarrow> (bool \<times> stmt option) parse" where
  "property_body r =
     cond (at T_DELIMITER '';'')
       (seq (ConsumeVal T_DELIMITER '';'')
       (bind (get GetCurrentScopeType) (\<lambda>scope. ret (scope = S_Class \<or> scope = S_Struct, None))))
       (cond (at T_BRACKET ''{'')
         (bind (ParseCompoundStatement r) (\<lambda>body. ret (False, Some body)))
         (fail_here (''Expected '' @ quoted '';'' @ '' or a property accessor body'')
            ''Invalid property accessor body''))"

definition property_accessor ::
  "parsers \<Rightarrow> token list \<Rightarrow> expr option \<Rightarrow> token \<Rightarrow> accessors \<Rightarrow> accessors parse" where
  "property_accessor r propertyModifiers propertyType propertyToken acc =
     seq ParseAttributes
     (seq ParseModifiers
     (bind (get p_modifiers) (\<lambda>declaredModifiers.
      bind (get p_attributes) (\<lambda>accessorAttributes.
      bind CurrentToken (\<lambda>accessor.
      bind (accessor_keyword ''a'' ''property'') (\<lambda>(isGetter, accessorToken).
      bind (property_body r) (\<lambda>(automatic, body).
        let name = tok_value propertyToken;
            methodToken = method_token accessorToken
              (if isGetter then PropertyGetterName name else PropertySetterName name);
            info = (plain_function methodToken)\<lparr>
                     f_accessor := (if isGetter then PA_Getter else PA_Setter),
                     f_propertyName := name, f_auto := automatic\<rparr>;
            finish = decorate (AccessorModifiers propertyModifiers declaredModifiers) accessorAttributes
        in if isGetter then
             if fst acc \<noteq> None then
               report_throw accessor ''Duplicate property getter'' ''Duplicate property getter''
             else
               bind (CloneType propertyType) (\<lambda>returnType.
                 ret (Some (finish (stmt_node (FunctionDeclStmt info (Some returnType) [] body))), snd acc))
           else
             if snd acc \<noteq> None then
               report_throw accessor ''Duplicate property setter'' ''Duplicate property setter''
             else
               bind (CloneType propertyType) (\<lambda>valueType.
                 ret (fst acc, Some (finish (stmt_node
                   (FunctionDeclStmt info (Some void_type) [variable valueType ''value''] body))))))))))))"

definition ParsePropertyDeclaration :: "parsers \<Rightarrow> stmt parse" where
  "ParsePropertyDeclaration r =
     bind (get p_modifiers) (\<lambda>propertyModifiers.
     bind (get p_attributes) (\<lambda>propertyAttributes.
     bind (ParseType r) (\<lambda>propertyType.
     bind (Consume T_IDENTIFIER) (\<lambda>propertyToken.
     seq (ConsumeVal T_BRACKET ''{'')
     (bind
       (repeat (\<lambda>acc.
          cond (\<lambda>s. at_end s \<or> at T_BRACKET ''}'' s) (break acc)
            (bind (property_accessor r propertyModifiers propertyType propertyToken acc) continue))
          (None, None))
       (\<lambda>(getter, setter).
         seq (ConsumeVal T_BRACKET ''}'')
           (if getter = None \<and> setter = None then
              report_throw (Some propertyToken) ''Property requires at least one accessor''
                ''Empty property declaration''
            else
              ret (decorate propertyModifiers propertyAttributes
                (stmt_node (PropertyDeclStmt propertyType (tok_value propertyToken) getter setter))))))))))"

section \<open>Indexers\<close>

definition HasIndexerAccessModifier :: "token list \<Rightarrow> bool" where
  "HasIndexerAccessModifier modifiers = list_ex is_access modifiers"

definition IndexerAccessorModifiers :: "token list \<Rightarrow> token list \<Rightarrow> token list" where
  "IndexerAccessorModifiers indexerModifiers declaredModifiers =
     (if HasIndexerAccessModifier declaredModifiers
      then filter (\<lambda>m. \<not> is_access m) indexerModifiers else indexerModifiers) @ declaredModifiers"

definition CloneIndexerParameter :: "expr \<Rightarrow> expr parse" where
  "CloneIndexerParameter parameter =
     (case ekind parameter of
        VarDeclExpr type name v flags \<Rightarrow>
          bind (CloneIndexerTypeExpression type) (\<lambda>type'.
            ret (node (VarDeclExpr (Some type')
              (Some (node (IdentifierExpr
                (case name of Some (Expr _ (IdentifierExpr n)) \<Rightarrow> n | _ \<Rightarrow> []))))
              None (no_flags\<lparr>v_const := v_const flags, v_reference := v_reference flags\<rparr>))))
      | _ \<Rightarrow> throw Null_dereference)"

fun clone_parameters :: "expr list \<Rightarrow> expr list parse" where
  "clone_parameters [] = ret []"
| "clone_parameters (p # ps) =
     bind (CloneIndexerParameter p) (\<lambda>q. bind (clone_parameters ps) (\<lambda>qs. ret (q # qs)))"

definition indexer_parameters :: "parsers \<Rightarrow> expr list parse" where
  "indexer_parameters r =
     repeat (\<lambda>indexParameters.
       bind (RequireCurrent (''an indexer parameter or '' @ quoted '']'')) (\<lambda>t.
         if tok_value t = '']'' then break indexParameters
         else
           bind (optional_keyword ''const'') (\<lambda>isConst.
           bind (ParseType r) (\<lambda>parameterType.
           bind (Consume T_IDENTIFIER) (\<lambda>parameterName.
             let indexParameters' = indexParameters @
                   [node (VarDeclExpr parameterType
                      (Some (node (IdentifierExpr (tok_value parameterName)))) None
                      (no_flags\<lparr>v_const := isConst\<rparr>))]
             in cond (at_val '','')
                  (seq (ConsumeVal T_DELIMITER '','') (continue indexParameters'))
                  (break indexParameters')))))) []"

definition indexer_body :: "parsers \<Rightarrow> token \<Rightarrow> stmt option parse" where
  "indexer_body r accessorToken =
     cond (at T_DELIMITER '';'')
       (seq (ConsumeVal T_DELIMITER '';'')
         (cond (\<lambda>s. GetCurrentScopeType s \<noteq> S_Interface)
           (report_throw (Some accessorToken)
              ''Class and struct indexers require explicit accessor bodies''
              ''Automatic indexer accessor is not supported'')
           (ret None)))
       (cond (at T_BRACKET ''{'')
         (bind (ParseCompoundStatement r) (\<lambda>body. ret (Some body)))
         (fail_here (''Expected '' @ quoted '';'' @ '' or an indexer accessor body'')
            ''Invalid indexer accessor body''))"

definition indexer_accessor ::
  "parsers \<Rightarrow> token list \<Rightarrow> expr option \<Rightarrow> expr list \<Rightarrow> accessors \<Rightarrow> accessors parse" where
  "indexer_accessor r indexerModifiers elementType indexParameters acc =
     seq ParseAttributes
     (seq ParseModifiers
     (bind (get p_modifiers) (\<lambda>declaredModifiers.
      bind (get p_attributes) (\<lambda>accessorAttributes.
      bind CurrentToken (\<lambda>accessor.
      bind (accessor_keyword ''an'' ''indexer'') (\<lambda>(isGetter, accessorToken).
      bind (indexer_body r accessorToken) (\<lambda>body.
      bind (clone_parameters indexParameters) (\<lambda>parameters.
        let methodToken = method_token accessorToken
              (if isGetter then IndexerGetterName else IndexerSetterName);
            info = (plain_function methodToken)\<lparr>
                     f_accessor := (if isGetter then PA_Getter else PA_Setter),
                     f_propertyName := ''this''\<rparr>;
            finish = decorate (IndexerAccessorModifiers indexerModifiers declaredModifiers) accessorAttributes
        in if isGetter then
             if fst acc \<noteq> None then
               report_throw accessor ''Duplicate indexer getter'' ''Duplicate indexer getter''
             else
               bind (CloneIndexerType elementType) (\<lambda>returnType.
                 ret (Some (finish (stmt_node (FunctionDeclStmt info (Some returnType) parameters body))),
                      snd acc))
           else
             if snd acc \<noteq> None then
               report_throw accessor ''Duplicate indexer setter'' ''Duplicate indexer setter''
             else
               bind (CloneIndexerType elementType) (\<lambda>valueType.
                 ret (fst acc, Some (finish (stmt_node
                   (FunctionDeclStmt info (Some void_type)
                      (parameters @ [variable valueType ''value'']) body)))))))))))))"

definition ParseIndexerDeclaration :: "parsers \<Rightarrow> stmt parse" where
  "ParseIndexerDeclaration r =
     bind (get p_modifiers) (\<lambda>indexerModifiers.
     bind (get p_attributes) (\<lambda>indexerAttributes.
     bind (ParseType r) (\<lambda>elementType.
     bind (ConsumeVal T_KEYWORD ''this'') (\<lambda>thisToken.
     seq (ConsumeVal T_BRACKET ''['')
     (bind (indexer_parameters r) (\<lambda>indexParameters.
     seq (ConsumeVal T_BRACKET '']'')
       (if indexParameters = [] then
          report_throw (Some thisToken) ''Indexer requires at least one parameter''
            ''Empty indexer parameter list''
        else
          seq (ConsumeVal T_BRACKET ''{'')
          (bind
            (repeat (\<lambda>acc.
               cond (\<lambda>s. at_end s \<or> at T_BRACKET ''}'' s) (break acc)
                 (bind (indexer_accessor r indexerModifiers elementType indexParameters acc) continue))
               (None, None))
            (\<lambda>(getter, setter).
              seq (ConsumeVal T_BRACKET ''}'')
                (if getter = None \<and> setter = None then
                   report_throw (Some thisToken) ''Indexer requires at least one accessor''
                     ''Empty indexer declaration''
                 else
                   ret (decorate indexerModifiers indexerAttributes
                     (stmt_node (IndexerDeclStmt elementType indexParameters getter setter)))))))))))))"

section \<open>Classes, structs and interfaces\<close>

definition is_pointer_or_array :: "expr \<Rightarrow> bool" where
  "is_pointer_or_array e =
     (case ekind e of PointerTypeExpr _ _ _ \<Rightarrow> True | ArrayTypeExpr _ \<Rightarrow> True | _ \<Rightarrow> False)"

text \<open>The parent is named by the texts of the tokens that its type was parsed from.\<close>

definition ParseParentTypeName :: "parsers \<Rightarrow> string parse" where
  "ParseParentTypeName r =
     bind (get p_pos) (\<lambda>begin.
     bind (ParseType r) (\<lambda>type.
       case type of
         None \<Rightarrow> fail_here ''Expected a parent type'' ''Invalid parent type''
       | Some e \<Rightarrow>
           if is_pointer_or_array e then
             fail_here ''A parent must be a named type'' ''Invalid parent type''
           else
             get (\<lambda>s. concat (map tok_value (take (p_pos s - begin) (drop begin (p_tokens s)))))))"

definition class_parents :: "parsers \<Rightarrow> string list parse" where
  "class_parents r =
     cond (at_val '':'')
       (seq (ConsumeVal T_OPERATOR '':'')
         (repeat (\<lambda>parents.
            bind (ParseParentTypeName r) (\<lambda>parent.
              cond (at_val '','')
                (seq (ConsumeVal T_DELIMITER '','') (continue (parents @ [parent])))
                (cond (at_val ''{'')
                  (break (parents @ [parent]))
                  (fail_here (''Expected '' @ quoted '','' @ '' or '' @ quoted ''{'' @ '' after parent class'')
                     (''Expected '' @ quoted '','' @ '' or '' @ quoted ''{'' @ '' after parent class''))))) []))
       (ret [])"

text \<open>The scope is left on success only.\<close>

definition ParseClassDecl :: "parsers \<Rightarrow> stmt parse" where
  "ParseClassDecl r =
     bind (get p_modifiers) (\<lambda>modifiers.
     bind (get p_attributes) (\<lambda>attributes.
     seq (ConsumeVal T_KEYWORD ''class'')
     (bind (Consume T_IDENTIFIER) (\<lambda>identifier.
      bind (ParseTemplateParameters True) (\<lambda>(templateParams, templateConstraints).
      bind (class_parents r) (\<lambda>parents.
      seq (EnterScope S_Class (tok_value identifier))
      (bind (ParseCompoundStatement r) (\<lambda>body.
      seq ExitScope
        (ret (decorate modifiers attributes
          (stmt_node (ClassDeclStmt (tok_value identifier) parents templateParams
             templateConstraints body))))))))))))"

definition ParseStructDecl :: "parsers \<Rightarrow> stmt parse" where
  "ParseStructDecl r =
     bind (get p_modifiers) (\<lambda>declarationModifiers.
     bind (get p_attributes) (\<lambda>declarationAttributes.
     seq (ConsumeVal T_KEYWORD ''struct'')
     (bind (Consume T_IDENTIFIER) (\<lambda>identifier.
      bind (ParseTemplateParameters True) (\<lambda>(templateParams, templateConstraints).
      seq (EnterScope S_Struct (tok_value identifier))
      (bind (on_exception (ParseCompoundStatement r) pop_scope) (\<lambda>body.
      seq ExitScope
        (ret (decorate declarationModifiers declarationAttributes
          (stmt_node (StructDeclStmt (tok_value identifier) templateParams templateConstraints
             (compound_statements body))))))))))))"

definition interface_parents :: "parsers \<Rightarrow> string list parse" where
  "interface_parents r =
     cond (at_val '':'')
       (seq (ConsumeVal T_OPERATOR '':'')
         (repeat (\<lambda>parents.
            bind (ParseParentTypeName r) (\<lambda>parent.
              cond (at_val '','')
                (seq (ConsumeVal T_DELIMITER '','') (continue (parents @ [parent])))
                (break (parents @ [parent])))) []))
       (ret [])"

definition interface_body :: "parsers \<Rightarrow> stmt option parse" where
  "interface_body r =
     cond (at T_DELIMITER '';'')
       (seq (ConsumeVal T_DELIMITER '';'') (ret None))
       (cond (at T_BRACKET ''{'')
         (bind (ParseCompoundStatement r) (\<lambda>b. ret (Some b)))
         (fail_here (''Expected '' @ quoted '';'' @ '' or a default interface method body'')
            ''Invalid interface method declaration''))"

definition interface_method :: "parsers \<Rightarrow> stmt parse" where
  "interface_method r =
     bind (get p_modifiers) (\<lambda>modifiers0.
     bind (get p_attributes) (\<lambda>methodAttributes.
     bind (ParseType r) (\<lambda>returnType.
     bind (Consume T_IDENTIFIER) (\<lambda>methodName.
     bind (ParseParameters r) (\<lambda>parameters.
     bind (trailing_const modifiers0) (\<lambda>methodModifiers.
     bind (interface_body r) (\<lambda>body.
       ret (decorate methodModifiers methodAttributes
         (stmt_node (FunctionDeclStmt (plain_function methodName) returnType parameters body))))))))))"

text \<open>The members read so far: methods, properties, indexers and static fields.\<close>

type_synonym interface_acc = "stmt list \<times> stmt list \<times> stmt list \<times> stmt list"

definition interface_member :: "parsers \<Rightarrow> interface_acc \<Rightarrow> interface_acc parse" where
  "interface_member r = (\<lambda>(methods, properties, indexers, staticFields).
     seq ParseAttributes
     (seq ParseModifiers
     (cond LooksLikeIndexerDeclaration
       (bind (ParseIndexerDeclaration r) (\<lambda>d. ret (methods, properties, indexers @ [d], staticFields)))
       (cond LooksLikePropertyDeclaration
         (bind (ParsePropertyDeclaration r) (\<lambda>d. ret (methods, properties @ [d], indexers, staticFields)))
         (cond (\<lambda>s. has_modifier ''static'' (p_modifiers s) \<and> \<not> LooksLikeFunctionDeclaration s)
           (bind (ParseVarDeclaration r) (\<lambda>d. ret (methods, properties, indexers, staticFields @ [d])))
           (cond (\<lambda>s. \<not> LooksLikeFunctionDeclaration s)
             (fail_here ''Interfaces may only contain methods, properties, indexers, and static fields''
                ''Invalid interface member'')
             (bind (interface_method r) (\<lambda>d. ret (methods @ [d], properties, indexers, staticFields)))))))))"

definition interface_members :: "parsers \<Rightarrow> interface_acc parse" where
  "interface_members r =
     bind (repeat (\<lambda>acc.
             cond (\<lambda>s. at_end s \<or> at T_BRACKET ''}'' s) (break acc)
               (bind (interface_member r acc) continue)) ([], [], [], []))
       (\<lambda>acc.
         cond at_end
           (report_throw None (''Unexpected end of file; expected '' @ quoted ''}'')
              ''Unterminated interface declaration'')
           (seq (ConsumeVal T_BRACKET ''}'') (ret acc)))"

definition ParseInterfaceDecl :: "parsers \<Rightarrow> stmt parse" where
  "ParseInterfaceDecl r =
     bind (get p_modifiers) (\<lambda>declarationModifiers.
     bind (get p_attributes) (\<lambda>declarationAttributes.
     seq (ConsumeVal T_KEYWORD ''interface'')
     (bind (Consume T_IDENTIFIER) (\<lambda>identifier.
      bind (ParseTemplateParameters False) (\<lambda>(templateParams, _).
      bind (interface_parents r) (\<lambda>parents.
      seq (ConsumeVal T_BRACKET ''{'')
      (seq (EnterScope S_Interface (tok_value identifier))
      (bind (on_exception (interface_members r) pop_scope) (\<lambda>(methods, properties, indexers, staticFields).
      seq ExitScope
        (ret (decorate declarationModifiers declarationAttributes
          (stmt_node (InterfaceDeclStmt (tok_value identifier) templateParams parents methods
             properties indexers staticFields)))))))))))))"

section \<open>Enumerations and groups\<close>

text \<open>
  \<open>std::stoull\<close> of the literal, checked against the limit of the sign; the conversion to
  \<open>long long\<close> goes through the unsigned value. \<open>None\<close> is a value that no integer can hold.
\<close>

unbundle bit_operations_syntax

definition enum_value :: "bool \<Rightarrow> string \<Rightarrow> int option" where
  "enum_value negative literal =
     (case stoull 10 literal of
        Inl e \<Rightarrow> None
      | Inr (magnitude, consumed) \<Rightarrow>
          if magnitude > (if negative then 9223372036854775808 else 9223372036854775807) then None
          else Some (if negative then sint (NOT (word_of_nat magnitude :: u64) + 1)
                     else sint (word_of_nat magnitude :: u64)))"

definition enum_sign :: "bool parse" where
  "enum_sign =
     bind CurrentDeref (\<lambda>t.
       if tok_value t = ''-'' \<or> tok_value t = ''+'' then
         seq (Consume T_OPERATOR) (ret (tok_value t = ''-''))
       else ret False)"

definition enum_initialiser :: "string \<Rightarrow> (bool \<times> int) parse" where
  "enum_initialiser name =
     bind CurrentDeref (\<lambda>t.
       if \<not> (tok_value t = ''='' \<and> tok_type t = T_OPERATOR) then ret (False, 0)
       else
         seq (ConsumeVal T_OPERATOR ''='')
         (bind enum_sign (\<lambda>negative.
          bind CurrentToken (\<lambda>number.
            if \<not> is_type T_NUMBER number \<or>
               IsFloatingLiteral (case number of None \<Rightarrow> [] | Some n \<Rightarrow> tok_value n) then
              report_throw number (''Enum member '' @ quoted name @ '' must be given an integer, but found '' @
                  quoted (case number of None \<Rightarrow> ''end of file'' | Some n \<Rightarrow> tok_value n))
                ''Enum member must be given an integer''
            else
              bind (Consume T_NUMBER) (\<lambda>n.
                case enum_value negative (tok_value n) of
                  Some v \<Rightarrow> ret (True, v)
                | None \<Rightarrow>
                    report_throw number (''Enum member '' @ quoted name @ '' is given '' @
                        (if negative then ''-'' else []) @ tok_value n @ '', which no integer can hold'')
                      ''Enum member value is out of range'')))))"

definition enum_comma :: "bool \<Rightarrow> unit parse" where
  "enum_comma expectComma =
     (if expectComma then
        bind CurrentDeref (\<lambda>t.
          if tok_value t \<noteq> '','' then
            report_throw (Some t)
              (''Expected '' @ quoted '','' @ '' between enum members, but found '' @ quoted (tok_value t))
              (''Expected '' @ quoted '','' @ '' between enum members, but found '' @ [single_quote])
          else seq (ConsumeVal T_DELIMITER '','') (ret ()))
      else ret ())"

definition enum_members :: "enum_member list parse" where
  "enum_members =
     repeat (\<lambda>members.
       bind CurrentDeref (\<lambda>t.
         if tok_value t = ''}'' then break members
         else
           seq (enum_comma (members \<noteq> []))
           (bind (Consume T_IDENTIFIER) (\<lambda>member.
            bind (get p_file) (\<lambda>sourceFile.
            bind (enum_initialiser (tok_value member)) (\<lambda>(hasValue, v).
              continue (members @
                [\<lparr>em_name = tok_value member, em_hasValue = hasValue, em_value = v,
                  em_file = sourceFile, em_line = tok_line member, em_column = tok_column member\<rparr>]))))))) []"

definition ParseEnumDecl :: "stmt parse" where
  "ParseEnumDecl =
     bind (get p_modifiers) (\<lambda>modifiers.
     bind (get p_attributes) (\<lambda>attributes.
     seq (ConsumeVal T_KEYWORD ''enum'')
     (bind (Consume T_IDENTIFIER) (\<lambda>name.
      seq (ConsumeVal T_BRACKET ''{'')
      (bind enum_members (\<lambda>members.
       seq (ConsumeVal T_BRACKET ''}'')
         (ret (decorate modifiers attributes (stmt_node (EnumDeclStmt (tok_value name) members))))))))))"

definition group_members :: "parsers \<Rightarrow> (stmt list \<times> stmt list) parse" where
  "group_members r =
     repeat (\<lambda>(enums, groups).
       bind CurrentDeref (\<lambda>next.
         if tok_value next = ''}'' then break (enums, groups)
         else if tok_type next = T_KEYWORD then
           if tok_value next = ''enum'' then
             bind ParseEnumDecl (\<lambda>e. continue (enums @ [e], groups))
           else if tok_value next = ''group'' then
             bind (r_group r) (\<lambda>g. continue (enums, groups @ [g]))
           else
             report_throw (Some next)
               (''Unexpected keyword '' @ quoted (tok_value next) @ '' in group declaration'')
               (''Unexpected keyword '' @ [single_quote])
         else
           report_throw (Some next)
             (''Expected '' @ quoted ''enum'' @ '' or '' @ quoted ''group'' @ '', but found '' @
                quoted (tok_value next))
             (''Expected '' @ quoted ''enum'' @ '' or '' @ quoted ''group'' @ '', but found '' @ [single_quote])))
       ([], [])"

definition ParseGroupDecl :: "parsers \<Rightarrow> stmt parse" where
  "ParseGroupDecl r =
     bind (get p_modifiers) (\<lambda>modifiers.
     bind (get p_attributes) (\<lambda>attributes.
     seq (ConsumeVal T_KEYWORD ''group'')
     (bind (Consume T_IDENTIFIER) (\<lambda>name.
      seq (ConsumeVal T_BRACKET ''{'')
      (bind (group_members r) (\<lambda>(enums, groups).
       seq (ConsumeVal T_BRACKET ''}'')
         (ret (decorate modifiers attributes
           (stmt_node (GroupDeclStmt (tok_value name) enums groups))))))))))"

section \<open>Aliases, imports and namespaces\<close>

definition ParseTypeAlias :: "parsers \<Rightarrow> stmt parse" where
  "ParseTypeAlias r =
     seq (ConsumeVal T_KEYWORD ''using'')
     (bind (Consume T_IDENTIFIER) (\<lambda>name.
      seq (ConsumeVal T_OPERATOR ''='')
      (bind (ParseType r) (\<lambda>target.
      seq (ConsumeVal T_DELIMITER '';'')
        (with_current (stmt_node (TypeAliasStmt (tok_value name) target)))))))"

definition ParseImport :: "stmt parse" where
  "ParseImport =
     bind (get p_attributes) (\<lambda>declarationAttributes.
     seq (ConsumeVal T_KEYWORD ''import'')
     (bind (RequireCurrent ''an import target'') (\<lambda>target.
      bind (if tok_type target = T_STRING then
              bind (unquote (tok_value target)) (\<lambda>v. seq (Consume T_STRING) (ret (v, True)))
            else bind ParseQualifiedName (\<lambda>v. ret (v, False))) (\<lambda>(v, isFile).
      seq (ConsumeVal T_DELIMITER '';'')
        (ret (decorate [] declarationAttributes (stmt_node (ImportStmt v isFile))))))))"

definition ParseNamespace :: "parsers \<Rightarrow> stmt parse" where
  "ParseNamespace r =
     bind (get p_attributes) (\<lambda>declarationAttributes.
     seq (ConsumeVal T_KEYWORD ''namespace'')
     (bind ParseQualifiedName (\<lambda>name.
      bind (ParseCompoundStatement r) (\<lambda>body.
        ret (decorate [] declarationAttributes (stmt_node (NamespaceDeclStmt name body)))))))"

section \<open>Statements that start with an identifier\<close>

definition in_structure :: "pstate \<Rightarrow> bool" where
  "in_structure s \<longleftrightarrow> GetCurrentScopeType s = S_Class \<or> GetCurrentScopeType s = S_Struct"

definition ParseIdentifier :: "parsers \<Rightarrow> stmt parse" where
  "ParseIdentifier r =
     bind CurrentDeref (\<lambda>token.
       if tok_type token = T_IDENTIFIER then
         cond (\<lambda>s. in_structure s \<and> is_val ''('' (peek 1 s) \<and> tok_value token = GetCurrentScopeName s)
           (ParseConstructor r)
           (bind (ParsePrimaryExpr r) (\<lambda>expr0.
            bind (cond at_assignment (ParseAssignmentExpr r expr0) (ret expr0)) (\<lambda>expr.
            seq (ConsumeVal T_DELIMITER '';'')
              (with_current (stmt_node (SingleStatement expr))))))
       else report_throw (Some token) ''Expected identifier token'' ''Expected identifier token'')"

text \<open>
  The look-ahead for a declaration: the token that follows the type, past its \<open>[]\<close> suffixes. The
  loop reads the token at the index it has reached, also when that is the end of the vector.
\<close>

function array_suffix_candidate :: "token list \<Rightarrow> nat \<Rightarrow> bool \<Rightarrow> (nat \<times> bool) option" where
  "array_suffix_candidate tokens candidate hasArraySuffix =
     (if candidate \<ge> length tokens then None
      else if is_tok T_BRACKET ''['' (tok_at tokens candidate) \<and>
              is_tok T_BRACKET '']'' (tok_at tokens (candidate + 1))
      then array_suffix_candidate tokens (candidate + 2) True
      else Some (candidate, hasArraySuffix))"
  by pat_completeness auto
termination
  by (relation "measure (\<lambda>(tokens, candidate, _). length tokens - candidate)") auto

declare array_suffix_candidate.simps [simp del]

definition isDeclaratorPrefix :: "token option \<Rightarrow> bool" where
  "isDeclaratorPrefix t \<longleftrightarrow> is_tok T_OPERATOR ''*'' t \<or> is_tok T_OPERATOR ''&'' t"

datatype identifier_statement = Variable_declaration | Instance_declaration | Identifier_statement

text \<open>What the tokens from the current one announce; \<open>None\<close> is a read beyond the tokens.\<close>

definition classify_identifier :: "pstate \<Rightarrow> identifier_statement option" where
  "classify_identifier s =
     (let tokens = p_tokens s in
      if is_tok T_IDENTIFIER ''task'' (current s) \<and> is_val ''<'' (peek 1 s) then Some Variable_declaration
      else if is_tok T_IDENTIFIER ''sub'' (current s) \<and> starts_type (peek 1 s) then Some Variable_declaration
      else
        case PeekTokenAfterIdentifiers s of
          None \<Rightarrow> Some Identifier_statement
        | Some afterIdentifiers \<Rightarrow>
            let opens = is_val ''<'' (tok_at tokens afterIdentifiers);
                afterType =
                  (if opens then
                     (case IsTemplateArgumentList tokens afterIdentifiers of
                        Some close \<Rightarrow> if close + 1 < length tokens then Some (close + 1) else None
                      | None \<Rightarrow> Some afterIdentifiers)
                   else Some afterIdentifiers)
            in case afterType of
                 None \<Rightarrow> Some Identifier_statement
               | Some start \<Rightarrow>
                   (case array_suffix_candidate tokens start False of
                      None \<Rightarrow> None
                    | Some (candidate, hasArraySuffix) \<Rightarrow>
                        let c = tok_at tokens candidate in
                        if is_type T_IDENTIFIER c \<or> isDeclaratorPrefix c then
                          let sizedArrayDeclarator =
                                (is_type T_IDENTIFIER c \<and> is_tok T_BRACKET ''['' (tok_at tokens (candidate + 1)))
                          in if hasArraySuffix \<or> sizedArrayDeclarator \<or> isDeclaratorPrefix c \<or> opens
                             then Some Variable_declaration else Some Instance_declaration
                        else Some Identifier_statement))"

definition identifier_statement :: "parsers \<Rightarrow> stmt parse" where
  "identifier_statement r =
     bind (get classify_identifier) (\<lambda>what.
       case what of
         None \<Rightarrow> throw Out_of_bounds
       | Some Variable_declaration \<Rightarrow> ParseVarDeclaration r
       | Some Instance_declaration \<Rightarrow> ParseInstanceDeclStmt r
       | Some Identifier_statement \<Rightarrow> ParseIdentifier r)"

end
