(* ===== verification/Parser.thy ===== *)
theory Parser
  imports Parser_Decl
begin

text \<open>
  \<open>ParseStatement\<close>, the knot that ties the parse functions together, and the entry points
  \<open>Tokenize\<close> and \<open>ParseCode\<close> of \<^verbatim>\<open>Absolute-Parser/src/parser/parser.cpp\<close>.

  \<open>parsers reg n\<close> are the parse functions with \<open>n\<close> levels of recursion; \<open>parse_fuel\<close> is a bound
  that depends on the tokens, and the theory \<^verbatim>\<open>Parser_Termination\<close> shows that it is enough.
\<close>

section \<open>Statements\<close>

text \<open>\<open>Hash\<close>: the switch over keywords compares these 32-bit values, not the texts.\<close>

unbundle bit_operations_syntax

fun Hash :: "string \<Rightarrow> u32" where
  "Hash [] = 5381"
| "Hash (c # cs) = (Hash cs * 33) XOR scast (word_of_nat (byte_of c) :: u8)"

definition try_opaque :: "parsers \<Rightarrow> stmt option parse" where
  "try_opaque r s =
     (case fst (TryParseOpaquePluginStatement (r_registry r) (p_tokens s) (p_pos s)) of
        Inl e \<Rightarrow> throw (Runtime e) s
      | Inr None \<Rightarrow> (Inr None, s)
      | Inr (Some (st, position)) \<Rightarrow> (Inr (Some st), s\<lparr>p_pos := position\<rparr>))"

text \<open>What attributes may precede.\<close>

definition attribute_target :: "token \<Rightarrow> bool" where
  "attribute_target t \<longleftrightarrow> tok_type t = T_IDENTIFIER \<or>
     (tok_type t = T_KEYWORD \<and>
       (IsPrimitiveType (tok_value t) \<or>
        tok_value t \<in> {''raw'', ''weak'', ''class'', ''struct'', ''interface'', ''enum'', ''group'',
          ''extern'', ''export'', ''namespace'', ''import'', ''using''}))"

definition some_stmt :: "stmt parse \<Rightarrow> stmt option parse" where
  "some_stmt m = bind m (\<lambda>st. ret (Some st))"

definition primitive_statement :: "parsers \<Rightarrow> stmt parse" where
  "primitive_statement r =
     cond (\<lambda>s. is_type T_IDENTIFIER (peek 1 s) \<and> is_val ''('' (peek 2 s))
       (ParseFunctionDeclaration r) (ParseVarDeclaration r)"

definition expression_statement :: "parsers \<Rightarrow> stmt parse" where
  "expression_statement r =
     bind (ParseExpression r) (\<lambda>expression.
     seq (ConsumeVal T_DELIMITER '';'') (ret (stmt_node (SingleStatement expression))))"

definition jump_statement :: "string \<Rightarrow> (expr, stmt) stmt_kind \<Rightarrow> stmt parse" where
  "jump_statement kw k =
     seq (ConsumeVal T_KEYWORD kw) (seq (ConsumeVal T_DELIMITER '';'') (ret (stmt_node k)))"

definition hashes :: "string \<Rightarrow> string list \<Rightarrow> bool" where
  "hashes v labels \<longleftrightarrow> list_ex (\<lambda>l. Hash v = Hash l) labels"

definition keyword_statement :: "parsers \<Rightarrow> string \<Rightarrow> stmt option parse" where
  "keyword_statement r v =
     (if hashes v [''int8'', ''int16'', ''int32'', ''int64'', ''uint8'', ''uint16'', ''uint32'', ''uint64'',
                   ''float'', ''double'', ''string'', ''char'']
      then some_stmt (primitive_statement r)
      else if hashes v [''new'', ''delete''] then
        some_stmt (bind (ParsePrimaryExpr r) (\<lambda>e. ret (stmt_node (SingleStatement e))))
      else if hashes v [''await'', ''spawn''] then some_stmt (expression_statement r)
      else if hashes v [''void''] then some_stmt (ParseFunctionDeclaration r)
      else if hashes v [''return''] then ParseReturnStmt r
      else if hashes v [''continue''] then some_stmt (jump_statement ''continue'' ContinueStmt)
      else if hashes v [''break''] then some_stmt (jump_statement ''break'' BreakStmt)
      else if hashes v [''if''] then ParseIfStmt r
      else if hashes v [''switch''] then some_stmt (ParseSwitchStmt r False)
      else if hashes v [''match''] then some_stmt (ParseSwitchStmt r True)
      else if hashes v [''throw''] then some_stmt (ParseThrowStmt r)
      else if hashes v [''try''] then some_stmt (ParseTryStmt r)
      else if hashes v [''defer''] then some_stmt (ParseDeferStmt r)
      else if hashes v [''for''] then ParseForStmt r
      else if hashes v [''while''] then some_stmt (ParseWhileStmt r)
      else if hashes v [''foreach''] then some_stmt (ParseForEachStmt r)
      else if hashes v [''do''] then some_stmt (ParseDoWhileStmt r)
      else if hashes v [''class''] then some_stmt (ParseClassDecl r)
      else if hashes v [''struct''] then some_stmt (ParseStructDecl r)
      else if hashes v [''interface''] then some_stmt (ParseInterfaceDecl r)
      else if hashes v [''enum''] then some_stmt ParseEnumDecl
      else if hashes v [''group''] then some_stmt (ParseGroupDecl r)
      else if hashes v [''import''] then some_stmt ParseImport
      else if hashes v [''namespace''] then some_stmt (ParseNamespace r)
      else if hashes v [''using''] then some_stmt (ParseTypeAlias r)
      else if hashes v [''extern''] then some_stmt (ParseExternalFunctionDeclaration r)
      else if hashes v [''export''] then some_stmt (ParseExportFunctionDeclaration r)
      else if hashes v [''raw'', ''weak''] then some_stmt (ParseVarDeclaration r)
      else ret None)"

definition other_statement :: "parsers \<Rightarrow> token \<Rightarrow> stmt option parse" where
  "other_statement r t =
     (case tok_type t of
        T_KEYWORD \<Rightarrow> keyword_statement r (tok_value t)
      | T_IDENTIFIER \<Rightarrow> some_stmt (identifier_statement r)
      | T_BRACKET \<Rightarrow>
          if tok_value t = ''{'' then some_stmt (ParseCompoundStatement r) else ret None
      | T_DELIMITER \<Rightarrow>
          if IsEndOfStatement t then seq (Consume T_DELIMITER) (ret None) else ret None
      | T_OPERATOR \<Rightarrow> some_stmt (expression_statement r)
      | _ \<Rightarrow> ret None)"

definition declaration_or_statement :: "parsers \<Rightarrow> token \<Rightarrow> stmt option parse" where
  "declaration_or_statement r t =
     cond (\<lambda>s. p_attributes s \<noteq> [] \<and> \<not> attribute_target t)
       (report_throw (Some t) ''Attributes may only precede declarations or opaque plugin blocks''
          ''Invalid attribute target'')
       (cond LooksLikeFunctionDeclaration (some_stmt (ParseFunctionDeclaration r))
       (cond LooksLikeIndexerDeclaration (some_stmt (ParseIndexerDeclaration r))
       (cond LooksLikePropertyDeclaration (some_stmt (ParsePropertyDeclaration r))
         (if tok_type t = T_KEYWORD \<and> IsPrimitiveType (tok_value t)
          then some_stmt (ParseVarDeclaration r)
          else other_statement r t))))"

definition ParseStatementImpl :: "parsers \<Rightarrow> stmt option parse" where
  "ParseStatementImpl r =
     guarded
     (seq ParseAttributes
     (seq ParseModifiers
     (bind CurrentToken (\<lambda>token.
       case token of
         None \<Rightarrow> ret None
       | Some t \<Rightarrow>
           bind (try_opaque r) (\<lambda>opaque.
             case opaque of
               Some st \<Rightarrow> some_stmt (with_current st)
             | None \<Rightarrow> declaration_or_statement r t)))))"

definition ParseStatement :: "parsers \<Rightarrow> stmt option parse" where
  "ParseStatement r =
     bind CurrentToken (\<lambda>start. bind (ParseStatementImpl r) (\<lambda>statement. locate_stmt start statement))"

section \<open>The knot\<close>

definition unfold_parsers :: "parsers \<Rightarrow> parsers" where
  "unfold_parsers r =
     \<lparr>r_expr = ParseExpression r, r_primary = ParsePrimaryExpr r, r_prefix = ParsePrefixUnaryExpr r,
      r_binary = ParseBinaryExpr r, r_type = ParseType r, r_values = ParseArrayValues r,
      r_stmt = ParseStatement r, r_group = ParseGroupDecl r, r_registry = r_registry r\<rparr>"

definition no_parsers :: "registry \<Rightarrow> parsers" where
  "no_parsers reg =
     \<lparr>r_expr = throw Out_of_fuel, r_primary = throw Out_of_fuel, r_prefix = throw Out_of_fuel,
      r_binary = (\<lambda>_ _. throw Out_of_fuel), r_type = throw Out_of_fuel, r_values = throw Out_of_fuel,
      r_stmt = throw Out_of_fuel, r_group = throw Out_of_fuel, r_registry = reg\<rparr>"

primrec parsers :: "registry \<Rightarrow> nat \<Rightarrow> parsers" where
  "parsers reg 0 = no_parsers reg"
| "parsers reg (Suc n) = unfold_parsers (parsers reg n)"

section \<open>Programs\<close>

text \<open>
  The weight of a token bounds the tokens that can come out of it: one, or the characters of a
  string literal, whose embedded expressions are lexed and parsed in their turn.
\<close>

definition token_weight :: "token \<Rightarrow> nat" where
  "token_weight t = (if tok_type t = T_STRING then max 1 (length (tok_value t)) else 1)"

definition tokens_weight :: "token list \<Rightarrow> nat" where
  "tokens_weight ts = sum_list (map token_weight ts)"

definition parse_fuel :: "token list \<Rightarrow> nat" where
  "parse_fuel ts = 2 * tokens_weight ts + 2"

definition Parse :: "parsers \<Rightarrow> stmt list parse" where
  "Parse r =
     statement_list r at_end ''Unexpected token at the start of a statement'' ''Parser made no progress''"

definition Tokenize :: "registry \<Rightarrow> string \<Rightarrow> string + token list" where
  "Tokenize reg code =
     (case lexer (IsSyntaxPluginKeyword reg) code of
        Inl e \<Rightarrow> Inl e
      | Inr tokens \<Rightarrow> ExpandSyntaxPlugins reg tokens)"

text \<open>The scope stack and the diagnostics are those of the process.\<close>

definition ParseCode ::
  "registry \<Rightarrow> (ScopeType \<times> string) list \<Rightarrow> token list \<Rightarrow> string \<Rightarrow> (parse_error + stmt list) \<times> pstate" where
  "ParseCode reg scopes tokens sourceFile =
     Parse (parsers reg (parse_fuel tokens)) (new_parser tokens sourceFile scopes [])"

definition Compile_front :: "registry \<Rightarrow> string \<Rightarrow> parse_error + stmt list" where
  "Compile_front reg code =
     (case Tokenize reg code of
        Inl e \<Rightarrow> Inl (Runtime e)
      | Inr tokens \<Rightarrow> fst (ParseCode reg [] tokens []))"

end
