(* ===== verification/Parser_Progress.thy ===== *)
theory Parser_Progress
  imports Parser
begin

text \<open>
  What every parse function does to the tokens ahead of it: a run never moves back, and the runs
  that are named consume at least one token. The predicate \<open>runs b F m s\<close> says this of the run
  of \<open>m\<close> from \<open>s\<close>, and that the run does not give up when less than \<open>b\<close> is left to parse. It
  has one rule for each of the operations the parse functions are made of, so that its proof for
  a parse function is a rewriting of the function's body; this theory holds these rules and the
  functions that make no recursive call, theory \<^verbatim>\<open>Parser_Termination\<close> the others.
\<close>

section \<open>What is left to parse\<close>

definition left :: "pstate \<Rightarrow> nat" where
  "left s = length (p_tokens s) - p_pos s"

definition weight :: "pstate \<Rightarrow> nat" where
  "weight s = tokens_weight (drop (p_pos s) (p_tokens s))"

text \<open>At least one token less, and: not more.\<close>

definition fewer :: "pstate \<Rightarrow> pstate \<Rightarrow> bool" where
  "fewer s s' \<longleftrightarrow> left s' < left s \<and> weight s' < weight s"

definition not_more :: "pstate \<Rightarrow> pstate \<Rightarrow> bool" where
  "not_more s s' \<longleftrightarrow>
     fewer s s' \<or> (p_pos s' = p_pos s \<and> left s' = left s \<and> weight s' \<le> weight s)"

lemma left_update [simp]:
  "left (s\<lparr>p_log := l\<rparr>) = left s" "left (s\<lparr>p_depth := d\<rparr>) = left s"
  "left (s\<lparr>p_scopes := c\<rparr>) = left s" "left (s\<lparr>p_attributes := a\<rparr>) = left s"
  "left (s\<lparr>p_modifiers := ms\<rparr>) = left s"
  by (simp_all add: left_def)

lemma weight_update [simp]:
  "weight (s\<lparr>p_log := l\<rparr>) = weight s" "weight (s\<lparr>p_depth := d\<rparr>) = weight s"
  "weight (s\<lparr>p_scopes := c\<rparr>) = weight s" "weight (s\<lparr>p_attributes := a\<rparr>) = weight s"
  "weight (s\<lparr>p_modifiers := ms\<rparr>) = weight s"
  by (simp_all add: weight_def)

lemma not_more_refl [simp]: "not_more s s"
  by (simp add: not_more_def)

lemma not_more_trans: "not_more s t \<Longrightarrow> not_more t u \<Longrightarrow> not_more s u"
  by (auto simp: not_more_def fewer_def)

lemma fewer_trans: "fewer s t \<Longrightarrow> not_more t u \<Longrightarrow> fewer s u" "not_more s t \<Longrightarrow> fewer t u \<Longrightarrow> fewer s u"
  by (auto simp: not_more_def fewer_def)

lemma fewer_imp: "fewer s t \<Longrightarrow> not_more s t"
  by (simp add: not_more_def)

lemma fewer_irrefl [simp]: "\<not> fewer s s"
  by (simp add: fewer_def)

lemma fewer_depth [simp]:
  "fewer (s\<lparr>p_depth := d\<rparr>) s' = fewer s s'" "fewer s (s'\<lparr>p_depth := d\<rparr>) = fewer s s'"
  by (simp_all add: fewer_def)

lemma not_more_depth [simp]:
  "not_more (s\<lparr>p_depth := d\<rparr>) s' = not_more s s'" "not_more s (s'\<lparr>p_depth := d\<rparr>) = not_more s s'"
  by (simp_all add: not_more_def)

lemma not_more_other [simp]:
  "not_more s (s\<lparr>p_log := l\<rparr>)" "not_more s (s\<lparr>p_scopes := c\<rparr>)"
  "not_more s (s\<lparr>p_attributes := a\<rparr>)" "not_more s (s\<lparr>p_modifiers := ms\<rparr>)"
  by (simp_all add: not_more_def)

lemma weight_mono: "not_more s s' \<Longrightarrow> weight s' \<le> weight s"
  by (auto simp: not_more_def fewer_def)

lemma token_weight_pos: "1 \<le> token_weight t"
  by (simp add: token_weight_def)

lemma fewer_step:
  assumes "p_pos s < length (p_tokens s)"
  shows "fewer s (s\<lparr>p_pos := Suc (p_pos s)\<rparr>)"
proof -
  have "drop (p_pos s) (p_tokens s) = p_tokens s ! p_pos s # drop (Suc (p_pos s)) (p_tokens s)"
    using Cons_nth_drop_Suc [OF assms] by simp
  then show ?thesis
    using assms token_weight_pos [of "p_tokens s ! p_pos s"]
    by (simp add: fewer_def left_def weight_def tokens_weight_def)
qed

lemma fewer_advance:
  assumes "0 < k" and "p_pos s + k \<le> length (p_tokens s)"
  shows "fewer s (s\<lparr>p_pos := p_pos s + k\<rparr>)"
proof -
  let ?ts = "drop (p_pos s) (p_tokens s)"
  have "?ts = take k ?ts @ drop (p_pos s + k) (p_tokens s)"
    by (metis append_take_drop_id drop_drop add.commute)
  then have "tokens_weight ?ts =
      tokens_weight (take k ?ts) + tokens_weight (drop (p_pos s + k) (p_tokens s))"
    by (metis map_append sum_list.append tokens_weight_def)
  moreover have "0 < tokens_weight (take k ?ts)"
    using assms token_weight_pos [of "hd ?ts"]
    by (cases ?ts; cases k) (auto simp: tokens_weight_def)
  ultimately show ?thesis
    using assms by (simp add: fewer_def left_def weight_def)
qed

text \<open>Changing a token in place so that its weight does not grow.\<close>

lemma tokens_weight_update:
  "i < length ts \<Longrightarrow> token_weight (f (ts ! i)) \<le> token_weight (ts ! i) \<Longrightarrow>
     tokens_weight (drop k (ts[i := f (ts ! i)])) \<le> tokens_weight (drop k ts)"
proof (induction ts arbitrary: i k)
  case (Cons t ts)
  show ?case
  proof (cases i)
    case 0
    with Cons.prems show ?thesis by (cases k) (simp_all add: tokens_weight_def)
  next
    case (Suc j)
    with Cons.prems Cons.IH [of j 0] Cons.IH [of j "k - 1"] show ?thesis
      by (cases k) (simp_all add: tokens_weight_def)
  qed
qed simp

lemma not_more_set_token [simp]:
  assumes "\<And>t. token_weight (f t) \<le> token_weight t"
  shows "not_more s (set_token i f s)"
proof (cases "i < length (p_tokens s)")
  case True
  from tokens_weight_update [OF True, of f "p_pos s"] assms show ?thesis
    by (simp add: not_more_def set_token_def left_def weight_def)
next
  case False
  then show ?thesis by (simp add: set_token_def not_more_def left_def weight_def list_update_beyond)
qed

lemma token_weight_tl [simp]:
  "token_weight (t\<lparr>tok_value := tl (tok_value t), tok_column := c\<rparr>) \<le> token_weight t"
  by (auto simp: token_weight_def)

lemma token_weight_Nil [simp]: "token_weight (t\<lparr>tok_value := []\<rparr>) \<le> token_weight t"
  by (simp add: token_weight_def)

section \<open>Runs\<close>

definition runs :: "nat \<Rightarrow> ('a \<Rightarrow> bool) \<Rightarrow> 'a parse \<Rightarrow> pstate \<Rightarrow> bool" where
  "runs b F m s \<longleftrightarrow>
     (weight s < b \<longrightarrow> fst (m s) \<noteq> Inl Out_of_fuel) \<and>
     (\<forall>x s'. m s = (Inr x, s') \<longrightarrow> not_more s s' \<and> (F x \<longrightarrow> fewer s s'))"

lemma runs_mono: "runs b F m s \<Longrightarrow> b' \<le> b \<Longrightarrow> \<forall>x. G x \<longrightarrow> F x \<Longrightarrow> runs b' G m s"
  by (auto simp: runs_def)

lemma runs_ret [simp]: "runs b F (ret x) s \<longleftrightarrow> \<not> F x"
  by (simp add: runs_def ret_def)

lemma runs_continue [simp]: "runs b F (continue acc) s \<longleftrightarrow> \<not> F (Inl acc)"
  by (simp add: continue_def)

lemma runs_break [simp]: "runs b F (break x) s \<longleftrightarrow> \<not> F (Inr x)"
  by (simp add: break_def)

lemma runs_throw [simp]: "e \<noteq> Out_of_fuel \<Longrightarrow> runs b F (throw e) s"
  by (simp add: runs_def throw_def)

lemma runs_get [simp]: "runs b F (get f) s \<longleftrightarrow> \<not> F (f s)"
  by (auto simp: runs_def get_def)

lemma runs_modify [simp]: "runs b F (modify f) s \<longleftrightarrow> not_more s (f s) \<and> (F () \<longrightarrow> fewer s (f s))"
  by (simp add: runs_def modify_def)

text \<open>Only the progress is left to show when too much is left for the bound.\<close>

lemma runs_beyond: "\<not> weight s < b \<Longrightarrow> runs b F m s \<longleftrightarrow> runs 0 F m s"
  by (simp add: runs_def)

lemma bind_Inr:
  "bind m f s = (Inr y, s'') \<longleftrightarrow> (\<exists>x s'. m s = (Inr x, s') \<and> f x s' = (Inr y, s''))"
  by (auto simp: bind_def split: prod.splits sum.splits)

lemma bind_fuel:
  "fst (bind m f s) = Inl Out_of_fuel \<longleftrightarrow>
     fst (m s) = Inl Out_of_fuel \<or> (\<exists>x s'. m s = (Inr x, s') \<and> fst (f x s') = Inl Out_of_fuel)"
  by (auto simp: bind_def split: prod.splits sum.splits)

lemma runs_bind [simp]:
  assumes "runs b (\<lambda>_. False) m s" and "\<forall>x s'. runs b F (f x) s'"
  shows "runs b F (bind m f) s"
  unfolding runs_def
proof (intro conjI impI allI)
  assume w: "weight s < b"
  show "fst (bind m f s) \<noteq> Inl Out_of_fuel"
    using assms w unfolding bind_fuel runs_def by (meson le_less_trans weight_mono)
next
  fix y s'' assume "bind m f s = (Inr y, s'')"
  then obtain x s' where "m s = (Inr x, s')" "f x s' = (Inr y, s'')" by (auto simp: bind_Inr)
  with assms have *: "not_more s s'" "not_more s' s''" "F y \<longrightarrow> fewer s' s''"
    unfolding runs_def by blast+
  show "not_more s s''" by (rule not_more_trans [OF *(1,2)])
  show "fewer s s''" if "F y" using * that by (blast intro: fewer_trans)
qed

lemma runs_bind_strict [simp]:
  assumes "runs b (\<lambda>_. True) m s" and "\<forall>x s'. runs b (\<lambda>_. False) (f x) s'"
  shows "runs b F (bind m f) s"
  unfolding runs_def
proof (intro conjI impI allI)
  assume w: "weight s < b"
  show "fst (bind m f s) \<noteq> Inl Out_of_fuel"
    using assms w unfolding bind_fuel runs_def by (meson le_less_trans weight_mono)
next
  fix y s'' assume "bind m f s = (Inr y, s'')"
  then obtain x s' where "m s = (Inr x, s')" "f x s' = (Inr y, s'')" by (auto simp: bind_Inr)
  with assms have *: "fewer s s'" "not_more s' s''"
    unfolding runs_def by blast+
  show "fewer s s''" by (rule fewer_trans(1) [OF *])
  then show "not_more s s''" by (rule fewer_imp)
qed

text \<open>After a token was consumed less is left for the calls that follow.\<close>

lemma runs_bind_Suc [simp]:
  assumes "runs (Suc b) (\<lambda>_. True) m s" and "\<forall>x s'. runs b (\<lambda>_. False) (f x) s'"
  shows "runs (Suc b) F (bind m f) s"
  unfolding runs_def
proof (intro conjI impI allI)
  assume w: "weight s < Suc b"
  show "fst (bind m f s) \<noteq> Inl Out_of_fuel"
  proof
    assume "fst (bind m f s) = Inl Out_of_fuel"
    then obtain x s' where m: "m s = (Inr x, s')" and f: "fst (f x s') = Inl Out_of_fuel"
      using assms(1) w unfolding bind_fuel runs_def by blast
    from assms(1) m have "fewer s s'" unfolding runs_def by blast
    with w have "weight s' < b" by (simp add: fewer_def)
    with assms(2) f show False unfolding runs_def by blast
  qed
next
  fix y s'' assume "bind m f s = (Inr y, s'')"
  then obtain x s' where "m s = (Inr x, s')" "f x s' = (Inr y, s'')" by (auto simp: bind_Inr)
  with assms have *: "fewer s s'" "not_more s' s''"
    unfolding runs_def by blast+
  show "fewer s s''" by (rule fewer_trans(1) [OF *])
  then show "not_more s s''" by (rule fewer_imp)
qed

lemma runs_bind_option:
  assumes "runs b (\<lambda>x. x \<noteq> None) m s" and "\<forall>s'. runs b F k s'"
    and "\<forall>x s'. runs b (\<lambda>_. False) (f x) s'"
  shows "runs b F (bind m (\<lambda>x. case x of None \<Rightarrow> k | Some y \<Rightarrow> f y)) s"
proof -
  let ?g = "\<lambda>x. case x of None \<Rightarrow> k | Some y \<Rightarrow> f y"
  have weak: "runs b (\<lambda>_. False) m s" "\<forall>x s'. runs b (\<lambda>_. False) (?g x) s'"
    using assms by (auto intro: runs_mono split: option.split)
  have "runs b (\<lambda>_. False) (bind m ?g) s" by (rule runs_bind [OF weak])
  moreover have "fewer s s''" if run: "bind m ?g s = (Inr y, s'')" and y: "F y" for y s''
  proof -
    from run obtain x s' where m: "m s = (Inr x, s')" and g: "?g x s' = (Inr y, s'')"
      by (auto simp: bind_Inr)
    with assms(1) have m': "not_more s s'" "x \<noteq> None \<longrightarrow> fewer s s'" unfolding runs_def by blast+
    show ?thesis
    proof (cases x)
      case None
      with assms(2) g y have "fewer s' s''" unfolding runs_def by auto
      with m'(1) show ?thesis by (rule fewer_trans)
    next
      case (Some z)
      with assms(3) g have "not_more s' s''" unfolding runs_def by auto
      with m'(2) Some show ?thesis by (blast intro: fewer_trans)
    qed
  qed
  ultimately show ?thesis unfolding runs_def by blast
qed

lemma runs_seq [simp]: "runs b F (seq m k) s \<longleftrightarrow> runs b F (bind m (\<lambda>_. k)) s"
  by (simp add: seq_def)

lemma runs_bind_get [simp]: "runs b F (bind (get f) k) s \<longleftrightarrow> runs b F (k (f s)) s"
  by (simp add: runs_def bind_def get_def)

lemma runs_cond [simp]:
  "runs b F (cond q m k) s \<longleftrightarrow> (q s \<longrightarrow> runs b F m s) \<and> (\<not> q s \<longrightarrow> runs b F k s)"
  by (simp add: runs_def cond_def)

lemma runs_if [simp]:
  "runs b F (if q then m else k) s \<longleftrightarrow> (q \<longrightarrow> runs b F m s) \<and> (\<not> q \<longrightarrow> runs b F k s)"
  by simp

lemma runs_option [simp]:
  "runs b F (case x of None \<Rightarrow> m | Some y \<Rightarrow> f y) s \<longleftrightarrow>
     (x = None \<longrightarrow> runs b F m s) \<and> (\<forall>y. x = Some y \<longrightarrow> runs b F (f y) s)"
  by (cases x) simp_all

lemma runs_sum [simp]:
  "runs b F (case x of Inl y \<Rightarrow> g y | Inr y \<Rightarrow> f y) s \<longleftrightarrow>
     (\<forall>y. x = Inl y \<longrightarrow> runs b F (g y) s) \<and> (\<forall>y. x = Inr y \<longrightarrow> runs b F (f y) s)"
  by (cases x) simp_all

lemma runs_prod [simp]:
  "runs b F (case x of (y, z) \<Rightarrow> f y z) s \<longleftrightarrow> (\<forall>y z. x = (y, z) \<longrightarrow> runs b F (f y z) s)"
  by (cases x) simp

lemma runs_guarded [simp]:
  assumes "runs b F m (s\<lparr>p_depth := p_depth s + 1\<rparr>)"
  shows "runs b F (guarded m) s"
  using assms
  by (auto simp: runs_def guarded_def report_throw_def ReportSyntaxError_def seq_def bind_def
      modify_def throw_def split: prod.splits)

lemma runs_on_exception [simp]: "runs b F (on_exception m h) s \<longleftrightarrow> runs b F m s"
  by (auto simp: runs_def on_exception_def split: prod.splits sum.splits)

section \<open>Loops\<close>

lemma loop_runs:
  assumes "\<forall>acc s. runs b isl (body acc) s"
  shows "left s < n \<Longrightarrow> runs b (\<lambda>_. False) (loop n body acc) s"
proof (induction n arbitrary: acc s)
  case (Suc n)
  have fewer: "fewer s s'" if "body acc s = (Inr (Inl acc'), s')" for acc' s'
    using assms that unfolding runs_def by fastforce
  show ?case
    unfolding runs_def
  proof (intro conjI impI allI)
    assume w: "weight s < b"
    have "fst (loop n body acc' s') \<noteq> Inl Out_of_fuel"
      if "body acc s = (Inr (Inl acc'), s')" for acc' s'
      using fewer [OF that] Suc w by (auto simp: runs_def fewer_def)
    moreover have "fst (body acc s) \<noteq> Inl Out_of_fuel" using assms w unfolding runs_def by blast
    ultimately show "fst (loop (Suc n) body acc s) \<noteq> Inl Out_of_fuel"
      by (auto simp: bind_fuel ret_def split: sum.splits)
  next
    fix x s'' assume "loop (Suc n) body acc s = (Inr x, s'')"
    then obtain y s' where y: "body acc s = (Inr y, s')"
      and rest: "(case y of Inl acc' \<Rightarrow> loop n body acc' | Inr x \<Rightarrow> ret x) s' = (Inr x, s'')"
      by (auto simp: bind_Inr)
    have nm: "not_more s s'" using assms y unfolding runs_def by blast
    show "not_more s s''"
    proof (cases y)
      case (Inl acc')
      with y have "fewer s s'" using fewer by blast
      with Suc have "runs b (\<lambda>_. False) (loop n body acc') s'" by (simp add: fewer_def)
      with rest Inl have "not_more s' s''" unfolding runs_def by auto
      with nm show ?thesis by (rule not_more_trans)
    next
      case (Inr z)
      with rest nm show ?thesis by (simp add: ret_def)
    qed
  qed simp
qed simp

lemma runs_repeat [simp]:
  assumes "\<forall>acc s. runs b isl (body acc) s"
  shows "runs b (\<lambda>_. False) (repeat body acc) s"
  using loop_runs [OF assms, of s "Suc (left s)" acc] by (simp add: repeat_def left_def)

text \<open>A loop whose first round consumes a token.\<close>

lemma runs_repeat_once:
  assumes first: "runs b (\<lambda>_. True) (body acc) s" and all: "\<forall>acc s. runs b isl (body acc) s"
  shows "runs b F (repeat body acc) s"
proof -
  have "fewer s s''" if loop: "repeat body acc s = (Inr x, s'')" for x s''
  proof -
    from loop obtain y s' where y: "body acc s = (Inr y, s')"
      and rest: "(case y of Inl acc' \<Rightarrow> loop (left s) body acc' | Inr x \<Rightarrow> ret x) s' = (Inr x, s'')"
      by (auto simp: repeat_def bind_Inr get_def left_def [symmetric])
    from first y have fewer: "fewer s s'" unfolding runs_def by blast
    have "not_more s' s''"
    proof (cases y)
      case (Inl acc')
      from fewer have "runs b (\<lambda>_. False) (loop (left s) body acc') s'"
        by (intro loop_runs [OF all]) (simp add: fewer_def)
      with rest Inl show ?thesis unfolding runs_def by simp
    next
      case (Inr z)
      with rest show ?thesis by (simp add: ret_def)
    qed
    with fewer show ?thesis by (rule fewer_trans)
  qed
  moreover have "runs b (\<lambda>_. False) (repeat body acc) s" using all by simp
  ultimately show ?thesis unfolding runs_def by blast
qed

section \<open>The primitives\<close>

lemma runs_report_throw [simp]: "runs b F (report_throw t message what) s"
  by (simp add: runs_def report_throw_def ReportSyntaxError_def seq_def bind_def modify_def throw_def)

lemma runs_fail_here [simp]: "runs b F (fail_here message what) s"
  by (simp add: fail_here_def CurrentToken_def)

lemma runs_bind_CurrentToken [simp]:
  "runs b F (bind CurrentToken f) s \<longleftrightarrow> runs b F (f (current s)) s"
  by (simp add: CurrentToken_def)

lemma runs_bind_PeekToken [simp]:
  "runs b F (bind (PeekToken k) f) s \<longleftrightarrow> runs b F (f (peek k s)) s"
  by (simp add: PeekToken_def)

lemma runs_bind_deref [simp]:
  "runs b F (bind (deref x) f) s \<longleftrightarrow> (\<forall>t. x = Some t \<longrightarrow> runs b F (f t) s)"
  by (cases x) (simp_all add: deref_def runs_def bind_def ret_def throw_def)

lemma runs_bind_CurrentDeref [simp]:
  "runs b F (bind CurrentDeref f) s \<longleftrightarrow> (\<forall>t. current s = Some t \<longrightarrow> runs b F (f t) s)"
  by (cases "current s")
    (simp_all add: CurrentDeref_def CurrentToken_def get_def deref_def runs_def bind_def ret_def throw_def)

lemma runs_bind_RequireCurrent [simp]:
  "runs b F (bind (RequireCurrent e) f) s \<longleftrightarrow> (\<forall>t. current s = Some t \<longrightarrow> runs b F (f t) s)"
  by (cases "current s")
    (simp_all add: RequireCurrent_def CurrentToken_def get_def deref_def runs_def bind_def ret_def
      report_throw_def ReportSyntaxError_def seq_def modify_def throw_def)

lemma current_Some: "current s = Some t \<Longrightarrow> p_pos s < length (p_tokens s)"
  by (simp add: current_def split: if_splits)

lemma runs_step: "current s \<noteq> None \<Longrightarrow> runs b F step s"
  by (auto simp: step_def fewer_step [THEN fewer_imp] fewer_step dest!: current_Some)

lemma runs_Consume [simp]: "runs b F (Consume k) s"
  using runs_step [of s b]
  by (auto simp: Consume_def is_type_def deref_def Let_def split: option.splits
      intro!: runs_bind_strict)

lemma runs_ConsumeVal [simp]: "runs b F (ConsumeVal k v) s"
  using runs_step [of s b]
  by (auto simp: ConsumeVal_def is_tok_def deref_def Let_def split: option.splits
      intro!: runs_bind_strict)

lemma runs_ConsumeTemplateClose [simp]: "runs b (\<lambda>_. False) ConsumeTemplateClose s"
  by (simp add: ConsumeTemplateClose_def)

lemma runs_EnterScope [simp]: "runs b (\<lambda>_. False) (EnterScope k n) s"
  by (simp add: EnterScope_def)

lemma runs_ExitScope [simp]: "runs b (\<lambda>_. False) ExitScope s"
  by (simp add: ExitScope_def pop_scope_def)

lemma runs_locate [simp]: "runs b (\<lambda>_. False) (locate start nd) s"
  by (simp add: locate_def)

lemma runs_locate_stmt [simp]: "runs b (\<lambda>_. False) (locate_stmt start nd) s"
  by (simp add: locate_stmt_def)

section \<open>What stands in front of a declaration\<close>

lemma runs_consumeName [simp]: "\<not> F None \<Longrightarrow> runs b F consumeName s"
  by (simp add: consumeName_def)

lemma runs_attribute_name_loop [simp]: "runs b (\<lambda>_. False) (attribute_name_loop n) s"
  by (simp add: attribute_name_loop_def)

lemma runs_attribute_value [simp]: "runs b F attribute_value s"
  by (simp add: attribute_value_def)

lemma runs_attribute_argument_name [simp]: "runs b (\<lambda>_. False) attribute_argument_name s"
  by (simp add: attribute_argument_name_def)

lemma runs_attribute_arguments [simp]: "runs b F attribute_arguments s"
  by (simp add: attribute_arguments_def Let_def)

lemma runs_ParseAttributes [simp]: "runs b (\<lambda>_. False) ParseAttributes s"
  by (simp add: ParseAttributes_def)

lemma runs_ParseModifiers [simp]: "runs b (\<lambda>_. False) ParseModifiers s"
  by (simp add: ParseModifiers_def)

lemma runs_template_constraint [simp]: "runs b (\<lambda>_. False) (template_constraint a) s"
  by (simp add: template_constraint_def)

lemma runs_template_parameter [simp]: "runs b F (template_parameter a acc) s"
  by (simp add: template_parameter_def Let_def)

lemma runs_ParseTemplateParameters [simp]: "runs b (\<lambda>_. False) (ParseTemplateParameters a) s"
  by (simp add: ParseTemplateParameters_def)

lemma runs_ParseQualifiedName [simp]: "runs b F ParseQualifiedName s"
  by (simp add: ParseQualifiedName_def)

section \<open>Types, literals and arguments\<close>

lemma runs_ParseMemberAccess [simp]: "runs b F (ParseMemberAccess e) s"
  by (simp add: ParseMemberAccess_def)

lemma runs_ParsePrimitiveType [simp]: "runs b F ParsePrimitiveType s"
  by (simp add: ParsePrimitiveType_def)

lemma runs_pointer_stars [simp]: "runs b (\<lambda>_. False) (pointer_stars p) s"
  by (simp add: pointer_stars_def)

lemma runs_ParsePointerSuffix [simp]: "runs b (\<lambda>_. False) (ParsePointerSuffix e k) s"
  by (simp add: ParsePointerSuffix_def Let_def)

lemma runs_ParseOwnership [simp]: "runs b (\<lambda>_. False) ParseOwnership s"
  by (simp add: ParseOwnership_def)

lemma runs_array_suffixes [simp]: "runs b (\<lambda>_. False) (array_suffixes e) s"
  by (simp add: array_suffixes_def)

lemma runs_bind_unquote [simp]:
  "runs b F (bind (unquote v) f) s \<longleftrightarrow> (v \<noteq> [] \<longrightarrow> runs b F (f (take (length v - 2) (tl v))) s)"
  by (simp add: unquote_def runs_def bind_def ret_def throw_def)

lemma runs_unescaped [simp]: "runs b (\<lambda>_. False) (unescaped v) s"
  by (simp add: unescaped_def)

lemma runs_ParseCharLiteralExpr [simp]: "runs b F ParseCharLiteralExpr s"
  by (simp add: ParseCharLiteralExpr_def)

lemma runs_ParseNumberLiteralExpr [simp]: "runs b F ParseNumberLiteralExpr s"
  by (simp add: ParseNumberLiteralExpr_def)

lemma runs_ParseBooleanLiteralExpr [simp]: "runs b F ParseBooleanLiteralExpr s"
  by (simp add: ParseBooleanLiteralExpr_def)

lemma runs_argument_mode [simp]: "runs b (\<lambda>_. False) argument_mode s"
  by (simp add: argument_mode_def)

lemma runs_optional_keyword [simp]: "runs b (\<lambda>_. False) (optional_keyword kw) s"
  by (simp add: optional_keyword_def)

lemma runs_required_keyword [simp]: "runs b (\<lambda>_. False) (required_keyword kw) s"
  by (simp add: required_keyword_def)

lemma runs_out_alias [simp]: "runs b (\<lambda>_. False) out_alias s"
  by (simp add: out_alias_def)

lemma runs_ampersand [simp]: "runs b (\<lambda>_. False) ampersand s"
  by (simp add: ampersand_def)

lemma runs_make_parameter [simp]: "runs b (\<lambda>_. False) (make_parameter t n v fl st) s"
  by (simp add: make_parameter_def)

lemma runs_ParsePostfixUnaryExpr [simp]: "runs b (\<lambda>_. False) (ParsePostfixUnaryExpr e) s"
  by (simp add: ParsePostfixUnaryExpr_def)

lemma runs_located_var [simp]: "runs b (\<lambda>_. False) (located_var t k) s"
  by (simp add: located_var_def)

lemma runs_with_current [simp]: "runs b (\<lambda>_. False) (with_current st) s"
  by (simp add: with_current_def)

lemma runs_trailing_const [simp]: "runs b (\<lambda>_. False) (trailing_const ms) s"
  by (simp add: trailing_const_def)

lemma runs_accessor_keyword [simp]: "runs b F (accessor_keyword a w) s"
  by (simp add: accessor_keyword_def)

lemma runs_enum_sign [simp]: "runs b (\<lambda>_. False) enum_sign s"
  by (simp add: enum_sign_def)

lemma runs_enum_initialiser [simp]: "runs b (\<lambda>_. False) (enum_initialiser n) s"
  by (simp add: enum_initialiser_def)

lemma runs_enum_comma [simp]: "runs b (\<lambda>_. False) (enum_comma ec) s"
  by (simp add: enum_comma_def)

lemma runs_enum_members [simp]: "runs b (\<lambda>_. False) enum_members s"
  by (simp add: enum_members_def)

lemma runs_ParseEnumDecl [simp]: "runs b F ParseEnumDecl s"
  by (simp add: ParseEnumDecl_def)

lemma runs_ParseImport [simp]: "runs b F ParseImport s"
  by (simp add: ParseImport_def)


section \<open>Copies of types\<close>

definition no_fuel_error :: "parse_error + 'a \<Rightarrow> bool" where
  "no_fuel_error x \<longleftrightarrow> x \<noteq> Inl Out_of_fuel"

lemma no_fuel_error_simps [simp]:
  "no_fuel_error (Inr x)" "no_fuel_error (Inl e) \<longleftrightarrow> e \<noteq> Out_of_fuel"
  "no_fuel_error (map_sum id f y) \<longleftrightarrow> no_fuel_error y"
  by (cases y; simp add: no_fuel_error_def)+

lemma no_fuel_error_case [simp]:
  "no_fuel_error x \<Longrightarrow> \<forall>y. no_fuel_error (f y) \<Longrightarrow>
     no_fuel_error (case x of Inl e \<Rightarrow> Inl e | Inr y \<Rightarrow> f y)"
  by (cases x) simp_all

lemma clone_children_no_fuel:
  "\<forall>c \<in> set cs. \<forall>x. c = Some x \<longrightarrow> no_fuel_error (snd x) \<Longrightarrow> no_fuel_error (clone_children cs)"
  by (induction cs) (auto simp: clone_child_def split: sum.splits option.splits)

lemma clone_no_fuel:
  fixes e :: expr and st :: stmt
  shows "no_fuel_error (fst (clone_expr w e)) \<and> no_fuel_error (snd (clone_expr w e))"
    and True
proof (induction e and st)
  case (Expr i k)
  then show ?case
    by (cases k) (fastforce simp: clone_child_def eq_commute [of "Some _"] split: option.splits
        intro!: no_fuel_error_case clone_children_no_fuel)+
qed simp

lemma runs_CloneType [simp]: "runs b (\<lambda>_. False) (CloneType e) s"
  using clone_no_fuel by (cases e) (auto simp: runs_def CloneType_def throw_def no_fuel_error_def)

lemma runs_CloneIndexerType [simp]: "runs b (\<lambda>_. False) (CloneIndexerType e) s"
  using clone_no_fuel by (cases e) (auto simp: runs_def CloneIndexerType_def throw_def no_fuel_error_def)

lemma runs_CloneIndexerTypeExpression [simp]: "runs b (\<lambda>_. False) (CloneIndexerTypeExpression e) s"
  using clone_no_fuel
  by (cases e) (auto simp: runs_def CloneIndexerTypeExpression_def throw_def no_fuel_error_def)

lemma runs_CloneIndexerParameter [simp]: "runs b (\<lambda>_. False) (CloneIndexerParameter p) s"
  by (cases "ekind p") (simp_all add: CloneIndexerParameter_def)

lemma runs_clone_parameters [simp]: "runs b (\<lambda>_. False) (clone_parameters ps) s"
  by (induction ps arbitrary: s) simp_all

end
