(* ===== verification/Parser_Termination.thy ===== *)
theory Parser_Termination
  imports Parser_Progress
begin

text \<open>
  Parsing ends: the number of levels of recursion that \<open>ParseCode\<close> is given is enough for every
  list of tokens, so \<open>Out_of_fuel\<close> is never the answer.

  The contract of the recursive calls is the locale \<open>nested_parsers\<close>: when less than \<open>c\<close> is
  left the calls do not give up (less than \<open>b\<close> for \<open>ParsePrefixUnaryExpr\<close>, which may call
  \<open>ParsePrimaryExpr\<close> before it consumes a token), and they consume what their callers rely on.
  Under the contract every parse function runs with one more token; so the parsers of one level
  give those of the next, and \<open>parsers\<close> is an instance at every level.
\<close>

section \<open>Embedded expressions\<close>

text \<open>The tokens of a text weigh no more than its characters.\<close>

lemma emit_weight:
  assumes "emit kw name m rest place = Inr new" and "m \<noteq> []"
  shows "tokens_weight new \<le> length m"
  using assms by (cases m)
    (auto simp: emit_def Let_def tokens_weight_def token_weight_def split: if_splits sum.splits)

lemma lexes_weight: "lexes kw place code toks \<Longrightarrow> tokens_weight toks \<le> length code"
proof (induction rule: lexes.induct)
  case (lexes_lexeme gap m name rest at new toks)
  then have "tokens_weight new \<le> length m" by (blast intro: emit_weight)
  with lexes_lexeme show ?case by (simp add: tokens_weight_def)
qed (simp add: tokens_weight_def)

lemma lexer_weight: "lexer kw code = Inr toks \<Longrightarrow> tokens_weight toks \<le> length code"
  using lex_loop_lexes [of kw None code "(1, 1)" "[]" toks] lexes_weight
  by (auto simp: lexer_def)

lemma string_weight:
  assumes "is_type T_STRING (current s)"
  shows "\<exists>t. current s = Some t \<and> length (tok_value t) \<le> weight s"
proof -
  from assms obtain t where t: "current s = Some t" "tok_type t = T_STRING"
    by (auto simp: is_type_def split: option.splits)
  then have "drop (p_pos s) (p_tokens s) = t # drop (Suc (p_pos s)) (p_tokens s)"
    using Cons_nth_drop_Suc [of "p_pos s" "p_tokens s"] by (auto simp: current_def split: if_splits)
  with t show ?thesis by (simp add: weight_def tokens_weight_def token_weight_def)
qed

lemma interpolate_shorter:
  "interpolate raw seg template codes = Inr (template', codes') \<Longrightarrow>
     set codes' \<subseteq> set codes \<union> {code. length code < length raw}"
proof (induction "length raw" arbitrary: raw seg template codes rule: less_induct)
  case less
  show ?case
  proof (cases raw)
    case Nil
    with less.prems show ?thesis
      by (auto simp: interpolate.simps split: if_splits sum.splits)
  next
    case (Cons c rest)
    have IH: "set codes' \<subseteq> set cs \<union> {code. length code < length raw}"
      if "interpolate raw' sg tm cs = Inr (template', codes')" "length raw' < length raw" for raw' sg tm cs
      using less.hyps [OF that(2,1)] that(2) by auto
    from less.prems show ?thesis
      unfolding Cons
      by (subst (asm) interpolate.simps)
        (auto simp: Cons split: if_splits sum.splits option.splits prod.splits
          dest!: IH [unfolded Cons] brace_body_length)
  qed
qed

section \<open>The contract of the recursive calls\<close>

locale nested_parsers =
  fixes r :: parsers and b c :: nat
  assumes enough: "b \<le> c" "c \<le> Suc b"
    and expr: "runs c (\<lambda>_. True) (r_expr r) s"
    and primary: "runs c (\<lambda>_. True) (r_primary r) s"
    and prefix: "runs b (\<lambda>_. True) (r_prefix r) s"
    and binary: "runs c (\<lambda>_. False) (r_binary r p e) s"
    and binary_consumes:
      "operator_here s = Some (t, q) \<Longrightarrow> p \<le> q \<Longrightarrow> runs c (\<lambda>_. True) (r_binary r p e) s"
    and type: "runs c (\<lambda>_. False) (r_type r) s"
    and array_values: "runs c (\<lambda>_. True) (r_values r) s"
    and statement: "runs c (\<lambda>x. x \<noteq> None) (r_stmt r) s"
    and group: "runs c (\<lambda>_. True) (r_group r) s"
begin

lemma runs_bind_nested [simp]:
  assumes "B \<le> Suc b" and "runs B (\<lambda>_. True) m s" and "\<forall>x s'. runs b (\<lambda>_. False) (f x) s'"
  shows "runs B F (bind m f) s"
proof (cases "B = Suc b")
  case True
  with assms(2,3) show ?thesis by (simp add: runs_bind_Suc)
next
  case False
  with assms(1) have "B \<le> b" by simp
  with assms(3) have "\<forall>x s'. runs B (\<lambda>_. False) (f x) s'" by (blast intro: runs_mono)
  with assms(2) show ?thesis by (rule runs_bind_strict)
qed

lemma runs_expr [simp]: "B \<le> b \<Longrightarrow> runs B F (r_expr r) s"
  by (rule runs_mono [OF expr]) (use enough in auto)

lemma runs_primary [simp]: "B \<le> b \<Longrightarrow> runs B F (r_primary r) s"
  by (rule runs_mono [OF primary]) (use enough in auto)

lemma runs_prefix [simp]: "B \<le> b \<Longrightarrow> runs B F (r_prefix r) s"
  by (rule runs_mono [OF prefix]) auto

lemma runs_binary [simp]: "B \<le> b \<Longrightarrow> runs B (\<lambda>_. False) (r_binary r p e) s"
  by (rule runs_mono [OF binary]) (use enough in auto)

lemma runs_binary_consumes:
  "B \<le> b \<Longrightarrow> operator_here s = Some (t, q) \<Longrightarrow> p \<le> q \<Longrightarrow> runs B F (r_binary r p e) s"
  by (rule runs_mono [OF binary_consumes]) (use enough in auto)

lemma runs_type [simp]: "B \<le> b \<Longrightarrow> runs B (\<lambda>_. False) (r_type r) s"
  by (rule runs_mono [OF type]) (use enough in auto)

lemma runs_values [simp]: "B \<le> b \<Longrightarrow> runs B F (r_values r) s"
  by (rule runs_mono [OF array_values]) (use enough in auto)

lemma runs_stmt [simp]: "B \<le> b \<Longrightarrow> \<not> F None \<Longrightarrow> runs B F (r_stmt r) s"
  by (rule runs_mono [OF statement]) (use enough in simp, metis)

lemma runs_group [simp]: "B \<le> b \<Longrightarrow> runs B F (r_group r) s"
  by (rule runs_mono [OF group]) (use enough in auto)

lemma runs_ParseTemplateExpr [simp]: "B \<le> Suc b \<Longrightarrow> runs B F (ParseTemplateExpr r e) s"
  by (simp add: ParseTemplateExpr_def)

lemma runs_named_type [simp]: "B \<le> Suc b \<Longrightarrow> runs B (\<lambda>_. False) (named_type r n) s"
  by (simp add: named_type_def)

lemma runs_ParseType [simp]: "B \<le> Suc b \<Longrightarrow> runs B (\<lambda>_. False) (ParseType r) s"
  by (simp add: ParseType_def)

text \<open>An embedded expression is parsed from tokens that weigh less than the literal it is in.\<close>

lemma runs_embedded_expression:
  assumes "length code < b \<or> B = 0"
  shows "runs B (\<lambda>_. False) (embedded_expression r t code) s"
proof (cases "lexer (IsSyntaxPluginKeyword (r_registry r)) code")
  case (Inl e)
  then show ?thesis by (simp add: runs_def embedded_expression_def throw_def)
next
  case (Inr toks)
  let ?s = "new_parser toks [] (p_scopes s) (p_log s)"
  have "runs b (\<lambda>_. True) (r_expr r) ?s" by simp
  then have "length code < b \<Longrightarrow> fst (r_expr r ?s) \<noteq> Inl Out_of_fuel"
    using lexer_weight [OF Inr] by (simp add: runs_def weight_def new_parser_def)
  with Inr assms show ?thesis
    by (cases "toks = []"; cases "r_expr r ?s")
      (auto simp: runs_def embedded_expression_def report_throw_def ReportSyntaxError_def
        seq_def bind_def modify_def throw_def not_more_def left_def weight_def Let_def
        split: sum.splits option.splits)
qed

lemma runs_embedded_expressions:
  "(\<forall>code \<in> set codes. length code < b) \<or> B = 0 \<Longrightarrow>
     runs B (\<lambda>_. False) (embedded_expressions r t codes) s"
  by (induction codes arbitrary: s) (auto simp: runs_embedded_expression)

lemma runs_interpolation_error [simp]:
  "runs B F (case x of Bad_escape e \<Rightarrow> m e | Unmatched_brace \<Rightarrow> k) s \<longleftrightarrow>
     (\<forall>e. x = Bad_escape e \<longrightarrow> runs B F (m e) s) \<and> (x = Unmatched_brace \<longrightarrow> runs B F k s)"
  by (cases x) simp_all

lemma runs_ParseStringLiteralExpr [simp]:
  assumes "B \<le> Suc b"
  shows "runs B F (ParseStringLiteralExpr r) s"
proof -
  have run: "runs B' F (ParseStringLiteralExpr r) s"
    if B: "B' \<le> Suc b" "(\<exists>t. current s = Some t \<and> length (tok_value t) \<le> b) \<or> B' = 0" for B'
  proof -
    have "(\<forall>code \<in> set codes. length code < b) \<or> B' = 0"
      if "current s = Some t" "tok_value t \<noteq> []"
        "interpolate (take (length (tok_value t) - 2) (tl (tok_value t))) [] [] [] = Inr (x, codes)"
      for t x codes
      using interpolate_shorter [OF that(3)] B(2) that(1,2) by fastforce
    with B(1) show ?thesis
      by (auto simp: ParseStringLiteralExpr_def runs_embedded_expressions)
  qed
  show ?thesis
  proof (cases "weight s < B")
    case True
    with assms have "\<exists>t. current s = Some t \<and> length (tok_value t) \<le> b"
      if "is_type T_STRING (current s)"
      using string_weight [OF that] by fastforce
    with run [OF assms] show ?thesis
      by (cases "is_type T_STRING (current s)") (blast, simp add: ParseStringLiteralExpr_def)
  next
    case False
    from run [of 0] show ?thesis by (simp add: runs_beyond [OF False])
  qed
qed

lemma runs_ParseLiteralExpr [simp]: "B \<le> Suc b \<Longrightarrow> runs B F (ParseLiteralExpr r) s"
  by (simp add: ParseLiteralExpr_def)

lemma runs_ParseArguments [simp]: "B \<le> Suc b \<Longrightarrow> runs B F (ParseArguments r) s"
  by (simp add: ParseArguments_def Let_def)

lemma runs_ParseParameter [simp]: "B \<le> b \<Longrightarrow> runs B (\<lambda>_. False) (ParseParameter r) s"
  by (simp add: ParseParameter_def Let_def)

lemma runs_ParseParameters [simp]: "B \<le> Suc b \<Longrightarrow> runs B F (ParseParameters r) s"
  by (simp add: ParseParameters_def)

lemma runs_ParseFunctionCallExpr [simp]: "B \<le> Suc b \<Longrightarrow> runs B F (ParseFunctionCallExpr r e) s"
  by (simp add: ParseFunctionCallExpr_def)

lemma runs_slice_range [simp]: "B \<le> b \<Longrightarrow> runs B (\<lambda>_. False) (slice_range r) s"
  by (simp add: slice_range_def)

lemma runs_slice_ranges [simp]: "B \<le> b \<Longrightarrow> runs B (\<lambda>_. False) (slice_ranges r) s"
  by (simp add: slice_ranges_def)

lemma runs_ParseArrayAccess [simp]: "B \<le> Suc b \<Longrightarrow> runs B (\<lambda>_. False) (ParseArrayAccess r e) s"
  by (simp add: ParseArrayAccess_def)

text \<open>With a bracket or a postfix operator ahead these consume it.\<close>

lemma runs_ParseArrayAccess_bracket:
  "B \<le> Suc b \<Longrightarrow> at_val ''['' s \<Longrightarrow> runs B F (ParseArrayAccess r e) s"
  unfolding ParseArrayAccess_def by (rule runs_repeat_once) simp_all

lemma runs_postfix_operator:
  "current s = Some t \<Longrightarrow> IsPostfixUnary t \<Longrightarrow> runs B F (ParsePostfixUnaryExpr e) s"
  by (simp add: ParsePostfixUnaryExpr_def IsPostfixUnary_def)

lemma runs_ParseCastExpr [simp]: "B \<le> Suc b \<Longrightarrow> runs B F (ParseCastExpr r e) s"
  by (simp add: ParseCastExpr_def Let_def)

lemma runs_ParseSuffixExpr [simp]: "B \<le> Suc b \<Longrightarrow> runs B (\<lambda>_. False) (ParseSuffixExpr r e) s"
  by (simp add: ParseSuffixExpr_def at_val_def is_val_def runs_postfix_operator runs_ParseArrayAccess_bracket)

lemma runs_ParseIdentifierExpr [simp]: "B \<le> Suc b \<Longrightarrow> runs B F (ParseIdentifierExpr r a) s"
  by (simp add: ParseIdentifierExpr_def at_val_def runs_ParseArrayAccess_bracket)

lemma runs_ParseArrayValues [simp]: "B \<le> Suc b \<Longrightarrow> runs B F (ParseArrayValues r) s"
  by (simp add: ParseArrayValues_def)

lemma runs_constructed_type [simp]: "B \<le> Suc b \<Longrightarrow> runs B F (constructed_type r) s"
  by (simp add: constructed_type_def)

lemma runs_constructor_arguments [simp]: "B \<le> Suc b \<Longrightarrow> runs B (\<lambda>_. False) (constructor_arguments r e w) s"
  by (simp add: constructor_arguments_def)

lemma runs_element_stars [simp]: "runs B (\<lambda>_. False) (element_stars n e w) s"
  by (induction n e w arbitrary: s rule: element_stars.induct) simp_all

lemma runs_ParseConstructorCall [simp]: "B \<le> Suc b \<Longrightarrow> runs B F (ParseConstructorCall r) s"
  by (simp add: ParseConstructorCall_def)

lemma runs_ParseDestructorCall [simp]: "B \<le> Suc b \<Longrightarrow> runs B F (ParseDestructorCall r) s"
  by (simp add: ParseDestructorCall_def)

lemma runs_ParseLambdaExpr [simp]: "B \<le> Suc b \<Longrightarrow> runs B F (ParseLambdaExpr r) s"
  by (simp add: ParseLambdaExpr_def)

lemma runs_ParsePrefixUnaryExpr:
  assumes "B \<le> c \<or> (\<exists>t. current s = Some t \<and> IsPrefixUnary t) \<and> B \<le> Suc b"
  shows "runs B F (ParsePrefixUnaryExpr r) s"
proof -
  have "B \<le> Suc b" using assms enough by auto
  moreover have "runs B F (r_primary r) s" if "B \<le> c" by (rule runs_mono [OF primary that]) simp
  ultimately show ?thesis using assms by (auto simp: ParsePrefixUnaryExpr_def)
qed

lemma runs_parenthesised [simp]: "B \<le> Suc b \<Longrightarrow> runs B F (parenthesised r) s"
  by (simp add: parenthesised_def)

lemma runs_ParseBaseExpr [simp]: "B \<le> Suc b \<Longrightarrow> runs B F (ParseBaseExpr r) s"
  by (simp add: ParseBaseExpr_def runs_ParsePrefixUnaryExpr)

lemma runs_ParsePrimaryExpr [simp]: "B \<le> Suc b \<Longrightarrow> runs B F (ParsePrimaryExpr r) s"
  by (simp add: ParsePrimaryExpr_def)

lemma runs_ParseTernaryExpr [simp]: "B \<le> Suc b \<Longrightarrow> runs B F (ParseTernaryExpr r e) s"
  by (simp add: ParseTernaryExpr_def)

lemma runs_binary_right [simp]: "B \<le> b \<Longrightarrow> runs B (\<lambda>_. False) (binary_right r p e) s"
proof -
  assume B: "B \<le> b"
  have "runs B F (bind (r_binary r (p + 1) e) continue) s"
    if "operator_here s = Some (t, q)" "\<not> q \<le> p" for s t q e F
    using runs_binary_consumes [OF B that(1), of "p + 1"] that(2) by (intro runs_bind_strict) simp_all
  then show ?thesis unfolding binary_right_def by (intro runs_repeat) auto
qed

lemma runs_ParseBinaryExpr [simp]: "B \<le> Suc b \<Longrightarrow> runs B (\<lambda>_. False) (ParseBinaryExpr r p e) s"
  by (simp add: ParseBinaryExpr_def)

lemma runs_ParseAssignmentExpr [simp]: "B \<le> Suc b \<Longrightarrow> runs B (\<lambda>_. False) (ParseAssignmentExpr r e) s"
  by (simp add: ParseAssignmentExpr_def)

lemma runs_ParseExpressionImpl [simp]: "B \<le> Suc b \<Longrightarrow> runs B F (ParseExpressionImpl r) s"
  by (simp add: ParseExpressionImpl_def)

lemma runs_ParseExpression [simp]: "B \<le> Suc b \<Longrightarrow> runs B F (ParseExpression r) s"
  by (simp add: ParseExpression_def)

lemma runs_ParseBinaryExpr_operator:
  assumes "B \<le> Suc b" and "operator_here s = Some (t, q)" and "p \<le> q"
  shows "runs B F (ParseBinaryExpr r p e) s"
  unfolding ParseBinaryExpr_def by (rule runs_repeat_once) (use assms in simp_all)

section \<open>Statements\<close>

text \<open>A statement that is not there has still moved the position.\<close>

lemma runs_statement_round:
  assumes "B \<le> b"
  shows "runs B isl
    (bind (get p_pos) (\<lambda>start. bind (r_stmt r) (\<lambda>statement.
       case statement of
         Some st \<Rightarrow> continue (statements @ [st])
       | None \<Rightarrow> cond (\<lambda>s. p_pos s = start) (fail_here message what) (continue statements)))) s"
proof -
  let ?k = "\<lambda>statement.
    case statement of
      Some st \<Rightarrow> continue (statements @ [st])
    | None \<Rightarrow> cond (\<lambda>t. p_pos t = p_pos s) (fail_here message what) (continue statements)"
  let ?m = "bind (r_stmt r) ?k"
  have le: "runs B (\<lambda>_. False) ?m s" using assms by simp
  have "fewer s s''" if run: "?m s = (Inr x, s'')" for x s''
  proof -
    from run obtain y s' where y: "r_stmt r s = (Inr y, s')" and k: "?k y s' = (Inr x, s'')"
      by (auto simp: bind_Inr)
    from assms have "runs B (\<lambda>x. x \<noteq> None) (r_stmt r) s" by (simp del: not_None_eq)
    with y have *: "not_more s s'" "y \<noteq> None \<longrightarrow> fewer s s'" unfolding runs_def by blast+
    show ?thesis
    proof (cases y)
      case None
      with k have "p_pos s' \<noteq> p_pos s" "s'' = s'"
        by (auto simp: cond_def fail_here_def bind_Inr get_def CurrentToken_def report_throw_def
          ReportSyntaxError_def seq_def modify_def throw_def continue_def ret_def split: if_splits)
      with *(1) show ?thesis by (auto simp: not_more_def)
    next
      case (Some st)
      with k have "s'' = s'" by (simp add: continue_def ret_def)
      with *(2) Some show ?thesis by simp
    qed
  qed
  with le have "runs B isl ?m s" unfolding runs_def by blast
  then show ?thesis by simp
qed

lemma runs_statement_list [simp]:
  "B \<le> b \<Longrightarrow> runs B (\<lambda>_. False) (statement_list r stop message what) s"
  unfolding statement_list_def by (intro runs_repeat) (simp add: runs_statement_round del: runs_bind_get)

lemma runs_ParseCompoundStatement [simp]: "B \<le> Suc b \<Longrightarrow> runs B F (ParseCompoundStatement r) s"
  by (simp add: ParseCompoundStatement_def)

lemma runs_ParseVarDeclExpr [simp]: "B \<le> Suc b \<Longrightarrow> runs B F (ParseVarDeclExpr r) s"
  by (simp add: ParseVarDeclExpr_def)

lemma runs_ParseVarDeclaration [simp]: "B \<le> Suc b \<Longrightarrow> runs B F (ParseVarDeclaration r) s"
  by (simp add: ParseVarDeclaration_def Let_def)

lemma runs_ParseInstanceDeclExpr [simp]: "B \<le> Suc b \<Longrightarrow> runs B F (ParseInstanceDeclExpr r c1 c2) s"
  by (simp add: ParseInstanceDeclExpr_def)

lemma runs_ParseInstanceDeclStmt [simp]: "B \<le> Suc b \<Longrightarrow> runs B F (ParseInstanceDeclStmt r) s"
  by (simp add: ParseInstanceDeclStmt_def)

lemma runs_condition_in_parentheses [simp]: "B \<le> Suc b \<Longrightarrow> runs B F (condition_in_parentheses r) s"
  by (simp add: condition_in_parentheses_def)

lemma runs_else_branches [simp]: "B \<le> Suc b \<Longrightarrow> runs B (\<lambda>_. False) (else_branches r x) s"
  by (simp add: else_branches_def)

lemma runs_ParseIfStmt [simp]: "B \<le> Suc b \<Longrightarrow> \<not> F None \<Longrightarrow> runs B F (ParseIfStmt r) s"
  by (simp add: ParseIfStmt_def)

lemma runs_ParseWhileStmt [simp]: "B \<le> Suc b \<Longrightarrow> runs B F (ParseWhileStmt r) s"
  by (simp add: ParseWhileStmt_def)

lemma runs_ParseDoWhileStmt [simp]: "B \<le> Suc b \<Longrightarrow> runs B F (ParseDoWhileStmt r) s"
  by (simp add: ParseDoWhileStmt_def)

lemma runs_ParseForEachStmt [simp]: "B \<le> Suc b \<Longrightarrow> runs B F (ParseForEachStmt r) s"
  by (simp add: ParseForEachStmt_def)

lemma runs_comma_separated [simp]:
  "(\<forall>s. runs B (\<lambda>_. False) m s) \<Longrightarrow> runs B (\<lambda>_. False) (comma_separated m) s"
  by (simp add: comma_separated_def)

lemma runs_for_initialiser [simp]: "B \<le> Suc b \<Longrightarrow> runs B F (for_initialiser r) s"
  by (simp add: for_initialiser_def)

lemma runs_unless_at [simp]:
  "runs B (\<lambda>_. False) m s \<Longrightarrow> runs B (\<lambda>_. False) (unless_at k v m a) s"
  by (simp add: unless_at_def)

lemma runs_ParseForStmt [simp]: "B \<le> Suc b \<Longrightarrow> \<not> F None \<Longrightarrow> runs B F (ParseForStmt r) s"
  by (simp add: ParseForStmt_def)

lemma runs_parseCaseBody [simp]: "B \<le> b \<Longrightarrow> runs B (\<lambda>_. False) (parseCaseBody r) s"
  by (simp add: parseCaseBody_def)

lemma runs_switch_branch [simp]: "B \<le> Suc b \<Longrightarrow> runs B F (switch_branch r acc) s"
  by (simp add: switch_branch_def)

lemma runs_ParseSwitchStmt [simp]: "B \<le> Suc b \<Longrightarrow> runs B F (ParseSwitchStmt r x) s"
  by (simp add: ParseSwitchStmt_def)

lemma runs_ParseThrowStmt [simp]: "B \<le> Suc b \<Longrightarrow> runs B F (ParseThrowStmt r) s"
  by (simp add: ParseThrowStmt_def)

lemma runs_braced [simp]: "B \<le> Suc b \<Longrightarrow> runs B F (braced r m w) s"
  by (simp add: braced_def)

lemma runs_catch_clauses [simp]: "B \<le> b \<Longrightarrow> runs B (\<lambda>_. False) (catch_clauses r) s"
  by (simp add: catch_clauses_def)

lemma runs_ParseTryStmt [simp]: "B \<le> Suc b \<Longrightarrow> runs B F (ParseTryStmt r) s"
  by (simp add: ParseTryStmt_def)

lemma runs_ParseDeferStmt [simp]: "B \<le> Suc b \<Longrightarrow> runs B F (ParseDeferStmt r) s"
  by (simp add: ParseDeferStmt_def)

lemma runs_ParseReturnStmt [simp]: "B \<le> Suc b \<Longrightarrow> \<not> F None \<Longrightarrow> runs B F (ParseReturnStmt r) s"
  by (simp add: ParseReturnStmt_def)

section \<open>Declarations\<close>

lemma runs_ParseFunctionDeclaration [simp]: "B \<le> Suc b \<Longrightarrow> runs B F (ParseFunctionDeclaration r) s"
  by (simp add: ParseFunctionDeclaration_def)

lemma runs_abi_signature [simp]: "B \<le> Suc b \<Longrightarrow> runs B F (abi_signature r k n1 n2) s"
  by (simp add: abi_signature_def)

lemma runs_ParseExternalFunctionDeclaration [simp]: "B \<le> Suc b \<Longrightarrow> runs B F (ParseExternalFunctionDeclaration r) s"
  by (simp add: ParseExternalFunctionDeclaration_def)

lemma runs_ParseExportFunctionDeclaration [simp]: "B \<le> Suc b \<Longrightarrow> runs B F (ParseExportFunctionDeclaration r) s"
  by (simp add: ParseExportFunctionDeclaration_def)

lemma runs_ParseConstructor [simp]: "B \<le> Suc b \<Longrightarrow> runs B F (ParseConstructor r) s"
  by (simp add: ParseConstructor_def)

lemma runs_property_body [simp]: "B \<le> b \<Longrightarrow> runs B (\<lambda>_. False) (property_body r) s"
  by (simp add: property_body_def)

lemma runs_property_accessor [simp]: "B \<le> Suc b \<Longrightarrow> runs B F (property_accessor r ms e t acc) s"
  by (simp add: property_accessor_def Let_def)

lemma runs_ParsePropertyDeclaration [simp]: "B \<le> Suc b \<Longrightarrow> runs B F (ParsePropertyDeclaration r) s"
  by (simp add: ParsePropertyDeclaration_def)

lemma runs_indexer_parameters [simp]: "B \<le> b \<Longrightarrow> runs B (\<lambda>_. False) (indexer_parameters r) s"
  by (simp add: indexer_parameters_def Let_def)

lemma runs_indexer_body [simp]: "B \<le> b \<Longrightarrow> runs B (\<lambda>_. False) (indexer_body r t) s"
  by (simp add: indexer_body_def)

lemma runs_indexer_accessor [simp]: "B \<le> Suc b \<Longrightarrow> runs B F (indexer_accessor r ms e ps acc) s"
  by (simp add: indexer_accessor_def Let_def)

lemma runs_ParseIndexerDeclaration [simp]: "B \<le> Suc b \<Longrightarrow> runs B F (ParseIndexerDeclaration r) s"
  by (simp add: ParseIndexerDeclaration_def)

lemma runs_ParseParentTypeName [simp]: "B \<le> b \<Longrightarrow> runs B (\<lambda>_. False) (ParseParentTypeName r) s"
  by (simp add: ParseParentTypeName_def)

lemma runs_class_parents [simp]: "B \<le> b \<Longrightarrow> runs B (\<lambda>_. False) (class_parents r) s"
  by (simp add: class_parents_def)

lemma runs_ParseClassDecl [simp]: "B \<le> Suc b \<Longrightarrow> runs B F (ParseClassDecl r) s"
  by (simp add: ParseClassDecl_def)

lemma runs_ParseStructDecl [simp]: "B \<le> Suc b \<Longrightarrow> runs B F (ParseStructDecl r) s"
  by (simp add: ParseStructDecl_def)

lemma runs_interface_parents [simp]: "B \<le> b \<Longrightarrow> runs B (\<lambda>_. False) (interface_parents r) s"
  by (simp add: interface_parents_def)

lemma runs_interface_body [simp]: "B \<le> b \<Longrightarrow> runs B (\<lambda>_. False) (interface_body r) s"
  by (simp add: interface_body_def)

lemma runs_interface_method [simp]: "B \<le> Suc b \<Longrightarrow> runs B F (interface_method r) s"
  by (simp add: interface_method_def)

lemma runs_interface_member [simp]: "B \<le> Suc b \<Longrightarrow> runs B F (interface_member r acc) s"
  by (simp add: interface_member_def)

lemma runs_interface_members [simp]: "B \<le> b \<Longrightarrow> runs B (\<lambda>_. False) (interface_members r) s"
  by (simp add: interface_members_def)

lemma runs_ParseInterfaceDecl [simp]: "B \<le> Suc b \<Longrightarrow> runs B F (ParseInterfaceDecl r) s"
  by (simp add: ParseInterfaceDecl_def)

lemma runs_group_members [simp]: "B \<le> b \<Longrightarrow> runs B (\<lambda>_. False) (group_members r) s"
  by (simp add: group_members_def)

lemma runs_ParseGroupDecl [simp]: "B \<le> Suc b \<Longrightarrow> runs B F (ParseGroupDecl r) s"
  by (simp add: ParseGroupDecl_def)

lemma runs_ParseTypeAlias [simp]: "B \<le> Suc b \<Longrightarrow> runs B F (ParseTypeAlias r) s"
  by (simp add: ParseTypeAlias_def)

lemma runs_ParseNamespace [simp]: "B \<le> Suc b \<Longrightarrow> runs B F (ParseNamespace r) s"
  by (simp add: ParseNamespace_def)

lemma runs_ParseIdentifier [simp]: "B \<le> Suc b \<Longrightarrow> runs B F (ParseIdentifier r) s"
  by (simp add: ParseIdentifier_def)

lemma runs_kind_of_statement [simp]:
  "runs B F (case x of Variable_declaration \<Rightarrow> m1 | Instance_declaration \<Rightarrow> m2
     | Identifier_statement \<Rightarrow> m3) s \<longleftrightarrow>
     (x = Variable_declaration \<longrightarrow> runs B F m1 s) \<and> (x = Instance_declaration \<longrightarrow> runs B F m2 s) \<and>
     (x = Identifier_statement \<longrightarrow> runs B F m3 s)"
  by (cases x) simp_all

lemma runs_identifier_statement [simp]: "B \<le> Suc b \<Longrightarrow> runs B F (identifier_statement r) s"
  by (simp add: identifier_statement_def)

section \<open>The choice of a statement, and the next level\<close>

lemma runs_some_stmt [simp]: "runs B (\<lambda>_. True) m s \<Longrightarrow> runs B F (some_stmt m) s"
  by (simp add: some_stmt_def)

lemma opaque_advances:
  assumes "fst (TryParseOpaquePluginStatement reg tokens position) = Inr (Some (st, next))"
  shows "\<exists>k. 0 < k \<and> next = position + k \<and> next \<le> length tokens"
  using assms
  by (auto simp: TryParseOpaquePluginStatement_def MakeTokenViews_def Let_def
      split: if_splits option.splits parse_outcome.splits)

lemma runs_try_opaque: "runs B (\<lambda>x. x \<noteq> None) (try_opaque r) s"
proof (cases "fst (TryParseOpaquePluginStatement (r_registry r) (p_tokens s) (p_pos s))")
  case (Inl e)
  then show ?thesis by (simp add: runs_def try_opaque_def throw_def)
next
  case (Inr x)
  show ?thesis
  proof (cases x)
    case None
    with Inr show ?thesis by (simp add: runs_def try_opaque_def)
  next
    case (Some y)
    obtain st "next" where y: "y = (st, next)" by (cases y)
    with Inr Some have "fst (TryParseOpaquePluginStatement (r_registry r) (p_tokens s) (p_pos s)) =
        Inr (Some (st, next))" by simp
    from opaque_advances [OF this] obtain k where
      "0 < k" "next = p_pos s + k" "next \<le> length (p_tokens s)" by blast
    with Inr Some y fewer_advance [of k s] show ?thesis
      by (auto simp: runs_def try_opaque_def intro: fewer_imp)
  qed
qed

lemma runs_primitive_statement [simp]: "B \<le> Suc b \<Longrightarrow> runs B F (primitive_statement r) s"
  by (simp add: primitive_statement_def)

lemma runs_expression_statement [simp]: "B \<le> Suc b \<Longrightarrow> runs B F (expression_statement r) s"
  by (simp add: expression_statement_def)

lemma runs_jump_statement [simp]: "runs B F (jump_statement kw k) s"
  by (simp add: jump_statement_def)

lemma runs_token_type [simp]:
  "runs B F (case k of T_NUMBER \<Rightarrow> m1 | T_KEYWORD \<Rightarrow> m2 | T_IDENTIFIER \<Rightarrow> m3
     | T_OPERATOR \<Rightarrow> m4 | T_DELIMITER \<Rightarrow> m5 | T_STRING \<Rightarrow> m6 | T_CHAR \<Rightarrow> m7
     | T_BRACKET \<Rightarrow> m8 | T_COMMENT \<Rightarrow> m9 | T_WHITESPACE \<Rightarrow> m10) s \<longleftrightarrow>
     (k = T_NUMBER \<longrightarrow> runs B F m1 s) \<and> (k = T_KEYWORD \<longrightarrow> runs B F m2 s) \<and>
     (k = T_IDENTIFIER \<longrightarrow> runs B F m3 s) \<and> (k = T_OPERATOR \<longrightarrow> runs B F m4 s) \<and>
     (k = T_DELIMITER \<longrightarrow> runs B F m5 s) \<and> (k = T_STRING \<longrightarrow> runs B F m6 s) \<and>
     (k = T_CHAR \<longrightarrow> runs B F m7 s) \<and> (k = T_BRACKET \<longrightarrow> runs B F m8 s) \<and>
     (k = T_COMMENT \<longrightarrow> runs B F m9 s) \<and> (k = T_WHITESPACE \<longrightarrow> runs B F m10 s)"
  by (cases k) simp_all

lemma runs_keyword_statement [simp]: "B \<le> Suc b \<Longrightarrow> \<not> F None \<Longrightarrow> runs B F (keyword_statement r v) s"
  by (simp add: keyword_statement_def)

lemma runs_other_statement [simp]: "B \<le> Suc b \<Longrightarrow> \<not> F None \<Longrightarrow> runs B F (other_statement r t) s"
  by (simp add: other_statement_def)

lemma runs_declaration_or_statement [simp]: "B \<le> Suc b \<Longrightarrow> \<not> F None \<Longrightarrow> runs B F (declaration_or_statement r t) s"
  by (simp add: declaration_or_statement_def)

lemma runs_try_opaque' [simp]: "\<not> F None \<Longrightarrow> runs B F (try_opaque r) s"
  by (rule runs_mono [OF runs_try_opaque [of B]]) (simp, metis)

lemma runs_ParseStatementImpl [simp]:
  "B \<le> Suc b \<Longrightarrow> \<not> F None \<Longrightarrow> runs B F (ParseStatementImpl r) s"
  by (simp add: ParseStatementImpl_def runs_bind_option some_stmt_def with_current_def)

lemma locate_stmt_cases:
  "locate_stmt start =
     (\<lambda>x. case x of None \<Rightarrow> ret None | Some st \<Rightarrow> locate_stmt start (Some st))"
  by (auto simp: fun_eq_iff locate_stmt_def get_def ret_def split: option.splits)

lemma runs_ParseStatement [simp]:
  assumes "B \<le> Suc b" and "\<not> F None"
  shows "runs B F (ParseStatement r) s"
  unfolding ParseStatement_def
  by (subst locate_stmt_cases)
    (use assms in \<open>simp add: runs_bind_option del: not_None_eq\<close>)

text \<open>The parsers of the next level keep the contract with one more token.\<close>

lemma next_level: "nested_parsers (unfold_parsers r) c (Suc b)"
  by unfold_locales
    (use enough in \<open>simp_all add: unfold_parsers_def runs_ParsePrefixUnaryExpr
       runs_ParseBinaryExpr_operator\<close>)

end

lemma parsers_nested: "nested_parsers (parsers reg n) (n div 2) (Suc n div 2)"
proof (induction n)
  case 0
  show ?case by unfold_locales (simp_all add: no_parsers_def runs_def throw_def)
next
  case (Suc n)
  from nested_parsers.next_level [OF this] show ?case by simp
qed

interpretation level: nested_parsers "parsers reg n" "n div 2" "Suc n div 2" for reg n
  by (rule parsers_nested)

section \<open>Properties\<close>

text \<open>
  C1. Parsing ends with a program or an error of the code: for every registry of plugins, every
  scope stack and every list of tokens, the levels of recursion and the rounds of the loops
  that the model allows are enough.
\<close>

theorem parsing_terminates: "fst (ParseCode reg scopes tokens sourceFile) \<noteq> Inl Out_of_fuel"
proof -
  let ?b = "tokens_weight tokens + 1"
  have "parse_fuel tokens div 2 = ?b" by (simp add: parse_fuel_def)
  then have "runs ?b (\<lambda>_. False) (Parse (parsers reg (parse_fuel tokens)))
      (new_parser tokens sourceFile scopes [])"
    using level.runs_statement_list [of ?b "parse_fuel tokens"] by (simp add: Parse_def)
  then show ?thesis
    by (simp add: ParseCode_def runs_def weight_def new_parser_def)
qed

end
