(* ===== verification/Parser_Precedence.thy ===== *)
theory Parser_Precedence
  imports Parser_Termination
begin

text \<open>
  Operator precedence: the loops of \<open>ParseBinaryExpr\<close> against a definition of the expression
  tree that knows nothing of parsing. The tree of a sequence of operands and operators has the
  last of its operators of lowest precedence at the root.
\<close>

section \<open>The tree of a sequence of operands\<close>

text \<open>An operand and the operators that follow it, each with its right operand.\<close>

type_synonym operations = "(token \<times> token) list"

definition prec_of :: "token \<times> token \<Rightarrow> int" where
  "prec_of x = GetOperatorPrecedence (tok_value (fst x))"

fun lowest_last :: "operations \<Rightarrow> nat" where
  "lowest_last [] = 0"
| "lowest_last [x] = 0"
| "lowest_last (x # y # xs) =
     (let i = lowest_last (y # xs) in if prec_of x < prec_of ((y # xs) ! i) then 0 else i + 1)"

lemma lowest_last_bound: "xs \<noteq> [] \<Longrightarrow> lowest_last xs < length xs"
  by (induction xs rule: lowest_last.induct) (auto simp: Let_def)

definition operand :: "token \<Rightarrow> expr" where
  "operand t =
     node (if tok_type t = T_NUMBER then NumberLiteralExpr (tok_value t) else IdentifierExpr (tok_value t))"

function tree :: "expr \<Rightarrow> operations \<Rightarrow> expr" where
  "tree e xs =
     (if xs = [] then e
      else
        let i = lowest_last xs in
        node (BinaryExpr (tok_value (fst (xs ! i))) (Some (tree e (take i xs)))
          (Some (tree (operand (snd (xs ! i))) (drop (i + 1) xs)))))"
  by pat_completeness auto
termination
  by (relation "measure (\<lambda>(_, xs). length xs)") (auto dest: lowest_last_bound)

declare tree.simps [simp del]

lemma lowest_last_least:
  "xs \<noteq> [] \<Longrightarrow> x \<in> set xs \<Longrightarrow> prec_of (xs ! lowest_last xs) \<le> prec_of x"
proof (induction xs arbitrary: x rule: lowest_last.induct)
  case (3 y z zs)
  have rest: "prec_of ((z # zs) ! lowest_last (z # zs)) \<le> prec_of w" if "w \<in> set (z # zs)" for w
    using 3(1) [of w] that by simp
  define i where "i = lowest_last (z # zs)"
  have other: "x = y \<or> prec_of ((z # zs) ! i) \<le> prec_of x"
  proof (cases "x \<in> set (z # zs)")
    case True
    then show ?thesis using rest [folded i_def] by blast
  next
    case False
    with 3(3) show ?thesis by simp
  qed
  show ?case
  proof (cases "prec_of y < prec_of ((z # zs) ! i)")
    case True
    then have "lowest_last (y # z # zs) = 0" by (simp add: i_def Let_def)
    with other True show ?thesis by auto
  next
    case False
    then have "lowest_last (y # z # zs) = Suc i" by (simp add: i_def Let_def)
    with other False show ?thesis by auto
  qed
qed simp_all

text \<open>The lowest of what is appended, when it is not above what it is appended to.\<close>

lemma lowest_last_append:
  assumes "ws \<noteq> []" and "\<forall>x \<in> set us. prec_of (hd ws) \<le> prec_of x"
  shows "lowest_last (us @ ws) = length us + lowest_last ws"
  using assms(2)
proof (induction us)
  case (Cons u us)
  have "prec_of (ws ! lowest_last ws) \<le> prec_of (hd ws)"
    using lowest_last_least [OF assms(1)] assms(1) by simp
  with Cons.prems have "\<not> prec_of u < prec_of (ws ! lowest_last ws)" by fastforce
  moreover have "(us @ ws) ! (length us + lowest_last ws) = ws ! lowest_last ws" by simp
  moreover obtain z zs where "us @ ws = z # zs" using assms(1) by (cases "us @ ws") auto
  ultimately show ?case using Cons by (simp add: Let_def)
qed simp

lemma lowest_last_first:
  "\<forall>x \<in> set us. prec_of y < prec_of x \<Longrightarrow> lowest_last (y # us) = 0"
proof (cases us)
  case (Cons z zs)
  then have "us ! lowest_last us \<in> set us" by (intro nth_mem lowest_last_bound) simp
  moreover assume "\<forall>x \<in> set us. prec_of y < prec_of x"
  ultimately have "prec_of y < prec_of (us ! lowest_last us)" by blast
  with Cons show ?thesis by (simp add: Let_def)
qed simp

definition join :: "expr \<Rightarrow> token \<Rightarrow> expr \<Rightarrow> expr" where
  "join l w r = node (BinaryExpr (tok_value w) (Some l) (Some r))"

text \<open>
  An operator, its left operand and all that binds more tightly on its right become one operand
  of what follows, when that does not bind more tightly.
\<close>

lemma tree_join:
  assumes "\<forall>x \<in> set us. prec_of (w, e) < prec_of x" and "ws = [] \<or> prec_of (hd ws) \<le> prec_of (w, e)"
  shows "tree l ((w, e) # us @ ws) = tree (join l w (tree (operand e) us)) ws"
  using assms(2)
proof (induction "length ws" arbitrary: l ws rule: less_induct)
  case less
  let ?xs = "(w, e) # us"
  show ?case
  proof (cases "ws = []")
    case True
    then show ?thesis
      using lowest_last_first [OF assms(1)] by (simp add: tree.simps [of l] tree.simps [of _ "[]"] join_def)
  next
    case False
    define k where "k = lowest_last ws"
    have k: "k < length ws" using lowest_last_bound [OF False] by (simp add: k_def)
    have "\<forall>x \<in> set ?xs. prec_of (hd ws) \<le> prec_of x" using less.prems False assms(1) by fastforce
    from lowest_last_append [OF False this]
    have i: "lowest_last (?xs @ ws) = length ?xs + k" by (simp add: k_def)
    have IH: "tree l ((w, e) # us @ take k ws) = tree (join l w (tree (operand e) us)) (take k ws)"
      using k less.prems by (intro less.hyps) (auto simp: hd_conv_nth)
    have "tree l (?xs @ ws) = node (BinaryExpr (tok_value (fst (ws ! k)))
        (Some (tree l (?xs @ take k ws))) (Some (tree (operand (snd (ws ! k))) (drop (k + 1) ws))))"
      by (subst tree.simps) (simp add: i Let_def nth_append del: append_Cons)
    also have "\<dots> = tree (join l w (tree (operand e) us)) ws"
      using False IH by (subst (4) tree.simps) (simp add: k_def [symmetric] Let_def)
    finally show ?thesis by simp
  qed
qed

section \<open>Operands and operators in a list of tokens\<close>

text \<open>A number, or a name that no \<open><\<close> follows (which may open a list of template arguments).\<close>

definition simple_operand :: "token \<Rightarrow> token option \<Rightarrow> bool" where
  "simple_operand t next \<longleftrightarrow>
     tok_type t = T_NUMBER \<or> (tok_type t = T_IDENTIFIER \<and> \<not> is_val ''<'' next)"

definition binary_operator :: "token \<Rightarrow> bool" where
  "binary_operator t \<longleftrightarrow> tok_type t = T_OPERATOR \<and> GetOperatorPrecedence (tok_value t) \<in> {3..12}"

text \<open>What does not go on with an expression.\<close>

definition ends_expression :: "token option \<Rightarrow> bool" where
  "ends_expression next \<longleftrightarrow>
     (case next of None \<Rightarrow> True
      | Some t \<Rightarrow> tok_type t \<noteq> T_OPERATOR \<and>
          tok_value t \<notin> {''('', ''['', ''.'', ''as'', ''is''} \<and>
          GetOperatorCategory (tok_value t) \<noteq> Cat_Assignment)"

fun chain :: "token \<Rightarrow> operations \<Rightarrow> token option \<Rightarrow> bool" where
  "chain e [] next = (simple_operand e next \<and> ends_expression next)"
| "chain e ((w, f) # xs) next = (simple_operand e (Some w) \<and> binary_operator w \<and> chain f xs next)"

definition flat :: "operations \<Rightarrow> token list" where
  "flat xs = concat (map (\<lambda>(w, e). [w, e]) xs)"

lemma flat_simps [simp]: "flat [] = []" "flat ((w, e) # xs) = w # e # flat xs"
  by (simp_all add: flat_def)

lemma flat_append [simp]: "flat (xs @ ys) = flat xs @ flat ys"
  by (simp add: flat_def)

lemma length_flat [simp]: "length (flat xs) = 2 * length xs"
  by (induction xs) auto

definition ahead :: "pstate \<Rightarrow> token list \<Rightarrow> bool" where
  "ahead s ts \<longleftrightarrow> drop (p_pos s) (p_tokens s) = ts"

lemma ahead_current [simp]:
  "ahead s [] \<Longrightarrow> current s = None" "ahead s (t # ts) \<Longrightarrow> current s = Some t"
  by (auto simp: ahead_def current_def nth_via_drop)
    (metis drop_eq_Nil list.distinct(1) not_le)

lemma ahead_step: "ahead s (t # ts) \<Longrightarrow> ahead (s\<lparr>p_pos := Suc (p_pos s)\<rparr>) ts"
  by (simp add: ahead_def) (metis drop_Suc list.sel(3) tl_drop)

lemma ahead_depth [simp]: "ahead (s\<lparr>p_depth := d\<rparr>) ts \<longleftrightarrow> ahead s ts"
  by (simp add: ahead_def)

lemma operator_values:
  "binary_operator t \<Longrightarrow> tok_value t \<noteq> v" if "GetOperatorPrecedence v \<notin> {3..12}"
  using that by (auto simp: binary_operator_def)

lemma current_depth [simp]:
  "current (s\<lparr>p_depth := d\<rparr>) = current s"
  "current (s\<lparr>p_depth := d, p_pos := k\<rparr>) = current (s\<lparr>p_pos := k\<rparr>)"
  by (simp_all add: current_def)

section \<open>Running the parser on them\<close>

lemma loop_break: "body acc s = (Inr (Inr x), s') \<Longrightarrow> loop (Suc n) body acc s = (Inr x, s')"
  by (simp add: bind_def ret_def)

lemma loop_continue:
  "body acc s = (Inr (Inl acc'), s') \<Longrightarrow> loop (Suc n) body acc s = loop n body acc' s'"
  by (simp add: bind_def)

lemma repeat_loop: "repeat body acc s = loop (Suc (left s)) body acc s"
  by (simp add: repeat_def bind_def get_def left_def)

lemmas run_simps = bind_def seq_def get_def ret_def modify_def continue_def break_def cond_def
  CurrentToken_def CurrentDeref_def deref_def step_def

lemma run_Consume:
  "current s = Some t \<Longrightarrow> tok_type t = k \<Longrightarrow> Consume k s = (Inr t, s\<lparr>p_pos := Suc (p_pos s)\<rparr>)"
  by (simp add: Consume_def run_simps is_type_def)

text \<open>What may follow an operand.\<close>

definition follows :: "token option \<Rightarrow> bool" where
  "follows next \<longleftrightarrow> ends_expression next \<or> (\<exists>w. next = Some w \<and> binary_operator w)"

lemma operator_free_values:
  "GetOperatorPrecedence v \<notin> {3..12}"
  if "v \<in> {''('', ''['', ''.'', ''as'', ''is'', ''++'', ''--'', ''?''}"
  using that
  by (elim insertE emptyE) (simp_all add: GetOperatorPrecedence_def precedence_def)

lemma binary_operator_values:
  assumes "binary_operator t"
  shows "tok_value t \<notin> {''('', ''['', ''.'', ''as'', ''is'', ''++'', ''--'', ''?''}"
  using assms operator_free_values unfolding binary_operator_def by blast

lemma follows_values:
  assumes "follows (Some t)"
  shows "tok_value t \<notin> {''('', ''['', ''.'', ''as'', ''is''}" and "\<not> IsPostfixUnary t"
    and "GetOperatorCategory (tok_value t) \<noteq> Cat_Assignment"
proof -
  have category: "GetOperatorCategory (tok_value t) \<noteq> Cat_Assignment" if "binary_operator t"
    using that by (auto simp: assignment_precedence binary_operator_def)
  show "tok_value t \<notin> {''('', ''['', ''.'', ''as'', ''is''}" "\<not> IsPostfixUnary t"
    "GetOperatorCategory (tok_value t) \<noteq> Cat_Assignment"
    using assms binary_operator_values [of t] category
    by (auto simp: follows_def ends_expression_def IsPostfixUnary_def postfixUnaryOps_def)
qed

lemma suffix_stops:
  assumes "follows (current s)"
  shows "ParseSuffixExpr r e s = (Inr e, s)"
  unfolding ParseSuffixExpr_def repeat_loop
  by (rule loop_break)
    (use assms follows_values in \<open>cases "current s"; simp add: run_simps\<close>)

lemma run_number:
  assumes "current s = Some e" and "tok_type e = T_NUMBER"
  shows "ParseLiteralExpr r s = (Inr (operand e), s\<lparr>p_pos := Suc (p_pos s)\<rparr>)"
  using assms
  by (simp add: ParseLiteralExpr_def ParseNumberLiteralExpr_def run_simps run_Consume is_type_def
      operand_def)

lemma run_name:
  assumes "current s = Some e" and "tok_type e = T_IDENTIFIER"
    and "follows (current (s\<lparr>p_pos := Suc (p_pos s)\<rparr>))"
    and "\<not> is_val ''<'' (current (s\<lparr>p_pos := Suc (p_pos s)\<rparr>))"
  shows "ParseIdentifierExpr r False s = (Inr (Some (operand e)), s\<lparr>p_pos := Suc (p_pos s)\<rparr>)"
proof -
  have vals: "\<not> is_val v (current (s\<lparr>p_pos := Suc (p_pos s)\<rparr>))"
    if "v \<in> {''('', ''['', ''.''}" for v
    using assms(3) follows_values(1) that
    by (cases "current (s\<lparr>p_pos := Suc (p_pos s)\<rparr>)") (auto simp: is_val_def)
  have "repeat (\<lambda>expr.
      bind CurrentToken (\<lambda>next.
        if is_val ''('' next then bind (ParseFunctionCallExpr r expr) (\<lambda>e. continue (Some e))
        else if is_val ''['' next then bind (ParseArrayAccess r expr) continue
        else if is_val ''.'' next then bind (ParseMemberAccess expr) (\<lambda>e. continue (Some e))
        else if is_val ''<'' next then
          bind (get (\<lambda>s. map_option (tok_at (p_tokens s) \<circ> Suc)
                      (IsTemplateArgumentList (p_tokens s) (p_pos s)))) (\<lambda>close.
            case close of
              None \<Rightarrow> break expr
            | Some afterTemplate \<Rightarrow>
                if \<not> False \<and> \<not> followed_by_postfix afterTemplate then break expr
                else
                  bind (ParseTemplateExpr r (Some (node (UserTypeExpr expr)))) (\<lambda>e.
                    continue (Some e)))
        else break expr)) (Some (node (IdentifierExpr (tok_value e)))) (s\<lparr>p_pos := Suc (p_pos s)\<rparr>) =
      (Inr (Some (node (IdentifierExpr (tok_value e)))), s\<lparr>p_pos := Suc (p_pos s)\<rparr>)"
    unfolding repeat_loop
    by (rule loop_break) (use vals assms(4) in \<open>simp add: run_simps\<close>)
  then show ?thesis
    using assms(1,2)
    by (simp add: ParseIdentifierExpr_def run_simps run_Consume is_type_def operand_def)
qed

lemma run_operand:
  assumes "ahead s (e # ts)" and "simple_operand e (case ts of [] \<Rightarrow> None | t # _ \<Rightarrow> Some t)"
    and "follows (case ts of [] \<Rightarrow> None | t # _ \<Rightarrow> Some t)" and "p_depth s < MaximumRecursionDepth"
  shows "ParsePrimaryExpr r s = (Inr (Some (operand e)), s\<lparr>p_pos := Suc (p_pos s)\<rparr>)"
proof -
  let ?t = "s\<lparr>p_depth := p_depth s + 1, p_pos := Suc (p_pos s)\<rparr>"
  have at: "current s = Some e" using assms(1) by simp
  have "ahead (s\<lparr>p_pos := Suc (p_pos s)\<rparr>) ts" using ahead_step assms(1) by simp
  then have "current ?t = (case ts of [] \<Rightarrow> None | t # _ \<Rightarrow> Some t)" by (cases ts) simp_all
  with assms have "next": "simple_operand e (current ?t)" "follows (current ?t)" by simp_all
  have base: "ParseBaseExpr r s = (Inr (Some (operand e)), s\<lparr>p_pos := Suc (p_pos s)\<rparr>)"
  proof (cases "tok_type e = T_NUMBER")
    case True
    have "ParseLiteralExpr r (s\<lparr>p_depth := p_depth s + 1\<rparr>) = (Inr (operand e), ?t)"
      using run_number [of "s\<lparr>p_depth := p_depth s + 1\<rparr>" e r] at True by simp
    with True at assms(4) show ?thesis
      by (simp add: ParseBaseExpr_def guarded_def run_simps IsPrefixUnary_def IsLiteral_def)
  next
    case False
    with "next"(1) have name: "tok_type e = T_IDENTIFIER" "\<not> is_val ''<'' (current ?t)"
      by (simp_all add: simple_operand_def)
    have "ParseIdentifierExpr r False (s\<lparr>p_depth := p_depth s + 1\<rparr>) = (Inr (Some (operand e)), ?t)"
      using run_name [of "s\<lparr>p_depth := p_depth s + 1\<rparr>" e r] at name "next"(2)
      by simp
    with name at assms(4) show ?thesis
      by (simp add: ParseBaseExpr_def guarded_def run_simps IsPrefixUnary_def IsLiteral_def)
  qed
  moreover have "follows (current (s\<lparr>p_pos := Suc (p_pos s)\<rparr>))" using "next"(2) by simp
  ultimately show ?thesis by (simp add: ParsePrimaryExpr_def bind_def suffix_stops)
qed

section \<open>The loops of \<open>ParseBinaryExpr\<close>\<close>

definition binary_round :: "parsers \<Rightarrow> int \<Rightarrow> expr option \<Rightarrow> (expr option + expr option) parse" where
  "binary_round r p lhs =
     bind (get operator_here) (\<lambda>opToken.
       case opToken of
         None \<Rightarrow> break lhs
       | Some (t, prec) \<Rightarrow>
           if prec < p then break lhs
           else if tok_value t = ''?'' then bind (ParseTernaryExpr r lhs) break
           else
             seq (Consume T_OPERATOR)
             (bind (ParsePrimaryExpr r) (\<lambda>right.
               if right = None then break None
               else
                 bind (binary_right r prec right) (\<lambda>right'.
                   continue (Some (node (BinaryExpr (tok_value t) lhs right')))))))"

lemma ParseBinaryExpr_rounds: "ParseBinaryExpr r p e = repeat (binary_round r p) e"
  by (simp add: ParseBinaryExpr_def binary_round_def [abs_def])

definition right_round :: "parsers \<Rightarrow> int \<Rightarrow> expr option \<Rightarrow> (expr option + expr option) parse" where
  "right_round r prec right =
     bind (get operator_here) (\<lambda>nextOp.
       case nextOp of
         None \<Rightarrow> break right
       | Some (t, nextPrecedence) \<Rightarrow>
           if nextPrecedence \<le> prec then break right
           else bind (r_binary r (prec + 1) right) continue)"

lemma binary_right_rounds: "binary_right r prec e = repeat (right_round r prec) e"
  by (simp add: binary_right_def right_round_def [abs_def])

text \<open>The operations from the current token on, up to what ends the expression.\<close>

definition operations_at :: "pstate \<Rightarrow> operations \<Rightarrow> token list \<Rightarrow> bool" where
  "operations_at s xs rest \<longleftrightarrow>
     ahead s (flat xs @ rest) \<and> p_depth s < MaximumRecursionDepth \<and>
     (let next = (case rest of [] \<Rightarrow> None | t # _ \<Rightarrow> Some t) in
        (xs = [] \<longrightarrow> ends_expression next) \<and>
        (\<forall>w f ys. xs = (w, f) # ys \<longrightarrow> binary_operator w \<and> chain f ys next))"

definition skip_tokens :: "nat \<Rightarrow> pstate \<Rightarrow> pstate" where
  "skip_tokens k s = s\<lparr>p_pos := p_pos s + k\<rparr>"

lemma skip_tokens_simps [simp]:
  "skip_tokens 0 s = s" "skip_tokens j (skip_tokens k s) = skip_tokens (k + j) s"
  "p_depth (skip_tokens k s) = p_depth s"
  by (simp_all add: skip_tokens_def add.assoc)

lemma operator_here_operations:
  assumes "operations_at s xs rest"
  shows "operator_here s = (case xs of [] \<Rightarrow> None | (w, f) # _ \<Rightarrow> Some (w, prec_of (w, f)))"
proof (cases xs)
  case Nil
  with assms have "ahead s rest" "ends_expression (case rest of [] \<Rightarrow> None | t # _ \<Rightarrow> Some t)"
    by (simp_all add: operations_at_def Let_def)
  with Nil show ?thesis
    by (cases rest) (simp_all add: operator_here_def ends_expression_def)
next
  case (Cons x ys)
  obtain w f where x: "x = (w, f)" by (cases x)
  with assms Cons have "ahead s (w # f # flat ys @ rest)" "binary_operator w"
    by (simp_all add: operations_at_def Let_def)
  with Cons x show ?thesis by (simp add: operator_here_def binary_operator_def prec_of_def)
qed

lemma chain_append:
  "chain e (us @ ws) next \<Longrightarrow> ws \<noteq> [] \<Longrightarrow> binary_operator (fst (hd ws)) \<and> chain (snd (hd ws)) (tl ws) next"
  by (induction us arbitrary: e) (auto simp: neq_Nil_conv)

lemma chain_end: "chain e us next \<Longrightarrow> ends_expression next"
  by (induction us arbitrary: e) auto

lemma ahead_skip: "ahead s (us @ vs) \<Longrightarrow> ahead (skip_tokens (length us) s) vs"
  by (simp add: ahead_def skip_tokens_def) (metis append_eq_conv_conj drop_drop add.commute)

text \<open>After the operator and its operand the operations that follow are ahead, and after those
  the rest of them.\<close>

lemma operations_skip:
  assumes "operations_at s ((w, f) # us @ ws) rest"
  shows "operations_at (skip_tokens (2 + 2 * length us) s) ws rest"
proof -
  let ?next = "case rest of [] \<Rightarrow> None | t # _ \<Rightarrow> Some t"
  have chain: "chain f (us @ ws) ?next" using assms by (simp add: operations_at_def Let_def)
  have "ahead s ((w # f # flat us) @ flat ws @ rest)" using assms by (simp add: operations_at_def)
  from ahead_skip [OF this] have "ahead (skip_tokens (2 + 2 * length us) s) (flat ws @ rest)" by simp
  with assms chain chain_append [of f us ws ?next] chain_end [of f us ?next] show ?thesis
    by (auto simp: operations_at_def Let_def)
qed

lemma operations_operand:
  assumes "operations_at s ((w, f) # ys) rest"
  shows "current s = Some w" and "binary_operator w"
    and "ParsePrimaryExpr r (skip_tokens 1 s) = (Inr (Some (operand f)), skip_tokens 2 s)"
proof -
  let ?ts = "flat ys @ rest"
  let ?next = "case ?ts of [] \<Rightarrow> None | t # _ \<Rightarrow> Some t"
  have at: "ahead s (w # f # ?ts)" using assms by (simp add: operations_at_def)
  then show "current s = Some w" by simp
  show "binary_operator w" using assms by (simp add: operations_at_def Let_def)
  have "chain f ys (case rest of [] \<Rightarrow> None | t # _ \<Rightarrow> Some t)"
    using assms by (simp add: operations_at_def Let_def)
  then have "simple_operand f ?next" "follows ?next" by (cases ys; auto simp: follows_def)+
  moreover have "ahead (skip_tokens 1 s) (f # ?ts)" using ahead_step [OF at] by (simp add: skip_tokens_def)
  ultimately show "ParsePrimaryExpr r (skip_tokens 1 s) = (Inr (Some (operand f)), skip_tokens 2 s)"
    using run_operand [of "skip_tokens 1 s" f ?ts r] assms
    by (simp add: operations_at_def) (simp add: skip_tokens_def)
qed

lemma operations_left: "operations_at s xs rest \<Longrightarrow> 2 * length xs \<le> left s"
  unfolding operations_at_def ahead_def left_def
  by (metis length_append length_drop length_flat le_add1)

lemma left_skip [simp]: "left (skip_tokens k s) = left s - k"
  by (simp add: left_def skip_tokens_def)

text \<open>A round at an operator that does not bind tightly enough, or at the end, leaves the loop.\<close>

lemma rounds_stop:
  assumes "operations_at s xs rest" and "xs = [] \<or> prec_of (hd xs) < p"
  shows "binary_round r p e s = (Inr (Inr e), s)" "right_round r (p - 1) e s = (Inr (Inr e), s)"
  using assms(2)
  by (auto simp: binary_round_def right_round_def run_simps operator_here_operations [OF assms(1)]
      split: list.splits)

lemma binary_rounds_build_tree:
  assumes "operations_at s xs rest" and "length xs \<le> n" and "left s < k" and "0 \<le> p"
  shows "loop k (binary_round (parsers reg n) p) (Some e) s =
    (let us = takeWhile (\<lambda>x. p \<le> prec_of x) xs
     in (Inr (Some (tree e us)), skip_tokens (2 * length us) s))"
  using assms
proof (induction "length xs" arbitrary: xs s n k p e rule: less_induct)
  case less
  obtain k' where k: "k = Suc k'" using less.prems(3) by (cases k) auto
  show ?case
  proof (cases "xs = [] \<or> prec_of (hd xs) < p")
    case True
    then have "takeWhile (\<lambda>x. p \<le> prec_of x) xs = []" by (cases xs) auto
    moreover have "loop k (binary_round (parsers reg n) p) (Some e) s = (Inr (Some e), s)"
      unfolding k by (rule loop_break) (rule rounds_stop(1) [OF less.prems(1) True])
    ultimately show ?thesis by (simp add: tree.simps [of _ "[]"])
  next
    case False
    then obtain w f ys where xs: "xs = (w, f) # ys" by (cases xs) auto
    define q where "q = prec_of (w, f)"
    have q: "p \<le> q" using False xs by (simp add: q_def)
    obtain m where n: "n = Suc m" "length ys \<le> m" using less.prems(2) xs by (cases n) auto
    define us where "us = takeWhile (\<lambda>x. q < prec_of x) ys"
    define ws where "ws = dropWhile (\<lambda>x. q < prec_of x) ys"
    have ys: "ys = us @ ws" by (simp add: us_def ws_def)
    have ws: "ws = [] \<or> prec_of (hd ws) \<le> q"
    proof (cases "ws = []")
      case False
      then have "\<not> q < prec_of (hd ws)" unfolding ws_def by (rule hd_dropWhile)
      then show ?thesis by simp
    qed simp
    let ?r = "parsers reg n"
    let ?s2 = "skip_tokens 2 s" and ?s3 = "skip_tokens (2 + 2 * length us) s"
    have at2: "operations_at ?s2 ys rest"
      using operations_skip [of s w f "[]" ys rest] less.prems(1) xs by simp
    have at3: "operations_at ?s3 ws rest"
      using operations_skip [of s w f us ws rest] less.prems(1) xs ys by simp
    have right: "binary_right ?r q (Some (operand f)) ?s2 =
        (Inr (Some (tree (operand f) us)), ?s3)"
    proof (cases "us = []")
      case True
      have "ys = [] \<or> prec_of (hd ys) < q + 1" using True ws ys by auto
      from rounds_stop(2) [OF at2 this] show ?thesis
        using True by (simp add: binary_right_rounds repeat_loop loop_break tree.simps [of _ "[]"] del: loop.simps)
    next
      case False
      have "r_binary ?r (q + 1) (Some (operand f)) ?s2 = (Inr (Some (tree (operand f) us)), ?s3)"
      proof -
        have "takeWhile (\<lambda>x. q + 1 \<le> prec_of x) ys = us"
          unfolding us_def by (rule takeWhile_cong) auto
        with less.hyps [of ys ?s2 m "Suc (left ?s2)" "q + 1" "operand f"] at2 n xs q less.prems(4)
        show ?thesis
          by (simp add: n(1) unfold_parsers_def ParseBinaryExpr_rounds repeat_loop del: loop.simps)
      qed
      moreover obtain u us' where "us = u # us'" using False by (cases us) auto
      moreover from this have "q < prec_of u" unfolding us_def by (metis list.set_intros(1) set_takeWhileD)
      ultimately have first: "right_round ?r q (Some (operand f)) ?s2 =
          (Inr (Inl (Some (tree (operand f) us))), ?s3)"
        using ys by (cases u)
          (simp add: right_round_def run_simps operator_here_operations [OF at2])
      have "ws = [] \<or> prec_of (hd ws) < q + 1" using ws by auto
      from rounds_stop(2) [OF at3 this] have second: "right_round ?r q e ?s3 = (Inr (Inr e), ?s3)" for e
        by simp
      obtain j where "left ?s2 = Suc j"
        using operations_left [OF at2] False ys by (cases "left ?s2") auto
      have "binary_right ?r q (Some (operand f)) ?s2 =
          loop (Suc (Suc j)) (right_round ?r q) (Some (operand f)) ?s2"
        by (simp only: binary_right_rounds repeat_loop \<open>left ?s2 = Suc j\<close>)
      also have "\<dots> = loop (Suc j) (right_round ?r q) (Some (tree (operand f) us)) ?s3"
        by (rule loop_continue) (rule first)
      also have "\<dots> = (Inr (Some (tree (operand f) us)), ?s3)"
        by (rule loop_break) (rule second)
      finally show ?thesis .
    qed
    have round: "binary_round ?r p (Some e) s = (Inr (Inl (Some (join e w (tree (operand f) us)))), ?s3)"
    proof -
      have "Consume T_OPERATOR s = (Inr w, skip_tokens 1 s)"
        using operations_operand(1,2) less.prems(1) xs
        by (simp add: run_Consume binary_operator_def skip_tokens_def)
      moreover have "operator_here s = Some (w, q)"
        using operator_here_operations [OF less.prems(1)] xs by (simp add: q_def)
      moreover have "tok_value w \<noteq> ''?''"
        using binary_operator_values [of w] operations_operand(2) less.prems(1) xs by blast
      ultimately show ?thesis
        using operations_operand(3) [of s w f ys rest ?r] less.prems(1) xs q right
        by (simp add: binary_round_def run_simps join_def)
    qed
    have "loop k (binary_round ?r p) (Some e) s =
        loop k' (binary_round ?r p) (Some (join e w (tree (operand f) us))) ?s3"
      unfolding k by (rule loop_continue) (rule round)
    also have "\<dots> = (let vs = takeWhile (\<lambda>x. p \<le> prec_of x) ws
        in (Inr (Some (tree (join e w (tree (operand f) us)) vs)), skip_tokens (2 * length vs) ?s3))"
      using less.prems xs ys k operations_left [OF less.prems(1)] at3
      by (intro less.hyps) auto
    also have "\<dots> = (let us = takeWhile (\<lambda>x. p \<le> prec_of x) xs
        in (Inr (Some (tree e us)), skip_tokens (2 * length us) s))"
    proof -
      let ?vs = "takeWhile (\<lambda>x. p \<le> prec_of x) ws"
      have above: "\<forall>x \<in> set us. q < prec_of x" unfolding us_def by (meson set_takeWhileD)
      have "takeWhile (\<lambda>x. p \<le> prec_of x) (us @ ws) = us @ ?vs"
        using above q by (intro takeWhile_append2) auto
      then have "takeWhile (\<lambda>x. p \<le> prec_of x) xs = (w, f) # us @ ?vs"
        using xs ys q by (simp add: q_def)
      moreover have "?vs = [] \<or> prec_of (hd ?vs) \<le> prec_of (w, f)"
        using ws by (cases ws) (auto simp: q_def)
      ultimately show ?thesis
        using tree_join [of us w f ?vs e] above by (simp add: q_def Let_def algebra_simps)
    qed
    finally show ?thesis .
  qed
qed

lemma chain_operators: "chain e xs next \<Longrightarrow> x \<in> set xs \<Longrightarrow> binary_operator (fst x)"
  by (induction e xs "next" rule: chain.induct) auto

lemma chain_operations:
  assumes "ahead s (e # flat xs @ rest)" and "chain e xs (case rest of [] \<Rightarrow> None | t # _ \<Rightarrow> Some t)"
    and "p_depth s < MaximumRecursionDepth"
  shows "operations_at (skip_tokens 1 s) xs rest"
    and "ParsePrimaryExpr r s = (Inr (Some (operand e)), skip_tokens 1 s)"
    and "follows (current (skip_tokens 1 s))"
proof -
  let ?ts = "flat xs @ rest"
  let ?next = "case ?ts of [] \<Rightarrow> None | t # _ \<Rightarrow> Some t"
  have at: "ahead (skip_tokens 1 s) ?ts" using ahead_step [OF assms(1)] by (simp add: skip_tokens_def)
  with assms(2,3) show "operations_at (skip_tokens 1 s) xs rest"
    by (cases xs) (auto simp: operations_at_def Let_def)
  have "next": "simple_operand e ?next" "follows ?next"
    using assms(2) by (cases xs; auto simp: follows_def)+
  from run_operand [OF assms(1) this assms(3)]
  show "ParsePrimaryExpr r s = (Inr (Some (operand e)), skip_tokens 1 s)" by (simp add: skip_tokens_def)
  have "current (skip_tokens 1 s) = ?next" using at by (cases ?ts) simp_all
  with "next" show "follows (current (skip_tokens 1 s))" by simp
qed

section \<open>Properties\<close>

text \<open>
  C3. An expression of operands and binary operators is parsed into the tree that operator
  precedence asks for: every operator is applied to the trees of what stands on its two sides,
  the last of the operators of lowest precedence being applied last, so that operators of equal
  precedence associate to the left. All operators and operands are consumed, nothing else is.
\<close>

theorem expression_tree_follows_precedence:
  assumes "drop (p_pos s) (p_tokens s) = e # flat xs @ rest"
    and "chain e xs (case rest of [] \<Rightarrow> None | t # _ \<Rightarrow> Some t)"
    and "p_depth s + 1 < MaximumRecursionDepth" and "length xs \<le> n"
  shows "ParseExpression (parsers reg n) s =
    (Inr (Some (set_source (p_file s) (tok_line e) (tok_column e) (tree (operand e) xs))),
     skip_tokens (1 + 2 * length xs) s)"
proof -
  let ?r = "parsers reg n" and ?d = "s\<lparr>p_depth := p_depth s + 1\<rparr>"
  have at: "ahead ?d (e # flat xs @ rest)" using assms(1) by (simp add: ahead_def)
  have depth: "p_depth ?d < MaximumRecursionDepth" using assms(3) by simp
  note chain = chain_operations [OF at assms(2) depth]
  have no_assignment: "\<not> at_assignment (skip_tokens 1 ?d)"
    using chain(3) follows_values(3) by (auto simp: at_assignment_def split: option.splits)
  have tree: "(if is_type T_OPERATOR (current (skip_tokens 1 ?d))
      then ParseBinaryExpr ?r 0 (Some (operand e)) (skip_tokens 1 ?d)
      else ret (Some (operand e)) (skip_tokens 1 ?d)) =
      (Inr (Some (tree (operand e) xs)), skip_tokens (1 + 2 * length xs) ?d)"
  proof (cases xs)
    case Nil
    have "ends_expression (current (skip_tokens 1 ?d))"
      using chain(1) Nil by (cases rest) (auto simp: operations_at_def Let_def)
    then have "\<not> is_type T_OPERATOR (current (skip_tokens 1 ?d))"
      by (auto simp: ends_expression_def is_type_def split: option.splits)
    with Nil show ?thesis by (simp add: ret_def tree.simps [of _ "[]"])
  next
    case (Cons x ys)
    obtain w f where x: "x = (w, f)" by (cases x)
    have "is_type T_OPERATOR (current (skip_tokens 1 ?d))"
      using operations_operand(1,2) [of "skip_tokens 1 ?d" w f ys rest] chain(1) Cons x
      by (simp add: is_type_def binary_operator_def)
    moreover have "takeWhile (\<lambda>x. 0 \<le> prec_of x) xs = xs"
      using chain_operators [OF assms(2)]
      by (fastforce simp: takeWhile_eq_all_conv binary_operator_def prec_of_def)
    ultimately show ?thesis
      using binary_rounds_build_tree [OF chain(1) assms(4), of "Suc (left (skip_tokens 1 ?d))" 0]
      by (simp add: ParseBinaryExpr_rounds repeat_loop Let_def del: takeWhile_eq_all_conv loop.simps)
  qed
  have "ParseExpressionImpl ?r s = (Inr (Some (tree (operand e) xs)), skip_tokens (1 + 2 * length xs) s)"
  proof -
    have "current ?d \<noteq> None" using at by simp
    moreover have "skip_tokens (1 + 2 * length xs) ?d\<lparr>p_depth := p_depth s\<rparr> =
        skip_tokens (1 + 2 * length xs) s"
      by (simp add: skip_tokens_def)
    ultimately show ?thesis
      using chain(2) [of ?r] no_assignment tree assms(3)
      by (simp add: ParseExpressionImpl_def guarded_def run_simps split: if_splits)
  qed
  with at show ?thesis
    by (simp add: ParseExpression_def run_simps locate_def skip_tokens_def)
qed

definition number_token :: "string \<Rightarrow> token" where
  "number_token v = \<lparr>tok_type = T_NUMBER, tok_value = v, tok_line = 1, tok_column = 1\<rparr>"

definition operator_token :: "string \<Rightarrow> token" where
  "operator_token v = \<lparr>tok_type = T_OPERATOR, tok_value = v, tok_line = 1, tok_column = 1\<rparr>"

lemma operator_token_value [simp]: "tok_value (operator_token v) = v"
  by (simp add: operator_token_def)

lemma expression_tree_follows_precedence_witness:
  "\<exists>ast s. ParseExpression (parsers empty_registry 3)
      (new_parser [number_token ''1'', operator_token ''+'', number_token ''2'', operator_token ''*'',
         number_token ''3'', operator_token ''-'', number_token ''4''] [] [] []) =
      (Inr (Some ast), s) \<and> p_pos s = 7 \<and>
    ekind ast = BinaryExpr ''-''
      (Some (join (operand (number_token ''1'')) (operator_token ''+'')
        (join (operand (number_token ''2'')) (operator_token ''*'') (operand (number_token ''3'')))))
      (Some (operand (number_token ''4'')))"
proof -
  let ?xs = "[(operator_token ''+'', number_token ''2''), (operator_token ''*'', number_token ''3''),
    (operator_token ''-'', number_token ''4'')]"
  let ?s = "new_parser (number_token ''1'' # flat ?xs) [] [] []"
  have chain: "chain (number_token ''1'') ?xs None"
    by code_simp
  have run: "ParseExpression (parsers empty_registry 3) ?s =
      (Inr (Some (set_source (p_file ?s) (tok_line (number_token ''1'')) (tok_column (number_token ''1''))
        (tree (operand (number_token ''1'')) ?xs))), skip_tokens (1 + 2 * length ?xs) ?s)"
    by (rule expression_tree_follows_precedence [where rest = "[]"])
      (use chain in \<open>simp_all add: new_parser_def MaximumRecursionDepth_def\<close>)
  have "tree (operand (number_token ''1'')) ?xs =
      join (join (operand (number_token ''1'')) (operator_token ''+'')
        (join (operand (number_token ''2'')) (operator_token ''*'') (operand (number_token ''3''))))
        (operator_token ''-'') (operand (number_token ''4''))"
    by code_simp
  with run show ?thesis
    by (simp add: new_parser_def skip_tokens_def set_source_def join_def node_def)
qed

end
