(* ===== verification/Parser_Invariants.thy ===== *)
theory Parser_Invariants
  imports Parser_Progress
begin

text \<open>
  What every parse function keeps of the parser's state, whether it returns or fails: the
  recursion depth is restored, the file and the number of tokens do not change, diagnostics are
  only added, and the scopes that were open stay open; a function that returns leaves the scope
  stack as it was, and one that fails may leave scopes of the types whose declarations it was in. The contract is stated for the recursive calls as the locale
  \<open>framed_parsers\<close>, and the parsers of every level are an instance of it.
\<close>

section \<open>The frame of a run\<close>

definition type_scope :: "ScopeType \<Rightarrow> bool" where
  "type_scope t \<longleftrightarrow> t = S_Class \<or> t = S_Struct \<or> t = S_Interface"

lemma type_scope_simps [simp]: "type_scope S_Class" "type_scope S_Struct" "type_scope S_Interface"
  by (simp_all add: type_scope_def)

definition frame :: "pstate \<Rightarrow> bool \<Rightarrow> pstate \<Rightarrow> bool" where
  "frame s returned s' \<longleftrightarrow>
     p_depth s' = p_depth s \<and> p_file s' = p_file s \<and> length (p_tokens s') = length (p_tokens s) \<and>
     (\<exists>added. p_log s' = p_log s @ added) \<and>
     (\<exists>opened. p_scopes s' = p_scopes s @ opened \<and> (returned \<longrightarrow> opened = []) \<and>
        (\<forall>x \<in> set opened. type_scope (fst x)))"

definition frames :: "'a parse \<Rightarrow> pstate \<Rightarrow> bool" where
  "frames m s \<longleftrightarrow> (case m s of (x, s') \<Rightarrow> frame s (\<not> isl x) s')"

lemma frame_refl [simp]: "frame s b s"
  by (simp add: frame_def)

lemma frame_trans: "frame s True t \<Longrightarrow> frame t b u \<Longrightarrow> frame s b u"
  by (auto simp: frame_def)

lemma frame_weaken: "frame s True t \<Longrightarrow> frame s b t"
  by (auto simp: frame_def)

lemma frame_update [simp]:
  "frame s b (s\<lparr>p_log := p_log s @ l\<rparr>)" "frame s b (s\<lparr>p_attributes := a\<rparr>)"
  "frame s b (s\<lparr>p_modifiers := ms\<rparr>)" "frame s b (s\<lparr>p_pos := i\<rparr>)" "frame s b (set_token i f s)"
  by (simp_all add: frame_def set_token_def)

lemma frames_ret [simp]: "frames (ret x) s"
  by (simp add: frames_def ret_def)

lemma frames_continue [simp]: "frames (continue x) s"
  by (simp add: continue_def)

lemma frames_break [simp]: "frames (break x) s"
  by (simp add: break_def)

lemma frames_throw [simp]: "frames (throw e) s"
  by (simp add: frames_def throw_def)

lemma frames_get [simp]: "frames (get f) s"
  by (simp add: frames_def get_def)

lemma frames_modify: "frames (modify f) s \<longleftrightarrow> frame s True (f s)"
  by (simp add: frames_def modify_def)

lemma frames_bind [simp]: "frames m s \<Longrightarrow> \<forall>x s'. frames (f x) s' \<Longrightarrow> frames (bind m f) s"
  by (fastforce simp: frames_def bind_def split: prod.splits sum.splits intro: frame_trans)

lemma frames_bind_get [simp]: "frames (bind (get f) k) s \<longleftrightarrow> frames (k (f s)) s"
  by (simp add: frames_def bind_def get_def)

lemma frames_seq [simp]: "frames (seq m k) s \<longleftrightarrow> frames (bind m (\<lambda>_. k)) s"
  by (simp add: seq_def)

lemma frames_cond [simp]:
  "frames (cond q m k) s \<longleftrightarrow> (q s \<longrightarrow> frames m s) \<and> (\<not> q s \<longrightarrow> frames k s)"
  by (simp add: frames_def cond_def)

lemma frames_if [simp]:
  "frames (if q then m else k) s \<longleftrightarrow> (q \<longrightarrow> frames m s) \<and> (\<not> q \<longrightarrow> frames k s)"
  by simp

lemma frames_option [simp]:
  "frames (case x of None \<Rightarrow> m | Some y \<Rightarrow> f y) s \<longleftrightarrow>
     (x = None \<longrightarrow> frames m s) \<and> (\<forall>y. x = Some y \<longrightarrow> frames (f y) s)"
  by (cases x) simp_all

lemma frames_sum [simp]:
  "frames (case x of Inl y \<Rightarrow> g y | Inr y \<Rightarrow> f y) s \<longleftrightarrow>
     (\<forall>y. x = Inl y \<longrightarrow> frames (g y) s) \<and> (\<forall>y. x = Inr y \<longrightarrow> frames (f y) s)"
  by (cases x) simp_all

lemma frames_prod [simp]:
  "frames (case x of (y, z) \<Rightarrow> f y z) s \<longleftrightarrow> (\<forall>y z. x = (y, z) \<longrightarrow> frames (f y z) s)"
  by (cases x) simp

lemma frames_guarded [simp]:
  assumes "frames m (s\<lparr>p_depth := p_depth s + 1\<rparr>)"
  shows "frames (guarded m) s"
  using assms
  by (auto simp: frames_def frame_def guarded_def report_throw_def ReportSyntaxError_def seq_def
      bind_def modify_def throw_def split: prod.splits)

lemma loop_frames: "\<forall>acc s. frames (body acc) s \<Longrightarrow> frames (loop n body acc) s"
  by (induction n arbitrary: acc s) simp_all

lemma frames_repeat [simp]: "\<forall>acc s. frames (body acc) s \<Longrightarrow> frames (repeat body acc) s"
  by (simp add: repeat_def loop_frames)

section \<open>The primitives\<close>

lemma frames_step [simp]: "frames step s"
  by (simp add: step_def frames_modify)

lemma frames_deref [simp]: "frames (deref t) s"
  by (simp add: deref_def)

lemma frames_CurrentToken [simp]: "frames CurrentToken s"
  by (simp add: CurrentToken_def)

lemma frames_PeekToken [simp]: "frames (PeekToken k) s"
  by (simp add: PeekToken_def)

lemma frames_CurrentDeref [simp]: "frames CurrentDeref s"
  by (simp add: CurrentDeref_def)

lemma frames_ReportSyntaxError [simp]: "frames (ReportSyntaxError t m) s"
  by (simp add: ReportSyntaxError_def frames_modify)

lemma frames_report_throw [simp]: "frames (report_throw t m w) s"
  by (simp add: report_throw_def)

lemma frames_fail_here [simp]: "frames (fail_here m w) s"
  by (simp add: fail_here_def)

lemma frames_RequireCurrent [simp]: "frames (RequireCurrent e) s"
  by (simp add: RequireCurrent_def)

lemma frames_Consume [simp]: "frames (Consume k) s"
  by (simp add: Consume_def Let_def)

lemma frames_ConsumeVal [simp]: "frames (ConsumeVal k v) s"
  by (simp add: ConsumeVal_def Let_def)

lemma frames_ConsumeTemplateClose [simp]: "frames ConsumeTemplateClose s"
  by (simp add: ConsumeTemplateClose_def frames_modify)

lemma frames_locate [simp]: "frames (locate t e) s"
  by (simp add: locate_def)

lemma frames_locate_stmt [simp]: "frames (locate_stmt t e) s"
  by (simp add: locate_stmt_def)

text \<open>A scope that is entered, used and left.\<close>

lemma frames_scope [simp]:
  assumes "type_scope t" and "\<forall>s. frames m s" and "\<forall>x s. frames (k x) s"
  shows "frames (bind (EnterScope t n) (\<lambda>_. bind m (\<lambda>x. seq ExitScope (k x)))) s"
proof -
  let ?s = "s\<lparr>p_scopes := p_scopes s @ [(t, n)]\<rparr>"
  obtain x s' where m: "m ?s = (x, s')" by (cases "m ?s")
  from assms(2) have f: "frame ?s (\<not> isl x) s'" using m unfolding frames_def by (auto dest: spec [of _ ?s])
  show ?thesis
  proof (cases x)
    case (Inl e)
    with f m assms(1) show ?thesis
      by (auto simp: frames_def frame_def bind_def EnterScope_def modify_def)
  next
    case (Inr y)
    with f have "frame s True (pop_scope s')" by (auto simp: frame_def pop_scope_def)
    moreover have "frames (k y) (pop_scope s')" using assms(3) by blast
    ultimately show ?thesis using Inr m
      by (auto simp: frames_def seq_def bind_def EnterScope_def ExitScope_def modify_def
        split: prod.splits intro: frame_trans)
  qed
qed

lemma frames_scope_on_exception [simp]:
  assumes "type_scope t" and "\<forall>s. frames m s" and "\<forall>x s. frames (k x) s"
  shows "frames (bind (EnterScope t n) (\<lambda>_. bind (on_exception m pop_scope)
    (\<lambda>x. seq ExitScope (k x)))) s"
proof -
  let ?s = "s\<lparr>p_scopes := p_scopes s @ [(t, n)]\<rparr>"
  obtain x s' where m: "m ?s = (x, s')" by (cases "m ?s")
  from assms(2) have f: "frame ?s (\<not> isl x) s'" using m unfolding frames_def by (auto dest: spec [of _ ?s])
  show ?thesis
  proof (cases x)
    case (Inl e)
    with f m assms(1) show ?thesis
      by (auto simp: frames_def frame_def bind_def EnterScope_def modify_def on_exception_def
          pop_scope_def butlast_append dest!: in_set_butlastD)
  next
    case (Inr y)
    with f have "frame s True (pop_scope s')" by (auto simp: frame_def pop_scope_def)
    moreover have "frames (k y) (pop_scope s')" using assms(3) by blast
    ultimately show ?thesis using Inr m
      by (auto simp: frames_def seq_def bind_def EnterScope_def ExitScope_def modify_def on_exception_def
        split: prod.splits intro: frame_trans)
  qed
qed

lemma frames_scope_on_exception4 [simp]:
  assumes "type_scope t" and "\<forall>s. frames m s" and "\<forall>a b c d s. frames (k a b c d) s"
  shows "frames (bind (EnterScope t n) (\<lambda>_. bind (on_exception m pop_scope)
    (\<lambda>(a, b, c, d). seq ExitScope (k a b c d)))) s"
  using frames_scope_on_exception [of t m "\<lambda>(a, b, c, d). k a b c d"] assms
  by (simp add: case_prod_unfold)

section \<open>The parse functions that make no recursive call\<close>

lemma frames_consumeName [simp]: "frames consumeName s"
  by (simp add: consumeName_def)

lemma frames_attribute_name_loop [simp]: "frames (attribute_name_loop n) s"
  by (simp add: attribute_name_loop_def)

lemma frames_attribute_value [simp]: "frames attribute_value s"
  by (simp add: attribute_value_def)

lemma frames_attribute_argument_name [simp]: "frames attribute_argument_name s"
  by (simp add: attribute_argument_name_def)

lemma frames_attribute_arguments [simp]: "frames attribute_arguments s"
  by (simp add: attribute_arguments_def Let_def)

lemma frames_ParseAttributes [simp]: "frames ParseAttributes s"
  by (simp add: ParseAttributes_def frames_modify)

lemma frames_ParseModifiers [simp]: "frames ParseModifiers s"
  by (simp add: ParseModifiers_def frames_modify)

lemma frames_template_constraint [simp]: "frames (template_constraint a) s"
  by (simp add: template_constraint_def)

lemma frames_template_parameter [simp]: "frames (template_parameter a acc) s"
  by (simp add: template_parameter_def Let_def)

lemma frames_ParseTemplateParameters [simp]: "frames (ParseTemplateParameters a) s"
  by (simp add: ParseTemplateParameters_def)

lemma frames_ParseQualifiedName [simp]: "frames ParseQualifiedName s"
  by (simp add: ParseQualifiedName_def)

lemma frames_ParseMemberAccess [simp]: "frames (ParseMemberAccess e) s"
  by (simp add: ParseMemberAccess_def)

lemma frames_ParsePrimitiveType [simp]: "frames ParsePrimitiveType s"
  by (simp add: ParsePrimitiveType_def)

lemma frames_pointer_stars [simp]: "frames (pointer_stars p) s"
  by (simp add: pointer_stars_def)

lemma frames_ParsePointerSuffix [simp]: "frames (ParsePointerSuffix e k) s"
  by (simp add: ParsePointerSuffix_def Let_def)

lemma frames_ParseOwnership [simp]: "frames ParseOwnership s"
  by (simp add: ParseOwnership_def)

lemma frames_array_suffixes [simp]: "frames (array_suffixes e) s"
  by (simp add: array_suffixes_def)

lemma frames_unquote [simp]: "frames (unquote v) s"
  by (simp add: unquote_def)

lemma frames_unescaped [simp]: "frames (unescaped v) s"
  by (simp add: unescaped_def)

lemma frames_ParseCharLiteralExpr [simp]: "frames ParseCharLiteralExpr s"
  by (simp add: ParseCharLiteralExpr_def)

lemma frames_ParseNumberLiteralExpr [simp]: "frames ParseNumberLiteralExpr s"
  by (simp add: ParseNumberLiteralExpr_def)

lemma frames_ParseBooleanLiteralExpr [simp]: "frames ParseBooleanLiteralExpr s"
  by (simp add: ParseBooleanLiteralExpr_def)

lemma frames_argument_mode [simp]: "frames argument_mode s"
  by (simp add: argument_mode_def)

lemma frames_optional_keyword [simp]: "frames (optional_keyword kw) s"
  by (simp add: optional_keyword_def)

lemma frames_required_keyword [simp]: "frames (required_keyword kw) s"
  by (simp add: required_keyword_def)

lemma frames_out_alias [simp]: "frames out_alias s"
  by (simp add: out_alias_def)

lemma frames_ampersand [simp]: "frames ampersand s"
  by (simp add: ampersand_def)

lemma frames_make_parameter [simp]: "frames (make_parameter t n v fl st) s"
  by (simp add: make_parameter_def)

lemma frames_ParsePostfixUnaryExpr [simp]: "frames (ParsePostfixUnaryExpr e) s"
  by (simp add: ParsePostfixUnaryExpr_def)

lemma frames_located_var [simp]: "frames (located_var t k) s"
  by (simp add: located_var_def)

lemma frames_with_current [simp]: "frames (with_current st) s"
  by (simp add: with_current_def)

lemma frames_trailing_const [simp]: "frames (trailing_const ms) s"
  by (simp add: trailing_const_def)

lemma frames_accessor_keyword [simp]: "frames (accessor_keyword a w) s"
  by (simp add: accessor_keyword_def)

lemma frames_enum_sign [simp]: "frames enum_sign s"
  by (simp add: enum_sign_def)

lemma frames_enum_initialiser [simp]: "frames (enum_initialiser n) s"
  by (simp add: enum_initialiser_def)

lemma frames_enum_comma [simp]: "frames (enum_comma ec) s"
  by (simp add: enum_comma_def)

lemma frames_enum_members [simp]: "frames enum_members s"
  by (simp add: enum_members_def)

lemma frames_ParseEnumDecl [simp]: "frames ParseEnumDecl s"
  by (simp add: ParseEnumDecl_def)

lemma frames_ParseImport [simp]: "frames ParseImport s"
  by (simp add: ParseImport_def)

lemma frames_CloneType [simp]: "frames (CloneType e) s"
  by (cases e) (simp_all add: frames_def CloneType_def throw_def)

lemma frames_CloneIndexerType [simp]: "frames (CloneIndexerType e) s"
  by (cases e) (simp_all add: frames_def CloneIndexerType_def throw_def)

lemma frames_CloneIndexerTypeExpression [simp]: "frames (CloneIndexerTypeExpression e) s"
  by (cases e) (simp_all add: frames_def CloneIndexerTypeExpression_def throw_def)

lemma frames_CloneIndexerParameter [simp]: "frames (CloneIndexerParameter p) s"
  by (cases "ekind p") (simp_all add: CloneIndexerParameter_def)

lemma frames_clone_parameters [simp]: "frames (clone_parameters ps) s"
  by (induction ps arbitrary: s) simp_all

lemma frames_element_stars [simp]: "frames (element_stars n e w) s"
  by (induction n e w arbitrary: s rule: element_stars.induct) simp_all

lemma frames_jump_statement [simp]: "frames (jump_statement kw k) s"
  by (simp add: jump_statement_def)

lemma frames_try_opaque [simp]: "frames (try_opaque r) s"
  by (auto simp: frames_def try_opaque_def throw_def split: sum.splits option.splits)

section \<open>The contract of the recursive calls\<close>

locale framed_parsers =
  fixes r :: parsers
  assumes expr [simp]: "frames (r_expr r) s"
    and primary [simp]: "frames (r_primary r) s"
    and prefix [simp]: "frames (r_prefix r) s"
    and binary [simp]: "frames (r_binary r p e) s"
    and type [simp]: "frames (r_type r) s"
    and array_values [simp]: "frames (r_values r) s"
    and statement [simp]: "frames (r_stmt r) s"
    and group [simp]: "frames (r_group r) s"
begin

lemma frames_embedded_expression [simp]: "frames (embedded_expression r t code) s"
proof (cases "lexer (IsSyntaxPluginKeyword (r_registry r)) code")
  case (Inl e)
  then show ?thesis by (simp add: frames_def embedded_expression_def throw_def)
next
  case (Inr toks)
  have "frames (r_expr r) (new_parser toks [] (p_scopes s) (p_log s))" by simp
  with Inr show ?thesis
    by (cases "toks = []"; cases "r_expr r (new_parser toks [] (p_scopes s) (p_log s))")
      (auto simp: frames_def embedded_expression_def frame_def new_parser_def report_throw_def
        ReportSyntaxError_def seq_def bind_def modify_def throw_def Let_def
        split: sum.splits option.splits)
qed

lemma frames_embedded_expressions [simp]: "frames (embedded_expressions r t codes) s"
  by (induction codes arbitrary: s) simp_all

lemma frames_interpolation_error [simp]:
  "frames (case x of Bad_escape e \<Rightarrow> m e | Unmatched_brace \<Rightarrow> k) s \<longleftrightarrow>
     (\<forall>e. x = Bad_escape e \<longrightarrow> frames (m e) s) \<and> (x = Unmatched_brace \<longrightarrow> frames k s)"
  by (cases x) simp_all

lemma frames_ParseTemplateExpr [simp]: "frames (ParseTemplateExpr r e) s"
  by (simp add: ParseTemplateExpr_def)

lemma frames_named_type [simp]: "frames (named_type r n) s"
  by (simp add: named_type_def)

lemma frames_ParseType [simp]: "frames (ParseType r) s"
  by (simp add: ParseType_def)

lemma frames_ParseStringLiteralExpr [simp]: "frames (ParseStringLiteralExpr r) s"
  by (simp add: ParseStringLiteralExpr_def)

lemma frames_ParseLiteralExpr [simp]: "frames (ParseLiteralExpr r) s"
  by (simp add: ParseLiteralExpr_def)

lemma frames_ParseArguments [simp]: "frames (ParseArguments r) s"
  by (simp add: ParseArguments_def Let_def)

lemma frames_ParseParameter [simp]: "frames (ParseParameter r) s"
  by (simp add: ParseParameter_def Let_def)

lemma frames_ParseParameters [simp]: "frames (ParseParameters r) s"
  by (simp add: ParseParameters_def)

lemma frames_ParseFunctionCallExpr [simp]: "frames (ParseFunctionCallExpr r e) s"
  by (simp add: ParseFunctionCallExpr_def)

lemma frames_slice_range [simp]: "frames (slice_range r) s"
  by (simp add: slice_range_def)

lemma frames_slice_ranges [simp]: "frames (slice_ranges r) s"
  by (simp add: slice_ranges_def)

lemma frames_ParseArrayAccess [simp]: "frames (ParseArrayAccess r e) s"
  by (simp add: ParseArrayAccess_def)

lemma frames_ParseCastExpr [simp]: "frames (ParseCastExpr r e) s"
  by (simp add: ParseCastExpr_def Let_def)

lemma frames_ParseSuffixExpr [simp]: "frames (ParseSuffixExpr r e) s"
  by (simp add: ParseSuffixExpr_def)

lemma frames_ParseIdentifierExpr [simp]: "frames (ParseIdentifierExpr r a) s"
  by (simp add: ParseIdentifierExpr_def)

lemma frames_ParseArrayValues [simp]: "frames (ParseArrayValues r) s"
  by (simp add: ParseArrayValues_def)

lemma frames_constructed_type [simp]: "frames (constructed_type r) s"
  by (simp add: constructed_type_def)

lemma frames_constructor_arguments [simp]: "frames (constructor_arguments r e w) s"
  by (simp add: constructor_arguments_def)

lemma frames_ParseConstructorCall [simp]: "frames (ParseConstructorCall r) s"
  by (simp add: ParseConstructorCall_def)

lemma frames_ParseDestructorCall [simp]: "frames (ParseDestructorCall r) s"
  by (simp add: ParseDestructorCall_def)

lemma frames_statement_list [simp]: "frames (statement_list r stop m w) s"
  by (simp add: statement_list_def)

lemma frames_ParseCompoundStatement [simp]: "frames (ParseCompoundStatement r) s"
  by (simp add: ParseCompoundStatement_def)

lemma frames_ParseLambdaExpr [simp]: "frames (ParseLambdaExpr r) s"
  by (simp add: ParseLambdaExpr_def)

lemma frames_ParsePrefixUnaryExpr [simp]: "frames (ParsePrefixUnaryExpr r) s"
  by (simp add: ParsePrefixUnaryExpr_def)

lemma frames_parenthesised [simp]: "frames (parenthesised r) s"
  by (simp add: parenthesised_def)

lemma frames_ParseBaseExpr [simp]: "frames (ParseBaseExpr r) s"
  by (simp add: ParseBaseExpr_def)

lemma frames_ParsePrimaryExpr [simp]: "frames (ParsePrimaryExpr r) s"
  by (simp add: ParsePrimaryExpr_def)

lemma frames_ParseTernaryExpr [simp]: "frames (ParseTernaryExpr r e) s"
  by (simp add: ParseTernaryExpr_def)

lemma frames_binary_right [simp]: "frames (binary_right r p e) s"
  by (simp add: binary_right_def)

lemma frames_ParseBinaryExpr [simp]: "frames (ParseBinaryExpr r p e) s"
  by (simp add: ParseBinaryExpr_def)

lemma frames_ParseAssignmentExpr [simp]: "frames (ParseAssignmentExpr r e) s"
  by (simp add: ParseAssignmentExpr_def frames_modify)

lemma frames_ParseExpressionImpl [simp]: "frames (ParseExpressionImpl r) s"
  by (simp add: ParseExpressionImpl_def)

lemma frames_ParseExpression [simp]: "frames (ParseExpression r) s"
  by (simp add: ParseExpression_def)

lemma frames_ParseVarDeclExpr [simp]: "frames (ParseVarDeclExpr r) s"
  by (simp add: ParseVarDeclExpr_def)

lemma frames_ParseVarDeclaration [simp]: "frames (ParseVarDeclaration r) s"
  by (simp add: ParseVarDeclaration_def Let_def)

lemma frames_ParseInstanceDeclExpr [simp]: "frames (ParseInstanceDeclExpr r c1 c2) s"
  by (simp add: ParseInstanceDeclExpr_def)

lemma frames_ParseInstanceDeclStmt [simp]: "frames (ParseInstanceDeclStmt r) s"
  by (simp add: ParseInstanceDeclStmt_def)

lemma frames_condition_in_parentheses [simp]: "frames (condition_in_parentheses r) s"
  by (simp add: condition_in_parentheses_def)

lemma frames_else_branches [simp]: "frames (else_branches r x) s"
  by (simp add: else_branches_def)

lemma frames_ParseIfStmt [simp]: "frames (ParseIfStmt r) s"
  by (simp add: ParseIfStmt_def)

lemma frames_ParseWhileStmt [simp]: "frames (ParseWhileStmt r) s"
  by (simp add: ParseWhileStmt_def)

lemma frames_ParseDoWhileStmt [simp]: "frames (ParseDoWhileStmt r) s"
  by (simp add: ParseDoWhileStmt_def)

lemma frames_ParseForEachStmt [simp]: "frames (ParseForEachStmt r) s"
  by (simp add: ParseForEachStmt_def)

lemma frames_for_initialiser [simp]: "frames (for_initialiser r) s"
  by (simp add: for_initialiser_def)

lemma frames_comma_separated [simp]: "\<forall>s. frames m s \<Longrightarrow> frames (comma_separated m) s"
  by (simp add: comma_separated_def)

lemma frames_unless_at [simp]: "frames m s \<Longrightarrow> \<forall>s. frames m s \<Longrightarrow> frames (unless_at k v m a) s"
  by (simp add: unless_at_def)

lemma frames_ParseForStmt [simp]: "frames (ParseForStmt r) s"
  by (simp add: ParseForStmt_def)

lemma frames_parseCaseBody [simp]: "frames (parseCaseBody r) s"
  by (simp add: parseCaseBody_def)

lemma frames_switch_branch [simp]: "frames (switch_branch r acc) s"
  by (simp add: switch_branch_def)

lemma frames_ParseSwitchStmt [simp]: "frames (ParseSwitchStmt r x) s"
  by (simp add: ParseSwitchStmt_def)

lemma frames_ParseThrowStmt [simp]: "frames (ParseThrowStmt r) s"
  by (simp add: ParseThrowStmt_def)

lemma frames_braced [simp]: "frames (braced r m w) s"
  by (simp add: braced_def)

lemma frames_catch_clauses [simp]: "frames (catch_clauses r) s"
  by (simp add: catch_clauses_def)

lemma frames_ParseTryStmt [simp]: "frames (ParseTryStmt r) s"
  by (simp add: ParseTryStmt_def)

lemma frames_ParseDeferStmt [simp]: "frames (ParseDeferStmt r) s"
  by (simp add: ParseDeferStmt_def)

lemma frames_ParseReturnStmt [simp]: "frames (ParseReturnStmt r) s"
  by (simp add: ParseReturnStmt_def)

lemma frames_ParseFunctionDeclaration [simp]: "frames (ParseFunctionDeclaration r) s"
  by (simp add: ParseFunctionDeclaration_def)

lemma frames_abi_signature [simp]: "frames (abi_signature r k n1 n2) s"
  by (simp add: abi_signature_def)

lemma frames_ParseExternalFunctionDeclaration [simp]: "frames (ParseExternalFunctionDeclaration r) s"
  by (simp add: ParseExternalFunctionDeclaration_def)

lemma frames_ParseExportFunctionDeclaration [simp]: "frames (ParseExportFunctionDeclaration r) s"
  by (simp add: ParseExportFunctionDeclaration_def)

lemma frames_ParseConstructor [simp]: "frames (ParseConstructor r) s"
  by (simp add: ParseConstructor_def)

lemma frames_property_body [simp]: "frames (property_body r) s"
  by (simp add: property_body_def)

lemma frames_property_accessor [simp]: "frames (property_accessor r ms e t acc) s"
  by (simp add: property_accessor_def Let_def)

lemma frames_ParsePropertyDeclaration [simp]: "frames (ParsePropertyDeclaration r) s"
  by (simp add: ParsePropertyDeclaration_def)

lemma frames_indexer_parameters [simp]: "frames (indexer_parameters r) s"
  by (simp add: indexer_parameters_def Let_def)

lemma frames_indexer_body [simp]: "frames (indexer_body r t) s"
  by (simp add: indexer_body_def)

lemma frames_indexer_accessor [simp]: "frames (indexer_accessor r ms e ps acc) s"
  by (simp add: indexer_accessor_def Let_def)

lemma frames_ParseIndexerDeclaration [simp]: "frames (ParseIndexerDeclaration r) s"
  by (simp add: ParseIndexerDeclaration_def)

lemma frames_ParseParentTypeName [simp]: "frames (ParseParentTypeName r) s"
  by (simp add: ParseParentTypeName_def)

lemma frames_class_parents [simp]: "frames (class_parents r) s"
  by (simp add: class_parents_def)

lemma frames_ParseClassDecl [simp]: "frames (ParseClassDecl r) s"
  by (simp add: ParseClassDecl_def)

lemma frames_ParseStructDecl [simp]: "frames (ParseStructDecl r) s"
  by (simp add: ParseStructDecl_def)

lemma frames_interface_parents [simp]: "frames (interface_parents r) s"
  by (simp add: interface_parents_def)

lemma frames_interface_body [simp]: "frames (interface_body r) s"
  by (simp add: interface_body_def)

lemma frames_interface_method [simp]: "frames (interface_method r) s"
  by (simp add: interface_method_def)

lemma frames_interface_member [simp]: "frames (interface_member r acc) s"
  by (simp add: interface_member_def)

lemma frames_interface_members [simp]: "frames (interface_members r) s"
  by (simp add: interface_members_def)

lemma frames_ParseInterfaceDecl [simp]: "frames (ParseInterfaceDecl r) s"
  by (simp add: ParseInterfaceDecl_def)

lemma frames_group_members [simp]: "frames (group_members r) s"
  by (simp add: group_members_def)

lemma frames_ParseGroupDecl [simp]: "frames (ParseGroupDecl r) s"
  by (simp add: ParseGroupDecl_def)

lemma frames_ParseTypeAlias [simp]: "frames (ParseTypeAlias r) s"
  by (simp add: ParseTypeAlias_def)

lemma frames_ParseNamespace [simp]: "frames (ParseNamespace r) s"
  by (simp add: ParseNamespace_def)

lemma frames_ParseIdentifier [simp]: "frames (ParseIdentifier r) s"
  by (simp add: ParseIdentifier_def)

lemma frames_kind_of_statement [simp]:
  "frames (case x of Variable_declaration \<Rightarrow> m1 | Instance_declaration \<Rightarrow> m2
     | Identifier_statement \<Rightarrow> m3) s \<longleftrightarrow>
     (x = Variable_declaration \<longrightarrow> frames m1 s) \<and> (x = Instance_declaration \<longrightarrow> frames m2 s) \<and>
     (x = Identifier_statement \<longrightarrow> frames m3 s)"
  by (cases x) simp_all

lemma frames_identifier_statement [simp]: "frames (identifier_statement r) s"
  by (simp add: identifier_statement_def)

lemma frames_some_stmt [simp]: "frames m s \<Longrightarrow> frames (some_stmt m) s"
  by (simp add: some_stmt_def)

lemma frames_primitive_statement [simp]: "frames (primitive_statement r) s"
  by (simp add: primitive_statement_def)

lemma frames_expression_statement [simp]: "frames (expression_statement r) s"
  by (simp add: expression_statement_def)

lemma frames_keyword_statement [simp]: "frames (keyword_statement r v) s"
  by (simp add: keyword_statement_def)

lemma frames_token_type [simp]:
  "\<forall>s. frames m1 s \<and> frames m2 s \<and> frames m3 s \<and> frames m4 s \<and> frames m5 s \<and> frames m6 s \<and>
     frames m7 s \<and> frames m8 s \<and> frames m9 s \<and> frames m10 s \<Longrightarrow>
   frames (case k of T_NUMBER \<Rightarrow> m1 | T_KEYWORD \<Rightarrow> m2 | T_IDENTIFIER \<Rightarrow> m3 | T_OPERATOR \<Rightarrow> m4 | T_DELIMITER \<Rightarrow> m5 | T_STRING \<Rightarrow> m6 | T_CHAR \<Rightarrow> m7 | T_BRACKET \<Rightarrow> m8 | T_COMMENT \<Rightarrow> m9 | T_WHITESPACE \<Rightarrow> m10) s"
  by (cases k) simp_all

lemma frames_other_statement [simp]: "frames (other_statement r t) s"
  by (simp add: other_statement_def)

lemma frames_declaration_or_statement [simp]: "frames (declaration_or_statement r t) s"
  by (simp add: declaration_or_statement_def)

lemma frames_ParseStatementImpl [simp]: "frames (ParseStatementImpl r) s"
  by (simp add: ParseStatementImpl_def)

lemma frames_ParseStatement [simp]: "frames (ParseStatement r) s"
  by (simp add: ParseStatement_def)

lemma next_level: "framed_parsers (unfold_parsers r)"
  by unfold_locales (simp_all add: unfold_parsers_def)

end

lemma parsers_framed: "framed_parsers (parsers reg n)"
proof (induction n)
  case 0
  show ?case by unfold_locales (simp_all add: no_parsers_def)
next
  case (Suc n)
  from framed_parsers.next_level [OF this] show ?case by simp
qed

interpretation framed: framed_parsers "parsers reg n" for reg n
  by (rule parsers_framed)

section \<open>Properties\<close>


end
