(* ===== verification/Parser_Properties.thy ===== *)
theory Parser_Properties
  imports Parser_Precedence Parser_Invariants
begin

text \<open>
  Further properties of the parser: the values of enumerators, the
  progress of statements, and the places where a source that ends too early makes the code
  follow a null pointer or read beyond the tokens.
\<close>

section \<open>Running the parser on a given source\<close>

lemma loop_round: "loop (Suc n) body acc s = (case body acc s of (Inl e, s') \<Rightarrow> (Inl e, s')
   | (Inr (Inl a), s') \<Rightarrow> loop n body a s' | (Inr (Inr x), s') \<Rightarrow> (Inr x, s'))"
  by (simp add: bind_def ret_def split: prod.split sum.split)

lemma valid_brackets:
  "IsValidTokenValue T_BRACKET ''{''" "IsValidTokenValue T_BRACKET ''}''"
  "IsValidTokenValue T_BRACKET ''(''" "IsValidTokenValue T_BRACKET '')''"
  "IsValidTokenValue T_OPERATOR ''<''" "IsValidTokenValue T_OPERATOR ''>''"
  "IsValidTokenValue T_OPERATOR ''=''" "IsValidTokenValue T_DELIMITER '';''"
  by code_simp+

lemma valid_keyword: "IsValidTokenValue T_KEYWORD w \<longleftrightarrow> w \<in> set keyword_words"
  by (simp add: IsValidTokenValue_def keyword_regex_match)

definition tok :: "TokenType \<Rightarrow> string \<Rightarrow> token" where
  "tok k v = \<lparr>tok_type = k, tok_value = v, tok_line = 1, tok_column = 1\<rparr>"

definition parsing :: "token list \<Rightarrow> pstate" where
  "parsing ts = new_parser ts [] [] []"

lemmas evaluate = repeat_loop left_def loop_round run_simps guarded_def current_def peek_def
  new_parser_def parsing_def tok_def MaximumRecursionDepth_def ParseAttributes_def ParseModifiers_def
  at_def is_tok_def is_type_def at_end_def tok_at_def Consume_def ConsumeVal_def Let_def is_val_def
  at_val_def valid_brackets valid_keyword keyword_words_def
  RequireCurrent_def throw_def

section \<open>Values of enumerators\<close>

lemma negated_word: "NOT (word_of_nat m :: u64) + 1 = of_int (- int m)"
  by (simp add: minus_eq_not_plus_1 [symmetric])

lemma sint_of_int_fits:
  assumes "- (2 ^ 63) \<le> k" and "k < 2 ^ 63"
  shows "sint (of_int k :: u64) = k"
proof -
  have "sint (of_int k :: u64) = signed_take_bit 63 k" by (simp add: signed_of_int)
  with signed_take_bit_int_eq_self [OF assms] show ?thesis by simp
qed

lemma sint_magnitude: "m \<le> 9223372036854775807 \<Longrightarrow> sint (word_of_nat m :: u64) = int m"
  using sint_of_int_fits [of "int m"] by simp

lemma sint_negated: "m \<le> 9223372036854775808 \<Longrightarrow> sint (NOT (word_of_nat m :: u64) + 1) = - int m"
  unfolding negated_word by (rule sint_of_int_fits) simp_all

section \<open>Properties\<close>

text \<open>
  The value of an enumerator is exact: the literal with its sign is accepted when the number
  it denotes fits in 64 bits as a signed number, the lowest one included, and its value is then
  that number; otherwise it is rejected, never wrapped.
\<close>

theorem enum_value_exact:
  "enum_value negative literal =
     (case stoull 10 literal of
        Inl e \<Rightarrow> None
      | Inr (magnitude, consumed) \<Rightarrow>
          let v = (if negative then - int magnitude else int magnitude)
          in if - (2 ^ 63) \<le> v \<and> v < 2 ^ 63 then Some v else None)"
proof (cases "stoull 10 literal")
  case (Inr r)
  obtain m k where "r = (m, k)" by (cases r)
  with Inr show ?thesis
    by (cases negative; cases "m \<le> 9223372036854775807"; cases "m \<le> 9223372036854775808")
      (simp_all add: enum_value_def Let_def sint_magnitude sint_negated del: of_nat_power)
qed (simp add: enum_value_def)

text \<open>
  Statements make progress: a statement that is parsed has consumed at least one token, and
  the position stays within the tokens of the source, whose number does not change.
\<close>

theorem statement_consumes_tokens:
  assumes "ParseStatement (parsers reg n) s = (Inr (Some st), s')"
  shows "p_pos s < p_pos s' \<and> p_pos s < length (p_tokens s) \<and>
    length (p_tokens s') = length (p_tokens s)"
proof -
  have "runs 0 (\<lambda>x. x \<noteq> None) (ParseStatement (parsers reg n)) s"
    by (rule level.runs_ParseStatement) simp_all
  with assms have "fewer s s'" unfolding runs_def by blast
  moreover have "length (p_tokens s') = length (p_tokens s)"
    using framed.frames_ParseStatement [of reg n s] assms by (simp add: frames_def frame_def)
  ultimately show ?thesis by (auto simp: fewer_def left_def)
qed

lemma statement_consumes_tokens_witness:
  "\<exists>st s'. ParseStatement (parsers empty_registry 1)
      (parsing [tok T_BRACKET ''{'', tok T_BRACKET ''}'']) = (Inr (Some st), s') \<and> 0 < p_pos s'"
proof -
  let ?run = "ParseStatement (parsers empty_registry 1) (parsing [tok T_BRACKET ''{'', tok T_BRACKET ''}''])"
  have "\<exists>st s'. ?run = (Inr (Some st), s')"
    by (simp add: evaluate ParseStatement_def ParseStatementImpl_def try_opaque_def
        TryParseOpaquePluginStatement_def unfold_parsers_def no_parsers_def empty_registry_def
        declaration_or_statement_def LooksLikeFunctionDeclaration_def
        LooksLikePropertyDeclaration_def LooksLikeIndexerDeclaration_def skip_type_name_def
        SkipOwnershipQualifier_def is_primitive_at_def SkipIndexerType_def other_statement_def
        some_stmt_def ParseCompoundStatement_def statement_list_def locate_stmt_def del: loop.simps)
  then obtain st s' where run: "?run = (Inr (Some st), s')" by blast
  with statement_consumes_tokens [OF run] show ?thesis by fastforce
qed

section \<open>Sources that end too early, and other inputs that are not handled\<close>

text \<open>
  Some truncated sources are undefined behaviour instead of a syntax error: a declaration that
  ends after the name of its variable, and an enumeration that ends after its opening brace,
  follow a null token; a type with \<open>[]\<close> at the end of the source reads the token after the last.
\<close>

theorem truncated_sources_undefined:
  "fst (ParseVarDeclExpr r (parsing [tok T_KEYWORD ''int32'', tok T_IDENTIFIER ''x''])) =
     Inl Null_dereference \<and>
   fst (ParseEnumDecl (parsing [tok T_KEYWORD ''enum'', tok T_IDENTIFIER ''E'', tok T_BRACKET ''{''])) =
     Inl Null_dereference \<and>
   fst (identifier_statement r (parsing [tok T_IDENTIFIER ''Foo'', tok T_BRACKET ''['',
     tok T_BRACKET '']''])) = Inl Out_of_bounds"
  by (simp_all add: evaluate ParseVarDeclExpr_def ParseType_def ParseOwnership_def starts_type_def
      IsPrimitiveType_def primitiveTypes_def ParsePrimitiveType_def ParsePointerSuffix_def
      pointer_stars_def array_suffixes_def ParsePrimaryExpr_def ParseBaseExpr_def IsPrefixUnary_def
      IsLiteral_def ParseIdentifierExpr_def ParseSuffixExpr_def ParseEnumDecl_def enum_members_def
      identifier_statement_def classify_identifier_def PeekTokenAfterIdentifiers_def
      after_identifiers.simps array_suffix_candidate.simps del: loop.simps)

text \<open>A class whose body does not parse leaves its scope on the global stack.\<close>

lemma class_scope_leaks:
  "p_scopes (snd (ParseClassDecl r (parsing [tok T_KEYWORD ''class'', tok T_IDENTIFIER ''A'',
     tok T_DELIMITER '';'']))) = [(S_Class, ''A'')]"
  by (simp add: evaluate ParseClassDecl_def ParseTemplateParameters_def class_parents_def
      EnterScope_def ParseCompoundStatement_def report_throw_def ReportSyntaxError_def del: loop.simps)

text \<open>A type alias without a target is accepted; its target is the null pointer.\<close>

lemma alias_without_target:
  "\<exists>st. fst (ParseTypeAlias r (parsing [tok T_KEYWORD ''using'', tok T_IDENTIFIER ''A'',
     tok T_OPERATOR ''='', tok T_DELIMITER '';''])) = Inr st \<and> skind st = TypeAliasStmt ''A'' None"
  by (simp add: evaluate ParseTypeAlias_def ParseType_def ParseOwnership_def with_current_def
      decorate_def stmt_node_def del: loop.simps)

text \<open>
  The name of a parent is put together from tokens that parsing its type has changed: the token
  \<open>>>\<close> that closes two argument lists has become \<open>></\<close>, and one bracket is lost.
\<close>

lemma parent_name_loses_bracket:
  "fst (ParseParentTypeName (parsers empty_registry 2) (parsing [tok T_IDENTIFIER ''B'',
     tok T_OPERATOR ''<'', tok T_IDENTIFIER ''C'', tok T_OPERATOR ''<'', tok T_KEYWORD ''int32'',
     tok T_OPERATOR ''>>''])) = Inr ''B<C<int32>''"
  by (simp add: evaluate ParseParentTypeName_def ParseType_def ParseOwnership_def starts_type_def
      IsPrimitiveType_def primitiveTypes_def named_type_def ParseTemplateExpr_def
      ConsumeTemplateClose_def set_token_def eval_nat_numeral unfold_parsers_def
      ParsePrimitiveType_def ParsePointerSuffix_def pointer_stars_def array_suffixes_def
      is_pointer_or_array_def node_def del: loop.simps)

text \<open>
  The look-ahead for an indexer counts a \<open>>>\<close> as no closing bracket, so an indexer whose element
  type ends in one is not seen; with the brackets apart it is.
\<close>

lemma indexer_lookahead_ignores_shift:
  "\<not> LooksLikeIndexerDeclaration (parsing [tok T_IDENTIFIER ''L'', tok T_OPERATOR ''<'',
     tok T_IDENTIFIER ''L'', tok T_OPERATOR ''<'', tok T_KEYWORD ''int32'', tok T_OPERATOR ''>>'',
     tok T_KEYWORD ''this'', tok T_BRACKET ''['']) \<and>
   LooksLikeIndexerDeclaration (parsing [tok T_IDENTIFIER ''L'', tok T_OPERATOR ''<'',
     tok T_IDENTIFIER ''L'', tok T_OPERATOR ''<'', tok T_KEYWORD ''int32'', tok T_OPERATOR ''>'',
     tok T_OPERATOR ''>'', tok T_KEYWORD ''this'', tok T_BRACKET ''[''])"
  by (simp add: evaluate LooksLikeIndexerDeclaration_def SkipIndexerType_def skip_indexer_name.simps
      skip_stars.simps skip_array_suffixes.simps is_primitive_at_def del: loop.simps)

end
