(* ===== verification/Keyword_Hash.thy ===== *)
theory Keyword_Hash
  imports Parser
begin

text \<open>
  \<open>ParseStatementImpl\<close> switches over a 32-bit hash of the keyword. This theory computes the hashes
  of the keywords and shows that they differ, so that the switch selects by text.
\<close>

section \<open>The hashes of the keywords\<close>

lemma keyword_hashes:
  "map Hash keyword_words =
     [2086195854, 111172145, 115696375, 108830164, 124986427, 3668680740, 3817980322, 
      3591395361, 182966389, 1166332752, 2088307677, 2087658539, 1389043664, 2087386033, 
      3784002736, 2087930058, 5860938, 2087433274, 1583975031, 178150038, 2087432913, 
      2072405198, 193432510, 165477722, 725661297, 5861186, 5861230, 186217978, 3782271108, 
      193429305, 1175432380, 193429153, 2088051357, 193410932, 2168161785, 172242787, 
      1720554200, 2120604710, 1670491381, 1720553825, 1669951055, 2087430515, 165821336, 
      2087659838, 195201899, 1739928178, 1455280448, 2087718134, 186992058, 2088347619, 
      1546570756, 138102472, 1975493199, 1121047999, 1754634082, 4246504068, 1428689169, 
      182320576, 1547431421, 972845564, 176715363, 2332817746, 183242831, 180942782, 
      178150040, 703217756, 193435290, 191452019, 194522069, 164367416, 193421939, 193421927, 
      676750853, 5861631, 5861623, 5861197]"
  by (simp add: keyword_words_def byte_of_def)

lemma hashes_distinct: "distinct (map Hash keyword_words)"
  unfolding keyword_hashes by simp

lemma hashes_text:
  assumes "v \<in> set keyword_words" and "set labels \<subseteq> set keyword_words"
  shows "hashes v labels \<longleftrightarrow> v \<in> set labels"
proof -
  have "inj_on Hash (set keyword_words)" using hashes_distinct by (simp add: distinct_map)
  with assms show ?thesis by (auto simp: hashes_def list_ex_iff dest: inj_onD)
qed

section \<open>Properties\<close>

text \<open>
  The switch over keyword hashes selects by text: no two keywords of the language have the
  same 32-bit hash, so the case labels that match a keyword are those that spell it.
\<close>

theorem keyword_switch_selects_by_text:
  assumes "v \<in> set keyword_words" and "set labels \<subseteq> set keyword_words"
  shows "hashes v labels \<longleftrightarrow> v \<in> set labels"
  using assms by (rule hashes_text)

lemma keyword_switch_selects_by_text_witness:
  "hashes ''raw'' [''raw'', ''weak''] \<and> \<not> hashes ''if'' [''raw'', ''weak'']"
  using keyword_switch_selects_by_text [of "''raw''" "[''raw'', ''weak'']"]
    keyword_switch_selects_by_text [of "''if''" "[''raw'', ''weak'']"]
  by (simp add: keyword_words_def)

end
