(* ===== verification/Interpolation.thy ===== *)
theory Interpolation
  imports Parser_Expr
begin

text \<open>
  String literals: escape sequences, and interpolation together with the code that consumes its
  result. The parser turns a literal with \<open>${...}\<close> into a call of \<open>format\<close> whose first argument
  is a template; \<open>BuildFormat\<close> (\<^verbatim>\<open>Absolute-CodeGen/src/codegen_runtime.cpp\<close>) turns the template
  into the format string of \<open>printf\<close>. A printable value is represented by its specifier.
\<close>

section \<open>\<open>BuildFormat\<close>\<close>

fun BuildFormat :: "string \<Rightarrow> string list \<Rightarrow> string + string" where
  "BuildFormat [] specifiers =
     (if specifiers \<noteq> [] then Inl ''format has too many values'' else Inr [])"
| "BuildFormat (c # rest) specifiers =
     (if c = CHR ''%'' then map_sum id (\<lambda>r. ''%%'' @ r) (BuildFormat rest specifiers)
      else if c = CHR ''{'' then
        (case rest of
           [] \<Rightarrow> Inl (''format contains an unmatched '' @ [single_quote, CHR ''{'', single_quote])
         | next # rest' \<Rightarrow>
             if next = CHR ''{'' then map_sum id (\<lambda>r. CHR ''{'' # r) (BuildFormat rest' specifiers)
             else if next = CHR ''}'' then
               (case specifiers of
                  [] \<Rightarrow> Inl ''format has too few values''
                | specifier # specifiers' \<Rightarrow>
                    map_sum id (\<lambda>r. specifier @ r) (BuildFormat rest' specifiers'))
             else Inl (''format contains an unmatched '' @ [single_quote, CHR ''{'', single_quote]))
      else if c = CHR ''}'' then
        (case rest of
           [] \<Rightarrow> Inl (''format contains an unmatched '' @ [single_quote, CHR ''}'', single_quote])
         | next # rest' \<Rightarrow>
             if next = CHR ''}'' then map_sum id (\<lambda>r. CHR ''}'' # r) (BuildFormat rest' specifiers)
             else Inl (''format contains an unmatched '' @ [single_quote, CHR ''}'', single_quote]))
      else map_sum id (\<lambda>r. c # r) (BuildFormat rest specifiers))"

section \<open>What a literal is made of\<close>

text \<open>Pieces of text with something between each two of them.\<close>

fun weave :: "string list \<Rightarrow> string list \<Rightarrow> string" where
  "weave (u # us) (v # vs) = u @ v @ weave us vs"
| "weave (u # us) [] = u"
| "weave [] vs = []"

definition embedded :: "string \<Rightarrow> string" where
  "embedded code = ''${'' @ code @ ''}''"

text \<open>The escaped dollar signs of a piece of text, undone.\<close>

fun undollar :: "string \<Rightarrow> string" where
  "undollar [] = []"
| "undollar [c] = [c]"
| "undollar (c # d # cs) =
     (if c = backslash then (if d = CHR ''$'' then ''$'' else [c, d]) @ undollar cs
      else c # undollar (d # cs))"

definition reads_as :: "string \<Rightarrow> string \<Rightarrow> bool" where
  "reads_as piece text \<longleftrightarrow> UnescapeString (undollar piece) = Inr text"

text \<open>What is printed for a text that has no brace: itself, with \<open>%\<close> doubled.\<close>

definition percent :: "string \<Rightarrow> string" where
  "percent s = concat (map (\<lambda>c. if c = CHR ''%'' then ''%%'' else [c]) s)"

definition brace_free :: "string \<Rightarrow> bool" where
  "brace_free s \<longleftrightarrow> CHR ''{'' \<notin> set s \<and> CHR ''}'' \<notin> set s"

lemma undollar_Cons: "c \<noteq> backslash \<Longrightarrow> undollar (c # cs) = c # undollar cs"
  by (cases cs) simp_all

lemma brace_body_split: "brace_body d s = Some (code, rest) \<Longrightarrow> s = code @ ''}'' @ rest"
  by (induction d s arbitrary: code rest rule: brace_body.induct) (fastforce split: if_splits)+

definition decomposes :: "string \<Rightarrow> string \<Rightarrow> string \<Rightarrow> string list \<Rightarrow> bool" where
  "decomposes raw segment template codes \<longleftrightarrow>
     (\<exists>p ps t ts. raw = weave (p # ps) (map embedded codes) \<and> length ps = length codes \<and>
        UnescapeString (segment @ undollar p) = Inr t \<and> list_all2 reads_as ps ts \<and>
        template = weave (t # ts) (replicate (length codes) ''{}''))"

lemma decomposes_Cons:
  assumes "decomposes rest (segment @ new) template codes"
    and "\<And>p. undollar (cs @ p) = new @ undollar p"
  shows "decomposes (cs @ rest) segment template codes"
proof -
  from assms(1) obtain p ps t ts where *: "rest = weave (p # ps) (map embedded codes)"
    "length ps = length codes" "UnescapeString ((segment @ new) @ undollar p) = Inr t"
    "list_all2 reads_as ps ts" "template = weave (t # ts) (replicate (length codes) ''{}'')"
    unfolding decomposes_def by blast
  have "cs @ rest = weave ((cs @ p) # ps) (map embedded codes)"
    unfolding *(1) by (cases codes) simp_all
  with * assms(2) show ?thesis
    unfolding decomposes_def by (metis append.assoc)
qed

lemma decomposes_Nil: "UnescapeString segment = Inr t \<Longrightarrow> decomposes [] segment t []"
  unfolding decomposes_def by (intro exI [of _ "[]"] exI [of _ t]) simp

lemma decomposes_embedded:
  assumes "decomposes rest [] template codes" and "UnescapeString segment = Inr u"
  shows "decomposes (embedded code @ rest) segment (u @ ''{}'' @ template) (code # codes)"
proof -
  from assms(1) obtain p ps t ts where *: "rest = weave (p # ps) (map embedded codes)"
    "length ps = length codes" "UnescapeString (undollar p) = Inr t"
    "list_all2 reads_as ps ts" "template = weave (t # ts) (replicate (length codes) ''{}'')"
    unfolding decomposes_def by auto
  show ?thesis
    unfolding decomposes_def
    by (intro exI [of _ "[]"] exI [of _ "p # ps"] exI [of _ u] exI [of _ "t # ts"])
      (simp add: * assms(2) reads_as_def)
qed

lemma interpolate_decomposes:
  "interpolate raw segment template codes = Inr (template', codes') \<Longrightarrow>
     \<exists>tm cs. template' = template @ tm \<and> codes' = codes @ cs \<and> decomposes raw segment tm cs"
proof (induction "length raw" arbitrary: raw segment template codes rule: less_induct)
  case less
  show ?case
  proof (cases raw)
    case Nil
    with less.prems show ?thesis
      by (auto simp: interpolate.simps [of "[]"] intro: decomposes_Nil split: if_splits sum.splits)
  next
    case (Cons c rest)
    note step = less.prems [unfolded Cons interpolate.simps [of "c # rest"], simplified]
    show ?thesis
    proof (cases "c = backslash \<and> rest \<noteq> []")
      case True
      then obtain d rest2 where rest: "rest = d # rest2" by (cases rest) auto
      define new where "new = (if d = CHR ''$'' then ''$'' else [backslash, d])"
      from step True rest have "interpolate rest2 (segment @ new) template codes = Inr (template', codes')"
        by (simp add: new_def split: if_splits)
      from less.hyps [OF _ this] Cons rest obtain tm cs where
        "template' = template @ tm" "codes' = codes @ cs" "decomposes rest2 (segment @ new) tm cs" by auto
      moreover have "undollar ([c, d] @ p) = new @ undollar p" for p using True by (simp add: new_def)
      ultimately show ?thesis
        using decomposes_Cons [of rest2 segment new tm cs "[c, d]"] Cons rest by auto
    next
      case not_escape: False
      show ?thesis
      proof (cases "c = CHR ''$'' \<and> rest \<noteq> [] \<and> hd rest = CHR ''{''")
        case True
        then obtain rest2 where rest: "rest = CHR ''{'' # rest2" by (cases rest) auto
        from step True rest obtain u code rest' where u: "UnescapeString segment = Inr u"
          and body: "brace_body 1 rest2 = Some (code, rest')"
          and rec: "interpolate rest' [] (template @ u @ ''{}'') (codes @ [code]) = Inr (template', codes')"
          by (auto simp: backslash_def split: sum.splits option.splits)
        have "length rest' < length raw" using brace_body_length [OF body] Cons rest by simp
        from less.hyps [OF this rec] obtain tm cs where
          "template' = (template @ u @ ''{}'') @ tm" "codes' = (codes @ [code]) @ cs"
          "decomposes rest' [] tm cs" by blast
        moreover have "raw = embedded code @ rest'"
          using Cons True rest brace_body_split [OF body] by (simp add: embedded_def)
        ultimately show ?thesis using decomposes_embedded [OF _ u] by auto
      next
        case False
        with step not_escape have rec: "interpolate rest (segment @ [c]) template codes = Inr (template', codes')"
          by (auto split: if_splits)
        from less.hyps [OF _ rec] Cons obtain tm cs where
          *: "template' = template @ tm" "codes' = codes @ cs" "decomposes rest (segment @ [c]) tm cs" by auto
        show ?thesis
        proof (cases "c = backslash")
          case True
          with not_escape have "rest = []" by simp
          with rec * True obtain u where "UnescapeString (segment @ [backslash]) = Inr u" "tm = u" "cs = []"
            by (auto simp: interpolate.simps [of "[]"] split: sum.splits)
          then have "decomposes [backslash] segment tm cs"
            unfolding decomposes_def by (intro exI [of _ "[backslash]"] exI [of _ "[]"] exI [of _ u]) simp
          with * Cons True \<open>rest = []\<close> show ?thesis by blast
        next
          case False
          then have "undollar ([c] @ p) = [c] @ undollar p" for p by (simp add: undollar_Cons)
          from decomposes_Cons [OF *(3) this] * Cons show ?thesis by auto
        qed
      qed
    qed
  qed
qed

section \<open>Properties\<close>

lemma map_sum_Inr: "map_sum id f (Inr x) = Inr (f x)"
  by simp

lemma BuildFormat_text:
  "brace_free t \<Longrightarrow> BuildFormat (t @ rest) specifiers =
     map_sum id (\<lambda>r. percent t @ r) (BuildFormat rest specifiers)"
proof (induction t)
  case (Cons c t)
  then show ?case
    by (cases "BuildFormat rest specifiers") (auto simp: brace_free_def percent_def)
qed (cases "BuildFormat rest specifiers"; simp add: percent_def)

lemma BuildFormat_template:
  "list_all brace_free (t # ts) \<Longrightarrow> length ts = length specifiers \<Longrightarrow>
     BuildFormat (weave (t # ts) (replicate (length specifiers) ''{}'')) specifiers =
       Inr (weave (map percent (t # ts)) specifiers)"
proof (induction specifiers arbitrary: t ts)
  case Nil
  with BuildFormat_text [of t "[]" "[]"] show ?case by simp
next
  case (Cons v vs)
  then obtain t' ts' where "ts = t' # ts'" by (cases ts) auto
  with Cons BuildFormat_text show ?case by simp
qed

text \<open>
  Interpolation and formatting agree: a literal that interpolation accepts is pieces of text
  with embedded expressions between them, the template it makes has one placeholder for every
  expression and the unescaped texts around them, and \<open>BuildFormat\<close> turns that template into the
  texts with the specifiers of the values between them, one each and in order, provided no text
  contains a brace.
\<close>

theorem interpolation_matches_format:
  assumes "interpolate raw [] [] [] = Inr (template, codes)"
  shows "\<exists>pieces texts. raw = weave pieces (map embedded codes) \<and>
    list_all2 reads_as pieces texts \<and> length texts = length codes + 1 \<and>
    template = weave texts (replicate (length codes) ''{}'') \<and>
    (list_all brace_free texts \<longrightarrow> (\<forall>specifiers. length specifiers = length codes \<longrightarrow>
       BuildFormat template specifiers = Inr (weave (map percent texts) specifiers)))"
proof -
  from interpolate_decomposes [OF assms] have "decomposes raw [] template codes" by auto
  then obtain p ps t ts where *: "raw = weave (p # ps) (map embedded codes)"
    "length ps = length codes" "UnescapeString (undollar p) = Inr t" "list_all2 reads_as ps ts"
    "template = weave (t # ts) (replicate (length codes) ''{}'')"
    unfolding decomposes_def by auto
  have len: "length ts = length codes" using *(2,4) by (simp add: list_all2_lengthD)
  have "list_all brace_free (t # ts) \<longrightarrow> (\<forall>specifiers. length specifiers = length codes \<longrightarrow>
      BuildFormat template specifiers = Inr (weave (map percent (t # ts)) specifiers))"
    using BuildFormat_template [of t ts] len *(5) by metis
  then show ?thesis
    by (intro exI [of _ "p # ps"] exI [of _ "t # ts"]) (use * len in \<open>simp add: reads_as_def\<close>)
qed

lemma interpolation_matches_format_witness:
  "\<exists>template codes. interpolate ''a=${x+1}, 5%'' [] [] [] = Inr (template, codes) \<and>
     codes = [''x+1''] \<and> BuildFormat template [''%d''] = Inr ''a=%d, 5%%'' \<and>
     (\<exists>pieces. ''a=${x+1}, 5%'' = weave pieces (map embedded codes))"
proof -
  have run: "interpolate ''a=${x+1}, 5%'' [] [] [] = Inr (''a={}, 5%'', [''x+1''])" by code_simp
  moreover have "BuildFormat ''a={}, 5%'' [''%d''] = Inr ''a=%d, 5%%''" by code_simp
  ultimately show ?thesis using interpolation_matches_format [OF run] by auto
qed

text \<open>
  A brace in the text of an interpolated literal is taken for a placeholder or for half of one:
  the template is not escaped for \<open>format\<close>.
\<close>

lemma interpolation_keeps_braces:
  "interpolate ''{}: ${x}'' [] [] [] = Inr (''{}: {}'', [''x'']) \<and>
   BuildFormat ''{}: {}'' [''%d''] = Inl ''format has too few values'' \<and>
   interpolate ''{${x}}'' [] [] [] = Inr (''{{}}'', [''x'']) \<and>
   BuildFormat ''{{}}'' [''%d''] = Inl ''format has too many values''"
  by code_simp

section \<open>Escapes\<close>

definition escapes :: "(char \<times> char) list" where
  "escapes =
     [(CHR 0x00, CHR ''0''), (CHR 0x07, CHR ''a''), (CHR 0x08, CHR ''b''), (CHR 0x0C, CHR ''f''),
      (CHR 0x0A, CHR ''n''), (CHR 0x0D, CHR ''r''), (CHR 0x09, CHR ''t''), (CHR 0x0B, CHR ''v''),
      (backslash, backslash), (double_quote, double_quote), (single_quote, single_quote),
      (CHR ''$'', CHR ''$'')]"

definition escape :: "char \<Rightarrow> string" where
  "escape c = (case map_of escapes c of Some e \<Rightarrow> [backslash, e] | None \<Rightarrow> [c])"

lemma escape_char_escapes: "(c, e) \<in> set escapes \<Longrightarrow> escape_char e = Some c"
proof -
  have "list_all (\<lambda>(c, e). escape_char e = Some c) escapes" by code_simp
  then show "(c, e) \<in> set escapes \<Longrightarrow> escape_char e = Some c" by (auto simp: list_all_iff)
qed

lemma unescape_escape: "UnescapeString (escape c @ s) = map_sum id (\<lambda>t. c # t) (UnescapeString s)"
proof (cases "map_of escapes c")
  case None
  have "map_of escapes backslash \<noteq> None" by code_simp
  with None have "c \<noteq> backslash" by auto
  with None show ?thesis by (cases s) (simp_all add: escape_def)
next
  case (Some e)
  from escape_char_escapes [OF map_of_SomeD [OF Some]] Some show ?thesis by (simp add: escape_def)
qed

lemma escape_cases:
  obtains e where "escape c = [backslash, e]" "e \<noteq> CHR 0x0A" "e \<noteq> CHR 0x0D"
  | "escape c = [c]" "c \<noteq> backslash" "c \<noteq> double_quote" "c \<noteq> CHR ''$''"
proof (cases "map_of escapes c")
  case None
  have "map_of escapes backslash \<noteq> None \<and> map_of escapes double_quote \<noteq> None \<and>
      map_of escapes (CHR ''$'') \<noteq> None" by code_simp
  with None have "c \<noteq> backslash" "c \<noteq> double_quote" "c \<noteq> CHR ''$''" by auto
  with None show ?thesis using that(2) by (simp add: escape_def)
next
  case (Some e)
  have "list_all (\<lambda>(c, e). e \<noteq> CHR 0x0A \<and> e \<noteq> CHR 0x0D) escapes" by code_simp
  with map_of_SomeD [OF Some] have "e \<noteq> CHR 0x0A" "e \<noteq> CHR 0x0D" by (auto simp: list_all_iff)
  with Some show ?thesis using that(1) by (simp add: escape_def)
qed

lemma has_interpolation_escape: "has_interpolation (escape c @ s) = has_interpolation s"
  by (rule escape_cases [of c]) (cases s; simp add: backslash_def)+

lemma consumes_escape:
  "consumes (Alt escaped (Cls (\<lambda>c. c \<noteq> double_quote \<and> c \<noteq> backslash))) (escape c)"
proof (rule escape_cases [of c])
  fix e assume e: "escape c = [backslash, e]" "e \<noteq> CHR 0x0A" "e \<noteq> CHR 0x0D"
  have "consumes (lit backslash) [backslash]" by (simp add: consumes_def lit_def)
  moreover have "consumes dot [e]" using e(2,3) by (simp add: consumes_def dot_def)
  ultimately have "consumes escaped ([backslash] @ [e])" unfolding escaped_def by (rule consumes_Sq)
  with e(1) show ?thesis by (auto intro: consumes_Alt)
next
  assume "escape c = [c]" "c \<noteq> backslash" "c \<noteq> double_quote"
  then show ?thesis by (intro consumes_Alt disjI2) (simp add: consumes_def)
qed

text \<open>The literal of a text.\<close>

definition literal :: "string \<Rightarrow> string" where
  "literal s = [double_quote] @ concat (map escape s) @ [double_quote]"

lemma literal_token: "IsValidTokenValue T_STRING (literal s)"
proof -
  have quote: "consumes (lit double_quote) [double_quote]" by (simp add: consumes_def lit_def)
  have "escape c \<noteq> []" for c by (rule escape_cases [of c]) simp_all
  then have "consumes (Star (Alt escaped (Cls (\<lambda>c. c \<noteq> double_quote \<and> c \<noteq> backslash))))
      (concat (map escape s))"
    by (induction s) (simp_all add: consumes_Star_Nil consumes_Star_Cons consumes_escape)
  from consumes_Sq [OF quote consumes_Sq [OF this quote]] have "consumes string_rx (literal s)"
    by (simp add: string_rx_def literal_def)
  then obtain t where "t \<in> set (rx_matches string_rx (None, literal s @ []))" "snd t = []"
    unfolding consumes_def by blast
  then show ?thesis by (auto simp: IsValidTokenValue_def regex_match_def list_ex_iff)
qed

text \<open>
  C38. Every text has a string literal: quoting it, with the characters that have an escape
  sequence written as that sequence, gives a lexeme of the string token, and the parser reads the
  token back as the literal node of exactly that text, without taking any of it for an embedded
  expression.
\<close>

theorem string_literal_roundtrip:
  assumes "current s = Some t" and "tok_type t = T_STRING" and "tok_value t = literal w"
  shows "IsValidTokenValue T_STRING (tok_value t) \<and>
    ParseStringLiteralExpr r s =
      (Inr (node (StringLiteralExpr w)), s\<lparr>p_pos := Suc (p_pos s)\<rparr>)"
proof -
  let ?raw = "concat (map escape w)"
  have "UnescapeString ?raw = Inr w" by (induction w) (simp_all add: unescape_escape)
  moreover have "\<not> has_interpolation ?raw" by (induction w) (simp_all add: has_interpolation_escape)
  ultimately show ?thesis
    using assms literal_token [of w]
    by (simp add: ParseStringLiteralExpr_def CurrentToken_def bind_def get_def is_type_def deref_def
        ret_def unquote_def literal_def unescaped_def seq_def Consume_def step_def modify_def)
qed

lemma string_literal_roundtrip_witness:
  "\<forall>r. fst (ParseStringLiteralExpr r (new_parser
     [\<lparr>tok_type = T_STRING, tok_value = literal [CHR ''a'', double_quote, CHR 0x0A, CHR ''$'', CHR ''{''],
       tok_line = 1, tok_column = 1\<rparr>] [] [] [])) =
   Inr (node (StringLiteralExpr [CHR ''a'', double_quote, CHR 0x0A, CHR ''$'', CHR ''{'']))"
proof
  fix r
  let ?w = "[CHR ''a'', double_quote, CHR 0x0A, CHR ''$'', CHR ''{'']"
  let ?t = "\<lparr>tok_type = T_STRING, tok_value = literal ?w, tok_line = 1, tok_column = 1\<rparr>"
  have "current (new_parser [?t] [] [] []) = Some ?t" by (simp add: current_def new_parser_def)
  from string_literal_roundtrip [OF this, of ?w r]
  show "fst (ParseStringLiteralExpr r (new_parser [?t] [] [] [])) = Inr (node (StringLiteralExpr ?w))"
    by simp
qed

end
