(* ===== verification/Plugin_Registry.thy ===== *)
theory Plugin_Registry
  imports Plugins
begin

text \<open>
  What the registry of syntax plugins guarantees: the tables that index it by keyword stay exact,
  unloading a plugin undoes everything it registered, an opaque node is destroyed exactly once or
  owned by the statement that holds it, the cursor never leaves its tokens, and the expansion of
  plugin keywords leaves none of them behind.
\<close>

section \<open>A list and its index\<close>

text \<open>
  The index of a list by a key: it holds the position of the entry with that key, for every
  entry. The three indexed lists of the registry share the laws.
\<close>

definition indexed :: "('a \<Rightarrow> string) \<Rightarrow> 'a list \<Rightarrow> (string \<rightharpoonup> nat) \<Rightarrow> bool" where
  "indexed key xs m \<longleftrightarrow> (\<forall>k i. m k = Some i \<longleftrightarrow> i < length xs \<and> key (xs ! i) = k)"

lemma indexed_Nil [simp]: "indexed key [] m \<longleftrightarrow> m = Map.empty"
  by (auto simp: indexed_def fun_eq_iff)

lemma indexed_Some: "indexed key xs m \<Longrightarrow> m k = Some i \<longleftrightarrow> i < length xs \<and> key (xs ! i) = k"
  by (simp add: indexed_def)

lemma indexed_unique:
  assumes "indexed key xs m" and "indexed key xs m'"
  shows "m = m'"
proof
  fix k
  have "m k = Some i \<longleftrightarrow> m' k = Some i" for i using assms by (simp add: indexed_def)
  from this [of "the (m k)"] this [of "the (m' k)"] show "m k = m' k"
    by (cases "m k"; cases "m' k") simp_all
qed

lemma indexed_None:
  assumes "indexed key xs m"
  shows "m k = None \<longleftrightarrow> k \<notin> key ` set xs"
proof -
  have "(\<exists>i. m k = Some i) \<longleftrightarrow> k \<in> key ` set xs"
    using assms unfolding indexed_def image_iff by (metis in_set_conv_nth)
  then show ?thesis by auto
qed

lemma dom_indexed: "indexed key xs m \<Longrightarrow> dom m = key ` set xs"
  using indexed_None [of key xs m] by (auto simp: dom_def)

lemma indexed_distinct:
  assumes "indexed key xs m"
  shows "distinct (map key xs)"
  unfolding distinct_conv_nth
proof (intro allI impI)
  fix i j assume ij: "i < length (map key xs)" "j < length (map key xs)" "i \<noteq> j"
  then have "m (key (xs ! i)) = Some i" "m (key (xs ! j)) = Some j"
    using assms by (simp_all add: indexed_def)
  with ij show "map key xs ! i \<noteq> map key xs ! j" by auto
qed

lemma indexed_append:
  assumes "indexed key xs m" and "m (key x) = None"
  shows "indexed key (xs @ [x]) (emplace (key x) (length xs) m)"
  unfolding indexed_def
proof (intro allI)
  fix k i
  have "m k = Some i \<longleftrightarrow> i < length xs \<and> key (xs ! i) = k" using assms(1) by (simp add: indexed_def)
  with assms(2) show "emplace (key x) (length xs) m k = Some i \<longleftrightarrow>
      i < length (xs @ [x]) \<and> key ((xs @ [x]) ! i) = k"
    by (cases "i < length xs") (auto simp: emplace_def nth_append less_Suc_eq)
qed

lemma reindex_indexed:
  "indexed key ys m \<Longrightarrow> distinct (map key (ys @ xs)) \<Longrightarrow>
     indexed key (ys @ xs) (reindex key (length ys) xs m)"
proof (induction xs arbitrary: ys m)
  case (Cons x xs)
  from Cons.prems have "m (key x) = None" by (auto simp: indexed_None [OF Cons.prems(1)])
  from indexed_append [OF Cons.prems(1) this] Cons.IH [of "ys @ [x]"] Cons.prems(2)
  show ?case by simp
qed simp

lemma rebuild_index:
  assumes "indexed key xs m"
  shows "indexed key (filter P xs) (reindex key 0 (filter P xs) Map.empty)"
  using reindex_indexed [of key "[]" Map.empty "filter P xs"] indexed_distinct [OF assms]
  by (simp add: distinct_map_filter)

lemma rebuild_same: "indexed key xs m \<Longrightarrow> reindex key 0 xs Map.empty = m"
  using rebuild_index [of key xs m "\<lambda>_. True"] by (auto intro: indexed_unique)

section \<open>The contract of an indexed table of the registry\<close>

text \<open>
  What registering and unloading do to one of the indexed lists: \<open>add\<close> appends the entry that
  \<open>make\<close> builds from a rule and files it under its key, unloading keeps the entries of other
  plugins and rebuilds the index.
\<close>

locale registry_table =
  fixes key :: "'a \<Rightarrow> string" and owner :: "'a \<Rightarrow> string"
    and entries_of :: "registry \<Rightarrow> 'a list" and index_of :: "registry \<Rightarrow> string \<rightharpoonup> nat"
    and make :: "string \<Rightarrow> 'b \<Rightarrow> 'a" and add :: "string \<Rightarrow> 'b \<Rightarrow> registry \<Rightarrow> registry"
  assumes add_entries: "entries_of (add name r reg) = entries_of reg @ [make name r]"
    and add_index: "index_of (add name r reg) =
      emplace (key (make name r)) (length (entries_of reg)) (index_of reg)"
    and owner_make: "owner (make name r) = name"
    and unload_entries: "entries_of (UnregisterSyntaxPlugin name reg) =
      filter (\<lambda>x. owner x \<noteq> name) (entries_of reg)"
    and unload_index: "index_of (UnregisterSyntaxPlugin name reg) =
      reindex key 0 (filter (\<lambda>x. owner x \<noteq> name) (entries_of reg)) Map.empty"
    and reset_entries: "entries_of (ResetSyntaxPlugins reg) = []"
    and reset_index: "index_of (ResetSyntaxPlugins reg) = Map.empty"
begin

definition table_ok :: "registry \<Rightarrow> bool" where
  "table_ok reg \<longleftrightarrow> indexed key (entries_of reg) (index_of reg)"

lemma reset_ok: "table_ok (ResetSyntaxPlugins reg)"
  by (simp add: table_ok_def reset_entries reset_index)

lemma unload_ok: "table_ok reg \<Longrightarrow> table_ok (UnregisterSyntaxPlugin name reg)"
  by (simp add: table_ok_def unload_entries unload_index rebuild_index)

lemma add_ok: "table_ok reg \<Longrightarrow> key (make name r) \<notin> dom (index_of reg) \<Longrightarrow> table_ok (add name r reg)"
  unfolding table_ok_def add_entries add_index by (rule indexed_append) auto

lemma add_dom: "dom (index_of (add name r reg)) = insert (key (make name r)) (dom (index_of reg))"
  by (auto simp: add_index emplace_def)

lemma add_all_ok:
  "table_ok reg \<Longrightarrow> distinct (map (\<lambda>r. key (make name r)) rs) \<Longrightarrow>
     \<forall>r \<in> set rs. key (make name r) \<notin> dom (index_of reg) \<Longrightarrow> table_ok (fold (add name) rs reg)"
proof (induction rs arbitrary: reg)
  case (Cons r rs)
  then have "table_ok (add name r reg)" by (intro add_ok) simp_all
  moreover have "\<forall>r' \<in> set rs. key (make name r') \<notin> dom (index_of (add name r reg))"
    using Cons.prems unfolding add_dom by (auto simp: image_iff)
  ultimately show ?case using Cons.prems(2) Cons.IH by simp
qed simp

lemma add_all_entries: "entries_of (fold (add name) rs reg) = entries_of reg @ map (make name) rs"
  by (induction rs arbitrary: reg) (simp_all add: add_entries)

lemma add_all_dom:
  "dom (index_of (fold (add name) rs reg)) = (\<lambda>r. key (make name r)) ` set rs \<union> dom (index_of reg)"
  by (induction rs arbitrary: reg) (auto simp: add_dom)

text \<open>Unloading a plugin forgets what it added.\<close>

lemma unload_added:
  "entries_of (UnregisterSyntaxPlugin name (fold (add name) rs reg)) =
     entries_of (UnregisterSyntaxPlugin name reg)"
  "index_of (UnregisterSyntaxPlugin name (fold (add name) rs reg)) =
     index_of (UnregisterSyntaxPlugin name reg)"
  by (simp_all add: unload_entries unload_index add_all_entries owner_make)

text \<open>Unloading a plugin that has no entry changes nothing.\<close>

lemma unload_stranger:
  assumes "table_ok reg" and "\<forall>x \<in> set (entries_of reg). owner x \<noteq> name"
  shows "entries_of (UnregisterSyntaxPlugin name reg) = entries_of reg"
    and "index_of (UnregisterSyntaxPlugin name reg) = index_of reg"
  using assms rebuild_same by (auto simp: table_ok_def unload_entries unload_index)

end

definition make_rule :: "string \<Rightarrow> syntax_rule \<Rightarrow> registered_rule" where
  "make_rule name r = \<lparr>rr_plugin = name, rr_keyword = text_or_empty (sr_keyword r),
     rr_expand = the (sr_expand r)\<rparr>"

definition make_opaque_rule :: "string \<Rightarrow> opaque_rule \<Rightarrow> registered_opaque_rule" where
  "make_opaque_rule name r = \<lparr>ro_plugin = name, ro_keyword = opaque_keyword r,
     ro_parse = the (oq_parse r)\<rparr>"

definition make_operator :: "string \<Rightarrow> operator_rule \<Rightarrow> binary_operator" where
  "make_operator name r = \<lparr>bo_plugin = name, bo_left = the (op_left r), bo_text = the (op_text r),
     bo_right = the (op_right r), bo_function = the (op_function r), bo_result = the (op_result r)\<rparr>"

lemma made_keys [simp]:
  "rr_keyword (make_rule n r) = text_or_empty (sr_keyword r)"
  "ro_keyword (make_opaque_rule n q) = opaque_keyword q"
  "operator_key (make_operator n w) = rule_key w"
  by (simp_all add: make_rule_def make_opaque_rule_def make_operator_def operator_key_def rule_key_def)

interpretation rule_table: registry_table rr_keyword rr_plugin rules rulesByKeyword make_rule add_rule
  by unfold_locales
    (simp_all add: add_rule_def make_rule_def Let_def UnregisterSyntaxPlugin_def ResetSyntaxPlugins_def)

interpretation opaque_table: registry_table ro_keyword ro_plugin opaqueRules opaqueRulesByKeyword
    make_opaque_rule add_opaque
  by unfold_locales
    (simp_all add: add_opaque_def make_opaque_rule_def Let_def UnregisterSyntaxPlugin_def
      ResetSyntaxPlugins_def)

interpretation operator_table: registry_table operator_key bo_plugin binaryOperators
    binaryOperatorsBySignature make_operator add_operator
  by unfold_locales
    (simp_all add: add_operator_def make_operator_def Let_def UnregisterSyntaxPlugin_def
      ResetSyntaxPlugins_def operator_key_def rule_key_def)

section \<open>The checks before an entry is added\<close>

lemma check_rules_ok:
  "check_rules reg name seen rs = Inr () \<Longrightarrow>
     distinct (map (\<lambda>r. text_or_empty (sr_keyword r)) rs) \<and>
     (\<forall>r \<in> set rs. let k = text_or_empty (sr_keyword r) in
        IsIdentifier k \<and> \<not> IsValidTokenValue T_KEYWORD k \<and> k \<notin> dom (rulesByKeyword reg) \<and>
        k \<notin> dom (opaqueRulesByKeyword reg) \<and> k \<notin> set seen)"
proof (induction rs arbitrary: seen)
  case (Cons r rs)
  then have "check_rules reg name (text_or_empty (sr_keyword r) # seen) rs = Inr ()" by (simp add: Let_def split: if_splits)
  from Cons.IH [OF this] Cons.prems show ?case by (auto simp: Let_def split: if_splits)
qed simp

lemma check_opaque_ok:
  "check_opaque reg name seen rs = Inr () \<Longrightarrow>
     distinct (map opaque_keyword rs) \<and>
     (\<forall>r \<in> set rs. let k = opaque_keyword r in
        \<not> IsValidTokenValue T_KEYWORD k \<and> k \<notin> dom (rulesByKeyword reg) \<and>
        k \<notin> dom (opaqueRulesByKeyword reg) \<and> k \<notin> set seen)"
proof (induction rs arbitrary: seen)
  case (Cons r rs)
  then have "check_opaque reg name (opaque_keyword r # seen) rs = Inr ()" by (simp add: Let_def split: if_splits)
  from Cons.IH [OF this] Cons.prems show ?case by (auto simp: Let_def split: if_splits)
qed simp

lemma check_operators_ok:
  "check_operators reg name seen rs = Inr () \<Longrightarrow>
     distinct (map rule_key rs) \<and>
     (\<forall>r \<in> set rs. rule_key r \<notin> dom (binaryOperatorsBySignature reg) \<and> rule_key r \<notin> set seen)"
proof (induction rs arbitrary: seen)
  case (Cons r rs)
  then have "check_operators reg name (rule_key r # seen) rs = Inr ()" by (simp add: Let_def split: if_splits)
  from Cons.IH [OF this] Cons.prems show ?case by (auto simp: Let_def split: if_splits)
qed simp

section \<open>Loading a plugin\<close>

text \<open>
  The calls by which a plugin called \<open>name\<close> changes the registry; a call that fails may have
  changed it (\<open>RegisterPluginResources\<close>), and a virtual module of another plugin is overwritten.
\<close>

inductive loads :: "string \<Rightarrow> registry \<Rightarrow> registry \<Rightarrow> bool" for name :: string where
  loads_rules: "RegisterSyntaxPlugin (Some p) reg = Inr reg' \<Longrightarrow> sp_name p = Some name \<Longrightarrow> loads name reg reg'"
| loads_prelude: "RegisterSyntaxPluginPrelude name source reg = Inr reg' \<Longrightarrow> loads name reg reg'"
| loads_operators: "RegisterPluginBinaryOperators name operators reg = Inr reg' \<Longrightarrow> loads name reg reg'"
| loads_opaque: "RegisterOpaqueSyntaxRules name tab reg = Inr reg' \<Longrightarrow> loads name reg reg'"
| loads_resources: "RegisterPluginResources name resources reg = (result, reg') \<Longrightarrow> loads name reg reg'"
| loads_modules: "RegisterPluginVirtualModules name modules reg = reg' \<Longrightarrow> loads name reg reg'"

inductive reachable_registry :: "registry \<Rightarrow> bool" where
  reach_empty: "reachable_registry empty_registry"
| reach_load: "reachable_registry reg \<Longrightarrow> loads name reg reg' \<Longrightarrow> reachable_registry reg'"
| reach_unload: "reachable_registry reg \<Longrightarrow> reachable_registry (UnregisterSyntaxPlugin name reg)"
| reach_reset: "reachable_registry reg \<Longrightarrow> reachable_registry (ResetSyntaxPlugins reg)"

definition registry_ok :: "registry \<Rightarrow> bool" where
  "registry_ok reg \<longleftrightarrow>
     indexed rr_keyword (rules reg) (rulesByKeyword reg) \<and>
     indexed ro_keyword (opaqueRules reg) (opaqueRulesByKeyword reg) \<and>
     indexed operator_key (binaryOperators reg) (binaryOperatorsBySignature reg) \<and>
     (\<forall>k \<in> dom (rulesByKeyword reg). \<not> IsValidTokenValue T_KEYWORD k \<and> k \<notin> dom (opaqueRulesByKeyword reg)) \<and>
     (\<forall>k \<in> dom (opaqueRulesByKeyword reg). \<not> IsValidTokenValue T_KEYWORD k) \<and>
     (\<forall>k d. resourcesByTypeName reg k = Some d \<longrightarrow> rd_type d = k \<and> IsIdentifier k)"

text \<open>The tables that an operation leaves alone.\<close>

lemma add_rule_others [simp]:
  "opaqueRules (fold (add_rule n) rs reg) = opaqueRules reg"
  "opaqueRulesByKeyword (fold (add_rule n) rs reg) = opaqueRulesByKeyword reg"
  "binaryOperators (fold (add_rule n) rs reg) = binaryOperators reg"
  "binaryOperatorsBySignature (fold (add_rule n) rs reg) = binaryOperatorsBySignature reg"
  "preludes (fold (add_rule n) rs reg) = preludes reg"
  "resourcesByTypeName (fold (add_rule n) rs reg) = resourcesByTypeName reg"
  "virtualModulesByName (fold (add_rule n) rs reg) = virtualModulesByName reg"
  by (induction rs arbitrary: reg) (simp_all add: add_rule_def Let_def split: option.splits prod.splits)

lemma add_opaque_others [simp]:
  "rules (fold (add_opaque n) rs reg) = rules reg"
  "rulesByKeyword (fold (add_opaque n) rs reg) = rulesByKeyword reg"
  "binaryOperators (fold (add_opaque n) rs reg) = binaryOperators reg"
  "binaryOperatorsBySignature (fold (add_opaque n) rs reg) = binaryOperatorsBySignature reg"
  "preludes (fold (add_opaque n) rs reg) = preludes reg"
  "resourcesByTypeName (fold (add_opaque n) rs reg) = resourcesByTypeName reg"
  "virtualModulesByName (fold (add_opaque n) rs reg) = virtualModulesByName reg"
  by (induction rs arbitrary: reg) (simp_all add: add_opaque_def Let_def split: option.splits prod.splits)

lemma add_operator_others [simp]:
  "rules (fold (add_operator n) rs reg) = rules reg"
  "rulesByKeyword (fold (add_operator n) rs reg) = rulesByKeyword reg"
  "opaqueRules (fold (add_operator n) rs reg) = opaqueRules reg"
  "opaqueRulesByKeyword (fold (add_operator n) rs reg) = opaqueRulesByKeyword reg"
  "preludes (fold (add_operator n) rs reg) = preludes reg"
  "resourcesByTypeName (fold (add_operator n) rs reg) = resourcesByTypeName reg"
  "virtualModulesByName (fold (add_operator n) rs reg) = virtualModulesByName reg"
  by (induction rs arbitrary: reg) (simp_all add: add_operator_def Let_def split: option.splits prod.splits)

lemma add_module_others [simp]:
  "rules (fold (add_module n) rs reg) = rules reg"
  "rulesByKeyword (fold (add_module n) rs reg) = rulesByKeyword reg"
  "opaqueRules (fold (add_module n) rs reg) = opaqueRules reg"
  "opaqueRulesByKeyword (fold (add_module n) rs reg) = opaqueRulesByKeyword reg"
  "binaryOperators (fold (add_module n) rs reg) = binaryOperators reg"
  "binaryOperatorsBySignature (fold (add_module n) rs reg) = binaryOperatorsBySignature reg"
  "preludes (fold (add_module n) rs reg) = preludes reg"
  "resourcesByTypeName (fold (add_module n) rs reg) = resourcesByTypeName reg"
  by (induction rs arbitrary: reg) (simp_all add: add_module_def Let_def split: option.splits prod.splits)

lemma register_resources_others:
  "register_resources n ds reg = (x, reg') \<Longrightarrow>
     (\<exists>m. reg' = reg\<lparr>resourcesByTypeName := m\<rparr> \<and>
       (\<forall>k d. m k = Some d \<longrightarrow> resourcesByTypeName reg k = Some d \<or>
          (resourcesByTypeName reg k = None \<and> rd_plugin d = n \<and> rd_type d = k \<and> IsIdentifier k)) \<and>
       (\<forall>k d. resourcesByTypeName reg k = Some d \<longrightarrow> m k = Some d))"
proof (induction ds arbitrary: reg)
  case Nil
  then show ?case by (intro exI [of _ "resourcesByTypeName reg"]) simp
next
  case (Cons d ds)
  let ?k = "text_or_empty (rs_type_name d)"
  let ?reg = "reg\<lparr>resourcesByTypeName := (resourcesByTypeName reg)(?k \<mapsto> make_resource n d)\<rparr>"
  show ?case
  proof (cases "reg' = reg")
    case True
    then show ?thesis by (intro exI [of _ "resourcesByTypeName reg"]) simp
  next
    case False
    with Cons.prems have new: "IsIdentifier ?k" "resourcesByTypeName reg ?k = None"
      and rest: "register_resources n ds ?reg = (x, reg')"
      by (auto simp: Let_def split: if_splits)
    from Cons.IH [OF rest] obtain m where m: "reg' = ?reg\<lparr>resourcesByTypeName := m\<rparr>"
      "\<forall>k d. m k = Some d \<longrightarrow> resourcesByTypeName ?reg k = Some d \<or>
        (resourcesByTypeName ?reg k = None \<and> rd_plugin d = n \<and> rd_type d = k \<and> IsIdentifier k)"
      "\<forall>k d. resourcesByTypeName ?reg k = Some d \<longrightarrow> m k = Some d" by blast
    show ?thesis
    proof (intro exI [of _ m] conjI allI impI)
      show "reg' = reg\<lparr>resourcesByTypeName := m\<rparr>" using m(1) by simp
    next
      fix k e assume "m k = Some e"
      with m(2) have "resourcesByTypeName ?reg k = Some e \<or>
        (resourcesByTypeName ?reg k = None \<and> rd_plugin e = n \<and> rd_type e = k \<and> IsIdentifier k)" by blast
      with new show "resourcesByTypeName reg k = Some e \<or>
        (resourcesByTypeName reg k = None \<and> rd_plugin e = n \<and> rd_type e = k \<and> IsIdentifier k)"
        by (cases "k = ?k") (auto simp: make_resource_def)
    next
      fix k e assume "resourcesByTypeName reg k = Some e"
      with m(3) new show "m k = Some e" by (cases "k = ?k") auto
    qed
  qed
qed

lemma load_keeps_ok: "loads name reg reg' \<Longrightarrow> registry_ok reg \<Longrightarrow> registry_ok reg'"
proof (induction rule: loads.induct)
  case (loads_rules p reg reg')
  let ?rs = "entries (sp_rules p)"
  from loads_rules(1,2) have check: "check_rules reg name [] ?rs = Inr ()"
    and reg': "reg' = fold (add_rule name) ?rs reg"
    by (auto simp: RegisterSyntaxPlugin_def Let_def text_or_empty_def split: if_splits sum.splits)
  note ok = loads_rules(3) [unfolded registry_ok_def]
  have "indexed rr_keyword (rules reg') (rulesByKeyword reg')"
    using rule_table.add_all_ok [of reg name ?rs] check_rules_ok [OF check] ok
    by (simp add: rule_table.table_ok_def reg' Let_def)
  moreover have "\<forall>k \<in> dom (rulesByKeyword reg'). \<not> IsValidTokenValue T_KEYWORD k \<and>
      k \<notin> dom (opaqueRulesByKeyword reg)"
    using rule_table.add_all_dom [of name ?rs reg] check_rules_ok [OF check, unfolded Let_def] ok
    by (simp only: reg' made_keys ball_Un) blast
  ultimately show ?case using ok by (simp add: registry_ok_def reg')
next
  case (loads_prelude source reg reg')
  then have "reg' = reg \<or> (\<exists>ps. reg' = reg\<lparr>preludes := ps\<rparr>)"
    by (auto simp: RegisterSyntaxPluginPrelude_def split: option.splits if_splits)
  with loads_prelude(2) show ?case by (elim disjE exE) (simp_all add: registry_ok_def)
next
  case (loads_operators operators reg reg')
  then show ?case
  proof (cases operators)
    case (Some t)
    let ?rs = "entries t"
    from loads_operators(1) Some have check: "check_operators reg name [] ?rs = Inr ()"
      and reg': "reg' = fold (add_operator name) ?rs reg"
      by (auto simp: RegisterPluginBinaryOperators_def split: if_splits sum.splits)
    from operator_table.add_all_ok [of reg name ?rs] check_operators_ok [OF check] loads_operators(2)
    show ?thesis by (simp add: registry_ok_def operator_table.table_ok_def reg')
  qed (simp add: RegisterPluginBinaryOperators_def)
next
  case (loads_opaque tab reg reg')
  then show ?case
  proof (cases tab)
    case (Some t)
    let ?rs = "entries t"
    from loads_opaque(1) Some have check: "check_opaque reg name [] ?rs = Inr ()"
      and reg': "reg' = fold (add_opaque name) ?rs reg"
      by (auto simp: RegisterOpaqueSyntaxRules_def split: if_splits sum.splits)
    note ok = loads_opaque(2) [unfolded registry_ok_def]
    have "indexed ro_keyword (opaqueRules reg') (opaqueRulesByKeyword reg')"
      using opaque_table.add_all_ok [of reg name ?rs] check_opaque_ok [OF check] ok
      by (simp add: opaque_table.table_ok_def reg' Let_def)
    moreover have "\<forall>k \<in> dom (opaqueRulesByKeyword reg'). \<not> IsValidTokenValue T_KEYWORD k \<and>
        k \<notin> dom (rulesByKeyword reg)"
      using opaque_table.add_all_dom [of name ?rs reg] check_opaque_ok [OF check, unfolded Let_def] ok
      by (simp only: reg' made_keys ball_Un) blast
    ultimately show ?thesis using ok unfolding registry_ok_def by (simp add: reg') blast
  qed (simp add: RegisterOpaqueSyntaxRules_def)
next
  case (loads_resources resources reg result reg')
  show ?case
  proof (cases "reg' = reg")
    case False
    with loads_resources(1) obtain ds where "register_resources name ds reg = (result, reg')"
      by (auto simp: RegisterPluginResources_def split: option.splits if_splits)
    from register_resources_others [OF this] obtain m where m: "reg' = reg\<lparr>resourcesByTypeName := m\<rparr>"
      "\<forall>k d. m k = Some d \<longrightarrow> resourcesByTypeName reg k = Some d \<or>
        (resourcesByTypeName reg k = None \<and> rd_plugin d = name \<and> rd_type d = k \<and> IsIdentifier k)" by blast
    note ok = loads_resources(2) [unfolded registry_ok_def]
    from m(2) ok have "\<forall>k d. m k = Some d \<longrightarrow> rd_type d = k \<and> IsIdentifier k" by blast
    with ok show ?thesis by (simp add: registry_ok_def m(1))
  qed (use loads_resources(2) in simp)
next
  case (loads_modules modules reg reg')
  from loads_modules(1) [symmetric] loads_modules(2) show ?case
    by (cases modules) (simp_all add: RegisterPluginVirtualModules_def registry_ok_def)
qed

lemma unload_keeps_ok:
  assumes "registry_ok reg"
  shows "registry_ok (UnregisterSyntaxPlugin name reg)"
proof -
  let ?reg = "UnregisterSyntaxPlugin name reg"
  have tables: "rule_table.table_ok ?reg" "opaque_table.table_ok ?reg" "operator_table.table_ok ?reg"
    using assms by (simp_all add: registry_ok_def rule_table.table_ok_def opaque_table.table_ok_def
      operator_table.table_ok_def rule_table.unload_ok [unfolded rule_table.table_ok_def]
      opaque_table.unload_ok [unfolded opaque_table.table_ok_def]
      operator_table.unload_ok [unfolded operator_table.table_ok_def])
  have "dom (rulesByKeyword ?reg) \<subseteq> dom (rulesByKeyword reg)"
  proof -
    have "dom (rulesByKeyword ?reg) = rr_keyword ` set (rules ?reg)"
      using tables(1) by (intro dom_indexed) (simp add: rule_table.table_ok_def)
    also have "\<dots> \<subseteq> rr_keyword ` set (rules reg)" by (auto simp: rule_table.unload_entries)
    also have "\<dots> = dom (rulesByKeyword reg)"
      using assms by (intro dom_indexed [symmetric]) (simp add: registry_ok_def)
    finally show ?thesis .
  qed
  moreover have "dom (opaqueRulesByKeyword ?reg) \<subseteq> dom (opaqueRulesByKeyword reg)"
  proof -
    have "dom (opaqueRulesByKeyword ?reg) = ro_keyword ` set (opaqueRules ?reg)"
      using tables(2) by (intro dom_indexed) (simp add: opaque_table.table_ok_def)
    also have "\<dots> \<subseteq> ro_keyword ` set (opaqueRules reg)" by (auto simp: opaque_table.unload_entries)
    also have "\<dots> = dom (opaqueRulesByKeyword reg)"
      using assms by (intro dom_indexed [symmetric]) (simp add: registry_ok_def)
    finally show ?thesis .
  qed
  moreover have "resourcesByTypeName ?reg k = Some d \<Longrightarrow> resourcesByTypeName reg k = Some d" for k d
    by (auto simp: UnregisterSyntaxPlugin_def Let_def drop_owned_def split: option.splits if_splits)
  ultimately show ?thesis
    using assms tables unfolding registry_ok_def rule_table.table_ok_def opaque_table.table_ok_def
      operator_table.table_ok_def by blast
qed

section \<open>Unloading\<close>

text \<open>The plugin has an entry in one of the tables.\<close>

definition owns :: "string \<Rightarrow> registry \<Rightarrow> bool" where
  "owns name reg \<longleftrightarrow>
     name \<in> rr_plugin ` set (rules reg) \<union> ro_plugin ` set (opaqueRules reg) \<union>
       bo_plugin ` set (binaryOperators reg) \<union> pl_plugin ` set (preludes reg) \<union>
       rd_plugin ` ran (resourcesByTypeName reg) \<union> fst ` ran (virtualModulesByName reg)"

lemma drop_owned_update:
  "\<forall>u. m k = Some u \<longrightarrow> owner u = n \<Longrightarrow> owner v = n \<Longrightarrow>
     drop_owned owner n (m(k \<mapsto> v)) = drop_owned owner n m"
  by (auto simp: drop_owned_def fun_eq_iff split: option.splits)

lemma drop_owned_none:
  assumes "n \<notin> owner ` ran m"
  shows "drop_owned owner n m = m"
proof
  fix k
  show "drop_owned owner n m k = m k"
    using assms by (cases "m k") (auto simp: drop_owned_def ran_def)
qed

lemma unload_fields:
  "preludes (UnregisterSyntaxPlugin n reg) = filter (\<lambda>p. pl_plugin p \<noteq> n) (preludes reg)"
  "resourcesByTypeName (UnregisterSyntaxPlugin n reg) = drop_owned rd_plugin n (resourcesByTypeName reg)"
  "virtualModulesByName (UnregisterSyntaxPlugin n reg) = drop_owned fst n (virtualModulesByName reg)"
  by (simp_all add: UnregisterSyntaxPlugin_def Let_def)

text \<open>The fields of an unloaded registry, for an operation that touched only some of them.\<close>

lemma unload_cong:
  assumes "rules (UnregisterSyntaxPlugin n a) = rules (UnregisterSyntaxPlugin n b)"
    and "opaqueRules (UnregisterSyntaxPlugin n a) = opaqueRules (UnregisterSyntaxPlugin n b)"
    and "binaryOperators (UnregisterSyntaxPlugin n a) = binaryOperators (UnregisterSyntaxPlugin n b)"
    and "preludes (UnregisterSyntaxPlugin n a) = preludes (UnregisterSyntaxPlugin n b)"
    and "resourcesByTypeName (UnregisterSyntaxPlugin n a) = resourcesByTypeName (UnregisterSyntaxPlugin n b)"
    and "virtualModulesByName (UnregisterSyntaxPlugin n a) = virtualModulesByName (UnregisterSyntaxPlugin n b)"
  shows "UnregisterSyntaxPlugin n a = UnregisterSyntaxPlugin n b"
  using assms
  by (intro registry.equality)
    (simp_all add: rule_table.unload_index rule_table.unload_entries opaque_table.unload_index
      opaque_table.unload_entries operator_table.unload_index operator_table.unload_entries)

lemmas unload_simps = rule_table.unload_entries opaque_table.unload_entries
  operator_table.unload_entries unload_fields

text \<open>
  Loading changes what unloading leaves in the virtual modules only, and there only what it registers
  for its own plugin.
\<close>

abbreviation apart_from_modules :: "registry \<Rightarrow> registry" where
  "apart_from_modules reg \<equiv> reg\<lparr>virtualModulesByName := Map.empty\<rparr>"

lemma unload_modules:
  "apart_from_modules (UnregisterSyntaxPlugin n (fold (add_module n) ms reg)) = apart_from_modules (UnregisterSyntaxPlugin n reg)"
  "virtualModulesByName (fold (add_module n) ms reg) k = virtualModulesByName reg k \<or>
    map_option fst (virtualModulesByName (fold (add_module n) ms reg) k) = Some n"
proof -
  show "virtualModulesByName (fold (add_module n) ms reg) k = virtualModulesByName reg k \<or>
    map_option fst (virtualModulesByName (fold (add_module n) ms reg) k) = Some n"
  proof (induction ms arbitrary: reg)
    case (Cons m ms)
    have "virtualModulesByName (add_module n m reg) k = virtualModulesByName reg k \<or>
        map_option fst (virtualModulesByName (add_module n m reg) k) = Some n"
      by (auto simp: add_module_def split: option.splits prod.splits)
    with Cons.IH [of "add_module n m reg"] show ?case by auto
  qed simp
qed (intro registry.equality; simp add: UnregisterSyntaxPlugin_def Let_def)

lemma unload_same:
  "UnregisterSyntaxPlugin n reg' = UnregisterSyntaxPlugin n reg \<Longrightarrow> virtualModulesByName reg' = virtualModulesByName reg \<Longrightarrow>
    apart_from_modules (UnregisterSyntaxPlugin n reg') = apart_from_modules (UnregisterSyntaxPlugin n reg) \<and>
    (\<forall>k. virtualModulesByName reg' k = virtualModulesByName reg k \<or> map_option fst (virtualModulesByName reg' k) = Some n)"
  by simp

lemma unload_loaded:
  "loads n reg reg' \<Longrightarrow>
    apart_from_modules (UnregisterSyntaxPlugin n reg') = apart_from_modules (UnregisterSyntaxPlugin n reg) \<and>
    (\<forall>k. virtualModulesByName reg' k = virtualModulesByName reg k \<or> map_option fst (virtualModulesByName reg' k) = Some n)"
proof (induction rule: loads.induct)
  case (loads_rules p reg reg')
  then have r: "reg' = fold (add_rule n) (entries (sp_rules p)) reg"
    by (auto simp: RegisterSyntaxPlugin_def Let_def text_or_empty_def split: if_splits sum.splits)
  then have "UnregisterSyntaxPlugin n reg' = UnregisterSyntaxPlugin n reg"
    by (intro unload_cong) (simp_all add: rule_table.unload_added, simp_all add: unload_simps)
  then show ?case by (rule unload_same) (simp add: r)
next
  case (loads_prelude source reg reg')
  then have "UnregisterSyntaxPlugin n reg' = UnregisterSyntaxPlugin n reg"
    by (intro unload_cong)
      (auto simp: RegisterSyntaxPluginPrelude_def unload_simps split: option.splits if_splits)
  then show ?case
    by (rule unload_same) (use loads_prelude in \<open>auto simp: RegisterSyntaxPluginPrelude_def split: option.splits if_splits\<close>)
next
  case (loads_operators operators reg reg')
  then obtain rs where r: "reg' = fold (add_operator n) rs reg"
    by (fastforce simp: RegisterPluginBinaryOperators_def split: option.splits if_splits sum.splits
      intro: exI [of _ "[]"])
  have "UnregisterSyntaxPlugin n reg' = UnregisterSyntaxPlugin n reg"
    unfolding r by (auto intro!: unload_cong simp: operator_table.unload_added) (simp_all add: unload_simps)
  then show ?case by (rule unload_same) (simp add: r)
next
  case (loads_opaque tab reg reg')
  then obtain rs where r: "reg' = fold (add_opaque n) rs reg"
    by (fastforce simp: RegisterOpaqueSyntaxRules_def split: option.splits if_splits sum.splits
      intro: exI [of _ "[]"])
  have "UnregisterSyntaxPlugin n reg' = UnregisterSyntaxPlugin n reg"
    unfolding r by (auto intro!: unload_cong simp: opaque_table.unload_added) (simp_all add: unload_simps)
  then show ?case by (rule unload_same) (simp add: r)
next
  case (loads_resources resources reg result reg')
  show ?case
  proof (cases "reg' = reg")
    case False
    with loads_resources obtain ds where "register_resources n ds reg = (result, reg')"
      by (auto simp: RegisterPluginResources_def split: option.splits if_splits)
    from register_resources_others [OF this] obtain m where m: "reg' = reg\<lparr>resourcesByTypeName := m\<rparr>"
      "\<forall>k d. m k = Some d \<longrightarrow> resourcesByTypeName reg k = Some d \<or>
          (resourcesByTypeName reg k = None \<and> rd_plugin d = n \<and> rd_type d = k \<and> IsIdentifier k)"
      "\<forall>k d. resourcesByTypeName reg k = Some d \<longrightarrow> m k = Some d" by blast
    have "drop_owned rd_plugin n m = drop_owned rd_plugin n (resourcesByTypeName reg)"
    proof
      fix k
      show "drop_owned rd_plugin n m k = drop_owned rd_plugin n (resourcesByTypeName reg) k"
        using m(2,3) [rule_format, of k]
        by (cases "m k"; cases "resourcesByTypeName reg k") (force simp: drop_owned_def)+
    qed
    then have "UnregisterSyntaxPlugin n reg' = UnregisterSyntaxPlugin n reg"
      by (intro unload_cong) (simp_all add: unload_simps m(1))
    then show ?thesis by (rule unload_same) (simp add: m(1))
  qed simp
next
  case (loads_modules modules reg reg')
  from loads_modules [symmetric] show ?case
    using unload_modules [of n _ reg] by (cases modules) (simp_all add: RegisterPluginVirtualModules_def)
qed

lemma unload_unowned:
  assumes "registry_ok reg" and "\<not> owns n reg"
  shows "UnregisterSyntaxPlugin n reg = reg"
proof (rule registry.equality)
  let ?reg = "UnregisterSyntaxPlugin n reg"
  have tables: "rule_table.table_ok reg" "opaque_table.table_ok reg" "operator_table.table_ok reg"
    using assms(1) by (simp_all add: registry_ok_def rule_table.table_ok_def opaque_table.table_ok_def
      operator_table.table_ok_def)
  have strangers: "\<forall>x \<in> set (rules reg). rr_plugin x \<noteq> n" "\<forall>x \<in> set (opaqueRules reg). ro_plugin x \<noteq> n"
    "\<forall>x \<in> set (binaryOperators reg). bo_plugin x \<noteq> n" "\<forall>x \<in> set (preludes reg). pl_plugin x \<noteq> n"
    "n \<notin> rd_plugin ` ran (resourcesByTypeName reg)" "n \<notin> fst ` ran (virtualModulesByName reg)"
    using assms(2) unfolding owns_def by blast+
  show "rules ?reg = rules reg" "rulesByKeyword ?reg = rulesByKeyword reg"
    using rule_table.unload_stranger [OF tables(1) strangers(1)] by simp_all
  show "opaqueRules ?reg = opaqueRules reg" "opaqueRulesByKeyword ?reg = opaqueRulesByKeyword reg"
    using opaque_table.unload_stranger [OF tables(2) strangers(2)] by simp_all
  show "binaryOperators ?reg = binaryOperators reg"
    "binaryOperatorsBySignature ?reg = binaryOperatorsBySignature reg"
    using operator_table.unload_stranger [OF tables(3) strangers(3)] by simp_all
  show "preludes ?reg = preludes reg" using strangers(4) by (simp add: unload_fields)
  show "resourcesByTypeName ?reg = resourcesByTypeName reg"
    "virtualModulesByName ?reg = virtualModulesByName reg"
    using strangers(5,6) by (simp_all add: unload_fields drop_owned_none)
qed simp

section \<open>Properties\<close>

lemma reachable_ok: "reachable_registry reg \<Longrightarrow> registry_ok reg"
proof (induction rule: reachable_registry.induct)
  case reach_empty
  then show ?case by (simp add: registry_ok_def empty_registry_def)
next
  case (reach_reset reg)
  then show ?case by (simp add: registry_ok_def ResetSyntaxPlugins_def)
qed (auto intro: load_keeps_ok unload_keeps_ok)

text \<open>
  C7. The registry stays consistent through every sequence of loading, unloading and resetting
  plugins, failed loads included: each index holds exactly the positions of the entries of its
  list, no keyword belongs to two rules or to the language, and a resource is filed under its
  own type name.
\<close>

theorem registry_stays_consistent: "reachable_registry reg \<Longrightarrow> registry_ok reg"
  by (rule reachable_ok)

text \<open>A plugin with one keyword, whose adapter replaces it by \<open>if\<close>.\<close>

definition unless_rule :: registered_rule where
  "unless_rule = \<lparr>rr_plugin = ''control'', rr_keyword = ''unless'',
     rr_expand = (\<lambda>_. Expand_returned True None 1 (Some ''if''))\<rparr>"

definition control_plugin :: syntax_plugin where
  "control_plugin = \<lparr>sp_abi = 1, sp_name = Some ''control'',
     sp_rules = \<lparr>tb_count = 1, tb_rules =
       Some [\<lparr>sr_keyword = Some ''unless'', sr_expand = Some (rr_expand unless_rule)\<rparr>]\<rparr>\<rparr>"

definition control_registry :: registry where
  "control_registry = empty_registry\<lparr>rules := [unless_rule],
     rulesByKeyword := [''unless'' \<mapsto> 0]\<rparr>"

lemma load_control: "loads ''control'' empty_registry control_registry"
proof (rule loads_rules)
  have "\<not> IsValidTokenValue T_KEYWORD ''unless''" by code_simp
  then show "RegisterSyntaxPlugin (Some control_plugin) empty_registry = Inr control_registry"
    by (simp add: RegisterSyntaxPlugin_def control_plugin_def control_registry_def empty_registry_def
        unless_rule_def entries_def text_or_empty_def IsIdentifier_def isalpha_def isalnum_def
        byte_of_def plugin_abi_version_def add_rule_def emplace_def Let_def)
  show "sp_name control_plugin = Some ''control''" by (simp add: control_plugin_def)
qed

lemma registry_stays_consistent_witness:
  "registry_ok control_registry \<and> rulesByKeyword control_registry ''unless'' = Some 0"
  using registry_stays_consistent [OF reach_load [OF reach_empty load_control]]
  by (simp add: control_registry_def)

text \<open>
  C35. Unloading undoes loading, for a plugin that owns nothing in the registry before it loads: whatever
  it registers, in any number of calls and in any order, failed ones included, unregistering it gives
  back the registry there was, with one exception: a virtual module of another plugin that it has
  registered again is gone, since registering overwrites the module and nothing restores it.
\<close>

theorem unloading_undoes_loading:
  assumes "reachable_registry reg" and "\<not> owns name reg" and "(loads name)\<^sup>*\<^sup>* reg reg'"
  shows "UnregisterSyntaxPlugin name reg' =
    reg\<lparr>virtualModulesByName := virtualModulesByName reg |` {k. map_option fst (virtualModulesByName reg' k) \<noteq> Some name}\<rparr>"
proof -
  have l: "apart_from_modules (UnregisterSyntaxPlugin name reg') = apart_from_modules (UnregisterSyntaxPlugin name reg) \<and>
    (\<forall>k. virtualModulesByName reg' k = virtualModulesByName reg k \<or> map_option fst (virtualModulesByName reg' k) = Some name)"
    using assms(3)
  proof (induction rule: rtranclp_induct)
    case (step y z)
    then show ?case using unload_loaded [OF step(2)] by metis
  qed simp
  have same: "UnregisterSyntaxPlugin name reg = reg" using reachable_ok [OF assms(1)] assms(2) by (rule unload_unowned)
  have m: "virtualModulesByName (UnregisterSyntaxPlugin name reg') =
      virtualModulesByName reg |` {k. map_option fst (virtualModulesByName reg' k) \<noteq> Some name}"
  proof
    fix k
    show "virtualModulesByName (UnregisterSyntaxPlugin name reg') k =
        (virtualModulesByName reg |` {k. map_option fst (virtualModulesByName reg' k) \<noteq> Some name}) k"
      using conjunct2 [OF l, rule_format, of k]
      by (auto simp: unload_fields drop_owned_def restrict_map_def split: option.splits)
  qed
  have "UnregisterSyntaxPlugin name reg' = (apart_from_modules (UnregisterSyntaxPlugin name reg'))
      \<lparr>virtualModulesByName := virtualModulesByName (UnregisterSyntaxPlugin name reg')\<rparr>" by simp
  then show ?thesis unfolding conjunct1 [OF l] same m by simp
qed

lemma unloading_undoes_loading_witness:
  "UnregisterSyntaxPlugin ''control'' control_registry = empty_registry \<and>
   control_registry \<noteq> empty_registry"
proof -
  have "\<not> owns ''control'' empty_registry" by (simp add: owns_def empty_registry_def)
  moreover have "(loads ''control'')\<^sup>*\<^sup>* empty_registry control_registry"
    using load_control by blast
  ultimately have "UnregisterSyntaxPlugin ''control'' control_registry =
      empty_registry\<lparr>virtualModulesByName := virtualModulesByName empty_registry |`
        {k. map_option fst (virtualModulesByName control_registry k) \<noteq> Some ''control''}\<rparr>"
    by (rule unloading_undoes_loading [OF reach_empty])
  then show ?thesis by (simp add: control_registry_def empty_registry_def)
qed

text \<open>The second plugin takes the module of the first over, and unloading it leaves no module.\<close>

lemma taken_over_module_is_lost:
  "FindPluginVirtualModule (UnregisterSyntaxPlugin ''second'' (RegisterPluginVirtualModules ''second''
     (Some [(Some ''ui'', Some ''new'')]) (RegisterPluginVirtualModules ''first''
     (Some [(Some ''ui'', Some ''old'')]) empty_registry))) ''ui'' = None"
  by code_simp

text \<open>The node a plugin's parser has handed over, whatever it returned or threw.\<close>

definition handed_over :: "parse_outcome \<Rightarrow> opaque_result" where
  "handed_over x = (case x of Parse_threw what r \<Rightarrow> r | Parse_threw_unknown r \<Rightarrow> r
     | Parse_returned succeeded index r \<Rightarrow> r)"

text \<open>
  Ownership of an opaque node: when a plugin's parser is rejected for whatever reason, the
  payload it handed over is destroyed once if its table has a function for it, and lost otherwise,
  and no statement holds it; when it is accepted nothing is destroyed, the statement holds the node, the node is one the compiler
  can destroy and emit, and the position moves forward within the tokens.
\<close>

theorem opaque_node_owned_or_destroyed:
  "if length tokens \<le> position \<or> opaqueRulesByKeyword reg (tok_value (tokens ! position)) = None
   then TryParseOpaquePluginStatement reg tokens position = (Inr None, [])
   else
     let rule = opaqueRules reg ! the (opaqueRulesByKeyword reg (tok_value (tokens ! position)));
         node = handed_over (ro_parse rule (MakeTokenViews tokens position))
     in case TryParseOpaquePluginStatement reg tokens position of
          (Inl e, destroyed) \<Rightarrow> destroyed =
            (if or_payload node \<noteq> 0 \<and> (\<exists>vt. or_vtable node = Some vt \<and> vt_destroy vt) then [or_payload node] else [])
        | (Inr None, destroyed) \<Rightarrow> False
        | (Inr (Some (st, next)), destroyed) \<Rightarrow>
            destroyed = [] \<and> valid_node node \<and> position < next \<and> next \<le> length tokens \<and>
            (\<exists>p k. skind st = OpaquePluginStmt p k (node_of node))"
proof (cases "length tokens \<le> position \<or> opaqueRulesByKeyword reg (tok_value (tokens ! position)) = None")
  case True
  then show ?thesis by (auto simp: TryParseOpaquePluginStatement_def)
next
  case False
  then obtain i where i: "opaqueRulesByKeyword reg (tok_value (tokens ! position)) = Some i"
    "position < length tokens" by auto
  have once: "DestroyOpaqueNode r =
      (if or_payload r \<noteq> 0 \<and> (\<exists>vt. or_vtable r = Some vt \<and> vt_destroy vt) then [or_payload r] else [])" for r
    by (auto simp: DestroyOpaqueNode_def split: option.splits)
  from i once show ?thesis
    by (cases "ro_parse (opaqueRules reg ! i) (MakeTokenViews tokens position)")
      (auto simp: TryParseOpaquePluginStatement_def handed_over_def MakeTokenViews_def Let_def
        stmt_node_def)
qed

section \<open>Expansion\<close>

lemma expand_loop_keywords:
  "expand_loop reg count index tokens = Inr out \<Longrightarrow>
     \<forall>t \<in> set (take index tokens). rulesByKeyword reg (tok_value t) = None \<Longrightarrow>
     \<forall>t \<in> set out. rulesByKeyword reg (tok_value t) = None"
proof (induction reg count index tokens rule: expand_loop.induct)
  case (1 reg count index tokens)
  show ?case
  proof (cases "index < length tokens")
    case False
    with 1(3,4) show ?thesis by (simp add: expand_loop.simps [of reg count index])
  next
    case True
    show ?thesis
    proof (cases "rulesByKeyword reg (tok_value (tokens ! index))")
      case None
      with True 1(3) have "expand_loop reg count (index + 1) tokens = Inr out"
        by (simp add: expand_loop.simps [of reg count index])
      moreover have "\<forall>t \<in> set (take (index + 1) tokens). rulesByKeyword reg (tok_value t) = None"
        using True None 1(4) by (simp add: take_Suc_conv_app_nth)
      ultimately show ?thesis using 1(1) True None by simp
    next
      case (Some i)
      with True 1(3) obtain consumed replacement where
        run: "count + 1 \<le> maximumExpansions"
        "expand_at reg tokens index (rules reg ! i) = Inr (consumed, replacement)"
        "expand_loop reg (count + 1) index
           (take index tokens @ replacement @ drop (index + consumed) tokens) = Inr out"
        by (auto simp: expand_loop.simps [of reg count index] not_less split: if_splits sum.splits)
      have "take index (take index tokens @ replacement @ drop (index + consumed) tokens) =
          take index tokens" using True by simp
      with 1(2) [OF _ Some _ run(2) refl] 1(4) run True show ?thesis by simp
    qed
  qed
qed

text \<open>
  Expansion is complete: when it succeeds, no token that is left is a keyword of a plugin's
  rule, however many expansions produced it.
\<close>

theorem expansion_leaves_no_keyword:
  assumes "ExpandSyntaxPlugins reg tokens = Inr out" and "t \<in> set out"
  shows "rulesByKeyword reg (tok_value t) = None"
  using expand_loop_keywords [OF assms(1) [unfolded ExpandSyntaxPlugins_def]] assms(2) by simp

lemma expansion_leaves_no_keyword_witness:
  "\<exists>out. ExpandSyntaxPlugins control_registry
      [\<lparr>tok_type = T_KEYWORD, tok_value = ''unless'', tok_line = 2, tok_column = 5\<rparr>] = Inr out \<and>
     map tok_value out = [''if''] \<and> rulesByKeyword control_registry ''if'' = None"
proof -
  let ?t = "\<lparr>tok_type = T_KEYWORD, tok_value = ''unless'', tok_line = 2, tok_column = 5\<rparr>"
  let ?if = "\<lparr>tok_type = T_KEYWORD, tok_value = ''if'', tok_line = 2, tok_column = 5\<rparr>"
  have "IsSyntaxPluginKeyword control_registry = (\<lambda>v. v = ''unless'')"
    by (auto simp: IsSyntaxPluginKeyword_def control_registry_def empty_registry_def fun_eq_iff)
  moreover have "lexer (\<lambda>v. v = ''unless'') ''if'' =
      Inr [\<lparr>tok_type = T_KEYWORD, tok_value = ''if'', tok_line = 1, tok_column = 1\<rparr>]"
    by code_simp
  ultimately have run: "ExpandSyntaxPlugins control_registry [?t] = Inr [?if]"
    by (simp add: ExpandSyntaxPlugins_def expand_loop.simps expand_at_def control_registry_def
        unless_rule_def empty_registry_def MakeTokenViews_def RebaseLocations_def
        maximumExpansions_def Let_def)
  from expansion_leaves_no_keyword [OF run, of ?if] run show ?thesis by simp
qed

text \<open>
  A runaway adapter is stopped: when the adapter of a keyword always expands it to a text
  that starts with the keyword itself, expansion ends with the error that says so.
\<close>

theorem runaway_adapter_is_stopped:
  assumes "rulesByKeyword reg k = Some i"
    and "\<And>views. rr_expand (rules reg ! i) views = Expand_returned True None 1 (Some source)"
    and "source \<noteq> []" and "lexer (IsSyntaxPluginKeyword reg) source = Inr (t # ts)"
    and "tok_value t = k" and "tok_value u = k"
  shows "ExpandSyntaxPlugins reg (u # rest) =
    Inl ''Syntax plugin expansion limit exceeded; possible recursive adapter''"
proof -
  have "expand_loop reg count 0 (u # rest) =
      Inl ''Syntax plugin expansion limit exceeded; possible recursive adapter''"
    if "tok_value u = k" for count u rest
    using that
  proof (induction "maximumExpansions - count" arbitrary: count u rest)
    case 0
    with assms(1) show ?case by (simp add: expand_loop.simps)
  next
    case (Suc n)
    have "expand_at reg (u # rest) 0 (rules reg ! i) = Inr (1, RebaseLocations (t # ts) u)"
      using assms(2-4) by (simp add: expand_at_def MakeTokenViews_def Let_def)
    moreover obtain v vs where "RebaseLocations (t # ts) u = v # vs" "tok_value v = k"
      using assms(5) by (simp add: RebaseLocations_def)
    moreover have "expand_loop reg (count + 1) 0 (v # vs @ rest) =
        Inl ''Syntax plugin expansion limit exceeded; possible recursive adapter''"
      using Suc.hyps(2) \<open>tok_value v = k\<close> by (intro Suc.hyps(1)) simp_all
    ultimately show ?case
      using Suc.hyps(2) Suc.prems assms(1) by (simp add: expand_loop.simps [of reg count])
  qed
  then show ?thesis using assms(6) by (simp add: ExpandSyntaxPlugins_def)
qed

lemma runaway_adapter_is_stopped_witness:
  "ExpandSyntaxPlugins
     (empty_registry\<lparr>rules := [\<lparr>rr_plugin = ''p'', rr_keyword = ''again'',
          rr_expand = (\<lambda>_. Expand_returned True None 1 (Some ''again''))\<rparr>],
        rulesByKeyword := [''again'' \<mapsto> 0]\<rparr>)
     [\<lparr>tok_type = T_KEYWORD, tok_value = ''again'', tok_line = 1, tok_column = 1\<rparr>] =
   Inl ''Syntax plugin expansion limit exceeded; possible recursive adapter''"
    (is "ExpandSyntaxPlugins ?reg _ = _")
proof (rule runaway_adapter_is_stopped [where i = 0 and source = "''again''" and k = "''again''"
    and ts = "[]" and t = "\<lparr>tok_type = T_KEYWORD, tok_value = ''again'', tok_line = 1, tok_column = 1\<rparr>"])
  have "IsSyntaxPluginKeyword ?reg = (\<lambda>v. v = ''again'')"
    by (auto simp: IsSyntaxPluginKeyword_def empty_registry_def fun_eq_iff)
  moreover have "lexer (\<lambda>v. v = ''again'') ''again'' =
      Inr [\<lparr>tok_type = T_KEYWORD, tok_value = ''again'', tok_line = 1, tok_column = 1\<rparr>]"
    by code_simp
  ultimately show "lexer (IsSyntaxPluginKeyword ?reg) ''again'' =
      Inr [\<lparr>tok_type = T_KEYWORD, tok_value = ''again'', tok_line = 1, tok_column = 1\<rparr>]" by simp
qed simp_all

section \<open>The cursor\<close>

inductive cursor_step :: "cursor \<Rightarrow> cursor \<Rightarrow> bool" where
  step_consume: "CursorConsume kind expected c = (ok, c') \<Longrightarrow> cursor_step c c'"
| step_restore: "CursorRestore checkpointId c = (ok, c') \<Longrightarrow> cursor_step c c'"
| step_commit: "CursorCommit checkpointId c = (ok, c') \<Longrightarrow> cursor_step c c'"
| step_slice: "CursorSourceSlice startToken endToken c = (written, c') \<Longrightarrow> cursor_step c c'"
| step_capture: "CursorCaptureUntil delimiter c = (captured, c') \<Longrightarrow> cursor_step c c'"

lemma cursor_step_bounds:
  "cursor_step c c' \<Longrightarrow> cu_index c \<le> length (cu_views c) \<Longrightarrow>
     cu_views c' = cu_views c \<and> cu_index c' \<le> length (cu_views c)"
proof (induction rule: cursor_step.induct)
  case (step_consume kind expected c ok c')
  then show ?case by (auto simp: CursorConsume_def Let_def split: if_splits)
next
  case (step_capture delimiter c captured c')
  have "length (takeWhile P (drop (cu_index c) (cu_views c))) + cu_index c \<le> length (cu_views c)" for P
    using length_takeWhile_le [of P "drop (cu_index c) (cu_views c)"] step_capture(2) by simp
  with step_capture show ?case
    by (auto simp: CursorCaptureUntil_def Let_def add.commute split: option.splits if_splits)
qed (auto simp: CursorRestore_def CursorCommit_def CursorSourceSlice_def Let_def split: if_splits)

text \<open>
  A plugin cannot take its cursor outside the tokens: after any sequence of cursor operations
  the tokens are those it was given and the index is within them, so the number of tokens that
  remain is what \<open>CursorRemaining\<close> says.
\<close>

theorem cursor_stays_in_bounds:
  assumes "cursor_step\<^sup>*\<^sup>* \<lparr>cu_views = views, cu_index = 0, cu_slice = []\<rparr> c"
  shows "cu_views c = views \<and> cu_index c \<le> length views \<and>
    CursorRemaining c = length views - cu_index c"
proof -
  from assms have "cu_views c = views \<and> cu_index c \<le> length views"
    by (induction rule: rtranclp_induct) (auto dest: cursor_step_bounds)
  then show ?thesis by (simp add: CursorRemaining_def)
qed

lemma cursor_stays_in_bounds_witness:
  "\<exists>c. cu_index c = 2 \<and> CursorRemaining c = 1 \<and>
     (\<exists>views. length views = 3 \<and>
       cursor_step\<^sup>*\<^sup>* \<lparr>cu_views = views, cu_index = 0, cu_slice = []\<rparr> c)"
proof -
  let ?v = "\<lambda>t. \<lparr>tv_kind = 2, tv_text = t, tv_line = 1, tv_column = 1\<rparr>"
  let ?views = "[?v ''a'', ?v ''b'', ?v '';'']"
  let ?c0 = "\<lparr>cu_views = ?views, cu_index = 0, cu_slice = []\<rparr>"
  let ?c1 = "\<lparr>cu_views = ?views, cu_index = 1, cu_slice = []\<rparr>"
  let ?c2 = "\<lparr>cu_views = ?views, cu_index = 2, cu_slice = ''b ''\<rparr>"
  have "CursorConsume None (Some ''a'') ?c0 = (True, ?c1)" by (simp add: CursorConsume_def)
  moreover have "CursorCaptureUntil (Some '';'') ?c1 = ((''b '', 1), ?c2)"
    by (simp add: CursorCaptureUntil_def Let_def)
  ultimately have steps: "cursor_step\<^sup>*\<^sup>* ?c0 ?c2"
    by (meson step_consume step_capture converse_rtranclp_into_rtranclp rtranclp.rtrancl_refl)
  from cursor_stays_in_bounds [OF steps] show ?thesis
    by (intro exI [of _ ?c2] conjI exI [of _ ?views]) (use steps in simp_all)
qed

end
