(* ===== verification/Ast_Text.thy ===== *)
theory Ast_Text
  imports Ast
begin

text \<open>
  The textual form of the syntax tree: \<open>ToString\<close> and \<open>print\<close> of every node class of
  \<^verbatim>\<open>Absolute-Parser/include/ast/\<close> and \<^verbatim>\<open>nodes.h\<close>. There is one definition per class, over the
  renderings of its children, and \<open>ToString\<close> and \<open>Print\<close> compose them over the tree (the virtual
  dispatch). A rendering takes the indentation; \<open>None\<close> is the dereference of a null child.
  The last section shows when a tree is printed without such a dereference.
\<close>

section \<open>Renderings\<close>

type_synonym rendering = "nat \<Rightarrow> string option"

definition pad :: "nat \<Rightarrow> string" where
  "pad n = replicate n (CHR '' '')"

fun cat :: "string option list \<Rightarrow> string option" where
  "cat [] = Some []"
| "cat (x # xs) =
     (case x of None \<Rightarrow> None | Some s \<Rightarrow> (case cat xs of None \<Rightarrow> None | Some t \<Rightarrow> Some (s @ t)))"

text \<open>\<open>p->ToString(indent)\<close>, and the same under \<open>if (p)\<close>.\<close>

definition deref :: "rendering option \<Rightarrow> rendering" where
  "deref p n = (case p of None \<Rightarrow> None | Some r \<Rightarrow> r n)"

definition when_set :: "rendering option \<Rightarrow> (rendering \<Rightarrow> string option) \<Rightarrow> string option" where
  "when_set p f = (case p of None \<Rightarrow> Some [] | Some r \<Rightarrow> f r)"

text \<open>A loop over child pointers, each on its own line; and one that skips null pointers.\<close>

definition below :: "nat \<Rightarrow> rendering option list \<Rightarrow> string option" where
  "below n ps = cat (map (\<lambda>p. cat [Some ''\<newline>'', deref p n]) ps)"

definition below_set :: "nat \<Rightarrow> rendering option list \<Rightarrow> string option" where
  "below_set n ps = cat (map (\<lambda>p. when_set p (\<lambda>r. cat [Some ''\<newline>'', r n])) ps)"

fun commas :: "string list \<Rightarrow> string" where
  "commas [] = []"
| "commas [x] = x"
| "commas (x # xs) = x @ '', '' @ commas xs"

lemma cat_None: "cat [] \<noteq> None" "cat (x # xs) = None \<longleftrightarrow> x = None \<or> cat xs = None"
  by (auto split: option.splits)

section \<open>Expressions\<close>

definition NullExpr_ToString :: rendering where
  "NullExpr_ToString n = Some (pad n @ ''Null expression'')"

definition BooleanLiteralExpr_ToString :: "bool \<Rightarrow> rendering" where
  "BooleanLiteralExpr_ToString v n =
     Some (pad n @ ''Boolean literal: '' @ (if v then ''true'' else ''false''))"

definition NumberLiteralExpr_ToString :: "string \<Rightarrow> rendering" where
  "NumberLiteralExpr_ToString v n = Some (pad n @ ''Number literal: '' @ v)"

definition StringLiteralExpr_ToString :: "string \<Rightarrow> rendering" where
  "StringLiteralExpr_ToString v n = Some (pad n @ ''String literal: '' @ v)"

definition CharLiteralExpr_ToString :: "char \<Rightarrow> rendering" where
  "CharLiteralExpr_ToString v n = Some (pad n @ ''Char literal: '' @ [v])"

definition IdentifierExpr_ToString :: "string \<Rightarrow> rendering" where
  "IdentifierExpr_ToString name n = Some (pad n @ ''Identifier: '' @ name)"

definition ArrayExpr_ToString :: "rendering option list \<Rightarrow> rendering option list \<Rightarrow> rendering" where
  "ArrayExpr_ToString sizes vals n =
     cat [Some (pad n @ ''Array:''),
          if sizes = [] then Some []
          else cat [Some (''\<newline>'' @ pad (n + 1) @ ''Sizes:''), below (n + 2) sizes],
          if vals = [] then Some []
          else cat [Some (''\<newline>'' @ pad (n + 1) @ ''Values:''), below (n + 2) vals]]"

fun index_texts :: "nat \<Rightarrow> rendering option list \<Rightarrow> string option" where
  "index_texts i [] = Some []"
| "index_texts i (p # ps) =
     cat [Some (if i > 0 then '', '' else []),
          case p of None \<Rightarrow> Some ''*'' | Some r \<Rightarrow> r 0,
          index_texts (i + 1) ps]"

definition ArrayAccessExpr_ToString :: "rendering option \<Rightarrow> rendering option list \<Rightarrow> rendering" where
  "ArrayAccessExpr_ToString base indexes n =
     cat [Some (pad n @ ''Array Access''),
          if indexes = [] then Some []
          else cat [Some '' ['', index_texts 0 indexes, Some '']''],
          Some '':\<newline>'', deref base (n + 1)]"

fun range_texts :: "nat \<Rightarrow> (rendering option \<times> rendering option \<times> bool) list \<Rightarrow> string option" where
  "range_texts i [] = Some []"
| "range_texts i ((lower, upper, hasColon) # rs) =
     cat [Some (if i > 0 then '', '' else []),
          when_set lower (\<lambda>r. r 0), Some '':'', when_set upper (\<lambda>r. r 0),
          range_texts (i + 1) rs]"

definition SliceExpr_ToString ::
  "rendering option \<Rightarrow> (rendering option \<times> rendering option \<times> bool) list \<Rightarrow> rendering" where
  "SliceExpr_ToString base ranges n =
     cat [Some (pad n @ ''Slice [''), range_texts 0 ranges, Some '']:\<newline>'',
          case base of None \<Rightarrow> Some (pad (n + 1) @ ''<missing>'') | Some r \<Rightarrow> r (n + 1)]"

definition BinaryExpr_ToString :: "string \<Rightarrow> rendering option \<Rightarrow> rendering option \<Rightarrow> rendering" where
  "BinaryExpr_ToString op left right n =
     cat [Some (pad n @ ''Binary expression ('' @ op @ ''):\<newline>''),
          when_set left (\<lambda>r. cat [r (n + 1), Some ''\<newline>'']),
          when_set right (\<lambda>r. r (n + 1))]"

definition AssignmentExpr_ToString ::
  "rendering option \<Rightarrow> string \<Rightarrow> rendering option \<Rightarrow> rendering" where
  "AssignmentExpr_ToString target op v n =
     cat [Some (pad n @ ''Assignment:\<newline>'' @ pad n @ '' Target:\<newline>''),
          deref target (n + 2), Some ''\<newline>'',
          Some (pad n @ '' Operator: '' @ op @ ''\<newline>'' @ pad n @ '' Value:\<newline>''),
          deref v (n + 2)]"

definition PrimitiveTypeExpr_ToString :: "string \<Rightarrow> rendering" where
  "PrimitiveTypeExpr_ToString type n = Some (pad n @ ''Primitive type: '' @ type)"

definition UserTypeExpr_ToString :: "rendering option \<Rightarrow> rendering" where
  "UserTypeExpr_ToString typeExpr n = cat [Some (pad n @ ''User type:\<newline>''), deref typeExpr (n + 1)]"

definition PointerTypeExpr_ToString ::
  "rendering option \<Rightarrow> OwnershipKind \<Rightarrow> bool \<Rightarrow> rendering" where
  "PointerTypeExpr_ToString pointee ownership qualifiesBase n =
     (let kind = (case ownership of
                    OK_Raw \<Rightarrow> ''Raw pointer type:\<newline>''
                  | OK_Weak \<Rightarrow> ''Weak managed pointer type:\<newline>''
                  | OK_Sub \<Rightarrow> ''Subscriber pointer type:\<newline>''
                  | _ \<Rightarrow> ''Managed pointer type:\<newline>'');
          kind' = (if qualifiesBase then ''Qualified '' @ kind else kind)
      in cat [Some (pad n @ kind'),
              case pointee of None \<Rightarrow> Some (pad (n + 1) @ ''<missing>'') | Some r \<Rightarrow> r (n + 1)])"

definition ArrayTypeExpr_ToString :: "rendering option \<Rightarrow> rendering" where
  "ArrayTypeExpr_ToString element n =
     cat [Some (pad n @ ''Array type:\<newline>''),
          case element of None \<Rightarrow> Some (pad (n + 1) @ ''<missing>'') | Some r \<Rightarrow> r (n + 1)]"

definition VarDeclExpr_ToString ::
  "rendering option \<Rightarrow> rendering option \<Rightarrow> rendering option \<Rightarrow> rendering" where
  "VarDeclExpr_ToString type name v n =
     cat [Some (pad n @ ''Variable declaration: ''), deref type 0, Some ''\<newline>'',
          Some (pad (n + 1) @ ''Name:\<newline>''), deref name (n + 2),
          when_set v (\<lambda>r. cat [Some (''\<newline>'' @ pad (n + 1) @ ''Value:\<newline>''), r (n + 2)])]"

definition FunctionCallExpr_ToString :: "rendering option \<Rightarrow> rendering option list \<Rightarrow> rendering" where
  "FunctionCallExpr_ToString base arguments n =
     cat [Some (pad n @ ''Function call:''), Some ''\<newline>'', deref base (n + 1),
          if arguments = [] then Some []
          else cat [Some (''\<newline>'' @ pad (n + 1) @ ''Arguments:''), below (n + 2) arguments]]"

definition LambdaExpr_ToString ::
  "rendering list \<Rightarrow> rendering option \<Rightarrow> rendering option \<Rightarrow> rendering option \<Rightarrow> rendering" where
  "LambdaExpr_ToString parameters returnType expressionBody statementBody n =
     cat [Some (pad n @ ''Lambda''),
          below_set (n + 1) (map Some parameters),
          below_set (n + 1) [returnType],
          below_set (n + 1) [expressionBody],
          below_set (n + 1) [statementBody]]"

definition CastExpr_ToString :: "string \<Rightarrow> rendering option \<Rightarrow> rendering option \<Rightarrow> rendering" where
  "CastExpr_ToString operation typeName base n =
     cat [Some (pad n @
            (if operation = ''is'' then ''Type test expression:\<newline>'' else ''Cast expression:\<newline>'')),
          Some (pad (n + 1) @ ''Type:\<newline>''), deref typeName (n + 2), Some ''\<newline>'',
          Some (pad (n + 1) @ ''Value:\<newline>''), deref base (n + 2)]"

definition ConstructorCallExpr_ToString ::
  "rendering option \<Rightarrow> rendering option list \<Rightarrow> bool \<Rightarrow> rendering" where
  "ConstructorCallExpr_ToString constructName arguments raw n =
     cat [Some (pad n @ ''Constructor call:\<newline>''),
          Some (if raw then pad (n + 1) @ ''Raw allocation\<newline>'' else []),
          deref constructName (n + 1),
          below_set (n + 1) arguments]"

definition DestructorCallExpr_ToString :: "rendering option \<Rightarrow> rendering" where
  "DestructorCallExpr_ToString target n =
     cat [Some (pad n @ ''Desctructor call:\<newline>''), when_set target (\<lambda>r. r (n + 1))]"

definition InstanceDeclExpr_ToString ::
  "rendering \<Rightarrow> rendering option \<Rightarrow> rendering option \<Rightarrow> rendering" where
  "InstanceDeclExpr_ToString constructType identifierName v n =
     cat [Some (pad n @ ''Instance declaration:\<newline>''),
          Some (pad (n + 1) @ ''Type:\<newline>''), constructType (n + 2), Some ''\<newline>'',
          Some (pad (n + 1) @ ''Identifier:\<newline>''), deref identifierName (n + 2),
          when_set v (\<lambda>r. cat [Some (''\<newline>'' @ pad (n + 1) @ ''Value:\<newline>''), r (n + 2)])]"

definition MemberAccessExpr_ToString :: "rendering option \<Rightarrow> string \<Rightarrow> rendering" where
  "MemberAccessExpr_ToString base member n =
     cat [Some (pad n @ ''Member Access: '' @ member @ ''\<newline>''), deref base (n + 1)]"

definition TemplateExpr_ToString :: "rendering option \<Rightarrow> rendering option list \<Rightarrow> rendering" where
  "TemplateExpr_ToString base types n =
     cat [Some (pad n @ ''Template:''), below (n + 1) types, Some '':\<newline>'', deref base (n + 1)]"

definition TernaryExpr_ToString ::
  "rendering option \<Rightarrow> rendering option \<Rightarrow> rendering option \<Rightarrow> rendering" where
  "TernaryExpr_ToString condition trueExpr falseExpr n =
     cat [Some (pad n @ ''Ternary expression:''),
          when_set condition
            (\<lambda>r. cat [Some (''\<newline>'' @ pad (n + 1) @ ''Condition:\<newline>''), r (n + 2)]),
          when_set condition
            (\<lambda>_. cat [Some (''\<newline>'' @ pad (n + 1) @ ''True:\<newline>''), deref trueExpr (n + 2)]),
          when_set condition
            (\<lambda>_. cat [Some (''\<newline>'' @ pad (n + 1) @ ''False:\<newline>''), deref falseExpr (n + 2)])]"

definition PrefixUnaryExpr_ToString :: "string \<Rightarrow> rendering option \<Rightarrow> rendering" where
  "PrefixUnaryExpr_ToString op operand n =
     cat [Some (pad n @ ''Prefix Unary expression ''), Some (op @ '':\<newline>''), deref operand (n + 1)]"

definition PostfixUnaryExpr_ToString :: "string \<Rightarrow> rendering option \<Rightarrow> rendering" where
  "PostfixUnaryExpr_ToString op operand n =
     cat [Some (pad n @ ''Postfix Unary expression: ''), Some op, when_set operand (\<lambda>r. r 0)]"

text \<open>The virtual call: which class's \<open>ToString\<close> runs.\<close>

fun expr_text :: "(rendering, rendering) expr_kind \<Rightarrow> rendering" where
  "expr_text NullExpr = NullExpr_ToString"
| "expr_text (BooleanLiteralExpr b) = BooleanLiteralExpr_ToString b"
| "expr_text (NumberLiteralExpr s) = NumberLiteralExpr_ToString s"
| "expr_text (StringLiteralExpr s) = StringLiteralExpr_ToString s"
| "expr_text (CharLiteralExpr c) = CharLiteralExpr_ToString c"
| "expr_text (IdentifierExpr s) = IdentifierExpr_ToString s"
| "expr_text (ArrayExpr a b) = ArrayExpr_ToString a b"
| "expr_text (ArrayAccessExpr a b) = ArrayAccessExpr_ToString a b"
| "expr_text (SliceExpr a b) = SliceExpr_ToString a b"
| "expr_text (BinaryExpr op a b) = BinaryExpr_ToString op a b"
| "expr_text (AssignmentExpr a op b) = AssignmentExpr_ToString a op b"
| "expr_text (PrimitiveTypeExpr s) = PrimitiveTypeExpr_ToString s"
| "expr_text (UserTypeExpr a) = UserTypeExpr_ToString a"
| "expr_text (PointerTypeExpr a k q) = PointerTypeExpr_ToString a k q"
| "expr_text (ArrayTypeExpr a) = ArrayTypeExpr_ToString a"
| "expr_text (VarDeclExpr a b c flags) = VarDeclExpr_ToString a b c"
| "expr_text (FunctionCallExpr a b) = FunctionCallExpr_ToString a b"
| "expr_text (LambdaExpr a b c d) = LambdaExpr_ToString a b c d"
| "expr_text (CastExpr op a b) = CastExpr_ToString op a b"
| "expr_text (ConstructorCallExpr a b raw) = ConstructorCallExpr_ToString a b raw"
| "expr_text (DestructorCallExpr a) = DestructorCallExpr_ToString a"
| "expr_text (InstanceDeclExpr a b c isConst isStatic) = InstanceDeclExpr_ToString a b c"
| "expr_text (MemberAccessExpr a m) = MemberAccessExpr_ToString a m"
| "expr_text (TemplateExpr a b) = TemplateExpr_ToString a b"
| "expr_text (TernaryExpr a b c) = TernaryExpr_ToString a b c"
| "expr_text (PrefixUnaryExpr op a) = PrefixUnaryExpr_ToString op a"
| "expr_text (PostfixUnaryExpr op a) = PostfixUnaryExpr_ToString op a"

section \<open>Statements\<close>

text \<open>
  \<open>ASTNode::ToString\<close>, which a statement class inherits when it has none of its own, and
  \<open>ASTNode::print\<close>, which an expression and some statements use.
\<close>

definition ASTNode_ToString :: rendering where
  "ASTNode_ToString n = Some (pad n @ ''ASTNode'')"

definition ASTNode_print :: "rendering \<Rightarrow> rendering" where
  "ASTNode_print toString n = cat [toString n, Some ''\<newline>'']"

text \<open>The list of modifiers that several classes print in square brackets.\<close>

definition modifier_list :: "token list \<Rightarrow> string" where
  "modifier_list ms = (if ms = [] then [] else '' ['' @ commas (map tok_value ms) @ '']'')"

definition print_if :: "rendering option \<Rightarrow> rendering" where
  "print_if p n = when_set p (\<lambda>r. r n)"

definition print_each :: "nat \<Rightarrow> rendering list \<Rightarrow> string option" where
  "print_each n rs = cat (map (\<lambda>r. r n) rs)"

text \<open>What an expression child prints, given its \<open>ToString\<close>.\<close>

definition shown :: "rendering option \<Rightarrow> rendering option" where
  "shown p = map_option ASTNode_print p"

definition SingleStatement_ToString :: "stmt_info \<Rightarrow> rendering option \<Rightarrow> rendering" where
  "SingleStatement_ToString i expr n =
     cat [Some (pad n @ ''Single statement'' @ modifier_list (s_modifiers i) @ '':\<newline>''),
          when_set expr (\<lambda>r. r (n + 1))]"

definition TypeAliasStmt_ToString :: "string \<Rightarrow> rendering option \<Rightarrow> rendering" where
  "TypeAliasStmt_ToString name target n =
     cat [Some (pad n @ ''Type alias: '' @ name @ ''\<newline>''),
          case target of None \<Rightarrow> Some (pad (n + 1) @ ''<missing>'') | Some r \<Rightarrow> r (n + 1)]"

definition ImportStmt_ToString :: "string \<Rightarrow> bool \<Rightarrow> rendering" where
  "ImportStmt_ToString target isFile n =
     Some (pad n @ ''Import '' @ (if isFile then ''file: '' else ''namespace: '') @ target)"

definition NamespaceDeclStmt_ToString :: "string \<Rightarrow> rendering \<Rightarrow> rendering" where
  "NamespaceDeclStmt_ToString name body n =
     cat [Some (pad n @ ''Namespace: '' @ name), Some ''\<newline>'', body (n + 1)]"

definition OpaquePluginStmt_ToString :: "string \<Rightarrow> string \<Rightarrow> opaque_node \<Rightarrow> rendering" where
  "OpaquePluginStmt_ToString pluginName keyword nd n =
     (let detail = (if on_payload nd \<noteq> 0 then case on_debug nd of None \<Rightarrow> [] | Some s \<Rightarrow> s else [])
      in Some (pad n @ ''Opaque plugin statement ['' @ pluginName @ '':'' @ keyword @ '']'' @
           (if detail = [] then [] else '': '' @ detail)))"

fun stmt_text :: "stmt_info \<Rightarrow> (rendering, rendering) stmt_kind \<Rightarrow> rendering" where
  "stmt_text i (SingleStatement e) = SingleStatement_ToString i e"
| "stmt_text i (TypeAliasStmt name target) = TypeAliasStmt_ToString name target"
| "stmt_text i (ImportStmt target isFile) = ImportStmt_ToString target isFile"
| "stmt_text i (NamespaceDeclStmt name body) = NamespaceDeclStmt_ToString name body"
| "stmt_text i (OpaquePluginStmt p k nd) = OpaquePluginStmt_ToString p k nd"
| "stmt_text i k = ASTNode_ToString"

primrec ToString :: "expr \<Rightarrow> rendering" and ToString_stmt :: "stmt \<Rightarrow> rendering" where
  "ToString (Expr i k) = expr_text (map_expr_kind ToString ToString_stmt k)"
| "ToString_stmt (Stmt i k) = stmt_text i (map_stmt_kind ToString ToString_stmt k)"

subsection \<open>Printing\<close>

text \<open>\<open>print\<close>: the text written to the stream. Expressions are given by their \<open>ToString\<close>.\<close>

definition CompoundStmt_print :: "rendering list \<Rightarrow> rendering" where
  "CompoundStmt_print statements n =
     cat [Some (pad n @ ''Compound statement: \<newline>''), print_each (n + 1) statements]"

definition VarDeclStmt_print :: "stmt_info \<Rightarrow> rendering \<Rightarrow> rendering" where
  "VarDeclStmt_print i expr n =
     cat [Some (pad n @ ''Variable Declaration Statement'' @ modifier_list (s_modifiers i) @ '':\<newline>''),
          ASTNode_print expr (n + 1)]"

definition FunctionDeclStmt_print ::
  "stmt_info \<Rightarrow> function_info \<Rightarrow> rendering option \<Rightarrow> rendering list \<Rightarrow> rendering option \<Rightarrow> rendering" where
  "FunctionDeclStmt_print i f returnType parameters body n =
     cat [Some (pad n @ ''Function declaration: ''),
          Some (if IsExternal f then ''extern '' @ [CHR 0x22] @ f_externalAbi f @ [CHR 0x22] @ '' '' else []),
          Some (if IsExported f then ''export '' @ [CHR 0x22] @ f_exportAbi f @ [CHR 0x22] @ '' '' else []),
          Some ''\<newline>'', deref returnType (n + 1),
          Some (''\<newline>'' @ pad (n + 1) @ ''Name: '' @ tok_value (f_name f)),
          Some (modifier_list (s_modifiers i) @ ''\<newline>''),
          if parameters = [] then Some []
          else cat [Some (pad (n + 1) @ ''Function parameters: \<newline>''),
                    print_each (n + 2) (map ASTNode_print parameters)],
          print_if body (n + 1)]"

definition ReturnStmt_print :: "rendering option \<Rightarrow> rendering" where
  "ReturnStmt_print expr n =
     cat [Some (pad n @ ''Return statement: \<newline>''), print_if (shown expr) (n + 1)]"

definition IfStmt_print ::
  "(rendering option \<times> rendering) list \<Rightarrow> rendering option \<Rightarrow> rendering" where
  "IfStmt_print branches elseBranch n =
     cat [Some (pad n @ ''If statement: \<newline>''),
          cat (map (\<lambda>(condition, body). cat [Some (pad (n + 1) @ ''Branch: \<newline>''),
                      deref (shown condition) (n + 2), body (n + 2)]) branches),
          when_set elseBranch (\<lambda>r. cat [Some (pad (n + 1) @ ''Else branch: \<newline>''), r (n + 2)])]"

definition SwitchStmt_print ::
  "rendering option \<Rightarrow> (rendering option \<times> rendering) list \<Rightarrow> rendering option \<Rightarrow> bool \<Rightarrow> rendering" where
  "SwitchStmt_print v cases defaultCase exhaustive n =
     cat [Some (pad n @ (if exhaustive then ''Match statement:\<newline>'' else ''Switch statement:\<newline>'')),
          print_if (shown v) (n + 1),
          cat (map (\<lambda>(label, body). cat [Some (pad (n + 1) @ ''Case:\<newline>''),
                      print_if (shown label) (n + 2), body (n + 2)]) cases),
          when_set defaultCase (\<lambda>r. cat [Some (pad (n + 1) @ ''Default:\<newline>''), r (n + 2)])]"

definition ThrowStmt_print :: "rendering option \<Rightarrow> rendering" where
  "ThrowStmt_print v n = cat [Some (pad n @ ''Throw statement:\<newline>''), print_if (shown v) (n + 1)]"

definition TryStmt_print ::
  "rendering \<Rightarrow> (rendering \<times> rendering) list \<Rightarrow> rendering option \<Rightarrow> rendering" where
  "TryStmt_print body catches finallyBody n =
     cat [Some (pad n @ ''Try statement:\<newline>''), body (n + 1),
          cat (map (\<lambda>(parameter, b). cat [Some (pad (n + 1) @ ''Catch:\<newline>''),
                      ASTNode_print parameter (n + 2), b (n + 2)]) catches),
          when_set finallyBody (\<lambda>r. cat [Some (pad (n + 1) @ ''Finally:\<newline>''), r (n + 2)])]"

definition DeferStmt_print :: "rendering \<Rightarrow> rendering" where
  "DeferStmt_print body n = cat [Some (pad n @ ''Defer statement:\<newline>''), body (n + 1)]"

definition ForStmt_print ::
  "rendering option list \<Rightarrow> rendering option \<Rightarrow> rendering option list \<Rightarrow> rendering \<Rightarrow> rendering" where
  "ForStmt_print init condition update body n =
     cat [Some (pad n @ ''For statement:\<newline>''),
          cat (map (\<lambda>p. print_if (shown p) (n + 1)) init),
          print_if (shown condition) (n + 1),
          cat (map (\<lambda>p. print_if (shown p) (n + 1)) update),
          body (n + 1)]"

definition WhileStmt_print :: "rendering option \<Rightarrow> rendering \<Rightarrow> rendering" where
  "WhileStmt_print condition body n =
     cat [Some (pad n @ ''While statement:\<newline>''), print_if (shown condition) (n + 1), body (n + 1)]"

definition DoWhileStmt_print :: "rendering option \<Rightarrow> rendering option \<Rightarrow> rendering" where
  "DoWhileStmt_print body condition n =
     cat [Some (pad n @ ''Do-while statement:\<newline>''), print_if body (n + 1),
          print_if (shown condition) (n + 1)]"

definition ForEachStmt_print :: "rendering \<Rightarrow> rendering option \<Rightarrow> rendering option \<Rightarrow> rendering" where
  "ForEachStmt_print var iterable body n =
     cat [Some (pad n @ ''For-each statement:\<newline>''), ASTNode_print var (n + 1),
          print_if (shown iterable) (n + 1), print_if body (n + 1)]"

definition ContinueStmt_print :: rendering where
  "ContinueStmt_print n = Some (pad n @ ''Continue statement\<newline>'')"

definition BreakStmt_print :: rendering where
  "BreakStmt_print n = Some (pad n @ ''Break statement\<newline>'')"

definition ClassDeclStmt_print ::
  "stmt_info \<Rightarrow> string \<Rightarrow> string list \<Rightarrow> token list \<Rightarrow> rendering \<Rightarrow> rendering" where
  "ClassDeclStmt_print i name parents templateParams body n =
     cat [Some (pad n @ ''Class Declaration: '' @ name @
            (if templateParams = [] then []
             else '' <'' @ commas (map tok_value templateParams) @ ''>'') @
            modifier_list (s_modifiers i) @
            (if parents = [] then [] else '' : '' @ concat (map (\<lambda>p. p @ '' '') parents)) @
            ''\<newline>''),
          body (n + 1)]"

definition EnumDeclStmt_print :: "string \<Rightarrow> enum_member list \<Rightarrow> rendering" where
  "EnumDeclStmt_print name members n =
     Some (pad n @ ''Enum: '' @ name @ ''\<newline>'' @
       concat (map (\<lambda>m. pad (n + 1) @ ''Member: '' @ em_name m @
         (if em_hasValue m then '' = '' @ int_to_string (em_value m) else []) @ ''\<newline>'') members))"

definition GroupDeclStmt_print :: "string \<Rightarrow> rendering list \<Rightarrow> rendering list \<Rightarrow> rendering" where
  "GroupDeclStmt_print name enums subgroups n =
     cat [Some (pad n @ ''Group: '' @ name @ ''\<newline>''),
          if subgroups = [] then Some []
          else cat [Some (pad (n + 1) @ ''Subgroups: \<newline>''), print_each (n + 2) subgroups],
          if enums = [] then Some []
          else cat [Some (pad (n + 1) @ ''Enums: \<newline>''), print_each (n + 2) enums]]"

definition ConstructorDeclStmt_print ::
  "stmt_info \<Rightarrow> token \<Rightarrow> rendering list \<Rightarrow> rendering option list \<Rightarrow> bool \<Rightarrow> rendering option \<Rightarrow> rendering" where
  "ConstructorDeclStmt_print i name parameters baseArguments hasExplicitBaseCall body n =
     cat [Some (pad n @ ''Constructor declaration: '' @ tok_value name @
            modifier_list (s_modifiers i) @ ''\<newline>''),
          if parameters = [] then Some []
          else cat [Some (pad (n + 1) @ ''Constructor parameters:\<newline>''),
                    print_each (n + 2) (map ASTNode_print parameters)],
          if hasExplicitBaseCall
          then cat [Some (pad (n + 1) @ ''Base constructor arguments:\<newline>''),
                    cat (map (\<lambda>p. print_if (shown p) (n + 2)) baseArguments)]
          else Some [],
          print_if body (n + 1)]"

definition PropertyDeclStmt_print ::
  "rendering option \<Rightarrow> string \<Rightarrow> rendering option \<Rightarrow> rendering option \<Rightarrow> rendering" where
  "PropertyDeclStmt_print type name getter setter n =
     cat [Some (pad n @ ''Property declaration: '' @ name @ ''\<newline>''),
          print_if (shown type) (n + 1), print_if getter (n + 1), print_if setter (n + 1)]"

definition IndexerDeclStmt_print ::
  "rendering option \<Rightarrow> rendering list \<Rightarrow> rendering option \<Rightarrow> rendering option \<Rightarrow> rendering" where
  "IndexerDeclStmt_print type parameters getter setter n =
     cat [Some (pad n @ ''Indexer declaration\<newline>''), print_if (shown type) (n + 1),
          print_each (n + 1) (map ASTNode_print parameters),
          print_if getter (n + 1), print_if setter (n + 1)]"

definition NamespaceDeclStmt_print :: "string \<Rightarrow> rendering \<Rightarrow> rendering" where
  "NamespaceDeclStmt_print name body n =
     cat [Some (pad n @ ''Namespace: '' @ name @ ''\<newline>''), body (n + 1)]"

fun stmt_print :: "stmt_info \<Rightarrow> rendering \<Rightarrow> (rendering, rendering) stmt_kind \<Rightarrow> rendering" where
  "stmt_print i self (CompoundStmt a) = CompoundStmt_print a"
| "stmt_print i self (VarDeclStmt a) = VarDeclStmt_print i a"
| "stmt_print i self (FunctionDeclStmt f a b c) = FunctionDeclStmt_print i f a b c"
| "stmt_print i self (ReturnStmt a) = ReturnStmt_print a"
| "stmt_print i self (IfStmt a b) = IfStmt_print a b"
| "stmt_print i self (SwitchStmt a b c ex) = SwitchStmt_print a b c ex"
| "stmt_print i self (ThrowStmt a) = ThrowStmt_print a"
| "stmt_print i self (TryStmt a b c) = TryStmt_print a b c"
| "stmt_print i self (DeferStmt a) = DeferStmt_print a"
| "stmt_print i self (ForStmt a b c d) = ForStmt_print a b c d"
| "stmt_print i self (WhileStmt a b) = WhileStmt_print a b"
| "stmt_print i self (DoWhileStmt a b) = DoWhileStmt_print a b"
| "stmt_print i self (ForEachStmt a b c) = ForEachStmt_print a b c"
| "stmt_print i self ContinueStmt = ContinueStmt_print"
| "stmt_print i self BreakStmt = BreakStmt_print"
| "stmt_print i self (ClassDeclStmt name parents ts cs body) = ClassDeclStmt_print i name parents ts body"
| "stmt_print i self (EnumDeclStmt name ms) = EnumDeclStmt_print name ms"
| "stmt_print i self (GroupDeclStmt name a b) = GroupDeclStmt_print name a b"
| "stmt_print i self (ConstructorDeclStmt name a b h c) = ConstructorDeclStmt_print i name a b h c"
| "stmt_print i self (PropertyDeclStmt a name b c) = PropertyDeclStmt_print a name b c"
| "stmt_print i self (IndexerDeclStmt a b c d) = IndexerDeclStmt_print a b c d"
| "stmt_print i self (NamespaceDeclStmt name a) = NamespaceDeclStmt_print name a"
| "stmt_print i self k = ASTNode_print self"

primrec Print_expr :: "expr \<Rightarrow> rendering" and Print :: "stmt \<Rightarrow> rendering" where
  "Print_expr (Expr i k) = ASTNode_print (ToString (Expr i k))"
| "Print (Stmt i k) = stmt_print i (ToString_stmt (Stmt i k)) (map_stmt_kind ToString Print k)"

text \<open>\<open>Program::print\<close>.\<close>

definition Program_print :: "stmt list \<Rightarrow> string option" where
  "Program_print statements = print_each 0 (map Print statements)"

section \<open>When a tree is printed\<close>

text \<open>
  The children that \<open>ToString\<close> dereferences without a test, over the answers for the children:
  \<open>must\<close> for a pointer that has to be set, \<open>may\<close> for one that is tested first.
\<close>

definition must :: "bool option \<Rightarrow> bool" where
  "must p \<longleftrightarrow> p = Some True"

definition may :: "bool option \<Rightarrow> bool" where
  "may p \<longleftrightarrow> p \<noteq> Some False"

fun expr_complete :: "(bool, bool) expr_kind \<Rightarrow> bool" where
  "expr_complete (ArrayExpr a b) = (list_all must a \<and> list_all must b)"
| "expr_complete (ArrayAccessExpr a b) = (must a \<and> list_all may b)"
| "expr_complete (SliceExpr a b) = (may a \<and> list_all (\<lambda>(x, y, _). may x \<and> may y) b)"
| "expr_complete (BinaryExpr op a b) = (may a \<and> may b)"
| "expr_complete (AssignmentExpr a op b) = (must a \<and> must b)"
| "expr_complete (UserTypeExpr a) = must a"
| "expr_complete (PointerTypeExpr a k q) = may a"
| "expr_complete (ArrayTypeExpr a) = may a"
| "expr_complete (VarDeclExpr a b c flags) = (must a \<and> must b \<and> may c)"
| "expr_complete (FunctionCallExpr a b) = (must a \<and> list_all must b)"
| "expr_complete (LambdaExpr a b c d) = (list_all (\<lambda>x. x) a \<and> may b \<and> may c \<and> may d)"
| "expr_complete (CastExpr op a b) = (must a \<and> must b)"
| "expr_complete (ConstructorCallExpr a b raw) = (must a \<and> list_all may b)"
| "expr_complete (DestructorCallExpr a) = may a"
| "expr_complete (InstanceDeclExpr a b c isConst isStatic) = (a \<and> must b \<and> may c)"
| "expr_complete (MemberAccessExpr a m) = must a"
| "expr_complete (TemplateExpr a b) = (must a \<and> list_all must b)"
| "expr_complete (TernaryExpr a b c) = (a = None \<or> must a \<and> must b \<and> must c)"
| "expr_complete (PrefixUnaryExpr op a) = must a"
| "expr_complete (PostfixUnaryExpr op a) = may a"
| "expr_complete k = True"

fun stmt_complete :: "(bool, bool) stmt_kind \<Rightarrow> bool" where
  "stmt_complete (SingleStatement a) = may a"
| "stmt_complete (TypeAliasStmt name a) = may a"
| "stmt_complete (NamespaceDeclStmt name a) = a"
| "stmt_complete k = True"

primrec complete :: "expr \<Rightarrow> bool" and complete_stmt :: "stmt \<Rightarrow> bool" where
  "complete (Expr i k) = expr_complete (map_expr_kind complete complete_stmt k)"
| "complete_stmt (Stmt i k) = stmt_complete (map_stmt_kind complete complete_stmt k)"

named_theorems text_defs \<open>the definitions of the renderings\<close>

lemmas [text_defs] = NullExpr_ToString_def BooleanLiteralExpr_ToString_def
  NumberLiteralExpr_ToString_def StringLiteralExpr_ToString_def CharLiteralExpr_ToString_def
  IdentifierExpr_ToString_def ArrayExpr_ToString_def ArrayAccessExpr_ToString_def
  SliceExpr_ToString_def BinaryExpr_ToString_def AssignmentExpr_ToString_def
  PrimitiveTypeExpr_ToString_def UserTypeExpr_ToString_def PointerTypeExpr_ToString_def
  ArrayTypeExpr_ToString_def VarDeclExpr_ToString_def FunctionCallExpr_ToString_def
  LambdaExpr_ToString_def CastExpr_ToString_def ConstructorCallExpr_ToString_def
  DestructorCallExpr_ToString_def InstanceDeclExpr_ToString_def MemberAccessExpr_ToString_def
  TemplateExpr_ToString_def TernaryExpr_ToString_def PrefixUnaryExpr_ToString_def
  PostfixUnaryExpr_ToString_def SingleStatement_ToString_def TypeAliasStmt_ToString_def
  ImportStmt_ToString_def NamespaceDeclStmt_ToString_def OpaquePluginStmt_ToString_def
  ASTNode_ToString_def

text \<open>\<open>f\<close> renders the nodes of \<open>A\<close> exactly when \<open>ok\<close> says so, at every indentation.\<close>

definition renders :: "('a \<Rightarrow> rendering) \<Rightarrow> ('a \<Rightarrow> bool) \<Rightarrow> 'a set \<Rightarrow> bool" where
  "renders f ok A \<longleftrightarrow> (\<forall>x \<in> A. \<forall>n. f x n = None \<longleftrightarrow> \<not> ok x)"

lemma rendersD: "renders f ok A \<Longrightarrow> x \<in> A \<Longrightarrow> f x n = None \<longleftrightarrow> \<not> ok x"
  by (simp add: renders_def)

lemma renders_subset: "renders f ok A \<Longrightarrow> B \<subseteq> A \<Longrightarrow> renders f ok B"
  by (auto simp: renders_def)

lemma deref_None: "renders f ok A \<Longrightarrow> set_option p \<subseteq> A \<Longrightarrow>
    deref (map_option f p) n = None \<longleftrightarrow> \<not> must (map_option ok p)"
  by (cases p) (auto simp: deref_def must_def renders_def)

lemma when_set_None: "renders f ok A \<Longrightarrow> set_option p \<subseteq> A \<Longrightarrow>
    (\<And>r. g r = None \<longleftrightarrow> r n = None) \<Longrightarrow>
    when_set (map_option f p) g = None \<longleftrightarrow> \<not> may (map_option ok p)"
  by (cases p) (auto simp: when_set_def may_def renders_def)

lemma below_None: "renders f ok A \<Longrightarrow> (\<Union>p \<in> set ps. set_option p) \<subseteq> A \<Longrightarrow>
    below n (map (map_option f) ps) = None \<longleftrightarrow> \<not> list_all must (map (map_option ok) ps)"
  by (induction ps) (simp_all add: below_def cat_None deref_None del: cat.simps)

lemma below_set_None: "renders f ok A \<Longrightarrow> (\<Union>p \<in> set ps. set_option p) \<subseteq> A \<Longrightarrow>
    below_set n (map (map_option f) ps) = None \<longleftrightarrow> \<not> list_all may (map (map_option ok) ps)"
proof (induction ps)
  case (Cons p ps)
  have "when_set (map_option f p) (\<lambda>r. cat [Some ''\<newline>'', r n]) = None \<longleftrightarrow> \<not> may (map_option ok p)"
    using Cons.prems by (intro when_set_None [of f ok A]) (auto simp: cat_None simp del: cat.simps)
  with Cons show ?case by (simp add: below_set_def cat_None del: cat.simps)
qed (simp add: below_set_def)

lemma index_texts_None: "renders f ok A \<Longrightarrow> (\<Union>p \<in> set ps. set_option p) \<subseteq> A \<Longrightarrow>
    index_texts i (map (map_option f) ps) = None \<longleftrightarrow> \<not> list_all may (map (map_option ok) ps)"
proof (induction ps arbitrary: i)
  case (Cons p ps)
  have "(case map_option f p of None \<Rightarrow> Some ''*'' | Some r \<Rightarrow> r 0) = None \<longleftrightarrow> \<not> may (map_option ok p)"
    using Cons.prems by (cases p) (auto simp: may_def renders_def)
  with Cons show ?case by (simp add: cat_None del: cat.simps)
qed simp

lemma range_texts_None: "renders f ok A \<Longrightarrow> (\<Union>(a, b, c) \<in> set ps. set_option a \<union> set_option b) \<subseteq> A \<Longrightarrow>
    range_texts i (map (map_prod (map_option f) (map_prod (map_option f) (\<lambda>x. x))) ps) = None \<longleftrightarrow>
    \<not> list_all (\<lambda>(x, y, _). may x \<and> may y)
        (map (map_prod (map_option ok) (map_prod (map_option ok) (\<lambda>x. x))) ps)"
proof (induction ps arbitrary: i)
  case (Cons q ps)
  obtain a b c where q: "q = (a, b, c)" by (cases q) auto
  have "when_set (map_option f a) (\<lambda>r. r 0) = None \<longleftrightarrow> \<not> may (map_option ok a)"
    "when_set (map_option f b) (\<lambda>r. r 0) = None \<longleftrightarrow> \<not> may (map_option ok b)"
    using Cons.prems q by (intro when_set_None [of f ok A]; auto)+
  with Cons show ?case by (simp add: q cat_None del: cat.simps)
qed simp

lemma ternary_None:
  assumes "renders f ok A" and "set_option a \<union> set_option b \<union> set_option c \<subseteq> A"
  shows "TernaryExpr_ToString (map_option f a) (map_option f b) (map_option f c) n = None \<longleftrightarrow>
    \<not> expr_complete (TernaryExpr (map_option ok a) (map_option ok b) (map_option ok c))"
proof (cases a)
  case None
  then show ?thesis by (simp add: TernaryExpr_ToString_def when_set_def)
next
  case (Some x)
  have "deref (map_option f b) (n + 2) = None \<longleftrightarrow> \<not> must (map_option ok b)"
    "deref (map_option f c) (n + 2) = None \<longleftrightarrow> \<not> must (map_option ok c)"
    "f x (n + 2) = None \<longleftrightarrow> \<not> ok x"
    using assms Some by (auto intro!: deref_None [of f ok A] rendersD [of f ok A])
  then show ?thesis
    using Some by (simp add: TernaryExpr_ToString_def when_set_def cat_None must_def del: cat.simps)
qed

lemma expr_text_None:
  assumes f: "renders f ok (set1_expr_kind k)" and g: "renders g okg (set2_expr_kind k)"
  shows "expr_text (map_expr_kind f g k) n = None \<longleftrightarrow> \<not> expr_complete (map_expr_kind ok okg k)"
proof -
  note [simp del] = cat.simps
  note [simp] = cat_None
  note rules = deref_None [OF f] when_set_None [OF f] below_None [OF f] below_set_None [OF f]
    index_texts_None [OF f] range_texts_None [OF f]
  note g_rule = below_set_None [OF g]
  show ?thesis
  proof (cases k)
    case (TernaryExpr a b c)
    have "set_option a \<union> set_option b \<union> set_option c \<subseteq> set1_expr_kind k"
      by (auto simp: TernaryExpr)
    from ternary_None [OF f this] show ?thesis by (simp add: TernaryExpr)
  next
    case (LambdaExpr ps rt e st)
    have "below_set (n + 1) (map (map_option f) (map Some ps)) = None \<longleftrightarrow>
        \<not> list_all may (map (map_option ok) (map Some ps))"
      by (rule rules) (auto simp: LambdaExpr)
    moreover have "below_set (n + 1) (map (map_option f) [rt]) = None \<longleftrightarrow>
        \<not> list_all may (map (map_option ok) [rt])"
      by (rule rules) (auto simp: LambdaExpr)
    moreover have "below_set (n + 1) (map (map_option f) [e]) = None \<longleftrightarrow>
        \<not> list_all may (map (map_option ok) [e])"
      by (rule rules) (auto simp: LambdaExpr)
    moreover have "below_set (n + 1) (map (map_option g) [st]) = None \<longleftrightarrow>
        \<not> list_all may (map (map_option okg) [st])"
      by (rule g_rule) (auto simp: LambdaExpr)
    ultimately show ?thesis
      by (simp add: LambdaExpr text_defs comp_def list.pred_map may_def)
  next
    case (PointerTypeExpr a kd q)
    have "set_option a \<subseteq> set1_expr_kind k" by (auto simp: PointerTypeExpr)
    with f show ?thesis
      by (cases a) (auto simp: PointerTypeExpr text_defs may_def renders_def Let_def
        simp del: not_None_eq split: OwnershipKind.split)
  next
    case (ArrayTypeExpr a)
    then show ?thesis using f by (cases a) (auto simp: text_defs may_def renders_def)
  next
    case (SliceExpr a rs)
    have "range_texts 0 (map (map_prod (map_option f) (map_prod (map_option f) (\<lambda>x. x))) rs) = None \<longleftrightarrow>
       \<not> list_all (\<lambda>(x, y, _). may x \<and> may y)
        (map (map_prod (map_option ok) (map_prod (map_option ok) (\<lambda>x. x))) rs)"
      by (rule rules) (force simp: SliceExpr)
    moreover have "(case map_option f a of None \<Rightarrow> Some (pad (n + 1) @ ''<missing>'') | Some r \<Rightarrow> r (n + 1))
        = None \<longleftrightarrow> \<not> may (map_option ok a)"
      using f by (cases a) (auto simp: SliceExpr may_def renders_def)
    ultimately show ?thesis by (auto simp: SliceExpr text_defs id_def)
  next
    case (InstanceDeclExpr a b c x y)
    have "f a (n + 2) = None \<longleftrightarrow> \<not> ok a" using f by (auto simp: InstanceDeclExpr renders_def)
    moreover have "set_option b \<subseteq> set1_expr_kind k" "set_option c \<subseteq> set1_expr_kind k"
      by (auto simp: InstanceDeclExpr)
    ultimately show ?thesis
      by (simp add: InstanceDeclExpr text_defs rules [unfolded InstanceDeclExpr])
  next
    case (VarDeclExpr a b c flags)
    then have "set_option a \<subseteq> set1_expr_kind k" "set_option b \<subseteq> set1_expr_kind k"
      "set_option c \<subseteq> set1_expr_kind k" by auto
    then show ?thesis by (simp add: VarDeclExpr text_defs rules [unfolded VarDeclExpr])
  qed (auto simp: text_defs rules)
qed

lemma stmt_text_None:
  assumes f: "renders f ok (set1_stmt_kind k)" and g: "renders g okg (set2_stmt_kind k)"
  shows "stmt_text i (map_stmt_kind f g k) n = None \<longleftrightarrow> \<not> stmt_complete (map_stmt_kind ok okg k)"
proof -
  note [simp del] = cat.simps not_None_eq
  note [simp] = cat_None
  show ?thesis
  proof (cases k)
    case (TypeAliasStmt name a)
    then show ?thesis using f by (cases a) (auto simp: text_defs may_def renders_def)
  next
    case (NamespaceDeclStmt name a)
    then show ?thesis using g by (auto simp: text_defs renders_def)
  qed (auto simp: text_defs when_set_None [OF f] Let_def)
qed

lemma ToString_None:
  "ToString e n = None \<longleftrightarrow> \<not> complete e"
  "ToString_stmt st n = None \<longleftrightarrow> \<not> complete_stmt st"
proof (induction e and st arbitrary: n and n rule: expr.induct stmt.induct)
  case (Expr i k)
  then show ?case
    by (simp add: expr_text_None [of ToString complete k ToString_stmt complete_stmt] renders_def)
next
  case (Stmt i k)
  then show ?case
    by (simp add: stmt_text_None [of ToString complete k ToString_stmt complete_stmt] renders_def)
qed

text \<open>
  Printing dereferences no null child, at whatever indentation, if and only if every child that its
  node class does not test is set, and so for the children that are set.
\<close>

lemma ToString_safe_iff_complete:
  "(\<exists>text. ToString e indent = Some text) \<longleftrightarrow> complete e"
  using ToString_None(1) [of e indent] by auto

text \<open>
  The text of a ternary expression tests its condition in the place of its branches: without a
  condition the branches are not printed, and with one a branch that is not set is dereferenced.
\<close>

lemma ternary_tests_condition_for_branches:
  "TernaryExpr_ToString (Some c) None f n = None"
  "TernaryExpr_ToString None t f n = TernaryExpr_ToString None None None n"
  unfolding TernaryExpr_ToString_def by (simp_all add: cat_None when_set_def deref_def del: cat.simps)

end
