(* ===== verification/Managed_Pointers.thy ===== *)
theory Managed_Pointers
  imports Prelude "HOL-Library.Multiset"
begin

text \<open>
  The managed-pointer table of the runtime (\<open>Absolute-Runtime/src/pointers.cpp\<close>): slots in
  chunks, handles made of a slot number and a generation, the free list, creation, adoption,
  lookup, typing, transfer and destruction, and the leak check run at exit.

  A pointer is a \<open>u64\<close> address, 0 being \<open>nullptr\<close>; a deleter is a value of \<open>deleter\<close>, \<open>None\<close> being
  the null function pointer.  What \<open>calloc\<close> and \<open>new (std::nothrow)\<close> return is an argument of the
  operations that call them.  \<open>std::abort\<close> after a message is \<open>Inl\<close> of the message.  A deleter
  runs after the mutex is released: the call is recorded in \<open>released\<close>, and what the deleter does
  to the table is the operations that follow it.

  The locale \<open>handle_table\<close> states what the rest of the runtime relies on; its clients are the
  transfer capsules and the pending error of \<open>Managed_Clients\<close>.
\<close>

section \<open>State\<close>

datatype deleter = DefaultDeleter | UserDeleter u64

record slot =
  s_pointer :: u64
  s_generation :: u32
  s_type :: u64
  s_deleter :: "deleter option"

definition fresh_slot :: slot where
  "fresh_slot = \<lparr>s_pointer = 0, s_generation = 1, s_type = 0, s_deleter = None\<rparr>"

definition SlotsPerChunk :: nat where "SlotsPerChunk = 4096"
definition MaxChunks :: nat where "MaxChunks = 65536"

record table =
  slotChunks :: "nat \<Rightarrow> (nat \<Rightarrow> slot) option"
  slotCount :: u32
  freeSlots :: "u32 list"
  released :: "(deleter \<times> u64) list"

definition empty_table :: table where
  "empty_table = \<lparr>slotChunks = (\<lambda>_. None), slotCount = 0, freeSlots = [], released = []\<rparr>"

section \<open>Handles\<close>

definition MakeHandle :: "u32 \<Rightarrow> u32 \<Rightarrow> u64" where
  "MakeHandle sid generation = or (push_bit 32 (ucast generation)) (ucast sid)"

definition HandleId :: "u64 \<Rightarrow> u32" where
  "HandleId handle = ucast handle"

definition HandleGeneration :: "u64 \<Rightarrow> u32" where
  "HandleGeneration handle = ucast (drop_bit 32 handle)"

text \<open>The successor of a generation skips 0, so that no handle is ever the null handle.\<close>

definition next_generation :: "u32 \<Rightarrow> u32" where
  "next_generation g = (let next = g + 1 in if next = 0 then 1 else next)"

section \<open>Operations\<close>

definition SlotAt :: "table \<Rightarrow> u32 \<Rightarrow> slot option" where
  "SlotAt t sid =
    (let chunk = unat sid div SlotsPerChunk in
     if chunk \<ge> MaxChunks then None
     else case slotChunks t chunk of
        None \<Rightarrow> None
      | Some base \<Rightarrow> Some (base (unat sid mod SlotsPerChunk)))"

text \<open>A store through the pointer that \<open>SlotAt\<close> returns.\<close>

definition set_slot :: "u32 \<Rightarrow> slot \<Rightarrow> table \<Rightarrow> table" where
  "set_slot sid s t =
    (let chunk = unat sid div SlotsPerChunk in
     case slotChunks t chunk of
       None \<Rightarrow> t
     | Some base \<Rightarrow>
         t\<lparr>slotChunks := (slotChunks t)(chunk := Some (base(unat sid mod SlotsPerChunk := s)))\<rparr>)"

definition Find :: "table \<Rightarrow> u64 \<Rightarrow> slot option" where
  "Find t handle =
    (if handle = 0 then None
     else let sid = HandleId handle in
       if sid \<ge> slotCount t then None
       else case SlotAt t sid of
          None \<Rightarrow> None
        | Some s \<Rightarrow> if s_generation s = HandleGeneration handle then Some s else None)"

text \<open>\<open>deleter ? deleter : DefaultDeleter\<close>\<close>

definition or_default :: "deleter option \<Rightarrow> deleter" where
  "or_default d = (case d of Some d \<Rightarrow> d | None \<Rightarrow> DefaultDeleter)"

definition RegisterAllocation ::
  "bool \<Rightarrow> u64 \<Rightarrow> deleter option \<Rightarrow> table \<Rightarrow> string + u64 \<times> table" where
  "RegisterAllocation chunk_ok allocation deleter t =
    (let claim =
       (if freeSlots t \<noteq> [] then
          Inr (last (freeSlots t), t\<lparr>freeSlots := butlast (freeSlots t)\<rparr>)
        else
          let sid = slotCount t; chunk = unat sid div SlotsPerChunk in
          if chunk \<ge> MaxChunks then Inl ''managed pointer slot table is full''
          else case slotChunks t chunk of
             Some base \<Rightarrow> Inr (sid, t\<lparr>slotCount := sid + 1\<rparr>)
           | None \<Rightarrow>
               if \<not> chunk_ok then Inl ''managed pointer slot table allocation failed''
               else Inr (sid, t\<lparr>slotChunks := (slotChunks t)(chunk := Some (\<lambda>_. fresh_slot)),
                               slotCount := sid + 1\<rparr>))
     in case claim of
          Inl e \<Rightarrow> Inl e
        | Inr (sid, t1) \<Rightarrow>
           (case SlotAt t1 sid of
              None \<Rightarrow> Inl ''null slot''
            | Some s \<Rightarrow>
                Inr (MakeHandle sid (s_generation s),
                     set_slot sid (s\<lparr>s_type := 0,
                                    s_deleter := Some (or_default deleter),
                                    s_pointer := allocation\<rparr>) t1)))"

definition absolute_managed_create ::
  "bool \<Rightarrow> (u64 \<Rightarrow> u64) \<Rightarrow> u64 \<Rightarrow> table \<Rightarrow> string + u64 \<times> table" where
  "absolute_managed_create chunk_ok calloc bytes t =
    (let allocation = calloc (if bytes = 0 then 1 else bytes) in
     if allocation = 0 then Inl ''managed allocation failed''
     else RegisterAllocation chunk_ok allocation (Some DefaultDeleter) t)"

definition absolute_managed_adopt_raw ::
  "bool \<Rightarrow> u64 \<Rightarrow> deleter option \<Rightarrow> table \<Rightarrow> string + u64 \<times> table" where
  "absolute_managed_adopt_raw chunk_ok ptr deleter t =
    (if ptr = 0 then Inr (0, t)
     else RegisterAllocation chunk_ok ptr
            (Some (or_default deleter)) t)"

text \<open>The lock-free readers, with the loads in the order of the code.  Without interleaving both
  loads of the generation see the same value; \<open>Managed_Readers\<close> interleaves them with writers.\<close>

definition absolute_managed_get :: "table \<Rightarrow> u64 \<Rightarrow> u64" where
  "absolute_managed_get t handle =
    (if handle = 0 then 0
     else let sid = HandleId handle in
       if sid \<ge> slotCount t then 0
       else case SlotAt t sid of
          None \<Rightarrow> 0
        | Some s \<Rightarrow>
            let expected = HandleGeneration handle in
            if s_generation s \<noteq> expected then 0
            else let pointer = s_pointer s in
              if s_generation s \<noteq> expected then 0 else pointer)"

definition absolute_managed_valid :: "table \<Rightarrow> u64 \<Rightarrow> bool" where
  "absolute_managed_valid t handle \<longleftrightarrow> absolute_managed_get t handle \<noteq> 0"

definition absolute_managed_set_type :: "u64 \<Rightarrow> u64 \<Rightarrow> table \<Rightarrow> table" where
  "absolute_managed_set_type handle type t =
    (case Find t handle of
       Some s \<Rightarrow> set_slot (HandleId handle) (s\<lparr>s_type := type\<rparr>) t
     | None \<Rightarrow> t)"

definition absolute_managed_type :: "table \<Rightarrow> u64 \<Rightarrow> u64" where
  "absolute_managed_type t handle =
    (if handle = 0 then 0
     else let sid = HandleId handle in
       if sid \<ge> slotCount t then 0
       else case SlotAt t sid of
          None \<Rightarrow> 0
        | Some s \<Rightarrow>
            let expected = HandleGeneration handle in
            if s_generation s \<noteq> expected then 0
            else let type = s_type s in
              if s_generation s \<noteq> expected then 0 else type)"

definition absolute_managed_require :: "table \<Rightarrow> u64 \<Rightarrow> string + u64" where
  "absolute_managed_require t handle =
    (let pointer = absolute_managed_get t handle in
     if pointer \<noteq> 0 then Inr pointer else Inl ''null or expired managed pointer'')"

definition absolute_managed_destroy :: "u64 \<Rightarrow> table \<Rightarrow> table" where
  "absolute_managed_destroy handle t =
    (case Find t handle of
       None \<Rightarrow> t
     | Some s \<Rightarrow>
         let pointer = s_pointer s in
         if pointer = 0 then t
         else
           let sid = HandleId handle;
               deleter = or_default (s_deleter s);
               s' = s\<lparr>s_pointer := 0, s_type := 0, s_deleter := None,
                      s_generation := next_generation (s_generation s)\<rparr>;
               t' = set_slot sid s' t
           in t'\<lparr>freeSlots := freeSlots t' @ [sid], released := released t' @ [(deleter, pointer)]\<rparr>)"

definition absolute_managed_transfer :: "u64 \<Rightarrow> table \<Rightarrow> string + u64 \<times> table" where
  "absolute_managed_transfer handle t =
    (case Find t handle of
       None \<Rightarrow> Inl ''cannot transfer a null or expired managed owner''
     | Some s \<Rightarrow>
         if s_pointer s = 0 then Inl ''cannot transfer a null or expired managed owner''
         else
           let sid = HandleId handle; next = next_generation (s_generation s) in
           Inr (MakeHandle sid next, set_slot sid (s\<lparr>s_generation := next\<rparr>) t))"

text \<open>The handles the leak check reports, in the order of the slots; it aborts when there is one.\<close>

definition leaked_handles :: "table \<Rightarrow> u64 list" where
  "leaked_handles t =
    concat (map (\<lambda>i. case SlotAt t (of_nat i) of
                       Some s \<Rightarrow> if s_pointer s \<noteq> 0 then [MakeHandle (of_nat i) (s_generation s)] else []
                     | None \<Rightarrow> []) [0..<unat (slotCount t)])"

definition absolute_managed_check_leaks :: "table \<Rightarrow> u64 list + unit" where
  "absolute_managed_check_leaks t =
    (let leaks = leaked_handles t in if leaks = [] then Inr () else Inl leaks)"


section \<open>Handles and generations\<close>

named_theorems handle_simps \<open>reading back the parts of a handle\<close>

lemma HandleId_MakeHandle [handle_simps]: "HandleId (MakeHandle i g) = i"
  by (rule bit_word_eqI) (simp add: HandleId_def MakeHandle_def bit_simps)

lemma HandleGeneration_MakeHandle [handle_simps]: "HandleGeneration (MakeHandle i g) = g"
  by (rule bit_word_eqI)
    (auto simp: HandleGeneration_def MakeHandle_def bit_simps dest: bit_imp_le_length)

lemma MakeHandle_parts [handle_simps]: "MakeHandle (HandleId h) (HandleGeneration h) = h"
  by (rule bit_word_eqI)
    (auto simp: HandleId_def HandleGeneration_def MakeHandle_def bit_simps)

lemma MakeHandle_inject [handle_simps]: "MakeHandle i g = MakeHandle j k \<longleftrightarrow> i = j \<and> g = k"
  by (metis HandleId_MakeHandle HandleGeneration_MakeHandle)

lemma handle_eqI: "HandleId h = HandleId k \<Longrightarrow> HandleGeneration h = HandleGeneration k \<Longrightarrow> h = k"
  by (metis MakeHandle_parts)

lemma HandleGeneration_0 [handle_simps]: "HandleGeneration 0 = 0"
  by (simp add: HandleGeneration_def)

lemma MakeHandle_not_null: "g \<noteq> 0 \<Longrightarrow> MakeHandle i g \<noteq> 0"
  by (metis HandleGeneration_MakeHandle HandleGeneration_0)

lemma next_generation_not_0 [simp]: "next_generation g \<noteq> 0"
  by (simp add: next_generation_def Let_def)

lemma next_generation_neq [simp]: "g \<noteq> 0 \<Longrightarrow> next_generation g \<noteq> g"
proof
  assume g: "g \<noteq> 0" and e: "next_generation g = g"
  show False
  proof (cases "g + 1 = 0")
    case True
    then have "g = 1" using e by (simp add: next_generation_def)
    then show False using True by simp
  qed (use e in \<open>simp add: next_generation_def Let_def\<close>)
qed

section \<open>The slot view\<close>

lemma set_slot_fields [simp]:
  "slotCount (set_slot i s t) = slotCount t"
  "freeSlots (set_slot i s t) = freeSlots t"
  "released (set_slot i s t) = released t"
  by (simp_all add: set_slot_def Let_def split: option.splits)

lemma SlotAt_set_slot:
  "SlotAt t i \<noteq> None \<Longrightarrow> SlotAt (set_slot i s t) j = (if j = i then Some s else SlotAt t j)"
proof -
  assume d: "SlotAt t i \<noteq> None"
  have inj: "unat j div SlotsPerChunk = unat i div SlotsPerChunk \<Longrightarrow>
      unat j mod SlotsPerChunk = unat i mod SlotsPerChunk \<Longrightarrow> j = i"
    by (metis div_mult_mod_eq word_unat_eq_iff)
  show ?thesis
    using d by (auto simp: SlotAt_def set_slot_def Let_def dest: inj split: option.splits if_splits)
qed

lemma SlotAt_released [simp]: "SlotAt (t\<lparr>released := r\<rparr>) i = SlotAt t i"
  by (simp add: SlotAt_def cong: if_cong)

lemma SlotAt_freeSlots [simp]: "SlotAt (t\<lparr>freeSlots := r\<rparr>) i = SlotAt t i"
  by (simp add: SlotAt_def cong: if_cong)

lemma SlotAt_slotCount [simp]: "SlotAt (t\<lparr>slotCount := r\<rparr>) i = SlotAt t i"
  by (simp add: SlotAt_def cong: if_cong)

definition wf_table :: "table \<Rightarrow> bool" where
  "wf_table t \<longleftrightarrow>
    unat (slotCount t) \<le> SlotsPerChunk * MaxChunks
    \<and> (\<forall>i < slotCount t. SlotAt t i \<noteq> None)
    \<and> (\<forall>i s. SlotAt t i = Some s \<longrightarrow> s_generation s \<noteq> 0)
    \<and> distinct (freeSlots t)
    \<and> (\<forall>i\<in>set (freeSlots t). i < slotCount t)
    \<and> (\<forall>i s. i < slotCount t \<longrightarrow> SlotAt t i = Some s \<longrightarrow>
         (s_pointer s = 0 \<longleftrightarrow> i \<in> set (freeSlots t)) \<and>
         (s_pointer s \<noteq> 0 \<longrightarrow> s_deleter s \<noteq> None))"

lemma wf_tableD:
  assumes "wf_table t"
  shows "unat (slotCount t) \<le> SlotsPerChunk * MaxChunks"
    and "i < slotCount t \<Longrightarrow> SlotAt t i \<noteq> None"
    and "SlotAt t i = Some s \<Longrightarrow> s_generation s \<noteq> 0"
    and "distinct (freeSlots t)"
    and "i \<in> set (freeSlots t) \<Longrightarrow> i < slotCount t"
    and "i < slotCount t \<Longrightarrow> SlotAt t i = Some s \<Longrightarrow> (s_pointer s = 0 \<longleftrightarrow> i \<in> set (freeSlots t))"
    and "i < slotCount t \<Longrightarrow> SlotAt t i = Some s \<Longrightarrow> s_pointer s \<noteq> 0 \<Longrightarrow> s_deleter s \<noteq> None"
  using assms by (auto simp: wf_table_def)

lemma wf_empty_table: "wf_table empty_table"
  by (simp add: wf_table_def empty_table_def SlotAt_def Let_def)

text \<open>What a handle reads: the slot it names, when the generations agree.\<close>

lemma get_Find: "absolute_managed_get t h = (case Find t h of Some s \<Rightarrow> s_pointer s | None \<Rightarrow> 0)"
  by (simp add: absolute_managed_get_def Find_def Let_def split: option.splits)

lemma type_Find: "absolute_managed_type t h = (case Find t h of Some s \<Rightarrow> s_type s | None \<Rightarrow> 0)"
  by (simp add: absolute_managed_type_def Find_def Let_def split: option.splits)

lemma Find_Some_iff:
  "Find t h = Some s \<longleftrightarrow> h \<noteq> 0 \<and> HandleId h < slotCount t \<and> SlotAt t (HandleId h) = Some s
     \<and> s_generation s = HandleGeneration h"
  by (auto simp: Find_def Let_def not_le split: option.splits if_splits)

lemma Find_NoneI:
  "SlotAt t (HandleId k) = Some s \<Longrightarrow> s_generation s \<noteq> HandleGeneration k \<Longrightarrow> Find t k = None"
  by (cases "Find t k") (auto simp: Find_Some_iff)

lemma Find_set_slot:
  assumes "SlotAt t i \<noteq> None"
  shows "Find (set_slot i s t) h =
    (if HandleId h = i then
       (if h \<noteq> 0 \<and> i < slotCount t \<and> s_generation s = HandleGeneration h then Some s else None)
     else Find t h)"
  using assms by (auto simp: Find_def Let_def not_le SlotAt_set_slot split: option.splits)

text \<open>A store to the slot of a live handle, keeping or changing its generation.\<close>

lemma Find_update_same:
  assumes h: "Find t h = Some s" and g: "s_generation s' = s_generation s"
  shows "Find (set_slot (HandleId h) s' t) k = (if k = h then Some s' else Find t k)"
proof (cases "HandleId k = HandleId h")
  case True
  have "k = h \<longleftrightarrow> HandleGeneration k = s_generation s"
    using True h handle_eqI [of k h] by (auto simp: Find_Some_iff)
  moreover have "Find t k = None" if "k \<noteq> h"
    by (rule Find_NoneI [of t k s]) (use True h that handle_eqI [of k h] in \<open>auto simp: Find_Some_iff\<close>)
  ultimately show ?thesis
    using True h g by (auto simp: Find_set_slot Find_Some_iff)
next
  case False
  then show ?thesis using h by (auto simp: Find_set_slot Find_Some_iff)
qed

lemma Find_update_next:
  assumes h: "Find t h = Some s" and g: "s_generation s' \<noteq> s_generation s" "s_generation s' \<noteq> 0"
  shows "Find (set_slot (HandleId h) s' t) k =
    (if k = MakeHandle (HandleId h) (s_generation s') then Some s'
     else if k = h then None else Find t k)"
proof (cases "HandleId k = HandleId h")
  case True
  have "k = MakeHandle (HandleId h) (s_generation s') \<longleftrightarrow> HandleGeneration k = s_generation s'"
    using True by (metis HandleGeneration_MakeHandle MakeHandle_parts)
  moreover have "k \<noteq> 0" if "HandleGeneration k = s_generation s'"
    using that g(2) by (auto simp: handle_simps)
  moreover have "Find t k = None" if "k \<noteq> h"
    by (rule Find_NoneI [of t k s]) (use True h that handle_eqI [of k h] in \<open>auto simp: Find_Some_iff\<close>)
  ultimately show ?thesis
    using True h g by (auto simp: Find_set_slot Find_Some_iff)
next
  case False
  then show ?thesis
    using h MakeHandle_not_null [OF g(2)] by (auto simp: Find_set_slot Find_Some_iff handle_simps)
qed

lemma Find_cong_fields [simp]:
  "Find (t\<lparr>released := r\<rparr>) h = Find t h"
  "Find (t\<lparr>freeSlots := q\<rparr>) h = Find t h"
  by (simp_all add: Find_def Let_def)

lemma wf_set_slot:
  assumes "wf_table t" "i < slotCount t" "s_generation s \<noteq> 0"
    "s_pointer s = 0 \<longleftrightarrow> i \<in> set (freeSlots t)" "s_pointer s \<noteq> 0 \<Longrightarrow> s_deleter s \<noteq> None"
  shows "wf_table (set_slot i s t)"
  using assms wf_tableD(2) [OF assms(1,2)]
  by (auto simp: wf_table_def SlotAt_set_slot)


section \<open>The invariant and the functional behaviour of the operations\<close>

text \<open>Claiming a slot: the last freed one, else a new one.\<close>

lemma fresh_id_outside:
  assumes "unat c \<le> SlotsPerChunk * MaxChunks" "\<not> MaxChunks \<le> unat c div SlotsPerChunk"
  shows "unat (c + 1 :: u32) = Suc (unat c)" "Suc (unat c) \<le> SlotsPerChunk * MaxChunks"
proof -
  have lt: "unat c < SlotsPerChunk * MaxChunks"
    using assms(2) by (simp add: SlotsPerChunk_def MaxChunks_def not_le)
  then show "Suc (unat c) \<le> SlotsPerChunk * MaxChunks" by simp
  have "unat c + 1 < 2 ^ 32" using lt by (simp add: SlotsPerChunk_def MaxChunks_def)
  then show "unat (c + 1) = Suc (unat c)"
    by (simp add: unat_word_ariths)
qed

lemma RegisterAllocation_cases:
  assumes wf: "wf_table t" and r: "RegisterAllocation chunk_ok a d t = Inr (h, t')"
    and a: "a \<noteq> 0"
  obtains (reuse) i s where "freeSlots t \<noteq> []" "i = last (freeSlots t)" "i < slotCount t"
      "SlotAt t i = Some s" "h = MakeHandle i (s_generation s)"
      "t' = set_slot i (s\<lparr>s_type := 0, s_deleter := Some (or_default d),
                          s_pointer := a\<rparr>) (t\<lparr>freeSlots := butlast (freeSlots t)\<rparr>)"
  | (extend) s t1 where "freeSlots t = []" "h = MakeHandle (slotCount t) (s_generation s)"
      "unat (slotCount t + 1) = Suc (unat (slotCount t))"
      "Suc (unat (slotCount t)) \<le> SlotsPerChunk * MaxChunks"
      "slotCount t1 = slotCount t + 1" "freeSlots t1 = []" "released t1 = released t"
      "SlotAt t1 (slotCount t) = Some s" "s_generation s \<noteq> 0"
      "\<And>j. j < slotCount t \<Longrightarrow> SlotAt t1 j = SlotAt t j"
      "\<And>j s. SlotAt t1 j = Some s \<Longrightarrow> s_generation s \<noteq> 0"
      "t' = set_slot (slotCount t) (s\<lparr>s_type := 0,
              s_deleter := Some (or_default d),
              s_pointer := a\<rparr>) t1"
proof (cases "freeSlots t = []")
  case False
  let ?i = "last (freeSlots t)"
  have i: "?i < slotCount t" using wf_tableD(5) [OF wf] False by simp
  then obtain s where s: "SlotAt t ?i = Some s" using wf_tableD(2) [OF wf] by fastforce
  show thesis
    by (rule reuse [OF False refl i s]) (use r False s in \<open>simp_all add: RegisterAllocation_def\<close>)
next
  case True
  let ?c = "slotCount t" and ?k = "unat (slotCount t) div SlotsPerChunk"
  have k: "\<not> MaxChunks \<le> ?k"
    using r True by (auto simp: RegisterAllocation_def Let_def split: if_splits)
  note room = fresh_id_outside [OF wf_tableD(1) [OF wf] k]
  show thesis
  proof (cases "slotChunks t ?k")
    case (Some base)
    let ?t1 = "t\<lparr>slotCount := ?c + 1\<rparr>"
    have s: "SlotAt ?t1 ?c = Some (base (unat ?c mod SlotsPerChunk))"
      using k Some by (simp add: SlotAt_def)
    show thesis
      by (rule extend [OF True _ room _ _ _ s, rotated 3])
        (use r k Some True s wf_tableD(3) [OF wf] in \<open>auto simp: RegisterAllocation_def Let_def\<close>)
  next
    case None
    let ?t1 = "t\<lparr>slotChunks := (slotChunks t)(?k := Some (\<lambda>_. fresh_slot)), slotCount := ?c + 1\<rparr>"
    have s: "SlotAt ?t1 ?c = Some fresh_slot"
      using k by (simp add: SlotAt_def)
    have old: "SlotAt ?t1 j = SlotAt t j" if "j < ?c" for j
    proof -
      have "unat j div SlotsPerChunk \<noteq> ?k"
        using that wf_tableD(2) [OF wf that] None by (auto simp: SlotAt_def Let_def split: if_splits)
      then show ?thesis by (simp add: SlotAt_def Let_def)
    qed
    have gen: "s_generation s \<noteq> 0" if "SlotAt ?t1 j = Some s" for j s
    proof (cases "unat j div SlotsPerChunk = ?k")
      case True
      then show ?thesis using that k by (auto simp: SlotAt_def Let_def fresh_slot_def)
    next
      case False
      then have "SlotAt t j = Some s" using that by (auto simp: SlotAt_def Let_def split: if_splits)
      then show ?thesis by (rule wf_tableD(3) [OF wf])
    qed
    have ok: "chunk_ok" using r True k None by (auto simp: RegisterAllocation_def Let_def split: if_splits)
    show thesis
      by (rule extend [OF True _ room _ _ _ s _ old gen, rotated 3])
        (use r k None True s ok in \<open>auto simp: RegisterAllocation_def Let_def fresh_slot_def\<close>)
  qed
qed


lemma wf_claimed:
  assumes "wf_table t" "freeSlots t \<noteq> []"
  shows "distinct (butlast (freeSlots t))" "last (freeSlots t) \<notin> set (butlast (freeSlots t))"
    "set (freeSlots t) = insert (last (freeSlots t)) (set (butlast (freeSlots t)))"
proof -
  have e: "freeSlots t = butlast (freeSlots t) @ [last (freeSlots t)]" using assms(2) by simp
  then have "distinct (butlast (freeSlots t) @ [last (freeSlots t)])"
    using wf_tableD(4) [OF assms(1)] by simp
  then show "distinct (butlast (freeSlots t))" "last (freeSlots t) \<notin> set (butlast (freeSlots t))"
    by auto
  show "set (freeSlots t) = insert (last (freeSlots t)) (set (butlast (freeSlots t)))"
    by (subst e) simp
qed

lemma wf_RegisterAllocation:
  assumes wf: "wf_table t" and r: "RegisterAllocation chunk_ok a d t = Inr (h, t')" and a: "a \<noteq> 0"
  shows "wf_table t'"
  using wf r a
proof (cases rule: RegisterAllocation_cases)
  case (reuse i s)
  note w = wf_claimed [OF wf reuse(1)]
  note g = wf_tableD(3) [OF wf reuse(4)]
  show ?thesis
    using wf reuse w a g unfolding wf_table_def
    by (auto simp: SlotAt_set_slot)
next
  case (extend s t1)
  have lt: "i < slotCount t + 1 \<longleftrightarrow> i < slotCount t \<or> i = slotCount t" for i
    by (auto simp: word_less_nat_alt extend(3) less_Suc_eq word_unat_eq_iff)
  have free: "i \<notin> set (freeSlots t)" for i using extend(1) by simp
  show ?thesis
    using wf extend a lt free unfolding wf_table_def
    by (auto simp: SlotAt_set_slot)
qed

text \<open>A new handle is live at once, was not before, and no other live handle notices.\<close>

lemma RegisterAllocation_view:
  assumes wf: "wf_table t" and r: "RegisterAllocation chunk_ok a d t = Inr (h, t')" and a: "a \<noteq> 0"
  shows "\<exists>t1 s s'. t' = set_slot (HandleId h) s' t1 \<and> Find t1 h = Some s \<and> s_generation s' = s_generation s
    \<and> s_pointer s' = a \<and> s_type s' = 0 \<and> s_deleter s' = Some (or_default d) \<and> released t1 = released t
    \<and> (\<forall>k. k \<noteq> h \<longrightarrow> Find t1 k = Find t k) \<and> absolute_managed_get t h = 0"
  using wf r a
proof (cases rule: RegisterAllocation_cases)
    case (reuse i s)
    have g: "s_generation s \<noteq> 0" using wf_tableD(3) [OF wf reuse(4)] .
    have p: "s_pointer s = 0" using wf_tableD(6) [OF wf reuse(3,4)] reuse(1,2) by simp
    have f: "Find t h = Some s"
      using reuse g by (auto simp: Find_Some_iff handle_simps MakeHandle_not_null)
    show ?thesis
      by (rule exI [of _ "t\<lparr>freeSlots := butlast (freeSlots t)\<rparr>"], rule exI [of _ s], rule exI)
        (use reuse f p in \<open>auto simp: handle_simps get_Find\<close>)
next
    case (extend s t1)
    have lt: "i < slotCount t + 1 \<longleftrightarrow> i < slotCount t \<or> i = slotCount t" for i
      by (auto simp: word_less_nat_alt extend(3) less_Suc_eq word_unat_eq_iff)
    have f: "Find t1 h = Some s"
      using extend(2,5,8,9) lt by (auto simp: Find_Some_iff handle_simps MakeHandle_not_null)
    have n: "Find t k = None" if "HandleId k = slotCount t" for k
      using that by (simp add: Find_def)
    have others: "Find t1 k = Find t k" if k: "k \<noteq> h" for k
    proof (cases "HandleId k = slotCount t")
      case True
      then have "s_generation s \<noteq> HandleGeneration k" using k extend(2) by (metis MakeHandle_parts)
      then show ?thesis using True n extend(8) by (metis Find_NoneI)
    next
      case False
      then have "HandleId k < slotCount t1 \<longleftrightarrow> HandleId k < slotCount t" using extend(5) lt by simp
      then show ?thesis using extend(10) by (auto simp: Find_def Let_def not_less [symmetric])
    qed
    have dead: "absolute_managed_get t h = 0"
      using n [of h] extend(2) by (simp add: get_Find handle_simps)
    show ?thesis
      by (rule exI [of _ t1], rule exI [of _ s], rule exI) (use extend(2,7,12) f others dead in \<open>auto simp: handle_simps\<close>)
  qed

lemma get_RegisterAllocation:
  assumes wf: "wf_table t" and r: "RegisterAllocation chunk_ok a d t = Inr (h, t')" and a: "a \<noteq> 0"
  shows "absolute_managed_get t' h = a" "absolute_managed_type t' h = 0"
    "absolute_managed_get t h = 0"
    "k \<noteq> h \<Longrightarrow> absolute_managed_get t' k = absolute_managed_get t k"
    "released t' = released t"
proof -
  from RegisterAllocation_view [OF wf r a] obtain t1 s s' where e: "t' = set_slot (HandleId h) s' t1"
    "Find t1 h = Some s"
    "s_generation s' = s_generation s" "s_pointer s' = a" "s_type s' = 0" "released t1 = released t"
    "\<forall>k. k \<noteq> h \<longrightarrow> Find t1 k = Find t k" "absolute_managed_get t h = 0" by blast
  then show "absolute_managed_get t' h = a" "absolute_managed_type t' h = 0"
    "absolute_managed_get t h = 0" "released t' = released t"
    "k \<noteq> h \<Longrightarrow> absolute_managed_get t' k = absolute_managed_get t k"
    by (simp_all add: get_Find type_Find Find_update_same)
qed

text \<open>Destruction.\<close>

lemma destroy_dead: "absolute_managed_get t h = 0 \<Longrightarrow> absolute_managed_destroy h t = t"
  by (auto simp: get_Find absolute_managed_destroy_def Let_def split: option.splits)

lemma get_live:
  assumes "absolute_managed_get t h \<noteq> 0"
  obtains s where "Find t h = Some s" "s_pointer s = absolute_managed_get t h" "s_pointer s \<noteq> 0"
  using assms by (auto simp: get_Find split: option.splits)

lemma destroy_live:
  assumes "Find t h = Some s" "s_pointer s \<noteq> 0"
  shows "absolute_managed_destroy h t =
    (set_slot (HandleId h) (s\<lparr>s_pointer := 0, s_type := 0, s_deleter := None,
        s_generation := next_generation (s_generation s)\<rparr>) t)
    \<lparr>freeSlots := freeSlots t @ [HandleId h],
     released := released t @ [(or_default (s_deleter s), s_pointer s)]\<rparr>"
  using assms by (simp add: absolute_managed_destroy_def Let_def)

lemma wf_destroy:
  assumes wf: "wf_table t"
  shows "wf_table (absolute_managed_destroy h t)"
proof (cases "absolute_managed_get t h = 0")
  case True
  then show ?thesis using wf by (simp add: destroy_dead)
next
  case False
  then obtain s where s: "Find t h = Some s" "s_pointer s \<noteq> 0" by (rule get_live)
  then have i: "HandleId h < slotCount t" "SlotAt t (HandleId h) = Some s" by (auto simp: Find_Some_iff)
  have n: "HandleId h \<notin> set (freeSlots t)" using wf_tableD(6) [OF wf i] s by simp
  show ?thesis
    using wf i n unfolding destroy_live [OF s] wf_table_def
    by (auto simp: SlotAt_set_slot)
qed

lemma get_destroy_same: "wf_table t \<Longrightarrow> absolute_managed_get (absolute_managed_destroy h t) h = 0"
proof (cases "absolute_managed_get t h = 0")
  case True
  then show ?thesis by (simp add: destroy_dead)
next
  case False
  assume wf: "wf_table t"
  from False obtain s where s: "Find t h = Some s" "s_pointer s \<noteq> 0" by (rule get_live)
  then have g: "s_generation s \<noteq> 0" using wf_tableD(3) [OF wf] by (auto simp: Find_Some_iff)
  then show ?thesis
    using s by (auto simp: destroy_live [OF s] get_Find Find_set_slot Find_Some_iff)
qed

lemma get_destroy_other:
  assumes wf: "wf_table t" and k: "absolute_managed_get t k \<noteq> 0" "k \<noteq> h"
  shows "absolute_managed_get (absolute_managed_destroy h t) k = absolute_managed_get t k"
proof (cases "absolute_managed_get t h = 0")
  case True
  then show ?thesis by (simp add: destroy_dead)
next
  case False
  then obtain s where s: "Find t h = Some s" "s_pointer s \<noteq> 0" by (rule get_live)
  have "HandleId k \<noteq> HandleId h"
    using k s handle_eqI by (fastforce simp: get_Find Find_Some_iff split: option.splits)
  then show ?thesis
    using s by (auto simp: destroy_live [OF s] get_Find Find_set_slot Find_Some_iff)
qed

text \<open>Transfer.\<close>

lemma transfer_dead:
  "absolute_managed_get t h = 0 \<Longrightarrow>
   absolute_managed_transfer h t = Inl ''cannot transfer a null or expired managed owner''"
  by (auto simp: get_Find absolute_managed_transfer_def Let_def split: option.splits)

lemma transfer_live:
  assumes "Find t h = Some s" "s_pointer s \<noteq> 0"
  shows "absolute_managed_transfer h t =
    Inr (MakeHandle (HandleId h) (next_generation (s_generation s)),
         set_slot (HandleId h) (s\<lparr>s_generation := next_generation (s_generation s)\<rparr>) t)"
  using assms by (simp add: absolute_managed_transfer_def Let_def)

lemma transfer_Inr:
  assumes "absolute_managed_transfer h t = Inr (h', t')"
  obtains s where "Find t h = Some s" "s_pointer s \<noteq> 0"
    "h' = MakeHandle (HandleId h) (next_generation (s_generation s))"
    "t' = set_slot (HandleId h) (s\<lparr>s_generation := next_generation (s_generation s)\<rparr>) t"
  using assms by (auto simp: absolute_managed_transfer_def Let_def split: option.splits if_splits)

lemma wf_transfer:
  assumes wf: "wf_table t" and t: "absolute_managed_transfer h t = Inr (h', t')"
  shows "wf_table t'"
  using t
proof (rule transfer_Inr)
  fix s assume s: "Find t h = Some s" "s_pointer s \<noteq> 0"
    and t': "t' = set_slot (HandleId h) (s\<lparr>s_generation := next_generation (s_generation s)\<rparr>) t"
  have i: "HandleId h < slotCount t" "SlotAt t (HandleId h) = Some s" using s by (auto simp: Find_Some_iff)
  show ?thesis
    unfolding t' by (rule wf_set_slot [OF wf i(1)]) (use wf_tableD(6,7) [OF wf i] s in simp_all)
qed

lemma get_transfer:
  assumes wf: "wf_table t" and t: "absolute_managed_transfer h t = Inr (h', t')"
  shows "absolute_managed_get t' h' = absolute_managed_get t h" "absolute_managed_get t h \<noteq> 0"
    "absolute_managed_get t' h = 0" "absolute_managed_get t h' = 0"
    "k \<noteq> h \<Longrightarrow> k \<noteq> h' \<Longrightarrow> absolute_managed_get t' k = absolute_managed_get t k"
    "absolute_managed_type t' h' = absolute_managed_type t h"
    "released t' = released t"
proof -
  from t obtain s where s: "Find t h = Some s" "s_pointer s \<noteq> 0"
    and h': "h' = MakeHandle (HandleId h) (next_generation (s_generation s))"
    and t': "t' = set_slot (HandleId h) (s\<lparr>s_generation := next_generation (s_generation s)\<rparr>) t"
    by (rule transfer_Inr)
  have g: "s_generation s \<noteq> 0" "SlotAt t (HandleId h) = Some s" "HandleGeneration h = s_generation s"
    using s wf_tableD(3) [OF wf] by (auto simp: Find_Some_iff)
  have nn: "h \<noteq> h'"
    using g by (metis h' HandleGeneration_MakeHandle next_generation_neq)
  have old: "Find t h' = None"
    using g nn by (intro Find_NoneI [of t h' s]) (auto simp: h' handle_simps dest: sym)
  note f = Find_update_next [OF s(1), of "s\<lparr>s_generation := next_generation (s_generation s)\<rparr>",
      simplified, OF next_generation_neq [OF g(1)], folded t' h']
  show "absolute_managed_get t' h' = absolute_managed_get t h" "absolute_managed_get t h \<noteq> 0"
    "absolute_managed_get t' h = 0"  "absolute_managed_type t' h' = absolute_managed_type t h"
    "absolute_managed_get t h' = 0"
    using s nn old by (simp_all add: get_Find type_Find f)
  show "released t' = released t" by (simp add: t')
  show "k \<noteq> h \<Longrightarrow> k \<noteq> h' \<Longrightarrow> absolute_managed_get t' k = absolute_managed_get t k"
    by (simp add: get_Find f)
qed

text \<open>Typing.\<close>

lemma wf_set_type: "wf_table t \<Longrightarrow> wf_table (absolute_managed_set_type h ty t)"
proof (cases "Find t h")
  case (Some s)
  assume wf: "wf_table t"
  have i: "HandleId h < slotCount t" "SlotAt t (HandleId h) = Some s" using Some by (auto simp: Find_Some_iff)
  show ?thesis
    by (simp add: absolute_managed_set_type_def Some, rule wf_set_slot [OF wf i(1)])
      (use wf_tableD(3,6,7) [OF wf] i in simp_all)
qed (simp add: absolute_managed_set_type_def)

lemma get_set_type [simp]: "absolute_managed_get (absolute_managed_set_type h ty t) k = absolute_managed_get t k"
  by (cases "Find t h") (auto simp: absolute_managed_set_type_def get_Find Find_update_same)

lemma type_set_type:
  "absolute_managed_type (absolute_managed_set_type h ty t) k =
    (if Find t h \<noteq> None \<and> k = h then ty else absolute_managed_type t k)"
  by (cases "Find t h") (auto simp: absolute_managed_set_type_def type_Find Find_update_same)


section \<open>Refinement: the table is a finite map from live handles to allocations\<close>

text \<open>What a caller can observe: the allocation, type and deleter behind each live handle.\<close>

type_synonym live = "u64 \<Rightarrow> (u64 \<times> u64 \<times> deleter option) option"

definition live_map :: "table \<Rightarrow> live" where
  "live_map t h =
    (case Find t h of
       Some s \<Rightarrow> if s_pointer s = 0 then None else Some (s_pointer s, s_type s, s_deleter s)
     | None \<Rightarrow> None)"

text \<open>One call of the runtime on the table; an allocating call carries what its allocators return.\<close>

datatype table_op =
  OpCreate bool u64 u64
| OpAdopt bool u64 "deleter option"
| OpSetType u64 u64
| OpDestroy u64
| OpTransfer u64

fun run_op :: "table_op \<Rightarrow> table \<Rightarrow> string + u64 \<times> table" where
  "run_op (OpCreate chunk_ok address bytes) t = absolute_managed_create chunk_ok (\<lambda>_. address) bytes t"
| "run_op (OpAdopt chunk_ok ptr d) t = absolute_managed_adopt_raw chunk_ok ptr d t"
| "run_op (OpSetType h ty) t = Inr (0, absolute_managed_set_type h ty t)"
| "run_op (OpDestroy h) t = Inr (0, absolute_managed_destroy h t)"
| "run_op (OpTransfer h) t = absolute_managed_transfer h t"

lemma first_handle: "HandleId 0x100000000 = 0" "HandleGeneration 0x100000000 = 1"
  by code_simp+

lemmas table_eval = absolute_managed_create_def RegisterAllocation_def empty_table_def SlotsPerChunk_def
  MaxChunks_def SlotAt_def fresh_slot_def MakeHandle_def first_handle Find_def
  absolute_managed_destroy_def absolute_managed_check_leaks_def leaked_handles_def set_slot_def
  absolute_managed_valid_def absolute_managed_get_def next_generation_def or_default_def

fun run_ops :: "table_op list \<Rightarrow> table \<Rightarrow> string + table" where
  "run_ops [] t = Inr t"
| "run_ops (op # ops) t =
    (case run_op op t of Inl e \<Rightarrow> Inl e | Inr (h, t') \<Rightarrow> run_ops ops t')"

text \<open>The same call on the map, given the handle it returns.\<close>

fun abs_op :: "table_op \<Rightarrow> u64 \<Rightarrow> live \<Rightarrow> live" where
  "abs_op (OpCreate _ a _) h m = m(h \<mapsto> (a, 0, Some DefaultDeleter))"
| "abs_op (OpAdopt _ p d) h m = (if p = 0 then m else m(h \<mapsto> (p, 0, Some (or_default d))))"
| "abs_op (OpSetType k ty) h m =
    (case m k of Some (p, _, d) \<Rightarrow> m(k \<mapsto> (p, ty, d)) | None \<Rightarrow> m)"
| "abs_op (OpDestroy k) h m = m(k := None)"
| "abs_op (OpTransfer k) h m = m(k := None, h := m k)"

text \<open>The handles an operation issues, and the deleter calls it makes.\<close>

fun issues :: "table_op \<Rightarrow> bool" where
  "issues (OpCreate _ _ _) = True"
| "issues (OpAdopt _ p _) = (p \<noteq> 0)"
| "issues (OpTransfer _) = True"
| "issues _ = False"

fun abs_released :: "table_op \<Rightarrow> live \<Rightarrow> (deleter \<times> u64) list" where
  "abs_released (OpDestroy k) m =
    (case m k of Some (p, _, d) \<Rightarrow> [(the d, p)] | None \<Rightarrow> [])"
| "abs_released _ m = []"

lemma live_map_None: "live_map t h = None \<longleftrightarrow> absolute_managed_get t h = 0"
  by (auto simp: live_map_def get_Find split: option.splits)

lemma Register_map:
  assumes wf: "wf_table t" and r: "RegisterAllocation chunk_ok a d t = Inr (h, t')" and a: "a \<noteq> 0"
  shows "live_map t' = (live_map t)(h \<mapsto> (a, 0, Some (or_default d)))" "live_map t h = None"
    "released t' = released t" "h \<noteq> 0"
proof -
  from RegisterAllocation_view [OF wf r a] obtain t1 s s' where e: "t' = set_slot (HandleId h) s' t1"
    "Find t1 h = Some s" "s_generation s' = s_generation s" "s_pointer s' = a" "s_type s' = 0"
    "s_deleter s' = Some (or_default d)" "released t1 = released t"
    "\<forall>k. k \<noteq> h \<longrightarrow> Find t1 k = Find t k" "absolute_managed_get t h = 0" by blast
  show "live_map t' = (live_map t)(h \<mapsto> (a, 0, Some (or_default d)))"
    using e a by (auto simp: live_map_def Find_update_same)
  show "live_map t h = None" "released t' = released t" "h \<noteq> 0"
    using e(1,2,7,9) by (simp_all add: live_map_None Find_Some_iff)
qed

lemma live_map_Some:
  "live_map t h = Some (p, ty, d) \<longleftrightarrow>
    (\<exists>s. Find t h = Some s \<and> s_pointer s = p \<and> p \<noteq> 0 \<and> s_type s = ty \<and> s_deleter s = d)"
  by (auto simp: live_map_def split: option.splits)

lemma live_map_get: "absolute_managed_get t h = (case live_map t h of Some (p, _, _) \<Rightarrow> p | None \<Rightarrow> 0)"
  by (auto simp: live_map_def get_Find split: option.splits)

lemma live_map_fields [simp]:
  "live_map (t\<lparr>freeSlots := q, released := r\<rparr>) = live_map t"
  by (simp add: live_map_def fun_eq_iff)

lemma live_map_deleter: "wf_table t \<Longrightarrow> live_map t h = Some (p, ty, d) \<Longrightarrow> d \<noteq> None"
  using wf_tableD(7) [of t] by (auto simp: live_map_Some Find_Some_iff)

lemma destroy_map:
  assumes wf: "wf_table t"
  shows "live_map (absolute_managed_destroy h t) = (live_map t)(h := None)"
    "released (absolute_managed_destroy h t) =
      released t @ (case live_map t h of Some (p, _, d) \<Rightarrow> [(the d, p)] | None \<Rightarrow> [])"
proof -
  show "live_map (absolute_managed_destroy h t) = (live_map t)(h := None)"
  proof (cases "absolute_managed_get t h = 0")
    case True
    then show ?thesis by (auto simp: destroy_dead live_map_None [symmetric])
  next
    case False
    then obtain s where s: "Find t h = Some s" "s_pointer s \<noteq> 0" by (rule get_live)
    have g: "s_generation s \<noteq> 0" using s wf_tableD(3) [OF wf] by (auto simp: Find_Some_iff)
    have "live_map t (MakeHandle (HandleId h) (next_generation (s_generation s))) = None"
    proof -
      have "Find t (MakeHandle (HandleId h) (next_generation (s_generation s))) = None"
        using s(1) g by (intro Find_NoneI [where s = s]) (auto simp: handle_simps Find_Some_iff dest: sym)
      then show ?thesis by (simp add: live_map_def)
    qed
    then show ?thesis
      unfolding destroy_live [OF s]
      by (auto simp: live_map_def Find_update_next [OF s(1)] g fun_eq_iff)
  qed
  show "released (absolute_managed_destroy h t) =
      released t @ (case live_map t h of Some (p, _, d) \<Rightarrow> [(the d, p)] | None \<Rightarrow> [])"
  proof (cases "live_map t h")
    case None
    then have "absolute_managed_get t h = 0" by (simp add: live_map_None)
    then show ?thesis using None by (simp add: destroy_dead)
  next
    case (Some v)
    obtain p ty d where v: "v = (p, ty, d)" by (cases v)
    then obtain s where s: "Find t h = Some s" "s_pointer s = p" "p \<noteq> 0" "s_deleter s = d"
      using Some by (auto simp: live_map_Some)
    have "d \<noteq> None" using live_map_deleter [OF wf] Some v by blast
    then show ?thesis using s destroy_live [OF s(1)] Some v by (auto simp: or_default_def)
  qed
qed

lemma transfer_map:
  assumes wf: "wf_table t" and r: "absolute_managed_transfer k t = Inr (h, t')"
  shows "live_map t' = (live_map t)(k := None, h := live_map t k)" "live_map t h = None"
    "live_map t k \<noteq> None" "released t' = released t" "h \<noteq> 0" "h \<noteq> k"
proof -
  from r obtain s where s: "Find t k = Some s" "s_pointer s \<noteq> 0"
    and h: "h = MakeHandle (HandleId k) (next_generation (s_generation s))"
    and t': "t' = set_slot (HandleId k) (s\<lparr>s_generation := next_generation (s_generation s)\<rparr>) t"
    by (rule transfer_Inr)
  have g: "s_generation s \<noteq> 0" using s wf_tableD(3) [OF wf] by (auto simp: Find_Some_iff)
  show "live_map t' = (live_map t)(k := None, h := live_map t k)"
    using s g by (auto simp: t' h live_map_def Find_update_next [OF s(1)] fun_eq_iff)
  show "live_map t h = None" "live_map t k \<noteq> None" "released t' = released t"
    using get_transfer [OF wf r] by (simp_all add: live_map_None)
  then show "h \<noteq> 0" "h \<noteq> k" using h by (auto simp: MakeHandle_not_null)
qed

lemma set_type_map:
  "live_map (absolute_managed_set_type k ty t) =
    (case live_map t k of Some (p, _, d) \<Rightarrow> (live_map t)(k \<mapsto> (p, ty, d)) | None \<Rightarrow> live_map t)"
  by (cases "Find t k")
    (auto simp: absolute_managed_set_type_def live_map_def Find_update_same fun_eq_iff)

lemma released_set_type [simp]: "released (absolute_managed_set_type k ty t) = released t"
  by (simp add: absolute_managed_set_type_def split: option.splits)


lemma run_op_preserves:
  assumes wf: "wf_table t" and r: "run_op op t = Inr (h, t')"
  shows "wf_table t'" "live_map t' = abs_op op h (live_map t)"
    "released t' = released t @ abs_released op (live_map t)"
    "issues op \<Longrightarrow> h \<noteq> 0 \<and> live_map t h = None"
proof -
  have "wf_table t' \<and> live_map t' = abs_op op h (live_map t)
    \<and> released t' = released t @ abs_released op (live_map t)
    \<and> (issues op \<longrightarrow> h \<noteq> 0 \<and> live_map t h = None)"
  proof (cases op)
    case (OpCreate c a n)
    then have R: "RegisterAllocation c a (Some DefaultDeleter) t = Inr (h, t')" and a: "a \<noteq> 0"
      using r by (auto simp: absolute_managed_create_def Let_def split: if_splits)
    show ?thesis
      using wf_RegisterAllocation [OF wf R a] Register_map [OF wf R a] OpCreate
      by (simp add: or_default_def)
  next
    case (OpAdopt c a d)
    show ?thesis
    proof (cases "a = 0")
      case True
      then show ?thesis using r wf OpAdopt by (simp add: absolute_managed_adopt_raw_def)
    next
      case False
      then have R: "RegisterAllocation c a (Some (or_default d)) t = Inr (h, t')"
        using r OpAdopt by (simp add: absolute_managed_adopt_raw_def)
      show ?thesis
        using wf_RegisterAllocation [OF wf R False] Register_map [OF wf R False] OpAdopt False
        by (simp add: or_default_def)
    qed
  next
    case (OpSetType k ty)
    then show ?thesis
      using r wf by (auto simp: wf_set_type set_type_map split: option.splits)
  next
    case (OpDestroy k)
    then show ?thesis
      using r wf_destroy [OF wf] destroy_map [OF wf] by auto
  next
    case (OpTransfer k)
    then show ?thesis
      using r wf_transfer [OF wf] transfer_map [OF wf] by auto
  qed
  then show "wf_table t'" "live_map t' = abs_op op h (live_map t)"
    "released t' = released t @ abs_released op (live_map t)"
    "issues op \<Longrightarrow> h \<noteq> 0 \<and> live_map t h = None" by blast+
qed

text \<open>C2. The slot table refines a finite map from live handles: every operation that returns does
  to the map what its name says (a created or adopted allocation appears under a fresh handle that
  is not null, a destroyed handle disappears, a transferred allocation moves to a fresh handle), the
  deleter calls are exactly that of a destroyed live handle, and the table stays well formed.\<close>

theorem table_refines_map:
  assumes "wf_table t" and "run_op op t = Inr (h, t')"
  shows "wf_table t' \<and> live_map t' = abs_op op h (live_map t)
    \<and> released t' = released t @ abs_released op (live_map t)
    \<and> (issues op \<longrightarrow> h \<noteq> 0 \<and> live_map t h = None)"
  using run_op_preserves [OF assms] by blast

lemma wf_run_ops: "wf_table t \<Longrightarrow> run_ops ops t = Inr t' \<Longrightarrow> wf_table t'"
  by (induction ops arbitrary: t) (auto split: sum.splits dest: run_op_preserves(1))

theorem table_refines_map_witness:
  "\<exists>h t'. run_op (OpCreate True 12288 4) empty_table = Inr (h, t') \<and> h = 0x100000000
     \<and> live_map t' = (live_map empty_table)(h \<mapsto> (12288, 0, Some DefaultDeleter))"
proof -
  have "case run_op (OpCreate True 12288 4) empty_table of Inr (h, _) \<Rightarrow> h = 0x100000000 | Inl _ \<Rightarrow> False"
    by (simp add: table_eval)
  then obtain t' where r: "run_op (OpCreate True 12288 4) empty_table = Inr (0x100000000, t')"
    by (auto simp del: run_op.simps split: sum.splits)
  show ?thesis
    using table_refines_map [OF wf_empty_table r] r by (intro exI conjI) auto
qed

section \<open>Accounting: every allocation is released once, or still live\<close>

fun op_allocates :: "table_op \<Rightarrow> u64 list" where
  "op_allocates (OpCreate _ a _) = [a]"
| "op_allocates (OpAdopt _ p _) = (if p = 0 then [] else [p])"
| "op_allocates _ = []"

definition live_pointers :: "live \<Rightarrow> u64 multiset" where
  "live_pointers m = image_mset (\<lambda>h. fst (the (m h))) (mset_set (dom m))"

lemma finite_live: "finite (dom (live_map t))"
  by simp

lemma live_pointers_upd_new:
  assumes "m h = None" "finite (dom m)"
  shows "live_pointers (m(h \<mapsto> v)) = add_mset (fst v) (live_pointers m)"
proof -
  have "h \<notin> dom m" using assms(1) by auto
  moreover have "image_mset (\<lambda>k. fst (the ((m(h \<mapsto> v)) k))) (mset_set (dom m)) = live_pointers m"
    using assms unfolding live_pointers_def by (intro image_mset_cong) (auto simp: domIff)
  ultimately show ?thesis
    using assms(2) by (simp add: live_pointers_def)
qed

lemma live_pointers_remove:
  assumes "m h = Some v" "finite (dom m)"
  shows "live_pointers m = add_mset (fst v) (live_pointers (m(h := None)))"
proof -
  have "m = (m(h := None))(h \<mapsto> v)" using assms(1) by auto
  then show ?thesis
    using live_pointers_upd_new [of "m(h := None)" h v] assms(2) by simp
qed

lemma live_pointers_upd_same:
  assumes "m k = Some (p, ty, d)" "finite (dom m)"
  shows "live_pointers (m(k \<mapsto> (p, ty', d'))) = live_pointers m"
  using live_pointers_upd_new [of "m(k := None)" k "(p, ty', d')"]
    live_pointers_remove [OF assms] assms(2) by simp

lemma abs_op_accounting:
  assumes "issues op \<Longrightarrow> m h = None" and "\<And>k. op = OpTransfer k \<Longrightarrow> m k \<noteq> None" and f: "finite (dom m)"
  shows "mset (map snd (abs_released op m)) + live_pointers (abs_op op h m)
    = mset (op_allocates op) + live_pointers m"
proof (cases op)
  case (OpCreate c a n)
  then show ?thesis using assms live_pointers_upd_new [of m h] by simp
next
  case (OpAdopt c a d)
  then show ?thesis using assms live_pointers_upd_new [of m h] by simp
next
  case (OpSetType k ty)
  then show ?thesis using f by (auto simp: live_pointers_upd_same split: option.splits)
next
  case (OpDestroy k)
  show ?thesis
  proof (cases "m k")
    case None
    then have "m(k := None) = m" by auto
    then show ?thesis using OpDestroy None by simp
  next
    case (Some v)
    then show ?thesis using OpDestroy live_pointers_remove [OF Some f] by (auto split: prod.splits)
  qed
next
  case (OpTransfer k)
  then obtain v where v: "m k = Some v" "m h = None" using assms(1,2) by fastforce
  then show ?thesis
    using OpTransfer live_pointers_remove [OF v(1) f] live_pointers_upd_new [of "m(k := None)" h v] f
    by simp
qed

lemma run_op_accounting:
  assumes wf: "wf_table t" and r: "run_op op t = Inr (h, t')"
  shows "mset (map snd (released t')) + live_pointers (live_map t')
    = mset (op_allocates op) + (mset (map snd (released t)) + live_pointers (live_map t))"
proof -
  note p = run_op_preserves [OF wf r]
  have "live_map t k \<noteq> None" if "op = OpTransfer k" for k
    using r that transfer_map(3) [OF wf] by simp
  then have "mset (map snd (abs_released op (live_map t))) + live_pointers (live_map t')
      = mset (op_allocates op) + live_pointers (live_map t)"
    using abs_op_accounting [of op "live_map t" h] p by simp
  then show ?thesis using p(3) by simp
qed

lemma run_ops_accounting:
  "wf_table t \<Longrightarrow> run_ops ops t = Inr t' \<Longrightarrow>
   mset (map snd (released t')) + live_pointers (live_map t')
    = mset (concat (map op_allocates ops)) + (mset (map snd (released t)) + live_pointers (live_map t))"
proof (induction ops arbitrary: t)
  case (Cons op ops)
  then obtain h t1 where r: "run_op op t = Inr (h, t1)" and rs: "run_ops ops t1 = Inr t'"
    by (auto split: sum.splits)
  show ?case
    using Cons.IH [OF run_op_preserves(1) [OF Cons.prems(1) r] rs]
      run_op_accounting [OF Cons.prems(1) r] by simp
qed simp

lemma leaked_handles_iff:
  "h \<in> set (leaked_handles t) \<longleftrightarrow>
    (\<exists>i s. i < slotCount t \<and> SlotAt t i = Some s \<and> s_pointer s \<noteq> 0 \<and> h = MakeHandle i (s_generation s))"
proof -
  have "(\<exists>n<unat (slotCount t). P (of_nat n)) \<longleftrightarrow> (\<exists>i < slotCount t. P i)" for P :: "u32 \<Rightarrow> bool"
  proof
    assume "\<exists>n<unat (slotCount t). P (of_nat n)"
    then obtain n where n: "n < unat (slotCount t)" "P (of_nat n)" by blast
    have "unat (of_nat n :: u32) = n"
      using n(1) unsigned_less [of "slotCount t", where ?'a = nat] by (simp add: unat_of_nat)
    then show "\<exists>i < slotCount t. P i"
      using n by (intro exI [of _ "of_nat n"]) (simp add: word_less_nat_alt)
  next
    assume "\<exists>i < slotCount t. P i"
    then obtain i where "i < slotCount t" "P i" by blast
    then show "\<exists>n<unat (slotCount t). P (of_nat n)"
      by (intro exI [of _ "unat i"]) (simp add: word_less_nat_alt)
  qed
  note bex = this [of "\<lambda>i. \<exists>s. SlotAt t i = Some s \<and> s_pointer s \<noteq> 0 \<and> h = MakeHandle i (s_generation s)"]
  have mem: "h \<in> set (case SlotAt t i of
        Some s \<Rightarrow> if s_pointer s \<noteq> 0 then [MakeHandle i (s_generation s)] else [] | None \<Rightarrow> [])
      \<longleftrightarrow> (\<exists>s. SlotAt t i = Some s \<and> s_pointer s \<noteq> 0 \<and> h = MakeHandle i (s_generation s))" for i
    by (cases "SlotAt t i") auto
  have "h \<in> set (leaked_handles t) \<longleftrightarrow> (\<exists>n\<in>{0..<unat (slotCount t)}. h \<in> set (case SlotAt t (of_nat n) of
        Some s \<Rightarrow> if s_pointer s \<noteq> 0 then [MakeHandle (of_nat n) (s_generation s)] else [] | None \<Rightarrow> []))"
    by (simp only: leaked_handles_def set_concat set_map set_upt UN_iff bex_simps image_image)
  then have "h \<in> set (leaked_handles t) \<longleftrightarrow> (\<exists>n<unat (slotCount t). \<exists>s. SlotAt t (of_nat n) = Some s
      \<and> s_pointer s \<noteq> 0 \<and> h = MakeHandle (of_nat n) (s_generation s))"
    unfolding mem by (simp only: Bex_def atLeastLessThan_iff zero_le simp_thms)
  then show ?thesis using bex by blast
qed

lemma leaked_handles_dom:
  assumes wf: "wf_table t"
  shows "set (leaked_handles t) = dom (live_map t)"
proof (rule set_eqI)
  fix h
  have "h \<in> dom (live_map t) \<longleftrightarrow> (\<exists>s. Find t h = Some s \<and> s_pointer s \<noteq> 0)"
    by (auto simp: domIff live_map_def split: option.splits)
  also have "\<dots> \<longleftrightarrow> h \<in> set (leaked_handles t)"
    unfolding leaked_handles_iff Find_Some_iff
    using wf_tableD(3) [OF wf] MakeHandle_not_null by (auto simp: handle_simps)
  finally show "h \<in> set (leaked_handles t) \<longleftrightarrow> h \<in> dom (live_map t)" by simp
qed

text \<open>C37. When the program runs any sequence of table operations from the start and the exit check
  passes, every allocation it created or adopted has been handed to a deleter exactly once; when it
  does not pass, the reported handles are exactly the live ones.\<close>

theorem leak_check_exact:
  assumes "run_ops ops empty_table = Inr t"
  shows "case absolute_managed_check_leaks t of
      Inr _ \<Rightarrow> mset (map snd (released t)) = mset (concat (map op_allocates ops))
    | Inl leaks \<Rightarrow> leaks \<noteq> [] \<and> set leaks = {h. absolute_managed_valid t h}"
proof -
  have wf: "wf_table t" using assms wf_run_ops wf_empty_table by blast
  have e: "live_map empty_table = Map.empty"
    by (simp add: live_map_def empty_table_def Find_def fun_eq_iff)
  have acc: "mset (map snd (released t)) + live_pointers (live_map t) = mset (concat (map op_allocates ops))"
    using run_ops_accounting [OF wf_empty_table assms] unfolding e
    by (simp add: live_pointers_def empty_table_def)
  have d: "set (leaked_handles t) = dom (live_map t)" by (rule leaked_handles_dom [OF wf])
  show ?thesis
  proof (cases "leaked_handles t = []")
    case True
    then have "live_pointers (live_map t) = {#}" using d by (simp add: live_pointers_def)
    then show ?thesis using True acc by (simp add: absolute_managed_check_leaks_def)
  next
    case False
    then show ?thesis
      using d by (auto simp: absolute_managed_check_leaks_def absolute_managed_valid_def live_map_None [symmetric])
  qed
qed


theorem leak_check_exact_witness:
  "\<exists>t. run_ops [OpCreate True 4096 24, OpDestroy 0x100000000] empty_table = Inr t
    \<and> absolute_managed_check_leaks t = Inr () \<and> mset (map snd (released t)) = {#4096#}"
proof -
  have "case run_ops [OpCreate True 4096 24, OpDestroy 0x100000000] empty_table of
      Inr t \<Rightarrow> absolute_managed_check_leaks t = Inr () | Inl _ \<Rightarrow> False"
    by (simp add: table_eval)
  then obtain t where r: "run_ops [OpCreate True 4096 24, OpDestroy 0x100000000] empty_table = Inr t"
    and c: "absolute_managed_check_leaks t = Inr ()"
    by (auto simp del: run_ops.simps split: sum.splits)
  show ?thesis
    using leak_check_exact [OF r] r c by (intro exI conjI) auto
qed


section \<open>The lifetime of a generation\<close>

text \<open>How many times \<open>next_generation\<close> has to be applied to \<open>g\<close> to reach \<open>k\<close>, both not 0: the
  generations form a cycle of \<open>2 ^ 32 - 1\<close> values.\<close>

definition generations :: nat where "generations = 2 ^ 32 - 1"

definition distance :: "u32 \<Rightarrow> u32 \<Rightarrow> nat" where
  "distance g k = (unat k + generations - unat g) mod generations"

lemma unat_next_generation:
  assumes "g \<noteq> 0"
  shows "unat (next_generation g) = (if unat g = generations then 1 else unat g + 1)"
proof -
  have m: "unat (-1 :: u32) = generations"
    by (simp add: generations_def unsigned_minus_1_eq_mask mask_eq_exp_minus_1)
  have z: "g + 1 = 0 \<longleftrightarrow> unat g = generations"
    by (metis add.commute eq_neg_iff_add_eq_0 m word_unat_eq_iff)
  show ?thesis
  proof (cases "g + 1 = 0")
    case True
    then show ?thesis using z by (simp add: next_generation_def)
  next
    case False
    have "unat g < 2 ^ 32" using unsigned_less [of g, where ?'a = nat] by simp
    then have "unat g + 1 < 2 ^ 32" using False z by (simp add: generations_def)
    then have "unat (g + 1) = unat g + 1" by (simp add: unat_word_ariths)
    then show ?thesis using False z by (simp add: next_generation_def Let_def)
  qed
qed

lemma generation_bounds: "(g :: u32) \<noteq> 0 \<Longrightarrow> 0 < unat g \<and> unat g \<le> generations"
  using unsigned_less [of g, where ?'a = nat] by (auto simp: generations_def unat_gt_0)

text \<open>The distance without the modulus.\<close>

lemma distance_cases:
  assumes "g \<noteq> 0" "k \<noteq> 0"
  shows "distance g k = (if unat g \<le> unat k then unat k - unat g else unat k + generations - unat g)"
proof (cases "unat g \<le> unat k")
  case True
  then have "unat k + generations - unat g = (unat k - unat g) + generations" by simp
  moreover have "unat k - unat g < generations"
    using generation_bounds [OF assms(1)] generation_bounds [OF assms(2)] by linarith
  ultimately show ?thesis using True by (simp only: distance_def mod_add_self2 mod_less if_True)
next
  case False
  then have "unat k + generations - unat g < generations"
    using generation_bounds [OF assms(1)] generation_bounds [OF assms(2)] by linarith
  then show ?thesis using False by (simp add: distance_def)
qed

lemma distance_less: "distance g k < generations"
  by (simp add: distance_def generations_def)

lemma distance_step:
  assumes "g \<noteq> 0" "k \<noteq> 0" "0 < distance g k"
  shows "distance (next_generation g) k = distance g k - 1"
proof -
  have n: "next_generation g \<noteq> 0" by simp
  show ?thesis
    using assms(3) generation_bounds [OF assms(1)] generation_bounds [OF assms(2)]
    unfolding distance_cases [OF assms(1,2)] distance_cases [OF n assms(2)] unat_next_generation [OF assms(1)]
    by (auto split: if_splits)
qed

lemma distance_next:
  assumes "g \<noteq> 0"
  shows "distance (next_generation g) g = generations - 1"
proof -
  have n: "next_generation g \<noteq> 0" by simp
  show ?thesis
    using generation_bounds [OF assms]
    unfolding distance_cases [OF n assms] unat_next_generation [OF assms]
    by (auto simp: generations_def)
qed

lemma distance_self [simp]: "g \<noteq> 0 \<Longrightarrow> distance g g = 0"
  by (simp add: distance_def)


definition generation_of :: "table \<Rightarrow> u32 \<Rightarrow> u32" where
  "generation_of t i = (case SlotAt t i of Some s \<Rightarrow> s_generation s | None \<Rightarrow> 0)"

lemma generation_set_slot:
  "SlotAt t i \<noteq> None \<Longrightarrow>
   generation_of (set_slot i s t) j = (if j = i then s_generation s else generation_of t j)"
  by (simp add: generation_of_def SlotAt_set_slot)

lemma generation_fields [simp]:
  "generation_of (t\<lparr>freeSlots := q\<rparr>) i = generation_of t i"
  "generation_of (t\<lparr>released := r\<rparr>) i = generation_of t i"
  by (simp_all add: generation_of_def)

lemma generation_nonzero: "wf_table t \<Longrightarrow> i < slotCount t \<Longrightarrow> generation_of t i \<noteq> 0"
  using wf_tableD(2,3) [of t] by (fastforce simp: generation_of_def split: option.splits)

text \<open>One operation keeps the generation of a published slot or takes it one step further.\<close>

lemma Register_generation:
  assumes wf: "wf_table t" and r: "RegisterAllocation c a d t = Inr (h, t')" "a \<noteq> 0" and i: "i < slotCount t"
  shows "i < slotCount t' \<and> generation_of t' i = generation_of t i"
  using wf r
proof (cases rule: RegisterAllocation_cases)
  case (reuse j s)
  then show ?thesis using i by (auto simp: generation_set_slot) (simp add: generation_of_def)
next
  case (extend s t1)
  have "i < slotCount t1" using i extend(3,5) by (simp add: word_less_nat_alt)
  moreover have "i \<noteq> slotCount t" using i by auto
  ultimately show ?thesis
    using i extend by (auto simp: generation_set_slot) (simp add: generation_of_def)
qed

lemma update_generation:
  assumes "Find t k = Some s" "i < slotCount t" "SlotAt t (HandleId k) \<noteq> None"
  shows "generation_of (set_slot (HandleId k) s' t) i = (if i = HandleId k then s_generation s' else generation_of t i)"
    "i = HandleId k \<Longrightarrow> generation_of t i = s_generation s"
  using assms by (simp_all add: generation_set_slot [OF assms(3)]) (simp add: generation_of_def Find_Some_iff)

lemma run_op_generation:
  assumes wf: "wf_table t" and r: "run_op op t = Inr (h, t')" and i: "i < slotCount t"
  shows "i < slotCount t'"
    "generation_of t' i = generation_of t i \<or> generation_of t' i = next_generation (generation_of t i)"
proof -
  have "i < slotCount t' \<and> (generation_of t' i = generation_of t i
      \<or> generation_of t' i = next_generation (generation_of t i))"
  proof (cases op)
    case (OpCreate c a n)
    then show ?thesis
      using r Register_generation [OF wf _ _ i]
      by (auto simp: absolute_managed_create_def Let_def split: if_splits)
  next
    case (OpAdopt c a d)
    then show ?thesis
      using r i Register_generation [OF wf _ _ i]
      by (auto simp: absolute_managed_adopt_raw_def split: if_splits)
  next
    case (OpSetType k ty)
    then show ?thesis
      using r i update_generation [of t k _ i]
      by (auto simp: absolute_managed_set_type_def Find_Some_iff split: option.splits)
  next
    case (OpDestroy k)
    show ?thesis
    proof (cases "absolute_managed_get t k = 0")
      case True
      then show ?thesis using r i OpDestroy by (simp add: destroy_dead)
    next
      case False
      then obtain s where s: "Find t k = Some s" "s_pointer s \<noteq> 0" by (rule get_live)
      have "SlotAt t (HandleId k) \<noteq> None" using s by (simp add: Find_Some_iff)
      moreover have "t' = absolute_managed_destroy k t" using r OpDestroy by simp
      ultimately show ?thesis
        using i update_generation [OF s(1) i] unfolding destroy_live [OF s] by auto
    qed
  next
    case (OpTransfer k)
    then have "absolute_managed_transfer k t = Inr (h, t')" using r by simp
    then show ?thesis
    proof (rule transfer_Inr)
      fix s assume s: "Find t k = Some s" "s_pointer s \<noteq> 0"
        and t': "t' = set_slot (HandleId k) (s\<lparr>s_generation := next_generation (s_generation s)\<rparr>) t"
      have "SlotAt t (HandleId k) \<noteq> None" using s by (simp add: Find_Some_iff)
      then show ?thesis using i update_generation [OF s(1) i] unfolding t' by auto
    qed
  qed
  then show "i < slotCount t'"
    "generation_of t' i = generation_of t i \<or> generation_of t' i = next_generation (generation_of t i)"
    by blast+
qed

lemma run_ops_distance:
  "wf_table t \<Longrightarrow> run_ops ops t = Inr t' \<Longrightarrow> i < slotCount t \<Longrightarrow> k \<noteq> 0 \<Longrightarrow>
   length ops < distance (generation_of t i) k \<Longrightarrow>
   i < slotCount t' \<and> 0 < distance (generation_of t' i) k"
proof (induction ops arbitrary: t)
  case (Cons op ops)
  then obtain h t1 where r: "run_op op t = Inr (h, t1)" and rs: "run_ops ops t1 = Inr t'"
    by (auto split: sum.splits)
  note g = run_op_generation [OF Cons.prems(1) r Cons.prems(3)]
  have "distance (next_generation (generation_of t i)) k = distance (generation_of t i) k - 1"
    using distance_step [OF generation_nonzero [OF Cons.prems(1,3)] Cons.prems(4)] Cons.prems(5) by linarith
  then have "length ops < distance (generation_of t1 i) k" using g(2) Cons.prems(5) by auto
  then show ?case
    using Cons.IH [OF run_op_preserves(1) [OF Cons.prems(1) r] rs g(1) Cons.prems(4)] by blast
qed simp

text \<open>C36. A handle that has been destroyed stays expired through any further operations, whoever
  reuses its slot, as long as they are fewer than \<open>2 ^ 32 - 2\<close>: the generation of a slot comes
  round again only after \<open>2 ^ 32 - 1\<close> changes.\<close>

theorem destroyed_handle_stays_expired:
  assumes "wf_table t" and "absolute_managed_valid t h"
    and "run_ops ops (absolute_managed_destroy h t) = Inr t'" and "length ops < 2 ^ 32 - 2"
  shows "\<not> absolute_managed_valid t' h"
proof -
  let ?t = "absolute_managed_destroy h t"
  from assms(2) obtain s where s: "Find t h = Some s" "s_pointer s \<noteq> 0"
    by (auto simp: absolute_managed_valid_def elim: get_live)
  have i: "HandleId h < slotCount t" "SlotAt t (HandleId h) = Some s" "s_generation s = HandleGeneration h"
    using s by (auto simp: Find_Some_iff)
  have g: "HandleGeneration h \<noteq> 0" using wf_tableD(3) [OF assms(1) i(2)] i(3) by simp
  have "generation_of ?t (HandleId h) = next_generation (HandleGeneration h)"
    using destroy_live [OF s] i by (simp add: generation_set_slot)
  then have d: "distance (generation_of ?t (HandleId h)) (HandleGeneration h) = 2 ^ 32 - 2"
    using distance_next [OF g] by (simp add: generations_def)
  have c: "HandleId h < slotCount ?t" using destroy_live [OF s] i by simp
  have "0 < distance (generation_of t' (HandleId h)) (HandleGeneration h)"
    using run_ops_distance [OF wf_destroy [OF assms(1)] assms(3) c g] assms(4) d by simp
  then have "generation_of t' (HandleId h) \<noteq> HandleGeneration h" using g by auto
  then show ?thesis
    by (auto simp: absolute_managed_valid_def get_Find Find_Some_iff generation_of_def split: option.splits)
qed

theorem destroyed_handle_stays_expired_witness:
  "\<exists>t t'. absolute_managed_valid t 0x100000000
     \<and> run_ops [OpCreate True 64 4] (absolute_managed_destroy 0x100000000 t) = Inr t'
     \<and> \<not> absolute_managed_valid t' 0x100000000"
proof -
  have "case absolute_managed_create True (\<lambda>_. 4096) 24 empty_table of
      Inr (_, t) \<Rightarrow> absolute_managed_valid t 0x100000000
        \<and> \<not> isl (run_ops [OpCreate True 64 4] (absolute_managed_destroy 0x100000000 t)) | Inl _ \<Rightarrow> False"
    by (simp add: table_eval)
  then obtain h t where c: "run_op (OpCreate True 4096 24) empty_table = Inr (h, t)"
    and v: "absolute_managed_valid t 0x100000000"
    and "\<not> isl (run_ops [OpCreate True 64 4] (absolute_managed_destroy 0x100000000 t))"
    by (auto simp del: run_ops.simps split: sum.splits)
  then obtain t' where r: "run_ops [OpCreate True 64 4] (absolute_managed_destroy 0x100000000 t) = Inr t'"
    by (metis sum.collapse(2))
  have "wf_table t" by (rule run_op_preserves(1) [OF wf_empty_table c])
  then show ?thesis
    using destroyed_handle_stays_expired [OF _ v r] v r by (intro exI conjI) auto
qed


section \<open>The interface the rest of the runtime relies on\<close>

text \<open>\<open>errors.cpp\<close> and the transfer capsules reach the table only through these functions.\<close>

locale handle_table =
  fixes inv :: "'t \<Rightarrow> bool"
    and get :: "'t \<Rightarrow> u64 \<Rightarrow> u64"
    and destroy :: "u64 \<Rightarrow> 't \<Rightarrow> 't"
    and transfer :: "u64 \<Rightarrow> 't \<Rightarrow> string + u64 \<times> 't"
  assumes get_null: "get t 0 = 0"
    and inv_destroy: "inv t \<Longrightarrow> inv (destroy h t)"
    and destroy_expires: "inv t \<Longrightarrow> get (destroy h t) h = 0"
    and destroy_keeps: "inv t \<Longrightarrow> get t k \<noteq> 0 \<Longrightarrow> k \<noteq> h \<Longrightarrow> get (destroy h t) k = get t k"
    and destroy_noop: "get t h = 0 \<Longrightarrow> destroy h t = t"
    and transfer_fails: "get t h = 0 \<Longrightarrow> isl (transfer h t)"
    and transfer_works: "get t h \<noteq> 0 \<Longrightarrow> \<not> isl (transfer h t)"
    and inv_transfer: "inv t \<Longrightarrow> transfer h t = Inr (h', t') \<Longrightarrow> inv t'"
    and transfer_moves: "inv t \<Longrightarrow> transfer h t = Inr (h', t') \<Longrightarrow>
      get t' h' = get t h \<and> get t' h = 0 \<and> get t h' = 0"
    and transfer_keeps: "inv t \<Longrightarrow> transfer h t = Inr (h', t') \<Longrightarrow> k \<noteq> h \<Longrightarrow> k \<noteq> h' \<Longrightarrow>
      get t' k = get t k"

interpretation managed: handle_table wf_table absolute_managed_get absolute_managed_destroy
  absolute_managed_transfer
proof
  fix t :: table and h :: u64
  show "absolute_managed_get t 0 = 0" by (simp add: absolute_managed_get_def)
  show "absolute_managed_get t h = 0 \<Longrightarrow> isl (absolute_managed_transfer h t)"
    by (simp add: transfer_dead)
  show "\<not> isl (absolute_managed_transfer h t)" if live: "absolute_managed_get t h \<noteq> 0"
  proof -
    from live obtain s where "Find t h = Some s" "s_pointer s \<noteq> 0" by (rule get_live)
    then show ?thesis by (simp add: transfer_live)
  qed
qed (simp_all add: wf_destroy get_destroy_same get_destroy_other destroy_dead get_transfer wf_transfer)

end
