(* ===== verification/Managed_Clients.thy ===== *)
theory Managed_Clients
  imports Managed_Pointers
begin

text \<open>
  The two clients of the managed-pointer table: the pending error of a thread
  (\<open>Absolute-Runtime/src/errors.cpp\<close>, which knows the table only through
  \<open>extern "C" absolute_managed_destroy\<close>) and the transfer capsules at the end of
  \<open>Absolute-Runtime/src/pointers.cpp\<close>.  Each operation takes the functions of the table it
  calls as arguments; their laws are proved in the locale \<open>handle_table\<close> and read back for the
  real table through its interpretation.
\<close>

section \<open>The pending error\<close>

record error_state =
  e_handle :: u64
  e_type :: u64
  e_typeName :: string
  e_message :: string

definition no_error :: error_state where
  "no_error = \<lparr>e_handle = 0, e_type = 0, e_typeName = [], e_message = []\<rparr>"

text \<open>A C string that may be the null pointer is a \<open>string option\<close>.\<close>

definition absolute_error_set_details :: "string option \<Rightarrow> string option \<Rightarrow> error_state \<Rightarrow> error_state" where
  "absolute_error_set_details typeName message e =
    e\<lparr>e_typeName := (case typeName of Some s \<Rightarrow> s | None \<Rightarrow> []),
      e_message := (case message of Some s \<Rightarrow> s | None \<Rightarrow> [])\<rparr>"

definition absolute_error_set ::
  "(u64 \<Rightarrow> 't \<Rightarrow> 't) \<Rightarrow> u64 \<Rightarrow> u64 \<Rightarrow> error_state \<times> 't \<Rightarrow> error_state \<times> 't" where
  "absolute_error_set managed_destroy handle type st =
    (let (e, t) = st;
         t' = (if e_handle e \<noteq> 0 \<and> e_handle e \<noteq> handle then managed_destroy (e_handle e) t else t)
     in (e\<lparr>e_handle := handle, e_type := type\<rparr>, t'))"

definition absolute_error_pending :: "error_state \<Rightarrow> bool" where
  "absolute_error_pending e \<longleftrightarrow> e_handle e \<noteq> 0"

definition absolute_error_type :: "error_state \<Rightarrow> u64" where
  "absolute_error_type e = e_type e"

definition absolute_error_take :: "error_state \<times> 't \<Rightarrow> u64 \<times> error_state \<times> 't" where
  "absolute_error_take st =
    (let (e, t) = st; handle = e_handle e in (handle, e\<lparr>e_handle := 0, e_type := 0\<rparr>, t))"

definition absolute_error_discard ::
  "(u64 \<Rightarrow> 't \<Rightarrow> 't) \<Rightarrow> error_state \<times> 't \<Rightarrow> error_state \<times> 't" where
  "absolute_error_discard managed_destroy st =
    (let (e, t) = st;
         t' = (if e_handle e \<noteq> 0 then managed_destroy (e_handle e) t else t)
     in (no_error, t'))"

text \<open>The report goes to \<open>stderr\<close>: the text is the first component of the result.\<close>

definition absolute_error_report ::
  "(u64 \<Rightarrow> 't \<Rightarrow> 't) \<Rightarrow> error_state \<times> 't \<Rightarrow> string \<times> error_state \<times> 't" where
  "absolute_error_report managed_destroy st =
    (let e = fst st;
         output =
           (if e_typeName e \<noteq> [] \<and> e_message e \<noteq> [] then
              ''Unhandled Absolute exception: '' @ e_typeName e @ '': '' @ e_message e @ [char_of (10::nat)]
            else if e_typeName e \<noteq> [] then
              ''Unhandled Absolute exception: '' @ e_typeName e @ [char_of (10::nat)]
            else
              ''Unhandled Absolute exception (type-id='' @ to_string (unat (e_type e)) @ '')'' @ [char_of (10::nat)])
     in (output, absolute_error_discard managed_destroy st))"

section \<open>Transfer capsules\<close>

record capsule =
  c_handle :: u64
  c_transferred :: bool
  c_deleter :: "u64 option"

text \<open>
  The capsules that have been allocated and not deleted, by address, and the calls made to typed
  deleters.  Reading a capsule that has been deleted is undefined behaviour of the C++ program; the
  model makes it an error of its own.
\<close>

record 't capsules =
  c_heap :: "u64 \<Rightarrow> capsule option"
  c_calls :: "(u64 \<times> u64) list"
  c_table :: 't

definition freed_capsule :: string where
  "freed_capsule = ''undefined behaviour: use of a deleted capsule''"

definition absolute_capsule_create_typed ::
  "(u64 \<Rightarrow> 't \<Rightarrow> string + u64 \<times> 't) \<Rightarrow> u64 \<Rightarrow> u64 \<Rightarrow> u64 option \<Rightarrow> 't capsules \<Rightarrow> string + u64 \<times> 't capsules" where
  "absolute_capsule_create_typed managed_transfer address handle deleter st =
    (case managed_transfer handle (c_table st) of
       Inl e \<Rightarrow> Inl e
     | Inr (h, t) \<Rightarrow>
         Inr (address, st\<lparr>c_heap := (c_heap st)(address \<mapsto>
                            \<lparr>c_handle = h, c_transferred = False, c_deleter = deleter\<rparr>),
                          c_table := t\<rparr>))"

definition absolute_capsule_create ::
  "(u64 \<Rightarrow> 't \<Rightarrow> string + u64 \<times> 't) \<Rightarrow> u64 \<Rightarrow> u64 \<Rightarrow> 't capsules \<Rightarrow> string + u64 \<times> 't capsules" where
  "absolute_capsule_create managed_transfer address handle st =
    absolute_capsule_create_typed managed_transfer address handle None st"

definition absolute_capsule_unwrap :: "u64 \<Rightarrow> 't capsules \<Rightarrow> string + u64 \<times> 't capsules" where
  "absolute_capsule_unwrap capsulePtr st =
    (if capsulePtr = 0 then Inl ''cannot unwrap a null transfer capsule''
     else case c_heap st capsulePtr of
        None \<Rightarrow> Inl freed_capsule
      | Some capsule \<Rightarrow>
          if c_transferred capsule then Inl ''transfer capsule already unwrapped or transferred''
          else Inr (c_handle capsule, st\<lparr>c_heap := (c_heap st)(capsulePtr := None)\<rparr>))"

definition absolute_capsule_destroy ::
  "('t \<Rightarrow> u64 \<Rightarrow> u64) \<Rightarrow> (u64 \<Rightarrow> 't \<Rightarrow> 't) \<Rightarrow> u64 \<Rightarrow> 't capsules \<Rightarrow> string + 't capsules" where
  "absolute_capsule_destroy managed_get managed_destroy capsulePtr st =
    (if capsulePtr = 0 then Inr st
     else case c_heap st capsulePtr of
        None \<Rightarrow> Inl freed_capsule
      | Some capsule \<Rightarrow>
          let st1 =
            (if \<not> c_transferred capsule \<and> c_handle capsule \<noteq> 0 then
               let st2 =
                 (case c_deleter capsule of
                    Some d \<Rightarrow>
                      let rawObj = managed_get (c_table st) (c_handle capsule) in
                      if rawObj \<noteq> 0 then st\<lparr>c_calls := c_calls st @ [(d, rawObj)]\<rparr> else st
                  | None \<Rightarrow> st)
               in st2\<lparr>c_table := managed_destroy (c_handle capsule) (c_table st2)\<rparr>
             else st)
          in Inr (st1\<lparr>c_heap := (c_heap st1)(capsulePtr := None)\<rparr>))"

text \<open>The invariant of the capsules: the table is well formed and a capsule that has not been deleted
  has not been unwrapped.\<close>

definition capsules_own :: "('t \<Rightarrow> bool) \<Rightarrow> 't capsules \<Rightarrow> bool" where
  "capsules_own good st \<longleftrightarrow> good (c_table st) \<and> (\<forall>a c. c_heap st a = Some c \<longrightarrow> \<not> c_transferred c)"

section \<open>Laws of the clients\<close>

context handle_table
begin

lemma error_set_owner:
  assumes "inv t" "absolute_error_set destroy h ty (e, t) = (e', t')"
  shows "inv t' \<and> e_handle e' = h \<and> e_type e' = ty
    \<and> (e_handle e \<noteq> h \<longrightarrow> get t' (e_handle e) = 0)
    \<and> (\<forall>k. k \<noteq> e_handle e \<or> k = h \<longrightarrow> get t k \<noteq> 0 \<longrightarrow> get t' k = get t k)"
  using assms get_null inv_destroy destroy_expires destroy_keeps
  by (auto simp: absolute_error_set_def Let_def split: if_splits)

lemma error_report_discards:
  assumes "inv t" "absolute_error_report destroy (e, t) = (output, e', t')"
  shows "inv t' \<and> e' = no_error \<and> get t' (e_handle e) = 0
    \<and> (\<forall>k. k \<noteq> e_handle e \<longrightarrow> get t k \<noteq> 0 \<longrightarrow> get t' k = get t k)"
  using assms get_null inv_destroy destroy_expires destroy_keeps
  by (auto simp: absolute_error_report_def absolute_error_discard_def Let_def split: if_splits)

lemma capsule_create_unwrap:
  assumes I: "capsules_own inv st" and a: "address \<noteq> 0"
    and c: "absolute_capsule_create_typed transfer address h d st = Inr (p, st')"
  shows "capsules_own inv st'" "get (c_table st') h = 0"
    "\<exists>h'. absolute_capsule_unwrap p st' = Inr (h', st'\<lparr>c_heap := (c_heap st')(p := None)\<rparr>)
       \<and> get (c_table st') h' = get (c_table st) h"
proof -
  from c obtain h' t where t: "transfer h (c_table st) = Inr (h', t)" and p: "p = address"
    and st': "st' = st\<lparr>c_heap := (c_heap st)(address \<mapsto>
                \<lparr>c_handle = h', c_transferred = False, c_deleter = d\<rparr>), c_table := t\<rparr>"
    by (auto simp: absolute_capsule_create_typed_def split: sum.splits)
  have i: "inv (c_table st)" using I by (simp add: capsules_own_def)
  note m = transfer_moves [OF i t]
  show "capsules_own inv st'"
    using I inv_transfer [OF i t] by (auto simp: capsules_own_def st' split: if_splits)
  show "get (c_table st') h = 0" using m by (simp add: st')
  show "\<exists>h'. absolute_capsule_unwrap p st' = Inr (h', st'\<lparr>c_heap := (c_heap st')(p := None)\<rparr>)
       \<and> get (c_table st') h' = get (c_table st) h"
    using m a p by (auto simp: absolute_capsule_unwrap_def st')
qed

lemma unwrap_own:
  "capsules_own inv st \<Longrightarrow> absolute_capsule_unwrap p st = Inr (h, st') \<Longrightarrow> capsules_own inv st'"
  by (auto simp: capsules_own_def absolute_capsule_unwrap_def split: option.splits if_splits)

lemma unwrap_error:
  "capsules_own inv st \<Longrightarrow> absolute_capsule_unwrap p st = Inl e \<Longrightarrow> p \<noteq> 0 \<Longrightarrow> e = freed_capsule"
  by (auto simp: capsules_own_def absolute_capsule_unwrap_def split: option.splits if_splits)

lemma capsule_destroy_own:
  assumes I: "capsules_own inv st" and d: "absolute_capsule_destroy get destroy p st = Inr st'"
  shows "capsules_own inv st'"
    "c_heap st p = Some c \<Longrightarrow> p \<noteq> 0 \<Longrightarrow> get (c_table st') (c_handle c) = 0"
    "c_heap st p = Some c \<Longrightarrow> p \<noteq> 0 \<Longrightarrow> c_calls st' = c_calls st @
      (case c_deleter c of
         Some f \<Rightarrow> if get (c_table st) (c_handle c) \<noteq> 0 then [(f, get (c_table st) (c_handle c))] else []
       | None \<Rightarrow> [])"
  using I d get_null inv_destroy destroy_expires
  by (auto simp: capsules_own_def absolute_capsule_destroy_def Let_def split: option.splits if_splits)

end


section \<open>Properties on the managed-pointer table\<close>

text \<open>Raising an error hands its handle to the thread: the handle of the error that was pending
  is destroyed, unless it is the same one, every other live handle keeps its allocation, and the
  table stays well formed.\<close>

theorem error_set_replaces_pending:
  assumes "wf_table t" and "absolute_error_set absolute_managed_destroy h ty (e, t) = (e', t')"
  shows "wf_table t' \<and> e_handle e' = h \<and> e_type e' = ty
    \<and> (e_handle e \<noteq> h \<longrightarrow> \<not> absolute_managed_valid t' (e_handle e))
    \<and> (\<forall>k. k \<noteq> e_handle e \<or> k = h \<longrightarrow> absolute_managed_valid t k \<longrightarrow>
          absolute_managed_get t' k = absolute_managed_get t k)"
  using managed.error_set_owner [OF assms] by (auto simp: absolute_managed_valid_def)

theorem error_set_replaces_pending_witness:
  "\<exists>e' t'. absolute_error_set absolute_managed_destroy 5 7 (no_error, empty_table) = (e', t')
    \<and> wf_table t' \<and> e_handle e' = 5"
  using error_set_replaces_pending [OF wf_empty_table surjective_pairing, of 5 7 no_error]
  by (metis prod.collapse)

text \<open>A transfer capsule moves ownership: creating one expires the handle it was made from, and
  unwrapping it returns a handle to the same allocation and deletes the capsule.\<close>

theorem capsule_moves_ownership:
  assumes "capsules_own wf_table st" and "address \<noteq> 0"
    and "absolute_capsule_create_typed absolute_managed_transfer address h d st = Inr (p, st')"
  shows "capsules_own wf_table st' \<and> \<not> absolute_managed_valid (c_table st') h
    \<and> (\<exists>h'. absolute_capsule_unwrap p st' = Inr (h', st'\<lparr>c_heap := (c_heap st')(p := None)\<rparr>)
         \<and> absolute_managed_get (c_table st') h' = absolute_managed_get (c_table st) h)"
  using managed.capsule_create_unwrap [OF assms] by (auto simp: absolute_managed_valid_def)

definition capsules_example :: "table capsules" where
  "capsules_example = \<lparr>c_heap = (\<lambda>_. None), c_calls = [],
     c_table = snd (projr (absolute_managed_create True (\<lambda>_. 4096) 24 empty_table))\<rparr>"

lemma capsules_example_create:
  "\<not> isl (absolute_capsule_create_typed absolute_managed_transfer 256 0x100000000 None capsules_example)"
  by (simp add: capsules_example_def absolute_capsule_create_typed_def absolute_managed_transfer_def table_eval)

lemma capsules_example_own: "capsules_own wf_table capsules_example"
proof -
  have "\<not> isl (run_op (OpCreate True 4096 24) empty_table)"
    by (simp add: table_eval)
  then obtain h t where r: "run_op (OpCreate True 4096 24) empty_table = Inr (h, t)"
    by (metis prod.collapse sum.collapse(2))
  then show ?thesis
    using run_op_preserves(1) [OF wf_empty_table r] by (simp add: capsules_own_def capsules_example_def)
qed

theorem capsule_moves_ownership_witness:
  "\<exists>p st'. absolute_capsule_create_typed absolute_managed_transfer 256 0x100000000 None capsules_example = Inr (p, st')
    \<and> \<not> absolute_managed_valid (c_table st') 0x100000000"
proof -
  obtain p st' where c: "absolute_capsule_create_typed absolute_managed_transfer 256 0x100000000 None capsules_example
      = Inr (p, st')"
    using capsules_example_create by (metis prod.collapse sum.collapse(2))
  then show ?thesis
    using capsule_moves_ownership [OF capsules_example_own _ c] by auto
qed

text \<open>The diagnosis of a second unwrap never fires: while capsules are created, unwrapped and
  destroyed, no capsule that can still be read is marked as transferred, and unwrapping a capsule
  twice reads the deleted capsule instead.\<close>

theorem second_unwrap_reads_freed:
  assumes "capsules_own wf_table st" and "p \<noteq> 0" and "absolute_capsule_unwrap p st = Inr (h, st')"
  shows "absolute_capsule_unwrap p st' = Inl freed_capsule
    \<and> (\<forall>q. absolute_capsule_unwrap q st' \<noteq> Inl ''transfer capsule already unwrapped or transferred'')"
proof -
  have own: "capsules_own wf_table st'" by (rule managed.unwrap_own [OF assms(1,3)])
  have "st' = st\<lparr>c_heap := (c_heap st)(p := None)\<rparr>"
    using assms(2,3) by (auto simp: absolute_capsule_unwrap_def split: option.splits if_splits)
  then have "absolute_capsule_unwrap p st' = Inl freed_capsule"
    using assms(2) by (simp add: absolute_capsule_unwrap_def)
  moreover have "absolute_capsule_unwrap q st' \<noteq> Inl ''transfer capsule already unwrapped or transferred''" for q
    using managed.unwrap_error [OF own, of q]
    by (cases "q = 0") (auto simp: absolute_capsule_unwrap_def freed_capsule_def)
  ultimately show ?thesis by blast
qed

theorem second_unwrap_reads_freed_witness:
  "\<exists>(st' :: table capsules) h st''. absolute_capsule_unwrap 256 st' = Inr (h, st'') \<and> absolute_capsule_unwrap 256 st'' = Inl freed_capsule"
proof -
  obtain p st' where c: "absolute_capsule_create_typed absolute_managed_transfer 256 0x100000000 None capsules_example
      = Inr (p, st')"
    using capsules_example_create by (metis prod.collapse sum.collapse(2))
  then have p: "p = 256" by (auto simp: absolute_capsule_create_typed_def split: sum.splits)
  note own = managed.capsule_create_unwrap(1) [OF capsules_example_own _ c, simplified]
  obtain h st'' where u: "absolute_capsule_unwrap 256 st' = Inr (h, st'')"
    using managed.capsule_create_unwrap(3) [OF capsules_example_own _ c, simplified] p by blast
  then show ?thesis
    using second_unwrap_reads_freed [OF own _ u] by auto
qed

end
