(* ===== verification/Binary_Io.thy ===== *)
theory Binary_Io
  imports Prelude
begin

text \<open>
  The binary writer and reader of the runtime (\<open>Absolute-Runtime/src/binary.cpp\<close>).  A handle that
  may be null is an \<open>option\<close>; a buffer is a list of bytes; a \<open>float\<close> or \<open>double\<close> is its object
  representation, because the code only copies it.  \<open>memcpy\<close> of an integer yields its bytes in the
  order of the host, which is little-endian on every target of the project.  \<open>size_t\<close> positions
  are naturals: they never exceed the size of a buffer, which the invariant \<open>reader_ok\<close> states.

  The locale \<open>codec\<close> is what the round trip needs of an encoding; every fixed-width encoding of
  the code is an interpretation of it.
\<close>

section \<open>The representation of integers\<close>

definition le_bytes :: "nat \<Rightarrow> 'a::len word \<Rightarrow> u8 list" where
  "le_bytes n w = map (\<lambda>i. ucast (drop_bit (8 * i) w)) [0..<n]"

fun le_word :: "u8 list \<Rightarrow> 'a::len word" where
  "le_word [] = 0"
| "le_word (b # bs) = or (ucast b) (push_bit 8 (le_word bs))"

lemma length_le_bytes [simp]: "length (le_bytes n w) = n"
  by (simp add: le_bytes_def)

lemma le_bytes_Suc: "le_bytes (Suc n) w = ucast w # le_bytes n (drop_bit 8 w)"
  by (simp add: le_bytes_def upt_conv_Cons map_Suc_upt [symmetric] ac_simps del: upt_Suc)

lemma le_word_le_bytes: "le_word (le_bytes n w) = take_bit (8 * n) w"
proof (induction n arbitrary: w)
  case 0
  then show ?case by (simp add: le_bytes_def)
next
  case (Suc n)
  show ?case
    unfolding le_bytes_Suc le_word.simps Suc.IH
    by (rule bit_word_eqI) (auto simp: bit_simps)
qed

section \<open>The writer\<close>

type_synonym writer = "u8 list option"

definition absolute_binary_writer_create :: writer where
  "absolute_binary_writer_create = Some []"

definition absolute_binary_writer_write_byte :: "writer \<Rightarrow> u8 \<Rightarrow> writer" where
  "absolute_binary_writer_write_byte handle val = map_option (\<lambda>buffer. buffer @ [val]) handle"

definition absolute_binary_writer_write_i16 :: "writer \<Rightarrow> u16 \<Rightarrow> writer" where
  "absolute_binary_writer_write_i16 handle val = map_option (\<lambda>buffer. buffer @ le_bytes 2 val) handle"

definition absolute_binary_writer_write_i32 :: "writer \<Rightarrow> u32 \<Rightarrow> writer" where
  "absolute_binary_writer_write_i32 handle val = map_option (\<lambda>buffer. buffer @ le_bytes 4 val) handle"

definition absolute_binary_writer_write_i64 :: "writer \<Rightarrow> u64 \<Rightarrow> writer" where
  "absolute_binary_writer_write_i64 handle val = map_option (\<lambda>buffer. buffer @ le_bytes 8 val) handle"

definition absolute_binary_writer_write_float :: "writer \<Rightarrow> u32 \<Rightarrow> writer" where
  "absolute_binary_writer_write_float handle val = map_option (\<lambda>buffer. buffer @ le_bytes 4 val) handle"

definition absolute_binary_writer_write_double :: "writer \<Rightarrow> u64 \<Rightarrow> writer" where
  "absolute_binary_writer_write_double handle val = map_option (\<lambda>buffer. buffer @ le_bytes 8 val) handle"

text \<open>The length prefix is the size cast to \<open>int32_t\<close>.\<close>

definition absolute_binary_writer_write_string :: "writer \<Rightarrow> u8 list option \<Rightarrow> writer" where
  "absolute_binary_writer_write_string handle text =
    (let s = (case text of Some s \<Rightarrow> s | None \<Rightarrow> []); len = word_of_nat (length s) in
     map_option (\<lambda>buffer. buffer @ s) (absolute_binary_writer_write_i32 handle len))"

text \<open>\<open>data\<close> is the bytes from the pointer on, \<open>None\<close> for a null pointer.\<close>

definition absolute_binary_writer_write_bytes :: "writer \<Rightarrow> u8 list option \<Rightarrow> int \<Rightarrow> writer" where
  "absolute_binary_writer_write_bytes handle data bytes =
    (case (handle, data) of
       (Some buffer, Some ptr) \<Rightarrow> if bytes \<le> 0 then handle else Some (buffer @ take (nat bytes) ptr)
     | _ \<Rightarrow> handle)"

definition absolute_binary_writer_size :: "writer \<Rightarrow> int" where
  "absolute_binary_writer_size handle = (case handle of Some buffer \<Rightarrow> int (length buffer) | None \<Rightarrow> 0)"

definition hex_digit :: "nat \<Rightarrow> char" where
  "hex_digit n = char_of (if n < 10 then 48 + n else 87 + n)"

text \<open>Two lower-case digits per byte: \<open>std::hex\<close>, width 2, filled with zeros.\<close>

definition absolute_binary_writer_to_hex :: "writer \<Rightarrow> string" where
  "absolute_binary_writer_to_hex handle =
    (case handle of
       None \<Rightarrow> []
     | Some buffer \<Rightarrow> concat (map (\<lambda>b. [hex_digit (unat b div 16), hex_digit (unat b mod 16)]) buffer))"

section \<open>The reader\<close>

record reader_impl =
  r_buffer :: "u8 list"
  r_pos :: nat

type_synonym reader = "reader_impl option"

definition absolute_binary_reader_create :: "u8 list option \<Rightarrow> int \<Rightarrow> reader" where
  "absolute_binary_reader_create data bytes =
    Some \<lparr>r_buffer = (case data of Some ptr \<Rightarrow> if bytes > 0 then take (nat bytes) ptr else [] | None \<Rightarrow> []),
          r_pos = 0\<rparr>"

definition absolute_binary_reader_read_byte :: "reader \<Rightarrow> u8 \<times> reader" where
  "absolute_binary_reader_read_byte handle =
    (case handle of
       None \<Rightarrow> (0, handle)
     | Some r \<Rightarrow>
         if r_pos r \<ge> length (r_buffer r) then (0, handle)
         else (r_buffer r ! r_pos r, Some (r\<lparr>r_pos := r_pos r + 1\<rparr>)))"

text \<open>The common body of the fixed-width reads: nothing is consumed when too few bytes are left.\<close>

definition read_scalar :: "nat \<Rightarrow> reader \<Rightarrow> 'a::len word \<times> reader" where
  "read_scalar width handle =
    (case handle of
       None \<Rightarrow> (0, handle)
     | Some r \<Rightarrow>
         if r_pos r + width > length (r_buffer r) then (0, handle)
         else (le_word (take width (drop (r_pos r) (r_buffer r))), Some (r\<lparr>r_pos := r_pos r + width\<rparr>)))"

definition absolute_binary_reader_read_i16 :: "reader \<Rightarrow> u16 \<times> reader" where
  "absolute_binary_reader_read_i16 handle = read_scalar 2 handle"

definition absolute_binary_reader_read_i32 :: "reader \<Rightarrow> u32 \<times> reader" where
  "absolute_binary_reader_read_i32 handle = read_scalar 4 handle"

definition absolute_binary_reader_read_i64 :: "reader \<Rightarrow> u64 \<times> reader" where
  "absolute_binary_reader_read_i64 handle = read_scalar 8 handle"

definition absolute_binary_reader_read_float :: "reader \<Rightarrow> u32 \<times> reader" where
  "absolute_binary_reader_read_float handle = read_scalar 4 handle"

definition absolute_binary_reader_read_double :: "reader \<Rightarrow> u64 \<times> reader" where
  "absolute_binary_reader_read_double handle = read_scalar 8 handle"

text \<open>The result is read as a C string, which ends at the first zero byte.\<close>

definition c_str :: "u8 list \<Rightarrow> u8 list" where
  "c_str s = takeWhile (\<lambda>b. b \<noteq> 0) s"

definition absolute_binary_reader_read_string :: "reader \<Rightarrow> u8 list \<times> reader" where
  "absolute_binary_reader_read_string handle =
    (case handle of
       None \<Rightarrow> ([], handle)
     | Some _ \<Rightarrow>
         (case absolute_binary_reader_read_i32 handle of
            (len, None) \<Rightarrow> ([], None)
          | (len, Some r) \<Rightarrow>
              if sint len \<le> 0 \<or> r_pos r + nat (sint len) > length (r_buffer r) then ([], Some r)
              else (c_str (take (nat (sint len)) (drop (r_pos r) (r_buffer r))),
                    Some (r\<lparr>r_pos := r_pos r + nat (sint len)\<rparr>))))"

text \<open>\<open>has_dest\<close> tells whether the destination pointer is not null; the bytes copied to it come
  second.\<close>

definition absolute_binary_reader_read_bytes :: "reader \<Rightarrow> bool \<Rightarrow> int \<Rightarrow> int \<times> u8 list \<times> reader" where
  "absolute_binary_reader_read_bytes handle has_dest bytes =
    (case handle of
       None \<Rightarrow> (0, [], handle)
     | Some r \<Rightarrow>
         if \<not> has_dest \<or> bytes \<le> 0 then (0, [], handle)
         else
           let avail = int (length (r_buffer r)) - int (r_pos r) in
           if avail \<le> 0 then (0, [], handle)
           else
             let toRead = (if bytes < avail then bytes else avail) in
             (toRead, take (nat toRead) (drop (r_pos r) (r_buffer r)),
              Some (r\<lparr>r_pos := r_pos r + nat toRead\<rparr>)))"

definition absolute_binary_reader_position :: "reader \<Rightarrow> int" where
  "absolute_binary_reader_position handle = (case handle of Some r \<Rightarrow> int (r_pos r) | None \<Rightarrow> 0)"

definition absolute_binary_reader_remaining :: "reader \<Rightarrow> int" where
  "absolute_binary_reader_remaining handle =
    (case handle of
       None \<Rightarrow> 0
     | Some r \<Rightarrow> if r_pos r \<ge> length (r_buffer r) then 0 else int (length (r_buffer r) - r_pos r))"

definition absolute_binary_reader_is_eof :: "reader \<Rightarrow> bool" where
  "absolute_binary_reader_is_eof handle =
    (case handle of None \<Rightarrow> True | Some r \<Rightarrow> r_pos r \<ge> length (r_buffer r))"

definition absolute_binary_reader_seek :: "reader \<Rightarrow> int \<Rightarrow> reader" where
  "absolute_binary_reader_seek handle pos =
    (case handle of
       None \<Rightarrow> None
     | Some r \<Rightarrow>
         if pos < 0 then handle
         else
           let p = nat pos; p = (if p > length (r_buffer r) then length (r_buffer r) else p)
           in Some (r\<lparr>r_pos := p\<rparr>))"


section \<open>Encodings\<close>

text \<open>What a fixed-width encoding promises, and what reading it back after any prefix gives.\<close>

locale codec =
  fixes width :: nat
    and put :: "'v \<Rightarrow> u8 list"
    and get :: "u8 list \<Rightarrow> 'v"
  assumes put_length: "length (put v) = width"
    and get_put: "get (put v) = v"
begin

lemma put_inj: "put v = put w \<longleftrightarrow> v = w"
  by (metis get_put)

text \<open>Any sequence of values is read back by cutting the bytes into pieces of the width.\<close>

fun get_all :: "nat \<Rightarrow> u8 list \<Rightarrow> 'v list" where
  "get_all 0 bs = []"
| "get_all (Suc n) bs = get (take width bs) # get_all n (drop width bs)"

lemma get_all_put: "get_all (length vs) (concat (map put vs) @ rest) = vs"
  by (induction vs) (simp_all add: put_length get_put)

lemma read_at: "get (take width (drop (length pre) (pre @ put v @ post))) = v"
  by (simp add: put_length get_put)

end

lemma le_codec: "LENGTH('a::len) = 8 * n \<Longrightarrow> codec n (le_bytes n :: 'a word \<Rightarrow> u8 list) le_word"
  by unfold_locales (simp_all add: le_word_le_bytes take_bit_word_eq_self)

interpretation i16: codec 2 "le_bytes 2 :: u16 \<Rightarrow> u8 list" le_word
  by (rule le_codec) simp

interpretation i32: codec 4 "le_bytes 4 :: u32 \<Rightarrow> u8 list" le_word
  by (rule le_codec) simp

interpretation i64: codec 8 "le_bytes 8 :: u64 \<Rightarrow> u8 list" le_word
  by (rule le_codec) simp

section \<open>Reading back a message\<close>

text \<open>One call of the writer and the matching call of the reader.\<close>

datatype item =
  IByte u8 | II16 u16 | II32 u32 | II64 u64 | IFloat u32 | IDouble u64 | IString "u8 list"

fun write_item :: "item \<Rightarrow> writer \<Rightarrow> writer" where
  "write_item (IByte v) w = absolute_binary_writer_write_byte w v"
| "write_item (II16 v) w = absolute_binary_writer_write_i16 w v"
| "write_item (II32 v) w = absolute_binary_writer_write_i32 w v"
| "write_item (II64 v) w = absolute_binary_writer_write_i64 w v"
| "write_item (IFloat v) w = absolute_binary_writer_write_float w v"
| "write_item (IDouble v) w = absolute_binary_writer_write_double w v"
| "write_item (IString s) w = absolute_binary_writer_write_string w (Some s)"

fun read_item :: "item \<Rightarrow> reader \<Rightarrow> item \<times> reader" where
  "read_item (IByte _) r = map_prod IByte id (absolute_binary_reader_read_byte r)"
| "read_item (II16 _) r = map_prod II16 id (absolute_binary_reader_read_i16 r)"
| "read_item (II32 _) r = map_prod II32 id (absolute_binary_reader_read_i32 r)"
| "read_item (II64 _) r = map_prod II64 id (absolute_binary_reader_read_i64 r)"
| "read_item (IFloat _) r = map_prod IFloat id (absolute_binary_reader_read_float r)"
| "read_item (IDouble _) r = map_prod IDouble id (absolute_binary_reader_read_double r)"
| "read_item (IString _) r = map_prod IString id (absolute_binary_reader_read_string r)"

fun read_items :: "item list \<Rightarrow> reader \<Rightarrow> item list \<times> reader" where
  "read_items [] r = ([], r)"
| "read_items (i # is) r =
    (let (v, r') = read_item i r; (vs, r'') = read_items is r' in (v # vs, r''))"

text \<open>What an item adds to the buffer, and the strings that the format can carry.\<close>

fun item_bytes :: "item \<Rightarrow> u8 list" where
  "item_bytes (IByte v) = [v]"
| "item_bytes (II16 v) = le_bytes 2 v"
| "item_bytes (II32 v) = le_bytes 4 v"
| "item_bytes (II64 v) = le_bytes 8 v"
| "item_bytes (IFloat v) = le_bytes 4 v"
| "item_bytes (IDouble v) = le_bytes 8 v"
| "item_bytes (IString s) = le_bytes 4 (word_of_nat (length s) :: u32) @ s"

fun item_ok :: "item \<Rightarrow> bool" where
  "item_ok (IString s) = (0 \<notin> set s \<and> length s < 2 ^ 31)"
| "item_ok _ = True"

lemma write_item_bytes: "write_item i (Some b) = Some (b @ item_bytes i)"
  by (cases i)
    (simp_all add: absolute_binary_writer_write_byte_def absolute_binary_writer_write_i16_def
      absolute_binary_writer_write_i32_def absolute_binary_writer_write_i64_def
      absolute_binary_writer_write_float_def absolute_binary_writer_write_double_def
      absolute_binary_writer_write_string_def Let_def)

lemma write_items_bytes: "fold write_item is (Some b) = Some (b @ concat (map item_bytes is))"
  by (induction "is" arbitrary: b) (simp_all add: write_item_bytes)

text \<open>A reader standing before some bytes of its buffer.\<close>

definition at :: "u8 list \<Rightarrow> u8 list \<Rightarrow> reader" where
  "at pre rest = Some \<lparr>r_buffer = pre @ rest, r_pos = length pre\<rparr>"

lemma at_step: "Some \<lparr>r_buffer = pre @ bs @ rest, r_pos = length pre + length bs\<rparr> = at (pre @ bs) rest"
  by (simp add: at_def)

lemma read_scalar_at:
  assumes "length bs = n"
  shows "read_scalar n (at pre (bs @ rest)) = (le_word bs, at (pre @ bs) rest)"
  using assms by (simp add: read_scalar_def at_def)

lemma sint_length: "n < 2 ^ 31 \<Longrightarrow> sint (word_of_nat n :: u32) = int n"
  by (simp add: signed_of_nat signed_take_bit_int_eq_self)

lemma read_string_at:
  assumes "0 \<notin> set s" "length s < 2 ^ 31"
  shows "absolute_binary_reader_read_string (at pre (le_bytes 4 (word_of_nat (length s) :: u32) @ s @ rest))
    = (s, at (pre @ le_bytes 4 (word_of_nat (length s) :: u32) @ s) rest)"
proof -
  let ?l = "le_bytes 4 (word_of_nat (length s) :: u32)"
  have r: "absolute_binary_reader_read_i32 (at pre (?l @ s @ rest)) =
      (word_of_nat (length s), at (pre @ ?l) (s @ rest))"
    unfolding absolute_binary_reader_read_i32_def by (simp add: read_scalar_at i32.get_put)
  have c: "c_str s = s" using assms(1) by (auto simp: c_str_def takeWhile_eq_all_conv)
  define l where "l = ?l"
  have len: "length l = 4" by (simp add: l_def)
  have "absolute_binary_reader_read_string (at pre (l @ s @ rest)) =
    (if sint (word_of_nat (length s) :: u32) \<le> 0 then ([], at (pre @ l) (s @ rest))
     else (s, at (pre @ l @ s) rest))"
    using r [folded l_def] sint_length [OF assms(2)] c
    unfolding absolute_binary_reader_read_string_def at_def
    by (simp add: len)
  then show ?thesis using sint_length [OF assms(2)] by (simp add: l_def)
qed

lemma read_item_at:
  "item_ok i \<Longrightarrow> read_item i (at pre (item_bytes i @ rest)) = (i, at (pre @ item_bytes i) rest)"
proof (cases i)
  case (IByte v)
  then show ?thesis by (simp add: absolute_binary_reader_read_byte_def at_def)
next
  case (IString s)
  assume "item_ok i"
  then show ?thesis using IString read_string_at [of s pre rest] by simp
qed (simp_all add: absolute_binary_reader_read_i16_def absolute_binary_reader_read_i32_def
      absolute_binary_reader_read_i64_def absolute_binary_reader_read_float_def
      absolute_binary_reader_read_double_def read_scalar_at i16.get_put i32.get_put i64.get_put)

lemma read_items_at:
  "\<forall>i\<in>set is. item_ok i \<Longrightarrow>
   read_items is (at pre (concat (map item_bytes is) @ rest)) = (is, at (pre @ concat (map item_bytes is)) rest)"
  by (induction "is" arbitrary: pre) (simp_all add: read_item_at)

text \<open>C39. Whatever sequence of values is written, reading the buffer back with the matching calls
  returns the same values and ends at the end of the buffer, when every string has no zero byte and
  fewer than \<open>2 ^ 31\<close> bytes.\<close>

theorem binary_message_roundtrip:
  assumes "\<forall>i\<in>set is. item_ok i"
    and "fold write_item is absolute_binary_writer_create = Some buffer"
  shows "\<exists>r. read_items is (absolute_binary_reader_create (Some buffer) (int (length buffer))) = (is, r)
    \<and> absolute_binary_reader_is_eof r \<and> absolute_binary_reader_position r = int (length buffer)"
proof -
  have b: "buffer = concat (map item_bytes is)"
    using assms(2) write_items_bytes [of "is" "[]"] by (simp add: absolute_binary_writer_create_def)
  have "absolute_binary_reader_create (Some buffer) (int (length buffer)) = at [] (buffer @ [])"
    by (simp add: absolute_binary_reader_create_def at_def)
  then show ?thesis
    using read_items_at [OF assms(1), of "[]" "[]"]
    by (simp add: b at_def absolute_binary_reader_is_eof_def absolute_binary_reader_position_def)
qed

theorem binary_message_roundtrip_witness:
  "\<exists>buffer r. fold write_item [II32 7, IString [104, 105], IByte 255] absolute_binary_writer_create = Some buffer
    \<and> length buffer = 11
    \<and> read_items [II32 7, IString [104, 105], IByte 255] (absolute_binary_reader_create (Some buffer) 11)
       = ([II32 7, IString [104, 105], IByte 255], r)"
proof -
  let ?is = "[II32 7, IString [104, 105], IByte 255]"
  have "\<forall>i\<in>set ?is. item_ok i" by simp
  from binary_message_roundtrip [OF this, of "concat (map item_bytes ?is)"]
  show ?thesis
    using write_items_bytes [of ?is "[]"] by (auto simp: absolute_binary_writer_create_def)
qed

section \<open>Bounds\<close>

definition reader_ok :: "reader \<Rightarrow> bool" where
  "reader_ok handle = (case handle of Some r \<Rightarrow> r_pos r \<le> length (r_buffer r) | None \<Rightarrow> True)"

lemma read_scalar_ok: "reader_ok r \<Longrightarrow> reader_ok (snd (read_scalar n r))"
  by (auto simp: read_scalar_def reader_ok_def split: option.splits)

text \<open>No read and no seek takes the position past the end of the buffer, whatever the bytes are:
  a truncated scalar reads as zero and consumes nothing, and a string whose length prefix is
  negative or too long reads as empty.\<close>

theorem reader_stays_in_bounds:
  assumes "reader_ok r"
  shows "reader_ok (snd (read_item i r)) \<and> reader_ok (snd (snd (absolute_binary_reader_read_bytes r d n)))
    \<and> reader_ok (absolute_binary_reader_seek r p)
    \<and> (absolute_binary_reader_remaining r < 4 \<longrightarrow> absolute_binary_reader_read_i32 r = (0, r))"
proof -
  have s: "reader_ok (snd (absolute_binary_reader_read_string r))"
  proof -
    obtain len r' where l: "absolute_binary_reader_read_i32 r = (len, r')" by fastforce
    have "reader_ok r'"
      using read_scalar_ok [OF assms, of 4] l by (metis absolute_binary_reader_read_i32_def snd_conv)
    then show ?thesis
      using assms l
      by (cases r; cases r') (auto simp: absolute_binary_reader_read_string_def reader_ok_def)
  qed
  have "reader_ok (snd (absolute_binary_reader_read_byte r))"
    using assms by (auto simp: absolute_binary_reader_read_byte_def reader_ok_def split: option.splits)
  then have "reader_ok (snd (read_item i r))"
    using s
    by (cases i) (simp_all add: read_scalar_ok [OF assms] absolute_binary_reader_read_i16_def absolute_binary_reader_read_i32_def
      absolute_binary_reader_read_i64_def absolute_binary_reader_read_float_def
      absolute_binary_reader_read_double_def)
  moreover have "reader_ok (snd (snd (absolute_binary_reader_read_bytes r d n)))"
    using assms by (auto simp: absolute_binary_reader_read_bytes_def reader_ok_def Let_def split: option.splits)
  moreover have "reader_ok (absolute_binary_reader_seek r p)"
    using assms by (auto simp: absolute_binary_reader_seek_def reader_ok_def Let_def split: option.splits)
  moreover have "absolute_binary_reader_remaining r < 4 \<Longrightarrow> absolute_binary_reader_read_i32 r = (0, r)"
    by (auto simp: absolute_binary_reader_remaining_def absolute_binary_reader_read_i32_def read_scalar_def
        split: option.splits if_splits)
  ultimately show ?thesis by blast
qed

theorem reader_stays_in_bounds_witness:
  "reader_ok (snd (read_item (IString []) (absolute_binary_reader_create (Some [255, 255, 255, 255, 7]) 5)))"
  using reader_stays_in_bounds [of "absolute_binary_reader_create (Some [255, 255, 255, 255, 7]) 5" "IString []"]
  by (simp add: reader_ok_def absolute_binary_reader_create_def)

section \<open>Hexadecimal text\<close>

definition hex_value :: "char \<Rightarrow> nat" where
  "hex_value c = (let b = byte_of c in if b < 58 then b - 48 else b - 87)"

fun of_hex :: "string \<Rightarrow> u8 list" where
  "of_hex (a # b # s) = word_of_nat (16 * hex_value a + hex_value b) # of_hex s"
| "of_hex _ = []"

lemma hex_value_digit: "n < 16 \<Longrightarrow> hex_value (hex_digit n) = n"
  by (auto simp: hex_value_def hex_digit_def byte_of_def)

lemma of_hex_digits:
  "of_hex (concat (map (\<lambda>b. [hex_digit (unat b div 16), hex_digit (unat b mod 16)]) bs)) = bs"
proof (induction bs)
  case (Cons b bs)
  have "unat b < 256" using unsigned_less [of b, where ?'a = nat] by simp
  then have "unat b div 16 < 16" by simp
  then show ?case using Cons by (simp add: hex_value_digit)
qed simp

text \<open>The hexadecimal text of a buffer determines it: two digits per byte, high digit first.\<close>

theorem to_hex_decodes:
  "of_hex (absolute_binary_writer_to_hex (Some buffer)) = buffer
    \<and> length (absolute_binary_writer_to_hex (Some buffer)) = 2 * length buffer"
  by (simp add: absolute_binary_writer_to_hex_def of_hex_digits)
    (induction buffer; simp)

end
