(* ===== verification/Byte_Buffers.thy ===== *)
theory Byte_Buffers
  imports Prelude
begin

text \<open>
  Byte buffers (\<open>Absolute-Runtime/src/bytes.cpp\<close>): an owner of \<open>malloc\<close> storage, a wrapper of
  foreign bytes or a slice sharing the storage of another buffer.  Because slices alias their
  parent the model keeps a memory: the bytes by address, the live blocks of storage, and the
  buffer objects by handle (0 is null).  Touching memory outside the live blocks, using a deleted
  buffer and overflowing an \<open>int64_t\<close> are undefined behaviour of the C++ program: each is an error
  of its own here.  What \<open>malloc\<close> and \<open>new\<close> return is an argument.
\<close>

section \<open>State\<close>

record byte_buffer =
  bb_data :: int
  bb_capacity :: int
  bb_isOwner :: bool

record buffers =
  m_bytes :: "int \<Rightarrow> u8"
  m_blocks :: "(int \<times> int) list"
  m_bufs :: "int \<Rightarrow> byte_buffer option"

datatype ub = Bad_handle | Bad_access | Int_overflow | Bad_free

text \<open>The range \<open>[a, a + n)\<close> lies in one live block.\<close>

definition in_blocks :: "buffers \<Rightarrow> int \<Rightarrow> int \<Rightarrow> bool" where
  "in_blocks m a n \<longleftrightarrow> (\<exists>(base, len)\<in>set (m_blocks m). base \<le> a \<and> a + n \<le> base + len)"

definition in_block :: "buffers \<Rightarrow> int \<Rightarrow> bool" where
  "in_block m a \<longleftrightarrow> in_blocks m a 1"

section \<open>Operations\<close>

definition absolute_byte_buffer_create :: "int \<Rightarrow> int \<Rightarrow> int \<Rightarrow> buffers \<Rightarrow> int \<times> buffers" where
  "absolute_byte_buffer_create handle block capacity m =
    (let capacity = (if capacity \<le> 0 then 1024 else capacity);
         m1 = (if block = 0 then m
               else m\<lparr>m_blocks := (block, capacity) # m_blocks m,
                      m_bytes := (\<lambda>a. if block \<le> a \<and> a < block + capacity then 0 else m_bytes m a)\<rparr>)
     in (handle, m1\<lparr>m_bufs := (m_bufs m1)(handle \<mapsto>
            \<lparr>bb_data = block, bb_capacity = capacity, bb_isOwner = True\<rparr>)\<rparr>))"

definition absolute_byte_buffer_wrap :: "int \<Rightarrow> int \<Rightarrow> int \<Rightarrow> buffers \<Rightarrow> int \<times> buffers" where
  "absolute_byte_buffer_wrap handle data bytes m =
    (handle, m\<lparr>m_bufs := (m_bufs m)(handle \<mapsto>
        \<lparr>bb_data = data, bb_capacity = (if bytes > 0 then bytes else 0), bb_isOwner = False\<rparr>)\<rparr>)"

definition absolute_byte_buffer_free :: "int \<Rightarrow> buffers \<Rightarrow> ub + buffers" where
  "absolute_byte_buffer_free handle m =
    (if handle = 0 then Inr m
     else case m_bufs m handle of
        None \<Rightarrow> Inl Bad_handle
      | Some buf \<Rightarrow>
          if bb_isOwner buf \<and> bb_data buf \<noteq> 0 then
            (if bb_data buf \<notin> set (map fst (m_blocks m)) then Inl Bad_free
             else Inr (m\<lparr>m_blocks := filter (\<lambda>b. fst b \<noteq> bb_data buf) (m_blocks m),
                         m_bufs := (m_bufs m)(handle := None)\<rparr>))
          else Inr (m\<lparr>m_bufs := (m_bufs m)(handle := None)\<rparr>))"

text \<open>The clamping of \<open>absolute_byte_buffer_slice\<close>, in the order of the code.\<close>

definition slice_range :: "int \<Rightarrow> int \<Rightarrow> int \<Rightarrow> ub + int \<times> int" where
  "slice_range capacity offset len =
    (let offset = (if offset < 0 then 0 else offset);
         offset = (if offset > capacity then capacity else offset);
         len = (if len < 0 then 0 else len)
     in if \<not> in_i64 (offset + len) then Inl Int_overflow
        else Inr (offset, if offset + len > capacity then capacity - offset else len))"

definition absolute_byte_buffer_slice :: "int \<Rightarrow> int \<Rightarrow> int \<Rightarrow> int \<Rightarrow> buffers \<Rightarrow> ub + int \<times> buffers" where
  "absolute_byte_buffer_slice new_handle handle offset len m =
    (if handle = 0 then Inr (0, m)
     else case m_bufs m handle of
        None \<Rightarrow> Inl Bad_handle
      | Some buf \<Rightarrow>
          (case slice_range (bb_capacity buf) offset len of
             Inl e \<Rightarrow> Inl e
           | Inr (offset, len) \<Rightarrow>
               Inr (new_handle, m\<lparr>m_bufs := (m_bufs m)(new_handle \<mapsto>
                 \<lparr>bb_data = bb_data buf + offset, bb_capacity = len, bb_isOwner = False\<rparr>)\<rparr>)))"

definition absolute_byte_buffer_get_data :: "int \<Rightarrow> buffers \<Rightarrow> ub + int" where
  "absolute_byte_buffer_get_data handle m =
    (if handle = 0 then Inr 0
     else case m_bufs m handle of None \<Rightarrow> Inl Bad_handle | Some buf \<Rightarrow> Inr (bb_data buf))"

definition absolute_byte_buffer_capacity :: "int \<Rightarrow> buffers \<Rightarrow> ub + int" where
  "absolute_byte_buffer_capacity handle m =
    (if handle = 0 then Inr 0
     else case m_bufs m handle of None \<Rightarrow> Inl Bad_handle | Some buf \<Rightarrow> Inr (bb_capacity buf))"

definition absolute_byte_buffer_get_byte :: "int \<Rightarrow> int \<Rightarrow> buffers \<Rightarrow> ub + u8" where
  "absolute_byte_buffer_get_byte handle offset m =
    (if handle = 0 then Inr 0
     else case m_bufs m handle of
        None \<Rightarrow> Inl Bad_handle
      | Some buf \<Rightarrow>
          if offset < 0 \<or> offset \<ge> bb_capacity buf then Inr 0
          else if \<not> in_block m (bb_data buf + offset) then Inl Bad_access
          else Inr (m_bytes m (bb_data buf + offset)))"

definition absolute_byte_buffer_set_byte :: "int \<Rightarrow> int \<Rightarrow> u8 \<Rightarrow> buffers \<Rightarrow> ub + buffers" where
  "absolute_byte_buffer_set_byte handle offset val m =
    (if handle = 0 then Inr m
     else case m_bufs m handle of
        None \<Rightarrow> Inl Bad_handle
      | Some buf \<Rightarrow>
          if offset < 0 \<or> offset \<ge> bb_capacity buf then Inr m
          else if \<not> in_block m (bb_data buf + offset) then Inl Bad_access
          else Inr (m\<lparr>m_bytes := (m_bytes m)(bb_data buf + offset := val)\<rparr>))"

text \<open>\<open>memmove\<close> of a \<open>size_t\<close> count: a negative \<open>int64_t\<close> converts to a count of at least \<open>2 ^ 63\<close>.\<close>

definition absolute_byte_buffer_compact :: "int \<Rightarrow> int \<Rightarrow> int \<Rightarrow> buffers \<Rightarrow> ub + buffers" where
  "absolute_byte_buffer_compact handle position remaining m =
    (if handle = 0 then Inr m
     else case m_bufs m handle of
        None \<Rightarrow> Inl Bad_handle
      | Some buf \<Rightarrow>
          if position \<le> 0 \<or> remaining \<le> 0 then Inr m
          else if \<not> in_i64 (position + remaining) then Inl Int_overflow
          else
            let remaining = (if position + remaining > bb_capacity buf then bb_capacity buf - position else remaining);
                count = remaining mod 2 ^ 64; to = bb_data buf; src = bb_data buf + position
            in if count > 0 \<and> \<not> (in_blocks m to count \<and> in_blocks m src count) then Inl Bad_access
               else Inr (m\<lparr>m_bytes := (\<lambda>a. if to \<le> a \<and> a < to + count then m_bytes m (a - to + src)
                                            else m_bytes m a)\<rparr>))"


section \<open>Well-formed buffers\<close>

text \<open>A buffer is usable when its bytes are in one live block; the capacity is an \<open>int64_t\<close>.\<close>

definition buffer_ok :: "buffers \<Rightarrow> byte_buffer \<Rightarrow> bool" where
  "buffer_ok m b \<longleftrightarrow> 0 \<le> bb_capacity b \<and> in_i64 (bb_capacity b) \<and> in_blocks m (bb_data b) (bb_capacity b)"

lemma in_blocks_sub:
  "in_blocks m a n \<Longrightarrow> a \<le> b \<Longrightarrow> b + k \<le> a + n \<Longrightarrow> in_blocks m b k"
  unfolding in_blocks_def by (elim bexE, rule bexI) auto

lemma buffer_ok_access: "buffer_ok m b \<Longrightarrow> 0 \<le> i \<Longrightarrow> i < bb_capacity b \<Longrightarrow> in_block m (bb_data b + i)"
  unfolding buffer_ok_def in_block_def by (rule in_blocks_sub) auto

lemma in_blocks_fields [simp]:
  "in_blocks (m\<lparr>m_bytes := f\<rparr>) a n = in_blocks m a n"
  "in_blocks (m\<lparr>m_bufs := g\<rparr>) a n = in_blocks m a n"
  by (simp_all add: in_blocks_def)

lemma buffer_ok_fields [simp]:
  "buffer_ok (m\<lparr>m_bytes := f\<rparr>) b = buffer_ok m b"
  "buffer_ok (m\<lparr>m_bufs := g\<rparr>) b = buffer_ok m b"
  by (simp_all add: buffer_ok_def)

lemma slice_range_ok:
  assumes "slice_range c off len = Inr (o', l')" "0 \<le> c"
  shows "0 \<le> o'" "0 \<le> l'" "o' + l' \<le> c"
    "0 \<le> off \<Longrightarrow> off \<le> c \<Longrightarrow> o' = off"
    "0 \<le> off \<Longrightarrow> 0 \<le> len \<Longrightarrow> off + len \<le> c \<Longrightarrow> l' = len"
  using assms by (auto simp: slice_range_def Let_def split: if_splits)

text \<open>Slicing a usable buffer either overflows its 64-bit addition or gives a usable buffer that
  shares the bytes of its parent: a byte stored through the slice is the one read through the
  parent at the same place, and accesses inside the capacity never touch memory outside a block.\<close>

theorem slice_shares_storage:
  assumes "m_bufs m h = Some b" and "buffer_ok m b" and "h \<noteq> 0" and "h' \<noteq> 0" and "h' \<noteq> h"
    and "slice_range (bb_capacity b) off len = Inr (o', l')" and "0 \<le> i" and "i < l'"
  shows "\<exists>m1 m2. absolute_byte_buffer_slice h' h off len m = Inr (h', m1)
    \<and> (\<exists>b'. m_bufs m1 h' = Some b' \<and> bb_capacity b' = l' \<and> buffer_ok m1 b')
    \<and> absolute_byte_buffer_set_byte h' i v m1 = Inr m2
    \<and> absolute_byte_buffer_get_byte h (o' + i) m2 = Inr v
    \<and> (\<forall>j. j \<noteq> o' + i \<longrightarrow> absolute_byte_buffer_get_byte h j m2 = absolute_byte_buffer_get_byte h j m)"
proof -
  have c: "0 \<le> bb_capacity b" using assms(2) by (simp add: buffer_ok_def)
  note r = slice_range_ok [OF assms(6) c]
  let ?b = "\<lparr>bb_data = bb_data b + o', bb_capacity = l', bb_isOwner = False\<rparr>"
  let ?m1 = "m\<lparr>m_bufs := (m_bufs m)(h' \<mapsto> ?b)\<rparr>"
  let ?m2 = "?m1\<lparr>m_bytes := (m_bytes m)(bb_data b + o' + i := v)\<rparr>"
  have s: "absolute_byte_buffer_slice h' h off len m = Inr (h', ?m1)"
    using assms by (simp add: absolute_byte_buffer_slice_def)
  have ok: "buffer_ok ?m1 ?b"
    using assms(2) r(1-3) in_blocks_sub [of m "bb_data b" "bb_capacity b" "bb_data b + o'" l']
    by (auto simp: buffer_ok_def in_i64_def)
  have acc: "in_block m (bb_data b + (o' + i))"
    by (rule buffer_ok_access [OF assms(2)]) (use r assms(7,8) in auto)
  have w: "absolute_byte_buffer_set_byte h' i v ?m1 = Inr ?m2"
    using assms(4,7,8) acc
    by (simp add: absolute_byte_buffer_set_byte_def in_block_def add.assoc)
  have g: "absolute_byte_buffer_get_byte h (o' + i) ?m2 = Inr v"
    using assms(1,3,5,7,8) acc r by (simp add: absolute_byte_buffer_get_byte_def in_block_def add.assoc)
  have "absolute_byte_buffer_get_byte h j ?m2 = absolute_byte_buffer_get_byte h j m" if "j \<noteq> o' + i" for j
    using that assms(1,5) by (auto simp: absolute_byte_buffer_get_byte_def in_block_def)
  then show ?thesis using s ok w g by fastforce
qed

definition buffers_example :: buffers where
  "buffers_example = snd (absolute_byte_buffer_create 1 4096 16
     \<lparr>m_bytes = (\<lambda>_. 0), m_blocks = [], m_bufs = (\<lambda>_. None)\<rparr>)"

lemma buffers_example_ok:
  "\<exists>b. m_bufs buffers_example 1 = Some b \<and> bb_capacity b = 16 \<and> buffer_ok buffers_example b"
  by (simp add: buffers_example_def absolute_byte_buffer_create_def buffer_ok_def in_blocks_def in_i64_def)

theorem slice_shares_storage_witness:
  "\<exists>m1 m2. absolute_byte_buffer_slice 2 1 4 8 buffers_example = Inr (2, m1)
    \<and> absolute_byte_buffer_set_byte 2 3 77 m1 = Inr m2
    \<and> absolute_byte_buffer_get_byte 1 7 m2 = Inr 77"
proof -
  obtain b where b: "m_bufs buffers_example 1 = Some b" "bb_capacity b = 16" "buffer_ok buffers_example b"
    using buffers_example_ok by blast
  have r: "slice_range (bb_capacity b) 4 8 = Inr (4, 8)"
    using b(2) by (simp add: slice_range_def in_i64_def)
  show ?thesis
    using slice_shares_storage [OF b(1,3) _ _ _ r, of 2 3 77] by auto
qed

text \<open>Asking for the rest of a buffer with the largest length overflows: any slice with a
  positive offset and length \<open>INT64_MAX\<close> adds past \<open>int64_t\<close> before the clamping that is meant to
  handle it.\<close>

theorem slice_to_the_end_overflows:
  assumes "m_bufs m h = Some b" and "h \<noteq> 0" and "1 \<le> bb_capacity b" and "1 \<le> off"
  shows "absolute_byte_buffer_slice h' h off (2 ^ 63 - 1) m = Inl Int_overflow"
  using assms by (auto simp: absolute_byte_buffer_slice_def slice_range_def in_i64_def)

theorem slice_to_the_end_overflows_witness:
  "absolute_byte_buffer_slice 2 1 1 (2 ^ 63 - 1) buffers_example = Inl Int_overflow"
proof -
  obtain b where b: "m_bufs buffers_example 1 = Some b" "bb_capacity b = 16"
    using buffers_example_ok by blast
  show ?thesis using slice_to_the_end_overflows [OF b(1), of 1 2] b(2) by simp
qed

text \<open>Compacting a usable buffer whose unread part starts inside it moves those bytes to the
  front, cut at the capacity, and touches nothing else.\<close>

theorem compact_moves_to_front:
  assumes "m_bufs m h = Some b" and "buffer_ok m b" and "h \<noteq> 0"
    and "0 < pos" and "pos \<le> bb_capacity b" and "0 < rem" and "in_i64 (pos + rem)"
  shows "\<exists>m'. absolute_byte_buffer_compact h pos rem m = Inr m'
    \<and> (\<forall>i. 0 \<le> i \<and> i < min rem (bb_capacity b - pos) \<longrightarrow>
          absolute_byte_buffer_get_byte h i m' = absolute_byte_buffer_get_byte h (pos + i) m)
    \<and> (\<forall>i. i \<ge> min rem (bb_capacity b - pos) \<longrightarrow>
          absolute_byte_buffer_get_byte h i m' = absolute_byte_buffer_get_byte h i m)"
proof -
  let ?n = "min rem (bb_capacity b - pos)"
  have n: "(if pos + rem > bb_capacity b then bb_capacity b - pos else rem) = ?n" by auto
  have c: "in_i64 (bb_capacity b)" using assms(2) by (simp add: buffer_ok_def)
  have cnt: "?n mod 18446744073709551616 = ?n" using assms c by (auto simp: in_i64_def)
  have acc: "in_blocks m (bb_data b) ?n" "in_blocks m (bb_data b + pos) ?n"
    using assms(2,4,5) by (auto simp: buffer_ok_def intro: in_blocks_sub)
  let ?m = "m\<lparr>m_bytes := (\<lambda>a. if bb_data b \<le> a \<and> a < bb_data b + ?n
      then m_bytes m (a - bb_data b + (bb_data b + pos)) else m_bytes m a)\<rparr>"
  have "absolute_byte_buffer_compact h pos rem m = Inr ?m"
    using assms(1,3,4,6,7) acc
    by (simp add: absolute_byte_buffer_compact_def Let_def n cnt del: min_less_iff_conj)
  moreover have "absolute_byte_buffer_get_byte h i ?m = absolute_byte_buffer_get_byte h (pos + i) m"
    if "0 \<le> i \<and> i < ?n" for i
  proof -
    have "in_block m (bb_data b + i)" "in_block m (bb_data b + (pos + i))"
      using that assms(4,5) by (auto intro!: buffer_ok_access [OF assms(2)])
    then show ?thesis
      using that assms(1,4) by (auto simp: absolute_byte_buffer_get_byte_def in_block_def algebra_simps)
  qed
  moreover have "absolute_byte_buffer_get_byte h i ?m = absolute_byte_buffer_get_byte h i m" if "i \<ge> ?n" for i
    using that assms(1) by (auto simp: absolute_byte_buffer_get_byte_def in_block_def)
  ultimately show ?thesis by blast
qed

theorem compact_moves_to_front_witness:
  "\<exists>m'. absolute_byte_buffer_compact 1 4 100 buffers_example = Inr m'"
proof -
  obtain b where b: "m_bufs buffers_example 1 = Some b" "bb_capacity b = 16" "buffer_ok buffers_example b"
    using buffers_example_ok by blast
  show ?thesis using compact_moves_to_front [OF b(1,3), of 4 100] b(2) by (auto simp: in_i64_def)
qed

text \<open>A position past the capacity is not rejected: the count of the move becomes negative and,
  as a \<open>size_t\<close>, larger than any block, so the move leaves the storage of the buffer.\<close>

theorem compact_past_end_escapes:
  assumes "m_bufs m h = Some b" and "h \<noteq> 0" and "0 \<le> bb_capacity b" and "bb_capacity b < pos"
    and "0 < rem" and "in_i64 (pos + rem)" and "\<forall>(base, n)\<in>set (m_blocks m). n < 2 ^ 63"
  shows "absolute_byte_buffer_compact h pos rem m = Inl Bad_access"
proof -
  let ?n = "(bb_capacity b - pos) mod 2 ^ 64"
  have "?n = (bb_capacity b - pos + 2 ^ 64) mod 2 ^ 64" by simp
  also have "\<dots> = bb_capacity b - pos + 2 ^ 64"
    using assms(3-6) by (intro mod_pos_pos_trivial) (auto simp: in_i64_def)
  finally have "?n = bb_capacity b - pos + 2 ^ 64" .
  then have big: "2 ^ 63 \<le> ?n" using assms(3-6) by (auto simp: in_i64_def)
  have "\<not> in_blocks m a ?n" for a
    using assms(7) big by (fastforce simp: in_blocks_def)
  then show ?thesis
    using assms(1-6) big by (auto simp: absolute_byte_buffer_compact_def Let_def)
qed

theorem compact_past_end_escapes_witness:
  "absolute_byte_buffer_compact 1 17 1 buffers_example = Inl Bad_access"
proof -
  obtain b where b: "m_bufs buffers_example 1 = Some b" "bb_capacity b = 16"
    using buffers_example_ok by blast
  have "\<forall>(base, n)\<in>set (m_blocks buffers_example). n < 2 ^ 63"
    by (simp add: buffers_example_def absolute_byte_buffer_create_def)
  then show ?thesis
    using compact_past_end_escapes [OF b(1), of 17 1] b(2) by (simp add: in_i64_def)
qed

end
