(* ===== verification/Datetime.thy ===== *)
theory Datetime
  imports Prelude
begin

text \<open>
  Dates and times of the runtime (\<open>Absolute-Runtime/src/datetime.cpp\<close>): the conversion between days
  and civil dates, between milliseconds and broken-down times in a zone, and the ISO-8601 text of
  a time.  Signed integers are \<open>int\<close>; the casts to \<open>uint32_t\<close> and \<open>int32_t\<close> are written out.  Signed
  arithmetic is exact, which it is for the arguments the theorems speak of.  The time zone of the
  host (\<open>localtime_r\<close>) is not modelled: an offset in minutes is an argument.  An output pointer is
  a component of the result.
\<close>

definition cast_u32 :: "int \<Rightarrow> int" where
  "cast_u32 x = x mod 2 ^ 32"

definition cast_i32 :: "int \<Rightarrow> int" where
  "cast_i32 x = (x + 2 ^ 31) mod 2 ^ 32 - 2 ^ 31"

lemma cast_u32_id: "0 \<le> x \<Longrightarrow> x < 2 ^ 32 \<Longrightarrow> cast_u32 x = x"
  by (simp add: cast_u32_def)

lemma cast_i32_id: "in_i32 x \<Longrightarrow> cast_i32 x = x"
  by (simp add: cast_i32_def in_i32_def)

section \<open>Civil dates\<close>

definition CivilFromDays :: "int \<Rightarrow> int \<times> int \<times> int" where
  "CivilFromDays days =
    (let days = days + 719468;
         era = cdiv (if days \<ge> 0 then days else days - 146096) 146097;
         doe = cast_u32 (days - era * 146097);
         yoe = cast_u32 (doe - doe div 1460 + doe div 36524 - doe div 146096) div 365;
         y = yoe + era * 400;
         doy = cast_u32 (doe - (365 * yoe + yoe div 4 - yoe div 100));
         mp = (5 * doy + 2) div 153;
         day = cast_i32 (cast_u32 (doy - (153 * mp + 2) div 5 + 1));
         month = cast_i32 (if mp < 10 then mp + 3 else mp - 9);
         year = cast_i32 (y + (if month \<le> 2 then 1 else 0))
     in (year, month, day))"

definition DaysFromCivil :: "int \<Rightarrow> int \<Rightarrow> int \<Rightarrow> int" where
  "DaysFromCivil year month day =
    (let year = (if month \<le> 2 then year - 1 else year);
         era = cdiv (if year \<ge> 0 then year else year - 399) 400;
         yoe = cast_u32 (year - era * 400);
         doy = cast_u32 (cast_u32 (cdiv (153 * (if month > 2 then month - 3 else month + 9) + 2) 5)
                         + cast_u32 day - 1);
         doe = cast_u32 (yoe * 365 + yoe div 4 - yoe div 100 + doy)
     in era * 146097 + doe - 719468)"

subsection \<open>Broken-down times\<close>

record civil =
  cv_year :: int
  cv_month :: int
  cv_day :: int
  cv_hour :: int
  cv_minute :: int
  cv_second :: int
  cv_millis :: int

definition absolute_datetime_civil_from_unix_millis :: "int \<Rightarrow> int \<Rightarrow> civil" where
  "absolute_datetime_civil_from_unix_millis unixMillis offsetMinutes =
    (let adjustedMillis = unixMillis + offsetMinutes * 60000;
         seconds = cdiv adjustedMillis 1000;
         millis = cast_i32 (cmod adjustedMillis 1000);
         (millis, seconds) = (if millis < 0 then (millis + 1000, seconds - 1) else (millis, seconds));
         days = cdiv seconds 86400;
         secsOfDay = cast_i32 (cmod seconds 86400);
         (secsOfDay, days) = (if secsOfDay < 0 then (secsOfDay + 86400, days - 1) else (secsOfDay, days));
         (year, month, day) = CivilFromDays days
     in \<lparr>cv_year = year, cv_month = month, cv_day = day, cv_hour = cdiv secsOfDay 3600,
         cv_minute = cdiv (cmod secsOfDay 3600) 60, cv_second = cmod secsOfDay 60, cv_millis = millis\<rparr>)"

definition absolute_datetime_civil_to_unix_millis :: "civil \<Rightarrow> int \<Rightarrow> int" where
  "absolute_datetime_civil_to_unix_millis c offsetMinutes =
    (let days = DaysFromCivil (cv_year c) (cv_month c) (cv_day c);
         seconds = days * 86400 + cv_hour c * 3600 + cv_minute c * 60 + cv_second c
     in seconds * 1000 + cv_millis c - offsetMinutes * 60000)"

section \<open>ISO-8601 text\<close>

text \<open>\<open>%0<w>d\<close>: the sign counts in the width.\<close>

definition zeros :: "nat \<Rightarrow> string \<Rightarrow> string" where
  "zeros w s = replicate (w - length s) CHR ''0'' @ s"

definition fmt_d :: "nat \<Rightarrow> int \<Rightarrow> string" where
  "fmt_d w v = (if v < 0 then CHR ''-'' # zeros (w - 1) (to_string (nat (- v)))
                else zeros w (to_string (nat v)))"

definition year_text :: "int \<Rightarrow> string" where
  "year_text year = (if year < 0 then CHR ''-'' # fmt_d 4 (- year) else fmt_d 4 year)"

definition zone_text :: "int \<Rightarrow> string" where
  "zone_text offsetMinutes =
    (if offsetMinutes = 0 then ''Z''
     else let absOff = (if offsetMinutes \<ge> 0 then offsetMinutes else - offsetMinutes) in
       (if offsetMinutes \<ge> 0 then CHR ''+'' else CHR ''-'') # fmt_d 2 (cdiv absOff 60) @ '':''
         @ fmt_d 2 (cmod absOff 60))"

definition absolute_datetime_format_iso :: "civil \<Rightarrow> int \<Rightarrow> string" where
  "absolute_datetime_format_iso c offsetMinutes =
    (let date = year_text (cv_year c) @ ''-'' @ fmt_d 2 (cv_month c) @ ''-'' @ fmt_d 2 (cv_day c);
         time = ''T'' @ fmt_d 2 (cv_hour c) @ '':'' @ fmt_d 2 (cv_minute c) @ '':'' @ fmt_d 2 (cv_second c)
     in if cv_millis c > 0 then date @ time @ ''.'' @ fmt_d 3 (cv_millis c) @ zone_text offsetMinutes
        else date @ time @ zone_text offsetMinutes)"

definition absolute_datetime_local_zone_name :: "int \<Rightarrow> string" where
  "absolute_datetime_local_zone_name offset =
    (let absOff = (if offset \<ge> 0 then offset else - offset) in
     (if offset \<ge> 0 then ''+'' else ''-'') @ fmt_d 2 (cdiv absOff 60) @ '':'' @ fmt_d 2 (cmod absOff 60))"

subsection \<open>Reading it back\<close>

text \<open>A cursor is the text from it on; at the end it stands on the terminating zero.\<close>

definition peek :: "string \<Rightarrow> char" where
  "peek s = (case s of [] \<Rightarrow> char_of (0::nat) | c # _ \<Rightarrow> c)"

fun year_digits :: "string \<Rightarrow> int \<Rightarrow> nat \<Rightarrow> (int \<times> nat \<times> string) option" where
  "year_digits [] result digits = Some (result, digits, [])"
| "year_digits (c # s) result digits =
    (if isdigit c then
       if result > 100000000 then None
       else year_digits s (result * 10 + int (digit_value c)) (digits + 1)
     else Some (result, digits, c # s))"

definition ReadYearDigits :: "string \<Rightarrow> (int \<times> string) option" where
  "ReadYearDigits cursor =
    (case year_digits cursor 0 0 of
       None \<Rightarrow> None
     | Some (result, digits, rest) \<Rightarrow> if digits < 4 then None else Some (cast_i32 result, rest))"

fun fixed_digits :: "nat \<Rightarrow> string \<Rightarrow> int \<Rightarrow> (int \<times> string) option" where
  "fixed_digits 0 cursor result = Some (result, cursor)"
| "fixed_digits (Suc n) cursor result =
    (case cursor of
       [] \<Rightarrow> None
     | c # s \<Rightarrow> if isdigit c then fixed_digits n s (result * 10 + int (digit_value c)) else None)"

definition ReadFixedDigits :: "string \<Rightarrow> nat \<Rightarrow> (int \<times> string) option" where
  "ReadFixedDigits cursor count = fixed_digits count cursor 0"

text \<open>A separator followed by digits, as the conditions of the code chain them.\<close>

definition sep_digits :: "char \<Rightarrow> string \<Rightarrow> nat \<Rightarrow> (int \<times> string) option" where
  "sep_digits c cursor count = (if peek cursor = c then ReadFixedDigits (tl cursor) count else None)"

fun fraction_digits :: "string \<Rightarrow> int \<Rightarrow> nat \<Rightarrow> int \<times> nat \<times> string" where
  "fraction_digits [] millis digits = (millis, digits, [])"
| "fraction_digits (c # s) millis digits =
    (if isdigit c then
       fraction_digits s (if digits < 3 then millis * 10 + int (digit_value c) else millis) (digits + 1)
     else (millis, digits, c # s))"

definition read_fraction :: "string \<Rightarrow> string + int \<times> string" where
  "read_fraction cursor =
    (if peek cursor = CHR ''.'' \<or> peek cursor = CHR '','' then
       (let cursor = tl cursor in
        if \<not> isdigit (peek cursor) then Inl ''Invalid ISO-8601 fractional second''
        else case fraction_digits cursor 0 0 of
          (millis, digits, rest) \<Rightarrow> Inr (millis * 10 ^ (3 - digits), rest))
     else Inr (0, cursor))"

definition read_zone :: "string \<Rightarrow> string + int \<times> string" where
  "read_zone cursor =
    (if peek cursor = CHR ''Z'' \<or> peek cursor = CHR ''z'' then Inr (0, tl cursor)
     else if peek cursor = CHR ''+'' \<or> peek cursor = CHR ''-'' then
       (let sign = (if peek cursor = CHR ''-'' then -1 else 1) in
        case ReadFixedDigits (tl cursor) 2 of
          None \<Rightarrow> Inl ''Invalid ISO-8601 zone offset''
        | Some (offsetHours, cursor) \<Rightarrow>
            let cursor = (if peek cursor = CHR '':'' then tl cursor else cursor) in
            case (if isdigit (peek cursor) then ReadFixedDigits cursor 2 else Some (0, cursor)) of
              None \<Rightarrow> Inl ''Invalid ISO-8601 zone offset''
            | Some (offsetMins, cursor) \<Rightarrow>
                if offsetHours > 23 \<or> offsetMins > 59 then Inl ''Zone offset out of range''
                else Inr (sign * (offsetHours * 60 + offsetMins), cursor))
     else Inr (0, cursor))"

definition read_time :: "string \<Rightarrow> string + (int \<times> int \<times> int \<times> int \<times> int) \<times> string" where
  "read_time cursor =
    (if peek cursor = CHR ''T'' \<or> peek cursor = CHR ''t'' \<or> peek cursor = CHR '' '' then
       (case ReadFixedDigits (tl cursor) 2 of
          None \<Rightarrow> Inl ''Invalid ISO-8601 time''
        | Some (hour, cursor) \<Rightarrow>
       (case sep_digits CHR '':'' cursor 2 of
          None \<Rightarrow> Inl ''Invalid ISO-8601 time''
        | Some (minute, cursor) \<Rightarrow>
       (case (if peek cursor = CHR '':'' then ReadFixedDigits (tl cursor) 2 else Some (0, cursor)) of
          None \<Rightarrow> Inl ''Invalid ISO-8601 time''
        | Some (second, cursor) \<Rightarrow>
       (case read_fraction cursor of
          Inl e \<Rightarrow> Inl e
        | Inr (millis, cursor) \<Rightarrow>
       (case read_zone cursor of
          Inl e \<Rightarrow> Inl e
        | Inr (offset, cursor) \<Rightarrow> Inr ((hour, minute, second, millis, offset), cursor))))))
     else Inr ((0, 0, 0, 0, 0), cursor))"

definition absolute_datetime_parse_iso :: "string option \<Rightarrow> string + civil \<times> int" where
  "absolute_datetime_parse_iso text =
    (case text of
       None \<Rightarrow> Inl ''Empty ISO-8601 text''
     | Some cursor \<Rightarrow>
    (if cursor = [] then Inl ''Empty ISO-8601 text'' else
     let signed = (peek cursor = CHR ''-'' \<or> peek cursor = CHR ''+'');
         yearSign = (if peek cursor = CHR ''-'' then -1 else 1);
         cursor = (if signed then tl cursor else cursor)
     in case ReadYearDigits cursor of
       None \<Rightarrow> Inl ''Invalid ISO-8601 format''
     | Some (year, cursor) \<Rightarrow>
    (case sep_digits CHR ''-'' cursor 2 of
       None \<Rightarrow> Inl ''Invalid ISO-8601 format''
     | Some (month, cursor) \<Rightarrow>
    (case sep_digits CHR ''-'' cursor 2 of
       None \<Rightarrow> Inl ''Invalid ISO-8601 format''
     | Some (day, cursor) \<Rightarrow>
    (case read_time cursor of
       Inl e \<Rightarrow> Inl e
     | Inr ((hour, minute, second, millis, offset), cursor) \<Rightarrow>
         if dropWhile (\<lambda>c. c \<in> set [CHR '' '', char_of (9::nat), char_of (13::nat), char_of (10::nat)]) cursor \<noteq> []
         then Inl ''Trailing text after ISO-8601 value''
         else Inr (\<lparr>cv_year = year * yearSign, cv_month = month, cv_day = day, cv_hour = hour,
                    cv_minute = minute, cv_second = second, cv_millis = millis\<rparr>, offset))))))"


section \<open>The calendar\<close>

text \<open>The Gregorian calendar, as the specification of \<open>CivilFromDays\<close>: the length of every month and
  the day after each date.\<close>

definition leap :: "int \<Rightarrow> bool" where
  "leap y \<longleftrightarrow> y mod 4 = 0 \<and> (y mod 100 \<noteq> 0 \<or> y mod 400 = 0)"

definition days_in_month :: "int \<Rightarrow> int \<Rightarrow> int" where
  "days_in_month y m =
    (if m = 2 then if leap y then 29 else 28
     else if m = 4 \<or> m = 6 \<or> m = 9 \<or> m = 11 then 30 else 31)"

definition valid_date :: "int \<times> int \<times> int \<Rightarrow> bool" where
  "valid_date = (\<lambda>(y, m, d). 1 \<le> m \<and> m \<le> 12 \<and> 1 \<le> d \<and> d \<le> days_in_month y m)"

definition next_date :: "int \<times> int \<times> int \<Rightarrow> int \<times> int \<times> int" where
  "next_date = (\<lambda>(y, m, d).
    if d < days_in_month y m then (y, m, d + 1)
    else if m < 12 then (y, m + 1, 1) else (y + 1, 1, 1))"

text \<open>Years of an era that start in March: \<open>year_start\<close> is the day of the era on which year \<open>y\<close>
  begins, \<open>year_of\<close> the year of a day, as the code computes them.\<close>

definition year_start :: "int \<Rightarrow> int" where
  "year_start y = 365 * y + y div 4 - y div 100"

definition year_of :: "int \<Rightarrow> int" where
  "year_of doe = (doe - doe div 1460 + doe div 36524 - doe div 146096) div 365"

text \<open>A day of the era by century, four-year cycle, year and day of the year; only the last year of a
  cycle can have a day 365, and of the last cycle only in the last century.\<close>

definition parts_ok :: "int \<Rightarrow> int \<Rightarrow> int \<Rightarrow> int \<Rightarrow> bool" where
  "parts_ok c q k d \<longleftrightarrow> 0 \<le> c \<and> c \<le> 3 \<and> 0 \<le> q \<and> q \<le> 24 \<and> 0 \<le> k \<and> k \<le> 3 \<and> 0 \<le> d \<and> d \<le> 365
    \<and> (d = 365 \<longrightarrow> k = 3 \<and> (q = 24 \<longrightarrow> c = 3))"

lemma year_start_parts:
  assumes "parts_ok c q k d"
  shows "year_start (100 * c + 4 * q + k) = 36524 * c + 1461 * q + 365 * k"
proof -
  have "(100 * c + 4 * q + k) div 4 = 25 * c + q"
    by (rule int_div_pos_eq [of _ _ _ k]) (use assms in \<open>auto simp: parts_ok_def\<close>)
  moreover have "(100 * c + 4 * q + k) div 100 = c"
    by (rule int_div_pos_eq [of _ _ _ "4 * q + k"]) (use assms in \<open>auto simp: parts_ok_def\<close>)
  ultimately show ?thesis by (simp add: year_start_def)
qed

lemma year_of_parts:
  assumes ok: "parts_ok c q k d" and doe: "doe = 36524 * c + 1461 * q + 365 * k + d"
  shows "year_of doe = 100 * c + 4 * q + k"
proof -
  define e where "e = (if 24 * c + q + 365 * k + d \<ge> 1460 then 1 else 0 :: int)"
  have b: "0 \<le> c" "c \<le> 3" "0 \<le> q" "q \<le> 24" "0 \<le> k" "k \<le> 3" "0 \<le> d" "d \<le> 365"
    "d = 365 \<Longrightarrow> k = 3" "d = 365 \<Longrightarrow> q = 24 \<Longrightarrow> c = 3"
    using ok by (auto simp: parts_ok_def)
  have d1: "doe div 1460 = 25 * c + q + e"
    by (rule int_div_pos_eq [of _ _ _ "24 * c + q + 365 * k + d - 1460 * e"])
      (use b in \<open>auto simp: doe e_def\<close>)
  define f where "f = (if c = 3 \<and> q = 24 \<and> k = 3 \<and> d = 365 then 1 else 0 :: int)"
  have d2: "doe div 36524 = c + f"
  proof (rule int_div_pos_eq [of _ _ _ "1461 * q + 365 * k + d - 36524 * f"])
    have "1461 * q + 365 * k + d < 36524" if "f = 0"
      using that b unfolding f_def by (cases "q = 24"; cases "d = 365"; auto split: if_splits)
    then show "1461 * q + 365 * k + d - 36524 * f < 36524"
      by (auto simp: f_def split: if_splits)
  qed (use b in \<open>auto simp: doe f_def\<close>)
  have d3: "doe div 146096 = f"
  proof (rule int_div_pos_eq [of _ _ _ "doe - 146096 * f"])
    show "doe - 146096 * f < 146096"
      using b by (cases "c = 3 \<and> q = 24 \<and> k = 3") (auto simp: doe f_def)
  qed (use b in \<open>auto simp: doe f_def\<close>)
  have "year_of doe = (36500 * c + 1460 * q + 365 * k + d - e) div 365"
    by (simp only: year_of_def d1 d2 d3) (simp add: doe algebra_simps)
  also have "\<dots> = 100 * c + 4 * q + k"
  proof (rule int_div_pos_eq [of _ _ _ "d - e"])
    show "0 \<le> d - e" using b by (auto simp: e_def)
    show "d - e < 365" using b by (cases "d = 365") (auto simp: e_def)
  qed auto
  finally show ?thesis .
qed

lemma div_bounds: "0 < (b::int) \<Longrightarrow> b * (a div b) \<le> a \<and> a < b * (a div b) + b"
  using pos_mod_sign [of b a] pos_mod_bound [of b a] mult_div_mod_eq [of b a] by linarith

lemma parts_exist:
  assumes "0 \<le> doe" "doe \<le> 146096"
  obtains c q k d where "parts_ok c q k d" "doe = 36524 * c + 1461 * q + 365 * k + d"
proof -
  define c where "c = min 3 (doe div 36524)"
  define r where "r = doe - 36524 * c"
  define q where "q = r div 1461"
  define s where "s = r - 1461 * q"
  define k where "k = min 3 (s div 365)"
  have c: "0 \<le> c" "c \<le> 3" "0 \<le> r" "r \<le> 36524" "c < 3 \<Longrightarrow> r < 36524"
    using assms div_bounds [of 36524 doe] unfolding r_def c_def by (auto simp: min_def)
  have q: "0 \<le> q" "q \<le> 24" "0 \<le> s" "s \<le> 1460" "q = 24 \<Longrightarrow> c < 3 \<Longrightarrow> s < 1460"
    using c div_bounds [of 1461 r] unfolding s_def q_def [symmetric] by auto
  have k: "0 \<le> k" "k \<le> 3" "0 \<le> s - 365 * k" "s - 365 * k \<le> 365" "s - 365 * k = 365 \<Longrightarrow> k = 3 \<and> s = 1460"
    using q div_bounds [of 365 s] unfolding k_def by (auto simp: min_def split: if_splits)
  have "parts_ok c q k (s - 365 * k)"
  proof (cases "c = 3")
    case False
    then have "c < 3" using c(2) by simp
    then show ?thesis using c q k unfolding parts_ok_def by auto
  qed (use c q k in \<open>auto simp: parts_ok_def\<close>)
  moreover have "doe = 36524 * c + 1461 * q + 365 * k + (s - 365 * k)"
    by (simp add: r_def s_def)
  ultimately show thesis by (rule that)
qed


text \<open>Months from March on: month \<open>mp\<close> starts on day \<open>month_start mp\<close> of the year.\<close>

definition month_start :: "int \<Rightarrow> int" where
  "month_start mp = (153 * mp + 2) div 5"

lemma month_of_day:
  assumes "0 \<le> d" "d \<le> 365"
  defines "mp \<equiv> (5 * d + 2) div 153"
  shows "0 \<le> mp" "mp \<le> 11" "month_start mp \<le> d" "d - month_start mp \<le> 30" "0 \<le> month_start mp"
proof -
  have b: "153 * mp \<le> 5 * d + 2" "5 * d + 2 < 153 * mp + 153"
    using div_bounds [of 153 "5 * d + 2"] unfolding mp_def by auto
  have m: "5 * month_start mp \<le> 153 * mp + 2" "153 * mp + 2 < 5 * month_start mp + 5"
    using div_bounds [of 5 "153 * mp + 2"] unfolding month_start_def by auto
  show "0 \<le> mp" "mp \<le> 11" using b assms by linarith+
  then show "month_start mp \<le> d" "d - month_start mp \<le> 30" "0 \<le> month_start mp"
    using b m by linarith+
qed

lemma twelve_months: "0 \<le> (mp::int) \<Longrightarrow> mp \<le> 11 \<Longrightarrow> mp = 0 \<or> mp = 1 \<or> mp = 2 \<or> mp = 3 \<or> mp = 4
    \<or> mp = 5 \<or> mp = 6 \<or> mp = 7 \<or> mp = 8 \<or> mp = 9 \<or> mp = 10 \<or> mp = 11"
  by presburger

lemma day_of_month:
  assumes mp: "0 \<le> mp" "mp \<le> 11" and e: "0 \<le> e" "e < month_start (mp + 1) - month_start mp"
  shows "(5 * (month_start mp + e) + 2) div 153 = mp" "month_start mp + e \<le> 366"
  using twelve_months [OF mp] e by (auto simp: month_start_def)

lemma cdiv_floor: "0 < b \<Longrightarrow> cdiv (if a \<ge> 0 then a else a - (b - 1)) b = a div b"
proof -
  assume b: "0 < b"
  show ?thesis
  proof (cases "a \<ge> 0")
    case True
    then show ?thesis using b by (simp add: cdiv_nonneg)
  next
    case False
    have "- ((b - 1 - a) div b) = a div b"
    proof -
      have "(b - 1 - a) div b = - (a div b)"
        by (rule int_div_pos_eq [of _ _ _ "b - 1 - a mod b"])
          (use b mult_div_mod_eq [of b a] pos_mod_bound [OF b, of a] pos_mod_sign [OF b, of a] in \<open>auto simp: algebra_simps\<close>)
      then show ?thesis by simp
    qed
    then show ?thesis using False b by (auto simp: cdiv_def)
  qed
qed

lemma CivilFromDays_parts:
  assumes ok: "parts_ok c q k d"
    and y: "y = 400 * era + 100 * c + 4 * q + k" "in_i32 y" "in_i32 (y + 1)"
    and days: "days = era * 146097 + (36524 * c + 1461 * q + 365 * k + d) - 719468"
    and mp: "mp = (5 * d + 2) div 153"
  shows "CivilFromDays days =
    (y + (if mp < 10 then 0 else 1), if mp < 10 then mp + 3 else mp - 9, d - month_start mp + 1)"
proof -
  have b: "0 \<le> c" "c \<le> 3" "0 \<le> q" "q \<le> 24" "0 \<le> k" "k \<le> 3" "0 \<le> d" "d \<le> 365"
    "d = 365 \<Longrightarrow> k = 3" "d = 365 \<Longrightarrow> q = 24 \<Longrightarrow> c = 3"
    using ok by (auto simp: parts_ok_def)
  let ?doe = "36524 * c + 1461 * q + 365 * k + d" and ?yoe = "100 * c + 4 * q + k"
  have doe: "0 \<le> ?doe" "?doe \<le> 146096" using b by auto
  have era: "cdiv (if days + 719468 \<ge> 0 then days + 719468 else days + 719468 - 146096) 146097 = era"
  proof -
    have "(days + 719468) div 146097 = era"
      by (rule int_div_pos_eq [of _ _ _ ?doe]) (use doe in \<open>auto simp: days\<close>)
    moreover have "146096 = (146097 - 1 :: int)" by simp
    ultimately show ?thesis using cdiv_floor [of 146097 "days + 719468"] by (simp only: zero_less_numeral)
  qed
  have c1: "cast_u32 (days + 719468 - era * 146097) = ?doe"
    using doe by (simp add: days cast_u32_id)
  have "year_of ?doe = ?yoe" by (rule year_of_parts [OF ok refl])
  moreover have "0 \<le> ?doe - ?doe div 1460 + ?doe div 36524 - ?doe div 146096"
    "?doe - ?doe div 1460 + ?doe div 36524 - ?doe div 146096 < 4294967296"
    using doe div_bounds [of 1460 ?doe] div_bounds [of 36524 ?doe] div_bounds [of 146096 ?doe] by linarith+
  ultimately have c2: "cast_u32 (?doe - ?doe div 1460 + ?doe div 36524 - ?doe div 146096) div 365 = ?yoe"
    by (simp add: cast_u32_id year_of_def)
  have c3: "cast_u32 (?doe - (365 * ?yoe + ?yoe div 4 - ?yoe div 100)) = d"
    using year_start_parts [OF ok] b(7,8) by (simp add: year_start_def cast_u32_id)
  note m = month_of_day [OF b(7,8), folded mp]
  have c4: "cast_i32 (cast_u32 (d - (153 * mp + 2) div 5 + 1)) = d - month_start mp + 1"
    using m b(7,8) by (simp add: month_start_def cast_u32_id cast_i32_id in_i32_def)
  have c5: "cast_i32 (if mp < 10 then mp + 3 else mp - 9) = (if mp < 10 then mp + 3 else mp - 9)"
    using m by (auto simp: in_i32_def intro: cast_i32_id)
  have c6: "(if mp < 10 then mp + 3 else mp - 9) \<le> 2 \<longleftrightarrow> \<not> mp < 10" using m by auto
  have c7: "cast_i32 (?yoe + era * 400 + (if \<not> mp < 10 then 1 else 0)) = y + (if mp < 10 then 0 else 1)"
    using y by (auto simp: cast_i32_id algebra_simps)
  show ?thesis
    unfolding CivilFromDays_def Let_def era c1 c2 c3 mp [symmetric] c4 c5 c6 c7 by simp
qed

text \<open>The number of the first of March of year \<open>y\<close>, counted from that of year 0.\<close>

definition year_days :: "int \<Rightarrow> int" where
  "year_days y = 365 * y + y div 4 - y div 100 + y div 400"

lemma year_days_era: "0 \<le> z \<Longrightarrow> z < 400 \<Longrightarrow> year_days (400 * e + z) = 146097 * e + year_start z"
proof -
  assume z: "0 \<le> z" "z < 400"
  have "(400 * e + z) div 4 = 100 * e + z div 4"
    by (rule int_div_pos_eq [of _ _ _ "z mod 4"]) (use mult_div_mod_eq [of 4 z] in \<open>auto simp: algebra_simps\<close>)
  moreover have "(400 * e + z) div 100 = 4 * e + z div 100"
    by (rule int_div_pos_eq [of _ _ _ "z mod 100"]) (use mult_div_mod_eq [of 100 z] in \<open>auto simp: algebra_simps\<close>)
  moreover have "(400 * e + z) div 400 = e"
    by (rule int_div_pos_eq [of _ _ _ z]) (use z in auto)
  ultimately show ?thesis by (simp add: year_days_def year_start_def)
qed

lemma div_step: "0 < n \<Longrightarrow> y div n - (y - 1) div n = (if y mod n = 0 then 1 else 0 :: int)"
proof -
  assume n: "0 < n"
  have y: "n * (y div n) + y mod n = y" "0 \<le> y mod n" "y mod n < n" using n by auto
  show ?thesis
  proof (cases "y mod n = 0")
    case True
    have "y - 1 = n * (y div n - 1) + (n - 1)"
      using y(1) True by (simp only: right_diff_distrib mult_1_right)
    then have "(y - 1) div n = y div n - 1"
      by (rule int_div_pos_eq) (use n in simp_all)
    then show ?thesis using True by simp
  next
    case False
    have "y - 1 = n * (y div n) + (y mod n - 1)" using y(1) by simp
    then have "(y - 1) div n = y div n"
      by (rule int_div_pos_eq) (use y False in linarith)+
    then show ?thesis using False by simp
  qed
qed

lemma four_era: "(4::int) dvd 400" and hundred_era: "(100::int) dvd 400" by simp_all

lemma regroup:
  "365 * y + a - b + c - (365 * (y - 1) + a' - b' + c') = 365 + (a - a') - (b - b') + (c - c' :: int)"
  by simp

lemma year_days_step: "year_days y - year_days (y - 1) = (if leap y then 366 else 365)"
proof -
  have f: "(4::int) dvd 100" by simp
  have m: "y mod 400 = 0 \<Longrightarrow> y mod 100 = 0" "y mod 100 = 0 \<Longrightarrow> y mod 4 = 0"
    by (simp_all only: mod_eq_0_iff_dvd) (erule dvd_trans [OF hundred_era], erule dvd_trans [OF f])
  have "year_days y - year_days (y - 1) = 365 + (y div 4 - (y - 1) div 4)
      - (y div 100 - (y - 1) div 100) + (y div 400 - (y - 1) div 400)"
    unfolding year_days_def by (rule regroup)
  also have "\<dots> = 365 + (if y mod 4 = 0 then 1 else 0) - (if y mod 100 = 0 then 1 else 0)
      + (if y mod 400 = 0 then 1 else 0)"
    by (simp only: div_step zero_less_numeral)
  also have "\<dots> = (if leap y then 366 else 365)"
    using m unfolding leap_def by (cases "y mod 4 = 0"; cases "y mod 100 = 0"; cases "y mod 400 = 0"; simp only: simp_thms if_True if_False)
  finally show ?thesis .
qed

text \<open>The number of a date, in terms of \<open>year_days\<close> and \<open>month_start\<close>.\<close>

definition march_year :: "int \<Rightarrow> int \<Rightarrow> int" where
  "march_year y m = (if m \<le> 2 then y - 1 else y)"

definition march_month :: "int \<Rightarrow> int" where
  "march_month m = (if m > 2 then m - 3 else m + 9)"

lemma year_start_bounds: "0 \<le> z \<Longrightarrow> z < 400 \<Longrightarrow> 0 \<le> year_start z \<and> year_start z \<le> 146000"
proof -
  assume z: "0 \<le> z" "z < 400"
  show ?thesis
    using z div_bounds [of 4 z] div_bounds [of 100 z] unfolding year_start_def by linarith
qed

lemma month_start_bounds: "0 \<le> mp \<Longrightarrow> mp \<le> 11 \<Longrightarrow> 0 \<le> month_start mp \<and> month_start mp \<le> 337"
  using div_bounds [of 5 "153 * mp + 2"] unfolding month_start_def by linarith

lemma DaysFromCivil_days:
  assumes m: "1 \<le> m" "m \<le> 12" and d: "1 \<le> d" "d \<le> 31"
  shows "DaysFromCivil y m d = year_days (march_year y m) + month_start (march_month m) + d - 1 - 719468"
proof -
  let ?y = "march_year y m" and ?mp = "march_month m"
  have mp: "0 \<le> ?mp" "?mp \<le> 11" using m by (auto simp: march_month_def)
  note ms = month_start_bounds [OF mp]
  have era: "cdiv (if ?y \<ge> 0 then ?y else ?y - 399) 400 = ?y div 400"
  proof -
    have "399 = (400 - 1 :: int)" by simp
    then show ?thesis using cdiv_floor [of 400 ?y] by (simp only: zero_less_numeral)
  qed
  have y: "?y - ?y div 400 * 400 = ?y mod 400" by (simp add: minus_div_mult_eq_mod)
  have z: "0 \<le> ?y mod 400" "?y mod 400 < 400" by auto
  note ys = year_start_bounds [OF z]
  have c0: "cast_u32 (?y mod 400) = ?y mod 400" using z by (simp add: cast_u32_id)
  have "cdiv (153 * ?mp + 2) 5 = month_start ?mp" using mp by (simp add: cdiv_nonneg month_start_def)
  then have c1: "cast_u32 (cast_u32 (cdiv (153 * ?mp + 2) 5) + cast_u32 d - 1) = month_start ?mp + d - 1"
    using ms d by (simp add: cast_u32_id)
  have c2: "cast_u32 (year_start (?y mod 400) + (month_start ?mp + d - 1)) = year_start (?y mod 400) + (month_start ?mp + d - 1)"
    using ys ms d by (simp add: cast_u32_id)
  have "year_days ?y = 146097 * (?y div 400) + year_start (?y mod 400)"
    using year_days_era [OF z, of "?y div 400"] by simp
  then show ?thesis
    unfolding DaysFromCivil_def Let_def march_year_def [symmetric] march_month_def [symmetric] era y c0 c1
    using c2 by (simp add: year_start_def algebra_simps)
qed

lemma valid_date_parts:
  assumes v: "valid_date (y, m, d)"
  shows "1 \<le> m" "m \<le> 12" "1 \<le> d" "d \<le> 31" "0 \<le> march_month m" "march_month m \<le> 11"
    "m \<noteq> 2 \<Longrightarrow> d - 1 < month_start (march_month m + 1) - month_start (march_month m)"
    "m = 2 \<Longrightarrow> d \<le> (if leap y then 29 else 28)"
proof -
  show m: "1 \<le> m" "m \<le> 12" "1 \<le> d" "d \<le> 31"
    using v by (auto simp: valid_date_def days_in_month_def split: if_splits)
  then show "0 \<le> march_month m" "march_month m \<le> 11" by (auto simp: march_month_def)
  have "m = 1 \<or> m = 2 \<or> m = 3 \<or> m = 4 \<or> m = 5 \<or> m = 6 \<or> m = 7 \<or> m = 8 \<or> m = 9 \<or> m = 10 \<or> m = 11 \<or> m = 12"
    using m(1,2) by presburger
  then show "m \<noteq> 2 \<Longrightarrow> d - 1 < month_start (march_month m + 1) - month_start (march_month m)"
    using v by (auto simp: valid_date_def days_in_month_def march_month_def month_start_def)
  show "m = 2 \<Longrightarrow> d \<le> (if leap y then 29 else 28)"
    using v by (auto simp: valid_date_def days_in_month_def)
qed

lemma mod_era_step: "n dvd 400 \<Longrightarrow> (z mod 400 + 1) mod n = (z + 1) mod (n::int)"
  by (rule mod_add_cong) (simp_all add: mod_mod_cancel)

lemma CivilFromDays_DaysFromCivil:
  assumes v: "valid_date (y, m, d)" and y: "in_i32 (y - 1)" "in_i32 (y + 1)"
  shows "CivilFromDays (DaysFromCivil y m d) = (y, m, d)"
proof -
  note p = valid_date_parts [OF v]
  define z where "z = march_year y m"
  define mp where "mp = march_month m"
  define e where "e = z mod 400"
  define D where "D = month_start mp + (d - 1)"
  define c where "c = e div 100"
  define q where "q = e mod 100 div 4"
  define k where "k = e mod 4"
  have e: "0 \<le> e" "e < 400" by (auto simp: e_def)
  have k4: "e mod 100 mod 4 = k" by (simp add: k_def mod_mod_cancel)
  have em: "0 \<le> e mod 100" "e mod 100 < 100" by auto
  have eq: "e = 100 * c + 4 * q + k"
    using mult_div_mod_eq [of 100 e] mult_div_mod_eq [of 4 "e mod 100"] unfolding k4 c_def q_def by linarith
  have b: "0 \<le> c" "c \<le> 3" "0 \<le> q" "q \<le> 24" "0 \<le> k" "k \<le> 3"
    using e em div_bounds [of 100 e] div_bounds [of 4 "e mod 100"] unfolding c_def q_def k_def by auto
  have mp: "0 \<le> mp" "mp \<le> 11" using p(5,6) by (auto simp: mp_def)
  have feb: "m = 2 \<Longrightarrow> mp = 11" "mp = 11 \<Longrightarrow> m = 2" using p(1,2) by (auto simp: mp_def march_month_def split: if_splits)
  have D0: "(5 * D + 2) div 153 = mp" "0 \<le> D" "D \<le> 365" "D = 365 \<Longrightarrow> m = 2 \<and> leap y"
  proof -
    have s11: "month_start 11 = 337" "month_start 12 = 367" by (simp_all add: month_start_def)
    have step: "d - 1 < month_start (mp + 1) - month_start mp"
    proof (cases "m = 2")
      case True
      then show ?thesis using p(8) feb s11 by (auto split: if_splits)
    next
      case False
      then show ?thesis using p(7) by (simp add: mp_def)
    qed
    have "0 \<le> d - 1" using p(3) by simp
    note dm = day_of_month [OF mp this step]
    show "(5 * D + 2) div 153 = mp" using dm(1) by (simp add: D_def)
    show "0 \<le> D" using month_start_bounds [OF mp] p(3) by (simp add: D_def)
    have "D \<le> 336" if "m \<noteq> 2"
    proof -
      have "mp \<le> 10" using that feb mp by (cases "mp = 11") auto
      then have "0 \<le> mp + 1" "mp + 1 \<le> 11" using mp by auto
      then have "month_start (mp + 1) \<le> 337" using month_start_bounds by blast
      then show ?thesis using step by (simp add: D_def)
    qed
    moreover have "D \<le> (if leap y then 365 else 364)" if "m = 2"
      using p(8) [OF that] feb(1) [OF that] s11 by (simp add: D_def split: if_splits)
    ultimately show "D \<le> 365" "D = 365 \<Longrightarrow> m = 2 \<and> leap y"
      by (cases "m = 2"; auto split: if_splits)+
  qed
  have leap: "k = 3 \<and> (q = 24 \<longrightarrow> c = 3)" if "D = 365"
  proof -
    have l: "leap (z + 1)" using D0(4) that by (auto simp: z_def march_year_def)
    have z: "z = 400 * (z div 400) + e" unfolding e_def by simp
    have "(z + 1) mod 4 = (e + 1) mod 4" "(z + 1) mod 100 = (e + 1) mod 100" "(z + 1) mod 400 = (e + 1) mod 400"
      unfolding e_def by (simp_all only: mod_era_step dvd_refl four_era hundred_era)
    then have l': "(e + 1) mod 4 = 0" "(e + 1) mod 100 \<noteq> 0 \<or> (e + 1) mod 400 = 0"
      using l by (auto simp: leap_def)
    have "(e + 1) mod 4 = (k + 1) mod 4" by (simp add: k_def mod_add_left_eq)
    then have k: "k = 3"
      using l'(1) b(5,6) by (cases "k = 0"; cases "k = 1"; cases "k = 2") auto
    moreover have "c = 3" if "q = 24"
    proof -
      have e1: "e + 1 = 100 * (c + 1)" using eq k that by simp
      then have "(e + 1) mod 400 = 0" using l'(2) by simp
      then show ?thesis using e1 b(1,2) by (cases "c = 0"; cases "c = 1"; cases "c = 2") auto
    qed
    ultimately show ?thesis by blast
  qed
  have ok: "parts_ok c q k D" using b D0 leap by (simp add: parts_ok_def)
  have zz: "z = 400 * (z div 400) + 100 * c + 4 * q + k" using eq mult_div_mod_eq [of 400 z] unfolding e_def by linarith
  have days: "DaysFromCivil y m d = (z div 400) * 146097 + (36524 * c + 1461 * q + 365 * k + D) - 719468"
  proof -
    have "year_days z = 146097 * (z div 400) + year_start e"
      using year_days_era [OF e, of "z div 400"] by (simp add: e_def)
    also have "year_start e = 36524 * c + 1461 * q + 365 * k"
      unfolding eq by (rule year_start_parts [OF ok])
    finally show ?thesis
      using DaysFromCivil_days [OF p(1-4)] by (simp add: z_def mp_def D_def)
  qed
  have zi: "in_i32 z" "in_i32 (z + 1)" using y by (auto simp: z_def march_year_def in_i32_def)
  show ?thesis
    using CivilFromDays_parts [OF ok zz zi days D0(1) [symmetric]] p(1,2)
    by (auto simp: D_def mp_def z_def march_month_def march_year_def split: if_splits)
qed


lemma CivilFromDays_cases:
  assumes "- 700000000000 \<le> days" "days \<le> 700000000000"
  obtains y m d where "CivilFromDays days = (y, m, d)" "valid_date (y, m, d)" "DaysFromCivil y m d = days"
    "in_i32 (y - 1)" "in_i32 (y + 2)"
proof -
  define era where "era = (days + 719468) div 146097"
  define doe where "doe = (days + 719468) mod 146097"
  have doe: "0 \<le> doe" "doe \<le> 146096" "days + 719468 = 146097 * era + doe"
    using pos_mod_bound [of 146097 "days + 719468"] by (auto simp: doe_def era_def)
  obtain c q k d where ok: "parts_ok c q k d" and dd: "doe = 36524 * c + 1461 * q + 365 * k + d"
    using parts_exist [OF doe(1,2)] .
  have b: "0 \<le> c" "c \<le> 3" "0 \<le> q" "q \<le> 24" "0 \<le> k" "k \<le> 3" "0 \<le> d" "d \<le> 365"
    "d = 365 \<Longrightarrow> k = 3" "d = 365 \<Longrightarrow> q = 24 \<Longrightarrow> c = 3"
    using ok by (auto simp: parts_ok_def)
  define y where "y = 400 * era + 100 * c + 4 * q + k"
  define mp where "mp = (5 * d + 2) div 153"
  have era: "- 4800000 \<le> era" "era \<le> 4800000" using doe assms by auto
  have yi: "in_i32 (y - 1)" "in_i32 y" "in_i32 (y + 1)" "in_i32 (y + 3)" using era b by (auto simp: y_def in_i32_def)
  have days: "days = era * 146097 + (36524 * c + 1461 * q + 365 * k + d) - 719468" using doe(3) dd by simp
  note civil = CivilFromDays_parts [OF ok y_def yi(2,3) days mp_def]
  note m = month_of_day [OF b(7,8), folded mp_def]
  define m' where "m' = (if mp < 10 then mp + 3 else mp - 9)"
  define y' where "y' = y + (if mp < 10 then 0 else 1)"
  define d' where "d' = d - month_start mp + 1"
  have mm: "1 \<le> m'" "m' \<le> 12" "march_month m' = mp" "march_year y' m' = y" "1 \<le> d'" "d' \<le> 31"
    using m by (auto simp: m'_def march_month_def march_year_def y'_def d'_def)
  have e: "0 \<le> 100 * c + 4 * q + k" "100 * c + 4 * q + k < 400" using b by auto
  have yd: "year_days y = 146097 * era + (36524 * c + 1461 * q + 365 * k)"
    using year_days_era [OF e, of era] year_start_parts [OF ok] by (simp add: y_def add.assoc)
  have rt: "DaysFromCivil y' m' d' = days"
    using DaysFromCivil_days [OF mm(1,2,5,6), of y'] yd by (simp add: mm(3,4) d'_def days)
  have leap: "leap y'" if "d = 365" "\<not> mp < 10"
  proof -
    have k: "k = 3" "q = 24 \<Longrightarrow> c = 3" using b that by auto
    have "y' = 4 * (100 * era + 25 * c + q + 1)" using that k by (simp add: y'_def y_def)
    then have m4: "y' mod 4 = 0" by simp
    have yy: "y' = 100 * (4 * era + c) + (4 * q + 4)" using that k by (simp add: y'_def y_def)
    show ?thesis
    proof (cases "q = 24")
      case True
      then have "y' = 400 * (era + 1)" using yy k by simp
      then have "y' mod 400 = 0" by (metis mod_mult_self1_is_0)
      then show ?thesis using m4 by (simp add: leap_def)
    next
      case False
      have "y' mod 100 = 4 * q + 4"
        by (rule int_mod_pos_eq [OF yy]) (use b False in auto)
      then show ?thesis using m4 b by (simp add: leap_def)
    qed
  qed
  have valid: "d' \<le> days_in_month y' m'"
  proof -
    have ms: "month_start mp \<le> d" "5 * d + 2 < 153 * mp + 153"
      using m div_bounds [of 153 "5 * d + 2"] by (auto simp: mp_def)
    show ?thesis
    proof (cases "mp = 11")
      case True
      have "d = 365 \<or> d \<le> 364" using b(8) by linarith
      then have "d' \<le> 29" "\<not> leap y' \<Longrightarrow> d' \<le> 28"
        using leap True by (auto simp: d'_def month_start_def)
      then show ?thesis using True by (simp add: days_in_month_def m'_def)
    next
      case False
      with twelve_months [OF m(1,2)] show ?thesis
        using ms b(8) by (elim disjE) (auto simp: days_in_month_def m'_def d'_def month_start_def)
    qed
  qed
  have "CivilFromDays days = (y', m', d')"
    using civil by (simp only: y'_def m'_def d'_def)
  moreover have "valid_date (y', m', d')" using mm valid by (simp add: valid_date_def)
  moreover have "in_i32 (y' - 1)" "in_i32 (y' + 2)" using yi by (simp_all add: y'_def in_i32_def)
  ultimately show thesis using that rt by blast
qed

lemma next_date_valid: "valid_date x \<Longrightarrow> valid_date (next_date x)"
  by (cases x) (auto simp: valid_date_def next_date_def days_in_month_def split: if_splits)

lemma DaysFromCivil_next:
  assumes v: "valid_date (y, m, d)" and n: "next_date (y, m, d) = (y', m', d')"
  shows "DaysFromCivil y' m' d' = DaysFromCivil y m d + 1"
proof -
  note p = valid_date_parts [OF v]
  have v': "valid_date (y', m', d')" using next_date_valid [OF v] n by simp
  note p' = valid_date_parts [OF v']
  have step: "year_days y = year_days (y - 1) + (if leap y then 366 else 365)"
    using year_days_step [of y] by simp
  have m: "m = 1 \<or> m = 2 \<or> m = 3 \<or> m = 4 \<or> m = 5 \<or> m = 6 \<or> m = 7 \<or> m = 8 \<or> m = 9 \<or> m = 10 \<or> m = 11 \<or> m = 12"
    using p(1,2) by presburger
  show ?thesis
    unfolding DaysFromCivil_days [OF p(1-4)] DaysFromCivil_days [OF p'(1-4)]
    using m n v step
    by (elim disjE) (auto simp: next_date_def valid_date_def days_in_month_def march_year_def march_month_def
        month_start_def split: if_splits)
qed

text \<open>C6. Day numbers follow the Gregorian calendar: day 0 is 1 January 1970, each day is the calendar
  successor of the day before, with its leap years, and the two conversions are inverse, for every
  day number of at most 700 thousand million in absolute value.\<close>

theorem civil_days_follow_calendar:
  assumes "- 700000000000 \<le> days" and "days < 700000000000"
  shows "CivilFromDays 0 = (1970, 1, 1) \<and> CivilFromDays (days + 1) = next_date (CivilFromDays days)
    \<and> valid_date (CivilFromDays days)
    \<and> (case CivilFromDays days of (y, m, d) \<Rightarrow> DaysFromCivil y m d = days)"
proof -
  have zero: "CivilFromDays 0 = (1970, 1, 1)" by code_simp
  obtain y m d where c: "CivilFromDays days = (y, m, d)" "valid_date (y, m, d)" "DaysFromCivil y m d = days"
    "in_i32 (y - 1)" "in_i32 (y + 2)"
    using CivilFromDays_cases assms by (metis order_less_imp_le)
  obtain y' m' d' where n: "next_date (y, m, d) = (y', m', d')" by (cases "next_date (y, m, d)")
  have y': "y' = y \<or> y' = y + 1" using n by (auto simp: next_date_def split: if_splits)
  have "CivilFromDays (DaysFromCivil y' m' d') = (y', m', d')"
    by (rule CivilFromDays_DaysFromCivil) (use next_date_valid [OF c(2)] n c(4,5) y' in \<open>auto simp: in_i32_def\<close>)
  then show ?thesis using DaysFromCivil_next [OF c(2) n] c n zero by simp
qed

theorem civil_days_follow_calendar_witness:
  "CivilFromDays (19782 + 1) = next_date (CivilFromDays 19782) \<and> CivilFromDays 19782 = (2024, 2, 29)"
proof -
  have "CivilFromDays 19782 = (2024, 2, 29)" by code_simp
  then show ?thesis using civil_days_follow_calendar [of 19782] by simp
qed


section \<open>Milliseconds and broken-down times\<close>

lemma floor_quotient:
  "0 < n \<Longrightarrow> (if cmod a n < 0 then (cmod a n + n, cdiv a n - 1) else (cmod a n, cdiv a n)) = (a mod n, a div n)"
proof -
  assume n: "0 < n"
  show ?thesis
  proof (cases "0 \<le> a")
    case True
    moreover have "\<not> a mod n < 0" using n by (simp add: not_less)
    ultimately show ?thesis using n by (simp add: cdiv_nonneg cmod_nonneg)
  next
    case False
    define b where "b = - a"
    have b: "a = - b" "0 < b" using False by (auto simp: b_def)
    have c: "cmod a n = - (b mod n)" "cdiv a n = - (b div n)"
      using b n by (simp_all add: cmod_def cdiv_def)
    have m: "0 \<le> b mod n" "b mod n < n" "n * (b div n) + b mod n = b" using n by simp_all
    show ?thesis
    proof (cases "b mod n = 0")
      case True
      have e: "a = n * (- (b div n)) + 0" using m True b by simp
      show ?thesis using int_div_pos_eq [OF e] int_mod_pos_eq [OF e] n c True by simp
    next
      case False
      have e: "a = n * (- (b div n) - 1) + (n - b mod n)"
        using m(3) b(1) by (simp only: right_diff_distrib mult_minus_right mult_1_right)
      show ?thesis using int_div_pos_eq [OF e] int_mod_pos_eq [OF e] m False c by simp
    qed
  qed
qed

lemma cmod_small:
  assumes "0 < n" "n < 2 ^ 31"
  shows "in_i32 (cmod a n)"
proof -
  define r where "r = \<bar>a\<bar> mod n"
  have "0 \<le> r" "r < n" using assms(1) by (simp_all add: r_def)
  moreover have "cmod a n = (if a < 0 then - r else r)" using assms(1) by (simp add: cmod_def r_def)
  ultimately show ?thesis using assms(2) by (simp add: in_i32_def)
qed

lemma from_unix_millis_alt:
  "absolute_datetime_civil_from_unix_millis u off =
    (let a = u + off * 60000; s = a div 1000; t = s mod 86400; (y, m, d) = CivilFromDays (s div 86400) in
     \<lparr>cv_year = y, cv_month = m, cv_day = d, cv_hour = t div 3600, cv_minute = t mod 3600 div 60,
      cv_second = t mod 60, cv_millis = a mod 1000\<rparr>)"
proof -
  let ?a = "u + off * 60000"
  have c1: "cast_i32 (cmod ?a 1000) = cmod ?a 1000" by (rule cast_i32_id, rule cmod_small) auto
  have c2: "cast_i32 (cmod (?a div 1000) 86400) = cmod (?a div 1000) 86400"
    by (rule cast_i32_id, rule cmod_small) auto
  have t: "0 \<le> ?a div 1000 mod 86400" by simp
  show ?thesis
    unfolding absolute_datetime_civil_from_unix_millis_def Let_def c1
      floor_quotient [of 1000 ?a, simplified] prod.case
    unfolding c2 floor_quotient [of 86400 "?a div 1000", simplified] prod.case
    using t by (simp add: cdiv_nonneg cmod_nonneg split: prod.split)
qed

text \<open>Breaking a time stamp down and putting it together again with the same zone offset gives
  the time stamp back, for every \<open>int64_t\<close> whose shift by the offset is one; the fields are a valid
  date and a time of day.\<close>

theorem unix_millis_roundtrip:
  assumes "in_i64 (u + off * 60000)"
  shows "let c = absolute_datetime_civil_from_unix_millis u off in
    absolute_datetime_civil_to_unix_millis c off = u
    \<and> valid_date (cv_year c, cv_month c, cv_day c) \<and> 0 \<le> cv_hour c \<and> cv_hour c \<le> 23
    \<and> 0 \<le> cv_minute c \<and> cv_minute c \<le> 59 \<and> 0 \<le> cv_second c \<and> cv_second c \<le> 59
    \<and> 0 \<le> cv_millis c \<and> cv_millis c \<le> 999"
proof -
  define a where "a = u + off * 60000"
  define s where "s = a div 1000"
  define ms where "ms = a mod 1000"
  define q where "q = s div 86400"
  define t where "t = s mod 86400"
  define h where "h = t div 3600"
  define r where "r = t mod 3600"
  define mi where "mi = r div 60"
  define se where "se = t mod 60"
  have a: "1000 * s + ms = a" "0 \<le> ms" "ms < 1000" by (simp_all add: s_def ms_def)
  have d: "86400 * q + t = s" "0 \<le> t" "t < 86400" by (simp_all add: q_def t_def)
  have h: "3600 * h + r = t" "0 \<le> r" "r < 3600" by (simp_all add: h_def r_def)
  have "se = r mod 60" by (simp add: se_def r_def mod_mod_cancel)
  then have m: "60 * mi + se = r" "0 \<le> se" "se < 60" by (simp_all add: mi_def)
  have ai: "- 9223372036854775808 \<le> a" "a < 9223372036854775808"
    using assms by (simp_all add: in_i64_def a_def)
  have "- 700000000000 \<le> q" "q \<le> 700000000000"
    using ai a d by linarith+
  then obtain y mo dd where c: "CivilFromDays q = (y, mo, dd)" "valid_date (y, mo, dd)"
    "DaysFromCivil y mo dd = q" by (metis CivilFromDays_cases)
  have b: "0 \<le> h" "h \<le> 23" "0 \<le> mi" "mi \<le> 59" "se \<le> 59" "ms \<le> 999" using a d h m by linarith+
  have "(q * 86400 + h * 3600 + mi * 60 + se) * 1000 + ms - off * 60000 = u"
    using a(1) d(1) h(1) m(1) a_def by (simp add: distrib_right)
  moreover have "absolute_datetime_civil_from_unix_millis u off =
      \<lparr>cv_year = y, cv_month = mo, cv_day = dd, cv_hour = h, cv_minute = mi, cv_second = se, cv_millis = ms\<rparr>"
    unfolding from_unix_millis_alt Let_def a_def [symmetric] s_def [symmetric] t_def [symmetric]
      q_def [symmetric] c(1) by (simp add: h_def mi_def r_def se_def ms_def)
  ultimately show ?thesis
    using c b a m by (simp add: absolute_datetime_civil_to_unix_millis_def)
qed

theorem unix_millis_roundtrip_witness:
  "absolute_datetime_civil_to_unix_millis (absolute_datetime_civil_from_unix_millis (-1) 330) 330 = -1"
  using unix_millis_roundtrip [of "-1" 330] by (simp add: in_i64_def Let_def)


section \<open>ISO-8601 round trip\<close>

lemma byte_digit: "isdigit c \<longleftrightarrow> (\<exists>d<10. c = digit_char d)"
proof
  assume "isdigit c"
  then have "c = digit_char (byte_of c - 48)" "byte_of c - 48 < 10"
    by (auto simp: isdigit_def digit_char_def byte_of_def)
  then show "\<exists>d<10. c = digit_char d" by blast
qed (auto simp: isdigit_digit_char)

lemma to_string_two: "10 \<le> n \<Longrightarrow> n < 100 \<Longrightarrow> to_string n = [digit_char (n div 10), digit_char (n mod 10)]"
  by (subst to_string.simps, subst to_string.simps) simp

lemma to_string_one: "n < 10 \<Longrightarrow> to_string n = [digit_char n]"
  by (subst to_string.simps) simp

lemma to_string_three:
  "100 \<le> n \<Longrightarrow> n < 1000 \<Longrightarrow> to_string n = [digit_char (n div 100), digit_char (n div 10 mod 10), digit_char (n mod 10)]"
  by (subst to_string.simps) (simp add: to_string_two div_mult2_eq [symmetric])

lemma digit_zero: "digit_char 0 = CHR ''0''"
  by code_simp

lemma fmt_d_2:
  assumes "0 \<le> v" "v \<le> 99"
  shows "fmt_d 2 v = [digit_char (nat v div 10), digit_char (nat v mod 10)]"
proof (cases "v < 10")
  case True
  then show ?thesis using assms by (simp add: fmt_d_def zeros_def to_string_one digit_zero numeral_2_eq_2)
next
  case False
  then show ?thesis using assms by (simp add: fmt_d_def zeros_def to_string_two)
qed

lemma fmt_d_3:
  assumes "0 \<le> v" "v \<le> 999"
  shows "fmt_d 3 v = [digit_char (nat v div 100), digit_char (nat v div 10 mod 10), digit_char (nat v mod 10)]"
proof -
  consider "v < 10" | "10 \<le> v" "v < 100" | "100 \<le> v" by linarith
  then show ?thesis
    using assms
    by cases (simp_all add: fmt_d_def zeros_def to_string_one to_string_two to_string_three digit_zero
        numeral_3_eq_3)
qed

lemma read_two:
  assumes "0 \<le> v" "v \<le> 99"
  shows "ReadFixedDigits (fmt_d 2 v @ rest) 2 = Some (v, rest)"
proof -
  have "int (nat v div 10 * 10 + nat v mod 10) = v" using assms by simp
  then have "int (nat v div 10) * 10 + int (nat v mod 10) = v"
    by (simp only: of_nat_add of_nat_mult of_nat_numeral)
  then show ?thesis
    using assms unfolding fmt_d_2 [OF assms] ReadFixedDigits_def
    by (simp add: numeral_2_eq_2 isdigit_digit_char digit_value_digit_char)
qed

text \<open>The digits of a year: no prefix of a year the reader accepts exceeds its limit.\<close>

definition digits_value :: "int \<Rightarrow> string \<Rightarrow> int" where
  "digits_value r s = foldl (\<lambda>r c. r * 10 + int (digit_value c)) r s"

lemma digits_value_ge: "0 \<le> r \<Longrightarrow> r \<le> digits_value r s"
proof (induction s arbitrary: r)
  case (Cons c s)
  have "r \<le> r * 10 + int (digit_value c)" using Cons.prems by simp
  also have "\<dots> \<le> digits_value (r * 10 + int (digit_value c)) s"
    by (rule Cons.IH) (use Cons.prems in simp)
  finally show ?case by (simp add: digits_value_def)
qed (simp add: digits_value_def)

lemma year_digits_run:
  "\<forall>c\<in>set ds. isdigit c \<Longrightarrow> rest \<noteq> [] \<Longrightarrow> \<not> isdigit (hd rest) \<Longrightarrow> 0 \<le> r \<Longrightarrow>
   digits_value r ds \<le> 1000000009 \<Longrightarrow>
   year_digits (ds @ rest) r k = Some (digits_value r ds, k + length ds, rest)"
proof (induction ds arbitrary: r k)
  case Nil
  then show ?case by (cases rest) (auto simp: digits_value_def)
next
  case (Cons c ds)
  let ?r = "r * 10 + int (digit_value c)"
  have e: "digits_value r (c # ds) = digits_value ?r ds" by (simp add: digits_value_def)
  then have "?r \<le> 1000000009" using digits_value_ge [of ?r ds] Cons.prems by simp
  then have "r \<le> 100000000" by simp
  then show ?case using Cons.IH [of ?r "k + 1"] Cons.prems e by simp
qed

lemma digits_value_decimal: "digits_value (int n) s = int (foldl (\<lambda>acc c. acc * 10 + digit_value c) n s)"
proof (induction s arbitrary: n)
  case (Cons c s)
  have "int (n * 10 + digit_value c) = int n * 10 + int (digit_value c)" by simp
  then show ?case using Cons.IH [of "n * 10 + digit_value c"] by (simp only: digits_value_def foldl_Cons)
qed (simp add: digits_value_def)

lemma digits_value_zeros: "digits_value 0 (replicate n CHR ''0'' @ s) = digits_value 0 s"
  by (induction n) (simp_all add: digits_value_def digit_value_def byte_of_def)

lemma read_year:
  assumes "0 \<le> y" "y \<le> 1000000009" "rest \<noteq> []" "\<not> isdigit (hd rest)"
  shows "ReadYearDigits (fmt_d 4 y @ rest) = Some (y, rest)"
proof -
  let ?ds = "replicate (4 - length (to_string (nat y))) CHR ''0'' @ to_string (nat y)"
  have "isdigit CHR ''0''" by (simp add: isdigit_def byte_of_def)
  then have d: "\<forall>c\<in>set ?ds. isdigit c" using to_string_digits by auto
  have v: "digits_value 0 ?ds = y"
    using digits_value_decimal [of 0 "to_string (nat y)"] decimal_value_to_string [of "nat y"] assms(1)
    unfolding digits_value_zeros by (simp add: decimal_value_def)
  have "year_digits (?ds @ rest) 0 0 = Some (y, length ?ds, rest)"
    using year_digits_run [OF d assms(3,4), of 0 0] v assms(2) by simp
  moreover have "fmt_d 4 y = ?ds" using assms(1) by (simp add: fmt_d_def zeros_def)
  moreover have "cast_i32 y = y" using assms by (intro cast_i32_id) (simp add: in_i32_def)
  moreover have "\<not> length ?ds < 4" by simp
  ultimately show ?thesis unfolding ReadYearDigits_def by (simp only: option.case prod.case if_False)
qed

lemma hd_year_text: "0 \<le> y \<Longrightarrow> isdigit (peek (fmt_d 4 y @ rest))"
proof -
  assume y: "0 \<le> y"
  have z: "isdigit CHR ''0''" by (simp add: isdigit_def byte_of_def)
  have "fmt_d 4 y \<noteq> []" "\<forall>c\<in>set (fmt_d 4 y). isdigit c"
    using y z to_string_digits by (auto simp: fmt_d_def zeros_def)
  then show ?thesis by (cases "fmt_d 4 y") (auto simp: peek_def)
qed

lemma digit_not_sign: "isdigit c \<Longrightarrow> c \<noteq> CHR ''-'' \<and> c \<noteq> CHR ''+'' \<and> c \<noteq> CHR '':''"
  by (auto simp: isdigit_def byte_of_def)


lemma peek_simps [simp]: "peek (c # s) = c" "peek [] = char_of (0::nat)"
  by (simp_all add: peek_def)

lemma fraction_three:
  assumes "a < 10" "b < 10" "c < 10" "rest = [] \<or> \<not> isdigit (hd rest)"
  shows "read_fraction (CHR ''.'' # digit_char a # digit_char b # digit_char c # rest) =
    Inr ((int a * 10 + int b) * 10 + int c, rest)"
proof -
  have r: "fraction_digits rest m n = (m, n, rest)" for m n using assms(4) by (cases rest) auto
  show ?thesis
    using assms(1-3) by (simp add: read_fraction_def isdigit_digit_char digit_value_digit_char r)
qed

lemma read_fraction_3:
  assumes "0 \<le> ms" "ms \<le> 999" "rest = [] \<or> \<not> isdigit (hd rest)"
  shows "read_fraction (''.'' @ fmt_d 3 ms @ rest) = Inr (ms, rest)"
proof -
  have "int (nat ms div 100 * 100 + nat ms div 10 mod 10 * 10 + nat ms mod 10) = ms"
  proof -
    have "nat ms div 10 = nat ms div 10 div 10 * 10 + nat ms div 10 mod 10" by simp
    moreover have "nat ms div 10 div 10 = nat ms div 100" by (simp add: div_mult2_eq [symmetric])
    moreover have "nat ms = nat ms div 10 * 10 + nat ms mod 10" by simp
    ultimately have "nat ms div 100 * 100 + nat ms div 10 mod 10 * 10 + nat ms mod 10 = nat ms" by linarith
    then show ?thesis using assms(1) by simp
  qed
  then have v: "(int (nat ms div 100) * 10 + int (nat ms div 10 mod 10)) * 10 + int (nat ms mod 10) = ms"
    by (simp only: of_nat_add of_nat_mult of_nat_numeral distrib_right mult.assoc)
  have d: "nat ms div 100 < 10" "nat ms div 10 mod 10 < 10" "nat ms mod 10 < 10" using assms by auto
  show ?thesis
    unfolding fmt_d_3 [OF assms(1,2)] using fraction_three [OF d assms(3)] v by simp
qed

lemma read_zone_text:
  assumes "- 1440 < off" "off < 1440"
  shows "read_zone (zone_text off) = Inr (off, [])"
proof (cases "off = 0")
  case True
  then show ?thesis by (simp add: zone_text_def read_zone_def)
next
  case False
  define a where "a = \<bar>off\<bar>"
  have a: "0 < a" "a < 1440" using assms False by (auto simp: a_def)
  have h: "0 \<le> a div 60" "a div 60 \<le> 23" "0 \<le> a mod 60" "a mod 60 \<le> 59"
    using a div_bounds [of 60 a] pos_mod_bound [of 60 a] by auto
  have z: "zone_text off = (if off \<ge> 0 then CHR ''+'' else CHR ''-'') # fmt_d 2 (a div 60) @ '':'' @ fmt_d 2 (a mod 60) @ []"
    using False a by (auto simp: zone_text_def a_def Let_def cdiv_nonneg cmod_nonneg)
  have r1: "ReadFixedDigits (fmt_d 2 (a div 60) @ '':'' @ fmt_d 2 (a mod 60) @ []) 2
      = Some (a div 60, '':'' @ fmt_d 2 (a mod 60) @ [])"
    by (rule read_two) (use h in auto)
  have r2: "ReadFixedDigits (fmt_d 2 (a mod 60) @ []) 2 = Some (a mod 60, [])"
    by (rule read_two) (use h in auto)
  have p: "isdigit (peek (fmt_d 2 (a mod 60) @ []))"
    using h by (subst fmt_d_2) (auto intro!: isdigit_digit_char simp: nat_less_iff)
  have s: "(if off \<ge> 0 then 1 else -1) * (a div 60 * 60 + a mod 60) = off"
    by (simp add: a_def)
  show ?thesis
    unfolding z read_zone_def
    using r1 r2 p h s by (cases "off \<ge> 0") (simp_all add: Let_def)
qed

lemma zone_text_start: "zone_text off \<noteq> []" "\<not> isdigit (hd (zone_text off))"
  "peek (zone_text off) \<noteq> CHR ''.''" "peek (zone_text off) \<noteq> CHR '',''"
  by (auto simp: zone_text_def Let_def isdigit_def byte_of_def)

definition iso_range :: "civil \<Rightarrow> int \<Rightarrow> bool" where
  "iso_range c off \<longleftrightarrow> \<bar>cv_year c\<bar> \<le> 1000000009 \<and> 0 \<le> cv_month c \<and> cv_month c \<le> 99 \<and> 0 \<le> cv_day c
    \<and> cv_day c \<le> 99 \<and> 0 \<le> cv_hour c \<and> cv_hour c \<le> 99 \<and> 0 \<le> cv_minute c \<and> cv_minute c \<le> 99
    \<and> 0 \<le> cv_second c \<and> cv_second c \<le> 99 \<and> 0 \<le> cv_millis c \<and> cv_millis c \<le> 999
    \<and> -1440 < off \<and> off < 1440"

lemma read_time_format:
  assumes "0 \<le> h" "h \<le> 99" "0 \<le> mi" "mi \<le> 99" "0 \<le> se" "se \<le> 99" "0 \<le> ms" "ms \<le> 999" "-1440 < off" "off < 1440"
  shows "read_time (''T'' @ fmt_d 2 h @ '':'' @ fmt_d 2 mi @ '':'' @ fmt_d 2 se
      @ (if ms > 0 then ''.'' @ fmt_d 3 ms else []) @ zone_text off) = Inr ((h, mi, se, ms, off), [])"
proof -
  let ?f = "(if ms > 0 then ''.'' @ fmt_d 3 ms else []) @ zone_text off"
  have f: "read_fraction ?f = Inr (ms, zone_text off)"
  proof (cases "ms > 0")
    case True
    then show ?thesis using read_fraction_3 [OF assms(7,8), of "zone_text off"] zone_text_start by simp
  next
    case False
    then show ?thesis using assms(7) zone_text_start by (auto simp: read_fraction_def)
  qed
  show ?thesis
    unfolding read_time_def sep_digits_def
    by (simp add: read_two [OF assms(1,2)] read_two [OF assms(3,4)] read_two [OF assms(5,6)]
      f [simplified] read_zone_text [OF assms(9,10)])
qed

text \<open>Reading the ISO-8601 text of a time gives the same fields and offset, for years of up to
  1000000009 in absolute value (year 0 and negative years included), two-digit fields, whole
  milliseconds and offsets of less than a day.\<close>

theorem iso_roundtrip:
  assumes "iso_range c off"
  shows "absolute_datetime_parse_iso (Some (absolute_datetime_format_iso c off)) = Inr (c, off)"
proof -
  let ?t = "''T'' @ fmt_d 2 (cv_hour c) @ '':'' @ fmt_d 2 (cv_minute c) @ '':'' @ fmt_d 2 (cv_second c)
      @ (if cv_millis c > 0 then ''.'' @ fmt_d 3 (cv_millis c) else []) @ zone_text off"
  let ?d = "''-'' @ fmt_d 2 (cv_month c) @ ''-'' @ fmt_d 2 (cv_day c) @ ?t"
  let ?y = "\<bar>cv_year c\<bar>"
  have f: "absolute_datetime_format_iso c off = (if cv_year c < 0 then ''-'' else []) @ fmt_d 4 ?y @ ?d"
    by (simp add: absolute_datetime_format_iso_def Let_def year_text_def)
  have y: "ReadYearDigits (fmt_d 4 ?y @ ?d) = Some (?y, ?d)"
    by (rule read_year) (use assms in \<open>auto simp: iso_range_def isdigit_def byte_of_def\<close>)
  have m: "sep_digits CHR ''-'' ?d 2 = Some (cv_month c, ''-'' @ fmt_d 2 (cv_day c) @ ?t)"
    using assms read_two [of "cv_month c" "''-'' @ fmt_d 2 (cv_day c) @ ?t"]
    by (simp add: sep_digits_def iso_range_def)
  have d: "sep_digits CHR ''-'' (''-'' @ fmt_d 2 (cv_day c) @ ?t) 2 = Some (cv_day c, ?t)"
    using assms read_two [of "cv_day c" ?t] by (simp add: sep_digits_def iso_range_def)
  have t: "read_time ?t = Inr ((cv_hour c, cv_minute c, cv_second c, cv_millis c, off), [])"
    by (rule read_time_format) (use assms in \<open>auto simp: iso_range_def\<close>)
  have p: "peek (fmt_d 4 ?y @ ?d) \<noteq> CHR ''-''" "peek (fmt_d 4 ?y @ ?d) \<noteq> CHR ''+''"
    using hd_year_text [of ?y ?d] digit_not_sign by auto
  have n: "absolute_datetime_format_iso c off \<noteq> []" using f by simp
  show ?thesis
  proof (cases "cv_year c < 0")
    case True
    then have e: "absolute_datetime_format_iso c off = CHR ''-'' # fmt_d 4 ?y @ ?d" using f by simp
    show ?thesis
      unfolding absolute_datetime_parse_iso_def e option.case Let_def
      using True y m d t by (simp del: append.simps)
  next
    case False
    then have e: "absolute_datetime_format_iso c off = fmt_d 4 ?y @ ?d" using f by simp
    show ?thesis
      unfolding absolute_datetime_parse_iso_def e option.case Let_def
      using False y m d t p n e by (simp del: append.simps)
  qed
qed

theorem iso_roundtrip_witness:
  "absolute_datetime_parse_iso (Some (absolute_datetime_format_iso
     \<lparr>cv_year = -1, cv_month = 2, cv_day = 3, cv_hour = 4, cv_minute = 5, cv_second = 6, cv_millis = 70\<rparr> (-90)))
   = Inr (\<lparr>cv_year = -1, cv_month = 2, cv_day = 3, cv_hour = 4, cv_minute = 5, cv_second = 6, cv_millis = 70\<rparr>, -90)"
  by (rule iso_roundtrip) (simp add: iso_range_def)

end
