(* ===== verification/Type_Algebra.thy ===== *)
theory Type_Algebra
  imports Type_Names Ast
begin

text \<open>
  The algebra of type names that the semantic analyzer computes with
  (\<^verbatim>\<open>Absolute-Analyzer/include/analyzer_internal.h\<close>): classes of names, array ranks, the reading of
  generic names, substitution and unification, and the queries on expressions that need no
  state. A type is its canonical name, a \<open>string\<close>; an \<open>unordered_map\<close> from names to names is a
  map, an \<open>unordered_set\<close> of names a set that is only asked for membership, so a predicate would
  do: it is a list here. Out-parameters are results.
\<close>

section \<open>Classes of names\<close>

definition IsIntegerTypeName :: "string \<Rightarrow> bool" where
  "IsIntegerTypeName type \<longleftrightarrow> type \<in> set [''int8'', ''uint8'', ''int16'', ''uint16'', ''int32'',
     ''uint32'', ''int64'', ''uint64'']"

definition IsConditionType :: "string \<Rightarrow> bool" where
  "IsConditionType type \<longleftrightarrow> type = ''bool'' \<or> type = ''dynamic'' \<or> type = ''error'' \<or>
     IsIntegerTypeName type \<or> ends_with type ''*''"

definition IsRawPointerType :: "string \<Rightarrow> bool" where
  "IsRawPointerType type \<longleftrightarrow> CanonicalOwnership type = OK_Raw"

definition IsWeakPointerType :: "string \<Rightarrow> bool" where
  "IsWeakPointerType type \<longleftrightarrow> CanonicalOwnership type = OK_Weak"

definition IsSubscriberPointerType :: "string \<Rightarrow> bool" where
  "IsSubscriberPointerType type \<longleftrightarrow> CanonicalOwnership type = OK_Sub"

definition IsManagedPointerType :: "string \<Rightarrow> bool" where
  "IsManagedPointerType type \<longleftrightarrow>
     CanonicalOwnership type \<noteq> OK_None \<and> CanonicalOwnership type \<noteq> OK_Raw"

definition IsStrongManagedPointerType :: "string \<Rightarrow> bool" where
  "IsStrongManagedPointerType type \<longleftrightarrow> CanonicalOwnership type = OK_Unique"

definition IsPointerType :: "string \<Rightarrow> bool" where
  "IsPointerType type \<longleftrightarrow> CanonicalOwnership type \<noteq> OK_None"

definition PointerPointee :: "string \<Rightarrow> string" where
  "PointerPointee type = CanonicalPointeeName type"

definition IsTaskType :: "string \<Rightarrow> bool" where
  "IsTaskType type \<longleftrightarrow> length type > 6 \<and> starts_with type ''task<'' \<and> ends_with type ''>''"

definition TaskValueType :: "string \<Rightarrow> string" where
  "TaskValueType type =
     (if IsTaskType type then take (length type - 6) (drop 5 type) else ''error'')"

definition IsPrintableType :: "string \<Rightarrow> bool" where
  "IsPrintableType type \<longleftrightarrow> type \<in> set [''bool'', ''string'', ''char'', ''null'', ''dynamic'', ''error'',
     ''float'', ''double''] \<or> IsIntegerTypeName type"

definition IsBuiltinFunction :: "string \<Rightarrow> bool" where
  "IsBuiltinFunction name \<longleftrightarrow> name \<in> set [''print'', ''println'', ''format'', ''toString'',
     ''assert'', ''copy'', ''move'', ''isOwner'', ''debugBreak'', ''adoptRaw'', ''retainRaw'',
     ''borrowRaw'', ''share'', ''unsafeArrayGet'', ''unsafeArraySet'', ''unsafeArrayData'',
     ''unsafeArrayCopy'', ''unsafeArrayMove'', ''unsafeArrayTake'', ''unsafeArrayDrop'', ''seal'',
     ''unseal'', ''load'', ''isLoaded'', ''loadError'', ''taskGroupAdd'', ''tuple'']"

definition HasModifier :: "stmt \<Rightarrow> string \<Rightarrow> bool" where
  "HasModifier st name \<longleftrightarrow> list_ex (\<lambda>m. tok_value m = name) (s_modifiers (sinfo st))"

section \<open>Arrays\<close>

abbreviation chop_array :: "string \<Rightarrow> string" where
  "chop_array type \<equiv> take (length type - 2) type"

lemma chop_array_length: "ends_with type ''[]'' \<Longrightarrow> length (chop_array type) < length type"
  by (auto simp: ends_with_def)

function ArrayRank :: "string \<Rightarrow> nat" where
  "ArrayRank type = (if ends_with type ''[]'' then Suc (ArrayRank (chop_array type)) else 0)"
  by pat_completeness auto
termination
  by (relation "measure length") (use chop_array_length in auto)

fun ArrayElementType :: "string \<Rightarrow> nat \<Rightarrow> string" where
  "ArrayElementType type 0 = type"
| "ArrayElementType type (Suc dimensions) =
     (if ends_with type ''[]'' then ArrayElementType (chop_array type) dimensions else type)"

fun ArrayType :: "string \<Rightarrow> nat \<Rightarrow> string" where
  "ArrayType elementType 0 = elementType"
| "ArrayType elementType (Suc rank) = ArrayType (elementType @ ''[]'') rank"

declare ArrayRank.simps [simp del]

text \<open>
  The extents of a rectangular array literal; an element that is not itself a literal has the
  empty shape. \<open>None\<close> is a literal that is not rectangular.
\<close>

fun same_shapes :: "nat list option list \<Rightarrow> nat list option" where
  "same_shapes [] = Some []"
| "same_shapes (None # ss) = None"
| "same_shapes (Some s # ss) = (if list_all (\<lambda>x. x = Some s) ss then Some s else None)"

fun shape_of :: "(nat list option, 's) expr_kind \<Rightarrow> nat list option" where
  "shape_of (ArrayExpr sizes elements) =
     map_option (\<lambda>s. length elements # s)
       (same_shapes (map (\<lambda>e. case e of None \<Rightarrow> Some [] | Some s \<Rightarrow> s) elements))"
| "shape_of k = Some []"

primrec InferArrayShape :: "expr \<Rightarrow> nat list option" and InferArrayShape_stmt :: "stmt \<Rightarrow> unit" where
  "InferArrayShape (Expr i k) = shape_of (map_expr_kind InferArrayShape InferArrayShape_stmt k)"
| "InferArrayShape_stmt (Stmt i k) = ()"

definition size_max :: nat where
  "size_max = 2 ^ 64 - 1"

fun storage_count :: "nat list \<Rightarrow> nat \<Rightarrow> nat option" where
  "storage_count [] count = Some count"
| "storage_count (d # ds) count =
     (if d \<noteq> 0 \<and> count > size_max div d then None else storage_count ds (count * d))"

definition InferArrayStorageShape :: "expr \<Rightarrow> nat \<Rightarrow> nat list option" where
  "InferArrayStorageShape array declaredRank =
     (case InferArrayShape array of
        None \<Rightarrow> None
      | Some shape \<Rightarrow>
          if declaredRank \<noteq> 1 \<or> length shape \<le> 1 then Some shape
          else map_option (\<lambda>c. [c]) (storage_count shape 1))"

section \<open>Generic names\<close>

text \<open>
  The scan of the argument list: the parts up to each comma outside of brackets, and whether the
  scan reached the end. A closing bracket too many stops it; one too few does not.
\<close>

fun split_arguments :: "nat \<Rightarrow> string \<Rightarrow> string \<Rightarrow> bool \<times> string list" where
  "split_arguments depth part [] = (True, [part])"
| "split_arguments depth part (c # cs) =
     (if c = CHR ''<'' then split_arguments (Suc depth) (part @ [c]) cs
      else if c = CHR ''>'' then
        (if depth = 0 then (False, []) else split_arguments (depth - 1) (part @ [c]) cs)
      else if c = CHR '','' \<and> depth = 0 then
        (case split_arguments 0 [] cs of (ok, parts) \<Rightarrow> (ok, part # parts))
      else split_arguments depth (part @ [c]) cs)"

definition generic_shape :: "string \<Rightarrow> bool" where
  "generic_shape type \<longleftrightarrow> CHR ''<'' \<in> set type \<and> ends_with type ''>''"

definition generic_base :: "string \<Rightarrow> string" where
  "generic_base type = takeWhile (\<lambda>c. c \<noteq> CHR ''<'') type"

definition generic_parts :: "string \<Rightarrow> bool \<times> string list" where
  "generic_parts type = split_arguments 0 [] (butlast (tl (dropWhile (\<lambda>c. c \<noteq> CHR ''<'') type)))"

definition ParseGenericTypeName :: "string \<Rightarrow> (string \<times> string list) option" where
  "ParseGenericTypeName type =
     (if \<not> generic_shape type then None
      else
        case generic_parts type of (ok, arguments) \<Rightarrow>
          if ok \<and> generic_base type \<noteq> [] \<and> list_all (\<lambda>a. a \<noteq> []) arguments
          then Some (generic_base type, arguments) else None)"

fun commas :: "string list \<Rightarrow> string" where
  "commas [] = []"
| "commas [x] = x"
| "commas (x # y # ys) = x @ '','' @ commas (y # ys)"

definition generic_name :: "string \<Rightarrow> string list \<Rightarrow> string" where
  "generic_name base arguments = base @ ''<'' @ commas arguments @ ''>''"

subsection \<open>What is read is shorter\<close>

lemma split_arguments_length:
  "\<forall>a \<in> set (snd (split_arguments depth part s)). length a \<le> length part + length s"
proof (induction depth part s rule: split_arguments.induct)
  case (2 depth part c cs)
  show ?case
  proof (cases "c = CHR '','' \<and> depth = 0")
    case True
    with 2(3) show ?thesis by (fastforce split: prod.splits)
  next
    case False
    with 2(1,2,4) show ?thesis by (auto split: if_splits)
  qed
qed simp

lemma generic_parts_length:
  assumes "generic_shape type" and "a \<in> set (snd (generic_parts type))"
  shows "length a < length type"
proof -
  let ?rest = "dropWhile (\<lambda>c. c \<noteq> CHR ''<'') type"
  have "?rest \<noteq> []" using assms(1) by (auto simp: generic_shape_def dropWhile_eq_Nil_conv)
  then have "length (butlast (tl ?rest)) < length type"
    using length_dropWhile_le [of "\<lambda>c. c \<noteq> CHR ''<''" type] by (cases ?rest) auto
  moreover have "length a \<le> length (butlast (tl ?rest))"
    using split_arguments_length [of 0 "[]" "butlast (tl ?rest)"] assms(2)
    by (auto simp: generic_parts_def)
  ultimately show ?thesis by simp
qed

lemma ParseGenericTypeName_length:
  "ParseGenericTypeName type = Some (base, arguments) \<Longrightarrow> a \<in> set arguments \<Longrightarrow> length a < length type"
  using generic_parts_length [of type a]
  by (auto simp: ParseGenericTypeName_def split: if_splits prod.splits)

lemma ParseGenericTypeName_base_length:
  "ParseGenericTypeName type = Some (base, arguments) \<Longrightarrow> length base < length type"
  by (auto simp: ParseGenericTypeName_def generic_base_def generic_shape_def split: if_splits prod.splits)
    (metis (full_types) length_takeWhile_le nat_less_le takeWhile_eq_all_conv takeWhile_eq_take take_all_iff)

lemma ownership_nonempty: "CanonicalOwnership type \<noteq> OK_None \<Longrightarrow> type \<noteq> []"
  by (auto simp: CanonicalOwnership_def)

lemma CanonicalPointeeName_length:
  "CanonicalOwnership type \<noteq> OK_None \<Longrightarrow> length (CanonicalPointeeName type) < length type"
  using ownership_nonempty [of type] by (cases type) (auto simp: CanonicalPointeeName_def Let_def)

lemma CanonicalOpenBaseName_length:
  "CanonicalOpenOwnership type \<noteq> OK_None \<Longrightarrow> length (CanonicalOpenBaseName type) < length type"
  by (cases type) (auto simp: CanonicalOpenBaseName_def Let_def CanonicalOpenOwnership_def split: if_splits)

lemma CanonicalValueReferenceBaseType_length:
  "IsCanonicalValueReferenceType type \<Longrightarrow> length (CanonicalValueReferenceBaseType type) < length type"
  by (cases type) (auto simp: CanonicalValueReferenceBaseType_def Let_def
    IsCanonicalValueReferenceType_def)

lemmas name_lengths = chop_array_length ParseGenericTypeName_length CanonicalPointeeName_length
  CanonicalOpenBaseName_length CanonicalValueReferenceBaseType_length

section \<open>Substitution\<close>

function SubstituteGenericType :: "string \<Rightarrow> (string \<rightharpoonup> string) \<Rightarrow> string" where
  "SubstituteGenericType type substitutions =
     (if IsCanonicalValueReferenceType type then
        CanonicalValueReferenceType
          (SubstituteGenericType (CanonicalValueReferenceBaseType type) substitutions)
          (IsCanonicalConstValueReferenceType type) True
      else case substitutions type of
        Some found \<Rightarrow> found
      | None \<Rightarrow>
          if ends_with type ''[]'' then SubstituteGenericType (chop_array type) substitutions @ ''[]''
          else if CanonicalOpenOwnership type \<noteq> OK_None then
            (let base = CanonicalOpenBaseName type;
                 substituted = SubstituteGenericType base substitutions
             in if substituted = base
                then CanonicalOwnershipPrefix (CanonicalOpenOwnership type) @ substituted
                else CanonicalWithOwnership substituted (CanonicalOpenOwnership type))
          else if CanonicalOwnership type \<noteq> OK_None then
            CanonicalPointerName (SubstituteGenericType (CanonicalPointeeName type) substitutions)
              (CanonicalOwnership type)
          else case ParseGenericTypeName type of
            None \<Rightarrow> type
          | Some (base, arguments) \<Rightarrow>
              generic_name base (map (\<lambda>a. SubstituteGenericType a substitutions) arguments))"
  by pat_completeness auto
termination
  by (relation "measure (\<lambda>(type, _). length type)") (use name_lengths in auto)

declare SubstituteGenericType.simps [simp del]

definition ParseFunctionType :: "string \<Rightarrow> (string \<times> string list) option" where
  "ParseFunctionType type =
     (case ParseGenericTypeName type of
        Some (base, returnType # parameters) \<Rightarrow>
          if base = ''func'' then Some (returnType, parameters) else None
      | _ \<Rightarrow> None)"

definition FunctionTypeName :: "string \<Rightarrow> string list \<Rightarrow> string" where
  "FunctionTypeName returnType parameterTypes =
     ''func<'' @ returnType @ concat (map (\<lambda>p. '','' @ p) parameterTypes) @ ''>''"

definition ParseCFunctionType :: "string \<Rightarrow> (string \<times> string list) option" where
  "ParseCFunctionType type =
     (case ParseGenericTypeName type of
        Some (base, returnType # parameters) \<Rightarrow>
          if base = ''cfunc'' then Some (returnType, parameters) else None
      | _ \<Rightarrow> None)"

definition CFunctionTypeName :: "string \<Rightarrow> string list \<Rightarrow> string" where
  "CFunctionTypeName returnType parameterTypes =
     ''cfunc<'' @ returnType @ concat (map (\<lambda>p. '','' @ p) parameterTypes) @ ''>''"

section \<open>Unification\<close>

function MentionsGenericParameter :: "string \<Rightarrow> string list \<Rightarrow> bool" where
  "MentionsGenericParameter pattern parameters =
     (if pattern \<in> set parameters then True
      else if ends_with pattern ''[]'' then MentionsGenericParameter (chop_array pattern) parameters
      else if IsPointerType pattern then
        MentionsGenericParameter (PointerPointee pattern) parameters
      else case ParseGenericTypeName pattern of
        None \<Rightarrow> False
      | Some (base, arguments) \<Rightarrow> list_ex (\<lambda>a. MentionsGenericParameter a parameters) arguments)"
  by pat_completeness auto
termination
  by (relation "measure (\<lambda>(pattern, _). length pattern)")
    (use name_lengths in \<open>auto simp: IsPointerType_def PointerPointee_def\<close>)

declare MentionsGenericParameter.simps [simp del]

fun unify_weight :: "string list \<Rightarrow> nat" where
  "unify_weight [] = 0"
| "unify_weight (p # ps) = max (2 * length p) (unify_weight ps)"

lemma unify_weight_bound:
  "0 < n \<Longrightarrow> \<forall>a \<in> set ps. length a < n \<Longrightarrow> unify_weight ps < 2 * n"
  by (induction ps) auto

lemma unify_weight_arguments:
  "ParseGenericTypeName type = Some (base, arguments) \<Longrightarrow> unify_weight arguments < 2 * length type"
  using ParseGenericTypeName_length [of type base arguments] ParseGenericTypeName_base_length [of type base]
  by (intro unify_weight_bound) auto

text \<open>
  Whether the pattern can be made equal to the actual type, with the substitutions that are
  known after it: they are kept, as the caller's map is, when unification fails half-way.
\<close>

function UnifyGenericType ::
    "string \<Rightarrow> string \<Rightarrow> string list \<Rightarrow> (string \<rightharpoonup> string) \<Rightarrow> bool \<times> (string \<rightharpoonup> string)"
  and UnifyArguments ::
    "string list \<Rightarrow> string list \<Rightarrow> string list \<Rightarrow> (string \<rightharpoonup> string) \<Rightarrow> bool \<times> (string \<rightharpoonup> string)" where
  "UnifyGenericType pattern actual parameters s =
     (if \<not> MentionsGenericParameter pattern parameters then (True, s)
      else if pattern \<in> set parameters then
        (if CanonicalOpenOwnership actual \<noteq> OK_None \<and> CanonicalOpenBaseName actual = pattern
         then (True, s)
         else case s pattern of
           None \<Rightarrow> (True, s(pattern \<mapsto> actual))
         | Some found \<Rightarrow> (found = actual, s))
      else if ends_with pattern ''[]'' \<and> ends_with actual ''[]'' then
        UnifyGenericType (chop_array pattern) (chop_array actual) parameters s
      else if CanonicalOwnership pattern \<noteq> OK_None \<and>
          CanonicalOwnership pattern = CanonicalOwnership actual then
        UnifyGenericType (CanonicalPointeeName pattern) (CanonicalPointeeName actual) parameters s
      else case (ParseGenericTypeName pattern, ParseGenericTypeName actual) of
        (Some (patternBase, patternArguments), Some (actualBase, actualArguments)) \<Rightarrow>
          if patternBase \<noteq> actualBase \<or> length patternArguments \<noteq> length actualArguments
          then (False, s)
          else UnifyArguments patternArguments actualArguments parameters s
      | _ \<Rightarrow> (pattern = actual, s))"
| "UnifyArguments (p # ps) (a # as) parameters s =
     (case UnifyGenericType p a parameters s of
        (False, s') \<Rightarrow> (False, s')
      | (True, s') \<Rightarrow> UnifyArguments ps as parameters s')"
| "UnifyArguments [] as parameters s = (True, s)"
| "UnifyArguments (p # ps) [] parameters s = (True, s)"
  by pat_completeness auto

termination
  by (relation "measures [\<lambda>x. case x of Inl (pattern, _) \<Rightarrow> 2 * length pattern | Inr (ps, _) \<Rightarrow> unify_weight ps,
       \<lambda>x. case x of Inl _ \<Rightarrow> 0 | Inr (ps, _) \<Rightarrow> Suc (length ps)]")
    (use chop_array_length CanonicalPointeeName_length in \<open>auto dest: unify_weight_arguments [OF sym]\<close>)

declare UnifyGenericType.simps [simp del]

end
