(* ===== verification/Expression_Queries.thy ===== *)
theory Expression_Queries
  imports Type_Algebra Interpolation
begin

text \<open>
  What the semantic analyzer asks of an expression without any state
  (\<^verbatim>\<open>analyzer_internal.h\<close>, \<^verbatim>\<open>analyzer_operators.cpp\<close>, \<^verbatim>\<open>analyzer.cpp\<close>): explicit copies and moves,
  qualified names, constant default arguments, written shift amounts, the types and ranges of
  integer literals, and the placeholders of a format string. \<open>None\<close> is the dereference of a null
  child by a visitor.
\<close>

section \<open>The target of a call\<close>

fun is_member_access :: "('e, 's) expr_kind \<Rightarrow> bool" where
  "is_member_access (MemberAccessExpr base member) = True"
| "is_member_access k = False"

text \<open>\<open>CallTargetProbe\<close>: the identifier at the base, and whether a member access was visited.\<close>

primrec visits_member :: "expr \<Rightarrow> bool" and visits_member_stmt :: "stmt \<Rightarrow> unit" where
  "visits_member (Expr i k) =
     (is_member_access k \<or>
      list_ex (\<lambda>p. p = Some True) (followed (map_expr_kind visits_member visits_member_stmt k)))"
| "visits_member_stmt (Stmt i k) = ()"

definition names_builtin :: "expr \<Rightarrow> string \<Rightarrow> bool option" where
  "names_builtin base name =
     map_option (\<lambda>found. \<not> visits_member base \<and>
       (case found of Some (Expr i (IdentifierExpr n)) \<Rightarrow> n = name | _ \<Rightarrow> False))
       (GetIdentifierBase (Some base))"

definition IsExplicitMove :: "expr option \<Rightarrow> bool option" where
  "IsExplicitMove e =
     (case e of
        Some (Expr i (FunctionCallExpr (Some base) arguments)) \<Rightarrow> names_builtin base ''move''
      | _ \<Rightarrow> Some False)"

text \<open>Slices and copying subscripts (\<open>a[]\<close>) are looked through.\<close>

fun copied_from :: "expr option \<Rightarrow> expr option" where
  "copied_from None = None"
| "copied_from (Some (Expr i (SliceExpr base ranges))) = copied_from base"
| "copied_from (Some (Expr i (ArrayAccessExpr base indexes))) =
     (if indexes = [None] then copied_from base else Some (Expr i (ArrayAccessExpr base indexes)))"
| "copied_from (Some e) = Some e"

definition IsExplicitArrayCopy :: "expr option \<Rightarrow> bool option" where
  "IsExplicitArrayCopy e =
     (case copied_from e of
        Some (Expr i (ConstructorCallExpr constructName arguments raw)) \<Rightarrow> Some True
      | Some (Expr i (FunctionCallExpr (Some base) arguments)) \<Rightarrow> names_builtin base ''copy''
      | _ \<Rightarrow> Some False)"

section \<open>Names\<close>

text \<open>
  \<open>QualifiedNameVisitor\<close>: the four kinds of nodes that it treats itself; for every other kind it is
  the search for the base identifier, which visits the children of that kind with this visitor.
\<close>

type_synonym name_visitor = "string \<Rightarrow> string option"

definition visit_name :: "name_visitor option \<Rightarrow> name_visitor" where
  "visit_name child name = (case child of None \<Rightarrow> None | Some v \<Rightarrow> v name)"

definition visit_name_if :: "name_visitor option \<Rightarrow> name_visitor" where
  "visit_name_if child name = (case child of None \<Rightarrow> Some name | Some v \<Rightarrow> v name)"

fun visit_names :: "name_visitor option list \<Rightarrow> name_visitor" where
  "visit_names [] name = Some name"
| "visit_names (c # cs) name = Option.bind (visit_name_if c name) (visit_names cs)"

fun QualifiedName_Visit :: "(name_visitor, unit) expr_kind \<Rightarrow> name_visitor" where
  "QualifiedName_Visit (IdentifierExpr n) name = Some n"
| "QualifiedName_Visit (MemberAccessExpr base member) name =
     map_option (\<lambda>s. (if s \<noteq> [] then s @ ''.'' else s) @ member) (visit_name_if base name)"
| "QualifiedName_Visit (UserTypeExpr typeExpr) name = visit_name_if typeExpr name"
| "QualifiedName_Visit (TemplateExpr base types) name = visit_name_if base name"
| "QualifiedName_Visit (BinaryExpr op left right) name =
     Option.bind (visit_name left name) (visit_name right)"
| "QualifiedName_Visit (TernaryExpr c t f) name =
     Option.bind (Option.bind (visit_name c name) (visit_name t)) (visit_name f)"
| "QualifiedName_Visit (FunctionCallExpr base arguments) name = visit_name base name"
| "QualifiedName_Visit (ArrayAccessExpr base indexes) name = visit_name base name"
| "QualifiedName_Visit (PrefixUnaryExpr op operand) name = visit_name operand name"
| "QualifiedName_Visit (PostfixUnaryExpr op operand) name = visit_name operand name"
| "QualifiedName_Visit k name = visit_names (followed k) name"

primrec QualifiedName_Accept :: "expr \<Rightarrow> name_visitor" and QualifiedName_stmt :: "stmt \<Rightarrow> unit" where
  "QualifiedName_Accept (Expr i k) =
     QualifiedName_Visit (map_expr_kind QualifiedName_Accept QualifiedName_stmt k)"
| "QualifiedName_stmt (Stmt i k) = ()"

definition ExtractQualifiedName :: "expr option \<Rightarrow> string option" where
  "ExtractQualifiedName e = (case e of None \<Rightarrow> Some [] | Some e \<Rightarrow> QualifiedName_Accept e [])"

definition ExtractIdentifier :: "expr option \<Rightarrow> string option" where
  "ExtractIdentifier e =
     map_option (\<lambda>found. case found of Some (Expr i (IdentifierExpr name)) \<Rightarrow> name | _ \<Rightarrow> [])
       (GetIdentifierBase e)"

section \<open>Constants\<close>

definition IsConstantDefaultArgument :: "expr option \<Rightarrow> bool" where
  "IsConstantDefaultArgument e =
     (case map_option ekind e of
        Some (NumberLiteralExpr n) \<Rightarrow> True
      | Some (BooleanLiteralExpr b) \<Rightarrow> True
      | Some (CharLiteralExpr c) \<Rightarrow> True
      | Some (StringLiteralExpr s) \<Rightarrow> True
      | Some NullExpr \<Rightarrow> True
      | Some (PrefixUnaryExpr op (Some (Expr i (NumberLiteralExpr n)))) \<Rightarrow> op = ''-''
      | _ \<Rightarrow> False)"

text \<open>Which parameters have a default, and how many of the last ones in a row.\<close>

definition parameterDefaults :: "expr list \<Rightarrow> expr option list" where
  "parameterDefaults parameters =
     map (\<lambda>p. case ekind p of VarDeclExpr type name value flags \<Rightarrow> value | _ \<Rightarrow> None) parameters"

definition defaultedParameters :: "expr option list \<Rightarrow> nat" where
  "defaultedParameters defaults = length (takeWhile (\<lambda>d. d \<noteq> None) (rev defaults))"

definition IntegerWidth :: "string \<Rightarrow> nat" where
  "IntegerWidth type =
     (if type \<in> set [''int8'', ''uint8'', ''char''] then 8
      else if type \<in> set [''int16'', ''uint16''] then 16
      else if type \<in> set [''int64'', ''uint64''] then 64
      else 32)"

definition stoull_value :: "string \<Rightarrow> nat option" where
  "stoull_value s = (case stoull 10 s of Inl e \<Rightarrow> None | Inr (magnitude, consumed) \<Rightarrow> Some magnitude)"

definition WrittenShiftAmount :: "expr option \<Rightarrow> (nat \<times> bool) option" where
  "WrittenShiftAmount e =
     (let signed = (case map_option ekind e of
            Some (PrefixUnaryExpr op operand) \<Rightarrow>
              if op = ''-'' \<or> op = ''+'' then (operand, op = ''-'') else (e, False)
          | _ \<Rightarrow> (e, False))
      in case map_option ekind (fst signed) of
           Some (NumberLiteralExpr n) \<Rightarrow>
             if IsFloatingLiteral n then None
             else map_option (\<lambda>magnitude. (magnitude, snd signed)) (stoull_value n)
         | _ \<Rightarrow> None)"

definition IntegerLiteralType :: "string \<Rightarrow> bool \<Rightarrow> string" where
  "IntegerLiteralType text negated =
     (case stoull_value text of
        None \<Rightarrow> ''uint64''
      | Some parsed \<Rightarrow>
          let signedMaximum = 2 ^ 63 - 1 + (if negated then 1 else 0);
              narrowMaximum = 2 ^ 31 - 1 + (if negated then 1 else 0)
          in if parsed \<le> narrowMaximum then ''int32''
             else if parsed \<le> signedMaximum then ''int64''
             else ''uint64'')"

definition literal_limits :: "string \<rightharpoonup> nat \<times> nat" where
  "literal_limits = map_of [(''int8'', (127, 128)), (''int16'', (32767, 32768)),
     (''int32'', (2147483647, 2147483648)),
     (''int64'', (9223372036854775807, 9223372036854775808)),
     (''uint8'', (255, 256)), (''uint16'', (65535, 65536)), (''uint32'', (4294967295, 4294967296)),
     (''uint64'', (18446744073709551615, 18446744073709551615)), (''char'', (255, 256))]"

definition IntegerLiteralFits :: "string \<Rightarrow> nat \<Rightarrow> bool \<Rightarrow> bool" where
  "IntegerLiteralFits target magnitude negative =
     (case literal_limits target of
        None \<Rightarrow> True
      | Some (positive, negated) \<Rightarrow> magnitude \<le> (if negative then negated else positive))"

section \<open>Format strings\<close>

fun CountFormatPlaceholders :: "string \<Rightarrow> nat option" where
  "CountFormatPlaceholders [] = Some 0"
| "CountFormatPlaceholders (c # rest) =
     (if c = CHR ''{'' then
        (case rest of
           [] \<Rightarrow> None
         | next # rest' \<Rightarrow>
             if next = CHR ''{'' then CountFormatPlaceholders rest'
             else if next = CHR ''}'' then map_option Suc (CountFormatPlaceholders rest')
             else None)
      else if c = CHR ''}'' then
        (case rest of
           [] \<Rightarrow> None
         | next # rest' \<Rightarrow> if next = CHR ''}'' then CountFormatPlaceholders rest' else None)
      else CountFormatPlaceholders rest)"

lemma accepts_map_sum: "(\<exists>r. map_sum id f x = Inr r) = (\<exists>r. x = Inr r)"
  by (cases x) simp_all

text \<open>
  The analyzer and the code generator agree on format strings: the number of placeholders that
  the analyzer counts in a template is the number of values with which \<open>BuildFormat\<close> accepts it,
  and a template the analyzer rejects is rejected with any values.
\<close>

theorem placeholders_match_format:
  "(\<exists>r. BuildFormat template specifiers = Inr r) =
     (CountFormatPlaceholders template = Some (length specifiers))"
proof (induction template specifiers rule: BuildFormat.induct)
  case (2 c rest specifiers)
  consider "c = CHR ''%''" | "c = CHR ''{''" | "c = CHR ''}''"
    | "c \<noteq> CHR ''%''" "c \<noteq> CHR ''{''" "c \<noteq> CHR ''}''" by blast
  then show ?case
  proof cases
    case 2
    with "2.IH"(2,3) show ?thesis
      by (cases rest; cases specifiers) (simp_all add: accepts_map_sum)
  next
    case 3
    with "2.IH"(4) show ?thesis by (cases rest) (simp_all add: accepts_map_sum)
  qed (use "2.IH"(1,5) in \<open>simp_all add: accepts_map_sum\<close>)
qed simp

end
