(* ===== verification/Type_Terms.thy ===== *)
theory Type_Terms
  imports Type_Algebra
begin

text \<open>
  The types that the canonical names spell, as terms, and the operations on names against the
  operations on terms: reading a generic name gives back its base and its arguments, two terms
  with one name are equal, substitution in a name is substitution in the term, and unification
  finds the arguments of an instance. The names the code keeps apart are those of \<open>well_named\<close>
  terms: a unique handle to something that is itself qualified is excluded, as its name reads as
  another type (\<open>unique_to_raw_name_collides\<close> in theory \<^verbatim>\<open>Type_Names\<close>).
\<close>

section \<open>Terms and their names\<close>

datatype ty =
  Named string
| Applied string "ty list"
| Handle OwnershipKind ty
| ArrayOf ty
| Qualified OwnershipKind string

primrec spell :: "ty \<Rightarrow> string" where
  "spell (Named n) = n"
| "spell (Applied b ts) = generic_name b (map spell ts)"
| "spell (Handle k t) = CanonicalPointerName (spell t) k"
| "spell (ArrayOf t) = spell t @ ''[]''"
| "spell (Qualified k n) = CanonicalOwnershipPrefix k @ n"

definition plain :: "string \<Rightarrow> bool" where
  "plain n \<longleftrightarrow> n \<noteq> [] \<and> (\<forall>c \<in> set n. c \<noteq> CHR ''<'' \<and> c \<noteq> CHR ''>'' \<and> c \<noteq> CHR '','' \<and>
     c \<noteq> CHR ''*'' \<and> c \<noteq> CHR ''['' \<and> c \<noteq> CHR '']'' \<and> c \<noteq> CHR ''&'' \<and> c \<noteq> CHR '' '')"

primrec well_named :: "ty \<Rightarrow> bool" where
  "well_named (Named n) = plain n"
| "well_named (Applied b ts) = (plain b \<and> ts \<noteq> [] \<and> list_all (\<lambda>x. x) (map well_named ts))"
| "well_named (Handle k t) =
     (k \<noteq> OK_None \<and> well_named t \<and> (k = OK_Unique \<longrightarrow> \<not> has_qualifier (spell t)))"
| "well_named (ArrayOf t) = well_named t"
| "well_named (Qualified k n) = (k \<noteq> OK_None \<and> k \<noteq> OK_Unique \<and> plain n)"

section \<open>How names begin and end\<close>

lemma plain_nonempty: "plain n \<Longrightarrow> n \<noteq> []"
  by (simp add: plain_def)

lemma plain_last:
  "plain n \<Longrightarrow> last n \<noteq> CHR ''>'' \<and> last n \<noteq> CHR ''*'' \<and> last n \<noteq> CHR '']'' \<and> last n \<noteq> CHR ''&''"
  using last_in_set [of n] by (auto simp: plain_def)

lemma plain_no_space: "plain n \<Longrightarrow> CHR '' '' \<notin> set n"
  by (auto simp: plain_def)

lemma plain_no_bracket: "plain n \<Longrightarrow> CHR ''<'' \<notin> set n"
  by (auto simp: plain_def)

lemma ends_array_last: "ends_with s ''[]'' \<Longrightarrow> s \<noteq> [] \<and> last s = CHR '']''"
  by (auto simp: ends_with_iff)

lemma last_spell: "well_named t \<Longrightarrow> spell t \<noteq> [] \<and>
    last (spell t) = (case t of Named n \<Rightarrow> last n | Applied b ts \<Rightarrow> CHR ''>''
      | Handle k u \<Rightarrow> CHR ''*'' | ArrayOf u \<Rightarrow> CHR '']'' | Qualified k n \<Rightarrow> last n)"
  by (cases t) (auto simp: generic_name_def CanonicalPointerName_def plain_def)

lemma qualifier_space: "has_qualifier s \<Longrightarrow> \<exists>q t. s = q @ CHR '' '' # t \<and> CHR ''<'' \<notin> set q"
proof -
  assume "has_qualifier s"
  then obtain q t where "s = (q @ '' '') @ t" "q = ''raw'' \<or> q = ''weak'' \<or> q = ''sub''"
    unfolding has_qualifier_def starts_with_iff by (metis append_Cons append_Nil)
  then show ?thesis by (intro exI [of _ q] exI [of _ t]) auto
qed

lemma plain_not_qualified: "plain n \<Longrightarrow> \<not> has_qualifier n"
  using plain_no_space [of n] qualifier_space [of n] by auto

lemma generic_not_qualified: "plain b \<Longrightarrow> \<not> has_qualifier (generic_name b ss)"
proof
  assume b: "plain b" and "has_qualifier (generic_name b ss)"
  then obtain q t where q: "b @ CHR ''<'' # commas ss @ ''>'' = q @ CHR '' '' # t" "CHR ''<'' \<notin> set q"
    using qualifier_space by (force simp: generic_name_def)
  from q(1) have "takeWhile (\<lambda>c. c \<noteq> CHR ''<'') (b @ CHR ''<'' # commas ss @ ''>'') =
      takeWhile (\<lambda>c. c \<noteq> CHR ''<'') (q @ CHR '' '' # t)" by simp
  moreover have "\<forall>c \<in> set b. c \<noteq> CHR ''<''" "\<forall>c \<in> set q. c \<noteq> CHR ''<''"
    using q(2) plain_no_bracket [OF b] by auto
  ultimately have "b = q @ CHR '' '' # takeWhile (\<lambda>c. c \<noteq> CHR ''<'') t" by (simp add: takeWhile_append)
  with plain_no_space [OF b] show False by simp
qed

lemma no_ownership: "s \<noteq> [] \<Longrightarrow> last s \<noteq> CHR ''*'' \<Longrightarrow> CanonicalOwnership s = OK_None"
  by (auto simp: CanonicalOwnership_def ends_with_single)

lemma no_open_ownership: "\<not> has_qualifier s \<Longrightarrow> CanonicalOpenOwnership s = OK_None"
  by (auto simp: CanonicalOpenOwnership_def has_qualifier_def)

lemma handle_no_open [simp]: "CanonicalOpenOwnership (CanonicalPointerName p k) = OK_None"
  using CanonicalPointerName_shape [of p k] by (simp add: CanonicalOpenOwnership_def)

lemma open_ownership_prefix:
  assumes "k \<noteq> OK_None" "k \<noteq> OK_Unique" "plain n"
  shows "CanonicalOpenOwnership (CanonicalOwnershipPrefix k @ n) = k"
    and "CanonicalOpenBaseName (CanonicalOwnershipPrefix k @ n) = n"
proof -
  have "\<not> ends_with (p @ n) ''*''" for p
    using plain_last [OF assms(3)] plain_nonempty [OF assms(3)] by (simp add: ends_with_single)
  note this [of "CanonicalOwnershipPrefix k"]
  with assms(1,2) show *: "CanonicalOpenOwnership (CanonicalOwnershipPrefix k @ n) = k"
    by (cases k) (simp_all add: CanonicalOpenOwnership_def str_simps)
  with assms(1) show "CanonicalOpenBaseName (CanonicalOwnershipPrefix k @ n) = n"
    by (simp add: CanonicalOpenBaseName_def)
qed

lemma spell_reference [simp]: "well_named t \<Longrightarrow> \<not> IsCanonicalValueReferenceType (spell t)"
  using last_spell [of t] by (cases t) (auto simp: IsCanonicalValueReferenceType_def
      ends_with_single dest: plain_last)

lemma spell_array_end:
  "well_named t \<Longrightarrow> ends_with (spell t) ''[]'' = (case t of ArrayOf u \<Rightarrow> True | _ \<Rightarrow> False)"
  using last_spell [of t] ends_array_last [of "spell t"]
  by (cases t) (auto simp: ends_with_append dest: plain_last)

lemma spell_ownership:
  "well_named t \<Longrightarrow> CanonicalOwnership (spell t) = (case t of Handle k u \<Rightarrow> k | _ \<Rightarrow> OK_None)"
proof (cases t)
  case (Handle k u)
  then show "well_named t \<Longrightarrow> ?thesis" by (simp add: ownership_of_pointer_name)
qed (use last_spell [of t] no_ownership [of "spell t"] in \<open>auto dest: plain_last\<close>)

lemma spell_pointee:
  "well_named (Handle k u) \<Longrightarrow> CanonicalPointeeName (spell (Handle k u)) = spell u"
  by (simp add: pointee_of_pointer_name)

section \<open>Reading generic names\<close>

text \<open>Text that the scan of arguments takes as a whole at a given depth.\<close>

definition passes :: "nat \<Rightarrow> string \<Rightarrow> bool" where
  "passes d s \<longleftrightarrow> (\<forall>part rest. split_arguments d part (s @ rest) = split_arguments d (part @ s) rest)"

lemma passes_Nil [simp]: "passes d []"
  by (simp add: passes_def)

lemma passes_append [intro]: "passes d s \<Longrightarrow> passes d t \<Longrightarrow> passes d (s @ t)"
  by (simp add: passes_def)

lemma passes_char: "c \<noteq> CHR ''<'' \<Longrightarrow> c \<noteq> CHR ''>'' \<Longrightarrow> c \<noteq> CHR '','' \<Longrightarrow> passes d [c]"
  by (simp add: passes_def)

lemma passes_comma: "passes (Suc d) '',''"
  by (simp add: passes_def)

lemma passes_brackets: "passes (Suc d) s \<Longrightarrow> passes d (''<'' @ s @ ''>'')"
  by (simp add: passes_def)

lemma passes_chars:
  "\<forall>c \<in> set s. c \<noteq> CHR ''<'' \<and> c \<noteq> CHR ''>'' \<and> c \<noteq> CHR '','' \<Longrightarrow> passes d s"
proof (induction s)
  case (Cons c s)
  then show ?case using passes_append [OF passes_char [of c d], of s] by simp
qed simp

lemma passes_plain [simp]: "plain n \<Longrightarrow> passes d n"
  by (rule passes_chars) (simp add: plain_def)

lemma passes_commas: "list_all (passes (Suc d)) ss \<Longrightarrow> passes (Suc d) (commas ss)"
  by (induction ss rule: commas.induct)
    (auto intro!: passes_append passes_append [OF passes_comma, unfolded append_Cons append_Nil])

lemma passes_prefix [simp]: "passes d (CanonicalOwnershipPrefix k)"
  by (cases k) (auto intro!: passes_chars)

lemma passes_spell: "well_named t \<Longrightarrow> passes d (spell t)"
proof (induction t arbitrary: d)
  case (Applied b ts)
  then have "list_all (passes (Suc d)) (map spell ts)" by (auto simp: list_all_iff)
  then show ?case
    using Applied.prems by (auto simp: generic_name_def intro!: passes_append
      passes_brackets [OF passes_commas, unfolded append_Cons append_Nil])
next
  case (Handle k t)
  then have "passes d (spell t)" by simp
  then show ?case unfolding spell.simps CanonicalPointerName_def
    by (intro passes_append passes_prefix) (simp_all add: passes_char)
next
  case (ArrayOf t)
  then have "passes d (spell t)" by simp
  moreover have "passes d ''[]''" by (rule passes_chars) simp
  ultimately show ?case by (simp add: passes_append)
qed (auto intro!: passes_append)

lemma split_commas:
  "ss \<noteq> [] \<Longrightarrow> list_all (passes 0) ss \<Longrightarrow> split_arguments 0 [] (commas ss) = (True, ss)"
proof (induction ss rule: commas.induct)
  case (2 x)
  then have "split_arguments 0 [] (x @ []) = split_arguments 0 ([] @ x) []"
    by (simp only: passes_def list.pred_inject)
  then show ?case by simp
next
  case (3 x y ys)
  then have "split_arguments 0 [] (x @ CHR '','' # commas (y # ys)) =
      split_arguments 0 ([] @ x) (CHR '','' # commas (y # ys))"
    by (simp only: passes_def list.pred_inject)
  with 3 show ?case by simp
qed simp

lemma ParseGenericTypeName_generic:
  assumes "plain b" and "ss \<noteq> []" and "list_all (passes 0) ss" and "list_all (\<lambda>s. s \<noteq> []) ss"
  shows "ParseGenericTypeName (generic_name b ss) = Some (b, ss)"
proof -
  have "CHR ''<'' \<notin> set b" using assms(1) by (rule plain_no_bracket)
  then have "takeWhile (\<lambda>c. c \<noteq> CHR ''<'') (b @ CHR ''<'' # commas ss @ ''>'') = b"
    "dropWhile (\<lambda>c. c \<noteq> CHR ''<'') (b @ CHR ''<'' # commas ss @ ''>'') = CHR ''<'' # commas ss @ ''>''"
    by (auto simp: takeWhile_append dropWhile_append)
  moreover have "ends_with (generic_name b ss) ''>''"
    unfolding generic_name_def by (simp add: ends_with_single)
  moreover have "b \<noteq> []" using assms(1) by (simp add: plain_def)
  ultimately show ?thesis
    using split_commas [OF assms(2,3)] assms(4)
    by (simp add: ParseGenericTypeName_def generic_shape_def generic_base_def generic_parts_def
        generic_name_def butlast_append)
qed

lemma not_generic: "s = [] \<or> last s \<noteq> CHR ''>'' \<Longrightarrow> ParseGenericTypeName s = None"
  by (auto simp: ParseGenericTypeName_def generic_shape_def ends_with_single)

lemma spell_parse:
  "well_named t \<Longrightarrow> ParseGenericTypeName (spell t) =
     (case t of Applied b ts \<Rightarrow> Some (b, map spell ts) | _ \<Rightarrow> None)"
proof (cases t)
  case (Applied b ts)
  assume t: "well_named t"
  then have "list_all (passes 0) (map spell ts)" "list_all (\<lambda>s. s \<noteq> []) (map spell ts)"
    using passes_spell last_spell Applied by (auto simp: list_all_iff)
  with t Applied show ?thesis by (auto intro!: ParseGenericTypeName_generic)
qed (use last_spell [of t] not_generic [of "spell t"] in \<open>auto dest: plain_last\<close>)

section \<open>Names determine terms\<close>

lemma spell_open:
  "well_named t \<Longrightarrow> \<not> ends_with (spell t) ''[]'' \<Longrightarrow> CanonicalOpenOwnership (spell t) =
     (case t of Qualified k n \<Rightarrow> k | _ \<Rightarrow> OK_None)"
  by (cases t) (auto simp: open_ownership_prefix plain_not_qualified generic_not_qualified
      no_open_ownership ends_with_append)

lemma map_spell_inj:
  assumes "\<And>t u. t \<in> set ts \<Longrightarrow> well_named u \<Longrightarrow> spell t = spell u \<Longrightarrow> t = u"
    and "list_all well_named us" and "map spell ts = map spell us"
  shows "ts = us"
  using assms
proof (induction ts arbitrary: us)
  case (Cons t ts)
  then show ?case by (cases us) auto
qed simp

lemma list_all_id: "list_all (\<lambda>x. x) (map f xs) = list_all f xs"
  by (simp add: list_all_iff)

lemma spell_inj: "well_named t \<Longrightarrow> well_named u \<Longrightarrow> spell t = spell u \<Longrightarrow> t = u"
proof (induction t arbitrary: u)
  case (Applied b ts)
  let ?t = "Applied b ts"
  have "ParseGenericTypeName (spell u) = Some (b, map spell ts)"
    using spell_parse [OF Applied.prems(1)] unfolding Applied.prems(3) [symmetric] by simp
  then obtain us where u: "u = Applied b us" "map spell ts = map spell us"
    using spell_parse [OF Applied.prems(2)] by (cases u) auto
  have "list_all well_named us" using Applied.prems(2) unfolding u(1) by (simp add: list_all_id)
  moreover have "list_all well_named ts" using Applied.prems(1) by (simp add: list_all_id)
  ultimately have "ts = us"
    using Applied.IH u(2) by (intro map_spell_inj) (auto simp: list_all_iff)
  with u(1) show ?case by simp
next
  case (Handle k t)
  have "CanonicalOwnership (spell u) = k" "k \<noteq> OK_None"
    using spell_ownership [OF Handle.prems(1)] Handle.prems(1) unfolding Handle.prems(3) [symmetric]
    by simp_all
  then obtain v where u: "u = Handle k v"
    using spell_ownership [OF Handle.prems(2)] by (cases u) auto
  then have "spell t = spell v"
    using spell_pointee [OF Handle.prems(1)] spell_pointee [of k v] Handle.prems(2)
    unfolding Handle.prems(3) by simp
  moreover have "well_named t" "well_named v" using Handle.prems(1,2) u by simp_all
  ultimately show ?case using Handle.IH u by blast
next
  case (ArrayOf t)
  have "ends_with (spell u) ''[]''"
    using spell_array_end [OF ArrayOf.prems(1)] unfolding ArrayOf.prems(3) [symmetric] by simp
  then obtain v where u: "u = ArrayOf v" using spell_array_end [OF ArrayOf.prems(2)] by (cases u) auto
  have "well_named t" "well_named v" "spell t = spell v" using ArrayOf.prems u by simp_all
  with ArrayOf.IH u show ?case by blast
next
  case (Named n)
  let ?t = "Named n"
  have "\<not> ends_with (spell u) ''[]''" "CanonicalOwnership (spell u) = OK_None"
    "ParseGenericTypeName (spell u) = None" "CanonicalOpenOwnership (spell u) = OK_None"
    using spell_array_end [of ?t] spell_ownership [of ?t] spell_parse [of ?t] spell_open [of ?t]
    unfolding Named(3) [symmetric] using Named(1) by simp_all
  then obtain m where "u = Named m"
    using spell_array_end [of u] spell_ownership [of u] spell_parse [of u] spell_open [of u] Named(2)
    by (cases u) simp_all
  with Named(3) show ?case by simp
next
  case (Qualified k n)
  let ?t = "Qualified k n"
  have "\<not> ends_with (spell u) ''[]''" "CanonicalOpenOwnership (spell u) = k"
    using spell_array_end [of ?t] spell_open [of ?t]
    unfolding Qualified(3) [symmetric] using Qualified(1) by simp_all
  moreover have "k \<noteq> OK_None" using Qualified(1) by simp
  ultimately obtain m where "u = Qualified k m"
    using spell_open [of u] Qualified(2) by (cases u) simp_all
  with Qualified(3) show ?case by simp
qed

section \<open>Substitution\<close>

primrec qualify :: "OwnershipKind \<Rightarrow> ty \<Rightarrow> ty" where
  "qualify k (Named n) = Named n"
| "qualify k (Applied b ts) = Applied b ts"
| "qualify k (Handle k' t) = Handle k t"
| "qualify k (ArrayOf t) = ArrayOf (qualify k t)"
| "qualify k (Qualified k' n) = Qualified k' n"

primrec subst :: "(string \<rightharpoonup> ty) \<Rightarrow> ty \<Rightarrow> ty" where
  "subst \<sigma> (Named n) = (case \<sigma> n of None \<Rightarrow> Named n | Some t \<Rightarrow> t)"
| "subst \<sigma> (Applied b ts) = Applied b (map (subst \<sigma>) ts)"
| "subst \<sigma> (Handle k t) = Handle k (subst \<sigma> t)"
| "subst \<sigma> (ArrayOf t) = ArrayOf (subst \<sigma> t)"
| "subst \<sigma> (Qualified k n) =
     (case \<sigma> n of None \<Rightarrow> Qualified k n
      | Some t \<Rightarrow> if t = Named n then Qualified k n else qualify k t)"

definition named_substitution :: "(string \<rightharpoonup> ty) \<Rightarrow> bool" where
  "named_substitution \<sigma> \<longleftrightarrow> (\<forall>n t. \<sigma> n = Some t \<longrightarrow> plain n \<and> well_named t)"

definition spelled :: "(string \<rightharpoonup> ty) \<Rightarrow> string \<rightharpoonup> string" where
  "spelled \<sigma> n = map_option spell (\<sigma> n)"

lemma plain_spell: "well_named t \<Longrightarrow> plain (spell t) \<Longrightarrow> \<exists>n. t = Named n"
proof (cases t)
  case (Qualified k n)
  assume "well_named t" "plain (spell t)"
  with Qualified show ?thesis using plain_no_space [of "spell t"] by (cases k) auto
qed (auto simp: plain_def generic_name_def CanonicalPointerName_def)

lemma spelled_other:
  assumes "named_substitution \<sigma>" "well_named t" "\<And>n. t \<noteq> Named n"
  shows "spelled \<sigma> (spell t) = None"
proof (cases "\<sigma> (spell t)")
  case (Some u)
  with assms(1) have "plain (spell t)" by (simp add: named_substitution_def)
  with assms(2,3) plain_spell show ?thesis by blast
qed (simp add: spelled_def)

lemma CanonicalWithOwnership_spell:
  "well_named t \<Longrightarrow> CanonicalWithOwnership (spell t) k = spell (qualify k t)"
proof (induction t)
  case (ArrayOf t)
  then show ?case by (simp add: CanonicalWithOwnership.simps [of "spell t @ ''[]''"] ends_with_append)
next
  case (Handle k' t)
  then have "\<not> ends_with (spell (Handle k' t)) ''[]''" by simp
  with Handle show ?case
    using spell_ownership [of "Handle k' t"] spell_pointee [of k' t]
    by (simp add: CanonicalWithOwnership_scalar)
next
  case (Named n)
  then show ?case using spell_array_end [of "Named n"] spell_ownership [of "Named n"]
    by (simp add: CanonicalWithOwnership_scalar)
next
  case (Applied b ts)
  then show ?case using spell_array_end [of "Applied b ts"] spell_ownership [of "Applied b ts"]
    by (simp add: CanonicalWithOwnership_scalar del: well_named.simps)
next
  case (Qualified k' n)
  then show ?case using spell_array_end [of "Qualified k' n"] spell_ownership [of "Qualified k' n"]
    by (simp add: CanonicalWithOwnership_scalar del: well_named.simps)
qed

lemma spelled_named: "spelled \<sigma> n = (case \<sigma> n of None \<Rightarrow> None | Some t \<Rightarrow> Some (spell t))"
  by (simp add: spelled_def split: option.split)

lemma substitute_named:
  assumes "plain n"
  shows "SubstituteGenericType n (spelled \<sigma>) = spell (subst \<sigma> (Named n))"
  using assms spell_reference [of "Named n"] spell_array_end [of "Named n"] spell_open [of "Named n"]
    spell_ownership [of "Named n"] spell_parse [of "Named n"]
  by (simp add: SubstituteGenericType.simps [of n] spelled_named split: option.split)

lemma substitute_spell:
  assumes "named_substitution \<sigma>"
  shows "well_named t \<Longrightarrow> SubstituteGenericType (spell t) (spelled \<sigma>) = spell (subst \<sigma> t)"
proof (induction t)
  case (Named n)
  then show ?case using substitute_named [of n \<sigma>] by simp
next
  case (Applied b ts)
  let ?t = "Applied b ts"
  have args: "map (\<lambda>a. SubstituteGenericType a (spelled \<sigma>)) (map spell ts) = map spell (map (subst \<sigma>) ts)"
    using Applied by (simp add: list_all_id list_all_iff)
  have "SubstituteGenericType (spell ?t) (spelled \<sigma>) =
      generic_name b (map (\<lambda>a. SubstituteGenericType a (spelled \<sigma>)) (map spell ts))"
    using spell_reference [of ?t] spell_array_end [of ?t] spell_open [of ?t] spell_ownership [of ?t]
      spell_parse [of ?t] spelled_other [OF assms, of ?t] Applied.prems
    by (simp add: SubstituteGenericType.simps [of "spell ?t"] del: well_named.simps spell.simps)
  then show ?case by (simp only: args spell.simps subst.simps)
next
  case (Handle k t)
  let ?t = "Handle k t"
  have "SubstituteGenericType (spell ?t) (spelled \<sigma>) =
      CanonicalPointerName (SubstituteGenericType (spell t) (spelled \<sigma>)) k"
    using spell_reference [of ?t] spell_array_end [of ?t] spell_open [of ?t] spell_ownership [of ?t]
      spell_pointee [of k t] spelled_other [OF assms, of ?t] Handle.prems
    by (simp add: SubstituteGenericType.simps [of "spell ?t"] del: spell.simps)
  with Handle show ?case by simp
next
  case (ArrayOf t)
  let ?t = "ArrayOf t"
  have "SubstituteGenericType (spell ?t) (spelled \<sigma>) = SubstituteGenericType (spell t) (spelled \<sigma>) @ ''[]''"
    using spell_reference [of ?t] spell_array_end [of ?t] spelled_other [OF assms, of ?t] ArrayOf.prems
    by (simp add: SubstituteGenericType.simps [of "spell t @ ''[]''"])
  with ArrayOf show ?case by simp
next
  case (Qualified k n)
  let ?t = "Qualified k n"
  have n: "plain n" using Qualified by simp
  have open_name: "CanonicalOpenOwnership (spell ?t) = k" "CanonicalOpenBaseName (spell ?t) = n" "k \<noteq> OK_None"
    using Qualified open_ownership_prefix [of k n] by simp_all
  have same: "spell u = n \<longleftrightarrow> u = Named n" if "well_named u" for u
    using spell_inj [OF that, of "Named n"] n by auto
  have "SubstituteGenericType (spell ?t) (spelled \<sigma>) =
      (let substituted = spell (subst \<sigma> (Named n))
       in if substituted = n then CanonicalOwnershipPrefix k @ n
          else CanonicalWithOwnership substituted k)"
    using spell_reference [of ?t] spell_array_end [of ?t] open_name spelled_other [OF assms, of ?t] Qualified
      substitute_named [OF n, of \<sigma>]
    by (simp add: SubstituteGenericType.simps [of "spell ?t"] Let_def del: spell.simps subst.simps)
  also have "\<dots> = spell (subst \<sigma> ?t)"
    using assms same by (auto simp: named_substitution_def CanonicalWithOwnership_spell split: option.split)
  finally show ?case .
qed

section \<open>Inference\<close>

text \<open>The names a pattern can bind: those that no qualifier waits on.\<close>

primrec binds :: "ty \<Rightarrow> string set" where
  "binds (Named n) = {n}"
| "binds (Applied b ts) = \<Union> (set (map binds ts))"
| "binds (Handle k t) = binds t"
| "binds (ArrayOf t) = binds t"
| "binds (Qualified k n) = {}"

lemma mentions_spell:
  assumes "\<forall>n \<in> set ps. plain n"
  shows "well_named p \<Longrightarrow> MentionsGenericParameter (spell p) ps \<longleftrightarrow> binds p \<inter> set ps \<noteq> {}"
proof (induction p)
  case (Named n)
  then show ?case using spell_array_end [of "Named n"] spell_ownership [of "Named n"] spell_parse [of "Named n"]
    by (simp add: MentionsGenericParameter.simps [of n] IsPointerType_def)
next
  case (Applied b ts)
  let ?t = "Applied b ts"
  have "spell ?t \<notin> set ps" using assms plain_spell [OF Applied.prems] by auto
  then have "MentionsGenericParameter (spell ?t) ps \<longleftrightarrow>
      list_ex (\<lambda>a. MentionsGenericParameter a ps) (map spell ts)"
    using spell_array_end [of ?t] spell_ownership [of ?t] spell_parse [of ?t] Applied.prems
    by (simp add: MentionsGenericParameter.simps [of "spell ?t"] IsPointerType_def
        del: spell.simps well_named.simps)
  with Applied show ?case by (auto simp: list_ex_iff list_all_id list_all_iff)
next
  case (Handle k t)
  let ?t = "Handle k t"
  have "spell ?t \<notin> set ps" using assms plain_spell [OF Handle.prems] by auto
  then have "MentionsGenericParameter (spell ?t) ps \<longleftrightarrow> MentionsGenericParameter (spell t) ps"
    using spell_array_end [of ?t] spell_ownership [of ?t] spell_pointee [of k t] Handle.prems
    by (simp add: MentionsGenericParameter.simps [of "spell ?t"] IsPointerType_def PointerPointee_def
        del: spell.simps)
  with Handle show ?case by simp
next
  case (ArrayOf t)
  let ?t = "ArrayOf t"
  have "spell ?t \<notin> set ps" using assms plain_spell [OF ArrayOf.prems] by auto
  then have "MentionsGenericParameter (spell ?t) ps \<longleftrightarrow> MentionsGenericParameter (spell t) ps"
    using spell_array_end [of ?t] ArrayOf.prems
    by (simp add: MentionsGenericParameter.simps [of "spell t @ ''[]''"])
  with ArrayOf show ?case by simp
next
  case (Qualified k n)
  let ?t = "Qualified k n"
  have "spell ?t \<notin> set ps" using assms plain_spell [OF Qualified] by auto
  then show ?case
    using spell_array_end [of ?t] spell_ownership [of ?t] spell_parse [of ?t] Qualified
    by (simp add: MentionsGenericParameter.simps [of "spell ?t"] IsPointerType_def
        del: spell.simps well_named.simps)
qed

text \<open>A parameter is not inferred to be a qualified form of itself.\<close>

definition proper_arguments :: "string list \<Rightarrow> (string \<rightharpoonup> ty) \<Rightarrow> bool" where
  "proper_arguments ps \<sigma> \<longleftrightarrow> named_substitution \<sigma> \<and>
     (\<forall>n \<in> set ps. \<exists>t. \<sigma> n = Some t \<and> (\<forall>k. t \<noteq> Qualified k n))"

definition infers :: "string list \<Rightarrow> (string \<rightharpoonup> ty) \<Rightarrow> string set \<Rightarrow> (string \<rightharpoonup> string) \<Rightarrow>
    bool \<times> (string \<rightharpoonup> string) \<Rightarrow> bool" where
  "infers ps \<sigma> names s r \<longleftrightarrow>
     fst r \<and> s \<subseteq>\<^sub>m snd r \<and> snd r \<subseteq>\<^sub>m spelled \<sigma> \<and> names \<inter> set ps \<subseteq> dom (snd r)"

lemma infers_refl: "s \<subseteq>\<^sub>m spelled \<sigma> \<Longrightarrow> names \<inter> set ps = {} \<Longrightarrow> infers ps \<sigma> names s (True, s)"
  by (simp add: infers_def)

lemma infers_parameter:
  assumes "proper_arguments ps \<sigma>" and "s \<subseteq>\<^sub>m spelled \<sigma>" and "n \<in> set ps"
    and "\<not> (CanonicalOpenOwnership a \<noteq> OK_None \<and> CanonicalOpenBaseName a = n)" and "spelled \<sigma> n = Some a"
  shows "infers ps \<sigma> {n} s (case s n of None \<Rightarrow> (True, s(n \<mapsto> a)) | Some found \<Rightarrow> (found = a, s))"
proof (cases "s n")
  case None
  with assms show ?thesis by (auto simp: infers_def map_le_def)
next
  case (Some found)
  with assms(2,5) have "found = a" by (force simp: map_le_def)
  with assms(2) Some show ?thesis by (auto simp: infers_def)
qed

lemma infers_trans:
  assumes "infers ps \<sigma> M s (b, s')" and "infers ps \<sigma> N s' r"
  shows "infers ps \<sigma> (M \<union> N) s r"
proof -
  have "dom s' \<subseteq> dom (snd r)" "M \<inter> set ps \<subseteq> dom s'" "N \<inter> set ps \<subseteq> dom (snd r)"
    using assms map_le_implies_dom_le [of s' "snd r"] by (simp_all add: infers_def)
  then have "(M \<union> N) \<inter> set ps \<subseteq> dom (snd r)" by blast
  with assms map_le_trans [of s s' "snd r"] show ?thesis by (simp add: infers_def)
qed

lemma open_base_spell:
  assumes "well_named t" and "CanonicalOpenOwnership (spell t) \<noteq> OK_None"
    and "CanonicalOpenBaseName (spell t) = n" and "plain n"
  shows "\<exists>k. t = Qualified k n"
proof (cases t)
  case (Qualified k m)
  with assms show ?thesis using open_ownership_prefix [of k m] by auto
next
  case (ArrayOf u)
  obtain j where "CanonicalOpenBaseName (spell t) = drop j (spell t)"
    by (metis CanonicalOpenBaseName_def drop0)
  with assms(3,4) have "last n = last (spell t)" by (metis drop_eq_Nil2 last_drop not_le plain_nonempty)
  then have "last n = CHR '']''" using ArrayOf by simp
  with assms(4) plain_last show ?thesis by blast
qed (use spell_open [OF assms(1)] spell_array_end [OF assms(1)] assms(2) in simp_all)

lemma unify_arguments_instance:
  assumes "\<And>p s. p \<in> set ts \<Longrightarrow> s \<subseteq>\<^sub>m spelled \<sigma> \<Longrightarrow>
      infers ps \<sigma> (binds p) s (UnifyGenericType (spell p) (spell (subst \<sigma> p)) ps s)"
    and "s \<subseteq>\<^sub>m spelled \<sigma>"
  shows "infers ps \<sigma> (\<Union> (set (map binds ts))) s
    (UnifyArguments (map spell ts) (map (\<lambda>t. spell (subst \<sigma> t)) ts) ps s)"
  using assms
proof (induction ts arbitrary: s)
  case Nil
  then show ?case by (simp add: infers_refl)
next
  case (Cons t ts)
  obtain s' where u: "UnifyGenericType (spell t) (spell (subst \<sigma> t)) ps s = (True, s')"
    and i: "infers ps \<sigma> (binds t) s (True, s')"
    using Cons.prems by (cases "UnifyGenericType (spell t) (spell (subst \<sigma> t)) ps s")
      (fastforce simp: infers_def)
  have "s' \<subseteq>\<^sub>m spelled \<sigma>" using i by (simp add: infers_def)
  with Cons have "infers ps \<sigma> (\<Union> (set (map binds ts))) s'
      (UnifyArguments (map spell ts) (map (\<lambda>t. spell (subst \<sigma> t)) ts) ps s')" by simp
  with i have "infers ps \<sigma> (binds t \<union> \<Union> (set (map binds ts))) s
      (UnifyArguments (map spell ts) (map (\<lambda>t. spell (subst \<sigma> t)) ts) ps s')"
    by (rule infers_trans)
  with u show ?case by simp
qed

lemma unify_instance:
  assumes \<sigma>: "proper_arguments ps \<sigma>"
  shows "well_named p \<Longrightarrow> well_named (subst \<sigma> p) \<Longrightarrow> s \<subseteq>\<^sub>m spelled \<sigma> \<Longrightarrow>
    infers ps \<sigma> (binds p) s (UnifyGenericType (spell p) (spell (subst \<sigma> p)) ps s)"
proof (induction p arbitrary: s)
  case (Named n)
  show ?case
  proof (cases "n \<in> set ps")
    case True
    then obtain t where t: "\<sigma> n = Some t" "\<And>k. t \<noteq> Qualified k n" using \<sigma> by (auto simp: proper_arguments_def)
    have "well_named t" "plain n" using \<sigma> t by (auto simp: proper_arguments_def named_substitution_def)
    then have "\<not> (CanonicalOpenOwnership (spell t) \<noteq> OK_None \<and> CanonicalOpenBaseName (spell t) = n)"
      using open_base_spell t(2) by blast
    moreover have "MentionsGenericParameter n ps" using True by (simp add: MentionsGenericParameter.simps [of n])
    ultimately show ?thesis
      using infers_parameter [OF \<sigma> Named(3) True, of "spell t"] True t(1)
      by (auto simp: UnifyGenericType.simps [of n] spelled_def split: option.splits)
  next
    case False
    have "\<forall>n \<in> set ps. plain n" using \<sigma> by (auto simp: proper_arguments_def named_substitution_def)
    with mentions_spell [of ps "Named n"] Named(1) False have "\<not> MentionsGenericParameter n ps" by simp
    with Named(3) False show ?thesis by (simp add: UnifyGenericType.simps [of n] infers_refl)
  qed
next
  case (Applied b ts)
  let ?t = "Applied b ts" and ?u = "Applied b (map (subst \<sigma>) ts)"
  have ps: "\<forall>n \<in> set ps. plain n" using \<sigma> by (auto simp: proper_arguments_def named_substitution_def)
  show ?case
  proof (cases "MentionsGenericParameter (spell ?t) ps")
    case True
    have "spell ?t \<notin> set ps" using ps plain_spell [OF Applied.prems(1)] by auto
    then have "UnifyGenericType (spell ?t) (spell ?u) ps s =
        UnifyArguments (map spell ts) (map (\<lambda>t. spell (subst \<sigma> t)) ts) ps s"
      using True spell_array_end [of ?t] spell_ownership [of ?t] spell_parse [of ?t] spell_parse [of ?u]
        Applied.prems
      by (simp add: UnifyGenericType.simps [of "spell ?t"] comp_def del: spell.simps well_named.simps)
    moreover have "infers ps \<sigma> (\<Union> (set (map binds ts))) s
        (UnifyArguments (map spell ts) (map (\<lambda>t. spell (subst \<sigma> t)) ts) ps s)"
      using Applied by (intro unify_arguments_instance) (auto simp: list_all_id list_all_iff)
    ultimately show ?thesis by simp
  next
    case False
    with mentions_spell [OF ps Applied.prems(1)] Applied.prems(3) show ?thesis
      by (simp add: UnifyGenericType.simps [of "spell ?t"] infers_refl del: spell.simps binds.simps)
  qed
next
  case (Handle k t)
  let ?t = "Handle k t" and ?u = "Handle k (subst \<sigma> t)"
  have ps: "\<forall>n \<in> set ps. plain n" using \<sigma> by (auto simp: proper_arguments_def named_substitution_def)
  show ?case
  proof (cases "MentionsGenericParameter (spell ?t) ps")
    case True
    have "spell ?t \<notin> set ps" using ps plain_spell [OF Handle.prems(1)] by auto
    then have "UnifyGenericType (spell ?t) (spell ?u) ps s =
        UnifyGenericType (spell t) (spell (subst \<sigma> t)) ps s"
      using True spell_array_end [of ?t] spell_ownership [of ?t] spell_ownership [of ?u]
        spell_pointee [of k t] spell_pointee [of k "subst \<sigma> t"] Handle.prems
      by (simp add: UnifyGenericType.simps [of "spell ?t"] del: spell.simps)
    with Handle show ?thesis by simp
  next
    case False
    with mentions_spell [OF ps Handle.prems(1)] Handle.prems(3) show ?thesis
      by (simp add: UnifyGenericType.simps [of "spell ?t"] infers_refl del: spell.simps binds.simps)
  qed
next
  case (ArrayOf t)
  let ?t = "ArrayOf t" and ?u = "ArrayOf (subst \<sigma> t)"
  have ps: "\<forall>n \<in> set ps. plain n" using \<sigma> by (auto simp: proper_arguments_def named_substitution_def)
  show ?case
  proof (cases "MentionsGenericParameter (spell ?t) ps")
    case True
    have "spell ?t \<notin> set ps" using ps plain_spell [OF ArrayOf.prems(1)] by auto
    then have "UnifyGenericType (spell ?t) (spell ?u) ps s =
        UnifyGenericType (spell t) (spell (subst \<sigma> t)) ps s"
      using True spell_array_end [of ?t] spell_array_end [of ?u] ArrayOf.prems
      by (simp add: UnifyGenericType.simps [of "spell t @ ''[]''"])
    with ArrayOf show ?thesis by simp
  next
    case False
    with mentions_spell [OF ps ArrayOf.prems(1)] ArrayOf.prems(3) show ?thesis
      by (simp add: UnifyGenericType.simps [of "spell ?t"] infers_refl del: spell.simps binds.simps)
  qed
next
  case (Qualified k n)
  have ps: "\<forall>n \<in> set ps. plain n" using \<sigma> by (auto simp: proper_arguments_def named_substitution_def)
  from mentions_spell [OF ps Qualified(1)] Qualified(3) show ?case
    by (simp add: UnifyGenericType.simps [of "spell (Qualified k n)"] infers_refl del: spell.simps)
qed

section \<open>Properties\<close>

text \<open>
  Canonical names are unambiguous: the name of a generic type reads back as its base and its
  arguments, and two well-named types with the same name are the same type.
\<close>

theorem names_determine_types:
  assumes "well_named t" and "well_named u"
  shows "(spell t = spell u \<longleftrightarrow> t = u) \<and>
    (\<forall>b ts. t = Applied b ts \<longrightarrow> ParseGenericTypeName (spell t) = Some (b, map spell ts))"
  using assms spell_inj [of t u] spell_parse [OF assms(1)] by auto

text \<open>
  C33. Substituting in a name is substituting in the type it names: through references to handles of
  every kind, arrays, generic arguments and names on which a qualifier waits.
\<close>

theorem substitution_in_names:
  assumes "named_substitution \<sigma>" and "well_named t"
  shows "SubstituteGenericType (spell t) (spelled \<sigma>) = spell (subst \<sigma> t)"
  using assms by (rule substitute_spell)

text \<open>
  C32. Inference finds the type arguments of a call: unifying a parameter type with an instance of
  it succeeds and binds every parameter of the pattern to the type that was put in its place.
\<close>

theorem inference_finds_arguments:
  assumes "proper_arguments ps \<sigma>" and "well_named p" and "well_named (subst \<sigma> p)"
    and "UnifyGenericType (spell p) (spell (subst \<sigma> p)) ps Map.empty = (ok, s)"
  shows "ok \<and> (\<forall>n \<in> binds p \<inter> set ps. s n = map_option spell (\<sigma> n))"
proof -
  have i: "infers ps \<sigma> (binds p) Map.empty (ok, s)"
    using unify_instance [OF assms(1,2,3), of Map.empty] assms(4) by simp
  then have "s n = spelled \<sigma> n" if "n \<in> binds p \<inter> set ps" for n
    using that by (auto simp: infers_def map_le_def)
  with i show ?thesis by (simp add: infers_def spelled_def)
qed

definition map_pattern :: ty where
  "map_pattern = Applied ''Map'' [Named ''K'', ArrayOf (Handle OK_Sub (Named ''V''))]"

definition map_arguments :: "string \<rightharpoonup> ty" where
  "map_arguments = [''K'' \<mapsto> Named ''int32'', ''V'' \<mapsto> Applied ''Cell'' [Handle OK_Raw (Named ''Node'')]]"

lemma map_example:
  "well_named map_pattern" "well_named (subst map_arguments map_pattern)"
  "proper_arguments [''K'', ''V''] map_arguments"
  "spell map_pattern = ''Map<K,sub V*[]>''"
  "spell (subst map_arguments map_pattern) = ''Map<int32,sub Cell<raw Node*>*[]>''"
  by (simp_all add: map_pattern_def map_arguments_def proper_arguments_def named_substitution_def
      plain_def generic_name_def CanonicalPointerName_def)

lemma names_determine_types_witness:
  "ParseGenericTypeName ''Map<K,sub V*[]>'' = Some (''Map'', [''K'', ''sub V*[]''])"
proof -
  have "ParseGenericTypeName (spell map_pattern) =
      Some (''Map'', map spell [Named ''K'', ArrayOf (Handle OK_Sub (Named ''V''))])"
    using names_determine_types [OF map_example(1,1)] by (simp add: map_pattern_def)
  then show ?thesis by (simp add: map_example(4)) (simp add: CanonicalPointerName_def)
qed

lemma substitution_in_names_witness:
  "SubstituteGenericType ''Map<K,sub V*[]>'' [''K'' \<mapsto> ''int32'', ''V'' \<mapsto> ''Cell<raw Node*>''] =
     ''Map<int32,sub Cell<raw Node*>*[]>''"
proof -
  have "named_substitution map_arguments" using map_example(3) by (simp add: proper_arguments_def)
  note substitution_in_names [OF this map_example(1)]
  moreover have "spelled map_arguments = [''K'' \<mapsto> ''int32'', ''V'' \<mapsto> ''Cell<raw Node*>'']"
    by (auto simp: spelled_def map_arguments_def generic_name_def CanonicalPointerName_def)
  ultimately show ?thesis by (simp add: map_example(4,5))
qed

lemma inference_finds_arguments_witness:
  "\<exists>ok s. UnifyGenericType ''Map<K,sub V*[]>'' ''Map<int32,sub Cell<raw Node*>*[]>'' [''K'', ''V'']
       Map.empty = (ok, s) \<and> ok \<and> s ''K'' = Some ''int32'' \<and> s ''V'' = Some ''Cell<raw Node*>''"
proof -
  obtain ok s where u: "UnifyGenericType (spell map_pattern) (spell (subst map_arguments map_pattern))
      [''K'', ''V''] Map.empty = (ok, s)" by fastforce
  have "ok \<and> (\<forall>n \<in> {''K'', ''V''}. s n = map_option spell (map_arguments n))"
    using inference_finds_arguments [OF map_example(3,1,2) u] by (simp add: map_pattern_def)
  then have "ok \<and> s ''K'' = Some ''int32'' \<and> s ''V'' = Some ''Cell<raw Node*>''"
    by (simp add: map_arguments_def generic_name_def CanonicalPointerName_def)
  with u show ?thesis unfolding map_example(4,5) by blast
qed

end
