(* ===== verification/Symbol_Table.thy ===== *)
theory Symbol_Table
  imports Type_Algebra
begin

text \<open>
  The symbol table of the semantic analyzer (\<^verbatim>\<open>Absolute-Analyzer/src/symbol_table.cpp\<close> and the
  structures of \<^verbatim>\<open>analyzer.h\<close>): symbols in the order of their declaration, and a stack of scopes
  that map names to the first symbol of that name. The innermost scope is the last of the list.
  A symbol's number is 32 bits wide.
\<close>

section \<open>Symbols\<close>

type_synonym SymbolId = u32

definition InvalidSymbolId :: SymbolId where
  "InvalidSymbolId = - 1"

datatype AccessLevel = AL_Public | AL_Protected | AL_Private

datatype SymbolKind = SK_Variable | SK_Parameter | SK_Function | SK_Type | SK_Field | SK_Property
  | SK_Indexer | SK_Method | SK_Constructor | SK_Namespace

record symbol =
  sy_id :: SymbolId
  sy_kind :: SymbolKind
  sy_name :: string
  sy_type :: string
  sy_parameterTypes :: "string list"
  sy_scopeDepth :: nat
  sy_managedOwner :: bool
  sy_managedBorrower :: bool
  sy_asyncFunction :: bool
  sy_extensionFunction :: bool
  sy_externalFunction :: bool
  sy_exportedFunction :: bool
  sy_isConst :: bool
  sy_isStatic :: bool
  sy_valueReference :: bool
  sy_constValueReference :: bool
  sy_variadicParameter :: bool
  sy_canRead :: bool
  sy_canWrite :: bool
  sy_arrayStorageEscapes :: bool
  sy_ownsArrayStorage :: bool
  sy_rolePolymorphic :: bool
  sy_requiresOwner :: bool
  sy_parameterIndex :: "nat option"
  sy_callableOwner :: SymbolId
  sy_parameterRequiresOwner :: "bool list"
  sy_parameterDefaults :: "expr option list"
  sy_defaultedParameters :: nat
  sy_access :: AccessLevel
  sy_readAccess :: AccessLevel
  sy_writeAccess :: AccessLevel
  sy_memberOwner :: string
  sy_genericParameters :: "string list"
  sy_genericArguments :: "string list"
  sy_genericOrigin :: SymbolId

text \<open>A symbol as \<open>Declare\<close> makes it: every other member has its default.\<close>

definition new_symbol :: "SymbolId \<Rightarrow> SymbolKind \<Rightarrow> string \<Rightarrow> string \<Rightarrow> string list \<Rightarrow> nat \<Rightarrow> symbol" where
  "new_symbol i kind name type parameterTypes depth =
     \<lparr>sy_id = i, sy_kind = kind, sy_name = name, sy_type = type, sy_parameterTypes = parameterTypes,
      sy_scopeDepth = depth, sy_managedOwner = False, sy_managedBorrower = False,
      sy_asyncFunction = False, sy_extensionFunction = False, sy_externalFunction = False,
      sy_exportedFunction = False, sy_isConst = False, sy_isStatic = False,
      sy_valueReference = False, sy_constValueReference = False, sy_variadicParameter = False,
      sy_canRead = True, sy_canWrite = True, sy_arrayStorageEscapes = False,
      sy_ownsArrayStorage = False, sy_rolePolymorphic = False, sy_requiresOwner = False,
      sy_parameterIndex = None, sy_callableOwner = InvalidSymbolId, sy_parameterRequiresOwner = [],
      sy_parameterDefaults = [], sy_defaultedParameters = 0, sy_access = AL_Public,
      sy_readAccess = AL_Public, sy_writeAccess = AL_Public, sy_memberOwner = [],
      sy_genericParameters = [], sy_genericArguments = [], sy_genericOrigin = InvalidSymbolId\<rparr>"

definition callable_kind :: "SymbolKind \<Rightarrow> bool" where
  "callable_kind k \<longleftrightarrow> k = SK_Function \<or> k = SK_Method \<or> k = SK_Indexer \<or> k = SK_Constructor"

section \<open>The table\<close>

record symbol_table =
  symbols :: "symbol list"
  scopes :: "(string \<rightharpoonup> SymbolId) list"

definition Reset :: symbol_table where
  "Reset = \<lparr>symbols = [], scopes = [Map.empty]\<rparr>"

definition EnterScope :: "symbol_table \<Rightarrow> symbol_table" where
  "EnterScope t = t\<lparr>scopes := scopes t @ [Map.empty]\<rparr>"

definition ExitScope :: "symbol_table \<Rightarrow> symbol_table" where
  "ExitScope t = (if length (scopes t) > 1 then t\<lparr>scopes := butlast (scopes t)\<rparr> else t)"

definition ScopeDepth :: "symbol_table \<Rightarrow> nat" where
  "ScopeDepth t = (if scopes t = [] then 0 else length (scopes t) - 1)"

definition Get :: "symbol_table \<Rightarrow> SymbolId \<Rightarrow> symbol option" where
  "Get t i = (if unat i < length (symbols t) then Some (symbols t ! unat i) else None)"

definition sameParameterStorage :: "string list \<Rightarrow> string list \<Rightarrow> bool" where
  "sameParameterStorage xs ys \<longleftrightarrow>
     list_all2 (\<lambda>x y. CanonicalValueReferenceBaseType x = CanonicalValueReferenceBaseType y) xs ys"

definition same_signature :: "symbol_table \<Rightarrow> string \<Rightarrow> string list \<Rightarrow> symbol \<Rightarrow> bool" where
  "same_signature t name parameterTypes s \<longleftrightarrow>
     sy_scopeDepth s = ScopeDepth t \<and> sy_name s = name \<and> callable_kind (sy_kind s) \<and>
     sameParameterStorage (sy_parameterTypes s) parameterTypes"

definition Declare :: "SymbolKind \<Rightarrow> string \<Rightarrow> string \<Rightarrow> string list \<Rightarrow> symbol_table \<Rightarrow>
    SymbolId option \<times> symbol_table" where
  "Declare kind name type parameterTypes t0 =
     (let t = (if scopes t0 = [] then t0\<lparr>scopes := [Map.empty]\<rparr> else t0);
          found = last (scopes t) name;
          refused = (case found of
              None \<Rightarrow> False
            | Some i \<Rightarrow>
                \<not> callable_kind kind \<or>
                \<not> (case Get t i of None \<Rightarrow> False | Some s \<Rightarrow> callable_kind (sy_kind s)) \<or>
                list_ex (same_signature t name parameterTypes) (symbols t))
      in if refused then (None, t)
         else
           let i = of_nat (length (symbols t));
               innermost = last (scopes t)
           in (Some i,
               t\<lparr>symbols := symbols t @ [new_symbol i kind name type parameterTypes (ScopeDepth t)],
                 scopes := butlast (scopes t) @
                   [if found = None then innermost(name \<mapsto> i) else innermost]\<rparr>))"

fun lookup_scopes :: "(string \<rightharpoonup> SymbolId) list \<Rightarrow> string \<Rightarrow> SymbolId" where
  "lookup_scopes [] name = InvalidSymbolId"
| "lookup_scopes (scope # outer) name =
     (case scope name of Some i \<Rightarrow> i | None \<Rightarrow> lookup_scopes outer name)"

definition Lookup :: "symbol_table \<Rightarrow> string \<Rightarrow> SymbolId" where
  "Lookup t name = lookup_scopes (rev (scopes t)) name"

definition LookupCurrent :: "symbol_table \<Rightarrow> string \<Rightarrow> SymbolId" where
  "LookupCurrent t name =
     (if scopes t = [] then InvalidSymbolId
      else case last (scopes t) name of None \<Rightarrow> InvalidSymbolId | Some i \<Rightarrow> i)"

definition AppendSpecialization :: "symbol \<Rightarrow> symbol_table \<Rightarrow> SymbolId \<times> symbol_table" where
  "AppendSpecialization s t =
     (let i = of_nat (length (symbols t))
      in (i, t\<lparr>symbols := symbols t @ [s\<lparr>sy_id := i, sy_scopeDepth := ScopeDepth t\<rparr>]\<rparr>))"

section \<open>Well-formed tables\<close>

text \<open>
  Every symbol carries its own number, and a scope names symbols of its own depth by their name.
\<close>

definition scope_ok :: "symbol list \<Rightarrow> nat \<Rightarrow> (string \<rightharpoonup> SymbolId) \<Rightarrow> bool" where
  "scope_ok syms d scope \<longleftrightarrow>
     (\<forall>name i. scope name = Some i \<longrightarrow> unat i < length syms \<and> sy_name (syms ! unat i) = name \<and>
        sy_scopeDepth (syms ! unat i) = d)"

definition table_ok :: "symbol_table \<Rightarrow> bool" where
  "table_ok t \<longleftrightarrow> scopes t \<noteq> [] \<and> length (symbols t) < 2 ^ 32 \<and>
     (\<forall>n < length (symbols t). unat (sy_id (symbols t ! n)) = n) \<and>
     (\<forall>d < length (scopes t). scope_ok (symbols t) d (scopes t ! d))"

lemma scope_ok_extend: "scope_ok syms d scope \<Longrightarrow> scope_ok (syms @ syms') d scope"
  by (fastforce simp: scope_ok_def nth_append)

lemma scope_ok_empty [simp]: "scope_ok syms d Map.empty"
  by (simp add: scope_ok_def)

lemma Reset_ok: "table_ok Reset"
  by (simp add: table_ok_def Reset_def)

lemma EnterScope_ok: "table_ok t \<Longrightarrow> table_ok (EnterScope t)"
  by (auto simp: table_ok_def EnterScope_def nth_append less_Suc_eq)

lemma ExitScope_ok: "table_ok t \<Longrightarrow> table_ok (ExitScope t)"
  by (auto simp: table_ok_def ExitScope_def nth_butlast simp flip: length_greater_0_conv)

lemma unat_next: "length syms < 2 ^ 32 \<Longrightarrow> unat (of_nat (length syms) :: u32) = length syms"
  by (simp add: unsigned_of_nat take_bit_nat_eq_self)

lemma scope_ok_append:
  assumes "scope_ok syms d scope" and "length syms < 2 ^ 32" and "sy_name s = name" and "sy_scopeDepth s = d"
  shows "scope_ok (syms @ [s]) d (scope(name \<mapsto> of_nat (length syms)))"
  using scope_ok_extend [OF assms(1), of "[s]"] assms(2-4) unat_next [of syms]
  by (auto simp: scope_ok_def)

lemma Declare_cases:
  assumes "table_ok t"
  obtains (refused) "Declare kind name type ps t = (None, t)"
  | (fresh) "Declare kind name type ps t = (Some (of_nat (length (symbols t))),
        t\<lparr>symbols := symbols t @ [new_symbol (of_nat (length (symbols t))) kind name type ps (ScopeDepth t)],
          scopes := butlast (scopes t) @ [(last (scopes t))(name \<mapsto> of_nat (length (symbols t)))]\<rparr>)"
      "last (scopes t) name = None"
  | (overload) i s where "Declare kind name type ps t = (Some (of_nat (length (symbols t))),
        t\<lparr>symbols := symbols t @ [new_symbol (of_nat (length (symbols t))) kind name type ps (ScopeDepth t)]\<rparr>)"
      "last (scopes t) name = Some i" "Get t i = Some s" "callable_kind (sy_kind s)" "callable_kind kind"
      "\<not> list_ex (same_signature t name ps) (symbols t)"
proof -
  have ne: "scopes t \<noteq> []" using assms by (simp add: table_ok_def)
  let ?syms = "symbols t @ [new_symbol (of_nat (length (symbols t))) kind name type ps (ScopeDepth t)]"
  have same: "t\<lparr>symbols := ?syms, scopes := scopes t\<rparr> = t\<lparr>symbols := ?syms\<rparr>" by simp
  show thesis
  proof (cases "last (scopes t) name")
    case None
    with ne fresh show thesis by (simp add: Declare_def Let_def)
  next
    case (Some i)
    show thesis
    proof (cases "\<not> callable_kind kind \<or>
        \<not> (case Get t i of None \<Rightarrow> False | Some s \<Rightarrow> callable_kind (sy_kind s)) \<or>
        list_ex (same_signature t name ps) (symbols t)")
      case True
      with ne Some refused show thesis by (simp add: Declare_def Let_def)
    next
      case False
      then obtain s where s: "Get t i = Some s" "callable_kind (sy_kind s)" by (auto split: option.splits)
      have "Declare kind name type ps t = (Some (of_nat (length (symbols t))), t\<lparr>symbols := ?syms\<rparr>)"
        using ne Some False by (simp add: Declare_def Let_def same [simplified])
      with overload Some s False show thesis by simp
    qed
  qed
qed

lemma last_scope_depth:
  "scopes t \<noteq> [] \<Longrightarrow> ScopeDepth t < length (scopes t) \<and> scopes t ! ScopeDepth t = last (scopes t)"
  by (simp add: ScopeDepth_def last_conv_nth)

lemma append_symbol_ok:
  assumes "table_ok t" and "Suc (length (symbols t)) < 2 ^ 32"
  shows "table_ok (t\<lparr>symbols := symbols t @ [s\<lparr>sy_id := of_nat (length (symbols t))\<rparr>]\<rparr>)"
  using assms unat_next [of "symbols t"]
  by (auto simp: table_ok_def nth_append less_Suc_eq intro!: scope_ok_extend)

lemma Declare_ok:
  assumes "table_ok t" and "Suc (length (symbols t)) < 2 ^ 32"
  shows "table_ok (snd (Declare kind name type ps t))"
proof (rule Declare_cases [OF assms(1), of kind name type ps])
  assume "Declare kind name type ps t = (None, t)"
  with assms(1) show ?thesis by simp
next
  let ?s = "new_symbol (of_nat (length (symbols t))) kind name type ps (ScopeDepth t)"
  let ?t = "t\<lparr>symbols := symbols t @ [?s]\<rparr>"
  let ?new = "(last (scopes t))(name \<mapsto> of_nat (length (symbols t)))"
  have "?s\<lparr>sy_id := of_nat (length (symbols t))\<rparr> = ?s" by (simp add: new_symbol_def)
  then have ok: "table_ok ?t" using append_symbol_ok [OF assms, of ?s] by simp
  {
    fix i
    assume "Declare kind name type ps t = (Some (of_nat (length (symbols t))), ?t)"
    with ok show ?thesis by simp
  next
    assume d: "Declare kind name type ps t = (Some (of_nat (length (symbols t))),
        t\<lparr>symbols := symbols t @ [?s], scopes := butlast (scopes t) @ [?new]\<rparr>)"
    have ne: "scopes t \<noteq> []" using assms(1) by (simp add: table_ok_def)
    note depth = last_scope_depth [OF ne]
    have "scope_ok (symbols t) (ScopeDepth t) (last (scopes t))"
      using assms(1) depth by (metis table_ok_def)
    then have "scope_ok (symbols t @ [?s]) (ScopeDepth t) ?new"
      using assms(2) by (intro scope_ok_append) (simp_all add: new_symbol_def)
    moreover have "scopes t ! d = butlast (scopes t) ! d" if "d < length (scopes t) - 1" for d
      using that by (simp add: nth_butlast)
    moreover have "ScopeDepth t = length (scopes t) - 1" using ne by (simp add: ScopeDepth_def)
    ultimately show ?thesis
      using ok ne unfolding d by (auto simp: table_ok_def nth_append less_Suc_eq)
        (metis One_nat_def Suc_pred length_greater_0_conv less_SucE)+
  }
qed

lemma AppendSpecialization_ok:
  assumes "table_ok t" and "Suc (length (symbols t)) < 2 ^ 32"
  shows "table_ok (snd (AppendSpecialization s t))"
proof -
  have same: "s\<lparr>sy_id := i, sy_scopeDepth := d\<rparr> = (s\<lparr>sy_scopeDepth := d\<rparr>)\<lparr>sy_id := i\<rparr>" for d i
    by simp
  show ?thesis
    unfolding AppendSpecialization_def Let_def snd_conv same by (rule append_symbol_ok [OF assms])
qed

section \<open>Lexical scoping\<close>

datatype table_op = Enter | Leave | Declares SymbolKind string string "string list" | Specialises symbol

fun run_op :: "table_op \<Rightarrow> symbol_table \<Rightarrow> symbol_table" where
  "run_op Enter t = EnterScope t"
| "run_op Leave t = ExitScope t"
| "run_op (Declares kind name type ps) t = snd (Declare kind name type ps t)"
| "run_op (Specialises s) t = snd (AppendSpecialization s t)"

definition run_table :: "table_op list \<Rightarrow> symbol_table \<Rightarrow> symbol_table" where
  "run_table ops t = fold run_op ops t"

text \<open>How many scopes are open after some operations, none of which leaves a scope that was open before.\<close>

fun open_scopes :: "nat \<Rightarrow> table_op list \<Rightarrow> nat option" where
  "open_scopes n [] = Some n"
| "open_scopes n (Enter # ops) = open_scopes (Suc n) ops"
| "open_scopes n (Leave # ops) = (case n of 0 \<Rightarrow> None | Suc m \<Rightarrow> open_scopes m ops)"
| "open_scopes n (op # ops) = open_scopes n ops"

lemma run_op_ok:
  "table_ok t \<Longrightarrow> Suc (length (symbols t)) < 2 ^ 32 \<Longrightarrow> table_ok (run_op op t)"
  by (cases op) (simp_all add: EnterScope_ok ExitScope_ok Declare_ok AppendSpecialization_ok)

lemma run_op_symbols: "\<exists>more_syms. symbols (run_op op t) = symbols t @ more_syms \<and> length more_syms \<le> 1"
  by (cases op) (auto simp: EnterScope_def ExitScope_def Declare_def AppendSpecialization_def Let_def)

lemma Declare_scopes:
  assumes "table_ok t"
  shows "\<exists>innermost. scopes (snd (Declare kind name type ps t)) = butlast (scopes t) @ [innermost]"
proof -
  have whole: "scopes t = butlast (scopes t) @ [last (scopes t)]" using assms by (simp add: table_ok_def)
  show ?thesis
    by (rule Declare_cases [OF assms, of kind name type ps]) (use whole in auto)
qed

lemma run_op_scopes:
  assumes "table_ok t" and "scopes t = outer @ inner" and "length inner = Suc n"
    and "open_scopes n [op] = Some m"
  shows "\<exists>inner'. scopes (run_op op t) = outer @ inner' \<and> length inner' = Suc m"
proof (cases op)
  case (Declares kind name type ps)
  have "inner \<noteq> []" using assms(3) by auto
  then have "butlast (scopes t) = outer @ butlast inner" using assms(2) by (simp add: butlast_append)
  then show ?thesis using Declares Declare_scopes [OF assms(1), of kind name type ps] assms(3,4) by auto
qed (use assms in \<open>auto simp: EnterScope_def ExitScope_def AppendSpecialization_def Let_def
    butlast_append split: nat.splits\<close>)

lemma open_scopes_Cons:
  "open_scopes n (op # ops) = (case open_scopes n [op] of None \<Rightarrow> None | Some m \<Rightarrow> open_scopes m ops)"
  by (cases op) (auto split: nat.split)

lemma run_table_scopes:
  assumes "table_ok t" and "length (symbols t) + length ops < 2 ^ 32"
    and "scopes t = outer @ inner" and "length inner = Suc n" and "open_scopes n ops = Some m"
  shows "table_ok (run_table ops t) \<and> (\<exists>syms. symbols (run_table ops t) = symbols t @ syms \<and> length syms \<le> length ops) \<and>
    (\<exists>inner'. scopes (run_table ops t) = outer @ inner' \<and> length inner' = Suc m)"
  using assms
proof (induction ops arbitrary: t inner n)
  case (Cons op ops)
  obtain k where k: "open_scopes n [op] = Some k" "open_scopes k ops = Some m"
    using Cons.prems(5) open_scopes_Cons [of n op ops] by (auto split: option.splits)
  obtain syms where syms: "symbols (run_op op t) = symbols t @ syms" "length syms \<le> 1"
    using run_op_symbols by blast
  obtain inner' where inner': "scopes (run_op op t) = outer @ inner'" "length inner' = Suc k"
    using run_op_scopes [OF Cons.prems(1,3,4) k(1)] by blast
  have "table_ok (run_op op t)" using Cons.prems(1,2) by (intro run_op_ok) simp_all
  moreover have "length (symbols (run_op op t)) + length ops < 2 ^ 32" using syms Cons.prems(2) by simp
  ultimately have IH: "table_ok (run_table ops (run_op op t)) \<and>
      (\<exists>syms'. symbols (run_table ops (run_op op t)) = symbols (run_op op t) @ syms' \<and> length syms' \<le> length ops) \<and>
      (\<exists>inner'. scopes (run_table ops (run_op op t)) = outer @ inner' \<and> length inner' = Suc m)"
    using Cons.IH inner' k(2) by blast
  then obtain syms' where "symbols (run_table ops (run_op op t)) = symbols t @ syms @ syms'" "length syms' \<le> length ops"
    using syms by auto
  with IH syms show ?case by (auto simp: run_table_def intro!: exI [of _ "syms @ syms'"])
qed (auto simp: run_table_def)

text \<open>
  C34. Scopes are lexical: whatever is declared between entering a scope and leaving it again, with
  any scopes opened and closed in between, every name means afterwards what it meant before,
  no symbol that existed has changed, and the table stays well formed.
\<close>

theorem scopes_are_lexical:
  assumes "table_ok t" and "length (symbols t) + length body < 2 ^ 32" and "open_scopes 0 body = Some 0"
    and "t' = run_table (Enter # body @ [Leave]) t"
  shows "table_ok t' \<and> Lookup t' = Lookup t \<and> (\<forall>i s. Get t i = Some s \<longrightarrow> Get t' i = Some s)"
proof -
  let ?e = "EnterScope t"
  have "table_ok ?e" "symbols ?e = symbols t" "scopes ?e = scopes t @ [Map.empty]"
    using assms(1) EnterScope_ok by (simp_all add: EnterScope_def)
  then have *: "table_ok (run_table body ?e)" "\<exists>syms. symbols (run_table body ?e) = symbols t @ syms"
      "\<exists>inner'. scopes (run_table body ?e) = scopes t @ inner' \<and> length inner' = Suc 0"
    using run_table_scopes [of ?e body "scopes t" "[Map.empty]" 0 0] assms(2,3) by auto
  have t': "t' = ExitScope (run_table body ?e)" by (simp add: assms(4) run_table_def)
  have "scopes t \<noteq> []" using assms(1) by (simp add: table_ok_def)
  then have "scopes t' = scopes t" using *(3) unfolding t'
    by (auto simp: ExitScope_def length_Suc_conv)
  moreover have "symbols t' = symbols (run_table body ?e)" by (simp add: t' ExitScope_def)
  ultimately show ?thesis
    using *(1,2) ExitScope_ok [OF *(1)] unfolding t' by (auto simp: Lookup_def Get_def nth_append fun_eq_iff)
qed

lemma scopes_are_lexical_witness:
  "Lookup (run_table [Enter, Declares SK_Variable ''x'' ''int32'' [], Enter, Leave, Leave]
      (snd (Declare SK_Variable ''x'' ''bool'' [] Reset))) ''x'' = 0"
proof -
  let ?t = "snd (Declare SK_Variable ''x'' ''bool'' [] Reset)"
  let ?body = "[Declares SK_Variable ''x'' ''int32'' [], Enter, Leave]"
  have "table_ok ?t" using Declare_ok [OF Reset_ok] by (simp add: Reset_def)
  moreover have "length (symbols ?t) = 1" by (simp add: Declare_def Reset_def)
  ultimately have "Lookup (run_table (Enter # ?body @ [Leave]) ?t) = Lookup ?t"
    using scopes_are_lexical [of ?t ?body] by simp
  then show ?thesis by (simp add: Lookup_def Declare_def Reset_def)
qed

text \<open>
  A name means its innermost declaration: what \<open>Lookup\<close> finds has the name that was asked for
  and belongs to the innermost scope that declares it; it finds nothing only when no scope does.
\<close>

theorem lookup_finds_innermost:
  assumes "table_ok t"
  shows "(if \<exists>d < length (scopes t). (scopes t ! d) name \<noteq> None
     then \<exists>s. Get t (Lookup t name) = Some s \<and> sy_name s = name \<and> sy_id s = Lookup t name \<and>
       (scopes t ! sy_scopeDepth s) name \<noteq> None \<and>
       (\<forall>d < length (scopes t). (scopes t ! d) name \<noteq> None \<longrightarrow> d \<le> sy_scopeDepth s)
     else Lookup t name = InvalidSymbolId)"
proof -
  have found: "if \<exists>d < length ss. (ss ! d) name \<noteq> None
     then \<exists>d < length ss. (ss ! d) name = Some (lookup_scopes (rev ss) name) \<and>
       (\<forall>e < length ss. (ss ! e) name \<noteq> None \<longrightarrow> e \<le> d)
     else lookup_scopes (rev ss) name = InvalidSymbolId" for ss
  proof (induction ss rule: rev_induct)
    case (snoc scope ss)
    show ?case
    proof (cases "scope name")
      case None
      with snoc show ?thesis by (auto simp: nth_append less_Suc_eq split: if_splits)
    next
      case (Some i)
      then have "((ss @ [scope]) ! length ss) name = Some (lookup_scopes (rev (ss @ [scope])) name)"
        by simp
      then show ?thesis by (auto intro!: exI [of _ "length ss"])
    qed
  qed simp
  show ?thesis
  proof (cases "\<exists>d < length (scopes t). (scopes t ! d) name \<noteq> None")
    case True
    then obtain d where d: "d < length (scopes t)" "(scopes t ! d) name = Some (Lookup t name)"
      "\<And>e. e < length (scopes t) \<Longrightarrow> (scopes t ! e) name \<noteq> None \<Longrightarrow> e \<le> d"
      using found [of "scopes t"] by (auto simp: Lookup_def)
    let ?i = "Lookup t name"
    have "scope_ok (symbols t) d (scopes t ! d)" using assms d(1) by (simp add: table_ok_def)
    then have s: "unat ?i < length (symbols t)" "sy_name (symbols t ! unat ?i) = name"
      "sy_scopeDepth (symbols t ! unat ?i) = d"
      using d(2) by (auto simp: scope_ok_def)
    moreover have "sy_id (symbols t ! unat ?i) = ?i"
      using assms s(1) by (simp add: table_ok_def word_unat_eq_iff)
    ultimately show ?thesis using True d by (auto simp: Get_def)
  next
    case False
    with found [of "scopes t"] show ?thesis unfolding Lookup_def by (metis (no_types, lifting))
  qed
qed

lemma lookup_finds_innermost_witness:
  "Get (snd (Declare SK_Variable ''x'' ''bool'' [] (EnterScope Reset)))
     (Lookup (snd (Declare SK_Variable ''x'' ''bool'' [] (EnterScope Reset))) ''x'') \<noteq> None"
proof -
  let ?t = "snd (Declare SK_Variable ''x'' ''bool'' [] (EnterScope Reset))"
  have "table_ok ?t"
    using Declare_ok [OF EnterScope_ok [OF Reset_ok]] by (simp add: EnterScope_def Reset_def)
  moreover have "\<exists>d < length (scopes ?t). (scopes ?t ! d) ''x'' \<noteq> None"
    by (intro exI [of _ 1]) (simp add: Declare_def EnterScope_def Reset_def)
  ultimately show ?thesis using lookup_finds_innermost [of ?t "''x''"] by (metis option.distinct(1))
qed

text \<open>
  An overload that repeats a signature of a scope at the same depth that has been left is refused,
  although that scope is no longer there.
\<close>

lemma sibling_scope_blocks_overload:
  "fst (Declare SK_Method ''f'' ''void'' [''int32'']
     (run_table [Enter, Declares SK_Method ''f'' ''void'' [''int32''], Leave,
        Enter, Declares SK_Method ''f'' ''void'' []] Reset)) = None"
  by code_simp

end
