(* ===== verification/Type_Records.thy ===== *)
theory Type_Records
  imports Type_Algebra Symbol_Table Plugins
begin

text \<open>
  What the analyzer knows about types and the questions it asks
  (\<^verbatim>\<open>Absolute-Analyzer/include/type.h\<close>, \<^verbatim>\<open>analyzer.h\<close>, \<^verbatim>\<open>analyzer.cpp\<close>): which names are types,
  what derives from what, what can be assigned to what and at what cost, and who may use a
  member. The members of \<open>Analyzer\<close> that these functions read are the record \<open>analyzer\<close>.
  An \<open>unordered_map\<close> that is iterated over is an association list, in the order in which it is
  iterated. Recursion through the hierarchy of types ends only when the hierarchy does: these functions
  are partial, and \<open>None\<close> means that the code does not return.
\<close>

section \<open>Records\<close>

datatype PrimitiveTypeEnum = PT_INT8 | PT_INT16 | PT_INT32 | PT_INT64 | PT_UINT8 | PT_UINT16
  | PT_UINT32 | PT_UINT64 | PT_FLOAT | PT_DOUBLE | PT_BOOL | PT_STRING | PT_CHAR | PT_VOID
  | PT_DYNAMIC | PT_AUTO

definition StringToPrimitiveType :: "(string \<times> PrimitiveTypeEnum) list" where
  "StringToPrimitiveType =
     [(''int8'', PT_INT8), (''int16'', PT_INT16), (''int32'', PT_INT32), (''int64'', PT_INT64),
      (''uint8'', PT_UINT8), (''uint16'', PT_UINT16), (''uint32'', PT_UINT32),
      (''uint64'', PT_UINT64), (''float'', PT_FLOAT), (''double'', PT_DOUBLE), (''bool'', PT_BOOL),
      (''string'', PT_STRING), (''char'', PT_CHAR), (''void'', PT_VOID),
      (''dynamic'', PT_DYNAMIC), (''auto'', PT_AUTO)]"

definition PrimitiveStringToEnum :: "string \<Rightarrow> PrimitiveTypeEnum option" where
  "PrimitiveStringToEnum s = map_of StringToPrimitiveType s"

datatype TypeKind = TK_Other | TK_Enum | TK_Struct | TK_Class | TK_Interface

record member_signature =
  ms_kind :: SymbolKind
  ms_type :: string
  ms_parameterTypes :: "string list"
  ms_symbol :: SymbolId
  ms_isConst :: bool
  ms_isStatic :: bool
  ms_canRead :: bool
  ms_canWrite :: bool
  ms_access :: AccessLevel
  ms_readAccess :: AccessLevel
  ms_writeAccess :: AccessLevel
  ms_owner :: string

text \<open>A signature as the constructor of \<open>MemberSignature\<close> makes it from a kind and a type.\<close>

definition new_member :: "SymbolKind \<Rightarrow> string \<Rightarrow> string list \<Rightarrow> SymbolId \<Rightarrow> member_signature" where
  "new_member kind type parameters i =
     \<lparr>ms_kind = kind, ms_type = type, ms_parameterTypes = parameters, ms_symbol = i,
      ms_isConst = False, ms_isStatic = False, ms_canRead = True, ms_canWrite = True,
      ms_access = AL_Public, ms_readAccess = AL_Public, ms_writeAccess = AL_Public, ms_owner = []\<rparr>"

record type_definition =
  td_members :: "(string \<times> member_signature list) list"
  td_constructors :: "member_signature list"
  td_parents :: "string list"
  td_enumMembers :: "string list"
  td_enumValues :: "int list"
  td_kind :: TypeKind
  td_genericParameters :: "string list"
  td_genericConstraints :: "string list"

definition empty_definition :: type_definition where
  "empty_definition = \<lparr>td_members = [], td_constructors = [], td_parents = [], td_enumMembers = [],
     td_enumValues = [], td_kind = TK_Other, td_genericParameters = [], td_genericConstraints = []\<rparr>"

record analyzer =
  an_types :: "string \<rightharpoonup> type_definition"
  genericTypeScopes :: "(string \<rightharpoonup> string) list"
  currentType :: string
  currentNamespace :: string
  importedNamespaces :: "string list"
  syntaxPlugins :: registry

section \<open>Loops with an early exit over functions that may not return\<close>

primrec any_opt :: "('a \<Rightarrow> bool option) \<Rightarrow> 'a list \<Rightarrow> bool option" where
  "any_opt f [] = Some False"
| "any_opt f (x # xs) = Option.bind (f x) (\<lambda>b. if b then Some True else any_opt f xs)"

primrec all_opt :: "('a \<Rightarrow> bool option) \<Rightarrow> 'a list \<Rightarrow> bool option" where
  "all_opt f [] = Some True"
| "all_opt f (x # xs) = Option.bind (f x) (\<lambda>b. if b then all_opt f xs else Some False)"

primrec collect_opt :: "('a \<Rightarrow> 'b \<Rightarrow> 'b option) \<Rightarrow> 'a list \<Rightarrow> 'b \<Rightarrow> 'b option" where
  "collect_opt f [] acc = Some acc"
| "collect_opt f (x # xs) acc = Option.bind (f x acc) (collect_opt f xs)"

lemma collect_opt_mono [partial_function_mono]:
  assumes "\<And>x acc. mono_option (\<lambda>f. B x acc f)"
  shows "mono_option (\<lambda>f. collect_opt (\<lambda>x acc. B x acc f) xs acc)"
  by (induction xs arbitrary: acc) (simp_all add: option.const_mono bind_mono assms)

lemma any_opt_mono [partial_function_mono]:
  assumes "\<And>x. mono_option (\<lambda>f. B x f)"
  shows "mono_option (\<lambda>f. any_opt (\<lambda>x. B x f) xs)"
  by (induction xs) (simp_all add: option.const_mono bind_mono if_mono assms)

lemma all_opt_mono [partial_function_mono]:
  assumes "\<And>x. mono_option (\<lambda>f. B x f)"
  shows "mono_option (\<lambda>f. all_opt (\<lambda>x. B x f) xs)"
  by (induction xs) (simp_all add: option.const_mono bind_mono if_mono assms)

lemma any_opt_cong [fundef_cong]:
  "xs = ys \<Longrightarrow> (\<And>x. x \<in> set ys \<Longrightarrow> f x = g x) \<Longrightarrow> any_opt f xs = any_opt g ys"
  by (induction ys arbitrary: xs) (auto cong: if_cong)

lemma all_opt_cong [fundef_cong]:
  "xs = ys \<Longrightarrow> (\<And>x. x \<in> set ys \<Longrightarrow> f x = g x) \<Longrightarrow> all_opt f xs = all_opt g ys"
  by (induction ys arbitrary: xs) (auto cong: if_cong)

lemma any_opt_total: "(\<And>x. x \<in> set xs \<Longrightarrow> f x = Some (p x)) \<Longrightarrow> any_opt f xs = Some (\<exists>x \<in> set xs. p x)"
  by (induction xs) auto

lemma all_opt_total: "(\<And>x. x \<in> set xs \<Longrightarrow> f x = Some (p x)) \<Longrightarrow> all_opt f xs = Some (\<forall>x \<in> set xs. p x)"
  by (induction xs) auto

lemma any_opt_True: "any_opt f xs = Some True \<Longrightarrow> \<exists>x \<in> set xs. f x = Some True"
  by (induction xs) (auto split: Option.bind_splits if_splits)

lemma any_opt_False: "any_opt f xs = Some False \<longleftrightarrow> (\<forall>x \<in> set xs. f x = Some False)"
  by (induction xs) (auto split: Option.bind_splits if_splits)

lemma all_opt_True: "all_opt f xs = Some True \<longleftrightarrow> (\<forall>x \<in> set xs. f x = Some True)"
  by (induction xs) (auto split: Option.bind_splits if_splits)

lemma all_opt_False: "all_opt f xs = Some False \<Longrightarrow> \<exists>x \<in> set xs. f x = Some False"
  by (induction xs) (auto split: Option.bind_splits if_splits)

section \<open>Names that are types\<close>

definition IsCurrentGenericParameter :: "analyzer \<Rightarrow> string \<Rightarrow> bool" where
  "IsCurrentGenericParameter an type \<longleftrightarrow> currentType an \<noteq> [] \<and> type \<noteq> [] \<and>
     (case an_types an (currentType an) of
        None \<Rightarrow> False
      | Some definition \<Rightarrow> type \<in> set (td_genericParameters definition))"

definition IsOpenGenericParameter :: "analyzer \<Rightarrow> string \<Rightarrow> bool" where
  "IsOpenGenericParameter an name \<longleftrightarrow> name \<noteq> [] \<and>
     (IsCurrentGenericParameter an name \<or>
      list_ex (\<lambda>scope. scope name = Some name) (genericTypeScopes an))"

abbreviation no_value_type :: "string \<Rightarrow> bool" where
  "no_value_type type \<equiv> type = ''void'' \<or> type = ''auto'' \<or> type = ''dynamic''"

lemma task_value_length: "IsTaskType type \<Longrightarrow> length (TaskValueType type) < length type"
  by (auto simp: IsTaskType_def TaskValueType_def)

lemma argument_length:
  "ParseGenericTypeName type = Some p \<Longrightarrow> (base, arguments) = p \<Longrightarrow> a \<in> set arguments \<Longrightarrow>
     length a < length type"
  using ParseGenericTypeName_length by blast

function IsKnownType :: "analyzer \<Rightarrow> string \<Rightarrow> bool" where
  "IsKnownType an name =
     (if IsCanonicalValueReferenceType name then
        IsKnownType an (CanonicalValueReferenceBaseType name)
      else if IsPointerType name then IsKnownType an (PointerPointee name)
      else if CanonicalOpenOwnership name \<noteq> OK_None then IsKnownType an (CanonicalOpenBaseName name)
      else if IsTaskType name then IsKnownType an (TaskValueType name)
      else if list_ex (\<lambda>scope. scope name \<noteq> None) (genericTypeScopes an) then True
      else case ParseGenericTypeName name of
        Some (base, arguments) \<Rightarrow>
          if base = ''tuple'' then
            2 \<le> length arguments \<and> (\<forall>a \<in> set arguments. \<not> no_value_type a \<and> IsKnownType an a)
          else if base = ''func'' \<or> base = ''cfunc'' then
            (case arguments of
               [] \<Rightarrow> False
             | front # rest \<Rightarrow>
                 if front = ''auto'' \<or> front = ''dynamic'' then False
                 else if front \<noteq> ''void'' \<and> \<not> IsKnownType an front then False
                 else \<forall>a \<in> set rest. \<not> no_value_type a \<and> IsKnownType an a)
          else (case an_types an base of
               None \<Rightarrow> False
             | Some definition \<Rightarrow>
                 length (td_genericParameters definition) = length arguments \<and>
                 (\<forall>a \<in> set arguments. IsKnownType an a))
      | None \<Rightarrow>
          PrimitiveStringToEnum name \<noteq> None \<or> an_types an name \<noteq> None \<or> name = ''null'' \<or>
          (if length name > 2 \<and> ends_with name ''[]'' then IsKnownType an (chop_array name) else False))"
  by pat_completeness auto
termination
  by (relation "measure (\<lambda>(an, name). length name)",
      simp_all only: in_measure prod.case IsPointerType_def PointerPointee_def wf_measure)
    (blast intro: name_lengths task_value_length argument_length list.set_intros)+

declare IsKnownType.simps [simp del]

definition IsNumeric :: "string \<Rightarrow> bool" where
  "IsNumeric name \<longleftrightarrow>
     name = ''float'' \<or> name = ''double'' \<or> IsIntegerTypeName name \<or> name = ''char''"

definition IsInteger :: "string \<Rightarrow> bool" where
  "IsInteger name \<longleftrightarrow> IsIntegerTypeName name \<or> name = ''char''"

definition IsEnumType :: "analyzer \<Rightarrow> string \<Rightarrow> bool" where
  "IsEnumType an name \<longleftrightarrow>
     (case an_types an name of None \<Rightarrow> False | Some definition \<Rightarrow> td_kind definition = TK_Enum)"

definition IsOrderableType :: "analyzer \<Rightarrow> string \<Rightarrow> bool" where
  "IsOrderableType an name \<longleftrightarrow> name = ''error'' \<or> name = ''dynamic'' \<or> name = ''null'' \<or>
     IsNumeric name \<or> IsEnumType an name \<or> IsRawPointerType name"

definition IsAsyncTaskValueType :: "analyzer \<Rightarrow> string \<Rightarrow> bool" where
  "IsAsyncTaskValueType an name \<longleftrightarrow>
     (if name = ''error'' \<or> name = ''void'' then True
      else if name \<in> set [''int8'', ''uint8'', ''char'', ''int16'', ''uint16'', ''int32'', ''uint32'',
          ''int64'', ''uint64'', ''bool'', ''float'', ''double''] then True
      else case GetPluginResourceDescriptor (syntaxPlugins an) name of
          Some descriptor \<Rightarrow> canCrossIsolateBoundary descriptor
        | None \<Rightarrow> IsEnumType an name)"

section \<open>The hierarchy of types\<close>

text \<open>
  The arguments of an instantiation for the parameters of its definition: \<open>emplace\<close> keeps the
  first of two parameters with the same name.
\<close>

definition bind_parameters :: "type_definition \<Rightarrow> string list \<Rightarrow> string \<rightharpoonup> string" where
  "bind_parameters definition arguments =
     (if length (td_genericParameters definition) = length arguments
      then map_of (zip (td_genericParameters definition) arguments) else Map.empty)"

text \<open>The definition a type is an instance of, with the substitution that makes the instance.\<close>

definition definition_of :: "analyzer \<Rightarrow> string \<Rightarrow> (type_definition \<times> (string \<rightharpoonup> string)) option" where
  "definition_of an type =
     (case ParseGenericTypeName type of
        Some (base, arguments) \<Rightarrow>
          map_option (\<lambda>definition. (definition, bind_parameters definition arguments)) (an_types an base)
      | None \<Rightarrow> map_option (\<lambda>definition. (definition, Map.empty)) (an_types an type))"

definition instance_parents :: "analyzer \<Rightarrow> string \<Rightarrow> string list" where
  "instance_parents an type =
     (case definition_of an type of
        None \<Rightarrow> []
      | Some (definition, substitutions) \<Rightarrow>
          map (\<lambda>parent. SubstituteGenericType parent substitutions) (td_parents definition))"

partial_function (option) IsDerivedFrom :: "analyzer \<Rightarrow> string \<Rightarrow> string \<Rightarrow> bool option" where
  "IsDerivedFrom an type base =
     (if type = base then Some True
      else any_opt (\<lambda>parent. if parent = base then Some True else IsDerivedFrom an parent base)
        (instance_parents an type))"

partial_function (option) CollectAncestors :: "analyzer \<Rightarrow> string \<Rightarrow> string list \<Rightarrow> string list option" where
  "CollectAncestors an type found =
     (if type = [] \<or> type = ''error'' \<or> type \<in> set found then Some found
      else collect_opt (CollectAncestors an) (instance_parents an type) (found @ [type]))"

declare IsDerivedFrom.simps [code] CollectAncestors.simps [code]

section \<open>Assignment\<close>

definition compatible_mode :: "string \<Rightarrow> string \<Rightarrow> bool" where
  "compatible_mode target source \<longleftrightarrow>
     (IsRawPointerType target \<and> IsRawPointerType source) \<or>
     (IsWeakPointerType target \<and> IsManagedPointerType source) \<or>
     (IsSubscriberPointerType target \<and> IsManagedPointerType source \<and> \<not> IsWeakPointerType source) \<or>
     (IsStrongManagedPointerType target \<and> IsStrongManagedPointerType source)"

text \<open>What the last tests of \<open>IsAssignable\<close> answer, when no handle was derived from another.\<close>

definition plain_assignable :: "string \<Rightarrow> string \<Rightarrow> bool" where
  "plain_assignable target source \<longleftrightarrow>
     IsNumeric target \<and> IsNumeric source \<or>
     source = ''null'' \<and> PrimitiveStringToEnum target = None"

text \<open>The tests on a target or a source that a qualifier or a type parameter leaves open.\<close>

definition open_assignable :: "analyzer \<Rightarrow> string \<Rightarrow> string \<Rightarrow> bool option" where
  "open_assignable an target source =
     (if CanonicalOpenOwnership target \<noteq> OK_None \<and> source = CanonicalOpenBaseName target then Some True
      else if CanonicalOpenOwnership target \<noteq> OK_None \<and> CanonicalOpenOwnership source \<noteq> OK_None
        then Some (CanonicalOpenBaseName source = CanonicalOpenBaseName target)
      else if IsOpenGenericParameter an target \<and> CanonicalOpenOwnership source = OK_Sub \<and>
          CanonicalOpenBaseName source = target then Some True
      else None)"

lemma ArrayElementType_le: "length (ArrayElementType type n) \<le> length type"
  by (induction type n rule: ArrayElementType.induct) auto

lemma ArrayElementType_less:
  assumes "ends_with type ''[]''"
  shows "length (ArrayElementType type (ArrayRank type)) < length type"
proof -
  have "ArrayRank type = Suc (ArrayRank (chop_array type))"
    using assms by (subst ArrayRank.simps) simp
  then have "ArrayElementType type (ArrayRank type) =
      ArrayElementType (chop_array type) (ArrayRank (chop_array type))" using assms by simp
  then show ?thesis
    by (simp only: le_less_trans [OF ArrayElementType_le chop_array_length [OF assms]])
qed

function IsAssignable :: "analyzer \<Rightarrow> string \<Rightarrow> string \<Rightarrow> bool option" where
  "IsAssignable an target source =
     (if IsCanonicalValueReferenceType target then
        IsAssignable an (CanonicalValueReferenceBaseType target) source
      else if target = ''error'' \<or> source = ''error'' \<or> target = ''dynamic'' \<or> source = ''dynamic''
        then Some True
      else if target = source then Some True
      else case (ParseCFunctionType target, ParseCFunctionType source) of
        (Some (targetReturn, targetParameters), Some (sourceReturn, sourceParameters)) \<Rightarrow>
          Some (targetReturn = sourceReturn \<and> targetParameters = sourceParameters)
      | (targetCallable, sourceCallable) \<Rightarrow>
          if targetCallable \<noteq> None \<and> source = ''null'' then Some True
          else if ends_with target ''[]'' \<and> ends_with source ''[]'' then
            (if ArrayRank target > ArrayRank source then Some False
             else IsAssignable an (ArrayElementType target (ArrayRank target))
               (ArrayElementType source (ArrayRank source)))
          else case open_assignable an target source of
            Some answer \<Rightarrow> Some answer
          | None \<Rightarrow>
              if IsPointerType target \<and> source = ''null'' then Some True
              else if IsPointerType target \<and> IsPointerType source \<and> compatible_mode target source
                then IsDerivedFrom an (PointerPointee source) (PointerPointee target)
              else Some (plain_assignable target source))"
  by pat_completeness auto
termination
  by (relation "measure (\<lambda>(an, target, source). length target)",
      simp_all only: in_measure prod.case wf_measure)
    (blast intro: name_lengths ArrayElementType_less)+

declare IsAssignable.simps [simp del]

definition conversion_weight :: "string \<Rightarrow> string \<Rightarrow> int" where
  "conversion_weight target source =
     (if target = ''dynamic'' then 4
      else if source = ''null'' then 3
      else if IsNumeric target \<and> IsNumeric source then
        (if (target = ''float'' \<or> target = ''double'') = (source = ''float'' \<or> source = ''double'')
         then 1 else 2)
      else 1)"

function ConversionCost :: "analyzer \<Rightarrow> string \<Rightarrow> string \<Rightarrow> int option" where
  "ConversionCost an target source =
     (if IsCanonicalValueReferenceType target then
        ConversionCost an (CanonicalValueReferenceBaseType target) source
      else if target = source then Some 0
      else map_option (\<lambda>assignable. if assignable then conversion_weight target source else -1)
        (IsAssignable an target source))"
  by pat_completeness auto
termination
  by (relation "measure (\<lambda>(an, target, source). length target)",
      simp_all only: in_measure prod.case wf_measure)
    (blast intro: name_lengths)

declare ConversionCost.simps [simp del]

section \<open>Common types\<close>

definition CommonType :: "string \<Rightarrow> string \<Rightarrow> string" where
  "CommonType a b =
     (if a = b then a
      else if a = ''error'' \<or> b = ''error'' then ''error''
      else if \<not> IsNumeric a \<or> \<not> IsNumeric b then ''error''
      else if a = ''double'' \<or> b = ''double'' then ''double''
      else if a = ''float'' \<or> b = ''float'' then ''float''
      else if a = ''uint64'' \<or> b = ''uint64'' then ''uint64''
      else if a = ''int64'' \<or> b = ''int64'' then ''int64''
      else if a = ''uint32'' \<or> b = ''uint32'' then ''uint32''
      else ''int32'')"

definition filter_opt :: "('a \<Rightarrow> bool option) \<Rightarrow> 'a list \<Rightarrow> 'a list option" where
  "filter_opt f xs = collect_opt (\<lambda>x acc. map_option (\<lambda>b. if b then acc @ [x] else acc) (f x)) xs []"

text \<open>Whether a candidate derives from every other type that both sides share.\<close>

definition least_shared :: "analyzer \<Rightarrow> string list \<Rightarrow> string \<Rightarrow> bool option" where
  "least_shared an shared candidate =
     all_opt (\<lambda>c. if c = candidate then Some True else IsDerivedFrom an candidate c) shared"

text \<open>
  The loop that looks for the least of the shared types, with the flag \<open>ambiguous\<close> of the
  result. The name is empty where the code's \<open>best\<close> is.
\<close>

primrec best_shared :: "analyzer \<Rightarrow> string list \<Rightarrow> string list \<Rightarrow> string \<Rightarrow> (string \<times> bool) option" where
  "best_shared an shared [] best = Some (if best = [] then ([], True) else (best, False))"
| "best_shared an shared (candidate # cs) best =
     Option.bind (least_shared an shared candidate) (\<lambda>least.
       if \<not> least then best_shared an shared cs best
       else if best \<noteq> [] \<and> best \<noteq> candidate then Some ([], True)
       else best_shared an shared cs candidate)"

definition CommonPointerType :: "analyzer \<Rightarrow> string \<Rightarrow> string \<Rightarrow> (string \<times> bool) option" where
  "CommonPointerType an a b =
     (if \<not> IsPointerType a \<or> \<not> IsPointerType b then Some ([], False)
      else if CanonicalOwnership b \<noteq> CanonicalOwnership a then Some ([], False)
      else Option.bind (IsAssignable an a b) (\<lambda>ab. if ab then Some (a, False)
      else Option.bind (IsAssignable an b a) (\<lambda>ba. if ba then Some (b, False)
      else Option.bind (CollectAncestors an (PointerPointee a) []) (\<lambda>ancestors.
           Option.bind (filter_opt (IsDerivedFrom an (PointerPointee b)) ancestors) (\<lambda>shared.
             if shared = [] then Some ([], False)
             else map_option (\<lambda>(best, ambiguous).
                 if best = [] then ([], ambiguous)
                 else (CanonicalPointerName best (CanonicalOwnership a), ambiguous))
               (best_shared an shared shared []))))))"

section \<open>Access to members\<close>

definition DeclaredAccess :: "stmt \<Rightarrow> AccessLevel" where
  "DeclaredAccess statement =
     (if HasModifier statement ''private'' then AL_Private
      else if HasModifier statement ''protected'' then AL_Protected
      else AL_Public)"

definition definitionName :: "string \<Rightarrow> string" where
  "definitionName name = takeWhile (\<lambda>c. c \<noteq> CHR ''<'') name"

partial_function (option) derivesFrom :: "analyzer \<Rightarrow> string \<Rightarrow> string \<Rightarrow> bool option" where
  "derivesFrom an declaring type =
     (if definitionName type = declaring then Some True
      else case an_types an (definitionName type) of
        None \<Rightarrow> Some False
      | Some definition \<Rightarrow> any_opt (\<lambda>parent. derivesFrom an declaring parent) (td_parents definition))"

declare derivesFrom.simps [code]

definition CanAccess :: "analyzer \<Rightarrow> AccessLevel \<Rightarrow> string \<Rightarrow> bool option" where
  "CanAccess an access owner =
     (if access = AL_Public then Some True
      else if currentType an = [] \<or> owner = [] then Some False
      else if definitionName (currentType an) = definitionName owner then Some True
      else if access = AL_Protected
        then derivesFrom an (definitionName owner) (definitionName (currentType an))
      else Some False)"

end
