(* ===== verification/Type_Ownership.thy ===== *)
theory Type_Ownership
  imports Type_Records
begin

text \<open>
  What copying, moving and dropping a value of a type means (\<^verbatim>\<open>analyzer.cpp\<close>,
  \<^verbatim>\<open>CopiesByParts\<close>, \<^verbatim>\<open>ReleasesByParts\<close>, \<^verbatim>\<open>OwnsUniqueResourceByParts\<close>, \<^verbatim>\<open>TypeOwnsUniqueResource\<close>,
  \<^verbatim>\<open>SemanticsOfType\<close>): three walks over the fields and parents of a type. The set \<open>visiting\<close>
  that the code fills on the way down and empties on the way up is passed down as a list. A walk over
  generic types that grow without end does not return.
\<close>

section \<open>The walks\<close>

text \<open>
  The arguments that \<open>ParseGenericTypeName\<close> leaves in its out-parameter, also when it fails.
\<close>

definition leftover_arguments :: "string \<Rightarrow> string list" where
  "leftover_arguments type = (if generic_shape type then snd (generic_parts type) else [])"

definition as_written :: "type_definition \<Rightarrow> string list \<Rightarrow> string \<Rightarrow> string" where
  "as_written definition arguments type =
     (if arguments \<noteq> [] \<and> length (td_genericParameters definition) = length arguments
      then SubstituteGenericType type (bind_parameters definition arguments) else type)"

definition has_parts :: "type_definition \<Rightarrow> bool" where
  "has_parts definition \<longleftrightarrow> td_kind definition = TK_Class \<or> td_kind definition = TK_Struct"

definition field_of_instance :: "member_signature \<Rightarrow> bool" where
  "field_of_instance m \<longleftrightarrow> \<not> ms_isStatic m \<and> ms_kind m = SK_Field"

definition storage_of_instance :: "member_signature \<Rightarrow> bool" where
  "storage_of_instance m \<longleftrightarrow> \<not> ms_isStatic m \<and> (ms_kind m = SK_Field \<or> ms_kind m = SK_Property)"

partial_function (option) copies :: "analyzer \<Rightarrow> string list \<Rightarrow> string \<Rightarrow> bool option" where
  "copies an visiting candidate =
     (if IsCanonicalValueReferenceType candidate then
        copies an visiting (CanonicalValueReferenceBaseType candidate)
      else if CanonicalOwnership candidate \<noteq> OK_None then
        Some (copyable (CanonicalHandleSemantics (CanonicalOwnership candidate)))
      else if ArrayRank candidate > 0 then Some False
      else if map_option fst (ParseGenericTypeName candidate) = Some ''tuple'' then
        all_opt (\<lambda>a. copies an visiting a) (leftover_arguments candidate)
      else if candidate \<in> set visiting then Some True
      else case an_types an (case ParseGenericTypeName candidate of
                Some (base, arguments) \<Rightarrow> base | None \<Rightarrow> candidate) of
          None \<Rightarrow> Some True
        | Some definition \<Rightarrow>
            if \<not> has_parts definition then Some True
            else Option.bind
              (all_opt (\<lambda>member. all_opt (\<lambda>m.
                  if \<not> field_of_instance m then Some True
                  else copies an (candidate # visiting)
                    (as_written definition (leftover_arguments candidate) (ms_type m)))
                (snd member)) (td_members definition))
              (\<lambda>fields. if \<not> fields then Some False
               else all_opt (\<lambda>parent. copies an (candidate # visiting)
                   (as_written definition (leftover_arguments candidate) parent))
                 (td_parents definition)))"

declare copies.simps [code]

definition CopiesByParts :: "analyzer \<Rightarrow> string \<Rightarrow> bool option" where
  "CopiesByParts an name = copies an [] name"

definition is_resource :: "analyzer \<Rightarrow> string \<Rightarrow> bool" where
  "is_resource an name =
     (case GetPluginResourceDescriptor (syntaxPlugins an) name of
        None \<Rightarrow> False | Some descriptor \<Rightarrow> rd_is_resource descriptor)"

partial_function (option) releases :: "analyzer \<Rightarrow> string list \<Rightarrow> string \<Rightarrow> bool option" where
  "releases an visiting candidate =
     (if candidate = ''string'' then Some True
      else if IsCanonicalValueReferenceType candidate then
        releases an visiting (CanonicalValueReferenceBaseType candidate)
      else if CanonicalOwnership candidate \<noteq> OK_None then
        Some (needsDrop (CanonicalHandleSemantics (CanonicalOwnership candidate)))
      else if ArrayRank candidate > 0 then Some True
      else if is_resource an candidate then Some True
      else if map_option fst (ParseGenericTypeName candidate) = Some ''func'' then Some True
      else if map_option fst (ParseGenericTypeName candidate) = Some ''tuple'' then
        any_opt (\<lambda>a. releases an visiting a) (leftover_arguments candidate)
      else (let name = (case ParseGenericTypeName candidate of
                Some (base, arguments) \<Rightarrow> base | None \<Rightarrow> candidate) in
        if name \<in> set visiting then Some False
        else case definition_of an candidate of
          None \<Rightarrow> Some False
        | Some (definition, substitutions) \<Rightarrow>
            if \<not> has_parts definition then Some False
            else Option.bind
              (any_opt (\<lambda>member. if fst member = ''destroy'' then Some True
                 else any_opt (\<lambda>m.
                   if \<not> storage_of_instance m then Some False
                   else releases an (name # visiting) (SubstituteGenericType (ms_type m) substitutions))
                 (snd member)) (td_members definition))
              (\<lambda>fields. if fields then Some True
               else any_opt (\<lambda>parent. releases an (name # visiting)
                   (SubstituteGenericType parent substitutions)) (td_parents definition))))"

declare releases.simps [code]

definition ReleasesByParts :: "analyzer \<Rightarrow> string \<Rightarrow> bool option" where
  "ReleasesByParts an name = releases an [] name"

partial_function (option) owns_unique :: "analyzer \<Rightarrow> string list \<Rightarrow> string \<Rightarrow> bool option" where
  "owns_unique an visiting candidate =
     (if IsStrongManagedPointerType candidate \<or> ArrayRank candidate > 0 then Some True
      else if IsPointerType candidate then Some False
      else case GetPluginResourceDescriptor (syntaxPlugins an) candidate of
        Some descriptor \<Rightarrow> Some (rd_is_resource descriptor)
      | None \<Rightarrow>
        if map_option fst (ParseGenericTypeName candidate) = Some ''tuple'' then
          any_opt (\<lambda>a. owns_unique an visiting a) (leftover_arguments candidate)
        else if candidate \<in> set visiting then Some False
        else case an_types an (case ParseGenericTypeName candidate of
                  Some (base, arguments) \<Rightarrow> base | None \<Rightarrow> candidate) of
            None \<Rightarrow> Some False
          | Some definition \<Rightarrow>
              if \<not> has_parts definition then Some False
              else Option.bind
                (any_opt (\<lambda>member. if fst member = ''destroy'' then Some True
                   else any_opt (\<lambda>m.
                     if \<not> storage_of_instance m then Some False
                     else owns_unique an (candidate # visiting)
                       (as_written definition (leftover_arguments candidate) (ms_type m)))
                   (snd member)) (td_members definition))
                (\<lambda>fields. if fields then Some True
                 else any_opt (\<lambda>parent. owns_unique an (candidate # visiting)
                     (as_written definition (leftover_arguments candidate) parent))
                   (td_parents definition)))"

declare owns_unique.simps [code]

definition OwnsUniqueResourceByParts :: "analyzer \<Rightarrow> string \<Rightarrow> bool option" where
  "OwnsUniqueResourceByParts an name = owns_unique an [] name"

section \<open>The answers\<close>

function TypeOwnsUniqueResource :: "analyzer \<Rightarrow> string \<Rightarrow> bool option" where
  "TypeOwnsUniqueResource an name =
     (if IsCanonicalValueReferenceType name then
        TypeOwnsUniqueResource an (CanonicalValueReferenceBaseType name)
      else if CanonicalOwnership name \<noteq> OK_None then
        Some (needsDrop (CanonicalHandleSemantics (CanonicalOwnership name)))
      else if ArrayRank name > 0 then Some True
      else if is_resource an name then Some True
      else OwnsUniqueResourceByParts an name)"
  by pat_completeness auto
termination
  by (relation "measure (\<lambda>(an, name). length name)",
      simp_all only: in_measure prod.case wf_measure)
    (blast intro: name_lengths)

declare TypeOwnsUniqueResource.simps [simp del]

record type_semantics = HandleSemantics +
  dropKind :: DropKind

definition semantics :: "bool \<Rightarrow> bool \<Rightarrow> bool \<Rightarrow> DropKind \<Rightarrow> type_semantics" where
  "semantics c m n d = \<lparr>copyable = c, movable = m, needsDrop = n, dropKind = d\<rparr>"

text \<open>The loop over the elements of a tuple: it does not stop early.\<close>

primrec tuple_semantics ::
    "(string \<Rightarrow> type_semantics option) \<Rightarrow> string list \<Rightarrow> type_semantics \<Rightarrow> type_semantics option" where
  "tuple_semantics f [] result = Some result"
| "tuple_semantics f (e # es) result =
     Option.bind (f e) (\<lambda>part. tuple_semantics f es
       (semantics (copyable result \<and> copyable part) (movable result)
         (needsDrop result \<or> needsDrop part) (dropKind result)))"

lemma tuple_semantics_cong [fundef_cong]:
  "xs = ys \<Longrightarrow> result = result' \<Longrightarrow> (\<And>x. x \<in> set ys \<Longrightarrow> f x = g x) \<Longrightarrow>
     tuple_semantics f xs result = tuple_semantics g ys result'"
  by (induction ys arbitrary: xs result result') auto

function SemanticsOfType :: "analyzer \<Rightarrow> string \<Rightarrow> type_semantics option" where
  "SemanticsOfType an name =
     (if IsCanonicalValueReferenceType name then
        SemanticsOfType an (CanonicalValueReferenceBaseType name)
      else if CanonicalOwnership name \<noteq> OK_None then
        (let handle = CanonicalHandleSemantics (CanonicalOwnership name) in
         Some (semantics (copyable handle) (movable handle) (needsDrop handle)
           (if needsDrop handle then Drop_ManagedOwner else Drop_None)))
      else if ArrayRank name > 0 then Some (semantics False True True Drop_ArrayStorage)
      else if is_resource an name then Some (semantics True True True Drop_PluginResource)
      else if name = ''string'' then Some (semantics True True True Drop_StringStorage)
      else if map_option fst (ParseGenericTypeName name) = Some ''func'' then
        Some (semantics True True True Drop_Closure)
      else if map_option fst (ParseGenericTypeName name) = Some ''tuple'' then
        map_option (\<lambda>result. if needsDrop result then result else result\<lparr>dropKind := Drop_None\<rparr>)
          (tuple_semantics (SemanticsOfType an)
            (case ParseGenericTypeName name of None \<Rightarrow> [] | Some (base, arguments) \<Rightarrow> arguments)
            (semantics True True False Drop_TupleValue))
      else Option.bind (CopiesByParts an name) (\<lambda>c. Option.bind (ReleasesByParts an name) (\<lambda>n.
        Some (semantics c True n
          (if \<not> n then Drop_None
           else case an_types an name of
             None \<Rightarrow> Drop_StructObject
           | Some definition \<Rightarrow>
               if td_kind definition = TK_Class then Drop_ClassObject else Drop_StructObject)))))"
  by pat_completeness auto
termination
  by (relation "measure (\<lambda>(an, name). length name)",
      simp_all only: in_measure prod.case wf_measure)
    (use name_lengths in \<open>auto split: option.splits\<close>)

declare SemanticsOfType.simps [simp del]

end
