(* ===== verification/Type_Hierarchy.thy ===== *)
theory Type_Hierarchy
  imports Type_Records
begin

text \<open>
  What the walks through the hierarchy of types compute: \<open>IsDerivedFrom\<close> and \<open>CollectAncestors\<close>
  against the reflexive and transitive closure of the parents, the common type of two handles as
  a least upper bound, and what assignment does to the ownership of handles.
\<close>

section \<open>Derivation\<close>

inductive derives :: "analyzer \<Rightarrow> string \<Rightarrow> string \<Rightarrow> bool" for an where
  itself: "derives an t t"
| parent: "p \<in> set (instance_parents an t) \<Longrightarrow> derives an p b \<Longrightarrow> derives an t b"

inductive_simps derives_known: "derives an t b"

lemma derives_trans: "derives an t u \<Longrightarrow> derives an u v \<Longrightarrow> derives an t v"
  by (induction rule: derives.induct) (auto intro: derives.intros)

lemma IsDerivedFrom_sound:
  assumes "IsDerivedFrom an t b = Some answer"
  shows "answer = derives an t b"
proof (rule IsDerivedFrom.raw_induct [where P = "\<lambda>an t b answer. answer = derives an t b", OF _ assms],
    goal_cases)
  case (1 D an t b answer)
  show ?case
  proof (cases "t = b")
    case True
    with 1(2) show ?thesis by (auto intro: derives.itself)
  next
    case False
    let ?f = "\<lambda>parent. if parent = b then Some True else D an parent b"
    from 1(2) False have any: "any_opt ?f (instance_parents an t) = Some answer" by simp
    show ?thesis
    proof (cases answer)
      case True
      with any have "any_opt ?f (instance_parents an t) = Some True" by simp
      then obtain p where "p \<in> set (instance_parents an t)" "?f p = Some True"
        using any_opt_True by fast
      moreover have "derives an p b" if "?f p = Some True"
        using that 1(1) [of an p b True] by (auto intro: derives.itself split: if_splits)
      ultimately show ?thesis using True by (auto intro: derives.parent)
    next
      case No: False
      then have "\<forall>p \<in> set (instance_parents an t). ?f p = Some False"
        using any by (simp add: any_opt_False)
      then have "\<not> derives an p b" if "p \<in> set (instance_parents an t)" for p
        using that 1(1) [of an p b False] by (auto split: if_splits)
      then show ?thesis using No False by (subst derives_known) auto
    qed
  qed
qed

text \<open>Every walk up the hierarchy ends: each type has a height above that of its parents.\<close>

definition ranked :: "analyzer \<Rightarrow> (string \<Rightarrow> nat) \<Rightarrow> bool" where
  "ranked an height \<longleftrightarrow> (\<forall>t. \<forall>p \<in> set (instance_parents an t). height p < height t)"

lemma any_opt_defined: "(\<And>x. x \<in> set xs \<Longrightarrow> f x \<noteq> None) \<Longrightarrow> any_opt f xs \<noteq> None"
  by (induction xs) (auto split: Option.bind_splits)

lemma all_opt_defined: "(\<And>x. x \<in> set xs \<Longrightarrow> f x \<noteq> None) \<Longrightarrow> all_opt f xs \<noteq> None"
  by (induction xs) (auto split: Option.bind_splits)

lemma collect_opt_defined:
  "(\<And>x acc. x \<in> set xs \<Longrightarrow> f x acc \<noteq> None) \<Longrightarrow> collect_opt f xs acc \<noteq> None"
  by (induction xs arbitrary: acc) (auto split: Option.bind_splits)

lemma IsDerivedFrom_total:
  assumes "ranked an height"
  shows "IsDerivedFrom an t b = Some (derives an t b)"
proof -
  have "IsDerivedFrom an t b \<noteq> None"
  proof (induction "height t" arbitrary: t rule: less_induct)
    case less
    have "IsDerivedFrom an p b \<noteq> None" if "p \<in> set (instance_parents an t)" for p
      using less that assms by (auto simp: ranked_def)
    then have "any_opt (\<lambda>parent. if parent = b then Some True else IsDerivedFrom an parent b)
        (instance_parents an t) \<noteq> None"
      by (intro any_opt_defined) auto
    then show ?case by (subst IsDerivedFrom.simps) auto
  qed
  then show ?thesis using IsDerivedFrom_sound by auto
qed

lemma derives_height:
  assumes "ranked an height"
  shows "derives an t b \<Longrightarrow> t = b \<or> height b < height t"
  by (induction rule: derives.induct) (use assms in \<open>fastforce simp: ranked_def\<close>)+

lemma derives_antisym: "ranked an height \<Longrightarrow> derives an t b \<Longrightarrow> derives an b t \<Longrightarrow> t = b"
  using derives_height [of an height t b] derives_height [of an height b t] by auto

text \<open>A hierarchy that the first parents never leave is walked for ever.\<close>

lemma IsDerivedFrom_cycle:
  assumes "\<And>t. t \<in> S \<Longrightarrow> t \<noteq> b \<and> (\<exists>p ps. instance_parents an t = p # ps \<and> p \<in> S)" and "t \<in> S"
  shows "IsDerivedFrom an t b = None"
proof -
  have "an = an \<longrightarrow> b = b \<longrightarrow> t \<notin> S" if "IsDerivedFrom an t b = Some y" for y
  proof (rule IsDerivedFrom.raw_induct
      [where P = "\<lambda>an' t b' y. an' = an \<longrightarrow> b' = b \<longrightarrow> t \<notin> S", OF _ that], goal_cases)
    case (1 D an' t b' y)
    show ?case
    proof (intro impI notI)
      assume "an' = an" "b' = b" "t \<in> S"
      with assms(1) obtain p ps where "t \<noteq> b" "instance_parents an t = p # ps" "p \<in> S" "p \<noteq> b"
        by blast
      with 1(2) \<open>an' = an\<close> \<open>b' = b\<close> obtain y' where "D an p b = Some y'"
        by (auto split: Option.bind_splits)
      with 1(1) [of an p b y'] \<open>p \<in> S\<close> show False by simp
    qed
  qed
  then show ?thesis using assms(2) by (cases "IsDerivedFrom an t b") auto
qed

section \<open>Ancestors\<close>

definition names_a_type :: "string \<Rightarrow> bool" where
  "names_a_type t \<longleftrightarrow> t \<noteq> [] \<and> t \<noteq> ''error''"

text \<open>What one walk adds to the types found so far.\<close>

definition ancestors_added :: "analyzer \<Rightarrow> string set \<Rightarrow> string list \<Rightarrow> string list \<Rightarrow> bool" where
  "ancestors_added an from found result \<longleftrightarrow> set found \<subseteq> set result \<and>
     (\<forall>t \<in> from. names_a_type t \<longrightarrow> t \<in> set result) \<and>
     (\<forall>x \<in> set result - set found. names_a_type x \<and> (\<exists>t \<in> from. derives an t x) \<and>
       (\<forall>p \<in> set (instance_parents an x). names_a_type p \<longrightarrow> p \<in> set result))"

lemma ancestors_addedI:
  assumes "set found \<subseteq> set result"
    and "\<And>t. t \<in> from \<Longrightarrow> names_a_type t \<Longrightarrow> t \<in> set result"
    and "\<And>x. x \<in> set result \<Longrightarrow> x \<notin> set found \<Longrightarrow> names_a_type x"
    and "\<And>x. x \<in> set result \<Longrightarrow> x \<notin> set found \<Longrightarrow> \<exists>t \<in> from. derives an t x"
    and "\<And>x p. x \<in> set result \<Longrightarrow> x \<notin> set found \<Longrightarrow> p \<in> set (instance_parents an x) \<Longrightarrow>
      names_a_type p \<Longrightarrow> p \<in> set result"
  shows "ancestors_added an from found result"
  unfolding ancestors_added_def using assms by blast

lemma ancestors_addedD:
  assumes "ancestors_added an from found result"
  shows "x \<in> set found \<Longrightarrow> x \<in> set result"
    and "t \<in> from \<Longrightarrow> names_a_type t \<Longrightarrow> t \<in> set result"
    and "x \<in> set result \<Longrightarrow> x \<notin> set found \<Longrightarrow> names_a_type x"
    and "x \<in> set result \<Longrightarrow> x \<notin> set found \<Longrightarrow> \<exists>t \<in> from. derives an t x"
    and "x \<in> set result \<Longrightarrow> x \<notin> set found \<Longrightarrow> p \<in> set (instance_parents an x) \<Longrightarrow>
      names_a_type p \<Longrightarrow> p \<in> set result"
  using assms unfolding ancestors_added_def by blast+

lemma collect_ancestors_added:
  assumes "\<And>t found result. f t found = Some result \<Longrightarrow> ancestors_added an {t} found result"
  shows "collect_opt f ts found = Some result \<Longrightarrow> ancestors_added an (set ts) found result"
proof (induction ts arbitrary: found)
  case Nil
  then show ?case by (auto intro: ancestors_addedI)
next
  case (Cons t ts)
  then obtain middle where m: "f t found = Some middle" "collect_opt f ts middle = Some result"
    by (auto split: Option.bind_splits)
  note first = ancestors_addedD [OF assms [OF m(1)]]
  note rest = ancestors_addedD [OF Cons.IH [OF m(2)]]
  show ?case
  proof (rule ancestors_addedI)
    show "set found \<subseteq> set result" using first(1) rest(1) by blast
    show "u \<in> set result" if "u \<in> set (t # ts)" "names_a_type u" for u
      using that first(2) rest(1,2) by auto
    fix x assume x: "x \<in> set result" "x \<notin> set found"
    show "names_a_type x" using x first(3) rest(3) by blast
    show "\<exists>t \<in> set (t # ts). derives an t x"
      using x first(4) rest(4) by (cases "x \<in> set middle") auto
    show "p \<in> set result" if "p \<in> set (instance_parents an x)" "names_a_type p" for p
      using x that first(5) rest(1,5) by (cases "x \<in> set middle") blast+
  qed
qed

lemma CollectAncestors_added:
  assumes "CollectAncestors an t found = Some result"
  shows "ancestors_added an {t} found result"
proof (rule CollectAncestors.raw_induct
    [where P = "\<lambda>an t found result. ancestors_added an {t} found result", OF _ assms], goal_cases)
  case (1 C an t found result)
  show ?case
  proof (cases "\<not> names_a_type t \<or> t \<in> set found")
    case True
    with 1(2) have "result = found" by (auto simp: names_a_type_def split: if_splits)
    with True show ?thesis by (auto intro: ancestors_addedI)
  next
    case False
    with 1(2) have "collect_opt (C an) (instance_parents an t) (found @ [t]) = Some result"
      by (simp add: names_a_type_def)
    then have "ancestors_added an (set (instance_parents an t)) (found @ [t]) result"
      using 1(1) by (rule collect_ancestors_added [rotated])
    note parents = ancestors_addedD [OF this]
    show ?thesis
    proof (rule ancestors_addedI)
      show "set found \<subseteq> set result" using parents(1) by auto
      show "u \<in> set result" if "u \<in> {t}" for u using that parents(1) by simp
      fix x assume x: "x \<in> set result" "x \<notin> set found"
      show "names_a_type x" using x False parents(3) [of x] by auto
      show "\<exists>u \<in> {t}. derives an u x"
        using x parents(4) [of x] by (cases "x = t") (auto intro: derives.intros)
      show "p \<in> set result" if "p \<in> set (instance_parents an x)" "names_a_type p" for p
        using x that parents(2) [of p] parents(5) [of x p] by (cases "x = t") auto
    qed
  qed
qed

lemma CollectAncestors_total:
  assumes "ranked an height"
  shows "CollectAncestors an t found \<noteq> None"
proof (induction "height t" arbitrary: t found rule: less_induct)
  case less
  have "CollectAncestors an p acc \<noteq> None" if "p \<in> set (instance_parents an t)" for p acc
    using less that assms by (auto simp: ranked_def)
  then have "collect_opt (CollectAncestors an) (instance_parents an t) (found @ [t]) \<noteq> None"
    by (rule collect_opt_defined)
  then show ?case by (subst CollectAncestors.simps) (simp del: not_None_eq)
qed

text \<open>Types whose ancestors all have names.\<close>

definition named_parents :: "analyzer \<Rightarrow> bool" where
  "named_parents an \<longleftrightarrow> (\<forall>t. \<forall>p \<in> set (instance_parents an t). names_a_type p)"

lemma CollectAncestors_all:
  assumes "ranked an height" and "named_parents an" and "names_a_type t"
  obtains found where "CollectAncestors an t [] = Some found" and "set found = {b. derives an t b}"
proof -
  obtain found where f: "CollectAncestors an t [] = Some found"
    using CollectAncestors_total [OF assms(1)] by auto
  note added = ancestors_addedD [OF CollectAncestors_added [OF f], simplified]
  have "derives an u b \<Longrightarrow> u \<in> set found \<Longrightarrow> b \<in> set found" for u b
  proof (induction rule: derives.induct)
    case (parent p u b)
    then have "names_a_type p" using assms(2) by (auto simp: named_parents_def)
    with parent added(5) show ?case by blast
  qed
  then have "set found = {b. derives an t b}" using added(2,4) assms(3) by blast
  with f show ?thesis by (rule that)
qed

section \<open>Handles\<close>

lemma handle_name:
  assumes "IsPointerType t"
  shows "ends_with t ''*''" and "t = CanonicalPointerName (PointerPointee t) (CanonicalOwnership t)"
proof -
  show e: "ends_with t ''*''"
    using assms by (auto simp: IsPointerType_def CanonicalOwnership_def split: if_splits)
  then obtain u where t: "t = u @ ''*''" by (auto simp: ends_with_iff)
  have split: "s = p @ drop (length p) s" if "starts_with s p" for s p
    using that append_take_drop_id [of "length p" s] by (simp add: starts_with_def)
  have "\<exists>v. t = CanonicalOwnershipPrefix (CanonicalOwnership t) @ v @ ''*''"
  proof (cases "CanonicalOwnership t")
    case OK_Raw
    then have "starts_with u ''raw ''" by (auto simp: CanonicalOwnership_def t starts_with_snoc_star split: if_splits)
    with OK_Raw show ?thesis using split [of u "''raw ''"] by (auto simp: t)
  next
    case OK_Weak
    then have "starts_with u ''weak ''" by (auto simp: CanonicalOwnership_def t starts_with_snoc_star split: if_splits)
    with OK_Weak show ?thesis using split [of u "''weak ''"] by (auto simp: t)
  next
    case OK_Sub
    then have "starts_with u ''sub ''" by (auto simp: CanonicalOwnership_def t starts_with_snoc_star split: if_splits)
    with OK_Sub show ?thesis using split [of u "''sub ''"] by (auto simp: t)
  qed (simp_all add: t)
  then obtain v where v: "t = CanonicalOwnershipPrefix (CanonicalOwnership t) @ v @ ''*''" ..
  then have "drop (length (CanonicalOwnershipPrefix (CanonicalOwnership t))) t = v @ ''*''"
    by (metis append_eq_conv_conj)
  then have "PointerPointee t = v"
    using assms by (simp add: PointerPointee_def CanonicalPointeeName_def Let_def IsPointerType_def)
  with v show "t = CanonicalPointerName (PointerPointee t) (CanonicalOwnership t)"
    by (simp add: CanonicalPointerName_def)
qed

lemma handle_is_no_other_type:
  assumes "IsPointerType t"
  shows "\<not> IsCanonicalValueReferenceType t" "t \<noteq> ''error''" "t \<noteq> ''dynamic''" "t \<noteq> ''null''"
    "\<not> ends_with t ''[]''" "CanonicalOpenOwnership t = OK_None" "\<not> IsNumeric t"
    "ParseCFunctionType t = None"
proof -
  obtain u where t: "t = u @ ''*''" using handle_name(1) [OF assms] by (auto simp: ends_with_iff)
  show "\<not> IsCanonicalValueReferenceType t" "\<not> ends_with t ''[]''" "CanonicalOpenOwnership t = OK_None"
    by (simp_all add: t IsCanonicalValueReferenceType_def ends_with_iff CanonicalOpenOwnership_def)
  have l: "last t = CHR ''*''" by (simp add: t)
  show "t \<noteq> ''error''" "t \<noteq> ''dynamic''" "t \<noteq> ''null''" using l by auto
  show "\<not> IsNumeric t" using l by (auto simp: IsNumeric_def IsIntegerTypeName_def)
  have "\<not> generic_shape t" by (simp add: t generic_shape_def ends_with_single)
  then show "ParseCFunctionType t = None" by (simp add: ParseCFunctionType_def ParseGenericTypeName_def)
qed

lemma assignable_handles:
  assumes "IsPointerType target" and "IsPointerType source"
  shows "IsAssignable an target source =
    (if target = source then Some True
     else if compatible_mode target source
       then IsDerivedFrom an (PointerPointee source) (PointerPointee target)
     else Some False)"
  using handle_is_no_other_type [OF assms(1)] handle_is_no_other_type [OF assms(2)] assms
  by (subst IsAssignable.simps) (simp add: open_assignable_def plain_assignable_def)

text \<open>The relation that the ownership of a handle may turn into by assignment.\<close>

definition may_become :: "OwnershipKind \<Rightarrow> OwnershipKind \<Rightarrow> bool" where
  "may_become k k' \<longleftrightarrow> k = k' \<or> (k, k') \<in> {(OK_Unique, OK_Sub), (OK_Unique, OK_Weak), (OK_Sub, OK_Weak)}"

lemma may_become_trans: "may_become a b \<Longrightarrow> may_become b c \<Longrightarrow> may_become a c"
  by (auto simp: may_become_def)

lemma compatible_mode_ownership:
  "IsPointerType target \<Longrightarrow> IsPointerType source \<Longrightarrow>
     compatible_mode target source \<longleftrightarrow> may_become (CanonicalOwnership source) (CanonicalOwnership target)"
  by (cases "CanonicalOwnership source"; cases "CanonicalOwnership target")
    (simp_all add: compatible_mode_def may_become_def IsPointerType_def IsRawPointerType_def
      IsWeakPointerType_def IsManagedPointerType_def IsSubscriberPointerType_def
      IsStrongManagedPointerType_def)

definition flows :: "analyzer \<Rightarrow> string \<Rightarrow> string \<Rightarrow> bool" where
  "flows an source target \<longleftrightarrow> IsPointerType source \<and> IsPointerType target \<and>
     IsAssignable an target source = Some True"

lemma flows_handle:
  assumes "flows an source target"
  shows "may_become (CanonicalOwnership source) (CanonicalOwnership target)"
    and "derives an (PointerPointee source) (PointerPointee target)"
  using assms
  by (auto simp: flows_def assignable_handles compatible_mode_ownership may_become_def
      intro: derives.itself dest: IsDerivedFrom_sound split: if_splits)

lemma same_ownership_assignable:
  assumes "IsPointerType target" and "CanonicalOwnership source = CanonicalOwnership target"
    and "ranked an height"
  shows "IsAssignable an target source = Some (derives an (PointerPointee source) (PointerPointee target))"
proof -
  have "IsPointerType source" using assms(1,2) by (simp add: IsPointerType_def)
  then show ?thesis
    using assms IsDerivedFrom_total [OF assms(3)]
    by (auto simp: assignable_handles compatible_mode_ownership may_become_def intro: derives.itself)
qed

section \<open>The common type of two handles\<close>

definition least_above :: "analyzer \<Rightarrow> string \<Rightarrow> string \<Rightarrow> string \<Rightarrow> bool" where
  "least_above an t u m \<longleftrightarrow> derives an t m \<and> derives an u m \<and>
     (\<forall>d. derives an t d \<longrightarrow> derives an u d \<longrightarrow> derives an m d)"

lemma filter_opt_total:
  assumes "\<And>x. f x = Some (p x)"
  shows "filter_opt f xs = Some (filter p xs)"
proof -
  have "collect_opt (\<lambda>x acc. map_option (\<lambda>b. if b then acc @ [x] else acc) (f x)) xs acc =
      Some (acc @ filter p xs)" for acc
    by (induction xs arbitrary: acc) (simp_all add: assms)
  then show ?thesis by (simp add: filter_opt_def)
qed

lemma least_shared_total:
  assumes "ranked an height"
  shows "least_shared an shared c = Some (\<forall>d \<in> set shared. derives an c d)"
proof -
  have "least_shared an shared c = Some (\<forall>d \<in> set shared. d = c \<or> derives an c d)"
    unfolding least_shared_def by (rule all_opt_total) (simp add: IsDerivedFrom_total [OF assms])
  then show ?thesis by (auto intro: derives.itself)
qed

text \<open>What is known of the choice among some candidates.\<close>

definition chosen :: "analyzer \<Rightarrow> string list \<Rightarrow> string list \<Rightarrow> string \<Rightarrow> string \<Rightarrow> bool" where
  "chosen an shared cs best m \<longleftrightarrow>
     (if m = [] then best = [] \<and> (\<forall>c \<in> set cs. \<exists>d \<in> set shared. \<not> derives an c d)
      else m \<in> set shared \<and> (\<forall>d \<in> set shared. derives an m d))"

lemma best_shared_spec:
  assumes "ranked an height" and "[] \<notin> set shared" and "set cs \<subseteq> set shared"
    and "best = [] \<or> best \<in> set shared \<and> (\<forall>d \<in> set shared. derives an best d)"
  shows "\<exists>m. best_shared an shared cs best = Some (m, m = []) \<and> chosen an shared cs best m"
  using assms(3,4)
proof (induction cs arbitrary: best)
  case Nil
  then show ?case by (cases "best = []") (simp_all add: chosen_def)
next
  case (Cons c cs)
  then have c: "c \<noteq> []" "c \<in> set shared" "set cs \<subseteq> set shared" using assms(2) by auto
  show ?case
  proof (cases "\<forall>d \<in> set shared. derives an c d")
    case True
    then have l: "least_shared an shared c = Some True" by (simp add: least_shared_total [OF assms(1)])
    have "best = [] \<or> best = c"
      using True Cons.prems(2) c(2) derives_antisym [OF assms(1)] by blast
    then have step: "best_shared an shared (c # cs) best = best_shared an shared cs c"
      using l by auto
    obtain m where m: "best_shared an shared cs c = Some (m, m = [])" "chosen an shared cs c m"
      using Cons.IH [OF c(3), of c] c(2) True by blast
    have "chosen an shared (c # cs) best m"
      using m(2) c(1) by (cases "m = []") (simp_all add: chosen_def)
    with m(1) step show ?thesis by (intro exI [of _ m] conjI) simp_all
  next
    case False
    then have step: "best_shared an shared (c # cs) best = best_shared an shared cs best"
      by (simp add: least_shared_total [OF assms(1)])
    obtain m where m: "best_shared an shared cs best = Some (m, m = [])" "chosen an shared cs best m"
      using Cons.IH [OF c(3) Cons.prems(2)] by blast
    have "chosen an shared (c # cs) best m"
      using m(2) False by (cases "m = []") (simp_all add: chosen_def)
    with m(1) step show ?thesis by (intro exI [of _ m] conjI) simp_all
  qed
qed

lemma CommonPointerType_spec:
  assumes "ranked an height" and "named_parents an"
    and "IsPointerType a" and "CanonicalOwnership b = CanonicalOwnership a"
    and "names_a_type (PointerPointee a)"
  shows "\<exists>c ambiguous. CommonPointerType an a b = Some (c, ambiguous) \<and>
    (if c \<noteq> []
     then \<not> ambiguous \<and> (\<exists>m. c = CanonicalPointerName m (CanonicalOwnership a) \<and>
       least_above an (PointerPointee a) (PointerPointee b) m)
     else (\<nexists>m. least_above an (PointerPointee a) (PointerPointee b) m) \<and>
       (ambiguous \<longleftrightarrow> (\<exists>d. derives an (PointerPointee a) d \<and> derives an (PointerPointee b) d)))"
proof -
  let ?a = "PointerPointee a" and ?b = "PointerPointee b" and ?k = "CanonicalOwnership a"
  have b: "IsPointerType b" using assms(3,4) by (simp add: IsPointerType_def)
  have names: "a = CanonicalPointerName ?a ?k" "b = CanonicalPointerName ?b ?k"
    using handle_name(2) [OF assms(3)] handle_name(2) [OF b] assms(4) by simp_all
  have ab: "IsAssignable an a b = Some (derives an ?b ?a)" "IsAssignable an b a = Some (derives an ?a ?b)"
    using same_ownership_assignable [of a b an height] same_ownership_assignable [of b a an height]
      assms b by simp_all
  have nonempty: "a \<noteq> []" "b \<noteq> []" "CanonicalPointerName m k \<noteq> []" for m k
    using names by (simp_all add: CanonicalPointerName_def) (metis Nil_is_append_conv not_Cons_self2)+
  obtain found where f: "CollectAncestors an ?a [] = Some found" "set found = {d. derives an ?a d}"
    using CollectAncestors_all [OF assms(1,2,5)] .
  let ?shared = "filter (derives an ?b) found"
  have shared: "set ?shared = {d. derives an ?a d \<and> derives an ?b d}" using f(2) by auto
  have "[] \<notin> set ?shared"
    using ancestors_addedD(3) [OF CollectAncestors_added [OF f(1)]] by (auto simp: names_a_type_def)
  from best_shared_spec [OF assms(1) this subset_refl disjI1 [OF refl]] obtain m where
    m: "best_shared an ?shared ?shared [] = Some (m, m = [])" "chosen an ?shared ?shared [] m"
    by blast
  consider "derives an ?b ?a" | "\<not> derives an ?b ?a" "derives an ?a ?b"
    | "\<not> derives an ?b ?a" "\<not> derives an ?a ?b" "?shared = []"
    | "\<not> derives an ?b ?a" "\<not> derives an ?a ?b" "?shared \<noteq> []" by blast
  then show ?thesis
  proof cases
    case 1
    then have "least_above an ?a ?b ?a" by (auto simp: least_above_def intro: derives.itself)
    moreover have "CommonPointerType an a b = Some (a, False)"
      using 1 ab assms(3,4) b by (simp add: CommonPointerType_def)
    ultimately show ?thesis using nonempty names(1) by auto
  next
    case 2
    then have "least_above an ?a ?b ?b" by (auto simp: least_above_def intro: derives.itself)
    moreover have "CommonPointerType an a b = Some (b, False)"
      using 2 ab assms(3,4) b by (simp add: CommonPointerType_def)
    ultimately show ?thesis using nonempty names(2) by auto
  next
    case 3
    then have none: "\<nexists>d. derives an ?a d \<and> derives an ?b d" using shared by auto
    have "CommonPointerType an a b = Some ([], False)"
      using 3 ab assms(3,4) b f(1) filter_opt_total [of "IsDerivedFrom an ?b", OF IsDerivedFrom_total [OF assms(1)]]
      by (simp add: CommonPointerType_def)
    with none show ?thesis by (auto simp: least_above_def)
  next
    case 4
    have "CommonPointerType an a b =
        Some (if m = [] then ([], True) else (CanonicalPointerName m ?k, False))"
      using 4 ab assms(3,4) b f(1) m(1) filter_opt_total [of "IsDerivedFrom an ?b", OF IsDerivedFrom_total [OF assms(1)]]
      by (simp add: CommonPointerType_def)
    moreover have "\<exists>d. derives an ?a d \<and> derives an ?b d"
      using 4(3) shared by (cases ?shared) auto
    moreover have "if m = [] then \<nexists>m. least_above an ?a ?b m else least_above an ?a ?b m"
      using m(2) unfolding chosen_def shared least_above_def by (cases "m = []") auto
    ultimately show ?thesis using nonempty(3) by (auto split: if_splits)
  qed
qed

section \<open>The common type of two numbers\<close>

definition numeric_rank :: "string \<Rightarrow> nat" where
  "numeric_rank t =
     (if t = ''double'' then 6 else if t = ''float'' then 5 else if t = ''uint64'' then 4
      else if t = ''int64'' then 3 else if t = ''uint32'' then 2 else if t = ''int32'' then 1 else 0)"

definition rank_name :: "nat \<Rightarrow> string" where
  "rank_name r = (if r = 6 then ''double'' else if r = 5 then ''float'' else if r = 4 then ''uint64''
     else if r = 3 then ''int64'' else if r = 2 then ''uint32'' else ''int32'')"

lemma numeric_rank_le: "numeric_rank t \<le> 6" by (simp add: numeric_rank_def)

lemma numeric_rank_iff:
  "t = ''double'' \<longleftrightarrow> numeric_rank t = 6" "t = ''float'' \<longleftrightarrow> numeric_rank t = 5"
  "t = ''uint64'' \<longleftrightarrow> numeric_rank t = 4" "t = ''int64'' \<longleftrightarrow> numeric_rank t = 3"
  "t = ''uint32'' \<longleftrightarrow> numeric_rank t = 2"
  by (simp_all add: numeric_rank_def)

lemma error_not_numeric: "\<not> IsNumeric ''error''"
  by (simp add: IsNumeric_def IsIntegerTypeName_def)

lemma seven_ranks:
  "r \<le> 6 \<Longrightarrow> r = 0 \<or> r = 1 \<or> r = 2 \<or> r = 3 \<or> r = 4 \<or> r = 5 \<or> r = (6 :: nat)"
  by presburger

lemma CommonType_rank:
  "CommonType a b = (if a = b then a else if IsNumeric a \<and> IsNumeric b
     then rank_name (max (numeric_rank a) (numeric_rank b)) else ''error'')"
proof (cases "a \<noteq> b \<and> IsNumeric a \<and> IsNumeric b")
  case True
  then have "a \<noteq> ''error''" "b \<noteq> ''error''" using error_not_numeric by auto
  with True have *: "CommonType a b =
     (if numeric_rank a = 6 \<or> numeric_rank b = 6 then ''double''
      else if numeric_rank a = 5 \<or> numeric_rank b = 5 then ''float''
      else if numeric_rank a = 4 \<or> numeric_rank b = 4 then ''uint64''
      else if numeric_rank a = 3 \<or> numeric_rank b = 3 then ''int64''
      else if numeric_rank a = 2 \<or> numeric_rank b = 2 then ''uint32''
      else ''int32'')"
    unfolding CommonType_def numeric_rank_iff by simp
  show ?thesis
    using True seven_ranks [OF numeric_rank_le [of a]] seven_ranks [OF numeric_rank_le [of b]]
    unfolding * rank_name_def by (elim disjE) simp_all
next
  case False
  then show ?thesis by (auto simp: CommonType_def)
qed

lemma rank_name_cases:
  assumes "r \<le> 6"
  shows "numeric_rank (rank_name r) = max 1 r \<and> IsNumeric (rank_name r) \<and>
    rank_name (max 1 r) = rank_name r"
proof -
  show ?thesis
    using seven_ranks [OF assms]
    by (elim disjE; hypsubst)
      (simp_all add: rank_name_def numeric_rank_def IsNumeric_def IsIntegerTypeName_def)
qed

lemma CommonType_commute: "CommonType a b = CommonType b a"
  by (simp add: CommonType_rank max.commute)

lemma CommonType_rank_name:
  assumes "IsNumeric c" and "r \<le> 6"
  shows "CommonType (rank_name r) c = rank_name (max r (numeric_rank c))"
proof -
  have r: "numeric_rank (rank_name r) = max 1 r" "IsNumeric (rank_name r)"
      "rank_name (max 1 r) = rank_name r"
    using rank_name_cases [OF assms(2)] by simp_all
  show ?thesis
  proof (cases "rank_name r = c")
    case True
    then have "numeric_rank c = max 1 r" using r(1) by simp
    with True r(3) show ?thesis by (simp add: CommonType_rank)
  next
    case False
    have "max r (numeric_rank c) \<le> 6" using assms(2) numeric_rank_le by simp
    then have "rank_name (max 1 (max r (numeric_rank c))) = rank_name (max r (numeric_rank c))"
      using rank_name_cases by blast
    with False assms(1) r(1,2) show ?thesis by (simp add: CommonType_rank max.assoc)
  qed
qed

lemma CommonType_numeric:
  assumes "IsNumeric a" and "IsNumeric b" and "a \<noteq> b"
  shows "CommonType a b = rank_name (max (numeric_rank a) (numeric_rank b))"
  using assms by (simp add: CommonType_rank)

lemma CommonType_assoc_numeric:
  assumes "IsNumeric a" and "IsNumeric b" and "IsNumeric c"
  shows "CommonType (CommonType a b) c = CommonType a (CommonType b c)"
proof -
  have le: "max (numeric_rank x) (numeric_rank y) \<le> 6" for x y by (simp add: numeric_rank_le)
  have absorb: "CommonType x (CommonType x y) = CommonType x y" if "IsNumeric x" "IsNumeric y" for x y
  proof (cases "x = y")
    case True
    then show ?thesis by (simp add: CommonType_rank)
  next
    case False
    then show ?thesis
      using that CommonType_rank_name [OF that(1) le, of x y]
      by (simp add: CommonType_numeric CommonType_commute [of x] max.commute)
  qed
  consider "a = b" | "b = c" | "a \<noteq> b" "b \<noteq> c" by blast
  then show ?thesis
  proof cases
    case 1
    moreover have "CommonType b b = b" by (simp add: CommonType_rank)
    ultimately show ?thesis using absorb [of b c] assms by simp
  next
    case 2
    then show ?thesis
      using absorb [of b a] assms by (simp add: CommonType_rank [of c c] CommonType_commute [of a] CommonType_commute [of "CommonType c a"])
  next
    case 3
    have "CommonType (CommonType a b) c = rank_name (max (max (numeric_rank a) (numeric_rank b)) (numeric_rank c))"
      using 3 assms by (simp add: CommonType_numeric CommonType_rank_name [OF _ le])
    moreover have "CommonType (CommonType b c) a = rank_name (max (max (numeric_rank b) (numeric_rank c)) (numeric_rank a))"
      using 3 assms by (simp add: CommonType_numeric CommonType_rank_name [OF _ le])
    ultimately show ?thesis
      by (simp add: CommonType_commute [of a "CommonType b c"] ac_simps)
  qed
qed

lemma CommonType_error: "CommonType ''error'' t = ''error''" "CommonType t ''error'' = ''error''"
  by (simp_all add: CommonType_def)

lemma CommonType_not_numeric:
  "\<not> (IsNumeric a \<and> IsNumeric b) \<Longrightarrow> CommonType a b = (if a = b then a else ''error'')"
  by (auto simp: CommonType_rank)

lemma CommonType_IsNumeric: "IsNumeric a \<Longrightarrow> IsNumeric b \<Longrightarrow> IsNumeric (CommonType a b)"
  using rank_name_cases [of "max (numeric_rank a) (numeric_rank b)"]
  by (simp add: CommonType_rank numeric_rank_le)

lemma CommonType_assoc_other:
  assumes "\<not> IsNumeric a"
  shows "CommonType (CommonType a b) c = CommonType a (CommonType b c)"
proof (cases "a = b")
  case True
  then have "CommonType a b = a" by (simp add: CommonType_rank)
  with True assms show ?thesis by (auto simp: CommonType_not_numeric CommonType_error)
next
  case False
  have "CommonType b c = a \<Longrightarrow> a = ''error''"
    using False assms CommonType_IsNumeric [of b c]
    by (cases "IsNumeric b \<and> IsNumeric c") (auto simp: CommonType_not_numeric split: if_splits)
  with False assms show ?thesis by (auto simp: CommonType_not_numeric CommonType_error)
qed

lemma CommonType_assoc: "CommonType (CommonType a b) c = CommonType a (CommonType b c)"
proof -
  consider "IsNumeric a" "IsNumeric b" "IsNumeric c" | "\<not> IsNumeric a" | "\<not> IsNumeric c"
    | "IsNumeric a" "\<not> IsNumeric b" "IsNumeric c" by blast
  then show ?thesis
  proof cases
    case 1
    then show ?thesis by (rule CommonType_assoc_numeric)
  next
    case 2
    then show ?thesis by (rule CommonType_assoc_other)
  next
    case 3
    then have "CommonType (CommonType c b) a = CommonType c (CommonType b a)"
      by (rule CommonType_assoc_other)
    then show ?thesis by (simp add: CommonType_commute [of a] CommonType_commute [of c])
  next
    case 4
    then have "a \<noteq> b" "b \<noteq> c" by auto
    with 4 show ?thesis by (simp add: CommonType_not_numeric CommonType_error)
  qed
qed

lemma numeric_is_no_other_type:
  assumes "IsNumeric t"
  shows "\<not> IsCanonicalValueReferenceType t \<and> \<not> ends_with t ''[]'' \<and> \<not> ends_with t ''*'' \<and>
    CanonicalOpenOwnership t = OK_None \<and> ParseCFunctionType t = None"
  using assms unfolding IsNumeric_def IsIntegerTypeName_def list.set insert_iff
  by (elim disjE emptyE; hypsubst)
    (simp_all add: IsCanonicalValueReferenceType_def ends_with_def CanonicalOpenOwnership_def
      starts_with_def ParseCFunctionType_def ParseGenericTypeName_def generic_shape_def)

lemma numeric_assignable:
  assumes "IsNumeric target" and "IsNumeric source"
  shows "IsAssignable an target source = Some True"
proof -
  have "\<not> IsPointerType target"
    using numeric_is_no_other_type [OF assms(1)]
    by (auto simp: IsPointerType_def CanonicalOwnership_def)
  then show ?thesis
    using numeric_is_no_other_type [OF assms(1)] numeric_is_no_other_type [OF assms(2)] assms
    by (subst IsAssignable.simps) (simp add: open_assignable_def plain_assignable_def)
qed

section \<open>Properties\<close>

text \<open>
  Arithmetic on mixed numbers has a type that does not depend on how the operands are ordered or
  grouped: the common type is commutative, associative and idempotent; two numbers can be
  assigned to theirs, and any two other types that differ have none.
\<close>

theorem common_type_semilattice:
  "CommonType a b = CommonType b a \<and> CommonType a a = a \<and>
   CommonType (CommonType a b) c = CommonType a (CommonType b c) \<and>
   (if IsNumeric a \<and> IsNumeric b
    then IsAssignable an (CommonType a b) a = Some True \<and> IsAssignable an (CommonType a b) b = Some True
    else CommonType a b = (if a = b then a else ''error''))"
proof (intro conjI)
  show "CommonType a b = CommonType b a" by (rule CommonType_commute)
  show "CommonType a a = a" by (simp add: CommonType_rank)
  show "CommonType (CommonType a b) c = CommonType a (CommonType b c)" by (rule CommonType_assoc)
  show "if IsNumeric a \<and> IsNumeric b
    then IsAssignable an (CommonType a b) a = Some True \<and> IsAssignable an (CommonType a b) b = Some True
    else CommonType a b = (if a = b then a else ''error'')"
    using numeric_assignable CommonType_IsNumeric CommonType_not_numeric by auto
qed

text \<open>
  C20. Derivation is decided: in a hierarchy without cycles, \<open>IsDerivedFrom\<close> returns, and answers
  whether the base can be reached from the type through parents, with the arguments of generic
  types substituted on the way.
\<close>

theorem derivation_decided:
  assumes "ranked an height"
  shows "IsDerivedFrom an t b = Some (derives an t b)"
  using assms by (rule IsDerivedFrom_total)

text \<open>
  The common type of two handles is a least upper bound: the handle, of the same kind, to the
  type that both pointees derive from and that derives from every other such type. There is no
  answer exactly when there is no such type, and then the flag says whether there was one to choose.
\<close>

theorem common_handle_is_least:
  assumes "ranked an height" and "named_parents an"
    and "IsPointerType a" and "CanonicalOwnership b = CanonicalOwnership a"
    and "names_a_type (PointerPointee a)"
  shows "\<exists>c ambiguous. CommonPointerType an a b = Some (c, ambiguous) \<and>
    (if c \<noteq> []
     then \<not> ambiguous \<and> (\<exists>m. c = CanonicalPointerName m (CanonicalOwnership a) \<and>
       least_above an (PointerPointee a) (PointerPointee b) m)
     else (\<nexists>m. least_above an (PointerPointee a) (PointerPointee b) m) \<and>
       (ambiguous = (\<exists>d. derives an (PointerPointee a) d \<and> derives an (PointerPointee b) d)))"
  using CommonPointerType_spec [OF assms] .

text \<open>
  Ownership flows one way: whatever chain of assignments takes a handle from one name to another,
  an owner can become a subscriber or an observer and a subscriber an observer, but none of them
  an owner again and no managed handle a raw one, and the pointee only moves up the hierarchy.
\<close>

theorem handles_flow_one_way:
  assumes "(flows an)\<^sup>*\<^sup>* source target"
  shows "may_become (CanonicalOwnership source) (CanonicalOwnership target) \<and>
    derives an (PointerPointee source) (PointerPointee target)"
  using assms
proof (induction rule: rtranclp_induct)
  case base
  then show ?case by (simp add: may_become_def derives.itself)
next
  case (step u v)
  then show ?case using flows_handle [OF step(2)] may_become_trans derives_trans by blast
qed

subsection \<open>A hierarchy\<close>

definition class_named :: "string list \<Rightarrow> type_definition" where
  "class_named parents = empty_definition\<lparr>td_kind := TK_Class, td_parents := parents\<rparr>"

definition context_of :: "(string \<times> type_definition) list \<Rightarrow> analyzer" where
  "context_of ts = \<lparr>an_types = map_of ts, genericTypeScopes = [], currentType = [],
     currentNamespace = [], importedNamespaces = [], syntaxPlugins = empty_registry\<rparr>"

definition zoo :: analyzer where
  "zoo = context_of [(''Animal'', class_named []), (''Dog'', class_named [''Animal'']),
     (''Cat'', class_named [''Animal''])]"

definition animal_height :: "string \<Rightarrow> nat" where
  "animal_height t = (if t = ''Animal'' then 0 else 1)"

lemma SubstituteGenericType_plain_name:
  assumes "last t \<notin> {CHR ''&'', CHR '']'', CHR ''*'', CHR ''>''}" and "CanonicalOpenOwnership t = OK_None"
  shows "SubstituteGenericType t Map.empty = t"
proof (cases "t = []")
  case False
  with assms show ?thesis
    by (subst SubstituteGenericType.simps)
      (auto simp: IsCanonicalValueReferenceType_def ends_with_iff CanonicalOwnership_def
        ParseGenericTypeName_def generic_shape_def)
next
  case True
  then show ?thesis
    by (subst SubstituteGenericType.simps)
      (auto simp: IsCanonicalValueReferenceType_def ends_with_iff CanonicalOwnership_def
        CanonicalOpenOwnership_def ParseGenericTypeName_def generic_shape_def)
qed

lemma instance_parents_classes:
  assumes "\<And>name definition. an_types an name = Some definition \<Longrightarrow>
     td_genericParameters definition = [] \<and> (\<forall>p \<in> set (td_parents definition). SubstituteGenericType p Map.empty = p)"
  shows "instance_parents an t =
    (case an_types an (case ParseGenericTypeName t of Some (base, arguments) \<Rightarrow> base | None \<Rightarrow> t) of
       None \<Rightarrow> [] | Some definition \<Rightarrow> td_parents definition)"
proof -
  have "bind_parameters definition arguments = Map.empty" if "td_genericParameters definition = []"
    for "definition" arguments
    using that by (simp add: bind_parameters_def)
  then show ?thesis
    using assms by (auto simp: instance_parents_def definition_of_def map_idI split: option.splits)
qed

lemma animal_name: "SubstituteGenericType ''Animal'' Map.empty = ''Animal''"
  by (rule SubstituteGenericType_plain_name) (simp_all add: CanonicalOpenOwnership_def starts_with_def)

lemma zoo_types:
  "an_types zoo = map_of [(''Animal'', class_named []), (''Dog'', class_named [''Animal'']),
     (''Cat'', class_named [''Animal''])]"
  by (simp add: zoo_def context_of_def)

lemma zoo_parents:
  "instance_parents zoo t =
    (if (case ParseGenericTypeName t of Some (base, arguments) \<Rightarrow> base | None \<Rightarrow> t) \<in> {''Dog'', ''Cat''}
     then [''Animal''] else [])"
proof -
  have "instance_parents zoo t =
    (case an_types zoo (case ParseGenericTypeName t of Some (base, arguments) \<Rightarrow> base | None \<Rightarrow> t) of
       None \<Rightarrow> [] | Some definition \<Rightarrow> td_parents definition)"
    by (rule instance_parents_classes)
      (auto simp: zoo_types class_named_def empty_definition_def animal_name split: if_splits)
  then show ?thesis by (simp add: zoo_types class_named_def empty_definition_def)
qed

lemma no_generic_name: "CHR ''<'' \<notin> set t \<Longrightarrow> ParseGenericTypeName t = None"
  by (simp add: ParseGenericTypeName_def generic_shape_def)

lemma zoo_parents_of:
  "instance_parents zoo ''Animal'' = []" "instance_parents zoo ''Dog'' = [''Animal'']"
  "instance_parents zoo ''Cat'' = [''Animal'']"
  by (simp_all add: zoo_parents no_generic_name)

lemma zoo_ranked: "ranked zoo animal_height"
  using zoo_parents_of(1)
  by (auto simp: ranked_def animal_height_def zoo_parents split: if_splits)

lemma zoo_named: "named_parents zoo"
  by (auto simp: named_parents_def zoo_parents names_a_type_def split: if_splits)

lemma derivation_decided_witness: "IsDerivedFrom zoo ''Dog'' ''Cat'' = Some False"
proof -
  have "\<not> derives zoo ''Dog'' ''Cat''"
    by (subst derives_known, simp add: zoo_parents_of, subst derives_known, simp add: zoo_parents_of)
  then show ?thesis using derivation_decided [OF zoo_ranked, of "''Dog''" "''Cat''"] by simp
qed

lemma plain_pointer:
  assumes "CHR '' '' \<notin> set p"
  shows "CanonicalOwnership (p @ ''*'') = OK_Unique" "PointerPointee (p @ ''*'') = p"
proof -
  have "\<not> starts_with p q" if "CHR '' '' \<in> set q" for q
    using that assms set_take_subset [of "length q" p] by (auto simp: starts_with_def)
  then have "\<not> has_qualifier p" by (simp add: has_qualifier_def)
  then show "CanonicalOwnership (p @ ''*'') = OK_Unique" "PointerPointee (p @ ''*'') = p"
    using marked_pointer_name [of OK_Unique p] ownership_of_pointer_name [of OK_Unique p]
      pointee_of_pointer_name [of OK_Unique p]
    by (simp_all add: CanonicalPointerName_def PointerPointee_def)
qed

lemma dog_and_cat:
  "CanonicalOwnership ''Dog*'' = OK_Unique" "CanonicalOwnership ''Cat*'' = OK_Unique"
  "CanonicalOwnership ''sub Animal*'' = OK_Sub" "CanonicalOwnership ''Animal*'' = OK_Unique"
  "PointerPointee ''Dog*'' = ''Dog''" "PointerPointee ''Cat*'' = ''Cat''"
  "PointerPointee ''Animal*'' = ''Animal''" "PointerPointee ''sub Animal*'' = ''Animal''"
  using plain_pointer [of "''Dog''"] plain_pointer [of "''Cat''"] plain_pointer [of "''Animal''"]
    marked_pointer_name [of OK_Sub "''Animal''"]
  by (simp_all add: CanonicalPointerName_def PointerPointee_def)

lemma common_handle_is_least_witness:
  "CommonPointerType zoo ''Dog*'' ''Cat*'' = Some (''Animal*'', False)"
proof -
  have "least_above zoo ''Dog'' ''Cat'' m \<longleftrightarrow> m = ''Animal''" for m
  proof -
    have "derives zoo ''Dog'' m \<longleftrightarrow> m = ''Dog'' \<or> m = ''Animal''" for m
      by (subst derives_known, simp add: zoo_parents_of, subst derives_known, simp add: zoo_parents_of)
    moreover have "derives zoo ''Cat'' m \<longleftrightarrow> m = ''Cat'' \<or> m = ''Animal''" for m
      by (subst derives_known, simp add: zoo_parents_of, subst derives_known, simp add: zoo_parents_of)
    ultimately show ?thesis by (auto simp: least_above_def intro: derives.itself)
  qed
  then have least: "least_above zoo (PointerPointee ''Dog*'') (PointerPointee ''Cat*'') m \<longleftrightarrow> m = ''Animal''" for m
    by (simp add: dog_and_cat)
  have "names_a_type (PointerPointee ''Dog*'')" "IsPointerType ''Dog*''"
      "CanonicalOwnership ''Cat*'' = CanonicalOwnership ''Dog*''"
    by (simp_all add: dog_and_cat names_a_type_def IsPointerType_def)
  from common_handle_is_least [OF zoo_ranked zoo_named this(2,3,1)] obtain c ambiguous where
    c: "CommonPointerType zoo ''Dog*'' ''Cat*'' = Some (c, ambiguous)"
      "c \<noteq> []" "\<not> ambiguous" "c = CanonicalPointerName ''Animal'' OK_Unique"
    unfolding least dog_and_cat(1) by (auto split: if_splits)
  then show ?thesis by (simp add: CanonicalPointerName_def)
qed

lemma handles_flow_one_way_witness:
  "may_become OK_Unique OK_Sub \<and> derives zoo ''Dog'' ''Animal''"
proof -
  have d: "IsDerivedFrom zoo ''Dog'' ''Animal'' = Some True"
    by (subst IsDerivedFrom.simps) (simp add: zoo_parents_of)
  have "flows zoo ''Dog*'' ''Animal*''" "flows zoo ''Animal*'' ''sub Animal*''"
    using d by (simp_all add: flows_def assignable_handles IsPointerType_def dog_and_cat
      compatible_mode_ownership may_become_def IsDerivedFrom.simps [of zoo "''Animal''" "''Animal''"])
  then have "(flows zoo)\<^sup>*\<^sup>* ''Dog*'' ''sub Animal*''" by (meson converse_rtranclp_into_rtranclp r_into_rtranclp)
  from handles_flow_one_way [OF this] show ?thesis by (simp add: dog_and_cat)
qed

section \<open>Cyclic inheritance\<close>

text \<open>
  Nothing rejects two classes that are each the parent of the other, and asking whether one of
  them derives from a third does not return.
\<close>

definition two_parents :: analyzer where
  "two_parents = context_of [(''A'', class_named [''B'']), (''B'', class_named [''A''])]"

lemma cyclic_parents_never_return: "IsDerivedFrom two_parents ''A'' ''C'' = None"
proof (rule IsDerivedFrom_cycle [where S = "{''A'', ''B''}"])
  have s: "SubstituteGenericType ''A'' Map.empty = ''A''" "SubstituteGenericType ''B'' Map.empty = ''B''"
    by (rule SubstituteGenericType_plain_name; simp add: CanonicalOpenOwnership_def starts_with_def)+
  have types: "an_types two_parents = map_of [(''A'', class_named [''B'']), (''B'', class_named [''A''])]"
    by (simp add: two_parents_def context_of_def)
  have "instance_parents two_parents t =
    (case an_types two_parents (case ParseGenericTypeName t of Some (base, arguments) \<Rightarrow> base | None \<Rightarrow> t) of
       None \<Rightarrow> [] | Some definition \<Rightarrow> td_parents definition)" for t
    by (rule instance_parents_classes)
      (auto simp: types class_named_def empty_definition_def s split: if_splits)
  then have "instance_parents two_parents ''A'' = [''B'']" "instance_parents two_parents ''B'' = [''A'']"
    by (simp_all add: types class_named_def empty_definition_def no_generic_name)
  then show "t \<noteq> ''C'' \<and> (\<exists>p ps. instance_parents two_parents t = p # ps \<and> p \<in> {''A'', ''B''})"
    if "t \<in> {''A'', ''B''}" for t using that by auto
qed simp

end
