(* ===== verification/Ownership_Agreement.thy ===== *)
theory Ownership_Agreement
  imports Type_Ownership Type_Hierarchy
begin

text \<open>
  The walks of theory \<open>Type_Ownership\<close> against each other. Copying a value is refused where the
  type owns something of which there can be only one, and conversely, as long as ownership is in the fields
  alone; where it is not, the walks disagree, as shown at the end.
\<close>

section \<open>Names without references\<close>

abbreviation no_amp :: "string \<Rightarrow> bool" where "no_amp s \<equiv> CHR ''&'' \<notin> set s"

lemma no_amp_take: "no_amp s \<Longrightarrow> no_amp (take n s)" by (meson in_set_takeD)
lemma no_amp_drop: "no_amp s \<Longrightarrow> no_amp (drop n s)" by (meson in_set_dropD)

lemma no_amp_pointee: "no_amp s \<Longrightarrow> no_amp (CanonicalPointeeName s)"
  by (auto simp: CanonicalPointeeName_def Let_def dest: in_set_butlastD in_set_dropD)

lemma no_amp_base: "no_amp s \<Longrightarrow> no_amp (CanonicalOpenBaseName s)"
  by (auto simp: CanonicalOpenBaseName_def Let_def dest: in_set_dropD)

lemma no_amp_prefix: "no_amp (CanonicalOwnershipPrefix k)"
  by (cases k) simp_all

lemma no_amp_pointer: "no_amp p \<Longrightarrow> no_amp (CanonicalPointerName p k)"
  using no_amp_prefix [of k] by (simp add: CanonicalPointerName_def)

lemma no_amp_with_ownership: "no_amp s \<Longrightarrow> no_amp (CanonicalWithOwnership s k)"
proof (induction s k rule: CanonicalWithOwnership.induct)
  case (1 s k)
  then show ?case
    using no_amp_take [of s "length s - 2"] no_amp_pointer [OF no_amp_pointee, of s k]
    by (subst CanonicalWithOwnership.simps) simp
qed

lemma no_amp_split:
  "no_amp part \<Longrightarrow> no_amp s \<Longrightarrow> a \<in> set (snd (split_arguments depth part s)) \<Longrightarrow> no_amp a"
  by (induction depth part s rule: split_arguments.induct) (auto split: if_splits prod.splits)

lemma set_generic_text: "set (butlast (tl (dropWhile P s))) \<subseteq> set s"
proof
  fix x assume "x \<in> set (butlast (tl (dropWhile P s)))"
  then have "x \<in> set (tl (dropWhile P s))" by (rule in_set_butlastD)
  then have "x \<in> set (dropWhile P s)" by (cases "dropWhile P s") simp_all
  then show "x \<in> set s" by (rule set_dropWhileD)
qed

lemma no_amp_parts:
  assumes "no_amp s" and "a \<in> set (snd (generic_parts s))"
  shows "no_amp a"
proof -
  have "no_amp (butlast (tl (dropWhile (\<lambda>c. c \<noteq> CHR ''<'') s)))"
    using assms(1) set_generic_text [of "\<lambda>c. c \<noteq> CHR ''<''" s] by blast
  then show ?thesis
    using assms(2) no_amp_split [of "[]" _ a 0] unfolding generic_parts_def by simp
qed

lemma no_amp_generic:
  "no_amp s \<Longrightarrow> ParseGenericTypeName s = Some (base, arguments) \<Longrightarrow>
     no_amp base \<and> (\<forall>a \<in> set arguments. no_amp a)"
  using no_amp_parts [of s]
  by (auto simp: ParseGenericTypeName_def generic_base_def split: if_splits prod.splits dest: set_takeWhileD)

lemma no_amp_commas: "(\<And>a. a \<in> set as \<Longrightarrow> no_amp a) \<Longrightarrow> no_amp (commas as)"
  by (induction as rule: commas.induct) auto

lemma not_reference: "no_amp s \<Longrightarrow> \<not> IsCanonicalValueReferenceType s"
  by (auto simp: IsCanonicalValueReferenceType_def ends_with_iff)

lemma no_amp_substitute:
  "no_amp s \<Longrightarrow> (\<And>v. v \<in> ran \<sigma> \<Longrightarrow> no_amp v) \<Longrightarrow> no_amp (SubstituteGenericType s \<sigma>)"
proof (induction s \<sigma> rule: SubstituteGenericType.induct)
  case (1 s \<sigma>)
  note ih = "1.IH" and prems = "1.prems"
  show ?case
  proof (cases "\<sigma> s")
    case (Some v)
    then show ?thesis
      using prems not_reference by (subst SubstituteGenericType.simps) (auto simp: ranI)
  next
    case None
    consider "ends_with s ''[]''"
      | "\<not> ends_with s ''[]''" "CanonicalOpenOwnership s \<noteq> OK_None"
      | "\<not> ends_with s ''[]''" "CanonicalOpenOwnership s = OK_None" "CanonicalOwnership s \<noteq> OK_None"
      | "\<not> ends_with s ''[]''" "CanonicalOpenOwnership s = OK_None" "CanonicalOwnership s = OK_None"
      by blast
    then show ?thesis
    proof cases
      case 1
      have "no_amp (SubstituteGenericType (chop_array s) \<sigma>)"
        using ih(2) [OF not_reference [OF prems(1)] None 1] prems no_amp_take by blast
      then show ?thesis
        using None 1 not_reference [OF prems(1)] by (subst SubstituteGenericType.simps) simp
    next
      case 2
      have "no_amp (SubstituteGenericType (CanonicalOpenBaseName s) \<sigma>)"
        using ih(3) [OF not_reference [OF prems(1)] None 2] prems no_amp_base by blast
      then show ?thesis
        using None 2 not_reference [OF prems(1)] no_amp_prefix no_amp_with_ownership no_amp_base [OF prems(1)]
        by (subst SubstituteGenericType.simps) (simp add: Let_def)
    next
      case 3
      have "no_amp (SubstituteGenericType (CanonicalPointeeName s) \<sigma>)"
        using ih(4) [OF not_reference [OF prems(1)] None 3(1)] 3 prems no_amp_pointee
        by blast
      then show ?thesis
        using None 3 not_reference [OF prems(1)] no_amp_pointer
        by (subst SubstituteGenericType.simps) simp
    next
      case 4
      show ?thesis
      proof (cases "ParseGenericTypeName s")
        case None': None
        then show ?thesis
          using None 4 not_reference [OF prems(1)] prems(1)
          by (subst SubstituteGenericType.simps) simp
      next
        case (Some p)
        obtain base arguments where p: "p = (base, arguments)" by fastforce
        have "no_amp (SubstituteGenericType a \<sigma>)" if "a \<in> set arguments" for a
          using ih(5) [OF not_reference [OF prems(1)] None 4(1)] 4 Some p that
            no_amp_generic [OF prems(1)] prems by blast
        then have "no_amp (commas (map (\<lambda>a. SubstituteGenericType a \<sigma>) arguments))"
          by (intro no_amp_commas) auto
        then show ?thesis
          using None 4 Some p not_reference [OF prems(1)] no_amp_generic [OF prems(1)]
          by (subst SubstituteGenericType.simps) (simp add: generic_name_def)
      qed
    qed
  qed
qed

section \<open>Copying and owning\<close>

text \<open>Types that own through their fields only: no hook, no stored property, no plugin resource.\<close>

definition plain_definition :: "type_definition \<Rightarrow> bool" where
  "plain_definition definition \<longleftrightarrow>
     (\<forall>member \<in> set (td_members definition). fst member \<noteq> ''destroy'' \<and>
        (\<forall>m \<in> set (snd member). no_amp (ms_type m) \<and> (storage_of_instance m \<longrightarrow> field_of_instance m))) \<and>
     (\<forall>parent \<in> set (td_parents definition). no_amp parent)"

definition owned_by_fields :: "analyzer \<Rightarrow> bool" where
  "owned_by_fields an \<longleftrightarrow> (\<forall>name definition. an_types an name = Some definition \<longrightarrow> plain_definition definition)
     \<and> resourcesByTypeName (syntaxPlugins an) = Map.empty"

lemma leftover_no_amp: "no_amp s \<Longrightarrow> a \<in> set (leftover_arguments s) \<Longrightarrow> no_amp a"
  using no_amp_parts [of s a] by (simp add: leftover_arguments_def split: if_splits)

lemma as_written_no_amp:
  assumes "no_amp s" and "no_amp t"
  shows "no_amp (as_written definition (leftover_arguments s) t)"
proof -
  have "no_amp v" if "v \<in> ran (bind_parameters definition (leftover_arguments s))" for v
  proof -
    have "v \<in> set (leftover_arguments s)"
      using that unfolding bind_parameters_def
      by (auto simp: ran_def split: if_splits dest!: map_of_SomeD dest: set_zip_rightD)
    then show ?thesis by (rule leftover_no_amp [OF assms(1)])
  qed
  then show ?thesis using assms(2) no_amp_substitute by (simp add: as_written_def)
qed

lemma all_opt_not_any:
  assumes "\<And>x y. x \<in> set xs \<Longrightarrow> f x = Some y \<Longrightarrow> g x = Some (\<not> y)"
  shows "all_opt f xs = Some y \<Longrightarrow> any_opt g xs = Some (\<not> y)"
  using assms by (induction xs) (auto split: Option.bind_splits if_splits)

lemma any_opt_not_all:
  assumes "\<And>x y. x \<in> set xs \<Longrightarrow> g x = Some y \<Longrightarrow> f x = Some (\<not> y)"
  shows "any_opt g xs = Some y \<Longrightarrow> all_opt f xs = Some (\<not> y)"
  using assms by (induction xs) (auto split: Option.bind_splits if_splits)

text \<open>The parts of a class or a structure, as both walks visit them.\<close>

abbreviation copies_parts where
  "copies_parts C definition arguments \<equiv>
     Option.bind
       (all_opt (\<lambda>member. all_opt (\<lambda>m. if \<not> field_of_instance m then Some True
           else C (as_written definition arguments (ms_type m))) (snd member)) (td_members definition))
       (\<lambda>fields. if \<not> fields then Some False
        else all_opt (\<lambda>parent. C (as_written definition arguments parent)) (td_parents definition))"

abbreviation owns_parts where
  "owns_parts W definition arguments \<equiv>
     Option.bind
       (any_opt (\<lambda>member. if fst member = ''destroy'' then Some True
           else any_opt (\<lambda>m. if \<not> storage_of_instance m then Some False
             else W (as_written definition arguments (ms_type m))) (snd member)) (td_members definition))
       (\<lambda>fields. if fields then Some True
        else any_opt (\<lambda>parent. W (as_written definition arguments parent)) (td_parents definition))"

lemma copies_not_owns_parts:
  assumes "plain_definition definition" and "no_amp candidate"
    and "\<And>t y. no_amp t \<Longrightarrow> C t = Some y \<Longrightarrow> W t = Some (\<not> y)"
    and "copies_parts C definition (leftover_arguments candidate) = Some y"
  shows "owns_parts W definition (leftover_arguments candidate) = Some (\<not> y)"
proof -
  let ?w = "as_written definition (leftover_arguments candidate)"
  have step: "C (?w t) = Some y \<Longrightarrow> W (?w t) = Some (\<not> y)" if "no_amp t" for t y
    using assms(3) [OF as_written_no_amp [OF assms(2) that]] .
  have fields: "any_opt (\<lambda>member. if fst member = ''destroy'' then Some True
           else any_opt (\<lambda>m. if \<not> storage_of_instance m then Some False
             else W (?w (ms_type m))) (snd member)) (td_members definition) = Some (\<not> b)"
    if "all_opt (\<lambda>member. all_opt (\<lambda>m. if \<not> field_of_instance m then Some True
           else C (?w (ms_type m))) (snd member)) (td_members definition) = Some b" for b
  proof (rule all_opt_not_any [OF _ that])
    fix member y
    assume m: "member \<in> set (td_members definition)"
      and a: "all_opt (\<lambda>m. if \<not> field_of_instance m then Some True else C (?w (ms_type m))) (snd member) = Some y"
    have plain: "fst member \<noteq> ''destroy''"
        "\<And>m. m \<in> set (snd member) \<Longrightarrow> no_amp (ms_type m) \<and> (storage_of_instance m = field_of_instance m)"
      using assms(1) m
      by (auto simp: plain_definition_def storage_of_instance_def field_of_instance_def)
    have "any_opt (\<lambda>m. if \<not> storage_of_instance m then Some False else W (?w (ms_type m))) (snd member) = Some (\<not> y)"
      by (rule all_opt_not_any [OF _ a]) (use plain(2) step in \<open>auto split: if_splits\<close>)
    with plain(1) show "(if fst member = ''destroy'' then Some True
        else any_opt (\<lambda>m. if \<not> storage_of_instance m then Some False else W (?w (ms_type m))) (snd member)) = Some (\<not> y)"
      by simp
  qed
  have parents: "any_opt (\<lambda>parent. W (?w parent)) (td_parents definition) = Some (\<not> b)"
    if "all_opt (\<lambda>parent. C (?w parent)) (td_parents definition) = Some b" for b
    by (rule all_opt_not_any [OF _ that]) (use assms(1) step in \<open>auto simp: plain_definition_def\<close>)
  show ?thesis
    using assms(4) fields parents by (auto split: Option.bind_splits if_splits)
qed

lemma owns_not_copies_parts:
  assumes "plain_definition definition" and "no_amp candidate"
    and "\<And>t y. no_amp t \<Longrightarrow> W t = Some y \<Longrightarrow> C t = Some (\<not> y)"
    and "owns_parts W definition (leftover_arguments candidate) = Some y"
  shows "copies_parts C definition (leftover_arguments candidate) = Some (\<not> y)"
proof -
  let ?w = "as_written definition (leftover_arguments candidate)"
  have step: "W (?w t) = Some y \<Longrightarrow> C (?w t) = Some (\<not> y)" if "no_amp t" for t y
    using assms(3) [OF as_written_no_amp [OF assms(2) that]] .
  have fields: "all_opt (\<lambda>member. all_opt (\<lambda>m. if \<not> field_of_instance m then Some True
           else C (?w (ms_type m))) (snd member)) (td_members definition) = Some (\<not> b)"
    if "any_opt (\<lambda>member. if fst member = ''destroy'' then Some True
           else any_opt (\<lambda>m. if \<not> storage_of_instance m then Some False
             else W (?w (ms_type m))) (snd member)) (td_members definition) = Some b" for b
  proof (rule any_opt_not_all [OF _ that])
    fix member y
    assume m: "member \<in> set (td_members definition)"
      and a: "(if fst member = ''destroy'' then Some True
           else any_opt (\<lambda>m. if \<not> storage_of_instance m then Some False
             else W (?w (ms_type m))) (snd member)) = Some y"
    have plain: "fst member \<noteq> ''destroy''"
        "\<And>m. m \<in> set (snd member) \<Longrightarrow> no_amp (ms_type m) \<and> (storage_of_instance m = field_of_instance m)"
      using assms(1) m
      by (auto simp: plain_definition_def storage_of_instance_def field_of_instance_def)
    have "any_opt (\<lambda>m. if \<not> storage_of_instance m then Some False else W (?w (ms_type m))) (snd member) = Some y"
      using a plain(1) by simp
    then show "all_opt (\<lambda>m. if \<not> field_of_instance m then Some True else C (?w (ms_type m))) (snd member) = Some (\<not> y)"
      by (rule any_opt_not_all [rotated]) (use plain(2) step in \<open>auto split: if_splits\<close>)
  qed
  have parents: "all_opt (\<lambda>parent. C (?w parent)) (td_parents definition) = Some (\<not> b)"
    if "any_opt (\<lambda>parent. W (?w parent)) (td_parents definition) = Some b" for b
    by (rule any_opt_not_all [OF _ that]) (use assms(1) step in \<open>auto simp: plain_definition_def\<close>)
  show ?thesis
    using assms(4) fields parents by (auto split: Option.bind_splits if_splits)
qed

lemma handle_copyable:
  "CanonicalOwnership t \<noteq> OK_None \<Longrightarrow>
     copyable (CanonicalHandleSemantics (CanonicalOwnership t)) = (\<not> IsStrongManagedPointerType t)"
  by (cases "CanonicalOwnership t") (simp_all add: IsStrongManagedPointerType_def)

lemma handle_has_no_rank: "CanonicalOwnership t \<noteq> OK_None \<Longrightarrow> ArrayRank t = 0"
  using handle_is_no_other_type(5) [of t] by (subst ArrayRank.simps) (simp add: IsPointerType_def)

lemma no_resource:
  assumes "owned_by_fields an"
  shows "GetPluginResourceDescriptor (syntaxPlugins an) t = None"
  using assms by (simp add: owned_by_fields_def GetPluginResourceDescriptor_def)

lemma copies_not_owns:
  assumes "copies an visiting t = Some y"
  shows "owned_by_fields an \<longrightarrow> no_amp t \<longrightarrow> owns_unique an visiting t = Some (\<not> y)"
proof (rule copies.raw_induct
    [where P = "\<lambda>an visiting t y. owned_by_fields an \<longrightarrow> no_amp t \<longrightarrow> owns_unique an visiting t = Some (\<not> y)",
      OF _ assms], goal_cases)
  case (1 C an visiting t y)
  show ?case
  proof (intro impI)
    assume an: "owned_by_fields an" and t: "no_amp t"
    have ih: "C an v u = Some y \<Longrightarrow> owns_unique an v u = Some (\<not> y)" if "no_amp u" for v u y
      using 1(1) an that by blast
    note body = 1(2)
    note simps = not_reference [OF t] no_resource [OF an]
    consider "CanonicalOwnership t \<noteq> OK_None"
      | "CanonicalOwnership t = OK_None" "ArrayRank t > 0"
      | "CanonicalOwnership t = OK_None" "ArrayRank t = 0" "map_option fst (ParseGenericTypeName t) = Some ''tuple''"
      | "CanonicalOwnership t = OK_None" "ArrayRank t = 0" "map_option fst (ParseGenericTypeName t) \<noteq> Some ''tuple''"
      by fastforce
    then show "owns_unique an visiting t = Some (\<not> y)"
    proof cases
      case 1
      with body simps show ?thesis
        by (subst owns_unique.simps)
          (auto simp: handle_copyable handle_has_no_rank IsPointerType_def)
    next
      case 2
      with body simps show ?thesis by (subst owns_unique.simps) simp
    next
      case 3
      with body simps have "all_opt (\<lambda>a. C an visiting a) (leftover_arguments t) = Some y" by simp
      then have "any_opt (\<lambda>a. owns_unique an visiting a) (leftover_arguments t) = Some (\<not> y)"
        by (rule all_opt_not_any [rotated]) (use ih leftover_no_amp [OF t] in blast)
      with 3 simps show ?thesis
        by (subst owns_unique.simps) (simp add: IsStrongManagedPointerType_def IsPointerType_def)
    next
      case 4
      let ?name = "case ParseGenericTypeName t of Some (base, arguments) \<Rightarrow> base | None \<Rightarrow> t"
      show ?thesis
      proof (cases "t \<in> set visiting \<or> an_types an ?name = None \<or> \<not> has_parts (the (an_types an ?name))")
        case True
        with 4 body simps show ?thesis
          by (subst owns_unique.simps)
            (auto simp: IsStrongManagedPointerType_def IsPointerType_def split: if_splits option.splits)
      next
        case False
        then obtain d where d: "an_types an ?name = Some d" "has_parts d" "t \<notin> set visiting" by auto
        then have plain: "plain_definition d" using an by (auto simp: owned_by_fields_def)
        have "copies_parts (C an (t # visiting)) d (leftover_arguments t) = Some y"
          using body 4 simps d by simp
        then have "owns_parts (owns_unique an (t # visiting)) d (leftover_arguments t) = Some (\<not> y)"
          by (rule copies_not_owns_parts [OF plain t, rotated]) (rule ih)
        with 4 simps d show ?thesis
          by (subst owns_unique.simps) (simp add: IsStrongManagedPointerType_def IsPointerType_def)
      qed
    qed
  qed
qed

lemma owns_not_copies:
  assumes "owns_unique an visiting t = Some y"
  shows "owned_by_fields an \<longrightarrow> no_amp t \<longrightarrow> copies an visiting t = Some (\<not> y)"
proof (rule owns_unique.raw_induct
    [where P = "\<lambda>an visiting t y. owned_by_fields an \<longrightarrow> no_amp t \<longrightarrow> copies an visiting t = Some (\<not> y)",
      OF _ assms], goal_cases)
  case (1 W an visiting t y)
  show ?case
  proof (intro impI)
    assume an: "owned_by_fields an" and t: "no_amp t"
    have ih: "W an v u = Some y \<Longrightarrow> copies an v u = Some (\<not> y)" if "no_amp u" for v u y
      using 1(1) an that by blast
    note body = 1(2)
    note simps = not_reference [OF t] no_resource [OF an]
    consider "CanonicalOwnership t \<noteq> OK_None"
      | "CanonicalOwnership t = OK_None" "ArrayRank t > 0"
      | "CanonicalOwnership t = OK_None" "ArrayRank t = 0" "map_option fst (ParseGenericTypeName t) = Some ''tuple''"
      | "CanonicalOwnership t = OK_None" "ArrayRank t = 0" "map_option fst (ParseGenericTypeName t) \<noteq> Some ''tuple''"
      by fastforce
    then show "copies an visiting t = Some (\<not> y)"
    proof cases
      case 1
      with body simps show ?thesis
        by (subst copies.simps)
          (auto simp: handle_copyable handle_has_no_rank IsPointerType_def split: if_splits)
    next
      case 2
      with body simps show ?thesis by (subst copies.simps) simp
    next
      case 3
      with body simps have "any_opt (\<lambda>a. W an visiting a) (leftover_arguments t) = Some y"
        by (simp add: IsStrongManagedPointerType_def IsPointerType_def)
      then have "all_opt (\<lambda>a. copies an visiting a) (leftover_arguments t) = Some (\<not> y)"
        by (rule any_opt_not_all [rotated]) (use ih leftover_no_amp [OF t] in blast)
      with 3 simps show ?thesis by (subst copies.simps) simp
    next
      case 4
      let ?name = "case ParseGenericTypeName t of Some (base, arguments) \<Rightarrow> base | None \<Rightarrow> t"
      show ?thesis
      proof (cases "t \<in> set visiting \<or> an_types an ?name = None \<or> \<not> has_parts (the (an_types an ?name))")
        case True
        with 4 body simps show ?thesis
          by (subst copies.simps)
            (auto simp: IsStrongManagedPointerType_def IsPointerType_def split: if_splits option.splits)
      next
        case False
        then obtain d where d: "an_types an ?name = Some d" "has_parts d" "t \<notin> set visiting" by auto
        then have plain: "plain_definition d" using an by (auto simp: owned_by_fields_def)
        have "owns_parts (W an (t # visiting)) d (leftover_arguments t) = Some y"
          using body 4 simps d by (simp add: IsStrongManagedPointerType_def IsPointerType_def)
        then have "copies_parts (copies an (t # visiting)) d (leftover_arguments t) = Some (\<not> y)"
          by (rule owns_not_copies_parts [OF plain t, rotated]) (rule ih)
        with 4 simps d show ?thesis by (subst copies.simps) simp
      qed
    qed
  qed
qed

section \<open>Properties\<close>

text \<open>
  C19. Copying and owning exclude each other: where types own through their fields only, the walk that
  decides whether a value can be copied and the walk that decides whether it owns something
  unique return for the same types and give opposite answers, through generic types, tuples,
  arrays, inheritance and types that contain themselves.
\<close>

theorem copies_unless_unique_owner:
  assumes "owned_by_fields an" and "no_amp name"
  shows "CopiesByParts an name = map_option Not (OwnsUniqueResourceByParts an name)"
proof (cases "OwnsUniqueResourceByParts an name")
  case (Some y)
  then show ?thesis
    using owns_not_copies [of an "[]" name y] assms
    by (simp add: CopiesByParts_def OwnsUniqueResourceByParts_def)
next
  case None
  then show ?thesis
    using copies_not_owns [of an "[]" name] assms
    by (cases "CopiesByParts an name") (auto simp: CopiesByParts_def OwnsUniqueResourceByParts_def)
qed

definition struct_with :: "string list \<Rightarrow> (string \<times> SymbolKind \<times> string) list \<Rightarrow> type_definition" where
  "struct_with parameters members = empty_definition\<lparr>td_kind := TK_Struct,
     td_genericParameters := parameters,
     td_members := map (\<lambda>(name, kind, type). (name, [new_member kind type [] 0])) members\<rparr>"

definition boxes :: analyzer where
  "boxes = context_of [(''Cell'', struct_with [''T''] [(''value'', SK_Field, ''T'')])]"

lemma copies_unless_unique_owner_witness: "CopiesByParts boxes ''Cell<Cell<Node*>>'' = Some False"
proof -
  have "owned_by_fields boxes"
    by (simp add: owned_by_fields_def boxes_def context_of_def struct_with_def new_member_def
        empty_definition_def plain_definition_def storage_of_instance_def field_of_instance_def
        empty_registry_def)
  moreover have "OwnsUniqueResourceByParts boxes ''Cell<Cell<Node*>>'' = Some True" by code_simp
  ultimately show ?thesis using copies_unless_unique_owner [of boxes "''Cell<Cell<Node*>>''"] by simp
qed

section \<open>Where the walks disagree\<close>

definition cells :: analyzer where
  "cells = context_of [(''Cell'', struct_with [''T''] [(''value'', SK_Field, ''T'')]),
     (''File'', struct_with [] [(''handle'', SK_Field, ''int32''), (''destroy'', SK_Method, ''void'')])]"

text \<open>
  A structure with a \<open>destroy\<close> hook can be copied although it owns something unique; and the walk
  that asks whether there is anything to release is keyed on the name of the generic type without
  its arguments, so that a cell in a cell has nothing to release.
\<close>

lemma cell_walks:
  "CopiesByParts cells ''File'' = Some True"
  "OwnsUniqueResourceByParts cells ''File'' = Some True"
  "ReleasesByParts cells ''Cell<Node*>'' = Some True"
  "ReleasesByParts cells ''Cell<Cell<Node*>>'' = Some False"
  "OwnsUniqueResourceByParts cells ''Cell<Cell<Node*>>'' = Some True"
  by code_simp+

end
