(* ===== verification/Value_Flow.thy ===== *)
theory Value_Flow
  imports Type_Ownership
begin

text \<open>
  The flow analysis of the semantic analyzer (\<^verbatim>\<open>analyzer.h\<close>, \<^verbatim>\<open>analyzer.cpp\<close>): for every symbol that is
  tracked, whether it is initialised, what its pointer may be, whose allocation it points into
  and whether its task has been awaited; for every raw owner, whether it has been deleted. Scopes
  check what they leave behind, and the states at the ends of the paths through a statement
  are merged. The members of \<open>Analyzer\<close> that this code reads and writes are the record \<open>flow\<close>; a
  diagnostic is its message, its code and its symbol, the position is not modelled.
\<close>

section \<open>States\<close>

datatype InitializationState = IS_Initialized | IS_Uninitialized | IS_MaybeUninitialized

datatype PointerValidity = PV_NotPointer | PV_Null | PV_Live | PV_Deleted | PV_Expired | PV_MaybeNull
  | PV_MaybeInvalid | PV_Unknown

datatype TaskState = TS_NotTask | TS_Pending | TS_Awaited | TS_MaybePending | TS_Unknown

datatype KeepState = KS_Live | KS_Deleted | KS_MaybeDeleted

record keep_lifetime =
  kl_name :: string
  kl_state :: KeepState

record value_flow_state =
  vf_initialization :: InitializationState
  vf_pointerValidity :: PointerValidity
  vf_pointerOwner :: SymbolId
  vf_taskState :: TaskState

definition default_flow :: value_flow_state where
  "default_flow = \<lparr>vf_initialization = IS_Initialized, vf_pointerValidity = PV_NotPointer,
     vf_pointerOwner = InvalidSymbolId, vf_taskState = TS_NotTask\<rparr>"

type_synonym keep_map = "SymbolId \<rightharpoonup> keep_lifetime"
type_synonym flow_map = "SymbolId \<rightharpoonup> value_flow_state"
type_synonym diagnostic = "string \<times> string \<times> SymbolId"

record flow =
  keepLifetimes :: keep_map
  keepScopes :: "SymbolId list list"
  deferredKeepScopes :: "SymbolId list list"
  valueFlow :: flow_map
  valueFlowScopes :: "SymbolId list list"
  deferredTaskScopes :: "SymbolId list list"
  flowTerminated :: bool
  flow_table :: symbol_table
  diagnostics :: "diagnostic list"

definition Report :: "string \<Rightarrow> string \<Rightarrow> SymbolId \<Rightarrow> flow \<Rightarrow> flow" where
  "Report message code i st = st\<lparr>diagnostics := diagnostics st @ [(message, code, i)]\<rparr>"

definition deferred_from :: "nat \<Rightarrow> SymbolId list list \<Rightarrow> SymbolId \<Rightarrow> bool" where
  "deferred_from firstScope deferred i = list_ex (\<lambda>scope. i \<in> set scope) (drop firstScope deferred)"

section \<open>Raw owners\<close>

definition PushKeepScope :: "flow \<Rightarrow> flow" where
  "PushKeepScope st = st\<lparr>keepScopes := keepScopes st @ [[]],
     deferredKeepScopes := deferredKeepScopes st @ [[]]\<rparr>"

definition check_keep :: "nat \<Rightarrow> string \<Rightarrow> SymbolId \<Rightarrow> flow \<Rightarrow> flow" where
  "check_keep firstScope exitKind i st =
     (case keepLifetimes st i of
        None \<Rightarrow> st
      | Some lifetime \<Rightarrow>
          if kl_state lifetime = KS_Deleted \<or> deferred_from firstScope (deferredKeepScopes st) i then st
          else Report (''raw owner '' @ quoted (kl_name lifetime) @
              (if kl_state lifetime = KS_MaybeDeleted then '' is not deleted on every control-flow path''
               else '' must be explicitly deleted'') @ '' before '' @ exitKind)
            ''E_RAW_DELETE_REQUIRED'' i st)"

definition CheckKeepScopesFrom :: "nat \<Rightarrow> string \<Rightarrow> flow \<Rightarrow> flow" where
  "CheckKeepScopesFrom firstScope exitKind st =
     fold (check_keep firstScope exitKind) (concat (drop firstScope (keepScopes st))) st"

definition leaving_scope :: string where
  "leaving_scope = ''leaving its scope''"

definition PopKeepScope :: "flow \<Rightarrow> flow" where
  "PopKeepScope st =
     (if keepScopes st = [] then st
      else
        let checked = (if flowTerminated st then st
              else CheckKeepScopesFrom (length (keepScopes st) - 1) leaving_scope st);
            deferred = (\<lambda>i. if i \<in> set (last (deferredKeepScopes st))
              then map_option (kl_state_update (\<lambda>_. KS_Deleted)) (keepLifetimes st i)
              else keepLifetimes st i)
        in checked\<lparr>keepLifetimes := (\<lambda>i. if i \<in> set (last (keepScopes st)) then None else deferred i),
             keepScopes := butlast (keepScopes st),
             deferredKeepScopes := butlast (deferredKeepScopes st)\<rparr>)"

definition keep_at :: "keep_lifetime \<Rightarrow> SymbolId \<Rightarrow> keep_map \<Rightarrow> KeepState" where
  "keep_at lifetime i path = (case path i of None \<Rightarrow> kl_state lifetime | Some l \<Rightarrow> kl_state l)"

definition merge_keep :: "KeepState \<Rightarrow> KeepState \<Rightarrow> KeepState" where
  "merge_keep merged state = (if state \<noteq> merged then KS_MaybeDeleted else merged)"

definition MergeKeepPaths :: "keep_map \<Rightarrow> keep_map list \<Rightarrow> flow \<Rightarrow> flow" where
  "MergeKeepPaths base paths st = st\<lparr>keepLifetimes := (\<lambda>i.
     case paths of
       [] \<Rightarrow> base i
     | path # rest \<Rightarrow> map_option (\<lambda>lifetime. lifetime\<lparr>kl_state :=
         foldl (\<lambda>merged p. merge_keep merged (keep_at lifetime i p)) (keep_at lifetime i path) rest\<rparr>)
         (base i))\<rparr>"

section \<open>Values\<close>

definition PushValueFlowScope :: "flow \<Rightarrow> flow" where
  "PushValueFlowScope st = st\<lparr>valueFlowScopes := valueFlowScopes st @ [[]],
     deferredTaskScopes := deferredTaskScopes st @ [[]]\<rparr>"

definition flow_name :: "flow \<Rightarrow> SymbolId \<Rightarrow> string" where
  "flow_name st i = (case Get (flow_table st) i of None \<Rightarrow> ''<unknown>'' | Some s \<Rightarrow> sy_name s)"

definition check_task :: "nat \<Rightarrow> string \<Rightarrow> SymbolId \<Rightarrow> flow \<Rightarrow> flow" where
  "check_task firstScope exitKind i st =
     (case valueFlow st i of
        None \<Rightarrow> st
      | Some state \<Rightarrow>
          if deferred_from firstScope (deferredTaskScopes st) i then st
          else if vf_taskState state = TS_Pending then
            Report (''task '' @ quoted (flow_name st i) @ '' must be awaited before '' @ exitKind)
              ''E_TASK_NOT_AWAITED'' i st
          else if vf_taskState state = TS_MaybePending then
            Report (''task '' @ quoted (flow_name st i) @
              '' is not awaited on every control-flow path before '' @ exitKind)
              ''E_TASK_MAY_NOT_BE_AWAITED'' i st
          else st)"

definition CheckTaskScopesFrom :: "nat \<Rightarrow> string \<Rightarrow> flow \<Rightarrow> flow" where
  "CheckTaskScopesFrom firstScope exitKind st =
     fold (check_task firstScope exitKind) (concat (drop firstScope (valueFlowScopes st))) st"

text \<open>One symbol leaves its scope: the aliases of what it owned expire, and it is forgotten.\<close>

definition forget_symbol :: "SymbolId \<Rightarrow> flow_map \<Rightarrow> flow_map" where
  "forget_symbol i m = (\<lambda>a.
     if a = i then None
     else map_option (\<lambda>alias.
       if vf_pointerOwner alias = i \<and> vf_pointerValidity alias \<noteq> PV_Null
       then alias\<lparr>vf_pointerValidity := PV_Expired\<rparr> else alias) (m a))"

definition PopValueFlowScope :: "flow \<Rightarrow> flow" where
  "PopValueFlowScope st =
     (if valueFlowScopes st = [] then st
      else
        let checked = (if flowTerminated st then st
              else CheckTaskScopesFrom (length (valueFlowScopes st) - 1) leaving_scope st);
            awaited = (\<lambda>i. if i \<in> set (last (deferredTaskScopes st))
              then map_option (vf_taskState_update (\<lambda>_. TS_Awaited)) (valueFlow st i)
              else valueFlow st i)
        in checked\<lparr>valueFlow := fold forget_symbol (last (valueFlowScopes st)) awaited,
             valueFlowScopes := butlast (valueFlowScopes st),
             deferredTaskScopes := butlast (deferredTaskScopes st)\<rparr>)"

definition RegisterFlowSymbol :: "SymbolId \<Rightarrow> value_flow_state \<Rightarrow> flow \<Rightarrow> flow" where
  "RegisterFlowSymbol i state st =
     (if i = InvalidSymbolId then st
      else
        let opened = (if valueFlowScopes st = [] then PushValueFlowScope st else st)
        in opened\<lparr>valueFlow := (valueFlow opened)(i \<mapsto> state),
             valueFlowScopes := butlast (valueFlowScopes opened) @ [last (valueFlowScopes opened) @ [i]]\<rparr>)"

definition TransferManagedAliases :: "SymbolId \<Rightarrow> SymbolId \<Rightarrow> flow \<Rightarrow> flow" where
  "TransferManagedAliases previousOwner nextOwner st =
     (if previousOwner = InvalidSymbolId \<or> nextOwner = InvalidSymbolId \<or> previousOwner = nextOwner then st
      else st\<lparr>valueFlow := (\<lambda>i. map_option (\<lambda>state.
          if vf_pointerOwner state = previousOwner then state\<lparr>vf_pointerOwner := nextOwner\<rparr> else state)
        (valueFlow st i))\<rparr>)"

section \<open>Merging paths\<close>

definition merge_initialization :: "InitializationState \<Rightarrow> InitializationState \<Rightarrow> InitializationState" where
  "merge_initialization a b = (if a \<noteq> b then IS_MaybeUninitialized else a)"

definition dangerous_pointer :: "PointerValidity \<Rightarrow> bool" where
  "dangerous_pointer v \<longleftrightarrow> v = PV_Deleted \<or> v = PV_Expired \<or> v = PV_MaybeInvalid"

definition invalid_pointer :: "PointerValidity \<Rightarrow> bool" where
  "invalid_pointer v \<longleftrightarrow> v = PV_Null \<or> v = PV_Deleted \<or> v = PV_Expired \<or> v = PV_MaybeInvalid"

definition nullable_pointer :: "PointerValidity \<Rightarrow> bool" where
  "nullable_pointer v \<longleftrightarrow> v = PV_Null \<or> v = PV_Live \<or> v = PV_MaybeNull"

definition merge_pointer :: "PointerValidity \<Rightarrow> PointerValidity \<Rightarrow> PointerValidity" where
  "merge_pointer a b =
     (if a = b then a
      else if dangerous_pointer a \<or> dangerous_pointer b then PV_MaybeInvalid
      else if nullable_pointer a \<and> nullable_pointer b then PV_MaybeNull
      else if invalid_pointer a \<or> invalid_pointer b then PV_MaybeInvalid
      else PV_Unknown)"

definition may_be_null :: "PointerValidity \<Rightarrow> bool" where
  "may_be_null v \<longleftrightarrow> v = PV_Null \<or> v = PV_MaybeNull"

definition merge_owner ::
    "PointerValidity \<Rightarrow> SymbolId \<Rightarrow> PointerValidity \<Rightarrow> SymbolId \<Rightarrow> SymbolId" where
  "merge_owner a owner b owner' =
     (if owner = owner' then owner
      else if may_be_null a \<and> owner = InvalidSymbolId then owner'
      else if \<not> may_be_null b then InvalidSymbolId
      else owner)"

definition pending :: "TaskState \<Rightarrow> bool" where
  "pending t \<longleftrightarrow> t = TS_Pending \<or> t = TS_MaybePending"

definition merge_task :: "TaskState \<Rightarrow> TaskState \<Rightarrow> TaskState" where
  "merge_task a b = (if a = b then a else if pending a \<or> pending b then TS_MaybePending else TS_Unknown)"

definition merge_state :: "value_flow_state \<Rightarrow> value_flow_state \<Rightarrow> value_flow_state" where
  "merge_state state n =
     \<lparr>vf_initialization = merge_initialization (vf_initialization state) (vf_initialization n),
      vf_pointerValidity = merge_pointer (vf_pointerValidity state) (vf_pointerValidity n),
      vf_pointerOwner = merge_owner (vf_pointerValidity state) (vf_pointerOwner state)
        (vf_pointerValidity n) (vf_pointerOwner n),
      vf_taskState = merge_task (vf_taskState state) (vf_taskState n)\<rparr>"

definition state_at :: "value_flow_state \<Rightarrow> SymbolId \<Rightarrow> flow_map \<Rightarrow> value_flow_state" where
  "state_at base i path = (case path i of None \<Rightarrow> base | Some state \<Rightarrow> state)"

definition MergeValueFlowPaths :: "flow_map \<Rightarrow> flow_map list \<Rightarrow> flow \<Rightarrow> flow" where
  "MergeValueFlowPaths base paths st = st\<lparr>valueFlow := (\<lambda>i.
     case paths of
       [] \<Rightarrow> base i
     | path # rest \<Rightarrow> map_option (\<lambda>b.
         foldl (\<lambda>state p. merge_state state (state_at b i p)) (state_at b i path) rest) (base i))\<rparr>"

section \<open>Arguments that take ownership\<close>

text \<open>What is known of an evaluated expression, as far as ownership is concerned.\<close>

record evaluation =
  rs_symbol :: SymbolId
  rs_type :: string
  rs_isLValue :: bool
  rs_createsManagedOwner :: bool
  rs_referencesManagedOwner :: bool
  rs_initialization :: InitializationState
  rs_pointerValidity :: PointerValidity
  rs_pointerOwner :: SymbolId
  rs_taskState :: TaskState
  rs_createsTask :: bool
  rs_asyncCall :: bool
  rs_createsRawOwner :: bool
  rs_isMoveResult :: bool
  rs_createsArrayOwner :: bool
  rs_producesFreshValue :: bool

definition evaluated :: "SymbolId \<Rightarrow> string \<Rightarrow> evaluation" where
  "evaluated i type = \<lparr>rs_symbol = i, rs_type = type, rs_isLValue = False,
     rs_createsManagedOwner = False, rs_referencesManagedOwner = False,
     rs_initialization = IS_Initialized, rs_pointerValidity = PV_NotPointer,
     rs_pointerOwner = InvalidSymbolId, rs_taskState = TS_NotTask, rs_createsTask = False,
     rs_asyncCall = False, rs_createsRawOwner = False, rs_isMoveResult = False,
     rs_createsArrayOwner = False, rs_producesFreshValue = False\<rparr>"

definition ParameterSupportsOwnership :: "analyzer \<Rightarrow> string \<Rightarrow> bool option" where
  "ParameterSupportsOwnership an declaredType =
     (if IsCanonicalValueReferenceType declaredType then Some False
      else if IsStrongManagedPointerType declaredType \<or> ArrayRank declaredType > 0 then Some True
      else if IsPointerType declaredType then Some False
      else TypeOwnsUniqueResource an declaredType)"

definition TransfersOwnership :: "analyzer \<Rightarrow> symbol_table \<Rightarrow> evaluation \<Rightarrow> string \<Rightarrow> bool option" where
  "TransfersOwnership an table argument parameterType =
     map_option (\<lambda>supports.
       if \<not> supports then False
       else let valueType = CanonicalValueReferenceBaseType parameterType in
         if IsStrongManagedPointerType valueType then rs_createsManagedOwner argument
         else if ArrayRank valueType > 0 then rs_createsArrayOwner argument
         else rs_isMoveResult argument \<or> \<not> rs_isLValue argument \<or>
           (case Get table (rs_symbol argument) of
              None \<Rightarrow> False
            | Some source \<Rightarrow> sy_kind source = SK_Function \<or> sy_kind source = SK_Method))
       (ParameterSupportsOwnership an parameterType)"

record ownership_call =
  oc_callable :: SymbolId
  oc_context :: string
  oc_ownerArguments :: "bool list"
  oc_argumentSymbols :: "SymbolId list"

definition RecordOwnershipCall :: "analyzer \<Rightarrow> symbol_table \<Rightarrow> SymbolId \<Rightarrow> evaluation list \<Rightarrow>
    string list \<Rightarrow> string \<Rightarrow> ownership_call list \<Rightarrow> ownership_call list option" where
  "RecordOwnershipCall an table callee arguments parameterTypes context calls =
     (if callee = InvalidSymbolId then Some calls
      else map_option (\<lambda>owners. calls @ [\<lparr>oc_callable = callee, oc_context = context,
             oc_ownerArguments = owners, oc_argumentSymbols = map rs_symbol arguments\<rparr>])
        (those (map (\<lambda>index. TransfersOwnership an table (arguments ! index)
             (if index < length parameterTypes then parameterTypes ! index else []))
           [0..<length arguments])))"

definition call_diagnostics :: "symbol \<Rightarrow> ownership_call \<Rightarrow> diagnostic list" where
  "call_diagnostics callee call =
     concat (map (\<lambda>index.
       if \<not> sy_parameterRequiresOwner callee ! index \<or> oc_ownerArguments call ! index then []
       else [(oc_context call @ '' argument '' @ to_string (index + 1) @
           '' is borrowed, but the function moves or stores this parameter; pass move(owner)'',
           ''E_PARAMETER_REQUIRES_OWNER'',
           (if index < length (oc_argumentSymbols call) then oc_argumentSymbols call ! index
            else InvalidSymbolId))])
     [0..<min (length (sy_parameterRequiresOwner callee)) (length (oc_ownerArguments call))])"

definition ValidateDeferredOwnershipCalls :: "symbol_table \<Rightarrow> ownership_call list \<Rightarrow> diagnostic list" where
  "ValidateDeferredOwnershipCalls table calls =
     concat (map (\<lambda>call. case Get table (oc_callable call) of
        None \<Rightarrow> []
      | Some callee \<Rightarrow> call_diagnostics callee call) calls)"

end
