(* ===== verification/Flow_Soundness.thy ===== *)
theory Flow_Soundness
  imports Value_Flow
begin

text \<open>
  What the flow analysis guarantees: a merged state allows whatever one of the paths can have
  left, leaving a scope reports exactly the raw owners and tasks that some path
  abandons, and no alias of an allocation is live after the scope of its owner.
\<close>

section \<open>What happens at run time\<close>

datatype pointer_fact = Null_pointer | Live_object | Dead_object

fun pointer_allows :: "PointerValidity \<Rightarrow> pointer_fact \<Rightarrow> bool" where
  "pointer_allows PV_NotPointer p = False"
| "pointer_allows PV_Null p = (p = Null_pointer)"
| "pointer_allows PV_Live p = (p = Live_object)"
| "pointer_allows PV_Deleted p = (p = Dead_object)"
| "pointer_allows PV_Expired p = (p = Dead_object)"
| "pointer_allows PV_MaybeNull p = (p \<noteq> Dead_object)"
| "pointer_allows PV_MaybeInvalid p = True"
| "pointer_allows PV_Unknown p = True"

fun initialization_allows :: "InitializationState \<Rightarrow> bool \<Rightarrow> bool" where
  "initialization_allows IS_Initialized b = b"
| "initialization_allows IS_Uninitialized b = (\<not> b)"
| "initialization_allows IS_MaybeUninitialized b = True"

fun task_allows :: "TaskState \<Rightarrow> bool \<Rightarrow> bool" where
  "task_allows TS_Pending b = b"
| "task_allows TS_MaybePending b = True"
| "task_allows t b = (\<not> b)"

text \<open>A symbol at run time: whether it has a value, its pointer, and whether its task still waits.\<close>

type_synonym fact = "bool \<times> pointer_fact option \<times> bool"

definition allows :: "value_flow_state \<Rightarrow> fact \<Rightarrow> bool" where
  "allows s c \<longleftrightarrow> (case c of (initialised, p, waiting) \<Rightarrow>
     initialization_allows (vf_initialization s) initialised \<and>
     (case p of None \<Rightarrow> True | Some q \<Rightarrow> pointer_allows (vf_pointerValidity s) q) \<and>
     task_allows (vf_taskState s) waiting)"

lemma merge_pointer_allows:
  "pointer_allows a p \<Longrightarrow> pointer_allows (merge_pointer a b) p"
  "pointer_allows b p \<Longrightarrow> pointer_allows (merge_pointer a b) p"
  by (cases a; cases b; simp add: merge_pointer_def dangerous_pointer_def nullable_pointer_def
      invalid_pointer_def; cases p; simp)+

lemma merge_initialization_allows:
  "initialization_allows a p \<Longrightarrow> initialization_allows (merge_initialization a b) p"
  "initialization_allows b p \<Longrightarrow> initialization_allows (merge_initialization a b) p"
  by (cases a; cases b; simp add: merge_initialization_def)+

lemma merge_task_allows:
  "task_allows a p \<Longrightarrow> task_allows (merge_task a b) p"
  "task_allows b p \<Longrightarrow> task_allows (merge_task a b) p"
  by (cases a; cases b; simp add: merge_task_def pending_def)+

lemma merge_state_allows:
  "allows s c \<Longrightarrow> allows (merge_state s n) c" "allows n c \<Longrightarrow> allows (merge_state s n) c"
  by (auto simp: allows_def merge_state_def merge_pointer_allows merge_initialization_allows
      merge_task_allows split: prod.splits option.splits)

lemma merge_states_allow:
  "allows s c \<or> (\<exists>p \<in> set ps. allows (f p) c) \<Longrightarrow> allows (foldl (\<lambda>state p. merge_state state (f p)) s ps) c"
  by (induction ps arbitrary: s) (auto intro: merge_state_allows)

lemma merge_task_pending: "pending (merge_task a b) = (pending a \<or> pending b)"
  by (cases a; cases b) (simp_all add: merge_task_def pending_def)

lemma merge_states_pending:
  "pending (vf_taskState (foldl (\<lambda>state p. merge_state state (f p)) s ps)) =
     (pending (vf_taskState s) \<or> (\<exists>p \<in> set ps. pending (vf_taskState (f p))))"
  by (induction ps arbitrary: s) (auto simp: merge_state_def merge_task_pending)

lemma merge_keep_Deleted:
  "foldl (\<lambda>m p. merge_keep m (f p)) k ps = KS_Deleted \<longleftrightarrow> k = KS_Deleted \<and> (\<forall>p \<in> set ps. f p = KS_Deleted)"
  by (induction ps arbitrary: k) (auto simp: merge_keep_def)

section \<open>What leaving a scope reports\<close>

text \<open>
  A check of one symbol that adds diagnostics and nothing else, and whose diagnostics depend on
  the state before any was added. The checks of raw owners and of tasks are two such checks.
\<close>

locale scope_check =
  fixes check :: "SymbolId \<Rightarrow> flow \<Rightarrow> flow"
    and found :: "flow \<Rightarrow> SymbolId \<Rightarrow> (string \<times> string) option"
  assumes check_adds: "check i st = st\<lparr>diagnostics := diagnostics st @
      (case found st i of None \<Rightarrow> [] | Some (m, c) \<Rightarrow> [(m, c, i)])\<rparr>"
    and found_ignores: "found (st\<lparr>diagnostics := ds\<rparr>) i = found st i"
begin

definition findings :: "flow \<Rightarrow> SymbolId list \<Rightarrow> diagnostic list" where
  "findings st is = concat (map (\<lambda>i. case found st i of None \<Rightarrow> [] | Some (m, c) \<Rightarrow> [(m, c, i)]) is)"

lemma fold_check: "fold check is st = st\<lparr>diagnostics := diagnostics st @ findings st is\<rparr>"
proof (induction "is" arbitrary: st)
  case Nil
  then show ?case by (simp add: findings_def)
next
  case (Cons i "is")
  have same: "findings (st\<lparr>diagnostics := ds\<rparr>) is = findings st is" for ds
    by (simp add: findings_def found_ignores)
  obtain ds where ds: "check i st = st\<lparr>diagnostics := diagnostics st @ ds\<rparr>"
      "findings st (i # is) = ds @ findings st is"
    using check_adds [of i st] by (simp add: findings_def)
  have "fold check (i # is) st = fold check is (check i st)" by simp
  also have "\<dots> = st\<lparr>diagnostics := diagnostics st @ ds @ findings st is\<rparr>"
    by (simp add: Cons.IH ds(1) same)
  finally show ?case by (simp add: ds(2))
qed

lemma findings_iff: "(m, c, i) \<in> set (findings st is) \<longleftrightarrow> i \<in> set is \<and> found st i = Some (m, c)"
  by (auto simp: findings_def split: option.splits)

end

definition keep_found :: "nat \<Rightarrow> string \<Rightarrow> flow \<Rightarrow> SymbolId \<Rightarrow> (string \<times> string) option" where
  "keep_found n exitKind st i =
     (case keepLifetimes st i of
        None \<Rightarrow> None
      | Some l \<Rightarrow>
          if kl_state l = KS_Deleted \<or> deferred_from n (deferredKeepScopes st) i then None
          else Some (''raw owner '' @ quoted (kl_name l) @
              (if kl_state l = KS_MaybeDeleted then '' is not deleted on every control-flow path''
               else '' must be explicitly deleted'') @ '' before '' @ exitKind, ''E_RAW_DELETE_REQUIRED''))"

definition task_found :: "nat \<Rightarrow> string \<Rightarrow> flow \<Rightarrow> SymbolId \<Rightarrow> (string \<times> string) option" where
  "task_found n exitKind st i =
     (case valueFlow st i of
        None \<Rightarrow> None
      | Some s \<Rightarrow>
          if deferred_from n (deferredTaskScopes st) i then None
          else if vf_taskState s = TS_Pending then
            Some (''task '' @ quoted (flow_name st i) @ '' must be awaited before '' @ exitKind,
              ''E_TASK_NOT_AWAITED'')
          else if vf_taskState s = TS_MaybePending then
            Some (''task '' @ quoted (flow_name st i) @
              '' is not awaited on every control-flow path before '' @ exitKind,
              ''E_TASK_MAY_NOT_BE_AWAITED'')
          else None)"

interpretation keep: scope_check "check_keep n exitKind" "keep_found n exitKind"
  by unfold_locales (auto simp: check_keep_def keep_found_def Report_def split: option.splits)

interpretation task: scope_check "check_task n exitKind" "task_found n exitKind"
  by unfold_locales (auto simp: check_task_def task_found_def Report_def flow_name_def split: option.splits)

definition new_diagnostics :: "flow \<Rightarrow> flow \<Rightarrow> diagnostic set" where
  "new_diagnostics st st' = set (drop (length (diagnostics st)) (diagnostics st'))"

lemma deferred_last:
  "length ds = n \<Longrightarrow> ds \<noteq> [] \<Longrightarrow> deferred_from (n - 1) ds i \<longleftrightarrow> i \<in> set (last ds)"
  by (induction ds rule: rev_induct) (auto simp: deferred_from_def)

lemma drop_last: "xs \<noteq> [] \<Longrightarrow> drop (length xs - 1) xs = [last xs]"
  by (induction xs rule: rev_induct) auto

lemma PopKeepScope_reports:
  assumes "keepScopes st \<noteq> []" and "length (deferredKeepScopes st) = length (keepScopes st)"
    and "\<not> flowTerminated st"
  shows "(\<exists>m. (m, ''E_RAW_DELETE_REQUIRED'', i) \<in> new_diagnostics st (PopKeepScope st)) \<longleftrightarrow>
    i \<in> set (last (keepScopes st)) \<and> i \<notin> set (last (deferredKeepScopes st)) \<and>
    (\<exists>l. keepLifetimes st i = Some l \<and> kl_state l \<noteq> KS_Deleted)"
proof -
  let ?n = "length (keepScopes st) - 1"
  have d: "deferred_from ?n (deferredKeepScopes st) i \<longleftrightarrow> i \<in> set (last (deferredKeepScopes st))"
    using assms(1,2) by (intro deferred_last) auto
  have "diagnostics (PopKeepScope st) = diagnostics st @
      keep.findings ?n leaving_scope st (last (keepScopes st))"
    using assms(1,3)
    by (simp add: PopKeepScope_def Let_def CheckKeepScopesFrom_def drop_last [OF assms(1)] keep.fold_check
        del: One_nat_def)
  then have "new_diagnostics st (PopKeepScope st) =
      set (keep.findings ?n leaving_scope st (last (keepScopes st)))"
    by (simp add: new_diagnostics_def)
  then show ?thesis
    using d by (auto simp: keep.findings_iff keep_found_def split: option.splits)
qed

lemma PopValueFlowScope_reports:
  assumes "valueFlowScopes st \<noteq> []" and "length (deferredTaskScopes st) = length (valueFlowScopes st)"
    and "\<not> flowTerminated st"
  shows "(\<exists>m c. (m, c, i) \<in> new_diagnostics st (PopValueFlowScope st)) \<longleftrightarrow>
    i \<in> set (last (valueFlowScopes st)) \<and> i \<notin> set (last (deferredTaskScopes st)) \<and>
    (\<exists>s. valueFlow st i = Some s \<and> pending (vf_taskState s))"
proof -
  let ?n = "length (valueFlowScopes st) - 1"
  have d: "deferred_from ?n (deferredTaskScopes st) i \<longleftrightarrow> i \<in> set (last (deferredTaskScopes st))"
    using assms(1,2) by (intro deferred_last) auto
  have "diagnostics (PopValueFlowScope st) = diagnostics st @
      task.findings ?n leaving_scope st (last (valueFlowScopes st))"
    using assms(1,3)
    by (simp add: PopValueFlowScope_def Let_def CheckTaskScopesFrom_def drop_last [OF assms(1)] task.fold_check
        del: One_nat_def)
  then have "new_diagnostics st (PopValueFlowScope st) =
      set (task.findings ?n leaving_scope st (last (valueFlowScopes st)))"
    by (simp add: new_diagnostics_def)
  then show ?thesis
    using d by (auto simp: task.findings_iff task_found_def pending_def split: option.splits if_splits)
qed

section \<open>Aliases\<close>

lemma fold_forget_symbol:
  "fold forget_symbol is m a =
     (if a \<in> set is then None
      else map_option (\<lambda>s. if vf_pointerOwner s \<in> set is \<and> vf_pointerValidity s \<noteq> PV_Null
        then s\<lparr>vf_pointerValidity := PV_Expired\<rparr> else s) (m a))"
proof (induction "is" arbitrary: m)
  case Nil
  then show ?case by (cases "m a") simp_all
next
  case (Cons i "is")
  show ?case
    unfolding fold.simps comp_apply Cons.IH by (cases "m a") (auto simp: forget_symbol_def)
qed

lemma PopValueFlowScope_flow:
  assumes "valueFlowScopes st \<noteq> []"
  shows "valueFlow (PopValueFlowScope st) =
    fold forget_symbol (last (valueFlowScopes st))
      (\<lambda>i. if i \<in> set (last (deferredTaskScopes st))
        then map_option (vf_taskState_update (\<lambda>_. TS_Awaited)) (valueFlow st i) else valueFlow st i)"
  using assms by (simp add: PopValueFlowScope_def Let_def)

section \<open>Properties\<close>

text \<open>
  C10. Merging is sound: what a symbol can be at run time at the end of one of the paths, its merged
  state allows, for its initialisation, its pointer and its task; a task waits in the merged
  state exactly if it waits on some path.
\<close>

theorem merged_state_covers_paths:
  assumes "base i = Some b" and "p \<in> set paths"
  shows "\<exists>m. valueFlow (MergeValueFlowPaths base paths st) i = Some m \<and>
    (\<forall>c. allows (state_at b i p) c \<longrightarrow> allows m c) \<and>
    (pending (vf_taskState m) = (\<exists>q \<in> set paths. pending (vf_taskState (state_at b i q))))"
proof -
  obtain path rest where ps: "paths = path # rest" using assms(2) by (cases paths) auto
  let ?m = "foldl (\<lambda>state q. merge_state state (state_at b i q)) (state_at b i path) rest"
  have "valueFlow (MergeValueFlowPaths base paths st) i = Some ?m"
    by (simp add: MergeValueFlowPaths_def ps assms(1))
  moreover have "allows ?m c" if "allows (state_at b i p) c" for c
    using that assms(2) by (intro merge_states_allow) (auto simp: ps)
  moreover have "pending (vf_taskState ?m) = (\<exists>q \<in> set paths. pending (vf_taskState (state_at b i q)))"
    by (simp add: merge_states_pending ps)
  ultimately show ?thesis by blast
qed

text \<open>
  C21. A raw owner that some path leaves undeleted is reported: after the paths through a statement are
  merged, leaving the scope of an owner reports it exactly if it is not deleted at the end of
  one of the paths and no \<open>defer\<close> of that scope deletes it.
\<close>

theorem undeleted_owner_is_reported:
  assumes "keepScopes st \<noteq> []" and "length (deferredKeepScopes st) = length (keepScopes st)"
    and "\<not> flowTerminated st" and "base i = Some l" and "paths \<noteq> []" and "i \<in> set (last (keepScopes st))"
  shows "(\<exists>m. (m, ''E_RAW_DELETE_REQUIRED'', i)
      \<in> new_diagnostics st (PopKeepScope (MergeKeepPaths base paths st))) =
    (i \<notin> set (last (deferredKeepScopes st)) \<and> (\<exists>p \<in> set paths. keep_at l i p \<noteq> KS_Deleted))"
proof -
  obtain path rest where ps: "paths = path # rest" using assms(5) by (cases paths) auto
  let ?st = "MergeKeepPaths base paths st"
  let ?m = "foldl (\<lambda>m p. merge_keep m (keep_at l i p)) (keep_at l i path) rest"
  have kept: "keepScopes ?st = keepScopes st" "deferredKeepScopes ?st = deferredKeepScopes st"
      "flowTerminated ?st = flowTerminated st" "diagnostics ?st = diagnostics st"
      "keepLifetimes ?st i = Some (l\<lparr>kl_state := ?m\<rparr>)"
    using assms(4) by (simp_all add: MergeKeepPaths_def ps)
  have "(\<exists>m. (m, ''E_RAW_DELETE_REQUIRED'', i) \<in> new_diagnostics ?st (PopKeepScope ?st)) =
      (i \<notin> set (last (deferredKeepScopes st)) \<and> ?m \<noteq> KS_Deleted)"
    using PopKeepScope_reports [of ?st i] assms(1,2,3,6) kept by simp
  moreover have "?m \<noteq> KS_Deleted \<longleftrightarrow> (\<exists>p \<in> set paths. keep_at l i p \<noteq> KS_Deleted)"
    by (auto simp: merge_keep_Deleted ps)
  ultimately show ?thesis by (simp add: new_diagnostics_def kept(4))
qed

text \<open>
  C30. No alias outlives the owner: after a scope is left, a symbol whose pointer is into an allocation
  owned by a symbol of that scope is null or expired, the symbols of the scope are gone, and
  the symbols that own or point elsewhere keep their pointers.
\<close>

theorem aliases_expire_with_owner:
  assumes "valueFlowScopes st \<noteq> []"
  shows "(\<forall>i \<in> set (last (valueFlowScopes st)). valueFlow (PopValueFlowScope st) i = None) \<and>
    (\<forall>a s. valueFlow (PopValueFlowScope st) a = Some s \<longrightarrow>
      (if vf_pointerOwner s \<in> set (last (valueFlowScopes st))
       then vf_pointerValidity s \<in> {PV_Null, PV_Expired}
       else map_option vf_pointerValidity (valueFlow st a) = Some (vf_pointerValidity s)))"
  unfolding PopValueFlowScope_flow [OF assms] fold_forget_symbol
  by (auto split: if_splits dest: arg_cong [where f = vf_pointerValidity])

text \<open>
  An abandoned task is reported: leaving a scope reports exactly those of its symbols that hold
  a task that is, or on some path may be, not awaited, and that no \<open>defer\<close> awaits.
\<close>

theorem unawaited_task_is_reported:
  assumes "valueFlowScopes st \<noteq> []" and "length (deferredTaskScopes st) = length (valueFlowScopes st)"
    and "\<not> flowTerminated st"
  shows "(\<exists>m c. (m, c, i) \<in> new_diagnostics st (PopValueFlowScope st)) =
    (i \<in> set (last (valueFlowScopes st)) \<and> i \<notin> set (last (deferredTaskScopes st)) \<and>
     (\<exists>s. valueFlow st i = Some s \<and> pending (vf_taskState s)))"
  using PopValueFlowScope_reports [OF assms] .

subsection \<open>Concrete flows\<close>

definition some_flow :: flow where
  "some_flow = \<lparr>keepLifetimes = [1 \<mapsto> \<lparr>kl_name = ''p'', kl_state = KS_Live\<rparr>], keepScopes = [[1]],
     deferredKeepScopes = [[]],
     valueFlow = [1 \<mapsto> default_flow, 2 \<mapsto> default_flow\<lparr>vf_pointerValidity := PV_Live, vf_pointerOwner := 1\<rparr>,
       3 \<mapsto> default_flow\<lparr>vf_taskState := TS_Pending\<rparr>],
     valueFlowScopes = [[2], [1, 3]], deferredTaskScopes = [[], []], flowTerminated = False,
     flow_table = Reset, diagnostics = []\<rparr>"

lemma merged_state_covers_paths_witness:
  "\<exists>m. valueFlow (MergeValueFlowPaths (valueFlow some_flow)
      [valueFlow some_flow, (valueFlow some_flow)(2 := None)] some_flow) 2 = Some m \<and>
    allows m (True, Some Live_object, False)"
proof -
  let ?b = "default_flow\<lparr>vf_pointerValidity := PV_Live, vf_pointerOwner := 1\<rparr>"
  have "valueFlow some_flow 2 = Some ?b" by (simp add: some_flow_def)
  moreover have "allows (state_at ?b 2 (valueFlow some_flow)) (True, Some Live_object, False)"
    by (simp add: allows_def state_at_def some_flow_def default_flow_def)
  ultimately show ?thesis
    using merged_state_covers_paths [of "valueFlow some_flow" 2 ?b "valueFlow some_flow"
      "[valueFlow some_flow, (valueFlow some_flow)(2 := None)]" some_flow] by auto
qed

lemma undeleted_owner_is_reported_witness:
  "\<exists>m. (m, ''E_RAW_DELETE_REQUIRED'', 1) \<in> new_diagnostics some_flow
     (PopKeepScope (MergeKeepPaths (keepLifetimes some_flow)
       [keepLifetimes some_flow, [1 \<mapsto> \<lparr>kl_name = ''p'', kl_state = KS_Deleted\<rparr>]] some_flow))"
  using undeleted_owner_is_reported [of some_flow "keepLifetimes some_flow" 1 "\<lparr>kl_name = ''p'', kl_state = KS_Live\<rparr>"
    "[keepLifetimes some_flow, [1 \<mapsto> \<lparr>kl_name = ''p'', kl_state = KS_Deleted\<rparr>]]"]
  by (simp add: some_flow_def keep_at_def)

lemma aliases_expire_with_owner_witness:
  "map_option vf_pointerValidity (valueFlow (PopValueFlowScope some_flow) 2) = Some PV_Expired"
proof -
  have s: "valueFlowScopes some_flow \<noteq> []" "1 \<in> set (last (valueFlowScopes some_flow))"
    by (simp_all add: some_flow_def)
  obtain s where "valueFlow (PopValueFlowScope some_flow) 2 = Some s" "vf_pointerOwner s = 1"
      "vf_pointerValidity s \<noteq> PV_Null"
    by (simp add: PopValueFlowScope_flow forget_symbol_def some_flow_def default_flow_def)
  then show ?thesis using aliases_expire_with_owner [OF s(1)] s(2) by fastforce
qed

lemma unawaited_task_is_reported_witness:
  "\<exists>m c. (m, c, 3) \<in> new_diagnostics some_flow (PopValueFlowScope some_flow)"
  using unawaited_task_is_reported [of some_flow 3]
  by (simp add: some_flow_def default_flow_def pending_def)

section \<open>What merging loses\<close>

text \<open>
  Of two paths on which a pointer may be null and else points into allocations of different
  owners, the merged state remembers the first owner only, so the pointer does not expire with
  the second; and the merge of three validities depends on their order.
\<close>

lemma merged_owner_forgets_second:
  "merge_owner PV_MaybeNull 1 PV_MaybeNull 2 = 1"
  "merge_owner PV_Live 1 PV_Null 2 = 1"
  by (simp_all add: merge_owner_def may_be_null_def InvalidSymbolId_def)

lemma merge_pointer_depends_on_order:
  "merge_pointer (merge_pointer PV_Null PV_Live) PV_Unknown = PV_Unknown"
  "merge_pointer (merge_pointer PV_Null PV_Unknown) PV_Live = PV_MaybeInvalid"
  by (simp_all add: merge_pointer_def dangerous_pointer_def nullable_pointer_def invalid_pointer_def)

end
