(* ===== verification/Overloads.thy ===== *)
theory Overloads
  imports Value_Flow
begin

text \<open>
  Choosing the callee of a call (\<^verbatim>\<open>analyzer.cpp\<close>): what each candidate costs, which one is cheapest,
  and the specialisation of a generic function for the arguments that were inferred. The members of
  \<open>Analyzer\<close> that change are the record \<open>callees\<close>; \<open>None\<close> means that asking for a conversion did not
  return. A variadic candidate has at least one parameter: the flag is set from its last one.
\<close>

section \<open>Specialisations\<close>

record callees =
  ca_table :: symbol_table
  genericFunctionSpecializations :: "string \<rightharpoonup> SymbolId"
  genericFunctionSpecializationOrder :: "SymbolId list"
  functionDeclarations :: "SymbolId \<rightharpoonup> stmt"
  ca_diagnostics :: "diagnostic list"

definition specialization_key :: "SymbolId \<Rightarrow> string list \<Rightarrow> string" where
  "specialization_key origin arguments =
     to_string (unat origin) @ concat (map (\<lambda>argument. ''|'' @ argument) arguments)"

definition specialized :: "symbol \<Rightarrow> SymbolId \<Rightarrow> string list \<Rightarrow> symbol" where
  "specialized generic origin arguments =
     (let substitutions = map_of (zip (sy_genericParameters generic) arguments) in
      generic\<lparr>sy_id := InvalidSymbolId,
        sy_type := SubstituteGenericType (sy_type generic) substitutions,
        sy_parameterTypes := map (\<lambda>p. SubstituteGenericType p substitutions) (sy_parameterTypes generic),
        sy_genericArguments := arguments, sy_genericOrigin := origin\<rparr>)"

definition open_argument :: "analyzer \<Rightarrow> string \<Rightarrow> bool" where
  "open_argument an argument = list_ex (\<lambda>scope. scope argument = Some argument) (genericTypeScopes an)"

definition InstantiateGenericFunction ::
    "analyzer \<Rightarrow> SymbolId \<Rightarrow> string list \<Rightarrow> callees \<Rightarrow> SymbolId \<times> callees" where
  "InstantiateGenericFunction an origin arguments st =
     (case Get (ca_table st) origin of
        None \<Rightarrow> (InvalidSymbolId, st)
      | Some generic \<Rightarrow>
          if length (sy_genericParameters generic) \<noteq> length arguments then (InvalidSymbolId, st)
          else case genericFunctionSpecializations st (specialization_key origin arguments) of
            Some found \<Rightarrow> (found, st)
          | None \<Rightarrow>
              case AppendSpecialization (specialized generic origin arguments) (ca_table st) of
                (i, table) \<Rightarrow>
                  (i, st\<lparr>ca_table := table,
                     genericFunctionSpecializations :=
                       (genericFunctionSpecializations st)(specialization_key origin arguments \<mapsto> i),
                     genericFunctionSpecializationOrder :=
                       (if list_ex (open_argument an) arguments then genericFunctionSpecializationOrder st
                        else genericFunctionSpecializationOrder st @ [i]),
                     functionDeclarations := (functionDeclarations st)(i := functionDeclarations st origin)\<rparr>))"

section \<open>The cost of a candidate\<close>

text \<open>Costs add up until an argument cannot be converted; then the candidate is not applicable.\<close>

fun conversion_costs :: "analyzer \<Rightarrow> (string \<times> string) list \<Rightarrow> int \<Rightarrow> int option option" where
  "conversion_costs an [] cost = Some (Some cost)"
| "conversion_costs an ((target, source) # rest) cost =
     Option.bind (ConversionCost an target source) (\<lambda>conversion.
       if conversion < 0 then Some None else conversion_costs an rest (cost + conversion))"

definition constructor_cost ::
    "analyzer \<Rightarrow> symbol_table \<Rightarrow> string list \<Rightarrow> (string \<rightharpoonup> string) \<Rightarrow> member_signature \<Rightarrow> int option option" where
  "constructor_cost an table arguments substitutions candidate =
     (let parameters = map (\<lambda>p. SubstituteGenericType p substitutions) (ms_parameterTypes candidate);
          defaulted = (case Get table (ms_symbol candidate) of None \<Rightarrow> 0 | Some s \<Rightarrow> sy_defaultedParameters s)
      in if length arguments > length parameters \<or> length arguments + defaulted < length parameters
         then Some None
         else conversion_costs an
           (zip (map CanonicalValueReferenceBaseType (take (length arguments) parameters)) arguments)
           (int (length parameters) - int (length arguments)))"

text \<open>The best candidate so far, with its cost and whether another one costs the same.\<close>

type_synonym constructor_pick = "member_signature option \<times> int \<times> bool"

definition cost_limit :: int where
  "cost_limit = 2 ^ 31 - 1"

fun pick_constructor ::
    "(member_signature \<Rightarrow> int option option) \<Rightarrow> member_signature list \<Rightarrow> constructor_pick \<Rightarrow>
     constructor_pick option" where
  "pick_constructor cost_of [] pick = Some pick"
| "pick_constructor cost_of (candidate # rest) (best, bestCost, ambiguous) =
     Option.bind (cost_of candidate) (\<lambda>cost. case cost of
       None \<Rightarrow> pick_constructor cost_of rest (best, bestCost, ambiguous)
     | Some c \<Rightarrow>
         if c < bestCost then pick_constructor cost_of rest (Some candidate, c, False)
         else pick_constructor cost_of rest (best, bestCost, ambiguous \<or> c = bestCost))"

definition types_text :: "string list \<Rightarrow> string" where
  "types_text types = concat (map (\<lambda>i. (if i = 0 then [] else '', '') @ types ! i) [0..<length types])"

definition SelectConstructor ::
    "analyzer \<Rightarrow> symbol_table \<Rightarrow> member_signature list \<Rightarrow> string list \<Rightarrow> string \<Rightarrow>
     (string \<rightharpoonup> string) \<Rightarrow> (member_signature option \<times> diagnostic list) option" where
  "SelectConstructor an table constructors arguments displayName substitutions =
     (if constructors = [] then
        Some (None, if arguments = [] then [] else
          [(''constructor of '' @ quoted displayName @ '' expects 0 argument(s), got '' @
              to_string (length arguments), ''E_CONSTRUCTOR_ARGUMENT_COUNT'', InvalidSymbolId)])
      else map_option (\<lambda>(best, bestCost, ambiguous).
          if best = None then
            (None, [(''no overload of constructor '' @ quoted displayName @ '' accepts ('' @
               types_text arguments @ '')'', ''E_NO_MATCHING_CONSTRUCTOR'', InvalidSymbolId)])
          else if ambiguous then
            (None, [(''call to overloaded constructor '' @ quoted displayName @ '' is ambiguous'',
               ''E_AMBIGUOUS_CONSTRUCTOR'', InvalidSymbolId)])
          else (best, []))
        (pick_constructor (constructor_cost an table arguments substitutions) constructors
          (None, cost_limit, False)))"

section \<open>Functions\<close>

definition required_count :: "symbol \<Rightarrow> nat" where
  "required_count candidate =
     (length (sy_parameterTypes candidate) + (size_max + 1) - sy_defaultedParameters candidate)
       mod (size_max + 1)"

definition fixed_count :: "symbol \<Rightarrow> nat" where
  "fixed_count candidate = length (sy_parameterTypes candidate) -
     (if sy_variadicParameter candidate \<and> sy_parameterTypes candidate \<noteq> [] then 1 else 0)"

definition accepts_count :: "symbol \<Rightarrow> nat \<Rightarrow> bool" where
  "accepts_count candidate n =
     (if sy_variadicParameter candidate then fixed_count candidate \<le> n
      else required_count candidate \<le> n \<and> n \<le> length (sy_parameterTypes candidate))"

text \<open>What the parameter of a generic candidate says about the type of one argument.\<close>

definition inference_pattern :: "symbol \<Rightarrow> string list \<Rightarrow> nat \<Rightarrow> string" where
  "inference_pattern candidate arguments index =
     (if \<not> sy_variadicParameter candidate \<or> index < fixed_count candidate
      then CanonicalValueReferenceBaseType (sy_parameterTypes candidate ! index)
      else let arrayPattern = CanonicalValueReferenceBaseType (last (sy_parameterTypes candidate)) in
        if index = fixed_count candidate \<and> length arguments = length (sy_parameterTypes candidate) \<and>
           ArrayRank (arguments ! index) = 1
        then arrayPattern else ArrayElementType arrayPattern 1)"

fun unify_all :: "(string \<times> string) list \<Rightarrow> string list \<Rightarrow> (string \<rightharpoonup> string) \<Rightarrow> (string \<rightharpoonup> string) option" where
  "unify_all [] parameters substitutions = Some substitutions"
| "unify_all ((pattern, actual) # rest) parameters substitutions =
     (case UnifyGenericType pattern actual parameters substitutions of
        (False, s) \<Rightarrow> None
      | (True, s) \<Rightarrow> unify_all rest parameters s)"

fun position_of :: "'a \<Rightarrow> 'a list \<Rightarrow> nat option" where
  "position_of x [] = None"
| "position_of x (y # ys) = (if x = y then Some 0 else map_option Suc (position_of x ys))"

text \<open>A parameter of the class is known from the owner of the candidate, or from the current type.\<close>

definition owner_argument :: "analyzer \<Rightarrow> symbol \<Rightarrow> string \<Rightarrow> string option" where
  "owner_argument an candidate parameter =
     (let owner = (if sy_memberOwner candidate \<noteq> [] then sy_memberOwner candidate else currentType an);
          base = (if generic_shape owner then generic_base owner else owner)
      in case an_types an base of
           None \<Rightarrow> None
         | Some definition \<Rightarrow>
             (case position_of parameter (td_genericParameters definition) of
                None \<Rightarrow> None
              | Some i \<Rightarrow> Some (if i < length (leftover_arguments owner)
                  then leftover_arguments owner ! i else parameter)))"

fun bind_rest :: "analyzer \<Rightarrow> symbol \<Rightarrow> string list \<Rightarrow> (string \<rightharpoonup> string) \<Rightarrow>
    (string list \<times> (string \<rightharpoonup> string)) option" where
  "bind_rest an candidate [] substitutions = Some ([], substitutions)"
| "bind_rest an candidate (parameter # rest) substitutions =
     (case (case substitutions parameter of
              Some found \<Rightarrow> Some found | None \<Rightarrow> owner_argument an candidate parameter) of
        None \<Rightarrow> None
      | Some found \<Rightarrow>
          map_option (\<lambda>(inferred, s). (found # inferred, s))
            (bind_rest an candidate rest (substitutions(parameter \<mapsto> found))))"

text \<open>The parameter types of a candidate for a call, with the type arguments that were inferred.\<close>

definition concrete_parameters ::
    "analyzer \<Rightarrow> symbol \<Rightarrow> string list \<Rightarrow> string list \<Rightarrow> (string list \<times> string list) option" where
  "concrete_parameters an candidate arguments explicit =
     (let generic = sy_genericParameters candidate in
      if generic = [] then (if explicit = [] then Some (sy_parameterTypes candidate, []) else None)
      else if explicit \<noteq> [] \<and> length explicit \<noteq> length generic then None
      else
        case (if explicit \<noteq> [] then Some (map_of (zip generic explicit))
              else unify_all (map (\<lambda>i. (inference_pattern candidate arguments i, arguments ! i))
                [0..<length arguments]) generic Map.empty) of
          None \<Rightarrow> None
        | Some substitutions \<Rightarrow>
            map_option (\<lambda>(inferred, s).
                (map (\<lambda>p. SubstituteGenericType p s) (sy_parameterTypes candidate), inferred))
              (bind_rest an candidate generic substitutions))"

definition argument_targets :: "symbol \<Rightarrow> string list \<Rightarrow> bool \<Rightarrow> nat \<Rightarrow> string list" where
  "argument_targets candidate parameters directArray n =
     map (\<lambda>i.
       if \<not> sy_variadicParameter candidate \<or> i < fixed_count candidate
       then CanonicalValueReferenceBaseType (parameters ! i)
       else if directArray then CanonicalValueReferenceBaseType (last parameters)
       else ArrayElementType (CanonicalValueReferenceBaseType (last parameters)) 1) [0..<n]"

text \<open>The cost of a candidate with the inferred type arguments, if it is applicable.\<close>

definition overload_cost ::
    "analyzer \<Rightarrow> string list \<Rightarrow> string list \<Rightarrow> symbol \<Rightarrow> (int \<times> string list) option option" where
  "overload_cost an arguments explicit candidate =
     (if \<not> accepts_count candidate (length arguments) then Some None
      else case concrete_parameters an candidate arguments explicit of
        None \<Rightarrow> Some None
      | Some (parameters, inferred) \<Rightarrow>
          Option.bind
            (if sy_variadicParameter candidate
             then TypeOwnsUniqueResource an
               (ArrayElementType (CanonicalValueReferenceBaseType (last parameters)) 1)
             else Some False)
            (\<lambda>owns. if owns then Some None
             else Option.bind
               (if sy_variadicParameter candidate \<and> length arguments = length parameters \<and> arguments \<noteq> []
                then map_option (\<lambda>c. 0 \<le> c) (ConversionCost an
                  (CanonicalValueReferenceBaseType (last parameters)) (last arguments))
                else Some False)
               (\<lambda>directArray. map_option (map_option (\<lambda>cost. (cost, inferred)))
                 (conversion_costs an
                   (zip (argument_targets candidate parameters directArray (length arguments)) arguments)
                   (if sy_variadicParameter candidate then 1
                    else int (length (sy_parameterTypes candidate)) - int (length arguments))))))"

record overload_pick =
  pk_best :: SymbolId
  pk_arguments :: "string list"
  pk_cost :: int
  pk_generic :: bool
  pk_ambiguous :: bool

definition no_pick :: overload_pick where
  "no_pick = \<lparr>pk_best = InvalidSymbolId, pk_arguments = [], pk_cost = cost_limit,
     pk_generic = False, pk_ambiguous = False\<rparr>"

definition weigh :: "symbol_table \<Rightarrow> overload_pick \<Rightarrow> SymbolId \<Rightarrow> symbol \<Rightarrow> int \<Rightarrow> string list \<Rightarrow> overload_pick" where
  "weigh table pick i candidate cost inferred =
     (let generic = (sy_genericParameters candidate \<noteq> []) in
      if cost < pk_cost pick then
        \<lparr>pk_best = i, pk_arguments = inferred, pk_cost = cost, pk_generic = generic, pk_ambiguous = False\<rparr>
      else if cost = pk_cost pick then
        (if pk_best pick \<noteq> InvalidSymbolId \<and>
            (case Get table (pk_best pick) of
               None \<Rightarrow> False
             | Some best \<Rightarrow> sy_name best = sy_name candidate \<and> sy_memberOwner best = sy_memberOwner candidate)
         then pick
         else if pk_generic pick \<and> \<not> generic then
           pick\<lparr>pk_best := i, pk_arguments := [], pk_generic := False, pk_ambiguous := False\<rparr>
         else if pk_generic pick = generic then pick\<lparr>pk_ambiguous := True\<rparr>
         else pick)
      else pick)"

fun pick_overload ::
    "analyzer \<Rightarrow> symbol_table \<Rightarrow> string list \<Rightarrow> string list \<Rightarrow> SymbolId list \<Rightarrow> overload_pick \<Rightarrow>
     overload_pick option" where
  "pick_overload an table arguments explicit [] pick = Some pick"
| "pick_overload an table arguments explicit (i # rest) pick =
     (case Get table i of
        None \<Rightarrow> pick_overload an table arguments explicit rest pick
      | Some candidate \<Rightarrow>
          Option.bind (overload_cost an arguments explicit candidate) (\<lambda>cost.
            pick_overload an table arguments explicit rest
              (case cost of
                 None \<Rightarrow> pick
               | Some (c, inferred) \<Rightarrow> weigh table pick i candidate c inferred)))"

definition distinct_candidates :: "SymbolId list \<Rightarrow> SymbolId list" where
  "distinct_candidates is = foldl (\<lambda>found i. if i \<in> set found then found else found @ [i]) [] is"

definition SelectOverload ::
    "analyzer \<Rightarrow> SymbolId list \<Rightarrow> string list \<Rightarrow> string \<Rightarrow> string list \<Rightarrow> callees \<Rightarrow>
     (SymbolId \<times> callees) option" where
  "SelectOverload an candidates arguments displayName explicit st =
     map_option (\<lambda>pick.
         let report = (\<lambda>message code. (InvalidSymbolId,
               st\<lparr>ca_diagnostics := ca_diagnostics st @ [(message, code, InvalidSymbolId)]\<rparr>))
         in if pk_best pick = InvalidSymbolId then
              report (''no overload of '' @ quoted displayName @ '' accepts ('' @
                types_text arguments @ '')'') ''E_NO_MATCHING_OVERLOAD''
            else if pk_ambiguous pick then
              report (''call to overloaded function '' @ quoted displayName @ '' is ambiguous'')
                ''E_AMBIGUOUS_OVERLOAD''
            else (case Get (ca_table st) (pk_best pick) of
                Some selected \<Rightarrow>
                  if sy_genericParameters selected \<noteq> []
                  then InstantiateGenericFunction an (pk_best pick) (pk_arguments pick) st
                  else (pk_best pick, st)
              | None \<Rightarrow> (pk_best pick, st)))
       (pick_overload an (ca_table st) arguments explicit (distinct_candidates candidates) no_pick)"

end
