(* ===== verification/Overload_Choice.thy ===== *)
theory Overload_Choice
  imports Overloads "HOL-Library.Multiset"
begin

text \<open>
  Which callee a call gets: a constructor is the only cheapest one, whatever the order of
  declaration; of overloads with one name the first cheapest one is taken without a diagnostic;
  a generic function has one specialisation for each list of type arguments.
\<close>

section \<open>Constructors\<close>

definition pick_ok :: "('a \<Rightarrow> int option) \<Rightarrow> 'a list \<Rightarrow> 'a option \<times> int \<times> bool \<Rightarrow> bool" where
  "pick_ok k cs pick \<longleftrightarrow> (case pick of (best, bestCost, ambiguous) \<Rightarrow>
     if \<forall>c \<in> set cs. k c = None then best = None \<and> bestCost = cost_limit \<and> \<not> ambiguous
     else bestCost < cost_limit \<and> (\<exists>c. best = Some c \<and> c \<in> set cs \<and> k c = Some bestCost) \<and>
       (\<forall>c \<in> set cs. \<forall>m. k c = Some m \<longrightarrow> bestCost \<le> m) \<and>
       (ambiguous \<longleftrightarrow> length (filter (\<lambda>c. k c = Some bestCost) cs) \<noteq> 1))"

lemma pick_ok_applicable:
  assumes "pick_ok k cs (best, bestCost, ambiguous)" and "\<not> (\<forall>c \<in> set cs. k c = None)"
  shows "bestCost < cost_limit" and "\<exists>c. best = Some c \<and> c \<in> set cs \<and> k c = Some bestCost"
    and "\<forall>c \<in> set cs. \<forall>m. k c = Some m \<longrightarrow> bestCost \<le> m"
    and "ambiguous \<longleftrightarrow> length (filter (\<lambda>c. k c = Some bestCost) cs) \<noteq> 1"
  using assms(1) unfolding pick_ok_def prod.case if_not_P [OF assms(2)] by blast+

lemma pick_constructor_append:
  "pick_constructor cost (xs @ ys) p = Option.bind (pick_constructor cost xs p) (pick_constructor cost ys)"
proof (induction xs arbitrary: p)
  case (Cons x xs)
  obtain best bestCost ambiguous where "p = (best, bestCost, ambiguous)" by (cases p) auto
  with Cons show ?case by (cases "cost x") (auto split: option.splits)
qed simp

lemma pick_constructor_ok:
  assumes "\<And>c. c \<in> set cs \<Longrightarrow> cost c = Some (k c)" and "\<And>c m. c \<in> set cs \<Longrightarrow> k c = Some m \<Longrightarrow> m < cost_limit"
  shows "\<exists>pick. pick_constructor cost cs (None, cost_limit, False) = Some pick \<and> pick_ok k cs pick"
  using assms
proof (induction cs rule: rev_induct)
  case Nil
  then show ?case by (simp add: pick_ok_def)
next
  case (snoc x cs)
  have "\<exists>pick. pick_constructor cost cs (None, cost_limit, False) = Some pick \<and> pick_ok k cs pick"
    by (rule snoc.IH) (use snoc.prems in \<open>auto\<close>)
  then obtain pick where pick: "pick_constructor cost cs (None, cost_limit, False) = Some pick"
      "pick_ok k cs pick" by blast
  obtain best bestCost ambiguous where "pick = (best, bestCost, ambiguous)" by (cases pick) auto
  with pick have p: "pick_constructor cost cs (None, cost_limit, False) = Some (best, bestCost, ambiguous)"
      "pick_ok k cs (best, bestCost, ambiguous)" by simp_all
  have x: "cost x = Some (k x)" "\<And>m. k x = Some m \<Longrightarrow> m < cost_limit" using snoc.prems by auto
  show ?case
  proof (cases "k x")
    case None
    then have "pick_ok k (cs @ [x]) (best, bestCost, ambiguous)" using p(2)
      by (cases "\<forall>c \<in> set cs. k c = None") (auto simp: pick_ok_def)
    then show ?thesis using p(1) x(1) None by (simp add: pick_constructor_append)
  next
    case (Some m)
    let ?pick = "if m < bestCost then (Some x, m, False) else (best, bestCost, ambiguous \<or> m = bestCost)"
    have step: "pick_constructor cost (cs @ [x]) (None, cost_limit, False) = Some ?pick"
      using p(1) x(1) Some by (simp add: pick_constructor_append)
    have "pick_ok k (cs @ [x]) ?pick"
    proof (cases "\<forall>c \<in> set cs. k c = None")
      case True
      then have "filter (\<lambda>c. k c = Some m) cs = []" by (auto simp: filter_empty_conv)
      with True p(2) x(2) [OF Some] Some show ?thesis by (auto simp: pick_ok_def)
    next
      case False
      note old = pick_ok_applicable [OF p(2) False]
      show ?thesis
      proof (cases "m < bestCost")
        case True
        then have "filter (\<lambda>c. k c = Some m) cs = []" using old(3) by (force simp: filter_empty_conv)
        with True Some x(2) old(3) show ?thesis by (fastforce simp: pick_ok_def)
      next
        case not_less: False
        have "filter (\<lambda>c. k c = Some bestCost) cs \<noteq> []" using old(2) by (auto simp: filter_empty_conv)
        with not_less Some old False show ?thesis by (auto simp: pick_ok_def)
      qed
    qed
    with step show ?thesis by blast
  qed
qed

text \<open>What a choice among constructors depends on: the costs, not the order.\<close>

definition choice :: "'a option \<times> int \<times> bool \<Rightarrow> 'a option \<times> bool" where
  "choice pick = (case pick of (best, bestCost, ambiguous) \<Rightarrow>
     (if ambiguous then None else best, best = None))"

lemma pick_ok_choice:
  assumes "pick_ok k cs pick" and "pick_ok k cs' pick'" and "mset cs = mset cs'"
  shows "choice pick = choice pick'"
proof -
  obtain b m a b' m' a' where p: "pick = (b, m, a)" "pick' = (b', m', a')"
    by (cases pick; cases pick') auto
  have s: "set cs = set cs'" using assms(3) by (rule mset_eq_setD)
  show ?thesis
  proof (cases "\<forall>c \<in> set cs. k c = None")
    case True
    with assms(1,2) s show ?thesis by (simp add: pick_ok_def p choice_def)
  next
    case False
    then have False': "\<not> (\<forall>c \<in> set cs'. k c = None)" by (simp add: s)
    note one = pick_ok_applicable [OF assms(1) [unfolded p] False]
    note two = pick_ok_applicable [OF assms(2) [unfolded p] False']
    from one(2) obtain c where c: "b = Some c" "c \<in> set cs" "k c = Some m" by blast
    from two(2) obtain c' where c': "b' = Some c'" "c' \<in> set cs'" "k c' = Some m'" by blast
    have "m \<le> m'" using one(3) c'(2,3) s by blast
    moreover have "m' \<le> m" using two(3) c(2,3) s by blast
    ultimately have mm: "m = m'" by (rule antisym)
    have ms: "mset (filter (\<lambda>c. k c = Some m) cs) = mset (filter (\<lambda>c. k c = Some m) cs')"
      by (simp add: mset_filter assms(3))
    then have "length (filter (\<lambda>c. k c = Some m) cs) = length (filter (\<lambda>c. k c = Some m) cs')"
      using mset_eq_length by blast
    then have a: "a = a'" using one(4) two(4) by (simp add: mm)
    show ?thesis
    proof (cases a)
      case True
      then show ?thesis using a c(1) c'(1) by (simp add: p choice_def)
    next
      case False
      then obtain d where d: "filter (\<lambda>c. k c = Some m) cs = [d]"
        using one(4) by (auto simp: length_Suc_conv)
      then have "mset (filter (\<lambda>c. k c = Some m) cs') = {#d#}" using ms by (simp del: mset_filter)
      then have "filter (\<lambda>c. k c = Some m) cs' = [d]" by (simp only: mset_single_iff)
      moreover have "c \<in> set (filter (\<lambda>c. k c = Some m) cs)" "c' \<in> set (filter (\<lambda>c. k c = Some m) cs')"
        using c c' mm by auto
      ultimately have "c = c'" using d by simp
      then show ?thesis using a c(1) c'(1) by (simp add: p choice_def)
    qed
  qed
qed

definition choice_result :: "string \<Rightarrow> string list \<Rightarrow> 'a option \<times> bool \<Rightarrow> 'a option \<times> diagnostic list" where
  "choice_result displayName arguments r = (case r of (best, nothing) \<Rightarrow> (best,
     if nothing then
       [(''no overload of constructor '' @ quoted displayName @ '' accepts ('' @ types_text arguments @
          '')'', ''E_NO_MATCHING_CONSTRUCTOR'', InvalidSymbolId)]
     else if best = None then
       [(''call to overloaded constructor '' @ quoted displayName @ '' is ambiguous'',
         ''E_AMBIGUOUS_CONSTRUCTOR'', InvalidSymbolId)]
     else []))"

lemma SelectConstructor_choice:
  assumes "constructors \<noteq> []"
    and "pick_constructor (constructor_cost an table arguments substitutions) constructors
      (None, cost_limit, False) = Some pick"
  shows "SelectConstructor an table constructors arguments displayName substitutions =
      Some (choice_result displayName arguments (choice pick))"
  using assms by (cases pick) (auto simp: SelectConstructor_def choice_def choice_result_def)

lemma choice_result_fst: "fst (choice_result name arguments r) = fst r"
  by (simp add: choice_result_def split: prod.splits)

lemma choice_result_Some:
  "choice_result name arguments (Some c, False) = (Some c, [])"
  by (simp add: choice_result_def)

section \<open>Functions with one name\<close>

text \<open>The cost of a candidate number, if it names an applicable symbol.\<close>

definition candidate_cost ::
    "analyzer \<Rightarrow> symbol_table \<Rightarrow> string list \<Rightarrow> string list \<Rightarrow> SymbolId \<Rightarrow> (int \<times> string list) option" where
  "candidate_cost an table arguments explicit i =
     (case Get table i of
        None \<Rightarrow> None
      | Some s \<Rightarrow> (case overload_cost an arguments explicit s of None \<Rightarrow> None | Some c \<Rightarrow> c))"

definition one_name :: "symbol_table \<Rightarrow> SymbolId \<Rightarrow> string \<Rightarrow> string \<Rightarrow> bool" where
  "one_name table i n owner \<longleftrightarrow> i \<noteq> InvalidSymbolId \<and>
     (\<exists>s. Get table i = Some s \<and> sy_name s = n \<and> sy_memberOwner s = owner)"

lemma weigh_one_name:
  assumes "one_name table (pk_best pick) n owner \<or> pk_best pick = InvalidSymbolId \<and> pk_cost pick = cost_limit"
    and "Get table i = Some s" "sy_name s = n" "sy_memberOwner s = owner" and "c < cost_limit"
  shows "weigh table pick i s c inferred =
    (if c < pk_cost pick then
       \<lparr>pk_best = i, pk_arguments = inferred, pk_cost = c,
        pk_generic = (sy_genericParameters s \<noteq> []), pk_ambiguous = False\<rparr>
     else pick)"
  using assms by (cases "pk_best pick = InvalidSymbolId") (auto simp: weigh_def Let_def one_name_def)

text \<open>What the loop over candidates of one name knows of its pick.\<close>

definition first_cheapest ::
    "(SymbolId \<Rightarrow> (int \<times> string list) option) \<Rightarrow> SymbolId list \<Rightarrow> overload_pick \<Rightarrow> bool" where
  "first_cheapest cost is pick \<longleftrightarrow>
     (if \<forall>i \<in> set is. cost i = None then pick = no_pick
      else \<not> pk_ambiguous pick \<and> pk_cost pick < cost_limit \<and>
        (\<exists>xs ys. is = xs @ pk_best pick # ys \<and> cost (pk_best pick) = Some (pk_cost pick, pk_arguments pick) \<and>
          (\<forall>j \<in> set xs. \<forall>c ts. cost j = Some (c, ts) \<longrightarrow> pk_cost pick < c) \<and>
          (\<forall>j \<in> set ys. \<forall>c ts. cost j = Some (c, ts) \<longrightarrow> pk_cost pick \<le> c)))"

lemma pick_overload_append:
  "pick_overload an table arguments explicit (xs @ ys) pick =
     Option.bind (pick_overload an table arguments explicit xs pick)
       (pick_overload an table arguments explicit ys)"
proof (induction xs arbitrary: pick)
  case (Cons x xs)
  then show ?case
    by (cases "Get table x"; cases "overload_cost an arguments explicit (the (Get table x))") simp_all
qed simp

lemma pick_overload_first_cheapest:
  assumes "\<And>i. i \<in> set is \<Longrightarrow> one_name table i n owner"
    and "\<And>i c ts. i \<in> set is \<Longrightarrow> candidate_cost an table arguments explicit i = Some (c, ts) \<Longrightarrow> c < cost_limit"
    and "pick_overload an table arguments explicit is no_pick = Some pick"
  shows "first_cheapest (candidate_cost an table arguments explicit) is pick"
  using assms
proof (induction "is" arbitrary: pick rule: rev_induct)
  case Nil
  then show ?case by (simp add: first_cheapest_def)
next
  case (snoc i "is")
  let ?cost = "candidate_cost an table arguments explicit"
  obtain s where s: "Get table i = Some s" "sy_name s = n" "sy_memberOwner s = owner"
    using snoc.prems(1) [of i] by (auto simp: one_name_def)
  obtain old where old: "pick_overload an table arguments explicit is no_pick = Some old"
      "pick_overload an table arguments explicit [i] old = Some pick"
    using snoc.prems(3) by (auto simp: pick_overload_append split: Option.bind_splits)
  have ih: "first_cheapest ?cost is old"
    by (rule snoc.IH [OF _ _ old(1)]) (use snoc.prems(1,2) in auto)
  obtain c where c: "overload_cost an arguments explicit s = Some c"
      "pick = (case c of None \<Rightarrow> old | Some (c, inferred) \<Rightarrow> weigh table old i s c inferred)"
    using old(2) s(1) by (auto split: Option.bind_splits)
  have cost: "?cost i = c" using s(1) c(1) by (simp add: candidate_cost_def)
  show ?case
  proof (cases c)
    case None
    have "pick = old" "?cost i = None" using None c(2) cost by simp_all
    show ?thesis
    proof (cases "\<forall>i \<in> set is. ?cost i = None")
      case True
      with ih \<open>pick = old\<close> \<open>?cost i = None\<close> show ?thesis by (simp add: first_cheapest_def)
    next
      case False
      then have some: "\<not> (\<forall>j \<in> set (is @ [i]). ?cost j = None)" by auto
      from False obtain xs ys where o: "\<not> pk_ambiguous old" "pk_cost old < cost_limit"
          "is = xs @ pk_best old # ys" "?cost (pk_best old) = Some (pk_cost old, pk_arguments old)"
          "\<forall>j \<in> set xs. \<forall>c ts. ?cost j = Some (c, ts) \<longrightarrow> pk_cost old < c"
          "\<forall>j \<in> set ys. \<forall>c ts. ?cost j = Some (c, ts) \<longrightarrow> pk_cost old \<le> c"
        using ih unfolding first_cheapest_def if_not_P [OF False] by blast
      then show ?thesis
        unfolding first_cheapest_def if_not_P [OF some] \<open>pick = old\<close>
        using \<open>?cost i = None\<close> by (intro conjI exI [of _ xs] exI [of _ "ys @ [i]"]) auto
    qed
  next
    case (Some ct)
    obtain d inferred where d: "ct = (d, inferred)" by fastforce
    then have i: "?cost i = Some (d, inferred)" "d < cost_limit"
      using Some cost snoc.prems(2) [of i] by auto
    have pick: "pick = weigh table old i s d inferred" using c(2) Some d by simp
    show ?thesis
    proof (cases "\<forall>i \<in> set is. ?cost i = None")
      case True
      then have "old = no_pick" using ih by (simp add: first_cheapest_def)
      then have "pick = \<lparr>pk_best = i, pk_arguments = inferred, pk_cost = d,
          pk_generic = (sy_genericParameters s \<noteq> []), pk_ambiguous = False\<rparr>"
        using i(2) pick by (simp add: weigh_def no_pick_def Let_def)
      moreover have some: "\<not> (\<forall>j \<in> set (is @ [i]). ?cost j = None)" using i by auto
      ultimately show ?thesis
        unfolding first_cheapest_def if_not_P [OF some]
        using True i by (intro conjI exI [of _ "is"] exI [of _ "[]"]) auto
    next
      case False
      then obtain xs ys where o: "\<not> pk_ambiguous old" "pk_cost old < cost_limit"
          "is = xs @ pk_best old # ys" "?cost (pk_best old) = Some (pk_cost old, pk_arguments old)"
          "\<forall>j \<in> set xs. \<forall>c ts. ?cost j = Some (c, ts) \<longrightarrow> pk_cost old < c"
          "\<forall>j \<in> set ys. \<forall>c ts. ?cost j = Some (c, ts) \<longrightarrow> pk_cost old \<le> c"
        using ih unfolding first_cheapest_def if_not_P [OF False] by blast
      have "one_name table (pk_best old) n owner" using snoc.prems(1) o(3) by auto
      then have w: "pick = (if d < pk_cost old then
          \<lparr>pk_best = i, pk_arguments = inferred, pk_cost = d,
           pk_generic = (sy_genericParameters s \<noteq> []), pk_ambiguous = False\<rparr> else old)"
        using weigh_one_name [of table old n owner i s d] s i(2) pick by blast
      have some: "\<not> (\<forall>j \<in> set (is @ [i]). ?cost j = None)" using False by auto
      show ?thesis
      proof (cases "d < pk_cost old")
        case True
        have "\<forall>j \<in> set is. \<forall>c ts. ?cost j = Some (c, ts) \<longrightarrow> d < c"
          using o(3-6) True by fastforce
        with True w i show ?thesis
          unfolding first_cheapest_def if_not_P [OF some]
          by (intro conjI exI [of _ "is"] exI [of _ "[]"]) auto
      next
        case not_less: False
        with w have "pick = old" by simp
        moreover have "\<forall>j \<in> set (ys @ [i]). \<forall>c ts. ?cost j = Some (c, ts) \<longrightarrow> pk_cost old \<le> c"
          using o(6) not_less i by auto
        ultimately show ?thesis
          unfolding first_cheapest_def if_not_P [OF some]
          using o by (intro conjI exI [of _ xs] exI [of _ "ys @ [i]"]) auto
      qed
    qed
  qed
qed

lemma distinct_candidates_id:
  assumes "distinct is"
  shows "distinct_candidates is = is"
proof -
  have "distinct (found @ is) \<Longrightarrow> foldl (\<lambda>f i. if i \<in> set f then f else f @ [i]) found is = found @ is" for found
    by (induction "is" arbitrary: found) auto
  from this [of "[]"] assms show ?thesis by (simp add: distinct_candidates_def)
qed

section \<open>Specialisations\<close>

text \<open>
  What the cache of specialisations holds: for each key a symbol made from its generic function
  for those arguments.
\<close>

definition specializes :: "symbol_table \<Rightarrow> SymbolId \<Rightarrow> SymbolId \<Rightarrow> string list \<Rightarrow> bool" where
  "specializes table i origin arguments \<longleftrightarrow>
     (\<exists>generic s. Get table origin = Some generic \<and> Get table i = Some s \<and>
        sy_genericOrigin s = origin \<and> sy_genericArguments s = arguments \<and>
        (let \<sigma> = map_of (zip (sy_genericParameters generic) arguments) in
         sy_type s = SubstituteGenericType (sy_type generic) \<sigma> \<and>
         sy_parameterTypes s = map (\<lambda>p. SubstituteGenericType p \<sigma>) (sy_parameterTypes generic)))"

definition specializations_ok :: "callees \<Rightarrow> bool" where
  "specializations_ok st \<longleftrightarrow>
     (\<forall>key i. genericFunctionSpecializations st key = Some i \<longrightarrow>
        (\<exists>origin arguments. key = specialization_key origin arguments \<and>
           (\<forall>a \<in> set arguments. CHR ''|'' \<notin> set a) \<and> specializes (ca_table st) i origin arguments))"

lemma split_at_separator:
  assumes "c \<notin> set xs" and "c \<notin> set ys" and "xs @ c # us = ys @ c # vs"
  shows "xs = ys \<and> us = vs"
proof -
  have "takeWhile (\<lambda>x. x \<noteq> c) (zs @ c # ws) = zs" if "c \<notin> set zs" for zs ws
    using that by (subst takeWhile_append2) auto
  from this [OF assms(1)] this [OF assms(2)] assms(3) have "xs = ys" by metis
  with assms(3) show ?thesis by simp
qed

lemma separated_inj:
  assumes "c \<notin> set xs" and "c \<notin> set ys"
    and "\<forall>a \<in> set as. c \<notin> set a" and "\<forall>b \<in> set bs. c \<notin> set b"
    and "xs @ concat (map (\<lambda>a. c # a) as) = ys @ concat (map (\<lambda>b. c # b) bs)"
  shows "xs = ys \<and> as = bs"
  using assms
proof (induction as arbitrary: xs ys bs)
  case Nil
  then have xs: "xs = ys @ concat (map (\<lambda>b. c # b) bs)" by simp
  have "bs = []"
  proof (rule ccontr)
    assume "bs \<noteq> []"
    then obtain b bs' where "bs = b # bs'" by (cases bs) auto
    then have "c \<in> set xs" by (simp add: xs)
    with Nil.prems(1) show False ..
  qed
  with xs show ?case by simp
next
  case (Cons a as)
  obtain b bs' where bs: "bs = b # bs'"
  proof (cases bs)
    case Nil
    then have "ys = xs @ concat (map (\<lambda>a. c # a) (a # as))" using Cons.prems(5) by simp
    then have "c \<in> set ys" by simp
    with Cons.prems(2) show ?thesis ..
  qed (rule that)
  have "xs = ys \<and> a @ concat (map (\<lambda>a. c # a) as) = b @ concat (map (\<lambda>b. c # b) bs')"
    using Cons.prems(5) by (intro split_at_separator [OF Cons.prems(1,2)]) (simp add: bs)
  moreover from this have "a = b \<and> as = bs'"
    using Cons.prems(3,4) by (intro Cons.IH) (simp_all add: bs)
  ultimately show ?case by (simp add: bs)
qed

lemma specialization_key_inj:
  assumes "specialization_key i as = specialization_key j bs"
    and "\<forall>a \<in> set as. CHR ''|'' \<notin> set a" and "\<forall>b \<in> set bs. CHR ''|'' \<notin> set b"
  shows "i = j \<and> as = bs"
proof -
  have "CHR ''|'' \<notin> set (to_string n)" for n
    using to_string_digits [of "CHR ''|''" n] by (auto simp: isdigit_def byte_of_def)
  then have "to_string (unat i) = to_string (unat j) \<and> as = bs"
    using assms by (intro separated_inj [of "CHR ''|''"]) (simp_all add: specialization_key_def)
  then show ?thesis by (simp add: to_string_inj word_unat_eq_iff)
qed

lemma Get_append: "Get t i = Some s \<Longrightarrow> Get (snd (AppendSpecialization x t)) i = Some s"
  by (auto simp: Get_def AppendSpecialization_def Let_def nth_append split: if_splits)

lemma Get_appended:
  assumes "length (symbols t) < 2 ^ 32"
  shows "Get (snd (AppendSpecialization x t)) (fst (AppendSpecialization x t)) =
    Some (x\<lparr>sy_id := fst (AppendSpecialization x t), sy_scopeDepth := ScopeDepth t\<rparr>)"
  using assms unat_next [of "symbols t"] by (simp add: Get_def AppendSpecialization_def Let_def)

lemma specializes_append:
  "specializes t i origin arguments \<Longrightarrow> specializes (snd (AppendSpecialization x t)) i origin arguments"
  unfolding specializes_def using Get_append by blast

lemma specializes_new:
  assumes "Get t origin = Some generic" and "length (symbols t) < 2 ^ 32"
  shows "specializes (snd (AppendSpecialization (specialized generic origin arguments) t))
    (fst (AppendSpecialization (specialized generic origin arguments) t)) origin arguments"
  unfolding specializes_def
  using Get_append [OF assms(1)] Get_appended [OF assms(2)]
  by (intro exI conjI) (assumption | simp add: specialized_def Let_def)+

lemma Instantiate_cases:
  assumes "Get (ca_table st) origin = Some generic"
    and "length (sy_genericParameters generic) = length arguments"
  obtains (cached) i where "genericFunctionSpecializations st (specialization_key origin arguments) = Some i"
      "InstantiateGenericFunction an origin arguments st = (i, st)"
  | (fresh) i table st' where
      "genericFunctionSpecializations st (specialization_key origin arguments) = None"
      "AppendSpecialization (specialized generic origin arguments) (ca_table st) = (i, table)"
      "InstantiateGenericFunction an origin arguments st = (i, st')" "ca_table st' = table"
      "genericFunctionSpecializations st' =
        (genericFunctionSpecializations st)(specialization_key origin arguments \<mapsto> i)"
      "ca_diagnostics st' = ca_diagnostics st"
proof (cases "genericFunctionSpecializations st (specialization_key origin arguments)")
  case (Some i)
  with assms that(1) show ?thesis by (simp add: InstantiateGenericFunction_def)
next
  case None
  obtain i table where a: "AppendSpecialization (specialized generic origin arguments) (ca_table st) = (i, table)"
    by fastforce
  obtain r st' where r: "InstantiateGenericFunction an origin arguments st = (r, st')" by fastforce
  then have "r = i" "ca_table st' = table"
      "genericFunctionSpecializations st' =
        (genericFunctionSpecializations st)(specialization_key origin arguments \<mapsto> i)"
      "ca_diagnostics st' = ca_diagnostics st"
    by (auto simp: InstantiateGenericFunction_def assms None a)
  with r show ?thesis by (intro that(2) [OF None a, of st']) simp_all
qed

lemma InstantiateGenericFunction_spec:
  assumes "specializations_ok st" and "length (symbols (ca_table st)) < 2 ^ 32"
    and "Get (ca_table st) origin = Some generic"
    and "length (sy_genericParameters generic) = length arguments"
    and "\<forall>a \<in> set arguments. CHR ''|'' \<notin> set a"
    and "InstantiateGenericFunction an origin arguments st = (i, st')"
  shows "specializes (ca_table st') i origin arguments \<and> specializations_ok st' \<and>
    InstantiateGenericFunction an origin arguments st' = (i, st') \<and>
    (\<forall>j s. Get (ca_table st) j = Some s \<longrightarrow> Get (ca_table st') j = Some s)"
proof (rule Instantiate_cases [OF assms(3,4), of an])
  fix j
  assume c: "genericFunctionSpecializations st (specialization_key origin arguments) = Some j"
    "InstantiateGenericFunction an origin arguments st = (j, st)"
  then have i: "j = i" "st' = st" using assms(6) by simp_all
  obtain origin' arguments' where
    k: "specialization_key origin arguments = specialization_key origin' arguments'"
      "\<forall>a \<in> set arguments'. CHR ''|'' \<notin> set a" "specializes (ca_table st) j origin' arguments'"
    using assms(1) c(1) unfolding specializations_ok_def by blast
  have "origin = origin' \<and> arguments = arguments'"
    using specialization_key_inj [OF k(1) assms(5) k(2)] .
  with k(3) c(2) assms(1) i show ?thesis by simp
next
  fix j table st''
  assume f: "genericFunctionSpecializations st (specialization_key origin arguments) = None"
    "AppendSpecialization (specialized generic origin arguments) (ca_table st) = (j, table)"
    "InstantiateGenericFunction an origin arguments st = (j, st'')" "ca_table st'' = table"
    "genericFunctionSpecializations st'' =
       (genericFunctionSpecializations st)(specialization_key origin arguments \<mapsto> j)"
  then have i: "j = i" "st'' = st'" using assms(6) by simp_all
  have table: "table = snd (AppendSpecialization (specialized generic origin arguments) (ca_table st))"
      "j = fst (AppendSpecialization (specialized generic origin arguments) (ca_table st))"
    using f(2) by simp_all
  have new: "specializes table j origin arguments"
    unfolding table by (rule specializes_new [OF assms(3,2)])
  have kept: "Get (ca_table st) k = Some s \<Longrightarrow> Get table k = Some s" for k s
    unfolding table by (rule Get_append)
  have old: "specializes (ca_table st) k origin' arguments' \<Longrightarrow> specializes table k origin' arguments'"
    for k origin' arguments'
    unfolding table by (rule specializes_append)
  have "specializations_ok st''"
    unfolding specializations_ok_def f(4,5)
    using assms(1,5) new old unfolding specializations_ok_def by (simp, blast)
  moreover have "InstantiateGenericFunction an origin arguments st'' = (j, st'')"
    using kept [OF assms(3)] assms(4) f(4,5) by (simp add: InstantiateGenericFunction_def)
  ultimately show ?thesis using new kept f(4) i by simp
qed

section \<open>Properties\<close>

text \<open>
  C29. The constructor of a call does not depend on the order of declaration: permuting the constructors
  of a type permutes nothing in the result, diagnostics included, and the constructor that is
  chosen is strictly cheaper than every other one.
\<close>

theorem constructor_choice_ignores_order:
  assumes "mset cs = mset cs'"
    and "\<forall>c \<in> set cs. \<exists>k. constructor_cost an table arguments \<sigma> c = Some k \<and> (\<forall>m. k = Some m \<longrightarrow> m < cost_limit)"
  shows "SelectConstructor an table cs arguments name \<sigma> = SelectConstructor an table cs' arguments name \<sigma> \<and>
    (\<exists>best ds. SelectConstructor an table cs arguments name \<sigma> = Some (best, ds) \<and>
      (\<forall>c. best = Some c \<longrightarrow> ds = [] \<and> c \<in> set cs \<and>
        (\<exists>m. constructor_cost an table arguments \<sigma> c = Some (Some m) \<and>
          (\<forall>d \<in> set cs. \<forall>n. d \<noteq> c \<longrightarrow> constructor_cost an table arguments \<sigma> d = Some (Some n) \<longrightarrow> m < n))))"
proof (cases "cs = []")
  case True
  then have "cs' = []" using assms(1) by simp
  with True show ?thesis by (simp add: SelectConstructor_def)
next
  case False
  let ?cost = "constructor_cost an table arguments \<sigma>"
  let ?k = "\<lambda>c. the (?cost c)"
  have s: "set cs' = set cs" using assms(1) by (metis mset_eq_setD)
  have total: "?cost c = Some (?k c)" "\<And>m. ?k c = Some m \<Longrightarrow> m < cost_limit" if "c \<in> set cs" for c
    using bspec [OF assms(2) that] by auto
  obtain pick where p: "pick_constructor ?cost cs (None, cost_limit, False) = Some pick" "pick_ok ?k cs pick"
    using pick_constructor_ok [of cs ?cost ?k] total by blast
  obtain pick' where p': "pick_constructor ?cost cs' (None, cost_limit, False) = Some pick'" "pick_ok ?k cs' pick'"
    using pick_constructor_ok [of cs' ?cost ?k] total unfolding s by blast
  have same: "choice pick = choice pick'" using p(2) p'(2) assms(1) by (rule pick_ok_choice)
  obtain b m a where pick: "pick = (b, m, a)" by (cases pick) auto
  have "cs' \<noteq> []" using False assms(1) by auto
  then have r: "SelectConstructor an table cs arguments name \<sigma> = Some (choice_result name arguments (choice pick))"
      "SelectConstructor an table cs' arguments name \<sigma> = Some (choice_result name arguments (choice pick))"
    using SelectConstructor_choice [OF False p(1)] SelectConstructor_choice [OF _ p'(1)] same by simp_all
  have best: "c \<in> set cs \<and> ?cost c = Some (Some m) \<and>
      (\<forall>d \<in> set cs. \<forall>n. d \<noteq> c \<longrightarrow> ?cost d = Some (Some n) \<longrightarrow> m < n)" if "b = Some c" "\<not> a" for c
  proof -
    have "\<not> (\<forall>c \<in> set cs. ?k c = None)"
    proof
      assume "\<forall>c \<in> set cs. ?k c = None"
      with p(2) that(1) show False by (simp add: pick_ok_def pick)
    qed
    note ok = pick_ok_applicable [OF p(2) [unfolded pick] this]
    have c: "c \<in> set cs" "?k c = Some m" using ok(2) that(1) by auto
    have "length (filter (\<lambda>c. ?k c = Some m) cs) = 1" using ok(4) that(2) by simp
    then obtain x where x: "filter (\<lambda>c. ?k c = Some m) cs = [x]" by (auto simp: length_Suc_conv)
    have "d = c" if "d \<in> set cs" "?k d = Some m" for d
    proof -
      have "d \<in> set (filter (\<lambda>c. ?k c = Some m) cs)" "c \<in> set (filter (\<lambda>c. ?k c = Some m) cs)"
        using that c by auto
      then show ?thesis unfolding x by simp
    qed
    then have less: "m < n" if "d \<in> set cs" "d \<noteq> c" "?cost d = Some (Some n)" for d n
    proof -
      have "?k d = Some n" using that(3) by simp
      with ok(3) that(1) have "m \<le> n" by blast
      moreover have "m \<noteq> n" using \<open>?k d = Some n\<close> that(1,2) \<open>\<And>d. d \<in> set cs \<Longrightarrow> ?k d = Some m \<Longrightarrow> d = c\<close> by auto
      ultimately show ?thesis by simp
    qed
    have "?cost c = Some (Some m)" using total(1) [OF c(1)] c(2) by simp
    with c(1) less show ?thesis by blast
  qed
  obtain best ds where result: "choice_result name arguments (choice pick) = (best, ds)" by fastforce
  have fresh: "ds = [] \<and> b = Some c \<and> \<not> a" if "best = Some c" for c
  proof -
    have "fst (choice pick) = Some c"
      using that result choice_result_fst [of name arguments "choice pick"] by simp
    then have "\<not> a" "b = Some c" by (simp_all add: choice_def pick split: if_splits)
    moreover from this have "choice pick = (Some c, False)" by (simp add: choice_def pick)
    ultimately show ?thesis using result by (simp add: choice_result_Some)
  qed
  have chosen: "ds = [] \<and> c \<in> set cs \<and> (\<exists>m. ?cost c = Some (Some m) \<and>
      (\<forall>d \<in> set cs. \<forall>n. d \<noteq> c \<longrightarrow> ?cost d = Some (Some n) \<longrightarrow> m < n))" if "best = Some c" for c
  proof (intro conjI exI)
    have f: "ds = []" "b = Some c" "\<not> a" using fresh [OF that] by simp_all
    show "ds = []" by (rule f(1))
    from best [OF f(2,3)] show "c \<in> set cs" "?cost c = Some (Some m)"
      "\<forall>d \<in> set cs. \<forall>n. d \<noteq> c \<longrightarrow> ?cost d = Some (Some n) \<longrightarrow> m < n" by simp_all
  qed
  show ?thesis
    unfolding r result by (intro conjI exI [of _ best] exI [of _ ds] allI impI refl chosen)
qed

text \<open>
  Overloads of one name are never ambiguous: when candidates that share their name and their owner
  apply to a call, the first of the cheapest is taken, however many others cost the same, and nothing is
  reported; the only diagnostic is that none of them applies.
\<close>

theorem overloads_of_one_name_never_ambiguous:
  assumes "distinct is"
    and "\<forall>j \<in> set is. one_name (ca_table st) j n owner \<and>
      (\<forall>s. Get (ca_table st) j = Some s \<longrightarrow> sy_genericParameters s = [])"
    and "\<forall>j \<in> set is. \<forall>c ts. candidate_cost an (ca_table st) arguments explicit j = Some (c, ts) \<longrightarrow> c < cost_limit"
    and "SelectOverload an is arguments name explicit st = Some (i, st')"
  shows "if \<forall>j \<in> set is. candidate_cost an (ca_table st) arguments explicit j = None
    then i = InvalidSymbolId \<and>
      (\<exists>m. ca_diagnostics st' = ca_diagnostics st @ [(m, ''E_NO_MATCHING_OVERLOAD'', InvalidSymbolId)])
    else st' = st \<and> (\<exists>xs ys c ts. is = xs @ i # ys \<and>
      candidate_cost an (ca_table st) arguments explicit i = Some (c, ts) \<and>
      (\<forall>j \<in> set xs. \<forall>d us. candidate_cost an (ca_table st) arguments explicit j = Some (d, us) \<longrightarrow> c < d) \<and>
      (\<forall>j \<in> set ys. \<forall>d us. candidate_cost an (ca_table st) arguments explicit j = Some (d, us) \<longrightarrow> c \<le> d))"
proof -
  let ?cost = "candidate_cost an (ca_table st) arguments explicit"
  obtain pick where p: "pick_overload an (ca_table st) arguments explicit is no_pick = Some pick"
    using assms(4) by (auto simp: SelectOverload_def distinct_candidates_id [OF assms(1)])
  have first: "first_cheapest ?cost is pick"
    by (rule pick_overload_first_cheapest [OF _ _ p]) (use assms(2,3) in \<open>blast+\<close>)
  show ?thesis
  proof (cases "\<forall>j \<in> set is. ?cost j = None")
    case True
    then have "pick = no_pick" using first by (simp add: first_cheapest_def)
    then show ?thesis
      using True assms(4) p
      by (auto simp: SelectOverload_def distinct_candidates_id [OF assms(1)] no_pick_def Let_def)
  next
    case False
    then obtain xs ys where o: "\<not> pk_ambiguous pick" "is = xs @ pk_best pick # ys"
        "?cost (pk_best pick) = Some (pk_cost pick, pk_arguments pick)"
        "\<forall>j \<in> set xs. \<forall>c ts. ?cost j = Some (c, ts) \<longrightarrow> pk_cost pick < c"
        "\<forall>j \<in> set ys. \<forall>c ts. ?cost j = Some (c, ts) \<longrightarrow> pk_cost pick \<le> c"
      using first unfolding first_cheapest_def if_not_P [OF False] by blast
    have "pk_best pick \<in> set is" using o(2) by simp
    then have "one_name (ca_table st) (pk_best pick) n owner"
        "\<And>s. Get (ca_table st) (pk_best pick) = Some s \<Longrightarrow> sy_genericParameters s = []"
      using assms(2) by blast+
    then have "i = pk_best pick" "st' = st"
      using assms(4) p o(1)
      by (auto simp: SelectOverload_def distinct_candidates_id [OF assms(1)] one_name_def Let_def)
    with o show ?thesis unfolding if_not_P [OF False] by blast
  qed
qed

text \<open>
  A generic function has one specialisation for each list of type arguments: asking again gives the
  symbol of the first time and changes nothing, the symbol is the generic one with the arguments
  substituted in its type and its parameters, and no other symbol is touched.
\<close>

theorem specialisation_is_shared:
  assumes "specializations_ok st" and "length (symbols (ca_table st)) < 2 ^ 32"
    and "Get (ca_table st) origin = Some generic"
    and "length (sy_genericParameters generic) = length arguments"
    and "\<forall>a \<in> set arguments. CHR ''|'' \<notin> set a"
    and "InstantiateGenericFunction an origin arguments st = (i, st')"
  shows "specializes (ca_table st') i origin arguments \<and> specializations_ok st' \<and>
    InstantiateGenericFunction an origin arguments st' = (i, st') \<and>
    (\<forall>j s. Get (ca_table st) j = Some s \<longrightarrow> Get (ca_table st') j = Some s)"
  using InstantiateGenericFunction_spec [OF assms] .

subsection \<open>Concrete calls\<close>

definition no_types :: analyzer where
  "no_types = \<lparr>an_types = Map.empty, genericTypeScopes = [], currentType = [],
     currentNamespace = [], importedNamespaces = [], syntaxPlugins = empty_registry\<rparr>"

definition two_functions :: callees where
  "two_functions = \<lparr>ca_table =
       \<lparr>symbols = [new_symbol 0 SK_Function ''f'' ''void'' [''int64'', ''int32''] 0,
          new_symbol 1 SK_Function ''f'' ''void'' [''int32'', ''int64''] 0,
          (new_symbol 2 SK_Function ''first'' ''T'' [''T[]''] 0)\<lparr>sy_genericParameters := [''T'']\<rparr>],
        scopes = [[''f'' \<mapsto> 0, ''first'' \<mapsto> 2]]\<rparr>,
     genericFunctionSpecializations = Map.empty, genericFunctionSpecializationOrder = [],
     functionDeclarations = Map.empty, ca_diagnostics = []\<rparr>"

lemma constructor_choice_ignores_order_witness:
  "map_option (map_option ms_symbol \<circ> fst) (SelectConstructor no_types Reset
     [new_member SK_Constructor ''void'' [''int64''] 1, new_member SK_Constructor ''void'' [''int32''] 0]
     [''int32''] ''P'' Map.empty) = Some (Some 0)"
proof -
  let ?a = "new_member SK_Constructor ''void'' [''int32''] 0"
  let ?b = "new_member SK_Constructor ''void'' [''int64''] 1"
  have "\<forall>c \<in> set [?a, ?b]. \<exists>k. constructor_cost no_types Reset [''int32''] Map.empty c = Some k \<and>
      (\<forall>m. k = Some m \<longrightarrow> m < cost_limit)"
  proof -
    have "constructor_cost no_types Reset [''int32''] Map.empty ?a = Some (Some 0)"
      "constructor_cost no_types Reset [''int32''] Map.empty ?b = Some (Some 1)" by code_simp+
    then show ?thesis by (simp add: cost_limit_def)
  qed
  moreover have "mset [?a, ?b] = mset [?b, ?a]" by simp
  ultimately have "SelectConstructor no_types Reset [?a, ?b] [''int32''] ''P'' Map.empty =
      SelectConstructor no_types Reset [?b, ?a] [''int32''] ''P'' Map.empty"
    using constructor_choice_ignores_order [of "[?a, ?b]" "[?b, ?a]" no_types Reset "[''int32'']" Map.empty "''P''"]
    by blast
  moreover have "map_option (map_option ms_symbol \<circ> fst) (SelectConstructor no_types Reset [?a, ?b]
      [''int32''] ''P'' Map.empty) = Some (Some 0)" by code_simp
  ultimately show ?thesis by simp
qed

lemma two_functions_costs:
  "candidate_cost no_types (ca_table two_functions) [''int32'', ''int32''] [] 0 = Some (1, [])"
  "candidate_cost no_types (ca_table two_functions) [''int32'', ''int32''] [] 1 = Some (1, [])"
  "map_option fst (SelectOverload no_types [0, 1] [''int32'', ''int32''] ''f'' [] two_functions) = Some 0"
  by code_simp+

lemma overloads_of_one_name_never_ambiguous_witness:
  "\<exists>st'. SelectOverload no_types [0, 1] [''int32'', ''int32''] ''f'' [] two_functions = Some (0, st') \<and>
     st' = two_functions"
proof -
  obtain st' where s: "SelectOverload no_types [0, 1] [''int32'', ''int32''] ''f'' [] two_functions = Some (0, st')"
    using two_functions_costs(3) by auto
  have "\<forall>j \<in> set [0, 1]. one_name (ca_table two_functions) j ''f'' [] \<and>
      (\<forall>s. Get (ca_table two_functions) j = Some s \<longrightarrow> sy_genericParameters s = [])"
    by (simp add: one_name_def two_functions_def Get_def new_symbol_def InvalidSymbolId_def)
  then have "st' = two_functions"
    using overloads_of_one_name_never_ambiguous [of "[0, 1]" two_functions "''f''" "[]", OF _ _ _ s]
      two_functions_costs(1,2) by (simp add: cost_limit_def)
  with s show ?thesis by blast
qed

lemma specialisation_is_shared_witness:
  "\<exists>i st'. InstantiateGenericFunction no_types 2 [''int32''] two_functions = (i, st') \<and>
     InstantiateGenericFunction no_types 2 [''int32''] st' = (i, st')"
proof -
  obtain i st' where r: "InstantiateGenericFunction no_types 2 [''int32''] two_functions = (i, st')" by fastforce
  have "Get (ca_table two_functions) 2 = Some ((new_symbol 2 SK_Function ''first'' ''T'' [''T[]''] 0)
      \<lparr>sy_genericParameters := [''T'']\<rparr>)"
    by (simp add: two_functions_def Get_def)
  moreover have "specializations_ok two_functions" by (simp add: specializations_ok_def two_functions_def)
  moreover have "length (symbols (ca_table two_functions)) < 2 ^ 32" by (simp add: two_functions_def)
  ultimately show ?thesis
    using specialisation_is_shared [of two_functions 2 _ "[''int32'']", OF _ _ _ _ _ r] r by auto
qed

end
