(* ===== verification/Members.thy ===== *)
theory Members
  imports Overloads
begin

text \<open>
  Names and members (\<^verbatim>\<open>analyzer.cpp\<close>, \<^verbatim>\<open>type_declarations.cpp\<close>): the lookup of names through the
  enclosing and the imported namespaces, the declaration of types and members, the members a type
  shows, its constructors and base class, and the check that a class implements its interfaces.
  The definitions of types are in the map of the record \<open>analyzer\<close>; the table of symbols and the
  diagnostics are passed along.
\<close>

section \<open>Names in namespaces\<close>

definition Qualify :: "analyzer \<Rightarrow> string \<Rightarrow> string" where
  "Qualify an name =
     (if name = [] \<or> currentNamespace an = [] \<or> CHR ''.'' \<in> set name then name
      else currentNamespace an @ ''.'' @ name)"

text \<open>What is before the last dot.\<close>

definition before_last_dot :: "string \<Rightarrow> string" where
  "before_last_dot s = rev (tl (dropWhile (\<lambda>c. c \<noteq> CHR ''.'') (rev s)))"

lemma before_last_dot_length: "s \<noteq> [] \<Longrightarrow> length (before_last_dot s) < length s"
proof -
  assume "s \<noteq> []"
  moreover have "length (dropWhile (\<lambda>c. c \<noteq> CHR ''.'') (rev s)) \<le> length (rev s)" by (rule length_dropWhile_le)
  ultimately show ?thesis by (auto simp: before_last_dot_def simp flip: length_greater_0_conv)
qed

text \<open>The namespaces that the loops visit, from a namespace outwards.\<close>

function enclosing_namespaces :: "string \<Rightarrow> string list" where
  "enclosing_namespaces scope =
     (if scope = [] then []
      else scope # (if CHR ''.'' \<in> set scope then enclosing_namespaces (before_last_dot scope) else []))"
  by pat_completeness auto
termination by (relation "measure length") (use before_last_dot_length in auto)

declare enclosing_namespaces.simps [simp del]

fun first_some :: "('a \<Rightarrow> 'b option) \<Rightarrow> 'a list \<Rightarrow> 'b option" where
  "first_some f [] = None"
| "first_some f (x # xs) = (case f x of Some y \<Rightarrow> Some y | None \<Rightarrow> first_some f xs)"

definition lookup_id :: "symbol_table \<Rightarrow> string \<Rightarrow> SymbolId option" where
  "lookup_id table name = (if Lookup table name = InvalidSymbolId then None else Some (Lookup table name))"

definition LookupSymbol :: "analyzer \<Rightarrow> symbol_table \<Rightarrow> string \<Rightarrow> SymbolId" where
  "LookupSymbol an table name =
     (if name = [] then InvalidSymbolId
      else case lookup_id table name of
        Some i \<Rightarrow> i
      | None \<Rightarrow>
          if CHR ''.'' \<in> set name then
            (if currentNamespace an = [] then InvalidSymbolId
             else case lookup_id table (currentNamespace an @ ''.'' @ name) of
               Some i \<Rightarrow> i | None \<Rightarrow> InvalidSymbolId)
          else case first_some (\<lambda>scope. lookup_id table (scope @ ''.'' @ name))
              (enclosing_namespaces (currentNamespace an) @ importedNamespaces an) of
            Some i \<Rightarrow> i | None \<Rightarrow> InvalidSymbolId)"

definition overloads_of :: "(string \<rightharpoonup> SymbolId list) \<Rightarrow> string \<Rightarrow> SymbolId list option" where
  "overloads_of overloads name =
     (case overloads name of None \<Rightarrow> None | Some is \<Rightarrow> if is = [] then None else Some is)"

definition FindFunctionCandidates :: "analyzer \<Rightarrow> (string \<rightharpoonup> SymbolId list) \<Rightarrow> string \<Rightarrow> SymbolId list" where
  "FindFunctionCandidates an overloads name =
     (if name = [] then []
      else case overloads_of overloads name of
        Some is \<Rightarrow> is
      | None \<Rightarrow>
          if CHR ''.'' \<in> set name then
            (if currentNamespace an = [] then []
             else case overloads_of overloads (currentNamespace an @ ''.'' @ name) of
               Some is \<Rightarrow> is | None \<Rightarrow> [])
          else case first_some (\<lambda>scope. overloads_of overloads (scope @ ''.'' @ name))
              (enclosing_namespaces (currentNamespace an) @ importedNamespaces an) of
            Some is \<Rightarrow> is | None \<Rightarrow> [])"

definition FindFunctionSymbol ::
    "symbol_table \<Rightarrow> (string \<rightharpoonup> SymbolId list) \<Rightarrow> string \<Rightarrow> string list \<Rightarrow> symbol option" where
  "FindFunctionSymbol table overloads name parameterTypes =
     (case overloads name of
        None \<Rightarrow> None
      | Some is \<Rightarrow> first_some (\<lambda>i. case Get table i of
            None \<Rightarrow> None
          | Some s \<Rightarrow> if sy_parameterTypes s = parameterTypes then Some s else None) is)"

definition extension_visible :: "analyzer \<Rightarrow> string \<Rightarrow> bool" where
  "extension_visible an ownerNamespace \<longleftrightarrow>
     currentNamespace an = ownerNamespace \<or>
     starts_with (currentNamespace an) (ownerNamespace @ ''.'') \<or>
     list_ex (\<lambda>imported. imported = ownerNamespace \<or> ends_with imported (''.'' @ ownerNamespace) \<or>
       ends_with imported ownerNamespace) (importedNamespaces an)"

definition FindExtensionCandidates ::
    "analyzer \<Rightarrow> symbol_table \<Rightarrow> (string \<rightharpoonup> SymbolId list) \<Rightarrow> string \<Rightarrow> SymbolId list" where
  "FindExtensionCandidates an table extensionMethods name =
     (case extensionMethods name of
        None \<Rightarrow> []
      | Some is \<Rightarrow> filter (\<lambda>i. case Get table i of
            None \<Rightarrow> False
          | Some s \<Rightarrow> CHR ''.'' \<notin> set (sy_name s) \<or> extension_visible an (before_last_dot (sy_name s))) is)"

definition LookupTypeAliasName :: "analyzer \<Rightarrow> (string \<Rightarrow> bool) \<Rightarrow> string \<Rightarrow> string" where
  "LookupTypeAliasName an isAlias name =
     (if isAlias name then name
      else case first_some (\<lambda>candidate. if isAlias candidate then Some candidate else None)
          ((if CHR ''.'' \<in> set name then []
            else map (\<lambda>scope. scope @ ''.'' @ name) (enclosing_namespaces (currentNamespace an))) @
           map (\<lambda>imported. imported @ ''.'' @ name) (importedNamespaces an)) of
        Some candidate \<Rightarrow> candidate
      | None \<Rightarrow> [])"

section \<open>Declarations\<close>

type_synonym declarations = "analyzer \<times> symbol_table \<times> diagnostic list"

definition DeclareType :: "string \<Rightarrow> TypeKind \<Rightarrow> declarations \<Rightarrow> declarations" where
  "DeclareType name kind = (\<lambda>(an, table, ds).
     let qualifiedName = Qualify an name in
     if an_types an qualifiedName \<noteq> None then
       (an, table, ds @ [(''type '' @ quoted qualifiedName @ '' is already declared'',
          ''E_DUPLICATE_TYPE'', InvalidSymbolId)])
     else
       (let an' = an\<lparr>an_types := (an_types an)(qualifiedName \<mapsto> empty_definition\<lparr>td_kind := kind\<rparr>)\<rparr> in
        case Declare SK_Type qualifiedName qualifiedName [] table of
          (Some i, table') \<Rightarrow> (an', table', ds)
        | (None, table') \<Rightarrow> (an', table', ds @
            [(''object '' @ quoted qualifiedName @ '' is already declared in this scope'',
              ''E_DUPLICATE_DECLARATION'', InvalidSymbolId)])))"

text \<open>\<open>operator[]\<close> on an association list: the entry, made empty when there is none.\<close>

definition entry :: "(string \<times> 'a list) list \<Rightarrow> string \<Rightarrow> 'a list" where
  "entry es name = (case map_of es name of None \<Rightarrow> [] | Some xs \<Rightarrow> xs)"

fun set_entry :: "string \<Rightarrow> 'a list \<Rightarrow> (string \<times> 'a list) list \<Rightarrow> (string \<times> 'a list) list" where
  "set_entry name xs [] = [(name, xs)]"
| "set_entry name xs ((n, ys) # es) = (if n = name then (n, xs) # es else (n, ys) # set_entry name xs es)"

definition type_of :: "analyzer \<Rightarrow> string \<Rightarrow> type_definition" where
  "type_of an owner = (case an_types an owner of None \<Rightarrow> empty_definition | Some d \<Rightarrow> d)"

definition set_members :: "string \<Rightarrow> (string \<times> member_signature list) list \<Rightarrow> analyzer \<Rightarrow> analyzer" where
  "set_members owner ms an =
     an\<lparr>an_types := (an_types an)(owner \<mapsto> (type_of an owner)\<lparr>td_members := ms\<rparr>)\<rparr>"

definition overloadable :: "SymbolKind \<Rightarrow> bool" where
  "overloadable kind \<longleftrightarrow> kind = SK_Method \<or> kind = SK_Indexer"

definition collides :: "member_signature \<Rightarrow> member_signature \<Rightarrow> bool" where
  "collides sig existing \<longleftrightarrow> \<not> overloadable (ms_kind sig) \<or> ms_kind existing \<noteq> ms_kind sig \<or>
     ms_parameterTypes existing = ms_parameterTypes sig"

definition update_symbol :: "SymbolId \<Rightarrow> (symbol \<Rightarrow> symbol) \<Rightarrow> symbol_table \<Rightarrow> symbol_table" where
  "update_symbol i f table =
     (if unat i < length (symbols table)
      then table\<lparr>symbols := (symbols table)[unat i := f (symbols table ! unat i)]\<rparr> else table)"

definition member_symbol :: "string \<Rightarrow> member_signature \<Rightarrow> symbol \<Rightarrow> symbol" where
  "member_symbol owner sig s =
     s\<lparr>sy_isConst := ms_isConst sig, sy_isStatic := ms_isStatic sig, sy_canRead := ms_canRead sig,
       sy_canWrite := ms_canWrite sig, sy_access := ms_access sig, sy_readAccess := ms_readAccess sig,
       sy_writeAccess := ms_writeAccess sig, sy_memberOwner := owner\<rparr>"

definition DeclareMember :: "string \<Rightarrow> string \<Rightarrow> member_signature \<Rightarrow> declarations \<Rightarrow> declarations" where
  "DeclareMember owner name sig = (\<lambda>(an, table, ds).
     let members = td_members (type_of an owner);
         overloads = entry members name;
         opened = set_members owner (set_entry name overloads members) an;
         duplicate = ds @ [(''member '' @ quoted (owner @ ''.'' @ name) @ '' already has this signature'',
           ''E_DUPLICATE_MEMBER_SIGNATURE'', InvalidSymbolId)]
     in if list_ex (collides sig) overloads then (opened, table, duplicate)
        else case Declare (ms_kind sig) (owner @ ''.'' @ name) (ms_type sig) (ms_parameterTypes sig) table of
          (None, table') \<Rightarrow> (opened, table', duplicate)
        | (Some i, table') \<Rightarrow>
            (set_members owner
               (set_entry name (overloads @ [sig\<lparr>ms_symbol := i, ms_owner := owner\<rparr>]) members) an,
             update_symbol i (member_symbol owner sig) table', ds))"

section \<open>The members a type shows\<close>

definition written_member :: "(string \<rightharpoonup> string) \<Rightarrow> member_signature \<Rightarrow> member_signature" where
  "written_member substitutions m =
     m\<lparr>ms_type := SubstituteGenericType (ms_type m) substitutions,
       ms_parameterTypes := map (\<lambda>p. SubstituteGenericType p substitutions) (ms_parameterTypes m)\<rparr>"

text \<open>What a declared member hides of the inherited ones.\<close>

definition hides :: "member_signature \<Rightarrow> member_signature \<Rightarrow> bool" where
  "hides declared inherited \<longleftrightarrow> ms_kind inherited = ms_kind declared \<and>
     (ms_kind declared = SK_Property \<or>
      overloadable (ms_kind declared) \<and> ms_parameterTypes inherited = ms_parameterTypes declared)"

definition show_member :: "member_signature \<Rightarrow> member_signature list \<Rightarrow> member_signature list" where
  "show_member declared visible = filter (\<lambda>m. \<not> hides declared m) visible @ [declared]"

definition inherit :: "(string \<times> member_signature list) list \<Rightarrow>
    (string \<times> member_signature list) list \<Rightarrow> (string \<times> member_signature list) list" where
  "inherit inherited result =
     fold (\<lambda>(name, signatures) r. set_entry name (entry r name @ signatures) r) inherited result"

definition declare_all :: "(string \<rightharpoonup> string) \<Rightarrow> (string \<times> member_signature list) list \<Rightarrow>
    (string \<times> member_signature list) list \<Rightarrow> (string \<times> member_signature list) list" where
  "declare_all substitutions members result =
     fold (\<lambda>(name, signatures). fold (\<lambda>m r.
         set_entry name (show_member (written_member substitutions m) (entry r name)) r) signatures)
       members result"

partial_function (option) VisibleMembers ::
    "analyzer \<Rightarrow> string \<Rightarrow> (string \<times> member_signature list) list option" where
  "VisibleMembers an owner =
     (case definition_of an owner of
        None \<Rightarrow> Some []
      | Some (definition, substitutions) \<Rightarrow>
          Option.bind
            (collect_opt (\<lambda>parent result.
                Option.bind (VisibleMembers an parent) (\<lambda>inherited. Some (inherit inherited result)))
              (map (\<lambda>parent. SubstituteGenericType parent substitutions) (td_parents definition)) [])
            (\<lambda>result. Some (declare_all substitutions (td_members definition) result)))"

declare VisibleMembers.simps [code]

definition base_name :: "string \<Rightarrow> string" where
  "base_name type = (case ParseGenericTypeName type of Some (base, arguments) \<Rightarrow> base | None \<Rightarrow> type)"

definition DirectBaseClass :: "analyzer \<Rightarrow> string \<Rightarrow> string" where
  "DirectBaseClass an className =
     (case an_types an (base_name className) of
        None \<Rightarrow> []
      | Some definition \<Rightarrow>
          (case first_some (\<lambda>parent. case an_types an (base_name parent) of
              None \<Rightarrow> None
            | Some d \<Rightarrow> if td_kind d = TK_Class then Some parent else None) (td_parents definition) of
             None \<Rightarrow> [] | Some parent \<Rightarrow> parent))"

definition ConstructorsOf :: "analyzer \<Rightarrow> string \<Rightarrow> member_signature list" where
  "ConstructorsOf an typeName =
     (case definition_of an typeName of
        None \<Rightarrow> []
      | Some (definition, substitutions) \<Rightarrow>
          map (\<lambda>c. c\<lparr>ms_parameterTypes :=
              map (\<lambda>p. SubstituteGenericType p substitutions) (ms_parameterTypes c)\<rparr>)
            (td_constructors definition))"

definition ConstructorParameterTypes :: "analyzer \<Rightarrow> string \<Rightarrow> string list" where
  "ConstructorParameterTypes an typeName =
     (let constructors = ConstructorsOf an typeName in
      if constructors = [] \<or> list_ex (\<lambda>c. ms_parameterTypes c = []) constructors then []
      else ms_parameterTypes (hd constructors))"

section \<open>Implementing interfaces\<close>

definition concrete_here :: "type_definition \<Rightarrow> string \<Rightarrow> string list \<Rightarrow> member_signature option" where
  "concrete_here definition name parameterTypes =
     List.find (\<lambda>m. ms_kind m = SK_Method \<and> \<not> ms_isStatic m \<and> ms_parameterTypes m = parameterTypes)
       (entry (td_members definition) name)"

primrec first_opt :: "('a \<Rightarrow> 'b option option) \<Rightarrow> 'a list \<Rightarrow> 'b option option" where
  "first_opt f [] = Some None"
| "first_opt f (x # xs) =
     Option.bind (f x) (\<lambda>r. if r = None then first_opt f xs else Some r)"

lemma first_opt_mono [partial_function_mono]:
  assumes "\<And>x. mono_option (\<lambda>f. B x f)"
  shows "mono_option (\<lambda>f. first_opt (\<lambda>x. B x f) xs)"
  by (induction xs) (simp_all add: option.const_mono bind_mono if_mono assms)

partial_function (option) FindConcreteMethod ::
    "analyzer \<Rightarrow> string \<Rightarrow> string \<Rightarrow> string list \<Rightarrow> member_signature option option" where
  "FindConcreteMethod an owner name parameterTypes =
     (case an_types an owner of
        None \<Rightarrow> Some None
      | Some definition \<Rightarrow>
          if td_kind definition \<noteq> TK_Class then Some None
          else if concrete_here definition name parameterTypes \<noteq> None
            then Some (concrete_here definition name parameterTypes)
          else first_opt (\<lambda>parent.
              if map_option td_kind (an_types an parent) = Some TK_Class
              then FindConcreteMethod an parent name parameterTypes else Some None)
            (td_parents definition))"

declare FindConcreteMethod.simps [code]

record requirement =
  rq_contract :: string
  rq_methodName :: string
  rq_signature :: member_signature

definition requirementKey :: "string \<Rightarrow> string list \<Rightarrow> string" where
  "requirementKey methodName parameterTypes =
     methodName @ concat (map (\<lambda>p. CHR 0x1F # p) parameterTypes)"

definition contract_requirements :: "string \<Rightarrow> (string \<times> member_signature list) list \<Rightarrow> requirement list" where
  "contract_requirements parent visible =
     concat (map (\<lambda>(methodName, overloads).
       map (\<lambda>m. \<lparr>rq_contract = parent, rq_methodName = methodName, rq_signature = m\<rparr>)
         (filter (\<lambda>m. ms_kind m = SK_Method \<and> \<not> ms_isStatic m) overloads)) visible)"

definition add_requirement ::
    "requirement \<Rightarrow> (string \<times> requirement list) list \<Rightarrow> (string \<times> requirement list) list" where
  "add_requirement r rs =
     (let key = requirementKey (rq_methodName r) (ms_parameterTypes (rq_signature r))
      in set_entry key (entry rs key @ [r]) rs)"

definition requirements_of ::
    "analyzer \<Rightarrow> string list \<Rightarrow> (string \<times> requirement list) list option" where
  "requirements_of an parents =
     collect_opt (\<lambda>parent rs.
       if map_option td_kind (an_types an (base_name parent)) \<noteq> Some TK_Interface then Some rs
       else Option.bind (VisibleMembers an parent) (\<lambda>visible.
         Some (fold add_requirement (contract_requirements parent visible) rs)))
       parents []"

definition has_body :: "(SymbolId \<rightharpoonup> stmt) \<Rightarrow> SymbolId \<Rightarrow> bool" where
  "has_body declarations i =
     (case map_option skind (declarations i) of
        Some (FunctionDeclStmt f returns parameters (Some body)) \<Rightarrow> True | _ \<Rightarrow> False)"

definition default_methods :: "(SymbolId \<rightharpoonup> stmt) \<Rightarrow> requirement list \<Rightarrow> SymbolId list" where
  "default_methods declarations contracts =
     remdups (filter (has_body declarations) (map (ms_symbol \<circ> rq_signature) contracts))"

definition missing_diagnostics ::
    "string \<Rightarrow> symbol_table \<Rightarrow> (SymbolId \<rightharpoonup> stmt) \<Rightarrow> requirement list \<Rightarrow> diagnostic list" where
  "missing_diagnostics className table declarations contracts =
     (case default_methods declarations contracts of
        [] \<Rightarrow> [(''class '' @ quoted className @ '' does not implement interface method '' @
            quoted (rq_contract (hd contracts) @ ''.'' @ rq_methodName (hd contracts)),
            ''E_INTERFACE_METHOD_MISSING'', InvalidSymbolId)]
      | [i] \<Rightarrow>
          (case Get table i of
             None \<Rightarrow> []
           | Some s \<Rightarrow> concat (map (\<lambda>r.
               if sy_type s \<noteq> ms_type (rq_signature r) \<or> sy_isConst s \<noteq> ms_isConst (rq_signature r)
               then [(''default interface method '' @ quoted (sy_name s) @
                   '' does not match the contract of interface '' @ quoted (rq_contract r),
                   ''E_INTERFACE_DEFAULT_CONTRACT'', InvalidSymbolId)]
               else []) contracts))
      | _ \<Rightarrow> [(''class '' @ quoted className @ '' inherits multiple default implementations of '' @
            quoted (rq_methodName (hd contracts)) @ ''; declare an override to resolve the ambiguity'',
            ''E_INTERFACE_DEFAULT_AMBIGUOUS'', InvalidSymbolId)])"

definition contract_diagnostics :: "string \<Rightarrow> member_signature \<Rightarrow> requirement \<Rightarrow> diagnostic list" where
  "contract_diagnostics className implementation r =
     (let method = ''class method '' @ quoted (className @ ''.'' @ rq_methodName r);
          required = rq_signature r
      in if ms_type implementation \<noteq> ms_type required then
           [(method @ '' returns '' @ quoted (ms_type implementation) @ '', but interface '' @
              quoted (rq_contract r) @ '' requires '' @ quoted (ms_type required),
              ''E_INTERFACE_RETURN_MISMATCH'', InvalidSymbolId)]
         else if ms_isConst implementation \<noteq> ms_isConst required then
           [(method @ '' does not match the const contract of interface '' @ quoted (rq_contract r),
              ''E_INTERFACE_CONST_MISMATCH'', InvalidSymbolId)]
         else if ms_access implementation \<noteq> AL_Public then
           [(method @ '' implements interface '' @ quoted (rq_contract r) @ '' and must be public'',
              ''E_INTERFACE_IMPLEMENTATION_ACCESS'', ms_symbol implementation)]
         else [])"

definition check_contracts ::
    "analyzer \<Rightarrow> symbol_table \<Rightarrow> (SymbolId \<rightharpoonup> stmt) \<Rightarrow> string \<Rightarrow> requirement list \<Rightarrow> diagnostic list option" where
  "check_contracts an table declarations className contracts =
     map_option (\<lambda>found. case found of
         None \<Rightarrow> missing_diagnostics className table declarations contracts
       | Some implementation \<Rightarrow> concat (map (contract_diagnostics className implementation) contracts))
       (FindConcreteMethod an className (rq_methodName (hd contracts))
         (ms_parameterTypes (rq_signature (hd contracts))))"

definition ValidateInterfaceImplementation ::
    "analyzer \<Rightarrow> symbol_table \<Rightarrow> (SymbolId \<rightharpoonup> stmt) \<Rightarrow> string \<Rightarrow> diagnostic list option" where
  "ValidateInterfaceImplementation an table declarations className =
     (case an_types an className of
        None \<Rightarrow> Some []
      | Some definition \<Rightarrow>
          Option.bind (requirements_of an (td_parents definition)) (\<lambda>requirements.
            collect_opt (\<lambda>(key, contracts) ds.
                map_option (\<lambda>new_ds. ds @ new_ds) (check_contracts an table declarations className contracts))
              requirements []))"

end
