(* ===== verification/Member_Rules.thy ===== *)
theory Member_Rules
  imports Members Overload_Choice Type_Hierarchy
begin

text \<open>
  What holds of members: the overloads of a member stay distinct and keep their symbols, a declared
  method replaces what is inherited with its signature, and a class that passes the check of its
  interfaces implements them.
\<close>

section \<open>Entries of association lists\<close>

lemma entry_set_entry: "entry (set_entry n xs es) m = (if m = n then xs else entry es m)"
  by (induction n xs es rule: set_entry.induct) (auto simp: entry_def)

lemma map_of_set_entry: "map_of (set_entry n xs es) = (map_of es)(n \<mapsto> xs)"
  by (induction n xs es rule: set_entry.induct) auto

lemma fst_set_entry: "fst ` set (set_entry n xs es) = insert n (fst ` set es)"
  by (induction n xs es rule: set_entry.induct) auto

lemma distinct_set_entry: "distinct (map fst es) \<Longrightarrow> distinct (map fst (set_entry n xs es))"
  by (induction n xs es rule: set_entry.induct) (auto simp: fst_set_entry)

lemma entry_member: "distinct (map fst es) \<Longrightarrow> (n, xs) \<in> set es \<Longrightarrow> entry es n = xs"
  by (simp add: entry_def)

section \<open>Declaring members\<close>

definition apart :: "member_signature list \<Rightarrow> bool" where
  "apart ms \<longleftrightarrow> (\<forall>j < length ms. \<forall>i < j. \<not> collides (ms ! j) (ms ! i))"

lemma apart_snoc: "apart (ms @ [m]) \<longleftrightarrow> apart ms \<and> (\<forall>x \<in> set ms. \<not> collides m x)"
  by (auto simp: apart_def nth_append less_Suc_eq all_set_conv_all_nth in_set_conv_nth)

definition has_symbol :: "symbol_table \<Rightarrow> string \<Rightarrow> string \<Rightarrow> member_signature \<Rightarrow> bool" where
  "has_symbol table owner name m \<longleftrightarrow> ms_owner m = owner \<and>
     (\<exists>s. Get table (ms_symbol m) = Some s \<and> sy_name s = owner @ ''.'' @ name \<and> sy_kind s = ms_kind m \<and>
        sy_type s = ms_type m \<and> sy_parameterTypes s = ms_parameterTypes m \<and> sy_memberOwner s = owner)"

definition members_ok :: "declarations \<Rightarrow> bool" where
  "members_ok = (\<lambda>(an, table, ds). \<forall>owner name.
     apart (entry (td_members (type_of an owner)) name) \<and>
     (\<forall>m \<in> set (entry (td_members (type_of an owner)) name). has_symbol table owner name m))"

lemma Declare_new:
  assumes "table_ok t" and "Declare kind name type ps t = (Some i, t')"
  shows "unat i = length (symbols t)"
    and "symbols t' = symbols t @ [new_symbol i kind name type ps (ScopeDepth t)]"
proof -
  have l: "length (symbols t) < 2 ^ 32" using assms(1) by (simp add: table_ok_def)
  show "unat i = length (symbols t)"
    "symbols t' = symbols t @ [new_symbol i kind name type ps (ScopeDepth t)]"
    by (rule Declare_cases [OF assms(1), of kind name type ps]; use assms(2) unat_next [OF l] in force)+
qed

lemma Declare_refused: "table_ok t \<Longrightarrow> Declare kind name type ps t = (None, t') \<Longrightarrow> t' = t"
  by (rule Declare_cases [of t kind name type ps]) auto

lemma update_new_symbol:
  assumes "symbols t = syms @ [s]" and "unat i = length syms"
  shows "Get (update_symbol i f t) j =
    (if unat j < length syms then Some (syms ! unat j) else if j = i then Some (f s) else None)"
  using assms by (auto simp: Get_def update_symbol_def nth_append nth_list_update word_unat_eq_iff)

lemma member_symbol_same:
  "sy_id (member_symbol owner sig s) = sy_id s"
  "sy_name (member_symbol owner sig s) = sy_name s"
  "sy_scopeDepth (member_symbol owner sig s) = sy_scopeDepth s"
  by (simp_all add: member_symbol_def)

lemma nth_updated: "g (f (xs ! n)) = g (xs ! n) \<Longrightarrow> g (xs[n := f (xs ! n)] ! k) = g (xs ! k)"
  by (cases "n < length xs") (auto simp: nth_list_update list_update_beyond not_less)

lemma update_symbol_ok:
  assumes "table_ok t"
  shows "table_ok (update_symbol i (member_symbol owner sig) t)"
proof (cases "unat i < length (symbols t)")
  case True
  let ?syms = "(symbols t)[unat i := member_symbol owner sig (symbols t ! unat i)]"
  have same: "sy_id (?syms ! k) = sy_id (symbols t ! k)" "sy_name (?syms ! k) = sy_name (symbols t ! k)"
      "sy_scopeDepth (?syms ! k) = sy_scopeDepth (symbols t ! k)" for k
    by (rule nth_updated, rule member_symbol_same)+
  have "scope_ok ?syms d scope \<longleftrightarrow> scope_ok (symbols t) d scope" for d scope
    by (simp only: scope_ok_def same length_list_update)
  with assms True show ?thesis by (simp add: table_ok_def update_symbol_def same)
next
  case False
  with assms show ?thesis by (simp add: update_symbol_def)
qed

lemma has_symbol_mono:
  "(\<And>i s. Get t i = Some s \<Longrightarrow> Get t' i = Some s) \<Longrightarrow> has_symbol t owner name m \<Longrightarrow> has_symbol t' owner name m"
  unfolding has_symbol_def by blast

lemma type_of_set_members:
  "td_members (type_of (set_members owner ms an) o') = (if o' = owner then ms else td_members (type_of an o'))"
  by (simp add: type_of_def set_members_def)

lemma DeclareMember_ok:
  assumes "members_ok (an, table, ds)" and "table_ok table" and "Suc (length (symbols table)) < 2 ^ 32"
    and "DeclareMember owner name sig (an, table, ds) = (an', table', ds')"
  shows "members_ok (an', table', ds') \<and> table_ok table' \<and>
    length (symbols table') \<le> Suc (length (symbols table))"
proof -
  let ?os = "entry (td_members (type_of an owner)) name"
  let ?same = "set_members owner (set_entry name ?os (td_members (type_of an owner))) an"
  have same: "members_ok (?same, table, ds'')" for ds''
    using assms(1) by (auto simp: members_ok_def type_of_set_members entry_set_entry)
  show ?thesis
  proof (cases "list_ex (collides sig) ?os")
    case True
    with assms(2,4) same show ?thesis by (auto simp: DeclareMember_def Let_def)
  next
    case False
    obtain r table1 where d: "Declare (ms_kind sig) (owner @ ''.'' @ name) (ms_type sig) (ms_parameterTypes sig) table = (r, table1)"
      by fastforce
    show ?thesis
    proof (cases r)
      case None
      with d have "table1 = table" using Declare_refused [OF assms(2)] by simp
      with None False d assms(2,4) same show ?thesis by (auto simp: DeclareMember_def Let_def)
    next
      case (Some i)
      let ?m = "sig\<lparr>ms_symbol := i, ms_owner := owner\<rparr>"
      note new = Declare_new [OF assms(2) d [unfolded Some]]
      have r: "an' = set_members owner (set_entry name (?os @ [?m]) (td_members (type_of an owner))) an"
          "table' = update_symbol i (member_symbol owner sig) table1" "ds' = ds"
        using assms(4) False d Some by (auto simp: DeclareMember_def Let_def)
      have get: "Get table' j = (if unat j < length (symbols table) then Some (symbols table ! unat j)
          else if j = i then Some (member_symbol owner sig (new_symbol i (ms_kind sig) (owner @ ''.'' @ name)
            (ms_type sig) (ms_parameterTypes sig) (ScopeDepth table))) else None)" for j
        unfolding r(2) by (rule update_new_symbol [OF new(2,1)])
      have kept: "Get table j = Some s \<Longrightarrow> Get table' j = Some s" for j s
        unfolding get by (auto simp: Get_def split: if_splits)
      have "table_ok table1" using Declare_ok [OF assms(2,3)] d by (metis snd_conv)
      then have "table_ok table'" unfolding r(2) by (rule update_symbol_ok)
      moreover have "length (symbols table') = Suc (length (symbols table))"
        by (simp add: r(2) update_symbol_def new(2))
      moreover have "has_symbol table' owner name ?m"
        using new(1) by (simp add: has_symbol_def get member_symbol_def new_symbol_def)
      moreover have "\<not> collides ?m x" if "x \<in> set ?os" for x
        using False that by (auto simp: list_ex_iff collides_def)
      ultimately show ?thesis
        using assms(1) has_symbol_mono [of table table', OF kept]
        by (auto simp: members_ok_def r(1) type_of_set_members entry_set_entry apart_snoc)
    qed
  qed
qed

lemma Get_declared:
  assumes "table_ok t" and "Declare kind name type ps t = (r, t')" and "Get t i = Some s"
  shows "Get t' i = Some s"
proof (cases r)
  case None
  with assms(3) show ?thesis by (simp add: Declare_refused [OF assms(1) assms(2) [unfolded None]])
next
  case (Some j)
  note new = Declare_new [OF assms(1) assms(2) [unfolded Some]]
  from assms(3) show ?thesis by (auto simp: Get_def new(2) nth_append split: if_splits)
qed

lemma DeclareType_ok:
  assumes "members_ok (an, table, ds)" and "table_ok table" and "Suc (length (symbols table)) < 2 ^ 32"
    and "DeclareType name kind (an, table, ds) = (an', table', ds')"
  shows "members_ok (an', table', ds') \<and> table_ok table' \<and>
    length (symbols table') \<le> Suc (length (symbols table))"
proof (cases "an_types an (Qualify an name)")
  case None
  let ?q = "Qualify an name"
  obtain r table1 where d: "Declare SK_Type ?q ?q [] table = (r, table1)" by fastforce
  have r: "an' = an\<lparr>an_types := (an_types an)(?q \<mapsto> empty_definition\<lparr>td_kind := kind\<rparr>)\<rparr>" "table' = table1"
    using assms(4) None d by (auto simp: DeclareType_def Let_def split: option.splits)
  have members: "td_members (type_of an' o') = td_members (type_of an o')" for o'
    using None by (simp add: type_of_def r empty_definition_def)
  have "table_ok table1" using Declare_ok [OF assms(2,3)] d by (metis snd_conv)
  moreover have "length (symbols table1) \<le> Suc (length (symbols table))"
  proof (cases r)
    case None
    show ?thesis by (simp add: Declare_refused [OF assms(2) d [unfolded None]])
  next
    case (Some i)
    from Declare_new(2) [OF assms(2) d [unfolded Some]] show ?thesis by simp
  qed
  moreover have "members_ok (an', table', ds')"
    using assms(1) has_symbol_mono [of table table1, OF Get_declared [OF assms(2) d]]
    by (auto simp: members_ok_def members r(2))
  ultimately show ?thesis by (simp add: r(2))
next
  case (Some d)
  with assms show ?thesis by (auto simp: DeclareType_def Let_def members_ok_def)
qed

text \<open>The declarations that the first passes over a program make, in their order.\<close>

datatype declared = Declared_Type string TypeKind | Declared_Member string string member_signature

fun declare_one :: "declared \<Rightarrow> declarations \<Rightarrow> declarations" where
  "declare_one (Declared_Type name kind) = DeclareType name kind"
| "declare_one (Declared_Member owner name sig) = DeclareMember owner name sig"

lemma declare_one_ok:
  assumes "members_ok (an, table, ds)" and "table_ok table" and "Suc (length (symbols table)) < 2 ^ 32"
    and "declare_one d (an, table, ds) = (an', table', ds')"
  shows "members_ok (an', table', ds') \<and> table_ok table' \<and>
    length (symbols table') \<le> Suc (length (symbols table))"
proof (cases d)
  case (Declared_Type name kind)
  with assms(4) show ?thesis by (intro DeclareType_ok [OF assms(1-3)]) simp
next
  case (Declared_Member owner name sig)
  with assms(4) show ?thesis by (intro DeclareMember_ok [OF assms(1-3)]) simp
qed

lemma declare_all_ok:
  assumes "members_ok (an, table, ds)" and "table_ok table" and "length (symbols table) + length ms < 2 ^ 32"
    and "fold declare_one ms (an, table, ds) = (an', table', ds')"
  shows "members_ok (an', table', ds') \<and> table_ok table'"
  using assms
proof (induction ms arbitrary: an table ds)
  case Nil
  then show ?case by simp
next
  case (Cons m ms)
  obtain an1 table1 ds1 where d: "declare_one m (an, table, ds) = (an1, table1, ds1)"
    by (cases "declare_one m (an, table, ds)") auto
  have "Suc (length (symbols table)) < 2 ^ 32" using Cons.prems(3) by simp
  from declare_one_ok [OF Cons.prems(1,2) this d] have
    "members_ok (an1, table1, ds1)" "table_ok table1" "length (symbols table1) + length ms < 2 ^ 32"
    using Cons.prems(3) by auto
  moreover have "fold declare_one ms (an1, table1, ds1) = (an', table', ds')"
    using Cons.prems(4) by (simp add: d)
  ultimately show ?case by (rule Cons.IH)
qed

text \<open>
  C28. However a program declares types and members, from the empty table on: the overloads that a
  type has under one name never have the same parameters, and only methods and indexers are
  overloaded; and each of them keeps the symbol that its declaration made, which has its
  qualified name, its kind, its type and its parameters, and names its owner.
\<close>

theorem member_signatures_stay_distinct:
  assumes "an_types an = Map.empty" and "length ms < 2 ^ 32 - 1"
    and "fold declare_one ms (an, Reset, []) = (an', table', ds')"
    and "overloads = entry (td_members (type_of an' owner)) name"
    and "j < length overloads"
  shows "has_symbol table' owner name (overloads ! j) \<and>
    (\<forall>i < length overloads. i \<noteq> j \<longrightarrow>
       ms_kind (overloads ! i) = ms_kind (overloads ! j) \<and> overloadable (ms_kind (overloads ! j)) \<and>
       ms_parameterTypes (overloads ! i) \<noteq> ms_parameterTypes (overloads ! j))"
proof -
  have "td_members (type_of an o') = []" for o'
    by (simp add: type_of_def assms(1) empty_definition_def)
  then have "members_ok (an, Reset, [])" by (simp add: members_ok_def entry_def apart_def)
  moreover have "length (symbols Reset) + length ms < 2 ^ 32" using assms(2) by (simp add: Reset_def)
  ultimately have "members_ok (an', table', ds')"
    using declare_all_ok [OF _ Reset_ok _ assms(3)] by blast
  then have ok: "apart overloads" "has_symbol table' owner name (overloads ! j)"
    using assms(4,5) by (auto simp: members_ok_def)
  have "ms_kind (overloads ! i) = ms_kind (overloads ! j) \<and> overloadable (ms_kind (overloads ! j)) \<and>
       ms_parameterTypes (overloads ! i) \<noteq> ms_parameterTypes (overloads ! j)"
    if "i < length overloads" "i \<noteq> j" for i
  proof (cases "i < j")
    case True
    with ok(1) assms(5) have "\<not> collides (overloads ! j) (overloads ! i)" by (simp add: apart_def)
    then show ?thesis by (auto simp: collides_def)
  next
    case False
    with that ok(1) have "\<not> collides (overloads ! i) (overloads ! j)" by (simp add: apart_def)
    then show ?thesis by (auto simp: collides_def)
  qed
  with ok(2) show ?thesis by blast
qed

definition two_turns :: "declared list" where
  "two_turns = [Declared_Type ''Shape'' TK_Class,
     Declared_Member ''Shape'' ''turn'' (new_member SK_Method ''void'' [''int32''] 0),
     Declared_Member ''Shape'' ''turn'' (new_member SK_Method ''void'' [''float''] 0),
     Declared_Member ''Shape'' ''turn'' (new_member SK_Method ''bool'' [''float''] 0)]"

lemma two_turns_declared:
  "map ms_parameterTypes (entry (td_members (type_of
     (fst (fold declare_one two_turns (context_of [], Reset, []))) ''Shape'')) ''turn'') = [[''int32''], [''float'']]"
  "map (fst \<circ> snd) (snd (snd (fold declare_one two_turns (context_of [], Reset, [])))) = [''E_DUPLICATE_MEMBER_SIGNATURE'']"
  by code_simp+

theorem member_signatures_stay_distinct_witness:
  "\<exists>an table ds. fold declare_one two_turns (context_of [], Reset, []) = (an, table, ds) \<and>
     has_symbol table ''Shape'' ''turn'' (entry (td_members (type_of an ''Shape'')) ''turn'' ! 1) \<and>
     ms_parameterTypes (entry (td_members (type_of an ''Shape'')) ''turn'' ! 0) \<noteq>
       ms_parameterTypes (entry (td_members (type_of an ''Shape'')) ''turn'' ! 1)"
proof -
  obtain an table ds where r: "fold declare_one two_turns (context_of [], Reset, []) = (an, table, ds)"
    by (rule prod_cases3)
  let ?os = "entry (td_members (type_of an ''Shape'')) ''turn''"
  have "map ms_parameterTypes ?os = [[''int32''], [''float'']]"
    using two_turns_declared(1) unfolding r fst_conv .
  from arg_cong [OF this, of length] have l: "length ?os = 2" by simp
  have ok: "has_symbol table ''Shape'' ''turn'' (?os ! 1) \<and> (\<forall>i < length ?os. i \<noteq> 1 \<longrightarrow>
      ms_kind (?os ! i) = ms_kind (?os ! 1) \<and> overloadable (ms_kind (?os ! 1)) \<and>
      ms_parameterTypes (?os ! i) \<noteq> ms_parameterTypes (?os ! 1))"
  proof (rule member_signatures_stay_distinct [OF _ _ r refl])
    show "an_types (context_of []) = Map.empty" by (simp add: context_of_def)
    show "length two_turns < 2 ^ 32 - 1" by (simp add: two_turns_def)
    show "1 < length ?os" by (simp only: l)
  qed
  have "0 < length ?os" "(0::nat) \<noteq> 1" by (simp_all only: l)
  with ok have "ms_parameterTypes (?os ! 0) \<noteq> ms_parameterTypes (?os ! 1)" by blast
  with ok r show ?thesis by blast
qed

section \<open>Interfaces\<close>

text \<open>The methods that interfaces ask for, and those that a class owes to the interfaces among its parents.\<close>

definition asked :: "analyzer \<Rightarrow> requirement \<Rightarrow> bool" where
  "asked an r \<longleftrightarrow> map_option td_kind (an_types an (base_name (rq_contract r))) = Some TK_Interface \<and>
     (\<exists>visible overloads. VisibleMembers an (rq_contract r) = Some visible \<and>
        (rq_methodName r, overloads) \<in> set visible \<and> rq_signature r \<in> set overloads) \<and>
     ms_kind (rq_signature r) = SK_Method \<and> \<not> ms_isStatic (rq_signature r)"

definition owed :: "analyzer \<Rightarrow> type_definition \<Rightarrow> requirement \<Rightarrow> bool" where
  "owed an definition r \<longleftrightarrow> rq_contract r \<in> set (td_parents definition) \<and> asked an r"

abbreviation key_of :: "requirement \<Rightarrow> string" where
  "key_of r \<equiv> requirementKey (rq_methodName r) (ms_parameterTypes (rq_signature r))"

definition grouped :: "requirement set \<Rightarrow> (string \<times> requirement list) list \<Rightarrow> bool" where
  "grouped R rs \<longleftrightarrow> distinct (map fst rs) \<and> (\<forall>(k, cs) \<in> set rs. cs \<noteq> []) \<and>
     (\<forall>k. set (entry rs k) = {r \<in> R. key_of r = k})"

lemma set_set_entry: "(k, cs) \<in> set (set_entry n xs es) \<Longrightarrow> (k, cs) = (n, xs) \<or> (k, cs) \<in> set es"
  by (induction n xs es rule: set_entry.induct) (auto split: if_splits)

lemma grouped_add: "grouped R rs \<Longrightarrow> grouped (insert r R) (add_requirement r rs)"
  unfolding grouped_def add_requirement_def Let_def
  by (auto simp: entry_set_entry distinct_set_entry dest!: set_set_entry split: if_splits)

lemma grouped_fold: "grouped R rs \<Longrightarrow> grouped (R \<union> set new) (fold add_requirement new rs)"
proof (induction new arbitrary: R rs)
  case (Cons r new)
  from Cons.IH [OF grouped_add [OF Cons.prems, of r]] show ?case by simp
qed simp

lemma contract_requirements_asked:
  "r \<in> set (contract_requirements parent visible) \<longleftrightarrow> rq_contract r = parent \<and>
     (\<exists>overloads. (rq_methodName r, overloads) \<in> set visible \<and> rq_signature r \<in> set overloads) \<and>
     ms_kind (rq_signature r) = SK_Method \<and> \<not> ms_isStatic (rq_signature r)"
proof (cases r)
  case (fields c n m)
  then show ?thesis by (auto simp: contract_requirements_def image_iff)
qed

lemma requirements_of_grouped:
  assumes "collect_opt (\<lambda>parent rs.
       if map_option td_kind (an_types an (base_name parent)) \<noteq> Some TK_Interface then Some rs
       else Option.bind (VisibleMembers an parent) (\<lambda>visible.
         Some (fold add_requirement (contract_requirements parent visible) rs))) parents rs = Some rs'"
    and "grouped R rs"
  shows "grouped (R \<union> {r. rq_contract r \<in> set parents \<and> asked an r}) rs'"
  using assms
proof (induction parents arbitrary: R rs)
  case Nil
  then show ?case by simp
next
  case (Cons parent parents)
  let ?owed = "\<lambda>ps. {r. rq_contract r \<in> set ps \<and> asked an r}"
  have split: "?owed (parent # parents) = ?owed [parent] \<union> ?owed parents" by auto
  show ?case
  proof (cases "map_option td_kind (an_types an (base_name parent)) = Some TK_Interface")
    case False
    then have "?owed [parent] = {}" unfolding asked_def by auto
    moreover have "grouped (R \<union> ?owed parents) rs'"
      by (rule Cons.IH [OF _ Cons.prems(2)])
        (use Cons.prems(1) in \<open>simp only: collect_opt.simps if_P [OF False] bind.bind_lunit\<close>)
    ultimately show ?thesis unfolding split by (simp only: Un_empty_left)
  next
    case True
    then have no: "\<not> map_option td_kind (an_types an (base_name parent)) \<noteq> Some TK_Interface" by simp
    note step = Cons.prems(1) [unfolded collect_opt.simps if_not_P [OF no]]
    obtain visible where v: "VisibleMembers an parent = Some visible"
      using step by (cases "VisibleMembers an parent") simp_all
    have "?owed [parent] = set (contract_requirements parent visible)"
    proof (rule set_eqI)
      fix r
      show "r \<in> ?owed [parent] \<longleftrightarrow> r \<in> set (contract_requirements parent visible)"
        unfolding contract_requirements_asked asked_def using True v by auto
    qed
    moreover have "grouped (R \<union> set (contract_requirements parent visible) \<union> ?owed parents) rs'"
      by (rule Cons.IH [OF _ grouped_fold [OF Cons.prems(2)]])
        (use step in \<open>simp only: v bind.bind_lunit\<close>)
    ultimately show ?thesis unfolding split by (simp only: Un_assoc)
  qed
qed

lemma requirements_of_owed:
  assumes "requirements_of an (td_parents definition) = Some rs"
  shows "grouped {r. owed an definition r} rs"
proof -
  have "grouped {} []" by (simp add: grouped_def entry_def)
  from requirements_of_grouped [OF assms [unfolded requirements_of_def] this] show ?thesis
    by (simp add: owed_def)
qed

definition free_of_separator :: "requirement \<Rightarrow> bool" where
  "free_of_separator r \<longleftrightarrow> CHR 0x1F \<notin> set (rq_methodName r) \<and>
     (\<forall>p \<in> set (ms_parameterTypes (rq_signature r)). CHR 0x1F \<notin> set p)"

lemma key_of_inj:
  assumes "key_of r = key_of r'" and "free_of_separator r" and "free_of_separator r'"
  shows "rq_methodName r = rq_methodName r' \<and>
    ms_parameterTypes (rq_signature r) = ms_parameterTypes (rq_signature r')"
  using assms by (intro separated_inj [of "CHR 0x1F"]) (simp_all add: requirementKey_def free_of_separator_def)

lemma collect_opt_empty:
  "collect_opt (\<lambda>(k, x) ds. map_option (\<lambda>d. ds @ d) (f x)) xs ds = Some [] \<Longrightarrow>
     ds = [] \<and> (\<forall>(k, x) \<in> set xs. f x = Some [])"
proof (induction xs arbitrary: ds)
  case (Cons x xs)
  obtain k y where x: "x = (k, y)" by (cases x)
  from Cons.prems x obtain d where d: "f y = Some d"
      "collect_opt (\<lambda>(k, x) ds. map_option (\<lambda>d. ds @ d) (f x)) xs (ds @ d) = Some []"
    by (cases "f y") auto
  from Cons.IH [OF d(2)] d(1) x show ?case by simp
qed simp

definition implements :: "member_signature \<Rightarrow> member_signature \<Rightarrow> bool" where
  "implements implementation required \<longleftrightarrow> ms_type implementation = ms_type required \<and>
     ms_isConst implementation = ms_isConst required \<and> ms_access implementation = AL_Public"

lemma contract_diagnostics_empty:
  "contract_diagnostics className implementation r = [] \<longleftrightarrow> implements implementation (rq_signature r)"
  by (simp add: contract_diagnostics_def implements_def Let_def)

text \<open>The one default body of a group of requirements, which has the type that they ask for.\<close>

definition default_for :: "symbol_table \<Rightarrow> (SymbolId \<rightharpoonup> stmt) \<Rightarrow> requirement set \<Rightarrow> SymbolId \<Rightarrow> bool" where
  "default_for table declarations contracts i \<longleftrightarrow>
     {ms_symbol (rq_signature r) |r. r \<in> contracts \<and> has_body declarations (ms_symbol (rq_signature r))} = {i} \<and>
     (\<forall>s. Get table i = Some s \<longrightarrow> (\<forall>r \<in> contracts. sy_type s = ms_type (rq_signature r) \<and>
        sy_isConst s = ms_isConst (rq_signature r)))"

lemma missing_diagnostics_empty:
  assumes "missing_diagnostics className table declarations contracts = []"
  shows "\<exists>i. default_for table declarations (set contracts) i"
proof -
  from assms obtain i where i: "default_methods declarations contracts = [i]"
    by (auto simp: missing_diagnostics_def split: list.splits)
  have "set (default_methods declarations contracts) =
      {ms_symbol (rq_signature r) |r. r \<in> set contracts \<and> has_body declarations (ms_symbol (rq_signature r))}"
    by (auto simp: default_methods_def)
  moreover have "Get table i = Some s \<Longrightarrow> r \<in> set contracts \<Longrightarrow>
      sy_type s = ms_type (rq_signature r) \<and> sy_isConst s = ms_isConst (rq_signature r)" for s r
    using assms i by (auto simp: missing_diagnostics_def split: if_splits)
  ultimately have "default_for table declarations (set contracts) i"
    using i by (simp add: default_for_def)
  then show ?thesis ..
qed

lemma check_contracts_empty:
  assumes "check_contracts an table declarations className contracts = Some []" and "r \<in> set contracts"
    and "\<forall>c \<in> set contracts. rq_methodName c = rq_methodName r \<and>
      ms_parameterTypes (rq_signature c) = ms_parameterTypes (rq_signature r)"
  shows "(\<exists>implementation.
        FindConcreteMethod an className (rq_methodName r) (ms_parameterTypes (rq_signature r)) =
          Some (Some implementation) \<and> implements implementation (rq_signature r)) \<or>
     FindConcreteMethod an className (rq_methodName r) (ms_parameterTypes (rq_signature r)) = Some None \<and>
     (\<exists>i. default_for table declarations (set contracts) i)"
proof -
  from assms(2) have "hd contracts \<in> set contracts" by (cases contracts) auto
  with assms(3) have same: "rq_methodName (hd contracts) = rq_methodName r"
      "ms_parameterTypes (rq_signature (hd contracts)) = ms_parameterTypes (rq_signature r)" by auto
  show ?thesis
    using assms(1,2) missing_diagnostics_empty
    by (auto simp: check_contracts_def same contract_diagnostics_empty split: option.splits)
qed

text \<open>
  The methods of a class, its own and those of the classes among its parents, without regard to the order in
  which they are searched: methods of objects with a given name and given parameter types.
\<close>

inductive class_method :: "analyzer \<Rightarrow> string \<Rightarrow> string \<Rightarrow> string list \<Rightarrow> member_signature \<Rightarrow> bool" for an where
  own_method: "an_types an owner = Some d \<Longrightarrow> td_kind d = TK_Class \<Longrightarrow> map_of (td_members d) name = Some overloads \<Longrightarrow>
    m \<in> set overloads \<Longrightarrow> ms_kind m = SK_Method \<Longrightarrow> \<not> ms_isStatic m \<Longrightarrow> ms_parameterTypes m = parameterTypes \<Longrightarrow>
    class_method an owner name parameterTypes m"
| base_method: "an_types an owner = Some d \<Longrightarrow> td_kind d = TK_Class \<Longrightarrow> parent \<in> set (td_parents d) \<Longrightarrow>
    class_method an parent name parameterTypes m \<Longrightarrow> class_method an owner name parameterTypes m"

lemma first_opt_Some: "first_opt f xs = Some (Some y) \<Longrightarrow> \<exists>x \<in> set xs. f x = Some (Some y)"
  by (induction xs) (auto split: Option.bind_splits if_splits)

lemma first_opt_None: "first_opt f xs = Some None \<Longrightarrow> x \<in> set xs \<Longrightarrow> f x = Some None"
  by (induction xs) (auto split: Option.bind_splits if_splits)

lemma concrete_here_Some:
  assumes "concrete_here d name parameterTypes = Some m" and "an_types an owner = Some d" and "td_kind d = TK_Class"
  shows "class_method an owner name parameterTypes m"
  using assms by (auto simp: concrete_here_def find_Some_iff entry_def split: option.splits intro!: own_method)

lemma FindConcreteMethod_sound:
  assumes "FindConcreteMethod an owner name parameterTypes = Some r"
  shows "\<forall>m. r = Some m \<longrightarrow> class_method an owner name parameterTypes m"
  using assms
proof (rule FindConcreteMethod.raw_induct [where P = "\<lambda>an owner name parameterTypes r. \<forall>m. r = Some m \<longrightarrow> class_method an owner name parameterTypes m", rotated])
  fix f an owner name parameterTypes r
  assume ih: "\<And>an owner name parameterTypes r. f an owner name parameterTypes = Some r \<Longrightarrow>
      \<forall>m. r = Some m \<longrightarrow> class_method an owner name parameterTypes m"
    and step: "(case an_types an owner of
        None \<Rightarrow> Some None
      | Some definition \<Rightarrow>
          if td_kind definition \<noteq> TK_Class then Some None
          else if concrete_here definition name parameterTypes \<noteq> None
            then Some (concrete_here definition name parameterTypes)
          else first_opt (\<lambda>parent.
              if map_option td_kind (an_types an parent) = Some TK_Class
              then f an parent name parameterTypes else Some None)
            (td_parents definition)) = Some r"
  show "\<forall>m. r = Some m \<longrightarrow> class_method an owner name parameterTypes m"
  proof (intro allI impI)
    fix m assume r: "r = Some m"
    from step r obtain d where d: "an_types an owner = Some d" "td_kind d = TK_Class"
      by (auto split: option.splits if_splits)
    show "class_method an owner name parameterTypes m"
    proof (cases "concrete_here d name parameterTypes")
      case None
      with step r d have "first_opt (\<lambda>parent. if map_option td_kind (an_types an parent) = Some TK_Class
          then f an parent name parameterTypes else Some None) (td_parents d) = Some (Some m)" by simp
      from first_opt_Some [OF this] obtain parent where "parent \<in> set (td_parents d)" "f an parent name parameterTypes = Some (Some m)"
        by (auto split: if_splits)
      then show ?thesis using ih d by (blast intro: base_method)
    next
      case (Some m')
      then show ?thesis using step r d concrete_here_Some [OF _ d] by simp
    qed
  qed
qed

lemma FindConcreteMethod_complete:
  "class_method an owner name parameterTypes m \<Longrightarrow> FindConcreteMethod an owner name parameterTypes \<noteq> Some None"
proof (induction rule: class_method.induct)
  case (own_method owner d name overloads m parameterTypes)
  then have "concrete_here d name parameterTypes \<noteq> None"
    by (auto simp: concrete_here_def find_None_iff entry_def)
  then show ?case using own_method(1,2) by (subst FindConcreteMethod.simps) simp
next
  case (base_method owner d parent name parameterTypes m)
  from base_method(4) obtain d' where "an_types an parent = Some d'" "td_kind d' = TK_Class"
    by (cases rule: class_method.cases) auto
  moreover have "\<not> first_opt (\<lambda>parent. if map_option td_kind (an_types an parent) = Some TK_Class
      then FindConcreteMethod an parent name parameterTypes else Some None) (td_parents d) = Some None"
    using base_method(3,5) calculation first_opt_None [where xs = "td_parents d" and x = parent] by fastforce
  ultimately show ?case using base_method(1,2) by (subst FindConcreteMethod.simps) simp
qed

text \<open>
  C9. A class whose interfaces the analyzer checks without a diagnostic implements them: for every
  method that one of its interfaces asks for, the class or a base class has a public method of objects with
  that name, those parameter types, that result and the same constness; or else no class among
  them has a method with that name and those parameter types, exactly one of the interfaces
  that ask for it gives it a body, and that body has the result and the constness that each of
  them asks for. The keys that group the methods separate names by the character 0x1F, which no
  name has.
\<close>

theorem accepted_class_implements_interfaces:
  assumes "an_types an className = Some definition"
    and "ValidateInterfaceImplementation an table declarations className = Some []"
    and "owed an definition r"
    and "\<forall>c. owed an definition c \<longrightarrow> free_of_separator c"
  shows "(\<exists>m. class_method an className (rq_methodName r) (ms_parameterTypes (rq_signature r)) m \<and>
        implements m (rq_signature r)) \<or>
     (\<nexists>m. class_method an className (rq_methodName r) (ms_parameterTypes (rq_signature r)) m) \<and>
     (\<exists>i. default_for table declarations {c. owed an definition c \<and>
        rq_methodName c = rq_methodName r \<and>
        ms_parameterTypes (rq_signature c) = ms_parameterTypes (rq_signature r)} i)"
proof -
  from assms(1,2) obtain rs where rs: "requirements_of an (td_parents definition) = Some rs"
      "collect_opt (\<lambda>(key, contracts) ds.
         map_option (\<lambda>d. ds @ d) (check_contracts an table declarations className contracts)) rs [] = Some []"
    by (auto simp: ValidateInterfaceImplementation_def split: Option.bind_splits)
  note g = requirements_of_owed [OF rs(1), unfolded grouped_def]
  let ?contracts = "entry rs (key_of r)"
  have set: "set ?contracts = {c. owed an definition c \<and> key_of c = key_of r}" using g by simp
  also have "\<dots> = {c. owed an definition c \<and> rq_methodName c = rq_methodName r \<and>
      ms_parameterTypes (rq_signature c) = ms_parameterTypes (rq_signature r)}"
    using key_of_inj assms(3,4) by (auto simp: requirementKey_def)
  finally have contracts: "set ?contracts = \<dots>" .
  have r: "r \<in> set ?contracts" using set assms(3) by simp
  then have "(key_of r, ?contracts) \<in> set rs"
    by (auto simp: entry_def split: option.splits dest: map_of_SomeD)
  then have "check_contracts an table declarations className ?contracts = Some []"
    using collect_opt_empty [OF rs(2)] by blast
  from check_contracts_empty [OF this r] contracts show ?thesis
    using FindConcreteMethod_sound FindConcreteMethod_complete by (simp, metis)
qed

definition area :: member_signature where
  "area = new_member SK_Method ''float'' [''int32''] 0"

definition interface_with :: "string \<Rightarrow> member_signature \<Rightarrow> type_definition" where
  "interface_with name m = empty_definition\<lparr>td_kind := TK_Interface, td_members := [(name, [m])]\<rparr>"

definition shapes :: analyzer where
  "shapes = context_of [(''Shape'', interface_with ''area'' area),
     (''Circle'', (class_named [''Shape''])\<lparr>td_members := [(''area'', [area])]\<rparr>)]"

lemma shapes_visible:
  "VisibleMembers shapes ''Shape'' = Some [(''area'', [area])]"
  "ValidateInterfaceImplementation shapes Reset Map.empty ''Circle'' = Some []"
  "FindConcreteMethod shapes ''Circle'' ''area'' [''int32''] = Some (Some area)"
  by code_simp+

lemma shapes_owed:
  "owed shapes ((class_named [''Shape''])\<lparr>td_members := [(''area'', [area])]\<rparr>) r \<longleftrightarrow>
     r = \<lparr>rq_contract = ''Shape'', rq_methodName = ''area'', rq_signature = area\<rparr>"
proof -
  have "map_option td_kind (an_types shapes (base_name ''Shape'')) = Some TK_Interface" by code_simp
  moreover have "ms_kind area = SK_Method" "\<not> ms_isStatic area" by (simp_all add: area_def new_member_def)
  ultimately show ?thesis
    by (cases r) (auto simp: owed_def asked_def class_named_def shapes_visible)
qed

theorem accepted_class_implements_interfaces_witness:
  "owed shapes ((class_named [''Shape''])\<lparr>td_members := [(''area'', [area])]\<rparr>)
     \<lparr>rq_contract = ''Shape'', rq_methodName = ''area'', rq_signature = area\<rparr> \<and>
   (\<exists>m. class_method shapes ''Circle'' ''area'' [''int32''] m \<and> implements m area)"
proof -
  let ?d = "(class_named [''Shape''])\<lparr>td_members := [(''area'', [area])]\<rparr>"
  let ?r = "\<lparr>rq_contract = ''Shape'', rq_methodName = ''area'', rq_signature = area\<rparr>"
  have d: "an_types shapes ''Circle'' = Some ?d" by (simp add: shapes_def context_of_def)
  have "free_of_separator ?r" by code_simp
  then have sep: "\<forall>c. owed shapes ?d c \<longrightarrow> free_of_separator c" by (simp only: shapes_owed simp_thms)
  have o: "owed shapes ?d ?r" by (simp only: shapes_owed)
  have p: "ms_parameterTypes area = [''int32'']" by (simp add: area_def new_member_def)
  have "class_method shapes ''Circle'' ''area'' [''int32''] area"
    using FindConcreteMethod_sound [OF shapes_visible(3)] by simp
  with accepted_class_implements_interfaces [OF d shapes_visible(2) o sep] o show ?thesis by (auto simp: p)
qed

text \<open>
  \<open>FindConcreteMethod\<close> looks a base class up under the name it is written with, so it finds
  nothing in an instance of a generic class: a class that inherits a method from \<open>Base<int32>\<close>
  shows the method, but is said not to implement the interface that asks for it.
\<close>

definition generic_base :: analyzer where
  "generic_base = context_of [(''Shape'', interface_with ''area'' area),
     (''Base'', (class_named [])\<lparr>td_genericParameters := [''T''], td_members := [(''area'', [area])]\<rparr>),
     (''Circle'', class_named [''Base<int32>'', ''Shape''])]"

lemma method_of_generic_base_is_missed:
  "map_option (map (fst \<circ> snd)) (ValidateInterfaceImplementation generic_base Reset Map.empty ''Circle'') =
     Some [''E_INTERFACE_METHOD_MISSING'']"
  "map_option (map fst) (VisibleMembers generic_base ''Base<int32>'') = Some [''area'']"
  by code_simp+

text \<open>The test of an imported namespace compares the ends of the names without a dot between them.\<close>

lemma import_opens_other_namespace:
  "extension_visible ((context_of [])\<lparr>importedNamespaces := [''FooMath'']\<rparr>) ''Math''"
  by code_simp

end
