(* ===== verification/Scheduler.thy ===== *)
theory Scheduler
  imports Prelude
begin

text \<open>
  The task scheduler of the runtime (\<^verbatim>\<open>Absolute-Runtime/src/tasks.cpp\<close>): the run queues of the
  workers, with a lane for each role at each of seven priorities, the choice of the next work by
  smooth weighted round robin, stealing, timers, and the operations that move a task between its
  states. A function of the model is what the code does while it holds a mutex; the order in which
  threads get there is the step relation of theory \<open>Task_Lifecycle\<close>. Tasks are named by numbers, in the
  place of addresses. The result \<open>None\<close> is a call of \<open>std::abort\<close> or a use of a deleted task.
  The time is an argument, in nanoseconds; affinity of threads and the switching of stacks are not
  modelled.
\<close>

section \<open>Tasks\<close>

datatype task_state = Pending | Runnable | Running | Suspending | Suspended | Done

record task =
  tk_context :: nat
  tk_entry :: nat
  tk_core :: int
  tk_priority :: int
  tk_ownerWorker :: int
  tk_role :: string
  tk_fiberCreated :: bool
  tk_completionWaiters :: "nat list"
  tk_errorHandle :: u64
  tk_errorType :: u64
  tk_errorTypeName :: string
  tk_errorMessage :: string
  tk_state :: task_state
  tk_control :: nat
  tk_queuedAt :: int
  tk_suspendedAt :: int
  tk_suspensionActive :: bool
  tk_wakePending :: bool
  tk_finished :: bool
  tk_done :: bool

definition new_task :: "nat \<Rightarrow> nat \<Rightarrow> task" where
  "new_task context control =
     \<lparr>tk_context = context, tk_entry = 0, tk_core = -1, tk_priority = 0, tk_ownerWorker = -1,
      tk_role = [], tk_fiberCreated = False, tk_completionWaiters = [], tk_errorHandle = 0,
      tk_errorType = 0, tk_errorTypeName = [], tk_errorMessage = [], tk_state = Pending,
      tk_control = control, tk_queuedAt = 0, tk_suspendedAt = 0, tk_suspensionActive = False,
      tk_wakePending = False, tk_finished = False, tk_done = False\<rparr>"

record work =
  wk_task :: nat
  wk_entry :: nat
  wk_core :: int
  wk_priority :: int
  wk_role :: string

section \<open>Run queues\<close>

record lane_set =
  ls_lanes :: "(string \<rightharpoonup> work list) list"
  ls_readyRoles :: "string list list"
  ls_counts :: "nat list"

record worker_queue =
  wq_ready :: lane_set
  wq_pinned :: lane_set
  wq_localCredits :: "int list"
  wq_stealCredits :: "int list"
  wq_takePinnedNext :: "bool list"

definition no_lanes :: lane_set where
  "no_lanes = \<lparr>ls_lanes = replicate 7 Map.empty, ls_readyRoles = replicate 7 [], ls_counts = replicate 7 0\<rparr>"

definition new_queue :: worker_queue where
  "new_queue = \<lparr>wq_ready = no_lanes, wq_pinned = no_lanes, wq_localCredits = replicate 7 0,
     wq_stealCredits = replicate 7 0, wq_takePinnedNext = replicate 7 False\<rparr>"

definition priorityWeights :: "int list" where
  "priorityWeights = [1, 2, 3, 4, 6, 8, 12]"

text \<open>
  The loop of \<open>ChoosePriorityLocked\<close>, over the credits, the weight of the active priorities, the
  best credit and the priority selected so far.
\<close>

type_synonym choice_state = "int list \<times> int \<times> int \<times> int"

definition choose_step :: "(nat \<Rightarrow> bool) \<Rightarrow> nat \<Rightarrow> choice_state \<Rightarrow> choice_state" where
  "choose_step active i = (\<lambda>(credits, activeWeight, bestCredit, selected).
     if \<not> active i then (credits[i := 0], activeWeight, bestCredit, selected)
     else
       (let credit = credits ! i + priorityWeights ! i in
        if credit > bestCredit \<or> (credit = bestCredit \<and> int i > selected)
        then (credits[i := credit], activeWeight + priorityWeights ! i, credit, int i)
        else (credits[i := credit], activeWeight + priorityWeights ! i, bestCredit, selected)))"

definition ChoosePriority :: "(nat \<Rightarrow> bool) \<Rightarrow> int list \<Rightarrow> int \<times> int list" where
  "ChoosePriority active credits =
     (case fold (choose_step active) [0..<7] (credits, 0, - (2 ^ 63), -1) of
        (credits', activeWeight, bestCredit, selected) \<Rightarrow>
          if 0 \<le> selected
          then (selected, credits'[nat selected := credits' ! nat selected - activeWeight])
          else (selected, credits'))"

text \<open>Whether there is work, and which: the inner option is the result, the outer one an abort.\<close>

definition TakeLane :: "nat \<Rightarrow> lane_set \<Rightarrow> (work option \<times> lane_set) option" where
  "TakeLane bucket l =
     (if ls_counts l ! bucket = 0 then Some (None, l)
      else case ls_readyRoles l ! bucket of
        [] \<Rightarrow> None
      | role # roles \<Rightarrow>
          (case (ls_lanes l ! bucket) role of
             None \<Rightarrow> None
           | Some [] \<Rightarrow> None
           | Some (w # rest) \<Rightarrow>
               Some (Some w, l\<lparr>
                 ls_lanes := (ls_lanes l)[bucket :=
                   if rest = [] then (ls_lanes l ! bucket)(role := None)
                   else (ls_lanes l ! bucket)(role \<mapsto> rest)],
                 ls_readyRoles := (ls_readyRoles l)[bucket := if rest = [] then roles else roles @ [role]],
                 ls_counts := (ls_counts l)[bucket := ls_counts l ! bucket - 1]\<rparr>)))"

definition TakeLocal :: "worker_queue \<Rightarrow> (work option \<times> worker_queue) option" where
  "TakeLocal q =
     (case ChoosePriority (\<lambda>i. 0 < ls_counts (wq_ready q) ! i \<or> 0 < ls_counts (wq_pinned q) ! i)
        (wq_localCredits q) of
       (selected, credits) \<Rightarrow>
         if selected < 0 then Some (None, q\<lparr>wq_localCredits := credits\<rparr>)
         else
           (let bucket = nat selected;
                hasReady = (0 < ls_counts (wq_ready q) ! bucket);
                hasPinned = (0 < ls_counts (wq_pinned q) ! bucket);
                usePinned = (hasPinned \<and> (\<not> hasReady \<or> wq_takePinnedNext q ! bucket));
                q' = q\<lparr>wq_localCredits := credits,
                  wq_takePinnedNext := (if hasReady \<and> hasPinned
                    then (wq_takePinnedNext q)[bucket := \<not> usePinned] else wq_takePinnedNext q)\<rparr>
            in if usePinned
               then map_option (\<lambda>(w, l). (w, q'\<lparr>wq_pinned := l\<rparr>)) (TakeLane bucket (wq_pinned q))
               else map_option (\<lambda>(w, l). (w, q'\<lparr>wq_ready := l\<rparr>)) (TakeLane bucket (wq_ready q))))"

definition TakeStealable :: "worker_queue \<Rightarrow> (work option \<times> worker_queue) option" where
  "TakeStealable q =
     (case ChoosePriority (\<lambda>i. 0 < ls_counts (wq_ready q) ! i) (wq_stealCredits q) of
       (selected, credits) \<Rightarrow>
         if selected < 0 then Some (None, q\<lparr>wq_stealCredits := credits\<rparr>)
         else map_option (\<lambda>(w, l). (w, q\<lparr>wq_stealCredits := credits, wq_ready := l\<rparr>))
           (TakeLane (nat selected) (wq_ready q)))"

definition EnqueueLane :: "work \<Rightarrow> lane_set \<Rightarrow> lane_set" where
  "EnqueueLane w l =
     (let bucket = nat (wk_priority w + 3);
          role = wk_role w;
          lane = (case (ls_lanes l ! bucket) role of None \<Rightarrow> [] | Some ws \<Rightarrow> ws)
      in l\<lparr>ls_lanes := (ls_lanes l)[bucket := (ls_lanes l ! bucket)(role \<mapsto> lane @ [w])],
           ls_readyRoles := (if lane = []
             then (ls_readyRoles l)[bucket := ls_readyRoles l ! bucket @ [role]] else ls_readyRoles l),
           ls_counts := (ls_counts l)[bucket := ls_counts l ! bucket + 1]\<rparr>)"

section \<open>The scheduler\<close>

text \<open>A timer is its deadline, its number and its task; the list is in the order of the queue.\<close>

type_synonym timer = "int \<times> u64 \<times> nat"

record scheduler =
  sc_queues :: "worker_queue list"
  sc_stealCursors :: "nat list"
  sc_timers :: "timer list"
  sc_queued :: nat
  sc_nextSubmissionQueue :: u64
  sc_nextTimerSequence :: u64
  sc_runnableTasks :: int
  sc_suspendedTasks :: int
  sc_completedTasks :: u64
  sc_queueSamples :: u64
  sc_queueLatencyNanoseconds :: u64
  sc_maximumQueueLatencyNanoseconds :: u64
  sc_workerBusyNanoseconds :: u64
  sc_successfulSteals :: u64
  sc_wakeUps :: u64
  sc_blockedNanoseconds :: u64
  sc_starvationEvents :: u64
  sc_stopping :: bool
  sc_tasks :: "nat \<rightharpoonup> task"

definition new_scheduler :: "nat \<Rightarrow> scheduler" where
  "new_scheduler count =
     \<lparr>sc_queues = replicate count new_queue, sc_stealCursors = map (\<lambda>i. (i + 1) mod count) [0..<count],
      sc_timers = [], sc_queued = 0, sc_nextSubmissionQueue = 0, sc_nextTimerSequence = 0,
      sc_runnableTasks = 0, sc_suspendedTasks = 0, sc_completedTasks = 0, sc_queueSamples = 0,
      sc_queueLatencyNanoseconds = 0, sc_maximumQueueLatencyNanoseconds = 0,
      sc_workerBusyNanoseconds = 0, sc_successfulSteals = 0, sc_wakeUps = 0,
      sc_blockedNanoseconds = 0, sc_starvationEvents = 0, sc_stopping = False, sc_tasks = Map.empty\<rparr>"

definition starvationThresholdNanoseconds :: u64 where
  "starvationThresholdNanoseconds = 100000000"

definition ElapsedNanoseconds :: "int \<Rightarrow> int \<Rightarrow> u64" where
  "ElapsedNanoseconds started finished = (if finished \<le> started then 0 else of_int (finished - started))"

definition ConsumeQueued :: "int \<Rightarrow> nat \<Rightarrow> scheduler \<Rightarrow> scheduler option" where
  "ConsumeQueued now t s =
     (if sc_queued s = 0 then None
      else case sc_tasks s t of
        None \<Rightarrow> None
      | Some task \<Rightarrow>
          (let latency = ElapsedNanoseconds (tk_queuedAt task) now in
           Some (s\<lparr>sc_queued := sc_queued s - 1, sc_runnableTasks := sc_runnableTasks s - 1,
             sc_queueSamples := sc_queueSamples s + 1,
             sc_queueLatencyNanoseconds := sc_queueLatencyNanoseconds s + latency,
             sc_maximumQueueLatencyNanoseconds := max (sc_maximumQueueLatencyNanoseconds s) latency,
             sc_starvationEvents := sc_starvationEvents s +
               (if starvationThresholdNanoseconds \<le> latency then 1 else 0)\<rparr>)))"

text \<open>Taking from the queue with a given index, and counting what was taken.\<close>

definition take_from :: "int \<Rightarrow> (worker_queue \<Rightarrow> (work option \<times> worker_queue) option) \<Rightarrow> nat \<Rightarrow>
    scheduler \<Rightarrow> (work option \<times> scheduler) option" where
  "take_from now take_work i s =
     Option.bind (take_work (sc_queues s ! i)) (\<lambda>(w, q).
       let s' = s\<lparr>sc_queues := (sc_queues s)[i := q]\<rparr> in
       case w of
         None \<Rightarrow> Some (None, s')
       | Some w' \<Rightarrow> map_option (\<lambda>s''. (Some w', s'')) (ConsumeQueued now (wk_task w') s'))"

text \<open>The loop over the other queues, with the number of checks that are left and the next victim.\<close>

fun steal_loop :: "int \<Rightarrow> nat \<Rightarrow> nat \<Rightarrow> nat \<Rightarrow> scheduler \<Rightarrow> (work option \<times> scheduler) option" where
  "steal_loop now localIndex 0 victim s =
     Some (None, s\<lparr>sc_stealCursors := (sc_stealCursors s)[localIndex := victim]\<rparr>)"
| "steal_loop now localIndex (Suc left) victim s =
     (let count = length (sc_queues s) in
      if victim = localIndex then steal_loop now localIndex left ((victim + 1) mod count) s
      else case take_from now TakeStealable victim s of
        None \<Rightarrow> None
      | Some (Some w, s') \<Rightarrow>
          Some (Some w, s'\<lparr>sc_stealCursors := (sc_stealCursors s')[localIndex := (victim + 1) mod count],
            sc_successfulSteals := sc_successfulSteals s' + 1\<rparr>)
      | Some (None, s') \<Rightarrow> steal_loop now localIndex left ((victim + 1) mod count) s')"

definition Take :: "int \<Rightarrow> nat \<Rightarrow> scheduler \<Rightarrow> (work option \<times> scheduler) option" where
  "Take now workerIndex s =
     (if sc_queued s = 0 then Some (None, s)
      else case take_from now TakeLocal workerIndex s of
        None \<Rightarrow> None
      | Some (Some w, s') \<Rightarrow> Some (Some w, s')
      | Some (None, s') \<Rightarrow>
          (let count = length (sc_queues s') in
           if count < 2 then Some (None, s')
           else steal_loop now workerIndex count (sc_stealCursors s' ! workerIndex mod count) s'))"

text \<open>
  Adding work to a queue: the task notes the time, and the work goes to the ready or to the pinned
  lanes.
\<close>

definition set_task :: "nat \<Rightarrow> task \<Rightarrow> scheduler \<Rightarrow> scheduler" where
  "set_task t task s = s\<lparr>sc_tasks := (sc_tasks s)(t \<mapsto> task)\<rparr>"

definition enqueue_work :: "int \<Rightarrow> bool \<Rightarrow> nat \<Rightarrow> work \<Rightarrow> scheduler \<Rightarrow> scheduler" where
  "enqueue_work now pinned i w s =
     (let q = sc_queues s ! i;
          q' = (if pinned then q\<lparr>wq_pinned := EnqueueLane w (wq_pinned q)\<rparr>
                else q\<lparr>wq_ready := EnqueueLane w (wq_ready q)\<rparr>)
      in s\<lparr>sc_queues := (sc_queues s)[i := q'], sc_queued := sc_queued s + 1,
           sc_runnableTasks := sc_runnableTasks s + 1,
           sc_tasks := (sc_tasks s)(wk_task w := map_option (\<lambda>k. k\<lparr>tk_queuedAt := now\<rparr>) (sc_tasks s (wk_task w)))\<rparr>)"

text \<open>The worker that runs the caller, or -1 on any other thread, chooses the queue.\<close>

definition submission_queue :: "int \<Rightarrow> scheduler \<Rightarrow> nat" where
  "submission_queue worker s =
     (if 0 \<le> worker then nat worker
      else unat (sc_nextSubmissionQueue s) mod length (sc_queues s))"

definition task_work :: "nat \<Rightarrow> task \<Rightarrow> work" where
  "task_work t task = \<lparr>wk_task = t, wk_entry = tk_entry task, wk_core = tk_core task,
     wk_priority = tk_priority task, wk_role = tk_role task\<rparr>"

definition Enqueue :: "int \<Rightarrow> int \<Rightarrow> nat \<Rightarrow> scheduler \<Rightarrow> scheduler option" where
  "Enqueue now worker t s =
     (case sc_tasks s t of
        None \<Rightarrow> None
      | Some task \<Rightarrow>
          if 0 \<le> tk_ownerWorker task
          then Some (enqueue_work now True (nat (tk_ownerWorker task)) (task_work t task) s)
          else Some (enqueue_work now False (submission_queue worker s) (task_work t task)
            (s\<lparr>sc_nextSubmissionQueue := sc_nextSubmissionQueue s + 1\<rparr>)))"

definition Submit :: "int \<Rightarrow> int \<Rightarrow> nat \<Rightarrow> nat \<Rightarrow> int \<Rightarrow> int \<Rightarrow> string \<Rightarrow> scheduler \<Rightarrow> scheduler option" where
  "Submit now worker t entry core priority role s =
     (case sc_tasks s t of
        None \<Rightarrow> None
      | Some task \<Rightarrow>
          (let task' = task\<lparr>tk_entry := entry, tk_core := core, tk_priority := priority, tk_role := role,
                 tk_state := Runnable\<rparr> in
           Some (enqueue_work now False (submission_queue worker s) (task_work t task')
             (set_task t task' (s\<lparr>sc_nextSubmissionQueue := sc_nextSubmissionQueue s + 1\<rparr>)))))"

definition spawn :: "int \<Rightarrow> int \<Rightarrow> nat \<Rightarrow> nat \<Rightarrow> nat \<Rightarrow> nat \<Rightarrow> int \<Rightarrow> int \<Rightarrow> string \<Rightarrow> scheduler \<Rightarrow>
    scheduler option" where
  "spawn now worker t control entry context core priority role s =
     (if entry = 0 \<or> context = 0 then None
      else if core < -1 \<or> priority < -3 \<or> priority > 3 then None
      else Submit now worker t entry core priority role (set_task t (new_task context control) s))"

definition Wake :: "int \<Rightarrow> int \<Rightarrow> nat \<Rightarrow> scheduler \<Rightarrow> scheduler option" where
  "Wake now worker t s =
     (case sc_tasks s t of
        None \<Rightarrow> None
      | Some task \<Rightarrow>
          if tk_state task = Suspending then
            (if tk_wakePending task then Some s
             else Some (set_task t (task\<lparr>tk_wakePending := True\<rparr>) (s\<lparr>sc_wakeUps := sc_wakeUps s + 1\<rparr>)))
          else if tk_state task = Suspended then
            (if \<not> tk_suspensionActive task then None
             else Enqueue now worker t
               (set_task t (task\<lparr>tk_suspensionActive := False, tk_state := Runnable\<rparr>)
                 (s\<lparr>sc_wakeUps := sc_wakeUps s + 1, sc_suspendedTasks := sc_suspendedTasks s - 1,
                    sc_blockedNanoseconds := sc_blockedNanoseconds s +
                      ElapsedNanoseconds (tk_suspendedAt task) now\<rparr>)))
          else Some s)"

definition Resume :: "int \<Rightarrow> int \<Rightarrow> nat option \<Rightarrow> scheduler \<Rightarrow> scheduler option" where
  "Resume now worker t s = (case t of None \<Rightarrow> Some s | Some t' \<Rightarrow> Wake now worker t' s)"

text \<open>Timers that have run out wake their tasks, the earliest first.\<close>

fun promote :: "int \<Rightarrow> int \<Rightarrow> timer list \<Rightarrow> scheduler \<Rightarrow> scheduler option" where
  "promote now worker [] s = Some (s\<lparr>sc_timers := []\<rparr>)"
| "promote now worker ((deadline, number, t) # rest) s =
     (if deadline \<le> now then Option.bind (Wake now worker t s) (promote now worker rest)
      else Some (s\<lparr>sc_timers := (deadline, number, t) # rest\<rparr>))"

definition PromoteTimers :: "int \<Rightarrow> int \<Rightarrow> scheduler \<Rightarrow> scheduler option" where
  "PromoteTimers now worker s = promote now worker (sc_timers s) s"

definition timer_before :: "timer \<Rightarrow> timer \<Rightarrow> bool" where
  "timer_before = (\<lambda>(d, n, t) (d', n', t'). d < d' \<or> (d = d' \<and> n \<le> n'))"

fun push_timer :: "timer \<Rightarrow> timer list \<Rightarrow> timer list" where
  "push_timer x [] = [x]"
| "push_timer x (y # ys) = (if timer_before y x then y # push_timer x ys else x # y # ys)"

definition PrepareSuspend :: "nat \<Rightarrow> scheduler \<Rightarrow> scheduler option" where
  "PrepareSuspend t s =
     (case sc_tasks s t of
        None \<Rightarrow> None
      | Some task \<Rightarrow>
          if tk_state task \<noteq> Running then None else Some (set_task t (task\<lparr>tk_state := Suspending\<rparr>) s))"

definition SuspendUntil :: "int \<Rightarrow> nat \<Rightarrow> scheduler \<Rightarrow> scheduler option" where
  "SuspendUntil deadline t s =
     map_option (\<lambda>s'. s'\<lparr>sc_timers := push_timer (deadline, sc_nextTimerSequence s', t) (sc_timers s'),
         sc_nextTimerSequence := sc_nextTimerSequence s' + 1\<rparr>)
       (PrepareSuspend t s)"

text \<open>The code of \<open>Execute\<close> before it switches to the fiber of the task.\<close>

definition begin_slice :: "nat \<Rightarrow> work \<Rightarrow> scheduler \<Rightarrow> scheduler option" where
  "begin_slice workerIndex w s =
     (case sc_tasks s (wk_task w) of
        None \<Rightarrow> None
      | Some task \<Rightarrow>
          Some (set_task (wk_task w) (task\<lparr>
            tk_ownerWorker := (if tk_ownerWorker task < 0 then int workerIndex else tk_ownerWorker task),
            tk_fiberCreated := True, tk_state := Running\<rparr>) s))"

text \<open>
  The code of \<open>Execute\<close> after the fiber has switched back: the tasks to be resumed when the task has
  finished, or whether it has to be enqueued again.
\<close>

datatype slice_end = Notify "nat list" | Requeue | Rest

definition end_slice :: "int \<Rightarrow> work \<Rightarrow> scheduler \<Rightarrow> (slice_end \<times> scheduler) option" where
  "end_slice now w s =
     (case sc_tasks s (wk_task w) of
        None \<Rightarrow> None
      | Some task \<Rightarrow>
          if tk_finished task then
            Some (Notify (tk_completionWaiters task),
              set_task (wk_task w) (task\<lparr>tk_fiberCreated := False, tk_state := Done, tk_done := True,
                  tk_completionWaiters := []\<rparr>)
                (s\<lparr>sc_completedTasks := sc_completedTasks s + 1\<rparr>))
          else if tk_state task \<noteq> Suspending then None
          else if tk_wakePending task then
            Some (Requeue, set_task (wk_task w) (task\<lparr>tk_wakePending := False, tk_state := Runnable\<rparr>) s)
          else
            Some (Rest, set_task (wk_task w) (task\<lparr>tk_state := Suspended, tk_suspendedAt := now,
                tk_suspensionActive := True\<rparr>)
              (s\<lparr>sc_suspendedTasks := sc_suspendedTasks s + 1\<rparr>)))"

text \<open>
  The end of \<open>TaskMain\<close>: the error that the task leaves behind, if any, with its type and its
  description.
\<close>

definition finish_task :: "nat \<Rightarrow> (u64 \<times> u64 \<times> string \<times> string) option \<Rightarrow> scheduler \<Rightarrow> scheduler option" where
  "finish_task t pending s =
     (case sc_tasks s t of
        None \<Rightarrow> None
      | Some task \<Rightarrow>
          Some (set_task t
            (case pending of
               None \<Rightarrow> task\<lparr>tk_finished := True\<rparr>
             | Some (handle, type, typeName, message) \<Rightarrow>
                 task\<lparr>tk_errorHandle := handle, tk_errorType := type, tk_errorTypeName := typeName,
                      tk_errorMessage := message, tk_finished := True\<rparr>) s))"

text \<open>
  \<open>Wait\<close> in a task: whether the awaited task is done; if it is not, the current task is among its
  waiters and prepared to suspend.
\<close>

definition Wait :: "nat \<Rightarrow> nat \<Rightarrow> scheduler \<Rightarrow> (bool \<times> scheduler) option" where
  "Wait currentTask t s =
     (if currentTask = t then None
      else case sc_tasks s t of
        None \<Rightarrow> None
      | Some task \<Rightarrow>
          if tk_done task then Some (True, s)
          else map_option (\<lambda>s'. (False, s'))
            (PrepareSuspend currentTask
              (set_task t (task\<lparr>tk_completionWaiters := tk_completionWaiters task @ [currentTask]\<rparr>) s)))"

text \<open>What \<open>absolute_task_await\<close> does with a task that is done: its context, and the error it sets.\<close>

definition await_done :: "nat \<Rightarrow> scheduler \<Rightarrow> (nat \<times> (u64 \<times> u64 \<times> string \<times> string) option \<times> scheduler) option" where
  "await_done t s =
     (case sc_tasks s t of
        None \<Rightarrow> None
      | Some task \<Rightarrow>
          Some (tk_context task,
            (if tk_errorHandle task \<noteq> 0
             then Some (tk_errorHandle task, tk_errorType task, tk_errorTypeName task, tk_errorMessage task)
             else None),
            s\<lparr>sc_tasks := (sc_tasks s)(t := None)\<rparr>))"

end
