(* ===== verification/Fair_Choice.thy ===== *)
theory Fair_Choice
  imports Scheduler
begin

text \<open>
  The smooth weighted round robin of the scheduler: whatever the priorities with work are at each
  choice, the credits stay within fixed bounds, and a priority that has work is chosen after a
  bounded number of choices. The bounds are those of a game: each round pours the weights into
  the active priorities and empties the fullest one by what was poured.
\<close>

section \<open>One choice\<close>

abbreviation weight :: "nat \<Rightarrow> int" where
  "weight i \<equiv> priorityWeights ! i"

lemma weights: "i < 7 \<Longrightarrow> 1 \<le> weight i \<and> weight i \<le> 12"
  by (auto simp: priorityWeights_def less_Suc_eq numeral_eq_Suc)

definition active_weight :: "(nat \<Rightarrow> bool) \<Rightarrow> int" where
  "active_weight active = (\<Sum>i\<in>{i. i < 7 \<and> active i}. weight i)"

lemma total_weight: "(\<Sum>i<7. weight i) = 36"
  by (simp add: priorityWeights_def lessThan_Suc numeral_eq_Suc)

lemma active_weight_le: "active_weight active \<le> 36"
proof -
  have "active_weight active \<le> (\<Sum>i<7. weight i)"
    unfolding active_weight_def by (rule sum_mono2) (use weights in \<open>force\<close>)+
  then show ?thesis by (simp add: total_weight)
qed

definition grown :: "(nat \<Rightarrow> bool) \<Rightarrow> int list \<Rightarrow> nat \<Rightarrow> int" where
  "grown active credits i = (if active i then credits ! i + weight i else 0)"

lemma choose_prefix:
  assumes "length credits = 7" and "\<forall>i < 7. - (2 ^ 63) < credits ! i + weight i" and "n \<le> 7"
    and "fold (choose_step active) [0..<n] (credits, 0, - (2 ^ 63), -1) = (cs, aw, best, sel)"
  shows "length cs = 7 \<and> (\<forall>i < n. cs ! i = grown active credits i) \<and>
    (\<forall>i. n \<le> i \<longrightarrow> i < 7 \<longrightarrow> cs ! i = credits ! i) \<and>
    aw = (\<Sum>i\<in>{i. i < n \<and> active i}. weight i) \<and>
    (if \<exists>i < n. active i
     then 0 \<le> sel \<and> nat sel < n \<and> active (nat sel) \<and> best = grown active credits (nat sel) \<and>
       (\<forall>i < n. active i \<longrightarrow> grown active credits i \<le> best)
     else sel = -1 \<and> best = - (2 ^ 63))"
  using assms(3,4)
proof (induction n arbitrary: cs aw best sel)
  case 0
  then show ?case using assms(1) by simp
next
  case (Suc n)
  obtain cs1 aw1 best1 sel1 where f:
      "fold (choose_step active) [0..<n] (credits, 0, - (2 ^ 63), -1) = (cs1, aw1, best1, sel1)"
    by (metis prod_cases4)
  note IH = Suc.IH [OF _ f]
  have step: "choose_step active n (cs1, aw1, best1, sel1) = (cs, aw, best, sel)"
    using Suc.prems(2) f by simp
  have n: "n < 7" "n \<le> 7" using Suc.prems(1) by simp_all
  have old: "length cs1 = 7" "\<forall>i < n. cs1 ! i = grown active credits i"
      "\<forall>i. n \<le> i \<longrightarrow> i < 7 \<longrightarrow> cs1 ! i = credits ! i"
      "aw1 = (\<Sum>i\<in>{i. i < n \<and> active i}. weight i)" using IH [OF n(2)] by blast+
  have choice: "if \<exists>i < n. active i
     then 0 \<le> sel1 \<and> nat sel1 < n \<and> active (nat sel1) \<and> best1 = grown active credits (nat sel1) \<and>
       (\<forall>i < n. active i \<longrightarrow> grown active credits i \<le> best1)
     else sel1 = -1 \<and> best1 = - (2 ^ 63)" using IH [OF n(2)] by blast
  have less: "{i. i < Suc n \<and> active i} =
      (if active n then insert n {i. i < n \<and> active i} else {i. i < n \<and> active i})"
    by (auto simp: less_Suc_eq)
  show ?case
  proof (cases "active n")
    case False
    have r: "cs = cs1[n := 0]" "aw = aw1" "best = best1" "sel = sel1"
      using step False by (auto simp: choose_step_def)
    have ex: "(\<exists>i < Suc n. active i) = (\<exists>i < n. active i)" using False less_Suc_eq by blast
    have "length cs = 7" "\<forall>i < Suc n. cs ! i = grown active credits i"
        "\<forall>i. Suc n \<le> i \<longrightarrow> i < 7 \<longrightarrow> cs ! i = credits ! i"
      using old n False by (auto simp: r less_Suc_eq grown_def)
    moreover have "aw = (\<Sum>i\<in>{i. i < Suc n \<and> active i}. weight i)" using old(4) False by (simp add: r less)
    ultimately show ?thesis using choice False unfolding ex r(3,4)
      by (smt (verit, ccfv_threshold) less_Suc_eq)
  next
    case True
    let ?c = "credits ! n + weight n"
    have g: "grown active credits n = ?c" using True by (simp add: grown_def)
    have lt: "- (2 ^ 63) < ?c" using assms(2) n(1) by blast
    have c: "cs1 ! n = credits ! n" using old(3) n(1) by blast
    have r: "cs = cs1[n := ?c]" "aw = aw1 + weight n"
        "(best, sel) = (if ?c > best1 \<or> (?c = best1 \<and> int n > sel1) then (?c, int n) else (best1, sel1))"
      using step True by (auto simp: choose_step_def c Let_def split: if_splits)
    have "length cs = 7" "\<forall>i < Suc n. cs ! i = grown active credits i"
        "\<forall>i. Suc n \<le> i \<longrightarrow> i < 7 \<longrightarrow> cs ! i = credits ! i"
      using old n g by (auto simp: r less_Suc_eq)
    moreover have "aw = (\<Sum>i\<in>{i. i < Suc n \<and> active i}. weight i)" using old(4) True by (simp add: r less)
    moreover have "0 \<le> sel \<and> nat sel < Suc n \<and> active (nat sel) \<and> best = grown active credits (nat sel) \<and>
       (\<forall>i < Suc n. active i \<longrightarrow> grown active credits i \<le> best)"
    proof (cases "\<exists>i < n. active i")
      case False
      then have "best = ?c" "sel = int n" using choice r(3) lt by auto
      with False True g show ?thesis by (auto simp: less_Suc_eq)
    next
      case ex: True
      show ?thesis
      proof (cases "?c > best1 \<or> (?c = best1 \<and> int n > sel1)")
        case True
        then have "best = ?c" "sel = int n" using r(3) by auto
        with ex choice True g \<open>active n\<close> show ?thesis by (auto simp: less_Suc_eq)
      next
        case False
        then have "best = best1" "sel = sel1" using r(3) by auto
        with ex choice False g show ?thesis by (auto simp: less_Suc_eq)
      qed
    qed
    ultimately show ?thesis using True by auto
  qed
qed

definition in_range :: "int list \<Rightarrow> bool" where
  "in_range credits \<longleftrightarrow> length credits = 7 \<and> (\<forall>i < 7. - (2 ^ 62) < credits ! i)"

lemma ChoosePriority_none:
  assumes "in_range credits" and "\<forall>i < 7. \<not> active i"
  shows "ChoosePriority active credits = (-1, replicate 7 0)"
proof -
  obtain cs aw best sel where f: "fold (choose_step active) [0..<7] (credits, 0, - (2 ^ 63), -1) = (cs, aw, best, sel)"
    by (metis prod_cases4)
  have "\<forall>i < 7. - (2 ^ 63) < credits ! i + weight i" using assms(1) weights by (force simp: in_range_def)
  from choose_prefix [OF _ this order_refl f] assms have
    "length cs = 7" "\<forall>i < 7. cs ! i = 0" "sel = -1" by (auto simp: in_range_def grown_def)
  moreover from this have "cs = replicate 7 0" by (intro nth_equalityI) simp_all
  ultimately show ?thesis unfolding ChoosePriority_def f by simp
qed

lemma ChoosePriority_some:
  assumes "in_range credits" and "i < 7" and "active i"
  obtains sel cs where "ChoosePriority active credits = (int sel, cs)" and "sel < 7" and "active sel"
    and "length cs = 7"
    and "\<And>j. j < 7 \<Longrightarrow> cs ! j = grown active credits j - (if j = sel then active_weight active else 0)"
    and "\<And>j. j < 7 \<Longrightarrow> active j \<Longrightarrow> grown active credits j \<le> grown active credits sel"
proof -
  obtain cs aw best sel where f: "fold (choose_step active) [0..<7] (credits, 0, - (2 ^ 63), -1) = (cs, aw, best, sel)"
    by (metis prod_cases4)
  have "\<forall>i < 7. - (2 ^ 63) < credits ! i + weight i" using assms(1) weights by (force simp: in_range_def)
  from choose_prefix [OF _ this order_refl f] assms have p:
    "length cs = 7" "\<forall>i < 7. cs ! i = grown active credits i" "aw = active_weight active"
    "0 \<le> sel" "nat sel < 7" "active (nat sel)"
    "\<forall>i < 7. active i \<longrightarrow> grown active credits i \<le> grown active credits (nat sel)"
    by (auto simp: in_range_def active_weight_def split: if_splits)
  show thesis
  proof (rule that [of "nat sel" "cs[nat sel := cs ! nat sel - aw]"])
    show "ChoosePriority active credits = (int (nat sel), cs[nat sel := cs ! nat sel - aw])"
      using p(4) unfolding ChoosePriority_def f by simp
  qed (use p in \<open>auto simp: nth_list_update\<close>)
qed

section \<open>Bounds on the credits\<close>

text \<open>No set of priorities has more than its cap of credit, or more than its limit of debt.\<close>

definition cap :: "nat \<Rightarrow> int" where
  "cap k = [0, 88, 140, 174, 196, 210, 216, 216] ! k"

definition debt_limit :: "nat \<Rightarrow> int" where
  "debt_limit k = 18 * int k * (15 - int k)"

definition credits_ok :: "int list \<Rightarrow> bool" where
  "credits_ok credits \<longleftrightarrow> length credits = 7 \<and>
     (\<forall>S \<subseteq> {..<7}. (\<Sum>i\<in>S. max (credits ! i) 0) \<le> cap (card S)) \<and>
     (\<forall>S \<subseteq> {..<7}. (\<Sum>i\<in>S. max (- credits ! i) 0) \<le> debt_limit (card S))"

lemma self_le_square: "int r \<le> int r * int r"
  by (cases r) (simp_all add: algebra_simps)

lemma card_less_7: "S \<subseteq> {..<7::nat} \<Longrightarrow> card S \<le> 7"
  using card_mono [of "{..<7::nat}" S] by simp

lemma cap_step: "k < 7 \<Longrightarrow> (int k + 1) * x \<le> int k * (cap (Suc k) + 36) \<Longrightarrow> x \<le> cap k"
  by (auto simp: cap_def less_Suc_eq numeral_eq_Suc)

lemma cap_large: "1 \<le> k \<Longrightarrow> k \<le> 7 \<Longrightarrow> 36 * (int k - 1) \<le> cap k"
  by (auto simp: cap_def le_Suc_eq numeral_eq_Suc)

lemma cap_nonneg: "k \<le> 7 \<Longrightarrow> 0 \<le> cap k"
  by (auto simp: cap_def le_Suc_eq numeral_eq_Suc)

lemma credit_bounds:
  assumes "credits_ok credits" and "i < 7"
  shows "credits ! i \<le> 88" and "-252 \<le> credits ! i"
proof -
  have "{i} \<subseteq> {..<7}" using assms(2) by simp
  then have "(\<Sum>i\<in>{i}. max (credits ! i) 0) \<le> cap (card {i})"
      "(\<Sum>i\<in>{i}. max (- credits ! i) 0) \<le> debt_limit (card {i})"
    using assms(1) by (simp_all only: credits_ok_def)
  then show "credits ! i \<le> 88" "-252 \<le> credits ! i" by (simp_all add: cap_def debt_limit_def)
qed

lemma credits_length: "credits_ok credits \<Longrightarrow> length credits = 7"
  by (simp only: credits_ok_def)

lemma credits_in_range:
  assumes "credits_ok credits"
  shows "in_range credits"
proof -
  have "- (2 ^ 62) < credits ! i" if "i < 7" for i
    using credit_bounds(2) [OF assms that] by simp
  then show ?thesis by (simp add: in_range_def credits_length [OF assms])
qed

lemma active_sum_le:
  fixes f g w :: "nat \<Rightarrow> int"
  assumes "S \<subseteq> {..<7}" and "\<And>i. i \<in> S \<Longrightarrow> f i \<le> g i + (if active i then w i else 0)"
    and w: "\<And>i. i < 7 \<Longrightarrow> 0 \<le> w i"
  shows "sum f S \<le> sum g S + (\<Sum>i\<in>{i. i < 7 \<and> active i}. w i)"
proof -
  have fin: "finite S" by (rule finite_subset [OF assms(1)]) simp
  have "sum f S \<le> (\<Sum>i\<in>S. g i + (if active i then w i else 0))" using assms(2) by (rule sum_mono)
  also have "\<dots> = sum g S + (\<Sum>i\<in>S. if active i then w i else 0)" by (simp only: sum.distrib)
  also have "(\<Sum>i\<in>S. if active i then w i else 0) = (\<Sum>i\<in>{i \<in> S. active i}. w i)"
    by (simp only: sum.inter_filter [OF fin])
  also have "(\<Sum>i\<in>{i \<in> S. active i}. w i) \<le> (\<Sum>i\<in>{i. i < 7 \<and> active i}. w i)"
  proof (rule sum_mono2)
    have "{i. i < 7 \<and> active i} \<subseteq> {..<7}" by (simp add: subset_iff)
    then show "finite {i. i < 7 \<and> active i}" by (rule finite_subset) (rule finite_lessThan)
    show "{i \<in> S. active i} \<subseteq> {i. i < 7 \<and> active i}" using assms(1) by (simp add: subset_iff)
    show "0 \<le> w b" if "b \<in> {i. i < 7 \<and> active i} - {i \<in> S. active i}" for b
      using that by (intro w) simp
  qed
  finally show ?thesis by simp
qed

lemma weight_nonneg: "i < 7 \<Longrightarrow> 0 \<le> weight i"
  using weights [of i] by simp

lemma active_weight_nonneg: "0 \<le> active_weight active"
  unfolding active_weight_def by (rule sum_nonneg) (use weights in force)

lemma credit_cap:
  assumes "credits_ok credits" and "sel < 7" and "active sel"
    and "\<And>j. j < 7 \<Longrightarrow> active j \<Longrightarrow> grown active credits j \<le> grown active credits sel"
    and "\<And>j. j < 7 \<Longrightarrow> cs ! j = grown active credits j - (if j = sel then active_weight active else 0)"
    and "S \<subseteq> {..<7}"
  shows "(\<Sum>i\<in>S. max (cs ! i) 0) \<le> cap (card S)"
proof -
  let ?g = "\<lambda>i. max (grown active credits i) 0" and ?c = "\<lambda>i. max (credits ! i) 0"
  let ?W = "active_weight active"
  have fin: "finite S" using assms(6) finite_subset by blast
  have g_le: "?g i \<le> ?c i + (if active i then weight i else 0)" if "i < 7" for i
    using weights [OF that] by (auto simp: grown_def)
  have g_sel: "?g i \<le> ?g sel" if "i < 7" for i
    using assms(4) [OF that] by (cases "active i") (auto simp: grown_def)
  have g_sum: "sum ?g T \<le> cap (card T) + ?W" if "T \<subseteq> {..<7}" for T
  proof -
    have "sum ?g T \<le> sum ?c T + ?W" unfolding active_weight_def
      by (rule active_sum_le [OF that]) (use that g_le weight_nonneg in \<open>auto simp: subset_iff\<close>)
    also have "sum ?c T \<le> cap (card T)" using assms(1) that by (simp only: credits_ok_def)
    finally show ?thesis by simp
  qed
  have other: "max (cs ! i) 0 = ?g i" if "i < 7" "i \<noteq> sel" for i using assms(5) that by simp
  show ?thesis
  proof (cases "sel \<in> S")
    case False
    let ?k = "card S"
    have k: "card (insert sel S) = Suc ?k" using fin False by simp
    have sub: "insert sel S \<subseteq> {..<7}" using assms(2,6) by simp
    have k7: "?k < 7" using card_less_7 [OF sub] k by simp
    have same: "(\<Sum>i\<in>S. max (cs ! i) 0) = sum ?g S" using other assms(6) False by (intro sum.cong) auto
    have "sum ?g S \<le> (\<Sum>i\<in>S. ?g sel)" using g_sel assms(6) by (intro sum_mono) auto
    then have mean: "sum ?g S \<le> int ?k * ?g sel" by simp
    have "sum ?g (insert sel S) \<le> cap (Suc ?k) + ?W" using g_sum [OF sub] k by simp
    then have "sum ?g S + ?g sel \<le> cap (Suc ?k) + 36" using fin False active_weight_le [of active] by simp
    then have "int ?k * (sum ?g S + ?g sel) \<le> int ?k * (cap (Suc ?k) + 36)" by (intro mult_left_mono) simp_all
    with mean have "(int ?k + 1) * sum ?g S \<le> int ?k * (cap (Suc ?k) + 36)" by (simp add: algebra_simps)
    from cap_step [OF k7 this] show ?thesis by (simp add: same)
  next
    case sel: True
    have split: "sum f S = f sel + sum f (S - {sel})" for f :: "nat \<Rightarrow> int"
      by (rule sum.remove [OF fin sel])
    have rest: "(\<Sum>i\<in>S - {sel}. max (cs ! i) 0) = sum ?g (S - {sel})"
      using other assms(6) by (intro sum.cong) auto
    have cs_sel: "max (cs ! sel) 0 = max (grown active credits sel - ?W) 0" using assms(2,5) by simp
    show ?thesis
    proof (cases "?W \<le> grown active credits sel")
      case True
      then have "max (cs ! sel) 0 = ?g sel - ?W" using cs_sel active_weight_nonneg [of active] by simp
      then have "(\<Sum>i\<in>S. max (cs ! i) 0) = sum ?g S - ?W" by (simp add: split rest)
      with g_sum [OF assms(6)] show ?thesis by simp
    next
      case False
      obtain k where k: "card S = Suc k" using sel fin by (cases "card S") auto
      from False have small: "?g i \<le> 36" if "i < 7" for i
        using g_sel [OF that] active_weight_le [of active] active_weight_nonneg [of active] by simp
      have "sum ?g (S - {sel}) \<le> (\<Sum>i\<in>S - {sel}. 36)" using small assms(6) by (intro sum_mono) auto
      also have "\<dots> = 36 * (int (card S) - 1)" using sel fin by (simp add: k)
      also have "\<dots> \<le> cap (card S)"
        by (intro cap_large card_less_7 assms(6)) (simp add: k)
      finally have "sum ?g (S - {sel}) \<le> cap (card S)" .
      moreover have "max (cs ! sel) 0 = 0" using False cs_sel by simp
      ultimately show ?thesis by (simp add: split rest)
    qed
  qed
qed

lemma credit_debt:
  assumes "credits_ok credits" and "sel < 7" and "active sel"
    and "\<And>j. j < 7 \<Longrightarrow> active j \<Longrightarrow> grown active credits j \<le> grown active credits sel"
    and "\<And>j. j < 7 \<Longrightarrow> cs ! j = grown active credits j - (if j = sel then active_weight active else 0)"
    and "S \<subseteq> {..<7}"
  shows "(\<Sum>i\<in>S. max (- cs ! i) 0) \<le> debt_limit (card S)"
proof -
  let ?g = "\<lambda>i. max (- grown active credits i) 0" and ?c = "\<lambda>i. max (- credits ! i) 0"
  let ?W = "active_weight active"
  have fin: "finite S" using assms(6) finite_subset by blast
  have g_le: "?g i \<le> ?c i" if "i < 7" for i
    using weights [OF that] by (auto simp: grown_def)
  have c_sum: "sum ?c T \<le> debt_limit (card T)" if "T \<subseteq> {..<7}" for T
    using assms(1) that by (simp only: credits_ok_def)
  have g_sum: "sum ?g T \<le> debt_limit (card T)" if "T \<subseteq> {..<7}" for T
  proof -
    have "sum ?g T \<le> sum ?c T" using that by (intro sum_mono g_le) auto
    with c_sum [OF that] show ?thesis by simp
  qed
  have other: "max (- cs ! i) 0 = ?g i" if "i < 7" "i \<noteq> sel" for i using assms(5) that by simp
  show ?thesis
  proof (cases "sel \<in> S")
    case False
    then have "(\<Sum>i\<in>S. max (- cs ! i) 0) = sum ?g S" using other assms(6) by (intro sum.cong) auto
    with g_sum [OF assms(6)] show ?thesis by simp
  next
    case sel: True
    obtain k where k: "card S = Suc k" using sel fin by (cases "card S") auto
    have split: "sum f S = f sel + sum f (S - {sel})" for f :: "nat \<Rightarrow> int"
      by (rule sum.remove [OF fin sel])
    have rest: "(\<Sum>i\<in>S - {sel}. max (- cs ! i) 0) = sum ?g (S - {sel})"
      using other assms(6) by (intro sum.cong) auto
    have sub: "S - {sel} \<subseteq> {..<7}" using assms(6) by auto
    have few: "sum ?g (S - {sel}) \<le> debt_limit k" using g_sum [OF sub] sel fin by (simp add: k)
    have cs_sel: "max (- cs ! sel) 0 = max (?W - grown active credits sel) 0" using assms(2,5) by simp
    have k7: "k \<le> 6" using card_less_7 [OF assms(6)] k by simp
    have step: "debt_limit (Suc k) = debt_limit k + 18 * (14 - 2 * int k)"
      by (simp add: debt_limit_def algebra_simps)
    show ?thesis
    proof (cases "0 \<le> grown active credits sel")
      case True
      then have "max (- cs ! sel) 0 \<le> 36" using cs_sel active_weight_le [of active] by simp
      with few have "(\<Sum>i\<in>S. max (- cs ! i) 0) \<le> debt_limit k + 36" by (simp add: split rest)
      also have "\<dots> \<le> debt_limit (card S)" using k7 by (simp add: k step)
      finally show ?thesis .
    next
      case False
      let ?q = "- grown active credits sel" and ?A = "{i. i < 7 \<and> active i}"
      have below: "grown active credits i \<le> grown active credits sel" if "i \<in> ?A" for i
        using assms(4) that by simp
      have debt: "(\<Sum>i\<in>S. max (- cs ! i) 0) = sum ?g S + ?W"
        using False cs_sel active_weight_nonneg [of active] by (simp add: split rest)
      show ?thesis
      proof (cases "?q \<le> 18 * (14 - 2 * int k) - 36")
        case True
        have "sum ?g S = ?q + sum ?g (S - {sel})" using False by (simp add: split)
        with few True have "sum ?g S \<le> debt_limit (Suc k) - 36" by (simp add: step)
        with debt active_weight_le [of active] show ?thesis by (simp add: k)
      next
        case large: False
        let ?V = "S \<union> ?A" and ?r = "card (?A - S)"
        have V: "?V \<subseteq> {..<7}" "finite ?V" using assms(6) fin by auto
        have cV: "card ?V = Suc k + ?r" using card_Un_disjoint [of S "?A - S"] fin k by simp
        have "sum ?g ?V = (\<Sum>i\<in>?V. ?g i)" ..
        have drop: "?g i \<le> ?c i - (if active i then weight i else 0)" if "i < 7" for i
          using below [of i] False that by (auto simp: grown_def)
        have "sum ?g ?V \<le> (\<Sum>i\<in>?V. ?c i - (if active i then weight i else 0))"
          using V(1) by (intro sum_mono drop) auto
        also have "\<dots> = sum ?c ?V - (\<Sum>i\<in>?V. if active i then weight i else 0)" by (simp only: sum_subtractf)
        also have "(\<Sum>i\<in>?V. if active i then weight i else 0) = (\<Sum>i\<in>{i \<in> ?V. active i}. weight i)"
          by (simp only: sum.inter_filter [OF V(2)])
        also have "{i \<in> ?V. active i} = ?A" using assms(6) by auto
        also have "(\<Sum>i\<in>?A. weight i) = ?W" by (simp only: active_weight_def)
        finally have "sum ?g ?V \<le> debt_limit (Suc k + ?r) - ?W" using c_sum [OF V(1)] cV by simp
        moreover have "sum ?g ?V = sum ?g S + sum ?g (?A - S)"
          using sum.union_disjoint [of S "?A - S" ?g] fin by simp
        moreover have "(\<Sum>i\<in>?A - S. ?q) \<le> sum ?g (?A - S)"
          using below by (intro sum_mono) (simp add: max.coboundedI1)
        then have "int ?r * ?q \<le> sum ?g (?A - S)" by simp
        ultimately have up: "sum ?g S + ?W \<le> debt_limit (Suc k + ?r) - int ?r * ?q" by simp
        have "int ?r * (18 * (14 - 2 * int k) - 35) \<le> int ?r * ?q" using large by (intro mult_left_mono) simp_all
        moreover have "debt_limit (Suc k + ?r) \<le> debt_limit (Suc k) + int ?r * (18 * (14 - 2 * int k) - 35)"
        proof -
          have "int ?r \<le> int ?r * int ?r" by (rule self_le_square)
          then show ?thesis by (simp add: debt_limit_def algebra_simps)
        qed
        ultimately show ?thesis using up debt by (simp add: k)
      qed
    qed
  qed
qed

lemma no_credits_ok: "credits_ok (replicate 7 0)"
proof -
  have "0 \<le> debt_limit (card S)" if "S \<subseteq> {..<7}" for S :: "nat set"
    using card_less_7 [OF that] by (simp add: debt_limit_def)
  moreover have "(\<Sum>i\<in>S. max (replicate 7 (0::int) ! i) 0) = 0"
    "(\<Sum>i\<in>S. max (- replicate 7 (0::int) ! i) 0) = 0" if "S \<subseteq> {..<7}" for S
    using that by (auto intro!: sum.neutral simp: subset_iff)
  ultimately show ?thesis using cap_nonneg card_less_7 by (simp add: credits_ok_def)
qed

lemma ChoosePriority_ok:
  assumes "credits_ok credits" and "ChoosePriority active credits = (s, cs)"
  shows "credits_ok cs"
proof (cases "\<exists>i < 7. active i")
  case False
  then have "cs = replicate 7 0"
    using ChoosePriority_none [OF credits_in_range [OF assms(1)], of active] assms(2) by simp
  then show ?thesis using no_credits_ok by simp
next
  case True
  then obtain i where i: "i < 7" "active i" by blast
  obtain sel cs' where c: "ChoosePriority active credits = (int sel, cs')" "sel < 7" "active sel" "length cs' = 7"
    "\<And>j. j < 7 \<Longrightarrow> cs' ! j = grown active credits j - (if j = sel then active_weight active else 0)"
    "\<And>j. j < 7 \<Longrightarrow> active j \<Longrightarrow> grown active credits j \<le> grown active credits sel"
    using ChoosePriority_some [of credits i active, OF credits_in_range [OF assms(1)] i] by metis
  have "cs = cs'" using c(1) assms(2) by simp
  then show ?thesis
    using c(4) credit_cap [OF assms(1) c(2,3,6,5)] credit_debt [OF assms(1) c(2,3,6,5)]
    by (simp add: credits_ok_def)
qed

section \<open>Sequences of choices\<close>

text \<open>
  The choices one after another, each with the priorities that have work at that moment: what was
  chosen and the credits at the end.
\<close>

primrec choose_all :: "(nat \<Rightarrow> bool) list \<Rightarrow> int list \<Rightarrow> int list \<times> int list" where
  "choose_all [] credits = ([], credits)"
| "choose_all (active # rest) credits =
     (case ChoosePriority active credits of
        (selected, credits') \<Rightarrow>
          (case choose_all rest credits' of (later, credits'') \<Rightarrow> (selected # later, credits'')))"

lemma choose_all_ok: "credits_ok credits \<Longrightarrow> credits_ok (snd (choose_all actives credits))"
proof (induction actives arbitrary: credits)
  case (Cons active rest)
  obtain s cs where c: "ChoosePriority active credits = (s, cs)" by fastforce
  obtain ss cs' where l: "choose_all rest cs = (ss, cs')" by fastforce
  from Cons.IH [OF ChoosePriority_ok [OF Cons.prems c]] c l show ?case by simp
qed simp

lemma unselected_grows:
  assumes "credits_ok credits" and "i < 7" and "\<forall>active \<in> set actives. active i"
    and "int i \<notin> set (fst (choose_all actives credits))"
  shows "snd (choose_all actives credits) ! i = credits ! i + int (length actives) * weight i"
  using assms(1,3,4)
proof (induction actives arbitrary: credits)
  case (Cons active rest)
  have "active i" using Cons.prems(2) by simp
  with ChoosePriority_some [of credits i active, OF credits_in_range [OF Cons.prems(1)] assms(2)]
  obtain sel cs where c: "ChoosePriority active credits = (int sel, cs)" "sel < 7"
    "\<And>j. j < 7 \<Longrightarrow> cs ! j = grown active credits j - (if j = sel then active_weight active else 0)"
    by metis
  obtain later cs' where l: "choose_all rest cs = (later, cs')" by fastforce
  have "i \<noteq> sel" "int i \<notin> set (fst (choose_all rest cs))" using Cons.prems(3) c(1) l by auto
  moreover have "credits_ok cs" by (rule ChoosePriority_ok [OF Cons.prems(1) c(1)])
  ultimately have "snd (choose_all rest cs) ! i = credits ! i + weight i + int (length rest) * weight i"
    using Cons.IH [of cs] Cons.prems(2) c(3) [OF assms(2)] \<open>active i\<close> by (simp add: grown_def)
  then show ?case using c(1) l by (simp add: algebra_simps)
qed simp

text \<open>
  C25. No priority starves: from any state that earlier choices can lead to, with whatever work
  came and went, a priority of weight w that has work at each of more than 340/w consecutive
  choices is chosen at one of them, whatever the other priorities do meanwhile; and the credits
  always lie between -252 and 88, so that their 64-bit integers never overflow.
\<close>

theorem no_priority_starves:
  assumes "i < 7" and "\<forall>active \<in> set later. active i"
    and "340 < int (length later) * priorityWeights ! i"
    and "credits = snd (choose_all earlier (replicate 7 0))"
  shows "int i \<in> set (fst (choose_all later credits)) \<and> (\<forall>c \<in> set credits. -252 \<le> c \<and> c \<le> 88)"
proof
  have ok: "credits_ok credits" unfolding assms(4) by (rule choose_all_ok [OF no_credits_ok])
  show "int i \<in> set (fst (choose_all later credits))"
  proof (rule ccontr)
    assume "int i \<notin> set (fst (choose_all later credits))"
    from unselected_grows [OF ok assms(1,2) this]
    have "snd (choose_all later credits) ! i = credits ! i + int (length later) * weight i" .
    moreover have "snd (choose_all later credits) ! i \<le> 88"
      by (rule credit_bounds(1) [OF choose_all_ok [OF ok] assms(1)])
    moreover have "-252 \<le> credits ! i" by (rule credit_bounds(2) [OF ok assms(1)])
    ultimately show False using assms(3) by linarith
  qed
  show "\<forall>c \<in> set credits. -252 \<le> c \<and> c \<le> 88"
    using credit_bounds [OF ok] credits_length [OF ok] by (auto simp: in_set_conv_nth)
qed

theorem no_priority_starves_witness:
  "int 0 \<in> set (fst (choose_all (replicate 341 (\<lambda>_. True)) (snd (choose_all [\<lambda>i. i = 6] (replicate 7 0)))))"
proof -
  have "340 < int (length (replicate 341 (\<lambda>_::nat. True))) * priorityWeights ! 0"
    by (simp add: priorityWeights_def)
  from no_priority_starves [OF _ _ this refl, of "[\<lambda>i. i = 6]"] show ?thesis by simp
qed

text \<open>A lower priority can come first: of work at priorities 3 and -3 only, the low one is chosen
  seventh, and then once in thirteen.\<close>

lemma low_priority_overtakes:
  "fst (choose_all (replicate 13 (\<lambda>i. i = 0 \<or> i = 6)) (replicate 7 0)) = [6, 6, 6, 6, 6, 6, 0, 6, 6, 6, 6, 6, 6]"
  by code_simp

end
