(* ===== verification/Queue_Rules.thy ===== *)
theory Queue_Rules
  imports Fair_Choice "HOL-Library.Multiset"
begin

text \<open>
  The run queues keep their parts in agreement, and so never abort: a queue is a multiset of works
  to the scheduler. Taking finds work whenever there is some that the worker may run, and a
  lane is served in the order of arrival, after the lanes that wait for longer.
\<close>

section \<open>Lanes\<close>

definition lane_ok :: "nat \<Rightarrow> (string \<rightharpoonup> work list) \<Rightarrow> string list \<Rightarrow> nat \<Rightarrow> bool" where
  "lane_ok b m roles n \<longleftrightarrow> distinct roles \<and> (\<forall>r. r \<in> set roles \<longleftrightarrow> m r \<noteq> None) \<and>
     (\<forall>r ws. m r = Some ws \<longrightarrow> ws \<noteq> [] \<and> (\<forall>w \<in> set ws. wk_role w = r \<and> wk_priority w + 3 = int b)) \<and>
     n = length (concat (map (\<lambda>r. the (m r)) roles))"

definition lanes_ok :: "lane_set \<Rightarrow> bool" where
  "lanes_ok l \<longleftrightarrow> length (ls_lanes l) = 7 \<and> length (ls_readyRoles l) = 7 \<and> length (ls_counts l) = 7 \<and>
     (\<forall>b < 7. lane_ok b (ls_lanes l ! b) (ls_readyRoles l ! b) (ls_counts l ! b))"

definition bucket_works :: "lane_set \<Rightarrow> nat \<Rightarrow> work multiset" where
  "bucket_works l b = mset (concat (map (\<lambda>r. the ((ls_lanes l ! b) r)) (ls_readyRoles l ! b)))"

definition works :: "lane_set \<Rightarrow> work multiset" where
  "works l = (\<Sum>b<7. bucket_works l b)"

lemma works_update:
  assumes "b < 7" and "\<And>j. j < 7 \<Longrightarrow> j \<noteq> b \<Longrightarrow> bucket_works l' j = bucket_works l j"
    and "bucket_works l' b = add_mset w (bucket_works l b)"
  shows "works l' = add_mset w (works l)"
proof -
  have b: "b \<in> {..<7}" using assms(1) by simp
  have "(\<Sum>j\<in>{..<7} - {b}. bucket_works l' j) = (\<Sum>j\<in>{..<7} - {b}. bucket_works l j)"
    by (rule sum.cong) (use assms(2) in auto)
  then show ?thesis
    unfolding works_def sum.remove [OF finite_lessThan b] assms(3) by simp
qed

lemma lane_size: "lanes_ok l \<Longrightarrow> b < 7 \<Longrightarrow> ls_counts l ! b = size (bucket_works l b)"
  by (simp only: lanes_ok_def lane_ok_def bucket_works_def size_mset)

lemma works_empty_iff: "lanes_ok l \<Longrightarrow> works l = {#} \<longleftrightarrow> (\<forall>b < 7. ls_counts l ! b = 0)"
  by (simp add: works_def lane_size sum_eq_empty_iff lessThan_def)

lemma no_lanes_ok: "lanes_ok no_lanes" "works no_lanes = {#}"
proof -
  show ok: "lanes_ok no_lanes" by (simp add: lanes_ok_def no_lanes_def lane_ok_def)
  show "works no_lanes = {#}" unfolding works_empty_iff [OF ok] by (simp add: no_lanes_def)
qed

lemma map_lane_update:
  "r \<notin> set roles \<Longrightarrow> map (\<lambda>x. the ((m(r := y)) x)) roles = map (\<lambda>x. the (m x)) roles"
  by (induction roles) auto

definition lane_works :: "(string \<rightharpoonup> work list) \<Rightarrow> string list \<Rightarrow> work multiset" where
  "lane_works m roles = mset (concat (map (\<lambda>r. the (m r)) roles))"

lemma lane_ok_size: "lane_ok b m roles n \<Longrightarrow> n = size (lane_works m roles)"
  by (simp only: lane_ok_def lane_works_def size_mset)

lemma lane_okI:
  assumes "distinct roles" and "\<And>r. r \<in> set roles \<longleftrightarrow> m r \<noteq> None" and "\<And>r. m r \<noteq> Some []"
    and "\<And>r ws w. m r = Some ws \<Longrightarrow> w \<in> set ws \<Longrightarrow> wk_role w = r \<and> wk_priority w + 3 = int b"
    and "n = size (lane_works m roles)"
  shows "lane_ok b m roles n"
  unfolding lane_ok_def
proof (intro conjI allI impI ballI)
  show "n = length (concat (map (\<lambda>r. the (m r)) roles))" using assms(5) by (simp only: lane_works_def size_mset)
  show "ws \<noteq> []" if "m r = Some ws" for r ws using assms(3) that by blast
qed (use assms(1,2,4) in blast)+

lemma lane_okD:
  assumes "lane_ok b m roles n"
  shows "distinct roles" and "r \<in> set roles \<longleftrightarrow> m r \<noteq> None" and "m r \<noteq> Some []"
    and "m r = Some ws \<Longrightarrow> w \<in> set ws \<Longrightarrow> wk_role w = r \<and> wk_priority w + 3 = int b"
  using assms unfolding lane_ok_def by blast+

lemma lane_ok_take:
  assumes ok: "lane_ok b m (role # roles) n" and m: "m role = Some (w # rest)"
  shows "lane_ok b (m(role := if rest = [] then None else Some rest))
      (if rest = [] then roles else roles @ [role]) (n - 1)"
    and "lane_works m (role # roles) = add_mset w (lane_works
      (m(role := if rest = [] then None else Some rest)) (if rest = [] then roles else roles @ [role]))"
proof -
  let ?m' = "m(role := if rest = [] then None else Some rest)"
  let ?rs' = "if rest = [] then roles else roles @ [role]"
  note d = lane_okD [OF ok]
  have notin: "role \<notin> set roles" using d(1) by simp
  show works: "lane_works m (role # roles) = add_mset w (lane_works ?m' ?rs')"
    using m by (cases "rest = []")
      (simp_all add: lane_works_def map_lane_update [OF notin] fun_upd_same del: fun_upd_apply)
  show "lane_ok b ?m' ?rs' (n - 1)"
  proof (rule lane_okI)
    show "distinct ?rs'" using d(1) by simp
    show "r \<in> set ?rs' \<longleftrightarrow> ?m' r \<noteq> None" for r
      using d(2) [of r] notin by (cases "r = role") simp_all
    show "?m' r \<noteq> Some []" for r using d(3) [of r] by simp
    show "wk_role x = r \<and> wk_priority x + 3 = int b" if "?m' r = Some ws" "x \<in> set ws" for r ws x
      using d(4) [of r _ x] m that by (auto split: if_splits)
    show "n - 1 = size (lane_works ?m' ?rs')" using lane_ok_size [OF ok] by (simp add: works)
  qed
qed

lemma TakeLane_ok:
  assumes "lanes_ok l" and "b < 7" and "0 < ls_counts l ! b"
  obtains role roles w rest l' where "ls_readyRoles l ! b = role # roles"
    and "(ls_lanes l ! b) role = Some (w # rest)" and "TakeLane b l = Some (Some w, l')"
    and "lanes_ok l'" and "works l = add_mset w (works l')"
    and "ls_readyRoles l' ! b = (if rest = [] then roles else roles @ [role])"
    and "ls_lanes l' ! b = (ls_lanes l ! b)(role := if rest = [] then None else Some rest)"
    and "\<And>j. j < 7 \<Longrightarrow> j \<noteq> b \<Longrightarrow> ls_readyRoles l' ! j = ls_readyRoles l ! j \<and> ls_lanes l' ! j = ls_lanes l ! j"
proof -
  let ?m = "ls_lanes l ! b" and ?rs = "ls_readyRoles l ! b" and ?n = "ls_counts l ! b"
  have ok: "lane_ok b ?m ?rs ?n" using assms(1,2) by (simp only: lanes_ok_def)
  obtain role roles where rs: "?rs = role # roles"
    using assms(3) lane_ok_size [OF ok] by (cases ?rs) (simp_all add: lane_works_def)
  have "?m role \<noteq> None" using lane_okD(2) [OF ok, of role] rs by simp
  then obtain w rest where m: "?m role = Some (w # rest)"
    using lane_okD(3) [OF ok, of role] by (metis neq_Nil_conv not_None_eq)
  let ?m' = "?m(role := if rest = [] then None else Some rest)"
  let ?rs' = "if rest = [] then roles else roles @ [role]"
  let ?l' = "l\<lparr>ls_lanes := (ls_lanes l)[b := ?m'], ls_readyRoles := (ls_readyRoles l)[b := ?rs'],
    ls_counts := (ls_counts l)[b := ?n - 1]\<rparr>"
  note take = lane_ok_take [OF ok [unfolded rs] m]
  have len: "length (ls_lanes l) = 7" "length (ls_readyRoles l) = 7" "length (ls_counts l) = 7"
    using assms(1) by (simp_all only: lanes_ok_def)
  have others: "ls_readyRoles ?l' ! j = ls_readyRoles l ! j \<and> ls_lanes ?l' ! j = ls_lanes l ! j \<and>
      ls_counts ?l' ! j = ls_counts l ! j" if "j \<noteq> b" for j
    using that by simp
  have at: "ls_readyRoles ?l' ! b = ?rs'" "ls_lanes ?l' ! b = ?m'" "ls_counts ?l' ! b = ?n - 1"
    using len assms(2) by simp_all
  have "lane_ok j (ls_lanes ?l' ! j) (ls_readyRoles ?l' ! j) (ls_counts ?l' ! j)" if "j < 7" for j
  proof (cases "j = b")
    case True
    show ?thesis unfolding True at by (rule take(1))
  next
    case False
    with assms(1) that show ?thesis unfolding lanes_ok_def using others [OF False] by simp
  qed
  then have ok': "lanes_ok ?l'" using len by (simp add: lanes_ok_def)
  have works: "works l = add_mset w (works ?l')"
  proof (rule works_update [OF assms(2)])
    show "bucket_works l j = bucket_works ?l' j" if "j < 7" "j \<noteq> b" for j
      using others [OF that(2)] by (simp only: bucket_works_def)
    show "bucket_works l b = add_mset w (bucket_works ?l' b)"
      using take(2) unfolding bucket_works_def at rs lane_works_def .
  qed
  have "TakeLane b l = Some (Some w, ?l')"
    using assms(3) rs m by (simp add: TakeLane_def)
  then show thesis using that [OF rs m _ ok' works at(1,2)] others by blast
qed

lemma lane_ok_enqueue:
  fixes m roles w
  defines "lane \<equiv> case m (wk_role w) of None \<Rightarrow> [] | Some ws \<Rightarrow> ws"
  assumes ok: "lane_ok b m roles n" and prio: "wk_priority w + 3 = int b"
  shows "lane_ok b (m(wk_role w \<mapsto> lane @ [w])) (if lane = [] then roles @ [wk_role w] else roles) (n + 1)"
    and "lane_works (m(wk_role w \<mapsto> lane @ [w])) (if lane = [] then roles @ [wk_role w] else roles) =
      add_mset w (lane_works m roles)"
proof -
  let ?m' = "m(wk_role w \<mapsto> lane @ [w])"
  let ?rs' = "if lane = [] then roles @ [wk_role w] else roles"
  note d = lane_okD [OF ok]
  have lane: "lane = [] \<longleftrightarrow> m (wk_role w) = None" "x \<in> set lane \<Longrightarrow> wk_role x = wk_role w \<and> wk_priority x + 3 = int b" for x
    using d(3,4) [of "wk_role w"] by (cases "m (wk_role w)"; force simp: lane_def)+
  show works: "lane_works ?m' ?rs' = add_mset w (lane_works m roles)"
  proof (cases "m (wk_role w)")
    case None
    then have "lane = []" "wk_role w \<notin> set roles" using lane(1) d(2) [of "wk_role w"] by simp_all
    then show ?thesis by (simp add: lane_works_def map_lane_update fun_upd_same del: fun_upd_apply)
  next
    case (Some ws)
    then have l: "lane = ws" "lane \<noteq> []" "wk_role w \<in> set roles"
      using lane(1) d(2) [of "wk_role w"] by (simp_all add: lane_def)
    then obtain xs ys where rs: "roles = xs @ wk_role w # ys" by (meson split_list)
    then have "wk_role w \<notin> set xs" "wk_role w \<notin> set ys" using d(1) by auto
    then show ?thesis using l(1,2) Some
      by (simp add: rs lane_works_def map_lane_update fun_upd_same del: fun_upd_apply)
  qed
  show "lane_ok b ?m' ?rs' (n + 1)"
  proof (rule lane_okI)
    show "distinct ?rs'" using d(1,2) lane(1) by simp
    show "r \<in> set ?rs' \<longleftrightarrow> ?m' r \<noteq> None" for r
      using d(2) [of r] lane(1) by (cases "r = wk_role w") simp_all
    show "?m' r \<noteq> Some []" for r using d(3) [of r] by simp
    show "wk_role x = r \<and> wk_priority x + 3 = int b" if "?m' r = Some ws" "x \<in> set ws" for r ws x
      using d(4) [of r ws x] lane(2) [of x] prio that by (cases "r = wk_role w") auto
    show "n + 1 = size (lane_works ?m' ?rs')"
      by (simp only: works size_add_mset Suc_eq_plus1 lane_ok_size [OF ok])
  qed
qed

lemma EnqueueLane_ok:
  assumes "lanes_ok l" and "-3 \<le> wk_priority w" and "wk_priority w \<le> 3"
  shows "lanes_ok (EnqueueLane w l)" and "works (EnqueueLane w l) = add_mset w (works l)"
proof -
  let ?b = "nat (wk_priority w + 3)" and ?l' = "EnqueueLane w l"
  have b: "?b < 7" "wk_priority w + 3 = int ?b" using assms(2,3) by simp_all
  let ?m = "ls_lanes l ! ?b" and ?rs = "ls_readyRoles l ! ?b" and ?n = "ls_counts l ! ?b"
  have ok: "lane_ok ?b ?m ?rs ?n" using assms(1) b(1) by (simp only: lanes_ok_def)
  define lane where "lane = (case ?m (wk_role w) of None \<Rightarrow> [] | Some ws \<Rightarrow> ws)"
  note enqueue = lane_ok_enqueue [OF ok b(2), folded lane_def]
  have len: "length (ls_lanes l) = 7" "length (ls_readyRoles l) = 7" "length (ls_counts l) = 7"
    using assms(1) by (simp_all only: lanes_ok_def)
  have e: "?l' = l\<lparr>ls_lanes := (ls_lanes l)[?b := ?m(wk_role w \<mapsto> lane @ [w])],
      ls_readyRoles := (if lane = [] then (ls_readyRoles l)[?b := ?rs @ [wk_role w]] else ls_readyRoles l),
      ls_counts := (ls_counts l)[?b := ?n + 1]\<rparr>"
    by (simp only: EnqueueLane_def Let_def lane_def)
  have others: "ls_readyRoles ?l' ! j = ls_readyRoles l ! j \<and> ls_lanes ?l' ! j = ls_lanes l ! j \<and>
      ls_counts ?l' ! j = ls_counts l ! j" if "j \<noteq> ?b" for j
    using that by (simp add: e)
  have at: "ls_readyRoles ?l' ! ?b = (if lane = [] then ?rs @ [wk_role w] else ?rs)"
      "ls_lanes ?l' ! ?b = ?m(wk_role w \<mapsto> lane @ [w])" "ls_counts ?l' ! ?b = ?n + 1"
    using len b(1) by (simp_all add: e)
  have len': "length (ls_lanes ?l') = 7" "length (ls_readyRoles ?l') = 7" "length (ls_counts ?l') = 7"
    using len by (simp_all add: e)
  have "lane_ok j (ls_lanes ?l' ! j) (ls_readyRoles ?l' ! j) (ls_counts ?l' ! j)" if "j < 7" for j
  proof (cases "j = ?b")
    case True
    show ?thesis unfolding True at by (rule enqueue(1))
  next
    case False
    with assms(1) that show ?thesis unfolding lanes_ok_def using others [OF False] by simp
  qed
  then show "lanes_ok ?l'" using len' by (simp add: lanes_ok_def)
  show "works ?l' = add_mset w (works l)"
  proof (rule works_update [OF b(1)])
    show "bucket_works ?l' j = bucket_works l j" if "j < 7" "j \<noteq> ?b" for j
      using others [OF that(2)] by (simp only: bucket_works_def)
    show "bucket_works ?l' ?b = add_mset w (bucket_works l ?b)"
      using enqueue(2) unfolding bucket_works_def at lane_works_def .
  qed
qed

section \<open>The queue of a worker\<close>

definition queue_ok :: "worker_queue \<Rightarrow> bool" where
  "queue_ok q \<longleftrightarrow> lanes_ok (wq_ready q) \<and> lanes_ok (wq_pinned q) \<and> credits_ok (wq_localCredits q) \<and>
     credits_ok (wq_stealCredits q) \<and> length (wq_takePinnedNext q) = 7"

lemma queue_okD:
  assumes "queue_ok q"
  shows "lanes_ok (wq_ready q)" and "lanes_ok (wq_pinned q)" and "credits_ok (wq_localCredits q)"
    and "credits_ok (wq_stealCredits q)" and "length (wq_takePinnedNext q) = 7"
  using assms unfolding queue_ok_def by blast+

lemma new_queue_ok: "queue_ok new_queue" "works (wq_ready new_queue) = {#}" "works (wq_pinned new_queue) = {#}"
  by (simp_all add: queue_ok_def new_queue_def no_lanes_ok no_credits_ok)

lemma TakeLocal_none:
  assumes "queue_ok q" and "works (wq_ready q) = {#}" and "works (wq_pinned q) = {#}"
  shows "\<exists>q'. TakeLocal q = Some (None, q') \<and> queue_ok q' \<and> wq_ready q' = wq_ready q \<and> wq_pinned q' = wq_pinned q"
proof -
  note d = queue_okD [OF assms(1)]
  have none: "\<forall>i < 7. \<not> (0 < ls_counts (wq_ready q) ! i \<or> 0 < ls_counts (wq_pinned q) ! i)"
    using assms(2,3) works_empty_iff [OF d(1)] works_empty_iff [OF d(2)] by simp
  have c: "ChoosePriority (\<lambda>i. 0 < ls_counts (wq_ready q) ! i \<or> 0 < ls_counts (wq_pinned q) ! i)
      (wq_localCredits q) = (-1, replicate 7 0)"
    by (rule ChoosePriority_none [OF credits_in_range [OF d(3)] none])
  show ?thesis using d no_credits_ok by (simp add: TakeLocal_def c queue_ok_def)
qed

lemma active_bucket:
  assumes "lanes_ok l" and "works l \<noteq> {#}"
  obtains i where "i < 7" and "0 < ls_counts l ! i"
  using assms works_empty_iff [OF assms(1)] by auto

lemma TakeLocal_some:
  assumes "queue_ok q" and "works (wq_ready q) \<noteq> {#} \<or> works (wq_pinned q) \<noteq> {#}"
  shows "\<exists>w q'. TakeLocal q = Some (Some w, q') \<and> queue_ok q' \<and>
    (works (wq_ready q) = add_mset w (works (wq_ready q')) \<and> wq_pinned q' = wq_pinned q \<or>
     works (wq_pinned q) = add_mset w (works (wq_pinned q')) \<and> wq_ready q' = wq_ready q)"
proof -
  note d = queue_okD [OF assms(1)]
  let ?active = "\<lambda>i. 0 < ls_counts (wq_ready q) ! i \<or> 0 < ls_counts (wq_pinned q) ! i"
  obtain i where i: "i < 7" "?active i"
    using assms(2) active_bucket [OF d(1)] active_bucket [OF d(2)] by metis
  obtain sel cs where c: "ChoosePriority ?active (wq_localCredits q) = (int sel, cs)" "sel < 7" "?active sel"
    using ChoosePriority_some [of "wq_localCredits q" i ?active, OF credits_in_range [OF d(3)] i] by metis
  have cs: "credits_ok cs" by (rule ChoosePriority_ok [OF d(3) c(1)])
  let ?use = "0 < ls_counts (wq_pinned q) ! sel \<and> (\<not> 0 < ls_counts (wq_ready q) ! sel \<or> wq_takePinnedNext q ! sel)"
  let ?next = "if 0 < ls_counts (wq_ready q) ! sel \<and> 0 < ls_counts (wq_pinned q) ! sel
    then (wq_takePinnedNext q)[sel := \<not> ?use] else wq_takePinnedNext q"
  let ?q = "q\<lparr>wq_localCredits := cs, wq_takePinnedNext := ?next\<rparr>"
  have len: "length ?next = 7" using d(5) by simp
  have nat_sel: "\<not> int sel < 0" "nat (int sel) = sel" by simp_all
  have t: "TakeLocal q = (if ?use
      then map_option (\<lambda>(w, l). (w, ?q\<lparr>wq_pinned := l\<rparr>)) (TakeLane sel (wq_pinned q))
      else map_option (\<lambda>(w, l). (w, ?q\<lparr>wq_ready := l\<rparr>)) (TakeLane sel (wq_ready q)))"
    unfolding TakeLocal_def c(1) prod.case if_not_P [OF nat_sel(1)] nat_sel(2) Let_def by (rule refl)
  show ?thesis
  proof (cases ?use)
    case True
    then have "0 < ls_counts (wq_pinned q) ! sel" by blast
    then obtain w l where l: "TakeLane sel (wq_pinned q) = Some (Some w, l)" "lanes_ok l"
        "works (wq_pinned q) = add_mset w (works l)"
      by (rule TakeLane_ok [OF d(2) c(2)])
    have "TakeLocal q = Some (Some w, ?q\<lparr>wq_pinned := l\<rparr>)" unfolding t if_P [OF True] l(1) by simp
    moreover have "queue_ok (?q\<lparr>wq_pinned := l\<rparr>)" using d cs len l(2) by (simp add: queue_ok_def)
    ultimately show ?thesis using l(3) by (intro exI conjI) auto
  next
    case False
    with c(3) have "0 < ls_counts (wq_ready q) ! sel" by blast
    then obtain w l where l: "TakeLane sel (wq_ready q) = Some (Some w, l)" "lanes_ok l"
        "works (wq_ready q) = add_mset w (works l)"
      by (rule TakeLane_ok [OF d(1) c(2)])
    have "TakeLocal q = Some (Some w, ?q\<lparr>wq_ready := l\<rparr>)" unfolding t if_not_P [OF False] l(1) by simp
    moreover have "queue_ok (?q\<lparr>wq_ready := l\<rparr>)" using d cs len l(2) by (simp add: queue_ok_def)
    ultimately show ?thesis using l(3) by (intro exI conjI) auto
  qed
qed

lemma TakeStealable_none:
  assumes "queue_ok q" and "works (wq_ready q) = {#}"
  shows "\<exists>q'. TakeStealable q = Some (None, q') \<and> queue_ok q' \<and> wq_ready q' = wq_ready q \<and> wq_pinned q' = wq_pinned q"
proof -
  note d = queue_okD [OF assms(1)]
  have none: "\<forall>i < 7. \<not> 0 < ls_counts (wq_ready q) ! i"
    using assms(2) works_empty_iff [OF d(1)] by simp
  have c: "ChoosePriority (\<lambda>i. 0 < ls_counts (wq_ready q) ! i) (wq_stealCredits q) = (-1, replicate 7 0)"
    by (rule ChoosePriority_none [OF credits_in_range [OF d(4)] none])
  show ?thesis using d no_credits_ok by (simp add: TakeStealable_def c queue_ok_def)
qed

lemma TakeStealable_some:
  assumes "queue_ok q" and "works (wq_ready q) \<noteq> {#}"
  shows "\<exists>w q'. TakeStealable q = Some (Some w, q') \<and> queue_ok q' \<and>
    works (wq_ready q) = add_mset w (works (wq_ready q')) \<and> wq_pinned q' = wq_pinned q"
proof -
  note d = queue_okD [OF assms(1)]
  let ?active = "\<lambda>i. 0 < ls_counts (wq_ready q) ! i"
  obtain i where i: "i < 7" "?active i" by (rule active_bucket [OF d(1) assms(2)])
  obtain sel cs where c: "ChoosePriority ?active (wq_stealCredits q) = (int sel, cs)" "sel < 7" "?active sel"
    using ChoosePriority_some [of "wq_stealCredits q" i ?active, OF credits_in_range [OF d(4)] i] by metis
  have cs: "credits_ok cs" by (rule ChoosePriority_ok [OF d(4) c(1)])
  obtain w l where l: "TakeLane sel (wq_ready q) = Some (Some w, l)" "lanes_ok l"
      "works (wq_ready q) = add_mset w (works l)"
    by (rule TakeLane_ok [OF d(1) c(2,3)])
  have "TakeStealable q = Some (Some w, q\<lparr>wq_stealCredits := cs, wq_ready := l\<rparr>)"
    by (simp add: TakeStealable_def c(1) l(1))
  moreover have "queue_ok (q\<lparr>wq_stealCredits := cs, wq_ready := l\<rparr>)" using d cs l(2) by (simp add: queue_ok_def)
  ultimately show ?thesis using l(3) by simp
qed

section \<open>The queues of all workers\<close>

definition queue_works :: "worker_queue \<Rightarrow> work multiset" where
  "queue_works q = works (wq_ready q) + works (wq_pinned q)"

definition all_works :: "scheduler \<Rightarrow> work multiset" where
  "all_works s = \<Sum>\<^sub># (image_mset queue_works (mset (sc_queues s)))"

definition queues_ok :: "scheduler \<Rightarrow> bool" where
  "queues_ok s \<longleftrightarrow> sc_queues s \<noteq> [] \<and> (\<forall>q \<in> set (sc_queues s). queue_ok q) \<and>
     length (sc_stealCursors s) = length (sc_queues s) \<and> sc_queued s = size (all_works s) \<and>
     (\<forall>w. w \<in># all_works s \<longrightarrow> sc_tasks s (wk_task w) \<noteq> None)"

lemma queues_okD:
  assumes "queues_ok s"
  shows "sc_queues s \<noteq> []" and "i < length (sc_queues s) \<Longrightarrow> queue_ok (sc_queues s ! i)"
    and "length (sc_stealCursors s) = length (sc_queues s)" and "sc_queued s = size (all_works s)"
    and "w \<in># all_works s \<Longrightarrow> sc_tasks s (wk_task w) \<noteq> None"
  using assms nth_mem unfolding queues_ok_def by blast+

lemma all_works_update:
  assumes "i < length qs"
  shows "\<Sum>\<^sub># (image_mset queue_works (mset (qs[i := q]))) + queue_works (qs ! i) =
    \<Sum>\<^sub># (image_mset queue_works (mset qs)) + queue_works q"
proof -
  have "qs ! i \<in># mset qs" using assms by simp
  then have "mset qs = add_mset (qs ! i) (mset qs - {#qs ! i#})" by simp
  then have "\<Sum>\<^sub># (image_mset queue_works (mset qs)) =
      queue_works (qs ! i) + \<Sum>\<^sub># (image_mset queue_works (mset qs - {#qs ! i#}))"
    by (metis image_mset_add_mset sum_mset.add_mset)
  then show ?thesis by (simp add: mset_update [OF assms])
qed

lemma queue_ok_update: "\<forall>q \<in> set qs. queue_ok q \<Longrightarrow> queue_ok q' \<Longrightarrow> \<forall>q \<in> set (qs[i := q']). queue_ok q"
  using set_update_subset_insert [of qs i q'] by auto

text \<open>What taking leaves as it is.\<close>

definition same_tasks :: "scheduler \<Rightarrow> scheduler \<Rightarrow> bool" where
  "same_tasks s s' \<longleftrightarrow> sc_tasks s' = sc_tasks s \<and> sc_timers s' = sc_timers s \<and>
     length (sc_queues s') = length (sc_queues s)"

lemma same_tasks_refl: "same_tasks s s"
  by (simp add: same_tasks_def)

lemma same_tasks_trans: "same_tasks a b \<Longrightarrow> same_tasks b c \<Longrightarrow> same_tasks a c"
  by (simp add: same_tasks_def)

lemma take_from_none:
  assumes ok: "queues_ok s" and i: "i < length (sc_queues s)"
    and f: "f (sc_queues s ! i) = Some (None, q)" and q: "queue_ok q"
    and same: "wq_ready q = wq_ready (sc_queues s ! i)" "wq_pinned q = wq_pinned (sc_queues s ! i)"
  shows "\<exists>s'. take_from now f i s = Some (None, s') \<and> queues_ok s' \<and> same_tasks s s' \<and>
    all_works s' = all_works s \<and> (\<forall>j. wq_ready (sc_queues s' ! j) = wq_ready (sc_queues s ! j) \<and>
      wq_pinned (sc_queues s' ! j) = wq_pinned (sc_queues s ! j))"
proof -
  let ?s = "s\<lparr>sc_queues := (sc_queues s)[i := q]\<rparr>"
  have "queue_works q = queue_works (sc_queues s ! i)" by (simp only: queue_works_def same)
  with all_works_update [OF i, of q] have works: "all_works ?s = all_works s" by (simp add: all_works_def)
  have "queues_ok ?s" using ok queue_ok_update [of "sc_queues s" q i] q
    by (simp add: queues_ok_def works)
  moreover have "wq_ready (sc_queues ?s ! j) = wq_ready (sc_queues s ! j) \<and>
      wq_pinned (sc_queues ?s ! j) = wq_pinned (sc_queues s ! j)" for j
    using same i by (cases "j = i") simp_all
  ultimately show ?thesis using works by (simp add: take_from_def f same_tasks_def)
qed

lemma take_from_some:
  assumes ok: "queues_ok s" and i: "i < length (sc_queues s)"
    and f: "f (sc_queues s ! i) = Some (Some w, q)" and q: "queue_ok q"
    and works: "queue_works (sc_queues s ! i) = add_mset w (queue_works q)"
  shows "\<exists>s'. take_from now f i s = Some (Some w, s') \<and> queues_ok s' \<and> same_tasks s s' \<and>
    all_works s = add_mset w (all_works s') \<and> sc_queues s' = (sc_queues s)[i := q]"
proof -
  let ?s = "s\<lparr>sc_queues := (sc_queues s)[i := q]\<rparr>"
  have all: "all_works s = add_mset w (all_works ?s)"
    using all_works_update [OF i, of q] by (simp add: all_works_def works)
  then have t: "sc_tasks s (wk_task w) \<noteq> None" "sc_queued s \<noteq> 0"
    using queues_okD(4,5) [OF ok] by simp_all
  then obtain s' where s': "ConsumeQueued now (wk_task w) ?s = Some s'"
    by (auto simp: ConsumeQueued_def Let_def split: option.splits)
  then have r: "sc_queues s' = (sc_queues s)[i := q]" "sc_tasks s' = sc_tasks s" "sc_timers s' = sc_timers s"
      "sc_queued s' = sc_queued s - 1" "sc_stealCursors s' = sc_stealCursors s"
    by (auto simp: ConsumeQueued_def Let_def split: option.splits if_splits)
  have all': "all_works s = add_mset w (all_works s')" using all by (simp add: all_works_def r(1))
  have "queues_ok s'" using ok queue_ok_update [of "sc_queues s" q i] q
    by (simp add: queues_ok_def all' r)
  then show ?thesis using all' r by (simp add: take_from_def f s' same_tasks_def)
qed

text \<open>
  Work that a worker may take: what is in its own queue, and what is ready in the queues of others.
\<close>

definition may_take :: "scheduler \<Rightarrow> nat \<Rightarrow> bool" where
  "may_take s i \<longleftrightarrow> queue_works (sc_queues s ! i) \<noteq> {#} \<or>
     (\<exists>j < length (sc_queues s). j \<noteq> i \<and> works (wq_ready (sc_queues s ! j)) \<noteq> {#})"

definition took :: "scheduler \<Rightarrow> nat \<Rightarrow> work \<Rightarrow> scheduler \<Rightarrow> bool" where
  "took s i w s' \<longleftrightarrow> queues_ok s' \<and> same_tasks s s' \<and> all_works s = add_mset w (all_works s') \<and>
     (w \<in># queue_works (sc_queues s ! i) \<or>
       (\<exists>j < length (sc_queues s). j \<noteq> i \<and> w \<in># works (wq_ready (sc_queues s ! j)))) \<and>
     (\<forall>j < length (sc_queues s). works (wq_ready (sc_queues s' ! j)) \<subseteq># works (wq_ready (sc_queues s ! j)) \<and>
       works (wq_pinned (sc_queues s' ! j)) \<subseteq># works (wq_pinned (sc_queues s ! j)))"

lemma set_cursors_ok:
  "queues_ok s \<Longrightarrow> length c = length (sc_stealCursors s) \<Longrightarrow>
    queues_ok (s\<lparr>sc_stealCursors := c\<rparr>) \<and> queues_ok (s\<lparr>sc_stealCursors := c, sc_successfulSteals := n\<rparr>)"
  by (simp add: queues_ok_def all_works_def)

lemma steal_loop_ok:
  assumes "queues_ok s" and "victim < length (sc_queues s)"
  shows "(\<exists>w s'. steal_loop now i n victim s = Some (Some w, s') \<and> took s i w s') \<or>
    (\<exists>s'. steal_loop now i n victim s = Some (None, s') \<and> queues_ok s' \<and> same_tasks s s' \<and>
      all_works s' = all_works s \<and>
      (\<forall>k < n. (victim + k) mod length (sc_queues s) \<noteq> i \<longrightarrow>
        works (wq_ready (sc_queues s ! ((victim + k) mod length (sc_queues s)))) = {#}) \<and>
      (\<forall>j. wq_ready (sc_queues s' ! j) = wq_ready (sc_queues s ! j) \<and>
        wq_pinned (sc_queues s' ! j) = wq_pinned (sc_queues s ! j)))"
  using assms
proof (induction n arbitrary: victim s)
  case 0
  then show ?case by (simp add: set_cursors_ok same_tasks_def all_works_def)
next
  case (Suc n)
  let ?count = "length (sc_queues s)" and ?next = "(victim + 1) mod length (sc_queues s)"
  have lt: "?next < ?count" using Suc.prems(2) by (intro mod_less_divisor) linarith
  have shift: "(?next + k) mod ?count = (victim + Suc k) mod ?count" for k by (simp add: mod_simps)
  have all_Suc: "(\<forall>k < Suc n. P ((victim + k) mod ?count)) \<longleftrightarrow>
      P victim \<and> (\<forall>k < n. P ((?next + k) mod ?count))" for P
    unfolding All_less_Suc2 shift using Suc.prems(2) by simp
  show ?case
  proof (cases "victim = i")
    case True
    have "steal_loop now i (Suc n) victim s = steal_loop now i n ?next s" using True by simp
    then show ?thesis using Suc.IH [OF Suc.prems(1) lt] True
      unfolding all_Suc [of "\<lambda>v. v \<noteq> i \<longrightarrow> works (wq_ready (sc_queues s ! v)) = {#}"] by simp
  next
    case other: False
    note q = queues_okD(2) [OF Suc.prems]
    show ?thesis
    proof (cases "works (wq_ready (sc_queues s ! victim)) = {#}")
      case True
      obtain q' where q': "TakeStealable (sc_queues s ! victim) = Some (None, q')" "queue_ok q'"
          "wq_ready q' = wq_ready (sc_queues s ! victim)" "wq_pinned q' = wq_pinned (sc_queues s ! victim)"
        using TakeStealable_none [OF q True] by blast
      obtain s1 where s1: "take_from now TakeStealable victim s = Some (None, s1)" "queues_ok s1"
          "same_tasks s s1" "all_works s1 = all_works s"
          "\<forall>j. wq_ready (sc_queues s1 ! j) = wq_ready (sc_queues s ! j) \<and>
            wq_pinned (sc_queues s1 ! j) = wq_pinned (sc_queues s ! j)"
        using take_from_none [of s victim TakeStealable q', OF Suc.prems q'] by blast
      have len: "length (sc_queues s1) = ?count" using s1(3) by (simp add: same_tasks_def)
      have "steal_loop now i (Suc n) victim s = steal_loop now i n ?next s1"
        using other s1(1) by simp
      moreover have "took s1 i w s2 \<Longrightarrow> took s i w s2" for w s2
        using s1(3-5) len same_tasks_trans [OF s1(3)] by (simp add: took_def queue_works_def)
      moreover note Suc.IH [of s1 ?next] s1(2) lt
      ultimately show ?thesis
        unfolding all_Suc [of "\<lambda>v. v \<noteq> i \<longrightarrow> works (wq_ready (sc_queues s ! v)) = {#}"]
        using True s1(4,5) len same_tasks_trans [OF s1(3)] by (simp only: len simp_thms) metis
    next
      case False
      obtain w q' where q': "TakeStealable (sc_queues s ! victim) = Some (Some w, q')" "queue_ok q'"
          "works (wq_ready (sc_queues s ! victim)) = add_mset w (works (wq_ready q'))"
          "wq_pinned q' = wq_pinned (sc_queues s ! victim)"
        using TakeStealable_some [OF q False] by blast
      have qw: "queue_works (sc_queues s ! victim) = add_mset w (queue_works q')"
        by (simp add: queue_works_def q'(3,4))
      obtain s1 where s1: "take_from now TakeStealable victim s = Some (Some w, s1)" "queues_ok s1"
          "same_tasks s s1" "all_works s = add_mset w (all_works s1)"
          "sc_queues s1 = (sc_queues s)[victim := q']"
        using take_from_some [of s victim TakeStealable w q', OF Suc.prems q'(1,2) qw] by blast
      let ?s = "s1\<lparr>sc_stealCursors := (sc_stealCursors s1)[i := ?next], sc_successfulSteals := sc_successfulSteals s1 + 1\<rparr>"
      have sub: "works (wq_ready (sc_queues s1 ! j)) \<subseteq># works (wq_ready (sc_queues s ! j)) \<and>
          works (wq_pinned (sc_queues s1 ! j)) \<subseteq># works (wq_pinned (sc_queues s ! j))" for j
        using q'(3,4) Suc.prems(2) by (cases "j = victim") (simp_all add: s1(5))
      have "took s i w ?s"
        using set_cursors_ok [OF s1(2)] s1(3,4) other Suc.prems(2) q'(3) sub
        by (auto simp: took_def same_tasks_def all_works_def)
      moreover have "steal_loop now i (Suc n) victim s = Some (Some w, ?s)"
        using other s1(1) by simp
      ultimately show ?thesis by blast
    qed
  qed
qed

lemma all_works_member:
  "i < length (sc_queues s) \<Longrightarrow> w \<in># queue_works (sc_queues s ! i) \<Longrightarrow> w \<in># all_works s"
  unfolding all_works_def by (auto intro: nth_mem)

lemma may_take_works: "i < length (sc_queues s) \<Longrightarrow> may_take s i \<Longrightarrow> all_works s \<noteq> {#}"
proof -
  assume i: "i < length (sc_queues s)" "may_take s i"
  then obtain j w where "j < length (sc_queues s)" "w \<in># queue_works (sc_queues s ! j)"
    unfolding may_take_def queue_works_def by (metis multiset_nonemptyE union_iff)
  then have "w \<in># all_works s" by (rule all_works_member)
  then show ?thesis by auto
qed

lemma Take_ok:
  assumes "queues_ok s" and "i < length (sc_queues s)"
  shows "(may_take s i \<and> (\<exists>w s'. Take now i s = Some (Some w, s') \<and> took s i w s')) \<or>
    (\<not> may_take s i \<and> (\<exists>s'. Take now i s = Some (None, s') \<and> queues_ok s' \<and> same_tasks s s' \<and>
      all_works s' = all_works s \<and> (\<forall>j. wq_ready (sc_queues s' ! j) = wq_ready (sc_queues s ! j) \<and>
        wq_pinned (sc_queues s' ! j) = wq_pinned (sc_queues s ! j))))"
proof (cases "sc_queued s = 0")
  case True
  then have "all_works s = {#}" using queues_okD(4) [OF assms(1)] by simp
  then have "\<not> may_take s i" using may_take_works [OF assms(2)] by blast
  then show ?thesis using assms(1) True by (simp add: Take_def same_tasks_refl)
next
  case queued: False
  note q = queues_okD(2) [OF assms]
  show ?thesis
  proof (cases "queue_works (sc_queues s ! i) = {#}")
    case False
    then obtain w q' where q': "TakeLocal (sc_queues s ! i) = Some (Some w, q')" "queue_ok q'"
        "works (wq_ready (sc_queues s ! i)) = add_mset w (works (wq_ready q')) \<and> wq_pinned q' = wq_pinned (sc_queues s ! i) \<or>
         works (wq_pinned (sc_queues s ! i)) = add_mset w (works (wq_pinned q')) \<and> wq_ready q' = wq_ready (sc_queues s ! i)"
      using TakeLocal_some [OF q] by (auto simp: queue_works_def)
    have qw: "queue_works (sc_queues s ! i) = add_mset w (queue_works q')"
      using q'(3) by (auto simp: queue_works_def)
    obtain s1 where s1: "take_from now TakeLocal i s = Some (Some w, s1)" "queues_ok s1"
        "same_tasks s s1" "all_works s = add_mset w (all_works s1)"
        "sc_queues s1 = (sc_queues s)[i := q']"
      using take_from_some [of s i TakeLocal w q', OF assms q'(1,2) qw] by blast
    have "works (wq_ready (sc_queues s1 ! j)) \<subseteq># works (wq_ready (sc_queues s ! j)) \<and>
        works (wq_pinned (sc_queues s1 ! j)) \<subseteq># works (wq_pinned (sc_queues s ! j))" for j
      using q'(3) assms(2) by (cases "j = i") (auto simp: s1(5))
    then have "took s i w s1" using s1 qw by (simp add: took_def)
    moreover have "may_take s i" using False by (simp add: may_take_def)
    ultimately show ?thesis using queued s1(1) by (simp add: Take_def)
  next
    case True
    then have none: "works (wq_ready (sc_queues s ! i)) = {#}" "works (wq_pinned (sc_queues s ! i)) = {#}"
      by (simp_all add: queue_works_def)
    obtain q' where q': "TakeLocal (sc_queues s ! i) = Some (None, q')" "queue_ok q'"
        "wq_ready q' = wq_ready (sc_queues s ! i)" "wq_pinned q' = wq_pinned (sc_queues s ! i)"
      using TakeLocal_none [OF q none] by blast
    obtain s1 where s1: "take_from now TakeLocal i s = Some (None, s1)" "queues_ok s1"
        "same_tasks s s1" "all_works s1 = all_works s"
        "\<forall>j. wq_ready (sc_queues s1 ! j) = wq_ready (sc_queues s ! j) \<and>
          wq_pinned (sc_queues s1 ! j) = wq_pinned (sc_queues s ! j)"
      using take_from_none [of s i TakeLocal q', OF assms q'] by blast
    let ?n = "length (sc_queues s)"
    have len: "length (sc_queues s1) = ?n" using s1(3) by (simp add: same_tasks_def)
    have same: "may_take s1 i = may_take s i" using s1(5) len by (simp add: may_take_def queue_works_def)
    show ?thesis
    proof (cases "?n < 2")
      case True
      then have "\<not> may_take s i" using \<open>queue_works (sc_queues s ! i) = {#}\<close> assms(2) by (auto simp: may_take_def)
      then show ?thesis using queued s1 True len by (simp add: Take_def Let_def)
    next
      case False
      let ?v = "sc_stealCursors s1 ! i mod ?n"
      have v: "?v < length (sc_queues s1)" unfolding len using assms(2) by (intro mod_less_divisor) linarith
      have t: "Take now i s = steal_loop now i ?n ?v s1"
        using queued s1(1) False len by (simp add: Take_def Let_def)
      have took: "took s1 i w s2 \<Longrightarrow> took s i w s2" for w s2
        using s1(3-5) len same_tasks_trans [OF s1(3)] by (simp add: took_def queue_works_def)
      have reach: "\<exists>k < ?n. (?v + k) mod ?n = j" if "j < ?n" for j
      proof -
        have "(?v + (?n - ?v + j) mod ?n) mod ?n = (?v + (?n - ?v + j)) mod ?n" by (simp add: mod_simps)
        also have "\<dots> = j" using v len that by simp
        finally have "(?v + (?n - ?v + j) mod ?n) mod ?n = j" .
        moreover have "(?n - ?v + j) mod ?n < ?n" by (rule mod_less_divisor) (use that in linarith)
        ultimately show ?thesis by blast
      qed
      from steal_loop_ok [OF s1(2) v, of now i ?n] show ?thesis
      proof
        assume "\<exists>w s'. steal_loop now i ?n ?v s1 = Some (Some w, s') \<and> took s1 i w s'"
        then obtain w s' where r: "steal_loop now i ?n ?v s1 = Some (Some w, s')" "took s1 i w s'" by blast
        have ne: "queue_works (sc_queues s1 ! i) = {#}" using s1(5) True by (simp add: queue_works_def)
        have "may_take s1 i" using r(2) ne unfolding took_def may_take_def
          by (metis empty_iff set_mset_empty)
        then show ?thesis using r took same t by auto
      next
        assume "\<exists>s'. steal_loop now i ?n ?v s1 = Some (None, s') \<and> queues_ok s' \<and> same_tasks s1 s' \<and>
          all_works s' = all_works s1 \<and>
          (\<forall>k < ?n. (?v + k) mod length (sc_queues s1) \<noteq> i \<longrightarrow>
            works (wq_ready (sc_queues s1 ! ((?v + k) mod length (sc_queues s1)))) = {#}) \<and>
          (\<forall>j. wq_ready (sc_queues s' ! j) = wq_ready (sc_queues s1 ! j) \<and>
            wq_pinned (sc_queues s' ! j) = wq_pinned (sc_queues s1 ! j))"
        then obtain s' where r: "steal_loop now i ?n ?v s1 = Some (None, s')" "queues_ok s'" "same_tasks s1 s'"
          "all_works s' = all_works s1"
          "\<forall>k < ?n. (?v + k) mod ?n \<noteq> i \<longrightarrow> works (wq_ready (sc_queues s1 ! ((?v + k) mod ?n))) = {#}"
          "\<forall>j. wq_ready (sc_queues s' ! j) = wq_ready (sc_queues s1 ! j) \<and>
            wq_pinned (sc_queues s' ! j) = wq_pinned (sc_queues s1 ! j)" unfolding len by blast
        have "works (wq_ready (sc_queues s1 ! j)) = {#}" if "j < ?n" "j \<noteq> i" for j
          using reach [OF that(1)] r(5) that(2) by metis
        then have "\<not> may_take s i" using s1(5) True by (auto simp: may_take_def)
        then show ?thesis using r t s1 same_tasks_trans [OF s1(3) r(3)] by simp
      qed
    qed
  qed
qed

lemma enqueue_work_ok:
  assumes ok: "queues_ok s" and i: "i < length (sc_queues s)"
    and w: "-3 \<le> wk_priority w" "wk_priority w \<le> 3" and t: "sc_tasks s (wk_task w) \<noteq> None"
  shows "queues_ok (enqueue_work now p i w s)"
    and "all_works (enqueue_work now p i w s) = add_mset w (all_works s)"
    and "works (wq_ready (sc_queues (enqueue_work now p i w s) ! j)) =
      works (wq_ready (sc_queues s ! j)) + (if j = i \<and> \<not> p then {#w#} else {#})"
    and "works (wq_pinned (sc_queues (enqueue_work now p i w s) ! j)) =
      works (wq_pinned (sc_queues s ! j)) + (if j = i \<and> p then {#w#} else {#})"
proof -
  note q = queues_okD(2) [OF ok i] and d = queue_okD [OF queues_okD(2) [OF ok i]]
  let ?q = "sc_queues s ! i"
  define q' where "q' = (if p then ?q\<lparr>wq_pinned := EnqueueLane w (wq_pinned ?q)\<rparr>
                else ?q\<lparr>wq_ready := EnqueueLane w (wq_ready ?q)\<rparr>)"
  let ?s = "enqueue_work now p i w s"
  have s: "sc_queues ?s = (sc_queues s)[i := q']" "sc_queued ?s = sc_queued s + 1"
      "sc_stealCursors ?s = sc_stealCursors s" "sc_tasks ?s x = None \<longleftrightarrow> sc_tasks s x = None" for x
    by (simp_all add: enqueue_work_def q'_def Let_def)
  have q': "queue_ok q'" "queue_works q' = add_mset w (queue_works ?q)"
      "works (wq_ready q') = works (wq_ready ?q) + (if \<not> p then {#w#} else {#})"
      "works (wq_pinned q') = works (wq_pinned ?q) + (if p then {#w#} else {#})"
    using EnqueueLane_ok [OF d(1) w] EnqueueLane_ok [OF d(2) w] d
    by (simp_all add: q'_def queue_ok_def queue_works_def)
  show all: "all_works ?s = add_mset w (all_works s)"
    using all_works_update [OF i, of q'] by (simp add: all_works_def s(1) q'(2))
  show "queues_ok ?s" using ok queue_ok_update [of "sc_queues s" q' i] q'(1) t
    by (simp add: queues_ok_def all s)
  show "works (wq_ready (sc_queues ?s ! j)) =
      works (wq_ready (sc_queues s ! j)) + (if j = i \<and> \<not> p then {#w#} else {#})"
    "works (wq_pinned (sc_queues ?s ! j)) =
      works (wq_pinned (sc_queues s ! j)) + (if j = i \<and> p then {#w#} else {#})"
    using i q'(3,4) by (cases "j = i"; simp add: s(1))+
qed

end
