(* ===== verification/Task_Lifecycle.thy ===== *)
theory Task_Lifecycle
  imports Queue_Rules
begin

text \<open>
  The workers, the fibers and the threads outside the pool as a step relation over the scheduler:
  each step is what one thread does while it holds the mutex. In every state that can be reached
  a task is in one place, a suspended task has exactly one wake-up to come, and a task that has
  started stays with its worker.
\<close>

section \<open>Steps\<close>

text \<open>
  Where a worker is in \<open>Run\<close> and \<open>Execute\<close>: looking for work, before and after the fiber it runs,
  about to enqueue a task again, or resuming the waiters of a task that is done. A worker leaves the
  loop of \<open>Run\<close> when the scheduler stops and nothing is queued; the test comes after the work has been
  taken too, so a worker that has taken the last of the queued work leaves with it.
\<close>

datatype worker_state = Looking | Executing work | In_fiber work | Back work | Requeueing work
  | Notifying "nat list" | Stopped_with work | Stopped

text \<open>
  The list \<open>sys_outside\<close> has the suspended tasks that something other than a timer or a task will
  resume, once each: the waiters of mutexes, channels and their kin, and requests to the system.
\<close>

record system =
  sys_scheduler :: scheduler
  sys_workers :: "worker_state list"
  sys_outside :: "nat list"

definition initial_system :: "nat \<Rightarrow> system" where
  "initial_system n = \<lparr>sys_scheduler = new_scheduler n, sys_workers = replicate n Looking,
     sys_outside = []\<rparr>"

text \<open>A thread that calls the scheduler: a fiber on a worker, or -1 for any other thread.\<close>

definition caller :: "worker_state list \<Rightarrow> int \<Rightarrow> bool" where
  "caller workers p \<longleftrightarrow> p = -1 \<or>
     (\<exists>i w. p = int i \<and> i < length workers \<and> workers ! i = In_fiber w)"

definition after_slice :: "work \<Rightarrow> slice_end \<Rightarrow> worker_state" where
  "after_slice w e = (case e of Notify ts \<Rightarrow> Notifying ts | Requeue \<Rightarrow> Requeueing w | Rest \<Rightarrow> Looking)"

definition taken_work :: "work \<Rightarrow> scheduler \<Rightarrow> worker_state" where
  "taken_work w s = (if sc_stopping s \<and> sc_queued s = 0 then Stopped_with w else Executing w)"

inductive sys_step :: "system \<Rightarrow> system \<Rightarrow> bool" where
  step_spawn: "\<lbrakk> caller ws p; sc_tasks s t = None;
      spawn now p t control entry context core priority role s = Some s' \<rbrakk> \<Longrightarrow>
    sys_step \<lparr>sys_scheduler = s, sys_workers = ws, sys_outside = os\<rparr>
      \<lparr>sys_scheduler = s', sys_workers = ws, sys_outside = os\<rparr>"
| step_take: "\<lbrakk> i < length ws; ws ! i = Looking; PromoteTimers now (int i) s = Some s1;
      Take now i s1 = Some (Some w, s') \<rbrakk> \<Longrightarrow>
    sys_step \<lparr>sys_scheduler = s, sys_workers = ws, sys_outside = os\<rparr>
      \<lparr>sys_scheduler = s', sys_workers = ws[i := taken_work w s'], sys_outside = os\<rparr>"
| step_wait: "\<lbrakk> i < length ws; ws ! i = Looking; PromoteTimers now (int i) s = Some s1;
      Take now i s1 = Some (None, s') \<rbrakk> \<Longrightarrow>
    sys_step \<lparr>sys_scheduler = s, sys_workers = ws, sys_outside = os\<rparr>
      \<lparr>sys_scheduler = s', sys_workers = ws[i := if sc_stopping s' \<and> sc_queued s' = 0 then Stopped else Looking],
       sys_outside = os\<rparr>"
| step_begin: "\<lbrakk> i < length ws; ws ! i = Executing w; begin_slice i w s = Some s' \<rbrakk> \<Longrightarrow>
    sys_step \<lparr>sys_scheduler = s, sys_workers = ws, sys_outside = os\<rparr>
      \<lparr>sys_scheduler = s', sys_workers = ws[i := In_fiber w], sys_outside = os\<rparr>"
| step_sleep: "\<lbrakk> i < length ws; ws ! i = In_fiber w; SuspendUntil deadline (wk_task w) s = Some s' \<rbrakk> \<Longrightarrow>
    sys_step \<lparr>sys_scheduler = s, sys_workers = ws, sys_outside = os\<rparr>
      \<lparr>sys_scheduler = s', sys_workers = ws, sys_outside = os\<rparr>"
| step_await: "\<lbrakk> i < length ws; ws ! i = In_fiber w; Wait (wk_task w) t s = Some (False, s') \<rbrakk> \<Longrightarrow>
    sys_step \<lparr>sys_scheduler = s, sys_workers = ws, sys_outside = os\<rparr>
      \<lparr>sys_scheduler = s', sys_workers = ws, sys_outside = os\<rparr>"
| step_block: "\<lbrakk> i < length ws; ws ! i = In_fiber w; PrepareSuspend (wk_task w) s = Some s' \<rbrakk> \<Longrightarrow>
    sys_step \<lparr>sys_scheduler = s, sys_workers = ws, sys_outside = os\<rparr>
      \<lparr>sys_scheduler = s', sys_workers = ws, sys_outside = os @ [wk_task w]\<rparr>"
| step_yield: "\<lbrakk> i < length ws; ws ! i = In_fiber w; sc_tasks s (wk_task w) = Some k; tk_state k = Suspending \<rbrakk> \<Longrightarrow>
    sys_step \<lparr>sys_scheduler = s, sys_workers = ws, sys_outside = os\<rparr>
      \<lparr>sys_scheduler = s, sys_workers = ws[i := Back w], sys_outside = os\<rparr>"
| step_finish: "\<lbrakk> i < length ws; ws ! i = In_fiber w; sc_tasks s (wk_task w) = Some k; tk_state k = Running;
      finish_task (wk_task w) pending s = Some s' \<rbrakk> \<Longrightarrow>
    sys_step \<lparr>sys_scheduler = s, sys_workers = ws, sys_outside = os\<rparr>
      \<lparr>sys_scheduler = s', sys_workers = ws[i := Back w], sys_outside = os\<rparr>"
| step_back: "\<lbrakk> i < length ws; ws ! i = Back w; end_slice now w s = Some (e, s') \<rbrakk> \<Longrightarrow>
    sys_step \<lparr>sys_scheduler = s, sys_workers = ws, sys_outside = os\<rparr>
      \<lparr>sys_scheduler = s', sys_workers = ws[i := after_slice w e], sys_outside = os\<rparr>"
| step_requeue: "\<lbrakk> i < length ws; ws ! i = Requeueing w; Enqueue now (int i) (wk_task w) s = Some s' \<rbrakk> \<Longrightarrow>
    sys_step \<lparr>sys_scheduler = s, sys_workers = ws, sys_outside = os\<rparr>
      \<lparr>sys_scheduler = s', sys_workers = ws[i := Looking], sys_outside = os\<rparr>"
| step_notify: "\<lbrakk> i < length ws; ws ! i = Notifying (t # ts); Resume now (int i) (Some t) s = Some s' \<rbrakk> \<Longrightarrow>
    sys_step \<lparr>sys_scheduler = s, sys_workers = ws, sys_outside = os\<rparr>
      \<lparr>sys_scheduler = s', sys_workers = ws[i := Notifying ts], sys_outside = os\<rparr>"
| step_notified: "\<lbrakk> i < length ws; ws ! i = Notifying [] \<rbrakk> \<Longrightarrow>
    sys_step \<lparr>sys_scheduler = s, sys_workers = ws, sys_outside = os\<rparr>
      \<lparr>sys_scheduler = s, sys_workers = ws[i := Looking], sys_outside = os\<rparr>"
| step_resume: "\<lbrakk> caller ws p; t \<in> set os; Resume now p (Some t) s = Some s' \<rbrakk> \<Longrightarrow>
    sys_step \<lparr>sys_scheduler = s, sys_workers = ws, sys_outside = os\<rparr>
      \<lparr>sys_scheduler = s', sys_workers = ws, sys_outside = remove1 t os\<rparr>"
| step_reclaim: "\<lbrakk> sc_tasks s t = Some k; tk_done k; await_done t s = Some (context, failure, s') \<rbrakk> \<Longrightarrow>
    sys_step \<lparr>sys_scheduler = s, sys_workers = ws, sys_outside = os\<rparr>
      \<lparr>sys_scheduler = s', sys_workers = ws, sys_outside = os\<rparr>"
| step_stop: "sys_step \<lparr>sys_scheduler = s, sys_workers = ws, sys_outside = os\<rparr>
      \<lparr>sys_scheduler = s\<lparr>sc_stopping := True\<rparr>, sys_workers = ws, sys_outside = os\<rparr>"

definition reachable :: "nat \<Rightarrow> system \<Rightarrow> bool" where
  "reachable n y \<longleftrightarrow> sys_step\<^sup>*\<^sup>* (initial_system n) y"

section \<open>Places and wake-ups\<close>

datatype place = In_queue | Held_executing | Held_fiber | Held_back | Held_requeueing | Dropped

fun place_in :: "worker_state \<Rightarrow> nat \<Rightarrow> place multiset" where
  "place_in (Executing w) t = (if wk_task w = t then {#Held_executing#} else {#})"
| "place_in (In_fiber w) t = (if wk_task w = t then {#Held_fiber#} else {#})"
| "place_in (Back w) t = (if wk_task w = t then {#Held_back#} else {#})"
| "place_in (Requeueing w) t = (if wk_task w = t then {#Held_requeueing#} else {#})"
| "place_in (Stopped_with w) t = (if wk_task w = t then {#Dropped#} else {#})"
| "place_in _ t = {#}"

text \<open>All places that a task is in.\<close>

definition places :: "work multiset \<Rightarrow> worker_state list \<Rightarrow> nat \<Rightarrow> place multiset" where
  "places W ws t = replicate_mset (count (image_mset wk_task W) t) In_queue +
     (\<Sum>x \<in># mset ws. place_in x t)"

fun to_notify :: "worker_state \<Rightarrow> nat list" where
  "to_notify (Notifying ts) = ts"
| "to_notify _ = []"

definition awaiting :: "(nat \<rightharpoonup> task) \<Rightarrow> nat \<Rightarrow> nat" where
  "awaiting tasks t = (\<Sum>u \<in> dom tasks. count_list (tk_completionWaiters (the (tasks u))) t)"

text \<open>The wake-ups that a task has to come.\<close>

definition wakes :: "(nat \<rightharpoonup> task) \<Rightarrow> timer list \<Rightarrow> worker_state list \<Rightarrow> nat list \<Rightarrow> nat \<Rightarrow> nat" where
  "wakes tasks timers ws os t = awaiting tasks t + count_list (map (snd \<circ> snd) timers) t +
     count_list os t + (\<Sum>x \<in># mset ws. count_list (to_notify x) t)"

definition task_ok :: "task option \<Rightarrow> place multiset \<Rightarrow> nat \<Rightarrow> bool" where
  "task_ok k P n \<longleftrightarrow> (case k of
     None \<Rightarrow> P = {#} \<and> n = 0
   | Some k \<Rightarrow> -3 \<le> tk_priority k \<and> tk_priority k \<le> 3 \<and>
       (case tk_state k of
          Pending \<Rightarrow> False
        | Runnable \<Rightarrow> (P = {#In_queue#} \<or> P = {#Held_executing#} \<or> P = {#Held_requeueing#} \<or> P = {#Dropped#}) \<and> n = 0 \<and>
            \<not> tk_wakePending k \<and> \<not> tk_finished k \<and> \<not> tk_done k
        | Running \<Rightarrow> (P = {#Held_fiber#} \<and> \<not> tk_finished k \<or> P = {#Held_back#} \<and> tk_finished k) \<and> n = 0 \<and>
            \<not> tk_wakePending k \<and> \<not> tk_done k
        | Suspending \<Rightarrow> (P = {#Held_fiber#} \<or> P = {#Held_back#}) \<and> n = (if tk_wakePending k then 0 else 1) \<and>
            \<not> tk_finished k \<and> \<not> tk_done k
        | Suspended \<Rightarrow> P = {#} \<and> n = 1 \<and> tk_suspensionActive k \<and>
            \<not> tk_wakePending k \<and> \<not> tk_finished k \<and> \<not> tk_done k
        | Done \<Rightarrow> P = {#} \<and> n = 0 \<and> tk_finished k \<and> tk_done k \<and> tk_completionWaiters k = []))"

text \<open>The workers that a task may be with: the owner, once it has one.\<close>

definition owner_in :: "(nat \<rightharpoonup> task) \<Rightarrow> int set \<Rightarrow> work \<Rightarrow> bool" where
  "owner_in tasks owners w \<longleftrightarrow> (\<exists>k. tasks (wk_task w) = Some k \<and> tk_ownerWorker k \<in> owners)"

fun worker_owns :: "(nat \<rightharpoonup> task) \<Rightarrow> nat \<Rightarrow> worker_state \<Rightarrow> bool" where
  "worker_owns tasks i (Executing w) = owner_in tasks {-1, int i} w"
| "worker_owns tasks i (In_fiber w) = owner_in tasks {int i} w"
| "worker_owns tasks i (Back w) = owner_in tasks {int i} w"
| "worker_owns tasks i (Requeueing w) = owner_in tasks {int i} w"
| "worker_owns tasks i (Stopped_with w) = owner_in tasks {-1, int i} w"
| "worker_owns tasks i _ = True"

definition owners_ok :: "scheduler \<Rightarrow> worker_state list \<Rightarrow> bool" where
  "owners_ok s ws \<longleftrightarrow>
     (\<forall>i < length (sc_queues s).
        (\<forall>w. w \<in># works (wq_ready (sc_queues s ! i)) \<longrightarrow> owner_in (sc_tasks s) {-1} w) \<and>
        (\<forall>w. w \<in># works (wq_pinned (sc_queues s ! i)) \<longrightarrow> owner_in (sc_tasks s) {int i} w)) \<and>
     (\<forall>i < length ws. worker_owns (sc_tasks s) i (ws ! i)) \<and>
     (\<forall>t k. sc_tasks s t = Some k \<longrightarrow> -1 \<le> tk_ownerWorker k \<and> tk_ownerWorker k < int (length ws))"

definition sys_ok :: "scheduler \<Rightarrow> timer list \<Rightarrow> worker_state list \<Rightarrow> nat list \<Rightarrow> bool" where
  "sys_ok s timers ws os \<longleftrightarrow> queues_ok s \<and> finite (dom (sc_tasks s)) \<and> length ws = length (sc_queues s) \<and>
     (\<forall>t. task_ok (sc_tasks s t) (places (all_works s) ws t) (wakes (sc_tasks s) timers ws os t)) \<and>
     owners_ok s ws"

section \<open>How places and wake-ups change\<close>

lemma sum_update:
  fixes f :: "'a \<Rightarrow> 'b::comm_monoid_add"
  assumes "i < length xs"
  shows "(\<Sum>x \<in># mset (xs[i := y]). f x) + f (xs ! i) = (\<Sum>x \<in># mset xs. f x) + f y"
proof -
  have "xs ! i \<in># mset xs" using assms by simp
  then obtain M where M: "mset xs = add_mset (xs ! i) M" by (metis insert_DiffM)
  then have "mset (xs[i := y]) = add_mset y M" by (simp add: mset_update [OF assms])
  with M show ?thesis by (simp add: ac_simps)
qed

lemma places_worker:
  "i < length ws \<Longrightarrow> places W (ws[i := x]) t + place_in (ws ! i) t = places W ws t + place_in x t"
  using sum_update [of i ws "\<lambda>x. place_in x t" x] by (simp add: places_def add.assoc)

lemma places_add: "places (add_mset w W) ws t = places W ws t + (if wk_task w = t then {#In_queue#} else {#})"
  by (simp add: places_def)

lemma wakes_worker:
  "i < length ws \<Longrightarrow> wakes tasks timers (ws[i := x]) os t + count_list (to_notify (ws ! i)) t =
     wakes tasks timers ws os t + count_list (to_notify x) t"
  using sum_update [of i ws "\<lambda>x. count_list (to_notify x) t" x] by (simp add: wakes_def)

lemma awaiting_update:
  assumes "finite (dom tasks)" and "tasks a = Some k"
  shows "awaiting (tasks(a \<mapsto> k')) t + count_list (tk_completionWaiters k) t =
    awaiting tasks t + count_list (tk_completionWaiters k') t"
proof -
  let ?f = "\<lambda>m u. count_list (tk_completionWaiters (the (m u))) t"
  have a: "a \<in> dom tasks" "dom (tasks(a \<mapsto> k')) = dom tasks" using assms(2) by auto
  have "(\<Sum>u \<in> dom tasks - {a}. ?f (tasks(a \<mapsto> k')) u) = (\<Sum>u \<in> dom tasks - {a}. ?f tasks u)"
    by (rule sum.cong) auto
  then show ?thesis unfolding awaiting_def a(2) sum.remove [OF assms(1) a(1)] using assms(2) by simp
qed

lemma awaiting_same:
  assumes "finite (dom tasks)" and "tasks a = Some k" and "tk_completionWaiters k' = tk_completionWaiters k"
  shows "awaiting (tasks(a \<mapsto> k')) t = awaiting tasks t"
  using awaiting_update [OF assms(1,2), of k' t] assms(3) by simp

lemma awaiting_new:
  assumes "finite (dom tasks)" and "tasks a = None" and "tk_completionWaiters k = []"
  shows "awaiting (tasks(a \<mapsto> k)) t = awaiting tasks t"
proof -
  have "(\<Sum>u \<in> dom tasks. count_list (tk_completionWaiters (the ((tasks(a \<mapsto> k)) u))) t) = awaiting tasks t"
    unfolding awaiting_def by (rule sum.cong) (use assms(2) in auto)
  moreover have "a \<notin> dom tasks" using assms(2) by auto
  ultimately show ?thesis using assms(1,3) by (simp add: awaiting_def)
qed

lemma awaiting_gone:
  assumes "finite (dom tasks)" and "tasks a = Some k" and "tk_completionWaiters k = []"
  shows "awaiting (tasks(a := None)) t = awaiting tasks t"
proof -
  have a: "a \<in> dom tasks" using assms(2) by auto
  have "(\<Sum>u \<in> dom tasks - {a}. count_list (tk_completionWaiters (the ((tasks(a := None)) u))) t) =
      (\<Sum>u \<in> dom tasks - {a}. count_list (tk_completionWaiters (the (tasks u))) t)"
    by (rule sum.cong) auto
  moreover have "dom (tasks(a := None)) = dom tasks - {a}" by auto
  ultimately show ?thesis using assms(2,3) by (simp add: awaiting_def sum.remove [OF assms(1) a])
qed

lemma count_list_remove1: "t \<in> set xs \<Longrightarrow> count_list (remove1 t xs) u + (if u = t then 1 else 0) = count_list xs u"
  by (induction xs) auto

section \<open>Owners\<close>

definition keeps_owners :: "(nat \<rightharpoonup> task) \<Rightarrow> (nat \<rightharpoonup> task) \<Rightarrow> bool" where
  "keeps_owners tasks tasks' \<longleftrightarrow>
     (\<forall>u. map_option tk_ownerWorker (tasks' u) = map_option tk_ownerWorker (tasks u))"

lemma keeps_owners_update:
  "tasks a = Some k \<Longrightarrow> tk_ownerWorker k' = tk_ownerWorker k \<Longrightarrow> keeps_owners tasks (tasks(a \<mapsto> k'))"
  by (simp add: keeps_owners_def)

lemma keeps_owners_refl: "keeps_owners tasks tasks"
  by (simp add: keeps_owners_def)

lemma owner_in_keeps: "keeps_owners tasks tasks' \<Longrightarrow> owner_in tasks' owners w = owner_in tasks owners w"
proof -
  assume "keeps_owners tasks tasks'"
  then have k: "map_option tk_ownerWorker (tasks' (wk_task w)) = map_option tk_ownerWorker (tasks (wk_task w))"
    by (simp add: keeps_owners_def)
  have e: "owner_in m owners w \<longleftrightarrow> (\<exists>x \<in> owners. map_option tk_ownerWorker (m (wk_task w)) = Some x)" for m
    by (auto simp: owner_in_def)
  show ?thesis unfolding e k ..
qed

lemma worker_owns_keeps: "keeps_owners tasks tasks' \<Longrightarrow> worker_owns tasks' i x = worker_owns tasks i x"
  by (cases x) (simp_all add: owner_in_keeps)

lemma owners_okI:
  assumes "\<And>i w. i < length (sc_queues s) \<Longrightarrow> w \<in># works (wq_ready (sc_queues s ! i)) \<Longrightarrow> owner_in (sc_tasks s) {-1} w"
    and "\<And>i w. i < length (sc_queues s) \<Longrightarrow> w \<in># works (wq_pinned (sc_queues s ! i)) \<Longrightarrow> owner_in (sc_tasks s) {int i} w"
    and "\<And>i. i < length ws \<Longrightarrow> worker_owns (sc_tasks s) i (ws ! i)"
    and "\<And>t k. sc_tasks s t = Some k \<Longrightarrow> -1 \<le> tk_ownerWorker k \<and> tk_ownerWorker k < int (length ws)"
  shows "owners_ok s ws"
  using assms unfolding owners_ok_def by blast

lemma owners_okD:
  assumes "owners_ok s ws"
  shows "i < length (sc_queues s) \<Longrightarrow> w \<in># works (wq_ready (sc_queues s ! i)) \<Longrightarrow> owner_in (sc_tasks s) {-1} w"
    and "i < length (sc_queues s) \<Longrightarrow> w \<in># works (wq_pinned (sc_queues s ! i)) \<Longrightarrow> owner_in (sc_tasks s) {int i} w"
    and "i < length ws \<Longrightarrow> worker_owns (sc_tasks s) i (ws ! i)"
    and "sc_tasks s t = Some k \<Longrightarrow> -1 \<le> tk_ownerWorker k" and "sc_tasks s t = Some k \<Longrightarrow> tk_ownerWorker k < int (length ws)"
  using assms unfolding owners_ok_def by blast+

lemma owners_ok_keeps:
  assumes "owners_ok s ws" and "keeps_owners (sc_tasks s) (sc_tasks s')" and "sc_queues s' = sc_queues s"
  shows "owners_ok s' ws"
proof (rule owners_okI)
  show "-1 \<le> tk_ownerWorker k \<and> tk_ownerWorker k < int (length ws)" if "sc_tasks s' t = Some k" for t k
  proof -
    have "map_option tk_ownerWorker (sc_tasks s' t) = map_option tk_ownerWorker (sc_tasks s t)"
      using assms(2) unfolding keeps_owners_def by blast
    with that obtain k0 where "sc_tasks s t = Some k0" "tk_ownerWorker k0 = tk_ownerWorker k"
      by (cases "sc_tasks s t") auto
    then show ?thesis using owners_okD(4,5) [OF assms(1)] by metis
  qed
qed (use owners_okD(1-3) [OF assms(1)] in
  \<open>simp_all add: owner_in_keeps [OF assms(2)] worker_owns_keeps [OF assms(2)] assms(3)\<close>)

lemma owners_ok_worker:
  assumes "owners_ok s ws" and "worker_owns (sc_tasks s) i x"
  shows "owners_ok s (ws[i := x])"
proof (rule owners_okI)
  show "worker_owns (sc_tasks s) j (ws[i := x] ! j)" if "j < length (ws[i := x])" for j
    using owners_okD(3) [OF assms(1), of j] assms(2) that by (cases "j = i") simp_all
qed (use owners_okD [OF assms(1)] in simp_all)

section \<open>The invariant\<close>

lemma sys_okI:
  assumes "queues_ok s" and "finite (dom (sc_tasks s))" and "length ws = length (sc_queues s)"
    and "\<And>t. task_ok (sc_tasks s t) (places (all_works s) ws t) (wakes (sc_tasks s) timers ws os t)"
    and "owners_ok s ws"
  shows "sys_ok s timers ws os"
  using assms unfolding sys_ok_def by blast

lemma sys_okD:
  assumes "sys_ok s timers ws os"
  shows "queues_ok s" and "finite (dom (sc_tasks s))" and "length ws = length (sc_queues s)"
    and "task_ok (sc_tasks s t) (places (all_works s) ws t) (wakes (sc_tasks s) timers ws os t)"
    and "owners_ok s ws"
  using assms unfolding sys_ok_def by blast+

lemma task_ok_priority: "task_ok (Some k) P n \<Longrightarrow> -3 \<le> tk_priority k \<and> tk_priority k \<le> 3"
  by (simp add: task_ok_def)

lemma Enqueue_ok:
  assumes "queues_ok s" and "owners_ok s ws" and "length ws = length (sc_queues s)"
    and "sc_tasks s t = Some k" and "-3 \<le> tk_priority k" and "tk_priority k \<le> 3" and "p < int (length ws)"
  shows "\<exists>s' w. Enqueue now p t s = Some s' \<and> queues_ok s' \<and> all_works s' = add_mset w (all_works s) \<and>
    wk_task w = t \<and> sc_tasks s' = (sc_tasks s)(t \<mapsto> k\<lparr>tk_queuedAt := now\<rparr>) \<and>
    length (sc_queues s') = length (sc_queues s) \<and> sc_timers s' = sc_timers s \<and> owners_ok s' ws"
proof -
  let ?n = "length (sc_queues s)" and ?w = "task_work t k"
  have w: "wk_task ?w = t" "-3 \<le> wk_priority ?w" "wk_priority ?w \<le> 3"
    using assms(5,6) by (simp_all add: task_work_def)
  have pos: "0 < ?n" using queues_okD(1) [OF assms(1)] by simp
  define pin where "pin = (0 \<le> tk_ownerWorker k)"
  define i where "i = (if pin then nat (tk_ownerWorker k) else submission_queue p s)"
  define s0 where "s0 = (if pin then s else s\<lparr>sc_nextSubmissionQueue := sc_nextSubmissionQueue s + 1\<rparr>)"
  have s0: "sc_queues s0 = sc_queues s" "sc_tasks s0 = sc_tasks s" "sc_timers s0 = sc_timers s"
      "all_works s0 = all_works s" "queues_ok s0"
    using assms(1) by (simp_all add: s0_def queues_ok_def all_works_def)
  have i: "i < length (sc_queues s0)"
  proof (cases pin)
    case True
    then show ?thesis using owners_okD(5) [OF assms(2,4)] assms(3) by (simp add: i_def s0 pin_def nat_less_iff)
  next
    case False
    then show ?thesis using assms(3,7) pos by (simp add: i_def s0 submission_queue_def nat_less_iff)
  qed
  let ?s' = "enqueue_work now pin i ?w s0"
  have e: "Enqueue now p t s = Some ?s'"
    by (simp add: Enqueue_def assms(4) pin_def i_def s0_def)
  have t: "sc_tasks s0 (wk_task ?w) \<noteq> None" by (simp add: w(1) s0 assms(4))
  note q = enqueue_work_ok [OF s0(5) i w(2,3) t, of now pin]
  have tasks: "sc_tasks ?s' = (sc_tasks s)(t \<mapsto> k\<lparr>tk_queuedAt := now\<rparr>)"
    by (simp add: enqueue_work_def Let_def s0 w(1) assms(4))
  have rest: "length (sc_queues ?s') = ?n" "sc_timers ?s' = sc_timers s"
    by (simp_all add: enqueue_work_def Let_def s0)
  have keeps: "keeps_owners (sc_tasks s) (sc_tasks ?s')"
    unfolding tasks by (rule keeps_owners_update [of "sc_tasks s" t k, OF assms(4)]) simp
  have owner: "owner_in (sc_tasks s) owners ?w \<longleftrightarrow> tk_ownerWorker k \<in> owners" for owners
    by (simp add: owner_in_def w(1) assms(4))
  have "owners_ok ?s' ws"
  proof (rule owners_okI)
    show "owner_in (sc_tasks ?s') {-1} x"
      if "j < length (sc_queues ?s')" "x \<in># works (wq_ready (sc_queues ?s' ! j))" for j x
    proof (cases "x = ?w \<and> \<not> pin")
      case True
      then have "tk_ownerWorker k = -1" using owners_okD(4) [OF assms(2,4)] by (simp add: pin_def)
      with True owner have "owner_in (sc_tasks s) {-1} x" by simp
      then show ?thesis by (simp only: owner_in_keeps [OF keeps])
    next
      case False
      then have "x \<in># works (wq_ready (sc_queues s ! j))" using that(2) by (simp add: q(3) s0(1) split: if_splits)
      then show ?thesis using that(1) owners_okD(1) [OF assms(2), of j x] by (simp add: owner_in_keeps [OF keeps] rest(1))
    qed
    show "owner_in (sc_tasks ?s') {int j} x"
      if "j < length (sc_queues ?s')" "x \<in># works (wq_pinned (sc_queues ?s' ! j))" for j x
    proof (cases "x \<in># works (wq_pinned (sc_queues s ! j))")
      case True
      then show ?thesis using that(1) owners_okD(2) [OF assms(2), of j x] by (simp add: owner_in_keeps [OF keeps] rest(1))
    next
      case False
      then have "x = ?w" "pin" "j = i" using that(2) by (simp_all add: q(4) s0(1) split: if_splits)
      then have "owner_in (sc_tasks s) {int j} x" by (simp add: owner i_def pin_def)
      then show ?thesis by (simp only: owner_in_keeps [OF keeps])
    qed
    show "worker_owns (sc_tasks ?s') j (ws ! j)" if "j < length ws" for j
      using owners_okD(3) [OF assms(2) that] by (simp add: worker_owns_keeps [OF keeps])
    show "-1 \<le> tk_ownerWorker k' \<and> tk_ownerWorker k' < int (length ws)" if "sc_tasks ?s' u = Some k'" for u k'
    proof (cases "u = t")
      case True
      with that have "tk_ownerWorker k' = tk_ownerWorker k" by (auto simp: tasks)
      then show ?thesis using owners_okD(4,5) [OF assms(2,4)] by simp
    next
      case False
      with that show ?thesis using owners_okD(4,5) [OF assms(2), of u k'] by (simp add: tasks)
    qed
  qed
  with e q(1,2) tasks rest w(1) show ?thesis unfolding s0(4) by blast
qed

lemma wakes_tasks: "awaiting tasks' u = awaiting tasks u \<Longrightarrow> wakes tasks' timers ws os u = wakes tasks timers ws os u"
  by (simp add: wakes_def)

lemma queues_ok_cong:
  assumes "queues_ok s" and "sc_queues s' = sc_queues s" and "sc_stealCursors s' = sc_stealCursors s"
    and "sc_queued s' = sc_queued s" and "\<And>u. sc_tasks s u \<noteq> None \<Longrightarrow> sc_tasks s' u \<noteq> None"
  shows "queues_ok s'"
  using assms by (simp add: queues_ok_def all_works_def)

text \<open>A change of one task that leaves the queues alone.\<close>

lemma sys_ok_change:
  assumes ok: "sys_ok s timers ws os" and k: "sc_tasks s t = Some k"
    and s': "sc_queues s' = sc_queues s" "sc_stealCursors s' = sc_stealCursors s" "sc_queued s' = sc_queued s"
      "sc_tasks s' = (sc_tasks s)(t \<mapsto> k')"
    and k': "tk_completionWaiters k' = tk_completionWaiters k"
    and len: "length ws' = length ws"
    and other: "\<And>u. u \<noteq> t \<Longrightarrow> places (all_works s) ws' u = places (all_works s) ws u"
      "\<And>u. u \<noteq> t \<Longrightarrow> wakes (sc_tasks s) timers' ws' os' u = wakes (sc_tasks s) timers ws os u"
    and here: "task_ok (Some k') (places (all_works s) ws' t) (wakes (sc_tasks s) timers' ws' os' t)"
    and owners: "owners_ok s' ws'"
  shows "sys_ok s' timers' ws' os'"
proof (rule sys_okI)
  have w: "wakes (sc_tasks s') timers' ws' os' u = wakes (sc_tasks s) timers' ws' os' u" for u
    unfolding s'(4) by (rule wakes_tasks, rule awaiting_same [OF sys_okD(2) [OF ok] k k'])
  have works: "all_works s' = all_works s" by (simp add: all_works_def s'(1))
  show "queues_ok s'"
    by (rule queues_ok_cong [OF sys_okD(1) [OF ok] s'(1-3)]) (simp add: s'(4))
  show "finite (dom (sc_tasks s'))" using sys_okD(2) [OF ok] by (simp add: s'(4))
  show "length ws' = length (sc_queues s')" using sys_okD(3) [OF ok] len by (simp add: s'(1))
  show "task_ok (sc_tasks s' u) (places (all_works s') ws' u) (wakes (sc_tasks s') timers' ws' os' u)" for u
    using sys_okD(4) [OF ok, of u] here other [of u] unfolding w works by (cases "u = t") (simp_all add: s'(4))
qed (rule owners)

lemma sys_ok_set:
  assumes ok: "sys_ok s timers ws os" and k: "sc_tasks s t = Some k"
    and s': "sc_queues s' = sc_queues s" "sc_stealCursors s' = sc_stealCursors s" "sc_queued s' = sc_queued s"
      "sc_tasks s' = (sc_tasks s)(t \<mapsto> k')"
    and k': "tk_ownerWorker k' = tk_ownerWorker k" "tk_completionWaiters k' = tk_completionWaiters k"
    and len: "length ws' = length ws"
    and other: "\<And>u. u \<noteq> t \<Longrightarrow> places (all_works s) ws' u = places (all_works s) ws u"
      "\<And>u. u \<noteq> t \<Longrightarrow> wakes (sc_tasks s) timers' ws' os' u = wakes (sc_tasks s) timers ws os u"
    and here: "task_ok (Some k') (places (all_works s) ws' t) (wakes (sc_tasks s) timers' ws' os' t)"
    and owners: "owners_ok s ws'"
  shows "sys_ok s' timers' ws' os'"
proof -
  have keeps: "keeps_owners (sc_tasks s) (sc_tasks s')"
    unfolding s'(4) by (rule keeps_owners_update [of "sc_tasks s" t k, OF k k'(1)])
  show ?thesis
    by (rule sys_ok_change [of s timers ws os t k s' k', OF ok k s' k'(2) len other here
      owners_ok_keeps [OF owners keeps s'(1)]])
qed

text \<open>A task that becomes runnable and enters a queue.\<close>

lemma sys_ok_enqueue:
  assumes ok: "sys_ok s timers ws os" and k: "sc_tasks s t = Some k"
    and s1: "sc_queues s1 = sc_queues s" "sc_stealCursors s1 = sc_stealCursors s" "sc_queued s1 = sc_queued s"
      "sc_tasks s1 = (sc_tasks s)(t \<mapsto> k')" "sc_timers s1 = sc_timers s"
    and k': "tk_ownerWorker k' = tk_ownerWorker k" "tk_completionWaiters k' = tk_completionWaiters k"
      "tk_priority k' = tk_priority k" "tk_state k' = Runnable" "\<not> tk_wakePending k'" "\<not> tk_finished k'" "\<not> tk_done k'"
    and len: "length ws' = length ws" and p: "p < int (length ws)"
    and other: "\<And>u. u \<noteq> t \<Longrightarrow> places (all_works s) ws' u = places (all_works s) ws u"
      "\<And>u. u \<noteq> t \<Longrightarrow> wakes (sc_tasks s) timers' ws' os' u = wakes (sc_tasks s) timers ws os u"
    and here: "places (all_works s) ws' t = {#}" "wakes (sc_tasks s) timers' ws' os' t = 0"
    and owners: "owners_ok s ws'"
  shows "\<exists>s'. Enqueue now p t s1 = Some s' \<and> sys_ok s' timers' ws' os' \<and> sc_timers s' = sc_timers s"
proof -
  have keeps: "keeps_owners (sc_tasks s) (sc_tasks s1)"
    unfolding s1(4) by (rule keeps_owners_update [of "sc_tasks s" t k, OF k k'(1)])
  have q1: "queues_ok s1"
    by (rule queues_ok_cong [OF sys_okD(1) [OF ok] s1(1-3)]) (simp add: s1(4))
  have o1: "owners_ok s1 ws'" by (rule owners_ok_keeps [OF owners keeps s1(1)])
  have l1: "length ws' = length (sc_queues s1)" using sys_okD(3) [OF ok] len by (simp add: s1(1))
  have t1: "sc_tasks s1 t = Some k'" by (simp add: s1(4))
  have prio: "-3 \<le> tk_priority k'" "tk_priority k' \<le> 3"
    using task_ok_priority [of k] sys_okD(4) [OF ok, of t] k k'(3) by auto
  have p1: "p < int (length ws')" using p len by simp
  obtain s' w where s': "Enqueue now p t s1 = Some s'" "queues_ok s'" "all_works s' = add_mset w (all_works s1)"
      "wk_task w = t" "sc_tasks s' = (sc_tasks s1)(t \<mapsto> k'\<lparr>tk_queuedAt := now\<rparr>)"
      "length (sc_queues s') = length (sc_queues s1)" "sc_timers s' = sc_timers s1" "owners_ok s' ws'"
    using Enqueue_ok [OF q1 o1 l1 t1 prio p1, of now] by blast
  have works: "all_works s1 = all_works s" by (simp add: all_works_def s1(1))
  have tasks: "sc_tasks s' = (sc_tasks s)(t \<mapsto> k'\<lparr>tk_queuedAt := now\<rparr>)" by (simp add: s'(5) s1(4))
  have w: "wakes (sc_tasks s') timers' ws' os' u = wakes (sc_tasks s) timers' ws' os' u" for u
    unfolding tasks by (rule wakes_tasks, rule awaiting_same [OF sys_okD(2) [OF ok] k]) (simp add: k'(2))
  have pl: "places (all_works s') ws' u = places (all_works s) ws' u + (if u = t then {#In_queue#} else {#})" for u
    by (simp add: s'(3,4) works places_add)
  have "sys_ok s' timers' ws' os'"
  proof (rule sys_okI [OF s'(2)])
    show "finite (dom (sc_tasks s'))" using sys_okD(2) [OF ok] by (simp add: tasks)
    show "length ws' = length (sc_queues s')" using l1 s'(6) by simp
    show "task_ok (sc_tasks s' u) (places (all_works s') ws' u) (wakes (sc_tasks s') timers' ws' os' u)" for u
    proof (cases "u = t")
      case True
      show ?thesis unfolding w pl True here using k' prio by (simp add: tasks task_ok_def)
    next
      case False
      then show ?thesis using sys_okD(4) [OF ok, of u] other [OF False] unfolding w pl by (simp add: tasks)
    qed
  qed (rule s'(8))
  then show ?thesis using s'(1,7) s1(5) by simp
qed

lemma task_ok_waiting:
  assumes "task_ok o' P n" and "0 < n"
  obtains k where "o' = Some k" and "n = 1"
    and "tk_state k = Suspending \<and> \<not> tk_wakePending k \<or> tk_state k = Suspended \<and> tk_suspensionActive k"
  using assms by (cases o') (auto simp: task_ok_def split: task_state.splits if_splits)

lemma Wake_ok:
  assumes ok: "sys_ok s timers ws os" and p: "p < int (length ws)" and len: "length ws' = length ws"
    and fewer: "\<And>u. wakes (sc_tasks s) timers' ws' os' u + (if u = t then 1 else 0) = wakes (sc_tasks s) timers ws os u"
    and same: "\<And>u. places (all_works s) ws' u = places (all_works s) ws u"
    and owners: "owners_ok s ws'"
  shows "\<exists>s'. Wake now p t s = Some s' \<and> sys_ok s' timers' ws' os' \<and> sc_timers s' = sc_timers s"
proof -
  have "0 < wakes (sc_tasks s) timers ws os t" using fewer [of t] by simp
  then obtain k where k: "sc_tasks s t = Some k" "wakes (sc_tasks s) timers ws os t = 1"
      "tk_state k = Suspending \<and> \<not> tk_wakePending k \<or> tk_state k = Suspended \<and> tk_suspensionActive k"
    by (rule task_ok_waiting [OF sys_okD(4) [OF ok, of t]])
  have none: "wakes (sc_tasks s) timers' ws' os' t = 0" using fewer [of t] k(2) by simp
  have others: "wakes (sc_tasks s) timers' ws' os' u = wakes (sc_tasks s) timers ws os u" if "u \<noteq> t" for u
    using fewer [of u] that by simp
  note here_ok = sys_okD(4) [OF ok, of t, unfolded k(1,2)]
  show ?thesis
  proof (cases "tk_state k = Suspending")
    case True
    then have np: "\<not> tk_wakePending k" using k(3) by simp
    let ?s = "set_task t (k\<lparr>tk_wakePending := True\<rparr>) (s\<lparr>sc_wakeUps := sc_wakeUps s + 1\<rparr>)"
    have "Wake now p t s = Some ?s" using True np by (simp add: Wake_def k(1))
    moreover have "sys_ok ?s timers' ws' os'"
      by (rule sys_ok_set [where k' = "k\<lparr>tk_wakePending := True\<rparr>", OF ok k(1) _ _ _ _ _ _ len same others _ owners])
        (use here_ok True np in \<open>simp_all add: set_task_def none same task_ok_def\<close>)
    moreover have "sc_timers ?s = sc_timers s" by (simp add: set_task_def)
    ultimately show ?thesis by blast
  next
    case False
    then have st: "tk_state k = Suspended" "tk_suspensionActive k" using k(3) by simp_all
    let ?k = "k\<lparr>tk_suspensionActive := False, tk_state := Runnable\<rparr>"
    let ?s = "set_task t ?k (s\<lparr>sc_wakeUps := sc_wakeUps s + 1, sc_suspendedTasks := sc_suspendedTasks s - 1,
       sc_blockedNanoseconds := sc_blockedNanoseconds s + ElapsedNanoseconds (tk_suspendedAt k) now\<rparr>)"
    have "Wake now p t s = Enqueue now p t ?s" using st by (simp add: Wake_def k(1))
    moreover have "\<exists>s'. Enqueue now p t ?s = Some s' \<and> sys_ok s' timers' ws' os' \<and> sc_timers s' = sc_timers s"
      by (rule sys_ok_enqueue [where k' = ?k, OF ok k(1) _ _ _ _ _ _ _ _ _ _ _ _ len p same others _ none owners])
        (use here_ok st in \<open>simp_all add: set_task_def same task_ok_def\<close>)
    ultimately show ?thesis by simp
  qed
qed

text \<open>What only moves the counters and the timers.\<close>

lemma sys_ok_cong:
  assumes "sys_ok s timers ws os" and "sc_queues s' = sc_queues s" and "sc_stealCursors s' = sc_stealCursors s"
    and "sc_queued s' = sc_queued s" and "sc_tasks s' = sc_tasks s"
  shows "sys_ok s' timers ws os"
proof -
  have works: "all_works s' = all_works s" by (simp add: all_works_def assms(2))
  show ?thesis using assms(1) unfolding sys_ok_def queues_ok_def owners_ok_def works assms(2-5) .
qed

lemma promote_ok:
  "sys_ok s ts ws os \<Longrightarrow> p < int (length ws) \<Longrightarrow>
    \<exists>s'. promote now p ts s = Some s' \<and> sys_ok s' (sc_timers s') ws os"
proof (induction now p ts s rule: promote.induct)
  case (1 now p s)
  have "sys_ok (s\<lparr>sc_timers := []\<rparr>) [] ws os" by (rule sys_ok_cong [OF "1.prems"(1)]) simp_all
  then show ?case by simp
next
  case (2 now p deadline number t rest s)
  show ?case
  proof (cases "deadline \<le> now")
    case True
    have "wakes (sc_tasks s) rest ws os u + (if u = t then 1 else 0) =
        wakes (sc_tasks s) ((deadline, number, t) # rest) ws os u" for u
      by (simp add: wakes_def)
    from Wake_ok [OF "2.prems" refl this refl sys_okD(5) [OF "2.prems"(1)], of now]
    obtain s1 where s1: "Wake now p t s = Some s1" "sys_ok s1 rest ws os" by blast
    with "2.IH" [OF True s1 "2.prems"(2)] show ?thesis using True by simp
  next
    case False
    have "sys_ok (s\<lparr>sc_timers := (deadline, number, t) # rest\<rparr>) ((deadline, number, t) # rest) ws os"
      by (rule sys_ok_cong [OF "2.prems"(1)]) simp_all
    then show ?thesis using False by simp
  qed
qed

abbreviation good :: "scheduler \<Rightarrow> worker_state list \<Rightarrow> nat list \<Rightarrow> bool" where
  "good s ws os \<equiv> sys_ok s (sc_timers s) ws os"

lemma PromoteTimers_ok:
  "good s ws os \<Longrightarrow> p < int (length ws) \<Longrightarrow> \<exists>s'. PromoteTimers now p s = Some s' \<and> good s' ws os"
  unfolding PromoteTimers_def by (rule promote_ok)

lemma places_other:
  assumes "i < length ws" and "\<And>u. u \<noteq> t \<Longrightarrow> place_in (ws ! i) u = {#} \<and> place_in x u = {#}" and "u \<noteq> t"
  shows "places W (ws[i := x]) u = places W ws u"
  using places_worker [OF assms(1), of W x u] assms(2) [OF assms(3)] by simp

lemma places_held:
  assumes "i < length ws" and "places W ws t = P" and "place_in (ws ! i) t = P"
  shows "places W (ws[i := x]) t = place_in x t"
  using places_worker [OF assms(1), of W x t] assms(2,3) by simp

lemma held_place: "i < length ws \<Longrightarrow> place_in (ws ! i) t \<subseteq># places W ws t"
  using places_worker [of i ws W Looking t] by (metis mset_subset_eq_add_right place_in.simps(6) add.right_neutral)

text \<open>What the place of a task tells of its state.\<close>

lemma held_task:
  assumes "task_ok o' P n" and "{#h#} \<subseteq># P"
  obtains k where "o' = Some k" and "P = {#h#}"
    and "h = Held_executing \<Longrightarrow> tk_state k = Runnable \<and> \<not> tk_finished k \<and> n = 0"
    and "h = Held_requeueing \<Longrightarrow> tk_state k = Runnable \<and> \<not> tk_finished k \<and> n = 0"
    and "h = In_queue \<Longrightarrow> tk_state k = Runnable \<and> \<not> tk_finished k \<and> n = 0"
    and "h = Held_fiber \<Longrightarrow> tk_state k = Running \<and> \<not> tk_finished k \<and> \<not> tk_wakePending k \<and> n = 0 \<or> tk_state k = Suspending \<and> \<not> tk_finished k"
    and "h = Held_back \<Longrightarrow> tk_state k = Running \<and> tk_finished k \<and> n = 0 \<or> tk_state k = Suspending \<and> \<not> tk_finished k"
proof -
  obtain k where k: "o' = Some k" using assms by (cases o') (auto simp: task_ok_def)
  have "h \<in># P" using mset_subset_eqD [OF assms(2), of h] by simp
  then have P: "P = {#h#}" using assms(1) by (auto simp: task_ok_def k split: task_state.splits)
  show ?thesis
    by (rule that [OF k P]) (use assms(1) in \<open>auto simp: task_ok_def k P split: task_state.splits\<close>)
qed

lemma two_places:
  assumes "i < length ws" and "j < length ws" and "i \<noteq> j"
  shows "place_in (ws ! i) t + place_in (ws ! j) t \<subseteq># places W ws t"
  using held_place [of j "ws[i := Looking]" t W] places_worker [OF assms(1), of W Looking t] assms
  by (metis add.commute add.right_neutral length_list_update mset_subset_eq_mono_add_left_cancel nth_list_update_neq place_in.simps(6))

lemma not_queued: "In_queue \<notin># places W ws t \<Longrightarrow> x \<in># W \<Longrightarrow> wk_task x \<noteq> t"
proof
  assume a: "In_queue \<notin># places W ws t" "x \<in># W" "wk_task x = t"
  then have "t \<in># image_mset wk_task W" by auto
  then have "count (image_mset wk_task W) t \<noteq> 0" by (simp only: count_eq_zero_iff not_not)
  with a(1) show False unfolding places_def union_iff in_replicate_mset by (meson gr0I)
qed

lemma owner_in_other: "wk_task x \<noteq> t \<Longrightarrow> owner_in (tasks(t := o')) owners x = owner_in tasks owners x"
  by (simp add: owner_in_def)

lemma worker_owns_other:
  "place_in x t = {#} \<Longrightarrow> worker_owns (tasks(t := o')) i x = worker_owns tasks i x"
  by (cases x) (simp_all add: owner_in_other split: if_splits)

lemma queue_works_in: "i < length (sc_queues s) \<Longrightarrow> x \<in># queue_works (sc_queues s ! i) \<Longrightarrow> x \<in># all_works s"
  using nth_mem by (fastforce simp: all_works_def)

text \<open>A task held by worker \<open>i\<close> and nowhere else, and a change of its owner.\<close>

lemma owners_ok_begin:
  assumes owners: "owners_ok s ws" and i: "i < length ws" "i < length (sc_queues s)"
    and P: "places (all_works s) ws t = {#h#}" "place_in (ws ! i) t = {#h#}" "h \<noteq> In_queue"
    and s': "sc_queues s' = sc_queues s" "sc_tasks s' = (sc_tasks s)(t \<mapsto> k')"
    and k': "tk_ownerWorker k' = int i" and x: "worker_owns (sc_tasks s') i x"
  shows "owners_ok s' (ws[i := x])"
proof (rule owners_okI)
  have free: "y \<in># queue_works (sc_queues s ! j) \<Longrightarrow> j < length (sc_queues s) \<Longrightarrow> wk_task y \<noteq> t" for y j
    using not_queued [of "all_works s" ws t y] queue_works_in P(1,3) by auto
  show "owner_in (sc_tasks s') {-1} y"
    if "j < length (sc_queues s')" "y \<in># works (wq_ready (sc_queues s' ! j))" for j y
    using that owners_okD(1) [OF owners] free [of y j] by (simp add: s' owner_in_other queue_works_def)
  show "owner_in (sc_tasks s') {int j} y"
    if "j < length (sc_queues s')" "y \<in># works (wq_pinned (sc_queues s' ! j))" for j y
    using that owners_okD(2) [OF owners] free [of y j] by (simp add: s' owner_in_other queue_works_def)
  show "worker_owns (sc_tasks s') j (ws[i := x] ! j)" if "j < length (ws[i := x])" for j
  proof (cases "j = i")
    case False
    then have "place_in (ws ! j) t = {#}"
      using two_places [of i ws j t "all_works s"] that i(1) P by auto
    then show ?thesis using False that owners_okD(3) [OF owners, of j] by (simp add: s'(2) worker_owns_other)
  qed (use x i in simp)
  show "-1 \<le> tk_ownerWorker k \<and> tk_ownerWorker k < int (length (ws[i := x]))" if "sc_tasks s' u = Some k" for u k
    using that owners_okD(4,5) [OF owners, of u] i(1) k' by (auto simp: s'(2) split: if_splits)
qed

lemma task_ok_place:
  "task_ok (Some k) {#In_queue#} n \<longleftrightarrow> -3 \<le> tk_priority k \<and> tk_priority k \<le> 3 \<and> n = 0 \<and>
     tk_state k = Runnable \<and> \<not> tk_wakePending k \<and> \<not> tk_finished k \<and> \<not> tk_done k"
  "task_ok (Some k) {#Held_executing#} n \<longleftrightarrow> -3 \<le> tk_priority k \<and> tk_priority k \<le> 3 \<and> n = 0 \<and>
     tk_state k = Runnable \<and> \<not> tk_wakePending k \<and> \<not> tk_finished k \<and> \<not> tk_done k"
  "task_ok (Some k) {#Held_requeueing#} n \<longleftrightarrow> -3 \<le> tk_priority k \<and> tk_priority k \<le> 3 \<and> n = 0 \<and>
     tk_state k = Runnable \<and> \<not> tk_wakePending k \<and> \<not> tk_finished k \<and> \<not> tk_done k"
  "task_ok (Some k) {#Dropped#} n \<longleftrightarrow> -3 \<le> tk_priority k \<and> tk_priority k \<le> 3 \<and> n = 0 \<and>
     tk_state k = Runnable \<and> \<not> tk_wakePending k \<and> \<not> tk_finished k \<and> \<not> tk_done k"
  "task_ok (Some k) {#Held_fiber#} n \<longleftrightarrow> -3 \<le> tk_priority k \<and> tk_priority k \<le> 3 \<and> \<not> tk_finished k \<and> \<not> tk_done k \<and>
     (tk_state k = Running \<and> \<not> tk_wakePending k \<and> n = 0 \<or>
      tk_state k = Suspending \<and> n = (if tk_wakePending k then 0 else 1))"
  "task_ok (Some k) {#Held_back#} n \<longleftrightarrow> -3 \<le> tk_priority k \<and> tk_priority k \<le> 3 \<and> \<not> tk_done k \<and>
     (tk_state k = Running \<and> tk_finished k \<and> \<not> tk_wakePending k \<and> n = 0 \<or>
      tk_state k = Suspending \<and> \<not> tk_finished k \<and> n = (if tk_wakePending k then 0 else 1))"
  by (cases "tk_state k"; simp add: task_ok_def conj_ac; fail)+

lemma task_ok_no_place:
  "task_ok (Some k) {#} n \<longleftrightarrow> -3 \<le> tk_priority k \<and> tk_priority k \<le> 3 \<and>
     (tk_state k = Suspended \<and> n = 1 \<and> tk_suspensionActive k \<and> \<not> tk_wakePending k \<and> \<not> tk_finished k \<and> \<not> tk_done k \<or>
      tk_state k = Done \<and> n = 0 \<and> tk_finished k \<and> tk_done k \<and> tk_completionWaiters k = [])"
  by (cases "tk_state k") (auto simp: task_ok_def)

lemma wakes_quiet:
  "i < length ws \<Longrightarrow> to_notify (ws ! i) = [] \<Longrightarrow> to_notify x = [] \<Longrightarrow>
    wakes tasks timers (ws[i := x]) os u = wakes tasks timers ws os u"
  using wakes_worker [of i ws tasks timers x os u] by simp

lemma held_by:
  assumes ok: "good s ws os" and i: "i < length ws" and h: "place_in (ws ! i) t = {#h#}"
  obtains k where "sc_tasks s t = Some k" and "places (all_works s) ws t = {#h#}"
    and "task_ok (Some k) {#h#} (wakes (sc_tasks s) (sc_timers s) ws os t)"
proof -
  have "{#h#} \<subseteq># places (all_works s) ws t" using held_place [OF i, of t "all_works s"] unfolding h .
  from sys_okD(4) [OF ok, of t] this obtain k
    where k: "sc_tasks s t = Some k" "places (all_works s) ws t = {#h#}" by (rule held_task)
  then show ?thesis using that sys_okD(4) [OF ok, of t] by simp
qed

section \<open>Every step keeps the invariant and can be made\<close>

lemma begin_ok:
  assumes ok: "good s ws os" and i: "i < length ws" and w: "ws ! i = Executing w"
  shows "\<exists>s'. begin_slice i w s = Some s' \<and> good s' (ws[i := In_fiber w]) os"
proof -
  let ?t = "wk_task w"
  have h: "place_in (ws ! i) ?t = {#Held_executing#}" by (simp add: w)
  obtain k where k: "sc_tasks s ?t = Some k" "places (all_works s) ws ?t = {#Held_executing#}"
      "task_ok (Some k) {#Held_executing#} (wakes (sc_tasks s) (sc_timers s) ws os ?t)"
    by (rule held_by [OF ok i h])
  have own: "tk_ownerWorker k = -1 \<or> tk_ownerWorker k = int i"
    using owners_okD(3) [OF sys_okD(5) [OF ok] i] by (simp add: w owner_in_def k(1))
  define own' where "own' = (if tk_ownerWorker k < 0 then int i else tk_ownerWorker k)"
  have own': "own' = int i" using own by (auto simp: own'_def)
  let ?k = "k\<lparr>tk_ownerWorker := own', tk_fiberCreated := True, tk_state := Running\<rparr>"
  let ?s = "set_task ?t ?k s"
  have b: "begin_slice i w s = Some ?s" by (simp add: begin_slice_def k(1) own'_def)
  have "owners_ok ?s (ws[i := In_fiber w])"
    by (rule owners_ok_begin [where k' = ?k, OF sys_okD(5) [OF ok] i _ k(2) h])
      (use i sys_okD(3) [OF ok] in \<open>simp_all add: set_task_def owner_in_def own'\<close>)
  then have "good ?s (ws[i := In_fiber w]) os"
    by (intro sys_ok_change [of s "sc_timers s" ws os ?t k _ ?k, OF ok k(1)])
      (use k(2,3) i w in \<open>simp_all add: set_task_def wakes_quiet places_other [of i ws ?t]
        places_held [OF i k(2) h] task_ok_place\<close>)
  with b show ?thesis by blast
qed

text \<open>A change of the task that worker \<open>i\<close> holds, and of the state of the worker.\<close>

lemma sys_ok_held:
  assumes ok: "good s ws os" and i: "i < length ws" and k: "sc_tasks s t = Some k"
    and P: "places (all_works s) ws t = {#h#}" "place_in (ws ! i) t = {#h#}" "place_in x t = P'"
      "\<And>u. u \<noteq> t \<Longrightarrow> place_in (ws ! i) u = {#} \<and> place_in x u = {#}"
    and s': "sc_queues s' = sc_queues s" "sc_stealCursors s' = sc_stealCursors s" "sc_queued s' = sc_queued s"
      "sc_tasks s' = (sc_tasks s)(t \<mapsto> k')"
    and k': "tk_ownerWorker k' = tk_ownerWorker k" "tk_completionWaiters k' = tk_completionWaiters k"
    and more: "to_notify (ws ! i) = []" "to_notify x = []" "\<And>u. wakes (sc_tasks s) (sc_timers s') ws os' u =
      wakes (sc_tasks s) (sc_timers s) ws os u + (if u = t then n else 0)"
    and here: "task_ok (Some k') P' (wakes (sc_tasks s) (sc_timers s) ws os t + n)"
    and x: "worker_owns (sc_tasks s) i x"
  shows "good s' (ws[i := x]) os'"
proof (rule sys_ok_set [of s "sc_timers s" ws os t k s' k', OF ok k s' k'])
  show "owners_ok s (ws[i := x])" by (rule owners_ok_worker [OF sys_okD(5) [OF ok] x])
qed (use places_other [OF i, of t x] places_held [OF i P(1,2)] P here
  in \<open>simp_all add: wakes_quiet [OF i more(1,2)] more(3)\<close>)

lemma push_timer_count:
  "count_list (map (snd \<circ> snd) (push_timer x ts)) u =
     count_list (map (snd \<circ> snd) ts) u + (if u = snd (snd x) then 1 else 0)"
  by (induction ts) auto

lemma in_fiber_running:
  assumes ok: "good s ws os" and i: "i < length ws" and w: "ws ! i = In_fiber w"
    and k: "sc_tasks s (wk_task w) = Some k" and run: "tk_state k = Running"
  shows "places (all_works s) ws (wk_task w) = {#Held_fiber#}"
    and "wakes (sc_tasks s) (sc_timers s) ws os (wk_task w) = 0"
    and "-3 \<le> tk_priority k \<and> tk_priority k \<le> 3 \<and> \<not> tk_finished k \<and> \<not> tk_done k \<and> \<not> tk_wakePending k"
proof -
  have h: "place_in (ws ! i) (wk_task w) = {#Held_fiber#}" by (simp add: w)
  obtain k' where k': "sc_tasks s (wk_task w) = Some k'" "places (all_works s) ws (wk_task w) = {#Held_fiber#}"
      "task_ok (Some k') {#Held_fiber#} (wakes (sc_tasks s) (sc_timers s) ws os (wk_task w))"
    by (rule held_by [OF ok i h])
  show "places (all_works s) ws (wk_task w) = {#Held_fiber#}" by (rule k'(2))
  show "wakes (sc_tasks s) (sc_timers s) ws os (wk_task w) = 0"
    "-3 \<le> tk_priority k \<and> tk_priority k \<le> 3 \<and> \<not> tk_finished k \<and> \<not> tk_done k \<and> \<not> tk_wakePending k"
    using k'(1,3) k run by (simp_all add: task_ok_place)
qed

lemma suspend_ok:
  assumes ok: "good s ws os" and i: "i < length ws" and w: "ws ! i = In_fiber w"
    and k: "sc_tasks s (wk_task w) = Some k" and run: "tk_state k = Running"
  shows "\<exists>s'. SuspendUntil deadline (wk_task w) s = Some s' \<and> good s' ws os"
    and "\<exists>s'. PrepareSuspend (wk_task w) s = Some s' \<and> good s' ws (os @ [wk_task w])"
proof -
  let ?t = "wk_task w" and ?k = "k\<lparr>tk_state := Suspending\<rparr>"
  let ?s = "set_task ?t ?k s"
  note r = in_fiber_running [OF assms]
  have p: "PrepareSuspend ?t s = Some ?s" by (simp add: PrepareSuspend_def k run)
  have same: "ws = ws[i := In_fiber w]" using w by (metis list_update_id)
  have h: "place_in (ws ! i) ?t = {#Held_fiber#}" "place_in (In_fiber w) ?t = {#Held_fiber#}" by (simp_all add: w)
  have x: "worker_owns (sc_tasks s) i (In_fiber w)" using owners_okD(3) [OF sys_okD(5) [OF ok] i] by (simp add: w)
  have "good ?s (ws[i := In_fiber w]) (os @ [?t])"
    by (rule sys_ok_held [where k' = ?k and n = 1, OF ok i k r(1) h])
      (use r(2,3) x in \<open>simp_all add: set_task_def w wakes_def task_ok_place\<close>)
  then show "\<exists>s'. PrepareSuspend ?t s = Some s' \<and> good s' ws (os @ [?t])"
    using p by (simp flip: same)
  let ?s2 = "?s\<lparr>sc_timers := push_timer (deadline, sc_nextTimerSequence ?s, ?t) (sc_timers ?s),
    sc_nextTimerSequence := sc_nextTimerSequence ?s + 1\<rparr>"
  have "good ?s2 (ws[i := In_fiber w]) os"
    by (rule sys_ok_held [where k' = ?k and n = 1, OF ok i k r(1) h])
      (use r(2,3) x in \<open>simp_all add: set_task_def w wakes_def push_timer_count task_ok_place del: map_map\<close>)
  then show "\<exists>s'. SuspendUntil deadline ?t s = Some s' \<and> good s' ws os"
    using p by (simp add: SuspendUntil_def flip: same)
qed

lemma await_ok:
  assumes ok: "good s ws os" and i: "i < length ws" and w: "ws ! i = In_fiber w"
    and k: "sc_tasks s (wk_task w) = Some k" and run: "tk_state k = Running"
    and t: "sc_tasks s t = Some kt" "t \<noteq> wk_task w" "\<not> tk_done kt"
  shows "\<exists>s'. Wait (wk_task w) t s = Some (False, s') \<and> good s' ws os"
proof -
  let ?c = "wk_task w" and ?k = "k\<lparr>tk_state := Suspending\<rparr>"
    and ?kt = "kt\<lparr>tk_completionWaiters := tk_completionWaiters kt @ [wk_task w]\<rparr>"
  let ?m = "(sc_tasks s)(t \<mapsto> ?kt)" and ?s = "set_task ?c ?k (set_task t ?kt s)"
  note r = in_fiber_running [OF ok i w k run] and fin = sys_okD(2) [OF ok]
  have c: "?m ?c = Some k" using t(2) k by simp
  have wait: "Wait ?c t s = Some (False, ?s)"
    using t c run by (simp add: Wait_def PrepareSuspend_def set_task_def)
  have tasks: "sc_tasks ?s = ?m(?c \<mapsto> ?k)" by (simp add: set_task_def)
  have "awaiting ?m u + count_list (tk_completionWaiters kt) u =
      awaiting (sc_tasks s) u + count_list (tk_completionWaiters ?kt) u" for u
    by (rule awaiting_update [OF fin t(1)])
  then have "awaiting ?m u = awaiting (sc_tasks s) u + (if u = ?c then 1 else 0)" for u
    by (auto simp: algebra_simps)
  moreover have "awaiting (?m(?c \<mapsto> ?k)) u = awaiting ?m u" for u
    by (rule awaiting_same [of ?m ?c k, OF _ c]) (use fin in simp_all)
  ultimately have n: "wakes (sc_tasks ?s) ts ws os u = wakes (sc_tasks s) ts ws os u + (if u = ?c then 1 else 0)" for u ts
    by (simp add: wakes_def tasks)
  have rest: "sc_queues ?s = sc_queues s" "sc_timers ?s = sc_timers s" "all_works ?s = all_works s"
    by (simp_all add: set_task_def all_works_def)
  have "good ?s ws os"
  proof (rule sys_okI)
    show "queues_ok ?s"
      by (rule queues_ok_cong [OF sys_okD(1) [OF ok]]) (simp_all add: set_task_def)
    show "finite (dom (sc_tasks ?s))" using fin by (simp add: tasks)
    show "length ws = length (sc_queues ?s)" using sys_okD(3) [OF ok] by (simp add: rest)
    show "task_ok (sc_tasks ?s u) (places (all_works ?s) ws u) (wakes (sc_tasks ?s) (sc_timers ?s) ws os u)" for u
    proof (cases "u = ?c")
      case True
      show ?thesis unfolding n rest True r(1,2) using r(3) by (simp add: tasks task_ok_place)
    next
      case False
      then have "task_ok (sc_tasks ?s u) P m = task_ok (sc_tasks s u) P m" for P m
        using t by (cases "u = t") (auto simp: tasks task_ok_def split: task_state.splits)
      then show ?thesis using False sys_okD(4) [OF ok, of u] by (simp add: n rest)
    qed
    have "keeps_owners (sc_tasks s) (sc_tasks ?s)"
      using t(1) k by (simp add: tasks keeps_owners_def)
    from owners_ok_keeps [OF sys_okD(5) [OF ok] this rest(1)] show "owners_ok ?s ws" .
  qed
  with wait show ?thesis by blast
qed

lemma yield_ok:
  assumes ok: "good s ws os" and i: "i < length ws" and w: "ws ! i = In_fiber w"
    and k: "sc_tasks s (wk_task w) = Some k" and st: "tk_state k = Suspending"
  shows "good s (ws[i := Back w]) os"
proof -
  have h: "place_in (ws ! i) (wk_task w) = {#Held_fiber#}" "place_in (Back w) (wk_task w) = {#Held_back#}"
    by (simp_all add: w)
  obtain k' where k': "sc_tasks s (wk_task w) = Some k'" "places (all_works s) ws (wk_task w) = {#Held_fiber#}"
      "task_ok (Some k') {#Held_fiber#} (wakes (sc_tasks s) (sc_timers s) ws os (wk_task w))"
    by (rule held_by [OF ok i h(1)])
  have x: "worker_owns (sc_tasks s) i (Back w)" using owners_okD(3) [OF sys_okD(5) [OF ok] i] by (simp add: w)
  show ?thesis
    by (rule sys_ok_held [where k' = k and n = 0, OF ok i k k'(2) h])
      (use k'(1,3) k st x in \<open>simp_all add: w task_ok_place fun_upd_idem\<close>)
qed

lemma finish_ok:
  assumes ok: "good s ws os" and i: "i < length ws" and w: "ws ! i = In_fiber w"
    and k: "sc_tasks s (wk_task w) = Some k" and run: "tk_state k = Running"
  shows "\<exists>s'. finish_task (wk_task w) pending s = Some s' \<and> good s' (ws[i := Back w]) os"
proof -
  let ?t = "wk_task w"
  define k' where "k' = (case pending of None \<Rightarrow> k\<lparr>tk_finished := True\<rparr>
    | Some (handle, type, typeName, message) \<Rightarrow> k\<lparr>tk_errorHandle := handle, tk_errorType := type,
        tk_errorTypeName := typeName, tk_errorMessage := message, tk_finished := True\<rparr>)"
  have f: "finish_task ?t pending s = Some (set_task ?t k' s)" by (simp add: finish_task_def k k'_def)
  have k': "tk_ownerWorker k' = tk_ownerWorker k" "tk_completionWaiters k' = tk_completionWaiters k"
      "tk_priority k' = tk_priority k" "tk_state k' = tk_state k" "tk_wakePending k' = tk_wakePending k"
      "tk_done k' = tk_done k" "tk_finished k'"
    by (simp_all add: k'_def split: option.split prod.split)
  have h: "place_in (ws ! i) ?t = {#Held_fiber#}" "place_in (Back w) ?t = {#Held_back#}"
    by (simp_all add: w)
  note r = in_fiber_running [OF ok i w k run]
  have x: "worker_owns (sc_tasks s) i (Back w)" using owners_okD(3) [OF sys_okD(5) [OF ok] i] by (simp add: w)
  have "good (set_task ?t k' s) (ws[i := Back w]) os"
    by (rule sys_ok_held [where k' = k' and n = 0, OF ok i k r(1) h])
      (use r(2,3) k' run x in \<open>simp_all add: w set_task_def task_ok_place\<close>)
  with f show ?thesis by blast
qed

lemma back_ok:
  assumes ok: "good s ws os" and i: "i < length ws" and w: "ws ! i = Back w"
  shows "\<exists>e s'. end_slice now w s = Some (e, s') \<and> good s' (ws[i := after_slice w e]) os"
proof -
  let ?t = "wk_task w"
  have h: "place_in (ws ! i) ?t = {#Held_back#}" by (simp add: w)
  obtain k where k: "sc_tasks s ?t = Some k" and P: "places (all_works s) ws ?t = {#Held_back#}"
      and okt: "task_ok (Some k) {#Held_back#} (wakes (sc_tasks s) (sc_timers s) ws os ?t)"
    by (rule held_by [OF ok i h])
  have own: "worker_owns (sc_tasks s) i (Requeueing w)" using owners_okD(3) [OF sys_okD(5) [OF ok] i] by (simp add: w)
  consider (finished) "tk_finished k" "tk_state k = Running" | (wake) "\<not> tk_finished k" "tk_state k = Suspending" "tk_wakePending k"
    | (rest) "\<not> tk_finished k" "tk_state k = Suspending" "\<not> tk_wakePending k"
    using okt by (auto simp: task_ok_place)
  then show ?thesis
  proof cases
    case wake
    let ?k = "k\<lparr>tk_wakePending := False, tk_state := Runnable\<rparr>"
    have "end_slice now w s = Some (Requeue, set_task ?t ?k s)" using wake by (simp add: end_slice_def k)
    moreover have "good (set_task ?t ?k s) (ws[i := Requeueing w]) os"
      by (rule sys_ok_held [where k' = ?k and n = 0, OF ok i k P h refl])
        (use okt wake own in \<open>simp_all add: w set_task_def task_ok_place\<close>)
    ultimately show ?thesis by (auto simp: after_slice_def)
  next
    case rest
    let ?k = "k\<lparr>tk_state := Suspended, tk_suspendedAt := now, tk_suspensionActive := True\<rparr>"
    let ?s = "set_task ?t ?k (s\<lparr>sc_suspendedTasks := sc_suspendedTasks s + 1\<rparr>)"
    have "end_slice now w s = Some (Rest, ?s)" using rest by (simp add: end_slice_def k)
    moreover have "good ?s (ws[i := Looking]) os"
      by (rule sys_ok_held [where k' = ?k and n = 0, OF ok i k P h refl])
        (use okt rest in \<open>simp_all add: w set_task_def task_ok_place task_ok_no_place\<close>)
    ultimately show ?thesis by (auto simp: after_slice_def)
  next
    case finished
    let ?k = "k\<lparr>tk_fiberCreated := False, tk_state := Done, tk_done := True, tk_completionWaiters := []\<rparr>"
    let ?s = "set_task ?t ?k (s\<lparr>sc_completedTasks := sc_completedTasks s + 1\<rparr>)" and ?x = "Notifying (tk_completionWaiters k)"
    have e: "end_slice now w s = Some (Notify (tk_completionWaiters k), ?s)" using finished by (simp add: end_slice_def k)
    have tasks: "sc_tasks ?s = (sc_tasks s)(?t \<mapsto> ?k)" "sc_queues ?s = sc_queues s" "sc_timers ?s = sc_timers s"
        "all_works ?s = all_works s" by (simp_all add: set_task_def all_works_def)
    note fin = sys_okD(2) [OF ok]
    have "awaiting (sc_tasks ?s) u + count_list (tk_completionWaiters k) u = awaiting (sc_tasks s) u" for u
      using awaiting_update [OF fin k, of ?k u] by (simp add: tasks)
    then have n: "wakes (sc_tasks ?s) ts (ws[i := ?x]) os u = wakes (sc_tasks s) ts ws os u" for u ts
      using wakes_worker [OF i, of "sc_tasks ?s" ts ?x os u] by (simp add: w wakes_def)
    have keeps: "keeps_owners (sc_tasks s) (sc_tasks ?s)"
      unfolding tasks by (rule keeps_owners_update [of "sc_tasks s" ?t k, OF k]) simp
    have "good ?s (ws[i := ?x]) os"
    proof (rule sys_okI)
      show "queues_ok ?s" by (rule queues_ok_cong [OF sys_okD(1) [OF ok]]) (simp_all add: set_task_def)
      show "finite (dom (sc_tasks ?s))" using fin by (simp add: tasks)
      show "length (ws[i := ?x]) = length (sc_queues ?s)" using sys_okD(3) [OF ok] by (simp add: tasks)
      show "task_ok (sc_tasks ?s u) (places (all_works ?s) (ws[i := ?x]) u) (wakes (sc_tasks ?s) (sc_timers ?s) (ws[i := ?x]) os u)" for u
      proof (cases "u = ?t")
        case True
        have "places (all_works s) (ws[i := ?x]) ?t = {#}" using places_held [OF i P h, of ?x] by simp
        then show ?thesis unfolding n unfolding True tasks using okt finished
          by (simp add: task_ok_place task_ok_no_place)
      next
        case False
        then have "places (all_works s) (ws[i := ?x]) u = places (all_works s) ws u"
          by (intro places_other [OF i, of ?t]) (simp_all add: w)
        then show ?thesis unfolding n unfolding tasks using False sys_okD(4) [OF ok, of u] by simp
      qed
      have "owners_ok s (ws[i := ?x])" by (rule owners_ok_worker [OF sys_okD(5) [OF ok]]) simp
      from owners_ok_keeps [OF this keeps tasks(2)] show "owners_ok ?s (ws[i := ?x])" .
    qed
    with e show ?thesis by (auto simp: after_slice_def)
  qed
qed

lemma requeue_ok:
  assumes ok: "good s ws os" and i: "i < length ws" and w: "ws ! i = Requeueing w"
  shows "\<exists>s'. Enqueue now (int i) (wk_task w) s = Some s' \<and> good s' (ws[i := Looking]) os"
proof -
  let ?t = "wk_task w"
  have h: "place_in (ws ! i) ?t = {#Held_requeueing#}" by (simp add: w)
  obtain k where k: "sc_tasks s ?t = Some k" and P: "places (all_works s) ws ?t = {#Held_requeueing#}"
      and okt: "task_ok (Some k) {#Held_requeueing#} (wakes (sc_tasks s) (sc_timers s) ws os ?t)"
    by (rule held_by [OF ok i h])
  have "owners_ok s (ws[i := Looking])" by (rule owners_ok_worker [OF sys_okD(5) [OF ok]]) simp
  then have "\<exists>s'. Enqueue now (int i) ?t s = Some s' \<and> sys_ok s' (sc_timers s) (ws[i := Looking]) os \<and>
      sc_timers s' = sc_timers s"
    by (intro sys_ok_enqueue [where k' = k, OF ok k])
      (use okt i places_held [OF i P h] in \<open>simp_all add: w task_ok_place fun_upd_idem k wakes_quiet
        places_other [of i ws ?t]\<close>)
  then show ?thesis by auto
qed

lemma take_ok:
  assumes ok: "good s ws os" and i: "i < length ws" and w: "ws ! i = Looking"
    and took: "took s i x s'" and e: "e = Executing x \<and> h = Held_executing \<or> e = Stopped_with x \<and> h = Dropped"
  shows "good s' (ws[i := e]) os"
proof -
  let ?t = "wk_task x" and ?ws = "ws[i := e]"
  have same: "sc_tasks s' = sc_tasks s" "sc_timers s' = sc_timers s" "length (sc_queues s') = length (sc_queues s)"
    and works: "all_works s = add_mset x (all_works s')" and q': "queues_ok s'"
    using took by (simp_all add: took_def same_tasks_def)
  note owners = sys_okD(5) [OF ok]
  have len: "length ws = length (sc_queues s)" by (rule sys_okD(3) [OF ok])
  have pl: "places (all_works s') ?ws u + (if ?t = u then {#In_queue#} else {#}) =
      places (all_works s) ws u + (if ?t = u then {#h#} else {#})" for u
    using places_worker [OF i, of "all_works s'" e u] e by (auto simp: works places_add w ac_simps)
  have "{#In_queue#} \<subseteq># places (all_works s) ws ?t" by (simp add: works places_add)
  from sys_okD(4) [OF ok, of ?t] this obtain k where k: "sc_tasks s ?t = Some k" "places (all_works s) ws ?t = {#In_queue#}"
    by (rule held_task)
  have here: "places (all_works s') ?ws ?t = {#h#}" using pl [of ?t] k(2) by simp
  show ?thesis
  proof (rule sys_okI [OF q'])
    show "finite (dom (sc_tasks s'))" using sys_okD(2) [OF ok] by (simp add: same)
    show "length ?ws = length (sc_queues s')" using len same by simp
    show "task_ok (sc_tasks s' u) (places (all_works s') ?ws u) (wakes (sc_tasks s') (sc_timers s') ?ws os u)" for u
    proof (cases "u = ?t")
      case True
      show ?thesis using sys_okD(4) [OF ok, of ?t] unfolding True here same
        using e by (auto simp: k task_ok_place wakes_quiet i w)
    next
      case False
      then show ?thesis using sys_okD(4) [OF ok, of u] pl [of u] e by (auto simp: same wakes_quiet i w)
    qed
    have x: "worker_owns (sc_tasks s') i e"
    proof -
      consider "x \<in># works (wq_ready (sc_queues s ! i))" | "x \<in># works (wq_pinned (sc_queues s ! i))"
        | j where "j < length (sc_queues s)" "x \<in># works (wq_ready (sc_queues s ! j))"
        using took by (auto simp: took_def queue_works_def)
      then have "owner_in (sc_tasks s) {-1} x \<or> owner_in (sc_tasks s) {int i} x"
        by cases (use owners_okD(1,2) [OF owners, of _ x] i len in auto)
      then show ?thesis using e by (auto simp: owner_in_def same)
    qed
    have sub: "works (wq_ready (sc_queues s' ! j)) \<subseteq># works (wq_ready (sc_queues s ! j))"
        "works (wq_pinned (sc_queues s' ! j)) \<subseteq># works (wq_pinned (sc_queues s ! j))" if "j < length (sc_queues s)" for j
      using took that by (simp_all add: took_def)
    have "owners_ok s' ws"
    proof (rule owners_okI)
      show "owner_in (sc_tasks s') {-1} y"
        if "j < length (sc_queues s')" "y \<in># works (wq_ready (sc_queues s' ! j))" for j y
        using that owners_okD(1) [OF owners] mset_subset_eqD [OF sub(1)] by (simp add: same)
      show "owner_in (sc_tasks s') {int j} y"
        if "j < length (sc_queues s')" "y \<in># works (wq_pinned (sc_queues s' ! j))" for j y
        using that owners_okD(2) [OF owners] mset_subset_eqD [OF sub(2)] by (simp add: same)
    qed (use owners_okD(3-5) [OF owners] in \<open>simp_all add: same\<close>)
    then show "owners_ok s' ?ws" using x by (rule owners_ok_worker)
  qed
qed

lemma no_work_ok:
  assumes ok: "good s ws os" and i: "i < length ws" and w: "ws ! i = Looking" "x = Looking \<or> x = Stopped"
    and q': "queues_ok s'" "same_tasks s s'" "all_works s' = all_works s"
      "\<forall>j. wq_ready (sc_queues s' ! j) = wq_ready (sc_queues s ! j) \<and> wq_pinned (sc_queues s' ! j) = wq_pinned (sc_queues s ! j)"
  shows "good s' (ws[i := x]) os"
proof (rule sys_okI [OF q'(1)])
  have same: "sc_tasks s' = sc_tasks s" "sc_timers s' = sc_timers s" "length (sc_queues s') = length (sc_queues s)"
    using q'(2) by (simp_all add: same_tasks_def)
  have quiet: "place_in (ws ! i) u = {#}" "place_in x u = {#}" "to_notify (ws ! i) = []" "to_notify x = []" for u
    using w by auto
  show "finite (dom (sc_tasks s'))" "length (ws[i := x]) = length (sc_queues s')"
    using sys_okD(2,3) [OF ok] by (simp_all add: same)
  show "task_ok (sc_tasks s' u) (places (all_works s') (ws[i := x]) u) (wakes (sc_tasks s') (sc_timers s') (ws[i := x]) os u)" for u
    using sys_okD(4) [OF ok, of u] places_worker [OF i, of "all_works s" x u] quiet
    by (simp add: same q'(3) wakes_quiet [OF i])
  have "owners_ok s' ws" using sys_okD(5) [OF ok] q'(4) by (simp add: owners_ok_def same)
  then show "owners_ok s' (ws[i := x])" by (rule owners_ok_worker) (use w(2) in auto)
qed

lemma caller_bound: "caller ws p \<Longrightarrow> p < int (length ws)"
  by (auto simp: caller_def)

lemma notify_ok:
  assumes ok: "good s ws os" and i: "i < length ws" and w: "ws ! i = Notifying (t # ts)"
  shows "\<exists>s'. Resume now (int i) (Some t) s = Some s' \<and> good s' (ws[i := Notifying ts]) os"
proof -
  let ?ws = "ws[i := Notifying ts]"
  have "wakes (sc_tasks s) (sc_timers s) ?ws os u + (if u = t then 1 else 0) = wakes (sc_tasks s) (sc_timers s) ws os u" for u
    using wakes_worker [OF i, of "sc_tasks s" "sc_timers s" "Notifying ts" os u] by (simp add: w split: if_splits)
  moreover have "places (all_works s) ?ws u = places (all_works s) ws u" for u
    using places_worker [OF i, of "all_works s" "Notifying ts" u] by (simp add: w)
  moreover have "owners_ok s ?ws" by (rule owners_ok_worker [OF sys_okD(5) [OF ok]]) simp
  ultimately have "\<exists>s'. Wake now (int i) t s = Some s' \<and> sys_ok s' (sc_timers s) ?ws os \<and> sc_timers s' = sc_timers s"
    using i by (intro Wake_ok [OF ok]) simp_all
  then show ?thesis by (auto simp: Resume_def)
qed

lemma resume_ok:
  assumes ok: "good s ws os" and p: "caller ws p" and t: "t \<in> set os"
  shows "\<exists>s'. Resume now p (Some t) s = Some s' \<and> good s' ws (remove1 t os)"
proof -
  have "wakes (sc_tasks s) (sc_timers s) ws (remove1 t os) u + (if u = t then 1 else 0) =
      wakes (sc_tasks s) (sc_timers s) ws os u" for u
    using count_list_remove1 [OF t, of u] by (simp add: wakes_def)
  then have "\<exists>s'. Wake now p t s = Some s' \<and> sys_ok s' (sc_timers s) ws (remove1 t os) \<and> sc_timers s' = sc_timers s"
    by (intro Wake_ok [OF ok caller_bound [OF p]]) (simp_all add: sys_okD(5) [OF ok])
  then show ?thesis by (auto simp: Resume_def)
qed

lemma reclaim_ok:
  assumes ok: "good s ws os" and t: "sc_tasks s t = Some k" "tk_done k"
    and a: "await_done t s = Some (context, failure, s')"
  shows "good s' ws os"
proof -
  have s': "s' = s\<lparr>sc_tasks := (sc_tasks s)(t := None)\<rparr>" using a t by (simp add: await_done_def)
  have tt: "places (all_works s) ws t = {#}" "wakes (sc_tasks s) (sc_timers s) ws os t = 0" "tk_completionWaiters k = []"
    using sys_okD(4) [OF ok, of t] t by (auto simp: task_ok_def split: task_state.splits)
  note fin = sys_okD(2) [OF ok]
  have n: "wakes (sc_tasks s') ts ws os u = wakes (sc_tasks s) ts ws os u" for u ts
    by (rule wakes_tasks) (simp add: s' awaiting_gone [OF fin t(1) tt(3)])
  have works: "all_works s' = all_works s" by (simp add: s' all_works_def)
  have free: "wk_task x \<noteq> t" if "x \<in># all_works s" for x
    using not_queued [of "all_works s" ws t x] that by (simp add: tt)
  have held: "place_in x t = {#}" if "x \<in> set ws" for x
    using that held_place [of _ ws t "all_works s"] by (auto simp: tt in_set_conv_nth)
  show ?thesis
  proof (rule sys_okI)
    show "queues_ok s'" using sys_okD(1) [OF ok] free by (simp add: queues_ok_def works) (simp add: s')
    show "finite (dom (sc_tasks s'))" "length ws = length (sc_queues s')"
      using fin sys_okD(3) [OF ok] by (simp_all add: s')
    show "task_ok (sc_tasks s' u) (places (all_works s') ws u) (wakes (sc_tasks s') (sc_timers s') ws os u)" for u
      using sys_okD(4) [OF ok, of u] unfolding n works
      by (cases "u = t") (simp_all add: s' tt task_ok_def [of None])
    show "owners_ok s' ws"
    proof (rule owners_okI)
      show "owner_in (sc_tasks s') {-1} y" if "j < length (sc_queues s')" "y \<in># works (wq_ready (sc_queues s' ! j))" for j y
        using that owners_okD(1) [OF sys_okD(5) [OF ok], of j y] free [OF queue_works_in [of j s y]]
        by (simp add: s' owner_in_other queue_works_def)
      show "owner_in (sc_tasks s') {int j} y" if "j < length (sc_queues s')" "y \<in># works (wq_pinned (sc_queues s' ! j))" for j y
        using that owners_okD(2) [OF sys_okD(5) [OF ok], of j y] free [OF queue_works_in [of j s y]]
        by (simp add: s' owner_in_other queue_works_def)
      show "worker_owns (sc_tasks s') j (ws ! j)" if "j < length ws" for j
        using owners_okD(3) [OF sys_okD(5) [OF ok] that] held [OF nth_mem [OF that]]
        by (simp add: s' worker_owns_other)
      show "-1 \<le> tk_ownerWorker k' \<and> tk_ownerWorker k' < int (length ws)" if "sc_tasks s' u = Some k'" for u k'
        using that owners_okD(4,5) [OF sys_okD(5) [OF ok], of u k'] by (simp add: s' split: if_splits)
    qed
  qed
qed

lemma stop_ok: "good s ws os \<Longrightarrow> good (s\<lparr>sc_stopping := True\<rparr>) ws os"
  using sys_ok_cong [of s "sc_timers s" ws os "s\<lparr>sc_stopping := True\<rparr>"] by simp

lemma spawn_ok:
  assumes ok: "good s ws os" and p: "caller ws p" and t: "sc_tasks s t = None"
    and args: "entry \<noteq> 0" "context \<noteq> 0" "-1 \<le> core" "-3 \<le> priority" "priority \<le> 3"
  shows "\<exists>s'. spawn now p t control entry context core priority role s = Some s' \<and> good s' ws os"
proof -
  define k where "k = (new_task context control)\<lparr>tk_entry := entry, tk_core := core, tk_priority := priority,
    tk_role := role, tk_state := Runnable\<rparr>"
  have k: "tk_ownerWorker k = -1" "tk_completionWaiters k = []" "tk_priority k = priority" "tk_state k = Runnable"
      "\<not> tk_wakePending k" "\<not> tk_finished k" "\<not> tk_done k"
    by (simp_all add: k_def new_task_def)
  let ?s = "set_task t k s"
  have e: "spawn now p t control entry context core priority role s = Enqueue now p t ?s"
    using args by (cases s) (simp add: spawn_def Submit_def Enqueue_def set_task_def k_def new_task_def submission_queue_def Let_def)
  note fin = sys_okD(2) [OF ok] and owners = sys_okD(5) [OF ok] and len = sys_okD(3) [OF ok]
  have works: "all_works ?s = all_works s" by (simp add: set_task_def all_works_def)
  have tt: "places (all_works s) ws t = {#}" "wakes (sc_tasks s) (sc_timers s) ws os t = 0"
    using sys_okD(4) [OF ok, of t] t by (simp_all add: task_ok_def)
  have free: "wk_task x \<noteq> t" if "x \<in># all_works s" for x
    using not_queued [of "all_works s" ws t x] that by (simp add: tt)
  have held: "place_in x t = {#}" if "x \<in> set ws" for x
    using that held_place [of _ ws t "all_works s"] by (auto simp: tt in_set_conv_nth)
  have q: "queues_ok ?s" by (rule queues_ok_cong [OF sys_okD(1) [OF ok]]) (simp_all add: set_task_def)
  have pos: "0 < length ws" using queues_okD(1) [OF sys_okD(1) [OF ok]] len by simp
  have o': "owners_ok ?s ws"
  proof (rule owners_okI)
    show "owner_in (sc_tasks ?s) {-1} y" if "j < length (sc_queues ?s)" "y \<in># works (wq_ready (sc_queues ?s ! j))" for j y
      using that owners_okD(1) [OF owners, of j y] free [OF queue_works_in [of j s y]]
      by (simp add: set_task_def owner_in_other queue_works_def)
    show "owner_in (sc_tasks ?s) {int j} y" if "j < length (sc_queues ?s)" "y \<in># works (wq_pinned (sc_queues ?s ! j))" for j y
      using that owners_okD(2) [OF owners, of j y] free [OF queue_works_in [of j s y]]
      by (simp add: set_task_def owner_in_other queue_works_def)
    show "worker_owns (sc_tasks ?s) j (ws ! j)" if "j < length ws" for j
      using owners_okD(3) [OF owners that] held [OF nth_mem [OF that]]
      by (simp add: set_task_def worker_owns_other)
    show "-1 \<le> tk_ownerWorker k' \<and> tk_ownerWorker k' < int (length ws)" if "sc_tasks ?s u = Some k'" for u k'
      using that owners_okD(4,5) [OF owners, of u k'] k pos by (auto simp: set_task_def split: if_splits)
  qed
  have "\<exists>s' w. Enqueue now p t ?s = Some s' \<and> queues_ok s' \<and> all_works s' = add_mset w (all_works ?s) \<and>
    wk_task w = t \<and> sc_tasks s' = (sc_tasks ?s)(t \<mapsto> k\<lparr>tk_queuedAt := now\<rparr>) \<and>
    length (sc_queues s') = length (sc_queues ?s) \<and> sc_timers s' = sc_timers ?s \<and> owners_ok s' ws"
    by (rule Enqueue_ok [OF q o']) (use k args(4,5) len caller_bound [OF p] in \<open>simp_all add: set_task_def\<close>)
  then obtain s' w where s': "Enqueue now p t ?s = Some s'" "queues_ok s'" "all_works s' = add_mset w (all_works s)"
      "wk_task w = t" "sc_tasks s' = (sc_tasks s)(t \<mapsto> k\<lparr>tk_queuedAt := now\<rparr>)"
      "length (sc_queues s') = length (sc_queues s)" "sc_timers s' = sc_timers s" "owners_ok s' ws"
    unfolding works by (auto simp: set_task_def)
  have n: "wakes (sc_tasks s') ts ws os u = wakes (sc_tasks s) ts ws os u" for u ts
    unfolding s'(5) by (rule wakes_tasks, rule awaiting_new [of "sc_tasks s" t, OF fin t]) (simp add: k)
  have "good s' ws os"
  proof (rule sys_okI [OF s'(2) _ _ _ s'(8)])
    show "finite (dom (sc_tasks s'))" "length ws = length (sc_queues s')" using fin len by (simp_all add: s'(5,6))
    show "task_ok (sc_tasks s' u) (places (all_works s') ws u) (wakes (sc_tasks s') (sc_timers s') ws os u)" for u
      using sys_okD(4) [OF ok, of u] unfolding n s'(3,7) places_add s'(4)
      by (cases "u = t") (use tt k args(4,5) in \<open>simp_all add: s'(5) task_ok_place\<close>)
  qed
  with e s'(1) show ?thesis by simp
qed

lemma initial_ok:
  assumes "0 < n"
  shows "good (new_scheduler n) (replicate n Looking) []"
proof -
  have works: "all_works (new_scheduler n) = {#}"
    by (simp add: all_works_def new_scheduler_def queue_works_def new_queue_ok)
  have "owners_ok (new_scheduler n) (replicate n Looking)"
    by (simp add: owners_ok_def) (simp add: new_scheduler_def new_queue_ok)
  moreover have "queues_ok (new_scheduler n)"
    using assms by (simp add: queues_ok_def works) (simp add: new_scheduler_def new_queue_ok)
  moreover have "task_ok (sc_tasks (new_scheduler n) t) (places {#} (replicate n Looking) t)
      (wakes (sc_tasks (new_scheduler n)) (sc_timers (new_scheduler n)) (replicate n Looking) [] t)" for t
    by (simp add: new_scheduler_def task_ok_def places_def wakes_def awaiting_def)
  ultimately show ?thesis unfolding sys_ok_def works by (simp add: new_scheduler_def)
qed

section \<open>Reachable states\<close>

definition good_system :: "system \<Rightarrow> bool" where
  "good_system y \<longleftrightarrow> good (sys_scheduler y) (sys_workers y) (sys_outside y)"

lemma good_system_simp [simp]:
  "good_system \<lparr>sys_scheduler = s, sys_workers = ws, sys_outside = os\<rparr> \<longleftrightarrow> good s ws os"
  by (simp add: good_system_def)

lemma took_or_none:
  assumes ok: "good s ws os" and i: "i < length ws" and w: "ws ! i = Looking"
    and p: "PromoteTimers now (int i) s = Some s1"
  shows "Take now i s1 = Some (Some x, s') \<Longrightarrow> good s' (ws[i := taken_work x s']) os"
    and "Take now i s1 = Some (None, s') \<Longrightarrow> x' = Looking \<or> x' = Stopped \<Longrightarrow> good s' (ws[i := x']) os"
    and "Take now i s1 \<noteq> None"
proof -
  have ok1: "good s1 ws os" using PromoteTimers_ok [OF ok, of "int i" now] i p by simp
  have i1: "i < length (sc_queues s1)" using i sys_okD(3) [OF ok1] by simp
  note t = Take_ok [OF sys_okD(1) [OF ok1] i1, of now]
  show "Take now i s1 = Some (Some x, s') \<Longrightarrow> good s' (ws[i := taken_work x s']) os"
    using t take_ok [OF ok1 i w, of x s' "taken_work x s'"] by (auto simp: taken_work_def)
  show "Take now i s1 = Some (None, s') \<Longrightarrow> x' = Looking \<or> x' = Stopped \<Longrightarrow> good s' (ws[i := x']) os"
    using t no_work_ok [OF ok1 i w, of x' s'] by auto
  show "Take now i s1 \<noteq> None" using t by auto
qed

lemma fiber_task:
  assumes "good s ws os" and "i < length ws" and "ws ! i = In_fiber w"
  obtains k where "sc_tasks s (wk_task w) = Some k" and "tk_state k = Running \<or> tk_state k = Suspending"
proof -
  have h: "place_in (ws ! i) (wk_task w) = {#Held_fiber#}" by (simp add: assms(3))
  show ?thesis by (rule held_by [OF assms(1,2) h], rule that) (auto simp: task_ok_place)
qed

lemma spawn_args:
  "spawn now p t control entry context core priority role s = Some s' \<Longrightarrow>
    entry \<noteq> 0 \<and> context \<noteq> 0 \<and> -1 \<le> core \<and> -3 \<le> priority \<and> priority \<le> 3"
  by (simp add: spawn_def split: if_splits)

lemma good_step: "sys_step y y' \<Longrightarrow> good_system y \<Longrightarrow> good_system y'"
proof (induction rule: sys_step.induct)
  case (step_spawn ws p s t now c e cx co pr r s' os)
  then show ?case using spawn_ok [of s ws os p t e cx co pr now c r]
      spawn_args [of now p t c e cx co pr r s s'] by auto
next
  case (step_take i ws now s s1 w s' os)
  then show ?case using took_or_none(1) [of s ws os i now s1 w s'] by simp
next
  case (step_wait i ws now s s1 s' os)
  then show ?case using took_or_none(2) [of s ws os i now s1 s'] by simp
next
  case (step_begin i ws w s s' os)
  then show ?case using begin_ok [of s ws os i w] by auto
next
  case (step_sleep i ws w dl s s' os)
  then have g: "good s ws os" by simp
  obtain k where k: "sc_tasks s (wk_task w) = Some k" using fiber_task [OF g step_sleep(1,2)] .
  then have "tk_state k = Running" using step_sleep(3) by (auto simp: SuspendUntil_def PrepareSuspend_def split: if_splits)
  then show ?case using suspend_ok(1) [OF g step_sleep(1,2) k, of dl] step_sleep(3) by auto
next
  case (step_await i ws w t s s' os)
  then have g: "good s ws os" by simp
  have ne: "wk_task w \<noteq> t" using step_await(3) by (auto simp: Wait_def)
  obtain kt where t: "sc_tasks s t = Some kt" "\<not> tk_done kt"
    using step_await(3) by (auto simp: Wait_def split: if_splits option.splits)
  obtain k where k: "sc_tasks s (wk_task w) = Some k" using fiber_task [OF g step_await(1,2)] .
  then have "tk_state k = Running" using step_await(3) ne t
    by (auto simp: Wait_def PrepareSuspend_def set_task_def split: if_splits)
  then show ?case using await_ok [OF g step_await(1,2) k _ t(1) _ t(2)] step_await(3) ne by auto
next
  case (step_block i ws w s s' os)
  then have g: "good s ws os" by simp
  obtain k where k: "sc_tasks s (wk_task w) = Some k" using fiber_task [OF g step_block(1,2)] .
  then have "tk_state k = Running" using step_block(3) by (auto simp: PrepareSuspend_def split: if_splits)
  then show ?case using suspend_ok(2) [OF g step_block(1,2) k] step_block(3) by auto
next
  case (step_yield i ws w s k os)
  then show ?case using yield_ok [of s ws os i w k] by simp
next
  case (step_finish i ws w s k pending s' os)
  then show ?case using finish_ok [of s ws os i w k pending] by auto
next
  case (step_back i ws w now s e s' os)
  then show ?case using back_ok [of s ws os i w now] by auto
next
  case (step_requeue i ws w now s s' os)
  then show ?case using requeue_ok [of s ws os i w now] by auto
next
  case (step_notify i ws t ts now s s' os)
  then show ?case using notify_ok [of s ws os i t ts now] by auto
next
  case (step_notified i ws s os)
  then have g: "good s ws os" by simp
  have "owners_ok s (ws[i := Looking])" by (rule owners_ok_worker [OF sys_okD(5) [OF g]]) simp
  moreover have "places W (ws[i := Looking]) u = places W ws u" for W u
    using places_worker [OF step_notified(1), of W Looking u] step_notified(2) by simp
  ultimately show ?case using g step_notified(1,2) by (simp add: sys_ok_def wakes_quiet)
next
  case (step_resume ws p t os now s s')
  then show ?case using resume_ok [of s ws os p t now] by auto
next
  case (step_reclaim s t k cx f s' ws os)
  then show ?case using reclaim_ok [of s ws os t k cx f s'] by simp
next
  case (step_stop s ws os)
  then show ?case using stop_ok [of s ws os] by simp
qed

lemma reachable_good: "reachable n y \<Longrightarrow> 0 < n \<Longrightarrow> good_system y"
  unfolding reachable_def
proof (induction rule: rtranclp_induct)
  case base
  then show ?case using initial_ok [of n] by (simp add: initial_system_def)
next
  case (step y z)
  then show ?case using good_step [of y z] by simp
qed

lemma keeps_owners_trans: "keeps_owners a b \<Longrightarrow> keeps_owners b c \<Longrightarrow> keeps_owners a c"
  by (simp add: keeps_owners_def)

lemma enqueue_work_keeps: "keeps_owners (sc_tasks s) (sc_tasks (enqueue_work now pinned i w s))"
  by (simp add: enqueue_work_def Let_def keeps_owners_def option.map_comp comp_def)

lemma Enqueue_keeps: "Enqueue now p t s = Some s' \<Longrightarrow> keeps_owners (sc_tasks s) (sc_tasks s')"
  using enqueue_work_keeps [of s] enqueue_work_keeps [of "s\<lparr>sc_nextSubmissionQueue := sc_nextSubmissionQueue s + 1\<rparr>"]
  by (auto simp: Enqueue_def split: option.splits if_splits)

lemma set_task_keeps:
  "sc_tasks s t = Some k \<Longrightarrow> tk_ownerWorker k' = tk_ownerWorker k \<Longrightarrow> sc_tasks s1 = sc_tasks s \<Longrightarrow>
    keeps_owners (sc_tasks s) (sc_tasks (set_task t k' s1))"
  using keeps_owners_update [of "sc_tasks s" t k k'] by (simp add: set_task_def)

lemma Wake_keeps: "Wake now p t s = Some s' \<Longrightarrow> keeps_owners (sc_tasks s) (sc_tasks s')"
  by (auto simp: Wake_def keeps_owners_refl split: option.splits if_splits
    intro: set_task_keeps dest!: Enqueue_keeps elim!: keeps_owners_trans [rotated])

lemma promote_keeps: "promote now p ts s = Some s' \<Longrightarrow> keeps_owners (sc_tasks s) (sc_tasks s')"
proof (induction now p ts s rule: promote.induct)
  case (2 now p deadline number t rest s)
  then show ?case
    by (auto simp: bind_eq_Some_conv keeps_owners_refl split: if_splits intro: keeps_owners_trans [OF Wake_keeps])
qed (auto simp: keeps_owners_refl)

definition keeps_started :: "(nat \<rightharpoonup> task) \<Rightarrow> (nat \<rightharpoonup> task) \<Rightarrow> bool" where
  "keeps_started tasks tasks' \<longleftrightarrow>
     (\<forall>t k k'. tasks t = Some k \<longrightarrow> 0 \<le> tk_ownerWorker k \<longrightarrow> tasks' t = Some k' \<longrightarrow>
        tk_ownerWorker k' = tk_ownerWorker k)"

lemma keeps_startedI: "keeps_owners tasks tasks' \<Longrightarrow> keeps_started tasks tasks'"
  unfolding keeps_started_def keeps_owners_def by (metis option.map(2) option.inject)

lemma keeps_started_refl: "keeps_started tasks tasks"
  by (rule keeps_startedI) (rule keeps_owners_refl)

lemma same_taskD: "took s i x s' \<Longrightarrow> sc_tasks s' = sc_tasks s"
  by (simp add: took_def same_tasks_def)

lemma Take_tasks:
  assumes "good s ws os" and "i < length ws" and "PromoteTimers now (int i) s = Some s1" and "Take now i s1 = Some (x, s')"
  shows "keeps_started (sc_tasks s) (sc_tasks s')"
proof -
  have ok1: "good s1 ws os" using PromoteTimers_ok [OF assms(1), of "int i" now] assms(2,3) by simp
  have i1: "i < length (sc_queues s1)" using assms(2) sys_okD(3) [OF ok1] by simp
  have "sc_tasks s' = sc_tasks s1" using Take_ok [OF sys_okD(1) [OF ok1] i1, of now] assms(4)
    by (auto simp: took_def same_tasks_def)
  moreover have "keeps_owners (sc_tasks s) (sc_tasks s1)" using assms(3) promote_keeps by (simp add: PromoteTimers_def)
  ultimately show ?thesis by (simp add: keeps_startedI)
qed

lemma PrepareSuspend_keeps: "PrepareSuspend t s = Some s' \<Longrightarrow> keeps_owners (sc_tasks s) (sc_tasks s')"
  by (auto simp: PrepareSuspend_def split: option.splits if_splits intro: set_task_keeps)

lemma Wait_keeps: "Wait c t s = Some (b, s') \<Longrightarrow> keeps_owners (sc_tasks s) (sc_tasks s')"
  by (auto simp: Wait_def keeps_owners_refl split: option.splits if_splits
    intro: set_task_keeps dest!: PrepareSuspend_keeps elim!: keeps_owners_trans [rotated])

lemma finish_task_keeps: "finish_task t pending s = Some s' \<Longrightarrow> keeps_owners (sc_tasks s) (sc_tasks s')"
  by (auto simp: finish_task_def split: option.splits intro!: set_task_keeps)

lemma end_slice_keeps: "end_slice now w s = Some (e, s') \<Longrightarrow> keeps_owners (sc_tasks s) (sc_tasks s')"
  by (auto simp: end_slice_def split: option.splits if_splits intro: set_task_keeps)

lemma Resume_keeps: "Resume now p t s = Some s' \<Longrightarrow> keeps_owners (sc_tasks s) (sc_tasks s')"
  by (auto simp: Resume_def keeps_owners_refl split: option.splits dest: Wake_keeps)

lemma step_keeps_started:
  "sys_step y y' \<Longrightarrow> good_system y \<Longrightarrow>
    keeps_started (sc_tasks (sys_scheduler y)) (sc_tasks (sys_scheduler y'))"
proof (induction rule: sys_step.induct)
  case (step_spawn ws p s t now c e cx co pr r s' os)
  obtain k s1 i w where s1: "s' = enqueue_work now False i w s1" "sc_tasks s1 = (sc_tasks s)(t \<mapsto> k)"
    using step_spawn(3) by (auto simp: spawn_def Submit_def set_task_def Let_def split: if_splits)
  have "keeps_started (sc_tasks s) ((sc_tasks s)(t \<mapsto> k))" using step_spawn(2) by (simp add: keeps_started_def)
  moreover have "keeps_owners ((sc_tasks s)(t \<mapsto> k)) (sc_tasks s')"
    using enqueue_work_keeps [of s1 now False i w] by (simp add: s1)
  ultimately show ?case unfolding keeps_started_def keeps_owners_def system.simps
    by (metis step_spawn(2) fun_upd_other option.distinct(1) option.inject option.map(2))
next
  case (step_begin i ws w s s' os)
  then show ?case by (auto simp: begin_slice_def keeps_started_def set_task_def split: option.splits if_splits)
next
  case (step_reclaim s t k cx f s' ws os)
  then show ?case by (auto simp: await_done_def keeps_started_def split: if_splits)
next
  case (step_sleep i ws w dl s s' os)
  then show ?case by (auto simp: SuspendUntil_def intro!: keeps_startedI dest: PrepareSuspend_keeps)
qed (auto intro: keeps_started_refl Take_tasks keeps_startedI Wait_keeps PrepareSuspend_keeps finish_task_keeps
  end_slice_keeps Enqueue_keeps Resume_keeps)

end
