(* ===== verification/Task_Safety.thy ===== *)
theory Task_Safety
  imports Task_Lifecycle
begin

text \<open>
  What the invariant of theory \<open>Task_Lifecycle\<close> gives for every state of the scheduler that can be
  reached: where a task is and which wake-ups it has to come, that no call aborts, that a task which
  has started stays with its worker, and that a worker which looks for work finds it.
\<close>

text \<open>The next call of a worker, or of the fiber that runs on it, has a result.\<close>

definition call_returns :: "int \<Rightarrow> nat \<Rightarrow> worker_state \<Rightarrow> scheduler \<Rightarrow> bool" where
  "call_returns now i x s = (case x of
     Looking \<Rightarrow> Option.bind (PromoteTimers now (int i) s) (Take now i) \<noteq> None
   | Executing w \<Rightarrow> begin_slice i w s \<noteq> None
   | In_fiber w \<Rightarrow>
       (case sc_tasks s (wk_task w) of
          None \<Rightarrow> False
        | Some k \<Rightarrow> tk_state k = Running \<longrightarrow>
            PrepareSuspend (wk_task w) s \<noteq> None \<and> finish_task (wk_task w) None s \<noteq> None)
   | Back w \<Rightarrow> end_slice now w s \<noteq> None
   | Requeueing w \<Rightarrow> Enqueue now (int i) (wk_task w) s \<noteq> None
   | Notifying (t # ts) \<Rightarrow> Resume now (int i) (Some t) s \<noteq> None
   | _ \<Rightarrow> True)"

lemma call_returns_good:
  assumes ok: "good s ws os" and i: "i < length ws"
  shows "call_returns now i (ws ! i) s"
proof (cases "ws ! i")
  case Looking
  obtain s1 where s1: "PromoteTimers now (int i) s = Some s1"
    using PromoteTimers_ok [OF ok, of "int i" now] i by auto
  then show ?thesis using took_or_none(3) [OF ok i Looking s1] Looking by (simp add: call_returns_def)
next
  case (Executing w)
  then show ?thesis using begin_ok [OF ok i Executing] by (auto simp: call_returns_def)
next
  case (In_fiber w)
  obtain k where k: "sc_tasks s (wk_task w) = Some k" using fiber_task [OF ok i In_fiber] .
  then show ?thesis using suspend_ok(2) [OF ok i In_fiber k] finish_ok [OF ok i In_fiber k, of None]
    by (auto simp: call_returns_def In_fiber)
next
  case (Back w)
  then show ?thesis using back_ok [OF ok i Back, of now] by (auto simp: call_returns_def)
next
  case (Requeueing w)
  then show ?thesis using requeue_ok [OF ok i Requeueing, of now] by (auto simp: call_returns_def)
next
  case (Notifying ts)
  then show ?thesis using notify_ok [OF ok i, of _ _ now] by (cases ts) (auto simp: call_returns_def)
qed (simp_all add: call_returns_def)

lemma reachable_good_parts:
  "reachable n y \<Longrightarrow> 0 < n \<Longrightarrow> good (sys_scheduler y) (sys_workers y) (sys_outside y)"
  using reachable_good [of n y] by (simp add: good_system_def)

text \<open>
  C8. In every state that can be reached a task that is neither suspended nor done is in exactly one
  place: in one queue, or with one worker, which may have stopped. A task that waits, which is one that is suspended or
  about to be without a wake-up pending, has exactly one wake-up to come: from a timer, from a task
  that it awaits, from a worker that resumes waiters, or from outside; every other task has none.
  So no wake-up is lost and none comes twice.
\<close>
theorem task_has_one_place_and_one_wake_up:
  assumes "reachable n y" and "0 < n" and "sc_tasks (sys_scheduler y) t = Some k"
  shows "size (places (all_works (sys_scheduler y)) (sys_workers y) t) =
      (if tk_state k = Suspended \<or> tk_state k = Done then 0 else 1) \<and>
    wakes (sc_tasks (sys_scheduler y)) (sc_timers (sys_scheduler y)) (sys_workers y) (sys_outside y) t =
      (if tk_state k = Suspended \<or> (tk_state k = Suspending \<and> \<not> tk_wakePending k) then 1 else 0)"
  using sys_okD(4) [OF reachable_good_parts [OF assms(1,2)], of t] assms(3)
  by (auto simp: task_ok_def split: task_state.splits)

text \<open>
  C11. In every state that can be reached the next call of each worker, or of the fiber that it runs,
  returns: none of the calls of \<open>std::abort\<close> in the scheduler is reached and no deleted task is
  used. The same is true of a resumption from outside, on whatever thread.
\<close>
theorem scheduler_never_aborts:
  assumes "reachable n y" and "0 < n"
  shows "(\<forall>i < length (sys_workers y). call_returns now i (sys_workers y ! i) (sys_scheduler y)) \<and>
    (\<forall>p t. caller (sys_workers y) p \<longrightarrow> t \<in> set (sys_outside y) \<longrightarrow> Resume now p (Some t) (sys_scheduler y) \<noteq> None)"
proof (intro conjI allI impI)
  note ok = reachable_good_parts [OF assms]
  show "call_returns now i (sys_workers y ! i) (sys_scheduler y)" if "i < length (sys_workers y)" for i
    by (rule call_returns_good [OF ok that])
  show "Resume now p (Some t) (sys_scheduler y) \<noteq> None" if "caller (sys_workers y) p" "t \<in> set (sys_outside y)" for p t
    using resume_ok [OF ok that, of now] by auto
qed

text \<open>
  C26. A task that has started stays with its worker: no step changes the owner of a task that has
  one, and the worker on which its fiber runs or has just run is the owner.
\<close>
theorem started_task_stays_with_its_worker:
  assumes "reachable n y" and "0 < n" and "sys_step y y'"
    and "sc_tasks (sys_scheduler y) t = Some k" and "0 \<le> tk_ownerWorker k" and "sc_tasks (sys_scheduler y') t = Some k'"
  shows "tk_ownerWorker k' = tk_ownerWorker k \<and>
    (\<forall>i w. i < length (sys_workers y) \<longrightarrow> sys_workers y ! i \<in> {Executing w, In_fiber w, Back w, Requeueing w} \<longrightarrow>
       wk_task w = t \<longrightarrow> tk_ownerWorker k = int i)"
proof (intro conjI allI impI)
  note g = reachable_good [OF assms(1,2)] and ok = reachable_good_parts [OF assms(1,2)]
  show "tk_ownerWorker k' = tk_ownerWorker k"
    using step_keeps_started [OF assms(3) g] assms(4-6) unfolding keeps_started_def by blast
  show "tk_ownerWorker k = int i"
    if "i < length (sys_workers y)" "sys_workers y ! i \<in> {Executing w, In_fiber w, Back w, Requeueing w}" "wk_task w = t" for i w
    using owners_okD(3) [OF sys_okD(5) [OF ok] that(1)] that(2,3) assms(4,5) by (auto simp: owner_in_def)
qed

text \<open>
  C27. A worker that looks for work finds some exactly if there is any that it may take: in its own
  queue, pinned or not, or in the ready lanes of the queue of another worker. What it takes leaves
  the queues, once.
\<close>
theorem worker_finds_work:
  assumes "reachable n y" and "0 < n" and "i < length (sys_workers y)"
  shows "\<exists>x s'. Take now i (sys_scheduler y) = Some (x, s') \<and>
    (x \<noteq> None \<longleftrightarrow> may_take (sys_scheduler y) i) \<and>
    all_works (sys_scheduler y) = (case x of None \<Rightarrow> {#} | Some w \<Rightarrow> {#w#}) + all_works s' \<and>
    sc_queued s' = size (all_works s')"
proof -
  note ok = reachable_good_parts [OF assms(1,2)]
  have i: "i < length (sc_queues (sys_scheduler y))" using assms(3) sys_okD(3) [OF ok] by simp
  from Take_ok [OF sys_okD(1) [OF ok] i, of now] show ?thesis
  proof (elim disjE conjE exE)
    fix w s' assume "Take now i (sys_scheduler y) = Some (Some w, s')" "took (sys_scheduler y) i w s'" "may_take (sys_scheduler y) i"
    then show ?thesis using queues_okD(4) [of s'] by (simp add: took_def)
  next
    fix s' assume "Take now i (sys_scheduler y) = Some (None, s')" "\<not> may_take (sys_scheduler y) i" "queues_ok s'"
      "all_works s' = all_works (sys_scheduler y)"
    then show ?thesis using queues_okD(4) [of s'] by simp
  qed
qed

lemma stopped_step:
  "sys_step y y' \<Longrightarrow> i < length (sys_workers y) \<Longrightarrow> sys_workers y ! i = Stopped_with w \<Longrightarrow>
    i < length (sys_workers y') \<and> sys_workers y' ! i = Stopped_with w"
  by (induction rule: sys_step.induct) (auto simp: nth_list_update)

lemma stopped_steps:
  assumes "sys_step\<^sup>*\<^sup>* y y'" and "i < length (sys_workers y)" and "sys_workers y ! i = Stopped_with w"
  shows "i < length (sys_workers y') \<and> sys_workers y' ! i = Stopped_with w"
  using assms by (induction rule: rtranclp_induct) (blast dest: stopped_step)+

lemma dropped_for_ever:
  assumes "reachable n y" and "0 < n" and "i < length (sys_workers y)" and "sys_workers y ! i = Stopped_with w"
    and "sys_step\<^sup>*\<^sup>* y y'"
  shows "places (all_works (sys_scheduler y')) (sys_workers y') (wk_task w) = {#Dropped#} \<and>
    (\<exists>k. sc_tasks (sys_scheduler y') (wk_task w) = Some k \<and> tk_state k = Runnable \<and> \<not> tk_done k)"
proof -
  have "reachable n y'" using assms(1,5) unfolding reachable_def by (rule rtranclp_trans)
  note ok = reachable_good_parts [OF this assms(2)]
  note st = stopped_steps [OF assms(5,3,4)]
  have h: "place_in (sys_workers y' ! i) (wk_task w) = {#Dropped#}" using st by simp
  show ?thesis
    by (rule held_by [OF ok conjunct1 [OF st] h]) (simp add: task_ok_place)
qed

text \<open>
  C31. While the scheduler is stopping, a worker that looks for work and takes the last that is queued
  leaves with it: this is a step of the system, and whatever steps follow, the task stays runnable, is in
  no queue and with no worker that would run it, and is never done. (The loop of \<open>Run\<close> tests whether nothing is
  queued after it has taken the work.)
\<close>
theorem last_queued_work_is_dropped:
  assumes "reachable n \<lparr>sys_scheduler = s, sys_workers = ws, sys_outside = os\<rparr>" and "0 < n"
    and "i < length ws" and "ws ! i = Looking" and "PromoteTimers now (int i) s = Some s1"
    and "Take now i s1 = Some (Some w, s')" and "sc_stopping s'" and "sc_queued s' = 0"
  shows "\<exists>y. sys_step \<lparr>sys_scheduler = s, sys_workers = ws, sys_outside = os\<rparr> y \<and> sys_scheduler y = s' \<and>
    (\<forall>y'. sys_step\<^sup>*\<^sup>* y y' \<longrightarrow>
       places (all_works (sys_scheduler y')) (sys_workers y') (wk_task w) = {#Dropped#} \<and>
       (\<exists>k. sc_tasks (sys_scheduler y') (wk_task w) = Some k \<and> tk_state k = Runnable \<and> \<not> tk_done k))"
proof -
  let ?y = "\<lparr>sys_scheduler = s', sys_workers = ws[i := taken_work w s'], sys_outside = os\<rparr>"
  have step: "sys_step \<lparr>sys_scheduler = s, sys_workers = ws, sys_outside = os\<rparr> ?y"
    using assms(3-6) by (rule step_take)
  with assms(1) have "reachable n ?y" unfolding reachable_def by (rule rtranclp.rtrancl_into_rtrancl)
  then have "\<forall>y'. sys_step\<^sup>*\<^sup>* ?y y' \<longrightarrow>
       places (all_works (sys_scheduler y')) (sys_workers y') (wk_task w) = {#Dropped#} \<and>
       (\<exists>k. sc_tasks (sys_scheduler y') (wk_task w) = Some k \<and> tk_state k = Runnable \<and> \<not> tk_done k)"
    using dropped_for_ever [of n ?y i w] assms(2,3,7,8) by (simp add: taken_work_def)
  with step show ?thesis by (intro exI [where x = ?y]) simp
qed

section \<open>A run\<close>

text \<open>
  A thread outside the pool starts a task, worker 1 of two takes it from the queue of worker 0, and
  begins.
\<close>

definition example_spawn :: "scheduler option" where
  "example_spawn = spawn 0 (-1) 7 1 1 1 (-1) 0 [] (new_scheduler 2)"

definition example_take :: "(work option \<times> scheduler) option" where
  "example_take = Option.bind example_spawn (Take 5 1)"

lemma example_values:
  "map_option (\<lambda>s. (sc_timers s, map_option tk_state (sc_tasks s 7))) example_spawn = Some ([], Some Runnable)"
  "map_option (\<lambda>(x, s). (map_option wk_task x, sc_stopping s)) example_take = Some (Some 7, False)"
  by code_simp+

lemma example_run:
  obtains s1 s2 s3 w k where "reachable 2 \<lparr>sys_scheduler = s1, sys_workers = [Looking, Looking], sys_outside = []\<rparr>"
    and "sc_tasks s1 7 \<noteq> None"
    and "reachable 2 \<lparr>sys_scheduler = s3, sys_workers = [Looking, In_fiber w], sys_outside = []\<rparr>"
    and "wk_task w = 7" and "sc_tasks s3 7 = Some k" and "tk_ownerWorker k = 1"
proof -
  obtain s1 k1 where s1: "example_spawn = Some s1" "sc_timers s1 = []" "sc_tasks s1 7 = Some k1"
    using example_values(1) by auto
  obtain w s2 where s2: "Take 5 1 s1 = Some (Some w, s2)" "wk_task w = 7" "\<not> sc_stopping s2"
    using example_values(2) unfolding example_take_def s1(1) bind.bind_lunit by (auto simp del: One_nat_def)
  let ?y = "\<lambda>s x. \<lparr>sys_scheduler = s, sys_workers = [Looking, x], sys_outside = []\<rparr>"
  have r0: "initial_system 2 = ?y (new_scheduler 2) Looking" by (simp add: initial_system_def numeral_2_eq_2)
  have a: "sys_step (?y (new_scheduler 2) Looking) (?y s1 Looking)"
  proof (rule step_spawn)
    show "caller [Looking, Looking] (-1)" by (simp add: caller_def)
    show "sc_tasks (new_scheduler 2) 7 = None" by (simp add: new_scheduler_def)
    show "spawn 0 (-1) 7 1 1 1 (-1) 0 [] (new_scheduler 2) = Some s1" using s1(1) by (simp add: example_spawn_def)
  qed
  have p: "PromoteTimers 5 1 s1 = Some s1" using s1(2) by (simp add: PromoteTimers_def)
  have b: "sys_step (?y s1 Looking) (?y s2 (Executing w))"
    using step_take [of 1 "[Looking, Looking]" 5 s1 s1 w s2 "[]"] p s2(1,3) by (simp add: taken_work_def)
  have r1: "reachable 2 (?y s1 Looking)" using a by (simp add: reachable_def r0)
  then have r2: "reachable 2 (?y s2 (Executing w))" using b by (simp add: reachable_def)
  have g: "good s2 [Looking, Executing w] []" using reachable_good [OF r2] by simp
  from begin_ok [OF g, of 1 w] obtain s3 where s3: "begin_slice 1 w s2 = Some s3" "good s3 [Looking, In_fiber w] []"
    by auto
  have c: "sys_step (?y s2 (Executing w)) (?y s3 (In_fiber w))"
    using step_begin [of 1 "[Looking, Executing w]" w s2 s3 "[]"] s3(1) by simp
  have r3: "reachable 2 (?y s3 (In_fiber w))" using r2 c unfolding reachable_def by (rule rtranclp.rtrancl_into_rtrancl)
  have "worker_owns (sc_tasks s3) 1 ([Looking, In_fiber w] ! 1)"
    by (rule owners_okD(3) [OF sys_okD(5) [OF s3(2)]]) simp
  then obtain k where k: "sc_tasks s3 7 = Some k" "tk_ownerWorker k = 1" by (auto simp: owner_in_def s2(2))
  show ?thesis by (rule that [OF r1 _ r3 s2(2) k]) (simp add: s1(3))
qed

theorem task_has_one_place_and_one_wake_up_witness:
  "\<exists>y k. reachable 2 y \<and> sc_tasks (sys_scheduler y) 7 = Some k \<and>
    size (places (all_works (sys_scheduler y)) (sys_workers y) 7) =
      (if tk_state k = Suspended \<or> tk_state k = Done then 0 else 1)"
proof -
  obtain s3 w k where y: "reachable 2 \<lparr>sys_scheduler = s3, sys_workers = [Looking, In_fiber w], sys_outside = []\<rparr>"
      "sc_tasks s3 7 = Some k"
    using example_run by metis
  show ?thesis
    by (rule exI [where x = "\<lparr>sys_scheduler = s3, sys_workers = [Looking, In_fiber w], sys_outside = []\<rparr>"],
      rule exI [where x = k]) (use task_has_one_place_and_one_wake_up [OF y(1), of 7 k] y in simp)
qed

theorem scheduler_never_aborts_witness:
  "\<exists>y. reachable 2 y \<and> call_returns 9 1 (sys_workers y ! 1) (sys_scheduler y) \<and> sys_workers y ! 1 \<noteq> Looking"
proof -
  obtain s3 w where y: "reachable 2 \<lparr>sys_scheduler = s3, sys_workers = [Looking, In_fiber w], sys_outside = []\<rparr>"
    using example_run by metis
  show ?thesis
    by (rule exI [where x = "\<lparr>sys_scheduler = s3, sys_workers = [Looking, In_fiber w], sys_outside = []\<rparr>"])
      (use scheduler_never_aborts [OF y, of 9] y in \<open>auto simp: All_less_Suc2 numeral_2_eq_2\<close>)
qed

theorem started_task_stays_with_its_worker_witness:
  "\<exists>y y' k k'. reachable 2 y \<and> sys_step y y' \<and> sc_tasks (sys_scheduler y) 7 = Some k \<and>
    sc_tasks (sys_scheduler y') 7 = Some k' \<and> tk_ownerWorker k = 1 \<and> tk_ownerWorker k' = tk_ownerWorker k"
proof -
  obtain s3 w k where y: "reachable 2 \<lparr>sys_scheduler = s3, sys_workers = [Looking, In_fiber w], sys_outside = []\<rparr>"
      "sc_tasks s3 7 = Some k" "tk_ownerWorker k = 1"
    using example_run by metis
  let ?y = "\<lambda>s. \<lparr>sys_scheduler = s, sys_workers = [Looking, In_fiber w], sys_outside = []\<rparr>"
  have "sys_step (?y s3) (?y (s3\<lparr>sc_stopping := True\<rparr>))" by (rule step_stop)
  with started_task_stays_with_its_worker [OF y(1) _ this, of 7 k k] y show ?thesis
    by (intro exI [where x = "?y s3"] exI [where x = "?y (s3\<lparr>sc_stopping := True\<rparr>)"] exI [where x = k]) simp
qed

theorem worker_finds_work_witness:
  "\<exists>y x s'. reachable 2 y \<and> Take 5 1 (sys_scheduler y) = Some (x, s') \<and> (x \<noteq> None \<longleftrightarrow> may_take (sys_scheduler y) 1)"
proof -
  obtain s1 where y: "reachable 2 \<lparr>sys_scheduler = s1, sys_workers = [Looking, Looking], sys_outside = []\<rparr>"
    using example_run by metis
  from worker_finds_work [OF y, of 1 5] obtain x s' where "Take 5 1 s1 = Some (x, s')" "x \<noteq> None \<longleftrightarrow> may_take s1 1"
    by auto
  with y show ?thesis
    by (intro exI [where x = "\<lparr>sys_scheduler = s1, sys_workers = [Looking, Looking], sys_outside = []\<rparr>"] exI) simp
qed

text \<open>The scheduler of one worker stops while the task is in the queue.\<close>

lemma example_stop_values:
  "map_option (\<lambda>(x, s). (map_option wk_task x, sc_stopping s, sc_queued s))
     (Option.bind (spawn 0 (-1) 7 1 1 1 (-1) 0 [] (new_scheduler 1)) (\<lambda>s. Take 5 0 (s\<lparr>sc_stopping := True\<rparr>))) =
     Some (Some 7, True, 0)"
  "map_option sc_timers (spawn 0 (-1) 7 1 1 1 (-1) 0 [] (new_scheduler 1)) = Some []"
  by code_simp+

theorem last_queued_work_is_dropped_witness:
  "\<exists>y k. reachable 1 y \<and> sc_tasks (sys_scheduler y) 7 = Some k \<and> tk_state k = Runnable \<and>
    places (all_works (sys_scheduler y)) (sys_workers y) 7 = {#Dropped#}"
proof -
  let ?y = "\<lambda>s. \<lparr>sys_scheduler = s, sys_workers = [Looking], sys_outside = []\<rparr>"
  obtain s1 where s1: "spawn 0 (-1) 7 1 1 1 (-1) 0 [] (new_scheduler 1) = Some s1" "sc_timers s1 = []"
    using example_stop_values(2) by auto
  let ?s = "s1\<lparr>sc_stopping := True\<rparr>"
  obtain w s2 where s2: "Take 5 0 ?s = Some (Some w, s2)" "wk_task w = 7" "sc_stopping s2" "sc_queued s2 = 0"
    using example_stop_values(1) unfolding s1(1) bind.bind_lunit by auto
  have r0: "initial_system 1 = ?y (new_scheduler 1)" by (simp add: initial_system_def)
  have a: "sys_step (?y (new_scheduler 1)) (?y s1)"
  proof (rule step_spawn)
    show "caller [Looking] (-1)" by (simp add: caller_def)
    show "sc_tasks (new_scheduler 1) 7 = None" by (simp add: new_scheduler_def)
    show "spawn 0 (-1) 7 1 1 1 (-1) 0 [] (new_scheduler 1) = Some s1" by (rule s1(1))
  qed
  have b: "sys_step (?y s1) (?y ?s)" by (rule step_stop)
  have r: "reachable 1 (?y ?s)"
    unfolding reachable_def r0 using a b by (meson rtranclp.rtrancl_into_rtrancl rtranclp.rtrancl_refl)
  have p: "PromoteTimers 5 (int 0) ?s = Some ?s" using s1(2) by (simp add: PromoteTimers_def)
  obtain y where y: "sys_step (?y ?s) y"
      "places (all_works (sys_scheduler y)) (sys_workers y) 7 = {#Dropped#} \<and>
       (\<exists>k. sc_tasks (sys_scheduler y) 7 = Some k \<and> tk_state k = Runnable \<and> \<not> tk_done k)"
    using last_queued_work_is_dropped [OF r _ _ _ p s2(1,3,4)] s2(2) by auto
  have "reachable 1 y" using r y(1) unfolding reachable_def by (rule rtranclp.rtrancl_into_rtrancl)
  with y(2) show ?thesis by blast
qed

end
