(* ===== verification/Sync_Primitives.thy ===== *)
theory Sync_Primitives
  imports Prelude
begin

text \<open>
  Mutexes, semaphores, reader/writer locks, condition variables, once cells and channels of the
  runtime (\<^verbatim>\<open>Absolute-Runtime/src/tasks.cpp\<close>). A definition is what an operation does while it holds
  the mutex of the object: for an operation that may block, one round of its loop. The argument
  \<open>current\<close> is the task that calls, or \<open>None\<close> on a thread that is no worker. Tasks to be resumed are
  given in the order in which they are. Null handles, which every operation rejects first, are not
  modelled, nor is the allocation of the objects.
\<close>

section \<open>Rounds of an operation\<close>

text \<open>
  A round returns, or leaves the task among the waiters and suspended, or a thread outside the pool
  waiting on the condition variable; after either the loop starts again.
\<close>

datatype 'a outcome = Returns 'a | Suspends | Waits

definition block_on :: "nat option \<Rightarrow> ('s \<Rightarrow> nat \<Rightarrow> 's) \<Rightarrow> 's \<Rightarrow> 'a outcome \<times> nat list \<times> 's" where
  "block_on current add s = (case current of None \<Rightarrow> (Waits, [], s) | Some t \<Rightarrow> (Suspends, [], add s t))"

section \<open>Mutexes\<close>

record mutex_impl =
  mx_waiters :: "nat list"
  mx_locked :: bool

definition absolute_mutex_create :: mutex_impl where
  "absolute_mutex_create = \<lparr>mx_waiters = [], mx_locked = False\<rparr>"

definition absolute_mutex_lock :: "nat option \<Rightarrow> mutex_impl \<Rightarrow> unit outcome \<times> nat list \<times> mutex_impl" where
  "absolute_mutex_lock current m =
     (if \<not> mx_locked m then (Returns (), [], m\<lparr>mx_locked := True\<rparr>)
      else block_on current (\<lambda>m t. m\<lparr>mx_waiters := mx_waiters m @ [t]\<rparr>) m)"

definition absolute_mutex_unlock :: "mutex_impl \<Rightarrow> nat list \<times> mutex_impl" where
  "absolute_mutex_unlock m =
     (take 1 (mx_waiters m), m\<lparr>mx_locked := False, mx_waiters := drop 1 (mx_waiters m)\<rparr>)"

definition absolute_mutex_try_lock :: "mutex_impl \<Rightarrow> bool \<times> mutex_impl" where
  "absolute_mutex_try_lock m = (if mx_locked m then (False, m) else (True, m\<lparr>mx_locked := True\<rparr>))"

section \<open>Semaphores\<close>

record semaphore_impl =
  sm_waiters :: "nat list"
  sm_permits :: int
  sm_maximum :: int

definition absolute_semaphore_create :: "int \<Rightarrow> int \<Rightarrow> semaphore_impl option" where
  "absolute_semaphore_create initialPermits maximumPermits =
     (if maximumPermits \<le> 0 \<or> initialPermits < 0 \<or> initialPermits > maximumPermits then None
      else Some \<lparr>sm_waiters = [], sm_permits = initialPermits, sm_maximum = maximumPermits\<rparr>)"

definition absolute_semaphore_acquire ::
    "nat option \<Rightarrow> semaphore_impl \<Rightarrow> unit outcome \<times> nat list \<times> semaphore_impl" where
  "absolute_semaphore_acquire current s =
     (if sm_permits s > 0 then (Returns (), [], s\<lparr>sm_permits := sm_permits s - 1\<rparr>)
      else block_on current (\<lambda>s t. s\<lparr>sm_waiters := sm_waiters s @ [t]\<rparr>) s)"

definition absolute_semaphore_try_acquire :: "semaphore_impl \<Rightarrow> bool \<times> semaphore_impl" where
  "absolute_semaphore_try_acquire s =
     (if sm_permits s \<le> 0 then (False, s) else (True, s\<lparr>sm_permits := sm_permits s - 1\<rparr>))"

text \<open>The loop that takes one waiter for each permit.\<close>

fun resume_waiters :: "int \<Rightarrow> nat list \<Rightarrow> nat list \<times> nat list" where
  "resume_waiters permits [] = ([], [])"
| "resume_waiters permits (w # ws) =
     (if permits > 0 then (case resume_waiters (permits - 1) ws of (resumed, rest) \<Rightarrow> (w # resumed, rest))
      else ([], w # ws))"

definition absolute_semaphore_release :: "int \<Rightarrow> semaphore_impl \<Rightarrow> bool \<times> nat list \<times> semaphore_impl" where
  "absolute_semaphore_release permits s =
     (if permits \<le> 0 then (False, [], s)
      else if permits > sm_maximum s - sm_permits s then (False, [], s)
      else case resume_waiters permits (sm_waiters s) of (resumed, rest) \<Rightarrow>
        (True, resumed, s\<lparr>sm_permits := sm_permits s + permits, sm_waiters := rest\<rparr>))"

definition absolute_semaphore_available :: "semaphore_impl \<Rightarrow> int" where
  "absolute_semaphore_available s = sm_permits s"

section \<open>Reader/writer locks\<close>

record rwlock_impl =
  rw_readerWaiters :: "nat list"
  rw_writerWaiters :: "nat list"
  rw_readers :: int
  rw_waitingWriters :: int
  rw_writer :: bool

definition absolute_rwlock_create :: rwlock_impl where
  "absolute_rwlock_create = \<lparr>rw_readerWaiters = [], rw_writerWaiters = [], rw_readers = 0,
     rw_waitingWriters = 0, rw_writer = False\<rparr>"

definition absolute_rwlock_lock_read :: "nat option \<Rightarrow> rwlock_impl \<Rightarrow> unit outcome \<times> nat list \<times> rwlock_impl" where
  "absolute_rwlock_lock_read current l =
     (if \<not> rw_writer l \<and> rw_waitingWriters l = 0 then (Returns (), [], l\<lparr>rw_readers := rw_readers l + 1\<rparr>)
      else block_on current (\<lambda>l t. l\<lparr>rw_readerWaiters := rw_readerWaiters l @ [t]\<rparr>) l)"

definition absolute_rwlock_try_lock_read :: "rwlock_impl \<Rightarrow> bool \<times> rwlock_impl" where
  "absolute_rwlock_try_lock_read l =
     (if rw_writer l \<or> rw_waitingWriters l > 0 then (False, l)
      else (True, l\<lparr>rw_readers := rw_readers l + 1\<rparr>))"

definition absolute_rwlock_unlock_read :: "rwlock_impl \<Rightarrow> nat list \<times> rwlock_impl" where
  "absolute_rwlock_unlock_read l =
     (if rw_readers l \<le> 0 then ([], l)
      else
        (let l' = l\<lparr>rw_readers := rw_readers l - 1\<rparr> in
         if rw_readers l' = 0
         then (take 1 (rw_writerWaiters l'), l'\<lparr>rw_writerWaiters := drop 1 (rw_writerWaiters l')\<rparr>)
         else ([], l')))"

text \<open>The flag says whether this call is counted in \<open>waitingWriters\<close> already, by an earlier round.\<close>

definition absolute_rwlock_lock_write ::
    "bool \<Rightarrow> nat option \<Rightarrow> rwlock_impl \<Rightarrow> unit outcome \<times> nat list \<times> rwlock_impl" where
  "absolute_rwlock_lock_write registered current l =
     (let l' = (if registered then l else l\<lparr>rw_waitingWriters := rw_waitingWriters l + 1\<rparr>) in
      if \<not> rw_writer l' \<and> rw_readers l' = 0
      then (Returns (), [], l'\<lparr>rw_waitingWriters := rw_waitingWriters l' - 1, rw_writer := True\<rparr>)
      else block_on current (\<lambda>l t. l\<lparr>rw_writerWaiters := rw_writerWaiters l @ [t]\<rparr>) l')"

definition absolute_rwlock_try_lock_write :: "rwlock_impl \<Rightarrow> bool \<times> rwlock_impl" where
  "absolute_rwlock_try_lock_write l =
     (if rw_writer l \<or> rw_readers l \<noteq> 0 then (False, l) else (True, l\<lparr>rw_writer := True\<rparr>))"

text \<open>The writers to be resumed and the readers.\<close>

definition absolute_rwlock_unlock_write :: "rwlock_impl \<Rightarrow> nat list \<times> nat list \<times> rwlock_impl" where
  "absolute_rwlock_unlock_write l =
     (if \<not> rw_writer l then ([], [], l)
      else
        (let l' = l\<lparr>rw_writer := False\<rparr> in
         if rw_writerWaiters l' \<noteq> []
         then (take 1 (rw_writerWaiters l'), [], l'\<lparr>rw_writerWaiters := drop 1 (rw_writerWaiters l')\<rparr>)
         else ([], rw_readerWaiters l', l'\<lparr>rw_readerWaiters := []\<rparr>)))"

section \<open>Condition variables\<close>

record condition_impl =
  cv_taskWaiters :: "nat list"
  cv_generation :: u64
  cv_nativeWaiters :: int

definition absolute_condition_create :: condition_impl where
  "absolute_condition_create = \<lparr>cv_taskWaiters = [], cv_generation = 0, cv_nativeWaiters = 0\<rparr>"

text \<open>
  The first part of a wait, which ends with the mutex unlocked: the generation that a thread outside
  the pool has observed, and the waiter of the mutex to be resumed. A task suspends and locks the
  mutex when it is resumed; another thread does so when the generation has changed.
\<close>

definition absolute_condition_wait :: "nat option \<Rightarrow> condition_impl \<Rightarrow> mutex_impl \<Rightarrow>
    u64 option \<times> nat list \<times> condition_impl \<times> mutex_impl" where
  "absolute_condition_wait current c m =
     (case absolute_mutex_unlock m of (resumed, m') \<Rightarrow>
        (case current of
           Some t \<Rightarrow> (None, resumed, c\<lparr>cv_taskWaiters := cv_taskWaiters c @ [t]\<rparr>, m')
         | None \<Rightarrow> (Some (cv_generation c), resumed, c\<lparr>cv_nativeWaiters := cv_nativeWaiters c + 1\<rparr>, m')))"

definition native_released :: "u64 \<Rightarrow> condition_impl \<Rightarrow> bool" where
  "native_released observed c \<longleftrightarrow> cv_generation c \<noteq> observed"

definition native_leave :: "condition_impl \<Rightarrow> condition_impl" where
  "native_leave c = c\<lparr>cv_nativeWaiters := cv_nativeWaiters c - 1\<rparr>"

text \<open>The tasks to be resumed, and whether threads outside the pool are notified.\<close>

definition absolute_condition_notify_one :: "condition_impl \<Rightarrow> nat list \<times> bool \<times> condition_impl" where
  "absolute_condition_notify_one c =
     (if cv_taskWaiters c \<noteq> []
      then (take 1 (cv_taskWaiters c), False, c\<lparr>cv_taskWaiters := drop 1 (cv_taskWaiters c)\<rparr>)
      else if cv_nativeWaiters c > 0 then ([], True, c\<lparr>cv_generation := cv_generation c + 1\<rparr>)
      else ([], False, c))"

definition absolute_condition_notify_all :: "condition_impl \<Rightarrow> nat list \<times> bool \<times> condition_impl" where
  "absolute_condition_notify_all c =
     (let c' = c\<lparr>cv_taskWaiters := []\<rparr> in
      if cv_nativeWaiters c > 0 then (cv_taskWaiters c, True, c'\<lparr>cv_generation := cv_generation c + 1\<rparr>)
      else (cv_taskWaiters c, False, c'))"

section \<open>Once cells\<close>

record once_impl =
  oc_waiters :: "nat list"
  oc_state :: int

definition absolute_once_create :: once_impl where
  "absolute_once_create = \<lparr>oc_waiters = [], oc_state = 0\<rparr>"

definition absolute_once_begin :: "nat option \<Rightarrow> once_impl \<Rightarrow> bool outcome \<times> nat list \<times> once_impl" where
  "absolute_once_begin current c =
     (if oc_state c = 2 then (Returns False, [], c)
      else if oc_state c = 0 then (Returns True, [], c\<lparr>oc_state := 1\<rparr>)
      else block_on current (\<lambda>c t. c\<lparr>oc_waiters := oc_waiters c @ [t]\<rparr>) c)"

definition once_end :: "int \<Rightarrow> once_impl \<Rightarrow> nat list \<times> once_impl" where
  "once_end state c = (if oc_state c \<noteq> 1 then ([], c) else (oc_waiters c, c\<lparr>oc_state := state, oc_waiters := []\<rparr>))"

definition absolute_once_complete :: "once_impl \<Rightarrow> nat list \<times> once_impl" where
  "absolute_once_complete = once_end 2"

definition absolute_once_reset :: "once_impl \<Rightarrow> nat list \<times> once_impl" where
  "absolute_once_reset = once_end 0"

definition absolute_once_is_complete :: "once_impl \<Rightarrow> bool" where
  "absolute_once_is_complete c \<longleftrightarrow> oc_state c = 2"

section \<open>Channels\<close>

text \<open>
  The channels of values and those of transfer capsules have the same code over another type. The
  casts of the number of queued values to 32 bits are written out.
\<close>

record 'v channel_impl =
  ch_queue :: "'v list"
  ch_sendWaiters :: "nat list"
  ch_receiveWaiters :: "nat list"
  ch_capacity :: int
  ch_closed :: bool

definition queue_size :: "'v channel_impl \<Rightarrow> int" where
  "queue_size c = sint (of_nat (length (ch_queue c)) :: 32 word)"

definition channel_create :: "int \<Rightarrow> 'v channel_impl" where
  "channel_create capacity = \<lparr>ch_queue = [], ch_sendWaiters = [], ch_receiveWaiters = [],
     ch_capacity = (if capacity > 0 then capacity else 0), ch_closed = False\<rparr>"

text \<open>Pushing a value and popping one, each with the waiter that it lets go on.\<close>

definition push_value :: "'v \<Rightarrow> 'v channel_impl \<Rightarrow> nat list \<times> 'v channel_impl" where
  "push_value v c = (take 1 (ch_receiveWaiters c),
     c\<lparr>ch_queue := ch_queue c @ [v], ch_receiveWaiters := drop 1 (ch_receiveWaiters c)\<rparr>)"

definition pop_value :: "'v channel_impl \<Rightarrow> nat list \<times> 'v channel_impl" where
  "pop_value c = (take 1 (ch_sendWaiters c),
     c\<lparr>ch_queue := tl (ch_queue c), ch_sendWaiters := drop 1 (ch_sendWaiters c)\<rparr>)"

definition channel_send :: "'v \<Rightarrow> nat option \<Rightarrow> 'v channel_impl \<Rightarrow> bool outcome \<times> nat list \<times> 'v channel_impl" where
  "channel_send v current c =
     (if ch_closed c then (Returns False, [], c)
      else if ch_capacity c = 0 \<or> queue_size c < ch_capacity c then
        (case push_value v c of (resumed, c') \<Rightarrow> (Returns True, resumed, c'))
      else block_on current (\<lambda>c t. c\<lparr>ch_sendWaiters := ch_sendWaiters c @ [t]\<rparr>) c)"

definition channel_try_send :: "'v \<Rightarrow> 'v channel_impl \<Rightarrow> bool \<times> nat list \<times> 'v channel_impl" where
  "channel_try_send v c =
     (if ch_closed c then (False, [], c)
      else if ch_capacity c > 0 \<and> queue_size c \<ge> ch_capacity c then (False, [], c)
      else (case push_value v c of (resumed, c') \<Rightarrow> (True, resumed, c')))"

text \<open>\<open>None\<close> is the result false of a closed channel, or the null pointer for capsules.\<close>

definition channel_receive :: "nat option \<Rightarrow> 'v channel_impl \<Rightarrow> 'v option outcome \<times> nat list \<times> 'v channel_impl" where
  "channel_receive current c =
     (case ch_queue c of
        v # _ \<Rightarrow> (case pop_value c of (resumed, c') \<Rightarrow> (Returns (Some v), resumed, c'))
      | [] \<Rightarrow>
          if ch_closed c then (Returns None, [], c)
          else block_on current (\<lambda>c t. c\<lparr>ch_receiveWaiters := ch_receiveWaiters c @ [t]\<rparr>) c)"

definition channel_try_receive :: "'v channel_impl \<Rightarrow> 'v option \<times> nat list \<times> 'v channel_impl" where
  "channel_try_receive c =
     (case ch_queue c of
        [] \<Rightarrow> (None, [], c)
      | v # _ \<Rightarrow> (case pop_value c of (resumed, c') \<Rightarrow> (Some v, resumed, c')))"

definition channel_close :: "'v channel_impl \<Rightarrow> nat list \<times> 'v channel_impl" where
  "channel_close c = (ch_sendWaiters c @ ch_receiveWaiters c,
     c\<lparr>ch_closed := True, ch_sendWaiters := [], ch_receiveWaiters := []\<rparr>)"

definition channel_is_closed :: "'v channel_impl \<Rightarrow> bool" where
  "channel_is_closed c \<longleftrightarrow> ch_closed c"

definition channel_count :: "'v channel_impl \<Rightarrow> int" where
  "channel_count c = queue_size c"

text \<open>Channels of values, and channels of capsules, which reject a null capsule.\<close>

definition absolute_channel_receive :: "nat option \<Rightarrow> int channel_impl \<Rightarrow> int outcome \<times> nat list \<times> int channel_impl" where
  "absolute_channel_receive current c =
     (case channel_receive current c of
        (Returns None, resumed, c') \<Rightarrow> (Returns 0, resumed, c')
      | (Returns (Some v), resumed, c') \<Rightarrow> (Returns v, resumed, c')
      | (Suspends, resumed, c') \<Rightarrow> (Suspends, resumed, c')
      | (Waits, resumed, c') \<Rightarrow> (Waits, resumed, c'))"

definition absolute_transfer_channel_send ::
    "u64 \<Rightarrow> nat option \<Rightarrow> u64 channel_impl \<Rightarrow> bool outcome \<times> nat list \<times> u64 channel_impl" where
  "absolute_transfer_channel_send capsule current c =
     (if capsule = 0 then (Returns False, [], c) else channel_send capsule current c)"

definition absolute_transfer_channel_try_send ::
    "u64 \<Rightarrow> u64 channel_impl \<Rightarrow> bool \<times> nat list \<times> u64 channel_impl" where
  "absolute_transfer_channel_try_send capsule c =
     (if capsule = 0 then (False, [], c) else channel_try_send capsule c)"

text \<open>The result is the null pointer if the channel is closed and empty.\<close>

definition absolute_transfer_channel_receive ::
    "nat option \<Rightarrow> u64 channel_impl \<Rightarrow> u64 outcome \<times> nat list \<times> u64 channel_impl" where
  "absolute_transfer_channel_receive current c =
     (case channel_receive current c of
        (Returns None, resumed, c') \<Rightarrow> (Returns 0, resumed, c')
      | (Returns (Some capsule), resumed, c') \<Rightarrow> (Returns capsule, resumed, c')
      | (Suspends, resumed, c') \<Rightarrow> (Suspends, resumed, c')
      | (Waits, resumed, c') \<Rightarrow> (Waits, resumed, c'))"

definition absolute_transfer_channel_try_receive :: "u64 channel_impl \<Rightarrow> u64 \<times> nat list \<times> u64 channel_impl" where
  "absolute_transfer_channel_try_receive c =
     (case channel_try_receive c of
        (None, resumed, c') \<Rightarrow> (0, resumed, c')
      | (Some capsule, resumed, c') \<Rightarrow> (capsule, resumed, c'))"

definition absolute_transfer_channel_close :: "u64 channel_impl \<Rightarrow> nat list \<times> u64 channel_impl" where
  "absolute_transfer_channel_close c = channel_close c"

text \<open>The capsules that are destroyed with the channel.\<close>

definition absolute_transfer_channel_destroy :: "u64 channel_impl \<Rightarrow> u64 list" where
  "absolute_transfer_channel_destroy c = ch_queue c"

end
