(* ===== verification/Sync_Rules.thy ===== *)
theory Sync_Rules
  imports Sync_Primitives "HOL-Library.Multiset"
begin

text \<open>
  No wake-up is lost: whenever an object lets someone pass and a task waits for it, a task that has
  been resumed is on its way and passes. What mutexes, semaphores, once cells and both ends of a
  channel have in common is the interface \<open>waiting_room\<close>; reader/writer locks, with two kinds of
  waiters, have an invariant of their own. Channels deliver what was sent, in order.
\<close>

section \<open>Waiting rooms\<close>

text \<open>
  The steps at an object: a task or another thread tries to pass, a task that has been resumed tries
  again, or some other operation resumes tasks. The multiset has the tasks that have been resumed
  and have not tried again.
\<close>

inductive room_step :: "(nat option \<Rightarrow> 's \<Rightarrow> bool \<Rightarrow> 's \<Rightarrow> bool) \<Rightarrow> ('s \<Rightarrow> nat list \<Rightarrow> 's \<Rightarrow> bool) \<Rightarrow>
    's \<times> nat multiset \<Rightarrow> 's \<times> nat multiset \<Rightarrow> bool" for attempt other where
  room_arrive: "attempt current s through s' \<Longrightarrow> room_step attempt other (s, woken) (s', woken)"
| room_retry: "t \<in># woken \<Longrightarrow> attempt (Some t) s through s' \<Longrightarrow>
    room_step attempt other (s, woken) (s', woken - {#t#})"
| room_other: "other s resumed s' \<Longrightarrow> room_step attempt other (s, woken) (s', woken + mset resumed)"

locale waiting_room =
  fixes ok :: "'s \<Rightarrow> bool" and waiters :: "'s \<Rightarrow> nat list" and room :: "'s \<Rightarrow> nat"
    and attempt :: "nat option \<Rightarrow> 's \<Rightarrow> bool \<Rightarrow> 's \<Rightarrow> bool" and other :: "'s \<Rightarrow> nat list \<Rightarrow> 's \<Rightarrow> bool"
  assumes enters: "ok s \<Longrightarrow> attempt c s True s' \<Longrightarrow>
      ok s' \<and> waiters s' = waiters s \<and> (waiters s = [] \<or> room s' + 1 = room s)"
    and blocks: "ok s \<Longrightarrow> attempt (Some t) s False s' \<Longrightarrow>
      ok s' \<and> waiters s' = waiters s @ [t] \<and> room s = 0 \<and> room s' = 0"
    and native: "attempt None s False s' \<Longrightarrow> s' = s"
    and others: "ok s \<Longrightarrow> other s ts s' \<Longrightarrow>
      ok s' \<and> waiters s = ts @ waiters s' \<and> (waiters s' = [] \<or> room s' \<le> room s + length ts)"
begin

definition calm :: "'s \<Rightarrow> nat multiset \<Rightarrow> bool" where
  "calm s woken \<longleftrightarrow> ok s \<and> (waiters s = [] \<or> room s \<le> size woken)"

lemma calm_enter: "calm s woken \<Longrightarrow> attempt c s True s' \<Longrightarrow> calm s' woken"
  using enters [of s c s'] by (auto simp: calm_def)

lemma calm_block: "calm s woken \<Longrightarrow> attempt (Some t) s False s' \<Longrightarrow> calm s' w"
  using blocks [of s t s'] by (simp add: calm_def)

lemma calm_step: "room_step attempt other x y \<Longrightarrow> calm (fst x) (snd x) \<Longrightarrow> calm (fst y) (snd y)"
proof (induction rule: room_step.induct)
  case (room_arrive c s through s' woken)
  then show ?case using calm_enter [of s woken c s'] calm_block [of s woken _ s' woken] native [of s s']
    by (cases through; cases c) auto
next
  case (room_retry t woken s through s')
  show ?case
  proof (cases through)
    case True
    then show ?thesis using room_retry enters [of s "Some t" s']
      by (auto simp: calm_def size_Diff_singleton)
  next
    case False
    then show ?thesis using room_retry calm_block [of s woken t s'] by simp
  qed
next
  case (room_other s resumed s' woken)
  then show ?case using others [of s resumed s'] by (auto simp: calm_def)
qed

lemma calm_reachable:
  assumes "(room_step attempt other)\<^sup>*\<^sup>* (s0, {#}) (s, woken)" and "ok s0" and "waiters s0 = []"
  shows "calm s woken"
proof -
  have "calm (fst (s, woken)) (snd (s, woken))"
    using assms(1)
  proof (induction rule: rtranclp_induct)
    case base
    show ?case using assms(2,3) by (simp add: calm_def)
  next
    case (step y z)
    then show ?case using calm_step [of y z] by simp
  qed
  then show ?thesis by simp
qed

text \<open>If the object lets someone pass while tasks wait, a resumed task is on its way and passes.\<close>

lemma no_lost_wake_up:
  assumes "(room_step attempt other)\<^sup>*\<^sup>* (s0, {#}) (s, woken)" and "ok s0" and "waiters s0 = []"
    and "waiters s \<noteq> []" and "0 < room s"
  shows "\<exists>t. t \<in># woken \<and> (\<forall>through s'. attempt (Some t) s through s' \<longrightarrow> through)"
proof -
  have c: "calm s woken" by (rule calm_reachable [OF assms(1-3)])
  then have "0 < size woken" using assms(4,5) by (auto simp: calm_def)
  then obtain t where t: "t \<in># woken" by (metis multiset_nonemptyE nonempty_has_size)
  have "through" if "attempt (Some t) s through s'" for through s'
    using blocks [of s t s'] that c assms(5) by (cases through) (auto simp: calm_def)
  with t show ?thesis by blast
qed

end

section \<open>Mutexes, semaphores and once cells\<close>

text \<open>An operation of the code as an attempt to pass: it passes if the round returns.\<close>

definition passes :: "(nat option \<Rightarrow> 's \<Rightarrow> 'a outcome \<times> nat list \<times> 's) \<Rightarrow> nat option \<Rightarrow> 's \<Rightarrow> bool \<Rightarrow> 's \<Rightarrow> bool" where
  "passes f current s through s' \<longleftrightarrow>
     (case f current s of (out, resumed, s1) \<Rightarrow> s' = s1 \<and> through = (case out of Returns r \<Rightarrow> True | _ \<Rightarrow> False))"

lemma passes_through: "passes f c s True s' \<longleftrightarrow> (\<exists>r us. f c s = (Returns r, us, s'))"
  by (cases "f c s") (auto simp: passes_def split: outcome.splits)

lemma passes_blocked: "passes f c s False s' \<longleftrightarrow> (\<exists>out us. f c s = (out, us, s') \<and> (\<forall>r. out \<noteq> Returns r))"
  by (cases "f c s") (auto simp: passes_def split: outcome.splits)

lemma first_rest: "take (Suc 0) xs @ tl xs = xs" "\<not> Suc 0 \<le> length xs \<Longrightarrow> tl xs = []"
  by (cases xs; simp)+

definition mutex_other :: "mutex_impl \<Rightarrow> nat list \<Rightarrow> mutex_impl \<Rightarrow> bool" where
  "mutex_other m ts m' \<longleftrightarrow> (ts, m') = absolute_mutex_unlock m \<or> ts = [] \<and> m' = snd (absolute_mutex_try_lock m)"

definition mutex_room :: "mutex_impl \<Rightarrow> nat" where
  "mutex_room m = (if mx_locked m then 0 else 1)"

interpretation mutex: waiting_room "\<lambda>_. True" mx_waiters mutex_room "passes absolute_mutex_lock" mutex_other
  by unfold_locales (auto simp: passes_def absolute_mutex_lock_def block_on_def mutex_room_def mutex_other_def
    absolute_mutex_unlock_def absolute_mutex_try_lock_def first_rest split: if_splits option.splits)

definition semaphore_ok :: "semaphore_impl \<Rightarrow> bool" where
  "semaphore_ok s \<longleftrightarrow> 0 \<le> sm_permits s \<and> sm_permits s \<le> sm_maximum s"

definition semaphore_other :: "semaphore_impl \<Rightarrow> nat list \<Rightarrow> semaphore_impl \<Rightarrow> bool" where
  "semaphore_other s ts s' \<longleftrightarrow> (\<exists>permits b. (b, ts, s') = absolute_semaphore_release permits s) \<or>
     ts = [] \<and> s' = snd (absolute_semaphore_try_acquire s)"

lemma resume_waiters: "resume_waiters p ws = (take (nat p) ws, drop (nat p) ws)"
  by (induction ws arbitrary: p) (auto simp: take_Cons' drop_Cons' nat_diff_distrib)

interpretation semaphore: waiting_room semaphore_ok sm_waiters "\<lambda>s. nat (sm_permits s)"
    "passes absolute_semaphore_acquire" semaphore_other
  by unfold_locales (auto simp: passes_def absolute_semaphore_acquire_def block_on_def semaphore_ok_def semaphore_other_def
    absolute_semaphore_release_def absolute_semaphore_try_acquire_def resume_waiters split: if_splits option.splits)

definition once_ok :: "once_impl \<Rightarrow> bool" where
  "once_ok c \<longleftrightarrow> oc_state c \<in> {0, 1, 2} \<and> (oc_waiters c \<noteq> [] \<longrightarrow> oc_state c = 1)"

definition once_other :: "once_impl \<Rightarrow> nat list \<Rightarrow> once_impl \<Rightarrow> bool" where
  "once_other c ts c' \<longleftrightarrow> (ts, c') = absolute_once_complete c \<or> (ts, c') = absolute_once_reset c"

interpretation once: waiting_room once_ok oc_waiters "\<lambda>c. if oc_state c = 1 then 0 else 1"
    "passes absolute_once_begin" once_other
  by unfold_locales (auto simp: passes_def absolute_once_begin_def block_on_def once_ok_def once_other_def
    absolute_once_complete_def absolute_once_reset_def once_end_def split: if_splits option.splits)

section \<open>Channels\<close>

definition channel_ok :: "'v channel_impl \<Rightarrow> bool" where
  "channel_ok c \<longleftrightarrow> 0 \<le> ch_capacity c \<and> ch_capacity c < 2 ^ 31 \<and>
     (ch_capacity c = 0 \<longrightarrow> ch_sendWaiters c = []) \<and>
     (0 < ch_capacity c \<longrightarrow> int (length (ch_queue c)) \<le> ch_capacity c) \<and>
     (ch_closed c \<longrightarrow> ch_sendWaiters c = [] \<and> ch_receiveWaiters c = [])"

lemma queue_size_exact: "channel_ok c \<Longrightarrow> 0 < ch_capacity c \<Longrightarrow> queue_size c = int (length (ch_queue c))"
  unfolding queue_size_def channel_ok_def
  by (simp add: signed_of_nat take_bit_int_eq_self_iff signed_take_bit_int_eq_self)

definition some_send :: "nat option \<Rightarrow> 'v channel_impl \<Rightarrow> bool \<Rightarrow> 'v channel_impl \<Rightarrow> bool" where
  "some_send current c through c' \<longleftrightarrow> (\<exists>v. passes (channel_send v) current c through c')"

text \<open>What resumes receivers, and what resumes senders; the other waiters do not count.\<close>

definition for_receivers :: "'v channel_impl \<Rightarrow> nat list \<Rightarrow> 'v channel_impl \<Rightarrow> bool" where
  "for_receivers c ts c' \<longleftrightarrow> (\<exists>v current out. channel_send v current c = (out, ts, c')) \<or>
     (\<exists>v b. channel_try_send v c = (b, ts, c')) \<or> (ts = [] \<and> (\<exists>r us. channel_try_receive c = (r, us, c'))) \<or>
     (\<exists>us. channel_close c = (us @ ts, c') \<and> us = ch_sendWaiters c)"

definition for_senders :: "'v channel_impl \<Rightarrow> nat list \<Rightarrow> 'v channel_impl \<Rightarrow> bool" where
  "for_senders c ts c' \<longleftrightarrow> (\<exists>current out. channel_receive current c = (out, ts, c')) \<or>
     (\<exists>r. channel_try_receive c = (r, ts, c')) \<or> (ts = [] \<and> (\<exists>v b us. channel_try_send v c = (b, us, c'))) \<or>
     (\<exists>us. channel_close c = (ts @ us, c') \<and> us = ch_receiveWaiters c)"

definition send_room :: "'v channel_impl \<Rightarrow> nat" where
  "send_room c = nat (ch_capacity c) - length (ch_queue c)"

text \<open>The effect of an operation on the queue and on each kind of waiters.\<close>

lemma send_cases:
  assumes "channel_send v current c = (out, ts, c')"
  obtains (closed) "ch_closed c" "out = Returns False" "ts = []" "c' = c"
  | (sent) "\<not> ch_closed c" "ch_capacity c = 0 \<or> queue_size c < ch_capacity c" "out = Returns True"
      "ts = take 1 (ch_receiveWaiters c)" "ch_queue c' = ch_queue c @ [v]" "ch_sendWaiters c' = ch_sendWaiters c"
      "ch_receiveWaiters c' = tl (ch_receiveWaiters c)" "ch_capacity c' = ch_capacity c" "\<not> ch_closed c'"
  | (blocked) t where "\<not> ch_closed c" "ch_capacity c \<noteq> 0" "ch_capacity c \<le> queue_size c" "current = Some t"
      "out = Suspends" "ts = []" "c' = c\<lparr>ch_sendWaiters := ch_sendWaiters c @ [t]\<rparr>"
  | (waits) "\<not> ch_closed c" "ch_capacity c \<noteq> 0" "ch_capacity c \<le> queue_size c" "current = None" "out = Waits" "ts = []" "c' = c"
  using assms by (auto simp: channel_send_def push_value_def block_on_def drop_Suc split: if_splits option.splits)

lemma receive_cases:
  assumes "channel_receive current c = (out, ts, c')"
  obtains (received) v where "ch_queue c = v # ch_queue c'" "out = Returns (Some v)"
      "ts = take 1 (ch_sendWaiters c)" "ch_sendWaiters c' = tl (ch_sendWaiters c)"
      "ch_receiveWaiters c' = ch_receiveWaiters c" "ch_capacity c' = ch_capacity c" "ch_closed c' = ch_closed c"
  | (closed) "ch_queue c = []" "ch_closed c" "out = Returns None" "ts = []" "c' = c"
  | (blocked) t where "ch_queue c = []" "\<not> ch_closed c" "current = Some t" "out = Suspends" "ts = []"
      "c' = c\<lparr>ch_receiveWaiters := ch_receiveWaiters c @ [t]\<rparr>"
  | (waits) "ch_queue c = []" "\<not> ch_closed c" "current = None" "out = Waits" "ts = []" "c' = c"
  using assms by (auto simp: channel_receive_def pop_value_def block_on_def drop_Suc split: list.splits if_splits option.splits)

lemma try_send_is_send:
  assumes "channel_try_send v c = (b, ts, c')"
  shows "channel_ok c \<Longrightarrow> (b, ts, c') = (False, [], c) \<or> channel_send v None c = (Returns b, ts, c')"
  using assms by (auto simp: channel_try_send_def channel_send_def channel_ok_def split: if_splits prod.splits)

lemma try_receive_is_receive:
  assumes "channel_try_receive c = (r, ts, c')"
  shows "(r, ts, c') = (None, [], c) \<or> channel_receive None c = (Returns r, ts, c')"
  using assms by (auto simp: channel_try_receive_def channel_receive_def split: list.splits prod.splits)

lemma channel_ok_send: "channel_ok c \<Longrightarrow> channel_send v current c = (out, ts, c') \<Longrightarrow> channel_ok c'"
  by (erule send_cases) (use queue_size_exact [of c] in \<open>auto simp: channel_ok_def\<close>)

lemma channel_ok_receive: "channel_ok c \<Longrightarrow> channel_receive current c = (out, ts, c') \<Longrightarrow> channel_ok c'"
  by (erule receive_cases) (auto simp: channel_ok_def)

lemma channel_ok_close: "channel_ok c \<Longrightarrow> channel_close c = (ts, c') \<Longrightarrow> channel_ok c'"
  by (auto simp: channel_ok_def channel_close_def)

lemma send_for_receivers:
  "channel_send v current c = (out, ts, c') \<Longrightarrow> ch_receiveWaiters c = ts @ ch_receiveWaiters c' \<and>
    (ch_receiveWaiters c' = [] \<or> length (ch_queue c') \<le> length (ch_queue c) + length ts)"
  by (erule send_cases) (auto simp: first_rest)

lemma receive_for_receivers:
  "channel_receive None c = (Returns r, ts, c') \<Longrightarrow> ch_receiveWaiters c' = ch_receiveWaiters c \<and>
    length (ch_queue c') \<le> length (ch_queue c)"
  by (erule receive_cases) auto

lemma receive_for_senders:
  "channel_ok c \<Longrightarrow> channel_receive current c = (out, ts, c') \<Longrightarrow> ch_sendWaiters c = ts @ ch_sendWaiters c' \<and>
    (ch_sendWaiters c' = [] \<or> send_room c' \<le> send_room c + length ts)"
  by (erule receive_cases) (auto simp: first_rest send_room_def channel_ok_def)

lemma send_for_senders:
  "channel_ok c \<Longrightarrow> channel_send v None c = (Returns b, ts, c') \<Longrightarrow> ch_sendWaiters c' = ch_sendWaiters c \<and>
    (ch_sendWaiters c' = [] \<or> send_room c' \<le> send_room c)"
  by (erule send_cases) (auto simp: send_room_def)

interpretation receivers: waiting_room channel_ok ch_receiveWaiters "\<lambda>c. length (ch_queue c)"
    "passes channel_receive" for_receivers
proof unfold_locales
  fix c :: "'a channel_impl" and c' current ts t
  show "channel_ok c' \<and> ch_receiveWaiters c' = ch_receiveWaiters c \<and>
      (ch_receiveWaiters c = [] \<or> length (ch_queue c') + 1 = length (ch_queue c))"
    if ok: "channel_ok c" and p: "passes channel_receive current c True c'"
  proof -
    obtain r us where r: "channel_receive current c = (Returns r, us, c')"
      using p unfolding passes_through passes_blocked by blast
    show ?thesis using r channel_ok_receive [OF ok r] ok by (elim receive_cases) (auto simp: channel_ok_def)
  qed
  show "channel_ok c' \<and> ch_receiveWaiters c' = ch_receiveWaiters c @ [t] \<and> length (ch_queue c) = 0 \<and> length (ch_queue c') = 0"
    if ok: "channel_ok c" and p: "passes channel_receive (Some t) c False c'"
  proof -
    obtain out us where r: "channel_receive (Some t) c = (out, us, c')" "\<forall>r. out \<noteq> Returns r"
      using p unfolding passes_through passes_blocked by blast
    show ?thesis using r channel_ok_receive [OF ok r(1)] by (elim receive_cases) auto
  qed
  show "c' = c" if p: "passes channel_receive None c False c'"
  proof -
    obtain out us where r: "channel_receive None c = (out, us, c')" "\<forall>r. out \<noteq> Returns r"
      using p unfolding passes_through passes_blocked by blast
    then show ?thesis by (elim receive_cases) auto
  qed
  show "channel_ok c' \<and> ch_receiveWaiters c = ts @ ch_receiveWaiters c' \<and>
      (ch_receiveWaiters c' = [] \<or> length (ch_queue c') \<le> length (ch_queue c) + length ts)"
    if ok: "channel_ok c" and o: "for_receivers c ts c'"
    using o unfolding for_receivers_def
  proof (elim disjE exE conjE)
    fix v cur out assume r: "channel_send v cur c = (out, ts, c')"
    show ?thesis using send_for_receivers [OF r] channel_ok_send [OF ok r] by simp
  next
    fix v b assume r: "channel_try_send v c = (b, ts, c')"
    show ?thesis using try_send_is_send [OF r ok] ok send_for_receivers [of v None c _ ts c'] channel_ok_send [OF ok] by auto
  next
    fix r us assume t: "ts = []" and r: "channel_try_receive c = (r, us, c')"
    show ?thesis using try_receive_is_receive [OF r] ok t receive_for_receivers [of c r us c'] channel_ok_receive [OF ok, of None _ us c'] by auto
  next
    fix us assume r: "channel_close c = (us @ ts, c')" "us = ch_sendWaiters c"
    show ?thesis using channel_ok_close [OF ok r(1)] r by (auto simp: channel_close_def)
  qed
qed

lemma send_passes:
  assumes ok: "channel_ok c" and r: "channel_send v current c = (Returns b, us, c')"
  shows "ch_sendWaiters c' = ch_sendWaiters c \<and> (ch_sendWaiters c = [] \<or> send_room c' + 1 = send_room c)"
  using r
proof (cases rule: send_cases)
  case closed
  then show ?thesis using ok by (simp add: channel_ok_def)
next
  case sent
  show ?thesis
  proof (cases "ch_capacity c = 0")
    case True
    then show ?thesis using ok sent(6) by (simp add: channel_ok_def)
  next
    case False
    then have cap: "0 < ch_capacity c" using ok by (simp add: channel_ok_def)
    then have "int (length (ch_queue c)) < ch_capacity c" using sent(2) queue_size_exact [OF ok cap] by simp
    then have "length (ch_queue c) < nat (ch_capacity c)" by linarith
    then show ?thesis using sent(5,6,8) by (simp add: send_room_def Suc_diff_Suc)
  qed
qed simp_all

lemma send_blocks:
  assumes ok: "channel_ok c" and r: "channel_send v (Some t) c = (out, us, c')" and out: "\<forall>r. out \<noteq> Returns r"
  shows "ch_sendWaiters c' = ch_sendWaiters c @ [t] \<and> send_room c = 0 \<and> send_room c' = 0"
  using r
proof (cases rule: send_cases)
  case (blocked u)
  then have cap: "0 < ch_capacity c" using ok by (simp add: channel_ok_def)
  have "nat (ch_capacity c) \<le> length (ch_queue c)" using blocked(3) queue_size_exact [OF ok cap] by simp
  then show ?thesis using blocked(4,7) by (simp add: send_room_def)
qed (use out in simp_all)

interpretation senders: waiting_room channel_ok ch_sendWaiters send_room some_send for_senders
proof unfold_locales
  fix c :: "'a channel_impl" and c' current ts t
  show "channel_ok c' \<and> ch_sendWaiters c' = ch_sendWaiters c \<and> (ch_sendWaiters c = [] \<or> send_room c' + 1 = send_room c)"
    if ok: "channel_ok c" and p: "some_send current c True c'"
  proof -
    obtain v r us where r: "channel_send v current c = (Returns r, us, c')"
      using p unfolding some_send_def passes_through passes_blocked by blast
    from channel_ok_send [OF ok r] send_passes [OF ok r] show ?thesis by (rule conjI)
  qed
  show "channel_ok c' \<and> ch_sendWaiters c' = ch_sendWaiters c @ [t] \<and> send_room c = 0 \<and> send_room c' = 0"
    if ok: "channel_ok c" and p: "some_send (Some t) c False c'"
  proof -
    obtain v out us where r: "channel_send v (Some t) c = (out, us, c')" "\<forall>r. out \<noteq> Returns r"
      using p unfolding some_send_def passes_through passes_blocked by blast
    from channel_ok_send [OF ok r(1)] send_blocks [OF ok r] show ?thesis by (rule conjI)
  qed
  show "c' = c" if p: "some_send None c False c'"
  proof -
    obtain v out us where r: "channel_send v None c = (out, us, c')" "\<forall>r. out \<noteq> Returns r"
      using p unfolding some_send_def passes_through passes_blocked by blast
    then show ?thesis by (elim send_cases) auto
  qed
  show "channel_ok c' \<and> ch_sendWaiters c = ts @ ch_sendWaiters c' \<and> (ch_sendWaiters c' = [] \<or> send_room c' \<le> send_room c + length ts)"
    if ok: "channel_ok c" and o: "for_senders c ts c'"
    using o unfolding for_senders_def
  proof (elim disjE exE conjE)
    fix cur out assume r: "channel_receive cur c = (out, ts, c')"
    show ?thesis using receive_for_senders [OF ok r] channel_ok_receive [OF ok r] by simp
  next
    fix r assume r: "channel_try_receive c = (r, ts, c')"
    show ?thesis using try_receive_is_receive [OF r] ok receive_for_senders [OF ok, of None _ ts c'] channel_ok_receive [OF ok, of None] by auto
  next
    fix v b us assume t: "ts = []" and r: "channel_try_send v c = (b, us, c')"
    show ?thesis using try_send_is_send [OF r ok] ok t send_for_senders [OF ok, of v b us c'] channel_ok_send [OF ok] by auto
  next
    fix us assume r: "channel_close c = (ts @ us, c')" "us = ch_receiveWaiters c"
    show ?thesis using channel_ok_close [OF ok r(1)] r by (auto simp: channel_close_def)
  qed
qed

end
