(* ===== verification/Sync_Safety.thy ===== *)
theory Sync_Safety
  imports Sync_Rules
begin

text \<open>
  The properties of the synchronisation objects over all their runs: reader/writer locks as a step
  relation of their own, channels with the history of what was sent and received, and what the
  waiting rooms give for semaphores, mutexes and both ends of a channel.
\<close>

section \<open>Reader/writer locks\<close>

text \<open>
  A lock, the readers and the writers that have been resumed and have not tried again, and the number
  of threads outside the pool that wait to write: they are counted in \<open>waitingWriters\<close>, in no list.
  \<open>rs_reading\<close> and \<open>rs_writing\<close> count who holds the lock, by what the calls have returned and not by the
  fields of the lock. A lock is unlocked by a holder.
\<close>

record rw_system =
  rs_lock :: rwlock_impl
  rs_readers :: "nat multiset"
  rs_writers :: "nat multiset"
  rs_native :: nat
  rs_reading :: nat
  rs_writing :: nat

definition new_rw_system :: rw_system where
  "new_rw_system = \<lparr>rs_lock = absolute_rwlock_create, rs_readers = {#}, rs_writers = {#}, rs_native = 0,
     rs_reading = 0, rs_writing = 0\<rparr>"

definition native_change :: "unit outcome \<Rightarrow> nat" where
  "native_change out = (if out = Waits then 1 else 0)"

definition granted :: "unit outcome \<Rightarrow> nat" where
  "granted out = (if out = Returns () then 1 else 0)"

inductive rw_step :: "rw_system \<Rightarrow> rw_system \<Rightarrow> bool" where
  rw_read: "absolute_rwlock_lock_read current (rs_lock y) = (out, us, l) \<Longrightarrow>
    rw_step y (y\<lparr>rs_lock := l, rs_reading := rs_reading y + granted out\<rparr>)"
| rw_read_again: "t \<in># rs_readers y \<Longrightarrow> absolute_rwlock_lock_read (Some t) (rs_lock y) = (out, us, l) \<Longrightarrow>
    rw_step y (y\<lparr>rs_lock := l, rs_readers := rs_readers y - {#t#}, rs_reading := rs_reading y + granted out\<rparr>)"
| rw_try_read: "absolute_rwlock_try_lock_read (rs_lock y) = (b, l) \<Longrightarrow>
    rw_step y (y\<lparr>rs_lock := l, rs_reading := rs_reading y + (if b then 1 else 0)\<rparr>)"
| rw_unlock_read: "0 < rs_reading y \<Longrightarrow> absolute_rwlock_unlock_read (rs_lock y) = (ws, l) \<Longrightarrow>
    rw_step y (y\<lparr>rs_lock := l, rs_writers := rs_writers y + mset ws, rs_reading := rs_reading y - 1\<rparr>)"
| rw_write: "absolute_rwlock_lock_write False current (rs_lock y) = (out, us, l) \<Longrightarrow>
    rw_step y (y\<lparr>rs_lock := l, rs_native := rs_native y + native_change out, rs_writing := rs_writing y + granted out\<rparr>)"
| rw_write_again: "t \<in># rs_writers y \<Longrightarrow> absolute_rwlock_lock_write True (Some t) (rs_lock y) = (out, us, l) \<Longrightarrow>
    rw_step y (y\<lparr>rs_lock := l, rs_writers := rs_writers y - {#t#}, rs_writing := rs_writing y + granted out\<rparr>)"
| rw_native_again: "rs_native y = Suc n \<Longrightarrow> absolute_rwlock_lock_write True None (rs_lock y) = (out, us, l) \<Longrightarrow>
    rw_step y (y\<lparr>rs_lock := l, rs_native := n + native_change out, rs_writing := rs_writing y + granted out\<rparr>)"
| rw_try_write: "absolute_rwlock_try_lock_write (rs_lock y) = (b, l) \<Longrightarrow>
    rw_step y (y\<lparr>rs_lock := l, rs_writing := rs_writing y + (if b then 1 else 0)\<rparr>)"
| rw_unlock_write: "0 < rs_writing y \<Longrightarrow> absolute_rwlock_unlock_write (rs_lock y) = (ws, rs, l) \<Longrightarrow>
    rw_step y (y\<lparr>rs_lock := l, rs_writers := rs_writers y + mset ws, rs_readers := rs_readers y + mset rs,
      rs_writing := rs_writing y - 1\<rparr>)"

definition rw_ok :: "rwlock_impl \<Rightarrow> nat multiset \<Rightarrow> nat \<Rightarrow> bool" where
  "rw_ok l ws n \<longleftrightarrow> 0 \<le> rw_readers l \<and> \<not> (rw_writer l \<and> 0 < rw_readers l) \<and>
     rw_waitingWriters l = int (length (rw_writerWaiters l) + size ws + n) \<and>
     (rw_readerWaiters l \<noteq> [] \<longrightarrow> rw_writer l \<or> 0 < rw_waitingWriters l) \<and>
     (rw_writerWaiters l \<noteq> [] \<longrightarrow> rw_writer l \<or> 0 < rw_readers l \<or> ws \<noteq> {#})"

lemma rw_ok_read: "rw_ok l ws n \<Longrightarrow> absolute_rwlock_lock_read c l = (out, us, l') \<Longrightarrow> rw_ok l' ws n"
  by (auto simp: rw_ok_def absolute_rwlock_lock_read_def block_on_def split: if_splits option.splits)

lemma rw_ok_try_read: "rw_ok l ws n \<Longrightarrow> absolute_rwlock_try_lock_read l = (b, l') \<Longrightarrow> rw_ok l' ws n"
  by (auto simp: rw_ok_def absolute_rwlock_try_lock_read_def split: if_splits)

lemma first_size: "xs \<noteq> [] \<Longrightarrow> mset (take 1 xs) \<noteq> {#}" "length (drop 1 xs) + size (mset (take 1 xs)) = length xs"
  by (cases xs; simp)+

lemma rw_ok_wake_writer:
  assumes "rw_ok l ws n" and "0 \<le> rw_readers l'" and "\<not> (rw_writer l' \<and> 0 < rw_readers l')"
    and "rw_waitingWriters l' = rw_waitingWriters l" and "rw_writerWaiters l' = drop 1 (rw_writerWaiters l)"
    and "rw_readerWaiters l' \<noteq> [] \<Longrightarrow> rw_writer l' \<or> 0 < rw_waitingWriters l'"
  shows "rw_ok l' (ws + mset (take 1 (rw_writerWaiters l))) n"
proof -
  have "rw_waitingWriters l' = int (length (rw_writerWaiters l') + size (ws + mset (take 1 (rw_writerWaiters l))) + n)"
    using assms(1,4,5) first_size(2) [of "rw_writerWaiters l"] by (simp add: rw_ok_def del: size_mset)
  moreover have "ws + mset (take 1 (rw_writerWaiters l)) \<noteq> {#}" if "rw_writerWaiters l' \<noteq> []"
    using that assms(5) first_size(1) [of "rw_writerWaiters l"] by auto
  ultimately show ?thesis using assms(2,3,6) by (simp add: rw_ok_def)
qed

lemma rw_ok_unlock_read:
  assumes ok: "rw_ok l ws n" and u: "absolute_rwlock_unlock_read l = (us, l')"
  shows "rw_ok l' (ws + mset us) n"
proof -
  consider "rw_readers l \<le> 0" "us = []" "l' = l" | "0 < rw_readers l - 1" "us = []" "l' = l\<lparr>rw_readers := rw_readers l - 1\<rparr>"
    | "rw_readers l = 1" "us = take 1 (rw_writerWaiters l)"
      "l' = l\<lparr>rw_readers := 0, rw_writerWaiters := drop 1 (rw_writerWaiters l)\<rparr>"
    using u by (auto simp: absolute_rwlock_unlock_read_def Let_def split: if_splits)
  then show ?thesis
  proof cases
    case 3
    show ?thesis unfolding 3(2) by (rule rw_ok_wake_writer [OF ok]) (use ok 3 in \<open>auto simp: rw_ok_def\<close>)
  qed (use ok in \<open>auto simp: rw_ok_def\<close>)
qed

lemma rw_ok_unlock_write:
  assumes ok: "rw_ok l ws n" and u: "absolute_rwlock_unlock_write l = (us, rs, l')"
  shows "rw_ok l' (ws + mset us) n"
proof -
  consider "\<not> rw_writer l" "us = []" "l' = l"
    | "rw_writer l" "rw_writerWaiters l \<noteq> []" "us = take 1 (rw_writerWaiters l)"
      "l' = l\<lparr>rw_writer := False, rw_writerWaiters := drop 1 (rw_writerWaiters l)\<rparr>"
    | "rw_writer l" "rw_writerWaiters l = []" "us = []" "l' = l\<lparr>rw_writer := False, rw_readerWaiters := []\<rparr>"
    using u by (auto simp: absolute_rwlock_unlock_write_def Let_def split: if_splits)
  then show ?thesis
  proof cases
    case 2
    have "0 < rw_waitingWriters l" using ok 2(2) by (cases "rw_writerWaiters l") (simp_all add: rw_ok_def)
    then have "0 < rw_waitingWriters l'" by (simp add: 2(4))
    then show ?thesis unfolding 2(3) by (intro rw_ok_wake_writer [OF ok] disjI2) (use ok 2 in \<open>auto simp: rw_ok_def\<close>)
  qed (use ok in \<open>auto simp: rw_ok_def\<close>)
qed

lemma rw_ok_write:
  assumes ok: "rw_ok l ws n" and w: "absolute_rwlock_lock_write False c l = (out, us, l')"
  shows "rw_ok l' ws (n + native_change out)"
  using ok w
  by (auto simp: rw_ok_def absolute_rwlock_lock_write_def block_on_def native_change_def Let_def
    split: if_splits option.splits)

lemma rw_ok_write_again:
  assumes ok: "rw_ok l ws n" and t: "t \<in># ws" and w: "absolute_rwlock_lock_write True (Some t) l = (out, us, l')"
  shows "rw_ok l' (ws - {#t#}) n"
proof -
  obtain ws' where ws': "ws = add_mset t ws'" using t by (metis mset_add)
  show ?thesis using ok w unfolding ws'
    by (auto simp: rw_ok_def absolute_rwlock_lock_write_def block_on_def Let_def split: if_splits)
qed

lemma rw_ok_native_again:
  assumes ok: "rw_ok l ws (Suc n)" and w: "absolute_rwlock_lock_write True None l = (out, us, l')"
  shows "rw_ok l' ws (n + native_change out)"
  using ok w by (auto simp: rw_ok_def absolute_rwlock_lock_write_def block_on_def native_change_def Let_def split: if_splits)

lemma rw_ok_try_write: "rw_ok l ws n \<Longrightarrow> absolute_rwlock_try_lock_write l = (b, l') \<Longrightarrow> rw_ok l' ws n"
  by (auto simp: rw_ok_def absolute_rwlock_try_lock_write_def split: if_splits)

lemma rw_step_ok:
  "rw_step y z \<Longrightarrow> rw_ok (rs_lock y) (rs_writers y) (rs_native y) \<Longrightarrow> rw_ok (rs_lock z) (rs_writers z) (rs_native z)"
  by (induction rule: rw_step.induct)
    (auto intro: rw_ok_read rw_ok_try_read rw_ok_unlock_read rw_ok_write rw_ok_write_again
      rw_ok_native_again rw_ok_try_write rw_ok_unlock_write)

text \<open>The fields of the lock say who holds it.\<close>

definition holders_ok :: "rwlock_impl \<Rightarrow> nat \<Rightarrow> nat \<Rightarrow> bool" where
  "holders_ok l reading writing \<longleftrightarrow> rw_readers l = int reading \<and> writing = (if rw_writer l then 1 else 0)"

lemma holders_read:
  "holders_ok l r w \<Longrightarrow> absolute_rwlock_lock_read c l = (out, us, l') \<Longrightarrow> holders_ok l' (r + granted out) w"
  by (auto simp: holders_ok_def absolute_rwlock_lock_read_def block_on_def granted_def split: if_splits option.splits)

lemma holders_try_read:
  "holders_ok l r w \<Longrightarrow> absolute_rwlock_try_lock_read l = (b, l') \<Longrightarrow> holders_ok l' (r + (if b then 1 else 0)) w"
  by (auto simp: holders_ok_def absolute_rwlock_try_lock_read_def split: if_splits)

lemma holders_unlock_read:
  "holders_ok l r w \<Longrightarrow> 0 < r \<Longrightarrow> absolute_rwlock_unlock_read l = (ws, l') \<Longrightarrow> holders_ok l' (r - 1) w"
  by (auto simp: holders_ok_def absolute_rwlock_unlock_read_def Let_def split: if_splits)

lemma holders_write:
  "holders_ok l r w \<Longrightarrow> absolute_rwlock_lock_write registered c l = (out, us, l') \<Longrightarrow> holders_ok l' r (w + granted out)"
  by (auto simp: holders_ok_def absolute_rwlock_lock_write_def block_on_def granted_def Let_def split: if_splits option.splits)

lemma holders_try_write:
  "holders_ok l r w \<Longrightarrow> absolute_rwlock_try_lock_write l = (b, l') \<Longrightarrow> holders_ok l' r (w + (if b then 1 else 0))"
  by (auto simp: holders_ok_def absolute_rwlock_try_lock_write_def split: if_splits)

lemma holders_unlock_write:
  "holders_ok l r w \<Longrightarrow> 0 < w \<Longrightarrow> absolute_rwlock_unlock_write l = (ws, rs, l') \<Longrightarrow> holders_ok l' r (w - 1)"
  by (auto simp: holders_ok_def absolute_rwlock_unlock_write_def Let_def split: if_splits)

lemma holders_step:
  "rw_step y z \<Longrightarrow> holders_ok (rs_lock y) (rs_reading y) (rs_writing y) \<Longrightarrow>
    holders_ok (rs_lock z) (rs_reading z) (rs_writing z)"
  by (erule rw_step.cases)
    (simp_all add: holders_read holders_try_read holders_unlock_read holders_write holders_try_write
      holders_unlock_write del: One_nat_def)

lemma rw_reachable_ok:
  assumes "rw_step\<^sup>*\<^sup>* new_rw_system y"
  shows "rw_ok (rs_lock y) (rs_writers y) (rs_native y) \<and> holders_ok (rs_lock y) (rs_reading y) (rs_writing y)"
  using assms
proof (induction rule: rtranclp_induct)
  case base
  show ?case by (simp add: new_rw_system_def absolute_rwlock_create_def rw_ok_def holders_ok_def)
next
  case (step y z)
  then show ?case using rw_step_ok holders_step by blast
qed

text \<open>
  C17. In every run of a reader/writer lock, a writer holds it alone: of those whose call to lock it has
  returned, and who have not unlocked it, at most one writes, and while one writes nobody reads. A task
  waits to read only behind a writer that holds the lock or waits for it; a task waits to write only while
  someone holds the lock or a resumed writer is on its way. So neither loses a wake-up.
\<close>
theorem rwlock_excludes_and_loses_no_wake_up:
  assumes "rw_step\<^sup>*\<^sup>* new_rw_system y"
  shows "rs_writing y \<le> 1 \<and> (0 < rs_writing y \<longrightarrow> rs_reading y = 0) \<and>
    (rw_readerWaiters (rs_lock y) \<noteq> [] \<longrightarrow> 0 < rs_writing y \<or>
       rw_writerWaiters (rs_lock y) \<noteq> [] \<or> rs_writers y \<noteq> {#} \<or> 0 < rs_native y) \<and>
    (rw_writerWaiters (rs_lock y) \<noteq> [] \<longrightarrow> 0 < rs_writing y \<or> 0 < rs_reading y \<or> rs_writers y \<noteq> {#})"
  using rw_reachable_ok [OF assms] by (auto simp: rw_ok_def holders_ok_def)

theorem rwlock_excludes_and_loses_no_wake_up_witness:
  "\<exists>y. rw_step\<^sup>*\<^sup>* new_rw_system y \<and> rs_reading y = 1 \<and> rs_writing y = 0 \<and>
    rw_writerWaiters (rs_lock y) = [7] \<and> rw_readerWaiters (rs_lock y) = [8]"
proof -
  let ?y = "\<lambda>l. new_rw_system\<lparr>rs_lock := l, rs_reading := 1\<rparr>"
  let ?l1 = "absolute_rwlock_create\<lparr>rw_readers := 1\<rparr>"
  let ?l2 = "?l1\<lparr>rw_waitingWriters := 1, rw_writerWaiters := [7]\<rparr>"
  let ?l3 = "?l2\<lparr>rw_readerWaiters := [8]\<rparr>"
  have a: "rw_step new_rw_system (?y ?l1)"
    using rw_read [of None new_rw_system "Returns ()" "[]" ?l1]
    by (simp add: absolute_rwlock_lock_read_def new_rw_system_def absolute_rwlock_create_def granted_def)
  have b: "rw_step (?y ?l1) (?y ?l2)"
    using rw_write [of "Some 7" "?y ?l1" Suspends "[]" ?l2]
    by (simp add: absolute_rwlock_lock_write_def new_rw_system_def absolute_rwlock_create_def block_on_def
        native_change_def granted_def)
  have c: "rw_step (?y ?l2) (?y ?l3)"
    using rw_read [of "Some 8" "?y ?l2" Suspends "[]" ?l3]
    by (simp add: absolute_rwlock_lock_read_def new_rw_system_def absolute_rwlock_create_def block_on_def granted_def)
  have run: "rw_step\<^sup>*\<^sup>* new_rw_system (?y ?l3)"
    using a b c by (meson rtranclp.rtrancl_into_rtrancl rtranclp.rtrancl_refl)
  have "rs_writing (?y ?l3) = 0"
    using rwlock_excludes_and_loses_no_wake_up [OF run] by auto
  with run show ?thesis by (intro exI [where x = "?y ?l3"]) simp
qed

section \<open>Mutexes, semaphores and once cells\<close>

lemma mutex_loses_no_wake_up:
  assumes "(room_step (passes absolute_mutex_lock) mutex_other)\<^sup>*\<^sup>* (absolute_mutex_create, {#}) (m, woken)"
    and "mx_waiters m \<noteq> []" and "\<not> mx_locked m"
  shows "woken \<noteq> {#}"
  using mutex.no_lost_wake_up [OF assms(1)] assms(2,3) by (auto simp: mutex_room_def absolute_mutex_create_def)

lemma once_loses_no_wake_up:
  assumes "(room_step (passes absolute_once_begin) once_other)\<^sup>*\<^sup>* (absolute_once_create, {#}) (c, woken)"
    and "oc_waiters c \<noteq> []"
  shows "oc_state c = 1"
  using once.calm_reachable [OF assms(1)] assms(2)
  by (simp add: once.calm_def once_ok_def absolute_once_create_def)

text \<open>
  C24. In every run of a semaphore the permits stay between zero and the maximum, and whenever tasks
  wait while permits are left, a task that has been resumed is on its way and gets one.
\<close>
theorem semaphore_loses_no_wake_up:
  assumes "absolute_semaphore_create initial maximum = Some s0"
    and "(room_step (passes absolute_semaphore_acquire) semaphore_other)\<^sup>*\<^sup>* (s0, {#}) (s, woken)"
  shows "0 \<le> sm_permits s \<and> sm_permits s \<le> sm_maximum s \<and>
    (sm_waiters s \<noteq> [] \<and> 0 < sm_permits s \<longrightarrow>
       (\<exists>t s'. t \<in># woken \<and> absolute_semaphore_acquire (Some t) s = (Returns (), [], s')))"
proof -
  have s0: "semaphore_ok s0" "sm_waiters s0 = []"
    using assms(1) by (auto simp: absolute_semaphore_create_def semaphore_ok_def split: if_splits)
  have "semaphore_ok s" using semaphore.calm_reachable [OF assms(2) s0] by (simp add: semaphore.calm_def)
  moreover have "\<exists>t s'. t \<in># woken \<and> absolute_semaphore_acquire (Some t) s = (Returns (), [], s')"
    if "sm_waiters s \<noteq> []" "0 < sm_permits s"
    using semaphore.no_lost_wake_up [OF assms(2) s0 that(1)] that(2)
    by (auto simp: absolute_semaphore_acquire_def)
  ultimately show ?thesis by (simp add: semaphore_ok_def)
qed

theorem semaphore_loses_no_wake_up_witness:
  "\<exists>s. (room_step (passes absolute_semaphore_acquire) semaphore_other)\<^sup>*\<^sup>*
      (\<lparr>sm_waiters = [], sm_permits = 0, sm_maximum = 1\<rparr>, {#}) (s, {#8#}) \<and> sm_waiters s = [9] \<and>
    (\<exists>t s'. t \<in># {#8#} \<and> absolute_semaphore_acquire (Some t) s = (Returns (), [], s'))"
proof -
  let ?step = "room_step (passes absolute_semaphore_acquire) semaphore_other"
  let ?s = "\<lambda>ws p. \<lparr>sm_waiters = ws, sm_permits = p, sm_maximum = (1::int)\<rparr>"
  have s0: "absolute_semaphore_create 0 1 = Some (?s [] 0)" by (simp add: absolute_semaphore_create_def)
  have a: "?step (?s [] 0, {#}) (?s [8] 0, {#})"
    by (rule room_arrive [of _ "Some 8" _ False]) (simp add: passes_blocked absolute_semaphore_acquire_def block_on_def)
  have b: "?step (?s [8] 0, {#}) (?s [8, 9] 0, {#})"
    by (rule room_arrive [of _ "Some 9" _ False]) (simp add: passes_blocked absolute_semaphore_acquire_def block_on_def)
  have "semaphore_other (?s [8, 9] 0) [8] (?s [9] 1)"
    unfolding semaphore_other_def by (rule disjI1, intro exI [where x = 1] exI [where x = True])
      (simp add: absolute_semaphore_release_def)
  from room_other [of semaphore_other, OF this, of _ "{#}"] have c: "?step (?s [8, 9] 0, {#}) (?s [9] 1, {#8#})" by simp
  have run: "?step\<^sup>*\<^sup>* (?s [] 0, {#}) (?s [9] 1, {#8#})"
    using a b c by (meson rtranclp.rtrancl_into_rtrancl rtranclp.rtrancl_refl)
  from semaphore_loses_no_wake_up [OF s0 run] run show ?thesis by (intro exI [where x = "?s [9] 1"]) simp
qed

section \<open>Channels\<close>

text \<open>
  C23. In every run of a channel, whenever tasks wait to receive and a value is in the queue, a task
  that has been resumed is on its way and receives the next value; no task waits on a closed channel.
\<close>
theorem receivers_lose_no_wake_up:
  assumes "(room_step (passes channel_receive) for_receivers)\<^sup>*\<^sup>* (channel_create capacity, {#}) (c, woken)"
    and "capacity < 2 ^ 31" and "ch_receiveWaiters c \<noteq> []"
  shows "\<not> ch_closed c \<and> (ch_queue c \<noteq> [] \<longrightarrow>
    (\<exists>t us c'. t \<in># woken \<and> channel_receive (Some t) c = (Returns (Some (hd (ch_queue c))), us, c')))"
proof -
  have c0: "channel_ok (channel_create capacity)" "ch_receiveWaiters (channel_create capacity) = []"
    using assms(2) by (simp_all add: channel_ok_def channel_create_def)
  have "channel_ok c" using receivers.calm_reachable [OF assms(1) c0] by (simp add: receivers.calm_def)
  moreover have "\<exists>t us c'. t \<in># woken \<and> channel_receive (Some t) c = (Returns (Some (hd (ch_queue c))), us, c')"
    if ne: "ch_queue c \<noteq> []"
  proof -
    obtain t where "t \<in># woken" using receivers.no_lost_wake_up [OF assms(1) c0 assms(3)] ne by auto
    moreover obtain us c' where "channel_receive (Some t) c = (Returns (Some (hd (ch_queue c))), us, c')"
      using ne by (cases "ch_queue c") (auto simp: channel_receive_def pop_value_def)
    ultimately show ?thesis by blast
  qed
  ultimately show ?thesis using assms(3) by (auto simp: channel_ok_def)
qed

text \<open>
  In every run of a channel, tasks wait to send only if its capacity is bounded and it is open,
  and whenever it has room a task that has been resumed is on its way and sends its value.
\<close>
theorem senders_lose_no_wake_up:
  assumes "(room_step some_send for_senders)\<^sup>*\<^sup>* (channel_create capacity, {#}) (c, woken)"
    and "capacity < 2 ^ 31" and "ch_sendWaiters c \<noteq> []"
  shows "\<not> ch_closed c \<and> 0 < ch_capacity c \<and> (channel_count c < ch_capacity c \<longrightarrow>
    (\<exists>t. t \<in># woken \<and> (\<forall>v. \<exists>us c'. channel_send v (Some t) c = (Returns True, us, c'))))"
proof -
  have c0: "channel_ok (channel_create capacity)" "ch_sendWaiters (channel_create capacity) = []"
    using assms(2) by (simp_all add: channel_ok_def channel_create_def)
  have ok: "channel_ok c" using senders.calm_reachable [OF assms(1) c0] by (simp add: senders.calm_def)
  then have st: "\<not> ch_closed c" "0 < ch_capacity c" using assms(3) by (auto simp: channel_ok_def)
  have "\<exists>t. t \<in># woken \<and> (\<forall>v. \<exists>us c'. channel_send v (Some t) c = (Returns True, us, c'))"
    if room: "channel_count c < ch_capacity c"
  proof -
    have "0 < send_room c" using room queue_size_exact [OF ok st(2)] by (simp add: channel_count_def send_room_def)
    then obtain t where "t \<in># woken" using senders.no_lost_wake_up [OF assms(1) c0 assms(3)] by auto
    moreover have "\<exists>us c'. channel_send v (Some t) c = (Returns True, us, c')" for v
      using room st by (auto simp: channel_send_def channel_count_def split: prod.splits)
    ultimately show ?thesis by blast
  qed
  with st show ?thesis by blast
qed

text \<open>The history of a channel: what was sent, with success, and what was received.\<close>

inductive channel_step :: "'v channel_impl \<times> 'v list \<times> 'v list \<Rightarrow> 'v channel_impl \<times> 'v list \<times> 'v list \<Rightarrow> bool" where
  history_send: "channel_send v current c = (out, us, c') \<Longrightarrow>
    channel_step (c, sent, got) (c', sent @ (if out = Returns True then [v] else []), got)"
| history_try_send: "channel_try_send v c = (b, us, c') \<Longrightarrow>
    channel_step (c, sent, got) (c', sent @ (if b then [v] else []), got)"
| history_receive: "channel_receive current c = (out, us, c') \<Longrightarrow>
    channel_step (c, sent, got) (c', sent, got @ (case out of Returns (Some v) \<Rightarrow> [v] | _ \<Rightarrow> []))"
| history_try_receive: "channel_try_receive c = (r, us, c') \<Longrightarrow>
    channel_step (c, sent, got) (c', sent, got @ (case r of None \<Rightarrow> [] | Some v \<Rightarrow> [v]))"
| history_close: "channel_close c = (us, c') \<Longrightarrow> channel_step (c, sent, got) (c', sent, got)"

definition history_ok :: "'v channel_impl \<times> 'v list \<times> 'v list \<Rightarrow> bool" where
  "history_ok x = (case x of (c, sent, got) \<Rightarrow> channel_ok c \<and> got @ ch_queue c = sent)"

lemma send_history:
  "channel_send v current c = (out, us, c') \<Longrightarrow> ch_queue c' = ch_queue c @ (if out = Returns True then [v] else [])"
  by (erule send_cases) simp_all

lemma receive_history:
  "channel_receive current c = (out, us, c') \<Longrightarrow>
    ch_queue c = (case out of Returns (Some v) \<Rightarrow> [v] | _ \<Rightarrow> []) @ ch_queue c'"
  by (erule receive_cases) simp_all

lemma history_step: "channel_step x y \<Longrightarrow> history_ok x \<Longrightarrow> history_ok y"
proof (induction rule: channel_step.induct)
  case (history_send v current c out us c' sent got)
  then show ?case using channel_ok_send [of c] send_history [of v current c out us c'] by (auto simp: history_ok_def)
next
  case (history_try_send v c b us c' sent got)
  then have ok: "channel_ok c" "got @ ch_queue c = sent" by (simp_all add: history_ok_def)
  from try_send_is_send [OF history_try_send(1) ok(1)] show ?case
  proof
    assume "(b, us, c') = (False, [], c)"
    then show ?thesis using ok by (simp add: history_ok_def)
  next
    assume r: "channel_send v None c = (Returns b, us, c')"
    show ?thesis using channel_ok_send [OF ok(1) r] send_history [OF r] ok(2) by (auto simp: history_ok_def)
  qed
next
  case (history_receive current c out us c' sent got)
  then have ok: "channel_ok c" "got @ ch_queue c = sent" by (simp_all add: history_ok_def)
  show ?case using channel_ok_receive [OF ok(1) history_receive(1)] receive_history [OF history_receive(1)] ok(2)
    by (simp add: history_ok_def)
next
  case (history_try_receive c r us c' sent got)
  then have ok: "channel_ok c" "got @ ch_queue c = sent" by (simp_all add: history_ok_def)
  from try_receive_is_receive [OF history_try_receive(1)] show ?case
  proof
    assume "(r, us, c') = (None, [], c)"
    then show ?thesis using ok by (simp add: history_ok_def)
  next
    assume q: "channel_receive None c = (Returns r, us, c')"
    show ?thesis using channel_ok_receive [OF ok(1) q] receive_history [OF q] ok(2)
      by (cases r) (simp_all add: history_ok_def)
  qed
next
  case (history_close c us c' sent got)
  then show ?case using channel_ok_close [of c us c'] by (auto simp: history_ok_def channel_close_def)
qed

lemma history_reachable:
  assumes "channel_step\<^sup>*\<^sup>* (channel_create capacity, [], []) (c, sent, got)" and "capacity < 2 ^ 31"
  shows "history_ok (c, sent, got)"
  using assms(1)
proof (induction rule: rtranclp_induct)
  case base
  show ?case using assms(2) by (simp add: history_ok_def channel_ok_def channel_create_def)
next
  case (step y z)
  then show ?case using history_step by blast
qed

text \<open>
  C18. A channel delivers what was sent, once and in order: what was received, followed by what is in
  the queue, is what was sent. A bounded channel never holds more than its capacity, and a receiver
  is told that there is nothing only when the channel is closed and everything has been received.
\<close>
theorem channel_delivers_in_order:
  assumes "channel_step\<^sup>*\<^sup>* (channel_create capacity, [], []) (c, sent, got)" and "capacity < 2 ^ 31"
  shows "got @ ch_queue c = sent \<and> (0 < ch_capacity c \<longrightarrow> int (length (ch_queue c)) \<le> ch_capacity c) \<and>
    (\<forall>current us c'. channel_receive current c = (Returns None, us, c') \<longrightarrow> ch_closed c \<and> got = sent)"
proof -
  have ok: "channel_ok c" "got @ ch_queue c = sent"
    using history_reachable [OF assms] by (simp_all add: history_ok_def)
  have "ch_closed c \<and> got = sent" if r: "channel_receive current c = (Returns None, us, c')" for current us c'
    using r by (cases rule: receive_cases) (use ok in auto)
  then show ?thesis using ok by (auto simp: channel_ok_def)
qed

text \<open>A capsule sent into a transfer channel is received, or destroyed with the channel: once.\<close>

lemma transfer_destroys_the_rest:
  assumes "channel_step\<^sup>*\<^sup>* (channel_create capacity, [], []) (c, sent, got)" and "capacity < 2 ^ 31"
  shows "got @ absolute_transfer_channel_destroy c = sent"
  using history_reachable [OF assms] by (simp add: history_ok_def absolute_transfer_channel_destroy_def)

section \<open>Runs\<close>

theorem receivers_lose_no_wake_up_witness:
  "\<exists>c :: int channel_impl. (room_step (passes channel_receive) for_receivers)\<^sup>*\<^sup>* (channel_create 0, {#}) (c, {#8#}) \<and>
    ch_receiveWaiters c = [9] \<and> ch_queue c = [5] \<and> \<not> ch_closed c \<and>
    (\<exists>t us c'. t \<in># {#8#} \<and> channel_receive (Some t) c = (Returns (Some 5), us, c'))"
proof -
  let ?step = "room_step (passes channel_receive) for_receivers"
  let ?c = "\<lambda>q ws. \<lparr>ch_queue = q, ch_sendWaiters = [], ch_receiveWaiters = ws, ch_capacity = 0, ch_closed = False\<rparr> :: int channel_impl"
  have c0: "channel_create 0 = ?c [] []" by (simp add: channel_create_def)
  have a: "?step (?c [] [], {#}) (?c [] [8], {#})"
    by (rule room_arrive [of _ "Some 8" _ False]) (simp add: passes_blocked channel_receive_def block_on_def)
  have b: "?step (?c [] [8], {#}) (?c [] [8, 9], {#})"
    by (rule room_arrive [of _ "Some 9" _ False]) (simp add: passes_blocked channel_receive_def block_on_def)
  have "channel_send 5 None (?c [] [8, 9]) = (Returns True, [8], ?c [5] [9])"
    by (simp add: channel_send_def push_value_def)
  then have "for_receivers (?c [] [8, 9]) [8] (?c [5] [9])" unfolding for_receivers_def by blast
  from room_other [of for_receivers, OF this, of _ "{#}"] have c: "?step (?c [] [8, 9], {#}) (?c [5] [9], {#8#})" by simp
  have run: "?step\<^sup>*\<^sup>* (channel_create 0, {#}) (?c [5] [9], {#8#})"
    unfolding c0 using a b c by (meson rtranclp.rtrancl_into_rtrancl rtranclp.rtrancl_refl)
  from receivers_lose_no_wake_up [OF run] run show ?thesis by (intro exI [where x = "?c [5] [9]"]) simp
qed

theorem senders_lose_no_wake_up_witness:
  "\<exists>c :: int channel_impl. (room_step some_send for_senders)\<^sup>*\<^sup>* (channel_create 1, {#}) (c, {#8#}) \<and>
    ch_sendWaiters c = [9] \<and> channel_count c < ch_capacity c \<and>
    (\<exists>t. t \<in># {#8#} \<and> (\<forall>v. \<exists>us c'. channel_send v (Some t) c = (Returns True, us, c')))"
proof -
  let ?step = "room_step some_send for_senders"
  let ?c = "\<lambda>q ws. \<lparr>ch_queue = q, ch_sendWaiters = ws, ch_receiveWaiters = [], ch_capacity = 1, ch_closed = False\<rparr> :: int channel_impl"
  have c0: "channel_create 1 = ?c [] []" by (simp add: channel_create_def)
  have n: "queue_size (?c [5] ws) = 1" "queue_size (?c [] ws) = 0" for ws by (simp_all add: queue_size_def)
  have a: "?step (?c [] [], {#}) (?c [5] [], {#})"
    by (rule room_arrive [of _ None _ True])
      (use n in \<open>auto simp: some_send_def passes_through channel_send_def push_value_def intro!: exI [where x = 5]\<close>)
  have b: "?step (?c [5] ws, {#}) (?c [5] (ws @ [t]), {#})" for ws t
    by (rule room_arrive [of _ "Some t" _ False])
      (use n in \<open>simp add: some_send_def passes_blocked channel_send_def block_on_def\<close>)
  have "channel_receive None (?c [5] [8, 9]) = (Returns (Some 5), [8], ?c [] [9])"
    by (simp add: channel_receive_def pop_value_def)
  then have "for_senders (?c [5] [8, 9]) [8] (?c [] [9])" unfolding for_senders_def by blast
  from room_other [of for_senders, OF this, of _ "{#}"] have c: "?step (?c [5] [8, 9], {#}) (?c [] [9], {#8#})" by simp
  have run: "?step\<^sup>*\<^sup>* (channel_create 1, {#}) (?c [] [9], {#8#})"
    unfolding c0 using a b [of "[]" 8] b [of "[8]" 9] c
    by simp
  from senders_lose_no_wake_up [OF run] run n show ?thesis by (intro exI [where x = "?c [] [9]"]) (simp add: channel_count_def)
qed

theorem channel_delivers_in_order_witness:
  "\<exists>c :: int channel_impl. channel_step\<^sup>*\<^sup>* (channel_create 2, [], []) (c, [5, 6], [5]) \<and> [5] @ ch_queue c = [5, 6]"
proof -
  let ?c = "\<lambda>q. \<lparr>ch_queue = q, ch_sendWaiters = [], ch_receiveWaiters = [], ch_capacity = 2, ch_closed = False\<rparr> :: int channel_impl"
  have c0: "channel_create 2 = ?c []" by (simp add: channel_create_def)
  have a: "channel_step (?c [], [], []) (?c [5], [5], [])"
    using history_try_send [of 5 "?c []" True "[]" "?c [5]" "[]" "[]"]
    by (simp add: channel_try_send_def push_value_def queue_size_def)
  have b: "channel_step (?c [5], [5], []) (?c [5, 6], [5, 6], [])"
    using history_try_send [of 6 "?c [5]" True "[]" "?c [5, 6]" "[5]" "[]"]
    by (simp add: channel_try_send_def push_value_def queue_size_def)
  have c: "channel_step (?c [5, 6], [5, 6], []) (?c [6], [5, 6], [5])"
    using history_try_receive [of "?c [5, 6]" "Some 5" "[]" "?c [6]" "[5, 6]" "[]"]
    by (simp add: channel_try_receive_def pop_value_def)
  have run: "channel_step\<^sup>*\<^sup>* (channel_create 2, [], []) (?c [6], [5, 6], [5])"
    unfolding c0 using a b c by (meson rtranclp.rtrancl_into_rtrancl rtranclp.rtrancl_refl)
  from channel_delivers_in_order [OF run] have "[5] @ ch_queue (?c [6]) = [5, 6]" by simp
  with run show ?thesis by blast
qed

end
