(* ===== verification/Task_Control.thy ===== *)
theory Task_Control
  imports Prelude
begin

text \<open>
  Cancellation and deadlines of tasks (\<^verbatim>\<open>Absolute-Runtime/src/tasks.cpp\<close>): every task has a control,
  which may be cancelled and have a deadline, and inherits what the control of the task that started
  it has. Controls are named by numbers, in the place of shared pointers. Time is an argument, in
  nanoseconds. Task groups, which own their tasks and cancel and join them together, follow.
\<close>

section \<open>Controls\<close>

record control =
  ct_parent :: "nat option"
  ct_cancelRequested :: bool
  ct_deadlineNanoseconds :: int

type_synonym controls = "nat \<rightharpoonup> control"

text \<open>
  The loops over the parents: the result \<open>None\<close> is a loop that does not end, or a control that does
  not exist.
\<close>

definition tighten :: "int \<Rightarrow> int \<Rightarrow> int" where
  "tighten candidate effective = (if candidate > 0 \<and> (effective = 0 \<or> candidate < effective) then candidate else effective)"

partial_function (option) effective_loop :: "controls \<Rightarrow> nat option \<Rightarrow> int \<Rightarrow> int option" where
  "effective_loop m current effective =
     (case current of
        None \<Rightarrow> Some effective
      | Some i \<Rightarrow>
          (case m i of
             None \<Rightarrow> None
           | Some c \<Rightarrow> effective_loop m (ct_parent c) (tighten (ct_deadlineNanoseconds c) effective)))"

definition EffectiveDeadlineNanoseconds :: "controls \<Rightarrow> nat option \<Rightarrow> int option" where
  "EffectiveDeadlineNanoseconds m control = effective_loop m control 0"

partial_function (option) requested_loop :: "controls \<Rightarrow> nat option \<Rightarrow> bool option" where
  "requested_loop m current =
     (case current of
        None \<Rightarrow> Some False
      | Some i \<Rightarrow>
          (case m i of
             None \<Rightarrow> None
           | Some c \<Rightarrow> if ct_cancelRequested c then Some True else requested_loop m (ct_parent c)))"

definition ControlCancelled :: "int \<Rightarrow> controls \<Rightarrow> nat option \<Rightarrow> bool option" where
  "ControlCancelled now m control =
     Option.bind (requested_loop m control) (\<lambda>requested.
       if requested then Some True
       else map_option (\<lambda>deadline. deadline > 0 \<and> deadline \<le> now) (EffectiveDeadlineNanoseconds m control))"

definition deadline_after :: "int \<Rightarrow> int \<Rightarrow> int" where
  "deadline_after now milliseconds =
     (let maximum = 2 ^ 63 - 1; duration = milliseconds * 1000000
      in if duration > maximum - now then maximum else now + duration)"

text \<open>The exchange succeeds as long as the deadline is none or a later one.\<close>

definition SetControlDeadlineAfter :: "int \<Rightarrow> controls \<Rightarrow> nat option \<Rightarrow> int \<Rightarrow> bool \<times> controls" where
  "SetControlDeadlineAfter now m control milliseconds =
     (case control of
        None \<Rightarrow> (False, m)
      | Some i \<Rightarrow>
          (case m i of
             None \<Rightarrow> (False, m)
           | Some c \<Rightarrow>
               if milliseconds < 0 then (False, m)
               else
                 (let deadline = deadline_after now milliseconds in
                  (True, if ct_deadlineNanoseconds c = 0 \<or> deadline < ct_deadlineNanoseconds c
                         then m(i \<mapsto> c\<lparr>ct_deadlineNanoseconds := deadline\<rparr>) else m))))"

text \<open>The addition overflows only if the clock shows less than a millisecond; then the result is undefined.\<close>

definition RemainingDeadlineMilliseconds :: "int \<Rightarrow> controls \<Rightarrow> nat option \<Rightarrow> int option" where
  "RemainingDeadlineMilliseconds now m control =
     Option.bind (EffectiveDeadlineNanoseconds m control) (\<lambda>deadline.
       if deadline = 0 then Some (-1)
       else
         (let remaining = deadline - now in
          if remaining \<le> 0 then Some 0
          else if \<not> in_i64 (remaining + 999999) then None
          else Some (min (cdiv (remaining + 999999) 1000000) (2 ^ 31 - 1))))"

definition absolute_task_cancel :: "controls \<Rightarrow> nat \<Rightarrow> controls" where
  "absolute_task_cancel m i = m(i := map_option (\<lambda>c. c\<lparr>ct_cancelRequested := True\<rparr>) (m i))"

text \<open>The control of a task that is started by a task, or by another thread.\<close>

definition spawn_control :: "controls \<Rightarrow> nat \<Rightarrow> nat option \<Rightarrow> controls" where
  "spawn_control m i current =
     m(i \<mapsto> \<lparr>ct_parent = current, ct_cancelRequested = False, ct_deadlineNanoseconds = 0\<rparr>)"

text \<open>When a task that sleeps is to be resumed.\<close>

definition absolute_task_delay :: "int \<Rightarrow> controls \<Rightarrow> nat option \<Rightarrow> int \<Rightarrow> int option option" where
  "absolute_task_delay now m control ms =
     (if ms \<le> 0 then Some None
      else
        (let deadline = now + ms * 1000000 in
         case control of
           None \<Rightarrow> Some (Some deadline)
         | Some i \<Rightarrow>
             map_option (\<lambda>taskDeadline. Some (if taskDeadline > 0 \<and> taskDeadline < deadline then taskDeadline else deadline))
               (EffectiveDeadlineNanoseconds m (Some i))))"

section \<open>Task groups\<close>

record task_group =
  tg_children :: "nat list"
  tg_closed :: bool

definition absolute_task_group_create :: task_group where
  "absolute_task_group_create = \<lparr>tg_children = [], tg_closed = False\<rparr>"

text \<open>Whether the child was added, and the children that are cancelled and joined at once.\<close>

definition absolute_task_group_add :: "task_group option \<Rightarrow> nat \<Rightarrow> bool \<times> nat list \<times> task_group option" where
  "absolute_task_group_add g child =
     (case g of
        None \<Rightarrow> (False, [child], None)
      | Some g \<Rightarrow>
          if \<not> tg_closed g then (True, [], Some (g\<lparr>tg_children := tg_children g @ [child]\<rparr>))
          else (False, [child], Some g))"

definition absolute_task_group_count :: "task_group \<Rightarrow> int" where
  "absolute_task_group_count g = min (int (length (tg_children g))) (2 ^ 31 - 1)"

text \<open>Cancelling a group: the tasks have the controls that the function names.\<close>

definition absolute_task_group_cancel :: "(nat \<Rightarrow> nat) \<Rightarrow> controls \<Rightarrow> task_group \<Rightarrow> controls" where
  "absolute_task_group_cancel control_of m g =
     fold (\<lambda>child m. absolute_task_cancel m (control_of child)) (tg_children g) m"

definition absolute_task_group_join :: "task_group \<Rightarrow> nat list \<times> task_group" where
  "absolute_task_group_join g = (tg_children g, g\<lparr>tg_closed := True, tg_children := []\<rparr>)"

end
