(* ===== verification/Control_Rules.thy ===== *)
theory Control_Rules
  imports Task_Control "HOL-Library.Multiset"
begin

text \<open>
  Cancellation is inherited and permanent, deadlines are inherited and only become earlier; a task
  that is handed to a group is joined once.
\<close>

section \<open>The ancestors of a control\<close>

declare effective_loop.simps [code] requested_loop.simps [code]

inductive ancestors :: "controls \<Rightarrow> nat option \<Rightarrow> control list \<Rightarrow> bool" for m where
  ancestors_none: "ancestors m None []"
| ancestors_some: "m i = Some c \<Longrightarrow> ancestors m (ct_parent c) cs \<Longrightarrow> ancestors m (Some i) (c # cs)"

text \<open>A control is made after that of the task which starts its task.\<close>

definition parents_older :: "controls \<Rightarrow> bool" where
  "parents_older m \<longleftrightarrow> (\<forall>i c p. m i = Some c \<longrightarrow> ct_parent c = Some p \<longrightarrow> p < i \<and> m p \<noteq> None)"

lemma ancestors_exist:
  assumes "parents_older m"
  shows "m i \<noteq> None \<Longrightarrow> \<exists>cs. ancestors m (Some i) cs"
proof (induction i rule: less_induct)
  case (less i)
  then obtain c where c: "m i = Some c" by blast
  show ?case
  proof (cases "ct_parent c")
    case None
    then show ?thesis using ancestors_some [of m i c "[]", OF c] ancestors_none by metis
  next
    case (Some p)
    then have "p < i" "m p \<noteq> None" using assms c by (auto simp: parents_older_def)
    then obtain cs where "ancestors m (Some p) cs" using less.IH by blast
    then show ?thesis using ancestors_some [of m i c cs, OF c] Some by metis
  qed
qed

lemma effective_loop_ancestors:
  "ancestors m i cs \<Longrightarrow> effective_loop m i e = Some (fold (\<lambda>c. tighten (ct_deadlineNanoseconds c)) cs e)"
  by (induction arbitrary: e rule: ancestors.induct) (simp_all add: effective_loop.simps)

lemma requested_loop_ancestors:
  "ancestors m i cs \<Longrightarrow> requested_loop m i = Some (\<exists>c \<in> set cs. ct_cancelRequested c)"
  by (induction rule: ancestors.induct) (simp_all add: requested_loop.simps)

text \<open>The earliest of the deadlines that are set, or none.\<close>

definition earliest :: "control list \<Rightarrow> int" where
  "earliest cs = fold (\<lambda>c. tighten (ct_deadlineNanoseconds c)) cs 0"

lemma fold_tighten:
  assumes "0 \<le> e" and "0 < n"
  shows "0 \<le> fold (\<lambda>c. tighten (ct_deadlineNanoseconds c)) cs e \<and>
    ((0 < fold (\<lambda>c. tighten (ct_deadlineNanoseconds c)) cs e \<and> fold (\<lambda>c. tighten (ct_deadlineNanoseconds c)) cs e \<le> n) \<longleftrightarrow>
      (0 < e \<and> e \<le> n) \<or> (\<exists>c \<in> set cs. 0 < ct_deadlineNanoseconds c \<and> ct_deadlineNanoseconds c \<le> n))"
  using assms(1)
proof (induction cs arbitrary: e)
  case (Cons c cs)
  have "0 \<le> tighten (ct_deadlineNanoseconds c) e" using Cons.prems by (simp add: tighten_def)
  from Cons.IH [OF this] show ?case using Cons.prems by (auto simp: tighten_def)
qed simp

lemma earliest_before:
  "0 < n \<Longrightarrow> 0 < earliest cs \<and> earliest cs \<le> n \<longleftrightarrow>
    (\<exists>c \<in> set cs. 0 < ct_deadlineNanoseconds c \<and> ct_deadlineNanoseconds c \<le> n)"
  using fold_tighten [of 0 n cs] by (simp add: earliest_def)

lemma earliest_nonneg: "0 \<le> earliest cs"
  using fold_tighten [of 0 1 cs] by (simp add: earliest_def)

text \<open>What makes a task cancelled at a time: one of its ancestors, or itself.\<close>

definition stops_at :: "int \<Rightarrow> control \<Rightarrow> bool" where
  "stops_at now c \<longleftrightarrow> ct_cancelRequested c \<or> 0 < ct_deadlineNanoseconds c \<and> ct_deadlineNanoseconds c \<le> now"

lemma ControlCancelled_ancestors:
  assumes "ancestors m i cs" and "0 < now"
  shows "ControlCancelled now m i = Some (\<exists>c \<in> set cs. stops_at now c)"
proof -
  have "EffectiveDeadlineNanoseconds m i = Some (earliest cs)"
    using effective_loop_ancestors [OF assms(1), of 0] by (simp add: EffectiveDeadlineNanoseconds_def earliest_def)
  then show ?thesis using requested_loop_ancestors [OF assms(1)] earliest_before [OF assms(2), of cs]
    by (auto simp: ControlCancelled_def stops_at_def)
qed

section \<open>Runs\<close>

inductive control_step :: "controls \<Rightarrow> controls \<Rightarrow> bool" where
  control_spawn: "m i = None \<Longrightarrow> (\<And>j. m j \<noteq> None \<Longrightarrow> j < i) \<Longrightarrow> (current = None \<or> (\<exists>p. current = Some p \<and> m p \<noteq> None)) \<Longrightarrow>
    control_step m (spawn_control m i current)"
| control_cancel: "control_step m (absolute_task_cancel m i)"
| control_deadline: "0 < now \<Longrightarrow> SetControlDeadlineAfter now m (Some i) milliseconds = (b, m') \<Longrightarrow> control_step m m'"

definition tighter :: "control \<Rightarrow> control \<Rightarrow> bool" where
  "tighter c c' \<longleftrightarrow> ct_parent c' = ct_parent c \<and> (ct_cancelRequested c \<longrightarrow> ct_cancelRequested c') \<and>
     0 \<le> ct_deadlineNanoseconds c' \<and>
     (0 < ct_deadlineNanoseconds c \<longrightarrow> 0 < ct_deadlineNanoseconds c' \<and> ct_deadlineNanoseconds c' \<le> ct_deadlineNanoseconds c)"

definition controls_ok :: "controls \<Rightarrow> bool" where
  "controls_ok m \<longleftrightarrow> parents_older m \<and> (\<forall>i c. m i = Some c \<longrightarrow> 0 \<le> ct_deadlineNanoseconds c)"

definition tightened :: "controls \<Rightarrow> controls \<Rightarrow> bool" where
  "tightened m m' \<longleftrightarrow> (\<forall>i c. m i = Some c \<longrightarrow> (\<exists>c'. m' i = Some c' \<and> tighter c c'))"

lemma tightened_update:
  assumes "controls_ok m" and "m i = Some c" and "tighter c c'"
  shows "controls_ok (m(i \<mapsto> c')) \<and> tightened m (m(i \<mapsto> c'))"
  using assms by (auto simp: controls_ok_def tightened_def parents_older_def tighter_def)

lemma tightened_refl: "controls_ok m \<Longrightarrow> tightened m m"
  by (auto simp: tightened_def tighter_def controls_ok_def)

lemma deadline_after_pos: "0 < now \<Longrightarrow> 0 \<le> ms \<Longrightarrow> 0 < deadline_after now ms"
  by (simp add: deadline_after_def Let_def)

lemma control_step_ok: "control_step m m' \<Longrightarrow> controls_ok m \<Longrightarrow> controls_ok m' \<and> tightened m m'"
proof (induction rule: control_step.induct)
  case (control_spawn m i current)
  then show ?case by (auto simp: controls_ok_def tightened_def tighter_def parents_older_def spawn_control_def)
next
  case (control_cancel m i)
  show ?case
  proof (cases "m i")
    case None
    then have "absolute_task_cancel m i = m" by (auto simp: absolute_task_cancel_def)
    then show ?thesis using control_cancel tightened_refl by simp
  next
    case (Some c)
    have "tighter c (c\<lparr>ct_cancelRequested := True\<rparr>)"
      using control_cancel Some by (auto simp: tighter_def controls_ok_def)
    from tightened_update [of m i c "c\<lparr>ct_cancelRequested := True\<rparr>", OF control_cancel Some this]
    show ?thesis unfolding absolute_task_cancel_def Some option.map .
  qed
next
  case (control_deadline now m i milliseconds b m')
  note ok = control_deadline(3)
  consider "m' = m" | c where "m i = Some c" "0 \<le> milliseconds" "m' = m(i \<mapsto> c\<lparr>ct_deadlineNanoseconds := deadline_after now milliseconds\<rparr>)"
      "ct_deadlineNanoseconds c = 0 \<or> deadline_after now milliseconds < ct_deadlineNanoseconds c"
    using control_deadline(2) by (auto simp: SetControlDeadlineAfter_def Let_def split: option.splits if_splits)
  then show ?case
  proof cases
    case 1
    then show ?thesis using ok tightened_refl by simp
  next
    case 2
    have "tighter c (c\<lparr>ct_deadlineNanoseconds := deadline_after now milliseconds\<rparr>)"
      using 2(4) deadline_after_pos [OF control_deadline(1) 2(2)] by (auto simp: tighter_def)
    from tightened_update [OF ok 2(1) this] show ?thesis unfolding 2(3) .
  qed
qed

lemma tightened_trans: "tightened a b \<Longrightarrow> tightened b c \<Longrightarrow> tightened a c"
proof -
  have t: "tighter x y \<Longrightarrow> tighter y z \<Longrightarrow> tighter x z" for x y z by (auto simp: tighter_def)
  assume ab: "tightened a b" and bc: "tightened b c"
  show "tightened a c" unfolding tightened_def
  proof (intro allI impI)
    fix i x assume "a i = Some x"
    then obtain y where y: "b i = Some y" "tighter x y" using ab unfolding tightened_def by blast
    then obtain z where "c i = Some z" "tighter y z" using bc unfolding tightened_def by blast
    with y t show "\<exists>z. c i = Some z \<and> tighter x z" by blast
  qed
qed

lemma control_steps_ok:
  assumes "control_step\<^sup>*\<^sup>* m m'" and "controls_ok m"
  shows "controls_ok m' \<and> tightened m m'"
  using assms(1)
proof (induction rule: rtranclp_induct)
  case base
  show ?case using assms(2) tightened_refl by simp
next
  case (step y z)
  then show ?case using control_step_ok [of y z] tightened_trans by blast
qed

lemma no_controls_ok: "controls_ok Map.empty"
  by (simp add: controls_ok_def parents_older_def)

lemma tightened_ancestors:
  "ancestors m i cs \<Longrightarrow> tightened m m' \<Longrightarrow> \<exists>cs'. ancestors m' i cs' \<and> list_all2 tighter cs cs'"
proof (induction rule: ancestors.induct)
  case ancestors_none
  then show ?case using ancestors.ancestors_none by blast
next
  case (ancestors_some i c cs)
  then obtain c' cs' where c': "m' i = Some c'" "tighter c c'" "ancestors m' (ct_parent c) cs'" "list_all2 tighter cs cs'"
    unfolding tightened_def by blast
  then have "ancestors m' (Some i) (c' # cs')"
    using ancestors.ancestors_some [of m' i c' cs'] by (simp add: tighter_def)
  then show ?case using c' by blast
qed

lemma list_all2_member: "list_all2 P xs ys \<Longrightarrow> x \<in> set xs \<Longrightarrow> \<exists>y \<in> set ys. P x y"
  by (induction rule: list_all2_induct) auto

lemma stops_later: "tighter c c' \<Longrightarrow> stops_at now c \<Longrightarrow> now \<le> now' \<Longrightarrow> stops_at now' c'"
  by (auto simp: tighter_def stops_at_def)

text \<open>
  C22. In every run, asking whether a task is cancelled returns, and says yes exactly if the task or
  a task above it, through those that started it, has been cancelled or has a deadline that is over.
  Cancellation is permanent: once the answer is yes, it stays so whatever happens and however much
  time goes by.
\<close>
theorem cancellation_is_inherited_and_permanent:
  assumes "control_step\<^sup>*\<^sup>* Map.empty m" and "m i \<noteq> None" and "0 < now"
    and "control_step\<^sup>*\<^sup>* m m'" and "now \<le> now'"
  shows "\<exists>cs. ancestors m (Some i) cs \<and> ControlCancelled now m (Some i) = Some (\<exists>c \<in> set cs. stops_at now c) \<and>
    (ControlCancelled now m (Some i) = Some True \<longrightarrow> ControlCancelled now' m' (Some i) = Some True)"
proof -
  have ok: "controls_ok m" using control_steps_ok [OF assms(1) no_controls_ok] by blast
  then obtain cs where cs: "ancestors m (Some i) cs"
    using ancestors_exist [of m i] assms(2) by (auto simp: controls_ok_def)
  note now = ControlCancelled_ancestors [OF cs assms(3)]
  obtain cs' where cs': "ancestors m' (Some i) cs'" "list_all2 tighter cs cs'"
    using tightened_ancestors [OF cs] control_steps_ok [OF assms(4) ok] by blast
  have "ControlCancelled now' m' (Some i) = Some True" if c: "c \<in> set cs" "stops_at now c" for c
  proof -
    obtain c' where "c' \<in> set cs'" "tighter c c'"
      using list_all2_member [OF cs'(2) c(1)] by blast
    then have "\<exists>c \<in> set cs'. stops_at now' c" using stops_later c(2) assms(5) by blast
    moreover have "0 < now'" using assms(3,5) by simp
    ultimately show ?thesis unfolding ControlCancelled_ancestors [OF cs'(1) \<open>0 < now'\<close>] by simp
  qed
  then have "ControlCancelled now' m' (Some i) = Some True" if "ControlCancelled now m (Some i) = Some True"
    using that unfolding now by blast
  then show ?thesis using cs now by (intro exI [where x = cs] conjI impI)
qed

theorem cancellation_is_inherited_and_permanent_witness:
  "\<exists>m m'. control_step\<^sup>*\<^sup>* Map.empty m \<and> control_step\<^sup>*\<^sup>* m m' \<and> ControlCancelled 6 m (Some 1) = Some True \<and>
    ControlCancelled 9 m' (Some 1) = Some True"
proof -
  let ?m1 = "spawn_control Map.empty 0 None" and ?m2 = "spawn_control (spawn_control Map.empty 0 None) 1 (Some 0)"
  let ?m3 = "absolute_task_cancel ?m2 0"
  have a: "control_step Map.empty ?m1" by (rule control_spawn) simp_all
  have b: "control_step ?m1 ?m2" by (rule control_spawn) (auto simp: spawn_control_def split: if_splits)
  have run: "control_step\<^sup>*\<^sup>* Map.empty ?m3" using a b control_cancel [of ?m2 0]
    by (meson rtranclp.rtrancl_into_rtrancl rtranclp.rtrancl_refl)
  have cs: "ancestors ?m3 (Some 1) [\<lparr>ct_parent = Some 0, ct_cancelRequested = False, ct_deadlineNanoseconds = 0\<rparr>,
      \<lparr>ct_parent = None, ct_cancelRequested = True, ct_deadlineNanoseconds = 0\<rparr>]"
    by (rule ancestors_some, simp add: absolute_task_cancel_def spawn_control_def, simp)
      (rule ancestors_some, simp add: absolute_task_cancel_def spawn_control_def, simp add: ancestors_none)
  have yes: "ControlCancelled 6 ?m3 (Some 1) = Some True"
    using ControlCancelled_ancestors [OF cs, of 6] by (simp add: stops_at_def)
  have "?m3 1 \<noteq> None" by (simp add: absolute_task_cancel_def spawn_control_def)
  from cancellation_is_inherited_and_permanent [OF run this, of 6 ?m3 9] yes
  have "ControlCancelled 9 ?m3 (Some 1) = Some True" by auto
  with run yes show ?thesis by blast
qed

section \<open>Task groups\<close>

text \<open>The history of a group: what was handed to it, and what it has joined so far.\<close>

inductive group_step :: "task_group \<times> nat list \<times> nat list \<Rightarrow> task_group \<times> nat list \<times> nat list \<Rightarrow> bool" where
  group_add: "absolute_task_group_add (Some g) child = (b, joined, Some g') \<Longrightarrow>
    group_step (g, handed, js) (g', handed @ [child], js @ joined)"
| group_join: "absolute_task_group_join g = (joined, g') \<Longrightarrow> group_step (g, handed, js) (g', handed, js @ joined)"

lemma group_step_ok:
  "group_step x y \<Longrightarrow> (case x of (g, handed, js) \<Rightarrow> mset handed = mset js + mset (tg_children g)) \<Longrightarrow>
    (case y of (g, handed, js) \<Rightarrow> mset handed = mset js + mset (tg_children g))"
  by (induction rule: group_step.induct)
    (auto simp: absolute_task_group_add_def absolute_task_group_join_def split: if_splits)

lemma group_joins_every_task_once:
  assumes "group_step\<^sup>*\<^sup>* (absolute_task_group_create, [], []) (g, handed, joined)"
  shows "mset handed = mset joined + mset (tg_children g)"
proof -
  have "case (g, handed, joined) of (g, handed, js) \<Rightarrow> mset handed = mset js + mset (tg_children g)"
    using assms
  proof (induction rule: rtranclp_induct)
    case base
    show ?case by (simp add: absolute_task_group_create_def)
  next
    case (step y z)
    then show ?case using group_step_ok by blast
  qed
  then show ?thesis by simp
qed

end
