(* ===== verification/Json.thy ===== *)
theory Json
  imports Prelude
begin

text \<open>
  JSON documents in the runtime (\<^verbatim>\<open>Absolute-Runtime/src/json.cpp\<close>): the tree, the parser, the printer
  and the operations on nodes. The parser works on the text that is left, in the place of the text and a
  position. Doubles are an argument: \<open>strtod\<close> reads a whole text as a double, or finds no number in it
  (\<open>None\<close>); \<open>as_int64\<close> is the 64-bit integer that a double is equal to, if it is one; \<open>stream\<close> is what a
  stream prints of a double. Texts are passed as null-terminated strings, in both directions. A null
  handle is \<open>None\<close>. The nodes in memory, and the operations that change or delete them, are in
  \<open>Json_Store\<close>.
\<close>

section \<open>Nodes\<close>

text \<open>The properties of an object are kept in the order of their keys.\<close>

datatype 'd json = JsonNull | JsonBool bool | JsonNumber 'd | JsonString string | JsonArray "'d json list"
  | JsonObject "(string \<times> 'd json) list"

fun set_property :: "string \<Rightarrow> 'v \<Rightarrow> (string \<times> 'v) list \<Rightarrow> (string \<times> 'v) list" where
  "set_property key item [] = [(key, item)]"
| "set_property key item ((k, v) # ps) =
     (if key = k then (key, item) # ps
      else if key < k then (key, item) # (k, v) # ps
      else (k, v) # set_property key item ps)"

section \<open>The parser\<close>

text \<open>An error message of the code, or too few levels of recursion in the model.\<close>

datatype json_error = Json_error string | Out_of_levels

type_synonym 'a parsed = "json_error + 'a \<times> string"

definition quoted :: "string \<Rightarrow> string" where
  "quoted s = [CHR 0x27] @ s @ [CHR 0x27]"

definition json_space :: "char \<Rightarrow> bool" where
  "json_space c \<longleftrightarrow> c = CHR '' '' \<or> c = CHR 0x09 \<or> c = CHR 0x0D \<or> c = CHR 0x0A"

definition skipWhitespace :: "string \<Rightarrow> string" where
  "skipWhitespace s = dropWhile json_space s"

definition parseNull :: "string \<Rightarrow> 'd json parsed" where
  "parseNull s = (if starts_with s ''null'' then Inr (JsonNull, drop 4 s) else Inl (Json_error (''Expected '' @ quoted ''null'')))"

definition parseBool :: "string \<Rightarrow> 'd json parsed" where
  "parseBool s =
     (if starts_with s ''true'' then Inr (JsonBool True, drop 4 s)
      else if starts_with s ''false'' then Inr (JsonBool False, drop 5 s)
      else Inl (Json_error (''Expected boolean '' @ quoted ''true'' @ '' or '' @ quoted ''false'')))"

text \<open>The end of the text of a number: after the sign, digits, a fraction and an exponent.\<close>

definition skip_digits :: "string \<Rightarrow> string" where
  "skip_digits s = dropWhile isdigit s"

definition number_end :: "string \<Rightarrow> string" where
  "number_end s =
     (let s1 = (case s of c # r \<Rightarrow> if c = CHR ''-'' then r else s | [] \<Rightarrow> s);
          s2 = skip_digits s1;
          s3 = (case s2 of c # r \<Rightarrow> if c = CHR ''.'' then skip_digits r else s2 | [] \<Rightarrow> s2)
      in case s3 of
           [] \<Rightarrow> s3
         | c # r \<Rightarrow>
             if c = CHR ''e'' \<or> c = CHR ''E''
             then skip_digits (case r of d # r' \<Rightarrow> if d = CHR ''+'' \<or> d = CHR ''-'' then r' else r | [] \<Rightarrow> r)
             else s3)"

definition parseNumber :: "(string \<Rightarrow> 'd option) \<Rightarrow> string \<Rightarrow> 'd json parsed" where
  "parseNumber strtod s =
     (let rest = number_end s; numStr = take (length s - length rest) s in
      case strtod numStr of
        None \<Rightarrow> Inl (Json_error ''Invalid number'')
      | Some val \<Rightarrow> Inr (JsonNumber val, rest))"

definition hex_digit :: "char \<Rightarrow> nat option" where
  "hex_digit c =
     (let b = byte_of c in
      if 48 \<le> b \<and> b \<le> 57 then Some (b - 48)
      else if 97 \<le> b \<and> b \<le> 102 then Some (b - 87)
      else if 65 \<le> b \<and> b \<le> 70 then Some (b - 55)
      else None)"

definition hex_value :: "string \<Rightarrow> nat" where
  "hex_value s = foldl (\<lambda>acc c. acc * 16 + the (hex_digit c)) 0 s"

text \<open>A code unit as one to three bytes; the halves of a surrogate pair are written one by one.\<close>

definition unit_bytes :: "nat \<Rightarrow> string" where
  "unit_bytes code =
     (if code \<le> 0x7F then [char_of code]
      else if code \<le> 0x7FF then [char_of (0xC0 + (code div 64) mod 32), char_of (0x80 + code mod 64)]
      else [char_of (0xE0 + (code div 4096) mod 16), char_of (0x80 + (code div 64) mod 64), char_of (0x80 + code mod 64)])"

definition json_escape :: "char \<Rightarrow> char" where
  "json_escape c =
     (if c = CHR ''b'' then CHR 0x08 else if c = CHR ''f'' then CHR 0x0C else if c = CHR ''n'' then CHR 0x0A
      else if c = CHR ''r'' then CHR 0x0D else if c = CHR ''t'' then CHR 0x09 else c)"

text \<open>The loop of \<open>parseString\<close>, after the opening quote.\<close>

function (sequential) string_loop :: "string \<Rightarrow> string \<Rightarrow> string parsed" where
  "string_loop res [] = Inl (Json_error ''Unterminated string literal'')"
| "string_loop res (c # s) =
     (if c = CHR 0x22 then Inr (res, s)
      else if c = CHR 0x5C then
        (case s of
           [] \<Rightarrow> Inl (Json_error ''Unterminated escape sequence in string'')
         | e # r \<Rightarrow>
             if e = CHR ''u'' then
               (if length r < 4 then Inl (Json_error (''Incomplete '' @ [CHR 0x5C] @ ''uXXXX escape''))
                else if \<not> list_all (\<lambda>h. hex_digit h \<noteq> None) (take 4 r)
                then Inl (Json_error (''Invalid '' @ [CHR 0x5C] @ ''uXXXX escape''))
                else string_loop (res @ unit_bytes (hex_value (take 4 r))) (drop 4 r))
             else string_loop (res @ [json_escape e]) r)
      else string_loop (res @ [c]) s)"
  by pat_completeness auto
termination by (relation "measure (\<lambda>(res, s). length s)") auto

definition parseString :: "string \<Rightarrow> string parsed" where
  "parseString s = string_loop [] (tl s)"

text \<open>
  The loops of \<open>parseArray\<close> and \<open>parseObject\<close>, over the parser of values, with the number of elements
  that may follow.
\<close>

fun array_loop :: "(string \<Rightarrow> 'd json parsed) \<Rightarrow> nat \<Rightarrow> 'd json list \<Rightarrow> string \<Rightarrow> 'd json parsed" where
  "array_loop value 0 elements s = Inl Out_of_levels"
| "array_loop value (Suc n) elements s =
     (if s = [] then Inl (Json_error ''Unterminated array'')
      else case value s of
        Inl e \<Rightarrow> Inl e
      | Inr (element, s1) \<Rightarrow>
          (case skipWhitespace s1 of
             [] \<Rightarrow> Inl (Json_error (''Expected '' @ quoted '','' @ '' or '' @ quoted '']'' @ '' in array''))
           | c # r \<Rightarrow>
               if c = CHR '']'' then Inr (JsonArray (elements @ [element]), r)
               else if c = CHR '','' then array_loop value n (elements @ [element]) r
               else Inl (Json_error (''Expected '' @ quoted '','' @ '' or '' @ quoted '']'' @ '' in array''))))"

definition parseArray :: "(string \<Rightarrow> 'd json parsed) \<Rightarrow> nat \<Rightarrow> string \<Rightarrow> 'd json parsed" where
  "parseArray value n s =
     (let s1 = skipWhitespace (tl s) in
      if s1 \<noteq> [] \<and> hd s1 = CHR '']'' then Inr (JsonArray [], tl s1) else array_loop value n [] s1)"

fun object_loop :: "(string \<Rightarrow> 'd json parsed) \<Rightarrow> nat \<Rightarrow> (string \<times> 'd json) list \<Rightarrow> string \<Rightarrow> 'd json parsed" where
  "object_loop value 0 props s = Inl Out_of_levels"
| "object_loop value (Suc n) props s =
     (if s = [] then Inl (Json_error ''Unterminated object'')
      else
        (let s1 = skipWhitespace s in
         if s1 = [] \<or> hd s1 \<noteq> CHR 0x22 then Inl (Json_error ''Expected property key string'')
         else case parseString s1 of
           Inl e \<Rightarrow> Inl e
         | Inr (key, s2) \<Rightarrow>
             (case skipWhitespace s2 of
                [] \<Rightarrow> Inl (Json_error (''Expected '' @ quoted '':'' @ '' after property key''))
              | c # s3 \<Rightarrow>
                  if c \<noteq> CHR '':'' then Inl (Json_error (''Expected '' @ quoted '':'' @ '' after property key''))
                  else case value s3 of
                    Inl e \<Rightarrow> Inl e
                  | Inr (item, s4) \<Rightarrow>
                      (let props' = set_property key item props in
                       case skipWhitespace s4 of
                         [] \<Rightarrow> Inl (Json_error (''Expected '' @ quoted '','' @ '' or '' @ quoted ''}'' @ '' in object''))
                       | d # s5 \<Rightarrow>
                           if d = CHR ''}'' then Inr (JsonObject props', s5)
                           else if d = CHR '','' then object_loop value n props' s5
                           else Inl (Json_error (''Expected '' @ quoted '','' @ '' or '' @ quoted ''}'' @ '' in object''))))))"

definition parseObject :: "(string \<Rightarrow> 'd json parsed) \<Rightarrow> nat \<Rightarrow> string \<Rightarrow> 'd json parsed" where
  "parseObject value n s =
     (let s1 = skipWhitespace (tl s) in
      if s1 \<noteq> [] \<and> hd s1 = CHR ''}'' then Inr (JsonObject [], tl s1) else object_loop value n [] s1)"

text \<open>The first argument is the number of levels of recursion allowed.\<close>

fun parseValue :: "nat \<Rightarrow> (string \<Rightarrow> 'd option) \<Rightarrow> string \<Rightarrow> 'd json parsed" where
  "parseValue 0 strtod s = Inl Out_of_levels"
| "parseValue (Suc n) strtod s =
     (case skipWhitespace s of
        [] \<Rightarrow> Inl (Json_error ''Unexpected end of JSON input'')
      | c # r \<Rightarrow>
          if c = CHR ''n'' then parseNull (c # r)
          else if c = CHR ''t'' \<or> c = CHR ''f'' then parseBool (c # r)
          else if c = CHR 0x22 then map_sum id (\<lambda>(t, rest). (JsonString t, rest)) (parseString (c # r))
          else if c = CHR ''['' then parseArray (parseValue n strtod) n (c # r)
          else if c = CHR ''{'' then parseObject (parseValue n strtod) n (c # r)
          else if c = CHR ''-'' \<or> isdigit c then parseNumber strtod (c # r)
          else Inl (Json_error (''Unexpected character '' @ quoted [c] @ '' in JSON'')))"

text \<open>
  A value consumes a character, so a text has no more levels than characters. What follows the value is
  ignored, and so is what follows a null byte.
\<close>

definition absolute_json_parse :: "(string \<Rightarrow> 'd option) \<Rightarrow> string option \<Rightarrow> json_error + 'd json" where
  "absolute_json_parse strtod jsonText =
     (case jsonText of
        None \<Rightarrow> Inl (Json_error ''Empty JSON text'')
      | Some given \<Rightarrow>
          let text = c_str given in
          if text = [] then Inl (Json_error ''Empty JSON text'')
          else map_sum id fst (parseValue (length text + 1) strtod text))"

section \<open>The printer\<close>

definition escape_out :: "char \<Rightarrow> string" where
  "escape_out c =
     (if c = CHR 0x22 then [CHR 0x5C, CHR 0x22] else if c = CHR 0x5C then [CHR 0x5C, CHR 0x5C]
      else if c = CHR 0x0A then [CHR 0x5C, CHR ''n''] else if c = CHR 0x0D then [CHR 0x5C, CHR ''r'']
      else if c = CHR 0x09 then [CHR 0x5C, CHR ''t''] else [c])"

fun joined :: "string \<Rightarrow> string list \<Rightarrow> string" where
  "joined sep [] = []"
| "joined sep [x] = x"
| "joined sep (x # xs) = x @ sep @ joined sep xs"

definition property_text :: "bool \<Rightarrow> string \<Rightarrow> string \<Rightarrow> string" where
  "property_text pretty key item =
     [CHR 0x22] @ key @ [CHR 0x22, CHR '':''] @ (if pretty then '' '' else []) @ item"

text \<open>The text of a double: it is cast to a 64-bit integer and compared with it.\<close>

definition number_text :: "('d \<Rightarrow> int option) \<Rightarrow> ('d \<Rightarrow> string) \<Rightarrow> 'd \<Rightarrow> string" where
  "number_text as_int64 stream d = (case as_int64 d of Some n \<Rightarrow> int_to_string n | None \<Rightarrow> stream d)"

fun stringifyHelper :: "('d \<Rightarrow> int option) \<Rightarrow> ('d \<Rightarrow> string) \<Rightarrow> bool \<Rightarrow> 'd json \<Rightarrow> string" where
  "stringifyHelper as_int64 stream pretty JsonNull = ''null''"
| "stringifyHelper as_int64 stream pretty (JsonBool b) = (if b then ''true'' else ''false'')"
| "stringifyHelper as_int64 stream pretty (JsonNumber d) = number_text as_int64 stream d"
| "stringifyHelper as_int64 stream pretty (JsonString t) = [CHR 0x22] @ concat (map escape_out t) @ [CHR 0x22]"
| "stringifyHelper as_int64 stream pretty (JsonArray xs) =
     ''['' @ joined (if pretty then '', '' else '','') (map (stringifyHelper as_int64 stream pretty) xs) @ '']''"
| "stringifyHelper as_int64 stream pretty (JsonObject ps) =
     ''{'' @ joined (if pretty then '', '' else '','')
       (map (\<lambda>(key, item). property_text pretty key (stringifyHelper as_int64 stream pretty item)) ps) @ ''}''"

text \<open>The result is returned as a null-terminated string.\<close>

definition absolute_json_stringify ::
    "('d \<Rightarrow> int option) \<Rightarrow> ('d \<Rightarrow> string) \<Rightarrow> 'd json option \<Rightarrow> int \<Rightarrow> string" where
  "absolute_json_stringify as_int64 stream handle pretty =
     (case handle of None \<Rightarrow> ''null'' | Some node \<Rightarrow> c_str (stringifyHelper as_int64 stream (pretty \<noteq> 0) node))"

end
