(* ===== verification/Json_Rules.thy ===== *)
theory Json_Rules
  imports Json
begin

text \<open>
  Parsing ends with a node or an error of the code, and reads back what was printed, if the numbers
  are printed exactly and no key needs an escape, which the printer does not write.
\<close>

section \<open>Parsing ends\<close>

lemma skipWhitespace_length: "length (skipWhitespace s) \<le> length s"
  by (simp add: skipWhitespace_def length_dropWhile_le)

lemma skip_digits_length: "length (skip_digits s) \<le> length s"
  by (simp add: skip_digits_def length_dropWhile_le)

lemma digits_le: "length s \<le> n \<Longrightarrow> length (skip_digits s) \<le> n"
  by (rule order_trans [OF skip_digits_length])

lemma number_end_length:
  assumes "s = c # r" and "c = CHR ''-'' \<or> isdigit c"
  shows "length (number_end s) < length s"
proof -
  define s1 where "s1 = (case s of c # r \<Rightarrow> if c = CHR ''-'' then r else s | [] \<Rightarrow> s)"
  define s2 where "s2 = skip_digits s1"
  define s3 where "s3 = (case s2 of c # r \<Rightarrow> if c = CHR ''.'' then skip_digits r else s2 | [] \<Rightarrow> s2)"
  have "skip_digits s1 = skip_digits r" using assms by (auto simp: s1_def skip_digits_def)
  then have "length s2 \<le> length r" by (simp add: s2_def skip_digits_length)
  moreover have "length s3 \<le> length s2"
    by (auto simp: s3_def split: list.split intro!: digits_le)
  moreover have "length (number_end s) \<le> length s3"
    unfolding number_end_def Let_def s1_def [symmetric] s2_def [symmetric] s3_def [symmetric]
    by (auto split: list.split intro!: digits_le)
  ultimately show ?thesis using assms(1) by simp
qed

text \<open>The result of a parser: not an exhausted level, and a shorter rest.\<close>

definition consumes_some :: "nat \<Rightarrow> 'a parsed \<Rightarrow> bool" where
  "consumes_some n p = (case p of Inl e \<Rightarrow> e \<noteq> Out_of_levels | Inr (a, r) \<Rightarrow> length r < n)"

lemma consumes_some_mono: "consumes_some m p \<Longrightarrow> m \<le> n \<Longrightarrow> consumes_some n p"
  by (auto simp: consumes_some_def split: sum.splits)

lemma consumes_some_simps [simp]:
  "consumes_some n (Inl (Json_error e))" "consumes_some n (Inr (a, r)) \<longleftrightarrow> length r < n"
  by (simp_all add: consumes_some_def)

lemma consumes_some_if:
  "(P \<Longrightarrow> consumes_some n a) \<Longrightarrow> (\<not> P \<Longrightarrow> consumes_some n b) \<Longrightarrow> consumes_some n (if P then a else b)"
  by simp

lemma string_loop_consumes: "s \<noteq> [] \<Longrightarrow> consumes_some (length s) (string_loop res s)"
proof (induction res s rule: string_loop.induct)
  case (2 res c s)
  have m: "consumes_some (length r) p \<Longrightarrow> length r \<le> length s \<Longrightarrow> consumes_some (length (c # s)) p" for r and p :: "string parsed"
    by (erule consumes_some_mono) simp
  have e: "consumes_some n (string_loop x [])" for n x by simp
  show ?case
  proof (cases "c = CHR 0x22 \<or> c \<noteq> CHR 0x5C")
    case True
    then show ?thesis using "2.IH"(3) m [of s] e by (cases "s = []") auto
  next
    case False
    show ?thesis
    proof (cases s)
      case Nil
      with False show ?thesis by simp
    next
      case (Cons d r)
      show ?thesis
      proof (cases "d = CHR ''u''")
        case u: True
        show ?thesis
        proof (cases "length r < 4 \<or> \<not> list_all (\<lambda>h. hex_digit h \<noteq> None) (take 4 r)")
          case True
          then show ?thesis using False Cons u by auto
        next
          case ok: False
          let ?p = "string_loop (res @ unit_bytes (hex_value (take 4 r))) (drop 4 r)"
          have "consumes_some (length (c # s)) ?p"
            using "2.IH"(1) [of d r] m [of "drop 4 r" ?p] False Cons u ok e by (cases "drop 4 r = []") auto
          then show ?thesis using False Cons u ok by simp
        qed
      next
        case nu: False
        let ?p = "string_loop (res @ [json_escape d]) r"
        have "consumes_some (length (c # s)) ?p"
          using "2.IH"(2) [of d r] m [of r ?p] False Cons nu e by (cases "r = []") auto
        then show ?thesis using False Cons nu by simp
      qed
    qed
  qed
qed simp

lemma parseString_consumes: "tl s \<noteq> [] \<Longrightarrow> consumes_some (length s) (parseString s)"
  unfolding parseString_def by (rule consumes_some_mono [OF string_loop_consumes]) simp_all

lemma parseString_short: "tl s = [] \<Longrightarrow> consumes_some n (parseString s)"
  by (simp add: parseString_def)

lemma parseString_some: "consumes_some (length s) (parseString s)"
  using parseString_consumes [of s] parseString_short [of s "length s"] by blast

text \<open>A parser of values that consumes some of any text of less than a given length.\<close>

definition value_ok :: "nat \<Rightarrow> (string \<Rightarrow> 'd json parsed) \<Rightarrow> bool" where
  "value_ok n f \<longleftrightarrow> (\<forall>s. length s < n \<longrightarrow> consumes_some (length s) (f s))"

lemma skip_Cons_length: "skipWhitespace s = c # r \<Longrightarrow> length r < length s"
  using skipWhitespace_length [of s] by simp

lemma array_loop_consumes:
  assumes ok: "value_ok n f"
  shows "length s < m \<Longrightarrow> length s < n \<Longrightarrow> consumes_some (Suc (length s)) (array_loop f m xs s)"
proof (induction m arbitrary: xs s)
  case (Suc m)
  have v: "consumes_some (length s) (f s)" using ok Suc.prems(2) by (simp add: value_ok_def)
  show ?case
  proof (cases "f s")
    case (Inl e)
    then show ?thesis using v by (simp add: consumes_some_def)
  next
    case (Inr p)
    obtain x s1 where p: "f s = Inr (x, s1)" using Inr by (cases p) simp
    then have s1: "length s1 < length s" using v by simp
    show ?thesis
    proof (cases "skipWhitespace s1")
      case Nil
      then show ?thesis using p by simp
    next
      case (Cons c r)
      have r: "length r < length s1" by (rule skip_Cons_length [OF Cons])
      have "consumes_some (Suc (length s)) (array_loop f m (xs @ [x]) r)"
        by (rule consumes_some_mono [OF Suc.IH]) (use r s1 Suc.prems in simp_all)
      then show ?thesis using p Cons r s1 by simp
    qed
  qed
qed simp

lemma object_loop_consumes:
  assumes ok: "value_ok n f"
  shows "length s < m \<Longrightarrow> length s < n \<Longrightarrow> consumes_some (Suc (length s)) (object_loop f m ps s)"
proof (induction m arbitrary: ps s)
  case (Suc m)
  define s1 where "s1 = skipWhitespace s"
  have s1: "length s1 \<le> length s" by (simp add: s1_def skipWhitespace_length)
  show ?case
  proof (cases "s = [] \<or> s1 = [] \<or> hd s1 \<noteq> CHR 0x22")
    case True
    then show ?thesis by (auto simp: s1_def Let_def)
  next
    case key: False
    show ?thesis
    proof (cases "parseString s1")
      case (Inl e)
      then have "e \<noteq> Out_of_levels" using parseString_some [of s1] by (simp add: consumes_some_def)
      with Inl key show ?thesis by (simp add: s1_def Let_def consumes_some_def)
    next
      case (Inr p)
      obtain k s2 where p: "parseString s1 = Inr (k, s2)" using Inr by (cases p) simp
      then have s2: "length s2 < length s1" using parseString_some [of s1] by simp
      show ?thesis
      proof (cases "skipWhitespace s2")
        case Nil
        then show ?thesis using key p by (simp add: s1_def Let_def)
      next
        case (Cons c s3)
        have s3: "length s3 < length s2" by (rule skip_Cons_length [OF Cons])
        have v: "consumes_some (length s3) (f s3)" using ok Suc.prems(2) s1 s2 s3 by (simp add: value_ok_def)
        show ?thesis
        proof (cases "c = CHR '':''")
          case False
          then show ?thesis using key p Cons by (simp add: s1_def Let_def)
        next
          case colon: True
          show ?thesis
          proof (cases "f s3")
            case (Inl e)
            then show ?thesis using v key p Cons colon by (simp add: s1_def Let_def consumes_some_def)
          next
            case (Inr q)
            obtain x s4 where q: "f s3 = Inr (x, s4)" using Inr by (cases q) simp
            then have s4: "length s4 < length s3" using v by simp
            show ?thesis
            proof (cases "skipWhitespace s4")
              case Nil
              then show ?thesis using key p Cons colon q by (simp add: s1_def Let_def)
            next
              case Cons4: (Cons d s5)
              have s5: "length s5 < length s4" by (rule skip_Cons_length [OF Cons4])
              have "consumes_some (Suc (length s)) (object_loop f m (set_property k x ps) s5)"
                by (rule consumes_some_mono [OF Suc.IH]) (use s1 s2 s3 s4 s5 Suc.prems in simp_all)
              then show ?thesis using key p Cons colon q Cons4 s1 s2 s3 s4 s5 by (simp add: s1_def Let_def)
            qed
          qed
        qed
      qed
    qed
  qed
qed simp

lemma starts_with_length: "starts_with s t \<Longrightarrow> length t \<le> length s"
  by (auto simp: starts_with_iff)

lemma parseValue_consumes: "value_ok n (parseValue n strtod)"
proof (induction n)
  case (Suc n)
  show ?case unfolding value_ok_def
  proof (intro allI impI)
    fix s :: string assume s: "length s < Suc n"
    show "consumes_some (length s) (parseValue (Suc n) strtod s)"
    proof (cases "skipWhitespace s")
      case Nil
      then show ?thesis by simp
    next
      case (Cons c r)
      have cr: "length (c # r) \<le> length s" using skipWhitespace_length [of s] unfolding Cons .
      have "length (skipWhitespace r) \<le> length r" by (rule skipWhitespace_length)
      then have rest: "length (skipWhitespace r) < n" "length (skipWhitespace r) < length s" "length (tl (skipWhitespace r)) < length s"
        using cr s by auto
      have "consumes_some (length s) (parseNull (c # r) :: 'a json parsed)"
        using starts_with_length [of "c # r" "''null''"] cr by (auto simp: parseNull_def)
      moreover have "consumes_some (length s) (parseBool (c # r) :: 'a json parsed)"
        using starts_with_length [of "c # r" "''true''"] starts_with_length [of "c # r" "''false''"] cr
        by (auto simp: parseBool_def)
      moreover have "consumes_some (length s) (map_sum id (\<lambda>(t, rest). (JsonString t :: 'a json, rest)) (parseString (c # r)))"
        using parseString_some [of "c # r"] cr by (auto simp: consumes_some_def split: sum.splits)
      moreover have "consumes_some (length s) (parseArray (parseValue n strtod) n (c # r))"
        using rest consumes_some_mono [OF array_loop_consumes [OF Suc.IH, of "skipWhitespace r" n "[]"], of "length s"]
        by (simp add: parseArray_def Let_def)
      moreover have "consumes_some (length s) (parseObject (parseValue n strtod) n (c # r))"
        using rest consumes_some_mono [OF object_loop_consumes [OF Suc.IH, of "skipWhitespace r" n "[]"], of "length s"]
        by (simp add: parseObject_def Let_def)
      moreover have "consumes_some (length s) (parseNumber strtod (c # r))" if "c = CHR ''-'' \<or> isdigit c"
        using number_end_length [OF refl that, of r] cr by (auto simp: parseNumber_def Let_def split: option.splits)
      ultimately show ?thesis unfolding parseValue.simps Cons list.case
        by (intro consumes_some_if) (assumption | blast | rule consumes_some_simps)+
    qed
  qed
qed (simp add: value_ok_def)

text \<open>
  C13. Parsing a JSON text ends with a node or with an error of the code: the levels of recursion that
  the model allows are never used up, whatever the text.
\<close>
theorem json_parsing_terminates: "absolute_json_parse strtod jsonText \<noteq> Inl Out_of_levels"
proof (cases jsonText)
  case (Some t)
  have "consumes_some (length (c_str t)) (parseValue (length (c_str t) + 1) strtod (c_str t))"
    using parseValue_consumes [of "length (c_str t) + 1" strtod] unfolding value_ok_def by simp
  then show ?thesis using Some
    by (auto simp: absolute_json_parse_def Let_def consumes_some_def map_sum_def split: sum.splits simp del: parseValue.simps)
qed (simp add: absolute_json_parse_def)

section \<open>What is printed is read back\<close>

definition number_char :: "char \<Rightarrow> bool" where
  "number_char c \<longleftrightarrow> isdigit c \<or> c \<in> {CHR ''.'', CHR ''e'', CHR ''E'', CHR ''+'', CHR ''-''}"

text \<open>A text that does not continue a number before it.\<close>

definition stops :: "string \<Rightarrow> bool" where
  "stops s \<longleftrightarrow> s = [] \<or> \<not> number_char (hd s)"

lemma stops_cases: "stops s \<Longrightarrow> s = [] \<or> (\<exists>c r. s = c # r \<and> \<not> isdigit c \<and> c \<noteq> CHR ''.'' \<and> c \<noteq> CHR ''e'' \<and>
    c \<noteq> CHR ''E'' \<and> c \<noteq> CHR ''+'' \<and> c \<noteq> CHR ''-'')"
  by (cases s) (auto simp: stops_def number_char_def)

lemma skip_digits_append: "stops rest \<Longrightarrow> skip_digits (t @ rest) = skip_digits t @ rest"
  using stops_cases [of rest] by (induction t) (auto simp: skip_digits_def)

lemma number_end_append:
  assumes "stops rest"
  shows "t \<noteq> [] \<Longrightarrow> number_end (t @ rest) = number_end t @ rest"
proof -
  assume "t \<noteq> []"
  then obtain c t' where t: "t = c # t'" by (cases t) auto
  define sign where "sign s = (case s of c # r \<Rightarrow> if c = CHR ''-'' then r else s | [] \<Rightarrow> s)" for s
  define frac where "frac s = (case s of c # r \<Rightarrow> if c = CHR ''.'' then skip_digits r else s | [] \<Rightarrow> s)" for s
  define plus where "plus r = (case r of d # r' \<Rightarrow> if d = CHR ''+'' \<or> d = CHR ''-'' then r' else r | [] \<Rightarrow> r)" for r :: string
  define expo where "expo s = (case s of c # r \<Rightarrow> if c = CHR ''e'' \<or> c = CHR ''E'' then skip_digits (plus r) else s | [] \<Rightarrow> s)" for s
  have e: "number_end s = expo (frac (skip_digits (sign s)))" for s
    unfolding number_end_def Let_def expo_def frac_def sign_def plus_def by (simp split: list.split)
  have "sign (t @ rest) = sign t @ rest" by (simp add: sign_def t)
  moreover have "frac (s @ rest) = frac s @ rest" for s
    using stops_cases [OF assms] skip_digits_append [OF assms] by (cases s) (auto simp: frac_def)
  moreover have "plus (s @ rest) = plus s @ rest" for s
    using stops_cases [OF assms] by (cases s) (auto simp: plus_def)
  then have "expo (s @ rest) = expo s @ rest" for s
    using stops_cases [OF assms] skip_digits_append [OF assms] by (cases s) (auto simp: expo_def)
  ultimately show ?thesis unfolding e by (simp add: skip_digits_append [OF assms])
qed

text \<open>
  A number that is read from its text: the text of a 64-bit integer is always that of a JSON number,
  what a stream prints has to be one.
\<close>

definition number_shape :: "string \<Rightarrow> bool" where
  "number_shape t \<longleftrightarrow> (case t of [] \<Rightarrow> False | c # r \<Rightarrow> c = CHR ''-'' \<or> isdigit c) \<and> list_all number_char t \<and> number_end t = []"

definition number_ok :: "(string \<Rightarrow> 'd option) \<Rightarrow> ('d \<Rightarrow> int option) \<Rightarrow> ('d \<Rightarrow> string) \<Rightarrow> 'd \<Rightarrow> bool" where
  "number_ok strtod as_int64 stream d \<longleftrightarrow> strtod (number_text as_int64 stream d) = Some d \<and>
     (as_int64 d = None \<longrightarrow> number_shape (stream d))"

lemma digits_number: "list_all isdigit t \<Longrightarrow> t \<noteq> [] \<Longrightarrow> number_shape t \<and> number_shape (CHR ''-'' # t)"
proof -
  assume t: "list_all isdigit t" "t \<noteq> []"
  have m: "\<not> isdigit (CHR ''-'')" by (simp add: isdigit_def byte_of_def)
  have d: "skip_digits t = []" using t(1) by (simp add: skip_digits_def list_all_iff)
  obtain c r where c: "t = c # r" "isdigit c" using t by (cases t) auto
  then have "c \<noteq> CHR ''-''" using m by auto
  then have "number_end t = []" "number_end (CHR ''-'' # t) = []" using d c by (simp_all add: number_end_def Let_def)
  then show ?thesis using t c by (auto simp: number_shape_def number_char_def list_all_iff)
qed

lemma int_text_shape: "number_shape (int_to_string n)"
proof -
  have "list_all isdigit (to_string k)" for k using to_string_digits by (simp add: list_all_iff)
  then show ?thesis using digits_number by (simp add: int_to_string_def)
qed

lemma number_ok_shape: "number_ok strtod ai st d \<Longrightarrow> number_shape (number_text ai st d)"
  using int_text_shape by (auto simp: number_ok_def number_text_def split: option.splits)

definition plain_key :: "string \<Rightarrow> bool" where
  "plain_key k \<longleftrightarrow> list_all (\<lambda>c. c \<noteq> CHR 0x22 \<and> c \<noteq> CHR 0x5C \<and> c \<noteq> CHR 0x00) k"

text \<open>
  Objects keep their properties in order; keys need no escape, numbers are read from their text, and there
  is no null character, which would end the text.
\<close>

fun json_ok :: "('d \<Rightarrow> bool) \<Rightarrow> 'd json \<Rightarrow> bool" where
  "json_ok num (JsonNumber d) \<longleftrightarrow> num d"
| "json_ok num (JsonString t) \<longleftrightarrow> CHR 0x00 \<notin> set t"
| "json_ok num (JsonArray xs) \<longleftrightarrow> (\<forall>x \<in> set xs. json_ok num x)"
| "json_ok num (JsonObject ps) \<longleftrightarrow> sorted_wrt (<) (map fst ps) \<and> (\<forall>p \<in> set ps. plain_key (fst p) \<and> json_ok num (snd p))"
| "json_ok num _ \<longleftrightarrow> True"

lemma string_loop_escaped: "string_loop res (concat (map escape_out t) @ CHR 0x22 # rest) = Inr (res @ t, rest)"
proof (induction t arbitrary: res)
  case (Cons c t)
  have "string_loop res (escape_out c @ s) = string_loop (res @ [c]) s" for s
    by (simp add: escape_out_def json_escape_def)
  then show ?case using Cons.IH [of "res @ [c]"] by simp
qed simp

lemma string_loop_key: "plain_key k \<Longrightarrow> string_loop res (k @ CHR 0x22 # rest) = Inr (res @ k, rest)"
  by (induction k arbitrary: res) (simp_all add: plain_key_def)

text \<open>A value starts with a character that is no space and closes nothing.\<close>

definition opens :: "string \<Rightarrow> bool" where
  "opens s \<longleftrightarrow> (case s of [] \<Rightarrow> False | c # r \<Rightarrow> \<not> json_space c \<and> c \<noteq> CHR '']'' \<and> c \<noteq> CHR ''}'')"

lemma isdigit_opens: "isdigit c \<Longrightarrow> \<not> json_space c \<and> c \<noteq> CHR '']'' \<and> c \<noteq> CHR ''}''"
  by (auto simp: isdigit_def json_space_def byte_of_def)

lemma stringify_opens:
  "json_ok (number_ok strtod ai st) j \<Longrightarrow> opens (stringifyHelper ai st pretty j)"
proof (cases j)
  case (JsonNumber d)
  assume "json_ok (number_ok strtod ai st) j"
  with JsonNumber obtain c r where "number_text ai st d = c # r" "c = CHR ''-'' \<or> isdigit c"
    using number_ok_shape [of strtod ai st d] by (auto simp: number_shape_def split: list.splits)
  then show ?thesis using isdigit_opens [of c] by (auto simp: opens_def JsonNumber json_space_def)
qed (auto simp: opens_def json_space_def)

lemma opens_skip: "opens s \<Longrightarrow> skipWhitespace (s @ rest) = s @ rest"
  by (cases s) (simp_all add: opens_def skipWhitespace_def)

definition blank :: "string \<Rightarrow> bool" where
  "blank w \<longleftrightarrow> list_all json_space w"

lemma blank_skip: "blank w \<Longrightarrow> skipWhitespace (w @ s) = skipWhitespace s"
  by (induction w) (simp_all add: blank_def skipWhitespace_def)

lemma joined_Cons: "xs \<noteq> [] \<Longrightarrow> joined sep (x # xs) = x @ sep @ joined sep xs"
  by (cases xs) simp_all

lemma joined_member: "x \<in> set xs \<Longrightarrow> length x \<le> length (joined sep xs)"
proof (induction xs)
  case (Cons y xs)
  then show ?case by (cases "xs = []") (auto simp: joined_Cons)
qed simp

lemma joined_count: "\<forall>x \<in> set xs. x \<noteq> [] \<Longrightarrow> length xs \<le> length (joined sep xs)"
proof (induction xs)
  case (Cons y xs)
  then have "1 \<le> length y" by (cases y) auto
  with Cons show ?case by (cases "xs = []") (auto simp: joined_Cons)
qed simp

lemma joined_opens: "xs \<noteq> [] \<Longrightarrow> opens (hd xs) \<Longrightarrow> opens (joined sep xs @ rest)"
proof -
  assume "xs \<noteq> []" "opens (hd xs)"
  then obtain y ys where "xs = y # ys" "opens y" by (cases xs) auto
  then show ?thesis by (cases ys; cases y) (simp_all add: opens_def)
qed

lemma close_stops: "stops (CHR '']'' # rest)" "stops (CHR ''}'' # rest)" "stops (CHR '','' # rest)"
  by (simp_all add: stops_def number_char_def isdigit_def byte_of_def)

lemma close_skip [simp]: "skipWhitespace (CHR '']'' # rest) = CHR '']'' # rest" "skipWhitespace (CHR ''}'' # rest) = CHR ''}'' # rest"
  "skipWhitespace (CHR '','' # rest) = CHR '','' # rest" "skipWhitespace (CHR '':'' # rest) = CHR '':'' # rest"
  "skipWhitespace (CHR 0x22 # rest) = CHR 0x22 # rest"
  by (simp_all add: skipWhitespace_def json_space_def)

lemma array_loop_prints:
  assumes v: "\<And>x w rest. x \<in> set xs \<Longrightarrow> blank w \<Longrightarrow> stops rest \<Longrightarrow> value (w @ f x @ rest) = Inr (x, rest)"
    and sp: "blank sp"
  shows "xs \<noteq> [] \<Longrightarrow> length xs \<le> n \<Longrightarrow> blank w \<Longrightarrow>
    array_loop value n acc (w @ joined (CHR '','' # sp) (map f xs) @ CHR '']'' # rest) = Inr (JsonArray (acc @ xs), rest)"
  using v
proof (induction xs arbitrary: n acc w)
  case (Cons x xs)
  then obtain m where n: "n = Suc m" by (cases n) auto
  show ?case
  proof (cases "xs = []")
    case True
    have "value (w @ f x @ CHR '']'' # rest) = Inr (x, CHR '']'' # rest)"
      using Cons.prems(4) [of x w] Cons.prems(3) close_stops by simp
    then show ?thesis by (simp add: n True)
  next
    case False
    let ?t = "sp @ joined (CHR '','' # sp) (map f xs) @ CHR '']'' # rest"
    have "value (w @ f x @ CHR '','' # ?t) = Inr (x, CHR '','' # ?t)"
      using Cons.prems(4) [of x w] Cons.prems(3) close_stops by simp
    moreover have "array_loop value m (acc @ [x]) ?t = Inr (JsonArray ((acc @ [x]) @ xs), rest)"
      by (rule Cons.IH [OF False]) (use Cons.prems sp n in simp_all)
    ultimately show ?thesis using False by (simp add: n joined_Cons)
  qed
qed simp

lemma set_property_last: "\<forall>p \<in> set ps. fst p < k \<Longrightarrow> set_property k v ps = ps @ [(k, v)]"
  by (induction ps) (auto dest: less_asym)

lemma object_loop_prints:
  assumes v: "\<And>p w rest. p \<in> set ps \<Longrightarrow> blank w \<Longrightarrow> stops rest \<Longrightarrow> value (w @ f (snd p) @ rest) = Inr (snd p, rest)"
    and keys: "\<forall>p \<in> set ps. plain_key (fst p)" and sp: "blank sp"
  shows "ps \<noteq> [] \<Longrightarrow> length ps \<le> n \<Longrightarrow> blank w \<Longrightarrow> sorted_wrt (<) (map fst (acc @ ps)) \<Longrightarrow>
    object_loop value n acc (w @ joined (CHR '','' # sp) (map (\<lambda>(k, x). property_text pretty k (f x)) ps) @ CHR ''}'' # rest) =
      Inr (JsonObject (acc @ ps), rest)"
  using v keys
proof (induction ps arbitrary: n acc w)
  case (Cons p ps)
  obtain k x where p: "p = (k, x)" by (cases p)
  obtain m where n: "n = Suc m" using Cons.prems(2) by (cases n) auto
  let ?sp = "if pretty then '' '' else []"
  have blank: "blank ?sp" by (simp add: blank_def json_space_def)
  have set: "set_property k x acc = acc @ [(k, x)]"
    by (rule set_property_last) (use Cons.prems(4) p in \<open>auto simp: sorted_wrt_append\<close>)
  have head: "object_loop value (Suc m) acc (w @ property_text pretty k (f x) @ c # t) =
      (if c = CHR ''}'' then Inr (JsonObject (acc @ [(k, x)]), t)
       else if c = CHR '','' then object_loop value m (acc @ [(k, x)]) t
       else Inl (Json_error (''Expected '' @ quoted '','' @ '' or '' @ quoted ''}'' @ '' in object'')))"
    if c: "c = CHR ''}'' \<or> c = CHR '',''" for c t
  proof -
    let ?u = "CHR '':'' # ?sp @ f x @ c # t"
    have s1: "skipWhitespace (w @ property_text pretty k (f x) @ c # t) = CHR 0x22 # k @ CHR 0x22 # ?u"
      using blank_skip [OF Cons.prems(3)] by (simp add: property_text_def)
    have k: "parseString (CHR 0x22 # k @ CHR 0x22 # ?u) = Inr (k, ?u)"
      using Cons.prems(6) p string_loop_key [of k "[]" ?u] by (simp add: parseString_def)
    have "stops (c # t)" using c close_stops by auto
    then have x: "value (?sp @ f x @ c # t) = Inr (x, c # t)" using Cons.prems(5) [of p ?sp] p blank by simp
    have ne: "w @ property_text pretty k (f x) @ c # t \<noteq> []" by simp
    have sk: "skipWhitespace (c # t) = c # t" using c by auto
    show ?thesis unfolding object_loop.simps Let_def s1 k sum.case prod.case close_skip list.case x sk set
      using ne by simp
  qed
  show ?case
  proof (cases "ps = []")
    case True
    then show ?thesis using head [of "CHR ''}''" rest] by (simp add: n p)
  next
    case False
    let ?t = "sp @ joined (CHR '','' # sp) (map (\<lambda>(k, x). property_text pretty k (f x)) ps) @ CHR ''}'' # rest"
    have "object_loop value m (acc @ [(k, x)]) ?t = Inr (JsonObject ((acc @ [(k, x)]) @ ps), rest)"
      by (rule Cons.IH [OF False]) (use Cons.prems sp n p in simp_all)
    then show ?thesis using False head [of "CHR '',''" ?t] by (simp add: n p joined_Cons)
  qed
qed simp

lemma parseValue_blank: "blank w \<Longrightarrow> parseValue n strtod (w @ s) = parseValue n strtod s"
  by (cases n) (simp_all add: blank_skip)

lemma parse_number_text:
  assumes ok: "number_ok strtod ai st d" and rest: "stops rest"
  shows "parseValue (Suc n) strtod (number_text ai st d @ rest) = Inr (JsonNumber d, rest)"
proof -
  obtain c r where t: "number_text ai st d = c # r" and c: "c = CHR ''-'' \<or> isdigit c" and d: "number_end (number_text ai st d) = []" "strtod (number_text ai st d) = Some d"
    using ok number_ok_shape [OF ok] by (auto simp: number_ok_def number_shape_def split: list.splits)
  have s: "skipWhitespace (c # r @ rest) = c # r @ rest"
    using c isdigit_opens [of c] by (auto simp: skipWhitespace_def json_space_def)
  have n: "number_end (c # r @ rest) = rest"
    using number_end_append [OF rest, of "number_text ai st d"] d(1) by (simp add: t)
  have "parseNumber strtod (c # r @ rest) = Inr (JsonNumber d, rest)"
    using d(2) by (simp add: parseNumber_def Let_def n t)
  moreover have "c \<noteq> CHR ''n'' \<and> c \<noteq> CHR ''t'' \<and> c \<noteq> CHR ''f'' \<and> c \<noteq> CHR 0x22 \<and> c \<noteq> CHR ''['' \<and> c \<noteq> CHR ''{''"
    using c by (auto simp: isdigit_def byte_of_def)
  ultimately show ?thesis using c by (simp add: t s)
qed

lemma parse_printed:
  "json_ok (number_ok strtod ai st) j \<Longrightarrow> length (stringifyHelper ai st pretty j) < n \<Longrightarrow> blank w \<Longrightarrow> stops rest \<Longrightarrow>
    parseValue n strtod (w @ stringifyHelper ai st pretty j @ rest) = Inr (j, rest)"
proof (induction j arbitrary: n w rest)
  case JsonNull
  then obtain m where "n = Suc m" by (cases n) auto
  then show ?case by (simp add: parseValue_blank [OF JsonNull(3)] skipWhitespace_def json_space_def parseNull_def starts_with_iff)
next
  case (JsonBool b)
  then obtain m where "n = Suc m" by (cases n) auto
  then show ?case by (simp add: parseValue_blank [OF JsonBool(3)] skipWhitespace_def json_space_def parseBool_def starts_with_iff)
next
  case (JsonNumber d)
  then obtain m where "n = Suc m" by (cases n) auto
  then show ?case using parse_number_text [of strtod ai st d rest m] JsonNumber by (simp add: parseValue_blank del: parseValue.simps)
next
  case (JsonString t)
  then obtain m where "n = Suc m" by (cases n) auto
  then show ?case using string_loop_escaped [of "[]" t rest]
    by (simp add: parseValue_blank [OF JsonString(3)] parseString_def)
next
  case (JsonArray xs)
  let ?f = "stringifyHelper ai st pretty" and ?sp = "if pretty then '' '' else []"
  obtain m where n: "n = Suc m" using JsonArray.prems(2) by (cases n) auto
  have sep: "(if pretty then '', '' else '','') = CHR '','' # ?sp" by simp
  let ?t = "joined (CHR '','' # ?sp) (map ?f xs)"
  have out: "?f (JsonArray xs) = CHR ''['' # ?t @ '']''" by (simp only: stringifyHelper.simps sep append.simps)
  have len: "length ?t + 2 \<le> m" using JsonArray.prems(2) unfolding out n by simp
  have ok: "\<forall>x \<in> set xs. json_ok (number_ok strtod ai st) x" using JsonArray.prems(1) by simp
  have "parseArray (parseValue m strtod) m (CHR ''['' # ?t @ CHR '']'' # rest) = Inr (JsonArray xs, rest)"
  proof (cases "xs = []")
    case True
    then show ?thesis by (simp add: parseArray_def Let_def)
  next
    case False
    have o: "opens (joined (CHR '','' # ?sp) (map ?f xs) @ CHR '']'' # rest)"
      using False ok stringify_opens [of strtod ai st _ pretty] by (intro joined_opens) (auto simp: hd_map)
    then have s: "skipWhitespace (?t @ CHR '']'' # rest) = ?t @ CHR '']'' # rest" using opens_skip [of _ "[]"] by simp
    have c: "hd (?t @ CHR '']'' # rest) \<noteq> CHR '']''" using o by (auto simp: opens_def split: list.splits)
    have "\<forall>x \<in> set (map ?f xs). x \<noteq> []" using ok stringify_opens [of strtod ai st _ pretty] by (fastforce simp: opens_def)
    from joined_count [OF this] have cnt: "length xs \<le> m" using len by (metis add_leD1 le_trans length_map)
    have v: "parseValue m strtod (w @ ?f x @ rest) = Inr (x, rest)" if "x \<in> set xs" "blank w" "stops rest" for x w rest
      using joined_member [of "?f x" "map ?f xs" "CHR '','' # ?sp"] that ok len by (intro JsonArray.IH) auto
    have "array_loop (parseValue m strtod) m [] ([] @ ?t @ CHR '']'' # rest) = Inr (JsonArray ([] @ xs), rest)"
      by (rule array_loop_prints [OF v _ False cnt]) (simp_all add: blank_def json_space_def)
    then show ?thesis using c by (simp add: parseArray_def Let_def s)
  qed
  then show ?case unfolding out n parseValue_blank [OF JsonArray.prems(3)]
    by (simp add: skipWhitespace_def json_space_def)
next
  case (JsonObject ps)
  let ?f = "stringifyHelper ai st pretty" and ?sp = "if pretty then '' '' else []"
  let ?p = "\<lambda>(k, x). property_text pretty k (?f x)"
  obtain m where n: "n = Suc m" using JsonObject.prems(2) by (cases n) auto
  have sep: "(if pretty then '', '' else '','') = CHR '','' # ?sp" by simp
  let ?t = "joined (CHR '','' # ?sp) (map ?p ps)"
  have out: "?f (JsonObject ps) = CHR ''{'' # ?t @ ''}''" by (simp only: stringifyHelper.simps sep append.simps)
  have len: "length ?t + 2 \<le> m" using JsonObject.prems(2) unfolding out n by simp
  have ok: "\<forall>p \<in> set ps. plain_key (fst p) \<and> json_ok (number_ok strtod ai st) (snd p)" "sorted_wrt (<) (map fst ([] @ ps))"
    using JsonObject.prems(1) by simp_all
  have "parseObject (parseValue m strtod) m (CHR ''{'' # ?t @ CHR ''}'' # rest) = Inr (JsonObject ps, rest)"
  proof (cases "ps = []")
    case True
    then show ?thesis by (simp add: parseObject_def Let_def)
  next
    case False
    have o: "opens (joined (CHR '','' # ?sp) (map ?p ps) @ CHR ''}'' # rest)"
      by (rule joined_opens) (use False in \<open>auto simp: hd_map property_text_def opens_def json_space_def split: prod.split\<close>)
    then have s: "skipWhitespace (?t @ CHR ''}'' # rest) = ?t @ CHR ''}'' # rest" using opens_skip [of _ "[]"] by simp
    have c: "hd (?t @ CHR ''}'' # rest) \<noteq> CHR ''}''" using o by (auto simp: opens_def split: list.splits)
    have "\<forall>x \<in> set (map ?p ps). x \<noteq> []" by (auto simp: property_text_def)
    from joined_count [OF this] have cnt: "length ps \<le> m" using len by (metis add_leD1 le_trans length_map)
    have v: "parseValue m strtod (w @ ?f (snd p) @ rest) = Inr (snd p, rest)" if "p \<in> set ps" "blank w" "stops rest" for p w rest
    proof (rule JsonObject.IH [of p "snd p"])
      show "length (?f (snd p)) < m"
        using joined_member [of "?p p" "map ?p ps" "CHR '','' # ?sp"] that len
        by (auto simp: property_text_def split: prod.splits)
      show "snd p \<in> Basic_BNFs.snds p" by (cases p) (simp add: Basic_BNFs.snds.simps)
    qed (use that ok in auto)
    have "object_loop (parseValue m strtod) m [] ([] @ ?t @ CHR ''}'' # rest) = Inr (JsonObject ([] @ ps), rest)"
      by (rule object_loop_prints [OF v _ _ False cnt _ ok(2)]) (use ok in \<open>simp_all add: blank_def json_space_def\<close>)
    then show ?thesis using c by (simp add: parseObject_def Let_def s)
  qed
  then show ?case unfolding out n parseValue_blank [OF JsonObject.prems(3)]
    by (simp add: skipWhitespace_def json_space_def)
qed

lemma joined_no_null:
  assumes "CHR 0x00 \<notin> set sep" and "\<forall>x \<in> set xs. CHR 0x00 \<notin> set x"
  shows "CHR 0x00 \<notin> set (joined sep xs)"
  using assms by (induction sep xs rule: joined.induct) auto

lemma printed_no_null: "json_ok (number_ok strtod ai st) j \<Longrightarrow> CHR 0x00 \<notin> set (stringifyHelper ai st pretty j)"
proof (induction j)
  case (JsonNumber d)
  then have "list_all number_char (number_text ai st d)" using number_ok_shape [of strtod ai st d] by (simp add: number_shape_def)
  moreover have "\<not> number_char (CHR 0x00)" by (simp add: number_char_def isdigit_def byte_of_def)
  ultimately show ?case by (auto simp: list_all_iff)
next
  case (JsonString t)
  then show ?case by (auto simp: escape_out_def)
next
  case (JsonArray xs)
  then have "CHR 0x00 \<notin> set (joined (if pretty then '', '' else '','') (map (stringifyHelper ai st pretty) xs))"
    by (intro joined_no_null) auto
  then show ?case by simp
next
  case (JsonObject ps)
  have "CHR 0x00 \<notin> set (property_text pretty (fst p) (stringifyHelper ai st pretty (snd p)))" if "p \<in> set ps" for p
    using JsonObject that by (cases p) (fastforce simp: property_text_def plain_key_def list_all_iff Basic_BNFs.snds.simps)
  then have "CHR 0x00 \<notin> set (joined (if pretty then '', '' else '','')
      (map (\<lambda>(key, item). property_text pretty key (stringifyHelper ai st pretty item)) ps))"
    by (intro joined_no_null) auto
  then show ?case by simp
qed auto

text \<open>
  C12. A document that is printed, compactly or with spaces, and parsed again is the same document: if
  the keys of each object are in order and need no escape, no string or key has a null character, and
  each number is read from its text, which for a number that is no 64-bit integer has to be that of a
  JSON number.
\<close>
theorem json_roundtrip:
  assumes "json_ok (number_ok strtod as_int64 stream) j"
  shows "absolute_json_parse strtod (Some (absolute_json_stringify as_int64 stream (Some j) pretty)) = Inr j"
proof -
  let ?t = "stringifyHelper as_int64 stream (pretty \<noteq> 0) j"
  have "?t \<noteq> []" using stringify_opens [OF assms, of "pretty \<noteq> 0"] by (auto simp: opens_def)
  moreover have "parseValue (length ?t + 1) strtod ([] @ ?t @ []) = Inr (j, [])"
    by (rule parse_printed [OF assms]) (simp_all add: blank_def stops_def)
  moreover have "c_str ?t = ?t" by (rule c_str_text [OF printed_no_null [OF assms]])
  ultimately show ?thesis by (simp add: absolute_json_parse_def absolute_json_stringify_def)
qed

theorem json_roundtrip_witness:
  "absolute_json_parse (\<lambda>t. if t = ''-7'' then Some (- 7::int) else None)
     (Some (absolute_json_stringify Some (\<lambda>d. [])
       (Some (JsonObject [(''a'', JsonArray [JsonNumber (- 7::int), JsonNull]), (''b'', JsonString [CHR 0x22])])) 1)) =
   Inr (JsonObject [(''a'', JsonArray [JsonNumber (- 7), JsonNull]), (''b'', JsonString [CHR 0x22])])"
proof (rule json_roundtrip)
  have "int_to_string (- 7) = ''-7''" by code_simp
  then show "json_ok (number_ok (\<lambda>t. if t = ''-7'' then Some (- 7::int) else None) Some (\<lambda>d. []))
      (JsonObject [(''a'', JsonArray [JsonNumber (- 7::int), JsonNull]), (''b'', JsonString [CHR 0x22])])"
    by (simp add: number_ok_def number_text_def plain_key_def)
qed

text \<open>The printer does not escape keys: an object with a quote in a key is printed as no JSON text.\<close>

lemma quoted_key_is_not_read_back:
  "absolute_json_parse (\<lambda>t. None :: int option)
     (Some (absolute_json_stringify Some (\<lambda>d. []) (Some (JsonObject [([CHR ''a'', CHR 0x22, CHR ''b''], JsonNull)])) 0)) =
   Inl (Json_error (''Expected '' @ quoted '':'' @ '' after property key''))"
  by code_simp

text \<open>What follows a value is ignored.\<close>

lemma text_after_value_is_ignored:
  "absolute_json_parse (\<lambda>t. None :: int option) (Some ''null garbage'') = Inr JsonNull"
  by code_simp

text \<open>A null character can be written in a string, but the document is then printed up to it.\<close>

lemma null_character_cuts_document:
  "absolute_json_parse (\<lambda>t. None :: int option) (Some ([CHR 0x22, CHR 0x5C] @ ''u0000'' @ [CHR 0x22])) = Inr (JsonString [CHR 0x00])"
  "absolute_json_parse (\<lambda>t. None :: int option)
     (Some (absolute_json_stringify Some (\<lambda>d. []) (Some (JsonString [CHR 0x00])) 0)) =
   Inl (Json_error ''Unterminated string literal'')"
  by code_simp+

end
