(* ===== verification/Json_Store.thy ===== *)
theory Json_Store
  imports Json_Rules
begin

text \<open>
  The nodes of JSON documents in memory (\<^verbatim>\<open>Absolute-Runtime/src/json.cpp\<close>): a node holds the addresses of
  its children and owns them. A store maps the addresses of the nodes that are allocated to them; an
  operation that reads or deletes a node that is not there has no result. A tree stands for a document if
  its nodes are apart; deleting it deletes these nodes and no others, and setting a property or adding an
  element makes the tree of the changed document, with the replaced tree deleted and no node lost.
\<close>

section \<open>Nodes in memory\<close>

datatype 'd cell = CNull | CBool bool | CNumber 'd | CString string | CArray "nat list" | CObject "(string \<times> nat) list"

type_synonym 'd store = "nat \<rightharpoonup> 'd cell"

definition children :: "'d cell \<Rightarrow> nat list" where
  "children c = (case c of CArray ps \<Rightarrow> ps | CObject kps \<Rightarrow> map snd kps | _ \<Rightarrow> [])"

text \<open>
  The destructors of a list of nodes, one after another, each with the nodes that its node owns. A node
  that is being destroyed is not there for the destructors of its children.
\<close>

partial_function (option) destroy :: "nat list \<Rightarrow> 'd store \<Rightarrow> 'd store option" where
  "destroy ps mem =
     (case ps of
        [] \<Rightarrow> Some mem
      | p # rest \<Rightarrow> (case mem p of None \<Rightarrow> None | Some c \<Rightarrow> destroy (children c @ rest) (mem(p := None))))"

declare destroy.simps [code]

text \<open>Handles are addresses, \<open>None\<close> for null; a new node is at an address that is an argument.\<close>

definition absolute_json_create_null :: "nat \<Rightarrow> 'd store \<Rightarrow> 'd store" where
  "absolute_json_create_null p mem = mem(p \<mapsto> CNull)"

definition absolute_json_create_bool :: "nat \<Rightarrow> int \<Rightarrow> 'd store \<Rightarrow> 'd store" where
  "absolute_json_create_bool p val mem = mem(p \<mapsto> CBool (val \<noteq> 0))"

definition absolute_json_create_number :: "nat \<Rightarrow> 'd \<Rightarrow> 'd store \<Rightarrow> 'd store" where
  "absolute_json_create_number p val mem = mem(p \<mapsto> CNumber val)"

definition absolute_json_create_string :: "nat \<Rightarrow> string option \<Rightarrow> 'd store \<Rightarrow> 'd store" where
  "absolute_json_create_string p val mem = mem(p \<mapsto> CString (case val of None \<Rightarrow> [] | Some t \<Rightarrow> c_str t))"

definition absolute_json_create_array :: "nat \<Rightarrow> 'd store \<Rightarrow> 'd store" where
  "absolute_json_create_array p mem = mem(p \<mapsto> CArray [])"

definition absolute_json_create_object :: "nat \<Rightarrow> 'd store \<Rightarrow> 'd store" where
  "absolute_json_create_object p mem = mem(p \<mapsto> CObject [])"

definition absolute_json_free :: "nat option \<Rightarrow> 'd store \<Rightarrow> 'd store option" where
  "absolute_json_free handle mem = (case handle of None \<Rightarrow> Some mem | Some p \<Rightarrow> destroy [p] mem)"

text \<open>What is read of a node: of a null handle it is the given result.\<close>

definition read_node :: "'d store \<Rightarrow> nat option \<Rightarrow> 'r \<Rightarrow> ('d cell \<Rightarrow> 'r) \<Rightarrow> 'r option" where
  "read_node mem handle otherwise f = (case handle of None \<Rightarrow> Some otherwise | Some p \<Rightarrow> map_option f (mem p))"

definition absolute_json_get_type :: "'d store \<Rightarrow> nat option \<Rightarrow> int option" where
  "absolute_json_get_type mem handle =
     read_node mem handle 0 (\<lambda>c. case c of CNull \<Rightarrow> 0 | CBool b \<Rightarrow> 1 | CNumber d \<Rightarrow> 2 | CString t \<Rightarrow> 3 | CArray ps \<Rightarrow> 4 | CObject kps \<Rightarrow> 5)"

text \<open>A field that the type of a node does not use has its initial value; \<open>zero\<close> is the double 0.0.\<close>

definition absolute_json_as_bool :: "'d store \<Rightarrow> nat option \<Rightarrow> int option" where
  "absolute_json_as_bool mem handle = read_node mem handle 0 (\<lambda>c. case c of CBool b \<Rightarrow> if b then 1 else 0 | _ \<Rightarrow> 0)"

definition absolute_json_as_number :: "'d \<Rightarrow> 'd store \<Rightarrow> nat option \<Rightarrow> 'd option" where
  "absolute_json_as_number zero mem handle = read_node mem handle zero (\<lambda>c. case c of CNumber d \<Rightarrow> d | _ \<Rightarrow> zero)"

definition absolute_json_as_string :: "'d store \<Rightarrow> nat option \<Rightarrow> string option" where
  "absolute_json_as_string mem handle = read_node mem handle [] (\<lambda>c. case c of CString t \<Rightarrow> c_str t | _ \<Rightarrow> [])"

definition absolute_json_size :: "'d store \<Rightarrow> nat option \<Rightarrow> int option" where
  "absolute_json_size mem handle =
     read_node mem handle 0 (\<lambda>c. case c of
         CArray ps \<Rightarrow> sint (of_nat (length ps) :: 32 word)
       | CObject kps \<Rightarrow> sint (of_nat (length kps) :: 32 word)
       | _ \<Rightarrow> 0)"

definition absolute_json_get_array_elem :: "'d store \<Rightarrow> nat option \<Rightarrow> int \<Rightarrow> nat option option" where
  "absolute_json_get_array_elem mem handle index =
     read_node mem handle None (\<lambda>c. case c of
         CArray ps \<Rightarrow> if index < 0 \<or> index \<ge> sint (of_nat (length ps) :: 32 word) then None else Some (ps ! nat index)
       | _ \<Rightarrow> None)"

definition absolute_json_has_property :: "'d store \<Rightarrow> nat option \<Rightarrow> string option \<Rightarrow> int option" where
  "absolute_json_has_property mem handle key =
     (case key of
        None \<Rightarrow> Some 0
      | Some k \<Rightarrow> read_node mem handle 0 (\<lambda>c. case c of CObject kps \<Rightarrow> if map_of kps (c_str k) \<noteq> None then 1 else 0 | _ \<Rightarrow> 0))"

definition absolute_json_get_property :: "'d store \<Rightarrow> nat option \<Rightarrow> string option \<Rightarrow> nat option option" where
  "absolute_json_get_property mem handle key =
     (case key of
        None \<Rightarrow> Some None
      | Some k \<Rightarrow> read_node mem handle None (\<lambda>c. case c of CObject kps \<Rightarrow> map_of kps (c_str k) | _ \<Rightarrow> None))"

definition absolute_json_array_add :: "'d store \<Rightarrow> nat option \<Rightarrow> nat option \<Rightarrow> 'd store option" where
  "absolute_json_array_add mem handle item =
     (case (handle, item) of
        (Some p, Some q) \<Rightarrow>
          (case mem p of
             None \<Rightarrow> None
           | Some (CArray ps) \<Rightarrow> Some (mem(p \<mapsto> CArray (ps @ [q])))
           | Some _ \<Rightarrow> Some mem)
      | _ \<Rightarrow> Some mem)"

text \<open>The node of a property is deleted before it is replaced; the object is read again after that.\<close>

definition absolute_json_object_set :: "'d store \<Rightarrow> nat option \<Rightarrow> string option \<Rightarrow> nat option \<Rightarrow> 'd store option" where
  "absolute_json_object_set mem handle key item =
     (case (handle, key, item) of
        (Some p, Some k, Some q) \<Rightarrow>
          (case mem p of
             None \<Rightarrow> None
           | Some (CObject kps) \<Rightarrow>
               Option.bind (case map_of kps (c_str k) of None \<Rightarrow> Some mem | Some old \<Rightarrow> destroy [old] mem) (\<lambda>mem'.
                 case mem' p of
                   Some (CObject kps') \<Rightarrow> Some (mem'(p \<mapsto> CObject (set_property (c_str k) q kps')))
                 | _ \<Rightarrow> None)
           | Some _ \<Rightarrow> Some mem)
      | _ \<Rightarrow> Some mem)"

section \<open>Trees\<close>

text \<open>The node at an address stands for a document, with the addresses of its nodes.\<close>

inductive tree :: "'d store \<Rightarrow> nat \<Rightarrow> 'd json \<Rightarrow> nat set \<Rightarrow> bool"
  and trees :: "'d store \<Rightarrow> nat list \<Rightarrow> 'd json list \<Rightarrow> nat set \<Rightarrow> bool"
  and entries :: "'d store \<Rightarrow> (string \<times> nat) list \<Rightarrow> (string \<times> 'd json) list \<Rightarrow> nat set \<Rightarrow> bool" for mem where
  tree_null: "mem p = Some CNull \<Longrightarrow> tree mem p JsonNull {p}"
| tree_bool: "mem p = Some (CBool b) \<Longrightarrow> tree mem p (JsonBool b) {p}"
| tree_number: "mem p = Some (CNumber d) \<Longrightarrow> tree mem p (JsonNumber d) {p}"
| tree_string: "mem p = Some (CString t) \<Longrightarrow> tree mem p (JsonString t) {p}"
| tree_array: "mem p = Some (CArray ps) \<Longrightarrow> trees mem ps js F \<Longrightarrow> p \<notin> F \<Longrightarrow> tree mem p (JsonArray js) (insert p F)"
| tree_object: "mem p = Some (CObject kps) \<Longrightarrow> entries mem kps es F \<Longrightarrow> p \<notin> F \<Longrightarrow>
    sorted_wrt (<) (map fst kps) \<Longrightarrow> tree mem p (JsonObject es) (insert p F)"
| trees_none: "trees mem [] [] {}"
| trees_more: "tree mem p j F \<Longrightarrow> trees mem ps js G \<Longrightarrow> F \<inter> G = {} \<Longrightarrow> trees mem (p # ps) (j # js) (F \<union> G)"
| entries_none: "entries mem [] [] {}"
| entries_more: "tree mem p j F \<Longrightarrow> entries mem kps es G \<Longrightarrow> F \<inter> G = {} \<Longrightarrow>
    entries mem ((k, p) # kps) ((k, j) # es) (F \<union> G)"

inductive_cases tree_objectE: "tree mem p (JsonObject es) F"
inductive_cases tree_arrayE: "tree mem p (JsonArray js) F"
inductive_cases entries_ConsE: "entries mem ((k, p) # kps) es F"
inductive_cases entries_NilE: "entries mem [] es F"

lemma tree_frame:
  "tree mem p j F \<Longrightarrow> (\<forall>a \<in> F. mem' a = mem a) \<longrightarrow> tree mem' p j F"
  "trees mem ps js F \<Longrightarrow> (\<forall>a \<in> F. mem' a = mem a) \<longrightarrow> trees mem' ps js F"
  "entries mem kps es F \<Longrightarrow> (\<forall>a \<in> F. mem' a = mem a) \<longrightarrow> entries mem' kps es F"
  by (induction rule: tree_trees_entries.inducts) (auto intro: tree_trees_entries.intros)

lemma tree_allocated:
  "tree mem p j F \<Longrightarrow> p \<in> F \<and> F \<subseteq> dom mem"
  "trees mem ps js F \<Longrightarrow> F \<subseteq> dom mem"
  "entries mem kps es F \<Longrightarrow> F \<subseteq> dom mem"
  by (induction rule: tree_trees_entries.inducts) auto

lemma destroy_Nil [simp]: "destroy [] mem = Some mem"
  by (subst destroy.simps) simp

definition without :: "nat set \<Rightarrow> 'd store \<Rightarrow> 'd store" where
  "without F mem = mem |` (- F)"

lemma without_simps [simp]:
  "without {} mem = mem"   "without G (without F mem) = without (F \<union> G) mem"
  by (auto simp: without_def restrict_map_def fun_eq_iff)

lemma without_at: "without F mem a = (if a \<in> F then None else mem a)"
  by (simp add: without_def)

lemma without_single: "mem(p := None) = without {p} mem"
  by (auto simp: without_def restrict_map_def fun_eq_iff)

lemma destroy_Cons [simp]: "mem p = Some c \<Longrightarrow> destroy (p # rest) mem = destroy (children c @ rest) (without {p} mem)"
  by (subst destroy.simps) (simp add: without_single)

text \<open>Destroying a tree deletes its nodes and no others, and reads none that has been deleted.\<close>

lemma destroy_tree:
  "tree mem p j F \<Longrightarrow> \<forall>rest m. (\<forall>a \<in> F. m a = mem a) \<longrightarrow> destroy (p # rest) m = destroy rest (without F m)"
  "trees mem ps js F \<Longrightarrow> \<forall>rest m. (\<forall>a \<in> F. m a = mem a) \<longrightarrow> destroy (ps @ rest) m = destroy rest (without F m)"
  "entries mem kps es F \<Longrightarrow> \<forall>rest m. (\<forall>a \<in> F. m a = mem a) \<longrightarrow> destroy (map snd kps @ rest) m = destroy rest (without F m)"
proof (induction rule: tree_trees_entries.inducts)
  case (tree_array p ps js F)
  have "destroy (p # rest) m = destroy rest (without (insert p F) m)" if m: "\<forall>a \<in> insert p F. m a = mem a" for rest m
  proof -
    have apart: "\<forall>a \<in> F. without {p} m a = mem a" using tree_array(4) m by (auto simp: without_at)
    have "destroy (p # rest) m = destroy (ps @ rest) (without {p} m)" using tree_array(1) m by (simp add: children_def)
    also have "\<dots> = destroy rest (without F (without {p} m))" using tree_array(3) apart by blast
    finally show ?thesis by simp
  qed
  then show ?case by blast
next
  case (tree_object p kps es F)
  have "destroy (p # rest) m = destroy rest (without (insert p F) m)" if m: "\<forall>a \<in> insert p F. m a = mem a" for rest m
  proof -
    have apart: "\<forall>a \<in> F. without {p} m a = mem a" using tree_object(4) m by (auto simp: without_at)
    have "destroy (p # rest) m = destroy (map snd kps @ rest) (without {p} m)" using tree_object(1) m by (simp add: children_def)
    also have "\<dots> = destroy rest (without F (without {p} m))" using tree_object(3) apart by blast
    finally show ?thesis by simp
  qed
  then show ?case by blast
next
  case (trees_more p j F ps js G)
  have "destroy ((p # ps) @ rest) m = destroy rest (without (F \<union> G) m)" if m: "\<forall>a \<in> F \<union> G. m a = mem a" for rest m
  proof -
    have apart: "\<forall>a \<in> G. without F m a = mem a" using trees_more(5) m by (auto simp: without_at)
    have "destroy ((p # ps) @ rest) m = destroy (ps @ rest) (without F m)" using trees_more m by simp
    also have "\<dots> = destroy rest (without G (without F m))"
      using trees_more(4) apart by blast
    finally show ?thesis by simp
  qed
  then show ?case by blast
next
  case (entries_more p j F kps es G k)
  have "destroy (map snd ((k, p) # kps) @ rest) m = destroy rest (without (F \<union> G) m)" if m: "\<forall>a \<in> F \<union> G. m a = mem a" for rest m
  proof -
    have apart: "\<forall>a \<in> G. without F m a = mem a" using entries_more(5) m by (auto simp: without_at)
    have "destroy (map snd ((k, p) # kps) @ rest) m = destroy (map snd kps @ rest) (without F m)" using entries_more m by simp
    also have "\<dots> = destroy rest (without G (without F m))"
      using entries_more(4) apart by blast
    finally show ?thesis by simp
  qed
  then show ?case by blast
qed (auto simp: children_def)

corollary free_tree:
  assumes "tree mem p j F"
  shows "absolute_json_free (Some p) mem = Some (without F mem)"
  using destroy_tree(1) [OF assms, rule_format, of mem "[]"] by (simp add: absolute_json_free_def)

section \<open>Entries\<close>

lemma entries_keys: "entries mem kps es F \<Longrightarrow> map fst es = map fst kps"
  by (induction kps arbitrary: es F) (auto elim!: entries_ConsE entries_NilE)

lemma entries_insert:
  assumes "entries mem kps es F" and "k \<notin> fst ` set kps" and "tree mem q x G" and "F \<inter> G = {}"
  shows "entries mem (set_property k q kps) (set_property k x es) (F \<union> G)"
  using assms
proof (induction kps arbitrary: es F)
  case Nil
  then show ?case using entries_more [OF Nil.prems(3) entries_none, of k] by (auto elim: entries_NilE)
next
  case (Cons kp kps)
  obtain k' p where kp: "kp = (k', p)" by (cases kp)
  from Cons.prems(1) obtain j Fp es' F' where e: "es = (k', j) # es'" "F = Fp \<union> F'" "tree mem p j Fp" "entries mem kps es' F'"
    "Fp \<inter> F' = {}" unfolding kp by (elim entries_ConsE)
  have n: "k \<noteq> k'" "k \<notin> fst ` set kps" using Cons.prems(2) kp by auto
  show ?case
  proof (cases "k < k'")
    case True
    have "entries mem ((k, q) # (k', p) # kps) ((k, x) # (k', j) # es') (G \<union> (Fp \<union> F'))"
      using e Cons.prems(3,4) by (intro entries_more) auto
    then show ?thesis using True n e kp by (simp add: Un_commute)
  next
    case False
    have "entries mem (set_property k q kps) (set_property k x es') (F' \<union> G)"
      using e Cons.prems n by (intro Cons.IH) auto
    then have "entries mem ((k', p) # set_property k q kps) ((k', j) # set_property k x es') (Fp \<union> (F' \<union> G))"
      using e Cons.prems(4) by (intro entries_more) auto
    then show ?thesis using False n e kp by (simp add: Un_assoc)
  qed
qed

text \<open>The entry of a key is a tree of its own, and the others are apart from it.\<close>

lemma entries_replace:
  assumes "entries mem kps es F" and "sorted_wrt (<) (map fst kps)" and "map_of kps k = Some old"
  obtains old_tree D where "tree mem old old_tree D" "D \<subseteq> F" "map_of es k = Some old_tree"
    "\<And>m q x G. \<forall>a \<in> F - D. m a = mem a \<Longrightarrow> tree m q x G \<Longrightarrow> (F - D) \<inter> G = {} \<Longrightarrow>
      entries m (set_property k q kps) (set_property k x es) ((F - D) \<union> G)"
proof -
  have "\<exists>j D. tree mem old j D \<and> D \<subseteq> F \<and> map_of es k = Some j \<and>
    (\<forall>m q x G. (\<forall>a \<in> F - D. m a = mem a) \<longrightarrow> tree m q x G \<longrightarrow> (F - D) \<inter> G = {} \<longrightarrow>
      entries m (set_property k q kps) (set_property k x es) ((F - D) \<union> G))"
    using assms
  proof (induction kps arbitrary: es F)
    case (Cons kp kps)
    obtain k' p where kp: "kp = (k', p)" by (cases kp)
    from Cons.prems(1) obtain j Fp es' F' where e: "es = (k', j) # es'" "F = Fp \<union> F'" "tree mem p j Fp"
      "entries mem kps es' F'" "Fp \<inter> F' = {}" unfolding kp by (elim entries_ConsE)
    show ?case
    proof (cases "k = k'")
      case True
      have "entries m (set_property k q (kp # kps)) (set_property k x es) ((F - Fp) \<union> G)"
        if "\<forall>a \<in> F - Fp. m a = mem a" "tree m q x G" "(F - Fp) \<inter> G = {}" for m q x G
      proof -
        have "F - Fp = F'" using e by auto
        moreover have "entries m kps es' F'" using tree_frame(3) [OF e(4), of m] that(1) calculation by auto
        ultimately show ?thesis
          using entries_more [OF that(2), of kps es' F' k] that(3) True e(1) kp by (simp add: Int_commute Un_commute)
      qed
      then show ?thesis using True e kp Cons.prems(3) by (intro exI [of _ j] exI [of _ Fp]) auto
    next
      case False
      have m: "map_of kps k = Some old" using Cons.prems(3) False kp by simp
      then have "k' < k" using Cons.prems(2) kp by (auto dest!: map_of_SomeD)
      then have o: "\<not> k < k'" by simp
      from Cons.IH [OF e(4) _ m] Cons.prems(2) obtain i D where
        d: "tree mem old i D" "D \<subseteq> F'" "map_of es' k = Some i" and
        r: "\<And>m q x G. \<forall>a \<in> F' - D. m a = mem a \<Longrightarrow> tree m q x G \<Longrightarrow> (F' - D) \<inter> G = {} \<Longrightarrow>
          entries m (set_property k q kps) (set_property k x es') ((F' - D) \<union> G)" by auto
      have fd: "F - D = Fp \<union> (F' - D)" using e d(2) by auto
      have "entries m (set_property k q (kp # kps)) (set_property k x es) ((F - D) \<union> G)"
        if "\<forall>a \<in> F - D. m a = mem a" "tree m q x G" "(F - D) \<inter> G = {}" for m q x G
      proof -
        have "entries m (set_property k q kps) (set_property k x es') ((F' - D) \<union> G)"
          using that fd by (intro r) auto
        moreover have "tree m p j Fp" using tree_frame(1) [OF e(3), of m] that(1) fd by auto
        ultimately have "entries m ((k', p) # set_property k q kps) ((k', j) # set_property k x es') (Fp \<union> ((F' - D) \<union> G))"
          using e(5) that(3) fd by (intro entries_more) auto
        then show ?thesis using o False e(1) kp fd by (simp add: Un_assoc)
      qed
      then show ?thesis using d e False by (intro exI [of _ i] exI [of _ D]) auto
    qed
  qed simp
  then show ?thesis using that by blast
qed

section \<open>The operations on trees\<close>

lemma tree_object:
  assumes "mem p = Some (CObject kps)" and "entries mem kps es F" and "p \<notin> F" and "sorted_wrt (<) (map fst kps)"
  shows "tree mem p (JsonObject es) (insert p F)"
  using assms by (rule tree_object)

lemma set_property_keys: "fst ` set (set_property k v ps) = insert k (fst ` set ps)"
proof (induction ps)
  case (Cons p ps)
  then show ?case by (cases p) (auto split: if_splits)
qed simp

lemma set_property_sorted: "sorted_wrt (<) (map fst ps) \<Longrightarrow> sorted_wrt (<) (map fst (set_property k v ps))"
proof (induction ps)
  case (Cons p ps)
  have "fst p < x" if "x \<in> fst ` set (set_property k v ps)" "\<not> k < fst p" "fst p \<noteq> k" for x
    using that Cons.prems unfolding set_property_keys by force
  with Cons show ?case by (cases p) (auto dest: less_trans)
qed simp

lemma map_of_set_property: "map_of (set_property k v ps) = (map_of ps)(k \<mapsto> v)"
  by (induction ps) auto

text \<open>
  C14. Setting a property: if the node stands for an object and the item for a document apart from it,
  then afterwards the node stands for the object with the property set, whatever it had under that key.
  The nodes that were replaced are deleted, each once; of the nodes of both trees the others are exactly
  those of the new tree, so none is lost, and no node elsewhere changes. A null argument, or a node that is
  no object, changes nothing.
\<close>
theorem object_set_replaces_property:
  assumes "tree mem p (JsonObject es) F" and "tree mem q x G" and "F \<inter> G = {}"
  shows "(\<exists>mem' H. absolute_json_object_set mem (Some p) (Some k) (Some q) = Some mem' \<and>
      tree mem' p (JsonObject (set_property (c_str k) x es)) H \<and>
      (\<forall>k'. map_of (set_property (c_str k) x es) k' = (if k' = c_str k then Some x else map_of es k')) \<and>
      H = {a \<in> F \<union> G. mem' a \<noteq> None} \<and> G \<subseteq> H \<and> (\<forall>a. a \<notin> F \<longrightarrow> mem' a = mem a)) \<and>
    absolute_json_object_set mem None (Some k) (Some q) = Some mem \<and>
    absolute_json_object_set mem (Some p) None (Some q) = Some mem \<and>
    absolute_json_object_set mem (Some p) (Some k) None = Some mem \<and>
    (\<forall>b. mem b \<noteq> None \<and> (\<nexists>kps. mem b = Some (CObject kps)) \<longrightarrow>
      absolute_json_object_set mem (Some b) (Some k) (Some q) = Some mem)"
proof -
  let ?k = "c_str k" and ?set = "absolute_json_object_set mem (Some p) (Some k) (Some q)"
  from assms(1) obtain kps F' where o: "mem p = Some (CObject kps)" "entries mem kps es F'" "p \<notin> F'"
    "sorted_wrt (<) (map fst kps)" "F = insert p F'" by (elim tree_objectE)
  note sorted = set_property_sorted [OF o(4), of ?k q]
  have fd: "F \<subseteq> dom mem" "G \<subseteq> dom mem" using tree_allocated(1) assms(1,2) by blast+
  have "\<exists>mem' D. ?set = Some mem' \<and> D \<subseteq> F' \<and> (\<forall>a \<in> D. mem' a = None) \<and> (\<forall>a. a \<notin> D \<and> a \<noteq> p \<longrightarrow> mem' a = mem a) \<and>
      mem' p = Some (CObject (set_property ?k q kps)) \<and>
      entries mem' (set_property ?k q kps) (set_property ?k x es) ((F' - D) \<union> G)"
  proof (cases "map_of kps ?k")
    case None
    let ?m = "mem(p \<mapsto> CObject (set_property ?k q kps))"
    have "entries mem (set_property ?k q kps) (set_property ?k x es) (F' \<union> G)"
      using o assms(2,3) None by (intro entries_insert) (auto simp: map_of_eq_None_iff)
    then have "entries ?m (set_property ?k q kps) (set_property ?k x es) (F' \<union> G)"
      using tree_frame(3) o(3,5) assms(3) by (metis IntI UnE empty_iff fun_upd_other insertI1)
    then show ?thesis using o(1) None
      by (intro exI [of _ ?m] exI [of _ "{}"]) (simp add: absolute_json_object_set_def)
  next
    case (Some old)
    from entries_replace [OF o(2,4) Some] obtain j D where d: "tree mem old j D" "D \<subseteq> F'"
      and r: "\<And>m q x G. \<forall>a \<in> F' - D. m a = mem a \<Longrightarrow> tree m q x G \<Longrightarrow> (F' - D) \<inter> G = {} \<Longrightarrow>
        entries m (set_property ?k q kps) (set_property ?k x es) ((F' - D) \<union> G)" by metis
    let ?m = "(without D mem)(p \<mapsto> CObject (set_property ?k q kps))"
    have pd: "p \<notin> D" "D \<inter> G = {}" "p \<notin> G" using d(2) o(3,5) assms(3) by auto
    have "destroy [old] mem = Some (without D mem)"
      using destroy_tree(1) [OF d(1), rule_format, of mem "[]"] by simp
    then have s: "?set = Some ?m" using o(1) Some pd(1) by (simp add: absolute_json_object_set_def without_at)
    have "tree ?m q x G" using tree_frame(1) [OF assms(2), of ?m] pd by (auto simp: without_at)
    moreover have "\<forall>a \<in> F' - D. ?m a = mem a" using o(3) by (auto simp: without_at)
    ultimately have "entries ?m (set_property ?k q kps) (set_property ?k x es) ((F' - D) \<union> G)"
      using assms(3) o(5) by (intro r) auto
    then show ?thesis using s d(2) pd(1) by (intro exI [of _ ?m] exI [of _ D]) (auto simp: without_at)
  qed
  then obtain mem' D where m: "?set = Some mem'" "D \<subseteq> F'" "\<forall>a \<in> D. mem' a = None" "\<forall>a. a \<notin> D \<and> a \<noteq> p \<longrightarrow> mem' a = mem a"
    "mem' p = Some (CObject (set_property ?k q kps))"
    "entries mem' (set_property ?k q kps) (set_property ?k x es) ((F' - D) \<union> G)" by blast
  let ?H = "insert p ((F' - D) \<union> G)"
  have "tree mem' p (JsonObject (set_property ?k x es)) ?H"
    using m(5,6) sorted o(3,5) assms(3) by (intro tree_object) auto
  moreover have "?H = {a \<in> F \<union> G. mem' a \<noteq> None}"
  proof -
    have "a \<in> ?H \<longleftrightarrow> a \<in> F \<union> G \<and> mem' a \<noteq> None" for a
      using m(2-5) o(3,5) fd assms(3) by (cases "a = p"; cases "a \<in> D") auto
    then show ?thesis by blast
  qed
  moreover have "\<forall>a. a \<notin> F \<longrightarrow> mem' a = mem a" using m(2,4) o(5) by auto
  moreover have "G \<subseteq> ?H" by auto
  ultimately have "\<exists>mem' H. ?set = Some mem' \<and> tree mem' p (JsonObject (set_property ?k x es)) H \<and>
      (\<forall>k'. map_of (set_property ?k x es) k' = (if k' = ?k then Some x else map_of es k')) \<and>
      H = {a \<in> F \<union> G. mem' a \<noteq> None} \<and> G \<subseteq> H \<and> (\<forall>a. a \<notin> F \<longrightarrow> mem' a = mem a)"
    using m(1) by (intro exI [of _ mem'] exI [of _ ?H]) (simp add: map_of_set_property)
  then show ?thesis
    by (auto simp: absolute_json_object_set_def split: option.split cell.split)
qed

definition small_store :: "int store" where
  "small_store = [1 \<mapsto> CObject [(''a'', 2), (''b'', 4)], 2 \<mapsto> CArray [3], 3 \<mapsto> CNull, 4 \<mapsto> CBool True, 5 \<mapsto> CString ''new'']"

lemma small_tree:
  "tree small_store 1 (JsonObject [(''a'', JsonArray [JsonNull]), (''b'', JsonBool True)]) {1, 2, 3, 4}"
  "tree small_store 5 (JsonString ''new'') {5}"
proof -
  have "tree small_store 3 JsonNull {3}" by (rule tree_null) (simp add: small_store_def)
  from trees_more [OF this trees_none] have "trees small_store [3] [JsonNull] {3}" by simp
  then have a: "tree small_store 2 (JsonArray [JsonNull]) {2, 3}"
    by (rule tree_array [rotated]) (simp_all add: small_store_def)
  have "tree small_store 4 (JsonBool True) {4}" by (rule tree_bool) (simp add: small_store_def)
  from entries_more [OF this entries_none] have "entries small_store [(''b'', 4)] [(''b'', JsonBool True)] {4}" by simp
  from entries_more [OF a this, of "''a''"]
  have "entries small_store [(''a'', 2), (''b'', 4)] [(''a'', JsonArray [JsonNull]), (''b'', JsonBool True)] {2, 3, 4}"
    by (simp add: insert_commute)
  then show "tree small_store 1 (JsonObject [(''a'', JsonArray [JsonNull]), (''b'', JsonBool True)]) {1, 2, 3, 4}"
    by (rule tree_object [rotated]) (simp_all add: small_store_def)
  show "tree small_store 5 (JsonString ''new'') {5}" by (rule tree_string) (simp add: small_store_def)
qed

theorem object_set_replaces_property_witness:
  "\<exists>mem' H. absolute_json_object_set small_store (Some 1) (Some ''a'') (Some 5) = Some mem' \<and>
     tree mem' 1 (JsonObject [(''a'', JsonString ''new''), (''b'', JsonBool True)]) H \<and>
     H = {a \<in> {1, 2, 3, 4} \<union> {5}. mem' a \<noteq> None}"
proof -
  have c: "c_str ''a'' = ''a''" by (simp add: c_str_def)
  show ?thesis
    using object_set_replaces_property [OF small_tree, of "''a''"] by (simp add: c) blast
qed

text \<open>Adding to an array makes the item its last element.\<close>

lemma trees_snoc:
  assumes "trees mem ps js F" and "tree mem q x G" and "F \<inter> G = {}"
  shows "trees mem (ps @ [q]) (js @ [x]) (F \<union> G)"
  using assms
proof (induction ps arbitrary: js F)
  case Nil
  then show ?case using trees_more [OF assms(2) trees_none] by (auto elim: trees.cases)
next
  case (Cons p ps)
  from Cons.prems(1) obtain j js' Fp F' where e: "js = j # js'" "F = Fp \<union> F'" "tree mem p j Fp" "trees mem ps js' F'"
    "Fp \<inter> F' = {}" by (auto elim: trees.cases)
  have "trees mem (ps @ [q]) (js' @ [x]) (F' \<union> G)" using e Cons.prems by (intro Cons.IH) auto
  then have "trees mem (p # ps @ [q]) (j # js' @ [x]) (Fp \<union> (F' \<union> G))"
    using e Cons.prems(3) by (intro trees_more) auto
  then show ?case using e by (simp add: Un_assoc)
qed

lemma array_add_appends:
  assumes "tree mem p (JsonArray js) F" and "tree mem q x G" and "F \<inter> G = {}"
  shows "\<exists>mem'. absolute_json_array_add mem (Some p) (Some q) = Some mem' \<and>
    tree mem' p (JsonArray (js @ [x])) (F \<union> G) \<and> (\<forall>a. a \<noteq> p \<longrightarrow> mem' a = mem a)"
proof -
  from assms(1) obtain ps F' where o: "mem p = Some (CArray ps)" "trees mem ps js F'" "p \<notin> F'" "F = insert p F'"
    by (elim tree_arrayE)
  let ?m = "mem(p \<mapsto> CArray (ps @ [q]))"
  have "F' \<inter> G = {}" using assms(3) o(4) by auto
  note t = trees_snoc [OF o(2) assms(2) this]
  have "\<forall>a \<in> F' \<union> G. ?m a = mem a" using assms(3) o(3,4) by auto
  with tree_frame(2) [OF t, of ?m] have "trees ?m (ps @ [q]) (js @ [x]) (F' \<union> G)" ..
  then have "tree ?m p (JsonArray (js @ [x])) (insert p (F' \<union> G))"
    using o(3,4) assms(3) by (intro tree_array) auto
  then show ?thesis using o(1,4) by (intro exI [of _ ?m]) (simp add: absolute_json_array_add_def)
qed

text \<open>
  Setting a property to the node that it already has deletes the node and leaves the property
  pointing to it.
\<close>

lemma setting_property_to_itself_dangles:
  "map_option (\<lambda>mem'. (mem' 1, mem' 4)) (absolute_json_object_set small_store (Some 1) (Some ''b'') (Some 4)) =
     Some (Some (CObject [(''a'', 2), (''b'', 4)]), None)"
  "Option.bind (absolute_json_object_set small_store (Some 1) (Some ''b'') (Some 4)) (\<lambda>mem'.
     absolute_json_get_type mem' (Some 4)) = None"
  by code_simp+

end
