(* ===== verification/Text.thy ===== *)
theory Text
  imports Prelude
begin

text \<open>
  Strings of the runtime (\<^verbatim>\<open>Absolute-Runtime/src/string.cpp\<close>): UTF-8 and its code points, slices,
  searching and replacing, the case of letters, string builders, and the storage with its reference
  counts. A text is the list of the bytes before its terminator, a null pointer is \<open>None\<close>, and the
  pointer that walks over a text is the text that is left. Texts are shorter than \<open>2 ^ 31\<close> bytes, so
  that the counts of the code, which are 32-bit, do not overflow; allocation does not fail.
\<close>

section \<open>UTF-8\<close>

definition continuation :: "string \<Rightarrow> bool" where
  "continuation s \<longleftrightarrow> s \<noteq> [] \<and> byte_of (hd s) div 64 = 2"

definition low_bits :: "string \<Rightarrow> nat" where
  "low_bits s = byte_of (hd s) mod 64"

definition DecodeUtf8 :: "string \<Rightarrow> nat \<times> string" where
  "DecodeUtf8 s =
     (case s of
        [] \<Rightarrow> (0, [])
      | ch # p0 \<Rightarrow>
          (let c = byte_of ch in
           if c < 0x80 then (c, p0)
           else if c div 32 = 6 then
             (let cp = (c mod 32) * 64 in
              if continuation p0 then (cp + low_bits p0, tl p0) else (cp, p0))
           else if c div 16 = 14 then
             (let cp = (c mod 16) * 4096 in
              if continuation p0 then
                (let cp = cp + low_bits p0 * 64; p1 = tl p0 in
                 if continuation p1 then (cp + low_bits p1, tl p1) else (cp, p1))
              else (cp, p0))
           else if c div 8 = 30 then
             (let cp = (c mod 8) * 262144 in
              if continuation p0 then
                (let cp = cp + low_bits p0 * 4096; p1 = tl p0 in
                 if continuation p1 then
                   (let cp = cp + low_bits p1 * 64; p2 = tl p1 in
                    if continuation p2 then (cp + low_bits p2, tl p2) else (cp, p2))
                 else (cp, p1))
              else (cp, p0))
           else (c, p0)))"

definition EncodeUtf8 :: "nat \<Rightarrow> string" where
  "EncodeUtf8 cp =
     (if cp \<le> 0x7F then [char_of cp]
      else if cp \<le> 0x7FF then [char_of (0xC0 + (cp div 64) mod 32), char_of (0x80 + cp mod 64)]
      else if cp \<le> 0xFFFF then
        [char_of (0xE0 + (cp div 4096) mod 16), char_of (0x80 + (cp div 64) mod 64), char_of (0x80 + cp mod 64)]
      else if cp \<le> 0x10FFFF then
        [char_of (0xF0 + (cp div 262144) mod 8), char_of (0x80 + (cp div 4096) mod 64),
         char_of (0x80 + (cp div 64) mod 64), char_of (0x80 + cp mod 64)]
      else [])"

lemma DecodeUtf8_shorter: "s \<noteq> [] \<Longrightarrow> length (snd (DecodeUtf8 s)) < length s"
  by (cases s) (auto simp: DecodeUtf8_def Let_def continuation_def less_Suc_eq_le)

text \<open>The loops over a text, by the code points they decode.\<close>

function code_points :: "string \<Rightarrow> nat list" where
  "code_points s = (if s = [] then [] else (case DecodeUtf8 s of (cp, p) \<Rightarrow> cp # code_points p))"
  by pat_completeness auto
termination
  by (relation "measure length") (auto, metis DecodeUtf8_shorter snd_conv)

declare code_points.simps [simp del]

text \<open>What is left of a text when the loop of \<open>ByteOffsetForCodePoint\<close> ends.\<close>

fun after_points :: "nat \<Rightarrow> string \<Rightarrow> string" where
  "after_points 0 s = s"
| "after_points (Suc n) s = (if s = [] then [] else after_points n (snd (DecodeUtf8 s)))"

definition ByteOffsetForCodePoint :: "string option \<Rightarrow> int \<Rightarrow> nat" where
  "ByteOffsetForCodePoint text index =
     (case text of
        None \<Rightarrow> 0
      | Some s \<Rightarrow> if index \<le> 0 then 0 else length s - length (after_points (nat index) s))"

text \<open>The loop of \<open>CodePointIndexForByteOffset\<close>, with the bytes that are left before the offset.\<close>

function points_before :: "string \<Rightarrow> nat \<Rightarrow> nat" where
  "points_before s left =
     (if s = [] \<or> left = 0 then 0
      else (let p = snd (DecodeUtf8 s) in Suc (points_before p (left - (length s - length p)))))"
  by pat_completeness auto
termination
  by (relation "measure (\<lambda>(s, left). length s)") (auto simp: DecodeUtf8_shorter)

declare points_before.simps [simp del]

definition CodePointIndexForByteOffset :: "string option \<Rightarrow> nat \<Rightarrow> nat" where
  "CodePointIndexForByteOffset text byteOffset =
     (case text of None \<Rightarrow> 0 | Some s \<Rightarrow> if byteOffset = 0 then 0 else points_before s byteOffset)"

text \<open>A durable copy is read up to its first null byte.\<close>

definition DurableCopy :: "string \<Rightarrow> string" where
  "DurableCopy value = c_str value"

definition absolute_string_code_point_count :: "string option \<Rightarrow> int" where
  "absolute_string_code_point_count text = (case text of None \<Rightarrow> 0 | Some s \<Rightarrow> int (length (code_points s)))"

definition absolute_string_utf8_byte_count :: "string option \<Rightarrow> int" where
  "absolute_string_utf8_byte_count text = (case text of None \<Rightarrow> 0 | Some s \<Rightarrow> int (length s))"

text \<open>The output buffer is \<open>None\<close> if it is null, and what is copied into it otherwise.\<close>

definition absolute_string_utf8_copy :: "string option \<Rightarrow> bool \<Rightarrow> int \<Rightarrow> int \<times> string" where
  "absolute_string_utf8_copy text output capacity =
     (let s = (case text of None \<Rightarrow> [] | Some s \<Rightarrow> s) in
      if capacity < 0 \<or> int (length s) > capacity \<or> (\<not> output \<and> length s \<noteq> 0) then (- 1, [])
      else (int (length s), s))"

definition absolute_string_code_point_at :: "string option \<Rightarrow> int \<Rightarrow> int" where
  "absolute_string_code_point_at text index =
     (case text of
        None \<Rightarrow> - 1
      | Some s \<Rightarrow>
          if index < 0 then - 1
          else if nat index < length (code_points s) then int (code_points s ! nat index) else - 1)"

definition absolute_string_from_code_point :: "int \<Rightarrow> string" where
  "absolute_string_from_code_point codePoint =
     (if codePoint < 0 then DurableCopy [] else DurableCopy (EncodeUtf8 (nat codePoint)))"

section \<open>Letters, spaces and parts\<close>

definition ToUpperCodePoint :: "nat \<Rightarrow> nat" where
  "ToUpperCodePoint cp =
     (if 97 \<le> cp \<and> cp \<le> 122 then cp - 32
      else if 0x0430 \<le> cp \<and> cp \<le> 0x044F then cp - 32
      else if cp = 0x0451 then 0x0401 else cp)"

definition ToLowerCodePoint :: "nat \<Rightarrow> nat" where
  "ToLowerCodePoint cp =
     (if 65 \<le> cp \<and> cp \<le> 90 then cp + 32
      else if 0x0410 \<le> cp \<and> cp \<le> 0x042F then cp + 32
      else if cp = 0x0401 then 0x0451 else cp)"

definition absolute_string_to_upper :: "string option \<Rightarrow> string" where
  "absolute_string_to_upper text =
     (case text of
        None \<Rightarrow> DurableCopy []
      | Some s \<Rightarrow> DurableCopy (concat (map (\<lambda>cp. EncodeUtf8 (ToUpperCodePoint cp)) (code_points s))))"

definition absolute_string_to_lower :: "string option \<Rightarrow> string" where
  "absolute_string_to_lower text =
     (case text of
        None \<Rightarrow> DurableCopy []
      | Some s \<Rightarrow> DurableCopy (concat (map (\<lambda>cp. EncodeUtf8 (ToLowerCodePoint cp)) (code_points s))))"

definition blank_char :: "char \<Rightarrow> bool" where
  "blank_char c \<longleftrightarrow> c = CHR '' '' \<or> c = CHR 0x09 \<or> c = CHR 0x0D \<or> c = CHR 0x0A"

definition find_first_not_of :: "string \<Rightarrow> nat option" where
  "find_first_not_of s = (case dropWhile blank_char s of [] \<Rightarrow> None | r \<Rightarrow> Some (length s - length r))"

definition find_last_not_of :: "string \<Rightarrow> nat option" where
  "find_last_not_of s = (case dropWhile blank_char (rev s) of [] \<Rightarrow> None | r \<Rightarrow> Some (length r - 1))"

definition absolute_string_trim :: "string option \<Rightarrow> string" where
  "absolute_string_trim text =
     (case text of
        None \<Rightarrow> DurableCopy []
      | Some s \<Rightarrow>
          if s = [] then DurableCopy []
          else (case find_first_not_of s of
                  None \<Rightarrow> DurableCopy []
                | Some start \<Rightarrow>
                    (let stop = the (find_last_not_of s) in DurableCopy (take (stop - start + 1) (drop start s)))))"

definition absolute_string_trim_start :: "string option \<Rightarrow> string" where
  "absolute_string_trim_start text =
     (case text of
        None \<Rightarrow> DurableCopy []
      | Some s \<Rightarrow>
          if s = [] then DurableCopy []
          else (case find_first_not_of s of None \<Rightarrow> DurableCopy [] | Some start \<Rightarrow> DurableCopy (drop start s)))"

definition absolute_string_trim_end :: "string option \<Rightarrow> string" where
  "absolute_string_trim_end text =
     (case text of
        None \<Rightarrow> DurableCopy []
      | Some s \<Rightarrow>
          if s = [] then DurableCopy []
          else (case find_last_not_of s of None \<Rightarrow> DurableCopy [] | Some stop \<Rightarrow> DurableCopy (take (stop + 1) s)))"

definition absolute_string_substring :: "string option \<Rightarrow> int \<Rightarrow> int \<Rightarrow> string" where
  "absolute_string_substring text start length' =
     (case text of
        None \<Rightarrow> DurableCopy []
      | Some s \<Rightarrow>
          if start < 0 \<or> length' \<le> 0 then DurableCopy []
          else
            (let codePoints = absolute_string_code_point_count text in
             if start \<ge> codePoints then DurableCopy []
             else
               (let remaining = codePoints - start;
                    endIndex = (if length' > remaining then codePoints else start + length');
                    startByte = ByteOffsetForCodePoint text start;
                    endByte = ByteOffsetForCodePoint text endIndex
                in DurableCopy (take (endByte - startByte) (drop startByte s)))))"

section \<open>Searching and replacing\<close>

definition absolute_string_starts_with :: "string option \<Rightarrow> string option \<Rightarrow> int" where
  "absolute_string_starts_with text prefix =
     (case (text, prefix) of
        (Some s, Some p) \<Rightarrow> if length p > length s then 0 else if take (length p) s = p then 1 else 0
      | _ \<Rightarrow> 0)"

definition absolute_string_ends_with :: "string option \<Rightarrow> string option \<Rightarrow> int" where
  "absolute_string_ends_with text suffix =
     (case (text, suffix) of
        (Some s, Some p) \<Rightarrow>
          if length p > length s then 0 else if drop (length s - length p) s = p then 1 else 0
      | _ \<Rightarrow> 0)"

text \<open>\<open>std::string::find\<close> from a position, and \<open>strstr\<close>, which is the same from the start.\<close>

fun find_in :: "string \<Rightarrow> string \<Rightarrow> nat option" where
  "find_in sub [] = (if sub = [] then Some 0 else None)"
| "find_in sub (c # s) = (if starts_with (c # s) sub then Some 0 else map_option Suc (find_in sub s))"

definition find_from :: "string \<Rightarrow> string \<Rightarrow> nat \<Rightarrow> nat option" where
  "find_from s sub pos = map_option (\<lambda>k. pos + k) (if pos \<le> length s then find_in sub (drop pos s) else None)"

fun rfind_in :: "string \<Rightarrow> string \<Rightarrow> nat option" where
  "rfind_in sub [] = (if sub = [] then Some 0 else None)"
| "rfind_in sub (c # s) =
     (case rfind_in sub s of Some k \<Rightarrow> Some (Suc k) | None \<Rightarrow> if starts_with (c # s) sub then Some 0 else None)"

definition absolute_string_contains :: "string option \<Rightarrow> string option \<Rightarrow> int" where
  "absolute_string_contains text sub =
     (case (text, sub) of (Some s, Some p) \<Rightarrow> if find_in p s \<noteq> None then 1 else 0 | _ \<Rightarrow> 0)"

definition absolute_string_index_of :: "string option \<Rightarrow> string option \<Rightarrow> int" where
  "absolute_string_index_of text sub =
     (case (text, sub) of
        (Some s, Some p) \<Rightarrow>
          (case find_in p s of None \<Rightarrow> - 1 | Some pos \<Rightarrow> int (CodePointIndexForByteOffset text pos))
      | _ \<Rightarrow> - 1)"

definition absolute_string_last_index_of :: "string option \<Rightarrow> string option \<Rightarrow> int" where
  "absolute_string_last_index_of text sub =
     (case (text, sub) of
        (Some s, Some p) \<Rightarrow>
          if p = [] then - 1
          else (case rfind_in p s of None \<Rightarrow> - 1 | Some pos \<Rightarrow> int (CodePointIndexForByteOffset text pos))
      | _ \<Rightarrow> - 1)"

text \<open>
  The loop of \<open>absolute_string_replace\<close>: the text is changed in place. The caller has checked that the text
  to replace is not empty.
\<close>

lemma find_in_bound: "find_in sub s = Some k \<Longrightarrow> k + length sub \<le> length s"
proof (induction sub s arbitrary: k rule: find_in.induct)
  case (2 sub c s)
  show ?case
  proof (cases "starts_with (c # s) sub")
    case True
    with 2(2) show ?thesis by (auto simp: starts_with_def) (metis length_Cons length_take min.cobounded1)
  next
    case False
    with 2 show ?thesis by (auto split: if_splits)
  qed
qed (auto split: if_splits)

lemma find_from_bound: "find_from s sub pos = Some k \<Longrightarrow> pos \<le> k \<and> k + length sub \<le> length s"
  by (auto simp: find_from_def split: if_splits dest!: find_in_bound)

function replace_loop :: "string \<Rightarrow> string \<Rightarrow> string \<Rightarrow> nat \<Rightarrow> string" where
  "replace_loop fromStr toStr str pos =
     (if fromStr = [] then str
      else case find_from str fromStr pos of
        None \<Rightarrow> str
      | Some pos \<Rightarrow>
          replace_loop fromStr toStr (take pos str @ toStr @ drop (pos + length fromStr) str) (pos + length toStr))"
  by pat_completeness auto
termination
proof (relation "measure (\<lambda>(f, t, s, p). length s - p)", goal_cases)
  case (2 fromStr toStr str pos k)
  then show ?case using find_from_bound [OF 2(2)] by (cases fromStr) (auto simp: min_absorb2)
qed auto

declare replace_loop.simps [simp del]

definition absolute_string_replace :: "string option \<Rightarrow> string option \<Rightarrow> string option \<Rightarrow> string" where
  "absolute_string_replace text fromText toText =
     (case text of
        None \<Rightarrow> DurableCopy []
      | Some str \<Rightarrow>
          (case fromText of
             None \<Rightarrow> str
           | Some fromStr \<Rightarrow>
               if fromStr = [] then str
               else DurableCopy (replace_loop fromStr (case toText of None \<Rightarrow> [] | Some t \<Rightarrow> t) str 0)))"

definition absolute_string_concat :: "string option \<Rightarrow> string option \<Rightarrow> string" where
  "absolute_string_concat a b =
     DurableCopy ((case a of None \<Rightarrow> [] | Some s \<Rightarrow> s) @ (case b of None \<Rightarrow> [] | Some s \<Rightarrow> s))"

section \<open>String builders\<close>

text \<open>
  A builder is its text, which may hold null bytes; \<open>number_text\<close> is what \<^verbatim>\<open>%g\<close> prints for a double. A
  null handle is \<open>None\<close>.
\<close>

definition absolute_string_builder_append :: "string option \<Rightarrow> string option \<Rightarrow> string option" where
  "absolute_string_builder_append handle text =
     (case (handle, text) of (Some b, Some s) \<Rightarrow> Some (b @ s) | _ \<Rightarrow> handle)"

definition absolute_string_builder_append_char :: "string option \<Rightarrow> int \<Rightarrow> string option" where
  "absolute_string_builder_append_char handle codePoint =
     (if codePoint \<ge> 0 then map_option (\<lambda>b. b @ EncodeUtf8 (nat codePoint)) handle else handle)"

definition absolute_string_builder_append_int :: "string option \<Rightarrow> int \<Rightarrow> string option" where
  "absolute_string_builder_append_int handle value' = map_option (\<lambda>b. b @ int_to_string value') handle"

definition absolute_string_builder_append_double :: "('d \<Rightarrow> string) \<Rightarrow> string option \<Rightarrow> 'd \<Rightarrow> string option" where
  "absolute_string_builder_append_double number_text handle value' = map_option (\<lambda>b. b @ take 63 (number_text value')) handle"

definition absolute_string_builder_append_bool :: "string option \<Rightarrow> int \<Rightarrow> string option" where
  "absolute_string_builder_append_bool handle value' =
     map_option (\<lambda>b. b @ (if value' \<noteq> 0 then ''true'' else ''false'')) handle"

definition absolute_string_builder_clear :: "string option \<Rightarrow> string option" where
  "absolute_string_builder_clear handle = map_option (\<lambda>b. []) handle"

definition absolute_string_builder_length :: "string option \<Rightarrow> int" where
  "absolute_string_builder_length handle =
     (case handle of None \<Rightarrow> 0 | Some b \<Rightarrow> absolute_string_code_point_count (Some (c_str b)))"

definition absolute_string_builder_to_string :: "string option \<Rightarrow> string" where
  "absolute_string_builder_to_string handle = DurableCopy (case handle of None \<Rightarrow> [] | Some b \<Rightarrow> b)"

section \<open>Storage\<close>

text \<open>
  The words before the first byte of a text: a magic word and a count of holders. The memory maps the
  address of a text to them, and to nothing where there is no such memory or it has been freed. An
  operation that reads them there has no result.
\<close>

type_synonym string_memory = "nat \<rightharpoonup> u32 \<times> u32"

definition StringMagic :: u32 where "StringMagic = 0x41425331"
definition StringStatic :: u32 where "StringStatic = 0xFFFFFFFF"

text \<open>The outer option is whether the words can be read, the inner one is the count of a string of the language.\<close>

definition HeaderOf :: "string_memory \<Rightarrow> nat \<Rightarrow> u32 option option" where
  "HeaderOf mem text =
     (if text = 0 then Some None
      else case mem text of
        None \<Rightarrow> None
      | Some (magic, refs) \<Rightarrow> Some (if magic = StringMagic then Some refs else None))"

text \<open>The address of the text in the new block is an argument.\<close>

definition absolute_string_alloc :: "nat \<Rightarrow> string_memory \<Rightarrow> string_memory" where
  "absolute_string_alloc text mem = mem(text \<mapsto> (StringMagic, 1))"

definition absolute_string_retain :: "string_memory \<Rightarrow> nat \<Rightarrow> string_memory option" where
  "absolute_string_retain mem text =
     (case HeaderOf mem text of
        None \<Rightarrow> None
      | Some None \<Rightarrow> Some mem
      | Some (Some refs) \<Rightarrow> Some (if refs \<noteq> StringStatic then mem(text \<mapsto> (StringMagic, refs + 1)) else mem))"

definition absolute_string_release :: "string_memory \<Rightarrow> nat \<Rightarrow> string_memory option" where
  "absolute_string_release mem text =
     (case HeaderOf mem text of
        None \<Rightarrow> None
      | Some None \<Rightarrow> Some mem
      | Some (Some refs) \<Rightarrow>
          if refs = StringStatic then Some mem
          else if refs \<noteq> 1 then Some (mem(text \<mapsto> (StringMagic, refs - 1)))
          else Some (mem(text := None)))"

definition absolute_string_adopt_static :: "string_memory \<Rightarrow> nat \<Rightarrow> string_memory option" where
  "absolute_string_adopt_static mem text =
     (case HeaderOf mem text of
        None \<Rightarrow> None
      | Some None \<Rightarrow> Some mem
      | Some (Some refs) \<Rightarrow> Some (mem(text \<mapsto> (StringMagic, StringStatic))))"

end
