(* ===== verification/Text_Rules.thy ===== *)
theory Text_Rules
  imports Text
begin

text \<open>
  What the operations on strings do to code points: UTF-8 is decoded as it was encoded, slices are
  slices of the code points, and a search of bytes finds code points.
\<close>

section \<open>Encoding and decoding\<close>

lemma byte_of_char: "n < 256 \<Longrightarrow> byte_of (char_of n) = n"
  by (simp add: byte_of_def)

lemma digits_64: "(a + b * 64) div 64 = b" "(a + b * 64) mod 64 = a" if "a < 64" for a b :: nat
  using that by auto

lemma lead_byte: "x < m \<Longrightarrow> (k * m + x) div m = k \<and> (k * m + x) mod m = (x::nat)"
  by simp

lemma tail_byte: "continuation (char_of (0x80 + n mod 64) # s)" "low_bits (char_of (0x80 + n mod 64) # s) = n mod 64"
proof -
  have "n mod 64 < 64" "(128 + n mod 64) div 64 = 2" "(128 + n mod 64) mod 64 = n mod 64"
    using lead_byte [of "n mod 64" 64 2] by simp_all
  then show "continuation (char_of (0x80 + n mod 64) # s)" "low_bits (char_of (0x80 + n mod 64) # s) = n mod 64"
    by (auto simp: continuation_def low_bits_def byte_of_char)
qed

lemma lead_2: "x < 32 \<Longrightarrow> byte_of (char_of (0xC0 + x)) = 0xC0 + x \<and> (0xC0 + x) div 32 = 6 \<and> (0xC0 + x) mod 32 = x"
  using lead_byte [of x 32 6] by (simp add: byte_of_char)

lemma lead_3: "x < 16 \<Longrightarrow> byte_of (char_of (0xE0 + x)) = 0xE0 + x \<and> (0xE0 + x) div 32 = 7 \<and> (0xE0 + x) div 16 = 14 \<and> (0xE0 + x) mod 16 = x"
  using lead_byte [of x 16 14] lead_byte [of x 32 7] by (simp add: byte_of_char)

lemma lead_4: "x < 8 \<Longrightarrow> byte_of (char_of (0xF0 + x)) = 0xF0 + x \<and> (0xF0 + x) div 32 = 7 \<and> (0xF0 + x) div 16 = 15 \<and>
    (0xF0 + x) div 8 = 30 \<and> (0xF0 + x) mod 8 = x"
  using lead_byte [of x 8 30] lead_byte [of x 16 15] lead_byte [of "16 + x" 32 7] by (simp add: byte_of_char)

lemma split_64: "n div 64 * 64 + n mod 64 = (n::nat)"
  by simp

lemma split_4096: "n div 4096 * 64 + n div 64 mod 64 = n div (64::nat)"
  using div_mult_mod_eq [of "n div 64" 64] by (simp add: div_mult2_eq [symmetric])

lemma split_262144: "n div 262144 * 64 + n div 4096 mod 64 = n div (4096::nat)"
  using div_mult_mod_eq [of "n div 4096" 64] by (simp add: div_mult2_eq [symmetric])

lemma decode_encode:
  assumes "cp \<le> 0x10FFFF"
  shows "DecodeUtf8 (EncodeUtf8 cp @ rest) = (cp, rest)"
proof -
  consider "cp \<le> 0x7F" | "0x7F < cp" "cp \<le> 0x7FF" | "0x7FF < cp" "cp \<le> 0xFFFF" | "0xFFFF < cp" "cp \<le> 0x10FFFF"
    using assms by linarith
  then show ?thesis
  proof cases
    case 1
    then show ?thesis by (simp add: EncodeUtf8_def DecodeUtf8_def byte_of_char)
  next
    case 2
    then have e: "cp div 64 mod 32 = cp div 64" and "cp div 64 < 32" by auto
    with lead_2 [of "cp div 64"] 2 split_64 [of cp] show ?thesis
      by (simp add: EncodeUtf8_def DecodeUtf8_def tail_byte Let_def)
  next
    case 3
    then have e: "cp div 4096 mod 16 = cp div 4096" and l: "cp div 4096 < 16" by auto
    have "cp div 4096 * 4096 + cp div 64 mod 64 * 64 + cp mod 64 = cp"
      using split_64 [of cp] split_4096 [of cp] by linarith
    with e l lead_3 [of "cp div 4096"] 3 show ?thesis
      by (simp add: EncodeUtf8_def DecodeUtf8_def tail_byte Let_def)
  next
    case 4
    then have e: "cp div 262144 mod 8 = cp div 262144" and l: "cp div 262144 < 8" by auto
    have "cp div 262144 * 262144 + cp div 4096 mod 64 * 4096 + cp div 64 mod 64 * 64 + cp mod 64 = cp"
      using split_64 [of cp] split_4096 [of cp] split_262144 [of cp] by linarith
    with e l lead_4 [of "cp div 262144"] 4 show ?thesis
      by (simp add: EncodeUtf8_def DecodeUtf8_def tail_byte Let_def)
  qed
qed

lemma EncodeUtf8_not_Nil: "cp \<le> 0x10FFFF \<Longrightarrow> EncodeUtf8 cp \<noteq> []"
  by (simp add: EncodeUtf8_def)

lemma code_points_Nil [simp]: "code_points [] = []"
  by (simp add: code_points.simps)

lemma code_points_encode: "cp \<le> 0x10FFFF \<Longrightarrow> code_points (EncodeUtf8 cp @ rest) = cp # code_points rest"
  by (subst code_points.simps) (simp add: EncodeUtf8_not_Nil decode_encode)

definition encoded :: "nat list \<Rightarrow> string" where
  "encoded cps = concat (map EncodeUtf8 cps)"

definition scalars :: "nat list \<Rightarrow> bool" where
  "scalars cps \<longleftrightarrow> list_all (\<lambda>cp. 0 < cp \<and> cp \<le> 0x10FFFF) cps"

lemma encoded_simps [simp]: "encoded [] = []" "encoded (cp # cps) = EncodeUtf8 cp @ encoded cps"
  by (simp_all add: encoded_def)

lemma scalars_simps [simp]: "scalars []" "scalars (cp # cps) \<longleftrightarrow> 0 < cp \<and> cp \<le> 0x10FFFF \<and> scalars cps"
  by (simp_all add: scalars_def)

lemma code_points_encoded: "scalars cps \<Longrightarrow> code_points (encoded cps) = cps"
  by (induction cps) (simp_all add: code_points_encode)

lemma char_of_zero_iff: "n < (256::nat) \<Longrightarrow> char_of n = CHR 0x00 \<longleftrightarrow> n = 0"
  using byte_of_char [of n] byte_of_inj [of "char_of n" "CHR 0x00"] by (simp add: byte_of_def)

lemma EncodeUtf8_no_null: "0 < cp \<Longrightarrow> CHR 0x00 \<notin> set (EncodeUtf8 cp)"
proof -
  assume "0 < cp"
  moreover have "cp div 64 mod 32 < 32" "cp mod 64 < 64" "cp div 4096 mod 16 < 16" "cp div 64 mod 64 < 64"
    "cp div 4096 mod 64 < 64" "cp div 262144 mod 8 < 8" by simp_all
  ultimately show ?thesis
    by (auto simp: EncodeUtf8_def char_of_zero_iff eq_commute [of "CHR 0x00"])
qed

lemma encoded_no_null: "scalars cps \<Longrightarrow> CHR 0x00 \<notin> set (encoded cps)"
  by (induction cps) (auto simp: EncodeUtf8_no_null)

lemma DurableCopy_text: "CHR 0x00 \<notin> set s \<Longrightarrow> DurableCopy s = s"
  by (simp add: DurableCopy_def c_str_text)

text \<open>
  UTF-8 is decoded as it was encoded: for code points up to \<open>0x10FFFF\<close>, null excepted, the text of
  their encodings has these code points, their count, and each of them at its index; and the text of
  one code point is that code point's.
\<close>
theorem utf8_roundtrip:
  assumes "scalars cps" and "i < length cps"
  shows "code_points (encoded cps) = cps \<and>
    absolute_string_code_point_count (Some (encoded cps)) = int (length cps) \<and>
    absolute_string_code_point_at (Some (encoded cps)) (int i) = int (cps ! i) \<and>
    absolute_string_from_code_point (int (cps ! i)) = encoded [cps ! i]"
proof -
  have "0 < cps ! i" using assms by (auto simp: scalars_def list_all_length)
  then have "absolute_string_from_code_point (int (cps ! i)) = encoded [cps ! i]"
    by (simp add: absolute_string_from_code_point_def DurableCopy_text EncodeUtf8_no_null)
  then show ?thesis using assms
    by (simp add: code_points_encoded absolute_string_code_point_count_def absolute_string_code_point_at_def)
qed

theorem utf8_roundtrip_witness:
  "code_points (encoded [65, 0x416, 0x20AC, 0x1F600]) = [65, 0x416, 0x20AC, 0x1F600] \<and>
   absolute_string_code_point_at (Some (encoded [65, 0x416, 0x20AC, 0x1F600])) (int 3) = int ([65, 0x416, 0x20AC, 0x1F600] ! 3)"
  using utf8_roundtrip [of "[65, 0x416, 0x20AC, 0x1F600]" 3] by simp

section \<open>Slices\<close>

lemma continuation_simps [simp]:
  "\<not> continuation []" "continuation (a # s) \<longleftrightarrow> byte_of a div 64 = 2" "low_bits (a # s) = byte_of a mod 64"
  by (simp_all add: continuation_def low_bits_def)

text \<open>The first code point of a text depends on its bytes, and on whether a byte of a sequence follows.\<close>

definition first_is :: "string \<Rightarrow> string \<Rightarrow> nat \<Rightarrow> string \<Rightarrow> bool" where
  "first_is s u cp r \<longleftrightarrow> s = u @ r \<and> u \<noteq> [] \<and> DecodeUtf8 s = (cp, r) \<and>
     (\<forall>r'. (continuation r' \<longrightarrow> continuation r) \<longrightarrow> DecodeUtf8 (u @ r') = (cp, r'))"

lemma first_split:
  assumes "s \<noteq> []"
  shows "\<exists>u. first_is s u (fst (DecodeUtf8 s)) (snd (DecodeUtf8 s))"
proof -
  obtain ch p where s: "s = ch # p" using assms by (cases s) auto
  let ?c = "byte_of ch"
  consider "?c < 0x80 \<or> ?c div 32 \<noteq> 6 \<and> ?c div 16 \<noteq> 14 \<and> ?c div 8 \<noteq> 30"
    | "\<not> ?c < 0x80" "?c div 32 = 6" | "\<not> ?c < 0x80" "?c div 32 \<noteq> 6" "?c div 16 = 14"
    | "\<not> ?c < 0x80" "?c div 32 \<noteq> 6" "?c div 16 \<noteq> 14" "?c div 8 = 30" by argo
  then show ?thesis
  proof cases
    case 1
    then have "first_is s [ch] (fst (DecodeUtf8 s)) (snd (DecodeUtf8 s))"
      by (auto simp: first_is_def s DecodeUtf8_def Let_def)
    then show ?thesis ..
  next
    case 2
    show ?thesis
      by (rule exI [of _ "ch # (if continuation p then take 1 p else [])"])
        (use 2 in \<open>cases p; auto simp: first_is_def s DecodeUtf8_def Let_def\<close>)
  next
    case 3
    show ?thesis
      by (rule exI [of _ "ch # (if continuation p then take 1 p @ (if continuation (tl p) then take 1 (tl p) else []) else [])"])
        (use 3 in \<open>cases p; cases "tl p"; auto simp: first_is_def s DecodeUtf8_def Let_def\<close>)
  next
    case 4
    show ?thesis
      by (rule exI [of _ "ch # (if continuation p then take 1 p @ (if continuation (tl p) then take 1 (tl p) @
            (if continuation (tl (tl p)) then take 1 (tl (tl p)) else []) else []) else [])"])
        (use 4 in \<open>cases p; cases "tl p"; cases "tl (tl p)"; auto simp: first_is_def s DecodeUtf8_def Let_def\<close>)
  qed
qed

lemma code_points_first:
  assumes "first_is s u cp r" and "continuation r' \<longrightarrow> continuation r"
  shows "code_points (u @ r') = cp # code_points r'"
  using assms by (subst code_points.simps) (simp add: first_is_def)

lemma first_obtains:
  assumes "s \<noteq> []"
  obtains u cp r where "first_is s u cp r" "s = u @ r" "DecodeUtf8 s = (cp, r)" "code_points s = cp # code_points r"
proof -
  obtain u where f: "first_is s u (fst (DecodeUtf8 s)) (snd (DecodeUtf8 s))"
    using first_split [OF assms] by blast
  have "s = u @ snd (DecodeUtf8 s)" using f by (simp add: first_is_def)
  moreover from code_points_first [OF f, of "snd (DecodeUtf8 s)"]
  have "code_points (u @ snd (DecodeUtf8 s)) = fst (DecodeUtf8 s) # code_points (snd (DecodeUtf8 s))" by simp
  ultimately show ?thesis using that [OF f] by simp
qed

lemma after_points_suffix: "\<exists>u. s = u @ after_points n s"
proof (induction n s rule: after_points.induct)
  case (2 n s)
  show ?case
  proof (cases "s = []")
    case False
    then obtain u cp r where "s = u @ r" "DecodeUtf8 s = (cp, r)" by (elim first_obtains)
    moreover obtain v where "r = v @ after_points n r" using 2 False calculation by auto
    ultimately show ?thesis using False by (metis after_points.simps(2) append.assoc snd_conv)
  qed simp
qed simp

lemma drop_after_points: "drop (length s - length (after_points n s)) s = after_points n s"
  using after_points_suffix [of s n] by (metis append_eq_conv_conj diff_add_inverse2 length_append)

lemma length_after_points: "length (after_points n s) \<le> length s"
  using after_points_suffix [of s n] by (metis le_add2 length_append)

lemma after_points_Nil [simp]: "after_points n [] = []"
  by (cases n) simp_all

lemma after_points_add: "after_points (m + n) s = after_points n (after_points m s)"
  by (induction m s rule: after_points.induct) simp_all

lemma code_points_after: "code_points (after_points n s) = drop n (code_points s)"
proof (induction n s rule: after_points.induct)
  case (2 n s)
  then show ?case by (cases "s = []") (simp, elim first_obtains, simp)
qed simp

lemma code_points_before: "code_points (take (length s - length (after_points n s)) s) = take n (code_points s)"
proof (induction n s rule: after_points.induct)
  case (2 n s)
  show ?case
  proof (cases "s = []")
    case False
    then obtain u cp r where f: "first_is s u cp r" and s: "s = u @ r" "DecodeUtf8 s = (cp, r)"
      "code_points s = cp # code_points r" by (elim first_obtains)
    let ?k = "length r - length (after_points n r)"
    have "length s - length (after_points (Suc n) s) = length u + ?k"
      using False s length_after_points [of n r] by simp
    then have "take (length s - length (after_points (Suc n) s)) s = u @ take ?k r" by (simp add: s)
    moreover have "continuation (take ?k r) \<longrightarrow> continuation r" by (auto simp: continuation_def hd_take)
    ultimately show ?thesis using code_points_first [OF f] 2 False s by simp
  qed simp
qed simp

text \<open>
  C16. A slice of a text, well-formed or not, has the code points from \<open>start\<close> on, at most \<open>length\<close> of
  them.
\<close>
theorem substring_slices_code_points:
  assumes "CHR 0x00 \<notin> set s" and "0 \<le> start"
  shows "code_points (absolute_string_substring (Some s) start len) = take (nat len) (drop (nat start) (code_points s))"
proof (cases "len \<le> 0 \<or> int (length (code_points s)) \<le> start")
  case True
  then show ?thesis
    by (auto simp: absolute_string_substring_def absolute_string_code_point_count_def DurableCopy_def)
next
  case False
  define l where "l = (if len > int (length (code_points s)) - start then length (code_points s) - nat start else nat len)"
  define t where "t = after_points (nat start) s"
  have offset: "ByteOffsetForCodePoint (Some s) i = length s - length (after_points (nat i) s)" for i
    by (cases "i \<le> 0") (auto simp: ByteOffsetForCodePoint_def)
  have l: "(if len > int (length (code_points s)) - start then int (length (code_points s)) else start + len) = int (nat start + l)"
    using False assms(2) by (auto simp: l_def)
  have e: "length s - length (after_points (nat start + l) s) - (length s - length t) = length t - length (after_points l t)"
    using length_after_points [of l t] length_after_points [of "nat start" s] by (simp add: after_points_add t_def)
  have "absolute_string_substring (Some s) start len =
      DurableCopy (take (length s - length (after_points (nat start + l) s) - (length s - length t)) (drop (length s - length t) s))"
    using False assms(2) l
    by (simp add: absolute_string_substring_def absolute_string_code_point_count_def offset Let_def t_def del: of_nat_add)
  also have "\<dots> = DurableCopy (take (length t - length (after_points l t)) t)"
    unfolding e by (simp add: t_def drop_after_points)
  also have "\<dots> = take (length t - length (after_points l t)) t"
    using assms(1) drop_after_points [of s "nat start"] by (intro DurableCopy_text) (metis in_set_dropD in_set_takeD t_def)
  finally show ?thesis
    using False assms(2) by (simp add: code_points_before t_def code_points_after l_def take_all_iff [THEN iffD2])
qed

theorem substring_slices_code_points_witness:
  "code_points (absolute_string_substring (Some (CHR 0xD0 # ''abc'')) 1 2) = take (nat 2) (drop (nat 1) (code_points (CHR 0xD0 # ''abc'')))"
  by (rule substring_slices_code_points) simp_all

section \<open>Letters and spaces\<close>

lemma case_scalar: "0 < cp \<and> cp \<le> 0x10FFFF \<Longrightarrow> 0 < ToUpperCodePoint cp \<and> ToUpperCodePoint cp \<le> 0x10FFFF \<and>
    0 < ToLowerCodePoint cp \<and> ToLowerCodePoint cp \<le> 0x10FFFF"
  by (auto simp: ToUpperCodePoint_def ToLowerCodePoint_def)

text \<open>The case of a text is that of its code points, and a letter that was changed is restored.\<close>

lemma case_of_code_points:
  assumes "scalars cps"
  shows "code_points (absolute_string_to_upper (Some (encoded cps))) = map ToUpperCodePoint cps"
    and "code_points (absolute_string_to_lower (Some (encoded cps))) = map ToLowerCodePoint cps"
proof -
  have "scalars (map ToUpperCodePoint cps) \<and> scalars (map ToLowerCodePoint cps)"
    using assms case_scalar by (auto simp: scalars_def list_all_iff)
  then show "code_points (absolute_string_to_upper (Some (encoded cps))) = map ToUpperCodePoint cps"
    "code_points (absolute_string_to_lower (Some (encoded cps))) = map ToLowerCodePoint cps"
    using code_points_encoded [of "map ToUpperCodePoint cps"] code_points_encoded [of "map ToLowerCodePoint cps"]
      encoded_no_null [of "map ToUpperCodePoint cps"] encoded_no_null [of "map ToLowerCodePoint cps"] code_points_encoded [OF assms]
    by (simp_all add: absolute_string_to_upper_def absolute_string_to_lower_def DurableCopy_text encoded_def comp_def)
qed

lemma case_involution:
  "ToLowerCodePoint cp \<noteq> cp \<Longrightarrow> ToUpperCodePoint (ToLowerCodePoint cp) = cp"
  "ToUpperCodePoint cp \<noteq> cp \<Longrightarrow> ToLowerCodePoint (ToUpperCodePoint cp) = cp"
  by (auto simp: ToUpperCodePoint_def ToLowerCodePoint_def)

text \<open>An overlong encoding of the null character is written as a null byte, which ends the text.\<close>

lemma overlong_null_cuts_text: "absolute_string_to_upper (Some ([CHR 0xC0, CHR 0x80] @ ''abc'')) = []"
  by code_simp

lemma trim_ends:
  assumes "CHR 0x00 \<notin> set s"
  shows "absolute_string_trim_start (Some s) = dropWhile blank_char s"
    and "absolute_string_trim_end (Some s) = rev (dropWhile blank_char (rev s))"
proof -
  have d: "drop (length s - length (dropWhile P s)) s = dropWhile P s" for P :: "char \<Rightarrow> bool" and s
    by (metis append_eq_conv_conj diff_add_inverse2 length_append takeWhile_dropWhile_id)
  have n: "CHR 0x00 \<notin> set (dropWhile blank_char s)" "CHR 0x00 \<notin> set (rev (dropWhile blank_char (rev s)))"
    using assms by (auto dest: set_dropWhileD)
  show "absolute_string_trim_start (Some s) = dropWhile blank_char s"
    using n d [of s blank_char] by (cases "dropWhile blank_char s")
      (auto simp: absolute_string_trim_start_def find_first_not_of_def DurableCopy_text simp del: dropWhile_eq_Nil_conv)
  have "s = rev (dropWhile blank_char (rev s)) @ rev (takeWhile blank_char (rev s))"
    by (metis rev_append rev_rev_ident takeWhile_dropWhile_id)
  then have "take (length (dropWhile blank_char (rev s))) s = rev (dropWhile blank_char (rev s))"
    by (metis append_eq_conv_conj length_rev)
  then show "absolute_string_trim_end (Some s) = rev (dropWhile blank_char (rev s))"
    using n by (cases "dropWhile blank_char (rev s)")
      (auto simp: absolute_string_trim_end_def find_last_not_of_def DurableCopy_text simp del: dropWhile_eq_Nil_conv)
qed

end
