(* ===== verification/Text_Search.thy ===== *)
theory Text_Search
  imports Text_Rules
begin

text \<open>
  Searching and replacing in the strings of the runtime, against definitions on code points and on the
  text that is left; and the storage of strings, which is kept while it has holders.
\<close>

section \<open>Searching\<close>

text \<open>The first and the last position at which a list occurs in another.\<close>

definition occurs :: "'a list \<Rightarrow> 'a list \<Rightarrow> nat \<Rightarrow> bool" where
  "occurs sub xs k \<longleftrightarrow> take (length sub) (drop k xs) = sub"

definition first_occurrence :: "'a list \<Rightarrow> 'a list \<Rightarrow> nat option" where
  "first_occurrence sub xs = find (occurs sub xs) [0..<length xs]"

definition last_occurrence :: "'a list \<Rightarrow> 'a list \<Rightarrow> nat option" where
  "last_occurrence sub xs = find (occurs sub xs) (rev [0..<length xs])"

lemma occurs_starts: "occurs sub s k \<longleftrightarrow> starts_with (drop k s) sub"
  by (simp add: occurs_def starts_with_def)

lemma occurs_bound: "occurs sub xs k \<Longrightarrow> sub \<noteq> [] \<Longrightarrow> k < length xs"
  by (rule ccontr) (simp add: occurs_def)

lemma find_in_spec:
  "case find_in sub s of
     None \<Rightarrow> \<forall>k. k \<le> length s \<longrightarrow> \<not> occurs sub s k
   | Some p \<Rightarrow> occurs sub s p \<and> (\<forall>k<p. \<not> occurs sub s k)"
proof (induction sub s rule: find_in.induct)
  case (2 sub c s)
  show ?case
  proof (cases "occurs sub (c # s) 0")
    case False
    then have e: "(\<forall>k\<le>Suc n. \<not> occurs sub (c # s) k) \<longleftrightarrow> (\<forall>k\<le>n. \<not> occurs sub s k)" for n
      by (simp add: occurs_def flip: less_Suc_eq_le) (auto simp: All_less_Suc2)
    from False have l: "(\<forall>k<Suc n. \<not> occurs sub (c # s) k) \<longleftrightarrow> (\<forall>k<n. \<not> occurs sub s k)" for n
      by (simp add: occurs_def All_less_Suc2)
    have "find_in sub (c # s) = map_option Suc (find_in sub s)" using False by (simp add: occurs_starts)
    then show ?thesis using 2 False e l by (simp add: occurs_starts split: option.splits)
  qed (simp add: occurs_starts)
qed (simp add: occurs_def)

lemma rfind_in_spec:
  "case rfind_in sub s of
     None \<Rightarrow> \<forall>k. k \<le> length s \<longrightarrow> \<not> occurs sub s k
   | Some p \<Rightarrow> occurs sub s p \<and> (\<forall>k. p < k \<and> k \<le> length s \<longrightarrow> \<not> occurs sub s k)"
proof (induction sub s rule: rfind_in.induct)
  case (2 sub c s)
  have o: "occurs sub (c # s) (Suc k) \<longleftrightarrow> occurs sub s k" for k by (simp add: occurs_def)
  show ?case
  proof (cases "rfind_in sub s")
    case None
    with 2 have n: "\<forall>k. k \<le> length s \<longrightarrow> \<not> occurs sub s k" by simp
    have f: "rfind_in sub (c # s) = (if occurs sub (c # s) 0 then Some 0 else None)"
      using None by (simp add: occurs_starts)
    have "\<not> occurs sub (c # s) k" if "0 < k" "k \<le> Suc (length s)" for k
      using that n by (cases k) (simp_all add: o)
    then show ?thesis unfolding f by (cases "occurs sub (c # s) 0") (simp_all, metis neq0_conv)
  next
    case (Some p)
    with 2 have n: "occurs sub s p" "\<forall>k. p < k \<and> k \<le> length s \<longrightarrow> \<not> occurs sub s k" by simp_all
    have "\<not> occurs sub (c # s) k" if "Suc p < k" "k \<le> Suc (length s)" for k
      using that n by (cases k) (simp_all add: o)
    then show ?thesis using Some n by (simp add: o)
  qed
qed (auto simp: occurs_def)

text \<open>Only the first byte of an encoding is no byte within a sequence.\<close>

lemma encoded_head: "scalars cps \<Longrightarrow> \<not> continuation (encoded cps)"
proof (cases cps)
  case (Cons cp cps')
  moreover assume "scalars cps"
  moreover have "cp \<le> 0x7F \<Longrightarrow> cp div 64 \<noteq> 2" by linarith
  moreover have "cp div 64 mod 32 < 32" "cp div 4096 mod 16 < 16" "cp div 262144 mod 8 < 8" by simp_all
  then have "byte_of (char_of (192 + cp div 64 mod 32)) div 64 = 3" "byte_of (char_of (224 + cp div 4096 mod 16)) div 64 = 3"
    "byte_of (char_of (240 + cp div 262144 mod 8)) div 64 = 3"
    by (auto simp: byte_of_char intro!: div_nat_eqI)
  ultimately show ?thesis
    using byte_of_char [of cp] by (auto simp: EncodeUtf8_def)
qed simp

lemma EncodeUtf8_tail:
  assumes "0 < n" and "n < length (EncodeUtf8 cp)"
  shows "continuation (drop n (EncodeUtf8 cp) @ r)"
proof -
  have t: "byte_of (char_of (128 + m mod 64)) div 64 = 2" for m :: nat
    using tail_byte(1) [of m "[]"] unfolding continuation_simps .
  have "length (EncodeUtf8 cp) \<le> 4" by (simp add: EncodeUtf8_def)
  with assms consider "n = 1" | "n = 2" | "n = 3" by linarith
  then show ?thesis
    using assms by cases (auto simp: EncodeUtf8_def t split: if_splits)
qed

lemma continuation_append: "s \<noteq> [] \<Longrightarrow> continuation (s @ r) \<longleftrightarrow> continuation s"
  by (simp add: continuation_def)

lemma encoded_occurs_at:
  "scalars cps \<Longrightarrow> scalars sub \<Longrightarrow> sub \<noteq> [] \<Longrightarrow> occurs (encoded sub) (encoded cps) n \<Longrightarrow>
    \<exists>k. n = length (encoded (take k cps)) \<and> starts_with (encoded (drop k cps)) (encoded sub)"
proof (induction cps arbitrary: n)
  case Nil
  then show ?case by (cases sub) (auto simp: occurs_def EncodeUtf8_not_Nil)
next
  case (Cons cp cps)
  consider "n = 0" | "0 < n" "n < length (EncodeUtf8 cp)" | "length (EncodeUtf8 cp) \<le> n" by linarith
  then show ?case
  proof cases
    case 1
    then show ?thesis using Cons.prems(4) by (intro exI [of _ 0]) (simp add: occurs_starts)
  next
    case 2
    obtain t where "drop n (EncodeUtf8 cp) @ encoded cps = encoded sub @ t"
      using Cons.prems(4) 2 by (auto simp: occurs_starts starts_with_iff)
    moreover have "continuation (drop n (EncodeUtf8 cp) @ encoded cps)" using 2 by (rule EncodeUtf8_tail)
    moreover have "encoded sub \<noteq> []" using Cons.prems(2,3) by (cases sub) (auto simp: EncodeUtf8_not_Nil)
    ultimately have "continuation (encoded sub)" by (simp add: continuation_append)
    then show ?thesis using encoded_head [OF Cons.prems(2)] by simp
  next
    case 3
    then have "occurs (encoded sub) (encoded cps) (n - length (EncodeUtf8 cp))"
      using Cons.prems(4) by (simp add: occurs_def)
    then obtain k where "n - length (EncodeUtf8 cp) = length (encoded (take k cps))"
      "starts_with (encoded (drop k cps)) (encoded sub)" using Cons by auto
    then show ?thesis using 3 by (intro exI [of _ "Suc k"]) simp
  qed
qed

lemma encoded_prefix:
  "scalars xs \<Longrightarrow> scalars sub \<Longrightarrow> encoded xs = encoded sub @ t \<Longrightarrow> take (length sub) xs = sub"
proof (induction sub arbitrary: xs)
  case (Cons c sub)
  then obtain x xs' where xs: "xs = x # xs'" by (cases xs) (auto simp: EncodeUtf8_not_Nil)
  then have "DecodeUtf8 (EncodeUtf8 x @ encoded xs') = DecodeUtf8 (EncodeUtf8 c @ encoded sub @ t)"
    using Cons.prems(3) by simp
  then have "x = c \<and> encoded xs' = encoded sub @ t"
    using Cons.prems(1,2) by (simp add: xs decode_encode)
  then show ?case using Cons by (simp add: xs)
qed simp

lemma encoded_append [simp]: "encoded (xs @ ys) = encoded xs @ encoded ys"
  by (simp add: encoded_def)

lemma scalars_drop: "scalars cps \<Longrightarrow> scalars (drop k cps)"
  by (auto simp: scalars_def list_all_iff dest: in_set_dropD)

lemma encoded_split: "encoded cps = encoded (take k cps) @ encoded (drop k cps)"
  by (metis append_take_drop_id encoded_append)

lemma occurs_encoded:
  assumes "occurs sub cps k"
  shows "occurs (encoded sub) (encoded cps) (length (encoded (take k cps)))"
proof -
  have "encoded (drop k cps) = encoded sub @ encoded (drop (length sub) (drop k cps))"
    using assms encoded_split [of "drop k cps" "length sub"] by (simp add: occurs_def)
  then show ?thesis using encoded_split [of cps k] by (simp add: occurs_starts starts_with_append)
qed

text \<open>A search of bytes is a search of code points.\<close>

lemma encoded_occurs_iff:
  assumes "scalars cps" "scalars sub" "sub \<noteq> []"
  shows "occurs (encoded sub) (encoded cps) n \<longleftrightarrow> (\<exists>k. n = length (encoded (take k cps)) \<and> occurs sub cps k)"
proof
  assume "occurs (encoded sub) (encoded cps) n"
  from encoded_occurs_at [OF assms this] obtain k t
    where "n = length (encoded (take k cps))" "encoded (drop k cps) = encoded sub @ t"
    by (auto simp: starts_with_iff)
  then show "\<exists>k. n = length (encoded (take k cps)) \<and> occurs sub cps k"
    using encoded_prefix [OF scalars_drop [OF assms(1)] assms(2)] by (auto simp: occurs_def)
qed (auto intro: occurs_encoded)

lemma encoded_length_mono:
  assumes "scalars cps" "j < k" "k \<le> length cps"
  shows "length (encoded (take j cps)) < length (encoded (take k cps))"
proof -
  have "take k cps = take j cps @ take (k - j) (drop j cps)"
    using assms(2) by (metis le_add_diff_inverse less_or_eq_imp_le take_add)
  moreover have "take (k - j) (drop j cps) \<noteq> []" using assms by simp
  moreover have "scalars (take (k - j) (drop j cps))"
    using assms(1) by (auto simp: scalars_def list_all_iff dest!: in_set_takeD in_set_dropD)
  ultimately show ?thesis
    by (cases "take (k - j) (drop j cps)") (auto simp: EncodeUtf8_not_Nil)
qed

lemma points_before_encoded:
  "scalars cps \<Longrightarrow> k \<le> length cps \<Longrightarrow> points_before (encoded cps) (length (encoded (take k cps))) = k"
proof (induction cps arbitrary: k)
  case (Cons cp cps)
  show ?case
  proof (cases k)
    case (Suc j)
    then show ?thesis using Cons
      by (subst points_before.simps) (simp add: EncodeUtf8_not_Nil decode_encode)
  qed (simp add: points_before.simps)
qed (simp add: points_before.simps)

lemma index_before: "scalars cps \<Longrightarrow> k \<le> length cps \<Longrightarrow>
    CodePointIndexForByteOffset (Some (encoded cps)) (length (encoded (take k cps))) = k"
  using points_before_encoded [of cps k] by (cases "encoded (take k cps) = []")
    (simp_all add: CodePointIndexForByteOffset_def points_before.simps)

lemma occurs_code_points: "occurs sub cps k \<Longrightarrow> sub \<noteq> [] \<Longrightarrow> k < length cps"
  by (rule occurs_bound)

lemma first_occurrence_None: "first_occurrence sub xs = None \<longleftrightarrow> (\<forall>k < length xs. \<not> occurs sub xs k)"
  by (auto simp: first_occurrence_def find_None_iff)

lemma last_occurrence_None: "last_occurrence sub xs = None \<longleftrightarrow> (\<forall>k < length xs. \<not> occurs sub xs k)"
  by (auto simp: last_occurrence_def find_None_iff)

lemma first_occurrence_Some: "k < length xs \<Longrightarrow> occurs sub xs k \<Longrightarrow> \<forall>j<k. \<not> occurs sub xs j \<Longrightarrow> first_occurrence sub xs = Some k"
  unfolding first_occurrence_def find_Some_iff by (rule exI [of _ k]) simp

lemma last_occurrence_Some:
  assumes "k < length xs" "occurs sub xs k" "\<forall>j. k < j \<and> j < length xs \<longrightarrow> \<not> occurs sub xs j"
  shows "last_occurrence sub xs = Some k"
proof -
  have "\<not> occurs sub xs (length xs - Suc j)" if "j < length xs - Suc k" for j
  proof -
    have "k < length xs - Suc j" "length xs - Suc j < length xs" using that by linarith+
    with assms(3) show ?thesis by blast
  qed
  then show ?thesis
    unfolding last_occurrence_def find_Some_iff
    using assms(1,2) by (intro exI [of _ "length xs - Suc k"]) (simp add: rev_nth)
qed

text \<open>
  C15. Searching a well-formed text for a text that is not empty, by its bytes, finds the first and the
  last code point at which the code points of the text occur, or \<open>-1\<close> if there is none.
\<close>
theorem search_finds_code_points:
  assumes "scalars cps" and "scalars sub" and "sub \<noteq> []"
  shows "absolute_string_index_of (Some (encoded cps)) (Some (encoded sub)) =
      (case first_occurrence sub cps of None \<Rightarrow> - 1 | Some k \<Rightarrow> int k) \<and>
    absolute_string_last_index_of (Some (encoded cps)) (Some (encoded sub)) =
      (case last_occurrence sub cps of None \<Rightarrow> - 1 | Some k \<Rightarrow> int k)"
proof (rule conjI)
  note iff = encoded_occurs_iff [OF assms] and bound = occurs_bound [OF _ assms(3)]
  have before: "length (encoded (take j cps)) < length (encoded (take k cps)) \<longleftrightarrow> j < k" if "j \<le> length cps" "k \<le> length cps" for j k
    using encoded_length_mono [OF assms(1)] that by (metis linorder_neqE_nat order_less_asym)
  have inside: "length (encoded (take j cps)) \<le> length (encoded cps)" for j
    using encoded_split [of cps j] by (metis le_add1 length_append)
  have ne: "encoded sub \<noteq> []" using assms by (cases sub) (auto simp: EncodeUtf8_not_Nil)
  show "absolute_string_index_of (Some (encoded cps)) (Some (encoded sub)) =
      (case first_occurrence sub cps of None \<Rightarrow> - 1 | Some k \<Rightarrow> int k)"
  proof (cases "find_in (encoded sub) (encoded cps)")
    case None
    with find_in_spec [where sub = "encoded sub" and s = "encoded cps"] have "\<not> occurs sub cps k" for k
      using inside by (auto simp: iff)
    then have "first_occurrence sub cps = None" by (simp add: first_occurrence_None)
    then show ?thesis using None by (simp add: absolute_string_index_of_def)
  next
    case (Some p)
    with find_in_spec [where sub = "encoded sub" and s = "encoded cps"] obtain k
      where k: "p = length (encoded (take k cps))" "occurs sub cps k" and l: "\<forall>n<p. \<not> occurs (encoded sub) (encoded cps) n"
      by (auto simp: iff)
    moreover have "\<forall>j<k. \<not> occurs sub cps j"
    proof (intro allI impI notI)
      fix j assume "j < k" "occurs sub cps j"
      then show False using l k(1) bound [OF k(2)] before [of j k] occurs_encoded [of sub cps j] by simp
    qed
    ultimately have "first_occurrence sub cps = Some k" using bound by (intro first_occurrence_Some)
    then show ?thesis using Some k bound [OF k(2)] index_before [OF assms(1), of k] by (simp add: absolute_string_index_of_def)
  qed
  show "absolute_string_last_index_of (Some (encoded cps)) (Some (encoded sub)) =
      (case last_occurrence sub cps of None \<Rightarrow> - 1 | Some k \<Rightarrow> int k)"
  proof (cases "rfind_in (encoded sub) (encoded cps)")
    case None
    with rfind_in_spec [where sub = "encoded sub" and s = "encoded cps"] have "\<not> occurs sub cps k" for k
      using inside by (auto simp: iff)
    then have "last_occurrence sub cps = None" by (simp add: last_occurrence_None)
    then show ?thesis using None ne by (simp add: absolute_string_last_index_of_def)
  next
    case (Some p)
    with rfind_in_spec [where sub = "encoded sub" and s = "encoded cps"] obtain k
      where k: "p = length (encoded (take k cps))" "occurs sub cps k"
        and l: "\<forall>n. p < n \<and> n \<le> length (encoded cps) \<longrightarrow> \<not> occurs (encoded sub) (encoded cps) n"
      by (auto simp: iff)
    moreover have "\<forall>j. k < j \<and> j < length cps \<longrightarrow> \<not> occurs sub cps j"
    proof (intro allI impI notI, elim conjE)
      fix j assume "k < j" "j < length cps" "occurs sub cps j"
      then show False using l k(1) before [of k j] occurs_encoded [of sub cps j] inside [of j] by simp
    qed
    ultimately have "last_occurrence sub cps = Some k" using bound by (intro last_occurrence_Some)
    then show ?thesis using Some k ne bound [OF k(2)] index_before [OF assms(1), of k]
      by (simp add: absolute_string_last_index_of_def)
  qed
qed

theorem search_finds_code_points_witness:
  "absolute_string_index_of (Some (encoded [0x416, 0x436, 0x416, 0x436])) (Some (encoded [0x436])) = 1 \<and>
   absolute_string_last_index_of (Some (encoded [0x416, 0x436, 0x416, 0x436])) (Some (encoded [0x436])) = 3"
  using search_finds_code_points [of "[0x416, 0x436, 0x416, 0x436]" "[0x436]"]
  by (simp add: first_occurrence_def last_occurrence_def occurs_def upt_rec)

section \<open>Replacing\<close>

text \<open>From the left, without looking at what was put in.\<close>

fun replaced :: "string \<Rightarrow> string \<Rightarrow> string \<Rightarrow> string" where
  "replaced f t [] = []"
| "replaced f t (c # s) =
     (if starts_with (c # s) f then t @ replaced f t (drop (length f - 1) s) else c # replaced f t s)"

lemma replaced_none: "f \<noteq> [] \<Longrightarrow> find_in f s = None \<Longrightarrow> replaced f t s = s"
  by (induction f s rule: find_in.induct) (auto split: if_splits)

lemma replaced_some: "f \<noteq> [] \<Longrightarrow> find_in f s = Some k \<Longrightarrow> replaced f t s = take k s @ t @ replaced f t (drop (k + length f) s)"
proof (induction f s arbitrary: k rule: find_in.induct)
  case (2 f c s)
  then show ?case by (cases f) (auto split: if_splits)
qed auto

lemma replace_loop_replaced:
  "f \<noteq> [] \<Longrightarrow> replace_loop f t (front @ s) (length front) = front @ replaced f t s"
proof (induction "length s" arbitrary: s front rule: less_induct)
  case less
  have "find_from (front @ s) f (length front) = map_option (\<lambda>k. length front + k) (find_in f s)"
    by (simp add: find_from_def)
  note step = replace_loop.simps [of f t "front @ s" "length front", unfolded this]
  show ?case
  proof (cases "find_in f s")
    case None
    then show ?thesis using less.prems by (simp add: step replaced_none)
  next
    case (Some k)
    have "length (drop (k + length f) s) < length s"
      using less.prems find_in_bound [OF Some] by (cases f) auto
    then have "replace_loop f t ((front @ take k s @ t) @ drop (k + length f) s) (length (front @ take k s @ t)) =
        (front @ take k s @ t) @ replaced f t (drop (k + length f) s)"
      by (rule less.hyps [OF _ less.prems])
    moreover have "length (take k s) = k" using find_in_bound [OF Some] by simp
    ultimately show ?thesis using less.prems Some
      by (simp add: step replaced_some min_absorb2 add.commute add.left_commute)
  qed
qed

text \<open>
  Replacing changes the occurrences from the left, one after another, and does not look again at what
  it has put in: it ends, also where the new text contains the old one.
\<close>
theorem replace_matches_reference:
  assumes "CHR 0x00 \<notin> set s" "CHR 0x00 \<notin> set t" and "f \<noteq> []"
  shows "absolute_string_replace (Some s) (Some f) (Some t) = replaced f t s"
proof -
  have "set (replaced f t s) \<subseteq> set s \<union> set t"
    by (induction f t s rule: replaced.induct) (auto dest: in_set_dropD)
  then show ?thesis
    using assms replace_loop_replaced [OF assms(3), of t "[]" s]
    by (simp add: absolute_string_replace_def) (rule DurableCopy_text, blast)
qed

theorem replace_matches_reference_witness:
  "absolute_string_replace (Some ''aaab'') (Some ''aa'') (Some ''aaa'') = replaced ''aa'' ''aaa'' ''aaab''"
  by (rule replace_matches_reference) simp_all

end
