(* ===== verification/Text_Storage.thy ===== *)
theory Text_Storage
  imports Text
begin

text \<open>
  The storage of strings: whoever holds a string keeps it, and the last holder frees it. Holders are
  counted by what was done so far; the memory has only the words in front of each text.
\<close>

datatype storage_op = Alloc nat | Retain nat | Release nat | Adopt nat

definition run_op :: "storage_op \<Rightarrow> string_memory \<Rightarrow> string_memory option" where
  "run_op op mem =
     (case op of
        Alloc p \<Rightarrow> Some (absolute_string_alloc p mem)
      | Retain p \<Rightarrow> absolute_string_retain mem p
      | Release p \<Rightarrow> absolute_string_release mem p
      | Adopt p \<Rightarrow> absolute_string_adopt_static mem p)"

fun run_ops :: "storage_op list \<Rightarrow> string_memory \<Rightarrow> string_memory option" where
  "run_ops [] mem = Some mem"
| "run_ops (op # ops) mem = Option.bind (run_op op mem) (run_ops ops)"

text \<open>The holders of each text and the texts that are declared static.\<close>

type_synonym holders = "(nat \<Rightarrow> nat) \<times> nat set"

fun hold :: "storage_op \<Rightarrow> holders \<Rightarrow> holders" where
  "hold (Alloc p) (n, st) = (n(p := 1), st)"
| "hold (Retain p) (n, st) = (n(p := n p + 1), st)"
| "hold (Release p) (n, st) = (n(p := n p - 1), st)"
| "hold (Adopt p) (n, st) = (n, insert p st)"

text \<open>A block is at a new address; only a holder, or whoever has a static text, passes it on.\<close>

fun may :: "storage_op \<Rightarrow> holders \<Rightarrow> bool" where
  "may (Alloc p) (n, st) \<longleftrightarrow> p \<noteq> 0 \<and> n p = 0 \<and> p \<notin> st"
| "may (Retain p) (n, st) \<longleftrightarrow> 0 < n p \<or> p \<in> st"
| "may (Release p) (n, st) \<longleftrightarrow> 0 < n p \<or> p \<in> st"
| "may (Adopt p) (n, st) \<longleftrightarrow> 0 < n p \<or> p \<in> st"

fun all_may :: "storage_op list \<Rightarrow> holders \<Rightarrow> bool" where
  "all_may [] h \<longleftrightarrow> True"
| "all_may (op # ops) h \<longleftrightarrow> may op h \<and> all_may ops (hold op h)"

definition stored :: "holders \<Rightarrow> string_memory" where
  "stored h = (\<lambda>p. case h of (n, st) \<Rightarrow>
     if p \<in> st then Some (StringMagic, StringStatic)
     else if n p = 0 then None else Some (StringMagic, of_nat (n p)))"

definition storage_ok :: "nat \<Rightarrow> holders \<Rightarrow> bool" where
  "storage_ok k h \<longleftrightarrow> (case h of (n, st) \<Rightarrow> (\<forall>p. n p \<le> k) \<and> n 0 = 0 \<and> 0 \<notin> st)"

lemma count_not_static: "c < 2 ^ 32 - 1 \<Longrightarrow> (of_nat c :: u32) \<noteq> StringStatic"
proof
  assume c: "c < 2 ^ 32 - 1" and "(of_nat c :: u32) = StringStatic"
  then have "unat (of_nat c :: u32) = unat StringStatic" by simp
  with c show False by (simp add: StringStatic_def unat_of_nat)
qed

lemma count_one: "c < 2 ^ 32 \<Longrightarrow> (of_nat c :: u32) = 1 \<longleftrightarrow> c = 1"
  using word_unat_eq_iff [of "of_nat c :: u32" 1] by (simp add: unat_of_nat)

lemma static_not_one: "StringStatic \<noteq> 1" "(1::u32) \<noteq> StringStatic"
  by (simp_all add: StringStatic_def)

lemma run_op_stored:
  assumes "storage_ok k (n, st)" and "k < 2 ^ 32 - 1" and "may op (n, st)"
  shows "run_op op (stored (n, st)) = Some (stored (hold op (n, st)))" "storage_ok (Suc k) (hold op (n, st))"
proof -
  have p0: "p \<noteq> 0" if "0 < n p \<or> p \<in> st" for p
    using assms(1) that by (cases "p = 0") (auto simp: storage_ok_def)
  have le: "n p \<le> k" for p using assms(1) by (simp add: storage_ok_def)
  have ns: "(of_nat (n p) :: u32) \<noteq> StringStatic" for p
    using assms(1,2) by (intro count_not_static) (auto simp: storage_ok_def intro: le_less_trans)
  have one: "(of_nat (n p) :: u32) = 1 \<longleftrightarrow> n p = 1" for p
    using assms(1,2) by (intro count_one) (force simp: storage_ok_def intro: le_less_trans)
  show "storage_ok (Suc k) (hold op (n, st))"
    using assms p0 le by (cases op) (auto simp: storage_ok_def le_SucI le_diff_conv)
  show "run_op op (stored (n, st)) = Some (stored (hold op (n, st)))"
  proof (cases op)
    case (Alloc p)
    with assms show ?thesis by (auto simp: run_op_def absolute_string_alloc_def stored_def)
  next
    case (Retain p)
    with assms p0 [of p] show ?thesis
      by (auto simp: run_op_def absolute_string_retain_def HeaderOf_def stored_def ns add.commute fun_eq_iff)
  next
    case (Release p)
    with assms p0 [of p] show ?thesis
      by (cases "n p = 1") (auto simp: run_op_def absolute_string_release_def HeaderOf_def stored_def ns one
          static_not_one of_nat_diff fun_eq_iff)
  next
    case (Adopt p)
    with assms p0 [of p] show ?thesis
      by (auto simp: run_op_def absolute_string_adopt_static_def HeaderOf_def stored_def fun_eq_iff)
  qed
qed

lemma run_ops_stored:
  "storage_ok k h \<Longrightarrow> k + length ops \<le> 2 ^ 32 - 1 \<Longrightarrow> all_may ops h \<Longrightarrow>
    run_ops ops (stored h) = Some (stored (fold hold ops h))"
proof (induction ops arbitrary: k h)
  case (Cons op ops)
  obtain n st where h: "h = (n, st)" by (cases h)
  with Cons.prems have "run_op op (stored h) = Some (stored (hold op h))" "storage_ok (Suc k) (hold op h)"
    using run_op_stored [of k n st op] by simp_all
  with Cons show ?case by simp
qed simp

text \<open>
  While only holders of a string pass it on and release it, no operation reads memory that was freed;
  a string has its storage exactly as long as it has a holder or is static, and its count is the number of
  its holders. The count has 32 bits, so this is for fewer than \<open>2 ^ 32\<close> operations.
\<close>
theorem string_storage_follows_holders:
  assumes "all_may ops ((\<lambda>p. 0), {})" and "length ops < 2 ^ 32"
  shows "\<exists>mem n st. run_ops ops Map.empty = Some mem \<and> fold hold ops ((\<lambda>p. 0), {}) = (n, st) \<and>
    (\<forall>p. mem p = (if p \<in> st then Some (StringMagic, StringStatic)
                  else if n p = 0 then None else Some (StringMagic, of_nat (n p))))"
proof -
  obtain n st where h: "fold hold ops ((\<lambda>p. 0), {}) = (n, st)" by (cases "fold hold ops ((\<lambda>p. 0), {})") auto
  have "run_ops ops (stored ((\<lambda>p. 0), {})) = Some (stored (n, st))"
    using run_ops_stored [of 0 "((\<lambda>p. 0), {})" ops] assms h by (simp add: storage_ok_def)
  moreover have "stored ((\<lambda>p. 0), {}) = Map.empty" by (simp add: stored_def)
  ultimately show ?thesis using h by (auto simp: stored_def)
qed

theorem string_storage_follows_holders_witness:
  "\<exists>mem n st. run_ops [Alloc 8, Retain 8, Release 8, Release 8, Alloc 40] Map.empty = Some mem \<and>
     fold hold [Alloc 8, Retain 8, Release 8, Release 8, Alloc 40] ((\<lambda>p. 0), {}) = (n, st) \<and>
     (\<forall>p. mem p = (if p \<in> st then Some (StringMagic, StringStatic)
                   else if n p = 0 then None else Some (StringMagic, of_nat (n p))))"
  by (rule string_storage_follows_holders) simp_all

text \<open>A release too many reads the words of a block that was freed.\<close>

lemma second_release_reads_freed: "run_ops [Alloc 8, Release 8, Release 8] Map.empty = None"
  by code_simp

end
