(* ===== verification/Random_Numbers.thy ===== *)
theory Random_Numbers
  imports Prelude
begin

unbundle bit_operations_syntax

text \<open>
  The random numbers of the runtime (\<^verbatim>\<open>Absolute-Runtime/src/random.cpp\<close>): a state of four words, set up
  by a generator that mixes a seed, and the step of the state. It is shown that the state is never
  all zero, from which the generator would not move on, and that a number in a range is in the range,
  with every number as likely as any other among the values of the generator that are accepted. The
  entropy of the system, and numbers as doubles, are not modelled.
\<close>

section \<open>The generators\<close>

type_synonym random_state = "u64 \<times> u64 \<times> u64 \<times> u64"

text \<open>The mixed value; the state of this generator is the argument and its increment.\<close>

definition mix :: "u64 \<Rightarrow> u64" where
  "mix state =
     (let value1 = (state XOR drop_bit 30 state) * 0xbf58476d1ce4e5b9;
          value2 = (value1 XOR drop_bit 27 value1) * 0x94d049bb133111eb
      in value2 XOR drop_bit 31 value2)"

definition SplitMix64 :: "u64 \<Rightarrow> u64 \<times> u64" where
  "SplitMix64 state = (let state' = state + 0x9e3779b97f4a7c15 in (mix state', state'))"

definition rotl :: "nat \<Rightarrow> u64 \<Rightarrow> u64" where
  "rotl n w = push_bit n w OR drop_bit (64 - n) w"

fun Next :: "random_state \<Rightarrow> u64 \<times> random_state" where
  "Next (v0, v1, v2, v3) =
     (let result = rotl 7 (v1 * 5) * 9;
          shift = push_bit 17 v1;
          v2 = v2 XOR v0;
          v3 = v3 XOR v1;
          v1 = v1 XOR v2;
          v0 = v0 XOR v3;
          v2 = v2 XOR shift;
          v3 = rotl 45 v3
      in (result, (v0, v1, v2, v3)))"

definition absolute_random_create :: "u64 \<Rightarrow> random_state" where
  "absolute_random_create seed =
     (let (a, s1) = SplitMix64 seed; (b, s2) = SplitMix64 s1; (c, s3) = SplitMix64 s2; (d, s4) = SplitMix64 s3
      in (a, b, c, d))"

text \<open>A null handle is \<open>None\<close>.\<close>

definition absolute_random_u64 :: "random_state option \<Rightarrow> u64 \<times> random_state option" where
  "absolute_random_u64 handle =
     (case handle of None \<Rightarrow> (0, None) | Some s \<Rightarrow> (case Next s of (v, s') \<Rightarrow> (v, Some s')))"

definition absolute_random_i32 :: "random_state option \<Rightarrow> int \<times> random_state option" where
  "absolute_random_i32 handle =
     (case absolute_random_u64 handle of (v, h) \<Rightarrow> (sint (ucast (drop_bit 32 v) :: u32), h))"

text \<open>The loop that draws until a value is not below the threshold; \<open>None\<close> is that it never is.\<close>

partial_function (option) draw :: "u64 \<Rightarrow> random_state \<Rightarrow> (u64 \<times> random_state) option" where
  "draw threshold s =
     (case Next s of (value, s') \<Rightarrow> if value < threshold then draw threshold s' else Some (value, s'))"

definition range_threshold :: "u64 \<Rightarrow> u64" where
  "range_threshold span = (0 - span) mod span"

definition absolute_random_range ::
    "random_state option \<Rightarrow> int \<Rightarrow> int \<Rightarrow> (int \<times> random_state option) option" where
  "absolute_random_range handle minimum maximum =
     (case handle of
        None \<Rightarrow> Some (minimum, None)
      | Some s \<Rightarrow>
          if minimum \<ge> maximum then Some (minimum, handle)
          else
            (let span = of_int (maximum - minimum) :: u64 in
             map_option (\<lambda>(value, s'). (minimum + uint (value mod span), Some s')) (draw (range_threshold span) s)))"

section \<open>The state is never all zero\<close>

lemma drop_all: "64 \<le> n \<Longrightarrow> drop_bit n (x :: u64) = 0"
  by (rule bit_word_eqI) (auto simp: bit_drop_bit_eq dest: bit_imp_le_length)

lemma xor_cancel: "(a XOR b) XOR (b XOR c) = a XOR (c :: u64)" "a XOR 0 = a" "(a XOR b) XOR b = a"
  by (rule bit_word_eqI, auto simp: bit_xor_iff)+

lemma xor_shift_inverse:
  fixes x :: u64
  assumes "y = x XOR drop_bit n x" and "64 \<le> n + n + n"
  shows "x = y XOR (drop_bit n y XOR drop_bit (n + n) y)"
proof -
  have "drop_bit n y XOR drop_bit (n + n) y = drop_bit n x XOR drop_bit (n + n + n) x"
    unfolding assms(1) drop_bit_xor drop_bit_drop_bit by (simp only: xor_cancel)
  then show ?thesis unfolding assms(1) using drop_all [OF assms(2), of x] by (simp only: xor_cancel)
qed

lemma xor_shift_inj:
  fixes x y :: u64
  assumes "x XOR drop_bit n x = y XOR drop_bit n y" and "64 \<le> n + n + n"
  shows "x = y"
  using xor_shift_inverse [OF refl assms(2), of x] xor_shift_inverse [OF refl assms(2), of y] assms(1) by simp

lemma times_inj:
  fixes x y c d :: u64
  assumes "x * c = y * c" and "c * d = 1"
  shows "x = y"
proof -
  have "x * c * d = y * c * d" using assms(1) by simp
  then have "x * (c * d) = y * (c * d)" by (simp only: mult.assoc)
  then show ?thesis using assms(2) by simp
qed

lemma mix_inj: "mix x = mix y \<Longrightarrow> x = y"
proof -
  have c: "(0xbf58476d1ce4e5b9 :: u64) * 0x96de1b173f119089 = 1" "(0x94d049bb133111eb :: u64) * 0x319642b2d24d8ec3 = 1"
    by code_simp+
  assume e: "mix x = mix y"
  let ?a = "\<lambda>x. (x XOR drop_bit 30 x) * 0xbf58476d1ce4e5b9 :: u64"
  let ?b = "\<lambda>x. (?a x XOR drop_bit 27 (?a x)) * 0x94d049bb133111eb :: u64"
  have "?b x XOR drop_bit 31 (?b x) = ?b y XOR drop_bit 31 (?b y)" using e unfolding mix_def Let_def .
  then have "?b x = ?b y" by (rule xor_shift_inj) simp
  then have "?a x XOR drop_bit 27 (?a x) = ?a y XOR drop_bit 27 (?a y)" by (rule times_inj [OF _ c(2)])
  then have "?a x = ?a y" by (rule xor_shift_inj) simp
  then have "x XOR drop_bit 30 x = y XOR drop_bit 30 y" by (rule times_inj [OF _ c(1)])
  then show ?thesis by (rule xor_shift_inj) simp
qed

lemma SplitMix64_distinct: "mix s = 0 \<Longrightarrow> d \<noteq> 0 \<Longrightarrow> mix (s + d) \<noteq> 0"
  using mix_inj [of s "s + d"] by auto

definition all_zero :: "random_state \<Rightarrow> bool" where
  "all_zero s \<longleftrightarrow> s = (0, 0, 0, 0)"

lemma created_state_not_zero: "\<not> all_zero (absolute_random_create seed)"
proof -
  let ?g = "0x9e3779b97f4a7c15 :: u64"
  have "mix (seed + ?g + ?g) \<noteq> 0" if "mix (seed + ?g) = 0" using SplitMix64_distinct [OF that, of ?g] by simp
  then show ?thesis by (auto simp: all_zero_def absolute_random_create_def SplitMix64_def Let_def)
qed

lemma shift_fixed: "x = push_bit 17 x \<Longrightarrow> x = (0 :: u64)"
proof (rule bit_word_eqI)
  fix n assume x: "x = push_bit 17 x"
  have "\<not> bit x n"
  proof (induction n rule: less_induct)
    case (less n)
    have "bit x n \<longleftrightarrow> bit (push_bit 17 x) n" using x by simp
    with less show ?case by (auto simp: bit_push_bit_iff)
  qed
  then show "bit x n = bit 0 n" by simp
qed

lemma rotl_zero: "rotl 45 w = 0 \<Longrightarrow> w = 0"
proof (rule bit_word_eqI)
  fix n assume z: "rotl 45 w = 0" and n: "n < LENGTH(64)"
  have "\<not> bit (rotl 45 w) ((n + 45) mod 64)" using z by simp
  moreover have "(n + 45) mod 64 = (if n < 19 then n + 45 else n - 19)"
    using n by (auto simp: mod_if)
  ultimately show "bit w n = bit 0 n"
    using n by (auto simp: rotl_def bit_or_iff bit_push_bit_iff bit_drop_bit_eq split: if_splits)
qed

lemma xor_zero: "a XOR b = (0 :: u64) \<Longrightarrow> a = b"
  by (metis xor_cancel(2,3) xor.commute)

text \<open>From a state that is not all zero the generator never comes to one that is, where it would stay.\<close>

lemma state_never_zero: "\<not> all_zero s \<Longrightarrow> \<not> all_zero (snd (Next s))"
proof (cases s)
  case (fields v0 v1 v2 v3)
  assume nz: "\<not> all_zero s"
  show ?thesis
  proof
    assume "all_zero (snd (Next s))"
    then have z: "v0 XOR (v3 XOR v1) = 0" "v1 XOR (v2 XOR v0) = 0" "(v2 XOR v0) XOR push_bit 17 v1 = 0" "rotl 45 (v3 XOR v1) = 0"
      by (simp_all add: fields all_zero_def Let_def)
    have a: "v3 = v1" using xor_zero [OF rotl_zero [OF z(4)]] .
    then have b: "v0 = 0" using z(1) by simp
    have "v1 = push_bit 17 v1" using xor_zero [OF z(2)] xor_zero [OF z(3)] by simp
    then have c: "v1 = 0" by (rule shift_fixed)
    then have "v2 = 0" using z(2) b by simp
    with a b c nz show False by (simp add: fields all_zero_def)
  qed
qed

section \<open>Numbers in a range\<close>

lemma draw_first: "fst (Next s) \<ge> threshold \<Longrightarrow> draw threshold s = Some (Next s)"
  by (subst draw.simps) (auto split: prod.splits)

lemma draw_next: "fst (Next s) < threshold \<Longrightarrow> draw threshold s = draw threshold (snd (Next s))"
  by (subst draw.simps) (auto split: prod.splits)

lemma uint_small: "0 \<le> d \<Longrightarrow> d < 2 ^ 64 \<Longrightarrow> uint (of_int d :: u64) = d"
  by (simp add: unsigned_of_int take_bit_int_eq_self)

lemma range_in_bounds:
  assumes "absolute_random_range (Some s) minimum maximum = Some (n, s')" and "minimum < maximum"
    and "in_i32 minimum" and "in_i32 maximum"
  shows "minimum \<le> n \<and> n < maximum"
proof -
  obtain v where n: "n = minimum + uint (v mod (of_int (maximum - minimum) :: u64))"
    using assms(1,2) by (auto simp: absolute_random_range_def Let_def split: if_splits)
  have "uint (of_int (maximum - minimum) :: u64) = maximum - minimum"
    using uint_small [of "maximum - minimum"] assms(2-4) by (simp add: in_i32_def del: of_int_diff)
  then have "uint (v mod (of_int (maximum - minimum) :: u64)) = uint v mod (maximum - minimum)"
    by (simp add: uint_mod del: of_int_diff)
  then have "n = minimum + uint v mod (maximum - minimum)" by (simp only: n)
  moreover have "0 \<le> uint v mod (maximum - minimum)" "uint v mod (maximum - minimum) < maximum - minimum"
    using assms(2) by simp_all
  ultimately show ?thesis by linarith
qed

text \<open>
  Of the 64-bit values that are not below the threshold, every remainder is that of equally many: no
  number in the range is more likely than another if all values of the generator are equally likely.
\<close>

lemma mod_block:
  assumes "r < (s::nat)"
  shows "card {v \<in> {a..<a + s}. v mod s = r} = 1"
proof -
  have inj: "inj_on (\<lambda>v. v mod s) {a..<a + s}"
  proof (rule inj_onI)
    have eq: "v = w" if "v \<le> w" "w < v + s" "v mod s = w mod s" for v w :: nat
    proof -
      have "s dvd w - v" using mod_eq_dvd_iff_nat [of v w s] that(1,3) by simp
      then show ?thesis using that by (cases "w - v = 0") (auto dest: dvd_imp_le)
    qed
    fix v w assume "v \<in> {a..<a + s}" "w \<in> {a..<a + s}" "v mod s = w mod s"
    then show "v = w" using eq [of v w] eq [of w v] by (cases "v \<le> w") auto
  qed
  have "(\<lambda>v. v mod s) ` {a..<a + s} = {..<s}"
    by (rule card_subset_eq) (use assms card_image [OF inj] in auto)
  then obtain v where v: "v \<in> {a..<a + s}" "v mod s = r" using assms by (metis imageE lessThan_iff)
  then have "{v \<in> {a..<a + s}. v mod s = r} = {v}" using inj by (auto dest: inj_onD)
  then show ?thesis by simp
qed

lemma mod_blocks:
  assumes "r < (s::nat)"
  shows "card {v \<in> {a..<a + q * s}. v mod s = r} = q"
proof (induction q)
  case (Suc q)
  have "{v \<in> {a..<a + Suc q * s}. v mod s = r} =
      {v \<in> {a..<a + q * s}. v mod s = r} \<union> {v \<in> {a + q * s..<a + q * s + s}. v mod s = r}" by auto
  also have "card \<dots> = q + 1"
    by (subst card_Un_disjoint) (use Suc mod_block [OF assms, of "a + q * s"] in auto)
  finally show ?case by simp
qed simp

lemma accepted_values_are_uniform:
  assumes "0 < span" and "r < unat span"
  shows "card {v. range_threshold span \<le> v \<and> v mod span = of_nat r} = 2 ^ 64 div unat span"
proof -
  let ?s = "unat span" and ?N = "2 ^ 64 :: nat"
  have s: "0 < ?s" "?s < ?N" using assms(1) unsigned_less [of span, where ?'a = nat] by (auto simp: word_less_nat_alt)
  have "unat (0 - span) = ?N - ?s" using s by (simp only: unat_sub_if_size) (simp add: word_size)
  then have t: "unat (range_threshold span) = ?N mod ?s"
    using s by (simp add: range_threshold_def unat_mod le_mod_geq)
  have "bij_betw unat {v. range_threshold span \<le> v \<and> v mod span = of_nat r}
      {v \<in> {?N mod ?s..<?N mod ?s + (?N div ?s) * ?s}. v mod ?s = r}"
  proof (rule bij_betw_imageI)
    show "inj_on unat {v. range_threshold span \<le> v \<and> v mod span = of_nat r}" by (rule inj_onI) (simp add: word_unat_eq_iff)
    have m: "v mod span = of_nat r \<longleftrightarrow> unat v mod ?s = r" for v
    proof -
      have "unat (of_nat r :: u64) = r" using assms(2) s by (simp add: unat_of_nat)
      then show ?thesis by (simp add: word_unat_eq_iff [of "v mod span"] unat_mod)
    qed
    show "unat ` {v. range_threshold span \<le> v \<and> v mod span = of_nat r} =
        {v \<in> {?N mod ?s..<?N mod ?s + (?N div ?s) * ?s}. v mod ?s = r}"
    proof (intro equalityI subsetI)
      fix n assume "n \<in> {v \<in> {?N mod ?s..<?N mod ?s + (?N div ?s) * ?s}. v mod ?s = r}"
      then have n: "?N mod ?s \<le> n" "n < ?N" "n mod ?s = r" by (auto simp: mod_div_mult_eq)
      then have u: "unat (of_nat n :: u64) = n" by (simp add: unat_of_nat)
      then have "of_nat n \<in> {v. range_threshold span \<le> v \<and> v mod span = of_nat r}"
      proof -
        have "range_threshold span \<le> of_nat n" unfolding word_le_nat_alt u t by (rule n(1))
        moreover have "(of_nat n :: u64) mod span = of_nat r" unfolding m u by (rule n(3))
        ultimately show ?thesis by simp
      qed
      then show "n \<in> unat ` {v. range_threshold span \<le> v \<and> v mod span = of_nat r}" by (intro image_eqI [where f = unat and x = "of_nat n"]) (simp only: u)
    next
      fix n assume "n \<in> unat ` {v. range_threshold span \<le> v \<and> v mod span = of_nat r}"
      then obtain v where v: "n = unat v" "range_threshold span \<le> v" "v mod span = of_nat r" by auto
      then show "n \<in> {v \<in> {?N mod ?s..<?N mod ?s + (?N div ?s) * ?s}. v mod ?s = r}"
      proof -
        have "?N mod ?s \<le> n" using v(2) unfolding word_le_nat_alt t v(1) .
        moreover have "n < ?N" unfolding v(1) using unsigned_less [of v, where ?'a = nat] by simp
        moreover have "n mod ?s = r" using v(3) unfolding m v(1) .
        ultimately show ?thesis by (simp add: mod_div_mult_eq)
      qed
    qed
  qed
  from bij_betw_same_card [OF this] show ?thesis using mod_blocks [OF assms(2), of "?N mod ?s" "?N div ?s"] by simp
qed

end
