(* ===== verification/Spec2Isabelle.thy ===== *)
theory Spec2Isabelle
  imports Type_Names Parser_Properties Keyword_Hash Interpolation Plugin_Registry Ast_Text
    Managed_Clients Binary_Io Byte_Buffers Datetime Expression_Queries Type_Terms
    Ownership_Agreement Flow_Soundness Overload_Choice Member_Rules Task_Safety Sync_Safety Control_Rules Json_Rules
    Json_Store Text_Search Text_Storage Random_Numbers
begin

text \<open>
  The front end and the runtime of the Absolute compiler, modelled from its C++ sources.

  Absolute is a statically typed language. The compiler turns source text into tokens
  (\<^verbatim>\<open>Absolute-Parser/src/lexer.cpp\<close>), lets plugins rewrite them
  (\<^verbatim>\<open>src/syntax_plugins.cpp\<close>), parses them by recursive descent (\<^verbatim>\<open>src/parser/\<close>) into a syntax
  tree (\<^verbatim>\<open>include/ast/\<close>), checks it (\<^verbatim>\<open>Absolute-Analyzer\<close>) and emits LLVM code
  (\<^verbatim>\<open>Absolute-CodeGen\<close>), which is linked with a runtime library (\<^verbatim>\<open>Absolute-Runtime\<close>).
  The development covers the front end up to the syntax tree, the judgements of the analyzer that
  do not depend on its walk over the tree, and the parts of the runtime that are algorithms rather
  than calls of the operating system.

  Theories and the code they model:

  \<^item> \<open>Prelude\<close>: machine integers of the code's widths, results with errors, lemmas on lists,
    options and words that the components share.
  \<^item> \<open>Type_Names\<close> (\<^verbatim>\<open>include/type_names.h\<close>): the canonical spelling of the types of handles and
    references, which is how the analyzer and the code generator tell managed, raw, weak and
    scoped pointers apart. Writing and reading a name are inverse where the kinds can be told
    apart, and two different types that get one name are exhibited.
  \<^item> \<open>Tokens\<close>, \<open>Regex\<close>, \<open>Lexer\<close> (\<^verbatim>\<open>lexer.h\<close>, \<^verbatim>\<open>lexer.cpp\<close>): the tables of token types,
    precedences and categories; the fragment of ECMAScript regular expressions the code uses, with
    the leftmost, first alternative semantics of \<^verbatim>\<open>std::regex\<close>; the scanner. A source is accepted
    exactly as a sequence of classified lexemes with white space between them.
  \<^item> \<open>Ast\<close>, \<open>Ast_Text\<close> (\<^verbatim>\<open>nodes.h\<close>, \<^verbatim>\<open>ast/*.h\<close>): the nodes of the syntax tree, a null
    \<^verbatim>\<open>unique_ptr\<close> being \<open>None\<close>, and every \<^verbatim>\<open>ToString\<close>, with the null dereferences it can make as
    values.
  \<^item> \<open>Plugins\<close>, \<open>Plugin_Registry\<close> (\<^verbatim>\<open>syntax_plugins.cpp\<close>): the registry of rules, opaque rules,
    operators, resources and virtual modules, each a list with an index into it; expansion of
    keywords; the cursor a plugin reads tokens with; the ownership of the nodes a plugin makes.
    The functions of a plugin are arguments of the model: they are function fields of its rules.
    Unloading a plugin takes back what it registered, but does not give back the virtual modules
    of other plugins that it registered again. The lists with their indices share the interface \<open>registry_table\<close>, which is interpreted for
    each of the three kinds of entries.
  \<^item> \<open>Parser_State\<close>, \<open>Parser_Head\<close>, \<open>Parser_Expr\<close>, \<open>Parser_Stmt\<close>, \<open>Parser_Decl\<close>, \<open>Parser\<close>
    (\<^verbatim>\<open>parser.h\<close>, \<^verbatim>\<open>scope.cpp\<close>, \<^verbatim>\<open>src/parser/*.cpp\<close>): the state of the parser, its errors and
    look-ahead, and one definition for every parse function, in the order the code calls them.
    Functions that call themselves through others take a record of the functions they call;
    \<open>parsers\<close> ties the knot by recursion on the number of levels allowed.
  \<^item> \<open>Parser_Progress\<close>, \<open>Parser_Termination\<close>: every parse function keeps to the weight of the
    tokens that are left, so that parsing ends. \<open>Parser_Invariants\<close>: a parse that returns has
    balanced its depth and its scopes, and one that fails may leave scopes of types. \<open>Parser_Precedence\<close>: the trees of expressions. \<open>Keyword_Hash\<close>,
    \<open>Parser_Properties\<close>: keyword hashes, enumerators, progress of statements and the truncated
    sources that are undefined behaviour. The interfaces \<open>nested_parsers\<close> and \<open>framed_parsers\<close>
    hold what one level of the parser may assume of the level below, and are interpreted on
    \<open>parsers\<close>.
  \<^item> \<open>Interpolation\<close> (\<^verbatim>\<open>parser_literals.cpp\<close> and \<^verbatim>\<open>BuildFormat\<close> of \<^verbatim>\<open>codegen_runtime.cpp\<close>): the
    template that an interpolated string literal becomes in the parser against the format that
    the code generator makes of it, and string literals.
  \<^item> \<open>Type_Algebra\<close>, \<open>Type_Terms\<close>, \<open>Expression_Queries\<close> (\<^verbatim>\<open>Absolute-Analyzer\<close>:
    \<^verbatim>\<open>analyzer_internal.h\<close>, \<^verbatim>\<open>analyzer_operators.cpp\<close>): types as the analyzer spells them, with
    substitution and inference of type arguments on the spellings, which are shown to be those of
    trees of types; what it asks of expressions without a symbol table.
  \<^item> \<open>Symbol_Table\<close> (\<^verbatim>\<open>symbol_table.cpp\<close>): symbols and lexical scopes.
  \<^item> \<open>Type_Records\<close>, \<open>Type_Hierarchy\<close> (\<^verbatim>\<open>type.h\<close>, \<^verbatim>\<open>analyzer.h\<close>, \<^verbatim>\<open>analyzer.cpp\<close>): the
    definitions of types, derivation, assignment, common types and access. The functions that
    follow the hierarchy are partial functions, whose value \<open>None\<close> says that the code does not
    return; where the hierarchy has no cycle they are shown to return.
  \<^item> \<open>Type_Ownership\<close>, \<open>Ownership_Agreement\<close> (\<^verbatim>\<open>analyzer.cpp\<close>): what a value of a type owns and
    how it is copied, moved and dropped, and where the two ways the code asks that agree.
  \<^item> \<open>Value_Flow\<close>, \<open>Flow_Soundness\<close> (\<^verbatim>\<open>analyzer.cpp\<close>): the states of owners, values and tasks
    along the paths of a function, the merging of paths, and the reports on leaving a scope; the
    two reports share the interface \<open>scope_check\<close>, which is interpreted for each.
  \<^item> \<open>Overloads\<close>, \<open>Overload_Choice\<close> (\<^verbatim>\<open>analyzer.cpp\<close>): the cost of a candidate of a call, the choice
    among candidates and the specialisations of generic functions.
  \<^item> \<open>Members\<close>, \<open>Member_Rules\<close> (\<^verbatim>\<open>analyzer.cpp\<close>, \<^verbatim>\<open>type_declarations.cpp\<close>): names in namespaces,
    declarations of types and members, the members a type shows, and the check that a class
    implements its interfaces, against what it means for a class or one of its base classes to have
    a method with a name and parameter types.
  \<^item> \<open>Managed_Pointers\<close>, \<open>Managed_Clients\<close> (\<^verbatim>\<open>Absolute-Runtime/src/pointers.cpp\<close>,
    \<^verbatim>\<open>errors.cpp\<close>): the table of managed allocations, with generations and a free list, refined to
    a map from handles to allocations; the pending error and transfer capsules that use it.
  \<^item> \<open>Binary_Io\<close> (\<^verbatim>\<open>binary.cpp\<close>), \<open>Byte_Buffers\<close> (\<^verbatim>\<open>bytes.cpp\<close>): readers and writers of
    little-endian data; buffers with slices that share storage, over an explicit memory.
  \<^item> \<open>Scheduler\<close>, \<open>Fair_Choice\<close>, \<open>Queue_Rules\<close> (\<^verbatim>\<open>tasks.cpp\<close>): tasks and the run queues of the
    workers, the weighted choice of a priority, stealing and timers; that no priority starves, and
    that taking and adding work keep the lanes and their counts.
  \<^item> \<open>Task_Lifecycle\<close>, \<open>Task_Safety\<close> (\<^verbatim>\<open>tasks.cpp\<close>): the workers, their fibers and other threads as
    the step relation \<open>sys_step\<close>, a step being what a thread does under the mutex; the invariant of
    the reachable states, and what follows: a task is in one place and has one wake-up to come
    when it waits, no call aborts, a started task stays with its worker.
  \<^item> \<open>Sync_Primitives\<close>, \<open>Sync_Rules\<close>, \<open>Sync_Safety\<close> (\<^verbatim>\<open>tasks.cpp\<close>): mutexes, semaphores,
    reader/writer locks, condition variables, once cells and channels, an operation being one round
    of its loop. The interface \<open>waiting_room\<close> says what mutexes, semaphores, once cells and both
    ends of a channel have in common and is interpreted for each: no wake-up is lost. Channels
    deliver in order; a writer excludes readers.
  \<^item> \<open>Task_Control\<close>, \<open>Control_Rules\<close> (\<^verbatim>\<open>tasks.cpp\<close>): cancellation, deadlines and groups of tasks,
    inherited along the tasks that start tasks.
  \<^item> \<open>Json\<close>, \<open>Json_Rules\<close> (\<^verbatim>\<open>json.cpp\<close>): documents, their parser and printer. A value consumes a
    character, so a text needs no more levels of recursion than it has characters
    (\<open>json_parsing_terminates\<close>); what is printed parses back, where no string has a null character,
    at which the interface of C strings cuts it. How a stream writes a double is a parameter.
  \<^item> \<open>Json_Store\<close> (\<^verbatim>\<open>json.cpp\<close>): the operations on nodes, over an explicit memory of nodes that
    point to each other, as freeing a node that something else still points to is what can go wrong.
    The relation \<open>tree\<close> says that memory holds a document.
  \<^item> \<open>Text\<close>, \<open>Text_Rules\<close>, \<open>Text_Search\<close>, \<open>Text_Storage\<close> (\<^verbatim>\<open>string.cpp\<close>): UTF-8 text, its code
    points, slices, searches and replacements against definitions on lists; storage shared by
    counting its holders.
  \<^item> \<open>Random_Numbers\<close> (\<^verbatim>\<open>random.cpp\<close>): the generator, whose state is never zero, and numbers in a range,
    which it draws with equal weight.
  \<^item> \<open>Datetime\<close> (\<^verbatim>\<open>datetime.cpp\<close>): civil dates from day numbers and back, against a calendar that
    counts day by day; time stamps and ISO-8601 text.

  Bounds and fuel. Recursive parse functions are indexed by the number of levels of recursion
  allowed below them and loops by the number of rounds; both end in the error \<open>Out_of_fuel\<close>,
  which the code does not have. The entry point allows \<open>parse_fuel\<close> levels, twice the weight of
  the tokens and two more, a token weighing one, and a string literal as much as it has
  characters: the expressions embedded in it are lexed and parsed in their turn. A level that
  does not reduce the weight is followed by one that does, so the error never comes
  (\<open>parsing_terminates\<close>).
  The code's own limit of 1000 nested statements and expressions is modelled as it is, and so is the
  limit of 10000 on expansions by plugins. Integers keep the widths of the code wherever they can
  wrap or overflow. Undefined behaviour (null dereferences, reads out of bounds, signed overflow)
  is an error value of its own, distinct from the exceptions of the code.

  Not modelled. The visitors of the semantic analyzer, which walk the syntax tree and ask the
  questions that are modelled, its resolution of written types and aliases, and the positions of its
  diagnostics. The code generator, which consists of calls of the LLVM
  libraries, which are not part of the repository. The driver, the package manager and the loader
  of dynamic libraries, the network, file system and process services are operating-system calls.
  Threads: the operations of the runtime are modelled one after another, as their mutexes order
  them, and those of the scheduler as the steps of a relation; affinity, the switching of stacks, the
  executor for blocking calls and the socket reactors are not modelled. Text written to the standard error stream is kept only
  where a property speaks of it.
\<close>

end
